(* ===== verification/Prelude.thy ===== *)
theory Prelude
  imports
    Complex_Main
    "HOL-Library.Product_Lexorder"
    "HOL-Library.Word"
    "HOL-Library.Code_Target_Nat"
begin

text \<open>
  Shared vocabulary of the development: the pieces of the JavaScript language and its standard
  library that the sources use (strings, \<open>trim\<close>, case mapping, \<open>split\<close>, \<open>join\<close>, numeric
  strings, stable sorting, insertion-ordered maps), with the generic lemmas the components share.

  A JavaScript string is modelled by \<^typ>\<open>string\<close>, one \<^typ>\<open>char\<close> per code unit, so the text
  that reaches the model is the Latin-1 part of what the program can see; case mapping is the
  ASCII one. Times are milliseconds since the epoch, as \<^typ>\<open>int\<close>. \<open>null\<close> and \<open>undefined\<close>
  are \<^term>\<open>None\<close>.
\<close>

named_theorems js_defs \<open>definitions of library operations\<close>

type_synonym time = int
type_synonym ip_text = string

unbundle bit_operations_syntax

section \<open>Characters and strings\<close>

abbreviation char_code :: "char \<Rightarrow> nat" where
  "char_code c \<equiv> of_char c"

definition is_space :: "char \<Rightarrow> bool" where
  "is_space c \<longleftrightarrow> char_code c \<in> {9, 10, 11, 12, 13, 32, 160}"

definition is_digit :: "char \<Rightarrow> bool" where
  "is_digit c \<longleftrightarrow> 48 \<le> char_code c \<and> char_code c \<le> 57"

definition is_lower :: "char \<Rightarrow> bool" where
  "is_lower c \<longleftrightarrow> 97 \<le> char_code c \<and> char_code c \<le> 122"

definition is_upper :: "char \<Rightarrow> bool" where
  "is_upper c \<longleftrightarrow> 65 \<le> char_code c \<and> char_code c \<le> 90"

text \<open>
  The letters that \<open>toLowerCase\<close> and \<open>toUpperCase\<close> change. Both work on all of Latin-1, not on ASCII alone: the
  accented capitals are the codes 192 to 222 without the multiplication sign, the small ones those 32 above. The
  sharp s, the y with diaeresis and the micro sign have no capital of one character within Latin-1 and are kept.
\<close>

definition has_lower :: "char \<Rightarrow> bool" where
  "has_lower c \<longleftrightarrow> is_upper c \<or> 192 \<le> char_code c \<and> char_code c \<le> 222 \<and> char_code c \<noteq> 215"

definition has_upper :: "char \<Rightarrow> bool" where
  "has_upper c \<longleftrightarrow> is_lower c \<or> 224 \<le> char_code c \<and> char_code c \<le> 254 \<and> char_code c \<noteq> 247"

definition lower_char :: "char \<Rightarrow> char" where
  "lower_char c = (if has_lower c then char_of (char_code c + 32) else c)"

definition upper_char :: "char \<Rightarrow> char" where
  "upper_char c = (if has_upper c then char_of (char_code c - 32) else c)"

definition to_lower :: "string \<Rightarrow> string" where
  "to_lower s = map lower_char s"

definition to_upper :: "string \<Rightarrow> string" where
  "to_upper s = map upper_char s"

definition trim_start :: "string \<Rightarrow> string" where
  "trim_start s = dropWhile is_space s"

definition trim :: "string \<Rightarrow> string" where
  "trim s = rev (dropWhile is_space (rev (trim_start s)))"

lemmas char_class_defs = is_space_def is_digit_def is_lower_def is_upper_def has_lower_def has_upper_def

lemma code_lt_256: "char_code c < 256"
  by simp

lemma code_lower_char: "char_code (lower_char c) = (if has_lower c then char_code c + 32 else char_code c)"
  by (auto simp: lower_char_def has_lower_def is_upper_def)

lemma code_upper_char: "char_code (upper_char c) = (if has_upper c then char_code c - 32 else char_code c)"
proof (cases "has_upper c")
  case True
  moreover have "(char_code c - 32) mod 256 = char_code c - 32"
    using code_lt_256 [of c] by (intro mod_less) linarith
  ultimately show ?thesis by (simp add: upper_char_def)
qed (simp add: upper_char_def)

lemma char_eq_code_iff: "c = d \<longleftrightarrow> char_code c = char_code d"
  by simp

lemma lower_char_idem [simp]: "lower_char (lower_char c) = lower_char c"
  unfolding char_eq_code_iff code_lower_char
  by (simp add: code_lower_char has_lower_def is_upper_def)

lemma upper_char_idem [simp]: "upper_char (upper_char c) = upper_char c"
  unfolding char_eq_code_iff code_upper_char
  by (auto simp: code_upper_char has_upper_def is_lower_def)

lemma to_lower_idem [simp]: "to_lower (to_lower s) = to_lower s"
  by (simp add: to_lower_def)

lemma to_upper_idem [simp]: "to_upper (to_upper s) = to_upper s"
  by (simp add: to_upper_def)

lemma length_to_lower [simp]: "length (to_lower s) = length s"
  by (simp add: to_lower_def)

lemma length_to_upper [simp]: "length (to_upper s) = length s"
  by (simp add: to_upper_def)


text \<open>\<open>s.split(c)\<close> for a one-character separator: never the empty list.\<close>

fun split_on :: "char \<Rightarrow> string \<Rightarrow> string list" where
  "split_on d [] = [[]]"
| "split_on d (c # cs) =
     (if c = d then [] # split_on d cs
      else (case split_on d cs of [] \<Rightarrow> [[c]] | w # ws \<Rightarrow> (c # w) # ws))"

text \<open>\<open>s.split(sep)\<close> for a two-character separator, scanning from the left.\<close>

fun split_on2 :: "char \<Rightarrow> char \<Rightarrow> string \<Rightarrow> string list" where
  "split_on2 d e (c # c' # cs) =
     (if c = d \<and> c' = e then [] # split_on2 d e cs
      else (case split_on2 d e (c' # cs) of [] \<Rightarrow> [[c]] | w # ws \<Rightarrow> (c # w) # ws))"
| "split_on2 d e cs = [cs]"

text \<open>\<open>parts.join(sep)\<close>.\<close>

fun join :: "string \<Rightarrow> string list \<Rightarrow> string" where
  "join sep [] = []"
| "join sep [w] = w"
| "join sep (w # ws) = w @ sep @ join sep ws"

definition starts_with :: "string \<Rightarrow> string \<Rightarrow> bool" where
  "starts_with p s \<longleftrightarrow> take (length p) s = p"

definition ends_with :: "string \<Rightarrow> string \<Rightarrow> bool" where
  "ends_with p s \<longleftrightarrow> length p \<le> length s \<and> drop (length s - length p) s = p"

lemma split_on_not_Nil [simp]: "split_on d s \<noteq> []"
  by (cases s) (auto split: list.splits)

lemma split_on2_not_Nil [simp]: "split_on2 d e s \<noteq> []"
  by (induction d e s rule: split_on2.induct) (auto split: list.splits)

lemma split_on_clean: "d \<notin> set s \<Longrightarrow> split_on d s = [s]"
  by (induction s) auto

lemma split_on_append: "d \<notin> set w \<Longrightarrow> split_on d (w @ d # s) = w # split_on d s"
  by (induction w) auto

lemma split_on_no_sep: "w \<in> set (split_on d s) \<Longrightarrow> d \<notin> set w"
  by (induction s arbitrary: w) (auto split: if_splits list.splits)

lemma split_on_chars: "c \<in> set s \<Longrightarrow> c = d \<or> (\<exists>w \<in> set (split_on d s). c \<in> set w)"
  by (induction s) (auto split: list.splits)

lemma dropWhile_none: "\<forall>x \<in> set xs. \<not> P x \<Longrightarrow> dropWhile P xs = xs"
  by (cases xs) simp_all

lemma trim_clean: "\<forall>c \<in> set s. \<not> is_space c \<Longrightarrow> trim s = s"
  by (simp add: trim_def trim_start_def dropWhile_none)

lemma split_on_join:
  assumes "ws \<noteq> []" and "\<forall>w \<in> set ws. d \<notin> set w"
  shows "split_on d (join [d] ws) = ws"
  using assms
proof (induction "[d]" ws rule: join.induct)
  case (2 w)
  then show ?case by (simp add: split_on_clean)
next
  case (3 w v vs)
  then show ?case by (simp add: split_on_append)
qed simp

lemma split_on2_clean: "d \<notin> set s \<Longrightarrow> split_on2 d e s = [s]"
  by (induction d e s rule: split_on2.induct) auto

lemma split_on2_chars: "c \<in> set s \<Longrightarrow> c = d \<or> c = e \<or> (\<exists>w \<in> set (split_on2 d e s). c \<in> set w)"
  by (induction d e s rule: split_on2.induct) (auto split: list.splits if_splits)

section \<open>Digits and numerals\<close>

definition digit_char :: "nat \<Rightarrow> char" where
  "digit_char n = (if n < 10 then char_of (48 + n) else char_of (87 + n))"

definition digit_value :: "char \<Rightarrow> nat option" where
  "digit_value c =
     (let n = char_code c in
      if 48 \<le> n \<and> n \<le> 57 then Some (n - 48)
      else if 97 \<le> n \<and> n \<le> 102 then Some (n - 87)
      else if 65 \<le> n \<and> n \<le> 70 then Some (n - 55)
      else None)"

definition is_digit_of :: "nat \<Rightarrow> char \<Rightarrow> bool" where
  "is_digit_of b c \<longleftrightarrow> (case digit_value c of None \<Rightarrow> False | Some v \<Rightarrow> v < b)"

definition digits_value :: "nat \<Rightarrow> string \<Rightarrow> nat" where
  "digits_value b s = foldl (\<lambda>a c. a * b + (case digit_value c of None \<Rightarrow> 0 | Some v \<Rightarrow> v)) 0 s"

text \<open>\<open>n.toString(b)\<close> for a base from 2 to 16.\<close>

fun to_base :: "nat \<Rightarrow> nat \<Rightarrow> string" where
  "to_base b n =
     (if b < 2 \<or> n < b then [digit_char n] else to_base b (n div b) @ [digit_char (n mod b)])"

declare to_base.simps [simp del]

abbreviation nat_text :: "nat \<Rightarrow> string" where
  "nat_text n \<equiv> to_base 10 n"

definition int_text :: "int \<Rightarrow> string" where
  "int_text i = (if i < 0 then ''-'' @ nat_text (nat (- i)) else nat_text (nat i))"

lemma digit_value_digit_char: "n < 16 \<Longrightarrow> digit_value (digit_char n) = Some n"
  by (auto simp: digit_value_def digit_char_def Let_def)

lemma mod_base_bound: "2 \<le> b \<Longrightarrow> b \<le> 16 \<Longrightarrow> n mod b < (16::nat)"
  by (rule less_le_trans [of _ b]) simp_all

lemma digits_value_append:
  "digits_value b (s @ [c]) = digits_value b s * b + (case digit_value c of None \<Rightarrow> 0 | Some v \<Rightarrow> v)"
  by (simp add: digits_value_def)

lemma to_base_not_Nil [simp]: "to_base b n \<noteq> []"
  by (subst to_base.simps) simp

lemma to_base_digits: "b \<le> 16 \<Longrightarrow> 2 \<le> b \<Longrightarrow> c \<in> set (to_base b n) \<Longrightarrow> is_digit_of b c"
proof (induction b n rule: to_base.induct)
  case (1 b n)
  show ?case
  proof (cases "n < b")
    case True
    with 1 show ?thesis
      by (simp add: to_base.simps [of b n] is_digit_of_def digit_value_digit_char)
  next
    case False
    have "n mod b < b" using 1 by simp
    with 1 False show ?thesis
      by (auto simp: to_base.simps [of b n] is_digit_of_def digit_value_digit_char mod_base_bound)
  qed
qed

lemma hd_to_base:
  "2 \<le> b \<Longrightarrow> b \<le> 16 \<Longrightarrow> 0 < n \<Longrightarrow> hd (to_base b n) \<noteq> CHR ''0''"
proof (induction b n rule: to_base.induct)
  case (1 b n)
  show ?case
  proof (cases "n < b")
    case True
    with 1 have "digit_value (digit_char n) = Some n" by (intro digit_value_digit_char) simp
    moreover have "digit_value CHR ''0'' = Some 0" by (simp add: digit_value_def)
    ultimately have "digit_char n \<noteq> CHR ''0''" using 1 by auto
    with True show ?thesis by (simp add: to_base.simps [of b n])
  next
    case False
    with 1 have "hd (to_base b (n div b)) \<noteq> CHR ''0''"
      by (simp add: div_greater_zero_iff)
    with False 1 show ?thesis by (simp add: to_base.simps [of b n])
  qed
qed

lemma digits_value_to_base:
  assumes "2 \<le> b" and "b \<le> 16"
  shows "digits_value b (to_base b n) = n"
  using assms
proof (induction b n rule: to_base.induct)
  case (1 b n)
  show ?case
  proof (cases "n < b")
    case True
    with 1 show ?thesis
      by (simp add: to_base.simps [of b n] digits_value_def digit_value_digit_char)
  next
    case False
    with 1 have "digits_value b (to_base b (n div b)) = n div b" by simp
    moreover have "digit_value (digit_char (n mod b)) = Some (n mod b)"
      using "1.prems" by (intro digit_value_digit_char mod_base_bound)
    ultimately show ?thesis
      using False "1.prems" by (simp add: to_base.simps [of b n] digits_value_append)
  qed
qed

lemma length_to_base:
  "2 \<le> b \<Longrightarrow> 0 < k \<Longrightarrow> n < b ^ k \<Longrightarrow> length (to_base b n) \<le> k"
proof (induction k arbitrary: n)
  case (Suc k)
  show ?case
  proof (cases "n < b")
    case True
    then show ?thesis by (simp add: to_base.simps [of b n])
  next
    case False
    with Suc.prems have "k \<noteq> 0" by (cases k) auto
    moreover from Suc.prems have "n div b < b ^ k"
      by (simp add: less_mult_imp_div_less mult.commute)
    ultimately have "length (to_base b (n div b)) \<le> k" using Suc by simp
    with False show ?thesis by (simp add: to_base.simps [of b n])
  qed
qed simp


section \<open>\<open>Number(text)\<close>\<close>

text \<open>
  A number as the sources compare it. Finite values are exact rationals: rounding to 53 bits is
  not modelled, the integers the sources accept are far below that bound.
\<close>

datatype jsnum = NaN | Infinite bool | Fin rat

definition all_digits :: "string \<Rightarrow> bool" where
  "all_digits s \<longleftrightarrow> s \<noteq> [] \<and> list_all is_digit s"

definition strip_sign :: "string \<Rightarrow> bool \<times> string" where
  "strip_sign s = (case s of [] \<Rightarrow> (False, [])
     | c # cs \<Rightarrow> if c = CHR ''-'' then (True, cs) else if c = CHR ''+'' then (False, cs) else (False, s))"

definition pow10 :: "int \<Rightarrow> rat" where
  "pow10 e = (if 0 \<le> e then 10 ^ nat e else 1 / 10 ^ nat (- e))"

definition decimal_mantissa :: "string \<Rightarrow> (nat \<times> nat) option" where
  "decimal_mantissa s =
     (let ip = takeWhile is_digit s; rest = dropWhile is_digit s in
      case rest of
        [] \<Rightarrow> if ip = [] then None else Some (digits_value 10 ip, 0)
      | c # fp \<Rightarrow>
          if c = CHR ''.'' \<and> list_all is_digit fp \<and> ip @ fp \<noteq> []
          then Some (digits_value 10 (ip @ fp), length fp) else None)"

definition decimal_exponent :: "string \<Rightarrow> int option" where
  "decimal_exponent s =
     (let (neg, ds) = strip_sign s in
      if all_digits ds then Some (if neg then - int (digits_value 10 ds) else int (digits_value 10 ds))
      else None)"

definition is_exp_mark :: "char \<Rightarrow> bool" where
  "is_exp_mark c \<longleftrightarrow> c = CHR ''e'' \<or> c = CHR ''E''"

definition unsigned_decimal :: "string \<Rightarrow> rat option" where
  "unsigned_decimal s =
     (let m = takeWhile (Not \<circ> is_exp_mark) s; r = dropWhile (Not \<circ> is_exp_mark) s in
      case decimal_mantissa m of
        None \<Rightarrow> None
      | Some (v, k) \<Rightarrow>
          (case r of
             [] \<Rightarrow> Some (of_nat v * pow10 (- int k))
           | _ # e \<Rightarrow> (case decimal_exponent e of None \<Rightarrow> None
                       | Some x \<Rightarrow> Some (of_nat v * pow10 (x - int k)))))"

definition radix_prefix :: "string \<Rightarrow> nat option" where
  "radix_prefix s =
     (let p = to_lower (take 2 s) in
      if p = ''0x'' then Some 16 else if p = ''0o'' then Some 8 else if p = ''0b'' then Some 2 else None)"

definition js_number :: "string \<Rightarrow> jsnum" where
  "js_number s =
     (let t = trim s in
      if t = [] then Fin 0
      else case radix_prefix t of
        Some b \<Rightarrow> let ds = drop 2 t in
          if ds \<noteq> [] \<and> list_all (is_digit_of b) ds then Fin (of_nat (digits_value b ds)) else NaN
      | None \<Rightarrow>
          (let (neg, u) = strip_sign t in
           if u = ''Infinity'' then Infinite neg
           else case unsigned_decimal u of None \<Rightarrow> NaN
             | Some r \<Rightarrow> Fin (if neg then - r else r)))"

text \<open>\<open>Number.isInteger(x)\<close>, giving the integer.\<close>

definition js_integer :: "jsnum \<Rightarrow> int option" where
  "js_integer x = (case x of Fin r \<Rightarrow> if of_int \<lfloor>r\<rfloor> = r then Some \<lfloor>r\<rfloor> else None | _ \<Rightarrow> None)"

definition js_safe_integer :: "jsnum \<Rightarrow> int option" where
  "js_safe_integer x = (case js_integer x of None \<Rightarrow> None
     | Some i \<Rightarrow> if \<bar>i\<bar> < 2 ^ 53 then Some i else None)"

lemma js_number_blank: "trim s = [] \<Longrightarrow> js_number s = Fin 0"
  by (simp add: js_number_def)

lemma js_integer_Fin_of_int [simp]: "js_integer (Fin (of_int i)) = Some i"
  by (simp add: js_integer_def)

section \<open>Stable sorting and first match\<close>

text \<open>
  \<open>Array.prototype.sort\<close> is stable, as \<^const>\<open>sort_key\<close> is; a comparator \<open>a || b\<close> is the
  lexicographic order of the two keys.
\<close>

lemma find_in: "find P xs = Some x \<Longrightarrow> x \<in> set xs \<and> P x"
  by (induction xs) (auto split: if_splits)

lemma find_sort_key_SomeD:
  assumes "find P (sort_key f xs) = Some x"
  shows "x \<in> set xs" and "P x" and "\<And>y. y \<in> set xs \<Longrightarrow> P y \<Longrightarrow> f x \<le> f y"
proof -
  from assms obtain i where i: "i < length (sort_key f xs)" "P (sort_key f xs ! i)"
      "x = sort_key f xs ! i" and first: "\<forall>j<i. \<not> P (sort_key f xs ! j)"
    by (auto simp: find_Some_iff)
  from i show "x \<in> set xs" by (metis nth_mem set_sort)
  from i show "P x" by simp
  fix y assume "y \<in> set xs" and Py: "P y"
  then obtain j where j: "j < length (sort_key f xs)" "y = sort_key f xs ! j"
    by (metis in_set_conv_nth set_sort)
  with Py first have "i \<le> j" by (metis leI)
  moreover have "sorted (map f (sort_key f xs))" by simp
  ultimately show "f x \<le> f y" using i j
    by (metis length_map nth_map sorted_nth_mono)
qed

lemma find_sort_key_None: "find P (sort_key f xs) = None \<longleftrightarrow> (\<forall>x \<in> set xs. \<not> P x)"
  by (auto simp: find_None_iff)

lemma hd_sort_key:
  assumes "xs \<noteq> []"
  shows "hd (sort_key f xs) \<in> set xs" and "y \<in> set xs \<Longrightarrow> f (hd (sort_key f xs)) \<le> f y"
proof -
  from assms have ne: "sort_key f xs \<noteq> []"
    by (metis length_0_conv length_sort)
  then have fnd: "find (\<lambda>_. True) (sort_key f xs) = Some (hd (sort_key f xs))"
    by (cases "sort_key f xs") auto
  from find_sort_key_SomeD [OF fnd] show "hd (sort_key f xs) \<in> set xs"
    and "y \<in> set xs \<Longrightarrow> f (hd (sort_key f xs)) \<le> f y" by auto
qed

section \<open>Insertion-ordered maps\<close>

text \<open>
  A JavaScript \<open>Map\<close>: \<open>set\<close> on a present key keeps its position, on a new key appends;
  iteration follows the list.
\<close>

type_synonym ('k, 'v) omap = "('k \<times> 'v) list"

definition om_get :: "('k, 'v) omap \<Rightarrow> 'k \<Rightarrow> 'v option" where
  "om_get m k = map_of m k"

fun om_set :: "'k \<Rightarrow> 'v \<Rightarrow> ('k, 'v) omap \<Rightarrow> ('k, 'v) omap" where
  "om_set k v [] = [(k, v)]"
| "om_set k v ((k', v') # m) = (if k' = k then (k, v) # m else (k', v') # om_set k v m)"

definition om_delete :: "'k \<Rightarrow> ('k, 'v) omap \<Rightarrow> ('k, 'v) omap" where
  "om_delete k m = filter (\<lambda>p. fst p \<noteq> k) m"

definition om_keys :: "('k, 'v) omap \<Rightarrow> 'k list" where
  "om_keys m = map fst m"

definition om_values :: "('k, 'v) omap \<Rightarrow> 'v list" where
  "om_values m = map snd m"

definition om_inv :: "('k, 'v) omap \<Rightarrow> bool" where
  "om_inv m \<longleftrightarrow> distinct (om_keys m)"

lemma om_keys_set: "set (om_keys (om_set k v m)) = insert k (set (om_keys m))"
  by (induction k v m rule: om_set.induct) (auto simp: om_keys_def)

lemma om_get_set: "om_get (om_set k v m) = (om_get m)(k \<mapsto> v)"
  by (induction k v m rule: om_set.induct) (auto simp: om_get_def)

lemma om_inv_set: "om_inv m \<Longrightarrow> om_inv (om_set k v m)"
proof (induction k v m rule: om_set.induct)
  case (2 k v k' v' m)
  show ?case
  proof (cases "k' = k")
    case False
    with 2 have "om_inv (om_set k v m)" and "k' \<notin> set (om_keys (om_set k v m))"
      by (simp_all add: om_keys_set) (simp_all add: om_inv_def om_keys_def)
    with False show ?thesis by (simp add: om_inv_def om_keys_def)
  qed (use 2 in \<open>simp add: om_inv_def om_keys_def\<close>)
qed (simp add: om_inv_def om_keys_def)

lemma om_get_delete: "om_get (om_delete k m) = (om_get m)(k := None)"
  by (induction m) (auto simp: om_get_def om_delete_def)

lemma om_inv_delete: "om_inv m \<Longrightarrow> om_inv (om_delete k m)"
  by (auto simp: om_inv_def om_keys_def om_delete_def distinct_map_filter)

lemma om_keys_delete: "set (om_keys (om_delete k m)) = set (om_keys m) - {k}"
  by (auto simp: om_keys_def om_delete_def)

lemma om_get_None_iff: "om_get m k = None \<longleftrightarrow> k \<notin> set (om_keys m)"
  by (auto simp: om_get_def om_keys_def map_of_eq_None_iff)

lemma om_set_fresh: "k \<notin> set (om_keys m) \<Longrightarrow> om_set k v m = m @ [(k, v)]"
  by (induction k v m rule: om_set.induct) (auto simp: om_keys_def)

lemma om_delete_fresh: "k \<notin> set (om_keys m) \<Longrightarrow> om_delete k m = m"
  by (auto simp: om_keys_def om_delete_def filter_id_conv)

text \<open>
  The contract of a keyed store with an invariant: what is read after a write or a deletion. What
  follows for a run of deletions is proved once here.
\<close>

locale keyed_store =
  fixes inv :: "'s \<Rightarrow> bool"
    and get :: "'s \<Rightarrow> 'k \<Rightarrow> 'v option"
    and put :: "'k \<Rightarrow> 'v \<Rightarrow> 's \<Rightarrow> 's"
    and del :: "'k \<Rightarrow> 's \<Rightarrow> 's"
  assumes inv_put: "inv s \<Longrightarrow> inv (put k v s)"
    and inv_del: "inv s \<Longrightarrow> inv (del k s)"
    and get_put: "inv s \<Longrightarrow> get (put k v s) k' = (if k' = k then Some v else get s k')"
    and get_del: "inv s \<Longrightarrow> get (del k s) k' = (if k' = k then None else get s k')"
begin

lemma inv_dels: "inv s \<Longrightarrow> inv (fold del ks s)"
  by (induction ks arbitrary: s) (simp_all add: inv_del)

lemma get_dels: "inv s \<Longrightarrow> get (fold del ks s) k = (if k \<in> set ks then None else get s k)"
  by (induction ks arbitrary: s) (auto simp: inv_del get_del)

end

interpretation om: keyed_store om_inv om_get om_set om_delete
  by unfold_locales (simp_all add: om_inv_set om_inv_delete om_get_set om_get_delete)

section \<open>Read-through caches\<close>

text \<open>
  A service that keeps, per key, the value it computed from its tables, until the key is
  invalidated. \<open>coherent\<close> is the contract of such a cache: what it holds is what a fresh load
  would give.
\<close>

locale read_through_cache =
  fixes load :: "'db \<Rightarrow> 'k \<Rightarrow> 'v"
    and get :: "'k \<Rightarrow> 's \<Rightarrow> 'v \<times> 's"
    and db :: "'s \<Rightarrow> 'db"
    and cache :: "'s \<Rightarrow> 'k \<rightharpoonup> 'v"
  assumes get_hit: "cache s k = Some v \<Longrightarrow> get k s = (v, s)"
    and get_miss: "cache s k = None \<Longrightarrow>
      fst (get k s) = load (db s) k \<and> db (snd (get k s)) = db s
      \<and> cache (snd (get k s)) = (cache s)(k \<mapsto> load (db s) k)"
begin

definition coherent :: "'s \<Rightarrow> bool" where
  "coherent s \<longleftrightarrow> (\<forall>k v. cache s k = Some v \<longrightarrow> v = load (db s) k)"

lemma get_value: "coherent s \<Longrightarrow> fst (get k s) = load (db s) k"
  by (cases "cache s k") (auto simp: get_miss get_hit coherent_def)

lemma get_db: "db (snd (get k s)) = db s"
  by (cases "cache s k") (auto simp: get_miss get_hit)

lemma get_coherent: "coherent s \<Longrightarrow> coherent (snd (get k s))"
  by (cases "cache s k") (auto simp: get_miss get_hit coherent_def)

lemma write_coherent:
  assumes "coherent s" and "cache s' = (cache s)(k := None)"
    and "\<And>j. j \<noteq> k \<Longrightarrow> load (db s') j = load (db s) j"
  shows "coherent s'"
  using assms by (auto simp: coherent_def split: if_splits)

lemma empty_coherent: "cache s = Map.empty \<Longrightarrow> coherent s"
  by (simp add: coherent_def)

end

section \<open>Quorums\<close>

text \<open>Any two quorums share a voter, so voters that back one choice each back one choice at most.\<close>

locale quorum_system =
  fixes quorum :: "'v set \<Rightarrow> bool"
  assumes quorums_meet: "quorum A \<Longrightarrow> quorum B \<Longrightarrow> A \<inter> B \<noteq> {}"
begin

lemma one_choice:
  assumes "quorum A" and "quorum B" and "\<forall>v \<in> A. backs v x" and "\<forall>v \<in> B. backs v y"
    and "\<And>v. backs v x \<Longrightarrow> backs v y \<Longrightarrow> x = y"
  shows "x = y"
  using quorums_meet [OF assms(1,2)] assms(3-5) by blast

end

section \<open>Bit shifts on natural numbers\<close>

lemma or_push_bit:
  assumes "b < 2 ^ n"
  shows "push_bit n a OR b = a * 2 ^ n + (b::nat)"
proof -
  have "push_bit n a AND b = 0"
  proof (rule bit_eqI)
    fix k
    show "bit (push_bit n a AND b) k \<longleftrightarrow> bit (0::nat) k"
    proof (cases "n \<le> k")
      case True
      then have "b < 2 ^ k" using assms by (meson less_le_trans one_le_numeral power_increasing)
      then have "\<not> bit b k" by (simp add: bit_iff_odd)
      then show ?thesis by (simp add: bit_and_iff)
    qed (simp add: bit_and_iff bit_push_bit_iff)
  qed
  then show ?thesis
    by (metis disjunctive_add_eq_or push_bit_eq_mult)
qed

lemma and_mask_nat: "(v::nat) AND (2 ^ n - 1) = v mod 2 ^ n"
  by (metis mask_eq_exp_minus_1 take_bit_eq_mask take_bit_eq_mod)

lemma and_255: "(v::nat) AND 255 = v mod 256"
  using and_mask_nat [of v 8] by simp

lemma and_65535: "(v::nat) AND 65535 = v mod 65536"
  using and_mask_nat [of v 16] by simp

lemma and_32bit: "(v::nat) AND 4294967295 = v mod 4294967296"
  using and_mask_nat [of v 32] by simp

lemmas shift_nat = drop_bit_eq_div push_bit_eq_mult and_255 and_65535 and_32bit

end
