(* ===== verification/Ip_Address.thy ===== *)
theory Ip_Address
  imports Prelude
begin

text \<open>
  \<open>src/src/utils/ip.ts\<close>: parsing IPv4 and IPv6 addresses and CIDR blocks, membership of an
  address in a block, the private ranges and the split of a block list by family. \<open>isIP\<close> of
  \<open>node:net\<close> is modelled by its documented grammar: \<open>is_ipv4\<close> and \<open>is_ipv6\<close>. A
  \<open>bigint\<close> address is a \<^typ>\<open>nat\<close>; shifts are \<^const>\<open>push_bit\<close> and \<^const>\<open>drop_bit\<close>.
\<close>

section \<open>Data\<close>

datatype ip_version = V4 | V6

record parsed_ip =
  ip_version :: ip_version
  ip_value :: nat
  ip_bits :: nat

record parsed_cidr =
  cidr_version :: ip_version
  cidr_network :: nat
  cidr_prefix :: nat
  cidr_bits :: nat

section \<open>\<open>isIP\<close> of \<open>node:net\<close>\<close>

definition strict_octet :: "string \<Rightarrow> bool" where
  "strict_octet p \<longleftrightarrow> all_digits p \<and> length p \<le> 3 \<and> (length p > 1 \<longrightarrow> hd p \<noteq> CHR ''0'')
     \<and> digits_value 10 p \<le> 255"

definition is_ipv4 :: "string \<Rightarrow> bool" where
  "is_ipv4 s \<longleftrightarrow> (let ps = split_on CHR ''.'' s in length ps = 4 \<and> list_all strict_octet ps)"

definition hex_group :: "string \<Rightarrow> bool" where
  "hex_group g \<longleftrightarrow> g \<noteq> [] \<and> length g \<le> 4 \<and> list_all (is_digit_of 16) g"

text \<open>The number of 16-bit groups; a dotted quad may stand last and counts twice.\<close>

fun v6_groups :: "string list \<Rightarrow> nat option" where
  "v6_groups [] = Some 0"
| "v6_groups [g] = (if hex_group g then Some 1 else if is_ipv4 g then Some 2 else None)"
| "v6_groups (g # gs) = (if hex_group g then map_option Suc (v6_groups gs) else None)"

definition zone_char :: "char \<Rightarrow> bool" where
  "zone_char c \<longleftrightarrow> is_digit c \<or> is_lower c \<or> is_upper c \<or> c \<in> {CHR ''-'', CHR ''.'', CHR '':''}"

definition colon_parts :: "string \<Rightarrow> string list" where
  "colon_parts h = (if h = [] then [] else split_on CHR '':'' h)"

definition is_ipv6_body :: "string \<Rightarrow> bool" where
  "is_ipv6_body b = (case split_on2 CHR '':'' CHR '':'' b of
       [w] \<Rightarrow> v6_groups (split_on CHR '':'' w) = Some 8
     | [l, r] \<Rightarrow> list_all hex_group (colon_parts l) \<and>
         (case v6_groups (colon_parts r) of None \<Rightarrow> False | Some n \<Rightarrow> length (colon_parts l) + n \<le> 7)
     | _ \<Rightarrow> False)"

definition drop_zone :: "string \<Rightarrow> string" where
  "drop_zone s = takeWhile (\<lambda>c. c \<noteq> CHR ''%'') s"

definition zone_ok :: "string \<Rightarrow> bool" where
  "zone_ok s = (case dropWhile (\<lambda>c. c \<noteq> CHR ''%'') s of
       [] \<Rightarrow> True | _ # z \<Rightarrow> z \<noteq> [] \<and> list_all zone_char z)"

definition is_ipv6 :: "string \<Rightarrow> bool" where
  "is_ipv6 s \<longleftrightarrow> zone_ok s \<and> is_ipv6_body (drop_zone s)"

definition is_ip :: "string \<Rightarrow> nat" where
  "is_ip s = (if is_ipv4 s then 4 else if is_ipv6 s then 6 else 0)"

section \<open>Parsing\<close>

text \<open>\<open>result = (result << 8n) | BigInt(value)\<close> over the four parts.\<close>

fun ipv4_loop :: "nat \<Rightarrow> string list \<Rightarrow> nat option" where
  "ipv4_loop r [] = Some r"
| "ipv4_loop r (p # ps) =
     (if \<not> (all_digits p \<and> length p \<le> 3) then None
      else let v = digits_value 10 p in
        if v > 255 then None else ipv4_loop (push_bit 8 r OR v) ps)"

definition parse_ipv4 :: "string \<Rightarrow> nat option" where
  "parse_ipv4 ip = (let parts = split_on CHR ''.'' ip in
     if length parts \<noteq> 4 then None else ipv4_loop 0 parts)"

fun ipv6_loop :: "nat \<Rightarrow> string list \<Rightarrow> nat option" where
  "ipv6_loop r [] = Some r"
| "ipv6_loop r (g # gs) =
     (if \<not> hex_group g then None else ipv6_loop (push_bit 16 r OR digits_value 16 g) gs)"

definition after_last_colon :: "string \<Rightarrow> string" where
  "after_last_colon s = rev (takeWhile (\<lambda>c. c \<noteq> CHR '':'') (rev s))"

definition before_last_colon :: "string \<Rightarrow> string" where
  "before_last_colon s = take (length s - length (after_last_colon s) - 1) s"

text \<open>The rewriting of a trailing dotted quad into two hexadecimal groups.\<close>

definition expand_quad :: "string \<Rightarrow> string option" where
  "expand_quad s =
     (if CHR ''.'' \<in> set s then
        (case parse_ipv4 (after_last_colon s) of
           None \<Rightarrow> None
         | Some v4 \<Rightarrow> if CHR '':'' \<notin> set s then None
             else Some (before_last_colon s @ '':'' @ to_base 16 (drop_bit 16 v4 AND 65535)
                        @ '':'' @ to_base 16 (v4 AND 65535)))
      else Some s)"

definition parse_ipv6 :: "string \<Rightarrow> nat option" where
  "parse_ipv6 ip =
     (case expand_quad (drop_zone (to_lower ip)) of
        None \<Rightarrow> None
      | Some normalized \<Rightarrow>
          let halves = split_on2 CHR '':'' CHR '':'' normalized in
          if length halves > 2 then None
          else
            let left = colon_parts (halves ! 0);
                right = (if length halves = 2 then colon_parts (halves ! 1) else []);
                used = length left + length right
            in if (length halves = 1 \<and> used \<noteq> 8) \<or> used > 8 then None
               else ipv6_loop 0 (left @ replicate (8 - used) ''0'' @ right))"

definition parse_ip :: "string \<Rightarrow> parsed_ip option" where
  "parse_ip ip =
     (if is_ip ip = 4 then map_option (\<lambda>v. \<lparr>ip_version = V4, ip_value = v, ip_bits = 32\<rparr>) (parse_ipv4 ip)
      else if is_ip ip = 6 then map_option (\<lambda>v. \<lparr>ip_version = V6, ip_value = v, ip_bits = 128\<rparr>) (parse_ipv6 ip)
      else None)"

definition mask_low :: "nat \<Rightarrow> nat \<Rightarrow> nat" where
  "mask_low shift v = (if shift = 0 then v else push_bit shift (drop_bit shift v))"

definition parse_cidr :: "string \<Rightarrow> parsed_cidr option" where
  "parse_cidr input =
     (let parts = split_on CHR ''/'' (trim input); address = hd parts in
      if address = [] then None
      else case parse_ip address of
        None \<Rightarrow> None
      | Some p \<Rightarrow>
          (case (if length parts < 2 then Some (int (ip_bits p)) else js_integer (js_number (parts ! 1))) of
             None \<Rightarrow> None
           | Some prefix \<Rightarrow>
               if prefix < 0 \<or> prefix > int (ip_bits p) then None
               else let shift = ip_bits p - nat prefix in
                 Some \<lparr>cidr_version = ip_version p, cidr_network = mask_low shift (ip_value p),
                       cidr_prefix = nat prefix, cidr_bits = ip_bits p\<rparr>))"

text \<open>\<open>cidrContains\<close> on a parsed block, and on a block given as text.\<close>

definition cidr_contains :: "parsed_cidr \<Rightarrow> string \<Rightarrow> bool" where
  "cidr_contains c ip =
     (case parse_ip ip of
        None \<Rightarrow> False
      | Some p \<Rightarrow> cidr_version c = ip_version p
          \<and> mask_low (cidr_bits c - cidr_prefix c) (ip_value p) = cidr_network c)"

definition cidr_text_contains :: "string \<Rightarrow> string \<Rightarrow> bool" where
  "cidr_text_contains t ip = (case parse_cidr t of None \<Rightarrow> False | Some c \<Rightarrow> cidr_contains c ip)"

definition private_cidrs :: "string list" where
  "private_cidrs = [''10.0.0.0/8'', ''172.16.0.0/12'', ''192.168.0.0/16'', ''127.0.0.0/8'',
     ''169.254.0.0/16'', ''100.64.0.0/10'', ''::1/128'', ''fc00::/7'', ''fe80::/10'']"

definition ipv4_text :: "nat \<Rightarrow> string" where
  "ipv4_text v = join ''.'' (map (\<lambda>s. nat_text (drop_bit s v AND 255)) [24, 16, 8, 0])"

definition ipv4_from_mapped :: "nat \<Rightarrow> string option" where
  "ipv4_from_mapped v = (if drop_bit 32 v \<noteq> 65535 then None else Some (ipv4_text (v AND 4294967295)))"

definition is_private_ip :: "string \<Rightarrow> bool" where
  "is_private_ip ip =
     (case parse_ip ip of
        None \<Rightarrow> False
      | Some p \<Rightarrow>
          let candidates = (if ip_version p = V6
            then (case ipv4_from_mapped (ip_value p) of None \<Rightarrow> [ip] | Some q \<Rightarrow> [ip, q]) else [ip])
          in list_ex (\<lambda>c. list_ex (\<lambda>r. cidr_text_contains r c) private_cidrs) candidates)"

fun split_cidrs_by_family :: "string list \<Rightarrow> string list \<times> string list" where
  "split_cidrs_by_family [] = ([], [])"
| "split_cidrs_by_family (c # cs) =
     (let (v4, v6) = split_cidrs_by_family cs in
      case parse_cidr c of None \<Rightarrow> (v4, v6)
      | Some p \<Rightarrow> if cidr_version p = V4 then (c # v4, v6) else (v4, c # v6))"


section \<open>Ranges of parsed values\<close>

lemma mask_low_eq: "mask_low s v = v div 2 ^ s * 2 ^ s"
  by (simp add: mask_low_def shift_nat)

lemma shift_in_bound:
  fixes r :: nat
  assumes "r < 2 ^ k" and "b < 2 ^ n"
  shows "push_bit n r OR b < 2 ^ (k + n)"
proof -
  have "Suc r * 2 ^ n \<le> 2 ^ k * 2 ^ n" using assms(1) by (intro mult_right_mono) auto
  with assms(2) show ?thesis by (simp add: or_push_bit power_add)
qed

lemma ipv4_loop_bound:
  "ipv4_loop r ps = Some v \<Longrightarrow> r < 2 ^ k \<Longrightarrow> v < 2 ^ (k + 8 * length ps)"
proof (induction r ps arbitrary: k rule: ipv4_loop.induct)
  case (2 r p ps)
  from 2(2) have d: "digits_value 10 p < 2 ^ 8"
    and rec: "ipv4_loop (push_bit 8 r OR digits_value 10 p) ps = Some v"
    by (auto simp: Let_def split: if_splits)
  from 2(2) have ok: "\<not> \<not> (all_digits p \<and> length p \<le> 3)" "\<not> 255 < digits_value 10 p"
    by (auto simp: Let_def split: if_splits)
  from shift_in_bound [OF 2(3) d] have "push_bit 8 r OR digits_value 10 p < 2 ^ (k + 8)" .
  from 2(1) [OF ok(1) refl ok(2) rec this] show ?case by (simp add: add.assoc)
qed simp

lemma parse_ipv4_bound: "parse_ipv4 s = Some v \<Longrightarrow> v < 2 ^ 32"
  using ipv4_loop_bound [of 0 _ v 0] by (fastforce simp: parse_ipv4_def Let_def split: if_splits)

lemma digits_value_bound: "list_all (is_digit_of b) s \<Longrightarrow> digits_value b s < b ^ length s"
proof (induction s rule: rev_induct)
  case (snoc c s)
  then obtain v where v: "digit_value c = Some v" "v < b"
    by (auto simp: is_digit_of_def split: option.splits)
  from snoc have "Suc (digits_value b s) * b \<le> b ^ length s * b"
    by (intro mult_right_mono) auto
  with v show ?case by (simp add: digits_value_append mult.commute)
qed (simp add: digits_value_def)

lemma hex_group_value: "hex_group g \<Longrightarrow> digits_value 16 g < 2 ^ 16"
proof -
  assume g: "hex_group g"
  then have "digits_value 16 g < 16 ^ length g" by (simp add: hex_group_def digits_value_bound)
  also from g have "(16::nat) ^ length g \<le> 16 ^ 4" by (intro power_increasing) (auto simp: hex_group_def)
  finally show ?thesis by simp
qed

lemma ipv6_loop_Some_iff: "(\<exists>v. ipv6_loop r gs = Some v) \<longleftrightarrow> list_all hex_group gs"
  by (induction r gs rule: ipv6_loop.induct) auto

lemma ipv6_loop_bound:
  "ipv6_loop r gs = Some v \<Longrightarrow> r < 2 ^ k \<Longrightarrow> v < 2 ^ (k + 16 * length gs)"
proof (induction r gs arbitrary: k rule: ipv6_loop.induct)
  case (2 r g gs)
  then have g: "hex_group g" and rec: "ipv6_loop (push_bit 16 r OR digits_value 16 g) gs = Some v"
    by (auto split: if_splits)
  from shift_in_bound [OF 2(3) hex_group_value [OF g]]
  have "push_bit 16 r OR digits_value 16 g < 2 ^ (k + 16)" .
  with 2(1) g rec have "v < 2 ^ ((k + 16) + 16 * length gs)" by blast
  then show ?case by (simp add: add.assoc)
qed simp

lemma parse_ipv6_bound: "parse_ipv6 s = Some v \<Longrightarrow> v < 2 ^ 128"
proof -
  assume "parse_ipv6 s = Some v"
  then obtain gs where "ipv6_loop 0 gs = Some v" "length gs = 8"
    by (auto simp: parse_ipv6_def Let_def split: option.splits if_splits)
  with ipv6_loop_bound [of 0 gs v 0] show ?thesis by simp
qed

definition bits_of :: "ip_version \<Rightarrow> nat" where
  "bits_of ver = (case ver of V4 \<Rightarrow> 32 | V6 \<Rightarrow> 128)"

lemma parse_ip_wf:
  assumes "parse_ip s = Some p"
  shows "ip_bits p = bits_of (ip_version p)" and "ip_value p < 2 ^ ip_bits p"
  using assms parse_ipv4_bound parse_ipv6_bound
  by (auto simp: parse_ip_def bits_of_def split: if_splits)

text \<open>The well-formedness of a parsed block: the host bits of its network are clear.\<close>

definition cidr_wf :: "parsed_cidr \<Rightarrow> bool" where
  "cidr_wf c \<longleftrightarrow> cidr_bits c = bits_of (cidr_version c) \<and> cidr_prefix c \<le> cidr_bits c
     \<and> cidr_network c < 2 ^ cidr_bits c \<and> 2 ^ (cidr_bits c - cidr_prefix c) dvd cidr_network c"

lemma parse_cidr_wf:
  assumes "parse_cidr t = Some c"
  shows "cidr_wf c"
proof -
  from assms obtain p pre where p: "parse_ip (hd (split_on CHR ''/'' (trim t))) = Some p"
    and "(if length (split_on CHR ''/'' (trim t)) < 2 then Some (int (ip_bits p))
          else js_integer (js_number (split_on CHR ''/'' (trim t) ! 1))) = Some pre"
    and pre: "pre \<le> int (ip_bits p)" "0 \<le> pre"
    and c: "c = \<lparr>cidr_version = ip_version p, cidr_network = mask_low (ip_bits p - nat pre) (ip_value p),
       cidr_prefix = nat pre, cidr_bits = ip_bits p\<rparr>"
    unfolding parse_cidr_def Let_def
    by (simp only: not_less not_le de_Morgan_disj split: if_split_asm option.split_asm) auto
  note wf = parse_ip_wf [OF p]
  have "mask_low (ip_bits p - nat pre) (ip_value p) \<le> ip_value p"
    by (simp add: mask_low_eq)
  then have "mask_low (ip_bits p - nat pre) (ip_value p) < 2 ^ ip_bits p"
    using wf(2) by (rule le_less_trans)
  moreover have "2 ^ (ip_bits p - nat pre) dvd mask_low (ip_bits p - nat pre) (ip_value p)"
    by (simp add: mask_low_eq)
  ultimately show ?thesis using wf(1) pre c by (simp add: cidr_wf_def nat_le_iff)
qed

text \<open>
  Membership is membership in the interval of \<open>2 ^ (bits - prefix)\<close> addresses that starts at
  the network.
\<close>

lemma mask_low_interval:
  assumes "2 ^ s dvd n"
  shows "mask_low s v = n \<longleftrightarrow> n \<le> v \<and> v < n + 2 ^ s"
proof -
  from assms obtain k where k: "n = k * 2 ^ s" by (metis dvd_def mult.commute)
  have "v div 2 ^ s = k \<longleftrightarrow> k * 2 ^ s \<le> v \<and> v < k * 2 ^ s + 2 ^ s"
    by (metis add.commute div_nat_eqI dividend_less_div_times div_times_less_eq_dividend
        mult.commute mult_Suc zero_less_numeral zero_less_power)
  with k show ?thesis by (simp add: mask_low_eq)
qed

lemma cidr_contains_interval:
  assumes "cidr_wf c" and "parse_ip ip = Some p"
  shows "cidr_contains c ip \<longleftrightarrow> cidr_version c = ip_version p
     \<and> cidr_network c \<le> ip_value p \<and> ip_value p < cidr_network c + 2 ^ (cidr_bits c - cidr_prefix c)"
  using assms by (auto simp: cidr_contains_def cidr_wf_def mask_low_interval)


section \<open>Round trip of dotted quads\<close>

lemma ipv4_loop_total: "list_all strict_octet ps \<Longrightarrow> \<exists>v. ipv4_loop r ps = Some v"
  by (induction r ps rule: ipv4_loop.induct) (auto simp: strict_octet_def Let_def)

lemma parse_ipv4_total: "is_ipv4 s \<Longrightarrow> \<exists>v. parse_ipv4 s = Some v"
  by (auto simp: is_ipv4_def parse_ipv4_def Let_def ipv4_loop_total)

lemma nat_text_digit: "c \<in> set (nat_text n) \<Longrightarrow> is_digit c"
  using to_base_digits [of 10 c n]
  by (auto simp: is_digit_of_def digit_value_def is_digit_def Let_def split: if_splits option.splits)

lemma digits_value_nat_text [simp]: "digits_value 10 (nat_text n) = n"
  by (rule digits_value_to_base) simp_all

lemma octet_text:
  assumes "n < 256"
  shows "strict_octet (nat_text n)"
proof -
  have "length (nat_text n) \<le> 3" using assms by (intro length_to_base) simp_all
  moreover have "1 < length (nat_text n) \<Longrightarrow> hd (nat_text n) \<noteq> CHR ''0''"
    using hd_to_base [of 10 n] by (cases "n = 0") (simp_all add: to_base.simps [of 10 0])
  ultimately show ?thesis
    using assms nat_text_digit [of _ n] by (simp add: strict_octet_def all_digits_def list_all_iff)
qed

lemma no_dot_in_digits: "is_digit c \<Longrightarrow> c \<noteq> CHR ''.'' \<and> c \<noteq> CHR '':'' \<and> c \<noteq> CHR ''/'' \<and> c \<noteq> CHR ''%''"
  by (auto simp: is_digit_def)

lemma split_ipv4_text:
  "split_on CHR ''.'' (ipv4_text v) = map (\<lambda>s. nat_text (drop_bit s v AND 255)) [24, 16, 8, 0]"
  unfolding ipv4_text_def
  by (rule split_on_join) (auto dest!: nat_text_digit no_dot_in_digits)

lemma ipv4_text_octets: "w \<in> set (split_on CHR ''.'' (ipv4_text v)) \<Longrightarrow> strict_octet w"
  by (auto simp: split_ipv4_text shift_nat intro: octet_text)

lemma is_ipv4_text: "is_ipv4 (ipv4_text v)"
  using ipv4_text_octets [of _ v] by (simp add: is_ipv4_def list_all_iff split_ipv4_text)

lemma four_bytes:
  assumes "v < (2::nat) ^ 32"
  shows "((v div 2 ^ 24 mod 256 * 256 + v div 2 ^ 16 mod 256) * 256 + v div 2 ^ 8 mod 256) * 256 + v mod 256 = v"
proof -
  have *: "x div 256 * 256 + x mod 256 = x" for x :: nat by simp
  have "v div 2 ^ 24 mod 256 = v div 256 div 256 div 256"
    using assms by (simp add: div_mult2_eq [symmetric])
  moreover have "v div 2 ^ 16 = v div 256 div 256" by (simp add: div_mult2_eq [symmetric])
  ultimately show ?thesis by (simp add: *)
qed

lemma ipv4_loop_octet:
  "n < 256 \<Longrightarrow> ipv4_loop r (nat_text n # ps) = ipv4_loop (r * 256 + n) ps"
  using octet_text [of n] or_push_bit [of n 8 r] by (simp add: strict_octet_def Let_def)

lemma parse_ipv4_text:
  assumes "v < 2 ^ 32"
  shows "parse_ipv4 (ipv4_text v) = Some v"
proof -
  have "parse_ipv4 (ipv4_text v) = ipv4_loop 0 (map (\<lambda>s. nat_text (drop_bit s v AND 255)) [24, 16, 8, 0])"
    by (simp add: parse_ipv4_def split_ipv4_text)
  also have "\<dots> = Some (((v div 2 ^ 24 mod 256 * 256 + v div 2 ^ 16 mod 256) * 256
       + v div 2 ^ 8 mod 256) * 256 + v mod 256)"
    by (simp add: ipv4_loop_octet shift_nat del: ipv4_loop.simps(2))
  finally show ?thesis by (simp only: four_bytes [OF assms])
qed

lemma parse_ip_text:
  "v < 2 ^ 32 \<Longrightarrow> parse_ip (ipv4_text v) = Some \<lparr>ip_version = V4, ip_value = v, ip_bits = 32\<rparr>"
  by (simp add: parse_ip_def is_ip_def is_ipv4_text parse_ipv4_text)

section \<open>Private ranges\<close>

lemma private_cidrs_parsed:
  "map parse_cidr private_cidrs = map Some
     [\<lparr>cidr_version = V4, cidr_network = 167772160, cidr_prefix = 8, cidr_bits = 32\<rparr>,
      \<lparr>cidr_version = V4, cidr_network = 2886729728, cidr_prefix = 12, cidr_bits = 32\<rparr>,
      \<lparr>cidr_version = V4, cidr_network = 3232235520, cidr_prefix = 16, cidr_bits = 32\<rparr>,
      \<lparr>cidr_version = V4, cidr_network = 2130706432, cidr_prefix = 8, cidr_bits = 32\<rparr>,
      \<lparr>cidr_version = V4, cidr_network = 2851995648, cidr_prefix = 16, cidr_bits = 32\<rparr>,
      \<lparr>cidr_version = V4, cidr_network = 1681915904, cidr_prefix = 10, cidr_bits = 32\<rparr>,
      \<lparr>cidr_version = V6, cidr_network = 1, cidr_prefix = 128, cidr_bits = 128\<rparr>,
      \<lparr>cidr_version = V6, cidr_network = 252 * 2 ^ 120, cidr_prefix = 7, cidr_bits = 128\<rparr>,
      \<lparr>cidr_version = V6, cidr_network = 1018 * 2 ^ 118, cidr_prefix = 10, cidr_bits = 128\<rparr>]"
  by code_simp

text \<open>The ranges as the RFCs give them, on the numeric value of an address.\<close>

definition private_v4 :: "nat \<Rightarrow> bool" where
  "private_v4 v \<longleftrightarrow> v div 2 ^ 24 \<in> {10, 127} \<or> v div 2 ^ 20 = 172 * 16 + 1
     \<or> v div 2 ^ 16 \<in> {192 * 256 + 168, 169 * 256 + 254} \<or> v div 2 ^ 22 = 100 * 4 + 1"

definition private_v6 :: "nat \<Rightarrow> bool" where
  "private_v6 v \<longleftrightarrow> v = 1 \<or> v div 2 ^ 121 = 126 \<or> v div 2 ^ 118 = 1018"

lemma private_any:
  "list_ex (\<lambda>r. cidr_text_contains r ip) private_cidrs =
     list_ex (\<lambda>q. case q of None \<Rightarrow> False | Some c \<Rightarrow> cidr_contains c ip) (map parse_cidr private_cidrs)"
  by (simp add: list_ex_iff cidr_text_contains_def)

lemma private_any_v4:
  assumes "parse_ip ip = Some p" and "ip_version p = V4"
  shows "list_ex (\<lambda>r. cidr_text_contains r ip) private_cidrs \<longleftrightarrow> private_v4 (ip_value p)"
  using assms unfolding private_any private_cidrs_parsed
  by (simp add: cidr_contains_def mask_low_eq private_v4_def) presburger

lemma private_any_v6:
  assumes "parse_ip ip = Some p" and "ip_version p = V6"
  shows "list_ex (\<lambda>r. cidr_text_contains r ip) private_cidrs \<longleftrightarrow> private_v6 (ip_value p)"
  using assms unfolding private_any private_cidrs_parsed
  by (simp add: cidr_contains_def mask_low_eq private_v6_def)


lemma is_private_ip_eq:
  "is_private_ip ip =
     (case parse_ip ip of
        None \<Rightarrow> False
      | Some p \<Rightarrow> (case ip_version p of
            V4 \<Rightarrow> private_v4 (ip_value p)
          | V6 \<Rightarrow> private_v6 (ip_value p) \<or>
              (ip_value p div 2 ^ 32 = 65535 \<and> private_v4 (ip_value p mod 2 ^ 32))))"
proof (cases "parse_ip ip")
  case (Some p)
  have quad: "parse_ip (ipv4_text (v mod 2 ^ 32)) = Some \<lparr>ip_version = V4, ip_value = v mod 2 ^ 32, ip_bits = 32\<rparr>" for v
    by (rule parse_ip_text) simp
  from Some show ?thesis
    by (cases "ip_version p")
      (simp_all add: is_private_ip_def ipv4_from_mapped_def shift_nat Let_def private_any_v4 [OF Some]
        private_any_v6 [OF Some] private_any_v4 [OF quad, simplified])
qed (simp add: is_private_ip_def)

section \<open>Blocks with an empty prefix\<close>

lemma is_ipv4_chars: "is_ipv4 s \<Longrightarrow> c \<in> set s \<Longrightarrow> is_digit c \<or> c = CHR ''.''"
  using split_on_chars [of c s "CHR ''.''"]
  by (auto simp: is_ipv4_def Let_def list_all_iff strict_octet_def all_digits_def)

lemma is_ipv4_plain: "is_ipv4 s \<Longrightarrow> c \<in> set s \<Longrightarrow> \<not> is_space c \<and> c \<noteq> CHR ''/''"
  using is_ipv4_chars [of s c] by (auto simp: is_digit_def is_space_def)

lemma parse_cidr_quad_suffix:
  assumes "is_ipv4 a"
  shows "split_on CHR ''/'' (trim (a @ ''/'')) = [a, []]"
proof -
  have "trim (a @ ''/'') = a @ ''/''"
    using is_ipv4_plain [OF assms] by (intro trim_clean) (auto simp: is_space_def)
  moreover have "CHR ''/'' \<notin> set a" using is_ipv4_plain [OF assms] by blast
  ultimately show ?thesis using split_on_append [of "CHR ''/''" a "[]"] by simp
qed

lemma is_ipv4_not_Nil: "is_ipv4 a \<Longrightarrow> a \<noteq> []"
  by (auto simp: is_ipv4_def)

lemma parse_cidr_trailing_slash:
  assumes "is_ipv4 a"
  shows "parse_cidr (a @ ''/'') = Some \<lparr>cidr_version = V4, cidr_network = 0, cidr_prefix = 0, cidr_bits = 32\<rparr>"
proof -
  obtain v where v: "parse_ipv4 a = Some v" using parse_ipv4_total [OF assms] by blast
  have p: "parse_ip a = Some \<lparr>ip_version = V4, ip_value = v, ip_bits = 32\<rparr>"
    using assms v by (simp add: parse_ip_def is_ip_def)
  have "js_integer (js_number []) = Some 0"
    by (simp add: js_number_def trim_def trim_start_def js_integer_def)
  with p v is_ipv4_not_Nil [OF assms] parse_ipv4_bound [OF v] show ?thesis
    by (simp add: parse_cidr_def parse_cidr_quad_suffix [OF assms] mask_low_eq)
qed

section \<open>A single address as a block\<close>

definition plain_char :: "char \<Rightarrow> bool" where
  "plain_char c \<longleftrightarrow> \<not> is_space c \<and> c \<noteq> CHR ''/''"

lemma plain_hex: "is_digit_of 16 c \<Longrightarrow> plain_char c"
  by (auto simp: plain_char_def is_digit_of_def digit_value_def is_space_def Let_def split: if_splits option.splits)

lemma plain_zone: "zone_char c \<Longrightarrow> plain_char c"
  by (auto simp: plain_char_def zone_char_def char_class_defs)

lemma plain_ipv4: "is_ipv4 s \<Longrightarrow> c \<in> set s \<Longrightarrow> plain_char c"
  using is_ipv4_plain by (simp add: plain_char_def)

lemma v6_groups_member: "v6_groups gs = Some n \<Longrightarrow> g \<in> set gs \<Longrightarrow> hex_group g \<or> is_ipv4 g"
  by (induction gs arbitrary: n rule: v6_groups.induct) (auto split: if_splits)

lemma plain_group: "hex_group g \<or> is_ipv4 g \<Longrightarrow> c \<in> set g \<Longrightarrow> plain_char c"
  using plain_hex plain_ipv4 by (auto simp: hex_group_def list_all_iff)

lemma plain_groups:
  "\<forall>g \<in> set (split_on CHR '':'' w). hex_group g \<or> is_ipv4 g \<Longrightarrow> c \<in> set w \<Longrightarrow> plain_char c"
  using split_on_chars [of c w "CHR '':''"] plain_group by (auto simp: plain_char_def is_space_def)

lemma plain_colon_parts:
  "\<forall>g \<in> set (colon_parts w). hex_group g \<or> is_ipv4 g \<Longrightarrow> c \<in> set w \<Longrightarrow> plain_char c"
  using plain_groups [of w c] by (cases "w = []") (auto simp: colon_parts_def)

lemma plain_ipv6_body:
  assumes "is_ipv6_body b" and "c \<in> set b"
  shows "plain_char c"
proof -
  have "c = CHR '':'' \<or> (\<exists>w \<in> set (split_on2 CHR '':'' CHR '':'' b). c \<in> set w)"
    using split_on2_chars [OF assms(2), of "CHR '':''" "CHR '':''"] by auto
  moreover have "plain_char c" if "w \<in> set (split_on2 CHR '':'' CHR '':'' b)" "c \<in> set w" for w
    using assms(1) that v6_groups_member plain_groups [of w c] plain_colon_parts [of w c]
    by (auto simp: is_ipv6_body_def list_all_iff split: list.splits option.splits)
  ultimately show ?thesis by (auto simp: plain_char_def is_space_def)
qed

lemma plain_ipv6:
  assumes "is_ipv6 s" and "c \<in> set s"
  shows "plain_char c"
proof -
  let ?z = "dropWhile (\<lambda>c. c \<noteq> CHR ''%'') s"
  from assms(2) have "c \<in> set (drop_zone s @ ?z)" by (simp only: drop_zone_def takeWhile_dropWhile_id)
  then consider "c \<in> set (drop_zone s)" | z where "?z = CHR ''%'' # z" "c = CHR ''%'' \<or> c \<in> set z"
    by (cases ?z) (auto simp: dropWhile_eq_Cons_conv)
  then show ?thesis
  proof cases
    case 1
    then show ?thesis using assms(1) plain_ipv6_body by (auto simp: is_ipv6_def)
  next
    case 2
    then show ?thesis using assms(1) plain_zone
      by (auto simp: is_ipv6_def zone_ok_def list_all_iff plain_char_def is_space_def)
  qed
qed

lemma parse_ip_plain: "parse_ip ip = Some p \<Longrightarrow> c \<in> set ip \<Longrightarrow> plain_char c"
  using plain_ipv4 plain_ipv6 by (auto simp: parse_ip_def is_ip_def split: if_splits)

lemma parse_ip_not_Nil: "parse_ip ip = Some p \<Longrightarrow> ip \<noteq> []"
  by (rule notI) (simp add: parse_ip_def is_ip_def is_ipv4_def is_ipv6_def zone_ok_def is_ipv6_body_def drop_zone_def hex_group_def)

lemma parse_cidr_single:
  assumes "parse_ip ip = Some p"
  shows "parse_cidr ip = Some \<lparr>cidr_version = ip_version p, cidr_network = ip_value p,
     cidr_prefix = ip_bits p, cidr_bits = ip_bits p\<rparr>"
proof -
  have "trim ip = ip" and "split_on CHR ''/'' ip = [ip]"
    using parse_ip_plain [OF assms] by (auto simp: plain_char_def intro!: trim_clean split_on_clean)
  with assms parse_ip_not_Nil [OF assms] show ?thesis by (simp add: parse_cidr_def mask_low_eq)
qed

section \<open>Properties\<close>

text \<open>
  A parsed address is a value of its family: below \<open>2 ^ 32\<close> for IPv4, below
  \<open>2 ^ 128\<close> for IPv6, with the matching number of bits.
\<close>

theorem parse_ip_in_range:
  assumes "parse_ip s = Some p"
  shows "ip_bits p = (case ip_version p of V4 \<Rightarrow> 32 | V6 \<Rightarrow> 128) \<and> ip_value p < 2 ^ ip_bits p"
  using parse_ip_wf [OF assms] by (simp add: bits_of_def)

theorem parse_ip_in_range_witness:
  "parse_ip ''192.168.1.7'' = Some \<lparr>ip_version = V4, ip_value = 3232235783, ip_bits = 32\<rparr>
   \<and> (3232235783::nat) < 2 ^ 32"
proof -
  have p: "parse_ip ''192.168.1.7'' = Some \<lparr>ip_version = V4, ip_value = 3232235783, ip_bits = 32\<rparr>"
    by code_simp
  show ?thesis using p parse_ip_in_range [OF p] by simp
qed

text \<open>
  Membership of an address in a parsed CIDR block is exactly membership in the interval of
  \<open>2 ^ (bits - prefix)\<close> addresses that starts at the block's network, in the same family.
\<close>

theorem cidr_contains_is_interval:
  assumes "parse_cidr t = Some c" and "parse_ip ip = Some p"
  shows "cidr_contains c ip \<longleftrightarrow>
     cidr_version c = ip_version p \<and> cidr_network c \<le> ip_value p
     \<and> ip_value p < cidr_network c + 2 ^ (cidr_bits c - cidr_prefix c)"
  by (rule cidr_contains_interval [OF parse_cidr_wf [OF assms(1)] assms(2)])

theorem cidr_contains_is_interval_witness:
  "cidr_contains \<lparr>cidr_version = V4, cidr_network = 167772160, cidr_prefix = 8, cidr_bits = 32\<rparr> ''10.1.2.3''"
proof -
  have c: "parse_cidr ''10.9.9.9/8'' =
      Some \<lparr>cidr_version = V4, cidr_network = 167772160, cidr_prefix = 8, cidr_bits = 32\<rparr>"
    by code_simp
  have p: "parse_ip ''10.1.2.3'' = Some \<lparr>ip_version = V4, ip_value = 167838211, ip_bits = 32\<rparr>"
    by code_simp
  show ?thesis using cidr_contains_is_interval [OF c p] by simp
qed

text \<open>
  \<open>isPrivateIp\<close> is the union of the RFC 1918, loopback, link-local, shared and unique-local
  ranges on the numeric address, and it sees through IPv4-mapped IPv6 addresses.
\<close>

theorem is_private_ip_ranges:
  "is_private_ip ip =
     (case parse_ip ip of
        None \<Rightarrow> False
      | Some p \<Rightarrow> (case ip_version p of
            V4 \<Rightarrow> private_v4 (ip_value p)
          | V6 \<Rightarrow> private_v6 (ip_value p) \<or>
              (ip_value p div 2 ^ 32 = 65535 \<and> private_v4 (ip_value p mod 2 ^ 32))))"
  by (rule is_private_ip_eq)

text \<open>
  An address followed by a slash and no prefix length is accepted as the block of all IPv4
  addresses: \<open>Number("")\<close> is 0, so \<open>1.2.3.4/\<close> contains every address.
\<close>

theorem trailing_slash_matches_everything:
  assumes "is_ipv4 a" and "parse_ip ip = Some p" and "ip_version p = V4"
  shows "cidr_text_contains (a @ ''/'') ip"
  using assms(2,3) parse_ip_wf [OF assms(2)]
  by (simp add: cidr_text_contains_def parse_cidr_trailing_slash [OF assms(1)] cidr_contains_def
      mask_low_eq bits_of_def)

theorem trailing_slash_matches_everything_witness:
  "cidr_text_contains ''1.2.3.4/'' ''200.7.7.7''"
proof -
  have a: "is_ipv4 ''1.2.3.4''" by code_simp
  have p: "parse_ip ''200.7.7.7'' = Some \<lparr>ip_version = V4, ip_value = 3355903751, ip_bits = 32\<rparr>"
    by code_simp
  show ?thesis using trailing_slash_matches_everything [OF a p] by simp
qed

end
