(* ===== verification/Network_Rules.thy ===== *)
theory Network_Rules
  imports Ip_Address
begin

text \<open>
  The network policy of sites, route policies and streams:
  \<open>src/src/services/ip-rule-service.ts\<close>, \<open>route-ip-rule-service.ts\<close>,
  \<open>stream-ip-rule-service.ts\<close> and the lookups of \<open>geoip-service.ts\<close> they use, with the rows of
  the rule tables of \<open>src/src/db/repository.ts\<close>.

  The three services are copies of one another over their own tables, so the rows are records
  over the type of actions (\<open>IpRuleAction\<close> for sites and routes, \<open>StreamRuleAction\<close> for
  streams) and the owner column is \<open>site_id\<close>, \<open>route_policy_id\<close> or \<open>stream_id\<close>. A service's
  state is its three tables and its rule cache. Each exported function runs from one state to the
  next; the clock, fresh identifiers and the MaxMind readers are arguments. Database failures,
  replication of the rows and the notification that follows a ban are not modelled.
\<close>

section \<open>Rows and tables\<close>

datatype ip_rule_action = Allow | Pass | Block | Challenge

datatype stream_rule_action = SAllow | SBlock

datatype 'a default_action = Inherit | Configured 'a

record 'a ip_rule =
  ir_id :: string
  ir_owner :: string
  ir_network_cidr :: string
  ir_action :: 'a
  ir_reason :: string
  ir_created_at :: time
  ir_expires_at :: "time option"
  ir_rule_id :: "string option"

record 'a country_rule =
  cr_id :: string
  cr_owner :: string
  cr_country_code :: string
  cr_action :: 'a
  cr_reason :: string
  cr_created_at :: time
  cr_expires_at :: "time option"

record 'a asn_rule =
  ar_id :: string
  ar_owner :: string
  ar_asn :: nat
  ar_action :: 'a
  ar_reason :: string
  ar_created_at :: time
  ar_expires_at :: "time option"

record 'a rule_tables =
  ip_rules :: "'a ip_rule list"
  country_rules :: "'a country_rule list"
  asn_rules :: "'a asn_rule list"

text \<open>\<open>CachedNetworkRules\<close>: the IP rules in lookup order, the others by their key.\<close>

record 'a cached_rules =
  cached_ip :: "('a ip_rule \<times> parsed_cidr) list"
  cached_country :: "string \<rightharpoonup> 'a country_rule"
  cached_asn :: "nat \<rightharpoonup> 'a asn_rule"

record 'a rule_service =
  tables :: "'a rule_tables"
  rule_cache :: "string \<rightharpoonup> 'a cached_rules"

datatype rule_error =
    InvalidCidr
  | InvalidCountryCode
  | ActiveRuleExists
  | InvalidAsn

section \<open>The rule cache\<close>

definition repository_rules :: "'a rule_tables \<Rightarrow> string \<Rightarrow> 'a ip_rule list" where
  "repository_rules t owner = sort_key (\<lambda>r. - ir_created_at r) (filter (\<lambda>r. ir_owner r = owner) (ip_rules t))"

text \<open>\<open>parseCidr\<close> on every row, dropping rows that do not parse.\<close>

definition with_cidr :: "'a ip_rule list \<Rightarrow> ('a ip_rule \<times> parsed_cidr) list" where
  "with_cidr rs = List.map_filter (\<lambda>r. map_option (Pair r) (parse_cidr (ir_network_cidr r))) rs"

definition lookup_key :: "'a ip_rule \<times> parsed_cidr \<Rightarrow> int \<times> int" where
  "lookup_key it = (- int (cidr_prefix (snd it)), - ir_created_at (fst it))"

text \<open>\<open>new Map(rows.map(row => [key(row), row]))\<close>: a later row replaces an earlier one.\<close>

definition js_map_of :: "('r \<Rightarrow> 'k) \<Rightarrow> 'r list \<Rightarrow> 'k \<rightharpoonup> 'r" where
  "js_map_of f rs = map_of (rev (map (\<lambda>r. (f r, r)) rs))"

definition load_rules :: "'a rule_tables \<Rightarrow> string \<Rightarrow> 'a cached_rules" where
  "load_rules t owner =
     \<lparr>cached_ip = sort_key lookup_key (with_cidr (repository_rules t owner)),
      cached_country = js_map_of cr_country_code (filter (\<lambda>r. cr_owner r = owner) (country_rules t)),
      cached_asn = js_map_of ar_asn (filter (\<lambda>r. ar_owner r = owner) (asn_rules t))\<rparr>"

definition rules_for_site :: "string \<Rightarrow> 'a rule_service \<Rightarrow> 'a cached_rules \<times> 'a rule_service" where
  "rules_for_site owner st =
     (case rule_cache st owner of
        Some c \<Rightarrow> (c, st)
      | None \<Rightarrow> let c = load_rules (tables st) owner in
          (c, st\<lparr>rule_cache := (rule_cache st)(owner \<mapsto> c)\<rparr>))"

definition rules_for_route :: "string \<Rightarrow> ip_rule_action rule_service \<Rightarrow> ip_rule_action cached_rules \<times> ip_rule_action rule_service" where
  "rules_for_route = rules_for_site"

definition rules_for_stream :: "string \<Rightarrow> stream_rule_action rule_service \<Rightarrow> stream_rule_action cached_rules \<times> stream_rule_action rule_service" where
  "rules_for_stream = rules_for_site"

definition invalidate_network_policy :: "string \<Rightarrow> 'a rule_service \<Rightarrow> 'a rule_service" where
  "invalidate_network_policy owner st = st\<lparr>rule_cache := (rule_cache st)(owner := None)\<rparr>"

definition invalidate_all_network_policy :: "'a rule_service \<Rightarrow> 'a rule_service" where
  "invalidate_all_network_policy st = st\<lparr>rule_cache := Map.empty\<rparr>"

section \<open>GeoIP lookups\<close>

text \<open>
  The MaxMind library is an argument: its address check, and for each of the two databases
  \<^term>\<open>None\<close> when it is not loaded, otherwise the record it holds for an address (the country
  code, or the AS number and organisation), with \<^term>\<open>None\<close> also for a lookup that throws.
\<close>

record geo =
  validate_ip :: "string \<Rightarrow> bool"
  country_reader :: "(string \<Rightarrow> string option) option"
  asn_reader :: "(string \<Rightarrow> (nat \<times> string) option) option"

definition is_country_code :: "string \<Rightarrow> bool" where
  "is_country_code s \<longleftrightarrow> length s = 2 \<and> list_all is_upper s"

definition lookup_country_code :: "geo \<Rightarrow> string \<Rightarrow> string option" where
  "lookup_country_code g ip =
     (if is_private_ip ip then Some ''XX''
      else case country_reader g of None \<Rightarrow> None
        | Some look \<Rightarrow>
            if \<not> validate_ip g ip then None
            else (case look ip of None \<Rightarrow> None | Some c \<Rightarrow> if is_country_code c then Some c else None))"

definition country_code_for_storage :: "geo \<Rightarrow> string \<Rightarrow> string option" where
  "country_code_for_storage g ip =
     (if is_private_ip ip then Some ''XX''
      else if Option.is_none (country_reader g) then None
      else case lookup_country_code g ip of None \<Rightarrow> Some ''ZZ'' | Some c \<Rightarrow> Some c)"

definition lookup_asn :: "geo \<Rightarrow> string \<Rightarrow> (nat \<times> string) option" where
  "lookup_asn g ip =
     (if is_private_ip ip then None
      else case asn_reader g of None \<Rightarrow> None
        | Some look \<Rightarrow> if \<not> validate_ip g ip then None else look ip)"

definition asn_for_storage :: "geo \<Rightarrow> string \<Rightarrow> nat option \<times> string option" where
  "asn_for_storage g ip =
     (if is_private_ip ip then (Some 0, Some ''Private network'')
      else if Option.is_none (asn_reader g) then (None, None)
      else case lookup_asn g ip of None \<Rightarrow> (Some 0, Some ''Unknown'')
        | Some (a, og) \<Rightarrow> (Some a, Some og))"

section \<open>Evaluating an address\<close>

datatype decision_source = IpRuleSource | AsnRuleSource | CountryRuleSource
  | CountryDefaultSource | IpDefaultSource | RouteSource

datatype decision_scope = SiteScope | RouteScope

record network_decision =
  nd_action :: "ip_rule_action option"
  nd_source :: decision_source
  nd_scope :: decision_scope
  nd_expires_at :: "time option"
  nd_country_code :: "string option"
  nd_asn :: "nat option"
  nd_asn_org :: "string option"
  nd_reason :: "string option"
  nd_route_policy_id :: "string option"

definition active :: "time option \<Rightarrow> time \<Rightarrow> bool" where
  "active expires now = (case expires of None \<Rightarrow> True | Some t \<Rightarrow> t > now)"

definition configured_action :: "'a default_action option \<Rightarrow> 'a option" where
  "configured_action d = (case d of Some (Configured a) \<Rightarrow> Some a | _ \<Rightarrow> None)"

definition matching_ip_rule :: "('a ip_rule \<times> parsed_cidr) list \<Rightarrow> time \<Rightarrow> string \<Rightarrow> ('a ip_rule \<times> parsed_cidr) option" where
  "matching_ip_rule items now ip =
     (if ip = ''unknown'' then None
      else find (\<lambda>it. active (ir_expires_at (fst it)) now \<and> cidr_contains (snd it) ip) items)"

definition active_asn_rule :: "'a cached_rules \<Rightarrow> time \<Rightarrow> nat option \<Rightarrow> 'a asn_rule option" where
  "active_asn_rule rules now asn =
     (case asn of None \<Rightarrow> None
      | Some a \<Rightarrow> (case cached_asn rules a of None \<Rightarrow> None
          | Some r \<Rightarrow> if active (ar_expires_at r) now then Some r else None))"

text \<open>\<open>if (countryCode)\<close> also refuses the empty string.\<close>

definition known_country :: "string option \<Rightarrow> string option" where
  "known_country code = (case code of Some c \<Rightarrow> if c = [] then None else Some c | None \<Rightarrow> None)"

definition active_country_rule :: "'a cached_rules \<Rightarrow> time \<Rightarrow> string option \<Rightarrow> 'a country_rule option" where
  "active_country_rule rules now code =
     (case known_country code of None \<Rightarrow> None
      | Some c \<Rightarrow> (case cached_country rules c of None \<Rightarrow> None
          | Some r \<Rightarrow> if active (cr_expires_at r) now then Some r else None))"

definition or_text :: "string \<Rightarrow> string \<Rightarrow> string" where
  "or_text reason fallback = (if reason = [] then fallback else reason)"

text \<open>
  The cascade of \<open>evaluateIp\<close> and \<open>evaluateRouteIp\<close>, which differ in the scope, the policy id
  and the word in the reason texts (\<open>label\<close> is empty for a site and \<open>route\<close> with a blank for a
  route).
\<close>

definition decide ::
  "decision_scope \<Rightarrow> string option \<Rightarrow> string \<Rightarrow> ip_rule_action cached_rules \<Rightarrow> ip_rule_action default_action option
   \<Rightarrow> ip_rule_action default_action option \<Rightarrow> geo \<Rightarrow> time \<Rightarrow> string \<Rightarrow> network_decision" where
  "decide scope policy label rules default_ip default_country g now ip =
     (let (asn, org) = (if ip = ''unknown'' then (None, None) else asn_for_storage g ip);
          code = (if ip = ''unknown'' then None else country_code_for_storage g ip);
          mk = (\<lambda>act src expires reason.
             \<lparr>nd_action = act, nd_source = src, nd_scope = scope, nd_expires_at = expires,
              nd_country_code = code, nd_asn = asn, nd_asn_org = org, nd_reason = reason,
              nd_route_policy_id = policy\<rparr>)
      in case matching_ip_rule (cached_ip rules) now ip of
        Some (r, _) \<Rightarrow> mk (Some (ir_action r)) IpRuleSource (ir_expires_at r)
            (Some (or_text (ir_reason r) (''Matched '' @ label @ ''IP rule '' @ ir_network_cidr r)))
      | None \<Rightarrow>
      (case active_asn_rule rules now asn of
        Some r \<Rightarrow> mk (Some (ar_action r)) AsnRuleSource (ar_expires_at r)
            (Some (or_text (ar_reason r) (''Matched '' @ label @ ''ASN rule AS'' @ nat_text (the asn))))
      | None \<Rightarrow>
      (case active_country_rule rules now code of
        Some r \<Rightarrow> mk (Some (cr_action r)) CountryRuleSource (cr_expires_at r)
            (Some (or_text (cr_reason r) (''Matched '' @ label @ ''country rule '' @ the code)))
      | None \<Rightarrow>
      (case (if known_country code = None then None else configured_action default_country) of
        Some a \<Rightarrow> mk (Some a) CountryDefaultSource None
            (Some (''Default '' @ label @ ''country action for '' @ the code))
      | None \<Rightarrow>
      (case configured_action default_ip of
        Some a \<Rightarrow> mk (Some a) IpDefaultSource None (Some (''Default '' @ label @ ''IP action''))
      | None \<Rightarrow> mk None RouteSource None None)))))"

record site =
  site_id :: string
  default_ip_action :: "ip_rule_action default_action option"
  default_country_action :: "ip_rule_action default_action option"

record route_policy =
  route_id :: string
  route_default_ip_action :: "ip_rule_action default_action option"
  route_default_country_action :: "ip_rule_action default_action option"

definition evaluate_ip ::
  "site \<Rightarrow> geo \<Rightarrow> time \<Rightarrow> string \<Rightarrow> ip_rule_action rule_service \<Rightarrow> network_decision \<times> ip_rule_action rule_service" where
  "evaluate_ip s g now ip st =
     (let (rules, st') = rules_for_site (site_id s) st in
      (decide SiteScope None '''' rules (default_ip_action s) (default_country_action s) g now ip, st'))"

definition evaluate_route_ip ::
  "route_policy \<Rightarrow> geo \<Rightarrow> time \<Rightarrow> string \<Rightarrow> ip_rule_action rule_service \<Rightarrow> network_decision \<times> ip_rule_action rule_service" where
  "evaluate_route_ip r g now ip st =
     (let (rules, st') = rules_for_route (route_id r) st in
      (decide RouteScope (Some (route_id r)) ''route '' rules (route_default_ip_action r)
         (route_default_country_action r) g now ip, st'))"

text \<open>\<open>resolveNetworkDecision\<close>, over the states of the site and of the route service.\<close>

definition resolve_network_decision ::
  "site \<Rightarrow> route_policy option \<Rightarrow> geo \<Rightarrow> time \<Rightarrow> string
   \<Rightarrow> ip_rule_action rule_service \<times> ip_rule_action rule_service
   \<Rightarrow> network_decision \<times> (ip_rule_action rule_service \<times> ip_rule_action rule_service)" where
  "resolve_network_decision s route g now ip st =
     (case route of
        None \<Rightarrow> let (d, ss) = evaluate_ip s g now ip (fst st) in (d, (ss, snd st))
      | Some r \<Rightarrow>
          let (rd, rs) = evaluate_route_ip r g now ip (snd st) in
          if nd_action rd \<noteq> None then (rd, (fst st, rs))
          else let (d, ss) = evaluate_ip s g now ip (fst st) in (d, (ss, rs)))"

section \<open>Streams\<close>

record stream =
  stream_id :: string
  stream_default_ip_action :: "stream_rule_action default_action option"
  stream_default_country_action :: "stream_rule_action default_action option"

record stream_network_decision =
  sd_action :: "stream_rule_action option"
  sd_source :: decision_source
  sd_ip_rule :: "stream_rule_action ip_rule option"
  sd_asn_rule :: "stream_rule_action asn_rule option"
  sd_country_rule :: "stream_rule_action country_rule option"
  sd_country_code :: "string option"
  sd_asn :: "nat option"
  sd_asn_org :: "string option"
  sd_reason :: "string option"

definition evaluate_stream_ip ::
  "stream \<Rightarrow> geo \<Rightarrow> time \<Rightarrow> string \<Rightarrow> stream_rule_action rule_service \<Rightarrow> stream_network_decision \<times> stream_rule_action rule_service" where
  "evaluate_stream_ip s g now ip st =
     (let (rules, st') = rules_for_stream (stream_id s) st;
          (asn, org) = (if ip = ''unknown'' then (None, None) else asn_for_storage g ip);
          code = (if ip = ''unknown'' then None else country_code_for_storage g ip);
          mk = (\<lambda>act src ipr asr cor reason.
             \<lparr>sd_action = act, sd_source = src, sd_ip_rule = ipr, sd_asn_rule = asr, sd_country_rule = cor,
              sd_country_code = code, sd_asn = asn, sd_asn_org = org, sd_reason = reason\<rparr>)
      in (case matching_ip_rule (cached_ip rules) now ip of
        Some (r, _) \<Rightarrow> mk (Some (ir_action r)) IpRuleSource (Some r) None None
            (Some (or_text (ir_reason r) (''Matched IP rule '' @ ir_network_cidr r)))
      | None \<Rightarrow>
      (case active_asn_rule rules now asn of
        Some r \<Rightarrow> mk (Some (ar_action r)) AsnRuleSource None (Some r) None
            (Some (or_text (ar_reason r) (''Matched ASN rule AS'' @ nat_text (the asn))))
      | None \<Rightarrow>
      (case active_country_rule rules now code of
        Some r \<Rightarrow> mk (Some (cr_action r)) CountryRuleSource None None (Some r)
            (Some (or_text (cr_reason r) (''Matched country rule '' @ the code)))
      | None \<Rightarrow>
      (case (if known_country code = None then None else configured_action (stream_default_country_action s)) of
        Some a \<Rightarrow> mk (Some a) CountryDefaultSource None None None
            (Some (''Default country action for '' @ the code))
      | None \<Rightarrow>
      (case configured_action (stream_default_ip_action s) of
        Some a \<Rightarrow> mk (Some a) IpDefaultSource None None None (Some ''Default IP action'')
      | None \<Rightarrow> mk None RouteSource None None None None)))), st'))"

section \<open>Adding and deleting rules\<close>

definition insert_rule :: "'a ip_rule \<Rightarrow> 'a rule_service \<Rightarrow> 'a rule_service" where
  "insert_rule r st = st\<lparr>tables := (tables st)\<lparr>ip_rules := ip_rules (tables st) @ [r]\<rparr>\<rparr>"

definition insert_country_rule :: "'a country_rule \<Rightarrow> 'a rule_service \<Rightarrow> 'a rule_service" where
  "insert_country_rule r st =
     st\<lparr>tables := (tables st)\<lparr>country_rules := country_rules (tables st) @ [r]\<rparr>\<rparr>"

definition insert_asn_rule :: "'a asn_rule \<Rightarrow> 'a rule_service \<Rightarrow> 'a rule_service" where
  "insert_asn_rule r st = st\<lparr>tables := (tables st)\<lparr>asn_rules := asn_rules (tables st) @ [r]\<rparr>\<rparr>"

definition delete_rule_for_site :: "string \<Rightarrow> string \<Rightarrow> 'a rule_service \<Rightarrow> 'a rule_service" where
  "delete_rule_for_site rid owner st = st\<lparr>tables := (tables st)
     \<lparr>ip_rules := filter (\<lambda>r. \<not> (ir_id r = rid \<and> ir_owner r = owner)) (ip_rules (tables st))\<rparr>\<rparr>"

definition delete_country_rule_for_site :: "string \<Rightarrow> string \<Rightarrow> 'a rule_service \<Rightarrow> 'a rule_service" where
  "delete_country_rule_for_site rid owner st = st\<lparr>tables := (tables st)
     \<lparr>country_rules := filter (\<lambda>r. \<not> (cr_id r = rid \<and> cr_owner r = owner)) (country_rules (tables st))\<rparr>\<rparr>"

definition delete_asn_rule_for_site :: "string \<Rightarrow> string \<Rightarrow> 'a rule_service \<Rightarrow> 'a rule_service" where
  "delete_asn_rule_for_site rid owner st = st\<lparr>tables := (tables st)
     \<lparr>asn_rules := filter (\<lambda>r. \<not> (ar_id r = rid \<and> ar_owner r = owner)) (asn_rules (tables st))\<rparr>\<rparr>"

definition country_rule_by_code :: "string \<Rightarrow> string \<Rightarrow> 'a rule_tables \<Rightarrow> 'a country_rule option" where
  "country_rule_by_code owner code t = find (\<lambda>r. cr_owner r = owner \<and> cr_country_code r = code) (country_rules t)"

definition asn_rule_by_asn :: "string \<Rightarrow> nat \<Rightarrow> 'a rule_tables \<Rightarrow> 'a asn_rule option" where
  "asn_rule_by_asn owner asn t = find (\<lambda>r. ar_owner r = owner \<and> ar_asn r = asn) (asn_rules t)"

text \<open>The handlers of the administration API that delete a rule and drop the cached rules.\<close>

definition api_delete_rule :: "string \<Rightarrow> string \<Rightarrow> 'a rule_service \<Rightarrow> 'a rule_service" where
  "api_delete_rule rid owner st = invalidate_network_policy owner (delete_rule_for_site rid owner st)"

definition api_delete_country_rule :: "string \<Rightarrow> string \<Rightarrow> 'a rule_service \<Rightarrow> 'a rule_service" where
  "api_delete_country_rule rid owner st = invalidate_network_policy owner (delete_country_rule_for_site rid owner st)"

definition api_delete_asn_rule :: "string \<Rightarrow> string \<Rightarrow> 'a rule_service \<Rightarrow> 'a rule_service" where
  "api_delete_asn_rule rid owner st = invalidate_network_policy owner (delete_asn_rule_for_site rid owner st)"

definition add_ip_rule ::
  "string \<Rightarrow> string \<Rightarrow> 'a \<Rightarrow> string \<Rightarrow> time option \<Rightarrow> string option \<Rightarrow> string \<Rightarrow> time \<Rightarrow> 'a rule_service
   \<Rightarrow> (rule_error + 'a ip_rule) \<times> 'a rule_service" where
  "add_ip_rule owner cidr act reason expires rule_id fresh now st =
     (case parse_cidr cidr of
        None \<Rightarrow> (Inl InvalidCidr, st)
      | Some _ \<Rightarrow>
          let r = \<lparr>ir_id = fresh, ir_owner = owner, ir_network_cidr = cidr, ir_action = act,
                   ir_reason = reason, ir_created_at = now, ir_expires_at = expires, ir_rule_id = rule_id\<rparr>
          in (Inr r, invalidate_network_policy owner (insert_rule r st)))"

definition add_country_rule ::
  "string \<Rightarrow> string \<Rightarrow> 'a \<Rightarrow> string \<Rightarrow> time option \<Rightarrow> string \<Rightarrow> time \<Rightarrow> 'a rule_service
   \<Rightarrow> (rule_error + 'a country_rule) \<times> 'a rule_service" where
  "add_country_rule owner input act reason expires fresh now st =
     (let code = to_upper (trim input) in
      if \<not> is_country_code code then (Inl InvalidCountryCode, st)
      else let existing = country_rule_by_code owner code (tables st) in
        if (case existing of None \<Rightarrow> False | Some e \<Rightarrow> active (cr_expires_at e) now)
        then (Inl ActiveRuleExists, st)
        else
          let st1 = (case existing of None \<Rightarrow> st | Some e \<Rightarrow> delete_country_rule_for_site (cr_id e) owner st);
              r = \<lparr>cr_id = fresh, cr_owner = owner, cr_country_code = code, cr_action = act,
                   cr_reason = reason, cr_created_at = now, cr_expires_at = expires\<rparr>
          in (Inr r, invalidate_network_policy owner (insert_country_rule r st1)))"

text \<open>The ASN arrives as \<open>Number(asnInput)\<close>.\<close>

definition add_asn_rule ::
  "string \<Rightarrow> jsnum \<Rightarrow> 'a \<Rightarrow> string \<Rightarrow> time option \<Rightarrow> string \<Rightarrow> time \<Rightarrow> 'a rule_service
   \<Rightarrow> (rule_error + 'a asn_rule) \<times> 'a rule_service" where
  "add_asn_rule owner input act reason expires fresh now st =
     (case js_integer input of
        None \<Rightarrow> (Inl InvalidAsn, st)
      | Some i \<Rightarrow>
          if i \<le> 0 then (Inl InvalidAsn, st)
          else let asn = nat i; existing = asn_rule_by_asn owner asn (tables st) in
            if (case existing of None \<Rightarrow> False | Some e \<Rightarrow> active (ar_expires_at e) now)
            then (Inl ActiveRuleExists, st)
            else
              let st1 = (case existing of None \<Rightarrow> st | Some e \<Rightarrow> delete_asn_rule_for_site (ar_id e) owner st);
                  r = \<lparr>ar_id = fresh, ar_owner = owner, ar_asn = asn, ar_action = act,
                       ar_reason = reason, ar_created_at = now, ar_expires_at = expires\<rparr>
              in (Inr r, invalidate_network_policy owner (insert_asn_rule r st1)))"

text \<open>The versions for route policies and streams, whose rows carry no WAF rule id.\<close>

definition add_route_ip_rule ::
  "string \<Rightarrow> string \<Rightarrow> ip_rule_action \<Rightarrow> string \<Rightarrow> time option \<Rightarrow> string \<Rightarrow> time \<Rightarrow> ip_rule_action rule_service
   \<Rightarrow> (rule_error + ip_rule_action ip_rule) \<times> ip_rule_action rule_service" where
  "add_route_ip_rule owner cidr act reason expires = add_ip_rule owner cidr act reason expires None"

definition add_stream_ip_rule ::
  "string \<Rightarrow> string \<Rightarrow> stream_rule_action \<Rightarrow> string \<Rightarrow> time option \<Rightarrow> string \<Rightarrow> time \<Rightarrow> stream_rule_action rule_service
   \<Rightarrow> (rule_error + stream_rule_action ip_rule) \<times> stream_rule_action rule_service" where
  "add_stream_ip_rule owner cidr act reason expires = add_ip_rule owner cidr act reason expires None"

definition add_route_country_rule ::
  "string \<Rightarrow> string \<Rightarrow> ip_rule_action \<Rightarrow> string \<Rightarrow> time option \<Rightarrow> string \<Rightarrow> time \<Rightarrow> ip_rule_action rule_service
   \<Rightarrow> (rule_error + ip_rule_action country_rule) \<times> ip_rule_action rule_service" where
  "add_route_country_rule = add_country_rule"

definition add_stream_country_rule ::
  "string \<Rightarrow> string \<Rightarrow> stream_rule_action \<Rightarrow> string \<Rightarrow> time option \<Rightarrow> string \<Rightarrow> time \<Rightarrow> stream_rule_action rule_service
   \<Rightarrow> (rule_error + stream_rule_action country_rule) \<times> stream_rule_action rule_service" where
  "add_stream_country_rule = add_country_rule"

definition add_route_asn_rule ::
  "string \<Rightarrow> jsnum \<Rightarrow> ip_rule_action \<Rightarrow> string \<Rightarrow> time option \<Rightarrow> string \<Rightarrow> time \<Rightarrow> ip_rule_action rule_service
   \<Rightarrow> (rule_error + ip_rule_action asn_rule) \<times> ip_rule_action rule_service" where
  "add_route_asn_rule = add_asn_rule"

definition add_stream_asn_rule ::
  "string \<Rightarrow> jsnum \<Rightarrow> stream_rule_action \<Rightarrow> string \<Rightarrow> time option \<Rightarrow> string \<Rightarrow> time \<Rightarrow> stream_rule_action rule_service
   \<Rightarrow> (rule_error + stream_rule_action asn_rule) \<times> stream_rule_action rule_service" where
  "add_stream_asn_rule = add_asn_rule"

section \<open>Automatic bans\<close>

text \<open>\<open>Math.round(a / b)\<close> for non-negative integers.\<close>

definition round_div :: "nat \<Rightarrow> nat \<Rightarrow> nat" where
  "round_div a b = (2 * a + b) div (2 * b)"

definition plural :: "nat \<Rightarrow> string \<Rightarrow> string" where
  "plural n unit = nat_text n @ '' '' @ unit @ (if n = 1 then '''' else ''s'')"

definition humanize_duration_seconds :: "nat \<Rightarrow> string" where
  "humanize_duration_seconds n =
     (if n < 60 then plural n ''second''
      else if n < 3600 then plural (round_div n 60) ''minute''
      else if n < 86400 then plural (round_div n 3600) ''hour''
      else plural (round_div n 86400) ''day'')"

text \<open>\<open>toFixed(1)\<close> of \<open>a / b\<close>, where \<open>b\<close> is a power of two.\<close>

definition to_fixed_1 :: "nat \<Rightarrow> nat \<Rightarrow> string" where
  "to_fixed_1 a b = (let n = round_div (10 * a) b in nat_text (n div 10) @ ''.'' @ nat_text (n mod 10))"

definition humanize_bytes :: "nat \<Rightarrow> string" where
  "humanize_bytes n =
     (if n < 1024 * 1024 then nat_text (round_div n 1024) @ '' KiB''
      else if n < 1024 * 1024 * 1024 then to_fixed_1 n (1024 * 1024) @ '' MiB''
      else to_fixed_1 n (1024 * 1024 * 1024) @ '' GiB'')"

datatype severity = Low | Medium | High | Critical

definition severity_text :: "severity \<Rightarrow> string" where
  "severity_text s = (case s of Low \<Rightarrow> ''low'' | Medium \<Rightarrow> ''medium'' | High \<Rightarrow> ''high'' | Critical \<Rightarrow> ''critical'')"

record protection_match =
  pm_rule_id :: string
  pm_ruleset_id :: string
  pm_category :: string
  pm_severity :: severity

definition blocked_by_rule :: "network_decision \<Rightarrow> bool" where
  "blocked_by_rule d \<longleftrightarrow> nd_source d = IpRuleSource \<and> nd_action d = Some Block"

definition stream_blocked_by_rule :: "stream_network_decision \<Rightarrow> bool" where
  "stream_blocked_by_rule d \<longleftrightarrow> sd_source d = IpRuleSource \<and> sd_action d = Some SBlock"

text \<open>
  The common part of the bans: nothing for an unknown address or a duration of zero, nothing when
  a rule already blocks the address, otherwise a \<open>block\<close> rule on the address that expires after
  the duration. The result is the rule, \<^term>\<open>None\<close> for \<open>null\<close>, or the error of \<open>addIpRule\<close>.
\<close>

definition ban_ip ::
  "site \<Rightarrow> string \<Rightarrow> string \<Rightarrow> nat \<Rightarrow> string option \<Rightarrow> geo \<Rightarrow> string \<Rightarrow> time \<Rightarrow> ip_rule_action rule_service
   \<Rightarrow> (rule_error + ip_rule_action ip_rule option) \<times> ip_rule_action rule_service" where
  "ban_ip s ip why ban_seconds rule_id g fresh now st =
     (if ip = ''unknown'' \<or> ban_seconds = 0 then (Inr None, st)
      else let (existing, st1) = evaluate_ip s g now ip st in
        if blocked_by_rule existing then (Inr None, st1)
        else let (res, st2) = add_ip_rule (site_id s) ip Block
                 (''Auto-banned for '' @ humanize_duration_seconds ban_seconds @ '' after '' @ why @ ''.'')
                 (Some (now + int ban_seconds * 1000)) rule_id fresh now st1
          in (map_sum id Some res, st2))"

definition ban_ip_for_protection_match ::
  "site \<Rightarrow> string \<Rightarrow> protection_match \<Rightarrow> (severity \<Rightarrow> nat) \<Rightarrow> geo \<Rightarrow> string \<Rightarrow> time \<Rightarrow> ip_rule_action rule_service
   \<Rightarrow> (rule_error + ip_rule_action ip_rule option) \<times> ip_rule_action rule_service" where
  "ban_ip_for_protection_match s ip m durations =
     ban_ip s ip (''matching WAF rule '' @ pm_rule_id m @ '' ('' @ pm_category m @ '', '' @ severity_text (pm_severity m) @ '')'')
       (durations (pm_severity m)) (Some (pm_rule_id m))"

definition ban_ip_for_bandwidth_limit ::
  "site \<Rightarrow> string \<Rightarrow> nat \<Rightarrow> nat \<Rightarrow> nat \<Rightarrow> geo \<Rightarrow> string \<Rightarrow> time \<Rightarrow> ip_rule_action rule_service
   \<Rightarrow> (rule_error + ip_rule_action ip_rule option) \<times> ip_rule_action rule_service" where
  "ban_ip_for_bandwidth_limit s ip max_bytes window_seconds ban_seconds =
     ban_ip s ip (''exceeding '' @ humanize_bytes max_bytes @ '' in '' @ nat_text window_seconds @ ''s'') ban_seconds None"

definition ban_ip_for_challenge_failures ::
  "site \<Rightarrow> string \<Rightarrow> nat \<Rightarrow> nat \<Rightarrow> geo \<Rightarrow> string \<Rightarrow> time \<Rightarrow> ip_rule_action rule_service
   \<Rightarrow> (rule_error + ip_rule_action ip_rule option) \<times> ip_rule_action rule_service" where
  "ban_ip_for_challenge_failures s ip failure_count ban_seconds =
     ban_ip s ip (nat_text failure_count @ '' consecutive failed challenge attempts'') ban_seconds None"

definition ban_stream_ip ::
  "stream \<Rightarrow> string \<Rightarrow> string \<Rightarrow> nat \<Rightarrow> geo \<Rightarrow> string \<Rightarrow> time \<Rightarrow> stream_rule_action rule_service
   \<Rightarrow> (rule_error + stream_rule_action ip_rule option) \<times> stream_rule_action rule_service" where
  "ban_stream_ip s ip why ban_seconds g fresh now st =
     (if ip = ''unknown'' \<or> ban_seconds = 0 then (Inr None, st)
      else let (existing, st1) = evaluate_stream_ip s g now ip st in
        if stream_blocked_by_rule existing then (Inr None, st1)
        else let (res, st2) = add_stream_ip_rule (stream_id s) ip SBlock
                 (''Auto-banned for '' @ humanize_duration_seconds ban_seconds @ '' after '' @ why @ ''.'')
                 (Some (now + int ban_seconds * 1000)) fresh now st1
          in (map_sum id Some res, st2))"

definition ban_stream_ip_for_protection_match ::
  "stream \<Rightarrow> string \<Rightarrow> protection_match \<Rightarrow> (severity \<Rightarrow> nat) \<Rightarrow> geo \<Rightarrow> string \<Rightarrow> time \<Rightarrow> stream_rule_action rule_service
   \<Rightarrow> (rule_error + stream_rule_action ip_rule option) \<times> stream_rule_action rule_service" where
  "ban_stream_ip_for_protection_match s ip m durations =
     ban_stream_ip s ip (''matching '' @ pm_ruleset_id m @ '' rule '' @ pm_rule_id m @ '' ('' @ pm_category m @ '', ''
       @ severity_text (pm_severity m) @ '')'') (durations (pm_severity m))"

definition ban_stream_ip_for_bandwidth_limit ::
  "stream \<Rightarrow> string \<Rightarrow> bool \<Rightarrow> nat \<Rightarrow> nat \<Rightarrow> nat \<Rightarrow> geo \<Rightarrow> string \<Rightarrow> time \<Rightarrow> stream_rule_action rule_service
   \<Rightarrow> (rule_error + stream_rule_action ip_rule option) \<times> stream_rule_action rule_service" where
  "ban_stream_ip_for_bandwidth_limit s ip udp max_bytes window_seconds ban_seconds =
     ban_stream_ip s ip (''exceeding '' @ humanize_bytes max_bytes @ '' of '' @ (if udp then ''UDP'' else ''TCP'')
       @ '' traffic in '' @ nat_text window_seconds @ ''s'') ban_seconds"

section \<open>The cache is coherent\<close>

definition rules_coherent :: "'a rule_service \<Rightarrow> bool" where
  "rules_coherent st \<longleftrightarrow> (\<forall>owner c. rule_cache st owner = Some c \<longrightarrow> c = load_rules (tables st) owner)"

interpretation rc: read_through_cache load_rules rules_for_site tables rule_cache
  by unfold_locales (auto simp: rules_for_site_def Let_def)

lemma rules_coherent_rc: "rules_coherent = rc.coherent"
  by (simp add: fun_eq_iff rules_coherent_def rc.coherent_def)

lemmas table_write_defs = insert_rule_def insert_country_rule_def insert_asn_rule_def
  delete_rule_for_site_def delete_country_rule_for_site_def delete_asn_rule_for_site_def

lemmas load_frame_defs = load_rules_def repository_rules_def

text \<open>Writing rows of one owner leaves what is loaded for the others alone.\<close>

lemma load_insert_rule: "j \<noteq> ir_owner r \<Longrightarrow> load_rules (tables (insert_rule r st)) j = load_rules (tables st) j"
  by (simp add: load_frame_defs table_write_defs)

lemma load_insert_country: "j \<noteq> cr_owner r \<Longrightarrow> load_rules (tables (insert_country_rule r st)) j = load_rules (tables st) j"
  by (simp add: load_frame_defs table_write_defs)

lemma load_insert_asn: "j \<noteq> ar_owner r \<Longrightarrow> load_rules (tables (insert_asn_rule r st)) j = load_rules (tables st) j"
  by (simp add: load_frame_defs table_write_defs)

lemma filter_frame:
  "j \<noteq> owner \<Longrightarrow> filter (\<lambda>r. f r = j) (filter (\<lambda>r. g r = rid \<longrightarrow> f r \<noteq> owner) rs) = filter (\<lambda>r. f r = j) rs"
  by (induction rs) auto

lemma load_delete_rule: "j \<noteq> owner \<Longrightarrow> load_rules (tables (delete_rule_for_site rid owner st)) j = load_rules (tables st) j"
  by (simp add: load_frame_defs table_write_defs filter_frame del: filter_filter)

lemma load_delete_country: "j \<noteq> owner \<Longrightarrow> load_rules (tables (delete_country_rule_for_site rid owner st)) j = load_rules (tables st) j"
  by (simp add: load_frame_defs table_write_defs filter_frame del: filter_filter)

lemma load_delete_asn: "j \<noteq> owner \<Longrightarrow> load_rules (tables (delete_asn_rule_for_site rid owner st)) j = load_rules (tables st) j"
  by (simp add: load_frame_defs table_write_defs filter_frame del: filter_filter)

lemma cache_table_writes [simp]:
  "rule_cache (insert_rule r st) = rule_cache st"
  "rule_cache (insert_country_rule cr st) = rule_cache st"
  "rule_cache (insert_asn_rule ar st) = rule_cache st"
  "rule_cache (delete_rule_for_site rid owner st) = rule_cache st"
  "rule_cache (delete_country_rule_for_site rid owner st) = rule_cache st"
  "rule_cache (delete_asn_rule_for_site rid owner st) = rule_cache st"
  by (simp_all add: table_write_defs)

lemma invalidate_simps [simp]:
  "tables (invalidate_network_policy owner st) = tables st"
  "rule_cache (invalidate_network_policy owner st) = (rule_cache st)(owner := None)"
  by (simp_all add: invalidate_network_policy_def)

lemmas load_frame = load_insert_rule load_insert_country load_insert_asn load_delete_rule
  load_delete_country load_delete_asn

text \<open>A table write followed by the invalidation of its owner.\<close>

lemma write_then_invalidate:
  assumes "rules_coherent st" and "rule_cache st' = rule_cache st"
    and "\<And>j. j \<noteq> owner \<Longrightarrow> load_rules (tables st') j = load_rules (tables st) j"
  shows "rules_coherent (invalidate_network_policy owner st')"
proof -
  have "rc.coherent (invalidate_network_policy owner st')"
  proof (rule rc.write_coherent)
    show "rc.coherent st" using assms(1) by (simp only: rules_coherent_rc)
    show "rule_cache (invalidate_network_policy owner st') = (rule_cache st)(owner := None)"
      by (simp add: assms(2))
  qed (simp add: assms(3))
  then show ?thesis by (simp only: rules_coherent_rc)
qed

lemma add_ip_rule_coherent:
  "rules_coherent st \<Longrightarrow> rules_coherent (snd (add_ip_rule owner cidr act reason expires rid fresh now st))"
  by (auto simp: add_ip_rule_def Let_def load_frame intro!: write_then_invalidate [of st] split: option.splits)

lemma add_country_rule_coherent:
  "rules_coherent st \<Longrightarrow> rules_coherent (snd (add_country_rule owner input act reason expires fresh now st))"
  by (auto simp: add_country_rule_def Let_def load_frame intro!: write_then_invalidate [of st] split: option.splits)

lemma add_asn_rule_coherent:
  "rules_coherent st \<Longrightarrow> rules_coherent (snd (add_asn_rule owner input act reason expires fresh now st))"
  by (auto simp: add_asn_rule_def Let_def load_frame intro!: write_then_invalidate [of st] split: option.splits)

lemma api_delete_coherent:
  assumes "rules_coherent st"
  shows "rules_coherent (api_delete_rule rid owner st)"
    and "rules_coherent (api_delete_country_rule rid owner st)"
    and "rules_coherent (api_delete_asn_rule rid owner st)"
  using assms unfolding api_delete_rule_def api_delete_country_rule_def api_delete_asn_rule_def
  by (auto simp: load_frame intro!: write_then_invalidate [of st])

lemma invalidate_coherent:
  "rules_coherent st \<Longrightarrow> rules_coherent (invalidate_network_policy owner st)"
  by (rule write_then_invalidate) simp_all

lemma invalidate_all_coherent: "rules_coherent (invalidate_all_network_policy st)"
  by (simp add: rules_coherent_rc rc.empty_coherent invalidate_all_network_policy_def)

lemma rules_for_site_coherent: "rules_coherent st \<Longrightarrow> rules_coherent (snd (rules_for_site owner st))"
  by (simp add: rules_coherent_rc rc.get_coherent)

lemma rules_for_site_value: "rules_coherent st \<Longrightarrow> fst (rules_for_site owner st) = load_rules (tables st) owner"
  by (simp add: rules_coherent_rc rc.get_value)

lemma tables_rules_for_site [simp]: "tables (snd (rules_for_site owner st)) = tables st"
  by (rule rc.get_db)

section \<open>Steps of a rule service\<close>

text \<open>
  The operations that touch a service, in any order. An evaluation is a \<open>read\<close>, an automatic ban
  is a read followed by at most one added rule.
\<close>

inductive rule_step :: "'a rule_service \<Rightarrow> 'a rule_service \<Rightarrow> bool" where
  read: "rule_step st (snd (rules_for_site owner st))"
| add_ip: "rule_step st (snd (add_ip_rule owner cidr act reason expires rid fresh now st))"
| add_country: "rule_step st (snd (add_country_rule owner input act reason expires fresh now st))"
| add_asn: "rule_step st (snd (add_asn_rule owner asn act reason expires fresh now st))"
| delete_ip: "rule_step st (api_delete_rule rid owner st)"
| delete_country: "rule_step st (api_delete_country_rule rid owner st)"
| delete_asn: "rule_step st (api_delete_asn_rule rid owner st)"
| invalidate: "rule_step st (invalidate_network_policy owner st)"
| invalidate_all: "rule_step st (invalidate_all_network_policy st)"

lemma rule_step_coherent: "rule_step st st' \<Longrightarrow> rules_coherent st \<Longrightarrow> rules_coherent st'"
  by (induction rule: rule_step.induct)
    (auto intro: rules_for_site_coherent add_ip_rule_coherent add_country_rule_coherent
      add_asn_rule_coherent api_delete_coherent invalidate_coherent invalidate_all_coherent)

lemma rule_steps_coherent: "rule_step\<^sup>*\<^sup>* st st' \<Longrightarrow> rules_coherent st \<Longrightarrow> rules_coherent st'"
  by (induction rule: rtranclp_induct) (auto intro: rule_step_coherent)

text \<open>At most one country rule per owner and code, one ASN rule per owner and number.\<close>

definition one_rule_per_key :: "'a rule_tables \<Rightarrow> bool" where
  "one_rule_per_key t \<longleftrightarrow> distinct (map (\<lambda>r. (cr_owner r, cr_country_code r)) (country_rules t))
     \<and> distinct (map (\<lambda>r. (ar_owner r, ar_asn r)) (asn_rules t))"

lemma distinct_map_filter_key: "distinct (map f xs) \<Longrightarrow> distinct (map f (filter P xs))"
  by (induction xs) auto

lemma distinct_replace_row:
  assumes "distinct (map f xs)" and "e \<in> set xs" and "\<not> P e"
  shows "f e \<notin> f ` set (filter P xs)"
proof
  assume "f e \<in> f ` set (filter P xs)"
  then obtain y where "y \<in> set xs" "P y" "f y = f e" by auto
  with assms show False by (auto simp: distinct_map dest: inj_onD)
qed

lemma add_country_one_rule:
  assumes "one_rule_per_key (tables st)"
  shows "one_rule_per_key (tables (snd (add_country_rule owner input act reason expires fresh now st)))"
proof -
  let ?code = "to_upper (trim input)"
  show ?thesis
  proof (cases "country_rule_by_code owner ?code (tables st)")
    case None
    then have "(owner, ?code) \<notin> (\<lambda>r. (cr_owner r, cr_country_code r)) ` set (country_rules (tables st))"
      by (auto simp: country_rule_by_code_def find_None_iff)
    with None show ?thesis using assms
      by (simp add: add_country_rule_def Let_def one_rule_per_key_def insert_country_rule_def)
  next
    case (Some e)
    then have e: "e \<in> set (country_rules (tables st))" "cr_owner e = owner" "cr_country_code e = ?code"
      by (auto simp: country_rule_by_code_def find_Some_iff)
    from assms Some e distinct_replace_row [OF _ e(1), of "\<lambda>r. (cr_owner r, cr_country_code r)"
        "\<lambda>r. \<not> (cr_id r = cr_id e \<and> cr_owner r = owner)"]
    show ?thesis
      by (simp add: add_country_rule_def Let_def one_rule_per_key_def insert_country_rule_def
          delete_country_rule_for_site_def distinct_map_filter_key)
  qed
qed

lemma add_asn_one_rule:
  assumes "one_rule_per_key (tables st)"
  shows "one_rule_per_key (tables (snd (add_asn_rule owner input act reason expires fresh now st)))"
proof (cases "js_integer input")
  case (Some i)
  show ?thesis
  proof (cases "asn_rule_by_asn owner (nat i) (tables st)")
    case None
    then have "(owner, nat i) \<notin> (\<lambda>r. (ar_owner r, ar_asn r)) ` set (asn_rules (tables st))"
      by (auto simp: asn_rule_by_asn_def find_None_iff)
    with None show ?thesis using assms Some
      by (simp add: add_asn_rule_def Let_def one_rule_per_key_def insert_asn_rule_def)
  next
    case (Some e)
    then have e: "e \<in> set (asn_rules (tables st))" "ar_owner e = owner" "ar_asn e = nat i"
      by (auto simp: asn_rule_by_asn_def find_Some_iff)
    from assms Some \<open>js_integer input = Some i\<close> e distinct_replace_row [OF _ e(1), of "\<lambda>r. (ar_owner r, ar_asn r)"
        "\<lambda>r. \<not> (ar_id r = ar_id e \<and> ar_owner r = owner)"]
    show ?thesis
      by (simp add: add_asn_rule_def Let_def one_rule_per_key_def insert_asn_rule_def
          delete_asn_rule_for_site_def distinct_map_filter_key)
  qed
qed (use assms in \<open>simp add: add_asn_rule_def\<close>)

lemma rule_step_one_rule: "rule_step st st' \<Longrightarrow> one_rule_per_key (tables st) \<Longrightarrow> one_rule_per_key (tables st')"
proof (induction rule: rule_step.induct)
  case (add_ip st owner cidr act reason expires rid fresh now)
  then show ?case
    by (auto simp: add_ip_rule_def Let_def insert_rule_def one_rule_per_key_def split: option.splits)
next
  case (add_country st owner input act reason expires fresh now)
  then show ?case by (rule add_country_one_rule)
next
  case (add_asn st owner asn act reason expires fresh now)
  then show ?case by (rule add_asn_one_rule)
qed (simp_all add: one_rule_per_key_def api_delete_rule_def api_delete_country_rule_def
    api_delete_asn_rule_def table_write_defs distinct_map_filter_key invalidate_all_network_policy_def)

lemma rule_steps_one_rule:
  "rule_step\<^sup>*\<^sup>* st st' \<Longrightarrow> one_rule_per_key (tables st) \<Longrightarrow> one_rule_per_key (tables st')"
  by (induction rule: rtranclp_induct) (auto intro: rule_step_one_rule)

section \<open>Which rule decides\<close>

text \<open>A row applies when it belongs to the owner, parses, is active and covers the address.\<close>

definition applies :: "'a rule_tables \<Rightarrow> string \<Rightarrow> time \<Rightarrow> string \<Rightarrow> 'a ip_rule \<Rightarrow> parsed_cidr \<Rightarrow> bool" where
  "applies t owner now ip r c \<longleftrightarrow> r \<in> set (ip_rules t) \<and> ir_owner r = owner
     \<and> parse_cidr (ir_network_cidr r) = Some c \<and> active (ir_expires_at r) now \<and> cidr_contains c ip"

lemma with_cidr_mem:
  "(r, c) \<in> set (with_cidr (repository_rules t owner)) \<longleftrightarrow>
     r \<in> set (ip_rules t) \<and> ir_owner r = owner \<and> parse_cidr (ir_network_cidr r) = Some c"
  by (auto simp: with_cidr_def repository_rules_def List.map_filter_def image_iff)

lemma matching_loaded_Some:
  assumes "matching_ip_rule (cached_ip (load_rules t owner)) now ip = Some (r, c)"
  shows "applies t owner now ip r c"
    and "\<And>r' c'. applies t owner now ip r' c' \<Longrightarrow>
      cidr_prefix c' < cidr_prefix c \<or> cidr_prefix c' = cidr_prefix c \<and> ir_created_at r' \<le> ir_created_at r"
proof -
  from assms have fnd: "find (\<lambda>it. active (ir_expires_at (fst it)) now \<and> cidr_contains (snd it) ip)
      (sort_key lookup_key (with_cidr (repository_rules t owner))) = Some (r, c)"
    by (auto simp: matching_ip_rule_def load_rules_def split: if_splits)
  note d = find_sort_key_SomeD [OF fnd]
  from d(1,2) show "applies t owner now ip r c" by (simp add: with_cidr_mem applies_def)
  fix r' c' assume "applies t owner now ip r' c'"
  with d(3) [of "(r', c')"] have "lookup_key (r, c) \<le> lookup_key (r', c')"
    by (simp add: with_cidr_mem applies_def)
  then show "cidr_prefix c' < cidr_prefix c \<or> cidr_prefix c' = cidr_prefix c \<and> ir_created_at r' \<le> ir_created_at r"
    by (auto simp: lookup_key_def)
qed

lemma matching_loaded_None:
  assumes "ip \<noteq> ''unknown''"
  shows "matching_ip_rule (cached_ip (load_rules t owner)) now ip = None \<longleftrightarrow> (\<nexists>r c. applies t owner now ip r c)"
  using assms by (auto simp: matching_ip_rule_def load_rules_def find_sort_key_None Ball_def split_paired_All with_cidr_mem applies_def)

lemma evaluate_ip_value:
  "rules_coherent st \<Longrightarrow> fst (evaluate_ip s g now ip st) =
     decide SiteScope None '''' (load_rules (tables st) (site_id s)) (default_ip_action s)
       (default_country_action s) g now ip"
  using rules_for_site_value [of st "site_id s"] by (simp add: evaluate_ip_def split_beta)

lemma evaluate_ip_state: "snd (evaluate_ip s g now ip st) = snd (rules_for_site (site_id s) st)"
  by (simp add: evaluate_ip_def split_beta)

lemma evaluate_stream_ip_state:
  "snd (evaluate_stream_ip s g now ip st) = snd (rules_for_site (stream_id s) st)"
  by (simp add: evaluate_stream_ip_def rules_for_stream_def split_beta Let_def)

lemma decide_ip_rule:
  assumes "matching_ip_rule (cached_ip rules) now ip = Some (r, c)"
  shows "nd_source (decide scope pol label rules dip dco g now ip) = IpRuleSource"
    and "nd_action (decide scope pol label rules dip dco g now ip) = Some (ir_action r)"
    and "nd_expires_at (decide scope pol label rules dip dco g now ip) = ir_expires_at r"
  using assms by (simp_all add: decide_def split_beta Let_def)

lemma decide_no_ip_rule:
  assumes "matching_ip_rule (cached_ip rules) now ip = None"
  shows "nd_source (decide scope pol label rules dip dco g now ip) \<noteq> IpRuleSource"
  using assms by (simp add: decide_def split_beta Let_def split: option.splits)

lemma active_asn_ruleD: "active_asn_rule rules now asn = Some r \<Longrightarrow> active (ar_expires_at r) now"
  by (auto simp: active_asn_rule_def split: option.splits if_splits)

lemma active_country_ruleD: "active_country_rule rules now code = Some r \<Longrightarrow> active (cr_expires_at r) now"
  by (auto simp: active_country_rule_def split: option.splits if_splits)

lemma matching_ip_rule_active: "matching_ip_rule items now ip = Some (r, c) \<Longrightarrow> active (ir_expires_at r) now"
  by (auto simp: matching_ip_rule_def find_Some_iff prod_eq_iff split: if_splits)

lemma decide_expiry:
  "nd_expires_at (decide scope pol label rules dip dco g now ip) = Some t \<Longrightarrow> now < t"
  by (auto simp: decide_def split_beta Let_def active_def split: option.splits
      dest!: active_asn_ruleD active_country_ruleD matching_ip_rule_active)

section \<open>Effect of a ban\<close>

lemma cidr_contains_self:
  "parse_ip ip = Some p \<Longrightarrow> parse_cidr ip = Some c \<Longrightarrow> cidr_contains c ip"
  by (auto simp: parse_cidr_single cidr_contains_def mask_low_eq)

lemma prefix_le_own:
  assumes "parse_ip ip = Some p" and "parse_cidr t = Some c" and "cidr_contains c ip"
  shows "cidr_prefix c \<le> ip_bits p"
  using parse_cidr_wf [OF assms(2)] parse_ip_wf(1) [OF assms(1)] assms(1,3)
  by (auto simp: cidr_wf_def cidr_contains_def)

text \<open>An active rule on the address itself wins while every other rule on just this address is older.\<close>

lemma newest_host_rule_wins:
  assumes p: "parse_ip ip = Some p" and unk: "ip \<noteq> ''unknown''"
    and r: "r \<in> set (ip_rules t)" "ir_owner r = owner" "ir_network_cidr r = ip" "active (ir_expires_at r) now"
    and newest: "\<And>r' c'. applies t owner now ip r' c' \<Longrightarrow> r' \<noteq> r \<Longrightarrow> cidr_prefix c' = ip_bits p \<Longrightarrow> ir_created_at r' < ir_created_at r"
  shows "\<exists>c. matching_ip_rule (cached_ip (load_rules t owner)) now ip = Some (r, c)"
proof -
  obtain c where c: "parse_cidr ip = Some c" "cidr_prefix c = ip_bits p"
    using parse_cidr_single [OF p] by simp
  have app: "applies t owner now ip r c"
    using r c(1) cidr_contains_self [OF p c(1)] by (simp add: applies_def)
  with matching_loaded_None [OF unk, of t owner now] obtain r' c' where
    m: "matching_ip_rule (cached_ip (load_rules t owner)) now ip = Some (r', c')"
    by (cases "matching_ip_rule (cached_ip (load_rules t owner)) now ip") auto
  have a: "applies t owner now ip r' c'" by (rule matching_loaded_Some(1) [OF m])
  then have "cidr_prefix c' \<le> ip_bits p" using prefix_le_own [OF p] by (auto simp: applies_def)
  with matching_loaded_Some(2) [OF m app] c(2) newest [OF a] have "r' = r" by force
  with m show ?thesis by blast
qed

lemma add_ip_rule_tables:
  assumes "add_ip_rule owner cidr act reason expires rid fresh now st = (Inr r, st')"
  shows "tables st' = (tables st)\<lparr>ip_rules := ip_rules (tables st) @ [r]\<rparr>"
    and "ir_owner r = owner" "ir_network_cidr r = cidr" "ir_action r = act" "ir_created_at r = now"
    and "ir_expires_at r = expires"
  using assms by (auto simp: add_ip_rule_def insert_rule_def Let_def split: option.splits)

lemma map_sum_Inr_Some: "map_sum id Some x = Inr (Some r) \<longleftrightarrow> x = Inr r"
  by (cases x) auto

lemma ban_ip_Some:
  assumes "ban_ip s ip why secs rid g fresh now st = (Inr (Some r), st')"
  obtains reason where "add_ip_rule (site_id s) ip Block reason (Some (now + int secs * 1000)) rid fresh now
      (snd (evaluate_ip s g now ip st)) = (Inr r, st')" and "ip \<noteq> ''unknown''"
proof -
  let ?a = "add_ip_rule (site_id s) ip Block
      (''Auto-banned for '' @ humanize_duration_seconds secs @ '' after '' @ why @ ''.'')
      (Some (now + int secs * 1000)) rid fresh now (snd (evaluate_ip s g now ip st))"
  from assms have "ip \<noteq> ''unknown''" "(map_sum id Some (fst ?a), snd ?a) = (Inr (Some r), st')"
    by (simp_all only: ban_ip_def split_beta Let_def split: if_splits) auto
  then have "?a = (Inr r, st')" by (simp only: map_sum_Inr_Some prod_eq_iff fst_conv snd_conv)
  with \<open>ip \<noteq> ''unknown''\<close> show thesis by (intro that)
qed

text \<open>A ban that is still in the table decides, whatever happened since.\<close>

lemma ban_ip_blocks:
  assumes coh: "rules_coherent st" and p: "parse_ip ip = Some p"
    and ban: "ban_ip s ip why secs rid g fresh now st = (Inr (Some r), st1)"
    and later: "rule_step\<^sup>*\<^sup>* st1 st2" and kept: "r \<in> set (ip_rules (tables st2))"
    and newest: "\<forall>r' c'. applies (tables st2) (site_id s) t ip r' c' \<and> r' \<noteq> r \<and> cidr_prefix c' = ip_bits p \<longrightarrow> ir_created_at r' < now"
    and t: "t < now + int secs * 1000"
  shows "nd_action (fst (evaluate_ip s g' t ip st2)) = Some Block
    \<and> nd_source (fst (evaluate_ip s g' t ip st2)) = IpRuleSource
    \<and> nd_expires_at (fst (evaluate_ip s g' t ip st2)) = Some (now + int secs * 1000)"
proof -
  obtain reason where a: "add_ip_rule (site_id s) ip Block reason (Some (now + int secs * 1000)) rid fresh now
      (snd (evaluate_ip s g now ip st)) = (Inr r, st1)" and unk: "ip \<noteq> ''unknown''"
    using ban by (rule ban_ip_Some)
  note f = add_ip_rule_tables [OF a]
  have "rules_coherent st1"
    using add_ip_rule_coherent [OF rules_for_site_coherent [OF coh]] a
    by (metis evaluate_ip_state snd_conv)
  then have coh2: "rules_coherent st2" by (rule rule_steps_coherent [OF later])
  have "\<exists>c. matching_ip_rule (cached_ip (load_rules (tables st2) (site_id s))) t ip = Some (r, c)"
    using newest_host_rule_wins [OF p unk kept f(2,3), of t] f newest t by (auto simp: active_def)
  then show ?thesis
    using decide_ip_rule f by (auto simp: evaluate_ip_value [OF coh2])
qed

section \<open>Properties\<close>

text \<open>
  A concrete site for the witnesses: no GeoIP database, no defaults, one rule that blocks
  10.0.0.0/8 and one that allows 10.1.0.0/16.
\<close>

definition sample_geo :: geo where
  "sample_geo = \<lparr>validate_ip = (\<lambda>_. True), country_reader = None, asn_reader = None\<rparr>"

definition sample_site :: site where
  "sample_site = \<lparr>site_id = ''s1'', default_ip_action = None, default_country_action = None\<rparr>"

definition sample_rule :: "string \<Rightarrow> string \<Rightarrow> ip_rule_action \<Rightarrow> time \<Rightarrow> ip_rule_action ip_rule" where
  "sample_rule i cidr act t = \<lparr>ir_id = i, ir_owner = ''s1'', ir_network_cidr = cidr, ir_action = act,
     ir_reason = '''', ir_created_at = t, ir_expires_at = None, ir_rule_id = None\<rparr>"

definition sample_tables :: "ip_rule_action rule_tables" where
  "sample_tables = \<lparr>ip_rules = [sample_rule ''a'' ''10.0.0.0/8'' Block 5, sample_rule ''b'' ''10.1.0.0/16'' Allow 3],
     country_rules = [], asn_rules = []\<rparr>"

definition sample_service :: "ip_rule_action rule_service" where
  "sample_service = \<lparr>tables = sample_tables, rule_cache = Map.empty\<rparr>"

lemma sample_coherent: "rules_coherent sample_service"
  by (simp add: rules_coherent_def sample_service_def)

text \<open>
  C2: whatever reads, added and deleted rules and invalidations came before, from an empty cache,
  \<open>evaluateIp\<close> answers what the rows of the tables now say: no decision is taken on stale rules.
\<close>

theorem evaluate_ip_not_stale:
  assumes "rule_step\<^sup>*\<^sup>* st st'" and "rule_cache st = Map.empty"
  shows "fst (evaluate_ip s g now ip st') =
     decide SiteScope None '''' (load_rules (tables st') (site_id s)) (default_ip_action s)
       (default_country_action s) g now ip"
  using rule_steps_coherent [OF assms(1)] assms(2) by (simp add: evaluate_ip_value rules_coherent_def)

theorem evaluate_ip_not_stale_witness:
  "nd_action (fst (evaluate_ip sample_site sample_geo 20 ''10.2.0.1''
     (snd (add_ip_rule ''s1'' ''10.2.0.0/24'' Challenge ''r'' None None ''c'' 9
       (snd (rules_for_site ''s1'' sample_service)))))) = Some Challenge"
proof -
  let ?st = "snd (rules_for_site ''s1'' sample_service)"
  let ?st' = "snd (add_ip_rule ''s1'' ''10.2.0.0/24'' Challenge ''r'' None None ''c'' 9 ?st)"
  have "rule_step\<^sup>*\<^sup>* sample_service ?st'"
    by (rule rtranclp.rtrancl_into_rtrancl [OF r_into_rtranclp]) (rule rule_step.read rule_step.add_ip)+
  moreover have "rule_cache sample_service = Map.empty" by (simp add: sample_service_def)
  moreover have "nd_action (decide SiteScope None '''' (load_rules (tables ?st') (site_id sample_site))
     (default_ip_action sample_site) (default_country_action sample_site) sample_geo 20 ''10.2.0.1'') = Some Challenge"
    by code_simp
  ultimately show ?thesis by (simp only: evaluate_ip_not_stale)
qed

text \<open>
  C1: for a known address, when some active rule of the site covers it, the decision is that of
  the covering rule with the longest prefix, the newest of them on a tie; when none does, the
  decision does not come from an IP rule.
\<close>

theorem most_specific_rule_wins:
  fixes s :: site and g :: geo and now :: time
  assumes "rules_coherent st" and "ip \<noteq> ''unknown''"
  defines "d \<equiv> fst (evaluate_ip s g now ip st)"
  shows "if \<exists>r c. applies (tables st) (site_id s) now ip r c
     then nd_source d = IpRuleSource \<and> (\<exists>r c. applies (tables st) (site_id s) now ip r c
       \<and> nd_action d = Some (ir_action r) \<and> nd_expires_at d = ir_expires_at r
       \<and> (\<forall>r' c'. applies (tables st) (site_id s) now ip r' c' \<longrightarrow>
            cidr_prefix c' < cidr_prefix c
            \<or> cidr_prefix c' = cidr_prefix c \<and> ir_created_at r' \<le> ir_created_at r))
     else nd_source d \<noteq> IpRuleSource"
proof (cases "matching_ip_rule (cached_ip (load_rules (tables st) (site_id s))) now ip")
  case None
  then have "\<nexists>r c. applies (tables st) (site_id s) now ip r c"
    by (rule matching_loaded_None [OF assms(2), THEN iffD1])
  with decide_no_ip_rule [OF None] show ?thesis unfolding d_def evaluate_ip_value [OF assms(1)] by simp
next
  case (Some rc)
  then obtain r c where m: "matching_ip_rule (cached_ip (load_rules (tables st) (site_id s))) now ip = Some (r, c)"
    by (cases rc) auto
  note f = matching_loaded_Some [OF m] decide_ip_rule [OF m]
  then show ?thesis unfolding d_def evaluate_ip_value [OF assms(1)]
    by (auto intro!: exI [of _ r] exI [of _ c])
qed

theorem most_specific_rule_wins_witness:
  "nd_action (fst (evaluate_ip sample_site sample_geo 20 ''10.1.2.3'' sample_service)) = Some Allow
   \<and> nd_source (fst (evaluate_ip sample_site sample_geo 20 ''10.1.2.3'' sample_service)) = IpRuleSource"
proof -
  have unk: "''10.1.2.3'' \<noteq> ''unknown''" by simp
  let ?c = "\<lparr>cidr_version = V4, cidr_network = 167837696, cidr_prefix = 16, cidr_bits = 32\<rparr>"
  have p: "parse_cidr ''10.1.0.0/16'' = Some ?c" and q: "cidr_contains ?c ''10.1.2.3''" by code_simp+
  have "applies (tables sample_service) (site_id sample_site) 20 ''10.1.2.3'' (sample_rule ''b'' ''10.1.0.0/16'' Allow 3) ?c"
    using p q by (simp add: applies_def sample_service_def sample_tables_def sample_rule_def sample_site_def active_def)
  then have "nd_source (fst (evaluate_ip sample_site sample_geo 20 ''10.1.2.3'' sample_service)) = IpRuleSource"
    using most_specific_rule_wins [OF sample_coherent unk, of sample_site 20 sample_geo]
    by (metis (no_types, lifting))
  moreover have "nd_action (fst (evaluate_ip sample_site sample_geo 20 ''10.1.2.3'' sample_service)) = Some Allow"
    by code_simp
  ultimately show ?thesis by blast
qed

text \<open>
  C3: when a match of a protection rule bans an address, then after any later reads, additions, deletions
  and invalidations of rules, and until the ban's duration is over, an evaluation of the address for the site
  is \<open>block\<close> from the ban, unless the ban's row has been deleted or another active row for just this address
  has been made at the same time or later. Rows for wider blocks, made before or after, do not matter.
\<close>

theorem auto_ban_blocks_until_expiry:
  assumes "rules_coherent st" and "parse_ip ip = Some p"
    and "ban_ip_for_protection_match s ip m durations g fresh now st = (Inr (Some r), st1)"
    and "rule_step\<^sup>*\<^sup>* st1 st2" and "r \<in> set (ip_rules (tables st2))"
    and "\<forall>r' c'. applies (tables st2) (site_id s) t ip r' c' \<and> r' \<noteq> r \<and> cidr_prefix c' = ip_bits p \<longrightarrow> ir_created_at r' < now"
    and "t < now + int (durations (pm_severity m)) * 1000"
  shows "nd_action (fst (evaluate_ip s g' t ip st2)) = Some Block
    \<and> nd_source (fst (evaluate_ip s g' t ip st2)) = IpRuleSource
    \<and> nd_expires_at (fst (evaluate_ip s g' t ip st2)) = Some (now + int (durations (pm_severity m)) * 1000)"
  by (rule ban_ip_blocks [OF assms(1,2) assms(3) [unfolded ban_ip_for_protection_match_def] assms(4-7)])

definition sample_match :: protection_match where
  "sample_match = \<lparr>pm_rule_id = ''sqli-1'', pm_ruleset_id = ''core'', pm_category = ''sqli'', pm_severity = High\<rparr>"

definition sample_ban :: "(rule_error + ip_rule_action ip_rule option) \<times> ip_rule_action rule_service" where
  "sample_ban = ban_ip_for_protection_match sample_site ''10.1.2.3'' sample_match (\<lambda>_. 60) sample_geo ''x'' 100 sample_service"

text \<open>After the ban an administrator allows the block around the address.\<close>

definition sample_after_ban :: "ip_rule_action rule_service" where
  "sample_after_ban = snd (add_ip_rule ''s1'' ''10.1.2.0/24'' Allow ''office'' None None ''y'' 2000 (snd sample_ban))"

theorem auto_ban_blocks_until_expiry_witness:
  "nd_action (fst (evaluate_ip sample_site sample_geo 3000 ''10.1.2.3'' sample_after_ban)) = Some Block"
proof -
  have p: "parse_ip ''10.1.2.3'' = Some \<lparr>ip_version = V4, ip_value = 167838211, ip_bits = 32\<rparr>" by code_simp
  define rs where "rs = ip_rules (tables sample_after_ban)"
  have ids: "map ir_id rs = [''a'', ''b'', ''x'', ''y'']" "map (\<lambda>r. map_option cidr_prefix (parse_cidr (ir_network_cidr r))) rs = [Some 8, Some 16, Some 32, Some 24]"
    unfolding rs_def by code_simp+
  have new: "case fst sample_ban of Inr (Some r) \<Rightarrow> r = rs ! 2 | _ \<Rightarrow> False" unfolding rs_def by code_simp
  then have "fst sample_ban = Inr (Some (rs ! 2))" by (auto split: sum.splits option.splits)
  then have b: "ban_ip_for_protection_match sample_site ''10.1.2.3'' sample_match (\<lambda>_. 60) sample_geo ''x'' 100 sample_service
      = (Inr (Some (rs ! 2)), snd sample_ban)"
    unfolding sample_ban_def [symmetric] by (simp add: prod_eq_iff)
  obtain a1 a2 a3 a4 where rs: "rs = [a1, a2, a3, a4]" using ids(1) by (auto simp: map_eq_Cons_conv)
  have step: "rule_step\<^sup>*\<^sup>* (snd sample_ban) sample_after_ban"
    unfolding sample_after_ban_def by (rule r_into_rtranclp) (rule rule_step.add_ip)
  have only: "\<forall>r' c'. applies (tables sample_after_ban) (site_id sample_site) 3000 ''10.1.2.3'' r' c' \<and> r' \<noteq> rs ! 2 \<and> cidr_prefix c' = 32
      \<longrightarrow> ir_created_at r' < 100"
    using ids(2) unfolding applies_def rs_def [symmetric] rs by auto
  have mem: "rs ! 2 \<in> set (ip_rules (tables sample_after_ban))" unfolding rs_def [symmetric] rs by simp
  show ?thesis
    using auto_ban_blocks_until_expiry [OF sample_coherent p b step mem, of 3000] only by simp
qed

text \<open>
  A decision never rests on an expired rule: when the decision carries an expiry, that moment
  is still to come.
\<close>

theorem no_expired_rule_decides:
  assumes "nd_expires_at (fst (resolve_network_decision s route g now ip st)) = Some t"
  shows "now < t"
  using assms
  by (auto simp: resolve_network_decision_def evaluate_ip_def evaluate_route_ip_def split_beta Let_def
      split: option.splits if_splits dest: decide_expiry)

definition sample_expiring :: "ip_rule_action rule_service" where
  "sample_expiring = \<lparr>tables = \<lparr>ip_rules = [(sample_rule ''z'' ''10.9.0.0/16'' Block 7)\<lparr>ir_expires_at := Some 900\<rparr>],
     country_rules = [], asn_rules = []\<rparr>, rule_cache = Map.empty\<rparr>"

theorem no_expired_rule_decides_witness:
  "nd_expires_at (fst (resolve_network_decision sample_site None sample_geo 20 ''10.9.0.1'' (sample_expiring, sample_service))) = Some 900
   \<and> (20::int) < 900"
proof -
  have e: "nd_expires_at (fst (resolve_network_decision sample_site None sample_geo 20 ''10.9.0.1''
      (sample_expiring, sample_service))) = Some 900"
    by code_simp
  show ?thesis using e no_expired_rule_decides [OF e] by blast
qed

text \<open>
  No sequence of operations leaves two country rules for the same owner and code, or two ASN
  rules for the same owner and number, when the tables had none to begin with; an expired rule is
  replaced and an active one refused.
\<close>

theorem one_rule_per_key_kept:
  assumes "rule_step\<^sup>*\<^sup>* st st'" and "one_rule_per_key (tables st)"
  shows "one_rule_per_key (tables st')"
  by (rule rule_steps_one_rule [OF assms])

theorem one_rule_per_key_kept_witness:
  "one_rule_per_key (tables (snd (add_country_rule ''s1'' '' fr '' Block ''again'' None ''y'' 9
     (snd (add_country_rule ''s1'' ''FR'' Block ''first'' (Some 8) ''x'' 5 sample_service)))))"
proof (rule one_rule_per_key_kept)
  show "rule_step\<^sup>*\<^sup>* sample_service (snd (add_country_rule ''s1'' '' fr '' Block ''again'' None ''y'' 9
     (snd (add_country_rule ''s1'' ''FR'' Block ''first'' (Some 8) ''x'' 5 sample_service))))"
    by (rule rtranclp.rtrancl_into_rtrancl [OF r_into_rtranclp]) (rule rule_step.add_country)+
  show "one_rule_per_key (tables sample_service)"
    by (simp add: one_rule_per_key_def sample_service_def sample_tables_def)
qed

end
