(* ===== verification/Ha_Election.thy ===== *)
theory Ha_Election
  imports Prelude "HOL-Library.List_Lexorder" "HOL-Library.Char_ord"
begin

text \<open>
  Automatic failover of the high-availability cluster: \<open>src/src/services/ha-election-service.ts\<close>,
  the parts of \<open>ha-mesh-service.ts\<close> it calls, the statements on \<open>ha_cluster_config\<close> of
  \<open>src/src/db/repository.ts\<close>, and the constants of \<open>ha-timing.ts\<close>.

  A node is its durable row, the live \<open>config.ha\<close>, the connection state of its mesh and the
  fields of its election service. The URL parser, the clock and the random jitter are arguments.
  A handler runs to its end or to the point where it waits for its peers; a campaign is therefore
  two operations, \<open>start_campaign\<close> up to the vote requests and \<open>finish_campaign\<close> from their
  answers on, and anything may happen in between. Logging, notifications, the fetch of peer
  certificates and the restart of the process are not modelled.
\<close>

section \<open>Data\<close>

datatype ha_role = Primary | Replica

datatype connection_state = UnknownState | Connected | Disconnected | KeyMismatch | EpochMismatch
  | VersionMismatch | ConnectionRejected

record url_parts =
  url_protocol :: string
  url_hostname :: string
  url_username :: string
  url_password :: string

text \<open>\<open>isSecureHaUrl\<close>, over the parser of \<open>new URL\<close> (\<^term>\<open>None\<close> when it throws).\<close>

definition is_secure_ha_url :: "(string \<Rightarrow> url_parts option) \<Rightarrow> string \<Rightarrow> bool" where
  "is_secure_ha_url parse v = (case parse v of None \<Rightarrow> False
     | Some u \<Rightarrow> url_protocol u = ''https:'' \<and> url_hostname u \<noteq> [] \<and> url_username u = [] \<and> url_password u = [])"

text \<open>The row of \<open>ha_cluster_config\<close> and the replication tables an adoption resets.\<close>

record ha_row =
  row_role :: ha_role
  row_primary_url :: "string option"
  row_primary_admin_url :: "string option"
  row_epoch :: nat
  row_authority_fence :: "(nat \<times> string \<times> time) option"
  row_quorum_fenced :: bool
  row_quorum_fenced_at :: "time option"
  row_voted_term :: "nat option"
  row_voted_node :: "string option"
  row_promotion_intent :: bool
  row_bootstrapped :: bool
  row_relay_outbox :: "string list"
  row_changelog :: "string list"
  row_high_watermark :: nat

record ha_config =
  h_role :: ha_role
  h_epoch :: nat
  h_primary_url :: "string option"
  h_primary_admin_url :: "string option"
  h_authority_fence :: bool
  h_quorum_fenced :: bool
  h_fenced_for_promotion :: bool
  h_election_in_progress :: bool
  h_auto_failover_enabled :: bool
  h_auto_failover_min_members :: nat
  h_quorum_tracking_active :: bool
  h_last_majority_confirmed_at :: time
  h_quorum_loss_fence_seconds :: nat
  h_election_timeout_base_seconds :: nat
  h_election_timeout_jitter_ms :: nat

text \<open>The mesh: on a replica its link to the primary, on a primary the connected replicas.\<close>

record mesh =
  m_node_id :: string
  m_state :: connection_state
  m_disconnected_since :: time
  m_cursor :: nat
  m_last_heartbeat_latest_seq :: nat
  m_verified_generation :: nat
  m_connection_generation :: nat
  m_election_winner_activating :: bool
  m_authority_ambiguous :: bool
  m_authority_ambiguous_before :: bool
  m_has_bootstrapped :: bool
  m_nodes :: "(string \<times> time) list"

record member =
  node_id :: string
  admin_url :: "string option"

record node =
  row :: ha_row
  cfg :: ha_config
  net :: mesh
  members :: "member list"
  campaigning_term :: "nat option"
  recent_max_member_count :: nat
  recent_max_member_count_at :: time

section \<open>Statements on the durable row\<close>

definition valid_node_id :: "string \<Rightarrow> bool" where
  "valid_node_id c \<longleftrightarrow> c \<noteq> [] \<and> length c \<le> 64"

definition fence_primary_authority :: "nat \<Rightarrow> string \<Rightarrow> time \<Rightarrow> ha_row \<Rightarrow> ha_row" where
  "fence_primary_authority observed source fenced_at r =
     (if (case row_authority_fence r of None \<Rightarrow> True | Some (e, _) \<Rightarrow> e < observed)
      then r\<lparr>row_authority_fence := Some (observed, source, fenced_at), row_epoch := max (row_epoch r) observed\<rparr>
      else r)"

definition fence_primary_for_election_term :: "nat \<Rightarrow> time \<Rightarrow> ha_row \<Rightarrow> nat option \<times> ha_row" where
  "fence_primary_for_election_term term fenced_at r =
     (if row_role r = Primary then
        let r' = r\<lparr>row_quorum_fenced_at :=
                     (if row_quorum_fenced r \<and> term \<le> row_epoch r then row_quorum_fenced_at r else Some fenced_at),
                   row_epoch := max (row_epoch r) term, row_quorum_fenced := True\<rparr>
        in (Some (row_epoch r'), r')
      else (None, r))"

definition adopt_replica_election_term :: "nat \<Rightarrow> ha_row \<Rightarrow> nat option \<times> ha_row" where
  "adopt_replica_election_term term r =
     (if row_role r = Replica then
        let r' = r\<lparr>row_epoch := max (row_epoch r) term\<rparr> in (Some (row_epoch r'), r')
      else (None, r))"

definition may_vote :: "nat \<Rightarrow> string \<Rightarrow> ha_row \<Rightarrow> bool" where
  "may_vote term c r \<longleftrightarrow> row_role r = Replica \<and> row_epoch r \<le> term \<and>
     (case row_voted_term r of None \<Rightarrow> True
      | Some t \<Rightarrow> t < term \<or> (t = term \<and> row_voted_node r = Some c))"

text \<open>\<open>tryPersistVoteGrant\<close>: \<^term>\<open>None\<close> when it refuses the candidate's id with an error.\<close>

definition try_persist_vote_grant :: "nat \<Rightarrow> string \<Rightarrow> ha_row \<Rightarrow> bool option \<times> ha_row" where
  "try_persist_vote_grant term c r =
     (if \<not> valid_node_id c then (None, r)
      else if may_vote term c r
      then (Some True, r\<lparr>row_epoch := max (row_epoch r) term, row_voted_term := Some term, row_voted_node := Some c\<rparr>)
      else (Some False, r))"

definition coalesce :: "string option \<Rightarrow> string" where
  "coalesce u = (case u of None \<Rightarrow> [] | Some s \<Rightarrow> s)"

definition activate_election_winner_row ::
  "nat \<Rightarrow> string \<Rightarrow> string option \<Rightarrow> string option \<Rightarrow> ha_row \<Rightarrow> bool option \<times> ha_row" where
  "activate_election_winner_row term c expected_url expected_admin_url r =
     (if \<not> valid_node_id c then (None, r)
      else if row_role r = Replica \<and> row_epoch r = term \<and> row_voted_term r = Some term
         \<and> row_voted_node r = Some c \<and> coalesce (row_primary_url r) = coalesce expected_url
         \<and> coalesce (row_primary_admin_url r) = coalesce expected_admin_url
      then (Some True, r\<lparr>row_role := Primary, row_primary_url := None, row_primary_admin_url := None,
              row_authority_fence := None, row_quorum_fenced := False, row_quorum_fenced_at := None,
              row_promotion_intent := False\<rparr>)
      else (Some False, r))"

definition set_quorum_fence :: "time \<Rightarrow> ha_row \<Rightarrow> ha_row" where
  "set_quorum_fence fenced_at r = r\<lparr>row_quorum_fenced := True, row_quorum_fenced_at := Some fenced_at\<rparr>"

definition clear_quorum_fence :: "ha_row \<Rightarrow> ha_row" where
  "clear_quorum_fence r = r\<lparr>row_quorum_fenced := False, row_quorum_fenced_at := None\<rparr>"

text \<open>\<open>adoptHaDiscoveredPrimary\<close>: whether it adopted, and whether it forced a fresh bootstrap.\<close>

definition adopt_discovered_primary_row ::
  "string \<Rightarrow> string \<Rightarrow> nat \<Rightarrow> ha_row \<Rightarrow> (bool \<times> bool) \<times> ha_row" where
  "adopt_discovered_primary_row url aurl epoch r =
     (if row_epoch r \<le> epoch then
        let r1 = r\<lparr>row_role := Replica, row_primary_url := Some url, row_primary_admin_url := Some aurl,
                   row_epoch := epoch, row_authority_fence := None, row_quorum_fenced := False,
                   row_quorum_fenced_at := None, row_promotion_intent := False\<rparr>
        in if row_role r = Primary
           then ((True, True), r1\<lparr>row_bootstrapped := False, row_relay_outbox := [], row_changelog := [],
                                row_high_watermark := 0\<rparr>)
           else ((True, False), r1)
      else ((False, False), r))"

section \<open>The mesh\<close>

definition current_replication_cursor :: "node \<Rightarrow> nat" where
  "current_replication_cursor n =
     (if h_role (cfg n) = Primary then row_high_watermark (row n) else m_cursor (net n))"

definition expire_stale_replica_connections :: "time \<Rightarrow> mesh \<Rightarrow> mesh" where
  "expire_stale_replica_connections now m = m\<lparr>m_nodes := filter (\<lambda>(_, seen). now - seen \<le> 15000) (m_nodes m)\<rparr>"

definition connected_replica_count :: "string set \<Rightarrow> time \<Rightarrow> mesh \<Rightarrow> nat \<times> mesh" where
  "connected_replica_count registered now m =
     (let m' = expire_stale_replica_connections now m in
      (length (filter (\<lambda>(i, _). i \<in> registered) (m_nodes m')), m'))"

definition disconnected_duration_ms :: "time \<Rightarrow> node \<Rightarrow> int option" where
  "disconnected_duration_ms now n =
     (if h_role (cfg n) \<noteq> Replica \<or> m_state (net n) \<noteq> Disconnected \<or> m_disconnected_since (net n) = 0
      then None else Some (now - m_disconnected_since (net n)))"

definition begin_election_winner_activation :: "nat \<Rightarrow> node \<Rightarrow> bool \<times> node" where
  "begin_election_winner_activation generation n =
     (let m = net n in
      if h_role (cfg n) \<noteq> Replica \<or> m_state m \<noteq> Disconnected \<or> m_disconnected_since m = 0
        \<or> m_election_winner_activating m \<or> m_verified_generation m \<noteq> generation
      then (False, n)
      else (True, n\<lparr>net := m\<lparr>m_election_winner_activating := True,
             m_authority_ambiguous_before := m_authority_ambiguous m, m_authority_ambiguous := True,
             m_connection_generation := m_connection_generation m + 1\<rparr>\<rparr>))"

definition finish_election_winner_activation :: "bool \<Rightarrow> node \<Rightarrow> node" where
  "finish_election_winner_activation succeeded n =
     (if succeeded then n
      else n\<lparr>net := (net n)\<lparr>m_election_winner_activating := False,
             m_authority_ambiguous := m_authority_ambiguous_before (net n),
             m_authority_ambiguous_before := False\<rparr>\<rparr>)"

text \<open>\<open>activateElectionWinner\<close>; its retries of a failing database are one attempt here.\<close>

definition activate_election_winner ::
  "string \<Rightarrow> nat \<Rightarrow> string option \<Rightarrow> string option \<Rightarrow> node \<Rightarrow> bool \<times> node" where
  "activate_election_winner c term expected_url expected_admin_url n =
     (if c \<noteq> m_node_id (net n) then (False, n)
      else case activate_election_winner_row term c expected_url expected_admin_url (row n) of
        (Some True, r') \<Rightarrow> (True, n\<lparr>row := r', cfg := (cfg n)\<lparr>h_epoch := term\<rparr>\<rparr>)
      | (_, r') \<Rightarrow> (False, n\<lparr>row := r'\<rparr>))"

definition adopt_discovered_primary ::
  "(string \<Rightarrow> url_parts option) \<Rightarrow> string \<Rightarrow> string \<Rightarrow> nat \<Rightarrow> node \<Rightarrow> bool \<times> node" where
  "adopt_discovered_primary parse url aurl epoch n =
     (if \<not> is_secure_ha_url parse url \<or> \<not> is_secure_ha_url parse aurl then (False, n)
      else
        let n1 = n\<lparr>net := (net n)\<lparr>m_authority_ambiguous := True\<rparr>\<rparr>;
            ((adopted, forced), r') = adopt_discovered_primary_row url aurl epoch (row n1)
        in if \<not> adopted then (False, n1\<lparr>row := r'\<rparr>)
           else (True, n1\<lparr>row := r',
                  cfg := (cfg n1)\<lparr>h_role := Replica, h_primary_url := Some url, h_primary_admin_url := Some aurl,
                    h_epoch := epoch, h_authority_fence := False, h_quorum_fenced := False,
                    h_election_in_progress := False, h_fenced_for_promotion := False\<rparr>,
                  net := (net n1)\<lparr>m_has_bootstrapped := (m_has_bootstrapped (net n1) \<and> \<not> forced)\<rparr>\<rparr>))"

section \<open>Voting\<close>

record vote_request =
  vr_term :: "int option"
  vr_candidate_id :: "string option"
  vr_candidate_cursor :: "int option"
  vr_candidate_admin_url :: "string option"

datatype vote_reason = MalformedRequest | IdentityMismatch | FailoverDisabled | TooFewMembers
  | StaleTerm | StillConnected | CannotFence | NotActivePrimary | ActivePrimary | CannotAdopt
  | NotEligibleReplica | CursorBehind | AlreadyVoted

datatype vote_response = Granted nat | Rejected nat vote_reason | VoteFailed

definition reject_vote :: "vote_reason \<Rightarrow> node \<Rightarrow> vote_response \<times> node" where
  "reject_vote why n = (Rejected (h_epoch (cfg n)) why, n)"

text \<open>
  The checks on the body: a term, a candidate id, a cursor and an HTTPS admin URL. A field of the
  wrong type, and a number that is not a safe integer, is \<^term>\<open>None\<close>.
\<close>

definition vote_request_fields :: "(string \<Rightarrow> url_parts option) \<Rightarrow> vote_request \<Rightarrow> (nat \<times> string \<times> nat) option" where
  "vote_request_fields parse b =
     (case (vr_term b, vr_candidate_id b, vr_candidate_cursor b, vr_candidate_admin_url b) of
        (Some t, Some c, Some k, Some u) \<Rightarrow>
          if t < 0 \<or> c = [] \<or> length c > 64 \<or> k < 0 \<or> \<not> is_secure_ha_url parse u then None
          else Some (nat t, c, nat k)
      | _ \<Rightarrow> None)"

text \<open>
  The branch of a primary, which fences itself and never grants, and the branch of a replica.
  \<open>db_ok\<close> is whether the durable fence or term adoption succeeds.
\<close>

definition fence_for_vote :: "nat \<Rightarrow> bool \<Rightarrow> time \<Rightarrow> node \<Rightarrow> vote_response \<times> node" where
  "fence_for_vote term db_ok now n =
     (let n1 = n\<lparr>cfg := (cfg n)\<lparr>h_quorum_fenced := True\<rparr>\<rparr> in
      if \<not> db_ok then reject_vote CannotFence n1
      else (case fence_primary_for_election_term term now (row n1) of
          (None, r') \<Rightarrow> reject_vote NotActivePrimary (n1\<lparr>row := r'\<rparr>)
        | (Some e, r') \<Rightarrow> reject_vote ActivePrimary
            (n1\<lparr>row := r', cfg := (cfg n1)\<lparr>h_epoch := max (h_epoch (cfg n1)) e\<rparr>\<rparr>)))"

definition cast_vote :: "nat \<Rightarrow> string \<Rightarrow> nat \<Rightarrow> bool \<Rightarrow> node \<Rightarrow> vote_response \<times> node" where
  "cast_vote term c cursor db_ok n =
     (if \<not> db_ok then reject_vote CannotAdopt n
      else (case adopt_replica_election_term term (row n) of
          (None, r') \<Rightarrow> reject_vote NotEligibleReplica (n\<lparr>row := r'\<rparr>)
        | (Some e, r') \<Rightarrow>
            let n2 = n\<lparr>row := r', cfg := (cfg n)\<lparr>h_epoch := max (h_epoch (cfg n)) e\<rparr>\<rparr> in
            if term < h_epoch (cfg n2) then reject_vote StaleTerm n2
            else if cursor < current_replication_cursor n2 then reject_vote CursorBehind n2
            else (case try_persist_vote_grant term c (row n2) of
                (None, r'') \<Rightarrow> (VoteFailed, n2\<lparr>row := r''\<rparr>)
              | (Some g, r'') \<Rightarrow>
                  if g then (Granted term, n2\<lparr>row := r''\<rparr>) else reject_vote AlreadyVoted (n2\<lparr>row := r''\<rparr>))))"

definition handle_vote_request ::
  "(string \<Rightarrow> url_parts option) \<Rightarrow> vote_request option \<Rightarrow> string option \<Rightarrow> bool \<Rightarrow> time \<Rightarrow> node \<Rightarrow> vote_response \<times> node" where
  "handle_vote_request parse body auth db_ok now n =
     (case Option.bind body (vote_request_fields parse) of
        None \<Rightarrow> reject_vote MalformedRequest n
      | Some (term, c, cursor) \<Rightarrow>
          if (case auth of None \<Rightarrow> False | Some a \<Rightarrow> a \<noteq> [] \<and> c \<noteq> a) then reject_vote IdentityMismatch n
          else if \<not> h_auto_failover_enabled (cfg n) then reject_vote FailoverDisabled n
          else if length (members n) < h_auto_failover_min_members (cfg n) then reject_vote TooFewMembers n
          else if term < h_epoch (cfg n) then reject_vote StaleTerm n
          else if h_role (cfg n) \<noteq> Primary \<and> disconnected_duration_ms now n = None then reject_vote StillConnected n
          else if h_role (cfg n) = Primary then fence_for_vote term db_ok now n
          else cast_vote term c cursor db_ok n)"

section \<open>Campaigning\<close>

definition majority_of :: "nat \<Rightarrow> nat" where
  "majority_of k = k div 2 + 1"

definition abandon_campaign :: "node \<Rightarrow> node" where
  "abandon_campaign n = n\<lparr>campaigning_term := None, cfg := (cfg n)\<lparr>h_election_in_progress := False\<rparr>\<rparr>"

fun js_index_of :: "'a \<Rightarrow> 'a list \<Rightarrow> nat option" where
  "js_index_of x [] = None"
| "js_index_of x (y # ys) = (if x = y then Some 0 else map_option Suc (js_index_of x ys))"

text \<open>\<open>electionTimeoutMs\<close>; \<open>random\<close> is \<open>Math.random()\<close>.\<close>

definition election_timeout_ms :: "rat \<Rightarrow> node \<Rightarrow> rat" where
  "election_timeout_ms random n =
     (let gap = m_last_heartbeat_latest_seq (net n) - m_cursor (net n);
          lag_penalty = min (gap * 50) 20000;
          sorted_ids = sort (map node_id (members n));
          rank = (case js_index_of (m_node_id (net n)) sorted_ids of None \<Rightarrow> 0 | Some i \<Rightarrow> i)
      in of_nat (h_election_timeout_base_seconds (cfg n) * 1000 + lag_penalty + rank * 500)
         + random * of_nat (h_election_timeout_jitter_ms (cfg n)))"

record campaign =
  c_term :: nat
  c_cursor :: nat
  c_generation :: nat
  c_expected_url :: "string option"
  c_expected_admin_url :: "string option"
  c_members :: "member list"

text \<open>
  \<open>startCampaign\<close> up to the requests: the campaign whose votes are then requested, or
  \<^term>\<open>None\<close> when it ends there.
\<close>

definition start_campaign :: "time \<Rightarrow> node \<Rightarrow> campaign option \<times> node" where
  "start_campaign now n =
     (if h_fenced_for_promotion (cfg n) \<or> disconnected_duration_ms now n = None then (None, n)
      else
        let term = h_epoch (cfg n) + 1;
            c = \<lparr>c_term = term, c_cursor = current_replication_cursor n,
                 c_generation = m_verified_generation (net n), c_expected_url = h_primary_url (cfg n),
                 c_expected_admin_url = h_primary_admin_url (cfg n), c_members = members n\<rparr>;
            n1 = n\<lparr>cfg := (cfg n)\<lparr>h_election_in_progress := True\<rparr>, campaigning_term := Some term\<rparr>
        in case try_persist_vote_grant term (m_node_id (net n1)) (row n1) of
            (Some True, r') \<Rightarrow>
              (Some c, n1\<lparr>row := r', cfg := (cfg n1)\<lparr>h_epoch := max (h_epoch (cfg n1)) term\<rparr>\<rparr>)
          | (_, r') \<Rightarrow> (None, abandon_campaign (n1\<lparr>row := r'\<rparr>)))"

text \<open>
  The loop over the settled answers: the peers that granted, or the newer term at which the
  campaign gives up. A request that failed is \<^term>\<open>None\<close>.
\<close>

fun count_votes :: "nat \<Rightarrow> string list \<Rightarrow> (string \<times> vote_response option) list \<Rightarrow> nat + string list" where
  "count_votes term granted [] = Inr granted"
| "count_votes term granted ((p, res) # rs) =
     (case res of
        None \<Rightarrow> count_votes term granted rs
      | Some VoteFailed \<Rightarrow> count_votes term granted rs
      | Some (Rejected e _) \<Rightarrow> if e > term then Inl e else count_votes term granted rs
      | Some (Granted e) \<Rightarrow> if e > term then Inl e else count_votes term (List.insert p granted) rs)"

definition finish_campaign ::
  "campaign \<Rightarrow> (string \<times> vote_response option) list \<Rightarrow> node \<Rightarrow> bool \<times> node" where
  "finish_campaign c results n =
     (let me = m_node_id (net n) in
      case count_votes (c_term c) [me] results of
        Inl newer \<Rightarrow>
          (False, abandon_campaign (n\<lparr>cfg := (cfg n)\<lparr>h_epoch := max (h_epoch (cfg n)) newer\<rparr>,
             row := snd (adopt_replica_election_term newer (row n))\<rparr>))
      | Inr granted \<Rightarrow>
          if length granted < majority_of (length (c_members c)) then (False, abandon_campaign n)
          else if campaigning_term n \<noteq> Some (c_term c) \<or> \<not> h_election_in_progress (cfg n)
          then (False, abandon_campaign n)
          else (case begin_election_winner_activation (c_generation c) n of
              (False, n1) \<Rightarrow> (False, abandon_campaign n1)
            | (True, n1) \<Rightarrow>
                let (ok, n2) = activate_election_winner me (c_term c) (c_expected_url c) (c_expected_admin_url c) n1
                in (ok, abandon_campaign (finish_election_winner_activation ok n2))))"

section \<open>Announcements and discovery\<close>

record primary_announcement =
  pa_epoch :: "int option"
  pa_node_id :: "string option"
  pa_url :: "string option"
  pa_admin_url :: "string option"

datatype announce_reply = IdentityRefused | MalformedAnnouncement | Acknowledged bool

text \<open>A negative epoch is below every epoch of the node and is acknowledged without effect.\<close>

definition handle_announce_primary ::
  "(string \<Rightarrow> url_parts option) \<Rightarrow> primary_announcement option \<Rightarrow> string option \<Rightarrow> node \<Rightarrow> announce_reply \<times> node" where
  "handle_announce_primary parse body auth n =
     (case body of
        None \<Rightarrow> (MalformedAnnouncement, n)
      | Some b \<Rightarrow>
          if (case auth of None \<Rightarrow> False
              | Some a \<Rightarrow> a \<noteq> [] \<and> (case pa_node_id b of None \<Rightarrow> True
                  | Some i \<Rightarrow> i = [] \<or> length i > 64 \<or> i \<noteq> a))
          then (IdentityRefused, n)
          else (case (pa_epoch b, pa_url b, pa_admin_url b) of
              (Some e, Some u, Some au) \<Rightarrow>
                if u = [] \<or> au = [] \<or> \<not> is_secure_ha_url parse u \<or> \<not> is_secure_ha_url parse au
                then (MalformedAnnouncement, n)
                else if e < int (h_epoch (cfg n)) then (Acknowledged False, n)
                else if h_role (cfg n) = Replica \<and> nat e = h_epoch (cfg n)
                  \<and> h_primary_url (cfg n) = Some u \<and> h_primary_admin_url (cfg n) = Some au
                then (Acknowledged False, n)
                else let (adopted, n') = adopt_discovered_primary parse u au (nat e) (abandon_campaign n)
                     in (Acknowledged adopted, n')
            | _ \<Rightarrow> (MalformedAnnouncement, n)))"

record who_is_primary =
  wp_epoch :: "int option"
  wp_url :: "string option"
  wp_admin_url :: "string option"
  wp_role :: ha_role

text \<open>\<open>handleWhoIsPrimary\<close>; \<open>mesh_url\<close> is \<open>deriveMeshUrl\<close> of the node's own admin URL.\<close>

definition handle_who_is_primary :: "string option \<Rightarrow> string option \<Rightarrow> node \<Rightarrow> who_is_primary" where
  "handle_who_is_primary self_admin_url mesh_url n =
     (if h_role (cfg n) = Primary \<and> \<not> h_quorum_fenced (cfg n) \<and> \<not> h_authority_fence (cfg n)
      then \<lparr>wp_epoch = Some (int (h_epoch (cfg n))), wp_url = (if self_admin_url = None then None else mesh_url),
            wp_admin_url = self_admin_url, wp_role = Primary\<rparr>
      else \<lparr>wp_epoch = Some (int (h_epoch (cfg n))), wp_url = h_primary_url (cfg n),
            wp_admin_url = h_primary_admin_url (cfg n), wp_role = Replica\<rparr>)"

definition truthy :: "string option \<Rightarrow> bool" where
  "truthy u \<longleftrightarrow> u \<noteq> None \<and> u \<noteq> Some []"

text \<open>
  \<open>tryDiscoverPrimaryFromPeers\<close> over the answers of the peers in the order they are asked; a
  failed query is \<^term>\<open>None\<close>.
\<close>

fun try_discover_primary ::
  "(string \<Rightarrow> url_parts option) \<Rightarrow> who_is_primary option list \<Rightarrow> node \<Rightarrow> bool \<times> node" where
  "try_discover_primary parse [] n = (False, n)"
| "try_discover_primary parse (None # rs) n = try_discover_primary parse rs n"
| "try_discover_primary parse (Some w # rs) n =
     (case wp_epoch w of
        None \<Rightarrow> try_discover_primary parse rs n
      | Some e \<Rightarrow>
          if (e > int (h_epoch (cfg n)) \<or> (e = int (h_epoch (cfg n)) \<and> wp_role w = Primary
               \<and> (wp_url w \<noteq> h_primary_url (cfg n) \<or> wp_admin_url w \<noteq> h_primary_admin_url (cfg n))))
             \<and> truthy (wp_url w) \<and> truthy (wp_admin_url w)
          then let (adopted, n') = adopt_discovered_primary parse (the (wp_url w)) (the (wp_admin_url w)) (nat e)
                     (abandon_campaign n)
               in if adopted then (True, n') else try_discover_primary parse rs n'
          else try_discover_primary parse rs n)"

section \<open>The quorum of a primary\<close>

definition tracked_member_count :: "nat \<Rightarrow> time \<Rightarrow> node \<Rightarrow> nat \<times> node" where
  "tracked_member_count current now n =
     (if recent_max_member_count n \<le> current \<or> now - recent_max_member_count_at n \<ge> 120000
      then (current, n\<lparr>recent_max_member_count := current, recent_max_member_count_at := now\<rparr>)
      else (recent_max_member_count n, n))"

definition clear_quorum_loss_if_fenced :: "node \<Rightarrow> node" where
  "clear_quorum_loss_if_fenced n =
     (if h_quorum_fenced (cfg n)
      then n\<lparr>cfg := (cfg n)\<lparr>h_quorum_fenced := False\<rparr>, row := clear_quorum_fence (row n)\<rparr> else n)"

text \<open>
  \<open>tryAutomaticFormerPrimaryRecovery\<close>: the answers of the peers with an admin URL, each with the
  peer's id and admin URL. \<open>confirmed_primary\<close> is the newest topology that a majority confirms,
  the primary itself included.
\<close>

record confirmation =
  cf_epoch :: nat
  cf_url :: string
  cf_admin_url :: string

fun confirmations ::
  "(string \<Rightarrow> url_parts option) \<Rightarrow> nat \<Rightarrow> (string \<times> string \<times> who_is_primary option) list
   \<Rightarrow> (confirmation, string list \<times> bool) omap \<Rightarrow> (confirmation, string list \<times> bool) omap" where
  "confirmations parse own [] acc = acc"
| "confirmations parse own ((p, purl, res) # rs) acc =
     (case res of
        None \<Rightarrow> confirmations parse own rs acc
      | Some w \<Rightarrow>
          (case (wp_epoch w, wp_url w, wp_admin_url w) of
             (Some e, Some u, Some au) \<Rightarrow>
               if e < int own \<or> u = [] \<or> au = [] \<or> \<not> is_secure_ha_url parse u \<or> \<not> is_secure_ha_url parse au
               then confirmations parse own rs acc
               else
                 let k = \<lparr>cf_epoch = nat e, cf_url = u, cf_admin_url = au\<rparr>;
                     (ids, self) = (case om_get acc k of None \<Rightarrow> ([], False) | Some v \<Rightarrow> v)
                 in confirmations parse own rs
                      (om_set k (List.insert p ids, self \<or> (wp_role w = Primary \<and> au = purl)) acc)
           | _ \<Rightarrow> confirmations parse own rs acc))"

fun confirmed_primary ::
  "nat \<Rightarrow> (confirmation, string list \<times> bool) omap \<Rightarrow> confirmation option \<Rightarrow> confirmation option" where
  "confirmed_primary majority [] winner = winner"
| "confirmed_primary majority ((k, (ids, self)) # cs) winner =
     (if length ids < majority \<or> \<not> self then confirmed_primary majority cs winner
      else if (case winner of None \<Rightarrow> True | Some w \<Rightarrow> cf_epoch w < cf_epoch k)
      then confirmed_primary majority cs (Some k)
      else confirmed_primary majority cs winner)"

definition try_automatic_former_primary_recovery ::
  "(string \<Rightarrow> url_parts option) \<Rightarrow> (string \<times> string \<times> who_is_primary option) list \<Rightarrow> node \<Rightarrow> node" where
  "try_automatic_former_primary_recovery parse answers n =
     (if length (members n) < h_auto_failover_min_members (cfg n) then n
      else case confirmed_primary (majority_of (length (members n)))
                  (confirmations parse (h_epoch (cfg n)) answers []) None of
        None \<Rightarrow> n
      | Some w \<Rightarrow> snd (adopt_discovered_primary parse (cf_url w) (cf_admin_url w) (cf_epoch w) n))"

definition set_tracking :: "bool \<Rightarrow> node \<Rightarrow> node" where
  "set_tracking b n = n\<lparr>cfg := (cfg n)\<lparr>h_quorum_tracking_active := b\<rparr>\<rparr>"

definition confirm_majority :: "time \<Rightarrow> node \<Rightarrow> node" where
  "confirm_majority now n = n\<lparr>cfg := (cfg n)\<lparr>h_last_majority_confirmed_at := now\<rparr>\<rparr>"

definition tick_primary_quorum ::
  "(string \<Rightarrow> url_parts option) \<Rightarrow> (string \<times> string \<times> who_is_primary option) list \<Rightarrow> time \<Rightarrow> node \<Rightarrow> node" where
  "tick_primary_quorum parse answers now n =
     (if \<not> h_auto_failover_enabled (cfg n) then clear_quorum_loss_if_fenced (set_tracking False n)
      else if h_authority_fence (cfg n)
      then try_automatic_former_primary_recovery parse answers (set_tracking False n)
      else if h_fenced_for_promotion (cfg n) \<or> h_election_in_progress (cfg n) then set_tracking False n
      else
        let (count, n1) = tracked_member_count (length (members n)) now n in
        if count < h_auto_failover_min_members (cfg n1)
        then clear_quorum_loss_if_fenced (set_tracking False n1)
        else
          let n2 = set_tracking True (if h_quorum_tracking_active (cfg n1) then n1 else confirm_majority now n1);
              (connected, m') = connected_replica_count (set (map node_id (members n2))) now (net n2);
              n3 = n2\<lparr>net := m'\<rparr>
          in if majority_of count \<le> 1 + connected then
               (let n4 = confirm_majority now n3 in
                if h_quorum_fenced (cfg n4) \<and> (case row_quorum_fenced_at (row n4) of None \<Rightarrow> False
                     | Some t \<Rightarrow> now - t < 15000)
                then n4 else clear_quorum_loss_if_fenced n4)
             else if now - h_last_majority_confirmed_at (cfg n3) < int (h_quorum_loss_fence_seconds (cfg n3)) * 1000
             then n3
             else if h_quorum_fenced (cfg n3) then try_automatic_former_primary_recovery parse answers n3
             else n3\<lparr>cfg := (cfg n3)\<lparr>h_quorum_fenced := True\<rparr>, row := set_quorum_fence now (row n3)\<rparr>)"

text \<open>
  \<open>tickReplicaElection\<close>, which ends in an adoption, in nothing, or in the start of a campaign.
\<close>

definition tick_replica_election ::
  "(string \<Rightarrow> url_parts option) \<Rightarrow> who_is_primary option list \<Rightarrow> rat \<Rightarrow> time \<Rightarrow> node \<Rightarrow> campaign option \<times> node" where
  "tick_replica_election parse answers random now n =
     (if campaigning_term n \<noteq> None then (None, n)
      else case disconnected_duration_ms now n of
        None \<Rightarrow> (None, n)
      | Some d \<Rightarrow>
          if length (members n) < h_auto_failover_min_members (cfg n) then (None, n)
          else
            let (found, n1) = try_discover_primary parse answers n in
            if found then (None, n1)
            else if \<not> h_auto_failover_enabled (cfg n1) then (None, n1)
            else if of_int d < election_timeout_ms random n1 then (None, n1)
            else start_campaign now n1)"

section \<open>What an operation may do to a node\<close>

text \<open>
  \<open>pledged t c r\<close>: the row rules out a vote for anyone but \<open>c\<close> in term \<open>t\<close>. \<open>quiet\<close>: the
  operation casts no vote, never lowers the epoch and keeps the node's identity and members.
\<close>

definition pledged :: "nat \<Rightarrow> string \<Rightarrow> ha_row \<Rightarrow> bool" where
  "pledged t c r \<longleftrightarrow> (case row_voted_term r of None \<Rightarrow> False
     | Some t' \<Rightarrow> t < t' \<or> (t = t' \<and> row_voted_node r = Some c))"

definition same_vote :: "ha_row \<Rightarrow> ha_row \<Rightarrow> bool" where
  "same_vote r r' \<longleftrightarrow> row_voted_term r' = row_voted_term r \<and> row_voted_node r' = row_voted_node r"

definition keeps :: "node \<Rightarrow> node \<Rightarrow> bool" where
  "keeps n n' \<longleftrightarrow> row_epoch (row n) \<le> row_epoch (row n') \<and> m_node_id (net n') = m_node_id (net n)
     \<and> members n' = members n"

definition quiet :: "node \<Rightarrow> node \<Rightarrow> bool" where
  "quiet n n' \<longleftrightarrow> keeps n n' \<and> same_vote (row n) (row n')"

lemma keeps_trans: "keeps n n' \<Longrightarrow> keeps n' n'' \<Longrightarrow> keeps n n''"
  by (auto simp: keeps_def)

lemma quiet_refl [simp]: "quiet n n"
  by (simp add: quiet_def keeps_def same_vote_def)

lemma quiet_trans: "quiet n n' \<Longrightarrow> quiet n' n'' \<Longrightarrow> quiet n n''"
  by (auto simp: quiet_def keeps_def same_vote_def)

lemma pledged_same_vote: "same_vote r r' \<Longrightarrow> pledged t c r' \<longleftrightarrow> pledged t c r"
  by (auto simp: same_vote_def pledged_def split: option.splits)

lemma grant_pledges: "try_persist_vote_grant t c r = (Some True, r') \<Longrightarrow> pledged t c r'"
  by (auto simp: try_persist_vote_grant_def pledged_def split: if_splits)

lemma grant_keeps_pledge:
  "try_persist_vote_grant t c r = (res, r') \<Longrightarrow> pledged t' c' r \<Longrightarrow> pledged t' c' r'"
  by (auto simp: try_persist_vote_grant_def may_vote_def pledged_def split: if_splits option.splits)

lemma grant_unique: "try_persist_vote_grant t c r = (Some True, r') \<Longrightarrow> pledged t c' r \<Longrightarrow> c' = c"
  by (auto simp: try_persist_vote_grant_def may_vote_def pledged_def split: if_splits option.splits)

lemma no_grant_same: "try_persist_vote_grant t c r = (res, r') \<Longrightarrow> res \<noteq> Some True \<Longrightarrow> r' = r"
  by (auto simp: try_persist_vote_grant_def split: if_splits)

lemma grant_epoch: "try_persist_vote_grant t c r = (res, r') \<Longrightarrow> row_epoch r \<le> row_epoch r'"
  by (auto simp: try_persist_vote_grant_def split: if_splits)

lemmas quiet_defs = quiet_def keeps_def same_vote_def

lemma quiet_abandon: "quiet n (abandon_campaign n)"
  by (simp add: quiet_defs abandon_campaign_def)

lemma quiet_adopt: "quiet n (snd (adopt_discovered_primary parse u au e n))"
  by (auto simp: quiet_defs adopt_discovered_primary_def adopt_discovered_primary_row_def Let_def
      split: prod.splits if_splits)

lemma quiet_activate: "quiet n (snd (activate_election_winner c t u au n))"
  by (auto simp: quiet_defs activate_election_winner_def activate_election_winner_row_def split: prod.splits option.splits bool.splits if_splits)

lemma quiet_begin: "quiet n (snd (begin_election_winner_activation g n))"
  by (auto simp: quiet_defs begin_election_winner_activation_def Let_def)

lemma quiet_finish_activation: "quiet n (finish_election_winner_activation ok n)"
  by (auto simp: quiet_defs finish_election_winner_activation_def)

lemma quiet_finish_campaign: "quiet n (snd (finish_campaign c rs n))"
proof (cases "count_votes (c_term c) [m_node_id (net n)] rs")
  case (Inl e)
  then show ?thesis
    by (auto simp: finish_campaign_def Let_def quiet_defs abandon_campaign_def adopt_replica_election_term_def)
next
  case (Inr granted)
  obtain b n1 where b: "begin_election_winner_activation (c_generation c) n = (b, n1)" by fastforce
  have q1: "quiet n n1" using quiet_begin [of n "c_generation c"] b by simp
  obtain ok n2 where a: "activate_election_winner (m_node_id (net n)) (c_term c) (c_expected_url c) (c_expected_admin_url c) n1 = (ok, n2)"
    by fastforce
  have q2: "quiet n1 n2" using quiet_activate a by (metis snd_conv)
  have q3: "quiet n (abandon_campaign (finish_election_winner_activation ok n2))"
    by (rule quiet_trans [OF quiet_trans [OF quiet_trans [OF q1 q2] quiet_finish_activation] quiet_abandon])
  show ?thesis
    using Inr b a q3 quiet_trans [OF q1 quiet_abandon] quiet_abandon [of n]
    by (simp add: finish_campaign_def split: bool.split)
qed

lemma quiet_announce: "quiet n (snd (handle_announce_primary parse b auth n))"
proof -
  have "quiet n (snd (adopt_discovered_primary parse u au e (abandon_campaign n)))" for u au e
    by (rule quiet_trans [OF quiet_abandon quiet_adopt])
  then show ?thesis
    by (auto simp: handle_announce_primary_def Let_def split_beta split: option.splits)
qed

lemma quiet_if: "(P \<Longrightarrow> quiet n x) \<Longrightarrow> (\<not> P \<Longrightarrow> quiet n y) \<Longrightarrow> quiet n (if P then x else y)"
  by simp

lemma quiet_discover: "quiet n (snd (try_discover_primary parse ws n))"
proof (induction ws arbitrary: n)
  case (Cons w ws)
  have q: "quiet n (snd (adopt_discovered_primary parse u au e (abandon_campaign n)))" for u au e
    by (rule quiet_trans [OF quiet_abandon quiet_adopt])
  show ?case
  proof (cases w)
    case (Some w')
    then show ?thesis using Cons q quiet_trans [OF q Cons]
      by (simp add: split_beta Let_def split: option.split)
  qed (use Cons in simp)
qed simp

lemma quiet_recovery: "quiet n (try_automatic_former_primary_recovery parse as n)"
  by (auto simp: try_automatic_former_primary_recovery_def quiet_adopt split: option.splits)

lemma quiet_clear: "quiet n (clear_quorum_loss_if_fenced n)"
  by (simp add: quiet_defs clear_quorum_loss_if_fenced_def clear_quorum_fence_def)

lemma quiet_tracking: "quiet n (set_tracking b n)"
  by (simp add: quiet_defs set_tracking_def)

lemma quiet_confirm: "quiet n (confirm_majority now n)"
  by (simp add: quiet_defs confirm_majority_def)

lemma quiet_tracked: "quiet n (snd (tracked_member_count k now n))"
  by (simp add: quiet_defs tracked_member_count_def)

lemma quiet_connected: "quiet n (n\<lparr>net := snd (connected_replica_count ids now (net n))\<rparr>)"
  by (simp add: quiet_defs connected_replica_count_def expire_stale_replica_connections_def Let_def)

lemma quiet_set_fence: "quiet n (n\<lparr>cfg := c', row := set_quorum_fence now (row n)\<rparr>)"
  by (simp add: quiet_defs set_quorum_fence_def)

lemma quiet_tick_primary: "quiet n (tick_primary_quorum parse answers now n)"
proof -
  let ?n1 = "snd (tracked_member_count (length (members n)) now n)"
  let ?n2 = "set_tracking True (if h_quorum_tracking_active (cfg ?n1) then ?n1 else confirm_majority now ?n1)"
  let ?n3 = "?n2\<lparr>net := snd (connected_replica_count (set (map node_id (members ?n2))) now (net ?n2))\<rparr>"
  have q1: "quiet n ?n1" by (rule quiet_tracked)
  have q2: "quiet n ?n2" using q1 quiet_trans quiet_tracking quiet_confirm by (simp split: if_splits) metis
  have q3: "quiet n ?n3" by (rule quiet_trans [OF q2 quiet_connected])
  note comp = quiet_trans [OF q3 quiet_recovery] quiet_trans [OF q3 quiet_set_fence] quiet_trans [OF q3 quiet_confirm]
    quiet_trans [OF quiet_trans [OF q3 quiet_confirm] quiet_clear]
    quiet_trans [OF q1 quiet_trans [OF quiet_tracking quiet_clear]]
    quiet_trans [OF quiet_tracking quiet_clear] quiet_trans [OF quiet_tracking quiet_recovery] quiet_tracking q3
  show ?thesis unfolding tick_primary_quorum_def Let_def split_beta
    by (intro quiet_if comp)
qed

section \<open>Casting a vote\<close>

text \<open>What a granted vote says of the voter before and after.\<close>

definition vote_cast :: "nat \<Rightarrow> string \<Rightarrow> node \<Rightarrow> node \<Rightarrow> bool" where
  "vote_cast t c n n' \<longleftrightarrow> keeps n n' \<and> pledged t c (row n')
     \<and> (\<forall>t' c'. pledged t' c' (row n) \<longrightarrow> pledged t' c' (row n'))
     \<and> (\<forall>c'. pledged t c' (row n) \<longrightarrow> c' = c)"

lemma grant_is_vote_cast:
  assumes "try_persist_vote_grant t c r = (Some True, r')" and "same_vote (row n) r"
    and "row_epoch (row n) \<le> row_epoch r" and "row n' = r'" and "m_node_id (net n') = m_node_id (net n)"
    and "members n' = members n"
  shows "vote_cast t c n n'"
  using assms grant_pledges [OF assms(1)] grant_keeps_pledge [OF assms(1)] grant_unique [OF assms(1)]
    grant_epoch [OF assms(1)] pledged_same_vote [OF assms(2)]
  by (auto simp: vote_cast_def keeps_def)

lemma adopt_term_row:
  "adopt_replica_election_term t r = (res, r') \<Longrightarrow> same_vote r r' \<and> row_epoch r \<le> row_epoch r' \<and> row_role r' = row_role r"
  by (auto simp: adopt_replica_election_term_def same_vote_def split: if_splits)

lemma fence_term_row:
  "fence_primary_for_election_term t at' r = (res, r') \<Longrightarrow> same_vote r r' \<and> row_epoch r \<le> row_epoch r'"
  by (auto simp: fence_primary_for_election_term_def same_vote_def Let_def split: if_splits)

lemma fence_for_vote_quiet:
  assumes "fence_for_vote t db_ok now n = (res, n')"
  shows "quiet n n'" and "res \<noteq> Granted t'" and "h_quorum_fenced (cfg n')"
proof -
  obtain x r1 where f: "fence_primary_for_election_term t now (row n) = (x, r1)" by fastforce
  with assms fence_term_row [OF f] show "quiet n n'" "res \<noteq> Granted t'" "h_quorum_fenced (cfg n')"
    by (auto simp: fence_for_vote_def reject_vote_def Let_def quiet_def keeps_def same_vote_def
        split: if_splits option.splits)
qed

lemma cast_vote_granted:
  assumes "cast_vote t c k db_ok n = (Granted t', n')" and "h_role (cfg n) = Replica"
  shows "t' = t" and "vote_cast t c n n'" and "m_cursor (net n) \<le> k" and "h_epoch (cfg n') = t"
    and "row_epoch (row n') = t" and "row_voted_term (row n') = Some t" and "row_voted_node (row n') = Some c"
proof -
  obtain x r1 where a: "adopt_replica_election_term t (row n) = (x, r1)" by fastforce
  obtain y r2 where v: "try_persist_vote_grant t c r1 = (y, r2)" by fastforce
  from assms a v obtain e where e: "x = Some e" "y = Some True" "max (h_epoch (cfg n)) e \<le> t"
      "m_cursor (net n) \<le> k" "t' = t"
    and n': "n' = n\<lparr>row := r2, cfg := (cfg n)\<lparr>h_epoch := max (h_epoch (cfg n)) e\<rparr>\<rparr>"
    by (auto simp: cast_vote_def reject_vote_def Let_def current_replication_cursor_def not_less
        split: option.splits if_splits)
  from a e(1) have re: "e = max (row_epoch (row n)) t" "row_epoch r1 = e"
    by (auto simp: adopt_replica_election_term_def split: if_splits)
  from v e(2) have r2: "row_voted_term r2 = Some t" "row_voted_node r2 = Some c" "row_epoch r2 = max (row_epoch r1) t"
    by (auto simp: try_persist_vote_grant_def split: if_splits)
  show "t' = t" "m_cursor (net n) \<le> k" by (fact e)+
  show "vote_cast t c n n'"
    using grant_is_vote_cast [of t c r1 r2 n n'] v e(2) adopt_term_row [OF a] n' by simp
  show "h_epoch (cfg n') = t" "row_epoch (row n') = t" "row_voted_term (row n') = Some t" "row_voted_node (row n') = Some c"
    using n' r2 re e(3) by auto
qed

lemma cast_vote_not_granted:
  assumes "cast_vote t c k db_ok n = (res, n')" and "\<forall>t. res \<noteq> Granted t"
  shows "quiet n n'"
proof -
  obtain x r1 where a: "adopt_replica_election_term t (row n) = (x, r1)" by fastforce
  obtain y r2 where v: "try_persist_vote_grant t c r1 = (y, r2)" by fastforce
  have q: "quiet n (n\<lparr>row := r1, cfg := c'\<rparr>)" "quiet n (n\<lparr>cfg := c', row := r1\<rparr>)" "quiet n (n\<lparr>row := r1\<rparr>)" for c'
    using adopt_term_row [OF a] by (auto simp: quiet_def keeps_def)
  from assms a v q no_grant_same [OF v] show ?thesis
    by (auto simp: cast_vote_def reject_vote_def Let_def split: option.splits if_splits)
qed

text \<open>
  Everything a grant rests on: the request is well formed and its sender authenticated, failover
  is enabled with enough members, the voter is a replica that lost its primary, the term is not
  behind, the candidate holds at least the voter's log, and the vote is on disk.
\<close>

lemma vote_request_granted:
  assumes "handle_vote_request parse body auth db_ok now n = (Granted t, n')"
  obtains b c k where "body = Some b" "vote_request_fields parse b = Some (t, c, k)"
    "auth = None \<or> auth = Some [] \<or> auth = Some c"
    "h_auto_failover_enabled (cfg n)" "h_auto_failover_min_members (cfg n) \<le> length (members n)"
    "h_role (cfg n) = Replica" "disconnected_duration_ms now n \<noteq> None" "h_epoch (cfg n) \<le> t"
    "cast_vote t c k db_ok n = (Granted t, n')"
proof -
  from assms obtain b t1 c k where f: "body = Some b" "vote_request_fields parse b = Some (t1, c, k)"
    by (cases "Option.bind body (vote_request_fields parse)")
      (auto simp: handle_vote_request_def reject_vote_def bind_eq_Some_conv)
  have "fence_for_vote t1 db_ok now n \<noteq> (Granted t, n')" using fence_for_vote_quiet(2) by blast
  moreover from assms f have "(if (case auth of None \<Rightarrow> False | Some a \<Rightarrow> a \<noteq> [] \<and> c \<noteq> a) then reject_vote IdentityMismatch n
          else if \<not> h_auto_failover_enabled (cfg n) then reject_vote FailoverDisabled n
          else if length (members n) < h_auto_failover_min_members (cfg n) then reject_vote TooFewMembers n
          else if t1 < h_epoch (cfg n) then reject_vote StaleTerm n
          else if h_role (cfg n) \<noteq> Primary \<and> disconnected_duration_ms now n = None then reject_vote StillConnected n
          else if h_role (cfg n) = Primary then fence_for_vote t1 db_ok now n
          else cast_vote t1 c k db_ok n) = (Granted t, n')"
    by (simp add: handle_vote_request_def)
  ultimately have g: "\<not> (case auth of None \<Rightarrow> False | Some a \<Rightarrow> a \<noteq> [] \<and> c \<noteq> a) \<and> h_auto_failover_enabled (cfg n)
      \<and> h_auto_failover_min_members (cfg n) \<le> length (members n) \<and> h_epoch (cfg n) \<le> t1
      \<and> disconnected_duration_ms now n \<noteq> None \<and> h_role (cfg n) \<noteq> Primary \<and> cast_vote t1 c k db_ok n = (Granted t, n')"
    by (simp add: reject_vote_def not_less split: if_split_asm)
  then have rep: "h_role (cfg n) = Replica" by (cases "h_role (cfg n)") simp_all
  with g cast_vote_granted(1) have "t = t1" by blast
  with g f rep show thesis by (intro that) (auto split: option.splits)
qed

lemma vote_request_not_granted:
  assumes "handle_vote_request parse body auth db_ok now n = (res, n')" and "\<forall>t. res \<noteq> Granted t"
  shows "quiet n n'"
proof -
  from assms(1) have "n' = n \<or> (\<exists>t c k. fence_for_vote t db_ok now n = (res, n') \<or> cast_vote t c k db_ok n = (res, n'))"
    by (auto simp: handle_vote_request_def reject_vote_def split: if_splits option.splits)
  with assms(2) fence_for_vote_quiet(1) cast_vote_not_granted show ?thesis by (metis quiet_refl)
qed

lemma start_campaign_Some:
  assumes "start_campaign now n = (Some c, n')"
  shows "vote_cast (c_term c) (m_node_id (net n)) n n'" and "c_members c = members n"
    and "h_epoch (cfg n) < c_term c"
proof -
  obtain res r' where v: "try_persist_vote_grant (h_epoch (cfg n) + 1) (m_node_id (net n)) (row n) = (res, r')"
    by fastforce
  from assms v have r: "res = Some True" "c_term c = h_epoch (cfg n) + 1" "c_members c = members n" "row n' = r'"
      "net n' = net n" "members n' = members n"
    by (auto simp: start_campaign_def Let_def split: if_splits option.splits bool.splits)
  show "vote_cast (c_term c) (m_node_id (net n)) n n'"
    using grant_is_vote_cast [of _ _ "row n" r' n n'] v r by (simp add: same_vote_def)
  show "c_members c = members n" "h_epoch (cfg n) < c_term c" using r by simp_all
qed

lemma start_campaign_None:
  assumes "start_campaign now n = (None, n')"
  shows "quiet n n'"
proof -
  obtain res r' where v: "try_persist_vote_grant (h_epoch (cfg n) + 1) (m_node_id (net n)) (row n) = (res, r')"
    by fastforce
  with assms no_grant_same [OF v] show ?thesis
    by (auto simp: start_campaign_def Let_def quiet_defs abandon_campaign_def split: if_splits option.splits bool.splits)
qed

lemma quiet_then_vote: "quiet n n1 \<Longrightarrow> vote_cast t c n1 n' \<Longrightarrow> vote_cast t c n n'"
  by (auto simp: vote_cast_def quiet_def keeps_def pledged_same_vote)

lemma tick_replica_Some:
  assumes "tick_replica_election parse ans rnd now n = (Some c, n')"
  shows "vote_cast (c_term c) (m_node_id (net n)) n n' \<and> c_members c = members n"
proof -
  let ?d = "try_discover_primary parse ans n"
  have q: "quiet n (snd ?d)" by (rule quiet_discover)
  from assms have "start_campaign now (snd ?d) = (Some c, n')"
    by (auto simp: tick_replica_election_def split_beta split: if_splits option.splits)
  from start_campaign_Some [OF this] q quiet_then_vote [OF q] show ?thesis
    by (auto simp: quiet_def keeps_def)
qed

lemma tick_replica_None:
  assumes "tick_replica_election parse ans rnd now n = (None, n')"
  shows "quiet n n'"
proof -
  let ?d = "try_discover_primary parse ans n"
  have q: "quiet n (snd ?d)" by (rule quiet_discover)
  from assms have "n' = n \<or> n' = snd ?d \<or> start_campaign now (snd ?d) = (None, n')"
    by (auto simp: tick_replica_election_def split_beta split: if_splits option.splits)
  with q quiet_trans [OF q start_campaign_None] show ?thesis by auto
qed

section \<open>Majorities\<close>

definition is_majority :: "'v list \<Rightarrow> 'v set \<Rightarrow> bool" where
  "is_majority ms Q \<longleftrightarrow> Q \<subseteq> set ms \<and> majority_of (length ms) \<le> card Q"

lemma majorities_meet:
  assumes "is_majority ms A" and "is_majority ms B"
  shows "A \<inter> B \<noteq> {}"
proof
  assume "A \<inter> B = {}"
  moreover have fin: "finite A" "finite B" using assms finite_subset by (auto simp: is_majority_def)
  ultimately have "card A + card B = card (A \<union> B)" by (simp add: card_Un_disjoint)
  also have "\<dots> \<le> card (set ms)" using assms by (intro card_mono) (auto simp: is_majority_def)
  also have "\<dots> \<le> length ms" by (rule card_length)
  finally show False using assms by (auto simp: is_majority_def majority_of_def)
qed

interpretation mq: quorum_system "is_majority ms" for ms :: "'v list"
  by unfold_locales (rule majorities_meet)

lemma count_votes_Inr:
  assumes "count_votes t granted rs = Inr res" and "distinct granted"
  shows "distinct res \<and> set granted \<subseteq> set res
    \<and> set res \<subseteq> set granted \<union> {p. \<exists>e. (p, Some (Granted e)) \<in> set rs}"
  using assms
proof (induction rs arbitrary: granted)
  case (Cons x rs)
  obtain p r where x: "x = (p, r)" by fastforce
  show ?case
  proof (cases "\<exists>e. r = Some (Granted e)")
    case True
    with Cons.prems x have "count_votes t (List.insert p granted) rs = Inr res" "distinct (List.insert p granted)"
      by (auto split: if_splits)
    from Cons.IH [OF this] True x show ?thesis by auto
  next
    case False
    with Cons.prems x have "count_votes t granted rs = Inr res"
      by (auto split: option.splits vote_response.splits if_splits)
    from Cons.IH [OF this Cons.prems(2)] show ?thesis by auto
  qed
qed simp

section \<open>The cluster\<close>

text \<open>
  The nodes by their id, the votes granted so far (term, candidate, voter), the campaigns whose
  answers are awaited, and the elections won. Only votes, campaigns and wins that happened are
  recorded: no operation reads these sets, except that an answer to a campaign is a vote that was
  granted.
\<close>

record cluster =
  nodes :: "string \<Rightarrow> node"
  ballots :: "(nat \<times> string \<times> string) set"
  running :: "(string \<times> campaign) set"
  winners :: "(nat \<times> string) set"

definition update_node :: "string \<Rightarrow> node \<Rightarrow> cluster \<Rightarrow> cluster" where
  "update_node i n cl = cl\<lparr>nodes := (nodes cl)(i := n)\<rparr>"

definition answers_valid :: "cluster \<Rightarrow> string list \<Rightarrow> string \<Rightarrow> nat \<Rightarrow> (string \<times> vote_response option) list \<Rightarrow> bool" where
  "answers_valid cl ms i t rs \<longleftrightarrow> (\<forall>(p, res) \<in> set rs. p \<in> set ms \<and>
     (case res of Some (Granted _) \<Rightarrow> (t, i, p) \<in> ballots cl | _ \<Rightarrow> True))"

text \<open>
  One step of one registered member. \<open>volatile\<close> covers everything that leaves the durable row
  alone: connections that come and go, heartbeats, configuration, crashes and restarts.
\<close>

inductive cluster_step :: "(string \<Rightarrow> url_parts option) \<Rightarrow> string list \<Rightarrow> cluster \<Rightarrow> cluster \<Rightarrow> bool"
  for parse ms where
  vote_granted: "i \<in> set ms \<Longrightarrow> handle_vote_request parse (Some b) auth ok now (nodes cl i) = (Granted t, n')
     \<Longrightarrow> vote_request_fields parse b = Some (t, c, k)
     \<Longrightarrow> cluster_step parse ms cl ((update_node i n' cl)\<lparr>ballots := insert (t, c, i) (ballots cl)\<rparr>)"
| vote_refused: "i \<in> set ms \<Longrightarrow> handle_vote_request parse b auth ok now (nodes cl i) = (res, n')
     \<Longrightarrow> \<forall>t. res \<noteq> Granted t \<Longrightarrow> cluster_step parse ms cl (update_node i n' cl)"
| campaign: "i \<in> set ms \<Longrightarrow> tick_replica_election parse ans rnd now (nodes cl i) = (Some c, n')
     \<Longrightarrow> cluster_step parse ms cl ((update_node i n' cl)
           \<lparr>ballots := insert (c_term c, i, i) (ballots cl), running := insert (i, c) (running cl)\<rparr>)"
| no_campaign: "i \<in> set ms \<Longrightarrow> tick_replica_election parse ans rnd now (nodes cl i) = (None, n')
     \<Longrightarrow> cluster_step parse ms cl (update_node i n' cl)"
| won: "(i, c) \<in> running cl \<Longrightarrow> answers_valid cl ms i (c_term c) rs
     \<Longrightarrow> finish_campaign c rs (nodes cl i) = (True, n')
     \<Longrightarrow> cluster_step parse ms cl ((update_node i n' cl)
           \<lparr>running := running cl - {(i, c)}, winners := insert (c_term c, i) (winners cl)\<rparr>)"
| lost: "(i, c) \<in> running cl \<Longrightarrow> finish_campaign c rs (nodes cl i) = (False, n')
     \<Longrightarrow> cluster_step parse ms cl ((update_node i n' cl)\<lparr>running := running cl - {(i, c)}\<rparr>)"
| announced: "i \<in> set ms \<Longrightarrow> handle_announce_primary parse b auth (nodes cl i) = (rep, n')
     \<Longrightarrow> cluster_step parse ms cl (update_node i n' cl)"
| quorum_tick: "i \<in> set ms \<Longrightarrow> cluster_step parse ms cl
     (update_node i (tick_primary_quorum parse conf now (nodes cl i)) cl)"
| authority_fence: "i \<in> set ms \<Longrightarrow> cluster_step parse ms cl
     (update_node i ((nodes cl i)\<lparr>row := fence_primary_authority e src t (row (nodes cl i))\<rparr>) cl)"
| volatile: "i \<in> set ms \<Longrightarrow> row n' = row (nodes cl i) \<Longrightarrow> m_node_id (net n') = i
     \<Longrightarrow> map node_id (members n') = ms \<Longrightarrow> cluster_step parse ms cl (update_node i n' cl)"

definition cluster_start :: "string list \<Rightarrow> cluster \<Rightarrow> bool" where
  "cluster_start ms cl \<longleftrightarrow> ballots cl = {} \<and> running cl = {} \<and> winners cl = {}
     \<and> (\<forall>i \<in> set ms. m_node_id (net (nodes cl i)) = i \<and> map node_id (members (nodes cl i)) = ms)"

definition cluster_inv :: "string list \<Rightarrow> cluster \<Rightarrow> bool" where
  "cluster_inv ms cl \<longleftrightarrow>
     (\<forall>i \<in> set ms. m_node_id (net (nodes cl i)) = i \<and> map node_id (members (nodes cl i)) = ms)
   \<and> (\<forall>t c v. (t, c, v) \<in> ballots cl \<longrightarrow> pledged t c (row (nodes cl v)))
   \<and> (\<forall>t c c' v. (t, c, v) \<in> ballots cl \<longrightarrow> (t, c', v) \<in> ballots cl \<longrightarrow> c = c')
   \<and> (\<forall>i c. (i, c) \<in> running cl \<longrightarrow> i \<in> set ms \<and> (c_term c, i, i) \<in> ballots cl \<and> map node_id (c_members c) = ms)
   \<and> (\<forall>t c. (t, c) \<in> winners cl \<longrightarrow> (\<exists>Q. is_majority ms Q \<and> (\<forall>v \<in> Q. (t, c, v) \<in> ballots cl)))"

lemma cluster_inv_winner:
  "cluster_inv ms cl \<Longrightarrow> (t, c) \<in> winners cl \<Longrightarrow> \<exists>Q. is_majority ms Q \<and> (\<forall>v \<in> Q. (t, c, v) \<in> ballots cl)"
  by (simp add: cluster_inv_def)

lemma cluster_inv_one_ballot:
  "cluster_inv ms cl \<Longrightarrow> (t, c, v) \<in> ballots cl \<Longrightarrow> (t, c', v) \<in> ballots cl \<Longrightarrow> c = c'"
  unfolding cluster_inv_def by blast

lemma cluster_start_inv: "cluster_start ms cl \<Longrightarrow> cluster_inv ms cl"
  by (simp add: cluster_start_def cluster_inv_def)

lemma cluster_inv_quiet:
  assumes "cluster_inv ms cl" and "quiet (nodes cl i) n'"
  shows "cluster_inv ms (update_node i n' cl)"
  using assms pledged_same_vote [of "row (nodes cl i)" "row n'"]
  by (auto simp: cluster_inv_def update_node_def quiet_def keeps_def)

lemma cluster_inv_vote:
  assumes inv: "cluster_inv ms cl" and vote: "vote_cast t c (nodes cl i) n'"
  shows "cluster_inv ms ((update_node i n' cl)\<lparr>ballots := insert (t, c, i) (ballots cl)\<rparr>)"
proof -
  have uniq: "c' = c" if "(t, c', i) \<in> ballots cl" for c'
    using inv vote that by (auto simp: cluster_inv_def vote_cast_def)
  have pl: "pledged t' c' (row n')" if "(t', c', i) \<in> ballots cl" for t' c'
    using inv vote that by (auto simp: cluster_inv_def vote_cast_def)
  have ids: "m_node_id (net n') = m_node_id (net (nodes cl i))" "members n' = members (nodes cl i)" "pledged t c (row n')"
    using vote by (auto simp: vote_cast_def keeps_def)
  have win: "\<exists>Q. is_majority ms Q \<and> (\<forall>v \<in> Q. (t', c', v) \<in> insert (t, c, i) (ballots cl))" if "(t', c') \<in> winners cl" for t' c'
    using inv that unfolding cluster_inv_def by (metis insertCI)
  show ?thesis
    using inv uniq pl ids win unfolding cluster_inv_def update_node_def by (auto split: if_splits)
qed

lemma finish_campaign_won:
  assumes "finish_campaign c rs n = (True, n')"
  obtains granted where "count_votes (c_term c) [m_node_id (net n)] rs = Inr granted"
    and "majority_of (length (c_members c)) \<le> length granted"
  using assms by (auto simp: finish_campaign_def Let_def not_less split: sum.splits if_splits)

lemma cluster_inv_won:
  assumes inv: "cluster_inv ms cl" and run: "(i, c) \<in> running cl"
    and ans: "answers_valid cl ms i (c_term c) rs" and fin: "finish_campaign c rs (nodes cl i) = (True, n')"
  shows "cluster_inv ms ((update_node i n' cl)\<lparr>running := running cl - {(i, c)}, winners := insert (c_term c, i) (winners cl)\<rparr>)"
proof -
  from inv run have i: "i \<in> set ms" "(c_term c, i, i) \<in> ballots cl" "map node_id (c_members c) = ms"
      "m_node_id (net (nodes cl i)) = i"
    by (auto simp: cluster_inv_def)
  obtain granted where g: "count_votes (c_term c) [i] rs = Inr granted" "majority_of (length ms) \<le> length granted"
    using fin i by (metis finish_campaign_won length_map)
  from count_votes_Inr [OF g(1)] have d: "distinct granted"
    and sub: "set granted \<subseteq> insert i {p. \<exists>e. (p, Some (Granted e)) \<in> set rs}" by auto
  have "p \<in> set ms \<and> (c_term c, i, p) \<in> ballots cl" if "(p, Some (Granted e)) \<in> set rs" for p e
    using bspec [OF ans [unfolded answers_valid_def] that] by simp
  with sub i(1,2) have "set granted \<subseteq> {v \<in> set ms. (c_term c, i, v) \<in> ballots cl}" by blast
  moreover from this have "is_majority ms (set granted)"
    using g(2) d by (auto simp: is_majority_def distinct_card)
  ultimately have new: "\<exists>Q. is_majority ms Q \<and> (\<forall>v \<in> Q. (c_term c, i, v) \<in> ballots cl)" by blast
  have "quiet (nodes cl i) n'" using quiet_finish_campaign [of "nodes cl i" c rs] fin by simp
  from cluster_inv_quiet [OF inv this] new show ?thesis
    unfolding cluster_inv_def update_node_def by (simp; blast)
qed

lemma cluster_inv_step: "cluster_step parse ms cl cl' \<Longrightarrow> cluster_inv ms cl \<Longrightarrow> cluster_inv ms cl'"
proof (induction rule: cluster_step.induct)
  case (vote_granted i b auth ok now cl t n' c k)
  from vote_granted(2,3) have "vote_cast t c (nodes cl i) n'"
    by (elim vote_request_granted) (auto dest: cast_vote_granted(2))
  with vote_granted show ?case by (intro cluster_inv_vote)
next
  case (vote_refused i b auth ok now cl res n')
  then show ?case by (intro cluster_inv_quiet vote_request_not_granted) 
next
  case (campaign i ans rnd now cl c n')
  from campaign(1,3) have i: "m_node_id (net (nodes cl i)) = i" "map node_id (members (nodes cl i)) = ms"
    by (auto simp: cluster_inv_def)
  with tick_replica_Some [OF campaign(2)] have v: "vote_cast (c_term c) i (nodes cl i) n'" "map node_id (c_members c) = ms"
    by auto
  from cluster_inv_vote [OF campaign(3) v(1)] v(2) campaign(1) show ?case
    by (simp add: cluster_inv_def update_node_def)
next
  case (no_campaign i ans rnd now cl n')
  then show ?case by (intro cluster_inv_quiet tick_replica_None)
next
  case (won i c cl rs n')
  then show ?case by (intro cluster_inv_won)
next
  case (lost i c cl rs n')
  have "quiet (nodes cl i) n'" using quiet_finish_campaign [of "nodes cl i" c rs] lost(2) by simp
  from cluster_inv_quiet [OF lost(3) this] show ?case
    unfolding cluster_inv_def update_node_def by (simp; blast)
next
  case (announced i b auth cl rep n')
  have "quiet (nodes cl i) n'" using quiet_announce [of "nodes cl i" parse b auth] announced(2) by simp
  with announced show ?case by (intro cluster_inv_quiet)
next
  case (quorum_tick i cl conf now)
  then show ?case by (intro cluster_inv_quiet quiet_tick_primary)
next
  case (authority_fence i cl e src t)
  then show ?case by (intro cluster_inv_quiet) (auto simp: quiet_defs fence_primary_authority_def)
next
  case (volatile i n' cl)
  then show ?case by (auto simp: cluster_inv_def update_node_def)
qed

lemma cluster_inv_steps: "(cluster_step parse ms)\<^sup>*\<^sup>* cl cl' \<Longrightarrow> cluster_inv ms cl \<Longrightarrow> cluster_inv ms cl'"
  by (induction rule: rtranclp_induct) (auto intro: cluster_inv_step)

lemma one_winner:
  assumes "cluster_inv ms cl" and "(t, c) \<in> winners cl" and "(t, c') \<in> winners cl"
  shows "c = c'"
proof -
  obtain A B where q: "is_majority ms A" "is_majority ms B"
    and v: "\<forall>v \<in> A. (t, c, v) \<in> ballots cl" "\<forall>v \<in> B. (t, c', v) \<in> ballots cl"
    using cluster_inv_winner [OF assms(1,2)] cluster_inv_winner [OF assms(1,3)] by blast
  show ?thesis
    by (rule mq.one_choice [where backs = "\<lambda>v x. (t, x, v) \<in> ballots cl", OF q v])
      (rule cluster_inv_one_ballot [OF assms(1)])
qed

text \<open>The durable epoch of a node never goes down.\<close>

lemma cluster_step_epoch:
  "cluster_step parse ms cl cl' \<Longrightarrow> row_epoch (row (nodes cl i)) \<le> row_epoch (row (nodes cl' i))"
proof (induction rule: cluster_step.induct)
  case (vote_granted j b auth ok now cl t n' c k)
  from vote_granted(2) have "keeps (nodes cl j) n'"
    by (elim vote_request_granted) (auto dest: cast_vote_granted(2) simp: vote_cast_def)
  then show ?case by (simp add: update_node_def keeps_def)
next
  case (vote_refused j b auth ok now cl res n')
  from vote_request_not_granted [OF vote_refused(2,3)] show ?case by (simp add: update_node_def quiet_def keeps_def)
next
  case (campaign j ans rnd now cl c n')
  from tick_replica_Some [OF campaign(2)] show ?case by (simp add: update_node_def vote_cast_def keeps_def)
next
  case (no_campaign j ans rnd now cl n')
  from tick_replica_None [OF no_campaign(2)] show ?case by (simp add: update_node_def quiet_def keeps_def)
next
  case (won j c cl rs n')
  with quiet_finish_campaign [of "nodes cl j" c rs] show ?case by (simp add: update_node_def quiet_def keeps_def)
next
  case (lost j c cl rs n')
  with quiet_finish_campaign [of "nodes cl j" c rs] show ?case by (simp add: update_node_def quiet_def keeps_def)
next
  case (announced j b auth cl rep n')
  with quiet_announce [of "nodes cl j" parse b auth] show ?case by (simp add: update_node_def quiet_def keeps_def)
next
  case (quorum_tick j cl conf now)
  with quiet_tick_primary [of "nodes cl j" parse conf now] show ?case by (simp add: update_node_def quiet_def keeps_def)
qed (auto simp: update_node_def fence_primary_authority_def)

lemma cluster_steps_epoch:
  "(cluster_step parse ms)\<^sup>*\<^sup>* cl cl' \<Longrightarrow> row_epoch (row (nodes cl i)) \<le> row_epoch (row (nodes cl' i))"
  by (induction rule: rtranclp_induct) (auto dest: cluster_step_epoch [of _ _ _ _ i])

section \<open>Losing the quorum\<close>

lemma cast_vote_prior_vote:
  assumes "cast_vote t c k db_ok n = (Granted t, n')" and "row_voted_term (row n) = Some t"
  shows "row_voted_node (row n) = Some c"
proof -
  obtain x r1 where a: "adopt_replica_election_term t (row n) = (x, r1)" by fastforce
  obtain y r2 where v: "try_persist_vote_grant t c r1 = (y, r2)" by fastforce
  from assms(1) a v have y: "y = Some True"
    by (auto simp: cast_vote_def reject_vote_def Let_def split: option.splits if_splits)
  then have "may_vote t c r1" using v by (auto simp: try_persist_vote_grant_def split: if_splits)
  with adopt_term_row [OF a] assms(2) show ?thesis by (auto simp: may_vote_def same_vote_def)
qed

lemma adopt_role: "fst (adopt_discovered_primary parse u au e n) \<Longrightarrow> h_role (cfg (snd (adopt_discovered_primary parse u au e n))) = Replica"
  by (auto simp: adopt_discovered_primary_def adopt_discovered_primary_row_def Let_def split: if_splits prod.splits)

lemma adopt_refused_fence:
  "\<not> fst (adopt_discovered_primary parse u au e n) \<Longrightarrow> cfg (snd (adopt_discovered_primary parse u au e n)) = cfg n"
  by (auto simp: adopt_discovered_primary_def Let_def split: if_splits prod.splits)

lemma recovery_fenced_or_replica:
  assumes "h_quorum_fenced (cfg n)"
  shows "h_quorum_fenced (cfg (try_automatic_former_primary_recovery parse as n))
    \<or> h_role (cfg (try_automatic_former_primary_recovery parse as n)) = Replica"
  using assms adopt_role adopt_refused_fence
  by (auto simp: try_automatic_former_primary_recovery_def split: option.splits) metis

lemma tick_fences:
  fixes n :: node and now :: time
  defines "count \<equiv> fst (tracked_member_count (length (members n)) now n)"
  assumes on: "h_auto_failover_enabled (cfg n)" "\<not> h_authority_fence (cfg n)" "\<not> h_fenced_for_promotion (cfg n)"
      "\<not> h_election_in_progress (cfg n)" "h_quorum_tracking_active (cfg n)"
    and size: "h_auto_failover_min_members (cfg n) \<le> count"
    and alone: "1 + length (filter (\<lambda>(i, seen). i \<in> set (map node_id (members n)) \<and> now - seen \<le> 15000) (m_nodes (net n)))
      < majority_of count"
    and stale: "int (h_quorum_loss_fence_seconds (cfg n)) * 1000 \<le> now - h_last_majority_confirmed_at (cfg n)"
  shows "h_quorum_fenced (cfg (tick_primary_quorum parse as now n)) \<or> h_role (cfg (tick_primary_quorum parse as now n)) = Replica"
proof -
  obtain k n1 where t: "tracked_member_count (length (members n)) now n = (k, n1)" by fastforce
  then have n1: "cfg n1 = cfg n" "net n1 = net n" "members n1 = members n" and k: "k = count"
    by (auto simp: tracked_member_count_def count_def split: if_splits)
  have cn: "fst (connected_replica_count (set (map node_id (members n))) now (net n)) =
      length (filter (\<lambda>(i, seen). i \<in> set (map node_id (members n)) \<and> now - seen \<le> 15000) (m_nodes (net n)))"
    by (simp add: connected_replica_count_def expire_stale_replica_connections_def Let_def case_prod_unfold conj_commute)
  define m' where "m' = snd (connected_replica_count (set (map node_id (members n))) now (net n))"
  define n3 where "n3 = (set_tracking True n1)\<lparr>net := m'\<rparr>"
  have c3: "cfg n3 = (cfg n)\<lparr>h_quorum_tracking_active := True\<rparr>" by (simp add: n3_def set_tracking_def n1)
  have "tick_primary_quorum parse as now n =
      (if h_quorum_fenced (cfg n3) then try_automatic_former_primary_recovery parse as n3
       else n3\<lparr>cfg := (cfg n3)\<lparr>h_quorum_fenced := True\<rparr>, row := set_quorum_fence now (row n3)\<rparr>)"
    using on size alone stale cn t k n1
    by (simp add: tick_primary_quorum_def Let_def split_beta set_tracking_def n3_def m'_def)
  then show ?thesis using recovery_fenced_or_replica [of n3 parse as] by simp
qed

section \<open>Properties\<close>

text \<open>
  C4: from any start of a cluster with a fixed list of members, whatever vote requests, campaigns,
  announcements, ticks, lost answers, crashes and restarts happen in whatever order, no two
  different nodes win the election of the same term.
\<close>

theorem one_winner_per_term:
  assumes "(cluster_step parse ms)\<^sup>*\<^sup>* cl cl'" and "cluster_start ms cl"
    and "(t, c) \<in> winners cl'" and "(t, c') \<in> winners cl'"
  shows "c = c'"
  by (rule one_winner [OF cluster_inv_steps [OF assms(1) cluster_start_inv [OF assms(2)]] assms(3,4)])

definition sample_parse :: "string \<Rightarrow> url_parts option" where
  "sample_parse s = Some \<lparr>url_protocol = ''https:'', url_hostname = s, url_username = [], url_password = []\<rparr>"

definition sample_members :: "member list" where
  "sample_members = map (\<lambda>i. \<lparr>node_id = i, admin_url = Some i\<rparr>) [''a'', ''b'', ''c'']"

definition sample_node :: "string \<Rightarrow> node" where
  "sample_node i = \<lparr>
     row = \<lparr>row_role = Replica, row_primary_url = Some ''p'', row_primary_admin_url = Some ''p'', row_epoch = 7,
       row_authority_fence = None, row_quorum_fenced = False, row_quorum_fenced_at = None, row_voted_term = None,
       row_voted_node = None, row_promotion_intent = False, row_bootstrapped = True, row_relay_outbox = [],
       row_changelog = [], row_high_watermark = 0\<rparr>,
     cfg = \<lparr>h_role = Replica, h_epoch = 7, h_primary_url = Some ''p'', h_primary_admin_url = Some ''p'',
       h_authority_fence = False, h_quorum_fenced = False, h_fenced_for_promotion = False,
       h_election_in_progress = False, h_auto_failover_enabled = True, h_auto_failover_min_members = 3,
       h_quorum_tracking_active = False, h_last_majority_confirmed_at = 0, h_quorum_loss_fence_seconds = 10,
       h_election_timeout_base_seconds = 45, h_election_timeout_jitter_ms = 3000\<rparr>,
     net = \<lparr>m_node_id = i, m_state = Disconnected, m_disconnected_since = 1000, m_cursor = 5,
       m_last_heartbeat_latest_seq = 5, m_verified_generation = 1, m_connection_generation = 1,
       m_election_winner_activating = False, m_authority_ambiguous = False, m_authority_ambiguous_before = False,
       m_has_bootstrapped = True, m_nodes = []\<rparr>,
     members = sample_members, campaigning_term = None, recent_max_member_count = 0, recent_max_member_count_at = 0\<rparr>"

definition sample_cluster :: cluster where
  "sample_cluster = \<lparr>nodes = sample_node, ballots = {}, running = {}, winners = {}\<rparr>"

definition sample_request :: vote_request where
  "sample_request = \<lparr>vr_term = Some 8, vr_candidate_id = Some ''a'', vr_candidate_cursor = Some 5,
     vr_candidate_admin_url = Some ''a''\<rparr>"

definition sample_campaign :: campaign where
  "sample_campaign = \<lparr>c_term = 8, c_cursor = 5, c_generation = 1, c_expected_url = Some ''p'',
     c_expected_admin_url = Some ''p'', c_members = sample_members\<rparr>"

definition sample_tick :: "campaign option \<times> node" where
  "sample_tick = tick_replica_election sample_parse [] 0 60000 (sample_node ''a'')"

definition sample_vote :: "vote_response \<times> node" where
  "sample_vote = handle_vote_request sample_parse (Some sample_request) (Some ''a'') True 60000 (sample_node ''b'')"

definition sample_finish :: "bool \<times> node" where
  "sample_finish = finish_campaign sample_campaign [(''b'', Some (Granted 8)), (''c'', None)] (snd sample_tick)"

lemma sample_results:
  "fst sample_tick = Some sample_campaign" "fst sample_vote = Granted 8" "fst sample_finish"
  "vote_request_fields sample_parse sample_request = Some (8, ''a'', 5)"
  by code_simp+

text \<open>A run of three members in which \<open>a\<close> campaigns, \<open>b\<close> votes for it and \<open>a\<close> wins.\<close>

lemma sample_run:
  "\<exists>cl. (cluster_step sample_parse [''a'', ''b'', ''c''])\<^sup>*\<^sup>* sample_cluster cl \<and> (8, ''a'') \<in> winners cl"
proof -
  let ?ms = "[''a'', ''b'', ''c'']"
  let ?c1 = "(update_node ''a'' (snd sample_tick) sample_cluster)
      \<lparr>ballots := insert (8, ''a'', ''a'') {}, running := insert (''a'', sample_campaign) {}\<rparr>"
  let ?c2 = "(update_node ''b'' (snd sample_vote) ?c1)\<lparr>ballots := insert (8, ''a'', ''b'') (ballots ?c1)\<rparr>"
  let ?c3 = "(update_node ''a'' (snd sample_finish) ?c2)
      \<lparr>running := running ?c2 - {(''a'', sample_campaign)}, winners := insert (8, ''a'') (winners ?c2)\<rparr>"
  have t: "tick_replica_election sample_parse [] 0 60000 (nodes sample_cluster ''a'') = (Some sample_campaign, snd sample_tick)"
    using sample_results(1) by (metis sample_tick_def prod.collapse cluster.select_convs(1) sample_cluster_def)
  have "cluster_step sample_parse ?ms sample_cluster ?c1"
    using cluster_step.campaign [OF _ t, of ?ms] by (simp add: sample_cluster_def sample_campaign_def)
  moreover have "cluster_step sample_parse ?ms ?c1 ?c2"
  proof (rule cluster_step.vote_granted)
    have "nodes ?c1 ''b'' = sample_node ''b''" by (simp add: update_node_def sample_cluster_def)
    then show "handle_vote_request sample_parse (Some sample_request) (Some ''a'') True 60000 (nodes ?c1 ''b'') = (Granted 8, snd sample_vote)"
      using sample_results(2) by (metis sample_vote_def prod.collapse)
    show "vote_request_fields sample_parse sample_request = Some (8, ''a'', 5)" by (fact sample_results(4))
  qed simp
  moreover have "cluster_step sample_parse ?ms ?c2 ?c3"
  proof -
    have n: "nodes ?c2 ''a'' = snd sample_tick" by (simp add: update_node_def)
    have f: "finish_campaign sample_campaign [(''b'', Some (Granted 8)), (''c'', None)] (nodes ?c2 ''a'') = (True, snd sample_finish)"
      unfolding n using sample_results(3) by (metis sample_finish_def prod.collapse)
    have r: "(''a'', sample_campaign) \<in> running ?c2" by (simp add: update_node_def)
    have a: "answers_valid ?c2 ?ms ''a'' (c_term sample_campaign) [(''b'', Some (Granted 8)), (''c'', None)]"
      by (simp add: answers_valid_def sample_campaign_def)
    from cluster_step.won [OF r a f, of sample_parse] show ?thesis by (simp add: sample_campaign_def)
  qed
  ultimately have "(cluster_step sample_parse ?ms)\<^sup>*\<^sup>* sample_cluster ?c3"
    by (meson r_into_rtranclp rtranclp.rtrancl_into_rtrancl)
  then show ?thesis by (intro exI [of _ ?c3]) simp
qed

lemma sample_start: "cluster_start [''a'', ''b'', ''c''] sample_cluster"
  by (simp add: cluster_start_def sample_cluster_def sample_node_def sample_members_def)

theorem one_winner_per_term_witness:
  "\<exists>cl. (8, ''a'') \<in> winners cl \<and> (8, ''b'') \<notin> winners cl
     \<and> (cluster_step sample_parse [''a'', ''b'', ''c''])\<^sup>*\<^sup>* sample_cluster cl"
proof -
  obtain cl where cl: "(cluster_step sample_parse [''a'', ''b'', ''c''])\<^sup>*\<^sup>* sample_cluster cl" "(8, ''a'') \<in> winners cl"
    using sample_run by blast
  have "(8, ''b'') \<notin> winners cl"
    using one_winner_per_term [OF cl(1) sample_start cl(2)] by fastforce
  with cl show ?thesis by blast
qed

text \<open>
  A granted vote is durable and safe: the voter is a replica cut off from its primary, with
  automatic failover on and enough members, its log is not ahead of the candidate's, the
  candidate is the authenticated sender, the term is now the voter's epoch, and the voter had not
  voted for anyone else in it.
\<close>

theorem granted_vote_is_safe:
  assumes "handle_vote_request parse body auth db_ok now n = (Granted t, n')"
  shows "\<exists>b c k. body = Some b \<and> vote_request_fields parse b = Some (t, c, k)
    \<and> (auth = None \<or> auth = Some [] \<or> auth = Some c)
    \<and> h_auto_failover_enabled (cfg n) \<and> h_auto_failover_min_members (cfg n) \<le> length (members n)
    \<and> h_role (cfg n) = Replica \<and> disconnected_duration_ms now n \<noteq> None
    \<and> m_cursor (net n) \<le> k \<and> h_epoch (cfg n) \<le> t \<and> row_epoch (row n) \<le> t
    \<and> (row_voted_term (row n) = Some t \<longrightarrow> row_voted_node (row n) = Some c)
    \<and> row_epoch (row n') = t \<and> row_voted_term (row n') = Some t \<and> row_voted_node (row n') = Some c"
proof -
  from assms obtain b c k where g: "body = Some b" "vote_request_fields parse b = Some (t, c, k)"
    "auth = None \<or> auth = Some [] \<or> auth = Some c"
    "h_auto_failover_enabled (cfg n)" "h_auto_failover_min_members (cfg n) \<le> length (members n)"
    "h_role (cfg n) = Replica" "disconnected_duration_ms now n \<noteq> None" "h_epoch (cfg n) \<le> t"
    and v: "cast_vote t c k db_ok n = (Granted t, n')"
    by (rule vote_request_granted)
  note f = cast_vote_granted [OF v g(6)]
  have "row_epoch (row n) \<le> t" using f(2,5) by (simp add: vote_cast_def keeps_def)
  moreover have "row_voted_node (row n) = Some c" if "row_voted_term (row n) = Some t"
    using cast_vote_prior_vote [OF v that] .
  ultimately show ?thesis using g f by blast
qed

theorem granted_vote_is_safe_witness:
  "row_voted_node (row (snd sample_vote)) = Some ''a'' \<and> row_voted_term (row (snd sample_vote)) = Some 8"
proof -
  have "handle_vote_request sample_parse (Some sample_request) (Some ''a'') True 60000 (sample_node ''b'') = (Granted 8, snd sample_vote)"
    using sample_results(2) by (metis sample_vote_def prod.collapse)
  from granted_vote_is_safe [OF this] sample_results(4) show ?thesis by auto
qed

text \<open>
  The durable epoch of a node never decreases, through votes, campaigns, adoptions of a
  primary, fences, crashes and restarts.
\<close>

theorem epoch_never_decreases:
  assumes "(cluster_step parse ms)\<^sup>*\<^sup>* cl cl'"
  shows "row_epoch (row (nodes cl i)) \<le> row_epoch (row (nodes cl' i))"
  by (rule cluster_steps_epoch [OF assms])

theorem epoch_never_decreases_witness:
  "\<exists>cl :: cluster. (8, ''a'') \<in> winners cl \<and> 7 \<le> row_epoch (row (nodes cl ''c''))"
proof -
  obtain cl where cl: "(cluster_step sample_parse [''a'', ''b'', ''c''])\<^sup>*\<^sup>* sample_cluster cl" "(8, ''a'') \<in> winners cl"
    using sample_run by blast
  have "row_epoch (row (nodes sample_cluster ''c'')) = 7" by (simp add: sample_cluster_def sample_node_def)
  with epoch_never_decreases [OF cl(1), of "''c''"] cl(2) show ?thesis by (intro exI [of _ cl]) simp
qed

text \<open>
  C5: a primary that has not seen a majority of the members within the quorum-loss window is
  fenced after its next tick, or has stepped down to follow a primary that a majority confirmed.
\<close>

theorem primary_without_majority_is_fenced:
  fixes n :: node and now :: time
  defines "count \<equiv> fst (tracked_member_count (length (members n)) now n)"
  assumes "h_auto_failover_enabled (cfg n)" and "\<not> h_authority_fence (cfg n)" and "\<not> h_fenced_for_promotion (cfg n)"
    and "\<not> h_election_in_progress (cfg n)" and "h_quorum_tracking_active (cfg n)"
    and "h_auto_failover_min_members (cfg n) \<le> count"
    and "1 + length (filter (\<lambda>(i, seen). i \<in> set (map node_id (members n)) \<and> now - seen \<le> 15000) (m_nodes (net n)))
      < majority_of count"
    and "int (h_quorum_loss_fence_seconds (cfg n)) * 1000 \<le> now - h_last_majority_confirmed_at (cfg n)"
  shows "h_quorum_fenced (cfg (tick_primary_quorum parse as now n)) \<or> h_role (cfg (tick_primary_quorum parse as now n)) = Replica"
  using tick_fences [of n now parse as] assms by blast

definition sample_primary :: node where
  "sample_primary = (sample_node ''a'')\<lparr>cfg := (cfg (sample_node ''a''))
     \<lparr>h_role := Primary, h_quorum_tracking_active := True, h_last_majority_confirmed_at := 1000\<rparr>\<rparr>"

theorem primary_without_majority_is_fenced_witness:
  "h_quorum_fenced (cfg (tick_primary_quorum sample_parse [] 20000 sample_primary))"
proof -
  have "h_role (cfg (tick_primary_quorum sample_parse [] 20000 sample_primary)) = Primary" by code_simp
  moreover have "h_quorum_fenced (cfg (tick_primary_quorum sample_parse [] 20000 sample_primary))
      \<or> h_role (cfg (tick_primary_quorum sample_parse [] 20000 sample_primary)) = Replica"
    by (rule primary_without_majority_is_fenced)
      (simp_all add: sample_primary_def sample_node_def sample_members_def tracked_member_count_def majority_of_def)
  ultimately show ?thesis by simp
qed

end
