(* ===== verification/Ha_Write_Barrier.thy ===== *)
theory Ha_Write_Barrier
  imports Ha_Election
begin

text \<open>
  \<open>src/src/services/ha-write-barrier.ts\<close>: the lease every configuration write of a primary runs
  under, the fences that refuse it, and the drain that a promotion waits for.

  A lease is the context object of one outermost write, identified by a number; a nested write
  carries the lease of the write around it, as the asynchronous local storage does. A promotion
  that waits is an entry of \<open>drain_waiters\<close>; \<open>drained\<close> collects the promotions whose
  \<open>beginPromotion\<close> returned since the fence was last raised. No operation reads \<open>drained\<close>.
\<close>

section \<open>State\<close>

datatype fence_error = AuthorityFence | QuorumLossFence | PromotionFence

record barrier =
  b_cfg :: ha_config
  b_active_writes :: nat
  b_leases :: "nat set"
  b_next_lease :: nat
  drain_waiters :: "nat set"
  drained :: "nat set"

definition is_quorum_proof_stale :: "time \<Rightarrow> ha_config \<Rightarrow> bool" where
  "is_quorum_proof_stale now c \<longleftrightarrow> h_quorum_tracking_active c
     \<and> now - h_last_majority_confirmed_at c \<ge> int (h_quorum_loss_fence_seconds c) * 1000"

section \<open>Operations\<close>

definition write_fence :: "time \<Rightarrow> ha_config \<Rightarrow> fence_error option" where
  "write_fence now c =
     (if h_authority_fence c then Some AuthorityFence
      else if h_quorum_fenced c \<or> is_quorum_proof_stale now c then Some QuorumLossFence
      else if h_fenced_for_promotion c then Some PromotionFence
      else None)"

text \<open>
  \<open>runPrimaryWrite\<close> up to the start of its operation: refused, nested in a lease that is still
  active (no lease of its own), or started under a fresh lease.
\<close>

definition start_write :: "nat option \<Rightarrow> time \<Rightarrow> barrier \<Rightarrow> (fence_error + nat option) \<times> barrier" where
  "start_write inherited now b =
     (if (case inherited of None \<Rightarrow> False | Some l \<Rightarrow> l \<in> b_leases b) then (Inr None, b)
      else case write_fence now (b_cfg b) of
        Some e \<Rightarrow> (Inl e, b)
      | None \<Rightarrow> let l = b_next_lease b in
          (Inr (Some l), b\<lparr>b_leases := insert l (b_leases b), b_next_lease := l + 1,
                          b_active_writes := b_active_writes b + 1\<rparr>))"

text \<open>Its \<open>finally\<close> block, whether the operation returned or threw.\<close>

definition finish_write :: "nat \<Rightarrow> barrier \<Rightarrow> barrier" where
  "finish_write l b =
     (let b1 = b\<lparr>b_leases := b_leases b - {l}, b_active_writes := b_active_writes b - 1\<rparr> in
      if b_active_writes b1 = 0
      then b1\<lparr>drained := drained b1 \<union> drain_waiters b1, drain_waiters := {}\<rparr> else b1)"

text \<open>\<open>beginPromotion\<close>: refused, done at once, or waiting for the active writes.\<close>

datatype promotion_start = Refused fence_error | Done | Waiting

definition begin_promotion :: "nat \<Rightarrow> time \<Rightarrow> barrier \<Rightarrow> promotion_start \<times> barrier" where
  "begin_promotion p now b =
     (let c = b_cfg b in
      if h_authority_fence c then (Refused AuthorityFence, b)
      else if h_quorum_fenced c \<or> is_quorum_proof_stale now c then (Refused QuorumLossFence, b)
      else if h_fenced_for_promotion c then (Refused PromotionFence, b)
      else if h_election_in_progress c then (Refused PromotionFence, b)
      else let b1 = b\<lparr>b_cfg := c\<lparr>h_fenced_for_promotion := True\<rparr>\<rparr> in
        if b_active_writes b1 = 0 then (Done, b1\<lparr>drained := {p}\<rparr>)
        else (Waiting, b1\<lparr>drain_waiters := insert p (drain_waiters b1), drained := {}\<rparr>))"

text \<open>The timeout of a waiting promotion: it gives up and lifts its fence.\<close>

definition drain_timeout :: "nat \<Rightarrow> barrier \<Rightarrow> barrier" where
  "drain_timeout p b =
     (if p \<in> drain_waiters b
      then b\<lparr>drain_waiters := drain_waiters b - {p}, b_cfg := (b_cfg b)\<lparr>h_fenced_for_promotion := False\<rparr>\<rparr>
      else b)"

definition end_promotion :: "barrier \<Rightarrow> barrier" where
  "end_promotion b = b\<lparr>b_cfg := (b_cfg b)\<lparr>h_fenced_for_promotion := False\<rparr>\<rparr>"

definition has_active_lease :: "nat option \<Rightarrow> barrier \<Rightarrow> bool" where
  "has_active_lease inherited b = (case inherited of None \<Rightarrow> False | Some l \<Rightarrow> l \<in> b_leases b)"

section \<open>Administrative write requests\<close>

definition is_primary_admin_write_request :: "string \<Rightarrow> string \<Rightarrow> bool" where
  "is_primary_admin_write_request verb path \<longleftrightarrow>
     verb \<in> {''POST'', ''PUT'', ''PATCH'', ''DELETE''}
   \<and> starts_with ''/_burrowgate/api/admin/'' path
   \<and> path \<noteq> ''/_burrowgate/api/admin/logout''
   \<and> \<not> starts_with ''/_burrowgate/api/admin/logs'' path
   \<and> path \<noteq> ''/_burrowgate/api/admin/ha/consume-recovery-code''
   \<and> path \<noteq> ''/_burrowgate/api/admin/ha/resolve-admin-session''
   \<and> \<not> starts_with ''/_burrowgate/api/admin/ha/promote/'' path"

section \<open>Steps and invariant\<close>

text \<open>
  The events of the barrier. Between them the rest of the node may change its configuration, but
  only \<open>end_promotion\<close> and \<open>drain_timeout\<close> lift the fence of a promotion.
\<close>

inductive barrier_step :: "barrier \<Rightarrow> barrier \<Rightarrow> bool" where
  start: "barrier_step b (snd (start_write inherited now b))"
| finish: "l \<in> b_leases b \<Longrightarrow> barrier_step b (finish_write l b)"
| promote: "barrier_step b (snd (begin_promotion p now b))"
| timeout: "barrier_step b (drain_timeout p b)"
| finished: "barrier_step b (end_promotion b)"
| config: "h_fenced_for_promotion c = h_fenced_for_promotion (b_cfg b) \<Longrightarrow> barrier_step b (b\<lparr>b_cfg := c\<rparr>)"

definition barrier_inv :: "barrier \<Rightarrow> bool" where
  "barrier_inv b \<longleftrightarrow> finite (b_leases b) \<and> card (b_leases b) = b_active_writes b
     \<and> (\<forall>l \<in> b_leases b. l < b_next_lease b)
     \<and> (h_fenced_for_promotion (b_cfg b) \<and> drained b \<noteq> {} \<longrightarrow> b_active_writes b = 0)
     \<and> (drain_waiters b \<noteq> {} \<longrightarrow> 0 < b_active_writes b)"

lemma barrier_inv_start: "barrier_inv b \<Longrightarrow> barrier_inv (snd (start_write inherited now b))"
  by (auto simp: barrier_inv_def start_write_def write_fence_def Let_def has_active_lease_def split: if_splits option.splits)

lemma barrier_inv_finish:
  assumes "barrier_inv b" and "l \<in> b_leases b"
  shows "barrier_inv (finish_write l b)"
proof -
  from assms have "card (b_leases b - {l}) = b_active_writes b - 1" and "b_active_writes b > 0"
    by (auto simp: barrier_inv_def card_gt_0_iff)
  with assms show ?thesis by (auto simp: barrier_inv_def finish_write_def Let_def)
qed

lemma barrier_inv_promote: "barrier_inv b \<Longrightarrow> barrier_inv (snd (begin_promotion p now b))"
  by (auto simp: barrier_inv_def begin_promotion_def Let_def split: if_splits)

lemma barrier_inv_timeout: "barrier_inv b \<Longrightarrow> barrier_inv (drain_timeout p b)"
  by (auto simp: barrier_inv_def drain_timeout_def)

lemma barrier_inv_step: "barrier_step b b' \<Longrightarrow> barrier_inv b \<Longrightarrow> barrier_inv b'"
proof (induction rule: barrier_step.induct)
  case (finished b)
  then show ?case by (simp add: barrier_inv_def end_promotion_def)
next
  case (config c b)
  then show ?case by (simp add: barrier_inv_def)
qed (auto intro: barrier_inv_start barrier_inv_finish barrier_inv_promote barrier_inv_timeout)

lemma barrier_inv_steps: "barrier_step\<^sup>*\<^sup>* b b' \<Longrightarrow> barrier_inv b \<Longrightarrow> barrier_inv b'"
  by (induction rule: rtranclp_induct) (auto intro: barrier_inv_step)

lemma promotion_fence_refuses:
  assumes "h_fenced_for_promotion (b_cfg b)" and "b_leases b = {}"
  shows "\<exists>e. start_write inherited now b = (Inl e, b)"
  using assms by (auto simp: start_write_def write_fence_def split: option.splits)

lemma finish_write_drains:
  assumes "barrier_inv b" and "l \<in> b_leases b" and "p \<in> drain_waiters b"
  shows "if b_leases b = {l} then p \<in> drained (finish_write l b) else p \<in> drain_waiters (finish_write l b)"
proof -
  have c: "b_active_writes b = card (b_leases b)" "finite (b_leases b)" using assms(1) by (auto simp: barrier_inv_def)
  show ?thesis
  proof (cases "b_leases b = {l}")
    case True
    then show ?thesis using assms c by (simp add: finish_write_def Let_def)
  next
    case False
    with assms(2) have "b_leases b - {l} \<noteq> {}" by auto
    then have "0 < card (b_leases b - {l})" using c(2) by (simp add: card_gt_0_iff)
    with False assms c show ?thesis by (simp add: finish_write_def Let_def)
  qed
qed

lemma leases_finish_write [simp]: "b_leases (finish_write l b) = b_leases b - {l}"
  by (simp add: finish_write_def Let_def)

lemma all_writes_finish:
  assumes "barrier_inv b" and "distinct ls" and "set ls = b_leases b" and "ls \<noteq> []" and "p \<in> drain_waiters b"
  shows "p \<in> drained (fold finish_write ls b)"
  using assms
proof (induction ls arbitrary: b)
  case (Cons l ls)
  then have l: "l \<in> b_leases b" by auto
  note d = finish_write_drains [OF Cons.prems(1) l Cons.prems(5)]
  show ?case
  proof (cases "ls = []")
    case True
    with Cons.prems d show ?thesis by simp
  next
    case False
    with Cons.prems have "b_leases b \<noteq> {l}" by (cases ls) auto
    with d have "p \<in> drain_waiters (finish_write l b)" by simp
    moreover have "set ls = b_leases (finish_write l b)" using Cons.prems by auto
    ultimately show ?thesis
      using Cons.IH [of "finish_write l b"] Cons.prems barrier_inv_finish [OF Cons.prems(1) l] False by simp
  qed
qed simp

section \<open>Properties\<close>

text \<open>
  Once \<open>beginPromotion\<close> has returned, and as long as its fence is up, no configuration write
  is active and every attempt to start one, nested or not, is refused.
\<close>

theorem no_write_during_promotion:
  assumes "barrier_step\<^sup>*\<^sup>* b0 b" and "barrier_inv b0"
    and "h_fenced_for_promotion (b_cfg b)" and "p \<in> drained b"
  shows "b_active_writes b = 0 \<and> b_leases b = {} \<and> (\<exists>e. start_write inherited now b = (Inl e, b))"
proof -
  have "barrier_inv b" by (rule barrier_inv_steps [OF assms(1,2)])
  with assms(3,4) have "b_active_writes b = 0" "b_leases b = {}" by (auto simp: barrier_inv_def)
  with promotion_fence_refuses [OF assms(3)] show ?thesis by blast
qed

definition sample_barrier :: barrier where
  "sample_barrier = \<lparr>b_cfg = cfg sample_primary, b_active_writes = 0, b_leases = {}, b_next_lease = 0,
     drain_waiters = {}, drained = {}\<rparr>"

lemma sample_barrier_inv: "barrier_inv sample_barrier"
  by (simp add: barrier_inv_def sample_barrier_def)

theorem no_write_during_promotion_witness:
  "\<exists>e. start_write None 2000 (finish_write 0 (snd (begin_promotion 9 2000 (snd (start_write None 2000 sample_barrier)))))
     = (Inl e, finish_write 0 (snd (begin_promotion 9 2000 (snd (start_write None 2000 sample_barrier)))))"
proof -
  let ?b1 = "snd (start_write None 2000 sample_barrier)"
  let ?b2 = "snd (begin_promotion 9 2000 ?b1)"
  let ?b = "finish_write 0 ?b2"
  note sd = sample_barrier_def sample_primary_def sample_node_def start_write_def write_fence_def
    begin_promotion_def is_quorum_proof_stale_def finish_write_def Let_def
  have "0 \<in> b_leases ?b2" by (simp add: sd)
  then have "barrier_step\<^sup>*\<^sup>* sample_barrier ?b"
    by (meson barrier_step.start barrier_step.promote barrier_step.finish r_into_rtranclp rtranclp.rtrancl_into_rtrancl)
  moreover have "h_fenced_for_promotion (b_cfg ?b)" "9 \<in> drained ?b" by (simp_all add: sd)
  ultimately show ?thesis using no_write_during_promotion [OF _ sample_barrier_inv] by blast
qed

text \<open>
  C6: a promotion that waits is released when the writes that are active end, in whatever order:
  the drain cannot be missed.
\<close>

theorem promotion_drain_completes:
  assumes "barrier_step\<^sup>*\<^sup>* b0 b" and "barrier_inv b0" and "p \<in> drain_waiters b"
    and "distinct ls" and "set ls = b_leases b"
  shows "p \<in> drained (fold finish_write ls b)"
proof (rule all_writes_finish)
  show inv: "barrier_inv b" by (rule barrier_inv_steps [OF assms(1,2)])
  then have "0 < b_active_writes b" "b_active_writes b = card (b_leases b)"
    using assms(3) by (auto simp: barrier_inv_def)
  then show "ls \<noteq> []" using assms(5) by auto
qed (use assms in auto)

theorem promotion_drain_completes_witness:
  "9 \<in> drained (fold finish_write [1, 0]
     (snd (begin_promotion 9 2000 (snd (start_write None 2000 (snd (start_write None 2000 sample_barrier)))))))"
proof -
  let ?b1 = "snd (start_write None 2000 sample_barrier)"
  let ?b2 = "snd (start_write None 2000 ?b1)"
  let ?b = "snd (begin_promotion 9 2000 ?b2)"
  note sd = sample_barrier_def sample_primary_def sample_node_def start_write_def write_fence_def
    begin_promotion_def is_quorum_proof_stale_def Let_def
  have "barrier_step\<^sup>*\<^sup>* sample_barrier ?b"
    by (meson barrier_step.start barrier_step.promote r_into_rtranclp rtranclp.rtrancl_into_rtrancl)
  moreover have "9 \<in> drain_waiters ?b" "set [1, 0] = b_leases ?b" by (auto simp: sd)
  ultimately show ?thesis using promotion_drain_completes [OF _ sample_barrier_inv, of ?b 9 "[1, 0]"] by simp
qed

end
