(* ===== verification/Crowdsec_Store.thy ===== *)
theory Crowdsec_Store
  imports Ip_Address
begin

text \<open>
  \<open>src/src/services/crowdsec-decision-store.ts\<close>: the in-memory index of the decisions pulled from
  a CrowdSec Local API, with its duration parser, its maps by address, range, country and AS, the
  decisions parked behind a stronger one, and the request-path lookup.

  A bucket address (\<open>Location\<close>) is a datatype with one constructor per kind. Expiries are exact
  rationals, since durations carry fractions of milliseconds. A field of the feed that is not a
  string is \<^term>\<open>None\<close>; \<open>Number(raw.id)\<close> arrives as a \<^typ>\<open>jsnum\<close>. \<open>Date.parse\<close> is an
  argument. Interning of strings returns an equal string and is not modelled.
\<close>

section \<open>Data\<close>

datatype remediation = Ban | Captcha

datatype scope = IpScope | RangeScope | CountryScope | AsScope

record decision =
  d_id :: int
  d_remediation :: remediation
  d_origin :: string
  d_scenario :: string
  d_scope :: scope
  d_value :: string
  d_expires_at :: "rat option"

record raw_decision =
  rd_id :: jsnum
  rd_type :: string
  rd_scope :: string
  rd_value :: "string option"
  rd_duration :: "string option"
  rd_until :: "string option"
  rd_origin :: "string option"
  rd_scenario :: "string option"

datatype location = Ipv4 nat | Ipv6 nat | RangeV4 nat nat | RangeV6 nat nat | Country string | As nat

section \<open>Durations\<close>

text \<open>The unit at the head of a text, in the order the pattern tries them, and what follows it.\<close>

definition duration_unit :: "string \<Rightarrow> (rat \<times> string) option" where
  "duration_unit s =
     (if starts_with ''ns'' s then Some (1 / 1000000, drop 2 s)
      else if starts_with ''us'' s then Some (1 / 1000, drop 2 s)
      else if starts_with [CHR 0xB5, CHR ''s''] s then Some (1 / 1000, drop 2 s)
      else if starts_with ''ms'' s then Some (1, drop 2 s)
      else if starts_with ''s'' s then Some (1000, drop 1 s)
      else if starts_with ''m'' s then Some (60000, drop 1 s)
      else if starts_with ''h'' s then Some (3600000, drop 1 s)
      else None)"

text \<open>\<open>\d+(\.\d+)?\<close> at the head of a text.\<close>

definition duration_amount :: "string \<Rightarrow> (rat \<times> string) option" where
  "duration_amount s =
     (let ip = takeWhile is_digit s; rest = dropWhile is_digit s; fp = takeWhile is_digit (tl rest) in
      if ip = [] then None
      else if rest \<noteq> [] \<and> hd rest = CHR ''.'' \<and> fp \<noteq> []
      then Some (of_nat (digits_value 10 (ip @ fp)) / 10 ^ length fp, dropWhile is_digit (tl rest))
      else Some (of_nat (digits_value 10 ip), rest))"

text \<open>
  The matches of the pattern, which must cover the whole text: a match that does not start where
  the last one ended leaves characters unconsumed, and the text is refused.
\<close>

lemma duration_unit_shorter: "duration_unit r = Some (u, r') \<Longrightarrow> length r' \<le> length r"
  by (auto simp: duration_unit_def split: if_splits)

lemma duration_amount_shorter: "duration_amount s = Some (a, r) \<Longrightarrow> length r < length s"
proof -
  assume "duration_amount s = Some (a, r)"
  then have "takeWhile is_digit s \<noteq> []" and "length r \<le> length (dropWhile is_digit s)"
    using length_dropWhile_le [of is_digit "tl (dropWhile is_digit s)"]
    by (auto simp: duration_amount_def Let_def split: if_splits)
  moreover have "length (takeWhile is_digit s) + length (dropWhile is_digit s) = length s"
    by (metis length_append takeWhile_dropWhile_id)
  ultimately show ?thesis by (cases "takeWhile is_digit s") auto
qed

function duration_parts :: "string \<Rightarrow> rat option" where
  "duration_parts s =
     (if s = [] then Some 0
      else case duration_amount s of None \<Rightarrow> None
        | Some (a, r) \<Rightarrow> (case duration_unit r of None \<Rightarrow> None
            | Some (u, r') \<Rightarrow> (case duration_parts r' of None \<Rightarrow> None | Some t \<Rightarrow> Some (a * u + t))))"
  by pat_completeness auto

termination duration_parts
proof (relation "measure length")
  fix s ar a r ur u r'
  assume "duration_amount s = Some ar" "(a, r) = ar" "duration_unit r = Some ur" "(u, r') = ur"
  then show "(r', s) \<in> measure length"
    using duration_amount_shorter [of s a r] duration_unit_shorter [of r u r'] by auto
qed simp

declare duration_parts.simps [simp del]

definition parse_go_duration_ms :: "string \<Rightarrow> rat option" where
  "parse_go_duration_ms input =
     (let trimmed = trim input in
      if trimmed = [] then None
      else
        let negative = hd trimmed = CHR ''-'';
            body = (if negative \<or> hd trimmed = CHR ''+'' then tl trimmed else trimmed)
        in if body = [] then None
           else case duration_parts body of None \<Rightarrow> None
             | Some t \<Rightarrow> Some (if negative then - t else t))"

definition decision_expiry :: "(string \<Rightarrow> rat option) \<Rightarrow> raw_decision \<Rightarrow> time \<Rightarrow> rat option" where
  "decision_expiry date_parse raw now =
     (case Option.bind (rd_duration raw) parse_go_duration_ms of
        Some ms \<Rightarrow> Some (of_int now + ms)
      | None \<Rightarrow> Option.bind (rd_until raw) date_parse)"

section \<open>Normalisation and ranking\<close>

definition normalize_scope :: "string \<Rightarrow> scope option" where
  "normalize_scope v =
     (let s = to_lower (trim v) in
      if s = ''ip'' then Some IpScope else if s = ''range'' then Some RangeScope
      else if s = ''country'' then Some CountryScope
      else if s = ''as'' \<or> s = ''asn'' then Some AsScope else None)"

definition normalize_remediation :: "string \<Rightarrow> remediation option \<Rightarrow> remediation option" where
  "normalize_remediation v fallback =
     (let t = to_lower (trim v) in
      if t = ''ban'' then Some Ban else if t = ''captcha'' then Some Captcha else fallback)"

definition priority :: "decision \<Rightarrow> int" where
  "priority d = (case d_remediation d of Ban \<Rightarrow> 2 | Captcha \<Rightarrow> 1)"

definition outranks :: "decision \<Rightarrow> decision \<Rightarrow> bool" where
  "outranks candidate incumbent =
     (let difference = priority candidate - priority incumbent in
      if difference \<noteq> 0 then difference > 0
      else case d_expires_at candidate of None \<Rightarrow> True
        | Some e \<Rightarrow> (case d_expires_at incumbent of None \<Rightarrow> False | Some e' \<Rightarrow> e > e'))"

section \<open>Addresses\<close>

text \<open>\<open>maskIpv4\<close> on 32-bit integers: \<open>>>> 0\<close> reads the result as unsigned.\<close>

definition mask_ipv4 :: "nat \<Rightarrow> nat \<Rightarrow> nat" where
  "mask_ipv4 v p =
     (if p = 0 then 0
      else if 32 \<le> p then unat (word_of_nat v :: 32 word)
      else let s = 32 - p in unat (push_bit s (drop_bit s (word_of_nat v :: 32 word))))"

definition mask_ipv6 :: "nat \<Rightarrow> nat \<Rightarrow> nat" where
  "mask_ipv6 v p =
     (if p = 0 then 0 else if 128 \<le> p then v else let s = 128 - p in push_bit s (drop_bit s v))"

datatype numeric = NumV4 nat | NumV6 nat

definition numeric_address :: "string \<Rightarrow> numeric option" where
  "numeric_address ip =
     (case parse_ip ip of
        None \<Rightarrow> None
      | Some p \<Rightarrow>
          if ip_version p = V4 then Some (NumV4 (ip_value p))
          else if drop_bit 32 (ip_value p) = 65535 then Some (NumV4 (ip_value p AND 4294967295))
          else Some (NumV6 (ip_value p)))"

definition strip_as :: "string \<Rightarrow> string" where
  "strip_as s = (if to_lower (take 2 s) = ''as'' then drop 2 s else s)"

definition two_letters :: "string \<Rightarrow> bool" where
  "two_letters s \<longleftrightarrow> length s = 2 \<and> list_all is_upper s"

definition locate :: "scope \<Rightarrow> string \<Rightarrow> location option" where
  "locate sc value =
     (case sc of
        IpScope \<Rightarrow> (case numeric_address (trim value) of None \<Rightarrow> None
          | Some (NumV4 v) \<Rightarrow> Some (Ipv4 v) | Some (NumV6 v) \<Rightarrow> Some (Ipv6 v))
      | RangeScope \<Rightarrow> (case parse_cidr (trim value) of None \<Rightarrow> None
          | Some c \<Rightarrow>
              if cidr_version c = V4 then
                (if cidr_prefix c = 32 then Some (Ipv4 (cidr_network c))
                 else Some (RangeV4 (cidr_prefix c) (mask_ipv4 (cidr_network c) (cidr_prefix c))))
              else if cidr_prefix c = 128 then Some (Ipv6 (cidr_network c))
              else Some (RangeV6 (cidr_prefix c) (mask_ipv6 (cidr_network c) (cidr_prefix c))))
      | CountryScope \<Rightarrow> (let code = to_upper (trim value) in if two_letters code then Some (Country code) else None)
      | AsScope \<Rightarrow> (case js_safe_integer (js_number (strip_as (trim value))) of None \<Rightarrow> None
          | Some a \<Rightarrow> if a \<le> 0 then None else Some (As (nat a))))"

fun shadow_key :: "location \<Rightarrow> string" where
  "shadow_key (Ipv4 v) = ''4:'' @ nat_text v"
| "shadow_key (Ipv6 v) = ''6:'' @ to_base 16 v"
| "shadow_key (RangeV4 p v) = ''r4:'' @ nat_text p @ '':'' @ nat_text v"
| "shadow_key (RangeV6 p v) = ''r6:'' @ nat_text p @ '':'' @ to_base 16 v"
| "shadow_key (Country c) = ''c:'' @ c"
| "shadow_key (As a) = ''a:'' @ nat_text a"

section \<open>The maps\<close>

record store =
  ipv4 :: "(nat, decision) omap"
  ipv6 :: "(nat, decision) omap"
  ranges_v4 :: "(nat, (nat, decision) omap) omap"
  ranges_v6 :: "(nat, (nat, decision) omap) omap"
  prefixes_v4 :: "nat list"
  prefixes_v6 :: "nat list"
  countries :: "(string, decision) omap"
  asns :: "(nat, decision) omap"
  shadowed :: "(string, decision list) omap"

definition empty_store :: store where
  "empty_store = \<lparr>ipv4 = [], ipv6 = [], ranges_v4 = [], ranges_v6 = [], prefixes_v4 = [], prefixes_v6 = [],
     countries = [], asns = [], shadowed = []\<rparr>"

definition longest_first :: "(nat, 'v) omap \<Rightarrow> nat list" where
  "longest_first m = rev (sort (om_keys m))"

text \<open>One family of range buckets with its prefix list: reading, writing, erasing.\<close>

definition bucket_read :: "(nat, (nat, decision) omap) omap \<Rightarrow> nat \<Rightarrow> nat \<Rightarrow> decision option" where
  "bucket_read m p v = (case om_get m p of None \<Rightarrow> None | Some b \<Rightarrow> om_get b v)"

definition bucket_write ::
  "nat \<Rightarrow> nat \<Rightarrow> decision \<Rightarrow> (nat, (nat, decision) omap) omap \<times> nat list \<Rightarrow> (nat, (nat, decision) omap) omap \<times> nat list" where
  "bucket_write p v d mp =
     (let (m, ps) = mp in
      case om_get m p of
        None \<Rightarrow> let m' = om_set p (om_set v d []) m in (m', longest_first m')
      | Some b \<Rightarrow> (om_set p (om_set v d b) m, ps))"

definition bucket_erase ::
  "nat \<Rightarrow> nat \<Rightarrow> (nat, (nat, decision) omap) omap \<times> nat list \<Rightarrow> (nat, (nat, decision) omap) omap \<times> nat list" where
  "bucket_erase p v mp =
     (let (m, ps) = mp in
      case om_get m p of
        None \<Rightarrow> (m, ps)
      | Some b \<Rightarrow>
          let b' = om_delete v b in
          if b' = [] then let m' = om_delete p m in (m', longest_first m')
          else (om_set p b' m, ps))"

fun read_at :: "store \<Rightarrow> location \<Rightarrow> decision option" where
  "read_at s (Ipv4 v) = om_get (ipv4 s) v"
| "read_at s (Ipv6 v) = om_get (ipv6 s) v"
| "read_at s (RangeV4 p v) = bucket_read (ranges_v4 s) p v"
| "read_at s (RangeV6 p v) = bucket_read (ranges_v6 s) p v"
| "read_at s (Country c) = om_get (countries s) c"
| "read_at s (As a) = om_get (asns s) a"

fun write_at :: "location \<Rightarrow> decision \<Rightarrow> store \<Rightarrow> store" where
  "write_at (Ipv4 v) d s = s\<lparr>ipv4 := om_set v d (ipv4 s)\<rparr>"
| "write_at (Ipv6 v) d s = s\<lparr>ipv6 := om_set v d (ipv6 s)\<rparr>"
| "write_at (RangeV4 p v) d s =
     (let (m, ps) = bucket_write p v d (ranges_v4 s, prefixes_v4 s) in s\<lparr>ranges_v4 := m, prefixes_v4 := ps\<rparr>)"
| "write_at (RangeV6 p v) d s =
     (let (m, ps) = bucket_write p v d (ranges_v6 s, prefixes_v6 s) in s\<lparr>ranges_v6 := m, prefixes_v6 := ps\<rparr>)"
| "write_at (Country c) d s = s\<lparr>countries := om_set c d (countries s)\<rparr>"
| "write_at (As a) d s = s\<lparr>asns := om_set a d (asns s)\<rparr>"

fun erase_at :: "location \<Rightarrow> store \<Rightarrow> store" where
  "erase_at (Ipv4 v) s = s\<lparr>ipv4 := om_delete v (ipv4 s)\<rparr>"
| "erase_at (Ipv6 v) s = s\<lparr>ipv6 := om_delete v (ipv6 s)\<rparr>"
| "erase_at (RangeV4 p v) s =
     (let (m, ps) = bucket_erase p v (ranges_v4 s, prefixes_v4 s) in s\<lparr>ranges_v4 := m, prefixes_v4 := ps\<rparr>)"
| "erase_at (RangeV6 p v) s =
     (let (m, ps) = bucket_erase p v (ranges_v6 s, prefixes_v6 s) in s\<lparr>ranges_v6 := m, prefixes_v6 := ps\<rparr>)"
| "erase_at (Country c) s = s\<lparr>countries := om_delete c (countries s)\<rparr>"
| "erase_at (As a) s = s\<lparr>asns := om_delete a (asns s)\<rparr>"

definition store_empty :: "store \<Rightarrow> bool" where
  "store_empty s \<longleftrightarrow> ipv4 s = [] \<and> ipv6 s = [] \<and> prefixes_v4 s = [] \<and> prefixes_v6 s = [] \<and> countries s = [] \<and> asns s = []"

section \<open>Operations\<close>

definition materialize ::
  "(string \<Rightarrow> rat option) \<Rightarrow> raw_decision \<Rightarrow> time \<Rightarrow> remediation option \<Rightarrow> decision option" where
  "materialize date_parse raw now fallback =
     (case (normalize_scope (rd_scope raw), normalize_remediation (rd_type raw) fallback) of
        (Some sc, Some rem) \<Rightarrow>
          let value = (case rd_value raw of None \<Rightarrow> [] | Some v \<Rightarrow> trim v);
              expires = decision_expiry date_parse raw now
          in if value = [] then None
             else if (case expires of None \<Rightarrow> False | Some e \<Rightarrow> e \<le> of_int now) then None
             else Some \<lparr>d_id = (case js_safe_integer (rd_id raw) of None \<Rightarrow> -1 | Some i \<Rightarrow> i),
                        d_remediation = rem,
                        d_origin = (case rd_origin raw of None \<Rightarrow> ''unknown'' | Some g \<Rightarrow> if g = [] then ''unknown'' else g),
                        d_scenario = (case rd_scenario raw of None \<Rightarrow> [] | Some g \<Rightarrow> g),
                        d_scope = sc, d_value = value, d_expires_at = expires\<rparr>
      | _ \<Rightarrow> None)"

definition parked :: "store \<Rightarrow> location \<Rightarrow> decision list" where
  "parked s l = (case om_get (shadowed s) (shadow_key l) of None \<Rightarrow> [] | Some ds \<Rightarrow> ds)"

definition set_parked :: "location \<Rightarrow> decision list \<Rightarrow> store \<Rightarrow> store" where
  "set_parked l ds s = s\<lparr>shadowed :=
     (if ds = [] then om_delete (shadow_key l) (shadowed s) else om_set (shadow_key l) ds (shadowed s))\<rparr>"

definition insert_decision :: "decision \<Rightarrow> store \<Rightarrow> bool \<times> store" where
  "insert_decision d s =
     (case locate (d_scope d) (d_value d) of
        None \<Rightarrow> (False, s)
      | Some l \<Rightarrow>
          (case read_at s l of
             None \<Rightarrow> (True, write_at l d s)
           | Some existing \<Rightarrow>
               if d_id existing = d_id d then (True, write_at l d s)
               else
                 let rest = filter (\<lambda>e. d_id e \<noteq> d_id d) (parked s l) in
                 if outranks d existing
                 then (True, set_parked l (rest @ [existing]) (write_at l d s))
                 else (True, set_parked l (rest @ [d]) s)))"

text \<open>The loop that picks the strongest parked decision.\<close>

definition strongest :: "decision list \<Rightarrow> decision" where
  "strongest ds = foldl (\<lambda>best c. if outranks c best then c else best) (hd ds) ds"

definition remove :: "scope \<Rightarrow> string \<Rightarrow> int \<Rightarrow> store \<Rightarrow> store" where
  "remove sc value i s =
     (case locate sc value of
        None \<Rightarrow> s
      | Some l \<Rightarrow>
          (case read_at s l of
             Some existing \<Rightarrow>
               if d_id existing = i then
                 (if parked s l \<noteq> [] then
                    let best = strongest (parked s l) in
                    set_parked l (filter (\<lambda>e. d_id e \<noteq> d_id best) (parked s l)) (write_at l best s)
                  else erase_at l s)
               else set_parked l (filter (\<lambda>e. d_id e \<noteq> i) (parked s l)) s
           | None \<Rightarrow> set_parked l (filter (\<lambda>e. d_id e \<noteq> i) (parked s l)) s))"

fun insert_all ::
  "(string \<Rightarrow> rat option) \<Rightarrow> time \<Rightarrow> remediation option \<Rightarrow> raw_decision list \<Rightarrow> nat \<times> store \<Rightarrow> nat \<times> store" where
  "insert_all dp now fb [] acc = acc"
| "insert_all dp now fb (r # rs) (k, s) =
     (case materialize dp r now fb of
        None \<Rightarrow> insert_all dp now fb rs (k, s)
      | Some d \<Rightarrow> let (ok, s') = insert_decision d s in insert_all dp now fb rs (if ok then k + 1 else k, s'))"

definition apply_snapshot ::
  "(string \<Rightarrow> rat option) \<Rightarrow> time \<Rightarrow> remediation option \<Rightarrow> raw_decision list \<Rightarrow> store \<Rightarrow> nat \<times> store" where
  "apply_snapshot dp now fb rs s = insert_all dp now fb rs (0, empty_store)"

fun remove_all :: "raw_decision list \<Rightarrow> nat \<times> store \<Rightarrow> nat \<times> store" where
  "remove_all [] acc = acc"
| "remove_all (r # rs) (k, s) =
     (let value = (case rd_value r of None \<Rightarrow> [] | Some v \<Rightarrow> trim v) in
      case normalize_scope (rd_scope r) of
        None \<Rightarrow> remove_all rs (k, s)
      | Some sc \<Rightarrow>
          if value = [] then remove_all rs (k, s)
          else remove_all rs (k + 1, remove sc value (case js_safe_integer (rd_id r) of None \<Rightarrow> -1 | Some i \<Rightarrow> i) s))"

definition apply_delta ::
  "(string \<Rightarrow> rat option) \<Rightarrow> time \<Rightarrow> remediation option \<Rightarrow> raw_decision list \<Rightarrow> raw_decision list \<Rightarrow> store
   \<Rightarrow> (nat \<times> nat) \<times> store" where
  "apply_delta dp now fb added deleted s =
     (let (removed, s1) = remove_all deleted (0, s); (inserted, s2) = insert_all dp now fb added (0, s1)
      in ((inserted, removed), s2))"

definition in_force :: "decision \<Rightarrow> time \<Rightarrow> bool" where
  "in_force d now = (case d_expires_at d of None \<Rightarrow> True | Some e \<Rightarrow> e > of_int now)"

definition live :: "decision \<Rightarrow> location \<Rightarrow> time \<Rightarrow> store \<Rightarrow> decision option \<times> store" where
  "live d l now s =
     (if in_force d now then (Some d, s)
      else let s' = remove (d_scope d) (d_value d) (d_id d) s in
        (case read_at s' l of None \<Rightarrow> (None, s')
         | Some p \<Rightarrow> if in_force p now then (Some p, s') else (None, s')))"

text \<open>The places a lookup tries, in turn, until one holds a decision in force.\<close>

fun probe :: "location list \<Rightarrow> time \<Rightarrow> store \<Rightarrow> decision option \<times> store" where
  "probe [] now s = (None, s)"
| "probe (l # ls) now s =
     (case read_at s l of
        None \<Rightarrow> probe ls now s
      | Some d \<Rightarrow> (case live d l now s of
            (Some x, s') \<Rightarrow> (Some x, s')
          | (None, s') \<Rightarrow> probe ls now s'))"

definition address_places :: "string \<Rightarrow> store \<Rightarrow> location list" where
  "address_places ip s =
     (if ip = ''unknown'' then []
      else case numeric_address ip of
        None \<Rightarrow> []
      | Some (NumV4 v) \<Rightarrow> Ipv4 v # map (\<lambda>p. RangeV4 p (mask_ipv4 v p)) (prefixes_v4 s)
      | Some (NumV6 v) \<Rightarrow> Ipv6 v # map (\<lambda>p. RangeV6 p (mask_ipv6 v p)) (prefixes_v6 s))"

definition places :: "string \<Rightarrow> string option \<Rightarrow> nat option \<Rightarrow> store \<Rightarrow> location list" where
  "places ip country asn s = address_places ip s
     @ (case asn of None \<Rightarrow> [] | Some a \<Rightarrow> [As a])
     @ (case country of None \<Rightarrow> [] | Some c \<Rightarrow> if c = [] then [] else [Country (to_upper c)])"

definition lookup :: "string \<Rightarrow> string option \<Rightarrow> nat option \<Rightarrow> time \<Rightarrow> store \<Rightarrow> decision option \<times> store" where
  "lookup ip country asn now s =
     (if store_empty s then (None, s) else probe (places ip country asn s) now s)"

definition visible :: "store \<Rightarrow> decision list" where
  "visible s = om_values (ipv4 s) @ om_values (ipv6 s)
     @ concat (map om_values (om_values (ranges_v4 s))) @ concat (map om_values (om_values (ranges_v6 s)))
     @ om_values (countries s) @ om_values (asns s)"

definition export :: "store \<Rightarrow> decision list" where
  "export s = visible s @ concat (om_values (shadowed s))"

definition sweep_expired :: "time \<Rightarrow> store \<Rightarrow> nat \<times> store" where
  "sweep_expired now s =
     (let expired = filter (\<lambda>d. \<not> in_force d now) (export s) in
      (length expired, fold (\<lambda>d. remove (d_scope d) (d_value d) (d_id d)) expired s))"

record store_stats =
  st_total :: nat
  st_by_scope :: "scope \<Rightarrow> nat"
  st_by_remediation :: "remediation \<Rightarrow> nat"
  st_by_origin :: "string \<Rightarrow> nat"

definition stats :: "store \<Rightarrow> store_stats" where
  "stats s = \<lparr>st_total = length (visible s),
     st_by_scope = (\<lambda>sc. length (filter (\<lambda>d. d_scope d = sc) (visible s))),
     st_by_remediation = (\<lambda>r. length (filter (\<lambda>d. d_remediation d = r) (visible s))),
     st_by_origin = (\<lambda>g. length (filter (\<lambda>d. d_origin d = g) (visible s)))\<rparr>"

definition clear :: "store \<Rightarrow> store" where
  "clear s = empty_store"

section \<open>The index is a keyed store\<close>

definition bucket_inv :: "(nat, (nat, decision) omap) omap \<times> nat list \<Rightarrow> bool" where
  "bucket_inv mp \<longleftrightarrow> om_inv (fst mp) \<and> (\<forall>p b. om_get (fst mp) p = Some b \<longrightarrow> om_inv b \<and> b \<noteq> [])
     \<and> snd mp = longest_first (fst mp)"

definition index_inv :: "store \<Rightarrow> bool" where
  "index_inv s \<longleftrightarrow> om_inv (ipv4 s) \<and> om_inv (ipv6 s) \<and> bucket_inv (ranges_v4 s, prefixes_v4 s)
     \<and> bucket_inv (ranges_v6 s, prefixes_v6 s) \<and> om_inv (countries s) \<and> om_inv (asns s)"

lemma om_keys_set_present: "om_get m k \<noteq> None \<Longrightarrow> om_keys (om_set k v m) = om_keys m"
  by (induction k v m rule: om_set.induct) (auto simp: om_keys_def om_get_def split: if_splits)

lemma om_set_not_Nil [simp]: "om_set k v m \<noteq> []"
  by (cases "(k, v, m)" rule: om_set.cases) auto

lemma om_inv_singleton: "om_inv [(k, v)]"
  by (simp add: om_inv_def om_keys_def)

lemma bucket_write_inv: "bucket_inv mp \<Longrightarrow> bucket_inv (bucket_write p v d mp)"
  by (auto simp: bucket_inv_def bucket_write_def Let_def split_beta om_inv_set om_get_set om_keys_set_present
      om_inv_singleton longest_first_def split: option.splits if_splits)

lemma bucket_erase_inv: "bucket_inv mp \<Longrightarrow> bucket_inv (bucket_erase p v mp)"
  by (auto simp: bucket_inv_def bucket_erase_def Let_def split_beta om_inv_set om_inv_delete om_get_set
      om_get_delete om_keys_set_present longest_first_def split: option.splits if_splits)

lemma bucket_read_write:
  "bucket_read (fst (bucket_write p v d mp)) p' v' = (if p' = p \<and> v' = v then Some d else bucket_read (fst mp) p' v')"
  by (auto simp: bucket_read_def bucket_write_def Let_def split_beta om_get_set split: option.splits)
    (auto simp: om_get_def)

lemma bucket_read_erase:
  assumes "bucket_inv mp"
  shows "bucket_read (fst (bucket_erase p v mp)) p' v' = (if p' = p \<and> v' = v then None else bucket_read (fst mp) p' v')"
proof (cases "om_get (fst mp) p")
  case None
  then show ?thesis by (auto simp: bucket_read_def bucket_erase_def Let_def split_beta)
next
  case (Some b)
  have "om_get b v' = None" if "om_delete v b = []" "v' \<noteq> v" for v'
    using om_get_delete [of v b] that by (metis fun_upd_other om_get_def map_of.simps(1))
  with Some show ?thesis
    by (auto simp: bucket_read_def bucket_erase_def Let_def split_beta om_get_set om_get_delete split: option.splits)
qed

lemma index_inv_write: "index_inv s \<Longrightarrow> index_inv (write_at l d s)"
  by (cases l) (auto simp: index_inv_def om_inv_set split_beta Let_def bucket_write_inv)

lemma index_inv_erase: "index_inv s \<Longrightarrow> index_inv (erase_at l s)"
  by (cases l) (auto simp: index_inv_def om_inv_delete split_beta Let_def bucket_erase_inv)

lemma read_write: "read_at (write_at l d s) l' = (if l' = l then Some d else read_at s l')"
  by (cases l; cases l') (auto simp: om_get_set split_beta Let_def bucket_read_write)

lemma read_erase: "index_inv s \<Longrightarrow> read_at (erase_at l s) l' = (if l' = l then None else read_at s l')"
  by (cases l; cases l') (auto simp: index_inv_def om_get_delete split_beta Let_def bucket_read_erase)

interpretation ix: keyed_store index_inv read_at write_at erase_at
  by unfold_locales (rule index_inv_write index_inv_erase read_write read_erase; assumption)+

lemma index_inv_empty: "index_inv empty_store"
  by (simp add: index_inv_def empty_store_def bucket_inv_def om_inv_def om_keys_def om_get_def longest_first_def)

section \<open>Keys of the parked decisions\<close>

lemma append_sep_inj:
  "d \<notin> set a \<Longrightarrow> d \<notin> set b \<Longrightarrow> a @ d # x = b @ d # y \<longleftrightarrow> a = b \<and> x = y"
proof (induction a arbitrary: b)
  case (Cons c a)
  then show ?case by (cases b) auto
qed (auto simp: Cons_eq_append_conv)

lemma nat_text_inj: "nat_text m = nat_text n \<longleftrightarrow> m = n"
  by (metis digits_value_nat_text)

lemma digits_value_hex: "digits_value 16 (to_base 16 n) = n"
  by (rule digits_value_to_base) simp_all

lemma hex_text_inj: "to_base 16 m = to_base 16 n \<longleftrightarrow> m = n"
  by (metis digits_value_hex)

lemma no_colon: "CHR '':'' \<notin> set (nat_text n)"
  using nat_text_digit [of "CHR '':''" n] by (auto simp: is_digit_def)

lemma shadow_key_inj: "shadow_key l = shadow_key l' \<longleftrightarrow> l = l'"
  by (cases l; cases l') (auto simp: nat_text_inj hex_text_inj append_sep_inj no_colon)

lemma parked_write [simp]: "parked (write_at l d s) l' = parked s l'"
  by (cases l) (simp_all add: parked_def split_beta Let_def)

lemma parked_erase [simp]: "parked (erase_at l s) l' = parked s l'"
  by (cases l) (simp_all add: parked_def split_beta Let_def)

lemma read_set_parked [simp]: "read_at (set_parked l ds s) l' = read_at s l'"
  by (cases l') (simp_all add: set_parked_def)

lemma index_set_parked [simp]: "index_inv (set_parked l ds s) = index_inv s"
  by (simp add: set_parked_def index_inv_def)

lemma parked_set_parked: "parked (set_parked l ds s) l' = (if l' = l then ds else parked s l')"
  by (auto simp: parked_def set_parked_def om_get_set om_get_delete shadow_key_inj)

section \<open>What is held at a place\<close>

text \<open>The visible decision of a place, then the ones parked behind it.\<close>

definition held :: "store \<Rightarrow> location \<Rightarrow> decision list" where
  "held s l = (case read_at s l of None \<Rightarrow> [] | Some d \<Rightarrow> [d]) @ parked s l"

definition shadow_ok :: "store \<Rightarrow> bool" where
  "shadow_ok s \<longleftrightarrow> om_inv (shadowed s) \<and> (\<forall>k \<in> set (om_keys (shadowed s)). \<exists>l. k = shadow_key l)"

definition store_inv :: "store \<Rightarrow> bool" where
  "store_inv s \<longleftrightarrow> index_inv s \<and> shadow_ok s
     \<and> (\<forall>l. (read_at s l = None \<longrightarrow> parked s l = []) \<and> distinct (map d_id (held s l))
          \<and> (\<forall>d \<in> set (held s l). locate (d_scope d) (d_value d) = Some l))"

lemma store_invD:
  assumes "store_inv s"
  shows "index_inv s" and "read_at s l = None \<Longrightarrow> parked s l = []" and "distinct (map d_id (held s l))"
    and "d \<in> set (held s l) \<Longrightarrow> locate (d_scope d) (d_value d) = Some l" and "shadow_ok s"
  using assms by (auto simp: store_inv_def)

lemma shadowed_write [simp]: "shadowed (write_at l d s) = shadowed s" "shadowed (erase_at l s) = shadowed s"
  by (cases l; simp add: split_beta Let_def)+

lemma shadow_ok_set_parked: "shadow_ok s \<Longrightarrow> shadow_ok (set_parked l ds s)"
  by (auto simp: shadow_ok_def set_parked_def om_inv_set om_inv_delete om_keys_set om_keys_delete)

lemma shadow_ok_write [simp]: "shadow_ok (write_at l d s) = shadow_ok s" "shadow_ok (erase_at l s) = shadow_ok s"
  by (simp_all add: shadow_ok_def)

text \<open>An operation that changes one place keeps the invariant when that place stays in order.\<close>

lemma store_inv_local:
  assumes "store_inv s" and "index_inv s'" and "shadow_ok s'"
    and "\<And>l'. l' \<noteq> l \<Longrightarrow> read_at s' l' = read_at s l' \<and> parked s' l' = parked s l'"
    and "read_at s' l = None \<longrightarrow> parked s' l = []" and "distinct (map d_id (held s' l))"
    and "\<forall>d \<in> set (held s' l). locate (d_scope d) (d_value d) = Some l"
  shows "store_inv s'"
proof -
  have "(read_at s' l' = None \<longrightarrow> parked s' l' = []) \<and> distinct (map d_id (held s' l'))
      \<and> (\<forall>d \<in> set (held s' l'). locate (d_scope d) (d_value d) = Some l')" for l'
  proof (cases "l' = l")
    case False
    with assms(4) have "held s' l' = held s l'" "read_at s' l' = read_at s l'" "parked s' l' = parked s l'"
      by (auto simp: held_def)
    with assms(1) show ?thesis by (simp add: store_inv_def)
  qed (use assms in simp)
  with assms(2,3) show ?thesis by (simp add: store_inv_def)
qed

lemma store_inv_empty: "store_inv empty_store"
proof -
  have "read_at empty_store l = None \<and> parked empty_store l = []" for l
    by (cases l) (auto simp: empty_store_def om_get_def bucket_read_def parked_def)
  then show ?thesis
    using index_inv_empty by (auto simp: store_inv_def held_def) (auto simp: shadow_ok_def empty_store_def om_inv_def om_keys_def)
qed

lemma strongest_mem: "ds \<noteq> [] \<Longrightarrow> strongest ds \<in> set ds"
proof -
  have "foldl (\<lambda>b c. if outranks c b then c else b) a ds \<in> insert a (set ds)" for a
    by (induction ds arbitrary: a) (simp_all, blast)
  from this [of "hd ds"] show "ds \<noteq> [] \<Longrightarrow> strongest ds \<in> set ds" by (auto simp: strongest_def)
qed

lemma set_filter_id:
  "distinct (map d_id ds) \<Longrightarrow> b \<in> set ds \<Longrightarrow> set (filter (\<lambda>e. d_id e \<noteq> d_id b) ds) = set ds - {b}"
  by (auto simp: distinct_map dest: inj_onD)

lemma remove_effect:
  fixes i :: int
  assumes inv: "store_inv s" and loc: "locate sc v = Some l"
  defines "s' \<equiv> remove sc v i s"
  shows "store_inv s'" and "set (held s' l) = {d \<in> set (held s l). d_id d \<noteq> i}"
    and "l' \<noteq> l \<Longrightarrow> held s' l' = held s l'"
proof -
  note I = store_invD [OF inv]
  have fr: "read_at s' l' = read_at s l' \<and> parked s' l' = parked s l'" if "l' \<noteq> l" for l'
    using that loc I(1)
    by (auto simp: s'_def remove_def Let_def parked_set_parked read_write read_erase split: option.splits)
  then show "l' \<noteq> l \<Longrightarrow> held s' l' = held s l'" by (simp add: held_def)
  have idx: "index_inv s'" using I(1) loc
    by (auto simp: s'_def remove_def Let_def index_inv_write index_inv_erase split: option.splits)
  have shd: "shadow_ok s'" using I(5) loc
    by (auto simp: s'_def remove_def Let_def shadow_ok_set_parked split: option.splits)
  have key: "(read_at s' l = None \<longrightarrow> parked s' l = []) \<and> distinct (map d_id (held s' l))
      \<and> set (held s' l) = {d \<in> set (held s l). d_id d \<noteq> i}"
  proof (cases "read_at s l")
    case None
    with I(2) [of l] loc show ?thesis by (simp add: s'_def remove_def held_def parked_set_parked)
  next
    case (Some e)
    have dist: "distinct (map d_id (e # parked s l))" using I(3) [of l] Some by (simp add: held_def)
    show ?thesis
    proof (cases "d_id e = i")
      case False
      with Some loc dist show ?thesis
        by (auto simp: s'_def remove_def held_def parked_set_parked distinct_map_filter)
    next
      case True
      show ?thesis
      proof (cases "parked s l = []")
        case True
        with \<open>d_id e = i\<close> Some loc I(1) show ?thesis by (simp add: s'_def remove_def held_def read_erase)
      next
        case False
        let ?b = "strongest (parked s l)"
        have b: "?b \<in> set (parked s l)" by (rule strongest_mem [OF False])
        have dp: "distinct (map d_id (parked s l))" using dist by simp
        have "held s' l = ?b # filter (\<lambda>d. d_id d \<noteq> d_id ?b) (parked s l)"
          using False True Some loc by (simp add: s'_def remove_def held_def Let_def parked_set_parked read_write)
        moreover have "set (?b # filter (\<lambda>d. d_id d \<noteq> d_id ?b) (parked s l)) = set (parked s l)"
          using set_filter_id [OF dp b] b by auto
        moreover have "{d \<in> set (held s l). d_id d \<noteq> i} = set (parked s l)"
          using Some True dist by (auto simp: held_def) (metis image_eqI)
        moreover have "read_at s' l = Some ?b"
          using False True Some loc by (simp add: s'_def remove_def Let_def read_write)
        moreover have "distinct (map d_id (?b # filter (\<lambda>d. d_id d \<noteq> d_id ?b) (parked s l)))"
          using dp by (simp add: distinct_map_filter) auto
        ultimately show ?thesis by simp
      qed
    qed
  qed
  then show "set (held s' l) = {d \<in> set (held s l). d_id d \<noteq> i}" by blast
  show "store_inv s'"
    by (rule store_inv_local [OF inv idx shd fr]) (use key I(4) in auto)
qed

lemma insert_effect:
  assumes inv: "store_inv s" and loc: "locate (d_scope d) (d_value d) = Some l"
  defines "s' \<equiv> snd (insert_decision d s)"
  shows "store_inv s'" and "set (held s' l) = insert d {e \<in> set (held s l). d_id e \<noteq> d_id d}"
    and "l' \<noteq> l \<Longrightarrow> held s' l' = held s l'"
proof -
  note I = store_invD [OF inv]
  have fr: "read_at s' l' = read_at s l' \<and> parked s' l' = parked s l'" if "l' \<noteq> l" for l'
    using that loc
    by (auto simp: s'_def insert_decision_def Let_def parked_set_parked read_write split: option.splits)
  then show "l' \<noteq> l \<Longrightarrow> held s' l' = held s l'" by (simp add: held_def)
  have idx: "index_inv s'" using I(1) loc
    by (auto simp: s'_def insert_decision_def Let_def index_inv_write split: option.splits)
  have shd: "shadow_ok s'" using I(5) loc
    by (auto simp: s'_def insert_decision_def Let_def shadow_ok_set_parked split: option.splits)
  have key: "read_at s' l \<noteq> None \<and> distinct (map d_id (held s' l))
      \<and> set (held s' l) = insert d {e \<in> set (held s l). d_id e \<noteq> d_id d}"
  proof (cases "read_at s l")
    case None
    with I(2) [of l] loc show ?thesis by (simp add: s'_def insert_decision_def held_def read_write)
  next
    case (Some e)
    have dist: "distinct (map d_id (e # parked s l))" using I(3) [of l] Some by (simp add: held_def)
    show ?thesis
    proof (cases "d_id e = d_id d")
      case True
      with Some loc dist have "held s' l = d # parked s l" "read_at s' l = Some d"
          "d_id d \<notin> d_id ` set (parked s l)" "distinct (map d_id (parked s l))"
        by (auto simp: s'_def insert_decision_def held_def read_write)
      moreover from this have "{x \<in> set (held s l). d_id x \<noteq> d_id d} = set (parked s l)"
        using Some True by (auto simp: held_def) (metis image_eqI)
      ultimately show ?thesis by simp
    next
      case False
      with Some loc dist show ?thesis
        by (auto simp: s'_def insert_decision_def held_def Let_def parked_set_parked read_write distinct_map_filter)
    qed
  qed
  then show "set (held s' l) = insert d {e \<in> set (held s l). d_id e \<noteq> d_id d}" by blast
  show "store_inv s'"
    by (rule store_inv_local [OF inv idx shd fr]) (use key loc I(4) in auto)
qed


section \<open>Everything the store holds\<close>

lemma om_values_mem: "om_inv m \<Longrightarrow> d \<in> set (om_values m) \<longleftrightarrow> (\<exists>k. om_get m k = Some d)"
  by (auto simp: om_values_def om_get_def om_inv_def om_keys_def) (metis map_of_SomeD snd_conv image_eqI)+

lemma bucket_values_mem:
  assumes "bucket_inv (m, ps)"
  shows "d \<in> set (concat (map om_values (om_values m))) \<longleftrightarrow> (\<exists>p v. bucket_read m p v = Some d)"
proof
  assume "d \<in> set (concat (map om_values (om_values m)))"
  then obtain b where "b \<in> set (om_values m)" "d \<in> set (om_values b)" by auto
  with assms obtain p v where "om_get m p = Some b" "om_get b v = Some d"
    by (auto simp: bucket_inv_def om_values_mem)
  then have "bucket_read m p v = Some d" by (simp add: bucket_read_def)
  then show "\<exists>p v. bucket_read m p v = Some d" by blast
next
  assume "\<exists>p v. bucket_read m p v = Some d"
  then obtain p v b where "om_get m p = Some b" "om_get b v = Some d"
    by (auto simp: bucket_read_def split: option.splits)
  with assms have "b \<in> set (om_values m)" "d \<in> set (om_values b)"
    by (auto simp: bucket_inv_def om_values_mem)
  then show "d \<in> set (concat (map om_values (om_values m)))" by auto
qed

lemma visible_mem:
  assumes "index_inv s"
  shows "d \<in> set (visible s) \<longleftrightarrow> (\<exists>l. read_at s l = Some d)"
proof -
  have "(\<exists>l. read_at s l = Some d) \<longleftrightarrow>
      (\<exists>v. read_at s (Ipv4 v) = Some d) \<or> (\<exists>v. read_at s (Ipv6 v) = Some d)
      \<or> (\<exists>p v. read_at s (RangeV4 p v) = Some d) \<or> (\<exists>p v. read_at s (RangeV6 p v) = Some d)
      \<or> (\<exists>c. read_at s (Country c) = Some d) \<or> (\<exists>a. read_at s (As a) = Some d)"
    by (metis location.exhaust)
  with assms bucket_values_mem [of "ranges_v4 s" "prefixes_v4 s" d] bucket_values_mem [of "ranges_v6 s" "prefixes_v6 s" d]
  show ?thesis by (simp add: visible_def index_inv_def om_values_mem del: set_concat)
qed

lemma parked_mem:
  assumes "shadow_ok s"
  shows "d \<in> set (concat (om_values (shadowed s))) \<longleftrightarrow> (\<exists>l. d \<in> set (parked s l))"
proof
  assume "d \<in> set (concat (om_values (shadowed s)))"
  then obtain ds where "ds \<in> set (om_values (shadowed s))" "d \<in> set ds" by auto
  with assms obtain k where k: "om_get (shadowed s) k = Some ds" by (auto simp: shadow_ok_def om_values_mem)
  then have "k \<in> set (om_keys (shadowed s))" using om_get_None_iff [of "shadowed s" k] by auto
  with assms obtain l where "k = shadow_key l" by (auto simp: shadow_ok_def)
  with k \<open>d \<in> set ds\<close> have "d \<in> set (parked s l)" by (simp add: parked_def)
  then show "\<exists>l. d \<in> set (parked s l)" by blast
next
  assume "\<exists>l. d \<in> set (parked s l)"
  then obtain l where l: "d \<in> set (parked s l)" by blast
  then obtain ds where "om_get (shadowed s) (shadow_key l) = Some ds" "d \<in> set ds"
    by (cases "om_get (shadowed s) (shadow_key l)") (auto simp: parked_def)
  moreover have "ds \<in> set (om_values (shadowed s))" if "om_get (shadowed s) k = Some ds" for k ds
    using assms that by (auto simp: shadow_ok_def om_values_mem)
  ultimately show "d \<in> set (concat (om_values (shadowed s)))" by auto
qed

lemma export_mem: "store_inv s \<Longrightarrow> d \<in> set (export s) \<longleftrightarrow> (\<exists>l. d \<in> set (held s l))"
  using visible_mem [OF store_invD(1), of s d] parked_mem [OF store_invD(5), of s d]
  by (auto simp: export_def held_def split: option.splits) metis+

section \<open>Sweeping\<close>

lemma removes_effect:
  assumes "store_inv s" and "\<forall>x \<in> set xs. \<exists>l. locate (d_scope x) (d_value x) = Some l"
  shows "store_inv (fold (\<lambda>d. remove (d_scope d) (d_value d) (d_id d)) xs s)
    \<and> set (held (fold (\<lambda>d. remove (d_scope d) (d_value d) (d_id d)) xs s) l) =
      {d \<in> set (held s l). \<forall>x \<in> set xs. locate (d_scope x) (d_value x) = Some l \<longrightarrow> d_id d \<noteq> d_id x}"
  using assms
proof (induction xs arbitrary: s)
  case (Cons x xs)
  obtain lx where lx: "locate (d_scope x) (d_value x) = Some lx" using Cons.prems(2) by auto
  let ?s = "remove (d_scope x) (d_value x) (d_id x) s"
  note e = remove_effect [OF Cons.prems(1) lx, where i = "d_id x"]
  have "set (held ?s l) = {d \<in> set (held s l). locate (d_scope x) (d_value x) = Some l \<longrightarrow> d_id d \<noteq> d_id x}"
  proof (cases "l = lx")
    case True
    show ?thesis unfolding True lx using e(2) by simp
  next
    case False
    from e(3) [OF this] have "held ?s l = held s l" .
    with False show ?thesis unfolding lx by simp
  qed
  with Cons.IH [OF e(1)] Cons.prems(2) show ?case by auto
qed simp

lemma sweep_effect:
  assumes "store_inv s"
  shows "store_inv (snd (sweep_expired now s))"
    and "set (held (snd (sweep_expired now s)) l) = {d \<in> set (held s l). in_force d now}"
proof -
  let ?xs = "filter (\<lambda>d. \<not> in_force d now) (export s)"
  have loc: "\<forall>x \<in> set ?xs. \<exists>l. locate (d_scope x) (d_value x) = Some l"
    using assms export_mem [OF assms] store_invD(4) [OF assms] by auto
  note e = removes_effect [OF assms loc, THEN conjunct1] removes_effect [OF assms loc, THEN conjunct2]
  from e(1) show "store_inv (snd (sweep_expired now s))" by (simp add: sweep_expired_def Let_def)
  have "(\<forall>x \<in> set ?xs. locate (d_scope x) (d_value x) = Some l \<longrightarrow> d_id d \<noteq> d_id x) \<longleftrightarrow> in_force d now"
    if d: "d \<in> set (held s l)" for d
  proof
    assume *: "\<forall>x \<in> set ?xs. locate (d_scope x) (d_value x) = Some l \<longrightarrow> d_id d \<noteq> d_id x"
    show "in_force d now"
      using * d store_invD(4) [OF assms d] export_mem [OF assms] by auto
  next
    assume f: "in_force d now"
    show "\<forall>x \<in> set ?xs. locate (d_scope x) (d_value x) = Some l \<longrightarrow> d_id d \<noteq> d_id x"
    proof (intro ballI impI notI)
      fix x assume x: "x \<in> set ?xs" "locate (d_scope x) (d_value x) = Some l" "d_id d = d_id x"
      then obtain l' where "x \<in> set (held s l')" using export_mem [OF assms] by auto
      with x(2) store_invD(4) [OF assms] have "x \<in> set (held s l)" by (metis option.inject)
      with store_invD(3) [OF assms, of l] d x(3) have "x = d" by (auto simp: distinct_map dest: inj_onD)
      with x f show False by simp
    qed
  qed
  with e(2) [of l] show "set (held (snd (sweep_expired now s)) l) = {d \<in> set (held s l). in_force d now}"
    by (auto simp: sweep_expired_def Let_def)
qed

lemma insert_all_inv: "store_inv s \<Longrightarrow> store_inv (snd (insert_all dp now fb rs (k, s)))"
proof (induction rs arbitrary: k s)
  case (Cons r rs)
  show ?case
  proof (cases "materialize dp r now fb")
    case (Some d)
    have "store_inv (snd (insert_decision d s))"
    proof (cases "locate (d_scope d) (d_value d)")
      case None
      then show ?thesis using Cons.prems by (simp add: insert_decision_def)
    qed (rule insert_effect(1) [OF Cons.prems])
    with Some Cons.IH show ?thesis by (simp add: split_beta Let_def)
  qed (use Cons in simp)
qed simp

lemma remove_inv: "store_inv s \<Longrightarrow> store_inv (remove sc v i s)"
  using remove_effect(1) [of s sc v] by (cases "locate sc v") (auto simp: remove_def)

lemma remove_all_inv: "store_inv s \<Longrightarrow> store_inv (snd (remove_all rs (k, s)))"
  by (induction rs arbitrary: k s) (auto simp: Let_def remove_inv split: option.splits)

section \<open>Ranking\<close>

text \<open>
  The strength of a decision: a ban before a captcha, then the later expiry, with a decision that
  never expires last.
\<close>

definition at_least_as_strong :: "decision \<Rightarrow> decision \<Rightarrow> bool" where
  "at_least_as_strong a b \<longleftrightarrow> priority b < priority a \<or> (priority a = priority b \<and>
     (case d_expires_at a of None \<Rightarrow> True
      | Some e \<Rightarrow> (case d_expires_at b of None \<Rightarrow> False | Some e' \<Rightarrow> e' \<le> e)))"

lemma strong_refl: "at_least_as_strong a a"
  by (auto simp: at_least_as_strong_def split: option.splits)

lemma strong_trans: "at_least_as_strong a b \<Longrightarrow> at_least_as_strong b c \<Longrightarrow> at_least_as_strong a c"
  by (auto simp: at_least_as_strong_def split: option.splits)

lemma outranks_strong: "outranks a b \<Longrightarrow> at_least_as_strong a b"
  by (auto simp: outranks_def at_least_as_strong_def Let_def split: option.splits if_splits)

lemma not_outranks_strong: "\<not> outranks a b \<Longrightarrow> at_least_as_strong b a"
  by (auto simp: outranks_def at_least_as_strong_def Let_def split: option.splits if_splits)

lemma foldl_strongest:
  "d \<in> insert a (set ds) \<Longrightarrow> at_least_as_strong (foldl (\<lambda>b c. if outranks c b then c else b) a ds) d"
proof (induction ds arbitrary: a d)
  case Nil
  then show ?case by (simp add: strong_refl)
next
  case (Cons x ds)
  let ?a = "if outranks x a then x else a"
  have s: "at_least_as_strong ?a a" "at_least_as_strong ?a x"
    using outranks_strong [of x a] not_outranks_strong [of x a] by (auto simp: strong_refl)
  have "at_least_as_strong (foldl (\<lambda>b c. if outranks c b then c else b) ?a ds) ?a"
    by (rule Cons.IH) simp
  from strong_trans [OF this s(1)] strong_trans [OF this s(2)] Cons.IH [of d ?a] Cons.prems
  show ?case by auto
qed

lemma strongest_is_strongest: "ds \<noteq> [] \<Longrightarrow> d \<in> set ds \<Longrightarrow> at_least_as_strong (strongest ds) d"
  by (simp add: strongest_def foldl_strongest)

section \<open>Looking up a client\<close>

lemma live_in_force: "fst (live d l now s) = Some x \<Longrightarrow> in_force x now"
  by (auto simp: live_def Let_def split: if_splits option.splits)

lemma probe_in_force: "fst (probe ls now s) = Some x \<Longrightarrow> in_force x now"
proof (induction ls arbitrary: s)
  case (Cons l ls)
  show ?case
  proof (cases "read_at s l")
    case (Some d)
    obtain y s' where y: "live d l now s = (y, s')" by fastforce
    with Cons Some live_in_force [of d l now s] show ?thesis by (cases y) auto
  qed (use Cons in simp)
qed simp

text \<open>
  What a place answers at a time: its visible decision while that is in force, and else the strongest decision
  parked behind it, if that is in force.
\<close>

definition place_answer :: "store \<Rightarrow> time \<Rightarrow> location \<Rightarrow> decision option" where
  "place_answer s now l =
     (case read_at s l of
        None \<Rightarrow> None
      | Some d \<Rightarrow>
          if in_force d now then Some d
          else if parked s l \<noteq> [] \<and> in_force (strongest (parked s l)) now then Some (strongest (parked s l))
          else None)"

lemma remove_frame:
  assumes "store_inv s" and "locate sc v = Some l" and "l' \<noteq> l"
  shows "read_at (remove sc v i s) l' = read_at s l'" and "parked (remove sc v i s) l' = parked s l'"
  using assms store_invD(1) [OF assms(1)]
  by (auto simp: remove_def Let_def parked_set_parked read_write read_erase split: option.splits)

lemma remove_reads:
  assumes "store_inv s" and "locate sc v = Some l" and "read_at s l = Some d" and "d_id d = i"
  shows "read_at (remove sc v i s) l = (if parked s l = [] then None else Some (strongest (parked s l)))"
  using assms store_invD(1) [OF assms(1)] by (simp add: remove_def Let_def read_write read_erase)

lemma probe_answers:
  "store_inv s \<Longrightarrow> distinct ls \<Longrightarrow> fst (probe ls now s) =
     (case find (\<lambda>l. place_answer s now l \<noteq> None) ls of None \<Rightarrow> None | Some l \<Rightarrow> place_answer s now l)"
proof (induction ls arbitrary: s)
  case (Cons l ls)
  show ?case
  proof (cases "read_at s l")
    case None
    then show ?thesis using Cons by (simp add: place_answer_def)
  next
    case (Some d)
    then have loc: "locate (d_scope d) (d_value d) = Some l" using store_invD(4) [OF Cons.prems(1), of d l] by (simp add: held_def)
    show ?thesis
    proof (cases "in_force d now")
      case True
      then show ?thesis using Some by (simp add: live_def place_answer_def)
    next
      case False
      define s' where "s' = remove (d_scope d) (d_value d) (d_id d) s"
      have r: "read_at s' l = (if parked s l = [] then None else Some (strongest (parked s l)))"
        unfolding s'_def by (rule remove_reads [OF Cons.prems(1) loc Some refl])
      then have live: "live d l now s = (place_answer s now l, s')"
        using False Some by (simp add: live_def Let_def place_answer_def s'_def [symmetric])
      have other: "place_answer s' now k = place_answer s now k" if "k \<in> set ls" for k
      proof -
        have "k \<noteq> l" using that Cons.prems(2) by auto
        note frame = remove_frame [OF Cons.prems(1) loc this, where i = "d_id d"]
        show ?thesis unfolding place_answer_def s'_def frame by (rule refl)
      qed
      have same: "find (\<lambda>k. place_answer s' now k \<noteq> None) ls = find (\<lambda>k. place_answer s now k \<noteq> None) ls"
        using other by (intro find_cong) auto
      have inv': "store_inv s'" unfolding s'_def by (rule remove_inv [OF Cons.prems(1)])
      have dist: "distinct ls" using Cons.prems(2) by simp
      note rest = Cons.IH [OF inv' dist, unfolded same]
      have ih: "fst (probe ls now s') =
          (case find (\<lambda>k. place_answer s now k \<noteq> None) ls of None \<Rightarrow> None | Some k \<Rightarrow> place_answer s now k)"
      proof (cases "find (\<lambda>k. place_answer s now k \<noteq> None) ls")
        case None
        then show ?thesis unfolding rest None by simp
      next
        case (Some k)
        then have "k \<in> set ls" by (auto simp only: find_Some_iff nth_mem)
        then show ?thesis unfolding rest Some using other by simp
      qed
      show ?thesis using Some live ih by (cases "place_answer s now l") auto
    qed
  qed
qed simp

text \<open>Which places cover a client, and how specific each is.\<close>

fun covers :: "string \<Rightarrow> string option \<Rightarrow> nat option \<Rightarrow> location \<Rightarrow> bool" where
  "covers ip country asn (Ipv4 v) \<longleftrightarrow> ip \<noteq> ''unknown'' \<and> numeric_address ip = Some (NumV4 v)"
| "covers ip country asn (Ipv6 v) \<longleftrightarrow> ip \<noteq> ''unknown'' \<and> numeric_address ip = Some (NumV6 v)"
| "covers ip country asn (RangeV4 p n) \<longleftrightarrow> ip \<noteq> ''unknown'' \<and>
     (case numeric_address ip of Some (NumV4 v) \<Rightarrow> mask_ipv4 v p = n | _ \<Rightarrow> False)"
| "covers ip country asn (RangeV6 p n) \<longleftrightarrow> ip \<noteq> ''unknown'' \<and>
     (case numeric_address ip of Some (NumV6 v) \<Rightarrow> mask_ipv6 v p = n | _ \<Rightarrow> False)"
| "covers ip country asn (Country c) \<longleftrightarrow> (case country of None \<Rightarrow> False | Some k \<Rightarrow> k \<noteq> [] \<and> c = to_upper k)"
| "covers ip country asn (As a) \<longleftrightarrow> asn = Some a"

text \<open>An address above every range, a longer prefix above a shorter one, an AS above a country.\<close>

fun specificity :: "location \<Rightarrow> nat \<times> nat" where
  "specificity (Ipv4 v) = (3, 0)"
| "specificity (Ipv6 v) = (3, 0)"
| "specificity (RangeV4 p n) = (2, p)"
| "specificity (RangeV6 p n) = (2, p)"
| "specificity (As a) = (1, 0)"
| "specificity (Country c) = (0, 0)"

lemma longest_first_sorted: "sorted_wrt (\<ge>) (longest_first m)"
  by (simp add: longest_first_def sorted_wrt_rev)

lemma prefix_listed: "bucket_inv (m, ps) \<Longrightarrow> bucket_read m p v = Some d \<Longrightarrow> p \<in> set ps"
  using om_get_None_iff [of m p] by (auto simp: bucket_inv_def bucket_read_def longest_first_def split: option.splits)

lemma prefix_listed_v4: "index_inv s \<Longrightarrow> bucket_read (ranges_v4 s) p v = Some d \<Longrightarrow> p \<in> set (prefixes_v4 s)"
  by (auto simp: index_inv_def dest: prefix_listed)

lemma prefix_listed_v6: "index_inv s \<Longrightarrow> bucket_read (ranges_v6 s) p v = Some d \<Longrightarrow> p \<in> set (prefixes_v6 s)"
  by (auto simp: index_inv_def dest: prefix_listed)

lemma places_sorted:
  assumes "index_inv s"
  shows "sorted_wrt (\<lambda>a b. specificity b \<le> specificity a) (places ip country asn s)"
proof -
  have ps: "prefixes_v4 s = longest_first (ranges_v4 s)" "prefixes_v6 s = longest_first (ranges_v6 s)"
    using assms by (auto simp: index_inv_def bucket_inv_def)
  have "sorted_wrt (\<lambda>a b. specificity b \<le> specificity a) (map (\<lambda>p. RangeV4 p (f p)) (longest_first m))"
    and "sorted_wrt (\<lambda>a b. specificity b \<le> specificity a) (map (\<lambda>p. RangeV6 p (f p)) (longest_first m))" for f and m :: "(nat, 'x) omap"
    using longest_first_sorted [of m] by (simp_all add: sorted_wrt_map)
  then show ?thesis
    by (auto simp: places_def address_places_def ps sorted_wrt_append split: option.splits numeric.splits)
qed

lemma places_covers: "l \<in> set (places ip country asn s) \<Longrightarrow> covers ip country asn l"
  by (auto simp: places_def address_places_def split: option.splits numeric.splits if_splits)

lemma covers_places:
  assumes "index_inv s" and "covers ip country asn l" and "read_at s l = Some d"
  shows "l \<in> set (places ip country asn s)"
  using assms prefix_listed_v4 [OF assms(1)] prefix_listed_v6 [OF assms(1)]
  by (cases l) (auto simp: places_def address_places_def split: option.splits numeric.splits)

lemma find_sorted:
  assumes "find P ls = Some l" and "sorted_wrt (\<lambda>a b. f b \<le> f a) ls" and "l' \<in> set ls" and "P l'"
  shows "f l' \<le> (f l :: 'a :: linorder)"
  using assms by (induction ls) (auto split: if_splits)

lemma store_empty_read:
  assumes "index_inv s" and "store_empty s"
  shows "read_at s l = None"
proof (cases "read_at s l")
  case (Some d)
  then show ?thesis
    using assms(2) prefix_listed_v4 [OF assms(1)] prefix_listed_v6 [OF assms(1)]
    by (cases l) (auto simp: store_empty_def om_get_def)
qed

lemma places_distinct:
  assumes "index_inv s"
  shows "distinct (places ip country asn s)"
proof -
  have "distinct (prefixes_v4 s)" "distinct (prefixes_v6 s)"
    using assms by (auto simp: index_inv_def bucket_inv_def longest_first_def om_inv_def)
  then show ?thesis
    by (auto simp: places_def address_places_def distinct_map inj_on_def split: option.splits numeric.splits)
qed

lemma lookup_spec:
  assumes inv: "store_inv s"
  shows "case fst (lookup ip country asn now s) of
      None \<Rightarrow> \<forall>l. covers ip country asn l \<longrightarrow> place_answer s now l = None
    | Some d \<Rightarrow> \<exists>l. covers ip country asn l \<and> place_answer s now l = Some d
        \<and> (\<forall>l'. covers ip country asn l' \<and> place_answer s now l' \<noteq> None \<longrightarrow> specificity l' \<le> specificity l)"
proof (cases "store_empty s")
  case True
  with store_empty_read [OF store_invD(1) [OF inv]] show ?thesis by (simp add: lookup_def place_answer_def)
next
  case False
  note idx = store_invD(1) [OF inv]
  let ?P = "\<lambda>l. place_answer s now l \<noteq> None" and ?ls = "places ip country asn s"
  have l: "fst (lookup ip country asn now s) = (case find ?P ?ls of None \<Rightarrow> None | Some l \<Rightarrow> place_answer s now l)"
    using False probe_answers [OF inv places_distinct [OF idx]] by (simp add: lookup_def)
  have covered: "l' \<in> set ?ls" if "covers ip country asn l'" "?P l'" for l'
    using covers_places [OF idx that(1)] that(2) by (auto simp: place_answer_def split: option.splits)
  show ?thesis
  proof (cases "find ?P ?ls")
    case None
    then have "place_answer s now l' = None" if "covers ip country asn l'" for l'
      using covered [OF that] None by (cases "place_answer s now l'") (auto simp: find_None_iff)
    then show ?thesis using None by (simp add: l)
  next
    case (Some p)
    then have p: "p \<in> set ?ls" "?P p" by (auto simp: find_Some_iff)
    then obtain d where d: "place_answer s now p = Some d" by blast
    have "specificity l' \<le> specificity p" if c: "covers ip country asn l'" "?P l'" for l'
      by (rule find_sorted [OF Some places_sorted [OF idx] covered [OF c] c(2)])
    then show ?thesis using Some d places_covers [OF p(1)] by (auto simp: l)
  qed
qed

lemma place_answer_in_force: "place_answer s now l = Some d \<Longrightarrow> in_force d now \<and> d \<in> set (held s l)"
  using strongest_mem [of "parked s l"] by (auto simp: place_answer_def held_def split: option.splits if_splits)

section \<open>Steps of the store\<close>

inductive store_step :: "(string \<Rightarrow> rat option) \<Rightarrow> store \<Rightarrow> store \<Rightarrow> bool" for dp where
  snapshot: "store_step dp s (snd (apply_snapshot dp now fb rs s))"
| delta: "store_step dp s (snd (apply_delta dp now fb added deleted s))"
| looked_up: "store_step dp s (snd (lookup ip country asn now s))"
| swept: "store_step dp s (snd (sweep_expired now s))"
| cleared: "store_step dp s (clear s)"

lemma live_inv: "store_inv s \<Longrightarrow> store_inv (snd (live d l now s))"
  by (auto simp: live_def Let_def remove_inv split: option.splits)

lemma probe_inv: "store_inv s \<Longrightarrow> store_inv (snd (probe ls now s))"
proof (induction ls arbitrary: s)
  case (Cons l ls)
  show ?case
  proof (cases "read_at s l")
    case (Some d)
    obtain y s' where y: "live d l now s = (y, s')" by fastforce
    with Cons Some live_inv [OF Cons.prems, of d l now] show ?thesis by (cases y) auto
  qed (use Cons in simp)
qed simp

lemma store_step_inv: "store_step dp s s' \<Longrightarrow> store_inv s \<Longrightarrow> store_inv s'"
  by (induction rule: store_step.induct)
    (auto simp: apply_snapshot_def apply_delta_def split_beta Let_def clear_def lookup_def
      store_inv_empty insert_all_inv remove_all_inv probe_inv sweep_effect(1))

lemma store_reachable_inv: "(store_step dp)\<^sup>*\<^sup>* empty_store s \<Longrightarrow> store_inv s"
  by (induction rule: rtranclp_induct) (auto intro: store_step_inv store_inv_empty)

section \<open>Durations as the feed prints them\<close>

lemma takeWhile_digits: "\<not> is_digit c \<Longrightarrow> takeWhile is_digit (nat_text n @ c # r) = nat_text n"
  using nat_text_digit [of _ n] by (simp add: takeWhile_append2)

lemma dropWhile_digits: "\<not> is_digit c \<Longrightarrow> dropWhile is_digit (nat_text n @ c # r) = c # r"
  using nat_text_digit [of _ n] by (simp add: dropWhile_append2)

lemma duration_amount_text:
  "\<not> is_digit c \<Longrightarrow> c \<noteq> CHR ''.'' \<Longrightarrow> duration_amount (nat_text n @ c # r) = Some (of_nat n, c # r)"
  by (simp add: duration_amount_def takeWhile_digits dropWhile_digits)

lemma duration_parts_step:
  assumes "\<not> is_digit c" and "c \<noteq> CHR ''.''" and "duration_unit (c # r) = Some (u, r')"
  shows "duration_parts (nat_text n @ c # r) = (case duration_parts r' of None \<Rightarrow> None | Some t \<Rightarrow> Some (of_nat n * u + t))"
  using assms by (subst duration_parts.simps) (simp add: duration_amount_text)

lemma hms_parts:
  "duration_parts (nat_text h @ ''h'' @ nat_text m @ ''m'' @ nat_text s @ ''s'')
     = Some (of_nat h * 3600000 + (of_nat m * 60000 + of_nat s * 1000))"
proof -
  obtain d ds where d: "nat_text s = d # ds" "is_digit d" using nat_text_digit [of _ s] by (cases "nat_text s") auto
  have nd: "\<not> is_digit CHR ''h''" "\<not> is_digit CHR ''m''" "\<not> is_digit CHR ''s''" by (simp_all add: is_digit_def)
  have ds: "d \<noteq> CHR ''s''" using d(2) nd(3) by blast
  have u: "duration_unit (CHR ''h'' # r) = Some (3600000, r)" "duration_unit ''s'' = Some (1000, [])" for r
    by (simp_all add: duration_unit_def starts_with_def)
  have um: "duration_unit (CHR ''m'' # nat_text s @ ''s'') = Some (60000, nat_text s @ ''s'')"
    using d(1) ds by (simp add: duration_unit_def starts_with_def)
  have z: "duration_parts [] = Some 0" by (simp add: duration_parts.simps)
  have "duration_parts (nat_text s @ CHR ''s'' # []) = Some (of_nat s * 1000)"
    using duration_parts_step [OF nd(3) _ u(2), of s] z by simp
  then have "duration_parts (nat_text m @ CHR ''m'' # (nat_text s @ ''s'')) = Some (of_nat m * 60000 + of_nat s * 1000)"
    using duration_parts_step [OF nd(2) _ um, of m] by simp
  then show ?thesis
    using duration_parts_step [OF nd(1) _ u(1), of h "nat_text m @ ''m'' @ nat_text s @ ''s''"] by simp
qed

lemma digit_start:
  assumes "is_digit c" and "\<forall>x \<in> set (c # cs). \<not> is_space x"
  shows "parse_go_duration_ms (c # cs) = duration_parts (c # cs)"
  using assms trim_clean [OF assms(2)]
  by (auto simp: parse_go_duration_ms_def Let_def is_digit_def split: option.splits)

section \<open>Properties\<close>

text \<open>
  C7: whatever snapshots, deltas, lookups and sweeps came before, and whichever decisions have run out since, a
  lookup returns a decision that is in force and held at a place that covers the client, and no place that covers
  the client and has an answer is more specific: an address before a range, a longer prefix before a shorter one,
  a range before an AS, an AS before a country. It returns nothing only when no covering place has an answer. A
  place answers with its visible decision, or when that has run out with the strongest one parked behind it, if
  that one is in force.
\<close>

theorem lookup_most_specific:
  assumes "(store_step dp)\<^sup>*\<^sup>* empty_store s"
  shows "case fst (lookup ip country asn now s) of
      None \<Rightarrow> \<forall>l. covers ip country asn l \<longrightarrow> place_answer s now l = None
    | Some d \<Rightarrow> in_force d now \<and> (\<exists>l. covers ip country asn l \<and> place_answer s now l = Some d \<and> d \<in> set (held s l)
        \<and> (\<forall>l'. covers ip country asn l' \<and> place_answer s now l' \<noteq> None \<longrightarrow> specificity l' \<le> specificity l))"
  using lookup_spec [OF store_reachable_inv [OF assms], of ip country asn now] place_answer_in_force
  by (auto split: option.splits)

definition sample_raw :: "nat \<Rightarrow> string \<Rightarrow> string \<Rightarrow> string \<Rightarrow> string \<Rightarrow> raw_decision" where
  "sample_raw i t sc v dur = \<lparr>rd_id = Fin (of_nat i), rd_type = t, rd_scope = sc, rd_value = Some v,
     rd_duration = Some dur, rd_until = None, rd_origin = Some ''CAPI'', rd_scenario = None\<rparr>"

definition sample_feed :: "raw_decision list" where
  "sample_feed = [sample_raw 1 ''ban'' ''Range'' ''10.0.0.0/8'' ''4h0m0s'', sample_raw 2 ''captcha'' ''Range'' ''10.1.0.0/16'' ''4h'',
     sample_raw 3 ''ban'' ''Country'' ''fr'' ''4h'']"

definition sample_store :: store where
  "sample_store = snd (apply_snapshot (\<lambda>_. None) 0 (Some Ban) sample_feed empty_store)"

lemma sample_reachable: "(store_step (\<lambda>_. None))\<^sup>*\<^sup>* empty_store sample_store"
  unfolding sample_store_def by (rule r_into_rtranclp) (rule store_step.snapshot)

text \<open>At 20000 seconds the captcha on the longer prefix has run out, while the ban around it is in force.\<close>

definition sample_lapsed :: store where
  "sample_lapsed = snd (apply_delta (\<lambda>_. None) 0 (Some Ban) [sample_raw 4 ''ban'' ''Range'' ''10.1.0.0/16'' ''3h'',
     sample_raw 1 ''ban'' ''Range'' ''10.0.0.0/8'' ''40h''] [] sample_store)"

lemma sample_lapsed_reachable: "(store_step (\<lambda>_. None))\<^sup>*\<^sup>* empty_store sample_lapsed"
  unfolding sample_lapsed_def by (rule rtranclp.rtrancl_into_rtrancl [OF sample_reachable]) (rule store_step.delta)

theorem lookup_most_specific_witness:
  "\<exists>d l. fst (lookup ''10.1.2.3'' (Some ''FR'') None 20000000 sample_lapsed) = Some d \<and> d_id d = 1
     \<and> covers ''10.1.2.3'' (Some ''FR'') None l \<and> d \<in> set (held sample_lapsed l) \<and> in_force d 20000000"
proof -
  have "map_option d_id (fst (lookup ''10.1.2.3'' (Some ''FR'') None 20000000 sample_lapsed)) = Some 1"
    by code_simp
  then obtain d where "fst (lookup ''10.1.2.3'' (Some ''FR'') None 20000000 sample_lapsed) = Some d" "d_id d = 1"
    by (auto simp: map_option_eq_Some)
  with lookup_most_specific [OF sample_lapsed_reachable, of "''10.1.2.3''" "Some ''FR''" None 20000000] show ?thesis by auto
qed

text \<open>A lookup never returns a decision that has run out, in whatever state the store is.\<close>

theorem lookup_never_expired:
  assumes "fst (lookup ip country asn now s) = Some d" and "d_expires_at d = Some e"
  shows "of_int now < e"
  using assms probe_in_force [of "places ip country asn s" now s d]
  by (auto simp: lookup_def in_force_def split: if_splits)

theorem lookup_never_expired_witness:
  "\<exists>d. fst (lookup ''10.9.9.9'' None None 5 sample_store) = Some d \<and> (\<forall>e. d_expires_at d = Some e \<longrightarrow> 5 < e)"
proof -
  have "map_option d_id (fst (lookup ''10.9.9.9'' None None 5 sample_store)) = Some 1" by code_simp
  then obtain d where d: "fst (lookup ''10.9.9.9'' None None 5 sample_store) = Some d" by (auto simp: map_option_eq_Some)
  with lookup_never_expired [OF d] show ?thesis by auto
qed

text \<open>
  C8: a sweep leaves, at every place, exactly the decisions in force, visible and parked: nothing
  that has run out stays in memory and nothing still in force is lost.
\<close>

theorem sweep_keeps_exactly_in_force:
  assumes "(store_step dp)\<^sup>*\<^sup>* empty_store s"
  shows "set (held (snd (sweep_expired now s)) l) = {d \<in> set (held s l). in_force d now}"
  by (rule sweep_effect(2) [OF store_reachable_inv [OF assms]])

theorem sweep_keeps_exactly_in_force_witness:
  "set (held (snd (sweep_expired 20000000 sample_store)) (RangeV4 8 167772160)) = {}"
proof -
  have "\<forall>d \<in> set (held sample_store (RangeV4 8 167772160)). \<not> in_force d 20000000" by code_simp
  then show ?thesis using sweep_keeps_exactly_in_force [OF sample_reachable, of 20000000 "RangeV4 8 167772160"] by auto
qed

text \<open>
  Deleting the visible decision of a place that has others behind it does not unblock it: one
  of the parked decisions takes over, and none of the parked ones is stronger.
\<close>

theorem removal_promotes_strongest:
  assumes "locate sc v = Some l" and "read_at s l = Some e" and "d_id e = i" and "parked s l \<noteq> []"
  shows "\<exists>b. read_at (remove sc v i s) l = Some b \<and> b \<in> set (parked s l)
     \<and> (\<forall>d \<in> set (parked s l). at_least_as_strong b d)"
  using assms strongest_mem [OF assms(4)] strongest_is_strongest [OF assms(4)]
  by (simp add: remove_def Let_def read_write)

definition sample_pair :: store where
  "sample_pair = snd (apply_snapshot (\<lambda>_. None) 0 (Some Ban)
     [sample_raw 1 ''ban'' ''Ip'' ''1.2.3.4'' ''4h'', sample_raw 2 ''captcha'' ''Ip'' ''1.2.3.4'' ''2h''] empty_store)"

theorem removal_promotes_strongest_witness:
  "\<exists>b. read_at (remove IpScope ''1.2.3.4'' 1 sample_pair) (Ipv4 16909060) = Some b \<and> b \<in> set (parked sample_pair (Ipv4 16909060))"
proof -
  have l: "locate IpScope ''1.2.3.4'' = Some (Ipv4 16909060)" by code_simp
  have "map_option d_id (read_at sample_pair (Ipv4 16909060)) = Some 1" by code_simp
  then obtain e where e: "read_at sample_pair (Ipv4 16909060) = Some e" "d_id e = 1" by (auto simp: map_option_eq_Some)
  have "map d_id (parked sample_pair (Ipv4 16909060)) = [2]" by code_simp
  then have "parked sample_pair (Ipv4 16909060) \<noteq> []" by auto
  from removal_promotes_strongest [OF l e this] show ?thesis by blast
qed

text \<open>
  The durations the Local API prints, hours, minutes and seconds, are read as the number of
  milliseconds they denote.
\<close>

theorem duration_roundtrip:
  "parse_go_duration_ms (nat_text h @ ''h'' @ nat_text m @ ''m'' @ nat_text s @ ''s'')
     = Some (of_nat (h * 3600000 + m * 60000 + s * 1000))"
proof -
  let ?t = "nat_text h @ ''h'' @ nat_text m @ ''m'' @ nat_text s @ ''s''"
  obtain c cs where c: "?t = c # cs" "is_digit c"
    using nat_text_digit [of _ h] by (cases "nat_text h") auto
  have "\<not> is_space x" if "x \<in> set ?t" for x
    using that nat_text_digit [of x] by (auto simp: is_digit_def is_space_def)
  with c hms_parts [of h m s] digit_start [OF c(2), of cs] show ?thesis
    by (simp only:) (simp add: algebra_simps)
qed

text \<open>
  A decision whose duration does not parse and that carries no \<open>until\<close> is accepted and never
  runs out.
\<close>

theorem malformed_duration_never_expires:
  assumes "normalize_scope (rd_scope raw) = Some sc" and "normalize_remediation (rd_type raw) fb = Some r"
    and "rd_value raw = Some v" and "trim v \<noteq> []"
    and "rd_duration raw = Some dur" and "parse_go_duration_ms dur = None" and "rd_until raw = None"
  shows "\<exists>d. materialize dp raw now fb = Some d \<and> (\<forall>later. in_force d later)"
  using assms by (simp add: materialize_def decision_expiry_def in_force_def)

theorem malformed_duration_never_expires_witness:
  "\<exists>d. materialize (\<lambda>_. None) (sample_raw 1 ''ban'' ''Ip'' ''1.2.3.4'' ''4 hours'') 0 (Some Ban) = Some d
     \<and> (\<forall>later. in_force d later)"
proof (rule malformed_duration_never_expires)
  show "normalize_scope (rd_scope (sample_raw 1 ''ban'' ''Ip'' ''1.2.3.4'' ''4 hours'')) = Some IpScope" by code_simp
  show "normalize_remediation (rd_type (sample_raw 1 ''ban'' ''Ip'' ''1.2.3.4'' ''4 hours'')) (Some Ban) = Some Ban" by code_simp
  show "trim ''1.2.3.4'' \<noteq> []" by code_simp
  show "parse_go_duration_ms ''4 hours'' = None" by code_simp
qed (simp_all add: sample_raw_def)

text \<open>
  C9: a decision announced again under its own id replaces the visible one without being compared with those
  parked behind it. Whenever a delta brings a decision for an address whose visible decision has the same id,
  every client with that address is answered with the new decision while it is in force, although a stronger
  one for the same address, in force and parked, is held by the store.
\<close>

theorem reannounced_decision_hides_ban:
  assumes "(store_step dp)\<^sup>*\<^sup>* empty_store s" and "materialize dp raw now fb = Some d"
    and "locate (d_scope d) (d_value d) = Some l" and "read_at s l = Some old" and "d_id old = d_id d"
    and "b \<in> set (parked s l)" and "outranks b d" and "in_force b later" and "in_force d later"
    and "covers ip country asn l" and "specificity l = (3, 0)"
  defines "s' \<equiv> snd (apply_delta dp now fb [raw] [] s)"
  shows "fst (lookup ip country asn later s') = Some d \<and> b \<in> set (held s' l)"
proof -
  have s': "s' = write_at l d s" using assms(2-5) by (simp add: s'_def apply_delta_def insert_decision_def)
  have inv: "store_inv s'"
    unfolding s'_def using store_step_inv [OF store_step.delta store_reachable_inv [OF assms(1)]] by simp
  have ans: "place_answer s' later l = Some d" using assms(9) by (simp add: s' place_answer_def read_write)
  have one: "k = l" if "covers ip country asn k" "(3, 0) \<le> specificity k" for k
    using that assms(10,11) by (cases k; cases l) auto
  have "fst (lookup ip country asn later s') = Some d"
  proof (cases "fst (lookup ip country asn later s')")
    case None
    then show ?thesis using lookup_spec [OF inv, of ip country asn later] ans assms(10) by simp
  next
    case (Some x)
    then obtain k where k: "covers ip country asn k" "place_answer s' later k = Some x" "specificity l \<le> specificity k"
      using lookup_spec [OF inv, of ip country asn later] ans assms(10) by auto
    have "k = l" using one [OF k(1)] k(3) assms(11) by simp
    then show ?thesis using Some k(2) ans by simp
  qed
  moreover have "b \<in> set (held s' l)" using assms(6) by (simp add: s' held_def)
  ultimately show ?thesis by blast
qed

text \<open>Two bans on one address, the first of which comes back as a captcha.\<close>

definition sample_bans :: store where
  "sample_bans = snd (apply_delta (\<lambda>_. None) 0 (Some Ban)
     [sample_raw 1 ''ban'' ''Ip'' ''1.2.3.4'' ''4h'', sample_raw 2 ''ban'' ''Ip'' ''1.2.3.4'' ''2h''] [] empty_store)"

theorem reannounced_decision_hides_ban_witness:
  "map_option d_remediation (fst (lookup ''1.2.3.4'' None None 5
     (snd (apply_delta (\<lambda>_. None) 0 (Some Ban) [sample_raw 1 ''captcha'' ''Ip'' ''1.2.3.4'' ''4h''] [] sample_bans)))) = Some Captcha"
proof -
  let ?raw = "sample_raw 1 ''captcha'' ''Ip'' ''1.2.3.4'' ''4h''" and ?l = "Ipv4 16909060"
  have r: "(store_step (\<lambda>_. None))\<^sup>*\<^sup>* empty_store sample_bans"
    unfolding sample_bans_def by (rule r_into_rtranclp) (rule store_step.delta)
  have "map_option (\<lambda>d. (d_id d, d_remediation d, d_expires_at d, locate (d_scope d) (d_value d))) (materialize (\<lambda>_. None) ?raw 0 (Some Ban))
      = Some (1, Captcha, Some 14400000, Some ?l)" by code_simp
  then obtain d where d: "materialize (\<lambda>_. None) ?raw 0 (Some Ban) = Some d" "d_id d = 1" "d_remediation d = Captcha"
    "d_expires_at d = Some 14400000" "locate (d_scope d) (d_value d) = Some ?l" by auto
  have "map_option d_id (read_at sample_bans ?l) = Some 1" by code_simp
  then obtain old where old: "read_at sample_bans ?l = Some old" "d_id old = 1" by (auto simp: map_option_eq_Some)
  have "map (\<lambda>d. (d_remediation d, d_expires_at d)) (parked sample_bans ?l) = [(Ban, Some 7200000)]" by code_simp
  then obtain b where b: "b \<in> set (parked sample_bans ?l)" "d_remediation b = Ban" "d_expires_at b = Some 7200000"
    by (auto simp: map_eq_Cons_conv)
  have o: "outranks b d" using b d by (simp add: outranks_def priority_def)
  have f: "in_force b 5" "in_force d 5" using b d by (simp_all add: in_force_def)
  have c: "covers ''1.2.3.4'' None None ?l" by code_simp
  have "d_id old = d_id d" using old(2) d(2) by simp
  from reannounced_decision_hides_ban [OF r d(1,5) old(1) this b(1) o f c] d(3) show ?thesis by simp
qed

text \<open>
  When the visible decision has run out, the strongest parked one takes its place even when it
  has run out too, and the lookup then finds nothing although a parked captcha is in force.
\<close>

definition sample_gap :: store where
  "sample_gap = snd (apply_snapshot (\<lambda>_. None) 0 (Some Ban)
     [sample_raw 1 ''ban'' ''Ip'' ''1.2.3.4'' ''2s'', sample_raw 2 ''ban'' ''Ip'' ''1.2.3.4'' ''1s'',
      sample_raw 3 ''captcha'' ''Ip'' ''1.2.3.4'' ''4h''] empty_store)"

theorem lookup_misses_parked_decision:
  "fst (lookup ''1.2.3.4'' None None 5000 sample_gap) = None
   \<and> (\<exists>d \<in> set (held sample_gap (Ipv4 16909060)). in_force d 5000)"
  by code_simp

end
