(* ===== verification/Static_Cache.thy ===== *)
theory Static_Cache
  imports Prelude
begin

text \<open>
  \<open>src/src/services/static-cache-service.ts\<close>: the in-memory cache of static responses, its
  request and response checks, its time to live, its least-recently-used eviction and purges, with
  \<open>parseCookies\<close> of \<open>src/src/utils/cookies.ts\<close>.

  A request is its method, path, query and headers (a \<open>Headers\<close> object: lower-case names, one value
  per name). A cache key is the tuple that the source turns into text with \<open>JSON.stringify\<close>, which
  is injective on it. \<open>Date.parse\<close> is an argument. Bodies are byte strings; a body is read and
  stored in one step. The OpenMetrics counters, the copies of headers and the promise bookkeeping
  (\<open>pending\<close>, \<open>waitForIdle\<close>) are not modelled.
\<close>

section \<open>Requests, responses, policies\<close>

type_synonym headers = "(string \<times> string) list"

record request =
  rq_method :: string
  rq_pathname :: string
  rq_search :: string
  rq_headers :: headers

record response =
  rs_status :: nat
  rs_status_text :: string
  rs_headers :: headers
  rs_body :: "string option"

record cache_policy =
  cp_enabled :: bool
  cp_ttl_seconds :: nat
  cp_max_object_bytes :: nat
  cp_extensions :: "string list"

record cache_site =
  cs_id :: string
  cs_updated_at :: int

type_synonym asset_key = "string \<times> int \<times> string option \<times> int \<times> string \<times> string \<times> string"

record cache_entry =
  ce_site_id :: string
  ce_route_policy_id :: "string option"
  ce_pathname :: string
  ce_status :: nat
  ce_status_text :: string
  ce_headers :: headers
  ce_body :: string
  ce_size_bytes :: nat
  ce_stored_at :: time
  ce_expires_at :: rat
  ce_initial_age_seconds :: int
  ce_origin_id :: "string option"

record counters =
  c_hits :: nat
  c_misses :: nat
  c_bypasses :: nat
  c_stores :: nat
  c_evictions :: nat
  c_expired :: nat
  c_purges :: nat
  c_purged_entries :: nat
  c_bytes_served :: nat

record cache =
  entries :: "(asset_key, cache_entry) omap"
  cache_counters :: "(string, counters) omap"
  total_bytes :: int
  last_expiry_sweep_at :: time
  max_entries :: nat
  max_bytes :: nat

definition empty_counters :: counters where
  "empty_counters = \<lparr>c_hits = 0, c_misses = 0, c_bypasses = 0, c_stores = 0, c_evictions = 0, c_expired = 0,
     c_purges = 0, c_purged_entries = 0, c_bytes_served = 0\<rparr>"

definition header :: "string \<Rightarrow> headers \<Rightarrow> string option" where
  "header name hs = map_of hs name"

definition has_header :: "string \<Rightarrow> headers \<Rightarrow> bool" where
  "has_header name hs \<longleftrightarrow> header name hs \<noteq> None"

definition text_or_empty :: "string option \<Rightarrow> string" where
  "text_or_empty v = (case v of None \<Rightarrow> [] | Some t \<Rightarrow> t)"

fun contains :: "string \<Rightarrow> string \<Rightarrow> bool" where
  "contains p [] \<longleftrightarrow> p = []"
| "contains p (c # cs) \<longleftrightarrow> starts_with p (c # cs) \<or> contains p cs"

section \<open>Cookies and directives\<close>

text \<open>The names \<open>parseCookies\<close> collects; the values are not read by the cache.\<close>

definition cookie_name :: "string \<Rightarrow> string option" where
  "cookie_name part =
     (let n = takeWhile (\<lambda>c. c \<noteq> CHR ''='') part in
      if n = [] \<or> length n = length part then None else Some (trim n))"

definition cookie_names :: "string option \<Rightarrow> string list" where
  "cookie_names header_value =
     (case header_value of None \<Rightarrow> []
      | Some h \<Rightarrow> if h = [] then [] else List.map_filter cookie_name (split_on CHR '';'' h))"

definition internal_cookies :: "string list" where
  "internal_cookies = [''__Host-bg_session'', ''bg_session'', ''bg_authenticated_user'', ''bg_identity_signature'']"

definition request_has_application_cookies :: "request \<Rightarrow> bool" where
  "request_has_application_cookies rq =
     list_ex (\<lambda>n. n \<notin> set internal_cookies) (cookie_names (header ''cookie'' (rq_headers rq)))"

definition strip_quotes :: "string \<Rightarrow> string" where
  "strip_quotes s =
     (let a = (if s \<noteq> [] \<and> hd s = CHR 0x22 then tl s else s) in
      if a \<noteq> [] \<and> last a = CHR 0x22 then butlast a else a)"

text \<open>One directive: its name and its value, \<^term>\<open>None\<close> for \<open>true\<close>.\<close>

definition directive :: "string \<Rightarrow> (string \<times> string option) option" where
  "directive part =
     (let ps = split_on CHR ''='' (trim part); name = to_lower (trim (hd ps)) in
      if name = [] then None
      else Some (name, if tl ps = [] then None else Some (strip_quotes (trim (join ''='' (tl ps))))))"

definition cache_control_directives :: "string option \<Rightarrow> (string, string option) omap" where
  "cache_control_directives v =
     fold (\<lambda>(n, x). om_set n x) (List.map_filter directive (split_on CHR '','' (text_or_empty v))) []"

definition has_directive :: "string \<Rightarrow> (string, string option) omap \<Rightarrow> bool" where
  "has_directive n ds \<longleftrightarrow> om_get ds n \<noteq> None"

definition directive_text :: "string \<Rightarrow> (string, string option) omap \<Rightarrow> string option option" where
  "directive_text n ds = om_get ds n"

text \<open>\<open>replace(/\s+/g, " ")\<close>.\<close>

fun collapse_spaces :: "string \<Rightarrow> string" where
  "collapse_spaces [] = []"
| "collapse_spaces [c] = (if is_space c then '' '' else [c])"
| "collapse_spaces (c # d # cs) =
     (if is_space c then (if is_space d then collapse_spaces (d # cs) else CHR '' '' # collapse_spaces (d # cs))
      else c # collapse_spaces (d # cs))"

definition request_encoding_variant :: "request \<Rightarrow> string" where
  "request_encoding_variant rq =
     take 512 (collapse_spaces (to_lower (trim (case header ''accept-encoding'' (rq_headers rq) of
        None \<Rightarrow> ''identity'' | Some v \<Rightarrow> v))))"

definition cache_key :: "request \<Rightarrow> cache_site \<Rightarrow> (string \<times> int) option \<Rightarrow> asset_key" where
  "cache_key rq s route =
     (cs_id s, cs_updated_at s, map_option fst route, (case route of None \<Rightarrow> 0 | Some (_, u) \<Rightarrow> u),
      rq_pathname rq, rq_search rq, request_encoding_variant rq)"

section \<open>What may be served or stored\<close>

datatype bypass_reason = BadMethod | BadExtension | Credentials | RangeRequest | Conditional | Refresh

definition request_bypass_reason :: "request \<Rightarrow> cache_policy \<Rightarrow> bypass_reason option" where
  "request_bypass_reason rq p =
     (let hs = rq_headers rq; cc = cache_control_directives (header ''cache-control'' hs) in
      if rq_method rq \<notin> {''GET'', ''HEAD''} then Some BadMethod
      else if \<not> list_ex (\<lambda>e. ends_with e (to_lower (rq_pathname rq))) (cp_extensions p) then Some BadExtension
      else if has_header ''authorization'' hs \<or> request_has_application_cookies rq then Some Credentials
      else if has_header ''range'' hs \<or> has_header ''if-range'' hs then Some RangeRequest
      else if list_ex (\<lambda>n. has_header n hs)
          [''if-match'', ''if-none-match'', ''if-modified-since'', ''if-unmodified-since''] then Some Conditional
      else if has_directive ''no-cache'' cc \<or> has_directive ''no-store'' cc
        \<or> directive_text ''max-age'' cc = Some (Some ''0'')
        \<or> (case header ''pragma'' hs of None \<Rightarrow> False | Some v \<Rightarrow> contains ''no-cache'' (to_lower v))
      then Some Refresh
      else None)"

definition safe_content_types :: "string list" where
  "safe_content_types = [''text/css'', ''text/javascript'', ''application/javascript'', ''application/x-javascript'',
     ''application/wasm'', ''application/octet-stream'', ''application/xml'', ''text/xml'', ''text/plain'',
     ''application/font-woff'', ''application/vnd.ms-fontobject'']"

definition content_type :: "headers \<Rightarrow> string" where
  "content_type hs = to_lower (trim (hd (split_on CHR '';'' (text_or_empty (header ''content-type'' hs)))))"

definition safe_content_type :: "string \<Rightarrow> bool" where
  "safe_content_type t \<longleftrightarrow> starts_with ''image/'' t \<or> starts_with ''font/'' t \<or> t \<in> set safe_content_types"

definition vary_names :: "headers \<Rightarrow> string list" where
  "vary_names hs = filter (\<lambda>n. n \<noteq> []) (map (\<lambda>n. to_lower (trim n)) (split_on CHR '','' (text_or_empty (header ''vary'' hs))))"

text \<open>\<open>Number(v) || 0\<close>, and \<open>Math.max(0, ...)\<close>; an infinite age leaves nothing of the time to live.\<close>

definition age_value :: "string option \<Rightarrow> rat option" where
  "age_value h =
     (case h of None \<Rightarrow> Some 0
      | Some v \<Rightarrow> (case js_number v of NaN \<Rightarrow> Some 0 | Fin r \<Rightarrow> Some (max 0 r)
          | Infinite neg \<Rightarrow> if neg then Some 0 else None))"

definition origin_ttl_seconds ::
  "(string \<Rightarrow> int option) \<Rightarrow> headers \<Rightarrow> cache_policy \<Rightarrow> time \<Rightarrow> int option" where
  "origin_ttl_seconds date_parse hs p now =
     (let ds = cache_control_directives (header ''cache-control'' hs);
          ttl = int (cp_ttl_seconds p)
      in case (case directive_text ''s-maxage'' ds of None \<Rightarrow> directive_text ''max-age'' ds | Some v \<Rightarrow> Some v) of
           Some (Some text) \<Rightarrow> (case js_number text of
               Fin r \<Rightarrow> if r \<le> 0 then None else Some (min ttl \<lfloor>r\<rfloor>)
             | _ \<Rightarrow> None)
         | _ \<Rightarrow>
             (case header ''expires'' hs of
                None \<Rightarrow> Some ttl
              | Some v \<Rightarrow> (case date_parse v of
                    None \<Rightarrow> None
                  | Some e \<Rightarrow>
                      let reference = (case date_parse (text_or_empty (header ''date'' hs)) of None \<Rightarrow> now | Some d \<Rightarrow> d)
                      in if e \<le> reference then None else Some (min ttl ((e - reference) div 1000)))))"

text \<open>\<open>responseTtlMs\<close>: the origin's response as \<open>rememberOriginResponse\<close> kept it.\<close>

definition response_ttl_ms ::
  "(string \<Rightarrow> int option) \<Rightarrow> response \<Rightarrow> cache_policy \<Rightarrow> time \<Rightarrow> rat option" where
  "response_ttl_ms date_parse rs p now =
     (let hs = rs_headers rs; ds = cache_control_directives (header ''cache-control'' hs) in
      if rs_status rs \<noteq> 200 \<or> rs_body rs = None \<or> has_header ''set-cookie'' hs \<or> has_header ''content-range'' hs then None
      else if has_header ''x-burrowgate-origin-user'' hs then None
      else if (case header ''content-disposition'' hs of None \<Rightarrow> False | Some v \<Rightarrow> contains ''attachment'' (to_lower v)) then None
      else if \<not> safe_content_type (content_type hs) then None
      else if list_ex (\<lambda>n. n \<noteq> ''accept-encoding'') (vary_names hs) then None
      else if list_ex (\<lambda>d. has_directive d ds) [''no-store'', ''no-cache'', ''private''] then None
      else case origin_ttl_seconds date_parse hs p now of
          None \<Rightarrow> None
        | Some t \<Rightarrow> (case age_value (header ''age'' hs) of None \<Rightarrow> Some 0
            | Some age \<Rightarrow> Some (max 0 (of_int t * 1000 - age * 1000))))"

definition utf8_length :: "string \<Rightarrow> nat" where
  "utf8_length s = sum_list (map (\<lambda>c. if char_code c < 128 then 1 else 2) s)"

definition cached_size_bytes :: "headers \<Rightarrow> nat \<Rightarrow> nat" where
  "cached_size_bytes hs body_bytes = foldl (\<lambda>n (k, v). n + utf8_length k + utf8_length v + 4) body_bytes hs"

section \<open>The cache\<close>

definition site_counters :: "string \<Rightarrow> cache \<Rightarrow> counters" where
  "site_counters i c = (case om_get (cache_counters c) i of None \<Rightarrow> empty_counters | Some k \<Rightarrow> k)"

definition count :: "string \<Rightarrow> (counters \<Rightarrow> counters) \<Rightarrow> cache \<Rightarrow> cache" where
  "count i f c = c\<lparr>cache_counters := om_set i (f (site_counters i c)) (cache_counters c)\<rparr>"

datatype delete_reason = Capacity | Expired

definition delete_entry :: "asset_key \<Rightarrow> delete_reason \<Rightarrow> cache \<Rightarrow> cache" where
  "delete_entry k why c =
     (case om_get (entries c) k of
        None \<Rightarrow> c
      | Some e \<Rightarrow>
          count (ce_site_id e) (\<lambda>x. case why of Capacity \<Rightarrow> x\<lparr>c_evictions := c_evictions x + 1\<rparr>
                                     | Expired \<Rightarrow> x\<lparr>c_expired := c_expired x + 1\<rparr>)
            (c\<lparr>entries := om_delete k (entries c), total_bytes := total_bytes c - int (ce_size_bytes e)\<rparr>))"

definition sweep_expired_entries :: "time \<Rightarrow> cache \<Rightarrow> cache" where
  "sweep_expired_entries now c =
     (if now - last_expiry_sweep_at c < 60000 then c
      else fold (\<lambda>k. delete_entry k Expired)
             (map fst (filter (\<lambda>(_, e). ce_expires_at e \<le> of_int now) (entries c)))
             (c\<lparr>last_expiry_sweep_at := now\<rparr>))"

datatype cache_lookup = Disabled | Bypass | Miss asset_key | Hit response

definition served_response :: "request \<Rightarrow> time \<Rightarrow> cache_entry \<Rightarrow> response" where
  "served_response rq now e =
     \<lparr>rs_status = ce_status e, rs_status_text = ce_status_text e,
      rs_headers = om_set ''x-burrowgate-cache'' ''HIT''
        (om_set ''age'' (int_text (ce_initial_age_seconds e + max 0 ((now - ce_stored_at e) div 1000))) (ce_headers e)),
      rs_body = (if rq_method rq = ''HEAD'' then None else Some (ce_body e))\<rparr>"

definition lookup_cached ::
  "request \<Rightarrow> cache_site \<Rightarrow> (string \<times> int) option \<Rightarrow> cache_policy \<Rightarrow> time \<Rightarrow> cache \<Rightarrow> cache_lookup \<times> cache" where
  "lookup_cached rq s route p now c =
     (if \<not> cp_enabled p then (Disabled, c)
      else
        let c1 = sweep_expired_entries now c in
        if request_bypass_reason rq p \<noteq> None
        then (Bypass, count (cs_id s) (\<lambda>x. x\<lparr>c_bypasses := c_bypasses x + 1\<rparr>) c1)
        else
          let k = cache_key rq s route;
              c2 = (case om_get (entries c1) k of None \<Rightarrow> c1
                    | Some e \<Rightarrow> if ce_expires_at e \<le> of_int now then delete_entry k Expired c1 else c1)
          in case om_get (entries c2) k of
              None \<Rightarrow> (Miss k, count (cs_id s) (\<lambda>x. x\<lparr>c_misses := c_misses x + 1\<rparr>) c2)
            | Some e \<Rightarrow>
                let r = served_response rq now e in
                (Hit r, count (cs_id s) (\<lambda>x. x\<lparr>c_hits := c_hits x + 1,
                          c_bytes_served := c_bytes_served x + length (text_or_empty (rs_body r))\<rparr>)
                   (c2\<lparr>entries := om_set k e (om_delete k (entries c2))\<rparr>)))"

text \<open>The loop that evicts the least recently used entries until the limits hold.\<close>

function evict :: "cache \<Rightarrow> cache" where
  "evict c =
     (if length (entries c) > max_entries c \<or> total_bytes c > int (max_bytes c)
      then (case entries c of [] \<Rightarrow> c | (k, e) # _ \<Rightarrow> evict (delete_entry k Capacity c))
      else c)"
  by pat_completeness auto

lemma entries_count [simp]: "entries (count i f c) = entries c" "total_bytes (count i f c) = total_bytes c"
  "max_entries (count i f c) = max_entries c" "max_bytes (count i f c) = max_bytes c"
  by (simp_all add: count_def)

lemma entries_delete_entry [simp]: "entries (delete_entry k why c) = om_delete k (entries c)"
  by (auto simp: delete_entry_def om_delete_fresh om_get_None_iff [symmetric] split: option.splits)

termination evict
  by (relation "measure (\<lambda>c. length (entries c))") (auto simp: om_delete_def le_imp_less_Suc)

declare evict.simps [simp del]

definition replace_entry :: "asset_key \<Rightarrow> cache_entry \<Rightarrow> cache \<Rightarrow> cache" where
  "replace_entry k e c =
     (let c1 = (case om_get (entries c) k of None \<Rightarrow> c
                | Some old \<Rightarrow> c\<lparr>entries := om_delete k (entries c), total_bytes := total_bytes c - int (ce_size_bytes old)\<rparr>)
      in c1\<lparr>entries := om_set k e (entries c1), total_bytes := total_bytes c1 + int (ce_size_bytes e)\<rparr>)"

definition store_entry :: "asset_key \<Rightarrow> cache_entry \<Rightarrow> cache \<Rightarrow> cache" where
  "store_entry k e c = evict (count (ce_site_id e) (\<lambda>x. x\<lparr>c_stores := c_stores x + 1\<rparr>) (replace_entry k e c))"

text \<open>
  \<open>observeResponse\<close>: the entry that is stored for the response, if any, stored. \<open>origin\<close> is the
  response of the origin as it was remembered, \<open>rs\<close> the response sent on.
\<close>

definition observed_entry ::
  "(string \<Rightarrow> int option) \<Rightarrow> request \<Rightarrow> response \<Rightarrow> response \<Rightarrow> cache_lookup \<Rightarrow> cache_site \<Rightarrow> (string \<times> int) option
   \<Rightarrow> cache_policy \<Rightarrow> string option \<Rightarrow> time \<Rightarrow> (asset_key \<times> cache_entry) option" where
  "observed_entry date_parse rq origin rs look s route p origin_id now =
     (case look of
        Miss k \<Rightarrow>
          if rq_method rq \<noteq> ''GET'' then None
          else (case response_ttl_ms date_parse origin p now of
              None \<Rightarrow> None
            | Some ttl \<Rightarrow>
                let declared = (case header ''content-length'' (rs_headers rs) of None \<Rightarrow> Fin 0 | Some v \<Rightarrow> js_number v) in
                if ttl \<le> 0 \<or> (case declared of Fin n \<Rightarrow> n > of_nat (cp_max_object_bytes p) | _ \<Rightarrow> False) then None
                else (case rs_body rs of
                    None \<Rightarrow> None
                  | Some body \<Rightarrow>
                      if length body > cp_max_object_bytes p then None
                      else Some (k, \<lparr>ce_site_id = cs_id s, ce_route_policy_id = map_option fst route,
                        ce_pathname = rq_pathname rq, ce_status = rs_status rs, ce_status_text = rs_status_text rs,
                        ce_headers = rs_headers rs, ce_body = body,
                        ce_size_bytes = cached_size_bytes (rs_headers rs) (length body), ce_stored_at = now,
                        ce_expires_at = of_int now + ttl,
                        ce_initial_age_seconds = (case age_value (case header ''age'' (rs_headers origin) of
                            None \<Rightarrow> header ''age'' (rs_headers rs) | Some a \<Rightarrow> Some a) of
                          None \<Rightarrow> 0 | Some a \<Rightarrow> \<lfloor>a\<rfloor>),
                        ce_origin_id = origin_id\<rparr>)))
      | _ \<Rightarrow> None)"

definition observe_response ::
  "(string \<Rightarrow> int option) \<Rightarrow> request \<Rightarrow> response \<Rightarrow> response \<Rightarrow> cache_lookup \<Rightarrow> cache_site \<Rightarrow> (string \<times> int) option
   \<Rightarrow> cache_policy \<Rightarrow> string option \<Rightarrow> time \<Rightarrow> cache \<Rightarrow> cache" where
  "observe_response date_parse rq origin rs look s route p origin_id now c =
     (case observed_entry date_parse rq origin rs look s route p origin_id now of
        None \<Rightarrow> c | Some (k, e) \<Rightarrow> store_entry k e c)"

record cache_scope =
  sc_site_id :: "string option"
  sc_route_policy_id :: "string option"
  sc_path_prefix :: "string option"

definition in_scope :: "cache_scope \<Rightarrow> cache_entry \<Rightarrow> bool" where
  "in_scope sc e \<longleftrightarrow>
     (case sc_site_id sc of Some i \<Rightarrow> i = [] \<or> ce_site_id e = i | None \<Rightarrow> True)
   \<and> (case sc_route_policy_id sc of Some r \<Rightarrow> r = [] \<or> ce_route_policy_id e = Some r | None \<Rightarrow> True)
   \<and> (case sc_path_prefix sc of Some p \<Rightarrow> p = [] \<or> starts_with p (ce_pathname e) | None \<Rightarrow> True)"

definition purge :: "cache_scope \<Rightarrow> cache \<Rightarrow> nat \<times> cache" where
  "purge sc c =
     (let gone = filter (\<lambda>(_, e). in_scope sc e) (entries c);
          sites = rev (remdups (rev (map (\<lambda>(_, e). ce_site_id e) gone)));
          sites' = (case sc_site_id sc of Some i \<Rightarrow> if i \<noteq> [] \<and> i \<notin> set sites then sites @ [i] else sites | None \<Rightarrow> sites);
          c1 = c\<lparr>entries := filter (\<lambda>(_, e). \<not> in_scope sc e) (entries c),
                 total_bytes := total_bytes c - sum_list (map (\<lambda>(_, e). int (ce_size_bytes e)) gone)\<rparr>;
          bump = (\<lambda>i. count i (\<lambda>x. x\<lparr>c_purges := c_purges x + 1,
                    c_purged_entries := c_purged_entries x + length (filter (\<lambda>(_, e). ce_site_id e = i) gone)\<rparr>))
      in (length gone, fold bump sites' c1))"

definition remove_site :: "string \<Rightarrow> cache \<Rightarrow> cache" where
  "remove_site i c =
     (let c1 = snd (purge \<lparr>sc_site_id = Some i, sc_route_policy_id = None, sc_path_prefix = None\<rparr> c)
      in c1\<lparr>cache_counters := om_delete i (cache_counters c1)\<rparr>)"

definition storage_for_site :: "string \<Rightarrow> cache \<Rightarrow> nat \<times> nat" where
  "storage_for_site i c =
     (let es = filter (\<lambda>(_, e). ce_site_id e = i) (entries c)
      in (length es, sum_list (map (\<lambda>(_, e). ce_size_bytes e) es)))"

record cache_metrics =
  mt_counters :: counters
  mt_entries :: nat
  mt_bytes :: int
  mt_hit_ratio :: rat
  mt_max_entries :: nat
  mt_max_bytes :: nat

definition add_counters :: "counters \<Rightarrow> counters \<Rightarrow> counters" where
  "add_counters a b = \<lparr>c_hits = c_hits a + c_hits b, c_misses = c_misses a + c_misses b,
     c_bypasses = c_bypasses a + c_bypasses b, c_stores = c_stores a + c_stores b,
     c_evictions = c_evictions a + c_evictions b, c_expired = c_expired a + c_expired b,
     c_purges = c_purges a + c_purges b, c_purged_entries = c_purged_entries a + c_purged_entries b,
     c_bytes_served = c_bytes_served a + c_bytes_served b\<rparr>"

definition metrics :: "string option \<Rightarrow> cache \<Rightarrow> cache_metrics" where
  "metrics site c =
     (let selected = (case site of Some i \<Rightarrow> if i = [] then om_values (cache_counters c) else [site_counters i c]
                      | None \<Rightarrow> om_values (cache_counters c));
          total = foldl add_counters empty_counters selected;
          (n, b) = (case site of Some i \<Rightarrow> if i = [] then (length (entries c), total_bytes c)
                      else (fst (storage_for_site i c), int (snd (storage_for_site i c)))
                    | None \<Rightarrow> (length (entries c), total_bytes c));
          lookups = c_hits total + c_misses total
      in \<lparr>mt_counters = total, mt_entries = n, mt_bytes = b,
          mt_hit_ratio = (if lookups > 0 then of_nat (c_hits total) / of_nat lookups else 0),
          mt_max_entries = max_entries c, mt_max_bytes = max_bytes c\<rparr>)"

section \<open>Accounting\<close>

definition bytes_of :: "(asset_key, cache_entry) omap \<Rightarrow> int" where
  "bytes_of m = sum_list (map (\<lambda>(_, e). int (ce_size_bytes e)) m)"

text \<open>The books are kept: no key twice, and the running total is the sum of the sizes.\<close>

definition books_ok :: "cache \<Rightarrow> bool" where
  "books_ok c \<longleftrightarrow> om_inv (entries c) \<and> total_bytes c = bytes_of (entries c)"

definition within_limits :: "cache \<Rightarrow> bool" where
  "within_limits c \<longleftrightarrow> length (entries c) \<le> max_entries c \<and> total_bytes c \<le> int (max_bytes c)"

lemma bytes_of_append [simp]: "bytes_of (a @ b) = bytes_of a + bytes_of b"
  by (simp add: bytes_of_def)

lemma bytes_of_nonneg: "0 \<le> bytes_of m"
  unfolding bytes_of_def by (rule sum_list_nonneg) auto

lemma bytes_of_delete:
  "om_inv m \<Longrightarrow> om_get m k = Some e \<Longrightarrow> bytes_of (om_delete k m) = bytes_of m - int (ce_size_bytes e)"
proof (induction m)
  case (Cons x m)
  obtain k' e' where x: "x = (k', e')" by fastforce
  show ?case
  proof (cases "k' = k")
    case True
    with Cons.prems x have "k \<notin> set (om_keys m)" "e' = e" by (auto simp: om_inv_def om_keys_def om_get_def)
    with True x show ?thesis using om_delete_fresh [of k m] by (simp add: om_delete_def bytes_of_def)
  next
    case False
    with Cons x show ?thesis by (auto simp: om_inv_def om_keys_def om_get_def om_delete_def bytes_of_def)
  qed
qed (simp add: om_get_def)

lemma limits_delete_entry [simp]: "max_entries (delete_entry k why c) = max_entries c" "max_bytes (delete_entry k why c) = max_bytes c"
  by (auto simp: delete_entry_def split: option.splits)

lemma books_delete_entry: "books_ok c \<Longrightarrow> books_ok (delete_entry k why c)"
  by (auto simp: books_ok_def om_inv_delete delete_entry_def bytes_of_delete split: option.splits)

lemma books_delete_entries: "books_ok c \<Longrightarrow> books_ok (fold (\<lambda>k. delete_entry k why) ks c)"
  by (induction ks arbitrary: c) (auto simp: books_delete_entry)


lemma limits_delete_entries:
  "max_entries (fold (\<lambda>k. delete_entry k why) ks c) = max_entries c \<and> max_bytes (fold (\<lambda>k. delete_entry k why) ks c) = max_bytes c"
  by (induction ks arbitrary: c) auto

lemma om_delete_head: "om_inv ((k, e) # m) \<Longrightarrow> om_delete k ((k, e) # m) = m"
  using om_delete_fresh [of k m] by (simp add: om_inv_def om_keys_def om_delete_def)

text \<open>
  The eviction loop drops entries from the oldest on, no more than it has to, and ends within the
  limits.
\<close>

lemma evict_effect:
  assumes "books_ok c"
  shows "books_ok (evict c) \<and> within_limits (evict c) \<and> max_entries (evict c) = max_entries c \<and> max_bytes (evict c) = max_bytes c
    \<and> (\<exists>n. entries (evict c) = drop n (entries c)
         \<and> (\<forall>j < n. max_entries c < length (drop j (entries c)) \<or> int (max_bytes c) < bytes_of (drop j (entries c))))"
  using assms
proof (induction c rule: evict.induct)
  case (1 c)
  show ?case
  proof (cases "within_limits c")
    case True
    then have "evict c = c" by (subst evict.simps) (simp add: within_limits_def not_less)
    with True "1.prems" show ?thesis by (auto intro: exI [of _ 0])
  next
    case False
    have "entries c \<noteq> []" using False "1.prems" by (auto simp: within_limits_def books_ok_def bytes_of_def)
    then obtain k e m where m: "entries c = (k, e) # m" by (cases "entries c") auto
    let ?c = "delete_entry k Capacity c"
    have ev: "evict c = evict ?c"
      using False m by (subst evict.simps) (auto simp: within_limits_def not_le)
    have em: "entries ?c = m" using om_delete_head [of k e m] "1.prems" m by (simp add: books_ok_def)
    have over: "max_entries c < length (entries c) \<or> int (max_bytes c) < bytes_of (entries c)"
      using False "1.prems" by (auto simp: within_limits_def books_ok_def)
    have IH: "books_ok (evict ?c) \<and> within_limits (evict ?c) \<and> max_entries (evict ?c) = max_entries ?c \<and> max_bytes (evict ?c) = max_bytes ?c
      \<and> (\<exists>n. entries (evict ?c) = drop n (entries ?c)
         \<and> (\<forall>j < n. max_entries ?c < length (drop j (entries ?c)) \<or> int (max_bytes ?c) < bytes_of (drop j (entries ?c))))"
      using False m books_delete_entry [OF "1.prems"] by (intro "1.IH") (auto simp: within_limits_def)
    then obtain n where n: "entries (evict ?c) = drop n m"
        "\<forall>j < n. max_entries c < length (drop j m) \<or> int (max_bytes c) < bytes_of (drop j m)"
      using em by auto
    have "\<forall>j < Suc n. max_entries c < length (drop j (entries c)) \<or> int (max_bytes c) < bytes_of (drop j (entries c))"
      using n(2) over m by (auto simp: less_Suc_eq_0_disj)
    with IH n(1) m show ?thesis unfolding ev by (intro conjI exI [of _ "Suc n"]) auto
  qed
qed

lemma replace_entry_effect:
  assumes "books_ok c"
  shows "books_ok (replace_entry k e c)" and "entries (replace_entry k e c) = om_delete k (entries c) @ [(k, e)]"
    and "max_entries (replace_entry k e c) = max_entries c" and "max_bytes (replace_entry k e c) = max_bytes c"
proof -
  have "k \<notin> set (om_keys (om_delete k (entries c)))" by (simp add: om_keys_delete)
  then have app: "om_set k e (om_delete k (entries c)) = om_delete k (entries c) @ [(k, e)]" by (rule om_set_fresh)
  show ent: "entries (replace_entry k e c) = om_delete k (entries c) @ [(k, e)]"
    using app om_delete_fresh [of k "entries c"] om_get_None_iff [of "entries c" k]
    by (auto simp: replace_entry_def Let_def split: option.splits)
  have "total_bytes (replace_entry k e c) = bytes_of (om_delete k (entries c)) + int (ce_size_bytes e)"
    using assms om_delete_fresh [of k "entries c"] om_get_None_iff [of "entries c" k]
    by (auto simp: replace_entry_def Let_def books_ok_def bytes_of_delete split: option.splits)
  moreover have "om_inv (om_delete k (entries c) @ [(k, e)])"
    using assms om_inv_set [OF om_inv_delete, of "entries c" k e k] app by (simp add: books_ok_def)
  ultimately show "books_ok (replace_entry k e c)" by (simp add: books_ok_def ent) (simp add: bytes_of_def)
  show "max_entries (replace_entry k e c) = max_entries c" "max_bytes (replace_entry k e c) = max_bytes c"
    by (auto simp: replace_entry_def Let_def split: option.splits)
qed

lemma books_count [simp]: "books_ok (count i f c) = books_ok c" "within_limits (count i f c) = within_limits c"
  by (simp_all add: books_ok_def within_limits_def)

lemma store_effect:
  assumes "books_ok c"
  shows "books_ok (store_entry k e c)" and "within_limits (store_entry k e c)"
    and "max_entries (store_entry k e c) = max_entries c" and "max_bytes (store_entry k e c) = max_bytes c"
    and "\<exists>n. entries (store_entry k e c) = drop n (om_delete k (entries c) @ [(k, e)])
      \<and> (\<forall>j < n. max_entries c < length (drop j (om_delete k (entries c) @ [(k, e)]))
          \<or> int (max_bytes c) < bytes_of (drop j (om_delete k (entries c) @ [(k, e)])))"
proof -
  let ?c = "count (ce_site_id e) (\<lambda>x. x\<lparr>c_stores := c_stores x + 1\<rparr>) (replace_entry k e c)"
  note r = replace_entry_effect [OF assms, of k e]
  have "books_ok ?c" using r by simp
  note f = evict_effect [OF this]
  show "books_ok (store_entry k e c)" "within_limits (store_entry k e c)"
    "max_entries (store_entry k e c) = max_entries c" "max_bytes (store_entry k e c) = max_bytes c"
    using f r by (simp_all add: store_entry_def)
  show "\<exists>n. entries (store_entry k e c) = drop n (om_delete k (entries c) @ [(k, e)])
      \<and> (\<forall>j < n. max_entries c < length (drop j (om_delete k (entries c) @ [(k, e)]))
          \<or> int (max_bytes c) < bytes_of (drop j (om_delete k (entries c) @ [(k, e)])))"
    using f unfolding store_entry_def entries_count r(2-4) by blast
qed

section \<open>Lookups, sweeps and purges\<close>

definition cache_ok :: "cache \<Rightarrow> bool" where
  "cache_ok c \<longleftrightarrow> books_ok c \<and> within_limits c"

lemma cache_ok_count [simp]: "cache_ok (count i f c) = cache_ok c"
  by (simp add: cache_ok_def)

lemma length_om_delete: "length (om_delete k m) \<le> length m"
  by (simp add: om_delete_def)

lemma bytes_of_delete_le: "om_inv m \<Longrightarrow> bytes_of (om_delete k m) \<le> bytes_of m"
  using bytes_of_delete [of m k] om_get_None_iff [of m k] om_delete_fresh [of k m]
  by (cases "om_get m k") auto

lemma cache_ok_delete_entry:
  assumes "cache_ok c"
  shows "cache_ok (delete_entry k why c)"
proof -
  have "books_ok (delete_entry k why c)" using assms books_delete_entry by (simp add: cache_ok_def)
  then show ?thesis
    using assms bytes_of_delete_le [of "entries c" k] length_om_delete [of k "entries c"]
    by (auto simp: cache_ok_def within_limits_def books_ok_def)
qed

lemma cache_ok_delete_entries: "cache_ok c \<Longrightarrow> cache_ok (fold (\<lambda>k. delete_entry k why) ks c)"
  by (induction ks arbitrary: c) (auto simp: cache_ok_delete_entry)

lemma cache_ok_sweep: "cache_ok c \<Longrightarrow> cache_ok (sweep_expired_entries now c)"
  by (auto simp: sweep_expired_entries_def intro!: cache_ok_delete_entries)
    (simp add: cache_ok_def books_ok_def within_limits_def)


text \<open>The state of the cache when a lookup finds, or does not find, the entry of its key.\<close>

definition looked_at :: "asset_key \<Rightarrow> time \<Rightarrow> cache \<Rightarrow> cache" where
  "looked_at k now c =
     (let c1 = sweep_expired_entries now c in
      case om_get (entries c1) k of None \<Rightarrow> c1
      | Some e \<Rightarrow> if ce_expires_at e \<le> of_int now then delete_entry k Expired c1 else c1)"

lemma cache_ok_looked_at: "cache_ok c \<Longrightarrow> cache_ok (looked_at k now c)"
  by (auto simp: looked_at_def Let_def cache_ok_sweep cache_ok_delete_entry split: option.splits)


lemma lookup_enabled:
  assumes "cp_enabled p" and "request_bypass_reason rq p = None"
  shows "lookup_cached rq s route p now c =
    (let k = cache_key rq s route; c2 = looked_at k now c in
     case om_get (entries c2) k of
       None \<Rightarrow> (Miss k, count (cs_id s) (\<lambda>x. x\<lparr>c_misses := c_misses x + 1\<rparr>) c2)
     | Some e \<Rightarrow> let r = served_response rq now e in
         (Hit r, count (cs_id s) (\<lambda>x. x\<lparr>c_hits := c_hits x + 1,
             c_bytes_served := c_bytes_served x + length (text_or_empty (rs_body r))\<rparr>)
           (c2\<lparr>entries := om_set k e (om_delete k (entries c2))\<rparr>)))"
  using assms by (simp add: lookup_cached_def looked_at_def Let_def)

lemma bytes_of_touch: "om_inv m \<Longrightarrow> om_get m k = Some e \<Longrightarrow> bytes_of (om_set k e (om_delete k m)) = bytes_of m"
  using om_set_fresh [of k "om_delete k m" e] bytes_of_delete [of m k e]
  by (simp add: om_keys_delete) (simp add: bytes_of_def)

lemma length_touch:
  assumes "om_inv m" and "om_get m k = Some e"
  shows "length (om_set k e (om_delete k m)) = length m"
proof -
  have "k \<in> set (om_keys m)" using assms(2) om_get_None_iff [of m k] by auto
  have "set (om_keys (om_set k e (om_delete k m))) = set (om_keys m)"
    using \<open>k \<in> set (om_keys m)\<close> by (auto simp: om_keys_set om_keys_delete)
  moreover have "om_inv (om_set k e (om_delete k m))" using assms(1) by (simp add: om_inv_set om_inv_delete)
  ultimately show ?thesis
    using assms(1) distinct_card [of "om_keys m"] distinct_card [of "om_keys (om_set k e (om_delete k m))"]
    by (simp add: om_inv_def) (simp add: om_keys_def)
qed

lemma cache_ok_lookup:
  assumes "cache_ok c"
  shows "cache_ok (snd (lookup_cached rq s route p now c))"
proof (cases "cp_enabled p \<and> request_bypass_reason rq p = None")
  case False
  then show ?thesis using assms cache_ok_sweep by (auto simp: lookup_cached_def Let_def)
next
  case True
  let ?k = "cache_key rq s route"
  have ok: "cache_ok (looked_at ?k now c)" by (rule cache_ok_looked_at [OF assms])
  show ?thesis
  proof (cases "om_get (entries (looked_at ?k now c)) ?k")
    case None
    with True ok show ?thesis by (simp add: lookup_enabled Let_def)
  next
    case (Some e)
    with ok bytes_of_touch [of "entries (looked_at ?k now c)" ?k e] length_touch [of "entries (looked_at ?k now c)" ?k e]
    have "cache_ok ((looked_at ?k now c)\<lparr>entries := om_set ?k e (om_delete ?k (entries (looked_at ?k now c)))\<rparr>)"
      by (simp add: cache_ok_def books_ok_def within_limits_def om_inv_set om_inv_delete)
    with True Some show ?thesis by (simp add: lookup_enabled Let_def)
  qed
qed

lemma fold_count_frame:
  "entries (fold (\<lambda>i. count i (f i)) is c) = entries c \<and> total_bytes (fold (\<lambda>i. count i (f i)) is c) = total_bytes c
   \<and> max_entries (fold (\<lambda>i. count i (f i)) is c) = max_entries c \<and> max_bytes (fold (\<lambda>i. count i (f i)) is c) = max_bytes c"
  by (induction "is" arbitrary: c) auto

lemma purge_frame:
  "entries (snd (purge sc c)) = filter (\<lambda>(_, e). \<not> in_scope sc e) (entries c)"
  "total_bytes (snd (purge sc c)) = total_bytes c - bytes_of (filter (\<lambda>(_, e). in_scope sc e) (entries c))"
  "max_entries (snd (purge sc c)) = max_entries c" "max_bytes (snd (purge sc c)) = max_bytes c"
  "fst (purge sc c) = length (filter (\<lambda>(_, e). in_scope sc e) (entries c))"
  using fold_count_frame by (simp_all add: purge_def Let_def bytes_of_def)

lemma bytes_of_split:
  "bytes_of (filter (\<lambda>(_, e). P e) m) + bytes_of (filter (\<lambda>(_, e). \<not> P e) m) = bytes_of m"
  by (induction m) (auto simp: bytes_of_def)

lemma cache_ok_purge:
  assumes "cache_ok c"
  shows "cache_ok (snd (purge sc c))"
proof -
  have "om_inv (filter (\<lambda>(_, e). \<not> in_scope sc e) (entries c))"
    using assms by (simp add: cache_ok_def books_ok_def om_inv_def om_keys_def distinct_map_filter)
  moreover have "length (filter (\<lambda>(_, e). \<not> in_scope sc e) (entries c)) \<le> max_entries c"
    using assms le_trans [OF length_filter_le] by (auto simp: cache_ok_def within_limits_def)
  ultimately show ?thesis
    using assms bytes_of_split [of "in_scope sc" "entries c"] bytes_of_nonneg [of "filter (\<lambda>(_, e). in_scope sc e) (entries c)"]
    by (auto simp: cache_ok_def books_ok_def within_limits_def purge_frame)
qed

inductive cache_step :: "(string \<Rightarrow> int option) \<Rightarrow> cache \<Rightarrow> cache \<Rightarrow> bool" for dp where
  looked_up: "cache_step dp c (snd (lookup_cached rq s route p now c))"
| observed: "cache_step dp c (observe_response dp rq origin rs look s route p oid now c)"
| purged: "cache_step dp c (snd (purge sc c))"
| site_removed: "cache_step dp c (remove_site i c)"

lemma cache_step_ok: "cache_step dp c c' \<Longrightarrow> cache_ok c \<Longrightarrow> cache_ok c' \<and> max_entries c' = max_entries c \<and> max_bytes c' = max_bytes c"
proof (induction rule: cache_step.induct)
  case (looked_up c rq s route p now)
  have "max_entries (snd (lookup_cached rq s route p now c)) = max_entries c \<and> max_bytes (snd (lookup_cached rq s route p now c)) = max_bytes c"
    using limits_delete_entries by (auto simp: lookup_cached_def Let_def sweep_expired_entries_def split: option.splits)
  with looked_up cache_ok_lookup show ?case by blast
next
  case (observed c rq origin rs look s route p oid now)
  then show ?case using store_effect [of c]
    by (auto simp: observe_response_def cache_ok_def split: option.splits)
next
  case (purged c sc)
  then show ?case by (simp add: cache_ok_purge purge_frame)
next
  case (site_removed c i)
  let ?c = "snd (purge \<lparr>sc_site_id = Some i, sc_route_policy_id = None, sc_path_prefix = None\<rparr> c)"
  have "cache_ok ?c" using site_removed by (rule cache_ok_purge)
  then show ?case
    by (simp add: remove_site_def Let_def cache_ok_def books_ok_def within_limits_def purge_frame)
qed

lemma cache_steps_ok: "(cache_step dp)\<^sup>*\<^sup>* c c' \<Longrightarrow> cache_ok c \<Longrightarrow> cache_ok c' \<and> max_entries c' = max_entries c \<and> max_bytes c' = max_bytes c"
  by (induction rule: rtranclp_induct) (auto dest: cache_step_ok)

lemma origin_ttl_bound: "origin_ttl_seconds dp hs p now = Some t \<Longrightarrow> t \<le> int (cp_ttl_seconds p)"
  by (auto simp: origin_ttl_seconds_def Let_def split: option.splits jsnum.splits if_splits)

lemma age_nonneg: "age_value h = Some a \<Longrightarrow> 0 \<le> a"
  by (auto simp: age_value_def split: option.splits jsnum.splits if_splits)


section \<open>Properties\<close>

definition new_cache :: "nat \<Rightarrow> nat \<Rightarrow> cache" where
  "new_cache me mb = \<lparr>entries = [], cache_counters = [], total_bytes = 0, last_expiry_sweep_at = 0,
     max_entries = me, max_bytes = mb\<rparr>"

lemma new_cache_ok: "cache_ok (new_cache me mb)"
  by (simp add: cache_ok_def books_ok_def within_limits_def new_cache_def bytes_of_def om_inv_def om_keys_def)

text \<open>
  Whatever lookups, observed responses, purges and removals of sites came before, the cache
  stays within its limits on entries and bytes, and its running total is exactly the sum of the
  sizes of its entries.
\<close>

theorem cache_stays_bounded:
  assumes "(cache_step dp)\<^sup>*\<^sup>* (new_cache me mb) c"
  shows "length (entries c) \<le> me \<and> total_bytes c \<le> int mb
    \<and> total_bytes c = sum_list (map (\<lambda>(_, e). int (ce_size_bytes e)) (entries c)) \<and> distinct (map fst (entries c))"
  using cache_steps_ok [OF assms new_cache_ok]
  by (auto simp: cache_ok_def within_limits_def books_ok_def bytes_of_def om_inv_def om_keys_def new_cache_def)

definition sample_asset_request :: "string \<Rightarrow> request" where
  "sample_asset_request path = \<lparr>rq_method = ''GET'', rq_pathname = path, rq_search = '''', rq_headers = []\<rparr>"

definition sample_asset :: "string \<Rightarrow> response" where
  "sample_asset body = \<lparr>rs_status = 200, rs_status_text = ''OK'',
     rs_headers = [(''content-type'', ''text/css''), (''cache-control'', ''public, max-age=60'')], rs_body = Some body\<rparr>"

definition sample_cache_policy :: cache_policy where
  "sample_cache_policy = \<lparr>cp_enabled = True, cp_ttl_seconds = 3600, cp_max_object_bytes = 1000, cp_extensions = [''.css'']\<rparr>"

definition sample_cache_site :: cache_site where
  "sample_cache_site = \<lparr>cs_id = ''s1'', cs_updated_at = 1\<rparr>"

definition sample_fill :: "string \<Rightarrow> cache \<Rightarrow> cache" where
  "sample_fill path c = observe_response (\<lambda>_. None) (sample_asset_request path) (sample_asset ''body'') (sample_asset ''body'')
     (Miss (cache_key (sample_asset_request path) sample_cache_site None)) sample_cache_site None sample_cache_policy None 1000 c"

definition sample_cache :: cache where
  "sample_cache = sample_fill ''/c.css'' (sample_fill ''/b.css'' (sample_fill ''/a.css'' (new_cache 2 1000)))"

lemma sample_steps: "(cache_step (\<lambda>_. None))\<^sup>*\<^sup>* (new_cache 2 1000) sample_cache"
  unfolding sample_cache_def sample_fill_def
  by (meson cache_step.observed r_into_rtranclp rtranclp.rtrancl_into_rtrancl)

theorem cache_stays_bounded_witness:
  "length (entries sample_cache) \<le> 2 \<and> map (\<lambda>(_, e). ce_pathname e) (entries sample_cache) = [''/b.css'', ''/c.css'']"
proof -
  have "map (\<lambda>(_, e). ce_pathname e) (entries sample_cache) = [''/b.css'', ''/c.css'']" by code_simp
  with cache_stays_bounded [OF sample_steps] show ?thesis by simp
qed



text \<open>
  Storing an entry evicts from the least recently used end and no more than the limits demand:
  what remains is a suffix of the entries in order of use with the new one last, and every longer
  suffix would break a limit.
\<close>

theorem store_evicts_least_recent:
  assumes "(cache_step dp)\<^sup>*\<^sup>* (new_cache me mb) c"
  shows "\<exists>n. entries (store_entry k e c) = drop n (om_delete k (entries c) @ [(k, e)])
    \<and> (\<forall>j < n. me < length (drop j (om_delete k (entries c) @ [(k, e)]))
        \<or> int mb < bytes_of (drop j (om_delete k (entries c) @ [(k, e)])))"
proof -
  have "cache_ok c \<and> max_entries c = me \<and> max_bytes c = mb"
    using cache_steps_ok [OF assms new_cache_ok] by (simp add: new_cache_def)
  with store_effect(5) [of c k e] show ?thesis by (simp add: cache_ok_def)
qed

definition sample_entry :: cache_entry where
  "sample_entry = \<lparr>ce_site_id = ''s1'', ce_route_policy_id = None, ce_pathname = ''/d.css'', ce_status = 200,
     ce_status_text = ''OK'', ce_headers = [], ce_body = ''body'', ce_size_bytes = 4, ce_stored_at = 1000,
     ce_expires_at = 61000, ce_initial_age_seconds = 0, ce_origin_id = None\<rparr>"

theorem store_evicts_least_recent_witness:
  "\<exists>n. entries (store_entry (''s1'', 1, None, 0, ''/d.css'', '''', ''identity'') sample_entry sample_cache)
     = drop n (om_delete (''s1'', 1, None, 0, ''/d.css'', '''', ''identity'') (entries sample_cache)
         @ [((''s1'', 1, None, 0, ''/d.css'', '''', ''identity''), sample_entry)])"
  using store_evicts_least_recent [OF sample_steps] by blast

text \<open>A purge removes exactly the entries in its scope and reports how many they were.\<close>

theorem purge_removes_exactly_scope:
  "entries (snd (purge sc c)) = filter (\<lambda>(_, e). \<not> in_scope sc e) (entries c)
   \<and> fst (purge sc c) + length (entries (snd (purge sc c))) = length (entries c)"
  using sum_length_filter_compl [of "\<lambda>(_, e). in_scope sc e" "entries c"]
  by (simp add: purge_frame case_prod_unfold)

text \<open>
  A response is stored only when it is a complete 200 without cookies, without an identity
  from the origin, not private and not varying on anything but the encoding, of at most the
  configured size, and it expires no later than the configured time to live.
\<close>

theorem only_public_responses_stored:
  assumes "observed_entry dp rq origin rs look s route p oid now = Some (k, e)"
  shows "look = Miss k \<and> rq_method rq = ''GET'' \<and> rs_status origin = 200 \<and> \<not> has_header ''set-cookie'' (rs_headers origin)
    \<and> \<not> has_header ''x-burrowgate-origin-user'' (rs_headers origin)
    \<and> (\<forall>d \<in> {''no-store'', ''no-cache'', ''private''}.
         \<not> has_directive d (cache_control_directives (header ''cache-control'' (rs_headers origin))))
    \<and> (\<forall>v \<in> set (vary_names (rs_headers origin)). v = ''accept-encoding'')
    \<and> length (ce_body e) \<le> cp_max_object_bytes p
    \<and> of_int now < ce_expires_at e \<and> ce_expires_at e \<le> of_int now + of_nat (cp_ttl_seconds p) * 1000"
proof -
  from assms obtain ttl where t: "response_ttl_ms dp origin p now = Some ttl" "0 < ttl" "ce_expires_at e = of_int now + ttl"
    and o: "look = Miss k" "rq_method rq = ''GET''" "length (ce_body e) \<le> cp_max_object_bytes p"
    by (auto simp: observed_entry_def Let_def not_le not_less split: cache_lookup.splits option.splits if_splits)
  from t(1) obtain ts where ts: "origin_ttl_seconds dp (rs_headers origin) p now = Some ts"
    by (auto simp: response_ttl_ms_def Let_def split: if_splits option.splits)
  have "ttl \<le> of_int ts * 1000"
    using t(1,2) ts age_nonneg [of "header ''age'' (rs_headers origin)"]
    by (auto simp: response_ttl_ms_def Let_def max_def split: if_splits option.splits)
  also have "\<dots> \<le> of_nat (cp_ttl_seconds p) * 1000"
    using origin_ttl_bound [OF ts] by (metis mult_right_mono of_int_le_iff of_int_of_nat_eq zero_le_numeral)
  finally have b: "ttl \<le> of_nat (cp_ttl_seconds p) * 1000" .
  have r: "rs_status origin = 200" "\<not> has_header ''set-cookie'' (rs_headers origin)"
    "\<not> has_header ''x-burrowgate-origin-user'' (rs_headers origin)"
    "\<not> list_ex (\<lambda>n. n \<noteq> ''accept-encoding'') (vary_names (rs_headers origin))"
    "\<not> list_ex (\<lambda>d. has_directive d (cache_control_directives (header ''cache-control'' (rs_headers origin))))
        [''no-store'', ''no-cache'', ''private'']"
    using t(1) by (simp_all add: response_ttl_ms_def Let_def split: if_split_asm)
  from r t b o show ?thesis by (auto simp: list_ex_iff)
qed

theorem only_public_responses_stored_witness:
  "\<exists>k e. observed_entry (\<lambda>_. None) (sample_asset_request ''/a.css'') (sample_asset ''body'') (sample_asset ''body'')
       (Miss (cache_key (sample_asset_request ''/a.css'') sample_cache_site None)) sample_cache_site None sample_cache_policy None 1000 = Some (k, e)
     \<and> ce_expires_at e \<le> 3601000"
proof -
  let ?o = "observed_entry (\<lambda>_. None) (sample_asset_request ''/a.css'') (sample_asset ''body'') (sample_asset ''body'')
       (Miss (cache_key (sample_asset_request ''/a.css'') sample_cache_site None)) sample_cache_site None sample_cache_policy None 1000"
  have "\<not> Option.is_none ?o" by code_simp
  then obtain k e where o: "?o = Some (k, e)" by (cases ?o) auto
  from only_public_responses_stored [OF o] have "ce_expires_at e \<le> 3601000" by (simp add: sample_cache_policy_def)
  with o show ?thesis by blast
qed

end
