(* ===== verification/Visitor_Session.thy ===== *)
theory Visitor_Session
  imports Network_Rules Static_Cache
begin

text \<open>
  Sessions of visitors and administrators: \<open>src/src/services/session-service.ts\<close>, the cookies of
  \<open>src/src/utils/cookies.ts\<close> and \<open>src/src/config.ts\<close>, and the statements on the session tables of
  \<open>src/src/db/repository.ts\<close>.

  A table is the list of its rows. Random tokens and identifiers, SHA-256, the clock, the GeoIP readers and the
  transport of the request are arguments; \<open>published\<close> tells whether the primary of the cluster took the new
  session over in time, and \<open>resolve\<close> is what the primary answers for the hash of an unknown administrator
  token. \<open>encodeURIComponent\<close> and \<open>decodeURIComponent\<close> are written out for Latin-1 text. The replication of
  rows is not modelled.
\<close>

section \<open>Cookies\<close>

definition hex_byte :: "nat \<Rightarrow> string" where
  "hex_byte b = [CHR ''%'', upper_char (digit_char (b div 16)), upper_char (digit_char (b mod 16))]"

definition uri_unreserved :: "char \<Rightarrow> bool" where
  "uri_unreserved c \<longleftrightarrow> is_lower c \<or> is_upper c \<or> is_digit c \<or> c \<in> set ''-_.!~*()'' \<or> c = CHR 0x27"

definition encode_char :: "char \<Rightarrow> string" where
  "encode_char c =
     (if uri_unreserved c then [c]
      else if char_code c < 128 then hex_byte (char_code c)
      else hex_byte (192 + char_code c div 64) @ hex_byte (128 + char_code c mod 64))"

definition encode_uri_component :: "string \<Rightarrow> string" where
  "encode_uri_component s = concat (map encode_char s)"

text \<open>\<^term>\<open>None\<close> is the \<open>URIError\<close>; a two-byte sequence gives the Latin-1 character it encodes.\<close>

fun percent_byte :: "string \<Rightarrow> nat option" where
  "percent_byte (p # a # b # s) =
     (if p = CHR ''%'' \<and> is_digit_of 16 a \<and> is_digit_of 16 b then Some (digits_value 16 [a, b]) else None)"
| "percent_byte _ = None"

function decode_uri_component :: "string \<Rightarrow> string option" where
  "decode_uri_component s =
     (case s of
        [] \<Rightarrow> Some []
      | c # cs \<Rightarrow>
          if c \<noteq> CHR ''%'' then map_option ((#) c) (decode_uri_component cs)
          else (case percent_byte s of
            None \<Rightarrow> None
          | Some b \<Rightarrow>
              if b < 128 then map_option ((#) (char_of b)) (decode_uri_component (drop 3 s))
              else if b = 194 \<or> b = 195 then
                (case percent_byte (drop 3 s) of
                   Some b2 \<Rightarrow> if 128 \<le> b2 \<and> b2 < 192
                     then map_option ((#) (char_of ((b - 192) * 64 + (b2 - 128)))) (decode_uri_component (drop 6 s))
                     else None
                 | None \<Rightarrow> None)
              else None))"
  by pat_completeness auto
termination by (relation "measure length") auto

declare decode_uri_component.simps [simp del]

record cookie_options =
  co_http_only :: bool
  co_secure :: bool
  co_same_site :: string
  co_path :: string
  co_max_age :: "int option"

definition serialize_cookie :: "string \<Rightarrow> string \<Rightarrow> cookie_options \<Rightarrow> string" where
  "serialize_cookie name v opts =
     join ''; '' ([name @ ''='' @ encode_uri_component v, ''Path='' @ co_path opts]
       @ (case co_max_age opts of None \<Rightarrow> [] | Some m \<Rightarrow> [''Max-Age='' @ int_text (max 0 m)])
       @ (if co_http_only opts then [''HttpOnly''] else [])
       @ (if co_secure opts then [''Secure''] else [])
       @ [''SameSite='' @ co_same_site opts])"

definition cookie_pair :: "string \<Rightarrow> (string \<times> string) option" where
  "cookie_pair part =
     (let n = takeWhile (\<lambda>c. c \<noteq> CHR ''='') part in
      if n = [] \<or> length n = length part then None
      else let v = trim (drop (Suc (length n)) part)
           in Some (trim n, case decode_uri_component v of Some d \<Rightarrow> d | None \<Rightarrow> v))"

definition parse_cookies :: "string option \<Rightarrow> (string, string) omap" where
  "parse_cookies h =
     (case h of None \<Rightarrow> []
      | Some t \<Rightarrow> if t = [] then []
          else fold (\<lambda>(n, v). om_set n v) (List.map_filter cookie_pair (split_on CHR '';'' t)) [])"

definition remove_cookie_from_header :: "string option \<Rightarrow> string \<Rightarrow> string option" where
  "remove_cookie_from_header h name =
     (case h of None \<Rightarrow> None
      | Some t \<Rightarrow> if t = [] then None
          else let kept = filter (\<lambda>p. \<not> starts_with (name @ ''='') p) (map trim (split_on CHR '';'' t))
               in if kept \<noteq> [] then Some (join ''; '' kept) else None)"

definition set_cookie_in_header :: "string option \<Rightarrow> string \<Rightarrow> string \<Rightarrow> string" where
  "set_cookie_in_header h name v =
     (let serialized = name @ ''='' @ encode_uri_component v in
      case remove_cookie_from_header h name of
        Some existing \<Rightarrow> if existing = [] then serialized else existing @ ''; '' @ serialized
      | None \<Rightarrow> serialized)"

section \<open>Which cookie a request may get\<close>

datatype cookie_secure_mode = SecureAuto | SecureAlways | SecureNever

definition secure_cookie_for_request :: "cookie_secure_mode \<Rightarrow> bool \<Rightarrow> bool" where
  "secure_cookie_for_request mode https =
     (case mode of SecureAlways \<Rightarrow> True | SecureNever \<Rightarrow> False | SecureAuto \<Rightarrow> https)"

definition cookie_can_be_issued :: "cookie_secure_mode \<Rightarrow> bool \<Rightarrow> bool" where
  "cookie_can_be_issued mode https \<longleftrightarrow> mode \<noteq> SecureAlways \<or> https"

definition visitor_cookie_name :: "bool \<Rightarrow> string" where
  "visitor_cookie_name secure = (if secure then ''__Host-bg_session'' else ''bg_session'')"

definition admin_cookie_name :: "bool \<Rightarrow> string" where
  "admin_cookie_name secure = (if secure then ''__Host-bg_admin'' else ''bg_admin'')"

definition visitor_cookie_names :: "string list" where
  "visitor_cookie_names = [''__Host-bg_session'', ''bg_session'']"

definition admin_cookie_names :: "string list" where
  "admin_cookie_names = [''__Host-bg_admin'', ''bg_admin'']"

definition cookie_tokens :: "request \<Rightarrow> string list \<Rightarrow> string list" where
  "cookie_tokens rq names =
     (let cookies = parse_cookies (header ''cookie'' (rq_headers rq))
      in fold (\<lambda>name tokens. case om_get cookies name of
           Some token \<Rightarrow> if token \<noteq> [] \<and> token \<notin> set tokens then tokens @ [token] else tokens
         | None \<Rightarrow> tokens) names [])"

section \<open>Visitor sessions\<close>

record session_row =
  as_id :: string
  as_site_id :: string
  as_token_hash :: string
  as_initial_ip :: string
  as_last_ip :: string
  as_user_agent_hash :: string
  as_created_at :: time
  as_last_seen_at :: time
  as_expires_at :: time
  as_revoked_at :: "time option"
  as_summary :: "string list"
  as_request_count :: nat
  as_country_code :: "string option"
  as_asn :: "nat option"
  as_asn_org :: "string option"
  as_access_user_id :: "string option"
  as_authenticated_at :: "time option"
  as_sso_sid :: "string option"

record session_site =
  ss_id :: string
  ss_session_ttl_seconds :: nat

datatype session_error = InsecureCookieConfiguration | HaSessionPublication

text \<open>What a call of the service takes from its surroundings.\<close>

record session_env =
  se_sha256_hex :: "string \<Rightarrow> string"
  se_geo :: geo
  se_mode :: cookie_secure_mode
  se_ha_replica :: bool

definition session_by_hash :: "string \<Rightarrow> string \<Rightarrow> session_row list \<Rightarrow> session_row option" where
  "session_by_hash site_key hash rows = find (\<lambda>s. as_site_id s = site_key \<and> as_token_hash s = hash) rows"

definition touch_session :: "string \<Rightarrow> string \<Rightarrow> time \<Rightarrow> session_row list \<Rightarrow> session_row list" where
  "touch_session sid ip now rows =
     map (\<lambda>s. if as_id s = sid then s\<lparr>as_last_ip := ip, as_last_seen_at := now, as_request_count := Suc (as_request_count s)\<rparr> else s) rows"

definition revoke_session :: "string \<Rightarrow> time \<Rightarrow> session_row list \<Rightarrow> session_row list" where
  "revoke_session sid now rows =
     map (\<lambda>s. if as_id s = sid \<and> as_revoked_at s = None then s\<lparr>as_revoked_at := Some now\<rparr> else s) rows"

definition request_tokens :: "request \<Rightarrow> string list" where
  "request_tokens rq =
     (let explicit_token =
        (case header ''authorization'' (rq_headers rq) of
           Some a \<Rightarrow> if starts_with ''Burrow '' a then Some (drop 7 a) else header ''x-burrow-token'' (rq_headers rq)
         | None \<Rightarrow> header ''x-burrow-token'' (rq_headers rq))
      in case explicit_token of
           Some t \<Rightarrow> if t \<noteq> [] then [t] else cookie_tokens rq visitor_cookie_names
         | None \<Rightarrow> cookie_tokens rq visitor_cookie_names)"

fun try_tokens ::
  "session_env \<Rightarrow> string \<Rightarrow> string \<Rightarrow> time \<Rightarrow> string list \<Rightarrow> session_row list
   \<Rightarrow> session_row option \<times> session_row list" where
  "try_tokens e site_key ip now [] rows = (None, rows)"
| "try_tokens e site_key ip now (t # ts) rows =
     (case session_by_hash site_key (se_sha256_hex e t) rows of
        Some s \<Rightarrow> if as_revoked_at s = None \<and> now < as_expires_at s
          then (Some s, touch_session (as_id s) ip now rows)
          else try_tokens e site_key ip now ts rows
      | None \<Rightarrow> try_tokens e site_key ip now ts rows)"

definition find_access_session ::
  "session_env \<Rightarrow> request \<Rightarrow> session_site \<Rightarrow> string \<Rightarrow> time \<Rightarrow> session_row list
   \<Rightarrow> session_row option \<times> session_row list" where
  "find_access_session e rq site ip now rows = try_tokens e (ss_id site) ip now (request_tokens rq) rows"

definition session_cookie :: "bool \<Rightarrow> string \<Rightarrow> nat \<Rightarrow> string" where
  "session_cookie secure token ttl =
     serialize_cookie (visitor_cookie_name secure) token
       \<lparr>co_http_only = True, co_secure = secure, co_same_site = ''Lax'', co_path = ''/'', co_max_age = Some (int ttl)\<rparr>"

definition create_access_session ::
  "session_env \<Rightarrow> bool \<Rightarrow> session_site \<Rightarrow> string \<Rightarrow> string \<Rightarrow> string list \<Rightarrow> bool \<Rightarrow> bool \<Rightarrow> string \<Rightarrow> string \<Rightarrow> time
   \<Rightarrow> session_row list \<Rightarrow> (session_error + session_row \<times> string \<times> string) \<times> session_row list" where
  "create_access_session e https site ip ua_hash summary require_publication published token fresh now rows =
     (if \<not> cookie_can_be_issued (se_mode e) https then (Inl InsecureCookieConfiguration, rows)
      else
        let asn = asn_for_storage (se_geo e) ip;
            r = \<lparr>as_id = fresh, as_site_id = ss_id site, as_token_hash = se_sha256_hex e token, as_initial_ip = ip,
                 as_last_ip = ip, as_user_agent_hash = ua_hash, as_created_at = now, as_last_seen_at = now,
                 as_expires_at = now + int (ss_session_ttl_seconds site) * 1000, as_revoked_at = None,
                 as_summary = summary, as_request_count = 0, as_country_code = country_code_for_storage (se_geo e) ip,
                 as_asn = fst asn, as_asn_org = snd asn, as_access_user_id = None, as_authenticated_at = None,
                 as_sso_sid = None\<rparr>;
            rows' = rows @ [r]
        in if require_publication \<and> se_ha_replica e \<and> \<not> published then (Inl HaSessionPublication, rows')
           else (Inr (r, token, session_cookie (secure_cookie_for_request (se_mode e) https) token (ss_session_ttl_seconds site)), rows'))"

definition clear_access_session_cookies :: "cookie_secure_mode \<Rightarrow> bool \<Rightarrow> string list" where
  "clear_access_session_cookies mode https =
     map (\<lambda>name. serialize_cookie name []
       \<lparr>co_http_only = True, co_secure = starts_with ''__Host-'' name \<or> secure_cookie_for_request mode https,
        co_same_site = ''Lax'', co_path = ''/'', co_max_age = Some 0\<rparr>) visitor_cookie_names"

section \<open>Administrator sessions\<close>

record admin_session =
  ad_id :: string
  ad_token_hash :: string
  ad_username :: string
  ad_user_id :: "string option"
  ad_created_at :: time
  ad_expires_at :: time
  ad_last_seen_at :: time
  ad_sso_sid :: "string option"

definition create_admin_session ::
  "session_env \<Rightarrow> nat \<Rightarrow> bool \<Rightarrow> string \<Rightarrow> string option \<Rightarrow> string option \<Rightarrow> bool \<Rightarrow> bool \<Rightarrow> string \<Rightarrow> string \<Rightarrow> time
   \<Rightarrow> admin_session list \<Rightarrow> (session_error + admin_session \<times> string \<times> string) \<times> admin_session list" where
  "create_admin_session e ttl https username user_id sso_sid require_publication published token fresh now rows =
     (if \<not> cookie_can_be_issued (se_mode e) https then (Inl InsecureCookieConfiguration, rows)
      else
        let secure = secure_cookie_for_request (se_mode e) https;
            r = \<lparr>ad_id = fresh, ad_token_hash = se_sha256_hex e token, ad_username = username, ad_user_id = user_id,
                 ad_created_at = now, ad_expires_at = now + int ttl * 1000, ad_last_seen_at = now, ad_sso_sid = sso_sid\<rparr>;
            rows' = rows @ [r]
        in if require_publication \<and> se_ha_replica e \<and> \<not> published then (Inl HaSessionPublication, rows')
           else (Inr (r, token, serialize_cookie (admin_cookie_name secure) token
             \<lparr>co_http_only = True, co_secure = secure, co_same_site = ''Strict'', co_path = ''/'', co_max_age = Some (int ttl)\<rparr>), rows'))"

definition admin_by_hash :: "string \<Rightarrow> admin_session list \<Rightarrow> admin_session option" where
  "admin_by_hash hash rows = find (\<lambda>s. ad_token_hash s = hash) rows"

definition touch_admin :: "string \<Rightarrow> time \<Rightarrow> admin_session list \<Rightarrow> admin_session list" where
  "touch_admin sid now rows = map (\<lambda>s. if ad_id s = sid then s\<lparr>ad_last_seen_at := now\<rparr> else s) rows"

text \<open>\<open>primary_admin\<close> tells whether this node is a replica that knows the admin URL of its primary.\<close>

fun try_admin_tokens ::
  "session_env \<Rightarrow> bool \<Rightarrow> (string \<Rightarrow> admin_session option) \<Rightarrow> time \<Rightarrow> string list \<Rightarrow> admin_session list
   \<Rightarrow> admin_session option \<times> admin_session list" where
  "try_admin_tokens e primary_admin resolve now [] rows = (None, rows)"
| "try_admin_tokens e primary_admin resolve now (t # ts) rows =
     (let hash = se_sha256_hex e t;
          own = admin_by_hash hash rows;
          session = (case own of Some s \<Rightarrow> Some s
            | None \<Rightarrow> if se_ha_replica e \<and> primary_admin
                then (case resolve hash of Some s \<Rightarrow> if ad_token_hash s = hash then Some s else None | None \<Rightarrow> None)
                else None)
      in case session of
           Some s \<Rightarrow> if ad_expires_at s \<le> now then try_admin_tokens e primary_admin resolve now ts rows
             else (Some s, if own \<noteq> None then touch_admin (ad_id s) now rows else rows)
         | None \<Rightarrow> try_admin_tokens e primary_admin resolve now ts rows)"

definition get_admin_session ::
  "session_env \<Rightarrow> bool \<Rightarrow> (string \<Rightarrow> admin_session option) \<Rightarrow> request \<Rightarrow> time \<Rightarrow> admin_session list
   \<Rightarrow> admin_session option \<times> admin_session list" where
  "get_admin_session e primary_admin resolve rq now rows =
     try_admin_tokens e primary_admin resolve now (cookie_tokens rq admin_cookie_names) rows"

section \<open>Cookies survive the round trip\<close>

lemma encode_char_chars:
  "d \<in> set (encode_char c) \<Longrightarrow> uri_unreserved d \<or> d = CHR ''%''"
proof -
  have h: "is_digit (upper_char (digit_char n)) \<or> is_upper (upper_char (digit_char n))" if "n < 16" for n
  proof -
    from that have "n \<in> set [0..<16]" by simp
    moreover have "\<forall>n \<in> set [0..<16]. is_digit (upper_char (digit_char n)) \<or> is_upper (upper_char (digit_char n))" by code_simp
    ultimately show ?thesis by blast
  qed
  have b: "uri_unreserved d \<or> d = CHR ''%''" if "d \<in> set (hex_byte n)" "n < 256" for n
  proof -
    from that(2) have "n div 16 < 16" "n mod 16 < 16" by simp_all
    from this [THEN h] that(1) show ?thesis by (auto simp: hex_byte_def uri_unreserved_def)
  qed
  have c: "char_code c < 256" by (rule code_lt_256)
  then have "char_code c div 64 < 4" by (simp add: less_mult_imp_div_less)
  then have "192 + char_code c div 64 < 256" "128 + char_code c mod 64 < 256" by simp_all
  with c show "d \<in> set (encode_char c) \<Longrightarrow> ?thesis"
    using b [of "char_code c"] b [of "192 + char_code c div 64"] b [of "128 + char_code c mod 64"]
    by (auto simp: encode_char_def split: if_splits)
qed

lemma encode_chars: "d \<in> set (encode_uri_component s) \<Longrightarrow> uri_unreserved d \<or> d = CHR ''%''"
  using encode_char_chars by (auto simp: encode_uri_component_def)

lemma percent_byte_hex: "n < 256 \<Longrightarrow> percent_byte (hex_byte n @ s) = Some n"
proof -
  assume "n < 256"
  then have "n div 16 \<in> set [0..<16]" "n mod 16 \<in> set [0..<16]" by auto
  moreover have "\<forall>k \<in> set [0..<16]. is_digit_of 16 (upper_char (digit_char k)) \<and> digit_value (upper_char (digit_char k)) = Some k"
    by code_simp
  ultimately have "is_digit_of 16 (upper_char (digit_char (n div 16)))" "is_digit_of 16 (upper_char (digit_char (n mod 16)))"
    "digit_value (upper_char (digit_char (n div 16))) = Some (n div 16)"
    "digit_value (upper_char (digit_char (n mod 16))) = Some (n mod 16)" by blast+
  then show ?thesis by (simp add: hex_byte_def digits_value_def)
qed

lemma high_div: "128 \<le> m \<Longrightarrow> m < 256 \<Longrightarrow> m div 64 = 2 \<or> m div 64 = (3::nat)"
proof -
  assume "128 \<le> m" "m < 256"
  then have "m div 64 < 4" "2 \<le> m div 64" by (simp_all add: less_eq_div_iff_mult_less_eq less_mult_imp_div_less)
  then show ?thesis by linarith
qed

lemma not_space: "\<not> is_space CHR ''=''" "\<not> is_space CHR '';''" "is_space CHR '' ''"
  by code_simp+

lemma unreserved_clean: "uri_unreserved c \<Longrightarrow> \<not> is_space c \<and> c \<noteq> CHR '';'' \<and> c \<noteq> CHR ''%''"
  by (auto simp: uri_unreserved_def char_class_defs)

lemma drop_hex: "drop 3 (hex_byte n @ s) = s" "drop 6 (hex_byte m @ hex_byte n @ s) = s"
  by (simp_all add: hex_byte_def)

lemma decode_percent:
  assumes "percent_byte s = Some b"
  shows "decode_uri_component s =
    (if b < 128 then map_option ((#) (char_of b)) (decode_uri_component (drop 3 s))
     else if b = 194 \<or> b = 195 then
       (case percent_byte (drop 3 s) of
          Some b2 \<Rightarrow> if 128 \<le> b2 \<and> b2 < 192
            then map_option ((#) (char_of ((b - 192) * 64 + (b2 - 128)))) (decode_uri_component (drop 6 s)) else None
        | None \<Rightarrow> None)
     else None)"
proof -
  from assms obtain t where "s = CHR ''%'' # t" by (cases s rule: percent_byte.cases) (auto split: if_splits)
  with assms show ?thesis by (subst decode_uri_component.simps) simp
qed

lemma decode_encode_char: "decode_uri_component (encode_char c @ s) = map_option ((#) c) (decode_uri_component s)"
proof -
  have lt: "char_code c < 256" by (rule code_lt_256)
  consider "uri_unreserved c" | "\<not> uri_unreserved c" "char_code c < 128" | "\<not> uri_unreserved c" "128 \<le> char_code c"
    by fastforce
  then show ?thesis
  proof cases
    case 1
    then have "c \<noteq> CHR ''%''" by (simp add: unreserved_clean)
    with 1 show ?thesis by (subst decode_uri_component.simps) (simp add: encode_char_def)
  next
    case 2
    have "encode_char c = hex_byte (char_code c)" using 2 by (simp add: encode_char_def)
    then show ?thesis using 2(2) by (simp add: decode_percent [OF percent_byte_hex [OF lt]] drop_hex del: drop_append)
  next
    case 3
    define a b where "a = 192 + char_code c div 64" and "b = 128 + char_code c mod 64"
    have a: "a = 194 \<or> a = 195" using high_div [OF 3(2) lt] by (auto simp: a_def)
    have b: "128 \<le> b" "b < 192" by (simp_all add: b_def)
    have "(a - 192) * 64 + (b - 128) = char_code c" by (simp add: a_def b_def)
    then have r: "char_of ((a - 192) * 64 + (b - 128)) = c" by simp
    have e: "encode_char c = hex_byte a @ hex_byte b" using 3 by (simp add: encode_char_def a_def b_def)
    have pa: "percent_byte (hex_byte a @ hex_byte b @ s) = Some a" by (rule percent_byte_hex) (use a in auto)
    have pb: "percent_byte (hex_byte b @ s) = Some b" by (rule percent_byte_hex) (use b in auto)
    have "decode_uri_component (hex_byte a @ hex_byte b @ s)
        = map_option ((#) (char_of ((a - 192) * 64 + (b - 128)))) (decode_uri_component s)"
      using a b unfolding decode_percent [OF pa] drop_hex pb by auto
    then show ?thesis by (simp only: r e append_assoc)
  qed
qed

lemma decode_encode: "decode_uri_component (encode_uri_component s) = Some s"
proof (induction s)
  case Nil
  then show ?case by (simp add: encode_uri_component_def decode_uri_component.simps)
next
  case (Cons c s)
  then show ?case using decode_encode_char [of c "encode_uri_component s"] by (simp add: encode_uri_component_def)
qed

lemma encoded_clean:
  "\<forall>c \<in> set (encode_uri_component v). \<not> is_space c" "CHR '';'' \<notin> set (encode_uri_component v)"
  using encode_chars [of _ v] unreserved_clean by (fastforce simp: is_space_def)+

definition cookie_name_ok :: "string \<Rightarrow> bool" where
  "cookie_name_ok n \<longleftrightarrow> n \<noteq> [] \<and> list_all (\<lambda>c. \<not> is_space c \<and> c \<noteq> CHR ''='' \<and> c \<noteq> CHR '';'') n"

lemma trim_leading: "is_space c \<Longrightarrow> trim (c # s) = trim s"
  by (simp add: trim_def trim_start_def)

lemma cookie_pair_own:
  assumes "cookie_name_ok n" and "list_all is_space sp"
  shows "cookie_pair (sp @ n @ ''='' @ encode_uri_component v) = Some (n, v)"
proof -
  have t: "takeWhile (\<lambda>c. c \<noteq> CHR ''='') (sp @ n @ ''='' @ encode_uri_component v) = sp @ n"
    using assms not_space by (auto simp: cookie_name_ok_def list_all_iff takeWhile_append)
  have "trim (sp @ n) = n"
    using assms by (induction sp) (auto simp: trim_leading cookie_name_ok_def list_all_iff intro: trim_clean)
  then show ?thesis
    unfolding cookie_pair_def t Let_def
    using assms(1) by (simp add: trim_clean [OF encoded_clean(1)] decode_encode cookie_name_ok_def)
qed

lemma split_on_append_sep: "split_on d (a @ d # b) = split_on d a @ split_on d b"
  by (induction a) (auto split: list.splits)

lemma om_get_fold_set: "om_get (fold (\<lambda>(n, v). om_set n v) (ps @ [(n, v)]) m) n = Some v"
  by (simp add: om_get_set)

lemma parse_cookies_last:
  assumes "cookie_name_ok n" and "list_all is_space sp"
  shows "om_get (parse_cookies (Some (rest @ '';'' @ sp @ n @ ''='' @ encode_uri_component v))) n = Some v"
    and "om_get (parse_cookies (Some (sp @ n @ ''='' @ encode_uri_component v))) n = Some v"
proof -
  let ?p = "sp @ n @ ''='' @ encode_uri_component v"
  have "CHR '';'' \<notin> set ?p" using assms encoded_clean(2) [of v] not_space
    by (auto simp: cookie_name_ok_def list_all_iff)
  then have s: "split_on CHR '';'' ?p = [?p]" by (rule split_on_clean)
  have f: "List.map_filter cookie_pair (ws @ [?p]) = List.map_filter cookie_pair ws @ [(n, v)]" for ws
    using cookie_pair_own [OF assms, of v] by (simp add: map_filter_def)
  have "split_on CHR '';'' (rest @ '';'' @ ?p) = split_on CHR '';'' rest @ [?p]"
    using split_on_append_sep [of "CHR '';''" rest ?p] s by simp
  then show "om_get (parse_cookies (Some (rest @ '';'' @ ?p))) n = Some v"
    unfolding parse_cookies_def using f om_get_fold_set by simp
  show "om_get (parse_cookies (Some ?p)) n = Some v"
    unfolding parse_cookies_def using s f [of "[]"] om_get_fold_set [of "[]" n v "[]"] by (simp add: map_filter_def)
qed

text \<open>
  The cookie the proxy sets is the one that is read. After \<open>setCookieInHeader\<close> the header parses to the given value
  under the given name, whatever the client sent before it, for every value.
\<close>

theorem set_cookie_wins:
  assumes "cookie_name_ok name"
  shows "om_get (parse_cookies (Some (set_cookie_in_header h name v))) name = Some v"
  using parse_cookies_last(1) [OF assms, of "'' ''" _ v] parse_cookies_last(2) [OF assms, of "[]" v]
  by (auto simp: set_cookie_in_header_def Let_def not_space split: option.split)

theorem set_cookie_wins_witness:
  "om_get (parse_cookies (Some (set_cookie_in_header (Some ''bg_authenticated_user =mallory; a=1'') ''bg_authenticated_user'' ''ann; x''))) ''bg_authenticated_user''
     = Some ''ann; x''"
  by (rule set_cookie_wins) code_simp

text \<open>
  \<open>removeCookieFromHeader\<close> does not remove every cookie that \<open>parseCookies\<close> reads under the name: a client that
  writes a space before the equals sign keeps its cookie.
\<close>

theorem removed_cookie_still_read:
  "om_get (parse_cookies (remove_cookie_from_header (Some ''bg_authenticated_user =mallory'') ''bg_authenticated_user'')) ''bg_authenticated_user''
     = Some ''mallory''"
  by code_simp

section \<open>Sessions\<close>

lemma session_by_hash_Some:
  "session_by_hash k hash rows = Some s \<Longrightarrow> s \<in> set rows \<and> as_site_id s = k \<and> as_token_hash s = hash"
  unfolding session_by_hash_def by (induction rows) (auto split: if_splits)

lemma try_tokens_found:
  assumes "try_tokens e k ip now ts rows = (Some s, rows')"
  shows "s \<in> set rows" "as_site_id s = k" "as_revoked_at s = None" "now < as_expires_at s"
    "\<exists>t \<in> set ts. as_token_hash s = se_sha256_hex e t" "rows' = touch_session (as_id s) ip now rows"
proof -
  have "s \<in> set rows \<and> as_site_id s = k \<and> as_revoked_at s = None \<and> now < as_expires_at s \<and>
    (\<exists>t \<in> set ts. as_token_hash s = se_sha256_hex e t) \<and> rows' = touch_session (as_id s) ip now rows"
    using assms
    by (induction e k ip now ts rows rule: try_tokens.induct)
       (auto split: option.splits if_splits dest: session_by_hash_Some)
  then show "s \<in> set rows" "as_site_id s = k" "as_revoked_at s = None" "now < as_expires_at s"
    "\<exists>t \<in> set ts. as_token_hash s = se_sha256_hex e t" "rows' = touch_session (as_id s) ip now rows" by blast+
qed

text \<open>
  The session a request resolves to is valid. It is a row of the requested site that is neither revoked nor expired,
  its token was presented by the request, and resolving only touches that row.
\<close>

theorem found_session_is_valid:
  assumes "find_access_session e rq site ip now rows = (Some s, rows')"
  shows "s \<in> set rows \<and> as_site_id s = ss_id site \<and> as_revoked_at s = None \<and> now < as_expires_at s
    \<and> (\<exists>t \<in> set (request_tokens rq). as_token_hash s = se_sha256_hex e t)
    \<and> rows' = touch_session (as_id s) ip now rows"
  using try_tokens_found [OF assms [unfolded find_access_session_def]] by blast

text \<open>Only the cookie with the name the service chose, as the browser sends it back.\<close>

definition cookie_request :: "string \<Rightarrow> string \<Rightarrow> request" where
  "cookie_request name token = \<lparr>rq_method = ''GET'', rq_pathname = ''/'', rq_search = [],
     rq_headers = [(''cookie'', name @ ''='' @ encode_uri_component token)]\<rparr>"

lemma visitor_names_ok: "cookie_name_ok (visitor_cookie_name secure)"
proof -
  have "cookie_name_ok ''__Host-bg_session''" and "cookie_name_ok ''bg_session''" by code_simp+
  then show ?thesis by (simp add: visitor_cookie_name_def)
qed

lemma parse_own_cookie:
  assumes "cookie_name_ok n"
  shows "parse_cookies (Some (n @ ''='' @ encode_uri_component v)) = [(n, v)]"
proof -
  have "CHR '';'' \<notin> set (n @ ''='' @ encode_uri_component v)"
    using assms encoded_clean(2) [of v] by (auto simp: cookie_name_ok_def list_all_iff)
  then show ?thesis
    using cookie_pair_own [OF assms, of "[]" v]
    unfolding parse_cookies_def by (simp add: split_on_clean map_filter_def)
qed

lemma cookie_request_tokens: "token \<noteq> [] \<Longrightarrow> request_tokens (cookie_request (visitor_cookie_name secure) token) = [token]"
  by (simp add: request_tokens_def cookie_request_def header_def cookie_tokens_def
      parse_own_cookie [OF visitor_names_ok, simplified] visitor_cookie_names_def)
    (simp add: visitor_cookie_name_def om_get_def)

lemma find_append_fresh: "\<forall>x \<in> set xs. \<not> P x \<Longrightarrow> find P (xs @ [y]) = (if P y then Some y else None)"
  by (induction xs) auto

text \<open>
  C23: a session that was issued is found again until it expires. When a session is created with a token no row has the
  hash of, a request that sends the cookie back resolves to it at every time before its expiry, and to nothing
  from its expiry on or once it is revoked.
\<close>

theorem issued_session_is_found:
  assumes "create_access_session e https site ip ua summary required published token fresh now rows = (Inr (s, token', cookie), rows')"
    and "token \<noteq> []" and "\<forall>r \<in> set rows. as_token_hash r \<noteq> se_sha256_hex e token"
  shows "\<exists>name rest. cookie = name @ ''='' @ encode_uri_component token @ '';'' @ rest \<and>
     fst (find_access_session e (cookie_request name token) site ip' later rows')
       = (if later < now + int (ss_session_ttl_seconds site) * 1000 then Some s else None) \<and>
     fst (find_access_session e (cookie_request name token) site ip' later (revoke_session (as_id s) until rows')) = None"
proof -
  define secure where "secure = secure_cookie_for_request (se_mode e) https"
  have s: "as_site_id s = ss_id site" "as_token_hash s = se_sha256_hex e token" "as_revoked_at s = None"
      "as_expires_at s = now + int (ss_session_ttl_seconds site) * 1000" "rows' = rows @ [s]"
      "cookie = session_cookie secure token (ss_session_ttl_seconds site)"
    using assms(1) by (auto simp: create_access_session_def secure_def Let_def split: if_splits)
  have c: "\<exists>rest. cookie = visitor_cookie_name secure @ ''='' @ encode_uri_component token @ '';'' @ rest"
    unfolding s(6) session_cookie_def serialize_cookie_def by simp
  have f: "session_by_hash (ss_id site) (se_sha256_hex e token) rows' = Some s"
    unfolding s(5) session_by_hash_def using assms(3) s(1,2) by (subst find_append_fresh) auto
  have r: "session_by_hash (ss_id site) (se_sha256_hex e token) (revoke_session (as_id s) until rows') = Some (s\<lparr>as_revoked_at := Some until\<rparr>)"
    unfolding s(5) session_by_hash_def revoke_session_def map_append list.map
    using assms(3) s(1-3) by (subst find_append_fresh) auto
  obtain rest where "cookie = visitor_cookie_name secure @ ''='' @ encode_uri_component token @ '';'' @ rest" using c by blast
  moreover have "fst (find_access_session e (cookie_request (visitor_cookie_name secure) token) site ip' later rows')
       = (if later < now + int (ss_session_ttl_seconds site) * 1000 then Some s else None)"
    using s(3,4) by (simp add: find_access_session_def cookie_request_tokens [OF assms(2)] f)
  moreover have "fst (find_access_session e (cookie_request (visitor_cookie_name secure) token) site ip' later
      (revoke_session (as_id s) until rows')) = None"
    by (simp add: find_access_session_def cookie_request_tokens [OF assms(2)] r)
  ultimately show ?thesis by blast
qed

definition sample_session_env :: session_env where
  "sample_session_env = \<lparr>se_sha256_hex = rev, se_geo = \<lparr>validate_ip = (\<lambda>_. True), country_reader = None, asn_reader = None\<rparr>,
     se_mode = SecureAuto, se_ha_replica = False\<rparr>"

definition sample_session_site :: session_site where
  "sample_session_site = \<lparr>ss_id = ''s'', ss_session_ttl_seconds = 60\<rparr>"

lemma sample_session_created:
  obtains s cookie rows' where "create_access_session sample_session_env True sample_session_site ''8.8.8.8'' ''u'' [] True True ''t1'' ''id'' 0 []
    = (Inr (s, ''t1'', cookie), rows')" "as_id s = ''id''"
  by (simp add: create_access_session_def Let_def sample_session_env_def cookie_can_be_issued_def)

theorem issued_session_is_found_witness:
  "\<exists>s rows' name rest. create_access_session sample_session_env True sample_session_site ''8.8.8.8'' ''u'' [] True True ''t1'' ''id'' 0 []
       = (Inr (s, ''t1'', name @ ''='' @ encode_uri_component ''t1'' @ '';'' @ rest), rows') \<and>
     fst (find_access_session sample_session_env (cookie_request name ''t1'') sample_session_site ''1.1.1.1'' 59999 rows') = Some s"
proof -
  obtain s cookie rows' where c: "create_access_session sample_session_env True sample_session_site ''8.8.8.8'' ''u'' [] True True ''t1'' ''id'' 0 []
    = (Inr (s, ''t1'', cookie), rows')" by (rule sample_session_created)
  from issued_session_is_found [OF c, of "''1.1.1.1''" 59999 0] show ?thesis
    using c by (auto simp: sample_session_site_def)
qed

theorem found_session_is_valid_witness:
  "\<exists>s rows' rows''. fst (create_access_session sample_session_env True sample_session_site ''8.8.8.8'' ''u'' [] True True ''t1'' ''id'' 0 []) \<noteq> Inl InsecureCookieConfiguration \<and>
     find_access_session sample_session_env (cookie_request ''__Host-bg_session'' ''t1'') sample_session_site ''1.1.1.1'' 5 rows' = (Some s, rows'') \<and>
     as_revoked_at s = None \<and> 5 < as_expires_at s"
proof -
  obtain s cookie rows' where c: "create_access_session sample_session_env True sample_session_site ''8.8.8.8'' ''u'' [] True True ''t1'' ''id'' 0 []
    = (Inr (s, ''t1'', cookie), rows')" by (rule sample_session_created)
  have h: "rows' = [s]" "as_site_id s = ''s''" "as_token_hash s = ''1t''" "as_revoked_at s = None" "as_expires_at s = 60000"
    using c by (auto simp: create_access_session_def Let_def sample_session_env_def sample_session_site_def cookie_can_be_issued_def)
  have f: "find_access_session sample_session_env (cookie_request ''__Host-bg_session'' ''t1'') sample_session_site ''1.1.1.1'' 5 rows'
      = (Some s, touch_session (as_id s) ''1.1.1.1'' 5 rows')"
    using cookie_request_tokens [of "''t1''" True] h
    by (simp add: find_access_session_def visitor_cookie_name_def session_by_hash_def sample_session_env_def sample_session_site_def)
  show ?thesis
    using found_session_is_valid [OF f] f c by (intro exI [of _ s] exI [of _ rows'] exI) auto
qed

end
