(* ===== verification/Json.thy ===== *)
theory Json
  imports Prelude
begin

text \<open>
  Values of \<open>JSON.parse\<close> and the conversions \<open>String(x)\<close> and \<open>Number(x)\<close> that the sources apply
  to them. \<open>undefined\<close> (a missing field) is \<^term>\<open>None\<close>. The keys of an object are distinct. The text
  that \<open>String\<close> gives for a number is an argument, \<open>nt\<close>.
\<close>

datatype json = JNull | JBool bool | JNumber rat | JString string | JArray "json list"
  | JObject "(string \<times> json) list"

type_synonym js_value = "json option"

definition j_get :: "json \<Rightarrow> string \<Rightarrow> js_value" where
  "j_get v k = (case v of JObject fs \<Rightarrow> map_of fs k | _ \<Rightarrow> None)"

text \<open>\<open>answer && typeof answer === "object" ? answer : {}\<close>\<close>

definition object_or_empty :: "js_value \<Rightarrow> json" where
  "object_or_empty v = (case v of Some (JObject fs) \<Rightarrow> JObject fs | Some (JArray xs) \<Rightarrow> JArray xs | _ \<Rightarrow> JObject [])"

fun js_string :: "(rat \<Rightarrow> string) \<Rightarrow> json \<Rightarrow> string" where
  "js_string nt JNull = ''null''"
| "js_string nt (JBool b) = (if b then ''true'' else ''false'')"
| "js_string nt (JNumber r) = nt r"
| "js_string nt (JString s) = s"
| "js_string nt (JArray xs) = join '','' (map (\<lambda>x. if x = JNull then [] else js_string nt x) xs)"
| "js_string nt (JObject fs) = ''[object Object]''"

text \<open>\<open>String(x ?? "")\<close>\<close>

definition js_text :: "(rat \<Rightarrow> string) \<Rightarrow> js_value \<Rightarrow> string" where
  "js_text nt v = (case v of None \<Rightarrow> [] | Some JNull \<Rightarrow> [] | Some x \<Rightarrow> js_string nt x)"

definition js_to_number :: "(rat \<Rightarrow> string) \<Rightarrow> js_value \<Rightarrow> jsnum" where
  "js_to_number nt v =
     (case v of
        None \<Rightarrow> NaN
      | Some JNull \<Rightarrow> Fin 0
      | Some (JBool b) \<Rightarrow> Fin (if b then 1 else 0)
      | Some (JNumber r) \<Rightarrow> Fin r
      | Some (JString s) \<Rightarrow> js_number s
      | Some (JArray xs) \<Rightarrow> js_number (js_string nt (JArray xs))
      | Some (JObject fs) \<Rightarrow> NaN)"

text \<open>An integer within bounds: \<open>Number.isInteger(x) && x >= lo && x <= hi\<close>.\<close>

definition js_integer_in :: "(rat \<Rightarrow> string) \<Rightarrow> int \<Rightarrow> int \<Rightarrow> js_value \<Rightarrow> int option" where
  "js_integer_in nt lo hi v =
     (case js_integer (js_to_number nt v) of
        None \<Rightarrow> None
      | Some i \<Rightarrow> if lo \<le> i \<and> i \<le> hi then Some i else None)"

lemma js_integer_in_bounds: "js_integer_in nt lo hi v = Some i \<Longrightarrow> lo \<le> i \<and> i \<le> hi"
  by (auto simp: js_integer_in_def split: option.splits if_splits)

lemma js_to_number_int [simp]: "js_to_number nt (Some (JNumber r)) = Fin r"
  by (simp add: js_to_number_def)

lemma js_integer_in_int [simp]: "lo \<le> i \<Longrightarrow> i \<le> hi \<Longrightarrow> js_integer_in nt lo hi (Some (JNumber (of_int i))) = Some i"
  by (simp add: js_integer_in_def)

lemma j_get_object [simp]: "j_get (JObject fs) k = map_of fs k"
  by (simp add: j_get_def)

lemma object_or_empty_object [simp]: "object_or_empty (Some (JObject fs)) = JObject fs"
  by (simp add: object_or_empty_def)

section \<open>Results and lists\<close>

type_synonym 'a checked = "string + 'a"

definition and_then :: "'a checked \<Rightarrow> ('a \<Rightarrow> 'b checked) \<Rightarrow> 'b checked" where
  "and_then r f = (case r of Inl e \<Rightarrow> Inl e | Inr x \<Rightarrow> f x)"

fun check_all :: "('a \<Rightarrow> 'b checked) \<Rightarrow> 'a list \<Rightarrow> 'b list checked" where
  "check_all f [] = Inr []"
| "check_all f (x # xs) = and_then (f x) (\<lambda>y. and_then (check_all f xs) (\<lambda>ys. Inr (y # ys)))"

text \<open>\<open>[...new Set(xs)]\<close>\<close>

definition unique :: "'a list \<Rightarrow> 'a list" where
  "unique xs = rev (remdups (rev xs))"

text \<open>\<open>value === undefined || value === null || value === ""\<close>\<close>

definition is_absent :: "js_value \<Rightarrow> bool" where
  "is_absent v \<longleftrightarrow> v = None \<or> v = Some JNull \<or> v = Some (JString [])"

text \<open>\<open>value && typeof value === "object" && !Array.isArray(value) ? value : {}\<close>\<close>

definition input_object :: "js_value \<Rightarrow> json" where
  "input_object v = (case v of Some (JObject fs) \<Rightarrow> JObject fs | _ \<Rightarrow> JObject [])"

definition object_value :: "js_value \<Rightarrow> string \<Rightarrow> json checked" where
  "object_value v label = (case v of Some (JObject fs) \<Rightarrow> Inr (JObject fs) | _ \<Rightarrow> Inl label)"

text \<open>\<open>Array.isArray(value) ? value : String(value).split(/[\s,]+/u)\<close>, with \<open>String\<close> applied to the items.\<close>

fun split_words :: "string \<Rightarrow> string list" where
  "split_words [] = [[]]"
| "split_words (c # cs) =
     (if is_space c \<or> c = CHR '','' then [] # split_words cs
      else (c # hd (split_words cs)) # tl (split_words cs))"

definition raw_items :: "(rat \<Rightarrow> string) \<Rightarrow> js_value \<Rightarrow> string list" where
  "raw_items nt v =
     (case v of
        Some (JArray xs) \<Rightarrow> map (js_string nt) xs
      | Some x \<Rightarrow> split_words (js_string nt x)
      | None \<Rightarrow> split_words ''undefined'')"

section \<open>Characters of names\<close>

definition is_alnum :: "char \<Rightarrow> bool" where
  "is_alnum c \<longleftrightarrow> is_digit c \<or> is_lower c \<or> is_upper c"

definition is_token_char :: "char \<Rightarrow> bool" where
  "is_token_char c \<longleftrightarrow> is_alnum c \<or> c \<in> set ''!#$%&*+.^_|~-'' \<or> c = CHR 0x27 \<or> c = CHR 0x60"

definition http_token :: "string \<Rightarrow> bool" where
  "http_token s \<longleftrightarrow> s \<noteq> [] \<and> (\<forall>c \<in> set s. is_token_char c)"

definition normalized_header_name :: "string \<Rightarrow> string \<Rightarrow> string checked" where
  "normalized_header_name t label =
     (let name = to_lower (trim t) in
      if name = [] \<or> 128 < length name \<or> \<not> http_token name then Inl label else Inr name)"

section \<open>Writing\<close>

definition json_int :: "int \<Rightarrow> json" where
  "json_int i = JNumber (of_int i)"

definition json_strings :: "string list \<Rightarrow> json" where
  "json_strings xs = JArray (map JString xs)"

definition json_opt :: "('a \<Rightarrow> json) \<Rightarrow> 'a option \<Rightarrow> json" where
  "json_opt f v = (case v of None \<Rightarrow> JNull | Some x \<Rightarrow> f x)"

section \<open>Facts about them\<close>

named_theorems checked_simps \<open>results of the validation functions\<close>

lemma and_then_Inr [checked_simps]: "and_then (Inr x) f = f x"
  by (simp add: and_then_def)

lemma and_then_eq_Inr [checked_simps]: "and_then r f = Inr y \<longleftrightarrow> (\<exists>x. r = Inr x \<and> f x = Inr y)"
  by (cases r) (simp_all add: and_then_def)

lemma set_unique [simp]: "set (unique xs) = set xs"
  by (simp add: unique_def)

lemma distinct_unique [simp]: "distinct (unique xs)"
  by (simp add: unique_def)

lemma unique_distinct [simp]: "distinct xs \<Longrightarrow> unique xs = xs"
  by (simp add: unique_def distinct_remdups_id)

lemma check_all_Inr: "check_all f xs = Inr ys \<Longrightarrow> (\<forall>y \<in> set ys. \<exists>x \<in> set xs. f x = Inr y)"
  by (induction xs arbitrary: ys) (simp, fastforce simp: checked_simps)

lemma check_all_id: "(\<And>x. x \<in> set xs \<Longrightarrow> f x = Inr x) \<Longrightarrow> check_all f xs = Inr xs"
  by (induction xs) (auto simp: checked_simps)

lemma token_not_space: "is_token_char c \<Longrightarrow> \<not> is_space c"
  by (auto simp: is_token_char_def is_alnum_def char_class_defs)

lemma has_lower_lower_char: "\<not> has_lower (lower_char c)"
  using code_lt_256 [of c] by (auto simp: lower_char_def has_lower_def is_upper_def)

lemma to_lower_no_upper: "\<forall>c \<in> set s. \<not> has_lower c \<Longrightarrow> to_lower s = s"
  by (simp add: to_lower_def lower_char_def map_idI)

lemma to_upper_no_lower: "\<forall>c \<in> set s. \<not> has_upper c \<Longrightarrow> to_upper s = s"
  by (simp add: to_upper_def upper_char_def map_idI)

lemma clean_lower: "\<forall>c \<in> set s. \<not> is_space c \<and> \<not> has_lower c \<Longrightarrow> to_lower (trim s) = s"
  by (simp add: trim_clean to_lower_no_upper)

lemma clean_upper: "\<forall>c \<in> set s. \<not> is_space c \<and> \<not> has_upper c \<Longrightarrow> to_upper (trim s) = s"
  by (simp add: trim_clean to_upper_no_lower)

lemma char_kinds:
  "is_lower c \<Longrightarrow> \<not> is_space c \<and> \<not> has_lower c" "is_digit c \<Longrightarrow> \<not> is_space c \<and> \<not> has_lower c \<and> \<not> has_upper c"
  "is_upper c \<Longrightarrow> \<not> is_space c \<and> \<not> has_upper c"
  "c \<in> set ''.-_:+/'' \<Longrightarrow> \<not> is_space c \<and> \<not> has_lower c \<and> \<not> has_upper c"
  by (auto simp: char_class_defs)

lemma js_string_String [simp]: "js_string nt (JString s) = s"
  by simp

lemma raw_items_strings [simp]: "raw_items nt (Some (json_strings xs)) = xs"
  by (simp add: raw_items_def json_strings_def comp_def)

lemma absent_simps [simp]:
  "is_absent None" "is_absent (Some JNull)" "\<not> is_absent (Some (json_strings xs))" "\<not> is_absent (Some (json_int i))"
  "\<not> is_absent (Some (JBool b))"
  by (simp_all add: is_absent_def json_strings_def json_int_def)

lemma json_opt_simps [simp]: "json_opt f None = JNull" "json_opt f (Some x) = f x"
  by (simp_all add: json_opt_def)

lemma map_filter_clean: "(\<And>x. x \<in> set xs \<Longrightarrow> f x = x \<and> x \<noteq> []) \<Longrightarrow> filter (\<lambda>s. s \<noteq> []) (map f xs) = xs"
  by (induction xs) auto

lemma input_object_fields [simp]: "input_object (Some (JObject fs)) = JObject fs"
  by (simp add: input_object_def)

end
