(* ===== verification/Challenge_Providers.thy ===== *)
theory Challenge_Providers
  imports Json "HOL-Library.Multiset"
begin

text \<open>
  The challenges a visitor solves: \<open>src/src/challenges/providers/snake-engine.ts\<close>, \<open>snake.ts\<close>,
  \<open>quiz.ts\<close>, \<open>pow-sha256.ts\<close> and \<open>password.ts\<close>, with \<open>color-config.ts\<close> and \<open>countLeadingZeroBits\<close>
  of \<open>src/src/utils/crypto.ts\<close>.

  Configurations, private data and answers are JSON values. \<open>crypto.getRandomValues\<close> is a sequence of
  32-bit words and \<open>randomToken\<close> a text, both arguments; so are SHA-256 and the Argon2 check of \<open>Bun.password\<close>.
  \<open>rng() * (index + 1)\<close> of the seeded generator is a fraction over \<open>2^32\<close> with an exact product, so its floor
  is a division. A throw is \<open>Inl\<close> of the message.
\<close>

section \<open>Interface of a provider\<close>

record create_context =
  cc_flow_id :: string
  cc_site_id :: string
  cc_client_ip :: string
  cc_user_agent_hash :: string
  cc_expires_at :: time

record verify_context = create_context +
  cc_attempts :: nat
  cc_created_at :: time

record challenge_material =
  cm_public_data :: json
  cm_private_data :: json

datatype challenge_result = ChallengeSuccess | ChallengeFailure "string option"

record random_source =
  rs_words :: "nat \<Rightarrow> 32 word"
  rs_token :: string

record provider =
  pr_create :: "create_context \<Rightarrow> json \<Rightarrow> random_source \<Rightarrow> string + challenge_material"
  pr_verify :: "verify_context \<Rightarrow> json \<Rightarrow> json \<Rightarrow> js_value \<Rightarrow> time \<Rightarrow> string + challenge_result"

definition is_hex_color :: "string \<Rightarrow> bool" where
  "is_hex_color s \<longleftrightarrow> length s = 7 \<and> hd s = CHR ''#'' \<and> list_all (is_digit_of 16) (tl s)"

definition hex_color_config :: "json \<Rightarrow> string \<Rightarrow> string \<Rightarrow> string + string" where
  "hex_color_config config key fallback =
     (case j_get config key of
        None \<Rightarrow> Inr fallback
      | Some (JString v) \<Rightarrow> if is_hex_color v then Inr v else Inl (key @ '' must be a 6-digit hex color (e.g. #7c3aed)'')
      | Some _ \<Rightarrow> Inl (key @ '' must be a 6-digit hex color (e.g. #7c3aed)''))"

text \<open>Several colour fields in their order; the first bad one throws.\<close>

fun hex_colors :: "json \<Rightarrow> (string \<times> string) list \<Rightarrow> string + (string \<times> json) list" where
  "hex_colors config [] = Inr []"
| "hex_colors config ((key, fallback) # ks) =
     (case hex_color_config config key fallback of
        Inl e \<Rightarrow> Inl e
      | Inr v \<Rightarrow> (case hex_colors config ks of Inl e \<Rightarrow> Inl e | Inr vs \<Rightarrow> Inr ((key, JString v) # vs)))"

section \<open>The Snake engine\<close>

datatype direction = DirU | DirD | DirL | DirR

fun direction_delta :: "direction \<Rightarrow> int \<times> int" where
  "direction_delta DirU = (0, -1)"
| "direction_delta DirD = (0, 1)"
| "direction_delta DirL = (-1, 0)"
| "direction_delta DirR = (1, 0)"

fun opposite :: "direction \<Rightarrow> direction" where
  "opposite DirU = DirD"
| "opposite DirD = DirU"
| "opposite DirL = DirR"
| "opposite DirR = DirL"

text \<open>One call of the generator: the numerator over \<open>2^32\<close> and the next state.\<close>

definition mulberry32 :: "32 word \<Rightarrow> 32 word \<times> 32 word" where
  "mulberry32 t0 =
     (let t = t0 + 1831565813;
          r = (t XOR drop_bit 15 t) * (1 OR t);
          r' = (r + (r XOR drop_bit 7 r) * (61 OR r)) XOR r
      in (r' XOR drop_bit 14 r', t))"

definition scaled :: "32 word \<Rightarrow> nat \<Rightarrow> nat" where
  "scaled r n = unat r * n div 2 ^ 32"

definition swap_cells :: "nat \<Rightarrow> nat \<Rightarrow> 'a list \<Rightarrow> 'a list" where
  "swap_cells i j xs = xs[i := xs ! j, j := xs ! i]"

primrec shuffle_down :: "nat \<Rightarrow> 32 word \<Rightarrow> nat list \<Rightarrow> nat list" where
  "shuffle_down 0 t cells = cells"
| "shuffle_down (Suc i) t cells =
     shuffle_down i (snd (mulberry32 t)) (swap_cells (Suc i) (scaled (fst (mulberry32 t)) (Suc (Suc i))) cells)"

definition shuffled_cells :: "nat \<Rightarrow> 32 word \<Rightarrow> nat list" where
  "shuffled_cells grid_size t = shuffle_down (grid_size * grid_size - 1) t [0..<grid_size * grid_size]"

definition cell_index :: "int \<Rightarrow> int \<Rightarrow> nat \<Rightarrow> nat" where
  "cell_index x y grid_size = nat (x + y * int grid_size)"

definition initial_body :: "nat \<Rightarrow> nat list" where
  "initial_body grid_size =
     (let h = int (grid_size div 2)
      in [cell_index h h grid_size, cell_index (h - 1) h grid_size, cell_index (h - 2) h grid_size])"

text \<open>Past the end of the list the cell is \<open>undefined\<close>, which no body occupies.\<close>

function next_apple_position :: "nat list \<Rightarrow> nat \<Rightarrow> nat list \<Rightarrow> nat option \<times> nat" where
  "next_apple_position cells pointer occupied =
     (if pointer < length cells \<and> cells ! pointer \<in> set occupied
      then next_apple_position cells (Suc pointer) occupied
      else (if pointer < length cells then Some (cells ! pointer) else None, Suc pointer))"
  by pat_completeness auto
termination by (relation "measure (\<lambda>(cells, pointer, _). length cells - pointer)") auto

declare next_apple_position.simps [simp del]

record snake_game =
  sg_body :: "nat list"
  sg_direction :: direction
  sg_eaten :: nat
  sg_apple :: "nat option \<times> nat"

datatype snake_result = SnakeSuccess nat | HitWall nat | HitSelf nat | TooFewApples nat

datatype snake_move = SnakeOver snake_result | SnakeGoesOn snake_game

definition snake_step :: "nat \<Rightarrow> nat list \<Rightarrow> nat \<Rightarrow> direction \<Rightarrow> snake_game \<Rightarrow> snake_move" where
  "snake_step grid_size cells apples_required move g =
     (let effective = (if length (sg_body g) > 1 \<and> move = opposite (sg_direction g) then sg_direction g else move);
          head_index = hd (sg_body g);
          new_x = int (head_index mod grid_size) + fst (direction_delta effective);
          new_y = int (head_index div grid_size) + snd (direction_delta effective)
      in if new_x < 0 \<or> new_x \<ge> int grid_size \<or> new_y < 0 \<or> new_y \<ge> int grid_size
         then SnakeOver (HitWall (sg_eaten g))
         else
           let new_head = cell_index new_x new_y grid_size;
               will_grow = (Some new_head = fst (sg_apple g));
               body_without_tail = (if will_grow then sg_body g else butlast (sg_body g))
           in if new_head \<in> set body_without_tail then SnakeOver (HitSelf (sg_eaten g))
              else
                let g1 = g\<lparr>sg_body := new_head # body_without_tail, sg_direction := effective\<rparr>
                in if \<not> will_grow then SnakeGoesOn g1
                   else
                     let eaten = Suc (sg_eaten g)
                     in if eaten \<ge> apples_required then SnakeOver (SnakeSuccess eaten)
                        else SnakeGoesOn (g1\<lparr>sg_eaten := eaten,
                          sg_apple := next_apple_position cells (snd (sg_apple g)) (new_head # body_without_tail)\<rparr>))"

fun snake_replay :: "nat \<Rightarrow> nat list \<Rightarrow> nat \<Rightarrow> direction list \<Rightarrow> snake_game \<Rightarrow> snake_result" where
  "snake_replay grid_size cells apples_required [] g = TooFewApples (sg_eaten g)"
| "snake_replay grid_size cells apples_required (m # ms) g =
     (case snake_step grid_size cells apples_required m g of
        SnakeOver r \<Rightarrow> r
      | SnakeGoesOn g' \<Rightarrow> snake_replay grid_size cells apples_required ms g')"

definition snake_start :: "nat \<Rightarrow> nat list \<Rightarrow> snake_game" where
  "snake_start grid_size cells =
     \<lparr>sg_body = initial_body grid_size, sg_direction = DirR, sg_eaten = 0,
      sg_apple = next_apple_position cells 0 (initial_body grid_size)\<rparr>"

definition simulate_snake :: "32 word \<Rightarrow> nat \<Rightarrow> nat \<Rightarrow> direction list \<Rightarrow> snake_result" where
  "simulate_snake seed grid_size apples_required moves =
     (let cells = shuffled_cells grid_size seed
      in snake_replay grid_size cells apples_required moves (snake_start grid_size cells))"

section \<open>The Snake provider\<close>

definition snake_grid_size :: "(rat \<Rightarrow> string) \<Rightarrow> json \<Rightarrow> string + int" where
  "snake_grid_size nt config =
     (case js_integer_in nt 10 40 (j_get config ''gridSize'') of
        Some v \<Rightarrow> Inr v | None \<Rightarrow> Inl ''Snake grid size must be an integer from 10 to 40'')"

definition snake_apples_required :: "(rat \<Rightarrow> string) \<Rightarrow> json \<Rightarrow> string + int" where
  "snake_apples_required nt config =
     (case js_integer_in nt 1 30 (j_get config ''applesRequired'') of
        Some v \<Rightarrow> Inr v | None \<Rightarrow> Inl ''Snake apples required must be an integer from 1 to 30'')"

definition snake_tick_ms :: "(rat \<Rightarrow> string) \<Rightarrow> json \<Rightarrow> string + int" where
  "snake_tick_ms nt config =
     (if j_get config ''tickMs'' = None then Inr 150
      else case js_integer_in nt 60 500 (j_get config ''tickMs'') of
        Some v \<Rightarrow> Inr v | None \<Rightarrow> Inl ''Snake speed must be an integer from 60 to 500 milliseconds'')"

definition snake_max_moves :: "nat \<Rightarrow> nat" where
  "snake_max_moves size1 = min 6000 (size1 * size1 * 6)"

definition snake_colors :: "(string \<times> string) list" where
  "snake_colors = [(''backgroundColor'', ''#0b1220''), (''appleColor'', ''#22d3ee''),
     (''snakeColor'', ''#7c3aed''), (''snakeHeadColor'', ''#a78bfa'')]"

definition snake_validate_config :: "(rat \<Rightarrow> string) \<Rightarrow> json \<Rightarrow> string + unit" where
  "snake_validate_config nt config =
     (case snake_grid_size nt config of Inl e \<Rightarrow> Inl e | Inr _ \<Rightarrow>
      case snake_apples_required nt config of Inl e \<Rightarrow> Inl e | Inr _ \<Rightarrow>
      case snake_tick_ms nt config of Inl e \<Rightarrow> Inl e | Inr _ \<Rightarrow>
      case hex_colors config snake_colors of Inl e \<Rightarrow> Inl e | Inr _ \<Rightarrow> Inr ())"

definition snake_private_data :: "32 word \<Rightarrow> int \<Rightarrow> int \<Rightarrow> json" where
  "snake_private_data seed size1 apples =
     JObject [(''seed'', JNumber (of_nat (unat seed))), (''gridSize'', JNumber (of_int size1)),
       (''applesRequired'', JNumber (of_int apples))]"

definition snake_create :: "(rat \<Rightarrow> string) \<Rightarrow> json \<Rightarrow> random_source \<Rightarrow> string + challenge_material" where
  "snake_create nt config rs =
     (case snake_grid_size nt config of Inl e \<Rightarrow> Inl e | Inr size1 \<Rightarrow>
      case snake_apples_required nt config of Inl e \<Rightarrow> Inl e | Inr apples \<Rightarrow>
      case snake_tick_ms nt config of Inl e \<Rightarrow> Inl e | Inr speed \<Rightarrow>
      let seed = rs_words rs 0 in
      case hex_colors config snake_colors of Inl e \<Rightarrow> Inl e | Inr colors \<Rightarrow>
        Inr \<lparr>cm_public_data = JObject ([(''kind'', JString ''snake''), (''seed'', JNumber (of_nat (unat seed))),
               (''gridSize'', JNumber (of_int size1)), (''applesRequired'', JNumber (of_int apples)),
               (''tickMs'', JNumber (of_int speed))] @ colors),
             cm_private_data = snake_private_data seed size1 apples\<rparr>)"

fun direction_of :: "char \<Rightarrow> direction option" where
  "direction_of c = (if c = CHR ''U'' then Some DirU else if c = CHR ''D'' then Some DirD
     else if c = CHR ''L'' then Some DirL else if c = CHR ''R'' then Some DirR else None)"

definition parse_moves :: "string \<Rightarrow> direction list option" where
  "parse_moves s = (if s = [] then None else those (map direction_of s))"

definition plausible_gap :: "rat \<Rightarrow> json \<Rightarrow> bool" where
  "plausible_gap tick_floor v = (case v of JNumber gap \<Rightarrow> gap \<ge> tick_floor | _ \<Rightarrow> False)"

definition plausible_pacing :: "rat \<Rightarrow> nat \<Rightarrow> js_value \<Rightarrow> bool" where
  "plausible_pacing tick_floor n v =
     (case v of Some (JArray gaps) \<Rightarrow> length gaps = n \<and> list_all (plausible_gap tick_floor) gaps | _ \<Rightarrow> False)"

definition natural_field :: "(rat \<Rightarrow> string) \<Rightarrow> json \<Rightarrow> string \<Rightarrow> nat" where
  "natural_field nt v k = (case js_integer (js_to_number nt (j_get v k)) of Some i \<Rightarrow> nat i | None \<Rightarrow> 0)"

definition snake_failure :: "string + challenge_result" where
  "snake_failure = Inr (ChallengeFailure (Some ''snakeChallengeFailed''))"

definition snake_verify ::
  "(rat \<Rightarrow> string) \<Rightarrow> time \<Rightarrow> json \<Rightarrow> json \<Rightarrow> js_value \<Rightarrow> time \<Rightarrow> string + challenge_result" where
  "snake_verify nt created_at config private_data answer now =
     (let answer_object = object_or_empty answer;
          size1 = natural_field nt private_data ''gridSize''
      in case parse_moves (js_text nt (j_get answer_object ''moves'')) of
           None \<Rightarrow> snake_failure
         | Some moves \<Rightarrow>
             if length moves > snake_max_moves size1 then snake_failure
             else case snake_tick_ms nt config of Inl e \<Rightarrow> Inl e | Inr speed \<Rightarrow>
               if of_int (now - created_at) < of_nat (length moves) * of_int speed * (85 / 100 :: rat) then snake_failure
               else if \<not> plausible_pacing (of_int speed * (1 / 2)) (length moves) (j_get answer_object ''timings'')
               then snake_failure
               else (case simulate_snake (of_nat (natural_field nt private_data ''seed'')) size1
                           (natural_field nt private_data ''applesRequired'') moves of
                       SnakeSuccess _ \<Rightarrow> Inr ChallengeSuccess
                     | _ \<Rightarrow> snake_failure))"

section \<open>The quiz provider\<close>

record qa_entry =
  qa_question :: string
  qa_correct :: "string list"
  qa_wrong :: "string list"

text \<open>\<open>[...new Set(xs)]\<close>: the first occurrence of each element stays.\<close>

fun uniq :: "'a list \<Rightarrow> 'a list" where
  "uniq [] = []"
| "uniq (x # xs) = x # uniq (filter (\<lambda>y. y \<noteq> x) xs)"

definition answer_texts :: "(rat \<Rightarrow> string) \<Rightarrow> json list \<Rightarrow> string list" where
  "answer_texts nt vs = uniq (filter (\<lambda>t. t \<noteq> []) (map (\<lambda>v. trim (js_text nt (Some v))) vs))"

definition parse_qa_entry :: "(rat \<Rightarrow> string) \<Rightarrow> json \<Rightarrow> nat \<Rightarrow> string + qa_entry" where
  "parse_qa_entry nt raw index1 =
     (let name = ''Question '' @ nat_text (Suc index1) in
      case raw of JObject fs \<Rightarrow>
        let question = trim (js_text nt (map_of fs ''question'')) in
        if question = [] \<or> length question > 300 then Inl (name @ '' text must be 1 to 300 characters'')
        else (case map_of fs ''correctAnswers'' of Some (JArray raw_correct) \<Rightarrow>
          let correct = answer_texts nt raw_correct in
          if length correct < 1 \<or> length correct > 10 then Inl (name @ '' must have 1 to 10 correct answers'')
          else if \<exists>v \<in> set correct. length v > 200 then Inl (name @ CHR 0x27 # ''s correct answers must be at most 200 characters'')
          else (case map_of fs ''wrongAnswers'' of Some (JArray raw_wrong) \<Rightarrow>
            let wrong = filter (\<lambda>v. v \<notin> set correct) (answer_texts nt raw_wrong) in
            if length wrong < 1 \<or> length wrong > 20 then Inl (name @ '' must have 1 to 20 wrong answers'')
            else if \<exists>v \<in> set wrong. length v > 200 then Inl (name @ CHR 0x27 # ''s wrong answers must be at most 200 characters'')
            else Inr \<lparr>qa_question = question, qa_correct = correct, qa_wrong = wrong\<rparr>
          | _ \<Rightarrow> Inl (name @ '' wrong answers must be a list''))
        | _ \<Rightarrow> Inl (name @ '' correct answers must be a list''))
      | _ \<Rightarrow> Inl (name @ '' must be an object''))"

fun parse_qa_entries :: "(rat \<Rightarrow> string) \<Rightarrow> nat \<Rightarrow> json list \<Rightarrow> string + qa_entry list" where
  "parse_qa_entries nt i [] = Inr []"
| "parse_qa_entries nt i (v # vs) =
     (case parse_qa_entry nt v i of
        Inl e \<Rightarrow> Inl e
      | Inr q \<Rightarrow> (case parse_qa_entries nt (Suc i) vs of Inl e \<Rightarrow> Inl e | Inr qs \<Rightarrow> Inr (q # qs)))"

definition questions_config :: "(rat \<Rightarrow> string) \<Rightarrow> json \<Rightarrow> string + qa_entry list" where
  "questions_config nt config =
     (case j_get config ''questions'' of Some (JArray raw) \<Rightarrow>
        if length raw < 1 \<or> length raw > 50 then Inl ''Questions must contain 1 to 50 entries''
        else parse_qa_entries nt 0 raw
      | _ \<Rightarrow> Inl ''Questions must be a list'')"

definition question_count_config :: "(rat \<Rightarrow> string) \<Rightarrow> json \<Rightarrow> string + int" where
  "question_count_config nt config =
     (if j_get config ''questionCount'' = None then Inr 3
      else case js_integer_in nt 1 20 (j_get config ''questionCount'') of
        Some v \<Rightarrow> Inr v | None \<Rightarrow> Inl ''Question count must be an integer from 1 to 20'')"

definition pass_percent_config :: "(rat \<Rightarrow> string) \<Rightarrow> json \<Rightarrow> string + int" where
  "pass_percent_config nt config =
     (if j_get config ''passPercent'' = None then Inr 100
      else case js_integer_in nt 1 100 (j_get config ''passPercent'') of
        Some v \<Rightarrow> Inr v | None \<Rightarrow> Inl ''Pass threshold must be an integer percentage from 1 to 100'')"

definition random_int :: "(nat \<Rightarrow> 32 word) \<Rightarrow> nat \<Rightarrow> nat \<Rightarrow> nat" where
  "random_int w k max_exclusive = unat (w k) mod max_exclusive"

text \<open>The number of random words used so far is threaded through.\<close>

primrec pick_random :: "(nat \<Rightarrow> 32 word) \<Rightarrow> nat \<Rightarrow> 'a list \<Rightarrow> nat \<Rightarrow> 'a list \<times> nat" where
  "pick_random w 0 copy k = ([], k)"
| "pick_random w (Suc n) copy k =
     (if copy = [] then ([], k)
      else let i = random_int w k (length copy);
               r = pick_random w n (take i copy @ drop (Suc i) copy) (Suc k)
           in (copy ! i # fst r, snd r))"

primrec shuffle_random :: "(nat \<Rightarrow> 32 word) \<Rightarrow> nat \<Rightarrow> 'a list \<Rightarrow> nat \<Rightarrow> 'a list \<times> nat" where
  "shuffle_random w 0 copy k = (copy, k)"
| "shuffle_random w (Suc i) copy k =
     shuffle_random w i (swap_cells (Suc i) (random_int w k (Suc (Suc i))) copy) (Suc k)"

record quiz_round =
  qr_question :: string
  qr_options :: "string list"

fun quiz_rounds :: "(nat \<Rightarrow> 32 word) \<Rightarrow> qa_entry list \<Rightarrow> nat \<Rightarrow> (quiz_round \<times> string) list" where
  "quiz_rounds w [] k = []"
| "quiz_rounds w (e # es) k =
     (let c = pick_random w 1 (qa_correct e) k;
          wr = pick_random w (min 3 (length (qa_wrong e))) (qa_wrong e) (snd c);
          options = hd (fst c) # fst wr;
          sh = shuffle_random w (length options - 1) options (snd wr)
      in (\<lparr>qr_question = qa_question e, qr_options = fst sh\<rparr>, hd (fst c)) # quiz_rounds w es (snd sh))"

definition quiz_colors :: "(string \<times> string) list" where
  "quiz_colors = [(''optionColor'', ''#0f172a''), (''optionBorderColor'', ''#202d4b''),
     (''optionTextColor'', ''#e5e7eb''), (''accentColor'', ''#7c3aed'')]"

definition quiz_validate_config :: "(rat \<Rightarrow> string) \<Rightarrow> json \<Rightarrow> string + unit" where
  "quiz_validate_config nt config =
     (case questions_config nt config of Inl e \<Rightarrow> Inl e | Inr _ \<Rightarrow>
      case question_count_config nt config of Inl e \<Rightarrow> Inl e | Inr _ \<Rightarrow>
      case pass_percent_config nt config of Inl e \<Rightarrow> Inl e | Inr _ \<Rightarrow>
      case hex_colors config quiz_colors of Inl e \<Rightarrow> Inl e | Inr _ \<Rightarrow> Inr ())"

definition round_json :: "quiz_round \<Rightarrow> json" where
  "round_json r = JObject [(''question'', JString (qr_question r)), (''options'', JArray (map JString (qr_options r)))]"

definition quiz_create :: "(rat \<Rightarrow> string) \<Rightarrow> json \<Rightarrow> random_source \<Rightarrow> string + challenge_material" where
  "quiz_create nt config rs =
     (case questions_config nt config of Inl e \<Rightarrow> Inl e | Inr questions \<Rightarrow>
      case question_count_config nt config of Inl e \<Rightarrow> Inl e | Inr configured \<Rightarrow>
      let chosen = pick_random (rs_words rs) (min (nat configured) (length questions)) questions 0;
          rounds = quiz_rounds (rs_words rs) (fst chosen) (snd chosen) in
      case hex_colors config quiz_colors of Inl e \<Rightarrow> Inl e | Inr colors \<Rightarrow>
        Inr \<lparr>cm_public_data = JObject ([(''kind'', JString ''quiz''), (''rounds'', JArray (map (round_json \<circ> fst) rounds))] @ colors),
             cm_private_data = JObject [(''correct'', JArray (map (JString \<circ> snd) rounds))]\<rparr>)"

definition correct_count :: "json list \<Rightarrow> json list \<Rightarrow> nat" where
  "correct_count submitted correct =
     length (filter (\<lambda>(choice, right). case choice of JString t \<Rightarrow> choice = right | _ \<Rightarrow> False) (zip submitted correct))"

definition quiz_failure :: "string + challenge_result" where
  "quiz_failure = Inr (ChallengeFailure (Some ''wrongAnswer''))"

definition quiz_verify :: "(rat \<Rightarrow> string) \<Rightarrow> json \<Rightarrow> json \<Rightarrow> js_value \<Rightarrow> string + challenge_result" where
  "quiz_verify nt config private_data answer =
     (let correct = (case j_get private_data ''correct'' of Some (JArray cs) \<Rightarrow> cs | _ \<Rightarrow> []) in
      case j_get (object_or_empty answer) ''choices'' of
        Some (JArray submitted) \<Rightarrow>
          if length submitted \<noteq> length correct \<or> correct = [] then quiz_failure
          else (case pass_percent_config nt config of Inl e \<Rightarrow> Inl e | Inr percent \<Rightarrow>
            if int (correct_count submitted correct) < \<lceil>of_int percent / 100 * (of_nat (length correct) :: rat)\<rceil>
            then quiz_failure else Inr ChallengeSuccess)
      | _ \<Rightarrow> quiz_failure)"

section \<open>Proof of work and password\<close>

fun count_leading_zero_bits :: "string \<Rightarrow> nat" where
  "count_leading_zero_bits [] = 0"
| "count_leading_zero_bits (c # cs) =
     (if char_code c = 0 then 8 + count_leading_zero_bits cs else 8 - length (to_base 2 (char_code c)))"

definition pow_difficulty :: "(rat \<Rightarrow> string) \<Rightarrow> json \<Rightarrow> string + int" where
  "pow_difficulty nt config =
     (case js_integer_in nt 8 63 (case j_get config ''difficulty'' of None \<Rightarrow> Some (JNumber 18) | Some JNull \<Rightarrow> Some (JNumber 18) | v \<Rightarrow> v) of
        Some v \<Rightarrow> Inr v | None \<Rightarrow> Inl ''PoW difficulty must be an integer from 8 to 63'')"

definition pow_create :: "(rat \<Rightarrow> string) \<Rightarrow> create_context \<Rightarrow> json \<Rightarrow> random_source \<Rightarrow> string + challenge_material" where
  "pow_create nt ctx config rs =
     (case pow_difficulty nt config of Inl e \<Rightarrow> Inl e | Inr bits \<Rightarrow>
        Inr \<lparr>cm_public_data = JObject [(''kind'', JString ''pow-sha256''), (''seed'', JString (rs_token rs)),
               (''difficulty'', JNumber (of_int bits)), (''expiresAt'', JNumber (of_int (cc_expires_at ctx)))],
             cm_private_data = JObject [(''seed'', JString (rs_token rs)), (''difficulty'', JNumber (of_int bits))]\<rparr>)"

definition pow_verify :: "(rat \<Rightarrow> string) \<Rightarrow> (string \<Rightarrow> string) \<Rightarrow> json \<Rightarrow> js_value \<Rightarrow> string + challenge_result" where
  "pow_verify nt sha256 private_data answer =
     (if \<not> (case answer of Some (JObject _) \<Rightarrow> True | Some (JArray _) \<Rightarrow> True | _ \<Rightarrow> False)
      then Inr (ChallengeFailure (Some ''Missing proof''))
      else let nonce = js_text nt (j_get (the answer) ''nonce'') in
        if \<not> (all_digits nonce \<and> length nonce \<le> 20) then Inr (ChallengeFailure (Some ''Invalid nonce''))
        else let seed = js_text nt (j_get private_data ''seed'');
                 bits = natural_field nt private_data ''difficulty''
             in if count_leading_zero_bits (sha256 (seed @ '':'' @ nonce)) \<ge> bits then Inr ChallengeSuccess
                else Inr (ChallengeFailure (Some ''Proof does not meet target'')))"

definition password_config :: "json \<Rightarrow> string + string" where
  "password_config config =
     (case j_get config ''password'' of
        Some (JString v) \<Rightarrow> if trim v = [] \<or> length v > 256 then Inl ''A password is required'' else Inr v
      | _ \<Rightarrow> Inl ''A password is required'')"

definition password_create :: "json \<Rightarrow> string + challenge_material" where
  "password_create config =
     (case password_config config of Inl e \<Rightarrow> Inl e | Inr v \<Rightarrow>
        Inr \<lparr>cm_public_data = JObject [(''kind'', JString ''password'')],
             cm_private_data = JObject [(''passwordHash'', JString v)]\<rparr>)"

definition password_verify :: "(rat \<Rightarrow> string) \<Rightarrow> (string \<Rightarrow> string \<Rightarrow> bool) \<Rightarrow> json \<Rightarrow> js_value \<Rightarrow> string + challenge_result" where
  "password_verify nt argon2_verify private_data answer =
     (let submitted = js_text nt (j_get (object_or_empty answer) ''password'');
          hash = js_text nt (j_get private_data ''passwordHash'');
          failure = Inr (ChallengeFailure (Some ''incorrectPassword''))
      in if submitted = [] \<or> hash = [] then failure
         else if argon2_verify submitted hash then Inr ChallengeSuccess else failure)"

section \<open>The registry\<close>

text \<open>The providers of the registry that are modelled, by name; another name has no provider here.\<close>

definition challenge_registry ::
  "(rat \<Rightarrow> string) \<Rightarrow> (string \<Rightarrow> string) \<Rightarrow> (string \<Rightarrow> string \<Rightarrow> bool) \<Rightarrow> string \<Rightarrow> provider option" where
  "challenge_registry nt sha256 argon2_verify = map_of
     [(''pow-sha256'', \<lparr>pr_create = pow_create nt, pr_verify = (\<lambda>ctx config priv answer now. pow_verify nt sha256 priv answer)\<rparr>),
      (''snake'', \<lparr>pr_create = (\<lambda>ctx. snake_create nt),
         pr_verify = (\<lambda>ctx config priv answer now. snake_verify nt (cc_created_at ctx) config priv answer now)\<rparr>),
      (''password'', \<lparr>pr_create = (\<lambda>ctx config rs. password_create config),
         pr_verify = (\<lambda>ctx config priv answer now. password_verify nt argon2_verify priv answer)\<rparr>),
      (''quiz'', \<lparr>pr_create = (\<lambda>ctx. quiz_create nt),
         pr_verify = (\<lambda>ctx config priv answer now. quiz_verify nt config priv answer)\<rparr>)]"

section \<open>The apples\<close>

lemma scaled_less: "0 < n \<Longrightarrow> scaled r n < n"
proof -
  assume "0 < n"
  moreover have "unat r < 2 ^ LENGTH(32)" by (rule unsigned_less)
  ultimately have "unat r * n < 2 ^ 32 * n" by simp
  then show ?thesis unfolding scaled_def by (simp add: div_less_iff_less_mult mult.commute)
qed

lemma mset_swap_cells: "i < length xs \<Longrightarrow> j < length xs \<Longrightarrow> mset (swap_cells i j xs) = mset xs"
  unfolding swap_cells_def by (rule mset_swap)

lemma mset_shuffle_down: "n < length cells \<or> n = 0 \<Longrightarrow> mset (shuffle_down n t cells) = mset cells"
proof (induction n arbitrary: t cells)
  case (Suc i)
  let ?j = "scaled (fst (mulberry32 t)) (Suc (Suc i))"
  have "?j < length cells" and l: "Suc i < length cells"
    using scaled_less [of "Suc (Suc i)" "fst (mulberry32 t)"] Suc.prems by simp_all
  then have "mset (swap_cells (Suc i) ?j cells) = mset cells" by (simp add: mset_swap_cells)
  then show ?case using Suc.IH [of "swap_cells (Suc i) ?j cells"] l by (simp add: swap_cells_def)
qed simp

lemma shuffled_cells_mset: "mset (shuffled_cells g t) = mset [0..<g * g]"
  unfolding shuffled_cells_def by (rule mset_shuffle_down) auto

lemma shuffled_cells_set: "set (shuffled_cells g t) = {..<g * g}" "length (shuffled_cells g t) = g * g"
    "distinct (shuffled_cells g t)"
  using shuffled_cells_mset [of g t] mset_eq_setD mset_eq_length mset_eq_imp_distinct_iff
  by (fastforce, fastforce, metis distinct_upt)

text \<open>
  A search for the next apple passes only cells the body occupies, so at most as many as the body is long.
\<close>

lemma next_apple_found:
  assumes "distinct cells" and "pointer + length body < length cells"
  shows "\<exists>a p. next_apple_position cells pointer body = (Some a, p) \<and> a \<notin> set body \<and> a \<in> set cells
    \<and> p \<le> Suc (pointer + length body)"
proof -
  define i where "i = (LEAST i. pointer \<le> i \<and> (i < length cells \<longrightarrow> cells ! i \<notin> set body))"
  have ex: "\<exists>i. pointer \<le> i \<and> (i < length cells \<longrightarrow> cells ! i \<notin> set body)"
    by (rule exI [of _ "pointer + length cells"]) simp
  have i: "pointer \<le> i" "i < length cells \<longrightarrow> cells ! i \<notin> set body"
    using LeastI_ex [OF ex] unfolding i_def by blast+
  have before: "k < length cells \<and> cells ! k \<in> set body" if "pointer \<le> k" "k < i" for k
    using not_less_Least [of k, folded i_def] that(2)[unfolded i_def] that(1) by (metis (no_types, lifting))
  have "(!) cells ` {pointer..<i} \<subseteq> set body" using before by auto
  then have "card ((!) cells ` {pointer..<i}) \<le> length body"
    by (meson card_length card_mono finite_set le_trans)
  moreover have "inj_on ((!) cells) {pointer..<i}"
    using assms(1) before by (intro inj_onI) (metis atLeastLessThan_iff nth_eq_iff_index_eq)
  ultimately have b: "i - pointer \<le> length body" by (simp add: card_image)
  have "next_apple_position cells k body = (if i < length cells then Some (cells ! i) else None, Suc i)"
    if "pointer \<le> k" "k \<le> i" for k
    using that
  proof (induction "i - k" arbitrary: k)
    case 0
    then show ?case using i by (subst next_apple_position.simps) auto
  next
    case (Suc d)
    then have "k < i" by simp
    then show ?case using before [of k] Suc by (subst next_apple_position.simps) auto
  qed
  then have "next_apple_position cells pointer body = (Some (cells ! i), Suc i)"
    using i b assms(2) by auto
  then show ?thesis using i b assms(2) by auto
qed

section \<open>The rules of Snake\<close>

definition neighbours :: "nat \<Rightarrow> nat \<Rightarrow> nat \<Rightarrow> bool" where
  "neighbours grid_size a b \<longleftrightarrow> a < grid_size * grid_size \<and> b < grid_size * grid_size \<and>
     \<bar>int (a mod grid_size) - int (b mod grid_size)\<bar> + \<bar>int (a div grid_size) - int (b div grid_size)\<bar> = 1"

text \<open>
  The rule book, on cell numbers and without the state of the engine. The cell next to another in a direction,
  if the board goes on there; the heading after a key press, which cannot turn the snake around; and the first
  cell, in an order of cells and from a position on, that is free.
\<close>

fun cell_towards :: "nat \<Rightarrow> nat \<Rightarrow> direction \<Rightarrow> nat option" where
  "cell_towards n c DirU = (if c < n then None else Some (c - n))"
| "cell_towards n c DirD = (if n * n \<le> c + n then None else Some (c + n))"
| "cell_towards n c DirL = (if c mod n = 0 then None else Some (c - 1))"
| "cell_towards n c DirR = (if Suc c mod n = 0 then None else Some (c + 1))"

definition heading :: "direction \<Rightarrow> direction \<Rightarrow> direction" where
  "heading d m = (if m = opposite d then d else m)"

definition first_free :: "nat list \<Rightarrow> nat list \<Rightarrow> nat \<Rightarrow> nat \<Rightarrow> bool" where
  "first_free cells b from j \<longleftrightarrow> from \<le> j \<and> j < length cells \<and> cells ! j \<notin> set b \<and> (\<forall>k. from \<le> k \<and> k < j \<longrightarrow> cells ! k \<in> set b)"

text \<open>
  A won game: from a snake \<open>b\<close> that heads towards \<open>d\<close>, with the apple on the cell at position \<open>i\<close> of the order,
  the key presses lead to \<open>r\<close> more apples. Every press moves the head to the next cell in the new heading. On
  the apple the snake grows and the next apple is on the next free cell of the order; elsewhere its tail follows.
  In neither case may the head meet the rest of the snake. The presses after the last apple do not matter.
\<close>

inductive won_game :: "nat \<Rightarrow> nat list \<Rightarrow> nat list \<Rightarrow> direction \<Rightarrow> nat \<Rightarrow> direction list \<Rightarrow> nat \<Rightarrow> bool" for n cells where
  last_apple: "cell_towards n (hd b) (heading d m) = Some (cells ! i) \<Longrightarrow> cells ! i \<notin> set b \<Longrightarrow> won_game n cells b d i (m # ms) 1"
| next_apple: "cell_towards n (hd b) (heading d m) = Some (cells ! i) \<Longrightarrow> cells ! i \<notin> set b \<Longrightarrow>
    first_free cells (cells ! i # b) (Suc i) j \<Longrightarrow> won_game n cells (cells ! i # b) (heading d m) j ms (Suc r) \<Longrightarrow>
    won_game n cells b d i (m # ms) (Suc (Suc r))"
| moved_on: "cell_towards n (hd b) (heading d m) = Some h \<Longrightarrow> h \<noteq> cells ! i \<Longrightarrow> h \<notin> set (butlast b) \<Longrightarrow>
    won_game n cells (h # butlast b) (heading d m) i ms r \<Longrightarrow> won_game n cells b d i (m # ms) r"

definition body_ok :: "nat \<Rightarrow> snake_game \<Rightarrow> bool" where
  "body_ok grid_size g \<longleftrightarrow> distinct (sg_body g) \<and> length (sg_body g) = 3 + sg_eaten g \<and> hd (sg_body g) < grid_size * grid_size"

definition apple_ok :: "nat list \<Rightarrow> snake_game \<Rightarrow> bool" where
  "apple_ok cells g \<longleftrightarrow> (\<exists>a p. sg_apple g = (Some a, p) \<and> a \<in> set cells \<and> a \<notin> set (sg_body g)
     \<and> 2 * p \<le> Suc (sg_eaten g) * (sg_eaten g + 8))"

lemma cell_index_coords:
  assumes "0 \<le> x" "x < int g" "0 \<le> y" "y < int g"
  shows "int (cell_index x y g mod g) = x" "int (cell_index x y g div g) = y" "cell_index x y g < g * g"
proof -
  have "int (cell_index x y g) = x + y * int g" using assms by (simp add: cell_index_def)
  then show "int (cell_index x y g mod g) = x" "int (cell_index x y g div g) = y"
    using assms by (simp_all add: zmod_int zdiv_int)
  have "y * int g + x < y * int g + int g" using assms by simp
  also have "\<dots> = (y + 1) * int g" by (simp add: distrib_right)
  also have "\<dots> \<le> int g * int g" using assms by (intro mult_right_mono) auto
  finally show "cell_index x y g < g * g"
    using \<open>int (cell_index x y g) = x + y * int g\<close> by (metis add.commute of_nat_less_iff of_nat_mult)
qed

lemma delta_cases: "\<bar>fst (direction_delta d)\<bar> + \<bar>snd (direction_delta d)\<bar> = 1"
  by (cases d) simp_all

text \<open>What a move of the engine that does not end the game, or wins it, does to the body.\<close>

lemma snake_step_new_head:
  assumes "body_ok grid_size g"
    and "snake_step grid_size cells n move g = SnakeGoesOn g' \<or> snake_step grid_size cells n move g = SnakeOver (SnakeSuccess e)"
  obtains h where "neighbours grid_size (hd (sg_body g)) h"
    "Some h = fst (sg_apple g) \<and> h \<notin> set (sg_body g) \<and>
       (if Suc (sg_eaten g) \<ge> n then snake_step grid_size cells n move g = SnakeOver (SnakeSuccess (Suc (sg_eaten g)))
        else \<exists>d. snake_step grid_size cells n move g = SnakeGoesOn \<lparr>sg_body = h # sg_body g, sg_direction = d,
          sg_eaten = Suc (sg_eaten g), sg_apple = next_apple_position cells (snd (sg_apple g)) (h # sg_body g)\<rparr>)
     \<or> Some h \<noteq> fst (sg_apple g) \<and> h \<notin> set (butlast (sg_body g)) \<and>
       (\<exists>d. snake_step grid_size cells n move g = SnakeGoesOn (g\<lparr>sg_body := h # butlast (sg_body g), sg_direction := d\<rparr>))"
proof -
  define d where "d = (if length (sg_body g) > 1 \<and> move = opposite (sg_direction g) then sg_direction g else move)"
  define x where "x = int (hd (sg_body g) mod grid_size) + fst (direction_delta d)"
  define y where "y = int (hd (sg_body g) div grid_size) + snd (direction_delta d)"
  note step = snake_step_def [of grid_size cells n move g, folded d_def, unfolded Let_def, folded x_def y_def]
  have inside: "0 \<le> x" "x < int grid_size" "0 \<le> y" "y < int grid_size"
    using assms(2) by (auto simp: step split: if_splits)
  let ?h = "cell_index x y grid_size"
  have "neighbours grid_size (hd (sg_body g)) ?h"
    using assms(1) delta_cases [of d] cell_index_coords [OF inside]
    by (simp add: neighbours_def body_ok_def) (simp add: x_def y_def)
  moreover have free: "?h \<notin> set (if Some ?h = fst (sg_apple g) then sg_body g else butlast (sg_body g))"
    using assms(2) inside by (auto simp: step not_less split: if_splits)
  moreover have "if Suc (sg_eaten g) \<ge> n then snake_step grid_size cells n move g = SnakeOver (SnakeSuccess (Suc (sg_eaten g)))
        else snake_step grid_size cells n move g = SnakeGoesOn \<lparr>sg_body = ?h # sg_body g, sg_direction = d,
          sg_eaten = Suc (sg_eaten g), sg_apple = next_apple_position cells (snd (sg_apple g)) (?h # sg_body g)\<rparr>"
    if "Some ?h = fst (sg_apple g)"
    using that free inside by (simp add: step not_less not_le)
  moreover have "snake_step grid_size cells n move g = SnakeGoesOn (g\<lparr>sg_body := ?h # butlast (sg_body g), sg_direction := d\<rparr>)"
    if "Some ?h \<noteq> fst (sg_apple g)"
    using that free inside by (simp add: step not_less not_le)
  ultimately show thesis by (intro that [of ?h]) (auto split: if_splits)
qed

lemma body_nonempty: "body_ok s g \<Longrightarrow> sg_body g \<noteq> []"
  by (auto simp: body_ok_def)

lemma snake_step_goes_on:
  assumes ok: "body_ok grid_size g" and step: "snake_step grid_size cells n move g = SnakeGoesOn g'"
  shows "body_ok grid_size g'" "sg_eaten g < n \<Longrightarrow> sg_eaten g' < n"
proof -
  obtain h where nb: "neighbours grid_size (hd (sg_body g)) h" and
    c: "Some h = fst (sg_apple g) \<and> h \<notin> set (sg_body g) \<and> \<not> Suc (sg_eaten g) \<ge> n \<and>
         (\<exists>d. g' = \<lparr>sg_body = h # sg_body g, sg_direction = d, sg_eaten = Suc (sg_eaten g),
           sg_apple = next_apple_position cells (snd (sg_apple g)) (h # sg_body g)\<rparr>)
       \<or> h \<notin> set (butlast (sg_body g)) \<and> (\<exists>d. g' = g\<lparr>sg_body := h # butlast (sg_body g), sg_direction := d\<rparr>)"
    by (rule snake_step_new_head [OF ok disjI1 [OF step]]) (auto simp: step split: if_splits)
  have h: "h < grid_size * grid_size" using nb by (simp add: neighbours_def)
  show "body_ok grid_size g'" using c ok h by (auto simp: body_ok_def distinct_butlast)
  show "sg_eaten g' < n" if "sg_eaten g < n" using c that by auto
qed

lemma board_cell:
  fixes c n :: nat
  assumes "c < n * n"
  obtains x y where "c = x + y * n" "x < n" "y < n" "c mod n = x" "c div n = y"
proof -
  have n: "0 < n" using assms by (cases n) auto
  have "c = c mod n + c div n * n" by simp
  moreover have "c mod n < n" using n by simp
  moreover have "c div n < n" using assms by (simp add: less_mult_imp_div_less)
  ultimately show ?thesis by (rule that) simp_all
qed

lemma cell_towards_engine:
  fixes d
  assumes c: "c < n * n"
  defines "x \<equiv> int (c mod n) + fst (direction_delta d)" and "y \<equiv> int (c div n) + snd (direction_delta d)"
  shows "cell_towards n c d = (if x < 0 \<or> x \<ge> int n \<or> y < 0 \<or> y \<ge> int n then None else Some (cell_index x y n))"
proof -
  obtain u v where b: "c = u + v * n" "u < n" "v < n" "c mod n = u" "c div n = v" by (rule board_cell [OF c])
  show ?thesis
  proof (cases d)
    case DirU
    have "c < n \<longleftrightarrow> v = 0" using b by (cases v) auto
    moreover have "nat (int u + (int v - 1) * int n) = c - n" if "v \<noteq> 0"
    proof -
      have "int u + (int v - 1) * int n = int c - int n" using b(1) by (simp add: left_diff_distrib)
      moreover have "n \<le> c" using b(1) that by (cases v) auto
      ultimately show ?thesis by simp
    qed
    ultimately show ?thesis using DirU b by (auto simp: x_def y_def cell_index_def)
  next
    case DirD
    have "n * n \<le> c + n \<longleftrightarrow> n \<le> Suc v"
    proof
      assume "n * n \<le> c + n"
      then have "n * n < Suc (Suc v) * n" using b(1,2) by simp
      then have "n < Suc (Suc v)" by (simp only: mult_less_cancel2)
      then show "n \<le> Suc v" by simp
    next
      assume "n \<le> Suc v"
      then have "n * n \<le> Suc v * n" by (rule mult_le_mono1)
      then show "n * n \<le> c + n" using b(1) by simp
    qed
    moreover have "nat (int u + (int v + 1) * int n) = c + n"
    proof -
      have "int u + (int v + 1) * int n = int (c + n)" using b(1) by (simp add: distrib_right)
      then show ?thesis by (simp only: nat_int)
    qed
    ultimately show ?thesis using DirD b by (auto simp: x_def y_def cell_index_def)
  next
    case DirL
    have "nat (int u - 1 + int v * int n) = c - 1" if "u \<noteq> 0"
    proof -
      have "int u - 1 + int v * int n = int (c - 1)" using b(1) that by (simp add: of_nat_diff)
      then show ?thesis by (simp only: nat_int)
    qed
    then show ?thesis using DirL b by (auto simp: x_def y_def cell_index_def)
  next
    case DirR
    have "Suc c mod n = (if Suc u = n then 0 else Suc u)" using b by (simp add: mod_Suc)
    moreover have "nat (int u + 1 + int v * int n) = c + 1"
    proof -
      have "int u + 1 + int v * int n = int (c + 1)" using b(1) by simp
      then show ?thesis by (simp only: nat_int)
    qed
    ultimately show ?thesis using DirR b by (auto simp: x_def y_def cell_index_def)
  qed
qed

text \<open>A step of the engine in the words of the rule book.\<close>

lemma snake_step_rules:
  assumes "body_ok grid_size g"
  shows "snake_step grid_size cells n m g =
    (case cell_towards grid_size (hd (sg_body g)) (heading (sg_direction g) m) of
       None \<Rightarrow> SnakeOver (HitWall (sg_eaten g))
     | Some h \<Rightarrow>
         if h \<in> set (if Some h = fst (sg_apple g) then sg_body g else butlast (sg_body g)) then SnakeOver (HitSelf (sg_eaten g))
         else if Some h \<noteq> fst (sg_apple g)
         then SnakeGoesOn (g\<lparr>sg_body := h # butlast (sg_body g), sg_direction := heading (sg_direction g) m\<rparr>)
         else if n \<le> Suc (sg_eaten g) then SnakeOver (SnakeSuccess (Suc (sg_eaten g)))
         else SnakeGoesOn \<lparr>sg_body = h # sg_body g, sg_direction = heading (sg_direction g) m, sg_eaten = Suc (sg_eaten g),
           sg_apple = next_apple_position cells (snd (sg_apple g)) (h # sg_body g)\<rparr>)"
proof -
  have "hd (sg_body g) < grid_size * grid_size" "1 < length (sg_body g)" using assms by (auto simp: body_ok_def)
  then show ?thesis
    unfolding snake_step_def Let_def cell_towards_engine [OF \<open>hd (sg_body g) < grid_size * grid_size\<close>]
    by (simp add: heading_def)
qed

definition apple_at :: "nat list \<Rightarrow> nat option \<times> nat \<Rightarrow> nat \<Rightarrow> bool" where
  "apple_at cells a i \<longleftrightarrow> a = (Some (cells ! i), Suc i)"

lemma next_apple_first_free:
  "fst (next_apple_position cells p b) \<noteq> None \<Longrightarrow> \<exists>j. first_free cells b p j \<and> apple_at cells (next_apple_position cells p b) j"
proof (induction cells p b rule: next_apple_position.induct)
  case (1 cells p b)
  show ?case
  proof (cases "p < length cells \<and> cells ! p \<in> set b")
    case True
    then have e: "next_apple_position cells p b = next_apple_position cells (Suc p) b" by (subst next_apple_position.simps) (use True in simp)
    obtain j where j: "first_free cells b (Suc p) j" "apple_at cells (next_apple_position cells (Suc p) b) j"
      using 1 True by (auto simp: e)
    have "first_free cells b p j" using j(1) True unfolding first_free_def by (metis Suc_leD Suc_leI le_neq_implies_less)
    then show ?thesis using j(2) by (auto simp: e)
  next
    case False
    then have e: "next_apple_position cells p b = (if p < length cells then Some (cells ! p) else None, Suc p)"
      by (subst next_apple_position.simps) (use False in auto)
    then have "p < length cells" using 1(2) by (auto split: if_splits)
    then show ?thesis using False by (intro exI [of _ p]) (auto simp: e first_free_def apple_at_def)
  qed
qed

lemma snake_replay_no_apple: "fst (sg_apple g) = None \<Longrightarrow> body_ok grid_size g \<Longrightarrow> snake_replay grid_size cells n ms g \<noteq> SnakeSuccess e"
proof (induction ms arbitrary: g)
  case (Cons m ms)
  show ?case
  proof (cases "snake_step grid_size cells n m g")
    case (SnakeOver r)
    then show ?thesis using Cons.prems(1) unfolding snake_step_rules [OF Cons.prems(2)] by (auto simp: SnakeOver split: option.splits if_splits)
  next
    case (SnakeGoesOn g')
    have "body_ok grid_size g'" by (rule snake_step_goes_on(1) [OF Cons.prems(2) SnakeGoesOn])
    moreover have "fst (sg_apple g') = None"
      using SnakeGoesOn Cons.prems(1) unfolding snake_step_rules [OF Cons.prems(2)] by (auto split: option.splits if_splits)
    ultimately show ?thesis using Cons.IH SnakeGoesOn by simp
  qed
qed simp

lemma snake_replay_success:
  assumes "body_ok grid_size g" and "sg_eaten g < n" and "snake_replay grid_size cells n ms g = SnakeSuccess e"
    and "apple_at cells (sg_apple g) i"
  shows "won_game grid_size cells (sg_body g) (sg_direction g) i ms (n - sg_eaten g)"
  using assms
proof (induction ms arbitrary: g i)
  case (Cons m ms)
  note rules = snake_step_rules [OF Cons.prems(1), of cells n m]
  have apple: "fst (sg_apple g) = Some (cells ! i)" "snd (sg_apple g) = Suc i" using Cons.prems(4) by (simp_all add: apple_at_def)
  show ?case
  proof (cases "snake_step grid_size cells n m g")
    case (SnakeOver r)
    then have "snake_step grid_size cells n m g = SnakeOver (SnakeSuccess e)" using Cons.prems(3) by simp
    then have "cell_towards grid_size (hd (sg_body g)) (heading (sg_direction g) m) = Some (cells ! i)" "cells ! i \<notin> set (sg_body g)"
      "n \<le> Suc (sg_eaten g)"
      using apple unfolding rules by (auto split: option.splits if_splits)
    moreover from this(3) have "n - sg_eaten g = 1" using Cons.prems(2) by simp
    ultimately show ?thesis using won_game.last_apple by metis
  next
    case (SnakeGoesOn g')
    note cont = snake_step_goes_on [OF Cons.prems(1) SnakeGoesOn]
    have rest: "snake_replay grid_size cells n ms g' = SnakeSuccess e" using Cons.prems(3) SnakeGoesOn by simp
    have less: "sg_eaten g' < n" by (rule cont(2) [OF Cons.prems(2)])
    obtain h where h: "cell_towards grid_size (hd (sg_body g)) (heading (sg_direction g) m) = Some h"
      using SnakeGoesOn unfolding rules by (auto split: option.splits)
    show ?thesis
    proof (cases "h = cells ! i")
      case True
      then have g': "cells ! i \<notin> set (sg_body g)" "Suc (sg_eaten g) < n"
        "g' = \<lparr>sg_body = cells ! i # sg_body g, sg_direction = heading (sg_direction g) m, sg_eaten = Suc (sg_eaten g),
           sg_apple = next_apple_position cells (Suc i) (cells ! i # sg_body g)\<rparr>"
        using SnakeGoesOn h apple unfolding rules by (auto split: if_splits)
      have "fst (sg_apple g') \<noteq> None" using snake_replay_no_apple cont(1) rest by blast
      then obtain j where j: "first_free cells (cells ! i # sg_body g) (Suc i) j" "apple_at cells (sg_apple g') j"
        using next_apple_first_free [of cells "Suc i" "cells ! i # sg_body g"] by (auto simp: g'(3))
      have "won_game grid_size cells (cells ! i # sg_body g) (heading (sg_direction g) m) j ms (Suc (n - Suc (Suc (sg_eaten g))))"
        using Cons.IH [OF cont(1) less rest j(2)] g'(2) by (simp add: g'(3) Suc_diff_Suc)
      from won_game.next_apple [OF h [unfolded True] g'(1) j(1) this] g'(2) show ?thesis by (simp add: Suc_diff_Suc)
    next
      case False
      then have g': "h \<notin> set (butlast (sg_body g))" "g' = g\<lparr>sg_body := h # butlast (sg_body g), sg_direction := heading (sg_direction g) m\<rparr>"
        using SnakeGoesOn h apple unfolding rules by (auto split: if_splits)
      have "apple_at cells (sg_apple g') i" using Cons.prems(4) by (simp add: g'(2))
      from Cons.IH [OF cont(1) less rest this] have "won_game grid_size cells (h # butlast (sg_body g)) (heading (sg_direction g) m) i ms (n - sg_eaten g)"
        by (simp add: g'(2))
      then show ?thesis by (rule won_game.moved_on [OF h False g'(1)])
    qed
  qed
qed simp

lemma cell_left_of: "k \<le> h * g \<Longrightarrow> cell_index (int h - int k) (int h) g = h + h * g - k"
proof -
  assume "k \<le> h * g"
  then have "int h - int k + int h * int g = int (h + h * g - k)" by (simp add: of_nat_diff)
  then show ?thesis by (simp only: cell_index_def nat_int)
qed

lemma start_body_ok: "3 \<le> g \<Longrightarrow> body_ok g (snake_start g cells)"
proof -
  assume g: "3 \<le> g"
  define h where "h = g div 2"
  have h1: "1 \<le> h" using g h_def by auto
  then have "1 * 3 \<le> h * g" by (rule mult_le_mono) (use g in simp)
  then have m: "3 \<le> h * g" by simp
  then have b: "initial_body g = [h + h * g, h + h * g - 1, h + h * g - 2]"
    using cell_left_of [of 0 h g] cell_left_of [of 1 h g] cell_left_of [of 2 h g]
    using g h1 by (simp add: initial_body_def Let_def h_def)
  have "cell_index (int h) (int h) g < g * g" by (rule cell_index_coords) (use g h_def in auto)
  then have "h + h * g < g * g" using cell_left_of [of 0 h g] by simp
  with m show ?thesis by (auto simp: body_ok_def snake_start_def b)
qed

fun snake_play :: "nat \<Rightarrow> nat list \<Rightarrow> nat \<Rightarrow> direction list \<Rightarrow> snake_game \<Rightarrow> snake_game option" where
  "snake_play grid_size cells n [] g = Some g"
| "snake_play grid_size cells n (m # ms) g =
     (case snake_step grid_size cells n m g of SnakeGoesOn g' \<Rightarrow> snake_play grid_size cells n ms g' | SnakeOver _ \<Rightarrow> None)"

lemma next_apple_ok:
  assumes "n * (n + 7) \<le> 2 * length cells" and "distinct cells" and "Suc e \<le> n"
    and "2 * p \<le> e * (e + 7)" and "length b = 3 + e"
  shows "\<exists>a p'. next_apple_position cells p b = (Some a, p') \<and> a \<in> set cells \<and> a \<notin> set b \<and> 2 * p' \<le> Suc e * (e + 8)"
proof -
  have "Suc e * (Suc e + 7) \<le> n * (n + 7)" by (rule mult_le_mono) (use assms(3) in simp_all)
  with assms(1,4) have "p + length b < length cells" by (simp add: assms(5) algebra_simps)
  from next_apple_found [OF assms(2) this]
  obtain a p' where r: "next_apple_position cells p b = (Some a, p')" "a \<notin> set b" "a \<in> set cells" "p' \<le> Suc (p + length b)"
    by blast
  then have "2 * p' \<le> Suc e * (e + 8)" using assms(4,5) by (simp add: algebra_simps)
  with r show ?thesis by blast
qed

lemma snake_step_apple:
  assumes "n * (n + 7) \<le> 2 * length cells" and "distinct cells" and ok: "body_ok grid_size g" and ap: "apple_ok cells g"
    and step: "snake_step grid_size cells n move g = SnakeGoesOn g'"
  shows "apple_ok cells g'"
proof -
  obtain a p where a: "sg_apple g = (Some a, p)" "a \<in> set cells" "a \<notin> set (sg_body g)"
    "2 * p \<le> Suc (sg_eaten g) * (sg_eaten g + 8)" using ap by (auto simp: apple_ok_def)
  obtain h where c: "Some h = fst (sg_apple g) \<and> \<not> Suc (sg_eaten g) \<ge> n \<and>
         (\<exists>d. g' = \<lparr>sg_body = h # sg_body g, sg_direction = d, sg_eaten = Suc (sg_eaten g),
           sg_apple = next_apple_position cells (snd (sg_apple g)) (h # sg_body g)\<rparr>)
       \<or> Some h \<noteq> fst (sg_apple g) \<and> (\<exists>d. g' = g\<lparr>sg_body := h # butlast (sg_body g), sg_direction := d\<rparr>)"
    by (rule snake_step_new_head [OF ok disjI1 [OF step]]) (auto simp: step split: if_splits)
  have "apple_ok cells \<lparr>sg_body = h # sg_body g, sg_direction = d, sg_eaten = Suc (sg_eaten g),
      sg_apple = next_apple_position cells p (h # sg_body g)\<rparr>" if "\<not> Suc (sg_eaten g) \<ge> n" for d
  proof -
    have "2 * p \<le> Suc (sg_eaten g) * (Suc (sg_eaten g) + 7)" using a(4) by (simp add: add.commute)
    moreover have "length (h # sg_body g) = 3 + Suc (sg_eaten g)" using ok by (simp add: body_ok_def)
    ultimately show ?thesis
      using next_apple_ok [OF assms(1,2), of "Suc (sg_eaten g)" p "h # sg_body g"] that by (auto simp: apple_ok_def)
  qed
  with c a show ?thesis by (auto simp: apple_ok_def dest: in_set_butlastD)
qed

lemma start_apple_ok:
  assumes "n * (n + 7) \<le> 2 * length cells" "distinct cells" "1 \<le> n" "3 \<le> g"
  shows "apple_ok cells (snake_start g cells)"
  using next_apple_ok [OF assms(1,2), of 0 0 "initial_body g"] assms(3)
  by (auto simp: apple_ok_def snake_start_def initial_body_def Let_def)

lemma snake_play_invariant:
  assumes "n * (n + 7) \<le> 2 * length cells" and "distinct cells"
  shows "snake_play grid_size cells n ms g = Some g' \<Longrightarrow> body_ok grid_size g \<Longrightarrow> apple_ok cells g
    \<Longrightarrow> body_ok grid_size g' \<and> apple_ok cells g'"
proof (induction ms arbitrary: g)
  case (Cons m ms)
  then obtain g1 where "snake_step grid_size cells n m g = SnakeGoesOn g1" "snake_play grid_size cells n ms g1 = Some g'"
    by (auto split: snake_move.splits)
  with Cons.IH [of g1] Cons.prems snake_step_goes_on(1) snake_step_apple [OF assms] show ?case by blast
qed simp

lemma natural_field_nat: "j_get v k = Some (JNumber (of_nat m)) \<Longrightarrow> natural_field nt v k = m"
  using js_integer_Fin_of_int [of "int m"] by (simp add: natural_field_def)

lemma snake_private_fields:
  "natural_field nt (snake_private_data seed s a) ''seed'' = unat seed"
  "0 \<le> s \<Longrightarrow> natural_field nt (snake_private_data seed s a) ''gridSize'' = nat s"
  "0 \<le> a \<Longrightarrow> natural_field nt (snake_private_data seed s a) ''applesRequired'' = nat a"
  by (rule natural_field_nat, simp add: snake_private_data_def) (simp_all add: natural_field_def snake_private_data_def)

lemma those_length: "those xs = Some ys \<Longrightarrow> length ys = length xs"
  by (induction xs arbitrary: ys) (auto split: option.splits)

lemma parse_moves_length: "parse_moves s = Some ms \<Longrightarrow> length ms = length s"
  by (auto simp: parse_moves_def split: if_splits dest: those_length)


text \<open>
  C22: an accepted Snake transcript is a won game at a human pace. When the Snake provider accepts an answer, the
  submitted key presses, played by the rules from the fixed start position with the apples in the order that
  the server's seed gives, eat the required number of apples without leaving the board or meeting the snake,
  and the visitor took at least 51 milliseconds per key press.
\<close>

theorem snake_accepts_only_real_games:
  assumes "3 \<le> size1" and "1 \<le> apples"
    and "snake_verify nt created_at config (snake_private_data seed (int size1) (int apples)) answer now = Inr ChallengeSuccess"
  shows "\<exists>moves i. parse_moves (js_text nt (j_get (object_or_empty answer) ''moves'')) = Some moves
     \<and> first_free (shuffled_cells size1 seed) (initial_body size1) 0 i
     \<and> won_game size1 (shuffled_cells size1 seed) (initial_body size1) DirR i moves apples
     \<and> int (51 * length moves) \<le> now - created_at"
proof -
  obtain moves e speed where m: "parse_moves (js_text nt (j_get (object_or_empty answer) ''moves'')) = Some moves"
      and v: "of_nat (length moves) * of_int speed * (85 / 100 :: rat) \<le> of_int (now - created_at)"
      "simulate_snake seed size1 apples moves = SnakeSuccess e" and speed: "snake_tick_ms nt config = Inr speed"
    using assms(3)
    by (auto simp: snake_verify_def Let_def snake_private_fields snake_failure_def not_less
      split: option.splits if_splits snake_result.splits sum.splits)
  have b: "60 \<le> speed"
    using speed by (auto simp: snake_tick_ms_def split: option.splits if_splits dest: js_integer_in_bounds)
  let ?cells = "shuffled_cells size1 seed" and ?g = "snake_start size1 (shuffled_cells size1 seed)"
  have ok: "body_ok size1 ?g" by (rule start_body_ok) (use assms(1) in simp)
  have less: "sg_eaten ?g < apples" using assms(2) by (simp add: snake_start_def)
  have run: "snake_replay size1 ?cells apples moves ?g = SnakeSuccess e" using v(2) by (simp add: simulate_snake_def Let_def)
  then have "fst (sg_apple ?g) \<noteq> None" using snake_replay_no_apple ok by blast
  then obtain i where i: "first_free ?cells (initial_body size1) 0 i" "apple_at ?cells (sg_apple ?g) i"
    using next_apple_first_free [of ?cells 0 "initial_body size1"] by (auto simp: snake_start_def)
  have "won_game size1 ?cells (initial_body size1) DirR i moves apples"
    using snake_replay_success [OF ok less run i(2)] by (simp add: snake_start_def)
  moreover have "int (51 * length moves) \<le> now - created_at"
  proof -
    have "of_nat (51 * length moves) \<le> (of_nat (length moves) * of_int speed * (85 / 100) :: rat)"
      using b mult_left_mono [of "60" "of_int speed :: rat" "of_nat (length moves) * (85 / 100)"] by (simp add: mult.assoc mult.commute)
    also note v(1)
    finally have "(of_int (int (51 * length moves)) :: rat) \<le> of_int (now - created_at)" by simp
    then show ?thesis by (simp only: of_int_le_iff)
  qed
  ultimately show ?thesis using m i(1) by blast
qed

text \<open>
  The board always has an apple. While a game is played on a board with room for the configured number of
  apples (\<open>n (n + 7) / 2\<close> cells at most), the snake lies on distinct cells, is three cells longer than the
  apples it ate, and there is an apple on a free cell of the board.
\<close>

theorem snake_board_always_has_apple:
  assumes "1 \<le> n" and "3 \<le> grid_size" and "n * (n + 7) \<le> 2 * (grid_size * grid_size)"
    and "snake_play grid_size (shuffled_cells grid_size seed) n moves (snake_start grid_size (shuffled_cells grid_size seed)) = Some g"
  shows "distinct (sg_body g) \<and> length (sg_body g) = 3 + sg_eaten g \<and>
    (\<exists>a. fst (sg_apple g) = Some a \<and> a < grid_size * grid_size \<and> a \<notin> set (sg_body g))"
proof -
  have r: "n * (n + 7) \<le> 2 * length (shuffled_cells grid_size seed)" using assms(3) by (simp add: shuffled_cells_set(2))
  have "body_ok grid_size g \<and> apple_ok (shuffled_cells grid_size seed) g"
    using snake_play_invariant [OF r shuffled_cells_set(3) assms(4) start_body_ok start_apple_ok [OF r shuffled_cells_set(3)]] assms(1,2)
    by blast
  then show ?thesis by (auto simp: body_ok_def apple_ok_def shuffled_cells_set(1))
qed

theorem snake_board_always_has_apple_witness:
  "\<exists>a. fst (sg_apple (snake_start 10 (shuffled_cells 10 268))) = Some a \<and> a < 10 * 10 \<and> a \<notin> set (initial_body 10)"
  using snake_board_always_has_apple [of 3 10 268 "[]" "snake_start 10 (shuffled_cells 10 268)"]
  by (simp add: snake_start_def)

section \<open>A game on the board of four by four cells\<close>

text \<open>Where an element of the shuffled list comes from, without building the list.\<close>

definition swap_source :: "nat \<Rightarrow> nat \<Rightarrow> nat \<Rightarrow> nat" where
  "swap_source i j q = (if q = i then j else if q = j then i else q)"

primrec shuffle_source :: "nat \<Rightarrow> 32 word \<Rightarrow> nat \<Rightarrow> nat" where
  "shuffle_source 0 t p = p"
| "shuffle_source (Suc i) t p =
     swap_source (Suc i) (scaled (fst (mulberry32 t)) (Suc (Suc i))) (shuffle_source i (snd (mulberry32 t)) p)"

lemma shuffle_source_less: "p < m \<Longrightarrow> n < m \<Longrightarrow> shuffle_source n t p < m"
proof (induction n arbitrary: t)
  case (Suc i)
  have "scaled (fst (mulberry32 t)) (Suc (Suc i)) < m"
    using scaled_less [of "Suc (Suc i)" "fst (mulberry32 t)"] Suc.prems by simp
  with Suc show ?case by (simp add: swap_source_def)
qed simp

lemma shuffle_down_nth: "n < length cells \<Longrightarrow> p < length cells \<Longrightarrow> shuffle_down n t cells ! p = cells ! shuffle_source n t p"
proof (induction n arbitrary: t cells)
  case (Suc i)
  let ?j = "scaled (fst (mulberry32 t)) (Suc (Suc i))"
  have "?j < length cells" using scaled_less [of "Suc (Suc i)" "fst (mulberry32 t)"] Suc.prems by simp
  then have "swap_cells (Suc i) ?j cells ! q = cells ! swap_source (Suc i) ?j q" if "q < length cells" for q
    using that Suc.prems by (auto simp: swap_cells_def swap_source_def nth_list_update)
  moreover have "length (swap_cells (Suc i) ?j cells) = length cells" by (simp add: swap_cells_def)
  ultimately show ?case
    using Suc.IH [of "swap_cells (Suc i) ?j cells" "snd (mulberry32 t)"] Suc.prems
    by (simp add: shuffle_source_less)
qed simp

lemma shuffle_source_numeral:
  "shuffle_source (numeral k) t p =
     swap_source (numeral k) (scaled (fst (mulberry32 t)) (Suc (numeral k))) (shuffle_source (pred_numeral k) (snd (mulberry32 t)) p)"
  by (simp add: numeral_eq_Suc)

lemma mulberry32_state: "snd (mulberry32 t) = t + 1831565813"
  by (simp add: mulberry32_def Let_def)

lemma source_4: "shuffle_source 15 23 0 = 11"
  by (simp add: shuffle_source_numeral mulberry32_state) (simp add: mulberry32_def Let_def scaled_def swap_source_def)

lemma simulate_4: "simulate_snake 23 4 1 [DirR] = SnakeSuccess 1"
proof -
  have l: "length (shuffled_cells 4 23) = 16" by (simp add: shuffled_cells_set(2))
  have c: "shuffled_cells 4 23 ! 0 = 11"
    using shuffle_down_nth [of 15 "[0..<16]" 0 23] source_4 by (simp add: shuffled_cells_def)
  have b: "initial_body 4 = [10, 9, 8]" by (simp add: initial_body_def Let_def cell_index_def)
  have "next_apple_position (shuffled_cells 4 23) 0 [10, 9, 8] = (Some 11, 1)"
    by (subst next_apple_position.simps) (simp add: l c)
  then have "snake_step 4 (shuffled_cells 4 23) 1 DirR (snake_start 4 (shuffled_cells 4 23)) = SnakeOver (SnakeSuccess 1)"
    by (simp add: snake_step_def snake_start_def b Let_def cell_index_def)
  then show ?thesis by (simp add: simulate_snake_def Let_def)
qed

definition one_move_answer :: json where
  "one_move_answer = JObject [(''moves'', JString ''R''), (''timings'', JArray [JNumber 120])]"

lemma one_move_accepted:
  "snake_verify nt 0 (JObject []) (snake_private_data 23 4 1) (Some one_move_answer) 1000 = Inr ChallengeSuccess"
  using simulate_4
  by (simp add: snake_verify_def Let_def snake_private_fields snake_failure_def one_move_answer_def js_text_def
    parse_moves_def snake_max_moves_def snake_tick_ms_def plausible_pacing_def plausible_gap_def)

theorem snake_accepts_only_real_games_witness:
  "\<exists>i. first_free (shuffled_cells 4 23) (initial_body 4) 0 i \<and> won_game 4 (shuffled_cells 4 23) (initial_body 4) DirR i [DirR] 1"
proof -
  have "parse_moves (js_text (\<lambda>_. []) (j_get (object_or_empty (Some one_move_answer)) ''moves'')) = Some [DirR]"
    by code_simp
  then show ?thesis
    using snake_accepts_only_real_games [of 4 1 "\<lambda>_. []" 0 "JObject []" 23 "Some one_move_answer" 1000]
      one_move_accepted [of "\<lambda>_. []"] by auto
qed

section \<open>A quiz can be solved\<close>

lemma random_int_less: "0 < n \<Longrightarrow> random_int w k n < n"
  by (simp add: random_int_def)

lemma mset_remove_nth: "i < length xs \<Longrightarrow> add_mset (xs ! i) (mset (take i xs @ drop (Suc i) xs)) = mset xs"
  by (metis id_take_nth_drop mset.simps(2) mset_append union_mset_add_mset_right)

lemma pick_random_props:
  "length (fst (pick_random w n xs k)) = min n (length xs)" "mset (fst (pick_random w n xs k)) \<subseteq># mset xs"
proof -
  have "length (fst (pick_random w n xs k)) = min n (length xs) \<and> mset (fst (pick_random w n xs k)) \<subseteq># mset xs"
  proof (induction n arbitrary: xs k)
    case (Suc n)
    show ?case
    proof (cases "xs = []")
      case False
      let ?i = "random_int w k (length xs)"
      have i: "?i < length xs" using False by (simp add: random_int_less)
      let ?rest = "take ?i xs @ drop (Suc ?i) xs"
      let ?r = "fst (pick_random w n ?rest (Suc k))"
      have IH: "length ?r = min n (length ?rest)" "mset ?r \<subseteq># mset ?rest" using Suc.IH by blast+
      have "add_mset (xs ! ?i) (mset ?r) \<subseteq># add_mset (xs ! ?i) (mset ?rest)" using IH(2) by simp
      then have "mset (xs ! ?i # ?r) \<subseteq># mset xs" unfolding mset_remove_nth [OF i] by simp
      moreover have "length (xs ! ?i # ?r) = min (Suc n) (length xs)" using IH(1) i by auto
      ultimately show ?thesis using False by (simp add: Let_def)
    qed simp
  qed simp
  then show "length (fst (pick_random w n xs k)) = min n (length xs)" "mset (fst (pick_random w n xs k)) \<subseteq># mset xs"
    by simp_all
qed

lemma distinct_submset: "mset xs \<subseteq># mset ys \<Longrightarrow> distinct ys \<Longrightarrow> distinct xs"
proof -
  assume s: "mset xs \<subseteq># mset ys" and d: "distinct ys"
  have "count (mset xs) a = (if a \<in> set xs then 1 else 0)" for a
  proof (cases "a \<in> set xs")
    case True
    then have "0 < count (mset xs) a" by simp
    moreover have "count (mset xs) a \<le> count (mset ys) a" using s by (rule mset_subset_eq_count)
    moreover have "count (mset ys) a \<le> 1" using d by (auto simp: distinct_count_atmost_1)
    ultimately have "count (mset xs) a = 1" by linarith
    then show ?thesis using True by simp
  qed (simp add: count_mset_0_iff)
  then show ?thesis by (simp add: distinct_count_atmost_1)
qed

lemma mset_shuffle_random: "n < length xs \<or> n = 0 \<Longrightarrow> mset (fst (shuffle_random w n xs k)) = mset xs"
proof (induction n arbitrary: xs k)
  case (Suc i)
  let ?j = "random_int w k (Suc (Suc i))"
  have "?j < length xs" and l: "Suc i < length xs"
    using random_int_less [of "Suc (Suc i)" w k] Suc.prems by simp_all
  then have "mset (swap_cells (Suc i) ?j xs) = mset xs" by (simp add: mset_swap_cells)
  then show ?case using Suc.IH [of "swap_cells (Suc i) ?j xs"] l by (simp add: swap_cells_def)
qed simp

lemma set_uniq [simp]: "set (uniq xs) = set xs"
  by (induction xs rule: uniq.induct) auto

lemma distinct_uniq [simp]: "distinct (uniq xs)"
  by (induction xs rule: uniq.induct) auto

definition qa_ok :: "qa_entry \<Rightarrow> bool" where
  "qa_ok q \<longleftrightarrow> qa_correct q \<noteq> [] \<and> qa_wrong q \<noteq> [] \<and> distinct (qa_wrong q) \<and> set (qa_correct q) \<inter> set (qa_wrong q) = {}"

lemma parse_qa_entry_ok: "parse_qa_entry nt v i = Inr q \<Longrightarrow> qa_ok q"
  by (auto simp: parse_qa_entry_def Let_def qa_ok_def answer_texts_def split: json.splits option.splits if_splits)

lemma parse_qa_entries_ok: "parse_qa_entries nt i vs = Inr qs \<Longrightarrow> length qs = length vs \<and> (\<forall>q \<in> set qs. qa_ok q)"
  by (induction vs arbitrary: i qs) (auto split: sum.splits dest: parse_qa_entry_ok)

lemma questions_config_ok: "questions_config nt config = Inr qs \<Longrightarrow> qs \<noteq> [] \<and> (\<forall>q \<in> set qs. qa_ok q)"
  by (auto simp: questions_config_def split: option.splits json.splits if_splits dest!: parse_qa_entries_ok)

definition round_ok :: "quiz_round \<times> string \<Rightarrow> bool" where
  "round_ok rc \<longleftrightarrow> snd rc \<in> set (qr_options (fst rc)) \<and> distinct (qr_options (fst rc))
     \<and> 2 \<le> length (qr_options (fst rc)) \<and> length (qr_options (fst rc)) \<le> 4"

lemma quiz_round_options:
  fixes w :: "nat \<Rightarrow> 32 word" and k :: nat and e :: qa_entry
  assumes "qa_ok e"
  defines "c \<equiv> pick_random w 1 (qa_correct e) k"
  defines "wr \<equiv> pick_random w (min 3 (length (qa_wrong e))) (qa_wrong e) (snd c)"
  defines "options \<equiv> hd (fst c) # fst wr"
  shows "round_ok (\<lparr>qr_question = q, qr_options = fst (shuffle_random w (length options - 1) options (snd wr))\<rparr>, hd (fst c))"
proof -
  have c: "length (fst c) = 1" "set (fst c) \<subseteq> set (qa_correct e)"
    using pick_random_props [of w 1 "qa_correct e" k] assms(1) set_mset_mono unfolding c_def qa_ok_def
    by (fastforce simp: min_def Suc_le_eq)+
  have w: "length (fst wr) = min 3 (length (qa_wrong e))" "mset (fst wr) \<subseteq># mset (qa_wrong e)"
    using pick_random_props [of w "min 3 (length (qa_wrong e))" "qa_wrong e" "snd c"] unfolding wr_def by simp_all
  have "distinct (fst wr)" using distinct_submset [OF w(2)] assms(1) by (simp add: qa_ok_def)
  moreover have "set (fst wr) \<subseteq> set (qa_wrong e)" using set_mset_mono [OF w(2)] by simp
  ultimately have d: "distinct options"
    using c assms(1) unfolding options_def qa_ok_def by (cases "fst c") auto
  have m: "mset (fst (shuffle_random w (length options - 1) options (snd wr))) = mset options"
    by (rule mset_shuffle_random) (simp add: options_def)
  have l: "2 \<le> length options" "length options \<le> 4" using w(1) assms(1) by (auto simp: options_def qa_ok_def Suc_le_eq)
  show ?thesis
    using mset_eq_setD [OF m] mset_eq_length [OF m] mset_eq_imp_distinct_iff [OF m] d l
    by (simp add: round_ok_def) (simp add: options_def)
qed

lemma quiz_rounds_ok: "\<forall>e \<in> set es. qa_ok e \<Longrightarrow> length (quiz_rounds w es k) = length es \<and> (\<forall>rc \<in> set (quiz_rounds w es k). round_ok rc)"
proof (induction es arbitrary: k)
  case (Cons e es)
  then show ?case using quiz_round_options [where e = e and w = w and k = k and q = "qa_question e"] by (auto simp: Let_def simp del: length_Cons)
qed simp

lemma correct_count_strings:
  "length xs = length ys \<Longrightarrow> correct_count (map JString xs) (map JString ys) = card {i. i < length ys \<and> xs ! i = ys ! i}"
  unfolding correct_count_def length_filter_conv_card by (rule arg_cong [of _ _ card]) auto

lemma enough_correct: "\<not> int n < \<lceil>of_int p / 100 * (of_nat l :: rat)\<rceil> \<longleftrightarrow> p * int l \<le> 100 * int n"
proof -
  have "\<not> int n < \<lceil>of_int p / 100 * (of_nat l :: rat)\<rceil> \<longleftrightarrow> of_int p / 100 * (of_nat l :: rat) \<le> of_int (int n)"
    by (simp add: ceiling_le_iff not_less)
  also have "\<dots> \<longleftrightarrow> (of_int (p * int l) :: rat) \<le> of_int (100 * int n)" by (simp add: field_simps)
  finally show ?thesis by (simp only: of_int_le_iff)
qed

text \<open>
  A quiz that the provider creates can be solved, and is accepted exactly at its threshold. Every round shows
  two to four different options, the right one among them; and a list of choices is accepted exactly when
  it has one choice per round and at least the configured percentage of them is right.
\<close>

theorem quiz_accepts_exactly_threshold:
  assumes "quiz_create nt config rs = Inr m" and "pass_percent_config nt config = Inr percent"
  shows "\<exists>rounds. rounds \<noteq> [] \<and> j_get (cm_public_data m) ''rounds'' = Some (JArray (map (round_json \<circ> fst) rounds))
    \<and> (\<forall>rc \<in> set rounds. round_ok rc)
    \<and> (\<forall>choices. quiz_verify nt config (cm_private_data m) (Some (JObject [(''choices'', JArray (map JString choices))])) = Inr ChallengeSuccess
         \<longleftrightarrow> length choices = length rounds \<and>
             percent * int (length rounds) \<le> 100 * int (card {i. i < length rounds \<and> choices ! i = snd (rounds ! i)}))"
proof -
  obtain qs n where q: "questions_config nt config = Inr qs" "question_count_config nt config = Inr n"
    using assms(1) by (auto simp: quiz_create_def split: sum.splits)
  define chosen where "chosen = pick_random (rs_words rs) (min (nat n) (length qs)) qs 0"
  define rounds where "rounds = quiz_rounds (rs_words rs) (fst chosen) (snd chosen)"
  have m: "j_get (cm_public_data m) ''rounds'' = Some (JArray (map (round_json \<circ> fst) rounds))"
      "cm_private_data m = JObject [(''correct'', JArray (map JString (map snd rounds)))]"
    using assms(1) unfolding quiz_create_def q by (auto simp: Let_def chosen_def rounds_def split: sum.splits)
  have n: "1 \<le> n" using q(2) by (auto simp: question_count_config_def split: if_splits option.splits dest: js_integer_in_bounds)
  note qs = questions_config_ok [OF q(1)]
  have chosen: "length (fst chosen) = min (nat n) (length qs)" "\<forall>e \<in> set (fst chosen). qa_ok e"
    using pick_random_props [of "rs_words rs" "min (nat n) (length qs)" qs 0] qs
    unfolding chosen_def by (simp, metis mset_subset_eqD set_mset_mset)
  have rounds: "length rounds = length (fst chosen)" "\<forall>rc \<in> set rounds. round_ok rc"
    using quiz_rounds_ok [OF chosen(2)] unfolding rounds_def by blast+
  have ne: "rounds \<noteq> []" using rounds(1) chosen(1) n qs by (auto simp: min_def split: if_splits)
  have "quiz_verify nt config (cm_private_data m) (Some (JObject [(''choices'', JArray (map JString choices))])) = Inr ChallengeSuccess
      \<longleftrightarrow> length choices = length rounds \<and>
          percent * int (length rounds) \<le> 100 * int (card {i. i < length rounds \<and> choices ! i = snd (rounds ! i)})" for choices
  proof (cases "length choices = length rounds")
    case True
    then have "correct_count (map JString choices) (map JString (map snd rounds))
        = card {i. i < length rounds \<and> choices ! i = snd (rounds ! i)}"
      using correct_count_strings [of choices "map snd rounds"] by (auto intro!: arg_cong [of _ _ card])
    then show ?thesis
      using True ne enough_correct [of "correct_count (map JString choices) (map JString (map snd rounds))" percent "length rounds"]
      by (auto simp: quiz_verify_def m(2) assms(2) quiz_failure_def)
  qed (simp add: quiz_verify_def m(2) quiz_failure_def)
  with m(1) rounds(2) ne show ?thesis by blast
qed

definition sample_quiz :: json where
  "sample_quiz = JObject [(''questions'', JArray [JObject [(''question'', JString ''1+1''),
     (''correctAnswers'', JArray [JString ''2'']), (''wrongAnswers'', JArray [JString ''3''])]])]"

definition sample_random :: random_source where
  "sample_random = \<lparr>rs_words = (\<lambda>_. 0), rs_token = ''t''\<rparr>"

theorem quiz_accepts_exactly_threshold_witness:
  "\<exists>m choices. quiz_create (\<lambda>_. []) sample_quiz sample_random = Inr m \<and> choices \<noteq> [] \<and>
     quiz_verify (\<lambda>_. []) sample_quiz (cm_private_data m) (Some (JObject [(''choices'', JArray (map JString choices))])) = Inr ChallengeSuccess"
proof -
  have q: "questions_config (\<lambda>_. []) sample_quiz = Inr [\<lparr>qa_question = ''1+1'', qa_correct = [''2''], qa_wrong = [''3'']\<rparr>]"
    by code_simp
  have n: "question_count_config (\<lambda>_. []) sample_quiz = Inr 3" by (simp add: question_count_config_def sample_quiz_def)
  have h: "hex_colors sample_quiz quiz_colors = Inr (map (\<lambda>(k, v). (k, JString v)) quiz_colors)"
    by (simp add: sample_quiz_def quiz_colors_def hex_color_config_def)
  have "isl (quiz_create (\<lambda>_. []) sample_quiz sample_random) = False"
    by (simp add: quiz_create_def q n h Let_def del: pick_random.simps quiz_rounds.simps)
  then have c: "\<exists>m. quiz_create (\<lambda>_. []) sample_quiz sample_random = Inr m" by (cases "quiz_create (\<lambda>_. []) sample_quiz sample_random") simp_all
  then obtain m where m: "quiz_create (\<lambda>_. []) sample_quiz sample_random = Inr m" by blast
  have p: "pass_percent_config (\<lambda>_. []) sample_quiz = Inr 100" by (simp add: pass_percent_config_def sample_quiz_def)
  from quiz_accepts_exactly_threshold [OF m p] obtain rounds :: "(quiz_round \<times> string) list" where r: "rounds \<noteq> []"
      "\<forall>choices. quiz_verify (\<lambda>_. []) sample_quiz (cm_private_data m) (Some (JObject [(''choices'', JArray (map JString choices))])) = Inr ChallengeSuccess
         \<longleftrightarrow> length choices = length rounds \<and>
             100 * int (length rounds) \<le> 100 * int (card {i. i < length rounds \<and> choices ! i = snd (rounds ! i)})" by (elim exE conjE) (rule that; assumption)
  have "{i. i < length rounds \<and> map snd rounds ! i = snd (rounds ! i)} = {..<length rounds}" by auto
  then show ?thesis
    using m r(1) spec [OF r(2), of "map snd rounds"] by (intro exI [of _ m] exI [of _ "map snd rounds"]) simp
qed

end
