(* ===== verification/Challenge_Flow.thy ===== *)
theory Challenge_Flow
  imports Visitor_Session Challenge_Providers
begin

text \<open>
  How a visitor gets a session: \<open>src/src/services/challenge-service.ts\<close> with the handlers of
  \<open>src/src/routes/challenge-routes.ts\<close> that run it, \<open>challenge-failure-ban-service.ts\<close>, \<open>safeReturnPath\<close> of
  \<open>src/src/utils/http.ts\<close> and the statements on the challenge tables of \<open>src/src/db/repository.ts\<close>.

  Requests run concurrently. A request is a program counter with its local variables, and one call of
  \<open>request_step\<close> runs it from one \<open>await\<close> of a database statement or of a provider to the next. The policy of a flow
  is the list it is the JSON text of. The clock, fresh identifiers and the row of the site are
  inputs of every step. The call that bans an address is recorded as an effect. Expired rows are purged by the
  maintenance service; the purge is not part of this model.
\<close>

section \<open>Rows\<close>

datatype row_status = RowPending | RowCompleted

record policy_step =
  ps_provider :: string
  ps_config :: json

record challenge_flow =
  cf_id :: string
  cf_site_id :: string
  cf_return_path :: string
  cf_client_ip :: string
  cf_user_agent_hash :: string
  cf_current_step :: nat
  cf_policy :: "policy_step list"
  cf_status :: row_status
  cf_created_at :: time
  cf_expires_at :: time
  cf_completed_at :: "time option"

record challenge_step =
  st_id :: string
  st_flow_id :: string
  st_step_index :: nat
  st_provider :: string
  st_config :: json
  st_private_data :: json
  st_public_data :: json
  st_status :: row_status
  st_attempts :: nat
  st_created_at :: time
  st_expires_at :: time
  st_completed_at :: "time option"

record challenge_site =
  ch_id :: string
  ch_session_ttl_seconds :: nat
  ch_challenge_policy :: "policy_step list"
  ch_auto_ban_enabled :: int
  ch_auto_ban_max_failures :: nat
  ch_auto_ban_seconds :: nat

record failure_streak =
  fs_count :: nat
  fs_banned :: bool
  fs_last_failure_at :: time

datatype ban_request = BanForFailures string string nat nat

record challenge_state =
  cx_flows :: "challenge_flow list"
  cx_steps :: "challenge_step list"
  cx_consumptions :: "(string \<times> time) list"
  cx_sessions :: "session_row list"
  cx_streaks :: "(string \<times> string, failure_streak) omap"
  cx_bans :: "ban_request list"

section \<open>Statements\<close>

definition flow_row :: "string \<Rightarrow> challenge_state \<Rightarrow> challenge_flow option" where
  "flow_row fid s = find (\<lambda>f. cf_id f = fid) (cx_flows s)"

definition insert_flow :: "challenge_flow \<Rightarrow> challenge_state \<Rightarrow> challenge_state option" where
  "insert_flow f s = (if \<exists>g \<in> set (cx_flows s). cf_id g = cf_id f then None else Some (s\<lparr>cx_flows := cx_flows s @ [f]\<rparr>))"

definition update_flow_step :: "string \<Rightarrow> nat \<Rightarrow> challenge_state \<Rightarrow> challenge_state" where
  "update_flow_step fid n s =
     s\<lparr>cx_flows := map (\<lambda>f. if cf_id f = fid then f\<lparr>cf_current_step := n\<rparr> else f) (cx_flows s)\<rparr>"

definition complete_flow :: "string \<Rightarrow> time \<Rightarrow> challenge_state \<Rightarrow> challenge_state" where
  "complete_flow fid now s =
     s\<lparr>cx_flows := map (\<lambda>f. if cf_id f = fid \<and> cf_status f = RowPending
        then f\<lparr>cf_status := RowCompleted, cf_completed_at := Some now\<rparr> else f) (cx_flows s)\<rparr>"

definition step_row :: "string \<Rightarrow> nat \<Rightarrow> challenge_state \<Rightarrow> challenge_step option" where
  "step_row fid i s = find (\<lambda>t. st_flow_id t = fid \<and> st_step_index t = i) (cx_steps s)"

text \<open>\<open>id\<close> is the primary key and \<open>(flow_id, step_index)\<close> is unique; a violation throws.\<close>

definition insert_step :: "challenge_step \<Rightarrow> challenge_state \<Rightarrow> challenge_state option" where
  "insert_step t s =
     (if \<exists>u \<in> set (cx_steps s). st_id u = st_id t \<or> (st_flow_id u = st_flow_id t \<and> st_step_index u = st_step_index t)
      then None else Some (s\<lparr>cx_steps := cx_steps s @ [t]\<rparr>))"

definition fail_step_attempt :: "string \<Rightarrow> challenge_state \<Rightarrow> challenge_state" where
  "fail_step_attempt sid s =
     s\<lparr>cx_steps := map (\<lambda>t. if st_id t = sid then t\<lparr>st_attempts := Suc (st_attempts t)\<rparr> else t) (cx_steps s)\<rparr>"

definition complete_step :: "string \<Rightarrow> time \<Rightarrow> challenge_state \<Rightarrow> challenge_state" where
  "complete_step sid now s =
     s\<lparr>cx_steps := map (\<lambda>t. if st_id t = sid \<and> st_status t = RowPending
        then t\<lparr>st_status := RowCompleted, st_completed_at := Some now\<rparr> else t) (cx_steps s)\<rparr>"

definition consume_step :: "string \<Rightarrow> time \<Rightarrow> challenge_state \<Rightarrow> bool \<times> challenge_state" where
  "consume_step sid now s =
     (if sid \<in> fst ` set (cx_consumptions s) then (False, s)
      else (True, s\<lparr>cx_consumptions := cx_consumptions s @ [(sid, now)]\<rparr>))"

section \<open>Bans for repeated failures\<close>

definition record_challenge_failure :: "challenge_site \<Rightarrow> string \<Rightarrow> time \<Rightarrow> challenge_state \<Rightarrow> challenge_state" where
  "record_challenge_failure site ip now s =
     (if ch_auto_ban_enabled site \<noteq> 1 \<or> ip = ''unknown'' then s
      else
        let k = (ch_id site, ip);
            entry = (case om_get (cx_streaks s) k of Some x \<Rightarrow> x
              | None \<Rightarrow> \<lparr>fs_count = 0, fs_banned = False, fs_last_failure_at = now\<rparr>);
            entry1 = entry\<lparr>fs_count := Suc (fs_count entry), fs_last_failure_at := now\<rparr>
        in if \<not> fs_banned entry1 \<and> fs_count entry1 \<ge> ch_auto_ban_max_failures site
           then s\<lparr>cx_streaks := om_set k (entry1\<lparr>fs_banned := True\<rparr>) (cx_streaks s),
                  cx_bans := cx_bans s @ [BanForFailures (ch_id site) ip (fs_count entry1) (ch_auto_ban_seconds site)]\<rparr>
           else s\<lparr>cx_streaks := om_set k entry1 (cx_streaks s)\<rparr>)"

definition record_challenge_success :: "challenge_site \<Rightarrow> string \<Rightarrow> challenge_state \<Rightarrow> challenge_state" where
  "record_challenge_success site ip s = s\<lparr>cx_streaks := om_delete (ch_id site, ip) (cx_streaks s)\<rparr>"

definition prune_stale_failures :: "time \<Rightarrow> challenge_state \<Rightarrow> challenge_state" where
  "prune_stale_failures now s =
     s\<lparr>cx_streaks := filter (\<lambda>(k, e). \<not> now - fs_last_failure_at e > 2 * 60 * 60 * 1000) (cx_streaks s)\<rparr>"

section \<open>Creating a flow\<close>

definition safe_return_path :: "string \<Rightarrow> string" where
  "safe_return_path v =
     (if v = [] \<or> \<not> starts_with ''/'' v \<or> starts_with ''//'' v then ''/'' else v)"

text \<open>Settings and surroundings that no step changes.\<close>

record challenge_env =
  cv_registry :: "string \<Rightarrow> provider option"
  cv_ttl_seconds :: nat
  cv_max_attempts :: nat
  cv_session :: session_env

text \<open>What one step of a request reads: the clock, random identifiers and words, the row of the flow's site, the transport.\<close>

record step_input =
  in_now :: time
  in_fresh :: string
  in_token :: string
  in_random :: random_source
  in_site :: "string \<Rightarrow> challenge_site option"
  in_https :: bool
  in_published :: bool

definition create_flow ::
  "challenge_env \<Rightarrow> challenge_site \<Rightarrow> string \<Rightarrow> string \<Rightarrow> string \<Rightarrow> policy_step list option \<Rightarrow> string \<Rightarrow> time \<Rightarrow> challenge_state
   \<Rightarrow> (challenge_flow \<times> challenge_state) option" where
  "create_flow e site return_path ip ua_hash policy fresh now s =
     (let f = \<lparr>cf_id = fresh, cf_site_id = ch_id site, cf_return_path = safe_return_path return_path, cf_client_ip = ip,
               cf_user_agent_hash = ua_hash, cf_current_step = 0,
               cf_policy = (case policy of Some p \<Rightarrow> p | None \<Rightarrow> ch_challenge_policy site),
               cf_status = RowPending, cf_created_at = now, cf_expires_at = now + int (cv_ttl_seconds e) * 1000,
               cf_completed_at = None\<rparr>
      in map_option (Pair f) (insert_flow f s))"

section \<open>A request\<close>

datatype verify_reply =
    Refused string
  | NextStep challenge_step
  | ShowStep challenge_step
  | Thrown string

datatype request_pc =
    PageStart string
  | PageStep challenge_flow
  | PageCreate challenge_flow
  | VerifyStart string js_value
  | LoadSite challenge_flow js_value
  | LoadStep challenge_flow challenge_site js_value
  | CreateStep challenge_flow challenge_site js_value
  | Check challenge_flow challenge_site challenge_step js_value
  | Verifying challenge_flow challenge_site challenge_step js_value
  | CountFailure challenge_flow challenge_site challenge_step "string option"
  | Consume challenge_flow challenge_site challenge_step
  | Complete challenge_flow challenge_site challenge_step
  | Advance challenge_flow challenge_site
  | NextLookup challenge_flow
  | NextCreate challenge_flow
  | Finish challenge_flow challenge_site
  | CreateSession challenge_flow challenge_site
  | Passed challenge_flow string string
  | Done verify_reply

definition flow_usable :: "time \<Rightarrow> challenge_flow option \<Rightarrow> bool" where
  "flow_usable now f = (case f of None \<Rightarrow> False | Some g \<Rightarrow> cf_status g = RowPending \<and> now < cf_expires_at g)"

definition create_context_of :: "challenge_flow \<Rightarrow> create_context" where
  "create_context_of f =
     \<lparr>cc_flow_id = cf_id f, cc_site_id = cf_site_id f, cc_client_ip = cf_client_ip f,
      cc_user_agent_hash = cf_user_agent_hash f, cc_expires_at = cf_expires_at f\<rparr>"

definition verify_context_of :: "challenge_flow \<Rightarrow> challenge_step \<Rightarrow> verify_context" where
  "verify_context_of f t =
     \<lparr>cc_flow_id = cf_id f, cc_site_id = cf_site_id f, cc_client_ip = cf_client_ip f,
      cc_user_agent_hash = cf_user_agent_hash f, cc_expires_at = cf_expires_at f,
      cc_attempts = st_attempts t, cc_created_at = st_created_at t\<rparr>"

text \<open>\<open>currentStep\<close> after its lookup found no row: the material, the row and its insertion.\<close>

definition new_step :: "challenge_env \<Rightarrow> step_input \<Rightarrow> challenge_flow \<Rightarrow> string + challenge_step" where
  "new_step e i f =
     (if \<not> cf_current_step f < length (cf_policy f) then Inl ''Challenge flow has no current step''
      else let spec = cf_policy f ! cf_current_step f in
        case cv_registry e (ps_provider spec) of
          None \<Rightarrow> Inl (''Unknown challenge provider: '' @ ps_provider spec)
        | Some p \<Rightarrow>
            (case pr_create p (create_context_of f) (ps_config spec) (in_random i) of
               Inl m \<Rightarrow> Inl m
             | Inr material \<Rightarrow> Inr
                 \<lparr>st_id = in_fresh i, st_flow_id = cf_id f, st_step_index = cf_current_step f, st_provider = ps_provider spec,
                  st_config = ps_config spec, st_private_data = cm_private_data material,
                  st_public_data = cm_public_data material, st_status = RowPending, st_attempts = 0,
                  st_created_at = in_now i, st_expires_at = cf_expires_at f, st_completed_at = None\<rparr>))"

definition create_step ::
  "challenge_env \<Rightarrow> step_input \<Rightarrow> challenge_flow \<Rightarrow> (challenge_step \<Rightarrow> request_pc) \<Rightarrow> challenge_state \<Rightarrow> request_pc \<times> challenge_state" where
  "create_step e i f k s =
     (case new_step e i f of
        Inl m \<Rightarrow> (Done (Thrown m), s)
      | Inr t \<Rightarrow> (case insert_step t s of
          None \<Rightarrow> (Done (Thrown ''UNIQUE constraint failed''), s)
        | Some s' \<Rightarrow> (k t, s')))"

definition verified :: "challenge_env \<Rightarrow> step_input \<Rightarrow> challenge_flow \<Rightarrow> challenge_step \<Rightarrow> js_value \<Rightarrow> string + challenge_result" where
  "verified e i f t answer =
     (case cv_registry e (st_provider t) of
        None \<Rightarrow> Inl (''Unknown challenge provider: '' @ st_provider t)
      | Some p \<Rightarrow> pr_verify p (verify_context_of f t) (st_config t) (st_private_data t) answer (in_now i))"

definition session_site_of :: "challenge_site \<Rightarrow> session_site" where
  "session_site_of site = \<lparr>ss_id = ch_id site, ss_session_ttl_seconds = ch_session_ttl_seconds site\<rparr>"

definition finish_session ::
  "challenge_env \<Rightarrow> step_input \<Rightarrow> challenge_flow \<Rightarrow> challenge_site \<Rightarrow> challenge_state \<Rightarrow> request_pc \<times> challenge_state" where
  "finish_session e i f site s =
     (case create_access_session (cv_session e) (in_https i) (session_site_of site) (cf_client_ip f) (cf_user_agent_hash f)
             (map ps_provider (cf_policy f)) True (in_published i) (in_token i) (in_fresh i) (in_now i) (cx_sessions s) of
        (Inl InsecureCookieConfiguration, rows) \<Rightarrow> (Done (Thrown ''insecure cookie configuration''), s\<lparr>cx_sessions := rows\<rparr>)
      | (Inl HaSessionPublication, rows) \<Rightarrow> (Done (Thrown ''session not published''), s\<lparr>cx_sessions := rows\<rparr>)
      | (Inr (r, token, cookie), rows) \<Rightarrow> (Passed f (cf_return_path f) cookie, s\<lparr>cx_sessions := rows\<rparr>))"

fun request_step :: "challenge_env \<Rightarrow> step_input \<Rightarrow> request_pc \<Rightarrow> challenge_state \<Rightarrow> request_pc \<times> challenge_state" where
  "request_step e i (PageStart fid) s =
     (if flow_usable (in_now i) (flow_row fid s) then (PageStep (the (flow_row fid s)), s)
      else (Done (Refused ''Challenge expired''), s))"
| "request_step e i (PageStep f) s =
     (case step_row (cf_id f) (cf_current_step f) s of Some t \<Rightarrow> (Done (ShowStep t), s) | None \<Rightarrow> (PageCreate f, s))"
| "request_step e i (PageCreate f) s = create_step e i f (\<lambda>t. Done (ShowStep t)) s"
| "request_step e i (VerifyStart fid answer) s =
     (if flow_usable (in_now i) (flow_row fid s) then (LoadSite (the (flow_row fid s)) answer, s)
      else (Done (Refused ''Challenge expired''), s))"
| "request_step e i (LoadSite f answer) s =
     (case in_site i (cf_site_id f) of
        None \<Rightarrow> (Done (Refused ''Site no longer exists''), s)
      | Some site \<Rightarrow> (LoadStep f site answer, s))"
| "request_step e i (LoadStep f site answer) s =
     (case step_row (cf_id f) (cf_current_step f) s of
        Some t \<Rightarrow> (Check f site t answer, s)
      | None \<Rightarrow> (CreateStep f site answer, s))"
| "request_step e i (CreateStep f site answer) s = create_step e i f (\<lambda>t. Check f site t answer) s"
| "request_step e i (Check f site t answer) s =
     (if st_attempts t \<ge> cv_max_attempts e then (Done (Refused ''Too many attempts''), s)
      else (Verifying f site t answer, s))"
| "request_step e i (Verifying f site t answer) s =
     (case verified e i f t answer of
        Inl m \<Rightarrow> (Done (Thrown m), s)
      | Inr (ChallengeFailure reason) \<Rightarrow> (CountFailure f site t reason, s)
      | Inr ChallengeSuccess \<Rightarrow> (Consume f site t, record_challenge_success site (cf_client_ip f) s))"
| "request_step e i (CountFailure f site t reason) s =
     (Done (Refused (case reason of Some r \<Rightarrow> r | None \<Rightarrow> ''Verification failed'')),
      record_challenge_failure site (cf_client_ip f) (in_now i) (fail_step_attempt (st_id t) s))"
| "request_step e i (Consume f site t) s =
     (let r = consume_step (st_id t) (in_now i) s
      in if fst r then (Complete f site t, snd r) else (Done (Refused ''This proof was already consumed''), snd r))"
| "request_step e i (Complete f site t) s =
     (if Suc (cf_current_step f) < length (cf_policy f) then Advance f site else Finish f site,
      complete_step (st_id t) (in_now i) s)"
| "request_step e i (Advance f site) s =
     (NextLookup (f\<lparr>cf_current_step := Suc (cf_current_step f)\<rparr>), update_flow_step (cf_id f) (Suc (cf_current_step f)) s)"
| "request_step e i (NextLookup f) s =
     (case step_row (cf_id f) (cf_current_step f) s of Some t \<Rightarrow> (Done (NextStep t), s) | None \<Rightarrow> (NextCreate f, s))"
| "request_step e i (NextCreate f) s = create_step e i f (\<lambda>t. Done (NextStep t)) s"
| "request_step e i (Finish f site) s = (CreateSession f site, complete_flow (cf_id f) (in_now i) s)"
| "request_step e i (CreateSession f site) s = finish_session e i f site s"
| "request_step e i (Passed f redirect cookie) s = (Passed f redirect cookie, s)"
| "request_step e i (Done r) s = (Done r, s)"

section \<open>Requests together\<close>

text \<open>A proof that a provider accepted: flow, step, provider and configuration.\<close>

type_synonym accepted_proof = "string \<times> nat \<times> string \<times> json"

definition proof_of :: "challenge_env \<Rightarrow> step_input \<Rightarrow> request_pc \<Rightarrow> accepted_proof set" where
  "proof_of e i pc =
     (case pc of Verifying f site t answer \<Rightarrow>
        if verified e i f t answer = Inr ChallengeSuccess
        then {(cf_id f, cf_current_step f, st_provider t, st_config t)} else {}
      | _ \<Rightarrow> {})"

text \<open>
  Everything that can happen: flows are created, requests arrive, every request takes its steps whenever it likes,
  streaks are pruned. The last component collects the proofs that were accepted.
\<close>

inductive reachable_flows ::
  "challenge_env \<Rightarrow> (nat \<Rightarrow> request_pc option) \<Rightarrow> challenge_state \<Rightarrow> accepted_proof set \<Rightarrow> bool" for e where
  flows_start: "reachable_flows e (\<lambda>_. None)
     \<lparr>cx_flows = [], cx_steps = [], cx_consumptions = [], cx_sessions = rows, cx_streaks = [], cx_bans = []\<rparr> {}"
| flows_create: "reachable_flows e reqs s acc \<Longrightarrow> create_flow e site path ip ua policy fresh now s = Some (f, s')
     \<Longrightarrow> reachable_flows e reqs s' acc"
| flows_arrive: "reachable_flows e reqs s acc \<Longrightarrow> reqs r = None
     \<Longrightarrow> pc = PageStart fid \<or> pc = VerifyStart fid answer \<Longrightarrow> reachable_flows e (reqs(r \<mapsto> pc)) s acc"
| flows_run: "reachable_flows e reqs s acc \<Longrightarrow> reqs r = Some pc \<Longrightarrow> request_step e i pc s = (pc', s')
     \<Longrightarrow> reachable_flows e (reqs(r \<mapsto> pc')) s' (acc \<union> proof_of e i pc)"
| flows_prune: "reachable_flows e reqs s acc \<Longrightarrow> reachable_flows e reqs (prune_stale_failures now s) acc"

section \<open>What the rows and the requests agree on\<close>

definition flow_view :: "challenge_flow \<Rightarrow> string \<times> policy_step list \<times> nat" where
  "flow_view f = (cf_id f, cf_policy f, cf_current_step f)"

definition step_view :: "challenge_step \<Rightarrow> string \<times> string \<times> nat \<times> string \<times> json" where
  "step_view t = (st_id t, st_flow_id t, st_step_index t, st_provider t, st_config t)"

definition flows_of :: "challenge_state \<Rightarrow> (string \<times> policy_step list \<times> nat) set" where
  "flows_of s = flow_view ` set (cx_flows s)"

definition steps_of :: "challenge_state \<Rightarrow> (string \<times> string \<times> nat \<times> string \<times> json) set" where
  "steps_of s = step_view ` set (cx_steps s)"

definition consumed_ids :: "challenge_state \<Rightarrow> string set" where
  "consumed_ids s = fst ` set (cx_consumptions s)"

lemmas view_defs = flows_of_def steps_of_def consumed_ids_def flow_view_def step_view_def

fun flow_of :: "request_pc \<Rightarrow> challenge_flow option" where
  "flow_of (PageStep f) = Some f"
| "flow_of (PageCreate f) = Some f"
| "flow_of (LoadSite f a) = Some f"
| "flow_of (LoadStep f site a) = Some f"
| "flow_of (CreateStep f site a) = Some f"
| "flow_of (Check f site t a) = Some f"
| "flow_of (Verifying f site t a) = Some f"
| "flow_of (CountFailure f site t r) = Some f"
| "flow_of (Consume f site t) = Some f"
| "flow_of (Complete f site t) = Some f"
| "flow_of (Advance f site) = Some f"
| "flow_of (NextLookup f) = Some f"
| "flow_of (NextCreate f) = Some f"
| "flow_of (Finish f site) = Some f"
| "flow_of (CreateSession f site) = Some f"
| "flow_of (Passed f p c) = Some f"
| "flow_of _ = None"

fun step_of :: "request_pc \<Rightarrow> challenge_step option" where
  "step_of (Check f site t a) = Some t"
| "step_of (Verifying f site t a) = Some t"
| "step_of (Consume f site t) = Some t"
| "step_of (Complete f site t) = Some t"
| "step_of _ = None"

text \<open>The requests that consumed the proof of a step and did not move their flow on.\<close>

fun owner :: "request_pc \<Rightarrow> (string \<times> nat) option" where
  "owner (Complete f site t) = Some (cf_id f, cf_current_step f)"
| "owner (Advance f site) = Some (cf_id f, cf_current_step f)"
| "owner (Finish f site) = Some (cf_id f, cf_current_step f)"
| "owner (CreateSession f site) = Some (cf_id f, cf_current_step f)"
| "owner (Passed f p c) = Some (cf_id f, cf_current_step f)"
| "owner _ = None"

fun at_last_step :: "request_pc \<Rightarrow> bool" where
  "at_last_step (Finish f site) = (length (cf_policy f) \<le> Suc (cf_current_step f))"
| "at_last_step (CreateSession f site) = (length (cf_policy f) \<le> Suc (cf_current_step f))"
| "at_last_step (Passed f p c) = (length (cf_policy f) \<le> Suc (cf_current_step f))"
| "at_last_step _ = True"

fun holds_proof :: "accepted_proof set \<Rightarrow> request_pc \<Rightarrow> bool" where
  "holds_proof acc (Consume f site t) = ((cf_id f, cf_current_step f, st_provider t, st_config t) \<in> acc)"
| "holds_proof acc _ = True"

definition consumed :: "(string \<times> string \<times> nat \<times> string \<times> json) set \<Rightarrow> string set \<Rightarrow> string \<Rightarrow> nat \<Rightarrow> bool" where
  "consumed T C fid i \<longleftrightarrow> (\<exists>sid pr c. (sid, fid, i, pr, c) \<in> T \<and> sid \<in> C)"

definition flows_ok where
  "flows_ok F \<longleftrightarrow> (\<forall>fid p k p' k'. (fid, p, k) \<in> F \<longrightarrow> (fid, p', k') \<in> F \<longrightarrow> p' = p \<and> k' = k)"

definition steps_ok where
  "steps_ok F T \<longleftrightarrow> (\<forall>sid fid i pr c. (sid, fid, i, pr, c) \<in> T \<longrightarrow>
     (\<exists>p k. (fid, p, k) \<in> F \<and> i < length p \<and> pr = ps_provider (p ! i) \<and> c = ps_config (p ! i)))"

definition keys_ok where
  "keys_ok T \<longleftrightarrow> (\<forall>sid fid i pr c sid' fid' i' pr' c'. (sid, fid, i, pr, c) \<in> T \<longrightarrow> (sid', fid', i', pr', c') \<in> T \<longrightarrow>
     (sid' = sid \<longleftrightarrow> fid' = fid \<and> i' = i))"

definition proofs_ok where
  "proofs_ok T C (acc :: accepted_proof set) \<longleftrightarrow> (\<forall>sid \<in> C. \<exists>fid i pr c. (sid, fid, i, pr, c) \<in> T \<and> (fid, i, pr, c) \<in> acc)"

definition progress_ok where
  "progress_ok F T C \<longleftrightarrow> (\<forall>fid p k i. (fid, p, k) \<in> F \<longrightarrow> i < k \<longrightarrow> consumed T C fid i)"

definition tables_ok where
  "tables_ok F T C acc \<longleftrightarrow> flows_ok F \<and> steps_ok F T \<and> keys_ok T \<and> proofs_ok T C acc \<and> progress_ok F T C"

definition flow_known where
  "flow_known F f \<longleftrightarrow> (\<exists>k. (cf_id f, cf_policy f, k) \<in> F \<and> cf_current_step f \<le> k)"

definition step_known where
  "step_known T f t \<longleftrightarrow> step_view t \<in> T \<and> st_flow_id t = cf_id f \<and> st_step_index t = cf_current_step f"

definition owns where
  "owns F T C o1 \<longleftrightarrow> consumed T C (fst o1) (snd o1) \<and> (\<forall>p k. (fst o1, p, k) \<in> F \<longrightarrow> k = snd o1)"

definition request_ok where
  "request_ok F T C acc pc \<longleftrightarrow>
     (\<forall>f. flow_of pc = Some f \<longrightarrow> flow_known F f \<and> (\<forall>t. step_of pc = Some t \<longrightarrow> step_known T f t)) \<and>
     (\<forall>o1. owner pc = Some o1 \<longrightarrow> owns F T C o1) \<and> at_last_step pc \<and> holds_proof acc pc"

definition system_ok where
  "system_ok reqs F T C acc \<longleftrightarrow> tables_ok F T C acc \<and> (\<forall>r pc. reqs r = Some pc \<longrightarrow> request_ok F T C acc pc) \<and>
     (\<forall>r r' pc pc' o1. reqs r = Some pc \<longrightarrow> reqs r' = Some pc' \<longrightarrow> owner pc = Some o1 \<longrightarrow> owner pc' = Some o1 \<longrightarrow> r' = r)"

text \<open>A step of one request that leaves the tables as they are.\<close>

lemma holds_proof_mono: "holds_proof acc pc \<Longrightarrow> acc \<subseteq> acc' \<Longrightarrow> holds_proof acc' pc"
  by (cases pc) auto

lemma tables_ok_acc: "tables_ok F T C acc \<Longrightarrow> acc \<subseteq> acc' \<Longrightarrow> tables_ok F T C acc'"
  unfolding tables_ok_def proofs_ok_def by blast

lemma request_ok_acc: "request_ok F T C acc pc \<Longrightarrow> acc \<subseteq> acc' \<Longrightarrow> request_ok F T C acc' pc"
  using holds_proof_mono unfolding request_ok_def by blast

lemma system_okI:
  assumes "tables_ok F T C acc" and "\<And>r1 pc. r1 \<noteq> r \<Longrightarrow> reqs r1 = Some pc \<Longrightarrow> request_ok F T C acc pc"
    and "request_ok F T C acc pc'"
    and "\<And>r1 pc o1. r1 \<noteq> r \<Longrightarrow> reqs r1 = Some pc \<Longrightarrow> owner pc = Some o1 \<Longrightarrow> owner pc' \<noteq> Some o1"
    and "\<And>r1 r2 pc1 pc2 o1. r1 \<noteq> r \<Longrightarrow> r2 \<noteq> r \<Longrightarrow> reqs r1 = Some pc1 \<Longrightarrow> reqs r2 = Some pc2 \<Longrightarrow>
      owner pc1 = Some o1 \<Longrightarrow> owner pc2 = Some o1 \<Longrightarrow> r2 = r1"
  shows "system_ok (reqs(r \<mapsto> pc')) F T C acc"
  unfolding system_ok_def
proof (intro conjI allI impI)
  show "request_ok F T C acc q" if "(reqs(r \<mapsto> pc')) r1 = Some q" for r1 q
    using that assms(2,3) by (cases "r1 = r") auto
  show "r2 = r1" if "(reqs(r \<mapsto> pc')) r1 = Some q1" "(reqs(r \<mapsto> pc')) r2 = Some q2" "owner q1 = Some o1" "owner q2 = Some o1" for r1 r2 q1 q2 o1
    using that assms(4) [of r1 q1 o1] assms(4) [of r2 q2 o1] assms(5) [of r1 r2 q1 q2 o1]
    by (cases "r1 = r"; cases "r2 = r") auto
qed (fact assms(1))

lemma system_ok_parts:
  assumes "system_ok reqs F T C acc"
  shows "tables_ok F T C acc" "\<And>r pc. reqs r = Some pc \<Longrightarrow> request_ok F T C acc pc"
    "\<And>r r' pc pc' o1. reqs r = Some pc \<Longrightarrow> reqs r' = Some pc' \<Longrightarrow> owner pc = Some o1 \<Longrightarrow> owner pc' = Some o1 \<Longrightarrow> r' = r"
  using assms unfolding system_ok_def by blast+

lemma system_ok_same_tables:
  assumes "system_ok reqs F T C acc" and "reqs r = Some pc" and "acc \<subseteq> acc'"
    and "request_ok F T C acc' pc'" and "owner pc' = None \<or> owner pc' = owner pc"
  shows "system_ok (reqs(r \<mapsto> pc')) F T C acc'"
proof (rule system_okI)
  note ok = system_ok_parts [OF assms(1)]
  show "tables_ok F T C acc'" by (rule tables_ok_acc [OF ok(1) assms(3)])
  show "request_ok F T C acc' q" if "reqs r1 = Some q" for r1 q
    by (rule request_ok_acc [OF ok(2) [OF that] assms(3)])
  show "request_ok F T C acc' pc'" by (fact assms(4))
  show "owner pc' \<noteq> Some o1" if "r1 \<noteq> r" "reqs r1 = Some q" "owner q = Some o1" for r1 q o1
    using ok(3) [OF that(2) assms(2)] that assms(5) by auto
  show "r2 = r1" if "reqs r1 = Some q1" "reqs r2 = Some q2" "owner q1 = Some o1" "owner q2 = Some o1" for r1 r2 q1 q2 o1
    using ok(3) that by blast
qed

section \<open>Every statement keeps the agreement\<close>

lemma steps_of_map: "(\<And>t. step_view (g t) = step_view t) \<Longrightarrow> steps_of (s\<lparr>cx_steps := map g (cx_steps s)\<rparr>) = steps_of s"
  by (simp add: steps_of_def image_image)

lemma flows_of_map: "(\<And>f. flow_view (g f) = flow_view f) \<Longrightarrow> flows_of (s\<lparr>cx_flows := map g (cx_flows s)\<rparr>) = flows_of s"
  by (simp add: flows_of_def image_image)

lemma same_views [simp]:
  "flows_of (fail_step_attempt sid s) = flows_of s" "steps_of (fail_step_attempt sid s) = steps_of s"
  "flows_of (complete_step sid now s) = flows_of s" "steps_of (complete_step sid now s) = steps_of s"
  "flows_of (complete_flow fid now s) = flows_of s" "steps_of (complete_flow fid now s) = steps_of s"
  "consumed_ids (fail_step_attempt sid s) = consumed_ids s" "consumed_ids (complete_step sid now s) = consumed_ids s"
  "consumed_ids (complete_flow fid now s) = consumed_ids s"
  unfolding fail_step_attempt_def complete_step_def complete_flow_def
  by (subst steps_of_map flows_of_map; simp add: step_view_def flow_view_def |
      simp add: steps_of_def flows_of_def consumed_ids_def)+

lemma same_views_memory [simp]:
  "flows_of (record_challenge_success site ip s) = flows_of s" "steps_of (record_challenge_success site ip s) = steps_of s"
  "consumed_ids (record_challenge_success site ip s) = consumed_ids s"
  "flows_of (record_challenge_failure site ip now s) = flows_of s" "steps_of (record_challenge_failure site ip now s) = steps_of s"
  "consumed_ids (record_challenge_failure site ip now s) = consumed_ids s"
  "flows_of (prune_stale_failures now s) = flows_of s" "steps_of (prune_stale_failures now s) = steps_of s"
  "consumed_ids (prune_stale_failures now s) = consumed_ids s"
  "flows_of (s\<lparr>cx_sessions := rows\<rparr>) = flows_of s" "steps_of (s\<lparr>cx_sessions := rows\<rparr>) = steps_of s"
  "consumed_ids (s\<lparr>cx_sessions := rows\<rparr>) = consumed_ids s"
  by (simp_all add: view_defs record_challenge_success_def record_challenge_failure_def prune_stale_failures_def Let_def)

lemma flow_row_known: "flow_row fid s = Some f \<Longrightarrow> flow_known (flows_of s) f"
  unfolding flow_row_def flow_known_def flows_of_def flow_view_def by (drule find_in) (rule exI [of _ "cf_current_step f"], force)

lemma step_row_known: "step_row (cf_id f) (cf_current_step f) s = Some t \<Longrightarrow> step_known (steps_of s) f t"
  unfolding step_row_def step_known_def steps_of_def by (drule find_in) auto

lemma consumed_mono: "consumed T C fid i \<Longrightarrow> T \<subseteq> T' \<Longrightarrow> C \<subseteq> C' \<Longrightarrow> consumed T' C' fid i"
  unfolding consumed_def by blast

lemma request_ok_grow:
  assumes "request_ok F T C acc pc" and "T \<subseteq> T'" and "C \<subseteq> C'"
  shows "request_ok F T' C' acc pc"
  using assms consumed_mono [OF _ assms(2,3)] unfolding request_ok_def owns_def step_known_def by blast

lemma inserted_step_ok:
  assumes ok: "system_ok reqs (flows_of s) (steps_of s) (consumed_ids s) acc"
    and f: "flow_known (flows_of s) f" and new: "new_step e i f = Inr t" and ins: "insert_step t s = Some s'"
  shows "flows_of s' = flows_of s" "steps_of s' = insert (step_view t) (steps_of s)" "consumed_ids s' = consumed_ids s"
    "system_ok reqs (flows_of s) (insert (step_view t) (steps_of s)) (consumed_ids s) acc"
    "step_known (insert (step_view t) (steps_of s)) f t"
proof -
  let ?F = "flows_of s" and ?T = "steps_of s" and ?C = "consumed_ids s" and ?T' = "insert (step_view t) (steps_of s)"
  show "flows_of s' = ?F" "steps_of s' = ?T'" "consumed_ids s' = ?C"
    using ins by (auto simp: insert_step_def flows_of_def steps_of_def consumed_ids_def split: if_splits)
  have t: "st_flow_id t = cf_id f" "st_step_index t = cf_current_step f" "cf_current_step f < length (cf_policy f)"
      "st_provider t = ps_provider (cf_policy f ! cf_current_step f)" "st_config t = ps_config (cf_policy f ! cf_current_step f)"
    using new by (auto simp: new_step_def Let_def split: if_splits option.splits sum.splits)
  show "step_known ?T' f t" using t by (simp add: step_known_def)
  have fresh: "st_id u \<noteq> st_id t" "\<not> (st_flow_id u = st_flow_id t \<and> st_step_index u = st_step_index t)" if "u \<in> set (cx_steps s)" for u
    using ins that by (auto simp: insert_step_def split: if_splits)
  note parts = system_ok_parts [OF ok]
  note tab = parts(1) [unfolded tables_ok_def]
  have "steps_ok ?F ?T'"
    using tab f t unfolding steps_ok_def flow_known_def step_view_def by auto
  moreover have "keys_ok ?T'"
  proof -
    have f1: "sid \<noteq> st_id t \<and> \<not> (fid = st_flow_id t \<and> j = st_step_index t)" if "(sid, fid, j, pr, c) \<in> ?T" for sid fid j pr c
      using that fresh by (auto simp: steps_of_def step_view_def)
    have "keys_ok ?T" using tab by blast
    then show ?thesis
      unfolding keys_ok_def step_view_def insert_iff prod.inject using f1 by metis
  qed
  moreover have "proofs_ok ?T' ?C acc" using tab unfolding proofs_ok_def by blast
  moreover have "progress_ok ?F ?T' ?C"
    using tab consumed_mono [of ?T ?C _ _ ?T' ?C] unfolding progress_ok_def by blast
  ultimately have "tables_ok ?F ?T' ?C acc" using tab unfolding tables_ok_def by blast
  moreover have "request_ok ?F ?T' ?C acc pc" if "reqs r = Some pc" for r pc
    by (rule request_ok_grow [OF parts(2) [OF that]]) auto
  ultimately show "system_ok reqs ?F ?T' ?C acc" using parts(3) unfolding system_ok_def by blast
qed

lemma consumed_once:
  assumes "keys_ok T" and "step_known T f t" and "consumed T C (cf_id f) (cf_current_step f)"
  shows "st_id t \<in> C"
  using assms unfolding keys_ok_def step_known_def consumed_def step_view_def by metis

lemma consume_ok:
  assumes ok: "system_ok reqs F T C acc" and r: "reqs r = Some (Consume f site t)" and new: "st_id t \<notin> C"
  shows "system_ok (reqs(r \<mapsto> Complete f site t)) F T (insert (st_id t) C) acc"
proof (rule system_okI)
  let ?C = "insert (st_id t) C"
  note parts = system_ok_parts [OF ok]
  note tab = parts(1) [unfolded tables_ok_def]
  have pc: "flow_known F f" "step_known T f t" "(cf_id f, cf_current_step f, st_provider t, st_config t) \<in> acc"
    using parts(2) [OF r] by (auto simp: request_ok_def)
  have tT: "(st_id t, cf_id f, cf_current_step f, st_provider t, st_config t) \<in> T"
    using pc(2) by (auto simp: step_known_def step_view_def)
  have not_yet: "\<not> consumed T C (cf_id f) (cf_current_step f)" using consumed_once [of T f t C] tab pc(2) new by blast
  have now: "consumed T ?C (cf_id f) (cf_current_step f)" using tT unfolding consumed_def by blast
  have "proofs_ok T ?C acc" using tab tT pc(3) unfolding proofs_ok_def by blast
  moreover have "progress_ok F T ?C" using tab consumed_mono [of T C _ _ T ?C] unfolding progress_ok_def by blast
  ultimately show "tables_ok F T ?C acc" using tab unfolding tables_ok_def by blast
  show "request_ok F T ?C acc q" if "reqs r1 = Some q" for r1 q
    by (rule request_ok_grow [OF parts(2) [OF that]]) auto
  have "k = cf_current_step f" if "(cf_id f, p, k) \<in> F" for p k
  proof -
    obtain k' where "(cf_id f, cf_policy f, k') \<in> F" "cf_current_step f \<le> k'" using pc(1) by (auto simp: flow_known_def)
    with that tab have "cf_current_step f \<le> k" unfolding flows_ok_def by blast
    moreover have "\<not> cf_current_step f < k" using tab not_yet that unfolding progress_ok_def by blast
    ultimately show ?thesis by simp
  qed
  then show "request_ok F T ?C acc (Complete f site t)" using pc now by (simp add: request_ok_def owns_def)
  show "owner (Complete f site t) \<noteq> Some o1" if "reqs r1 = Some q" "owner q = Some o1" for r1 q o1
    using parts(2) [OF that(1)] that(2) not_yet by (auto simp: request_ok_def owns_def)
  show "r2 = r1" if "reqs r1 = Some q1" "reqs r2 = Some q2" "owner q1 = Some o1" "owner q2 = Some o1" for r1 r2 q1 q2 o1
    using parts(3) that by blast
qed

definition moved :: "string \<Rightarrow> nat \<Rightarrow> (string \<times> policy_step list \<times> nat) set \<Rightarrow> (string \<times> policy_step list \<times> nat) set" where
  "moved fid n F = (\<lambda>(g, p, k). (g, p, if g = fid then n else k)) ` F"

lemma flows_of_update: "flows_of (update_flow_step fid n s) = moved fid n (flows_of s)"
proof -
  have "flow_view (if cf_id f = fid then f\<lparr>cf_current_step := n\<rparr> else f)
      = (\<lambda>(g, p, k). (g, p, if g = fid then n else k)) (flow_view f)" for f
    by (simp add: flow_view_def)
  then show ?thesis
    by (simp add: flows_of_def update_flow_step_def moved_def image_image del: if_image_distrib)
qed

lemma same_views_update [simp]: "steps_of (update_flow_step fid n s) = steps_of s" "consumed_ids (update_flow_step fid n s) = consumed_ids s"
  by (simp_all add: steps_of_def consumed_ids_def update_flow_step_def)

lemma moved_iff: "(g, p, k) \<in> moved fid n F \<longleftrightarrow> (if g = fid then k = n \<and> (\<exists>k'. (g, p, k') \<in> F) else (g, p, k) \<in> F)"
  by (force simp: moved_def)

lemma advance_ok:
  assumes ok: "system_ok reqs F T C acc" and r: "reqs r = Some (Advance f site)"
  shows "system_ok (reqs(r \<mapsto> NextLookup (f\<lparr>cf_current_step := Suc (cf_current_step f)\<rparr>)))
    (moved (cf_id f) (Suc (cf_current_step f)) F) T C acc"
proof (rule system_okI)
  let ?n = "Suc (cf_current_step f)"
  let ?F = "moved (cf_id f) ?n F"
  note parts = system_ok_parts [OF ok]
  note tab = parts(1) [unfolded tables_ok_def]
  have pc: "flow_known F f" "consumed T C (cf_id f) (cf_current_step f)" and own: "\<And>p k. (cf_id f, p, k) \<in> F \<Longrightarrow> k = cf_current_step f"
    using parts(2) [OF r] by (auto simp: request_ok_def owns_def)
  have "flows_ok ?F" using tab unfolding flows_ok_def by (auto simp: moved_iff)
  moreover have "steps_ok ?F T"
    unfolding steps_ok_def
  proof (intro allI impI)
    fix sid fid i pr c assume "(sid, fid, i, pr, c) \<in> T"
    then obtain p k where "(fid, p, k) \<in> F \<and> i < length p \<and> pr = ps_provider (p ! i) \<and> c = ps_config (p ! i)"
      using tab unfolding steps_ok_def by blast
    then show "\<exists>p k. (fid, p, k) \<in> ?F \<and> i < length p \<and> pr = ps_provider (p ! i) \<and> c = ps_config (p ! i)"
      by (intro exI [of _ p] exI [of _ "if fid = cf_id f then ?n else k"]) (auto simp: moved_iff)
  qed
  moreover have "progress_ok ?F T C"
    unfolding progress_ok_def
  proof (intro allI impI)
    fix fid p k i assume "(fid, p, k) \<in> ?F" "i < k"
    then show "consumed T C fid i"
      using tab own pc(2) unfolding progress_ok_def moved_iff by (cases "i = cf_current_step f") (auto split: if_splits)
  qed
  ultimately show "tables_ok ?F T C acc" using tab unfolding tables_ok_def by blast
  have known: "flow_known ?F g" if fk: "flow_known F g" for g
  proof -
    obtain k where k: "(cf_id g, cf_policy g, k) \<in> F" "cf_current_step g \<le> k" using fk by (auto simp: flow_known_def)
    show ?thesis
    proof (cases "cf_id g = cf_id f")
      case True
      with own [of "cf_policy g" k] k show ?thesis by (auto simp: flow_known_def moved_iff)
    qed (use k in \<open>auto simp: flow_known_def moved_iff\<close>)
  qed
  show "request_ok ?F T C acc q" if "r1 \<noteq> r" "reqs r1 = Some q" for r1 q
  proof -
    have "fst o1 \<noteq> cf_id f" if o1: "owner q = Some o1" for o1
    proof
      assume same: "fst o1 = cf_id f"
      obtain k where "(cf_id f, cf_policy f, k) \<in> F" using pc(1) by (auto simp: flow_known_def)
      with parts(2) [OF \<open>reqs r1 = Some q\<close>] o1 same own have "o1 = (cf_id f, cf_current_step f)"
        by (auto simp: request_ok_def owns_def prod_eq_iff)
      then show False using parts(3) [OF r \<open>reqs r1 = Some q\<close>] o1 \<open>r1 \<noteq> r\<close> by simp
    qed
    then show ?thesis
      using parts(2) [OF \<open>reqs r1 = Some q\<close>] known unfolding request_ok_def owns_def moved_iff by auto
  qed
  show "request_ok ?F T C acc (NextLookup (f\<lparr>cf_current_step := ?n\<rparr>))"
    using pc(1) by (auto simp: request_ok_def flow_known_def moved_iff)
  show "r2 = r1" if "reqs r1 = Some q1" "reqs r2 = Some q2" "owner q1 = Some o1" "owner q2 = Some o1" for r1 r2 q1 q2 o1
    using parts(3) that by blast
qed simp

lemma request_ok_passive: "flow_of pc = None \<Longrightarrow> request_ok F T C acc pc"
  by (cases pc) (auto simp: request_ok_def)

lemma create_step_ok:
  assumes ok: "system_ok reqs (flows_of s) (steps_of s) (consumed_ids s) acc" and r: "reqs r = Some pc"
    and f: "flow_of pc = Some f" and step: "create_step e i f k s = (pc', s')"
    and k: "\<And>T t. step_known T f t \<Longrightarrow> request_ok (flows_of s) T (consumed_ids s) acc (k t) \<and> owner (k t) = None"
  shows "system_ok (reqs(r \<mapsto> pc')) (flows_of s') (steps_of s') (consumed_ids s') acc"
proof (cases "\<exists>t. new_step e i f = Inr t \<and> insert_step t s = Some s' \<and> pc' = k t")
  case True
  then obtain t where t: "new_step e i f = Inr t" "insert_step t s = Some s'" "pc' = k t" by blast
  have "flow_known (flows_of s) f" using system_ok_parts(2) [OF ok r] f by (simp add: request_ok_def)
  note ins = inserted_step_ok [OF ok this t(1,2)]
  show ?thesis
    unfolding ins(1-3) t(3)
    by (rule system_ok_same_tables [OF ins(4) r order_refl]) (use k [OF ins(5)] in auto)
next
  case False
  then obtain m where "pc' = Done (Thrown m)" "s' = s"
    using step by (auto simp: create_step_def split: sum.splits option.splits)
  then show ?thesis
    using system_ok_same_tables [OF ok r order_refl, of "Done (Thrown m)"] by (simp add: request_ok_passive)
qed

text \<open>The remaining steps leave the three tables as they are.\<close>

lemma other_step_ok:
  assumes ok: "request_ok (flows_of s) (steps_of s) (consumed_ids s) acc pc" and step: "request_step e i pc s = (pc', s')"
    and "\<And>f. pc \<noteq> PageCreate f" "\<And>f site a. pc \<noteq> CreateStep f site a" "\<And>f. pc \<noteq> NextCreate f"
    "\<And>f site t. pc = Consume f site t \<Longrightarrow> st_id t \<in> consumed_ids s" "\<And>f site. pc \<noteq> Advance f site"
  shows "flows_of s' = flows_of s \<and> steps_of s' = steps_of s \<and> consumed_ids s' = consumed_ids s \<and>
    request_ok (flows_of s) (steps_of s) (consumed_ids s) (acc \<union> proof_of e i pc) pc' \<and> (owner pc' = None \<or> owner pc' = owner pc)"
proof (cases pc)
  case (PageStart fid)
  then show ?thesis using step by (auto simp: flow_usable_def request_ok_def flow_row_known split: if_splits option.splits)
next
  case (VerifyStart fid a)
  then show ?thesis using step by (auto simp: flow_usable_def request_ok_def flow_row_known split: if_splits option.splits)
next
  case (LoadStep f site a)
  then show ?thesis using step ok by (auto simp: request_ok_def step_row_known split: option.splits)
next
  case (Verifying f site t a)
  then show ?thesis
    using step ok by (auto simp: request_ok_def proof_of_def split: sum.splits challenge_result.splits)
next
  case (Consume f site t)
  then show ?thesis using step ok assms(6) by (auto simp: consume_step_def consumed_ids_def request_ok_def Let_def)
next
  case (CreateSession f site)
  then show ?thesis
    using step ok by (auto simp: finish_session_def request_ok_def split: prod.splits sum.splits session_error.splits)
qed (use step ok assms(3-7) in \<open>auto simp: request_ok_def split: option.splits if_splits\<close>)

lemma request_step_ok:
  assumes ok: "system_ok reqs (flows_of s) (steps_of s) (consumed_ids s) acc" and r: "reqs r = Some pc"
    and step: "request_step e i pc s = (pc', s')"
  shows "system_ok (reqs(r \<mapsto> pc')) (flows_of s') (steps_of s') (consumed_ids s') (acc \<union> proof_of e i pc)"
proof -
  have known: "flow_known (flows_of s) f" if "flow_of pc = Some f" for f
    using system_ok_parts(2) [OF ok r] that by (simp add: request_ok_def)
  consider (page) f where "pc = PageCreate f" | (create) f site a where "pc = CreateStep f site a" | (nextc) f where "pc = NextCreate f"
    | (consume) f site t where "pc = Consume f site t" "st_id t \<notin> consumed_ids s" | (advance) f site where "pc = Advance f site"
    | (other) "\<And>f. pc \<noteq> PageCreate f" "\<And>f site a. pc \<noteq> CreateStep f site a" "\<And>f. pc \<noteq> NextCreate f"
      "\<And>f site t. pc = Consume f site t \<Longrightarrow> st_id t \<in> consumed_ids s" "\<And>f site. pc \<noteq> Advance f site"
    by blast
  then show ?thesis
  proof cases
    case page
    then have "create_step e i f (\<lambda>t. Done (ShowStep t)) s = (pc', s')" using step by simp
    from create_step_ok [OF ok r _ this] page show ?thesis by (simp add: proof_of_def request_ok_passive)
  next
    case create
    then have "create_step e i f (\<lambda>t. Check f site t a) s = (pc', s')" using step by simp
    from create_step_ok [OF ok r _ this] create known show ?thesis by (simp add: proof_of_def request_ok_def)
  next
    case nextc
    then have "create_step e i f (\<lambda>t. Done (NextStep t)) s = (pc', s')" using step by simp
    from create_step_ok [OF ok r _ this] nextc show ?thesis by (simp add: proof_of_def request_ok_passive)
  next
    case consume
    then have "pc' = Complete f site t" "flows_of s' = flows_of s" "steps_of s' = steps_of s" "consumed_ids s' = insert (st_id t) (consumed_ids s)"
      using step by (auto simp: consume_step_def view_defs)
    with consume_ok [OF ok r [unfolded consume(1)] consume(2)] show ?thesis by (simp add: proof_of_def consume(1))
  next
    case advance
    with advance_ok [OF ok r [unfolded advance]] step show ?thesis by (auto simp: proof_of_def flows_of_update)
  next
    case other
    from other_step_ok [OF system_ok_parts(2) [OF ok r] step other]
    show ?thesis using system_ok_same_tables [OF ok r] by simp
  qed
qed

lemma created_flow_ok:
  assumes ok: "system_ok reqs (flows_of s) (steps_of s) (consumed_ids s) acc"
    and new: "create_flow e site path ip ua policy fresh now s = Some (f, s')"
  shows "system_ok reqs (flows_of s') (steps_of s') (consumed_ids s') acc"
proof -
  let ?F = "flows_of s" and ?T = "steps_of s" and ?C = "consumed_ids s"
  have s': "flows_of s' = insert (cf_id f, cf_policy f, 0) ?F" "steps_of s' = ?T" "consumed_ids s' = ?C" and
    fresh: "(cf_id f, p, k) \<notin> ?F" for p k
    using new by (auto simp: create_flow_def insert_flow_def Let_def view_defs split: if_splits)
  note parts = system_ok_parts [OF ok]
  note tab = parts(1) [unfolded tables_ok_def]
  have "flows_ok (flows_of s')" using tab fresh unfolding flows_ok_def s' by auto
  moreover have "steps_ok (flows_of s') ?T" using tab unfolding steps_ok_def s' by (meson insertCI)
  moreover have "progress_ok (flows_of s') ?T ?C" using tab unfolding progress_ok_def s' by auto
  ultimately have "tables_ok (flows_of s') ?T ?C acc" using tab unfolding tables_ok_def by blast
  moreover have "request_ok (flows_of s') ?T ?C acc pc" if r: "reqs r = Some pc" for r pc
  proof -
    have "owns (flows_of s') ?T ?C o1" if "owns ?F ?T ?C o1" for o1
    proof -
      have "fst o1 \<noteq> cf_id f"
        using that tab fresh unfolding owns_def consumed_def steps_ok_def by metis
      with that show ?thesis unfolding owns_def s' by auto
    qed
    moreover have "flow_known (flows_of s') g" if "flow_known ?F g" for g using that unfolding flow_known_def s' by blast
    ultimately show ?thesis using parts(2) [OF r] unfolding request_ok_def by blast
  qed
  ultimately show ?thesis using parts(3) unfolding system_ok_def s'(2,3) by blast
qed

lemma reachable_ok: "reachable_flows e reqs s acc \<Longrightarrow> system_ok reqs (flows_of s) (steps_of s) (consumed_ids s) acc"
proof (induction rule: reachable_flows.induct)
  case flows_start
  then show ?case
    by (simp add: system_ok_def tables_ok_def flows_ok_def steps_ok_def keys_ok_def proofs_ok_def progress_ok_def view_defs)
next
  case (flows_create reqs s acc site path ip ua policy fresh now f s')
  show ?case by (rule created_flow_ok [OF flows_create.IH flows_create.hyps(2)])
next
  case (flows_arrive reqs s acc r pc fid answer)
  note parts = system_ok_parts [OF flows_arrive.IH]
  show ?case
    by (rule system_okI [OF parts(1,2)]) (use flows_arrive.hyps(3) parts(3) in \<open>auto simp: request_ok_def\<close>)
next
  case (flows_run reqs s acc r pc i pc' s')
  show ?case by (rule request_step_ok [OF flows_run.IH flows_run.hyps(2,3)])
qed simp

section \<open>Properties\<close>

lemma consumed_accepted:
  assumes "tables_ok F T C acc" and "consumed T C fid i" and "(fid, p, k) \<in> F"
  shows "(fid, i, ps_provider (p ! i), ps_config (p ! i)) \<in> acc \<and> i < length p"
proof -
  obtain sid pr c where s: "(sid, fid, i, pr, c) \<in> T" "sid \<in> C" using assms(2) by (auto simp: consumed_def)
  obtain fid' i' pr' c' where a: "(sid, fid', i', pr', c') \<in> T" "(fid', i', pr', c') \<in> acc"
    using assms(1) s(2) unfolding tables_ok_def proofs_ok_def by blast
  have "fid' = fid \<and> i' = i" using assms(1) s(1) a(1) unfolding tables_ok_def keys_ok_def by blast
  moreover obtain p' k' where "(fid', p', k') \<in> F" "i' < length p'" "pr' = ps_provider (p' ! i')" "c' = ps_config (p' ! i')"
    using assms(1) a(1) unfolding tables_ok_def steps_ok_def by blast
  moreover have "p' = p" if "(fid, p', k') \<in> F" for p' k' using assms(1,3) that unfolding tables_ok_def flows_ok_def by blast
  ultimately show ?thesis using a(2) by auto
qed

text \<open>
  C20: no session without every proof, and at most one session per flow. Whatever requests run together and however
  their steps interleave, when a request ends with a session cookie for a flow, then every step of the
  flow's policy, of which there is at least one, had an answer that its provider accepted under the configured settings,
  and no other request ended with a session for the same flow.
\<close>

theorem session_needs_every_proof:
  assumes "reachable_flows e reqs s acc" and "reqs r = Some (Passed f target cookie)"
  shows "cf_policy f \<noteq> []
    \<and> (\<forall>i < length (cf_policy f). (cf_id f, i, ps_provider (cf_policy f ! i), ps_config (cf_policy f ! i)) \<in> acc)
    \<and> (\<forall>r' f' target' cookie'. reqs r' = Some (Passed f' target' cookie') \<longrightarrow> cf_id f' = cf_id f \<longrightarrow> r' = r)"
proof (intro conjI allI impI)
  note parts = system_ok_parts [OF reachable_ok [OF assms(1)]]
  have ok: "flow_known (flows_of s) f" "owns (flows_of s) (steps_of s) (consumed_ids s) (cf_id f, cf_current_step f)"
      "length (cf_policy f) \<le> Suc (cf_current_step f)"
    using parts(2) [OF assms(2)] by (auto simp: request_ok_def)
  obtain k where k: "(cf_id f, cf_policy f, k) \<in> flows_of s" using ok(1) by (auto simp: flow_known_def)
  with ok(2) have cur: "k = cf_current_step f" "consumed (steps_of s) (consumed_ids s) (cf_id f) (cf_current_step f)"
    by (auto simp: owns_def)
  show "cf_policy f \<noteq> []" using consumed_accepted [OF parts(1) cur(2) k] by auto
  show "(cf_id f, i, ps_provider (cf_policy f ! i), ps_config (cf_policy f ! i)) \<in> acc" if "i < length (cf_policy f)" for i
  proof -
    have "i < k \<or> i = k" using that ok(3) cur(1) by auto
    then have "consumed (steps_of s) (consumed_ids s) (cf_id f) i"
      using parts(1) k cur unfolding tables_ok_def progress_ok_def by blast
    then show ?thesis using consumed_accepted [OF parts(1) _ k] by blast
  qed
  show "r' = r" if "reqs r' = Some (Passed f' target' cookie')" "cf_id f' = cf_id f" for r' f' target' cookie'
  proof -
    have "cf_current_step f' = k" using parts(2) [OF that(1)] k that(2) by (auto simp: request_ok_def owns_def)
    then show ?thesis using parts(3) [OF assms(2) that(1)] that(2) cur(1) by simp
  qed
qed

section \<open>Runs of sample requests\<close>

text \<open>A request that takes its next steps without interruption.\<close>

primrec run_request ::
  "challenge_env \<Rightarrow> step_input \<Rightarrow> nat \<Rightarrow> request_pc \<times> challenge_state \<Rightarrow> request_pc \<times> challenge_state" where
  "run_request e i 0 x = x"
| "run_request e i (Suc n) x = run_request e i n (request_step e i (fst x) (snd x))"

lemma reachable_run:
  "reachable_flows e reqs s acc \<Longrightarrow> reqs r = Some pc \<Longrightarrow>
    \<exists>acc'. reachable_flows e (reqs(r \<mapsto> fst (run_request e i n (pc, s)))) (snd (run_request e i n (pc, s))) acc'"
proof (induction n arbitrary: reqs s acc pc)
  case 0
  then show ?case by (metis fst_conv fun_upd_triv run_request.simps(1) snd_conv)
next
  case (Suc n)
  obtain pc' s' where st: "request_step e i pc s = (pc', s')" by fastforce
  have "reachable_flows e (reqs(r \<mapsto> pc')) s' (acc \<union> proof_of e i pc)" by (rule flows_run [OF Suc.prems st])
  moreover have "(reqs(r \<mapsto> pc')) r = Some pc'" by simp
  ultimately have "\<exists>acc'. reachable_flows e (reqs(r \<mapsto> pc', r \<mapsto> fst (run_request e i n (pc', s')))) (snd (run_request e i n (pc', s'))) acc'"
    by (rule Suc.IH)
  then show ?case by (simp only: run_request.simps fst_conv snd_conv st fun_upd_upd)
qed

definition sample_env :: challenge_env where
  "sample_env = \<lparr>cv_registry = challenge_registry (\<lambda>_. []) rev (=), cv_ttl_seconds = 180, cv_max_attempts = 1,
     cv_session = sample_session_env\<rparr>"

definition sample_challenge_site :: challenge_site where
  "sample_challenge_site = \<lparr>ch_id = ''s'', ch_session_ttl_seconds = 60,
     ch_challenge_policy = [\<lparr>ps_provider = ''password'', ps_config = JObject [(''password'', JString ''pw'')]\<rparr>],
     ch_auto_ban_enabled = 0, ch_auto_ban_max_failures = 5, ch_auto_ban_seconds = 60\<rparr>"

definition sample_input :: step_input where
  "sample_input = \<lparr>in_now = 10, in_fresh = ''x'', in_token = ''t1'', in_random = sample_random,
     in_site = (\<lambda>_. Some sample_challenge_site), in_https = True, in_published = True\<rparr>"

definition empty_challenges :: challenge_state where
  "empty_challenges = \<lparr>cx_flows = [], cx_steps = [], cx_consumptions = [], cx_sessions = [], cx_streaks = [], cx_bans = []\<rparr>"

definition sample_flow :: challenge_flow where
  "sample_flow = \<lparr>cf_id = ''f'', cf_site_id = ''s'', cf_return_path = ''/a'', cf_client_ip = ''8.8.8.8'', cf_user_agent_hash = ''u'',
     cf_current_step = 0, cf_policy = ch_challenge_policy sample_challenge_site, cf_status = RowPending, cf_created_at = 0,
     cf_expires_at = 180000, cf_completed_at = None\<rparr>"

definition sample_challenges :: challenge_state where
  "sample_challenges = empty_challenges\<lparr>cx_flows := [sample_flow]\<rparr>"

lemma sample_flow_reachable: "reachable_flows sample_env (\<lambda>_. None) sample_challenges {}"
proof -
  have "create_flow sample_env sample_challenge_site ''/a'' ''8.8.8.8'' ''u'' None ''f'' 0 empty_challenges = Some (sample_flow, sample_challenges)"
    by (simp add: create_flow_def insert_flow_def sample_env_def sample_challenge_site_def sample_flow_def sample_challenges_def
        empty_challenges_def safe_return_path_def starts_with_def Let_def)
  then show ?thesis using flows_create [OF flows_start, of sample_env] unfolding empty_challenges_def by blast
qed

definition answer_with :: "string \<Rightarrow> js_value" where
  "answer_with pw = Some (JObject [(''password'', JString pw)])"

definition is_passed :: "request_pc \<Rightarrow> bool" where
  "is_passed pc = (case pc of Passed f target cookie \<Rightarrow> cf_policy f = ch_challenge_policy sample_challenge_site \<and> cf_id f = ''f'' | _ \<Rightarrow> False)"

lemma sample_passes: "is_passed (fst (run_request sample_env sample_input 10 (VerifyStart ''f'' (answer_with ''pw''), sample_challenges)))"
  by code_simp

theorem session_needs_every_proof_witness:
  "\<exists>reqs s acc f target cookie. reachable_flows sample_env reqs s acc \<and> reqs 0 = Some (Passed f target cookie) \<and>
     (''f'', 0, ''password'', JObject [(''password'', JString ''pw'')]) \<in> acc"
proof -
  let ?x = "run_request sample_env sample_input 10 (VerifyStart ''f'' (answer_with ''pw''), sample_challenges)"
  let ?reqs = "[0 \<mapsto> VerifyStart ''f'' (answer_with ''pw'')] :: nat \<Rightarrow> request_pc option"
  obtain f target cookie where p: "fst ?x = Passed f target cookie" "cf_policy f = ch_challenge_policy sample_challenge_site" "cf_id f = ''f''"
    using sample_passes unfolding is_passed_def by (auto split: request_pc.splits)
  have "reachable_flows sample_env ?reqs sample_challenges {}"
    using flows_arrive [OF sample_flow_reachable, where r = 0 and pc = "VerifyStart ''f'' (answer_with ''pw'')"] by simp
  from reachable_run [OF this, of 0 _ sample_input 10] obtain acc where
    r: "reachable_flows sample_env (?reqs(0 \<mapsto> fst ?x)) (snd ?x) acc" by auto
  have "(?reqs(0 \<mapsto> fst ?x)) 0 = Some (Passed f target cookie)" by (simp add: p(1))
  from session_needs_every_proof [OF r this] p(2,3) r this show ?thesis
    by (intro exI conjI) (assumption, assumption, simp add: sample_challenge_site_def)
qed

definition concurrent_requests :: "nat \<Rightarrow> request_pc option" where
  "concurrent_requests = [0 \<mapsto> VerifyStart ''f'' (answer_with ''a''), 1 \<mapsto> VerifyStart ''f'' (answer_with ''b'')]"

definition first_waiting :: "request_pc \<times> challenge_state" where
  "first_waiting = run_request sample_env sample_input 5 (VerifyStart ''f'' (answer_with ''a''), sample_challenges)"

definition second_waiting :: "request_pc \<times> challenge_state" where
  "second_waiting = run_request sample_env sample_input 4 (VerifyStart ''f'' (answer_with ''b''), snd first_waiting)"

definition first_counted :: "request_pc \<times> challenge_state" where
  "first_counted = run_request sample_env sample_input 2 (fst first_waiting, snd second_waiting)"

definition second_counted :: "request_pc \<times> challenge_state" where
  "second_counted = run_request sample_env sample_input 2 (fst second_waiting, snd first_counted)"

lemma attempts_counted: "map st_attempts (cx_steps (snd second_counted)) = [2]"
  by code_simp

text \<open>
  C21: the limit on attempts does not hold for concurrent requests. The count of failed attempts is read before the
  provider is asked and raised after its answer, so two wrong answers sent together are both
  checked although the limit is one, and the step ends with more attempts than the limit allows.
\<close>

theorem attempt_limit_exceeded:
  "\<exists>reqs s acc. reachable_flows sample_env reqs s acc \<and> (\<exists>t \<in> set (cx_steps s). st_attempts t > cv_max_attempts sample_env)"
proof -
  have "reachable_flows sample_env concurrent_requests sample_challenges {}"
    unfolding concurrent_requests_def
    by (rule flows_arrive [OF flows_arrive [OF sample_flow_reachable]]) auto
  from reachable_run [OF this, of 0 _ sample_input 5] obtain a1 where
    "reachable_flows sample_env (concurrent_requests(0 \<mapsto> fst first_waiting)) (snd first_waiting) a1"
    by (auto simp: concurrent_requests_def first_waiting_def)
  from reachable_run [OF this, of 1 _ sample_input 4] obtain a2 where
    "reachable_flows sample_env (concurrent_requests(0 \<mapsto> fst first_waiting, 1 \<mapsto> fst second_waiting)) (snd second_waiting) a2"
    by (auto simp: concurrent_requests_def second_waiting_def)
  from reachable_run [OF this, of 0 _ sample_input 2] obtain a3 where
    "reachable_flows sample_env (concurrent_requests(0 \<mapsto> fst first_waiting, 1 \<mapsto> fst second_waiting, 0 \<mapsto> fst first_counted)) (snd first_counted) a3"
    by (auto simp: first_counted_def)
  from reachable_run [OF this, of 1 _ sample_input 2] obtain reqs a4 where
    "reachable_flows sample_env reqs (snd second_counted) a4"
    by (auto simp: second_counted_def)
  moreover have "2 \<in> st_attempts ` set (cx_steps (snd second_counted))"
    using attempts_counted by (metis list.set_intros(1) list.set_map)
  ultimately show ?thesis by (force simp: sample_env_def)
qed

section \<open>Bans\<close>

lemma failures_from_streak:
  assumes "ch_auto_ban_enabled site = 1" and "ip \<noteq> ''unknown''" and "1 \<le> ch_auto_ban_max_failures site"
    and "case om_get (cx_streaks s) (ch_id site, ip) of None \<Rightarrow> n = 0
      | Some x \<Rightarrow> fs_count x = n \<and> fs_banned x = (ch_auto_ban_max_failures site \<le> n)"
  shows "cx_bans (fold (record_challenge_failure site ip) ts s) = cx_bans s @
    (if n < ch_auto_ban_max_failures site \<and> ch_auto_ban_max_failures site \<le> n + length ts
     then [BanForFailures (ch_id site) ip (ch_auto_ban_max_failures site) (ch_auto_ban_seconds site)] else [])"
  using assms(4)
proof (induction ts arbitrary: s n)
  case (Cons t ts)
  let ?s = "record_challenge_failure site ip t s"
  have "case om_get (cx_streaks ?s) (ch_id site, ip) of None \<Rightarrow> Suc n = 0
      | Some x \<Rightarrow> fs_count x = Suc n \<and> fs_banned x = (ch_auto_ban_max_failures site \<le> Suc n)"
    using assms(1-3) Cons.prems
    by (auto simp: record_challenge_failure_def Let_def om_get_set split: option.splits)
  note IH = Cons.IH [OF this]
  have "cx_bans ?s = cx_bans s @ (if n < ch_auto_ban_max_failures site \<and> ch_auto_ban_max_failures site \<le> Suc n
      then [BanForFailures (ch_id site) ip (ch_auto_ban_max_failures site) (ch_auto_ban_seconds site)] else [])"
    using assms(1-3) Cons.prems
    by (auto simp: record_challenge_failure_def Let_def not_le split: option.splits)
  with IH show ?case by auto
qed simp

text \<open>
  An address is banned exactly once per streak of failures, when the streak reaches the configured length. Starting
  from an address without a streak, a run of failures requests no ban while it is shorter
  than the limit, and exactly one ban, with the limit as its count, once it is as long or longer.
\<close>

theorem one_ban_per_failure_streak:
  assumes "ch_auto_ban_enabled site = 1" and "ip \<noteq> ''unknown''" and "1 \<le> ch_auto_ban_max_failures site"
  shows "cx_bans (fold (record_challenge_failure site ip) moments (record_challenge_success site ip s)) = cx_bans s @
    (if ch_auto_ban_max_failures site \<le> length moments
     then [BanForFailures (ch_id site) ip (ch_auto_ban_max_failures site) (ch_auto_ban_seconds site)] else [])"
  using failures_from_streak [OF assms, where s = "record_challenge_success site ip s" and n = 0 and ts = moments] assms(3)
  by (simp add: record_challenge_success_def om_get_delete)

theorem one_ban_per_failure_streak_witness:
  "cx_bans (fold (record_challenge_failure (sample_challenge_site\<lparr>ch_auto_ban_enabled := 1\<rparr>) ''8.8.8.8'') [1, 2, 3, 4, 5, 6]
     (record_challenge_success (sample_challenge_site\<lparr>ch_auto_ban_enabled := 1\<rparr>) ''8.8.8.8'' empty_challenges)) = [BanForFailures ''s'' ''8.8.8.8'' 5 60]"
  using one_ban_per_failure_streak [of "sample_challenge_site\<lparr>ch_auto_ban_enabled := 1\<rparr>" "''8.8.8.8''" "[1, 2, 3, 4, 5, 6]" empty_challenges]
  by (simp add: sample_challenge_site_def empty_challenges_def)

end
