(* ===== verification/Origin_Health.thy ===== *)
theory Origin_Health
  imports Prelude
begin

text \<open>
  \<open>src/src/services/origin-health-service.ts\<close>: the health checks of a site's origins, the state
  machine that turns check results into origin states, and the pool status of a site.

  The runtime objects of the manager are shared between its map and the checks in flight, and a
  check compares its object with the one in the map by identity: objects live in a heap (a list,
  the address is the index) and the map holds addresses. A check is three synchronous segments:
  what runs when the answer of the origin is there, what runs when its rows are persisted, and the
  final clean-up; other handlers may run in between. The calls to the repository and to the
  notification service are recorded as a list of effects; a rejected call ends the segment.
  The clock, random delays, \<open>URL\<close> and \<open>fetch\<close> are arguments; OpenMetrics and log calls are left out.
\<close>

section \<open>Sites, origins, statuses\<close>

datatype origin_type = ProxyOrigin | StaticOrigin

datatype health_state = Unknown | Healthy | Degraded | Unhealthy | Disabled

datatype failure_mode = MonitorMode | MaintenanceMode

datatype lb_algorithm = Failover | RoundRobin | WeightedRoundRobin

record site_origin =
  so_id :: string
  so_site_id :: string
  so_name :: string
  so_type :: origin_type
  so_url :: string
  so_enabled :: int
  so_draining :: int
  so_priority :: int
  so_weight :: int
  so_health_check_path :: "string option"
  so_is_primary :: int
  so_created_at :: time

record pool_site =
  ps_id :: string
  ps_enabled :: int
  ps_health_check_enabled :: "int option"
  ps_health_check_path :: "string option"
  ps_interval_seconds :: "int option"
  ps_timeout_ms :: "int option"
  ps_failure_threshold :: "int option"
  ps_recovery_threshold :: "int option"
  ps_failure_mode :: "failure_mode option"
  ps_algorithm :: "lb_algorithm option"
  ps_affinity :: "int option"

record health_status =
  hs_site_id :: string
  hs_state :: health_state
  hs_failures :: nat
  hs_successes :: nat
  hs_last_checked_at :: "time option"
  hs_last_healthy_at :: "time option"
  hs_last_unhealthy_at :: "time option"
  hs_last_status :: "int option"
  hs_last_latency_ms :: "int option"
  hs_last_error :: "string option"
  hs_updated_at :: time

record check_result =
  cr_healthy :: bool
  cr_status :: "int option"
  cr_latency_ms :: rat
  cr_error :: "string option"
  cr_checked_at :: time

definition js_round :: "rat \<Rightarrow> int" where
  "js_round x = \<lfloor>x + 1 / 2\<rfloor>"

definition advance_origin_health_state :: "health_status \<Rightarrow> check_result \<Rightarrow> int \<Rightarrow> int \<Rightarrow> health_status" where
  "advance_origin_health_state current r failure_threshold recovery_threshold =
     (let next = current\<lparr>hs_last_checked_at := Some (cr_checked_at r), hs_last_status := cr_status r,
                    hs_last_latency_ms := Some (max 0 (js_round (cr_latency_ms r))),
                    hs_last_error := cr_error r, hs_updated_at := cr_checked_at r\<rparr>
      in if cr_healthy r
         then let successes = hs_successes current + 1
              in next\<lparr>hs_failures := 0, hs_successes := successes,
                      hs_last_healthy_at := Some (cr_checked_at r),
                      hs_state := (if hs_state current = Unhealthy
                                   then if int successes \<ge> recovery_threshold then Healthy else Unhealthy
                                   else if int successes \<ge> recovery_threshold then Healthy else Degraded)\<rparr>
         else let failures = hs_failures current + 1
              in if int failures \<ge> failure_threshold
                 then next\<lparr>hs_successes := 0, hs_failures := failures, hs_state := Unhealthy,
                           hs_last_unhealthy_at := (if hs_state current \<noteq> Unhealthy then Some (cr_checked_at r)
                                                    else hs_last_unhealthy_at current)\<rparr>
                 else next\<lparr>hs_successes := 0, hs_failures := failures,
                           hs_state := (if hs_state current = Unhealthy then Unhealthy else Degraded)\<rparr>)"

definition empty_status :: "string \<Rightarrow> health_state \<Rightarrow> time \<Rightarrow> health_status" where
  "empty_status site_id st now =
     \<lparr>hs_site_id = site_id, hs_state = st, hs_failures = 0, hs_successes = 0, hs_last_checked_at = None,
      hs_last_healthy_at = None, hs_last_unhealthy_at = None, hs_last_status = None,
      hs_last_latency_ms = None, hs_last_error = None, hs_updated_at = now\<rparr>"

definition health_status_after_configuration_change ::
    "string \<Rightarrow> health_status option \<Rightarrow> bool \<Rightarrow> time \<Rightarrow> health_status" where
  "health_status_after_configuration_change site_id current enabled now =
     (case current of
        None \<Rightarrow> empty_status site_id (if enabled then Unknown else Disabled) now
      | Some c \<Rightarrow> c\<lparr>hs_state := (if enabled then if hs_state c = Unhealthy then Unhealthy else Unknown
                                  else Disabled),
                    hs_failures := 0, hs_successes := 0, hs_updated_at := now\<rparr>)"

text \<open>\<open>Array.join\<close> writes null and undefined as the empty string.\<close>

definition opt_int_text :: "int option \<Rightarrow> string" where
  "opt_int_text = case_option [] int_text"

definition origin_type_text :: "origin_type \<Rightarrow> string" where
  "origin_type_text t = (case t of ProxyOrigin \<Rightarrow> ''proxy'' | StaticOrigin \<Rightarrow> ''static'')"

definition settings_key :: "pool_site \<Rightarrow> site_origin \<Rightarrow> string" where
  "settings_key s o1 = join [CHR 0x0A]
     [int_text (ps_enabled s), opt_int_text (ps_health_check_enabled s),
      case_option [] id (ps_health_check_path s), opt_int_text (ps_interval_seconds s),
      opt_int_text (ps_timeout_ms s), opt_int_text (ps_failure_threshold s),
      opt_int_text (ps_recovery_threshold s), int_text (so_enabled o1), origin_type_text (so_type o1),
      so_url o1, case_option [] id (so_health_check_path o1)]"

definition jitter :: "rat \<Rightarrow> rat \<Rightarrow> int" where
  "jitter random interval_ms = js_round (interval_ms * (9 / 10 + random * (2 / 10)))"

definition aggregate_state :: "health_status list \<Rightarrow> bool \<Rightarrow> health_state" where
  "aggregate_state statuses health_enabled =
     (if \<not> health_enabled then Disabled
      else if statuses = [] then Unhealthy
      else if list_ex (\<lambda>s. hs_state s = Healthy) statuses then Healthy
      else if list_ex (\<lambda>s. hs_state s = Degraded) statuses then Degraded
      else if list_ex (\<lambda>s. hs_state s = Unknown \<or> hs_state s = Disabled) statuses then Unknown
      else Unhealthy)"

section \<open>The manager\<close>

record runtime_origin =
  ro_site :: pool_site
  ro_origin :: site_origin
  ro_status :: health_status
  ro_next_check_at :: "time option"
  ro_running :: bool
  ro_last_persisted_at :: time
  ro_settings_key :: string

record health_manager =
  objects :: "runtime_origin list"
  runtime :: "(string, nat) omap"
  pool_statuses :: "(string, health_status) omap"
  active_checks :: nat

definition new_manager :: health_manager where
  "new_manager = \<lparr>objects = [], runtime = [], pool_statuses = [], active_checks = 0\<rparr>"

definition runtime_values :: "health_manager \<Rightarrow> runtime_origin list" where
  "runtime_values m = map (\<lambda>a. objects m ! a) (om_values (runtime m))"

definition runtime_object :: "health_manager \<Rightarrow> string \<Rightarrow> runtime_origin option" where
  "runtime_object m origin_id = map_option (\<lambda>a. objects m ! a) (om_get (runtime m) origin_id)"

definition update_object :: "nat \<Rightarrow> (runtime_origin \<Rightarrow> runtime_origin) \<Rightarrow> health_manager \<Rightarrow> health_manager" where
  "update_object a f m = m\<lparr>objects := (objects m)[a := f (objects m ! a)]\<rparr>"

definition site_checked :: "pool_site \<Rightarrow> bool" where
  "site_checked s \<longleftrightarrow> ps_enabled s = 1 \<and> ps_health_check_enabled s = Some 1"

text \<open>\<open>None\<close> as the time of the next check is \<open>Number.POSITIVE_INFINITY\<close>.\<close>

definition set_runtime_origin ::
    "time \<Rightarrow> int \<Rightarrow> pool_site \<Rightarrow> site_origin \<Rightarrow> health_status option \<Rightarrow> bool \<Rightarrow> health_manager \<Rightarrow> health_manager" where
  "set_runtime_origin now delay s o1 previous immediate m =
     (let key = settings_key s o1;
          enabled = (so_type o1 = ProxyOrigin \<and> site_checked s \<and> so_enabled o1 = 1);
          fresh = \<lparr>ro_site = s, ro_origin = o1,
                   ro_status = health_status_after_configuration_change (ps_id s) previous enabled now,
                   ro_next_check_at = (if enabled then Some (now + (if immediate then 0 else delay)) else None),
                   ro_running = False, ro_last_persisted_at = case_option 0 hs_updated_at previous,
                   ro_settings_key = key\<rparr>;
          replaced = m\<lparr>objects := objects m @ [fresh],
                       runtime := om_set (so_id o1) (length (objects m)) (runtime m)\<rparr>
      in case om_get (runtime m) (so_id o1) of
           Some a \<Rightarrow> if ro_settings_key (objects m ! a) = key
                     then update_object a (\<lambda>r. r\<lparr>ro_site := s, ro_origin := o1\<rparr>) m
                     else replaced
         | None \<Rightarrow> replaced)"

definition or_null :: "int \<Rightarrow> int option" where
  "or_null n = (if n = 0 then None else Some n)"

definition opt_else :: "'a option \<Rightarrow> 'a option \<Rightarrow> 'a option" where
  "opt_else a b = (case a of None \<Rightarrow> b | Some _ \<Rightarrow> a)"

definition recompute_pool ::
    "time \<Rightarrow> pool_site \<Rightarrow> health_status option \<Rightarrow> bool \<Rightarrow> health_manager \<Rightarrow> health_status \<times> health_manager" where
  "recompute_pool now s previous preserve_incident m =
     (let statuses = map ro_status (filter (\<lambda>r. ps_id (ro_site r) = ps_id s \<and> so_enabled (ro_origin r) = 1)
                                     (runtime_values m));
          st = aggregate_state statuses (site_checked s);
          latest = (case sort_key (\<lambda>x. - case_option 0 id (hs_last_checked_at x)) statuses of
                      [] \<Rightarrow> None | x # _ \<Rightarrow> Some x);
          base = case_option (empty_status (ps_id s) st now) id previous;
          pool = base\<lparr>
            hs_state := (if preserve_incident \<and> site_checked s \<and> map_option hs_state previous = Some Unhealthy
                            \<and> st \<noteq> Healthy then Unhealthy else st),
            hs_failures := sum_list (map hs_failures statuses),
            hs_successes := sum_list (map hs_successes statuses),
            hs_last_checked_at := opt_else (Option.bind latest hs_last_checked_at)
                                    (Option.bind previous hs_last_checked_at),
            hs_last_healthy_at := fold (\<lambda>x acc. or_null (max (case_option 0 id acc)
                                    (case_option 0 id (hs_last_healthy_at x)))) statuses None,
            hs_last_unhealthy_at := (if st = Unhealthy \<and> map_option hs_state previous \<noteq> Some Unhealthy then Some now
                                     else Option.bind previous hs_last_unhealthy_at),
            hs_last_status := Option.bind latest hs_last_status,
            hs_last_latency_ms := Option.bind latest hs_last_latency_ms,
            hs_last_error := (if st = Unhealthy then Some ''No healthy origin is available'' else None),
            hs_updated_at := now\<rparr>
      in (pool, m\<lparr>pool_statuses := om_set (ps_id s) pool (pool_statuses m)\<rparr>))"

definition initialize_health ::
    "time \<Rightarrow> (string \<Rightarrow> int) \<Rightarrow> pool_site list \<Rightarrow> site_origin list \<Rightarrow> (string \<Rightarrow> health_status option) \<Rightarrow>
     (string \<Rightarrow> health_status option) \<Rightarrow> health_manager \<Rightarrow> health_manager" where
  "initialize_health now delay sites origins persisted_backends persisted_pools m =
     fold (\<lambda>s m. snd (recompute_pool now s (persisted_pools (ps_id s)) True m)) sites
       (fold (\<lambda>o1 m. case find (\<lambda>s. ps_id s = so_site_id o1) (rev sites) of
                        None \<Rightarrow> m
                      | Some s \<Rightarrow> set_runtime_origin now (delay (so_id o1)) s o1 (persisted_backends (so_id o1)) False m)
          origins m)"

definition summary :: "time \<Rightarrow> string \<Rightarrow> health_manager \<Rightarrow> health_status \<times> (string \<times> string \<times> health_status) list" where
  "summary now site_id m =
     (case_option (empty_status site_id Disabled now) id (om_get (pool_statuses m) site_id),
      map (\<lambda>r. (so_id (ro_origin r), so_name (ro_origin r), ro_status r))
        (filter (\<lambda>r. ps_id (ro_site r) = site_id) (runtime_values m)))"

definition origin_state :: "health_manager \<Rightarrow> string \<Rightarrow> health_state" where
  "origin_state m origin_id = case_option Unknown (\<lambda>r. hs_state (ro_status r)) (runtime_object m origin_id)"

definition is_maintenance_mode :: "string \<Rightarrow> health_manager \<Rightarrow> bool" where
  "is_maintenance_mode site_id m \<longleftrightarrow>
     (case filter (\<lambda>r. ps_id (ro_site r) = site_id \<and> so_enabled (ro_origin r) = 1) (runtime_values m) of
        [] \<Rightarrow> False
      | r # _ \<Rightarrow> ps_failure_mode (ro_site r) = Some MaintenanceMode
               \<and> map_option hs_state (om_get (pool_statuses m) site_id) = Some Unhealthy)"

definition remove_runtime_site :: "string \<Rightarrow> health_manager \<Rightarrow> health_manager" where
  "remove_runtime_site site_id m =
     m\<lparr>runtime := filter (\<lambda>(_, a). ps_id (ro_site (objects m ! a)) \<noteq> site_id) (runtime m),
       pool_statuses := om_delete site_id (pool_statuses m)\<rparr>"

definition refresh_runtime_site ::
    "time \<Rightarrow> string \<Rightarrow> pool_site option \<Rightarrow> site_origin list \<Rightarrow> health_manager \<Rightarrow> health_manager" where
  "refresh_runtime_site now site_id row origins m =
     (case row of
        None \<Rightarrow> remove_runtime_site site_id m
      | Some s \<Rightarrow>
          let m1 = m\<lparr>runtime := filter (\<lambda>(oid, a). \<not> (ps_id (ro_site (objects m ! a)) = site_id
                                        \<and> oid \<notin> set (map so_id origins))) (runtime m)\<rparr>;
              m2 = fold (\<lambda>o1 m. set_runtime_origin now 0 s o1 (map_option ro_status (runtime_object m (so_id o1))) True m)
                     origins m1
          in snd (recompute_pool now s (om_get (pool_statuses m2) site_id) True m2))"

section \<open>Running a check\<close>

datatype fetch_outcome = Answered int | FetchFailed string

text \<open>
  \<open>target url path\<close> is \<open>originHealthTarget\<close>: \<open>None\<close> when \<open>new URL\<close> throws, with the message
  \<open>invalid\<close>. An empty path counts as absent.
\<close>

definition nonempty :: "string option \<Rightarrow> string option" where
  "nonempty s = (if s = Some [] then None else s)"

definition check_path :: "runtime_origin \<Rightarrow> string" where
  "check_path r = case_option (case_option ''/health'' id (nonempty (ps_health_check_path (ro_site r)))) id
                    (nonempty (so_health_check_path (ro_origin r)))"

definition perform_check ::
    "(string \<Rightarrow> string \<Rightarrow> string option) \<Rightarrow> string \<Rightarrow> (string \<Rightarrow> fetch_outcome) \<Rightarrow> rat \<Rightarrow> time \<Rightarrow> runtime_origin \<Rightarrow> check_result" where
  "perform_check target invalid fetch latency checked_at r =
     (case (case target (so_url (ro_origin r)) (check_path r) of None \<Rightarrow> FetchFailed invalid | Some u \<Rightarrow> fetch u) of
        Answered status \<Rightarrow>
          let healthy = (200 \<le> status \<and> status < 300)
          in \<lparr>cr_healthy = healthy, cr_status = Some status, cr_latency_ms = latency,
              cr_error = (if healthy then None else Some (''Health endpoint returned HTTP '' @ int_text status)),
              cr_checked_at = checked_at\<rparr>
      | FetchFailed message \<Rightarrow>
          \<lparr>cr_healthy = False, cr_status = None, cr_latency_ms = latency,
           cr_error = Some (take 1000 message), cr_checked_at = checked_at\<rparr>)"

record health_event =
  he_site_id :: string
  he_origin_id :: "string option"
  he_from :: health_state
  he_to :: health_state
  he_status :: "int option"
  he_latency_ms :: int
  he_error :: "string option"
  he_created_at :: time

datatype notification = OriginUnhealthy string | OriginRecovered string | PoolUnhealthy | PoolRecovered

datatype health_effect =
    AddLatency string string int "rat option" bool
  | SaveBackend string health_status
  | InsertEvent health_event
  | SavePool health_status
  | Notify string notification

definition start_check :: "nat \<Rightarrow> health_manager \<Rightarrow> health_manager" where
  "start_check a m = (update_object a (\<lambda>r. r\<lparr>ro_running := True\<rparr>) m)\<lparr>active_checks := active_checks m + 1\<rparr>"

fun tick_checks :: "time \<Rightarrow> nat list \<Rightarrow> health_manager \<Rightarrow> nat list \<times> health_manager" where
  "tick_checks now [] m = ([], m)"
| "tick_checks now (a # rest) m =
     (let r = objects m ! a
      in if active_checks m \<ge> 10 then ([], m)
         else if ro_running r \<or> (case ro_next_check_at r of None \<Rightarrow> True | Some t \<Rightarrow> t > now)
                 \<or> \<not> site_checked (ro_site r) \<or> so_enabled (ro_origin r) \<noteq> 1
         then tick_checks now rest m
         else let (started, m') = tick_checks now rest (start_check a m) in (a # started, m'))"

definition health_tick :: "time \<Rightarrow> health_manager \<Rightarrow> nat list \<times> health_manager" where
  "health_tick now m = tick_checks now (om_values (runtime m)) m"

text \<open>What a check holds across its first await on the repository.\<close>

record check_frame =
  cf_object :: nat
  cf_previous_backend :: health_status
  cf_previous_pool :: health_status
  cf_next_backend :: health_status
  cf_result :: check_result

definition apply_result :: "time \<Rightarrow> nat \<Rightarrow> check_result \<Rightarrow> health_manager \<Rightarrow> check_frame option \<times> health_manager" where
  "apply_result now a r m =
     (let ob = objects m ! a; s = ro_site ob
      in if om_get (runtime m) (so_id (ro_origin ob)) \<noteq> Some a then (None, m)
         else let previous_pool = case_option (empty_status (ps_id s) Unknown now) id (om_get (pool_statuses m) (ps_id s));
                  next = advance_origin_health_state (ro_status ob) r
                           (case_option 3 id (ps_failure_threshold s)) (case_option 2 id (ps_recovery_threshold s))
              in (Some \<lparr>cf_object = a, cf_previous_backend = ro_status ob, cf_previous_pool = previous_pool,
                        cf_next_backend = next, cf_result = r\<rparr>,
                  update_object a (\<lambda>ob. ob\<lparr>ro_status := next\<rparr>) m))"

definition backend_event :: "runtime_origin \<Rightarrow> health_state \<Rightarrow> health_status \<Rightarrow> check_result \<Rightarrow> health_event" where
  "backend_event r from_state st res =
     \<lparr>he_site_id = ps_id (ro_site r), he_origin_id = Some (so_id (ro_origin r)), he_from = from_state,
      he_to = hs_state st, he_status = cr_status res, he_latency_ms = js_round (cr_latency_ms res),
      he_error = cr_error res, he_created_at = cr_checked_at res\<rparr>"

definition pool_event :: "pool_site \<Rightarrow> health_state \<Rightarrow> health_status \<Rightarrow> check_result \<Rightarrow> health_event" where
  "pool_event s from_state st res =
     \<lparr>he_site_id = ps_id s, he_origin_id = None, he_from = from_state,
      he_to = hs_state st, he_status = cr_status res, he_latency_ms = js_round (cr_latency_ms res),
      he_error = hs_last_error st, he_created_at = cr_checked_at res\<rparr>"

text \<open>The rows a check writes for its origin, in order: latency, status, event.\<close>

definition backend_writes :: "check_frame \<Rightarrow> runtime_origin \<Rightarrow> health_effect list" where
  "backend_writes f ob =
     (let res = cf_result f; next = cf_next_backend f;
          transitioned = (hs_state (cf_previous_backend f) \<noteq> hs_state next); timed_out = (cr_status res = None)
      in [AddLatency (so_id (ro_origin ob)) (ps_id (ro_site ob)) (cr_checked_at res div 60000 * 60000)
            (if timed_out then None else Some (cr_latency_ms res)) timed_out]
         @ (if transitioned \<or> cr_checked_at res - ro_last_persisted_at ob \<ge> 300000
            then [SaveBackend (so_id (ro_origin ob)) next] else [])
         @ (if transitioned
            then [InsertEvent (backend_event ob (hs_state (cf_previous_backend f)) next res)] else []))"

definition is_save_backend :: "health_effect \<Rightarrow> bool" where
  "is_save_backend e = (case e of SaveBackend _ _ \<Rightarrow> True | _ \<Rightarrow> False)"

text \<open>
  The rows and notifications after the pool is recomputed. A notification that names an origin
  builds the \<open>URL\<close> of it first and is lost when that throws.
\<close>

definition pool_writes :: "(string \<Rightarrow> bool) \<Rightarrow> check_frame \<Rightarrow> runtime_origin \<Rightarrow> health_status \<Rightarrow> health_effect list" where
  "pool_writes valid_url f ob next_pool =
     (let s = ro_site ob; previous_pool = cf_previous_pool f;
          from_backend = hs_state (cf_previous_backend f); to_backend = hs_state (cf_next_backend f);
          transitioned = (hs_state previous_pool \<noteq> hs_state next_pool)
      in if transitioned
         then [SavePool next_pool, InsertEvent (pool_event s (hs_state previous_pool) next_pool (cf_result f))]
              @ (if hs_state next_pool = Unhealthy then [Notify (ps_id s) PoolUnhealthy]
                 else if hs_state previous_pool = Unhealthy \<and> hs_state next_pool = Healthy
                 then [Notify (ps_id s) PoolRecovered] else [])
         else if from_backend \<noteq> to_backend \<and> valid_url (so_url (ro_origin ob))
         then (if to_backend = Unhealthy then [Notify (ps_id s) (OriginUnhealthy (so_id (ro_origin ob)))]
               else if from_backend = Unhealthy \<and> to_backend = Healthy
               then [Notify (ps_id s) (OriginRecovered (so_id (ro_origin ob)))] else [])
         else [])"

text \<open>\<open>calls\<close> is the number of repository and notification calls that succeed before one is rejected.\<close>

definition persist_check ::
    "(string \<Rightarrow> bool) \<Rightarrow> time \<Rightarrow> nat \<Rightarrow> check_frame \<Rightarrow> health_manager \<Rightarrow> health_effect list \<times> health_manager" where
  "persist_check valid_url now calls f m =
     (let a = cf_object f; ob = objects m ! a; first = backend_writes f ob; done = take calls first;
          m1 = (if list_ex is_save_backend done
                then update_object a (\<lambda>ob. ob\<lparr>ro_last_persisted_at := cr_checked_at (cf_result f)\<rparr>) m else m)
      in if calls < length first then (done, m1)
         else let (next_pool, m2) = recompute_pool now (ro_site ob) (Some (cf_previous_pool f)) False m1
              in (first @ take (calls - length first) (pool_writes valid_url f ob next_pool), m2))"

definition finish_check :: "time \<Rightarrow> rat \<Rightarrow> nat \<Rightarrow> health_manager \<Rightarrow> health_manager" where
  "finish_check now random a m =
     (update_object a (\<lambda>r. r\<lparr>ro_running := False,
        ro_next_check_at := Some (now + jitter random (of_int (case_option 10 id (ps_interval_seconds (ro_site r))) * 1000))\<rparr>) m)
       \<lparr>active_checks := active_checks m - 1\<rparr>"

datatype check_error = NoTargets bool | AlreadyRunning | ChecksDisabled

definition check_now_targets ::
    "time \<Rightarrow> string \<Rightarrow> string option \<Rightarrow> pool_site option \<Rightarrow> site_origin list \<Rightarrow> health_manager \<Rightarrow>
     (check_error + nat list) \<times> health_manager" where
  "check_now_targets now site_id origin_id row origins m =
     (let m1 = refresh_runtime_site now site_id row origins m;
          targets = filter (\<lambda>a. let r = objects m1 ! a in ps_id (ro_site r) = site_id \<and> so_enabled (ro_origin r) = 1
                               \<and> (case nonempty origin_id of None \<Rightarrow> True | Some oid \<Rightarrow> so_id (ro_origin r) = oid))
                      (om_values (runtime m1))
      in (case targets of
            [] \<Rightarrow> Inl (NoTargets (nonempty origin_id \<noteq> None))
          | a # _ \<Rightarrow>
              if list_ex (\<lambda>b. ro_running (objects m1 ! b)) targets then Inl AlreadyRunning
              else if ps_health_check_enabled (ro_site (objects m1 ! a)) \<noteq> Some 1 then Inl ChecksDisabled
              else Inr targets, m1))"

section \<open>What a run of checks says about an origin\<close>

definition run_checks :: "health_status \<Rightarrow> check_result list \<Rightarrow> int \<Rightarrow> int \<Rightarrow> health_status" where
  "run_checks st results failure_threshold recovery_threshold =
     fold (\<lambda>r st. advance_origin_health_state st r failure_threshold recovery_threshold) results st"

text \<open>The length of the last uninterrupted run of results with a property.\<close>

definition trailing :: "('a \<Rightarrow> bool) \<Rightarrow> 'a list \<Rightarrow> nat" where
  "trailing P xs = length (takeWhile P (rev xs))"

definition has_run :: "('a \<Rightarrow> bool) \<Rightarrow> nat \<Rightarrow> 'a list \<Rightarrow> bool" where
  "has_run P n xs \<longleftrightarrow> (\<exists>pre ys post. xs = pre @ ys @ post \<and> length ys = n \<and> list_all P ys)"

text \<open>An incident: a run of \<open>f\<close> failures that no run of \<open>n\<close> successes has followed.\<close>

definition open_incident :: "nat \<Rightarrow> nat \<Rightarrow> check_result list \<Rightarrow> bool" where
  "open_incident f n rs \<longleftrightarrow> (\<exists>pre fs post. rs = pre @ fs @ post \<and> length fs = f
     \<and> list_all (\<lambda>r. \<not> cr_healthy r) fs \<and> \<not> has_run cr_healthy n post)"

lemma trailing_Nil [simp]: "trailing P [] = 0"
  by (simp add: trailing_def)

lemma trailing_snoc [simp]: "trailing P (xs @ [x]) = (if P x then Suc (trailing P xs) else 0)"
  by (simp add: trailing_def)

lemma trailing_le_iff: "n \<le> trailing P xs \<longleftrightarrow> (\<exists>pre ys. xs = pre @ ys \<and> length ys = n \<and> list_all P ys)"
proof (induction xs arbitrary: n rule: rev_induct)
  case (snoc x xs)
  show ?case
  proof (cases n)
    case (Suc k)
    have "(\<exists>pre ys. xs @ [x] = pre @ ys \<and> length ys = Suc k \<and> list_all P ys)
        \<longleftrightarrow> P x \<and> (\<exists>pre ys. xs = pre @ ys \<and> length ys = k \<and> list_all P ys)" (is "?L \<longleftrightarrow> ?R")
    proof
      assume ?L
      then obtain pre ys where 1: "xs @ [x] = pre @ ys" "length ys = Suc k" "list_all P ys" by auto
      then obtain zs where zs: "ys = zs @ [x]" by (cases ys rule: rev_cases) auto
      with 1 show ?R by auto
    next
      assume ?R
      then obtain pre ys where "P x" "xs = pre @ ys" "length ys = k" "list_all P ys" by auto
      then have "xs @ [x] = pre @ (ys @ [x])" "length (ys @ [x]) = Suc k" "list_all P (ys @ [x])" by auto
      then show ?L by blast
    qed
    with snoc.IH [of k] Suc show ?thesis by simp
  qed simp
qed simp

lemma has_run_snoc: "has_run P n (xs @ [x]) \<longleftrightarrow> has_run P n xs \<or> n \<le> trailing P (xs @ [x])"
proof
  assume "has_run P n (xs @ [x])"
  then obtain pre ys post where 1: "xs @ [x] = pre @ ys @ post" "length ys = n" "list_all P ys"
    by (auto simp: has_run_def)
  show "has_run P n xs \<or> n \<le> trailing P (xs @ [x])"
  proof (cases post rule: rev_cases)
    case Nil
    with 1 have "\<exists>pre ys. xs @ [x] = pre @ ys \<and> length ys = n \<and> list_all P ys" by auto
    then have "n \<le> trailing P (xs @ [x])" unfolding trailing_le_iff .
    then show ?thesis ..
  next
    case (snoc post' y)
    with 1 have "xs = pre @ ys @ post'" by simp
    with 1 show ?thesis by (auto simp: has_run_def)
  qed
next
  assume "has_run P n xs \<or> n \<le> trailing P (xs @ [x])"
  then show "has_run P n (xs @ [x])"
  proof
    assume "has_run P n xs"
    then obtain pre ys post where "xs = pre @ ys @ post" "length ys = n" "list_all P ys"
      by (auto simp: has_run_def)
    then have "xs @ [x] = pre @ ys @ (post @ [x])" "length ys = n" "list_all P ys" by auto
    then show ?thesis unfolding has_run_def by blast
  next
    assume "n \<le> trailing P (xs @ [x])"
    then obtain pre ys where "xs @ [x] = pre @ ys" "length ys = n" "list_all P ys"
      by (auto simp only: trailing_le_iff)
    then have "xs @ [x] = pre @ ys @ []" "length ys = n" "list_all P ys" by auto
    then show ?thesis unfolding has_run_def by blast
  qed
qed

lemma has_run_trailing: "n \<le> trailing P xs \<Longrightarrow> has_run P n xs"
proof -
  assume "n \<le> trailing P xs"
  then obtain pre ys where "xs = pre @ ys @ []" "length ys = n" "list_all P ys"
    by (auto simp: trailing_le_iff)
  then show ?thesis unfolding has_run_def by blast
qed

lemma open_incident_Nil: "0 < f \<Longrightarrow> \<not> open_incident f n []"
  by (auto simp: open_incident_def)

text \<open>The run of successes that follows an incident is a suffix of all results.\<close>

lemma trailing_append_mixed:
  assumes "fs \<noteq> []" and "list_all (\<lambda>r. \<not> P r) fs"
  shows "trailing P (pre @ fs @ post) = trailing P post"
proof -
  have hd: "\<not> P (hd (rev fs))" using assms
    by (metis hd_in_set list_all_iff rev_is_Nil_conv set_rev)
  with assms(1) have "takeWhile P (rev fs @ rev pre) = []"
    by (cases "rev fs") auto
  then have "takeWhile P (rev post @ rev fs @ rev pre) = takeWhile P (rev post)"
    by (subst takeWhile_append) (auto simp: takeWhile_eq_all_conv [THEN iffD2])
  then show ?thesis by (simp add: trailing_def)
qed

lemma open_incident_snoc:
  assumes f: "0 < f" and n: "0 < n"
  shows "open_incident f n (rs @ [r]) \<longleftrightarrow>
    (if cr_healthy r then open_incident f n rs \<and> trailing cr_healthy rs + 1 < n
     else open_incident f n rs \<or> f \<le> trailing (\<lambda>r. \<not> cr_healthy r) rs + 1)"
    (is "?L \<longleftrightarrow> ?R")
proof
  assume ?L
  then obtain pre fs post where 1: "rs @ [r] = pre @ fs @ post" "length fs = f"
      "list_all (\<lambda>r. \<not> cr_healthy r) fs" "\<not> has_run cr_healthy n post"
    by (auto simp: open_incident_def)
  show ?R
  proof (cases post rule: rev_cases)
    case Nil
    with 1 have "f \<le> trailing (\<lambda>r. \<not> cr_healthy r) (rs @ [r])"
      by (subst trailing_le_iff) auto
    with f show ?thesis by (auto split: if_splits)
  next
    case (snoc post' y)
    with 1 have eq: "rs = pre @ fs @ post'" "y = r" by auto
    from 1 snoc eq have nr: "\<not> has_run cr_healthy n post'" "\<not> n \<le> trailing cr_healthy (post' @ [r])"
      by (auto simp: has_run_snoc)
    have open': "open_incident f n rs" using 1 eq nr by (auto simp: open_incident_def)
    have "trailing cr_healthy rs = trailing cr_healthy post'" using eq 1 f
      by (metis length_greater_0_conv trailing_append_mixed)
    with nr open' show ?thesis by (auto split: if_splits)
  qed
next
  assume R: ?R
  show ?L
  proof (cases "open_incident f n rs")
    case True
    then obtain pre fs post where 1: "rs = pre @ fs @ post" "length fs = f"
        "list_all (\<lambda>r. \<not> cr_healthy r) fs" "\<not> has_run cr_healthy n post"
      by (auto simp: open_incident_def)
    have "trailing cr_healthy rs = trailing cr_healthy post" using 1 f
      by (metis length_greater_0_conv trailing_append_mixed)
    with R 1 n have "\<not> has_run cr_healthy n (post @ [r])"
      by (auto simp: has_run_snoc split: if_splits)
    with 1 show ?thesis unfolding open_incident_def by (metis append.assoc)
  next
    case False
    with R have "f \<le> trailing (\<lambda>r. \<not> cr_healthy r) (rs @ [r])" by (auto split: if_splits)
    then obtain pre fs where "rs @ [r] = pre @ fs @ []" "length fs = f" "list_all (\<lambda>r. \<not> cr_healthy r) fs"
      by (auto simp only: trailing_le_iff append_Nil2)
    moreover have "\<not> has_run cr_healthy n []" using n by (auto simp: has_run_def)
    ultimately show ?thesis unfolding open_incident_def by blast
  qed
qed

lemma run_checks_snoc:
  "run_checks st (rs @ [r]) f n = advance_origin_health_state (run_checks st rs f n) r f n"
  by (simp add: run_checks_def)

lemma advance_counts:
  "hs_failures (advance_origin_health_state st r f n) = (if cr_healthy r then 0 else Suc (hs_failures st))"
  "hs_successes (advance_origin_health_state st r f n) = (if cr_healthy r then Suc (hs_successes st) else 0)"
  by (simp_all add: advance_origin_health_state_def Let_def)

lemma advance_state:
  "hs_state (advance_origin_health_state st r f n) =
     (if cr_healthy r
      then if n \<le> int (hs_successes st) + 1 then Healthy
           else if hs_state st = Unhealthy then Unhealthy else Degraded
      else if f \<le> int (hs_failures st) + 1 \<or> hs_state st = Unhealthy then Unhealthy else Degraded)"
  by (auto simp: advance_origin_health_state_def Let_def)

lemma run_checks_counts:
  assumes "hs_failures st = 0" and "hs_successes st = 0"
  shows "hs_failures (run_checks st rs f n) = trailing (\<lambda>r. \<not> cr_healthy r) rs"
    and "hs_successes (run_checks st rs f n) = trailing cr_healthy rs"
proof (induction rs rule: rev_induct)
  case Nil
  { case 1 show ?case by (simp add: run_checks_def assms) }
  { case 2 show ?case by (simp add: run_checks_def assms) }
next
  case (snoc r rs)
  { case 1 show ?case by (simp add: run_checks_snoc advance_counts snoc) }
  { case 2 show ?case by (simp add: run_checks_snoc advance_counts snoc) }
qed

lemma run_checks_unhealthy:
  assumes "hs_failures st = 0" and "hs_successes st = 0" and "hs_state st \<noteq> Unhealthy" and "0 < f" and "0 < n"
  shows "hs_state (run_checks st rs (int f) (int n)) = Unhealthy \<longleftrightarrow> open_incident f n rs"
proof (induction rs rule: rev_induct)
  case Nil
  show ?case using assms by (simp add: run_checks_def open_incident_Nil)
next
  case (snoc r rs)
  have "int n \<le> int (trailing cr_healthy rs) + 1 \<longleftrightarrow> n \<le> trailing cr_healthy rs + 1"
    and "int f \<le> int (trailing (\<lambda>r. \<not> cr_healthy r) rs) + 1 \<longleftrightarrow> f \<le> trailing (\<lambda>r. \<not> cr_healthy r) rs + 1"
    by linarith+
  then show ?case
    using snoc by (auto simp: run_checks_snoc advance_state run_checks_counts assms open_incident_snoc)
qed

lemma run_checks_healthy:
  assumes "hs_failures st = 0" and "hs_successes st = 0" and "rs \<noteq> []" and "0 < n"
  shows "hs_state (run_checks st rs f (int n)) = Healthy \<longleftrightarrow> n \<le> trailing cr_healthy rs"
proof -
  from assms obtain rs' r where "rs = rs' @ [r]" by (cases rs rule: rev_cases) auto
  then show ?thesis using assms
    by (auto simp: run_checks_snoc advance_state run_checks_counts)
qed

lemma run_checks_degraded:
  assumes "rs \<noteq> []"
  shows "hs_state (run_checks st rs f n) \<in> {Healthy, Degraded, Unhealthy}"
proof -
  from assms obtain rs' r where "rs = rs' @ [r]" by (cases rs rule: rev_cases) auto
  then show ?thesis by (auto simp: run_checks_snoc advance_state)
qed

text \<open>
  C11: the state of an origin that is checked from a fresh status, after any non-empty sequence of
  check results and for positive thresholds: it is unhealthy exactly when somewhere in the results
  there are \<open>f\<close> failures in a row that \<open>n\<close> successes in a row have not followed yet, healthy exactly
  when the last \<open>n\<close> results are successes, and degraded otherwise. One failed check takes no origin
  out of service and one good answer brings none back, for thresholds above one.
\<close>

theorem health_state_characterised:
  assumes "0 < f" and "0 < n" and "rs \<noteq> []" and "st \<noteq> Unhealthy"
  shows "hs_state (run_checks (empty_status site st t) rs (int f) (int n)) =
    (if open_incident f n rs then Unhealthy
     else if \<exists>pre ys. rs = pre @ ys \<and> length ys = n \<and> list_all cr_healthy ys then Healthy
     else Degraded)"
proof -
  let ?s = "empty_status site st t"
  have z: "hs_failures ?s = 0" "hs_successes ?s = 0" "hs_state ?s \<noteq> Unhealthy"
    using assms by (simp_all add: empty_status_def)
  note u = run_checks_unhealthy [OF z assms(1,2), of rs]
  note h = run_checks_healthy [OF z(1,2) assms(3,2), of "int f"]
  from run_checks_degraded [OF assms(3), of ?s "int f" "int n"] u h show ?thesis
    unfolding trailing_le_iff [symmetric] by auto
qed

definition sample_result :: "bool \<Rightarrow> check_result" where
  "sample_result ok = \<lparr>cr_healthy = ok, cr_status = (if ok then Some 200 else None), cr_latency_ms = 1,
                       cr_error = (if ok then None else Some ''timeout''), cr_checked_at = 1000\<rparr>"

theorem health_state_characterised_witness:
  "hs_state (run_checks (empty_status ''s'' Unknown 0) (map sample_result [True, False, False, True]) 2 2) = Unhealthy
   \<and> open_incident 2 2 (map sample_result [True, False, False, True])"
proof -
  let ?rs = "map sample_result [True, False, False, True]"
  have st: "hs_state (run_checks (empty_status ''s'' Unknown 0) ?rs 2 2) = Unhealthy" by code_simp
  have "hs_state (run_checks (empty_status ''s'' Unknown 0) ?rs (int 2) (int 2)) =
      (if open_incident 2 2 ?rs then Unhealthy
       else if \<exists>pre ys. ?rs = pre @ ys \<and> length ys = 2 \<and> list_all cr_healthy ys then Healthy else Degraded)"
    by (rule health_state_characterised) simp_all
  with st show ?thesis by (auto split: if_splits)
qed

section \<open>Checks in flight\<close>

text \<open>
  The manager with the checks in flight, each at one of its awaits: for the answer of the origin,
  for its rows, or before its clean-up. \<open>True\<close> marks a check started by \<open>checkNow\<close>. Any handler may
  run at any moment; \<open>checkNow\<close> may start a check on any object it collected before.
\<close>

datatype check_phase = Probing nat | Persisting check_frame | Closing nat

type_synonym health_system = "health_manager \<times> (bool \<times> check_phase) list"

inductive health_step :: "health_system \<Rightarrow> health_system \<Rightarrow> bool" where
  Tick: "health_tick now m = (started, m') \<Longrightarrow>
    health_step (m, ps) (m', ps @ map (\<lambda>a. (False, Probing a)) started)"
| Manual: "health_step (m, ps) (start_check a m, ps @ [(True, Probing a)])"
| Refresh: "health_step (m, ps) (refresh_runtime_site now site row origins m, ps)"
| Remove: "health_step (m, ps) (remove_runtime_site site m, ps)"
| Answer: "i < length ps \<Longrightarrow> ps ! i = (manual, Probing a) \<Longrightarrow> apply_result now a r m = (f, m') \<Longrightarrow>
    health_step (m, ps) (m', ps[i := (manual, case_option (Closing a) Persisting f)])"
| Persist: "i < length ps \<Longrightarrow> ps ! i = (manual, Persisting f) \<Longrightarrow>
    persist_check valid_url now calls f m = (effects, m') \<Longrightarrow>
    health_step (m, ps) (m', ps[i := (manual, Closing (cf_object f))])"
| Finish: "i < length ps \<Longrightarrow> ps ! i = (manual, Closing a) \<Longrightarrow>
    health_step (m, ps) (finish_check now random a m, take i ps @ drop (Suc i) ps)"

inductive health_reachable :: "health_system \<Rightarrow> bool" where
  Init: "health_reachable (initialize_health now delay sites origins backends pools new_manager, [])"
| Step: "health_reachable x \<Longrightarrow> health_step x y \<Longrightarrow> health_reachable y"

inductive_cases health_stepE: "health_step x y"

lemma active_update_object [simp]: "active_checks (update_object a f m) = active_checks m"
  by (simp add: update_object_def)

lemma active_recompute_pool [simp]: "active_checks (snd (recompute_pool now s p b m)) = active_checks m"
  by (simp add: recompute_pool_def Let_def)

lemma active_set_runtime_origin [simp]: "active_checks (set_runtime_origin now d s o1 p b m) = active_checks m"
  by (simp add: set_runtime_origin_def Let_def split: option.split)

lemma active_fold:
  "(\<And>x m. active_checks (f x m) = active_checks m) \<Longrightarrow> active_checks (fold f xs m) = active_checks m"
  by (induction xs arbitrary: m) simp_all

lemma active_initialize: "active_checks (initialize_health now d sites origins b p m) = active_checks m"
  by (simp add: initialize_health_def active_fold split: option.split)

lemma active_refresh [simp]: "active_checks (refresh_runtime_site now site row origins m) = active_checks m"
  by (simp add: refresh_runtime_site_def remove_runtime_site_def active_fold Let_def split: option.split)

lemma active_remove [simp]: "active_checks (remove_runtime_site site m) = active_checks m"
  by (simp add: remove_runtime_site_def)

lemma active_start [simp]: "active_checks (start_check a m) = Suc (active_checks m)"
  by (simp add: start_check_def)

lemma active_finish [simp]: "active_checks (finish_check now q a m) = active_checks m - 1"
  by (simp add: finish_check_def)

lemma active_apply: "apply_result now a r m = (f, m') \<Longrightarrow> active_checks m' = active_checks m"
  by (auto simp: apply_result_def Let_def split: if_splits)

lemma active_persist: "persist_check v now k f m = (e, m') \<Longrightarrow> active_checks m' = active_checks m"
  by (auto simp: persist_check_def Let_def split: if_splits prod.splits)
     (metis active_recompute_pool active_update_object snd_conv)+

lemma active_tick_checks:
  "tick_checks now as m = (started, m') \<Longrightarrow>
     active_checks m' = active_checks m + length started \<and> (started = [] \<or> active_checks m' \<le> 10)"
proof (induction now as m arbitrary: started m' rule: tick_checks.induct)
  case (2 now a rest m)
  show ?case
  proof (cases "active_checks m \<ge> 10")
    case False
    note small = this
    show ?thesis
    proof (cases "ro_running (objects m ! a) \<or> (case ro_next_check_at (objects m ! a) of None \<Rightarrow> True | Some t \<Rightarrow> t > now)
                 \<or> \<not> site_checked (ro_site (objects m ! a)) \<or> so_enabled (ro_origin (objects m ! a)) \<noteq> 1")
      case True
      with small 2(3) have "tick_checks now rest m = (started, m')" by simp
      with 2(1) small True show ?thesis by blast
    next
      case skip: False
      obtain st1 m1 where t: "tick_checks now rest (start_check a m) = (st1, m1)" by fastforce
      with skip small 2(3) have eq: "started = a # st1" "m' = m1" by (auto simp: Let_def)
      from 2(2) [OF refl _ _ t] small skip
      have "active_checks m1 = Suc (active_checks m) + length st1 \<and> (st1 = [] \<or> active_checks m1 \<le> 10)"
        by auto
      with eq small show ?thesis by auto
    qed
  qed (use 2(3) in simp)
qed simp

lemmas active_simps = active_update_object active_recompute_pool active_set_runtime_origin active_initialize
  active_refresh active_remove active_start active_finish

definition automatic :: "(bool \<times> check_phase) list \<Rightarrow> nat" where
  "automatic ps = length (filter Not (map fst ps))"

lemma automatic_append [simp]: "automatic (ps @ qs) = automatic ps + automatic qs"
  by (simp add: automatic_def)

lemma automatic_Nil [simp]: "automatic [] = 0"
  by (simp add: automatic_def)

lemma automatic_le: "automatic ps \<le> length ps"
  unfolding automatic_def by (metis length_filter_le length_map)

lemma automatic_update:
  assumes "fst (ps ! i) = b" and "i < length ps"
  shows "automatic (ps[i := (b, p)]) = automatic ps"
proof -
  have "map fst (ps[i := (b, p)]) = (map fst ps)[i := map fst ps ! i]"
    using assms by (simp add: map_update)
  then have "map fst (ps[i := (b, p)]) = map fst ps" by (simp only: list_update_id)
  then show ?thesis by (simp only: automatic_def)
qed

lemma automatic_remove: "automatic (take i ps @ drop (Suc i) ps) \<le> automatic ps"
proof -
  have "automatic (take i ps) + automatic (drop i ps) = automatic ps"
    by (metis append_take_drop_id automatic_append)
  moreover have "automatic (drop (Suc i) ps) \<le> automatic (drop i ps)"
    by (cases "drop i ps") (auto simp: automatic_def drop_Suc drop_tl)
  ultimately show ?thesis by simp
qed

definition checks_counted :: "health_system \<Rightarrow> bool" where
  "checks_counted x \<longleftrightarrow> active_checks (fst x) = length (snd x) \<and> automatic (snd x) \<le> 10"

lemma checks_counted_step: "health_step x y \<Longrightarrow> checks_counted x \<Longrightarrow> checks_counted y"
proof (induction rule: health_step.induct)
  case (Tick now m started m' ps)
  from active_tick_checks [OF Tick(1) [unfolded health_tick_def]]
  have "active_checks m' = active_checks m + length started" "started = [] \<or> active_checks m' \<le> 10" by auto
  then show ?case using Tick automatic_le [of "ps @ map (\<lambda>a. (False, Probing a)) started"]
    by (auto simp: checks_counted_def)
next
  case (Manual m ps a)
  then show ?case by (simp add: checks_counted_def automatic_def)
next
  case (Finish i ps manual a m now random)
  then show ?case using automatic_remove [of i ps]
    by (auto simp: checks_counted_def)
qed (simp_all add: checks_counted_def automatic_update active_apply active_persist)

text \<open>
  Bounded concurrency, under every interleaving of ticks, manual checks, configuration changes,
  answers, persisted rows, rejected calls and clean-ups: \<open>activeChecks\<close> is the number of checks in
  flight, and the checks that ticks started are never more than ten.
\<close>

theorem checks_bounded:
  assumes "health_reachable (m, ps)"
  shows "active_checks m = length ps \<and> automatic ps \<le> 10"
proof -
  have "checks_counted x" if "health_reachable x" for x
    using that
  proof (induction rule: health_reachable.induct)
    case (Init now delay sites origins backends pools)
    show ?case by (simp add: checks_counted_def active_initialize new_manager_def automatic_def)
  next
    case (Step x y)
    then show ?case using checks_counted_step by blast
  qed
  from this [OF assms] show ?thesis by (simp add: checks_counted_def)
qed

section \<open>Concrete pools\<close>

definition sample_pool_site :: pool_site where
  "sample_pool_site = \<lparr>ps_id = ''s'', ps_enabled = 1, ps_health_check_enabled = Some 1, ps_health_check_path = None,
     ps_interval_seconds = Some 10, ps_timeout_ms = Some 3000, ps_failure_threshold = Some 1,
     ps_recovery_threshold = Some 1, ps_failure_mode = Some MaintenanceMode, ps_algorithm = None, ps_affinity = None\<rparr>"

definition sample_origin :: "string \<Rightarrow> origin_type \<Rightarrow> site_origin" where
  "sample_origin i t = \<lparr>so_id = i, so_site_id = ''s'', so_name = i, so_type = t, so_url = ''/srv'', so_enabled = 1,
     so_draining = 0, so_priority = 1, so_weight = 1, so_health_check_path = None, so_is_primary = 1, so_created_at = 0\<rparr>"

definition sample_manager :: "site_origin list \<Rightarrow> health_manager" where
  "sample_manager os = initialize_health 0 (\<lambda>_. 0) [sample_pool_site] os (\<lambda>_. None) (\<lambda>_. None) new_manager"

theorem checks_bounded_witness:
  "active_checks (snd (health_tick 0 (sample_manager [sample_origin ''a'' ProxyOrigin]))) = 1"
proof -
  let ?m = "sample_manager [sample_origin ''a'' ProxyOrigin]"
  obtain st m' where t: "health_tick 0 ?m = (st, m')" by fastforce
  have len: "length (fst (health_tick 0 ?m)) = 1" by code_simp
  have "health_reachable (m', [] @ map (\<lambda>a. (False, Probing a)) st)"
    by (rule health_reachable.Step [OF health_reachable.Init health_step.Tick])
       (use t in \<open>simp add: sample_manager_def\<close>)
  from checks_bounded [OF this] len t show ?thesis by simp
qed

section \<open>The manager's map and its objects\<close>

definition manager_wf :: "health_manager \<Rightarrow> bool" where
  "manager_wf m \<longleftrightarrow> om_inv (runtime m) \<and>
     (\<forall>(k, a) \<in> set (runtime m). a < length (objects m) \<and> so_id (ro_origin (objects m ! a)) = k)"

lemma om_get_mem: "om_get m k = Some v \<Longrightarrow> (k, v) \<in> set m"
  by (simp add: om_get_def map_of_SomeD)

lemma om_set_mem: "(k', v') \<in> set (om_set k v m) \<Longrightarrow> (k', v') = (k, v) \<or> (k', v') \<in> set m"
  by (induction k v m rule: om_set.induct) (auto split: if_splits)

lemma om_set_mem_other: "om_inv m \<Longrightarrow> (k', v') \<in> set (om_set k v m) \<Longrightarrow> k' = k \<Longrightarrow> v' = v"
  by (metis map_of_is_SomeI om_get_def om_get_set om_inv_def om_inv_set om_keys_def fun_upd_same option.inject)

lemma manager_wf_get:
  "manager_wf m \<Longrightarrow> om_get (runtime m) k = Some a \<Longrightarrow> a < length (objects m) \<and> so_id (ro_origin (objects m ! a)) = k"
  using om_get_mem unfolding manager_wf_def by fastforce

lemma wf_same_objects:
  "manager_wf m \<Longrightarrow> objects m' = objects m \<Longrightarrow> runtime m' = runtime m \<Longrightarrow> manager_wf m'"
  by (simp add: manager_wf_def)

lemma wf_update_object:
  assumes "manager_wf m" and "\<And>r. so_id (ro_origin (f r)) = so_id (ro_origin r)"
  shows "manager_wf (update_object a f m)"
proof -
  have "so_id (ro_origin ((objects m)[a := f (objects m ! a)] ! b)) = so_id (ro_origin (objects m ! b))" for b
    using assms(2) by (cases "a < length (objects m)") (auto simp: nth_list_update list_update_beyond)
  with assms(1) show ?thesis by (simp add: manager_wf_def update_object_def)
qed

lemma wf_filter_runtime:
  "manager_wf m \<Longrightarrow> manager_wf (m\<lparr>runtime := filter P (runtime m), pool_statuses := q\<rparr>)"
  "manager_wf m \<Longrightarrow> manager_wf (m\<lparr>runtime := filter P (runtime m)\<rparr>)"
  by (auto simp: manager_wf_def om_inv_def om_keys_def distinct_map_filter)

lemma wf_recompute_pool: "manager_wf m \<Longrightarrow> manager_wf (snd (recompute_pool now s p b m))"
  by (rule wf_same_objects) (simp_all add: recompute_pool_def Let_def)

lemma wf_set_object:
  assumes "manager_wf m" and "om_get (runtime m) (so_id o1) = Some a"
  shows "manager_wf (update_object a (\<lambda>r. r\<lparr>ro_site := s, ro_origin := o1\<rparr>) m)"
  using manager_wf_get [OF assms] assms(1)
  by (auto simp: manager_wf_def update_object_def nth_list_update)

lemma wf_new_object:
  assumes "manager_wf m" and "so_id (ro_origin r) = k"
  shows "manager_wf (m\<lparr>objects := objects m @ [r], runtime := om_set k (length (objects m)) (runtime m)\<rparr>)"
proof -
  have "a < length (objects m @ [r]) \<and> so_id (ro_origin ((objects m @ [r]) ! a)) = k'"
    if "(k', a) \<in> set (om_set k (length (objects m)) (runtime m))" for k' a
    using om_set_mem [OF that] assms by (auto simp: manager_wf_def nth_append)
  with assms show ?thesis by (auto simp: manager_wf_def om_inv_set)
qed

lemma wf_set_runtime_origin: "manager_wf m \<Longrightarrow> manager_wf (set_runtime_origin now d s o1 p b m)"
  by (auto simp: set_runtime_origin_def Let_def wf_set_object wf_new_object split: option.split)

lemma wf_fold: "(\<And>x m. manager_wf m \<Longrightarrow> manager_wf (f x m)) \<Longrightarrow> manager_wf m \<Longrightarrow> manager_wf (fold f xs m)"
  by (induction xs arbitrary: m) simp_all

lemma wf_initialize: "manager_wf m \<Longrightarrow> manager_wf (initialize_health now d sites origins b p m)"
  unfolding initialize_health_def
  by (intro wf_fold) (auto simp: wf_recompute_pool wf_set_runtime_origin split: option.split)

lemma wf_refresh: "manager_wf m \<Longrightarrow> manager_wf (refresh_runtime_site now site row origins m)"
  unfolding refresh_runtime_site_def remove_runtime_site_def Let_def
  by (auto simp: wf_filter_runtime intro!: wf_recompute_pool wf_fold wf_set_runtime_origin split: option.split)

lemma wf_start: "manager_wf m \<Longrightarrow> manager_wf (start_check a m)"
  unfolding start_check_def by (rule wf_same_objects [OF wf_update_object]) simp_all

lemma wf_finish: "manager_wf m \<Longrightarrow> manager_wf (finish_check now q a m)"
  unfolding finish_check_def by (rule wf_same_objects [OF wf_update_object]) simp_all

lemma wf_tick_checks: "manager_wf m \<Longrightarrow> manager_wf (snd (tick_checks now as m))"
  by (induction now as m rule: tick_checks.induct) (auto simp: Let_def wf_start split: prod.split)

lemma wf_apply: "manager_wf m \<Longrightarrow> manager_wf (snd (apply_result now a r m))"
  by (auto simp: apply_result_def Let_def intro: wf_update_object)

lemma wf_persist: "manager_wf m \<Longrightarrow> manager_wf (snd (persist_check v now k f m))"
  by (auto simp: persist_check_def Let_def split_beta intro!: wf_update_object wf_recompute_pool)

lemma wf_step: "health_step x y \<Longrightarrow> manager_wf (fst x) \<Longrightarrow> manager_wf (fst y)"
proof (induction rule: health_step.induct)
  case (Tick now m started m' ps)
  then show ?case using wf_tick_checks [of m now] by (metis fst_conv health_tick_def snd_conv)
next
  case (Remove m ps site)
  then show ?case by (simp add: remove_runtime_site_def wf_filter_runtime)
next
  case (Answer i ps manual a now r m f m')
  then show ?case using wf_apply [of m now a r] by simp
next
  case (Persist i ps manual f v now k m e m')
  then show ?case using wf_persist [of m v now k f] by simp
qed (simp_all add: wf_start wf_finish wf_refresh)

lemma wf_reachable: "health_reachable x \<Longrightarrow> manager_wf (fst x)"
proof (induction rule: health_reachable.induct)
  case (Init now delay sites origins backends pools)
  show ?case using wf_initialize by (simp add: manager_wf_def new_manager_def om_inv_def om_keys_def)
next
  case (Step x y)
  then show ?case using wf_step by blast
qed

section \<open>Configuration changes\<close>

lemma runtime_object_update:
  assumes "manager_wf m" and "om_get (runtime m) k = Some a"
  shows "runtime_object (update_object a f m) k' = (if k' = k then Some (f (objects m ! a)) else runtime_object m k')"
proof -
  have "a' \<noteq> a" if "om_get (runtime m) k' = Some a'" and "k' \<noteq> k" for a'
    using that manager_wf_get [OF assms(1)] assms(2) by metis
  with manager_wf_get [OF assms] show ?thesis using assms
    by (cases "om_get (runtime m) k'") (auto simp: runtime_object_def update_object_def nth_list_update)
qed

lemma runtime_object_new:
  assumes "manager_wf m"
  shows "runtime_object (m\<lparr>objects := objects m @ [r], runtime := om_set k (length (objects m)) (runtime m)\<rparr>) k' =
    (if k' = k then Some r else runtime_object m k')"
  using manager_wf_get [OF assms]
  by (auto simp: runtime_object_def om_get_set nth_append map_option_case split: option.split)

definition checked_origin :: "pool_site \<Rightarrow> site_origin \<Rightarrow> bool" where
  "checked_origin s o1 \<longleftrightarrow> so_type o1 = ProxyOrigin \<and> site_checked s \<and> so_enabled o1 = 1"

lemma set_runtime_origin_other:
  assumes "manager_wf m" and "k \<noteq> so_id o1"
  shows "runtime_object (set_runtime_origin now d s o1 p b m) k = runtime_object m k"
  using assms
  by (auto simp: set_runtime_origin_def Let_def runtime_object_update runtime_object_new split: option.split)

text \<open>The state an origin has after its configuration was loaded again.\<close>

definition state_after_refresh :: "pool_site \<Rightarrow> site_origin \<Rightarrow> runtime_origin option \<Rightarrow> health_state" where
  "state_after_refresh s o1 old =
     (if map_option ro_settings_key old = Some (settings_key s o1) then hs_state (ro_status (the old))
      else if \<not> checked_origin s o1 then Disabled
      else if map_option (\<lambda>r. hs_state (ro_status r)) old = Some Unhealthy then Unhealthy
      else Unknown)"

lemma set_runtime_origin_state:
  assumes "manager_wf m"
  shows "origin_state (set_runtime_origin now d s o1 (map_option ro_status (runtime_object m (so_id o1))) b m) (so_id o1)
    = state_after_refresh s o1 (runtime_object m (so_id o1))"
proof (cases "om_get (runtime m) (so_id o1)")
  case None
  then show ?thesis using assms
    by (simp add: set_runtime_origin_def Let_def origin_state_def runtime_object_new)
       (simp add: runtime_object_def state_after_refresh_def checked_origin_def
          health_status_after_configuration_change_def empty_status_def)
next
  case (Some a)
  then have ro: "runtime_object m (so_id o1) = Some (objects m ! a)" by (simp add: runtime_object_def)
  show ?thesis
  proof (cases "ro_settings_key (objects m ! a) = settings_key s o1")
    case True
    with Some ro assms show ?thesis
      by (simp add: set_runtime_origin_def Let_def origin_state_def runtime_object_update state_after_refresh_def)
  next
    case False
    with Some ro assms show ?thesis
      by (simp add: set_runtime_origin_def Let_def origin_state_def runtime_object_new)
         (simp add: state_after_refresh_def checked_origin_def health_status_after_configuration_change_def)
  qed
qed

definition load_origins :: "time \<Rightarrow> pool_site \<Rightarrow> site_origin list \<Rightarrow> health_manager \<Rightarrow> health_manager" where
  "load_origins now s origins m =
     fold (\<lambda>o1 m. set_runtime_origin now 0 s o1 (map_option ro_status (runtime_object m (so_id o1))) True m) origins m"

lemma load_origins_other:
  "manager_wf m \<Longrightarrow> k \<notin> so_id ` set os \<Longrightarrow> runtime_object (load_origins now s os m) k = runtime_object m k"
proof (induction os arbitrary: m)
  case (Cons o1 os)
  then show ?case
    by (simp add: load_origins_def wf_set_runtime_origin set_runtime_origin_other)
qed (simp add: load_origins_def)

lemma load_origins_state:
  "manager_wf m \<Longrightarrow> distinct (map so_id os) \<Longrightarrow> o1 \<in> set os \<Longrightarrow>
     origin_state (load_origins now s os m) (so_id o1) = state_after_refresh s o1 (runtime_object m (so_id o1))"
proof (induction os arbitrary: m)
  case (Cons o2 os)
  define m' where "m' = set_runtime_origin now 0 s o2 (map_option ro_status (runtime_object m (so_id o2))) True m"
  have step: "load_origins now s (o2 # os) m = load_origins now s os m'"
    by (simp add: load_origins_def m'_def)
  have wf': "manager_wf m'" using Cons.prems(1) by (simp add: m'_def wf_set_runtime_origin)
  show ?case
  proof (cases "o1 = o2")
    case True
    with Cons.prems wf' have "runtime_object (load_origins now s os m') (so_id o1) = runtime_object m' (so_id o1)"
      by (intro load_origins_other) auto
    with set_runtime_origin_state [OF Cons.prems(1), of now 0 s o2 True] True show ?thesis
      by (simp add: step origin_state_def m'_def)
  next
    case False
    with Cons.prems(3) have mem: "o1 \<in> set os" by simp
    with Cons.prems(2) have "so_id o1 \<noteq> so_id o2" by (metis distinct.simps(2) image_eqI list.simps(9) set_map)
    then have "runtime_object m' (so_id o1) = runtime_object m (so_id o1)"
      using Cons.prems(1) by (simp add: m'_def set_runtime_origin_other)
    with Cons.IH [OF wf' _ mem] Cons.prems show ?thesis by (simp add: step)
  qed
qed simp

lemma runtime_object_filter:
  assumes "manager_wf m" and "\<And>a. (k, a) \<in> set (runtime m) \<Longrightarrow> P (k, a)"
  shows "runtime_object (m\<lparr>runtime := filter P (runtime m)\<rparr>) k = runtime_object m k"
proof -
  have "map_of (filter P (runtime m)) k = map_of (runtime m) k"
  proof (cases "map_of (runtime m) k")
    case None
    then have "k \<notin> fst ` set (filter P (runtime m))" by (auto simp: map_of_eq_None_iff)
    then show ?thesis using None by (simp add: map_of_eq_None_iff [THEN iffD2])
  next
    case (Some a)
    then have "(k, a) \<in> set (filter P (runtime m))" using assms(2) by (simp add: map_of_SomeD)
    moreover have "distinct (map fst (filter P (runtime m)))"
      using assms(1) by (simp add: manager_wf_def om_inv_def om_keys_def distinct_map_filter)
    ultimately show ?thesis using Some by (simp add: map_of_is_SomeI)
  qed
  then show ?thesis by (simp add: runtime_object_def om_get_def)
qed

lemma origin_state_recompute [simp]: "origin_state (snd (recompute_pool now s p b m)) k = origin_state m k"
  by (simp add: recompute_pool_def Let_def origin_state_def runtime_object_def)

text \<open>
  A configuration change does not hide an incident. In every reachable state, after the
  configuration of a site is loaded again, each of its origins has the state it had if none of its
  check settings changed; otherwise it is disabled when it is not checked any more, still unhealthy
  when it was unhealthy, and unknown until its first check in every other case.
\<close>

theorem incident_survives_refresh:
  assumes "health_reachable (m, ps)" and "ps_id s = site" and "distinct (map so_id origins)" and "o1 \<in> set origins"
  shows "origin_state (refresh_runtime_site now site (Some s) origins m) (so_id o1)
    = state_after_refresh s o1 (runtime_object m (so_id o1))"
proof -
  define m1 where "m1 = m\<lparr>runtime := filter (\<lambda>(oid, a). \<not> (ps_id (ro_site (objects m ! a)) = site
                                        \<and> oid \<notin> set (map so_id origins))) (runtime m)\<rparr>"
  have wf: "manager_wf m" using wf_reachable [OF assms(1)] by simp
  then have wf1: "manager_wf m1" unfolding m1_def by (rule wf_filter_runtime)
  have "runtime_object m1 (so_id o1) = runtime_object m (so_id o1)"
    unfolding m1_def using assms(4) by (intro runtime_object_filter [OF wf]) auto
  with load_origins_state [OF wf1 assms(3,4), of now s] show ?thesis
    by (simp add: refresh_runtime_site_def Let_def load_origins_def m1_def)
qed

theorem incident_survives_refresh_witness:
  "origin_state (refresh_runtime_site 5 ''s'' (Some sample_pool_site) [sample_origin ''a'' StaticOrigin] new_manager) ''a'' = Disabled"
proof -
  have "health_reachable (initialize_health 0 (\<lambda>_. 0) [] [] (\<lambda>_. None) (\<lambda>_. None) new_manager, [])"
    by (rule health_reachable.Init)
  then have r: "health_reachable (new_manager, [])" by (simp add: initialize_health_def)
  have "origin_state (refresh_runtime_site 5 ''s'' (Some sample_pool_site) [sample_origin ''a'' StaticOrigin] new_manager)
          (so_id (sample_origin ''a'' StaticOrigin))
      = state_after_refresh sample_pool_site (sample_origin ''a'' StaticOrigin)
          (runtime_object new_manager (so_id (sample_origin ''a'' StaticOrigin)))"
    by (rule incident_survives_refresh [OF r]) (simp_all add: sample_pool_site_def)
  also have "\<dots> = Disabled" by code_simp
  finally show ?thesis by (simp add: sample_origin_def)
qed

section \<open>Two defects\<close>

definition path_target :: "string \<Rightarrow> string \<Rightarrow> string option" where
  "path_target url path = (if starts_with ''/'' url then None else Some (url @ path))"

definition is_url :: "string \<Rightarrow> bool" where
  "is_url u \<longleftrightarrow> \<not> starts_with ''/'' u"

text \<open>A site with a static origin, before and after one manual check.\<close>

definition static_pool :: health_manager where
  "static_pool = sample_manager [sample_origin ''a'' StaticOrigin]"

definition static_targets :: "(check_error + nat list) \<times> health_manager" where
  "static_targets = check_now_targets 0 ''s'' None (Some sample_pool_site) [sample_origin ''a'' StaticOrigin] static_pool"

definition static_answered :: "check_frame option \<times> health_manager" where
  "static_answered = apply_result 0 0
     (perform_check path_target ''Invalid URL'' (\<lambda>_. Answered 200) 1 0 (objects (snd static_targets) ! 0))
     (start_check 0 (snd static_targets))"

definition static_checked :: health_manager where
  "static_checked = finish_check 0 0 0
     (snd (persist_check is_url 0 10 (the (fst static_answered)) (snd static_answered)))"

text \<open>
  A static origin is disabled for health checks and is never picked by a tick, but
  \<open>checkNow\<close> does not look at the type of the origin: one manual check of a site whose only origin is
  static makes the origin unhealthy and puts the site in maintenance mode, and from then on the ticks
  check the origin again and again.
\<close>

theorem static_origin_turns_unhealthy:
  "origin_state static_pool ''a'' = Disabled \<and> fst (health_tick 100000 static_pool) = []
   \<and> fst static_targets = Inr [0] \<and> origin_state static_checked ''a'' = Unhealthy
   \<and> is_maintenance_mode ''s'' static_checked \<and> fst (health_tick 100000 static_checked) = [0]"
proof (intro conjI)
  show "origin_state static_pool ''a'' = Disabled" by code_simp
  show "fst (health_tick 100000 static_pool) = []" by code_simp
  show "fst static_targets = Inr [0]" by code_simp
  show "origin_state static_checked ''a'' = Unhealthy" by code_simp
  show "is_maintenance_mode ''s'' static_checked" by code_simp
  show "fst (health_tick 100000 static_checked) = [0]" by code_simp
qed

text \<open>Two checks of one site whose answers arrive before either has stored its rows.\<close>

definition failed_at :: "time \<Rightarrow> check_result" where
  "failed_at now = \<lparr>cr_healthy = False, cr_status = None, cr_latency_ms = 1, cr_error = Some ''timeout'', cr_checked_at = now\<rparr>"

definition is_outage_notice :: "health_effect \<Rightarrow> bool" where
  "is_outage_notice e = (case e of Notify _ n \<Rightarrow> (case n of PoolUnhealthy \<Rightarrow> True | _ \<Rightarrow> False) | _ \<Rightarrow> False)"

definition two_ticked :: "nat list \<times> health_manager" where
  "two_ticked = health_tick 0 (sample_manager [sample_origin ''a'' ProxyOrigin, sample_origin ''b'' ProxyOrigin])"

definition first_answered :: "check_frame option \<times> health_manager" where
  "first_answered = apply_result 1 0 (failed_at 1) (snd two_ticked)"

definition second_answered :: "check_frame option \<times> health_manager" where
  "second_answered = apply_result 2 1 (failed_at 2) (snd first_answered)"

definition first_stored :: "health_effect list \<times> health_manager" where
  "first_stored = persist_check is_url 3 10 (the (fst first_answered)) (snd second_answered)"

definition second_stored :: "health_effect list \<times> health_manager" where
  "second_stored = persist_check is_url 4 10 (the (fst second_answered)) (snd first_stored)"

text \<open>
  Both checks hold the pool status from before the first answer, so when both origins fail,
  both report the transition of the pool and the same outage is notified twice.
\<close>

theorem pool_outage_notified_twice:
  "fst two_ticked = [0, 1] \<and> list_ex is_outage_notice (fst first_stored) \<and> list_ex is_outage_notice (fst second_stored)"
proof (intro conjI)
  show "fst two_ticked = [0, 1]" by code_simp
  show "list_ex is_outage_notice (fst first_stored)" by code_simp
  show "list_ex is_outage_notice (fst second_stored)" by code_simp
qed

end
