(* ===== verification/Load_Balancer.thy ===== *)
theory Load_Balancer
  imports Origin_Health "HOL-Library.Multiset"
begin

text \<open>
  \<open>src/src/services/load-balancer-service.ts\<close>: which origin of a site serves a request.

  The balancer reads origin states from the health manager (theory \<open>Origin_Health\<close>). The order of
  \<open>localeCompare\<close> is an argument, a rank of identifiers. \<open>>>> 0\<close>, \<open>^\<close> and \<open>Math.imul\<close> work on 32-bit
  words. Priorities, weights and flags are integers, as the columns are.
\<close>

section \<open>Stable hashing and affinity by address\<close>

definition stable_hash :: "string \<Rightarrow> 32 word" where
  "stable_hash s = fold (\<lambda>c hash. (hash XOR of_nat (char_code c)) * 16777619) s 2166136261"

definition weight_of :: "site_origin \<Rightarrow> int" where
  "weight_of o1 = max 1 (so_weight o1)"

definition by_priority :: "site_origin list \<Rightarrow> site_origin list" where
  "by_priority origins =
     (if length origins < 2 then origins
      else let p = Min (set (map so_priority origins)) in filter (\<lambda>o1. so_priority o1 = p) origins)"

fun pick_bucket :: "int \<Rightarrow> site_origin list \<Rightarrow> site_origin option" where
  "pick_bucket bucket [] = None"
| "pick_bucket bucket (o1 # rest) =
     (if bucket - weight_of o1 < 0 then Some o1 else pick_bucket (bucket - weight_of o1) rest)"

definition ip_affinity_origin :: "(string \<Rightarrow> nat) \<Rightarrow> site_origin list \<Rightarrow> string \<Rightarrow> bool \<Rightarrow> site_origin option" where
  "ip_affinity_origin rank origins ip weighted =
     (if origins = [] then None
      else let ordered = sort_key (\<lambda>o1. rank (so_id o1)) origins
           in if \<not> weighted then Some (ordered ! (unat (stable_hash ip) mod length ordered))
              else let total = fold (\<lambda>o1 sum. sum + weight_of o1) ordered 0
                   in case pick_bucket (uint (stable_hash ip) mod total) ordered of
                        Some o1 \<Rightarrow> Some o1
                      | None \<Rightarrow> Some (last ordered))"

section \<open>The balancer\<close>

record balancer =
  origins_by_site :: "(string, site_origin list) omap"
  round_robin_cursor :: "(string, nat) omap"
  smooth_weights :: "(string, int) omap"
  passive_quarantine :: "(string, time) omap"

definition new_balancer :: balancer where
  "new_balancer = \<lparr>origins_by_site = [], round_robin_cursor = [], smooth_weights = [], passive_quarantine = []\<rparr>"

definition weight_key :: "string \<Rightarrow> string \<Rightarrow> string" where
  "weight_key site_id origin_id = site_id @ '':'' @ origin_id"

text \<open>The rows of \<open>repository.originsForSite\<close> and \<open>repository.allOrigins\<close>.\<close>

definition origins_for_site :: "site_origin list \<Rightarrow> string \<Rightarrow> site_origin list" where
  "origins_for_site rows site_id =
     sort_key (\<lambda>o1. (so_priority o1, - so_is_primary o1, so_created_at o1)) (filter (\<lambda>o1. so_site_id o1 = site_id) rows)"

definition site_origins_of :: "string \<Rightarrow> balancer \<Rightarrow> site_origin list" where
  "site_origins_of site_id b = case_option [] id (om_get (origins_by_site b) site_id)"

definition initialize_balancer :: "site_origin list \<Rightarrow> balancer \<Rightarrow> balancer" where
  "initialize_balancer all_origins b =
     fold (\<lambda>o1 b. b\<lparr>origins_by_site := om_set (so_site_id o1) (site_origins_of (so_site_id o1) b @ [o1]) (origins_by_site b)\<rparr>)
       all_origins (b\<lparr>origins_by_site := []\<rparr>)"

definition drop_site_weights :: "string \<Rightarrow> (string, int) omap \<Rightarrow> (string, int) omap" where
  "drop_site_weights site_id w = filter (\<lambda>(k, _). \<not> starts_with (site_id @ '':'') k) w"

definition refresh_balancer_site :: "string \<Rightarrow> site_origin list \<Rightarrow> balancer \<Rightarrow> balancer" where
  "refresh_balancer_site site_id origins b =
     (let previous = site_origins_of site_id b
      in b\<lparr>origins_by_site := (if origins \<noteq> [] then om_set site_id origins (origins_by_site b)
                               else om_delete site_id (origins_by_site b)),
           passive_quarantine := fold (\<lambda>o1 q. if so_id o1 \<in> set (map so_id origins) then q else om_delete (so_id o1) q)
                                   previous (passive_quarantine b),
           round_robin_cursor := om_delete site_id (round_robin_cursor b),
           smooth_weights := drop_site_weights site_id (smooth_weights b)\<rparr>)"

definition remove_balancer_site :: "string \<Rightarrow> balancer \<Rightarrow> balancer" where
  "remove_balancer_site site_id b =
     b\<lparr>passive_quarantine := fold (\<lambda>o1. om_delete (so_id o1)) (site_origins_of site_id b) (passive_quarantine b),
       origins_by_site := om_delete site_id (origins_by_site b),
       round_robin_cursor := om_delete site_id (round_robin_cursor b),
       smooth_weights := drop_site_weights site_id (smooth_weights b)\<rparr>"

definition quarantined_until :: "string \<Rightarrow> balancer \<Rightarrow> time" where
  "quarantined_until origin_id b = case_option 0 id (om_get (passive_quarantine b) origin_id)"

definition report_passive_failure :: "time \<Rightarrow> string \<Rightarrow> balancer \<Rightarrow> bool \<times> balancer" where
  "report_passive_failure now origin_id b =
     (quarantined_until origin_id b \<le> now,
      b\<lparr>passive_quarantine := om_set origin_id (now + 15000) (passive_quarantine b)\<rparr>)"

definition clear_passive_failure :: "string \<Rightarrow> balancer \<Rightarrow> bool \<times> balancer" where
  "clear_passive_failure origin_id b =
     (om_get (passive_quarantine b) origin_id \<noteq> None,
      b\<lparr>passive_quarantine := om_delete origin_id (passive_quarantine b)\<rparr>)"

text \<open>Looking at an origin also drops a quarantine that has run out.\<close>

definition origin_available ::
    "time \<Rightarrow> health_manager \<Rightarrow> site_origin \<Rightarrow> bool \<Rightarrow> string set \<Rightarrow> bool \<Rightarrow> bool \<Rightarrow> balancer \<Rightarrow> bool \<times> balancer" where
  "origin_available now hm o1 existing_affinity excluded allow_unhealthy allow_quarantine b =
     (if so_enabled o1 \<noteq> 1 \<or> so_id o1 \<in> excluded then (False, b)
      else if \<not> existing_affinity \<and> so_draining o1 = 1 then (False, b)
      else if \<not> allow_unhealthy \<and> origin_state hm (so_id o1) = Unhealthy then (False, b)
      else let until = quarantined_until (so_id o1) b
           in if until > now then (allow_quarantine, b)
              else if until > 0 then (True, b\<lparr>passive_quarantine := om_delete (so_id o1) (passive_quarantine b)\<rparr>)
              else (True, b))"

fun filter_available ::
    "time \<Rightarrow> health_manager \<Rightarrow> string set \<Rightarrow> bool \<Rightarrow> site_origin list \<Rightarrow> balancer \<Rightarrow> site_origin list \<times> balancer" where
  "filter_available now hm excluded allow [] b = ([], b)"
| "filter_available now hm excluded allow (o1 # rest) b =
     (let (ok, b1) = origin_available now hm o1 False excluded True allow b;
          (os, b2) = filter_available now hm excluded allow rest b1
      in (if ok then o1 # os else os, b2))"

definition algorithm_of :: "pool_site \<Rightarrow> lb_algorithm" where
  "algorithm_of s = case_option Failover id (ps_algorithm s)"

definition preferred_origins :: "health_manager \<Rightarrow> pool_site \<Rightarrow> site_origin list \<Rightarrow> site_origin list" where
  "preferred_origins hm s eligible =
     (let healthy = filter (\<lambda>o1. origin_state hm (so_id o1) = Healthy) eligible;
          not_unhealthy = filter (\<lambda>o1. origin_state hm (so_id o1) \<noteq> Unhealthy) eligible
      in if healthy \<noteq> [] then healthy
         else if not_unhealthy \<noteq> [] then not_unhealthy
         else if ps_failure_mode s = Some MonitorMode then eligible else [])"

definition candidates ::
    "time \<Rightarrow> health_manager \<Rightarrow> pool_site \<Rightarrow> string set \<Rightarrow> bool \<Rightarrow> balancer \<Rightarrow> site_origin list \<times> balancer" where
  "candidates now hm s excluded allow b =
     (let (eligible, b1) = filter_available now hm excluded allow (site_origins_of (ps_id s) b) b;
          preferred = preferred_origins hm s eligible
      in (if algorithm_of s = Failover then by_priority preferred else preferred, b1))"

text \<open>
  One round of the smooth weighted selection: every weight grows by its share, the largest wins.
  \<open>None\<close> as the best weight is \<open>Number.NEGATIVE_INFINITY\<close>.
\<close>

fun smooth_round ::
    "string \<Rightarrow> site_origin list \<Rightarrow> site_origin \<Rightarrow> int option \<Rightarrow> int \<Rightarrow> (string, int) omap \<Rightarrow>
     site_origin \<times> int \<times> (string, int) omap" where
  "smooth_round site_id [] selected best tot w = (selected, tot, w)"
| "smooth_round site_id (o1 # rest) selected best tot w =
     (let key = weight_key site_id (so_id o1);
          current = case_option 0 id (om_get w key) + weight_of o1;
          w' = om_set key current w
      in if (case best of None \<Rightarrow> True | Some v \<Rightarrow> current > v)
         then smooth_round site_id rest o1 (Some current) (tot + weight_of o1) w'
         else smooth_round site_id rest selected best (tot + weight_of o1) w')"

definition next_by_algorithm :: "pool_site \<Rightarrow> site_origin list \<Rightarrow> balancer \<Rightarrow> site_origin option \<times> balancer" where
  "next_by_algorithm s origins b =
     (if origins = [] then (None, b)
      else case algorithm_of s of
        Failover \<Rightarrow>
          (Some (hd (sort_key (\<lambda>o1. (so_priority o1, - so_is_primary o1, so_created_at o1)) origins)), b)
      | RoundRobin \<Rightarrow>
          let cursor = case_option 0 id (om_get (round_robin_cursor b) (ps_id s))
          in (Some (origins ! (cursor mod length origins)),
              b\<lparr>round_robin_cursor := om_set (ps_id s) (cursor + 1) (round_robin_cursor b)\<rparr>)
      | WeightedRoundRobin \<Rightarrow>
          let (selected, tot, w) = smooth_round (ps_id s) origins (hd origins) None 0 (smooth_weights b);
              key = weight_key (ps_id s) (so_id selected)
          in (Some selected, b\<lparr>smooth_weights := om_set key (case_option 0 id (om_get w key) - tot) w\<rparr>))"

record access_session =
  as_id :: string
  as_origin_id :: "string option"

text \<open>
  The last component of the result is the session with its origin assigned, which the source also
  writes to the row of the session.
\<close>

definition select_origin ::
    "(string \<Rightarrow> nat) \<Rightarrow> time \<Rightarrow> health_manager \<Rightarrow> pool_site \<Rightarrow> access_session option \<Rightarrow> string \<Rightarrow> string set \<Rightarrow> balancer \<Rightarrow>
     site_origin option \<times> balancer \<times> access_session option" where
  "select_origin rank now hm s session ip excluded b =
     (let affinity = (ps_affinity s \<noteq> Some 0);
          assigned = (case Option.bind session (\<lambda>x. nonempty (as_origin_id x)) of
                        None \<Rightarrow> None
                      | Some oid \<Rightarrow> if affinity then find (\<lambda>o1. so_id o1 = oid) (site_origins_of (ps_id s) b) else None);
          kept = map_option (\<lambda>o1. origin_available now hm o1 True excluded False False b) assigned;
          b0 = case_option b snd kept
      in if case_option False fst kept then (assigned, b0, session)
         else
           let (cs1, b1) = candidates now hm s excluded False b0;
               (cs, b2) = (if cs1 = [] then candidates now hm s excluded True b1 else (cs1, b1));
               (selected, b3) = (if affinity \<and> session = None
                                 then (ip_affinity_origin rank cs ip (algorithm_of s = WeightedRoundRobin), b2)
                                 else next_by_algorithm s cs b2);
               session' = (case (session, selected) of
                             (Some x, Some o1) \<Rightarrow> Some (if affinity then x\<lparr>as_origin_id := Some (so_id o1)\<rparr> else x)
                           | _ \<Rightarrow> session)
           in (selected, b3, session'))"

section \<open>Availability\<close>

definition quarantined :: "time \<Rightarrow> balancer \<Rightarrow> site_origin \<Rightarrow> bool" where
  "quarantined now b o1 \<longleftrightarrow> quarantined_until (so_id o1) b > now"

text \<open>Open to a new client: enabled, not excluded for this request, not being drained.\<close>

definition open_origin :: "string set \<Rightarrow> site_origin \<Rightarrow> bool" where
  "open_origin excluded o1 \<longleftrightarrow> so_enabled o1 = 1 \<and> so_id o1 \<notin> excluded \<and> so_draining o1 \<noteq> 1"

text \<open>Looking at origins changes only quarantines that have run out.\<close>

definition same_view :: "time \<Rightarrow> balancer \<Rightarrow> balancer \<Rightarrow> bool" where
  "same_view now b b' \<longleftrightarrow> origins_by_site b' = origins_by_site b \<and> (\<forall>o1. quarantined now b' o1 = quarantined now b o1)
     \<and> round_robin_cursor b' = round_robin_cursor b \<and> smooth_weights b' = smooth_weights b"

lemma same_view_refl [simp]: "same_view now b b"
  by (simp add: same_view_def)

lemma same_view_trans: "same_view now a b \<Longrightarrow> same_view now b c \<Longrightarrow> same_view now a c"
  by (simp add: same_view_def)

lemma same_view_origins: "same_view now b b' \<Longrightarrow> site_origins_of s b' = site_origins_of s b"
  by (simp add: same_view_def site_origins_of_def)

lemma drop_expired_quarantine:
  assumes "quarantined_until i b \<le> now" and "quarantined_until i b > 0"
  shows "same_view now b (b\<lparr>passive_quarantine := om_delete i (passive_quarantine b)\<rparr>)"
  using assms by (auto simp: same_view_def quarantined_def quarantined_until_def om_get_delete)

lemma origin_available_view:
  "same_view now b (snd (origin_available now hm o1 ex excl unh q b))"
  using drop_expired_quarantine by (auto simp: origin_available_def Let_def)

lemma origin_available_iff:
  "fst (origin_available now hm o1 ex excl unh q b) \<longleftrightarrow>
     so_enabled o1 = 1 \<and> so_id o1 \<notin> excl \<and> (ex \<or> so_draining o1 \<noteq> 1) \<and> (unh \<or> origin_state hm (so_id o1) \<noteq> Unhealthy)
     \<and> (quarantined now b o1 \<longrightarrow> q)"
  by (auto simp: origin_available_def Let_def quarantined_def)

lemma filter_available_eq:
  "same_view now b0 b \<Longrightarrow>
     fst (filter_available now hm excl q os b) = filter (\<lambda>o1. open_origin excl o1 \<and> (quarantined now b0 o1 \<longrightarrow> q)) os
     \<and> same_view now b0 (snd (filter_available now hm excl q os b))"
proof (induction now hm excl q os b rule: filter_available.induct)
  case (2 now hm excl q o1 rest b)
  obtain ok b1 where a: "origin_available now hm o1 False excl True q b = (ok, b1)" by fastforce
  then have v1: "same_view now b0 b1" using origin_available_view 2(2) same_view_trans by (metis snd_conv)
  from a have "ok \<longleftrightarrow> open_origin excl o1 \<and> (quarantined now b0 o1 \<longrightarrow> q)"
    using origin_available_iff [of now hm o1 False excl True q b] 2(2)
    by (auto simp: open_origin_def same_view_def)
  with 2(1) [OF a [symmetric] refl v1] a show ?case by (auto simp: split_beta)
qed simp

definition eligible :: "time \<Rightarrow> string set \<Rightarrow> bool \<Rightarrow> pool_site \<Rightarrow> balancer \<Rightarrow> site_origin list" where
  "eligible now excl q s b = filter (\<lambda>o1. open_origin excl o1 \<and> (quarantined now b o1 \<longrightarrow> q)) (site_origins_of (ps_id s) b)"

lemma by_priority_props: "set (by_priority os) \<subseteq> set os" "by_priority os = [] \<longleftrightarrow> os = []"
proof -
  show "set (by_priority os) \<subseteq> set os" by (auto simp: by_priority_def Let_def)
  show "by_priority os = [] \<longleftrightarrow> os = []"
  proof (cases "length os < 2")
    case False
    then have ne: "os \<noteq> []" by auto
    then have "Min (set (map so_priority os)) \<in> set (map so_priority os)" by (intro Min_in) auto
    then obtain o1 where "o1 \<in> set os" "so_priority o1 = Min (set (map so_priority os))" by auto
    then show ?thesis using False ne by (auto simp: by_priority_def Let_def filter_empty_conv)
  qed (simp add: by_priority_def)
qed

lemma candidates_eq:
  assumes "same_view now b0 b"
  shows "set (fst (candidates now hm s excl q b)) \<subseteq> set (preferred_origins hm s (eligible now excl q s b0))"
    and "fst (candidates now hm s excl q b) = [] \<longleftrightarrow> preferred_origins hm s (eligible now excl q s b0) = []"
    and "same_view now b0 (snd (candidates now hm s excl q b))"
proof -
  have f: "fst (filter_available now hm excl q (site_origins_of (ps_id s) b) b) = eligible now excl q s b0"
    and v: "same_view now b0 (snd (filter_available now hm excl q (site_origins_of (ps_id s) b) b))"
    using filter_available_eq [OF assms] assms by (simp_all add: eligible_def same_view_origins)
  have c: "candidates now hm s excl q b =
     (if algorithm_of s = Failover then by_priority (preferred_origins hm s (eligible now excl q s b0))
      else preferred_origins hm s (eligible now excl q s b0),
      snd (filter_available now hm excl q (site_origins_of (ps_id s) b) b))"
    by (simp add: candidates_def Let_def split_beta f)
  show "set (fst (candidates now hm s excl q b)) \<subseteq> set (preferred_origins hm s (eligible now excl q s b0))"
    and "fst (candidates now hm s excl q b) = [] \<longleftrightarrow> preferred_origins hm s (eligible now excl q s b0) = []"
    and "same_view now b0 (snd (candidates now hm s excl q b))"
    using by_priority_props by (auto simp: c v)
qed

lemma preferred_mem:
  assumes "o1 \<in> set (preferred_origins hm s os)"
  shows "o1 \<in> set os"
    and "\<exists>o2 \<in> set os. origin_state hm (so_id o2) = Healthy \<Longrightarrow> origin_state hm (so_id o1) = Healthy"
    and "origin_state hm (so_id o1) = Unhealthy \<Longrightarrow>
      ps_failure_mode s = Some MonitorMode \<and> (\<forall>o2 \<in> set os. origin_state hm (so_id o2) = Unhealthy)"
  using assms by (auto simp: preferred_origins_def Let_def filter_empty_conv split: if_splits)

lemma preferred_nonempty:
  "\<exists>o2 \<in> set os. origin_state hm (so_id o2) \<noteq> Unhealthy \<Longrightarrow> preferred_origins hm s os \<noteq> []"
  by (auto simp: preferred_origins_def Let_def filter_empty_conv)

lemma smooth_round_mem:
  "fst (smooth_round i os sel best t w) \<in> insert sel (set os)"
proof (induction os arbitrary: sel best t w)
  case (Cons o1 os)
  have sub: "insert o1 (set os) \<subseteq> insert sel (set (o1 # os))" "insert sel (set os) \<subseteq> insert sel (set (o1 # os))"
    by auto
  show ?case
    unfolding smooth_round.simps Let_def
    by (rule if_split [where P = "\<lambda>x. fst x \<in> insert sel (set (o1 # os))", THEN iffD2])
       (intro conjI impI; rule subsetD [OF sub(1) Cons.IH] subsetD [OF sub(2) Cons.IH])
qed simp

lemma nth_mod_mem: "os \<noteq> [] \<Longrightarrow> os ! (k mod length os) \<in> set os"
  by simp

lemma next_by_algorithm_mem:
  assumes "fst (next_by_algorithm s os b) = Some o1"
  shows "o1 \<in> set os"
proof -
  from assms have ne: "os \<noteq> []" by (auto simp: next_by_algorithm_def)
  show ?thesis
  proof (cases "algorithm_of s")
    case Failover
    with assms ne show ?thesis by (auto simp: next_by_algorithm_def hd_sort_key(1))
  next
    case RoundRobin
    with assms ne show ?thesis by (auto simp: next_by_algorithm_def Let_def nth_mod_mem)
  next
    case WeightedRoundRobin
    with assms ne show ?thesis using smooth_round_mem [of "ps_id s" os "hd os" None 0 "smooth_weights b"] hd_in_set [OF ne]
      by (auto simp: next_by_algorithm_def Let_def split_beta simp del: hd_in_set)
  qed
qed

lemma next_by_algorithm_None: "fst (next_by_algorithm s os b) = None \<longleftrightarrow> os = []"
  by (auto simp: next_by_algorithm_def Let_def split_beta split: lb_algorithm.splits)

lemma pick_bucket_mem: "pick_bucket n os = Some o1 \<Longrightarrow> o1 \<in> set os"
  by (induction n os rule: pick_bucket.induct) (auto split: if_splits)

lemma ip_affinity_mem: "ip_affinity_origin rank os ip w = Some o1 \<Longrightarrow> o1 \<in> set os"
proof -
  assume a: "ip_affinity_origin rank os ip w = Some o1"
  let ?ord = "sort_key (\<lambda>o1. rank (so_id o1)) os"
  have ne: "?ord \<noteq> []" using a by (metis ip_affinity_origin_def length_0_conv length_sort option.distinct(1))
  have "o1 \<in> set ?ord"
    using a ne nth_mod_mem [OF ne] last_in_set [OF ne]
    by (auto simp only: ip_affinity_origin_def Let_def split: if_splits option.splits dest: pick_bucket_mem)
  then show ?thesis by simp
qed

lemma ip_affinity_None: "ip_affinity_origin rank os ip w = None \<longleftrightarrow> os = []"
  by (auto simp: ip_affinity_origin_def Let_def split: option.splits)

section \<open>What a selection guarantees\<close>

text \<open>The origin that affinity keeps a session on, when the balancer may still use it.\<close>

definition kept_origin :: "time \<Rightarrow> health_manager \<Rightarrow> pool_site \<Rightarrow> access_session option \<Rightarrow> string set \<Rightarrow> balancer \<Rightarrow> site_origin option" where
  "kept_origin now hm s session excluded b =
     (case Option.bind session (\<lambda>x. nonempty (as_origin_id x)) of
        None \<Rightarrow> None
      | Some oid \<Rightarrow>
          if ps_affinity s \<noteq> Some 0
          then case find (\<lambda>o1. so_id o1 = oid) (site_origins_of (ps_id s) b) of
                 None \<Rightarrow> None
               | Some o1 \<Rightarrow> if so_enabled o1 = 1 \<and> so_id o1 \<notin> excluded \<and> origin_state hm (so_id o1) \<noteq> Unhealthy
                               \<and> \<not> quarantined now b o1
                            then Some o1 else None
          else None)"

text \<open>The candidates of a selection: the unquarantined ones, or all when there are none.\<close>

definition final_candidates :: "time \<Rightarrow> health_manager \<Rightarrow> pool_site \<Rightarrow> string set \<Rightarrow> balancer \<Rightarrow> site_origin list" where
  "final_candidates now hm s excluded b =
     (let cs = preferred_origins hm s (eligible now excluded False s b)
      in if cs = [] then preferred_origins hm s (eligible now excluded True s b) else cs)"

lemma kept_origin_mem: "kept_origin now hm s session ex b = Some o1 \<Longrightarrow> o1 \<in> set (site_origins_of (ps_id s) b)"
  by (auto simp: kept_origin_def find_Some_iff split: option.splits if_splits)

lemma kept_origin_props: "kept_origin now hm s session ex b = Some o1 \<Longrightarrow>
  so_enabled o1 = 1 \<and> so_id o1 \<notin> ex \<and> origin_state hm (so_id o1) \<noteq> Unhealthy \<and> \<not> quarantined now b o1"
  by (auto simp: kept_origin_def split: option.splits if_splits)

lemma select_origin_kept:
  assumes "kept_origin now hm s session ex b = Some o1"
  shows "fst (select_origin rank now hm s session ip ex b) = Some o1"
proof -
  obtain x oid where x: "session = Some x" "nonempty (as_origin_id x) = Some oid" and aff: "ps_affinity s \<noteq> Some 0"
    and f: "find (\<lambda>o1. so_id o1 = oid) (site_origins_of (ps_id s) b) = Some o1"
    using assms by (auto simp: kept_origin_def bind_eq_Some_conv split: option.splits if_splits)
  have "fst (origin_available now hm o1 True ex False False b)"
    using kept_origin_props [OF assms] by (simp add: origin_available_iff)
  then obtain b' where "origin_available now hm o1 True ex False False b = (True, b')"
    by (metis (full_types) prod.collapse)
  then show ?thesis using x aff f by (simp add: select_origin_def Let_def)
qed

lemma select_from_candidates:
  fixes hm :: health_manager and s :: pool_site and ex :: "string set" and b b0 :: balancer
  assumes v: "same_view now b b0"
  defines "cs1 \<equiv> candidates now hm s ex False b0"
  defines "cs \<equiv> fst (if fst cs1 = [] then candidates now hm s ex True (snd cs1) else cs1)"
  shows "set cs \<subseteq> set (final_candidates now hm s ex b)"
    and "cs = [] \<longleftrightarrow> final_candidates now hm s ex b = []"
proof -
  note c1 = candidates_eq [OF v, of hm s ex False, folded cs1_def]
  note c2 = candidates_eq [OF c1(3), of hm s ex True]
  show "set cs \<subseteq> set (final_candidates now hm s ex b)"
    and "cs = [] \<longleftrightarrow> final_candidates now hm s ex b = []"
    using c1 c2 by (auto simp: cs_def final_candidates_def Let_def)
qed

lemma select_origin_fresh:
  assumes "kept_origin now hm s session ex b = None"
  obtains cs b2 where "set cs \<subseteq> set (final_candidates now hm s ex b)"
    and "cs = [] \<longleftrightarrow> final_candidates now hm s ex b = []"
    and "fst (select_origin rank now hm s session ip ex b) =
      (if ps_affinity s \<noteq> Some 0 \<and> session = None
       then ip_affinity_origin rank cs ip (algorithm_of s = WeightedRoundRobin)
       else fst (next_by_algorithm s cs b2))"
proof -
  define assigned where "assigned = (case Option.bind session (\<lambda>x. nonempty (as_origin_id x)) of
      None \<Rightarrow> None
    | Some oid \<Rightarrow> if ps_affinity s \<noteq> Some 0 then find (\<lambda>o1. so_id o1 = oid) (site_origins_of (ps_id s) b) else None)"
  define kept where "kept = map_option (\<lambda>o1. origin_available now hm o1 True ex False False b) assigned"
  define b0 where "b0 = case_option b snd kept"
  have v: "same_view now b b0"
    by (auto simp: b0_def kept_def origin_available_view split: option.split)
  have nk: "\<not> case_option False fst kept"
  proof
    assume "case_option False fst kept"
    then obtain o1 where "assigned = Some o1" "fst (origin_available now hm o1 True ex False False b)"
      by (cases assigned) (auto simp: kept_def)
    then show False using assms
      by (auto simp: origin_available_iff assigned_def kept_origin_def split: option.splits if_splits)
  qed
  let ?cs1 = "candidates now hm s ex False b0"
  let ?p = "if fst ?cs1 = [] then candidates now hm s ex True (snd ?cs1) else ?cs1"
  note c = select_from_candidates [OF v, of hm s ex]
  have "fst (select_origin rank now hm s session ip ex b) =
      (if ps_affinity s \<noteq> Some 0 \<and> session = None
       then ip_affinity_origin rank (fst ?p) ip (algorithm_of s = WeightedRoundRobin)
       else fst (next_by_algorithm s (fst ?p) (snd ?p)))"
    unfolding select_origin_def Let_def assigned_def [symmetric] kept_def [symmetric] b0_def [symmetric]
    using nk by (simp only: if_False split_beta fst_conv snd_conv) (simp split: if_split)
  with c that show ?thesis by blast
qed

lemma eligible_mem: "o1 \<in> set (eligible now ex q s b) \<longleftrightarrow>
  o1 \<in> set (site_origins_of (ps_id s) b) \<and> open_origin ex o1 \<and> (quarantined now b o1 \<longrightarrow> q)"
  by (auto simp: eligible_def)

lemma select_origin_fresh_mem:
  assumes "kept_origin now hm s session ex b = None" and "fst (select_origin rank now hm s session ip ex b) = Some o1"
  shows "o1 \<in> set (final_candidates now hm s ex b)"
  using select_origin_fresh [OF assms(1), of rank ip] assms(2) next_by_algorithm_mem ip_affinity_mem
  by (metis subsetD)

lemma select_origin_fresh_None:
  assumes "kept_origin now hm s session ex b = None"
  shows "fst (select_origin rank now hm s session ip ex b) = None \<longleftrightarrow> final_candidates now hm s ex b = []"
  using select_origin_fresh [OF assms, of rank ip] next_by_algorithm_None ip_affinity_None by metis

text \<open>
  C12: the origin a request is sent to belongs to the site, is enabled and is not one the request
  already failed on; it is a draining one only when affinity keeps the session there; it is an
  unhealthy one only for a site that merely monitors health and when no open origin outside
  quarantine is better; it is a quarantined one only when every open origin outside quarantine is
  ruled out.
\<close>

theorem selected_origin_allowed:
  assumes "fst (select_origin rank now hm s session ip ex b) = Some o1"
  shows "o1 \<in> set (site_origins_of (ps_id s) b) \<and> so_enabled o1 = 1 \<and> so_id o1 \<notin> ex
    \<and> (so_draining o1 = 1 \<longrightarrow> kept_origin now hm s session ex b = Some o1)
    \<and> (origin_state hm (so_id o1) = Unhealthy \<longrightarrow> ps_failure_mode s = Some MonitorMode \<and>
         (\<forall>o2 \<in> set (site_origins_of (ps_id s) b). open_origin ex o2 \<and> \<not> quarantined now b o2
            \<longrightarrow> origin_state hm (so_id o2) = Unhealthy))
    \<and> (quarantined now b o1 \<longrightarrow>
         (\<forall>o2 \<in> set (site_origins_of (ps_id s) b). open_origin ex o2 \<and> \<not> quarantined now b o2
            \<longrightarrow> origin_state hm (so_id o2) = Unhealthy \<and> ps_failure_mode s \<noteq> Some MonitorMode))"
proof (cases "kept_origin now hm s session ex b")
  case (Some o2)
  with assms select_origin_kept [OF Some, of rank ip] have "o2 = o1" by simp
  with kept_origin_mem [OF Some] kept_origin_props [OF Some] Some show ?thesis by simp
next
  case None
  let ?e1 = "eligible now ex False s b" and ?e2 = "eligible now ex True s b"
  have sub: "set ?e1 \<subseteq> set ?e2" by (auto simp: eligible_mem)
  note m = select_origin_fresh_mem [OF None assms]
  show ?thesis
  proof (cases "preferred_origins hm s ?e1 = []")
    case False
    with m have p: "o1 \<in> set (preferred_origins hm s ?e1)" by (simp add: final_candidates_def Let_def)
    from preferred_mem(1,3) [OF p] show ?thesis by (auto simp: eligible_mem open_origin_def)
  next
    case True
    with m have p: "o1 \<in> set (preferred_origins hm s ?e2)" by (simp add: final_candidates_def Let_def)
    have all: "origin_state hm (so_id o2) = Unhealthy" if "o2 \<in> set ?e1" for o2
      using True preferred_nonempty that by blast
    have mode: "ps_failure_mode s \<noteq> Some MonitorMode" if "o2 \<in> set ?e1" for o2
      using True that by (auto simp: preferred_origins_def Let_def split: if_splits)
    from preferred_mem(1,3) [OF p] all mode show ?thesis by (auto simp: eligible_mem open_origin_def)
  qed
qed

text \<open>
  C13: no request is turned away while an origin could take it. If the site has an
  enabled origin that is not excluded, not draining and not unhealthy, an origin is selected, even
  when all of them are in quarantine after a failed request.
\<close>

theorem selection_complete:
  assumes "o1 \<in> set (site_origins_of (ps_id s) b)" and "open_origin ex o1" and "origin_state hm (so_id o1) \<noteq> Unhealthy"
  shows "fst (select_origin rank now hm s session ip ex b) \<noteq> None"
proof (cases "kept_origin now hm s session ex b")
  case (Some o2)
  then show ?thesis by (simp add: select_origin_kept)
next
  case None
  have "o1 \<in> set (eligible now ex True s b)" using assms by (simp add: eligible_mem)
  then have "preferred_origins hm s (eligible now ex True s b) \<noteq> []"
    using assms(3) preferred_nonempty by blast
  then show ?thesis using select_origin_fresh_None [OF None, of rank ip]
    by (auto simp: final_candidates_def Let_def)
qed

section \<open>Fairness\<close>

text \<open>\<open>n\<close> selections in a row from the same candidates.\<close>

fun repeat_next :: "nat \<Rightarrow> pool_site \<Rightarrow> site_origin list \<Rightarrow> balancer \<Rightarrow> site_origin list \<times> balancer" where
  "repeat_next 0 s os b = ([], b)"
| "repeat_next (Suc n) s os b =
     (let (x, b1) = next_by_algorithm s os b; (picks, b2) = repeat_next n s os b1
      in (case x of None \<Rightarrow> picks | Some o1 \<Rightarrow> o1 # picks, b2))"

definition cursor_of :: "pool_site \<Rightarrow> balancer \<Rightarrow> nat" where
  "cursor_of s b = case_option 0 id (om_get (round_robin_cursor b) (ps_id s))"

lemma round_robin_picks:
  assumes "algorithm_of s = RoundRobin" and "os \<noteq> []"
  shows "fst (repeat_next n s os b) = map (\<lambda>i. os ! ((cursor_of s b + i) mod length os)) [0..<n]"
proof (induction n arbitrary: b)
  case (Suc n)
  obtain b1 where b1: "next_by_algorithm s os b = (Some (os ! (cursor_of s b mod length os)), b1)"
    and c: "cursor_of s b1 = Suc (cursor_of s b)"
    using assms by (auto simp: next_by_algorithm_def Let_def cursor_of_def om_get_set)
  have "map (\<lambda>i. os ! ((cursor_of s b + i) mod length os)) [0..<Suc n]
      = os ! (cursor_of s b mod length os) # map (\<lambda>i. os ! ((Suc (cursor_of s b) + i) mod length os)) [0..<n]"
    by (simp add: upt_conv_Cons map_Suc_upt [symmetric] del: upt_Suc)
  then show ?case using Suc.IH [of b1] by (simp add: b1 c split_beta)
qed simp

lemma mset_rotate_nth: "mset (map (\<lambda>i. xs ! ((c + i) mod length xs)) [0..<length xs]) = mset xs"
proof -
  have "map (\<lambda>i. xs ! ((c + i) mod length xs)) [0..<length xs] = rotate c xs"
    by (rule nth_equalityI) (simp_all add: nth_rotate)
  then show ?thesis by (simp add: rotate_drop_take) (metis append_take_drop_id mset_append union_commute)
qed

text \<open>
  Round robin is fair. From any state of the balancer, as many selections in a row as there are
  candidates use every candidate exactly once.
\<close>

theorem round_robin_fair:
  assumes "algorithm_of s = RoundRobin" and "os \<noteq> []"
  shows "mset (fst (repeat_next (length os) s os b)) = mset os"
  unfolding round_robin_picks [OF assms] by (rule mset_rotate_nth)

subsection \<open>Smooth weighted selection\<close>

definition weight_in :: "string \<Rightarrow> (string, int) omap \<Rightarrow> site_origin \<Rightarrow> int" where
  "weight_in i w o1 = case_option 0 id (om_get w (weight_key i (so_id o1)))"

lemma weight_in_set:
  "weight_in i (om_set (weight_key i (so_id o1)) v w) o2 = (if so_id o2 = so_id o1 then v else weight_in i w o2)"
  by (simp add: weight_in_def om_get_set weight_key_def)

lemma smooth_round_Cons:
  "smooth_round i (o1 # rest) sel best t w =
     (let current = weight_in i w o1 + weight_of o1; w' = om_set (weight_key i (so_id o1)) current w
      in if (case best of None \<Rightarrow> True | Some v \<Rightarrow> current > v)
         then smooth_round i rest o1 (Some current) (t + weight_of o1) w'
         else smooth_round i rest sel best (t + weight_of o1) w')"
  by (simp add: weight_in_def Let_def)

lemma weight_of_pos: "0 < weight_of o1"
  by (simp add: weight_of_def)

text \<open>The winner of a round has the largest weight after its increment.\<close>

definition wins :: "string \<Rightarrow> (string, int) omap \<Rightarrow> site_origin list \<Rightarrow> site_origin \<Rightarrow> int option \<Rightarrow> site_origin \<Rightarrow> bool" where
  "wins i w os sel best sel' \<longleftrightarrow>
     (sel' \<in> set os \<and> (\<forall>o1 \<in> set os. weight_in i w o1 + weight_of o1 \<le> weight_in i w sel' + weight_of sel')
        \<and> (\<forall>v. best = Some v \<longrightarrow> v < weight_in i w sel' + weight_of sel'))
     \<or> (sel' = sel \<and> (os \<noteq> [] \<longrightarrow> (\<exists>v. best = Some v \<and> (\<forall>o1 \<in> set os. weight_in i w o1 + weight_of o1 \<le> v))))"


lemma smooth_round_total:
  "smooth_round i os sel best t w = (sel', t', w') \<Longrightarrow> t' = t + sum_list (map weight_of os)"
proof (induction os arbitrary: sel best t w)
  case (Cons o2 os)
  obtain sl bs w1 where "smooth_round i os sl bs (t + weight_of o2) w1 = (sel', t', w')"
    using Cons.prems by (auto simp: Let_def split: if_splits)
  from Cons.IH [OF this] show ?case by simp
qed simp

lemma smooth_round_other:
  "smooth_round i os sel best t w = (sel', t', w') \<Longrightarrow> so_id o1 \<notin> so_id ` set os \<Longrightarrow> weight_in i w' o1 = weight_in i w o1"
proof (induction os arbitrary: sel best t w)
  case (Cons o2 os)
  let ?w = "om_set (weight_key i (so_id o2)) (weight_in i w o2 + weight_of o2) w"
  obtain sl bs where r: "smooth_round i os sl bs (t + weight_of o2) ?w = (sel', t', w')"
    using Cons.prems(1) by (auto simp: smooth_round_Cons Let_def simp del: smooth_round.simps split: if_splits)
  from Cons.IH [OF r] Cons.prems(2) show ?case by (simp add: weight_in_set)
qed simp

lemma smooth_round_weights:
  "distinct (map so_id os) \<Longrightarrow> smooth_round i os sel best t w = (sel', t', w') \<Longrightarrow> o1 \<in> set os \<Longrightarrow>
     weight_in i w' o1 = weight_in i w o1 + weight_of o1"
proof (induction os arbitrary: sel best t w)
  case (Cons o2 os)
  let ?w = "om_set (weight_key i (so_id o2)) (weight_in i w o2 + weight_of o2) w"
  obtain sl bs where r: "smooth_round i os sl bs (t + weight_of o2) ?w = (sel', t', w')"
    using Cons.prems(2) by (auto simp: smooth_round_Cons Let_def simp del: smooth_round.simps split: if_splits)
  show ?case
  proof (cases "o1 = o2")
    case True
    with smooth_round_other [OF r, of o1] Cons.prems(1) show ?thesis by (simp add: weight_in_set)
  next
    case False
    then have o1: "o1 \<in> set os" using Cons.prems(3) by simp
    then have "so_id o1 \<noteq> so_id o2" using Cons.prems(1) by (metis distinct.simps(2) image_eqI list.simps(9) set_map)
    with Cons.IH [OF _ r o1] Cons.prems(1) show ?thesis by (simp add: weight_in_set)
  qed
qed simp

lemma smooth_round_wins:
  "distinct (map so_id os) \<Longrightarrow> smooth_round i os sel best t w = (sel', t', w') \<Longrightarrow> wins i w os sel best sel'"
proof (induction os arbitrary: sel best t w)
  case Nil
  then show ?case by (simp add: wins_def)
next
  case (Cons o2 os)
  let ?c = "weight_in i w o2 + weight_of o2"
  let ?w = "om_set (weight_key i (so_id o2)) ?c w"
  have same: "weight_in i ?w o1 = weight_in i w o1" if "o1 \<in> set os" for o1
    using that Cons.prems(1) by (auto simp: weight_in_set) (metis image_eqI)
  show ?case
  proof (cases "case best of None \<Rightarrow> True | Some v \<Rightarrow> ?c > v")
    case True
    with Cons.prems(2) have "smooth_round i os o2 (Some ?c) (t + weight_of o2) ?w = (sel', t', w')"
      by (simp add: smooth_round_Cons Let_def del: smooth_round.simps)
    from Cons.IH [OF _ this] Cons.prems(1) have "wins i ?w os o2 (Some ?c) sel'" by simp
    then show ?thesis using True same by (auto simp: wins_def split: option.splits)
  next
    case False
    then obtain v where v: "best = Some v" "?c \<le> v" by (cases best) auto
    from False Cons.prems(2) have "smooth_round i os sel best (t + weight_of o2) ?w = (sel', t', w')"
      by (simp add: smooth_round_Cons Let_def del: smooth_round.simps)
    from Cons.IH [OF _ this] Cons.prems(1) have "wins i ?w os sel best sel'" by simp
    then show ?thesis using v same by (auto simp: wins_def)
  qed
qed

abbreviation total_weight :: "site_origin list \<Rightarrow> int" where
  "total_weight os \<equiv> sum_list (map weight_of os)"

lemma total_weight_pos: "os \<noteq> [] \<Longrightarrow> 0 < total_weight os"
  by (induction os rule: list_nonempty_induct) (simp_all add: weight_of_pos add_pos_pos)

text \<open>One weighted selection: everyone gains its weight, the largest pays the total.\<close>

lemma weighted_step:
  assumes "algorithm_of s = WeightedRoundRobin" and "os \<noteq> []" and "distinct (map so_id os)"
  obtains sel b1 where "next_by_algorithm s os b = (Some sel, b1)" and "sel \<in> set os"
    and "\<And>o1. o1 \<in> set os \<Longrightarrow> weight_in (ps_id s) (smooth_weights b) o1 + weight_of o1
          \<le> weight_in (ps_id s) (smooth_weights b) sel + weight_of sel"
    and "\<And>o1. o1 \<in> set os \<Longrightarrow> weight_in (ps_id s) (smooth_weights b1) o1
          = weight_in (ps_id s) (smooth_weights b) o1 + weight_of o1 - (if o1 = sel then total_weight os else 0)"
proof -
  obtain sel t w where r: "smooth_round (ps_id s) os (hd os) None 0 (smooth_weights b) = (sel, t, w)"
    by (metis prod_cases3)
  have t: "t = total_weight os" using smooth_round_total [OF r] by simp
  have win: "sel \<in> set os" "\<And>o1. o1 \<in> set os \<Longrightarrow> weight_in (ps_id s) (smooth_weights b) o1 + weight_of o1
          \<le> weight_in (ps_id s) (smooth_weights b) sel + weight_of sel"
    using smooth_round_wins [OF assms(3) r] assms(2) by (auto simp: wins_def)
  define b1 where "b1 = b\<lparr>smooth_weights := om_set (weight_key (ps_id s) (so_id sel)) (weight_in (ps_id s) w sel - t) w\<rparr>"
  have n: "next_by_algorithm s os b = (Some sel, b1)"
    using assms r by (simp add: next_by_algorithm_def b1_def weight_in_def Let_def)
  have "weight_in (ps_id s) (smooth_weights b1) o1
          = weight_in (ps_id s) (smooth_weights b) o1 + weight_of o1 - (if o1 = sel then total_weight os else 0)"
    if "o1 \<in> set os" for o1
  proof -
    have "so_id o1 = so_id sel \<longleftrightarrow> o1 = sel"
      using that win(1) assms(3) by (auto simp: distinct_map inj_on_def)
    then show ?thesis using smooth_round_weights [OF assms(3) r that] smooth_round_weights [OF assms(3) r win(1)] t
      by (auto simp: b1_def weight_in_set)
  qed
  with n win that show ?thesis by blast
qed

lemma weighted_rounds:
  assumes "algorithm_of s = WeightedRoundRobin" and "os \<noteq> []" and "distinct (map so_id os)"
    and "\<forall>o1 \<in> set os. weight_in (ps_id s) (smooth_weights b) o1 > - total_weight os"
    and "(\<Sum>o1 \<in> set os. weight_in (ps_id s) (smooth_weights b) o1) = 0"
  shows "length (fst (repeat_next n s os b)) = n \<and> set (fst (repeat_next n s os b)) \<subseteq> set os
    \<and> (\<forall>o1 \<in> set os. weight_in (ps_id s) (smooth_weights (snd (repeat_next n s os b))) o1 > - total_weight os
        \<and> weight_in (ps_id s) (smooth_weights (snd (repeat_next n s os b))) o1
          = weight_in (ps_id s) (smooth_weights b) o1 + int n * weight_of o1
            - total_weight os * int (count_list (fst (repeat_next n s os b)) o1))"
  using assms(4,5)
proof (induction n arbitrary: b)
  case 0
  then show ?case by simp
next
  case (Suc n)
  let ?v = "\<lambda>b. weight_in (ps_id s) (smooth_weights b)" and ?W = "total_weight os"
  obtain sel b1 where st: "next_by_algorithm s os b = (Some sel, b1)" "sel \<in> set os"
    and mx: "\<And>o1. o1 \<in> set os \<Longrightarrow> ?v b o1 + weight_of o1 \<le> ?v b sel + weight_of sel"
    and v1: "\<And>o1. o1 \<in> set os \<Longrightarrow> ?v b1 o1 = ?v b o1 + weight_of o1 - (if o1 = sel then ?W else 0)"
    using weighted_step [OF assms(1-3), of b] by metis
  have dist: "distinct os" using assms(3) by (simp add: distinct_map)
  then have W: "(\<Sum>o1 \<in> set os. weight_of o1) = ?W" by (simp add: sum_list_distinct_conv_sum_set)
  have "0 < (\<Sum>o1 \<in> set os. ?v b o1 + weight_of o1)"
    using Suc.prems(2) W total_weight_pos [OF assms(2)] by (simp add: sum.distrib)
  then have "0 < ?v b sel + weight_of sel"
    using mx sum_nonpos [of "set os" "\<lambda>o1. ?v b o1 + weight_of o1"] by (metis dual_order.trans not_le)
  then have low: "\<forall>o1 \<in> set os. ?v b1 o1 > - ?W"
    using Suc.prems(1) v1 weight_of_pos by (smt (verit))
  have "(\<Sum>o1 \<in> set os. ?v b1 o1) = (\<Sum>o1 \<in> set os. ?v b o1 + weight_of o1 - (if o1 = sel then ?W else 0))"
    using v1 by (intro sum.cong) auto
  also have "\<dots> = 0" using Suc.prems(2) W st(2) by (simp add: sum.distrib sum_subtractf)
  finally have z: "(\<Sum>o1 \<in> set os. ?v b1 o1) = 0" .
  have pk: "fst (repeat_next (Suc n) s os b) = sel # fst (repeat_next n s os b1)"
    and sn: "snd (repeat_next (Suc n) s os b) = snd (repeat_next n s os b1)"
    by (simp_all add: st split_beta)
  show ?case using Suc.IH [OF low z] st(2) v1
    by (simp only: pk sn) (auto simp: algebra_simps)
qed

text \<open>
  C14: the smooth weighted selection is exact. For candidates with distinct identifiers whose running
  weights are zero (none is stored for them), as many selections in a row as the total weight pick
  every candidate exactly as often as its weight says.
\<close>

theorem weighted_selection_exact:
  assumes "algorithm_of s = WeightedRoundRobin" and "distinct (map so_id os)" and "o1 \<in> set os"
    and "\<forall>o2 \<in> set os. om_get (smooth_weights b) (weight_key (ps_id s) (so_id o2)) = None"
  shows "int (count_list (fst (repeat_next (nat (total_weight os)) s os b)) o1) = weight_of o1"
proof -
  let ?W = "total_weight os" and ?c = "count_list (fst (repeat_next (nat (total_weight os)) s os b))"
  have ne: "os \<noteq> []" using assms(3) by auto
  note Wpos = total_weight_pos [OF ne]
  have dist: "distinct os" using assms(2) by (simp add: distinct_map)
  have zero: "weight_in (ps_id s) (smooth_weights b) o2 = 0" if "o2 \<in> set os" for o2
    using assms(4) that by (simp add: weight_in_def)
  have r: "length (fst (repeat_next (nat ?W) s os b)) = nat ?W" "set (fst (repeat_next (nat ?W) s os b)) \<subseteq> set os"
    and v: "\<And>o2. o2 \<in> set os \<Longrightarrow> - ?W < int (nat ?W) * weight_of o2 - ?W * int (?c o2)"
    using weighted_rounds [OF assms(1) ne assms(2), of b "nat ?W"] zero Wpos by (auto simp del: of_nat_mult)
  have le: "int (?c o2) \<le> weight_of o2" if "o2 \<in> set os" for o2
  proof -
    have "0 < ?W * (weight_of o2 - int (?c o2) + 1)" using v [OF that] Wpos by (simp add: algebra_simps)
    with Wpos have "0 < weight_of o2 - int (?c o2) + 1" by (simp add: zero_less_mult_iff)
    then show ?thesis by linarith
  qed
  have "(\<Sum>o2 \<in> set os. ?c o2) = nat ?W" using r by (simp add: sum_count_set)
  then have "(\<Sum>o2 \<in> set os. int (?c o2)) = ?W" using Wpos by (metis of_nat_sum int_nat_eq less_imp_le)
  then have "(\<Sum>o2 \<in> set os. weight_of o2 - int (?c o2)) = 0"
    using dist by (simp add: sum_subtractf sum_list_distinct_conv_sum_set)
  then have "\<forall>o2 \<in> set os. weight_of o2 - int (?c o2) = 0"
    using le by (subst (asm) sum_nonneg_eq_0_iff) auto
  with assms(3) show ?thesis by simp
qed

section \<open>Affinity by address and samples\<close>

lemma pick_bucket_total: "0 \<le> n \<Longrightarrow> n < total_weight os \<Longrightarrow> pick_bucket n os \<noteq> None"
  by (induction n os rule: pick_bucket.induct) auto

text \<open>
  A client without a session reaches the same origin whatever the order in which the candidates
  are listed: the choice depends on the address and on the set of candidates alone, for every ranking
  that tells identifiers apart, and it is one of the candidates.
\<close>

theorem affinity_order_independent:
  assumes "mset os = mset os'" and "distinct (map so_id os)" and "inj rank" and "os \<noteq> []"
  shows "\<exists>o1 \<in> set os. ip_affinity_origin rank os ip weighted = Some o1
    \<and> ip_affinity_origin rank os' ip weighted = Some o1"
proof -
  have inj: "inj_on (\<lambda>o1. rank (so_id o1)) (set os)"
    using assms(2,3) by (auto simp: distinct_map inj_on_def)
  have "sort_key (\<lambda>o1. rank (so_id o1)) os = sort_key (\<lambda>o1. rank (so_id o1)) os'"
    using assms(1) by (intro sort_key_inj_key_eq) (simp_all add: inj)
  moreover have "os' \<noteq> []" using assms(1,4) by auto
  ultimately have eq: "ip_affinity_origin rank os ip weighted = ip_affinity_origin rank os' ip weighted"
    using assms(4) by (simp add: ip_affinity_origin_def)
  obtain o1 where "ip_affinity_origin rank os ip weighted = Some o1" using assms(4) ip_affinity_None by fastforce
  with eq ip_affinity_mem show ?thesis by metis
qed

subsection \<open>Samples\<close>

definition lb_site :: "lb_algorithm \<Rightarrow> pool_site" where
  "lb_site a = sample_pool_site\<lparr>ps_algorithm := Some a\<rparr>"

definition lb_origins :: "site_origin list" where
  "lb_origins = [(sample_origin ''a'' ProxyOrigin)\<lparr>so_weight := 3\<rparr>, sample_origin ''b'' ProxyOrigin]"

definition lb_balancer :: balancer where
  "lb_balancer = initialize_balancer lb_origins new_balancer"

theorem selected_origin_allowed_witness:
  "\<exists>o1. fst (select_origin length 0 new_manager (lb_site RoundRobin) None ''1.2.3.4'' {''a''} lb_balancer) = Some o1
     \<and> so_id o1 \<noteq> ''a'' \<and> so_enabled o1 = 1"
proof -
  have "fst (select_origin length 0 new_manager (lb_site RoundRobin) None ''1.2.3.4'' {''a''} lb_balancer)
      = Some (sample_origin ''b'' ProxyOrigin)"
    by code_simp
  from this selected_origin_allowed [OF this] show ?thesis by auto
qed

theorem selection_complete_witness:
  "fst (select_origin length 0 new_manager (lb_site Failover) None ''1.2.3.4'' {} lb_balancer) \<noteq> None"
proof (rule selection_complete)
  show "sample_origin ''b'' ProxyOrigin \<in> set (site_origins_of (ps_id (lb_site Failover)) lb_balancer)" by code_simp
  show "open_origin {} (sample_origin ''b'' ProxyOrigin)" by (simp add: open_origin_def sample_origin_def)
  show "origin_state new_manager (so_id (sample_origin ''b'' ProxyOrigin)) \<noteq> Unhealthy" by code_simp
qed

theorem round_robin_fair_witness:
  "mset (fst (repeat_next 2 (lb_site RoundRobin) lb_origins lb_balancer)) = mset lb_origins"
proof -
  have "mset (fst (repeat_next (length lb_origins) (lb_site RoundRobin) lb_origins lb_balancer)) = mset lb_origins"
    by (rule round_robin_fair) (simp_all add: algorithm_of_def lb_site_def lb_origins_def)
  moreover have "length lb_origins = 2" by (simp add: lb_origins_def)
  ultimately show ?thesis by simp
qed

theorem weighted_selection_exact_witness:
  "count_list (fst (repeat_next 4 (lb_site WeightedRoundRobin) lb_origins new_balancer)) (sample_origin ''b'' ProxyOrigin) = 1"
proof -
  have "int (count_list (fst (repeat_next (nat (total_weight lb_origins)) (lb_site WeightedRoundRobin) lb_origins new_balancer))
      (sample_origin ''b'' ProxyOrigin)) = weight_of (sample_origin ''b'' ProxyOrigin)"
    by (rule weighted_selection_exact)
       (simp_all add: algorithm_of_def lb_site_def lb_origins_def new_balancer_def sample_origin_def om_get_def)
  moreover have "nat (total_weight lb_origins) = 4"
    by (simp add: lb_origins_def weight_of_def sample_origin_def)
  ultimately show ?thesis by (simp add: weight_of_def sample_origin_def)
qed

text \<open>An executable ranking of identifiers.\<close>

definition text_rank :: "string \<Rightarrow> nat" where
  "text_rank s = foldl (\<lambda>n c. n * 257 + (char_code c + 1)) 0 s"

lemma text_rank_snoc: "text_rank (s @ [c]) = text_rank s * 257 + (char_code c + 1)"
  by (simp add: text_rank_def)

lemma inj_text_rank: "inj text_rank"
proof (rule injI)
  fix s t show "text_rank s = text_rank t \<Longrightarrow> s = t"
  proof (induction s arbitrary: t rule: rev_induct)
    case Nil
    then show ?case by (cases t rule: rev_cases) (simp_all add: text_rank_snoc, simp add: text_rank_def)
  next
    case (snoc c s)
    note IH = snoc.IH
    show ?case
    proof (cases t rule: rev_cases)
      case Nil
      with snoc.prems show ?thesis by (simp add: text_rank_snoc) (simp add: text_rank_def)
    next
      case (snoc t' d)
      with snoc.prems have eq: "text_rank s * 257 + (char_code c + 1) = text_rank t' * 257 + (char_code d + 1)"
        by (simp add: text_rank_snoc)
      have "char_code c + 1 < 257" "char_code d + 1 < 257" using code_lt_256 by auto
      with eq have st: "text_rank s = text_rank t'" by linarith
      with eq have "char_code c = char_code d" by simp
      then have "c = d" by (rule char_eq_code_iff [THEN iffD2])
      with IH [OF st] snoc show ?thesis by simp
    qed
  qed
qed

theorem affinity_order_independent_witness:
  "\<exists>o1 \<in> set lb_origins. ip_affinity_origin text_rank lb_origins ''1.2.3.4'' True = Some o1
     \<and> ip_affinity_origin text_rank (rev lb_origins) ''1.2.3.4'' True = Some o1"
  by (rule affinity_order_independent)
     (simp_all add: inj_text_rank lb_origins_def sample_origin_def add.commute)

end
