(* ===== verification/Proxy_Protocol.thy ===== *)
theory Proxy_Protocol
  imports Ip_Address "HOL-Library.Sublist"
begin

text \<open>
  The PROXY protocol, both ways: \<open>src/src/services/stream-proxy-protocol.ts\<close> writes the header in
  front of a forwarded connection, \<open>src/src/services/incoming-proxy-protocol.ts\<close> reads it, and
  \<open>src/src/services/proxy-protocol-ingress.ts\<close> decides what happens to a new client.

  A buffer is a \<^typ>\<open>string\<close>, one \<^typ>\<open>char\<close> per byte. A throw is a value of an error type. A client
  of the ingress is the sequence of chunks its socket delivers; timers, back-pressure and the sockets
  themselves are not modelled.
\<close>

section \<open>Writing a header\<close>

type_synonym bytes = string

datatype transport = Tcp | Udp

datatype header_mode = HeaderV1 | HeaderV2

record proxy_endpoints =
  ep_source_address :: string
  ep_destination_address :: string
  ep_source_port :: int
  ep_destination_port :: int

datatype encode_error = BadSource | BadDestination | FamilyMismatch | BadPort | UdpInV1

definition byte_of :: "nat \<Rightarrow> char" where
  "byte_of n = char_of n"

definition v2_signature :: bytes where
  "v2_signature = map byte_of [13, 10, 13, 10, 0, 13, 10, 81, 85, 73, 84, 10]"

definition valid_port :: "int \<Rightarrow> encode_error + nat" where
  "valid_port p = (if p < 0 \<or> p > 65535 then Inl BadPort else Inr (nat p))"

fun address_bytes :: "nat \<Rightarrow> nat \<Rightarrow> bytes" where
  "address_bytes v 0 = []"
| "address_bytes v (Suc n) = address_bytes (drop_bit 8 v) n @ [byte_of (v AND 255)]"

definition uint16_be :: "nat \<Rightarrow> bytes" where
  "uint16_be n = [byte_of (drop_bit 8 n AND 255), byte_of (n AND 255)]"

definition ipv6_groups :: "nat \<Rightarrow> nat list" where
  "ipv6_groups v = map (\<lambda>s. drop_bit s v AND 65535) [112, 96, 80, 64, 48, 32, 16, 0]"

text \<open>The first longest run of zero groups, as its start and its length.\<close>

function zero_run :: "nat list \<Rightarrow> nat \<Rightarrow> nat \<times> nat \<Rightarrow> nat \<times> nat" where
  "zero_run [] i best = best"
| "zero_run (g # gs) i best =
     (if g \<noteq> 0 then zero_run gs (i + 1) best
      else let n = 1 + length (takeWhile (\<lambda>x. x = 0) gs)
           in zero_run (dropWhile (\<lambda>x. x = 0) gs) (i + n) (if n > snd best then (i, n) else best))"
  by pat_completeness auto
termination
  by (relation "measure (\<lambda>(gs, _, _). length gs)") (auto simp: le_imp_less_Suc length_dropWhile_le)

definition hex_text :: "nat \<Rightarrow> string" where
  "hex_text g = to_base 16 g"

definition canonical_ipv6 :: "nat \<Rightarrow> string" where
  "canonical_ipv6 v =
     (let groups = ipv6_groups v; (start, len) = zero_run groups 0 (0, 0)
      in if len < 2 then join '':'' (map hex_text groups)
         else join '':'' (map hex_text (take start groups)) @ ''::''
              @ join '':'' (map hex_text (drop (start + len) groups)))"

record resolved_endpoints =
  re_source :: parsed_ip
  re_destination :: parsed_ip
  re_source_port :: nat
  re_destination_port :: nat

definition resolve_endpoints :: "proxy_endpoints \<Rightarrow> encode_error + resolved_endpoints" where
  "resolve_endpoints e =
     (case parse_ip (ep_source_address e) of
        None \<Rightarrow> Inl BadSource
      | Some src \<Rightarrow>
          case parse_ip (ep_destination_address e) of
            None \<Rightarrow> Inl BadDestination
          | Some dst \<Rightarrow>
              if ip_version src \<noteq> ip_version dst then Inl FamilyMismatch
              else case valid_port (ep_source_port e) of
                     Inl err \<Rightarrow> Inl err
                   | Inr sp \<Rightarrow>
                       case valid_port (ep_destination_port e) of
                         Inl err \<Rightarrow> Inl err
                       | Inr dp \<Rightarrow> Inr \<lparr>re_source = src, re_destination = dst, re_source_port = sp, re_destination_port = dp\<rparr>)"

definition crlf :: bytes where
  "crlf = [CHR 0x0D, CHR 0x0A]"

definition v1_line :: "string \<Rightarrow> string \<Rightarrow> string \<Rightarrow> nat \<Rightarrow> nat \<Rightarrow> string" where
  "v1_line family src dst sp dp =
     ''PROXY TCP'' @ family @ '' '' @ src @ '' '' @ dst @ '' '' @ nat_text sp @ '' '' @ nat_text dp"

definition v2_header :: "nat \<Rightarrow> nat \<Rightarrow> nat \<Rightarrow> nat \<Rightarrow> nat \<Rightarrow> nat \<Rightarrow> bytes" where
  "v2_header address_length family_byte src dst sp dp =
     (let block = address_bytes src address_length @ address_bytes dst address_length @ uint16_be sp @ uint16_be dp
      in v2_signature @ [byte_of 33, byte_of family_byte] @ uint16_be (length block) @ block)"

definition proxy_protocol_header :: "header_mode \<Rightarrow> transport \<Rightarrow> proxy_endpoints \<Rightarrow> encode_error + bytes" where
  "proxy_protocol_header mode transport e =
     (case resolve_endpoints e of
        Inl err \<Rightarrow> Inl err
      | Inr r \<Rightarrow>
          let v4 = (ip_version (re_source r) = V4)
          in case mode of
               HeaderV1 \<Rightarrow>
                 if transport \<noteq> Tcp then Inl UdpInV1
                 else Inr (v1_line (if v4 then ''4'' else ''6'')
                             (if v4 then ep_source_address e else canonical_ipv6 (ip_value (re_source r)))
                             (if v4 then ep_destination_address e else canonical_ipv6 (ip_value (re_destination r)))
                             (re_source_port r) (re_destination_port r) @ crlf)
             | HeaderV2 \<Rightarrow>
                 Inr (v2_header (if v4 then 4 else 16)
                        ((if v4 then 16 else 32) OR (if transport = Tcp then 1 else 2))
                        (ip_value (re_source r)) (ip_value (re_destination r)) (re_source_port r) (re_destination_port r)))"

definition proxy_protocol_datagram :: "bytes \<Rightarrow> bytes \<Rightarrow> bytes" where
  "proxy_protocol_datagram header payload = header @ payload"

section \<open>Reading a header\<close>

record proxy_connection =
  pc_source_address :: string
  pc_source_port :: nat
  pc_destination_address :: string
  pc_destination_port :: nat

text \<open>\<open>Incomplete\<close> is the null of the source, \<open>Invalid\<close> its throw.\<close>

datatype header_result = Incomplete | Invalid | Header nat "proxy_connection option"

definition v1_prefix :: bytes where
  "v1_prefix = ''PROXY ''"

definition normalize_proxy_address :: "string \<Rightarrow> string" where
  "normalize_proxy_address address =
     (case parse_ip address of
        None \<Rightarrow> address
      | Some p \<Rightarrow> if ip_version p = V6 \<and> drop_bit 32 (ip_value p) = 65535 then ipv4_text (ip_value p) else address)"

definition is_trusted_proxy :: "string \<Rightarrow> parsed_cidr list \<Rightarrow> bool" where
  "is_trusted_proxy address trusted =
     list_ex (\<lambda>c. cidr_contains c address \<or> cidr_contains c (normalize_proxy_address address)) trusted"

text \<open>\<open>/^[^/]+(?:\\/[0-9]{1,3})?$/u\<close>; an entry that is not a string is \<open>None\<close>.\<close>

definition trusted_entry_shape :: "string \<Rightarrow> bool" where
  "trusted_entry_shape s =
     (case split_on CHR ''/'' s of
        [a] \<Rightarrow> a \<noteq> []
      | [a, d] \<Rightarrow> a \<noteq> [] \<and> 1 \<le> length d \<and> length d \<le> 3 \<and> list_all is_digit d
      | _ \<Rightarrow> False)"

fun trusted_entries :: "string option list \<Rightarrow> string list option" where
  "trusted_entries [] = Some []"
| "trusted_entries (e # es) =
     (case e of
        None \<Rightarrow> None
      | Some t \<Rightarrow>
          if \<not> trusted_entry_shape (trim t) \<or> parse_cidr (trim t) = None then None
          else map_option (\<lambda>ts. trim t # ts) (trusted_entries es))"

text \<open>\<open>new Set\<close> keeps the first occurrence of every entry.\<close>

definition parse_trusted_proxy_cidrs :: "string option list \<Rightarrow> string list option" where
  "parse_trusted_proxy_cidrs es =
     (if length es > 256 then None else map_option (\<lambda>ts. rev (remdups (rev ts))) (trusted_entries es))"

definition port_number :: "string \<Rightarrow> nat option" where
  "port_number s =
     (if (s = ''0'' \<or> (s \<noteq> [] \<and> hd s \<noteq> CHR ''0'' \<and> length s \<le> 5 \<and> list_all is_digit s)) \<and> digits_value 10 s \<le> 65535
      then Some (digits_value 10 s) else None)"

definition prefix_matches :: "bytes \<Rightarrow> bytes \<Rightarrow> bool" where
  "prefix_matches data p \<longleftrightarrow> take (min (length data) (length p)) data = take (min (length data) (length p)) p"

text \<open>\<open>None\<close> while the bytes so far do not decide.\<close>

definition is_proxy_header_prefix :: "bytes \<Rightarrow> bool option" where
  "is_proxy_header_prefix data =
     (let v1 = prefix_matches data v1_prefix; v2 = prefix_matches data v2_signature
      in if \<not> v1 \<and> \<not> v2 then Some False
         else if (v1 \<and> length data \<ge> length v1_prefix) \<or> (v2 \<and> length data \<ge> length v2_signature) then Some True
         else None)"

fun find_crlf :: "bytes \<Rightarrow> nat option" where
  "find_crlf (a # b # rest) =
     (if a = CHR 0x0D \<and> b = CHR 0x0A then Some 0 else map_option Suc (find_crlf (b # rest)))"
| "find_crlf _ = None"

definition parse_v1_line :: "string \<Rightarrow> proxy_connection option option" where
  "parse_v1_line line =
     (if line = ''PROXY UNKNOWN'' \<or> starts_with ''PROXY UNKNOWN '' line then Some None
      else case split_on CHR '' '' line of
        [p, f, s, d, sp, dp] \<Rightarrow>
          if p \<noteq> ''PROXY'' then None
          else case (if f = ''TCP4'' then Some 4 else if f = ''TCP6'' then Some (6::nat) else None) of
                 None \<Rightarrow> None
               | Some family \<Rightarrow>
                   if is_ip s \<noteq> family \<or> is_ip d \<noteq> family then None
                   else case (port_number sp, port_number dp) of
                          (Some sn, Some dn) \<Rightarrow>
                            Some (Some \<lparr>pc_source_address = s, pc_source_port = sn,
                                        pc_destination_address = d, pc_destination_port = dn\<rparr>)
                        | _ \<Rightarrow> None
      | _ \<Rightarrow> None)"

definition parse_v1 :: "bytes \<Rightarrow> header_result" where
  "parse_v1 data =
     (case find_crlf data of
        None \<Rightarrow> if length data \<ge> 107 then Invalid else Incomplete
      | Some end_at \<Rightarrow>
          if end_at + 2 > 107 then Invalid
          else case parse_v1_line (take end_at data) of
                 None \<Rightarrow> Invalid
               | Some c \<Rightarrow> Header (end_at + 2) c)"

definition read_uint16_be :: "bytes \<Rightarrow> nat \<Rightarrow> nat" where
  "read_uint16_be data i = 256 * char_code (data ! i) + char_code (data ! (i + 1))"

text \<open>The lengths of the extensions after the address block fill the header exactly.\<close>

function tlvs_fit :: "bytes \<Rightarrow> nat \<Rightarrow> nat \<Rightarrow> bool" where
  "tlvs_fit data offset limit =
     (if offset \<ge> limit then offset = limit
      else offset + 3 \<le> limit \<and> tlvs_fit data (offset + 3 + read_uint16_be data (offset + 1)) limit)"
  by pat_completeness auto
termination
  by (relation "measure (\<lambda>(_, offset, limit). limit - offset)") auto

declare tlvs_fit.simps [simp del]

definition v2_address :: "bytes \<Rightarrow> nat \<Rightarrow> nat \<Rightarrow> string" where
  "v2_address data address_length offset =
     (if address_length = 4 then join ''.'' (map (\<lambda>c. nat_text (char_code c)) (take 4 (drop offset data)))
      else canonical_ipv6 (foldl (\<lambda>v c. push_bit 8 v OR char_code c) 0 (take 16 (drop offset data))))"

definition parse_v2_body :: "bytes \<Rightarrow> nat \<Rightarrow> header_result" where
  "parse_v2_body data len =
     (let total = 16 + len; family = char_code (data ! 13)
      in if family = 0 then Header total None
         else case (if family = 17 then Some 4 else if family = 33 then Some (16::nat) else None) of
                None \<Rightarrow> Invalid
              | Some al \<Rightarrow>
                  if len < al * 2 + 4 then Invalid
                  else if \<not> tlvs_fit data (16 + (al * 2 + 4)) total then Invalid
                  else Header total (Some
                    \<lparr>pc_source_address = v2_address data al 16,
                     pc_source_port = read_uint16_be data (16 + al * 2),
                     pc_destination_address = v2_address data al (16 + al),
                     pc_destination_port = read_uint16_be data (18 + al * 2)\<rparr>))"

definition parse_v2 :: "bytes \<Rightarrow> header_result" where
  "parse_v2 data =
     (if length data < 16 then Incomplete
      else if drop_bit 4 (char_code (data ! 12)) \<noteq> 2 then Invalid
      else let command = char_code (data ! 12) AND 15; len = read_uint16_be data 14
           in if command \<noteq> 0 \<and> command \<noteq> 1 then Invalid
              else if 16 + len > 4096 then Invalid
              else if length data < 16 + len then Incomplete
              else if command = 0 then Header (16 + len) None
              else parse_v2_body data len)"

definition parse_incoming_proxy_header :: "bytes \<Rightarrow> header_result" where
  "parse_incoming_proxy_header data =
     (if prefix_matches data v1_prefix then parse_v1 data
      else if \<not> prefix_matches data v2_signature then Invalid
      else parse_v2 data)"

section \<open>The ingress\<close>

text \<open>A client socket: its addresses as the kernel reports them.\<close>

record client_socket =
  cs_remote_address :: string
  cs_remote_port :: nat
  cs_local_address :: string
  cs_local_port :: nat

record ingress_options =
  io_trusted :: "parsed_cidr list"
  io_allow_direct :: bool

definition direct_connection :: "client_socket \<Rightarrow> proxy_connection" where
  "direct_connection c =
     \<lparr>pc_source_address = normalize_proxy_address (cs_remote_address c), pc_source_port = cs_remote_port c,
      pc_destination_address = normalize_proxy_address (cs_local_address c), pc_destination_port = cs_local_port c\<rparr>"

text \<open>
  What has become of a client: still reading its header, bridged to the backend with a connection and
  the bytes forwarded so far, still inspected because it came without a trusted proxy, or destroyed.
  The flag of \<open>Bridged\<close> is \<open>proxyProtocol\<close>.
\<close>

datatype client_state =
    Reading bytes
  | Inspecting bytes
  | Bridged bool proxy_connection bytes
  | Destroyed

definition accept_client :: "ingress_options \<Rightarrow> client_socket \<Rightarrow> client_state" where
  "accept_client opts c =
     (if \<not> is_trusted_proxy (cs_remote_address c) (io_trusted opts)
      then if io_allow_direct opts then Inspecting [] else Destroyed
      else Reading [])"

definition receive_header :: "ingress_options \<Rightarrow> client_socket \<Rightarrow> bytes \<Rightarrow> client_state" where
  "receive_header opts c buffered =
     (if io_allow_direct opts \<and> is_proxy_header_prefix buffered = Some False
      then Bridged False (direct_connection c) buffered
      else case parse_incoming_proxy_header buffered of
             Incomplete \<Rightarrow> Reading buffered
           | Invalid \<Rightarrow> Destroyed
           | Header n conn \<Rightarrow>
               Bridged True (case_option (direct_connection c) id conn) (drop n buffered))"

definition inspect_direct :: "client_socket \<Rightarrow> bytes \<Rightarrow> client_state" where
  "inspect_direct c buffered =
     (case is_proxy_header_prefix buffered of
        Some True \<Rightarrow> Destroyed
      | None \<Rightarrow> Inspecting buffered
      | Some False \<Rightarrow> Bridged False (direct_connection c) buffered)"

definition client_data :: "ingress_options \<Rightarrow> client_socket \<Rightarrow> bytes \<Rightarrow> client_state \<Rightarrow> client_state" where
  "client_data opts c chunk st =
     (case st of
        Reading buffered \<Rightarrow> receive_header opts c (buffered @ chunk)
      | Inspecting buffered \<Rightarrow> inspect_direct c (buffered @ chunk)
      | Bridged proxied conn sent \<Rightarrow> Bridged proxied conn (sent @ chunk)
      | Destroyed \<Rightarrow> Destroyed)"

definition client_run :: "ingress_options \<Rightarrow> client_socket \<Rightarrow> bytes list \<Rightarrow> client_state" where
  "client_run opts c chunks = fold (client_data opts c) chunks (accept_client opts c)"

section \<open>Reading does not depend on segmentation\<close>

lemma prefix_matches_iff: "prefix_matches d p \<longleftrightarrow> prefix d p \<or> prefix p d"
proof (cases "length d \<le> length p")
  case True
  then have "prefix_matches d p \<longleftrightarrow> d = take (length d) p" by (simp add: prefix_matches_def min_def)
  also have "\<dots> \<longleftrightarrow> prefix d p" by (metis prefix_def append_eq_conv_conj append_take_drop_id)
  finally show ?thesis using True by (auto simp: prefix_def)
next
  case False
  then have "prefix_matches d p \<longleftrightarrow> take (length p) d = p" by (simp add: prefix_matches_def min_def)
  also have "\<dots> \<longleftrightarrow> prefix p d" by (metis prefix_def append_eq_conv_conj append_take_drop_id)
  finally show ?thesis using False by (metis prefix_length_le)
qed

lemma prefix_matches_shrink: "prefix_matches (d @ m) p \<Longrightarrow> prefix_matches d p"
  by (auto simp: prefix_matches_iff prefix_append dest: append_prefixD)

lemma prefix_matches_long: "length p \<le> length d \<Longrightarrow> prefix_matches (d @ m) p \<longleftrightarrow> prefix_matches d p"
  by (simp add: prefix_matches_def min_def)

lemma find_crlf_bound: "find_crlf d = Some e \<Longrightarrow> e + 2 \<le> length d"
  by (induction d arbitrary: e rule: find_crlf.induct) (auto split: if_splits)

lemma find_crlf_append: "find_crlf d = Some e \<Longrightarrow> find_crlf (d @ m) = Some e"
  by (induction d arbitrary: e rule: find_crlf.induct) (auto split: if_splits)

lemma find_crlf_late: "find_crlf d = None \<Longrightarrow> find_crlf (d @ m) = Some e \<Longrightarrow> length d \<le> e + 1"
proof (induction d arbitrary: e rule: find_crlf.induct)
  case (1 a b rest)
  then show ?case by (auto split: if_splits)
qed auto

lemma v1_short: "prefix d v1_prefix \<Longrightarrow> find_crlf d = None \<and> length d \<le> 6"
proof -
  assume p: "prefix d v1_prefix"
  then have len: "length d \<le> 6" using prefix_length_le [OF p] by (simp add: v1_prefix_def)
  have "find_crlf v1_prefix = None" by (simp add: v1_prefix_def)
  moreover from p obtain m where "v1_prefix = d @ m" by (auto simp: prefix_def)
  ultimately show ?thesis using len find_crlf_append by (metis not_Some_eq)
qed

lemma parse_v1_stable:
  assumes "parse_v1 d \<noteq> Incomplete"
  shows "parse_v1 (d @ m) = parse_v1 d"
proof (cases "find_crlf d")
  case (Some e)
  with find_crlf_bound [OF Some] show ?thesis by (simp add: parse_v1_def find_crlf_append)
next
  case None
  with assms have len: "107 \<le> length d" by (auto simp: parse_v1_def split: if_splits)
  show ?thesis
  proof (cases "find_crlf (d @ m)")
    case (Some e)
    with find_crlf_late [OF None Some] len None show ?thesis by (simp add: parse_v1_def)
  qed (use None len in \<open>simp add: parse_v1_def\<close>)
qed

lemma parse_v1_matches:
  assumes "prefix_matches d v1_prefix" and "parse_v1 d \<noteq> Incomplete"
  shows "prefix_matches (d @ m) v1_prefix"
proof -
  have "\<not> (length d < 6)"
  proof
    assume "length d < 6"
    then have "prefix d v1_prefix" using assms(1) prefix_length_le
      by (fastforce simp: prefix_matches_iff v1_prefix_def)
    with v1_short assms(2) show False by (fastforce simp: parse_v1_def)
  qed
  then show ?thesis using assms(1) by (simp add: prefix_matches_long v1_prefix_def)
qed

lemma read_uint16_append: "i + 1 < length d \<Longrightarrow> read_uint16_be (d @ m) i = read_uint16_be d i"
  by (simp add: read_uint16_be_def nth_append)

lemma tlvs_fit_append: "limit \<le> length d \<Longrightarrow> tlvs_fit (d @ m) i limit = tlvs_fit d i limit"
proof (induction d i limit rule: tlvs_fit.induct)
  case (1 d i limit)
  show ?case
  proof (cases "limit \<le> i \<or> \<not> i + 3 \<le> limit")
    case True
    then show ?thesis by (auto simp: tlvs_fit.simps [of _ i])
  next
    case False
    with 1 have "read_uint16_be (d @ m) (i + 1) = read_uint16_be d (i + 1)" by (intro read_uint16_append) auto
    with 1 False show ?thesis by (simp add: tlvs_fit.simps [of _ i])
  qed
qed

lemma v2_address_append: "al \<in> {4, 16} \<Longrightarrow> i + al \<le> length d \<Longrightarrow> v2_address (d @ m) al i = v2_address d al i"
  by (auto simp: v2_address_def)

lemma parse_v2_body_append:
  assumes "16 + len \<le> length d"
  shows "parse_v2_body (d @ m) len = parse_v2_body d len"
proof -
  have f: "(d @ m) ! 13 = d ! 13" using assms by (simp add: nth_append)
  show ?thesis
  proof (cases "char_code (d ! 13) = 17 \<and> 12 \<le> len")
    case True
    with assms show ?thesis
      by (simp add: parse_v2_body_def f tlvs_fit_append v2_address_append read_uint16_append Let_def)
  next
    case n4: False
    show ?thesis
    proof (cases "char_code (d ! 13) = 33 \<and> 36 \<le> len")
      case True
      with assms show ?thesis
        by (simp add: parse_v2_body_def f tlvs_fit_append v2_address_append read_uint16_append Let_def)
    qed (use n4 in \<open>auto simp: parse_v2_body_def f Let_def\<close>)
  qed
qed

lemma parse_v2_stable:
  assumes "parse_v2 d \<noteq> Incomplete"
  shows "parse_v2 (d @ m) = parse_v2 d"
proof -
  have len: "16 \<le> length d" using assms by (auto simp: parse_v2_def split: if_splits)
  then have r: "(d @ m) ! 12 = d ! 12" "read_uint16_be (d @ m) 14 = read_uint16_be d 14"
    by (simp_all add: nth_append read_uint16_append)
  show ?thesis using assms len
    by (auto simp: parse_v2_def r Let_def parse_v2_body_append split: if_splits)
qed

lemma parse_stable:
  assumes "parse_incoming_proxy_header d \<noteq> Incomplete"
  shows "parse_incoming_proxy_header (d @ m) = parse_incoming_proxy_header d"
proof (cases "prefix_matches d v1_prefix")
  case True
  with assms have "parse_v1 d \<noteq> Incomplete" by (simp add: parse_incoming_proxy_header_def)
  with True parse_v1_matches parse_v1_stable show ?thesis by (simp add: parse_incoming_proxy_header_def)
next
  case False
  then have n1: "\<not> prefix_matches (d @ m) v1_prefix" using prefix_matches_shrink by blast
  show ?thesis
  proof (cases "prefix_matches d v2_signature")
    case True
    with assms False have ne: "parse_v2 d \<noteq> Incomplete" by (simp add: parse_incoming_proxy_header_def)
    then have "16 \<le> length d" by (auto simp: parse_v2_def split: if_splits)
    then have "prefix_matches (d @ m) v2_signature" using True by (simp add: prefix_matches_long v2_signature_def)
    with True False n1 parse_v2_stable [OF ne] show ?thesis by (simp add: parse_incoming_proxy_header_def)
  next
    case no2: False
    then have "\<not> prefix_matches (d @ m) v2_signature" using prefix_matches_shrink by blast
    with False n1 no2 show ?thesis by (simp add: parse_incoming_proxy_header_def)
  qed
qed

lemma header_prefix_stable:
  assumes "is_proxy_header_prefix d = Some b"
  shows "is_proxy_header_prefix (d @ m) = Some b"
proof (cases b)
  case True
  with assms have "prefix_matches d v1_prefix \<and> length v1_prefix \<le> length d
      \<or> prefix_matches d v2_signature \<and> length v2_signature \<le> length d"
    by (auto simp: is_proxy_header_prefix_def Let_def split: if_splits)
  then show ?thesis using True
    by (auto simp: is_proxy_header_prefix_def Let_def prefix_matches_long)
next
  case False
  with assms have "\<not> prefix_matches d v1_prefix" "\<not> prefix_matches d v2_signature"
    by (auto simp: is_proxy_header_prefix_def Let_def split: if_splits)
  then have "\<not> prefix_matches (d @ m) v1_prefix" "\<not> prefix_matches (d @ m) v2_signature"
    using prefix_matches_shrink by blast+
  with False show ?thesis by (simp add: is_proxy_header_prefix_def)
qed

lemma undecided_incomplete:
  assumes "is_proxy_header_prefix d = None"
  shows "parse_incoming_proxy_header d = Incomplete"
proof (cases "prefix_matches d v1_prefix")
  case True
  with assms have "length d < 6" by (auto simp: is_proxy_header_prefix_def v1_prefix_def Let_def split: if_splits)
  moreover from this True have "prefix d v1_prefix"
    using prefix_length_le by (fastforce simp: prefix_matches_iff v1_prefix_def)
  ultimately show ?thesis using True v1_short [of d] by (simp add: parse_incoming_proxy_header_def parse_v1_def)
next
  case False
  with assms have "prefix_matches d v2_signature" "length d < 12"
    by (auto simp: is_proxy_header_prefix_def v2_signature_def Let_def split: if_splits)
  with False show ?thesis by (simp add: parse_incoming_proxy_header_def parse_v2_def)
qed

lemma header_bytes_bound: "parse_incoming_proxy_header d = Header n c \<Longrightarrow> n \<le> length d"
  using find_crlf_bound
  by (fastforce simp: parse_incoming_proxy_header_def parse_v1_def parse_v2_def parse_v2_body_def Let_def
      split: if_splits option.splits)

lemma receive_header_split:
  "client_data opts c m (receive_header opts c d) = receive_header opts c (d @ m)"
proof (cases "io_allow_direct opts \<and> is_proxy_header_prefix d = Some False")
  case True
  then show ?thesis by (simp add: receive_header_def client_data_def header_prefix_stable)
next
  case False
  show ?thesis
  proof (cases "parse_incoming_proxy_header d")
    case Incomplete
    with False show ?thesis by (auto simp: receive_header_def client_data_def)
  next
    case Invalid
    then have "io_allow_direct opts \<Longrightarrow> is_proxy_header_prefix (d @ m) = Some True"
      using False header_prefix_stable undecided_incomplete [of d]
      by (cases "is_proxy_header_prefix d") auto
    with False Invalid parse_stable [of d m] show ?thesis by (auto simp: receive_header_def client_data_def)
  next
    case (Header n cn)
    then have "io_allow_direct opts \<Longrightarrow> is_proxy_header_prefix (d @ m) = Some True"
      using False header_prefix_stable undecided_incomplete [of d]
      by (cases "is_proxy_header_prefix d") auto
    with False Header parse_stable [of d m] header_bytes_bound [OF Header]
    show ?thesis by (auto simp: receive_header_def client_data_def)
  qed
qed

lemma inspect_direct_split: "client_data opts c m (inspect_direct c d) = inspect_direct c (d @ m)"
  by (cases "is_proxy_header_prefix d")
     (auto simp: inspect_direct_def client_data_def header_prefix_stable split: bool.splits)

lemma client_data_split: "client_data opts c m (client_data opts c k st) = client_data opts c (k @ m) st"
  by (cases st) (simp_all add: client_data_def [of opts c k] client_data_def [of opts c "k @ m"]
      receive_header_split inspect_direct_split, simp_all add: client_data_def)

lemma client_data_all: "ks \<noteq> [] \<Longrightarrow> fold (client_data opts c) ks st = client_data opts c (concat ks) st"
proof (induction ks arbitrary: st rule: list_nonempty_induct)
  case (cons k ks)
  then show ?case by (simp add: client_data_split)
qed simp

lemma client_data_empty: "client_data opts c [] (accept_client opts c) = accept_client opts c"
  by (simp add: accept_client_def client_data_def receive_header_def inspect_direct_def
      parse_incoming_proxy_header_def is_proxy_header_prefix_def prefix_matches_def parse_v1_def
      v1_prefix_def v2_signature_def)

lemma client_run_concat: "client_run opts c chunks = client_run opts c [concat chunks]"
  by (cases "chunks = []") (simp_all add: client_run_def client_data_all client_data_empty)

text \<open>
  What becomes of a client does not depend on how the network cuts its bytes into
  chunks: any sequence of chunks leads to the state that one chunk with all the bytes leads to, header
  and forwarded bytes included.
\<close>

theorem segmentation_irrelevant:
  "client_run opts c chunks = client_run opts c [concat chunks]"
  by (rule client_run_concat)

text \<open>
  C16: a client that is not a trusted proxy cannot choose its address. Whatever it sends, in whatever
  chunks, it is bridged only as the connection its own socket reports, never marked as proxied, only
  when direct connections are allowed, with all its bytes forwarded, and only when those bytes do not
  start with a PROXY header.
\<close>

theorem untrusted_client_cannot_spoof:
  assumes "\<not> is_trusted_proxy (cs_remote_address c) (io_trusted opts)"
    and "client_run opts c chunks = Bridged proxied conn sent"
  shows "\<not> proxied \<and> conn = direct_connection c \<and> io_allow_direct opts \<and> sent = concat chunks
    \<and> is_proxy_header_prefix sent = Some False"
proof -
  have "client_run opts c [concat chunks] = Bridged proxied conn sent"
    using assms(2) client_run_concat by metis
  then show ?thesis using assms(1)
    by (auto simp: client_run_def accept_client_def client_data_def inspect_direct_def split: if_splits option.splits bool.splits)
qed

section \<open>Canonical IPv6 text\<close>

text \<open>No two adjacent separators and none at the end.\<close>

fun dd_free :: "char \<Rightarrow> string \<Rightarrow> bool" where
  "dd_free d [] = True"
| "dd_free d [c] = (c \<noteq> d)"
| "dd_free d (c # c' # cs) = (\<not> (c = d \<and> c' = d) \<and> dd_free d (c' # cs))"

lemma split_on2_dd_free: "dd_free d s \<Longrightarrow> split_on2 d d s = [s]"
  by (induction d s rule: dd_free.induct) auto

lemma split_on2_first: "dd_free d s \<Longrightarrow> split_on2 d d (s @ d # d # r) = s # split_on2 d d r"
  by (induction d s rule: dd_free.induct) auto

lemma dd_free_clean: "d \<notin> set w \<Longrightarrow> dd_free d w"
  by (induction d w rule: dd_free.induct) auto

lemma dd_free_cons: "d \<notin> set w \<Longrightarrow> w \<noteq> [] \<Longrightarrow> dd_free d r \<Longrightarrow> r \<noteq> [] \<Longrightarrow> hd r \<noteq> d \<Longrightarrow> dd_free d (w @ d # r)"
proof (induction d w rule: dd_free.induct)
  case (2 d c)
  then show ?case by (cases r) auto
qed auto

definition clean_words :: "char \<Rightarrow> string list \<Rightarrow> bool" where
  "clean_words d ws \<longleftrightarrow> (\<forall>w \<in> set ws. w \<noteq> [] \<and> d \<notin> set w)"

lemma join_first: "clean_words d ws \<Longrightarrow> ws \<noteq> [] \<Longrightarrow> join [d] ws \<noteq> [] \<and> hd (join [d] ws) \<noteq> d"
  by (cases ws rule: remdups_adj.cases) (auto simp: clean_words_def hd_append)

lemma dd_free_join: "clean_words d ws \<Longrightarrow> dd_free d (join [d] ws)"
proof (induction "[d]" ws rule: join.induct)
  case (2 w)
  then show ?case by (simp add: dd_free_clean clean_words_def)
next
  case (3 w v vs)
  then have "clean_words d (v # vs)" by (simp add: clean_words_def)
  with 3 join_first [of d "v # vs"] show ?case
    by (simp add: dd_free_cons clean_words_def del: join.simps) (simp add: dd_free_cons)
qed simp

lemma colon_parts_join: "clean_words CHR '':'' ws \<Longrightarrow> colon_parts (join '':'' ws) = ws"
  using join_first [of "CHR '':''" ws] split_on_join [of ws "CHR '':''"]
  by (cases "ws = []") (auto simp: colon_parts_def clean_words_def)

lemma to_base_chars: "2 \<le> b \<Longrightarrow> set (to_base b n) \<subseteq> digit_char ` {..<b}"
proof (induction b n rule: to_base.induct)
  case (1 b n)
  then show ?case by (subst to_base.simps) auto
qed

definition hex_char :: "char \<Rightarrow> bool" where
  "hex_char c \<longleftrightarrow> c \<in> set ''0123456789abcdef''"

lemma hex_text_char: "c \<in> set (hex_text n) \<Longrightarrow> hex_char c"
proof -
  assume "c \<in> set (hex_text n)"
  then obtain k where "k < 16" "c = digit_char k" using to_base_chars [of 16 n] by (auto simp: hex_text_def)
  then have "k \<in> set [0..<16]" "c = digit_char k" by auto
  moreover have "\<forall>k \<in> set [0..<16]. hex_char (digit_char k)" by code_simp
  ultimately show ?thesis by blast
qed

lemma hex_char_props:
  assumes "hex_char c"
  shows "c \<noteq> CHR '':''" "c \<noteq> CHR ''%''" "c \<noteq> CHR ''.''" "c \<noteq> CHR '' ''" "lower_char c = c"
proof -
  have "\<forall>c \<in> set ''0123456789abcdef''. c \<noteq> CHR '':'' \<and> c \<noteq> CHR ''%'' \<and> c \<noteq> CHR ''.'' \<and> c \<noteq> CHR '' '' \<and> lower_char c = c"
    by code_simp
  with assms show "c \<noteq> CHR '':''" "c \<noteq> CHR ''%''" "c \<noteq> CHR ''.''" "c \<noteq> CHR '' ''" "lower_char c = c"
    unfolding hex_char_def by blast+
qed

lemma hex_words_clean: "clean_words CHR '':'' (map hex_text gs)"
  using hex_text_char hex_char_props(1) by (fastforce simp: clean_words_def hex_text_def)

lemma hex_group_hex_text: "g < 65536 \<Longrightarrow> hex_group (hex_text g)"
  using to_base_digits [of 16 _ g] length_to_base [of 16 4 g]
  by (simp add: hex_group_def hex_text_def list_all_iff)

lemma ipv6_loop_hex:
  "\<forall>g \<in> set gs. g < 65536 \<Longrightarrow> ipv6_loop r (map hex_text gs) = Some (foldl (\<lambda>r g. r * 65536 + g) r gs)"
proof (induction gs arbitrary: r)
  case (Cons g gs)
  have "push_bit 16 r OR g = r * 65536 + g" using Cons.prems or_push_bit [of g 16 r] by simp
  moreover have "digits_value 16 (hex_text g) = g" by (simp add: hex_text_def digits_value_to_base)
  ultimately show ?case using Cons hex_group_hex_text [of g] by simp
qed simp

lemma v6_groups_hex: "\<forall>g \<in> set gs. g < 65536 \<Longrightarrow> v6_groups (map hex_text gs) = Some (length gs)"
proof (induction "map hex_text gs" arbitrary: gs rule: v6_groups.induct)
  case (2 w)
  then show ?case by (cases gs) (auto simp: hex_group_hex_text)
next
  case (3 w v vs)
  then obtain g g' gs' where gs: "gs = g # g' # gs'" by (cases gs rule: remdups_adj.cases) auto
  with 3(1) [of "g' # gs'"] 3(2,3) show ?case by (simp add: hex_group_hex_text)
qed simp

lemma ipv6_groups_range: "g \<in> set (ipv6_groups v) \<Longrightarrow> g < 65536"
  by (auto simp: ipv6_groups_def and_65535)

lemma length_ipv6_groups [simp]: "length (ipv6_groups v) = 8"
  by (simp add: ipv6_groups_def)

fun groups_of :: "nat \<Rightarrow> nat \<Rightarrow> nat list" where
  "groups_of 0 v = []"
| "groups_of (Suc n) v = groups_of n (v div 65536) @ [v mod 65536]"

lemma groups_of_value: "foldl (\<lambda>r g. r * 65536 + g) 0 (groups_of n v) = v mod 65536 ^ n"
proof (induction n arbitrary: v)
  case (Suc n)
  then show ?case using mod_mult2_eq [of v 65536 "65536 ^ n"] by simp
qed simp

lemma groups_of_eq: "groups_of n v = map (\<lambda>i. v div 65536 ^ i mod 65536) (rev [0..<n])"
proof (induction n arbitrary: v)
  case (Suc n)
  have "rev [0..<Suc n] = map Suc (rev [0..<n]) @ [0]"
    by (simp add: upt_conv_Cons map_Suc_upt [symmetric] rev_map del: upt_Suc)
  then show ?case by (simp add: Suc div_mult2_eq del: upt_Suc)
qed simp

lemma ipv6_groups_value: "v < 2 ^ 128 \<Longrightarrow> foldl (\<lambda>r g. r * 65536 + g) 0 (ipv6_groups v) = v"
proof -
  assume v: "v < 2 ^ 128"
  have "ipv6_groups v = groups_of 8 v"
    by (simp add: ipv6_groups_def shift_nat groups_of_eq upt_rec [of _ 8] upt_rec)
  then show ?thesis using v groups_of_value [of 8 v] by simp
qed

definition zero_block :: "nat list \<Rightarrow> nat \<times> nat \<Rightarrow> bool" where
  "zero_block xs b \<longleftrightarrow> fst b + snd b \<le> length xs \<and> take (snd b) (drop (fst b) xs) = replicate (snd b) 0"

lemma zero_run_block:
  "zero_block (pre @ gs) best \<Longrightarrow> i = length pre \<Longrightarrow> zero_block (pre @ gs) (zero_run gs i best)"
proof (induction gs i best arbitrary: pre rule: zero_run.induct)
  case (2 g gs i best)
  show ?case
  proof (cases "g = 0")
    case False
    with 2(1) [of "pre @ [g]"] 2(3,4) show ?thesis by simp
  next
    case True
    define z where "z = takeWhile (\<lambda>x. x = 0) gs"
    define r where "r = dropWhile (\<lambda>x. x = 0) gs"
    have gs: "gs = z @ r" by (simp add: z_def r_def)
    have z: "z = replicate (length z) 0" unfolding z_def
      by (metis (mono_tags) replicate_length_same set_takeWhileD)
    have "zero_block (pre @ g # gs) (i, 1 + length z)"
      using True 2(4) by (simp add: zero_block_def gs) (metis z)
    then have "zero_block ((pre @ g # z) @ r) (if 1 + length z > snd best then (i, 1 + length z) else best)"
      using 2(3) by (simp add: gs)
    then have "zero_block ((pre @ g # z) @ r) (zero_run r (i + (1 + length z))
        (if 1 + length z > snd best then (i, 1 + length z) else best))"
      using 2(2) [of "1 + length z" "pre @ g # z"] True 2(4) by (simp add: z_def r_def)
    moreover have "zero_run (g # gs) i best = zero_run r (i + (1 + length z))
        (if 1 + length z > snd best then (i, 1 + length z) else best)"
      using True by (simp add: z_def r_def Let_def)
    moreover have "pre @ g # gs = (pre @ g # z) @ r" by (simp add: gs)
    ultimately show ?thesis by metis
  qed
qed simp

text \<open>The canonical text with the groups it leaves out: \<open>left :: right\<close>, or all of them.\<close>

lemma canonical_ipv6_cases:
  obtains (full) "canonical_ipv6 v = join '':'' (map hex_text (ipv6_groups v))"
  | (short) left k right where "2 \<le> k" and "ipv6_groups v = left @ replicate k 0 @ right"
      and "canonical_ipv6 v = join '':'' (map hex_text left) @ ''::'' @ join '':'' (map hex_text right)"
proof -
  obtain st len where r: "zero_run (ipv6_groups v) 0 (0, 0) = (st, len)" by fastforce
  show thesis
  proof (cases "len < 2")
    case True
    with r full show ?thesis by (simp add: canonical_ipv6_def)
  next
    case False
    have "zero_block ([] @ ipv6_groups v) (zero_run (ipv6_groups v) 0 (0, 0))"
      by (rule zero_run_block) (simp_all add: zero_block_def)
    with r have b: "take len (drop st (ipv6_groups v)) = replicate len 0" by (simp add: zero_block_def)
    have "ipv6_groups v = take st (ipv6_groups v) @ replicate len 0 @ drop (st + len) (ipv6_groups v)"
      using b by (metis append_take_drop_id drop_drop add.commute)
    moreover have "canonical_ipv6 v = join '':'' (map hex_text (take st (ipv6_groups v))) @ ''::''
        @ join '':'' (map hex_text (drop (st + len) (ipv6_groups v)))"
      using False r by (simp add: canonical_ipv6_def Let_def)
    ultimately show ?thesis using False short [of len] by (metis not_less)
  qed
qed

lemma join_chars: "c \<in> set (join '':'' ws) \<Longrightarrow> c = CHR '':'' \<or> (\<exists>w \<in> set ws. c \<in> set w)"
  by (induction "'':''" ws rule: join.induct) auto

lemma canonical_ipv6_char: "c \<in> set (canonical_ipv6 v) \<Longrightarrow> hex_char c \<or> c = CHR '':''"
  by (cases v rule: canonical_ipv6_cases) (auto dest!: join_chars hex_text_char)

lemma canonical_ipv6_plain:
  "CHR ''%'' \<notin> set (canonical_ipv6 v)" "CHR ''.'' \<notin> set (canonical_ipv6 v)" "CHR '' '' \<notin> set (canonical_ipv6 v)"
  "to_lower (canonical_ipv6 v) = canonical_ipv6 v"
proof -
  show "CHR ''%'' \<notin> set (canonical_ipv6 v)" "CHR ''.'' \<notin> set (canonical_ipv6 v)" "CHR '' '' \<notin> set (canonical_ipv6 v)"
    using canonical_ipv6_char hex_char_props by fastforce+
  have "lower_char CHR '':'' = CHR '':''" by code_simp
  then have "lower_char c = c" if "c \<in> set (canonical_ipv6 v)" for c
    using canonical_ipv6_char [OF that] hex_char_props(5) by auto
  then show "to_lower (canonical_ipv6 v) = canonical_ipv6 v" by (simp add: to_lower_def map_idI)
qed

lemma drop_zone_clean: "CHR ''%'' \<notin> set s \<Longrightarrow> drop_zone s = s \<and> zone_ok s"
proof -
  assume "CHR ''%'' \<notin> set s"
  then have "takeWhile (\<lambda>c. c \<noteq> CHR ''%'') s = s" "dropWhile (\<lambda>c. c \<noteq> CHR ''%'') s = []"
    by (auto simp: takeWhile_eq_all_conv dropWhile_eq_Nil_conv)
  then show ?thesis by (simp only: drop_zone_def zone_ok_def list.case simp_thms)
qed

lemma canonical_has_colon: "CHR '':'' \<in> set (canonical_ipv6 v)"
proof (cases v rule: canonical_ipv6_cases)
  case full
  obtain a b gs where "ipv6_groups v = a # b # gs" by (simp add: ipv6_groups_def)
  with full show ?thesis by (cases gs) auto
qed simp

lemma canonical_not_ipv4: "\<not> is_ipv4 (canonical_ipv6 v)"
  using canonical_has_colon [of v] is_ipv4_chars [of "canonical_ipv6 v" "CHR '':''"] by (auto simp: is_digit_def)

lemma canonical_is_ipv6_body: "is_ipv6_body (canonical_ipv6 v)"
proof (cases v rule: canonical_ipv6_cases)
  case full
  have "split_on CHR '':'' (join '':'' (map hex_text (ipv6_groups v))) = map hex_text (ipv6_groups v)"
    using hex_words_clean [of "ipv6_groups v"]
    by (intro split_on_join) (auto simp: clean_words_def ipv6_groups_def)
  with full show ?thesis using v6_groups_hex [of "ipv6_groups v"] ipv6_groups_range
    by (simp add: is_ipv6_body_def split_on2_dd_free dd_free_join hex_words_clean)
next
  case (short left k right)
  have g: "\<forall>g \<in> set left \<union> set right. g < 65536" using ipv6_groups_range [of _ v] short(2) by auto
  have "length left + k + length right = 8" using arg_cong [OF short(2), of length] by simp
  with g short show ?thesis using v6_groups_hex [of right]
    by (simp add: is_ipv6_body_def split_on2_first split_on2_dd_free dd_free_join hex_words_clean
        colon_parts_join hex_group_hex_text list_all_iff)
qed

lemma parse_canonical_groups: "parse_ipv6 (canonical_ipv6 v) = ipv6_loop 0 (map hex_text (ipv6_groups v))"
proof (cases v rule: canonical_ipv6_cases)
  case full
  have "parse_ipv6 (canonical_ipv6 v) = (let halves = split_on2 CHR '':'' CHR '':'' (canonical_ipv6 v) in
      ipv6_loop 0 (colon_parts (halves ! 0)))" if "split_on2 CHR '':'' CHR '':'' (canonical_ipv6 v) = [canonical_ipv6 v]"
    and "length (colon_parts (canonical_ipv6 v)) = 8"
    using that canonical_ipv6_plain [of v]
    by (simp add: parse_ipv6_def expand_quad_def drop_zone_clean)
  with full show ?thesis
    by (simp add: split_on2_dd_free dd_free_join hex_words_clean colon_parts_join)
next
  case (short left k right)
  have n: "length left + k + length right = 8" using arg_cong [OF short(2), of length] by simp
  have h: "split_on2 CHR '':'' CHR '':'' (canonical_ipv6 v)
      = [join '':'' (map hex_text left), join '':'' (map hex_text right)]"
    using short(3) by (simp add: split_on2_first split_on2_dd_free dd_free_join hex_words_clean)
  have z: "hex_text 0 = ''0''" by code_simp
  have "parse_ipv6 (canonical_ipv6 v) = ipv6_loop 0 (map hex_text left @ replicate (8 - (length left + length right)) ''0'' @ map hex_text right)"
    using canonical_ipv6_plain [of v] n short(1)
    by (simp add: parse_ipv6_def expand_quad_def drop_zone_clean h colon_parts_join hex_words_clean)
  moreover have "8 - (length left + length right) = k" using n by simp
  ultimately show ?thesis by (simp add: short(2) z)
qed

lemma parse_ip_canonical:
  assumes "v < 2 ^ 128"
  shows "parse_ip (canonical_ipv6 v) = Some \<lparr>ip_version = V6, ip_value = v, ip_bits = 128\<rparr>"
proof -
  have "is_ip (canonical_ipv6 v) = 6"
    using canonical_is_ipv6_body [of v] canonical_not_ipv4 [of v] drop_zone_clean [OF canonical_ipv6_plain(1)]
    by (simp add: is_ip_def is_ipv6_def)
  moreover have "parse_ipv6 (canonical_ipv6 v) = Some v"
    using ipv6_groups_range ipv6_groups_value [OF assms] by (simp add: parse_canonical_groups ipv6_loop_hex)
  ultimately show ?thesis by (simp add: parse_ip_def)
qed

section \<open>Round trips\<close>

lemma code_byte_of: "char_code (byte_of n) = n mod 256"
  by (simp add: byte_of_def)

lemma code_byte_of_and: "char_code (byte_of (n AND 255)) = n mod 256"
  by (simp add: code_byte_of and_255)

lemma length_address_bytes [simp]: "length (address_bytes v n) = n"
  by (induction n arbitrary: v) simp_all

lemma address_bytes_value:
  "foldl (\<lambda>v c. push_bit 8 v OR char_code c) 0 (address_bytes v n) = v mod 256 ^ n"
proof (induction n arbitrary: v)
  case (Suc n)
  have "push_bit 8 r OR (v mod 256) = r * 256 + v mod 256" for r :: nat
    using or_push_bit [of "v mod 256" 8 r] by simp
  then show ?case using mod_mult2_eq [of v 256 "256 ^ n"]
    by (simp add: Suc code_byte_of_and drop_bit_eq_div)
qed simp

lemma address_bytes_quad: "join ''.'' (map (\<lambda>c. nat_text (char_code c)) (address_bytes v 4)) = ipv4_text v"
proof -
  have "address_bytes v 4 = map (\<lambda>s. byte_of (drop_bit s v AND 255)) [24, 16, 8, 0]"
    by (simp add: numeral_eq_Suc drop_bit_drop_bit)
  then show ?thesis by (simp add: ipv4_text_def code_byte_of and_255)
qed

lemma read_uint16_text: "n < 65536 \<Longrightarrow> length pre = i \<Longrightarrow> read_uint16_be (pre @ uint16_be n @ post) i = n"
proof -
  assume n: "n < 65536" and i: "length pre = i"
  have "n div 256 < 256" using n by simp
  then show ?thesis using i
    by (simp add: read_uint16_be_def uint16_be_def nth_append code_byte_of shift_nat)
qed

lemma length_uint16_be [simp]: "length (uint16_be n) = 2"
  by (simp add: uint16_be_def)

lemma length_v2_signature [simp]: "length v2_signature = 12"
  by (simp add: v2_signature_def)

lemma tlvs_fit_refl: "tlvs_fit data i i"
  by (simp add: tlvs_fit.simps)

text \<open>The header of version 2, field by field.\<close>

definition v2_fields :: "bytes \<Rightarrow> nat \<Rightarrow> nat \<Rightarrow> nat \<Rightarrow> nat \<Rightarrow> nat \<Rightarrow> nat \<Rightarrow> bool" where
  "v2_fields h al fam src dst sp dp \<longleftrightarrow> length h = 20 + 2 * al \<and> prefix v2_signature h \<and> h ! 12 = byte_of 33
     \<and> h ! 13 = byte_of fam \<and> read_uint16_be h 14 = 2 * al + 4
     \<and> take al (drop 16 h) = address_bytes src al \<and> take al (drop (16 + al) h) = address_bytes dst al
     \<and> read_uint16_be h (16 + al * 2) = sp \<and> read_uint16_be h (18 + al * 2) = dp"

lemma v2_header_fields:
  assumes "al < 1000" and "sp < 65536" and "dp < 65536"
  shows "v2_fields (v2_header al fam src dst sp dp) al fam src dst sp dp"
proof -
  define A where "A = v2_signature @ [byte_of 33, byte_of fam]"
  define S where "S = address_bytes src al"
  define D where "D = address_bytes dst al"
  have "length (S @ D @ uint16_be sp @ uint16_be dp) = 2 * al + 4" by (simp add: S_def D_def)
  then have h: "v2_header al fam src dst sp dp = A @ uint16_be (2 * al + 4) @ S @ D @ uint16_be sp @ uint16_be dp"
    by (simp only: v2_header_def Let_def A_def S_def D_def append_assoc)
  have len: "length A = 14" "length S = al" "length D = al" by (simp_all add: A_def S_def D_def)
  let ?h = "v2_header al fam src dst sp dp"
  have h1: "?h = (A @ uint16_be (2 * al + 4) @ S @ D) @ uint16_be sp @ uint16_be dp"
    and h2: "?h = (A @ uint16_be (2 * al + 4) @ S @ D @ uint16_be sp) @ uint16_be dp @ []"
    and h3: "?h = (A @ uint16_be (2 * al + 4)) @ S @ D @ uint16_be sp @ uint16_be dp"
    and h4: "?h = (A @ uint16_be (2 * al + 4) @ S) @ D @ uint16_be sp @ uint16_be dp"
    by (simp_all add: h)
  show ?thesis unfolding v2_fields_def
  proof (intro conjI)
    show "length ?h = 20 + 2 * al" using len by (simp add: h)
    show "prefix v2_signature ?h" by (simp add: h A_def)
    show "?h ! 12 = byte_of 33" "?h ! 13 = byte_of fam" by (simp_all add: h A_def nth_append)
    show "read_uint16_be ?h 14 = 2 * al + 4" unfolding h using assms len by (intro read_uint16_text) simp_all
    show "take al (drop 16 ?h) = address_bytes src al" unfolding h3 using len by (simp add: S_def)
    show "take al (drop (16 + al) ?h) = address_bytes dst al" unfolding h4 using len by (simp add: D_def)
    show "read_uint16_be ?h (16 + al * 2) = sp" unfolding h1 using assms len by (intro read_uint16_text) simp_all
    show "read_uint16_be ?h (18 + al * 2) = dp" unfolding h2 using assms len by (intro read_uint16_text) simp_all
  qed
qed

lemma parse_v2_fields:
  assumes f: "v2_fields h al fam src dst sp dp" and fam: "(al = 4 \<and> fam = 17) \<or> (al = 16 \<and> fam = 33)"
  shows "parse_incoming_proxy_header h = Header (length h) (Some
    \<lparr>pc_source_address = v2_address h al 16, pc_source_port = sp,
     pc_destination_address = v2_address h al (16 + al), pc_destination_port = dp\<rparr>)"
proof -
  have n1: "\<not> prefix_matches h v1_prefix"
  proof
    assume "prefix_matches h v1_prefix"
    moreover have "20 \<le> length h" using f by (simp add: v2_fields_def)
    ultimately have "take 6 h = v1_prefix" by (simp add: prefix_matches_def v1_prefix_def min_def numeral_eq_Suc)
    then have "take 1 h = take 1 v1_prefix" by (metis min_def take_take one_le_numeral)
    moreover have "take 1 h = take 1 v2_signature" using f by (auto simp: v2_fields_def prefix_def)
    moreover have "byte_of 13 \<noteq> CHR ''P''" by code_simp
    ultimately show False by (simp add: v1_prefix_def v2_signature_def)
  qed
  have m2: "prefix_matches h v2_signature" using f by (simp add: prefix_matches_iff v2_fields_def)
  have c: "char_code (h ! 12) = 33" "char_code (h ! 13) = fam" using f fam by (auto simp: v2_fields_def code_byte_of)
  have b: "drop_bit 4 (33::nat) = 2" "(33::nat) AND 15 = 1" by code_simp+
  have "tlvs_fit h (20 + 2 * al) (20 + 2 * al)" by (rule tlvs_fit_refl)
  moreover have "parse_incoming_proxy_header h = parse_v2 h"
    by (simp add: parse_incoming_proxy_header_def n1 m2)
  moreover have "length h = 20 + 2 * al" "read_uint16_be h 14 = 2 * al + 4"
    "read_uint16_be h (16 + al * 2) = sp" "read_uint16_be h (18 + al * 2) = dp"
    using f by (simp_all add: v2_fields_def)
  ultimately show ?thesis using fam c b
    by (elim disjE conjE) (simp_all add: parse_v2_def parse_v2_body_def)
qed

lemma find_crlf_first: "CHR 0x0D \<notin> set l \<Longrightarrow> find_crlf (l @ crlf @ r) = Some (length l)"
proof (induction l)
  case (Cons c l)
  then show ?case by (cases l) (auto simp: crlf_def)
qed (simp add: crlf_def)

lemma length_split_on: "length s + 1 = sum_list (map (\<lambda>w. length w + 1) (split_on d s))"
  by (induction s) (auto split: list.splits)

lemma length_ipv4_text:
  assumes "is_ipv4 s"
  shows "length s \<le> 15"
proof -
  obtain a b c d where p: "split_on CHR ''.'' s = [a, b, c, d]" and q: "list_all strict_octet [a, b, c, d]"
    using assms by (auto simp: is_ipv4_def Let_def numeral_eq_Suc length_Suc_conv)
  from q have "length a \<le> 3" "length b \<le> 3" "length c \<le> 3" "length d \<le> 3" by (simp_all add: strict_octet_def)
  with length_split_on [of s "CHR ''.''"] p show ?thesis by simp
qed

lemma length_join: "ws \<noteq> [] \<Longrightarrow> length (join '':'' ws) + 1 = sum_list (map (\<lambda>w. length w + 1) ws)"
  by (induction "'':''" ws rule: join.induct) auto

lemma length_hex_text: "g < 65536 \<Longrightarrow> length (hex_text g) \<le> 4"
  using length_to_base [of 16 4 g] by (simp add: hex_text_def)

lemma length_hex_words: "\<forall>g \<in> set gs. g < 65536 \<Longrightarrow> length (join '':'' (map hex_text gs)) \<le> 5 * length gs - 1"
proof (cases "gs = []")
  case False
  assume r: "\<forall>g \<in> set gs. g < 65536"
  then have "sum_list (map (\<lambda>w. length w + 1) (map hex_text gs)) \<le> sum_list (map (\<lambda>_. 5) gs)"
    using length_hex_text by (simp add: comp_def) (intro sum_list_mono, force)
  then show ?thesis using length_join [of "map hex_text gs"] False by (simp add: sum_list_triv)
qed simp

lemma length_canonical: "length (canonical_ipv6 v) \<le> 39"
proof (cases v rule: canonical_ipv6_cases)
  case full
  then show ?thesis using length_hex_words [of "ipv6_groups v"] ipv6_groups_range by simp
next
  case (short left k right)
  have "\<forall>g \<in> set left \<union> set right. g < 65536" using ipv6_groups_range [of _ v] short(2) by auto
  then have "length (join '':'' (map hex_text left)) \<le> 5 * length left - 1"
    "length (join '':'' (map hex_text right)) \<le> 5 * length right - 1" using length_hex_words by auto
  moreover have "length left + k + length right = 8" using arg_cong [OF short(2), of length] by simp
  ultimately show ?thesis using short by simp
qed

lemma port_number_text: "n \<le> 65535 \<Longrightarrow> port_number (nat_text n) = Some n"
proof -
  assume n: "n \<le> 65535"
  have len: "length (nat_text n) \<le> 5" using n by (intro length_to_base) simp_all
  have z: "nat_text 0 = ''0''" by code_simp
  show ?thesis
  proof (cases "n = 0")
    case True
    with digits_value_nat_text [of n] show ?thesis by (simp add: port_number_def z)
  next
    case False
    then have "hd (nat_text n) \<noteq> CHR ''0''" using hd_to_base [of 10 n] by simp
    then show ?thesis using n len nat_text_digit [of _ n] by (simp add: port_number_def list_all_iff)
  qed
qed

text \<open>An address text that fits a line of version 1.\<close>

definition line_address :: "nat \<Rightarrow> string \<Rightarrow> bool" where
  "line_address fam s \<longleftrightarrow> is_ip s = fam \<and> length s \<le> 39 \<and> CHR '' '' \<notin> set s \<and> CHR 0x0D \<notin> set s"

lemma line_address_v4: "is_ipv4 s \<Longrightarrow> line_address 4 s"
  using length_ipv4_text [of s] is_ipv4_chars [of s "CHR '' ''"] is_ipv4_chars [of s "CHR 0x0D"]
  by (auto simp: line_address_def is_ip_def is_digit_def)

lemma line_address_v6: "v < 2 ^ 128 \<Longrightarrow> line_address 6 (canonical_ipv6 v)"
proof -
  assume "v < 2 ^ 128"
  then have "parse_ip (canonical_ipv6 v) = Some \<lparr>ip_version = V6, ip_value = v, ip_bits = 128\<rparr>"
    by (rule parse_ip_canonical)
  then have "is_ip (canonical_ipv6 v) = 6" by (auto simp: parse_ip_def split: if_splits)
  moreover have "CHR 0x0D \<notin> set (canonical_ipv6 v)"
    using canonical_ipv6_char [of "CHR 0x0D" v] by (auto simp: hex_char_def)
  ultimately show ?thesis using length_canonical canonical_ipv6_plain(3) by (simp add: line_address_def)
qed

lemma parse_v1_line_text:
  assumes "line_address fam s" and "line_address fam d" and "sp \<le> 65535" and "dp \<le> 65535"
    and "(fam = 4 \<and> t = ''4'') \<or> (fam = 6 \<and> t = ''6'')"
  shows "parse_v1_line (v1_line t s d sp dp) = Some (Some
    \<lparr>pc_source_address = s, pc_source_port = sp, pc_destination_address = d, pc_destination_port = dp\<rparr>)"
proof -
  let ?ws = "[''PROXY'', ''TCP'' @ t, s, d, nat_text sp, nat_text dp]"
  have line: "v1_line t s d sp dp = join [CHR '' ''] ?ws" by (simp add: v1_line_def)
  have "split_on CHR '' '' (join [CHR '' ''] ?ws) = ?ws"
    using assms nat_text_digit [of "CHR '' ''"]
    by (intro split_on_join) (auto simp: line_address_def is_digit_def)
  then have sp: "split_on CHR '' '' (v1_line t s d sp dp) = ?ws" by (simp only: line)
  have "v1_line t s d sp dp \<noteq> ''PROXY UNKNOWN''" "\<not> starts_with ''PROXY UNKNOWN '' (v1_line t s d sp dp)"
    by (simp_all add: v1_line_def starts_with_def)
  with sp assms show ?thesis
    by (elim disjE) (simp_all add: parse_v1_line_def line_address_def port_number_text)
qed

lemma parse_v1_text:
  assumes "line_address fam s" and "line_address fam d" and "sp \<le> 65535" and "dp \<le> 65535"
    and "(fam = 4 \<and> t = ''4'') \<or> (fam = 6 \<and> t = ''6'')"
  shows "parse_incoming_proxy_header (v1_line t s d sp dp @ crlf) = Header (length (v1_line t s d sp dp @ crlf))
    (Some \<lparr>pc_source_address = s, pc_source_port = sp, pc_destination_address = d, pc_destination_port = dp\<rparr>)"
proof -
  let ?l = "v1_line t s d sp dp"
  have "length (nat_text sp) \<le> 5" "length (nat_text dp) \<le> 5" using assms(3,4) by (intro length_to_base; simp)+
  then have len: "length ?l \<le> 105" using assms(1,2,5) by (auto simp: v1_line_def line_address_def)
  have "CHR 0x0D \<notin> set ?l" using assms nat_text_digit [of "CHR 0x0D"]
    by (auto simp: v1_line_def line_address_def is_digit_def)
  then have f: "find_crlf (?l @ crlf) = Some (length ?l)" using find_crlf_first [of ?l "[]"] by simp
  have m: "prefix_matches (?l @ crlf) v1_prefix" by (simp add: prefix_matches_iff v1_line_def v1_prefix_def)
  show ?thesis using len
    by (simp add: parse_incoming_proxy_header_def m parse_v1_def f parse_v1_line_text [OF assms]) (simp add: crlf_def)
qed

lemma parse_ip_record:
  assumes "parse_ip s = Some p"
  shows "p = \<lparr>ip_version = ip_version p, ip_value = ip_value p, ip_bits = bits_of (ip_version p)\<rparr>"
    and "ip_version p = V4 \<Longrightarrow> is_ipv4 s" and "ip_version p = V4 \<Longrightarrow> ip_value p < 2 ^ 32"
    and "ip_version p = V6 \<Longrightarrow> ip_value p < 2 ^ 128"
  using assms parse_ipv4_bound [of s] parse_ipv6_bound [of s]
  by (auto simp: parse_ip_def is_ip_def bits_of_def split: if_splits)

text \<open>What a header must say of the connection it stands for.\<close>

definition same_connection :: "proxy_connection \<Rightarrow> proxy_endpoints \<Rightarrow> bool" where
  "same_connection c e \<longleftrightarrow> parse_ip (pc_source_address c) = parse_ip (ep_source_address e)
     \<and> parse_ip (pc_destination_address c) = parse_ip (ep_destination_address e)
     \<and> int (pc_source_port c) = ep_source_port e \<and> int (pc_destination_port c) = ep_destination_port e"

lemma resolve_endpointsD:
  assumes "resolve_endpoints e = Inr r"
  shows "parse_ip (ep_source_address e) = Some (re_source r)" "parse_ip (ep_destination_address e) = Some (re_destination r)"
    "ip_version (re_destination r) = ip_version (re_source r)" "int (re_source_port r) = ep_source_port e"
    "int (re_destination_port r) = ep_destination_port e" "re_source_port r \<le> 65535" "re_destination_port r \<le> 65535"
  using assms by (auto simp: resolve_endpoints_def valid_port_def split: option.splits if_splits sum.splits)

lemma parse_v1_header:
  assumes "proxy_protocol_header HeaderV1 Tcp e = Inr h"
  shows "\<exists>c. parse_incoming_proxy_header h = Header (length h) (Some c) \<and> same_connection c e"
proof -
  obtain r where r: "resolve_endpoints e = Inr r" using assms by (auto simp: proxy_protocol_header_def split: sum.splits)
  note D = resolve_endpointsD [OF r] and S = parse_ip_record [OF resolve_endpointsD(1) [OF r]]
    and T = parse_ip_record [OF resolve_endpointsD(2) [OF r]]
  show ?thesis
  proof (cases "ip_version (re_source r)")
    case V4
    then have "h = v1_line ''4'' (ep_source_address e) (ep_destination_address e) (re_source_port r) (re_destination_port r) @ crlf"
      using assms r by (simp add: proxy_protocol_header_def)
    with V4 D S(2) T(2) show ?thesis
      using parse_v1_text [of 4 "ep_source_address e" "ep_destination_address e" "re_source_port r" "re_destination_port r" "''4''"]
      by (simp add: line_address_v4 same_connection_def)
  next
    case V6
    then have h: "h = v1_line ''6'' (canonical_ipv6 (ip_value (re_source r))) (canonical_ipv6 (ip_value (re_destination r)))
        (re_source_port r) (re_destination_port r) @ crlf"
      using assms r by (simp add: proxy_protocol_header_def)
    have v: "ip_value (re_source r) < 2 ^ 128" "ip_value (re_destination r) < 2 ^ 128" using V6 D(3) S(4) T(4) by auto
    have "parse_ip (canonical_ipv6 (ip_value (re_source r))) = Some (re_source r)"
      "parse_ip (canonical_ipv6 (ip_value (re_destination r))) = Some (re_destination r)"
      using V6 D(3) v S(1) T(1) by (simp_all add: parse_ip_canonical bits_of_def)
    with h v D show ?thesis
      using parse_v1_text [OF line_address_v6 [OF v(1)] line_address_v6 [OF v(2)], of "re_source_port r" "re_destination_port r" "''6''"]
      by (simp add: same_connection_def)
  qed
qed

lemma parse_v2_header:
  assumes "proxy_protocol_header HeaderV2 Tcp e = Inr h"
  shows "\<exists>c. parse_incoming_proxy_header h = Header (length h) (Some c) \<and> same_connection c e"
proof -
  obtain r where r: "resolve_endpoints e = Inr r" using assms by (auto simp: proxy_protocol_header_def split: sum.splits)
  note D = resolve_endpointsD [OF r] and S = parse_ip_record [OF resolve_endpointsD(1) [OF r]]
    and T = parse_ip_record [OF resolve_endpointsD(2) [OF r]]
  define al where "al = (if ip_version (re_source r) = V4 then 4 else (16::nat))"
  define fam where "fam = (if ip_version (re_source r) = V4 then 17 else (33::nat))"
  have bits: "(16::nat) OR 1 = 17" "(32::nat) OR 1 = 33" by code_simp+
  have "h = v2_header al fam (ip_value (re_source r)) (ip_value (re_destination r)) (re_source_port r) (re_destination_port r)"
    using assms r bits by (auto simp: proxy_protocol_header_def al_def fam_def)
  with D have f: "v2_fields h al fam (ip_value (re_source r)) (ip_value (re_destination r)) (re_source_port r) (re_destination_port r)"
    using v2_header_fields [of al "re_source_port r" "re_destination_port r"] by (simp add: al_def)
  have "(al = 4 \<and> fam = 17) \<or> (al = 16 \<and> fam = 33)" by (simp add: al_def fam_def)
  note p = parse_v2_fields [OF f this]
  have a: "take al (drop 16 h) = address_bytes (ip_value (re_source r)) al"
    "take al (drop (16 + al) h) = address_bytes (ip_value (re_destination r)) al" using f by (simp_all add: v2_fields_def)
  have "parse_ip (v2_address h al 16) = Some (re_source r) \<and> parse_ip (v2_address h al (16 + al)) = Some (re_destination r)"
  proof (cases "ip_version (re_source r)")
    case V4
    then have al: "al = 4" by (simp add: al_def)
    have v: "ip_value (re_source r) < 2 ^ 32" "ip_value (re_destination r) < 2 ^ 32" using V4 D(3) S(3) T(3) by auto
    show ?thesis using a V4 D(3) S(1) T(1) v
      by (simp add: v2_address_def al address_bytes_quad parse_ip_text bits_of_def)
  next
    case V6
    then have al: "al = 16" by (simp add: al_def)
    have v: "ip_value (re_source r) < 2 ^ 128" "ip_value (re_destination r) < 2 ^ 128" using V6 D(3) S(4) T(4) by auto
    show ?thesis using a V6 D(3) S(1) T(1) v
      by (simp add: v2_address_def al address_bytes_value parse_ip_canonical bits_of_def)
  qed
  with p D show ?thesis by (simp add: same_connection_def)
qed

text \<open>
  C15: the two ends of the protocol agree. A header of either version that one BurrowGate writes for a
  TCP connection, sent by a trusted proxy and followed by any payload, in any segmentation, makes the
  ingress of another bridge the client as exactly that connection, source and destination address
  and port, marked as proxied, and forward exactly the payload.
\<close>

theorem proxied_client_identified:
  assumes "proxy_protocol_header mode Tcp e = Inr h"
    and "is_trusted_proxy (cs_remote_address c) (io_trusted opts)" and "concat chunks = h @ payload"
  shows "\<exists>conn. client_run opts c chunks = Bridged True conn payload \<and> same_connection conn e"
proof -
  obtain conn where p: "parse_incoming_proxy_header h = Header (length h) (Some conn)" and s: "same_connection conn e"
    using assms(1) parse_v1_header parse_v2_header by (cases mode) blast+
  have q: "parse_incoming_proxy_header (h @ payload) = Header (length h) (Some conn)"
    using p parse_stable [of h payload] by simp
  have "is_proxy_header_prefix (h @ payload) \<noteq> Some False"
    using q by (auto simp: is_proxy_header_prefix_def parse_incoming_proxy_header_def Let_def split: if_splits)
  then have "client_run opts c [concat chunks] = Bridged True conn payload"
    using assms(2,3) q by (simp add: client_run_def accept_client_def client_data_def receive_header_def)
  with s client_run_concat [of opts c chunks] show ?thesis by auto
qed

definition sample_client :: "string \<Rightarrow> client_socket" where
  "sample_client a = \<lparr>cs_remote_address = a, cs_remote_port = 4000, cs_local_address = ''10.0.0.9'', cs_local_port = 443\<rparr>"

definition sample_ingress :: ingress_options where
  "sample_ingress = \<lparr>io_trusted = [\<lparr>cidr_version = V4, cidr_network = 167772160, cidr_prefix = 8, cidr_bits = 32\<rparr>],
     io_allow_direct = True\<rparr>"

definition sample_endpoints :: proxy_endpoints where
  "sample_endpoints = \<lparr>ep_source_address = ''1.2.3.4'', ep_destination_address = ''5.6.7.8'', ep_source_port = 1000, ep_destination_port = 443\<rparr>"

theorem proxied_client_identified_witness:
  "\<exists>h conn. proxy_protocol_header HeaderV2 Tcp sample_endpoints = Inr h \<and>
     client_run sample_ingress (sample_client ''10.0.0.1'') [h, ''GET /''] = Bridged True conn ''GET /'' \<and>
     same_connection conn sample_endpoints"
proof -
  have "\<not> isl (proxy_protocol_header HeaderV2 Tcp sample_endpoints)" by code_simp
  then obtain h where h: "proxy_protocol_header HeaderV2 Tcp sample_endpoints = Inr h"
    by (cases "proxy_protocol_header HeaderV2 Tcp sample_endpoints") auto
  have t: "is_trusted_proxy (cs_remote_address (sample_client ''10.0.0.1'')) (io_trusted sample_ingress)" by code_simp
  have "concat [h, ''GET /''] = h @ ''GET /''" by simp
  from proxied_client_identified [OF h t this] h show ?thesis by blast
qed

theorem untrusted_client_cannot_spoof_witness:
  "client_run sample_ingress (sample_client ''9.9.9.9'') [''GE'', ''T /''] =
     Bridged False (direct_connection (sample_client ''9.9.9.9'')) ''GET /''"
proof -
  have t: "\<not> is_trusted_proxy (cs_remote_address (sample_client ''9.9.9.9'')) (io_trusted sample_ingress)" by code_simp
  have "case client_run sample_ingress (sample_client ''9.9.9.9'') [''GE'', ''T /''] of Bridged _ _ _ \<Rightarrow> True | _ \<Rightarrow> False"
    by code_simp
  then obtain p cn s where r: "client_run sample_ingress (sample_client ''9.9.9.9'') [''GE'', ''T /''] = Bridged p cn s"
    by (cases "client_run sample_ingress (sample_client ''9.9.9.9'') [''GE'', ''T /'']") auto
  from untrusted_client_cannot_spoof [OF t r] r show ?thesis by simp
qed

end
