(* ===== verification/Search_Query.thy ===== *)
theory Search_Query
  imports Prelude
begin

text \<open>
  \<open>src/src/services/search-query.ts\<close>: the query language of the dashboard, its tokenizer, its
  recursive-descent parser and its evaluation on a row in memory; and \<open>src/src/db/search-sql.ts\<close>,
  which compiles a query to SQL.

  The parser returns the node, the tokens left and its counters. It recurses with a fuel argument;
  \<open>parse_tokens\<close> starts it with enough for its tokens, and \<open>Out\<close> is the result of
  running out. Regular expressions are written out as predicates. Of SQL, the operators
  that the compiler emits are modelled, with three-valued logic; a column expression is a function of
  the row. The text of a number is an argument. Error messages are constructors with the position.
\<close>

section \<open>Fields, tokens, nodes\<close>

datatype field_type = TextField | NumberField | IpField | CountryField | StatusField

record search_field =
  sf_name :: string
  sf_aliases :: "string list"
  sf_type :: field_type
  sf_sql :: "string option"

datatype comparison = Gt | Ge | Lt | Le

datatype value_match =
    MatchExists
  | MatchEquals string bool
  | MatchCompare comparison string
  | MatchRange string string

datatype search_node =
    NAnd "search_node list"
  | NOr "search_node list"
  | NNot search_node
  | NText string
  | NField search_field "string option" value_match

datatype syntax_error =
    QuotePlacement | DanglingBackslash | UnterminatedQuote | UnmatchedClosing | UnexpectedInput | TooDeep
  | OperatorNeedsTerm | ExpectedTerm | MissingClosing | TooManyTerms | MissingValue | ValueTooLong
  | NotANumber | RangeBackwards | BadCidr | WildcardInNumber | QueryTooLong | NotSearchable | NoFreeText
  | ComparisonOnText

record word_token =
  wt_position :: nat
  wt_raw :: string
  wt_value :: string
  wt_quoted :: bool
  wt_negated :: bool

datatype token = TOpen nat | TClose nat | TWord word_token

definition glob_any :: char where
  "glob_any = CHR 0x00"

definition glob_one :: char where
  "glob_one = CHR 0x01"




section \<open>Tokens\<close>










section \<open>Values\<close>

text \<open>\<open>/^-?\\d+(\\.\\d+)?$/u\<close>\<close>

definition numeric_text :: "string \<Rightarrow> bool" where
  "numeric_text s =
     (case split_on CHR ''.'' (if starts_with ''-'' s then tl s else s) of
        [a] \<Rightarrow> a \<noteq> [] \<and> list_all is_digit a
      | [a, b] \<Rightarrow> a \<noteq> [] \<and> list_all is_digit a \<and> b \<noteq> [] \<and> list_all is_digit b
      | _ \<Rightarrow> False)"










definition is_numeric_field :: "search_field \<Rightarrow> bool" where
  "is_numeric_field f \<longleftrightarrow> sf_type f = NumberField \<or> sf_type f = StatusField"



section \<open>The parser\<close>




fun with_path :: "string option \<Rightarrow> search_node \<Rightarrow> search_node" where
  "with_path None n = n"
| "with_path (Some p) (NField f _ m) = NField f (Some p) m"
| "with_path (Some p) (NNot n) = NNot (with_path (Some p) n)"
| "with_path (Some p) (NAnd ns) = NAnd (map (with_path (Some p)) ns)"
| "with_path (Some p) (NOr ns) = NOr (map (with_path (Some p)) ns)"
| "with_path (Some p) (NText t) = NText t"

definition is_operator :: "string \<Rightarrow> token list \<Rightarrow> bool" where
  "is_operator op ts = (case ts of
     TWord w # _ \<Rightarrow> \<not> wt_quoted w \<and> \<not> wt_negated w \<and> to_upper (wt_raw w) = op | _ \<Rightarrow> False)"

definition starts_term :: "token list \<Rightarrow> bool" where
  "starts_term ts = (case ts of
     [] \<Rightarrow> False | TClose _ # _ \<Rightarrow> False | _ \<Rightarrow> \<not> is_operator ''AND'' ts \<and> \<not> is_operator ''OR'' ts)"














definition negate_if :: "bool \<Rightarrow> search_node \<Rightarrow> search_node" where
  "negate_if b n = (if b then NNot n else n)"


text \<open>
  The methods of the class \<open>Parser\<close> call each other: each is a function of the parser it calls back,
  which takes the method to run first. The loops of \<open>parseOr\<close> and \<open>parseAnd\<close> are methods of their own.
\<close>

datatype stage = OrStage | OrMore "search_node list" | AndStage | AndMore "search_node list" | UnaryStage | PrimaryStage














section \<open>Evaluation in memory\<close>

datatype field_value = VNull | VText string | VNumber rat

text \<open>What a schema knows of a row: the value of a field, of a dynamic path, and its text.\<close>

record 'row row_access =
  ra_get :: "search_field \<Rightarrow> 'row \<Rightarrow> field_value"
  ra_dynamic :: "'row \<Rightarrow> string \<Rightarrow> field_value"
  ra_text :: "'row \<Rightarrow> string"

text \<open>\<open>globRegExp(value).test(text)\<close>: case is ignored, the dot matches every character.\<close>

fun glob_match :: "string \<Rightarrow> string \<Rightarrow> bool" where
  "glob_match [] s = (s = [])"
| "glob_match (g # gs) s =
     (if g = glob_any then glob_match gs s \<or> (case s of [] \<Rightarrow> False | _ # cs \<Rightarrow> glob_match (g # gs) cs)
      else case s of
             [] \<Rightarrow> False
           | c # cs \<Rightarrow> (g = glob_one \<or> lower_char g = lower_char c) \<and> glob_match gs cs)"

definition string_value :: "(rat \<Rightarrow> string) \<Rightarrow> field_value \<Rightarrow> string" where
  "string_value show_number v = (case v of VNull \<Rightarrow> [] | VText t \<Rightarrow> t | VNumber q \<Rightarrow> show_number q)"

definition compare_numbers :: "comparison \<Rightarrow> rat \<Rightarrow> rat \<Rightarrow> bool" where
  "compare_numbers c x y = (case c of Gt \<Rightarrow> x > y | Ge \<Rightarrow> x \<ge> y | Lt \<Rightarrow> x < y | Le \<Rightarrow> x \<le> y)"

text \<open>\<open>Number(raw)\<close> of a value; nothing when it is missing, empty or not finite.\<close>

definition finite_number :: "field_value \<Rightarrow> rat option" where
  "finite_number v =
     (case v of
        VNull \<Rightarrow> None
      | VText t \<Rightarrow> if t = [] then None else (case js_number t of Fin q \<Rightarrow> Some q | _ \<Rightarrow> None)
      | VNumber q \<Rightarrow> Some q)"

definition number_of :: "string \<Rightarrow> rat option" where
  "number_of t = (case js_number t of Fin q \<Rightarrow> Some q | _ \<Rightarrow> None)"

definition matches_value :: "(rat \<Rightarrow> string) \<Rightarrow> search_field \<Rightarrow> field_value \<Rightarrow> value_match \<Rightarrow> bool" where
  "matches_value show_number f v m =
     (if is_numeric_field f
      then case finite_number v of
             None \<Rightarrow> False
           | Some x \<Rightarrow>
               (case m of
                  MatchExists \<Rightarrow> True
                | MatchRange a b \<Rightarrow>
                    (case (number_of a, number_of b) of (Some p, Some q) \<Rightarrow> p \<le> x \<and> x \<le> q | _ \<Rightarrow> False)
                | MatchCompare c t \<Rightarrow> (case number_of t of Some y \<Rightarrow> compare_numbers c x y | None \<Rightarrow> False)
                | MatchEquals t _ \<Rightarrow> (case number_of t of Some y \<Rightarrow> x = y | None \<Rightarrow> False))
      else
        let t = string_value show_number v
        in case m of
             MatchExists \<Rightarrow> t \<noteq> []
           | MatchEquals p glob \<Rightarrow> if glob then glob_match p t else to_lower t = to_lower p
           | _ \<Rightarrow> False)"

definition contains_text :: "string \<Rightarrow> string \<Rightarrow> bool" where
  "contains_text p s \<longleftrightarrow> list_ex (\<lambda>i. starts_with p (drop i s)) [0..<Suc (length s)]"

fun evaluate_search :: "(rat \<Rightarrow> string) \<Rightarrow> 'row row_access \<Rightarrow> 'row \<Rightarrow> search_node \<Rightarrow> bool" where
  "evaluate_search sn ra row (NAnd ns) = list_all (evaluate_search sn ra row) ns"
| "evaluate_search sn ra row (NOr ns) = list_ex (evaluate_search sn ra row) ns"
| "evaluate_search sn ra row (NNot n) = (\<not> evaluate_search sn ra row n)"
| "evaluate_search sn ra row (NText t) = contains_text (to_lower t) (to_lower (ra_text ra row))"
| "evaluate_search sn ra row (NField f path m) =
     matches_value sn f (case path of None \<Rightarrow> ra_get ra f row | Some p \<Rightarrow> ra_dynamic ra row p) m"

section \<open>Compilation to SQL\<close>

text \<open>The fragments the compiler emits. A column is the text of an SQL expression.\<close>

datatype sql =
    SqlAnd sql sql
  | SqlOr sql sql
  | SqlNot sql
  | SqlNotNull string
  | SqlEquals string rat
  | SqlCompare string comparison rat
  | SqlNonEmpty string
  | SqlLike string string
  | SqlLowerEquals string string
  | SqlTextEquals string string

record sql_schema =
  ss_text_sql :: "string list"
  ss_exact_sql :: "string list"

definition joined :: "(sql \<Rightarrow> sql \<Rightarrow> sql) \<Rightarrow> sql list \<Rightarrow> sql" where
  "joined op ps = foldl op (hd ps) (tl ps)"

fun like_pattern :: "string \<Rightarrow> string" where
  "like_pattern [] = []"
| "like_pattern (c # cs) =
     (let l = lower_char c
      in (if l = glob_any then ''%'' else if l = glob_one then ''_''
          else if l \<in> set ''!%_'' then [CHR ''!'', l] else [l]) @ like_pattern cs)"

definition free_text :: "string \<Rightarrow> sql_schema \<Rightarrow> (syntax_error \<times> nat) + sql" where
  "free_text v ss =
     (let parts = map (\<lambda>c. SqlLike c (''%'' @ like_pattern v @ ''%'')) (ss_text_sql ss)
                  @ map (\<lambda>c. SqlTextEquals c v) (ss_exact_sql ss)
      in if parts = [] then Inl (NoFreeText, 0) else Inr (joined SqlOr parts))"

definition with_number :: "string \<Rightarrow> (rat \<Rightarrow> sql) \<Rightarrow> (syntax_error \<times> nat) + sql" where
  "with_number t k = (case number_of t of Some q \<Rightarrow> Inr (k q) | None \<Rightarrow> Inl (NotANumber, 0))"

definition field_predicate :: "string \<Rightarrow> bool \<Rightarrow> value_match \<Rightarrow> (syntax_error \<times> nat) + sql" where
  "field_predicate column numeric m =
     (if numeric
      then case m of
             MatchExists \<Rightarrow> Inr (SqlNotNull column)
           | MatchEquals t _ \<Rightarrow> with_number t (\<lambda>q. SqlAnd (SqlNotNull column) (SqlEquals column q))
           | MatchRange a b \<Rightarrow>
               (case number_of a of
                  None \<Rightarrow> Inl (NotANumber, 0)
                | Some p \<Rightarrow> with_number b (\<lambda>q.
                    SqlAnd (SqlAnd (SqlNotNull column) (SqlCompare column Ge p)) (SqlCompare column Le q)))
           | MatchCompare c t \<Rightarrow> with_number t (\<lambda>q. SqlAnd (SqlNotNull column) (SqlCompare column c q))
      else case m of
             MatchExists \<Rightarrow> Inr (SqlNonEmpty column)
           | MatchEquals t glob \<Rightarrow>
               Inr (if glob then SqlLike column (like_pattern t) else SqlLowerEquals column (to_lower t))
           | _ \<Rightarrow> Inl (ComparisonOnText, 0))"

fun compile_sql :: "sql_schema \<Rightarrow> search_node \<Rightarrow> (syntax_error \<times> nat) + sql"
and compile_all :: "sql_schema \<Rightarrow> search_node list \<Rightarrow> (syntax_error \<times> nat) + sql list" where
  "compile_sql ss (NAnd ns) = map_sum id (joined SqlAnd) (compile_all ss ns)"
| "compile_sql ss (NOr ns) = map_sum id (joined SqlOr) (compile_all ss ns)"
| "compile_sql ss (NNot n) = map_sum id SqlNot (compile_sql ss n)"
| "compile_sql ss (NText t) = free_text t ss"
| "compile_sql ss (NField f path m) =
     (case sf_sql f of None \<Rightarrow> Inl (NotSearchable, 0) | Some column \<Rightarrow> field_predicate column (is_numeric_field f) m)"
| "compile_all ss [] = Inr []"
| "compile_all ss (n # ns) =
     (case compile_sql ss n of
        Inl e \<Rightarrow> Inl e
      | Inr q \<Rightarrow> map_sum id (\<lambda>qs. q # qs) (compile_all ss ns))"

subsection \<open>What the fragments mean\<close>

text \<open>\<open>LIKE pattern ESCAPE '!'\<close>\<close>

fun like_match :: "string \<Rightarrow> string \<Rightarrow> bool" where
  "like_match [] s = (s = [])"
| "like_match (p # ps) s =
     (if p = CHR ''%'' then like_match ps s \<or> (case s of [] \<Rightarrow> False | _ # cs \<Rightarrow> like_match (p # ps) cs)
      else if p = CHR ''_'' then (case s of [] \<Rightarrow> False | _ # cs \<Rightarrow> like_match ps cs)
      else if p = CHR ''!''
      then (case ps of
              [] \<Rightarrow> False
            | e # es \<Rightarrow> (case s of [] \<Rightarrow> False | c # cs \<Rightarrow> e = c \<and> like_match es cs))
      else (case s of [] \<Rightarrow> False | c # cs \<Rightarrow> p = c \<and> like_match ps cs))"

text \<open>Three-valued logic: \<open>None\<close> is the SQL null.\<close>

fun and3 :: "bool option \<Rightarrow> bool option \<Rightarrow> bool option" where
  "and3 (Some False) _ = Some False"
| "and3 _ (Some False) = Some False"
| "and3 (Some True) (Some True) = Some True"
| "and3 _ _ = None"

fun or3 :: "bool option \<Rightarrow> bool option \<Rightarrow> bool option" where
  "or3 (Some True) _ = Some True"
| "or3 _ (Some True) = Some True"
| "or3 (Some False) (Some False) = Some False"
| "or3 _ _ = None"

definition on_number :: "field_value \<Rightarrow> (rat \<Rightarrow> bool) \<Rightarrow> bool option" where
  "on_number v P = (case v of VNumber q \<Rightarrow> Some (P q) | _ \<Rightarrow> None)"

text \<open>\<open>LOWER\<close> of SQLite, the default database, changes the letters of ASCII only.\<close>

definition ascii_lower_char :: "char \<Rightarrow> char" where
  "ascii_lower_char c = (if is_upper c then lower_char c else c)"

definition sqlite_lower :: "string \<Rightarrow> string" where
  "sqlite_lower s = map ascii_lower_char s"

fun sql_value :: "(rat \<Rightarrow> string) \<Rightarrow> (string \<Rightarrow> field_value) \<Rightarrow> sql \<Rightarrow> bool option" where
  "sql_value sn col (SqlAnd a b) = and3 (sql_value sn col a) (sql_value sn col b)"
| "sql_value sn col (SqlOr a b) = or3 (sql_value sn col a) (sql_value sn col b)"
| "sql_value sn col (SqlNot a) = map_option Not (sql_value sn col a)"
| "sql_value sn col (SqlNotNull c) = Some (col c \<noteq> VNull)"
| "sql_value sn col (SqlEquals c q) = on_number (col c) (\<lambda>x. x = q)"
| "sql_value sn col (SqlCompare c cmp q) = on_number (col c) (\<lambda>x. compare_numbers cmp x q)"
| "sql_value sn col (SqlNonEmpty c) = Some (string_value sn (col c) \<noteq> [])"
| "sql_value sn col (SqlLike c p) = Some (like_match p (sqlite_lower (string_value sn (col c))))"
| "sql_value sn col (SqlLowerEquals c t) = Some (sqlite_lower (string_value sn (col c)) = t)"
| "sql_value sn col (SqlTextEquals c t) =
     (case col c of VNull \<Rightarrow> None | VText x \<Rightarrow> Some (x = t) | VNumber q \<Rightarrow> Some (sn q = t))"

section \<open>The parser always answers\<close>




lemma starts_term_nonempty: "starts_term ts \<Longrightarrow> ts \<noteq> []"
  by (auto simp: starts_term_def)








text \<open>What every method of the parser keeps; \<open>loop\<close> tells the two loops, which may consume nothing.\<close>

definition is_loop :: "stage \<Rightarrow> bool" where
  "is_loop s = (case s of OrMore _ \<Rightarrow> True | AndMore _ \<Rightarrow> True | _ \<Rightarrow> False)"



lemma is_loop_simps [simp]: "is_loop (OrMore cs)" "is_loop (AndMore cs)" "\<not> is_loop OrStage" "\<not> is_loop AndStage"
  "\<not> is_loop UnaryStage" "\<not> is_loop PrimaryStage"
  by (simp_all add: is_loop_def)
















section \<open>Bounds of a parsed query\<close>

fun leaves :: "search_node \<Rightarrow> nat" where
  "leaves (NAnd ns) = sum_list (map leaves ns)"
| "leaves (NOr ns) = sum_list (map leaves ns)"
| "leaves (NNot n) = leaves n"
| "leaves (NText t) = 1"
| "leaves (NField f p m) = 1"

definition match_bounded :: "value_match \<Rightarrow> bool" where
  "match_bounded m = (case m of
     MatchExists \<Rightarrow> True | MatchEquals v _ \<Rightarrow> length v \<le> 512
   | MatchCompare _ v \<Rightarrow> length v \<le> 512 | MatchRange a b \<Rightarrow> length a \<le> 512 \<and> length b \<le> 512)"

text \<open>Values are bounded, and conjunctions and disjunctions have at least two parts.\<close>

fun node_ok :: "search_node \<Rightarrow> bool" where
  "node_ok (NAnd ns) \<longleftrightarrow> 2 \<le> length ns \<and> list_all node_ok ns"
| "node_ok (NOr ns) \<longleftrightarrow> 2 \<le> length ns \<and> list_all node_ok ns"
| "node_ok (NNot n) = node_ok n"
| "node_ok (NText t) \<longleftrightarrow> length t \<le> 512"
| "node_ok (NField f p m) = match_bounded m"

lemma leaves_with_path [simp]: "leaves (with_path p n) = leaves n"
proof (cases p)
  case (Some q)
  have "leaves (with_path (Some q) n) = leaves n"
    by (induction "Some q" n rule: with_path.induct) (auto simp: comp_def cong: map_cong)
  with Some show ?thesis by simp
qed simp

lemma node_ok_with_path [simp]: "node_ok (with_path p n) = node_ok n"
proof (cases p)
  case (Some q)
  have "node_ok (with_path (Some q) n) = node_ok n"
    by (induction "Some q" n rule: with_path.induct) (auto simp: list_all_iff)
  with Some show ?thesis by simp
qed simp

lemma leaves_negate_if [simp]: "leaves (negate_if b n) = leaves n" "node_ok (negate_if b n) = node_ok n"
  by (simp_all add: negate_if_def)




lemma map_sum_Inr: "map_sum id g r = Inr y \<longleftrightarrow> (\<exists>x. r = Inr x \<and> y = g x)"
  by (cases r) auto












text \<open>What every method promises of its node, given the nodes a loop has collected.\<close>

definition pending_nodes :: "stage \<Rightarrow> search_node list" where
  "pending_nodes s = (case s of OrMore cs \<Rightarrow> cs | AndMore cs \<Rightarrow> cs | _ \<Rightarrow> [])"

lemma pending_simps [simp]: "pending_nodes (OrMore cs) = cs" "pending_nodes (AndMore cs) = cs" "pending_nodes OrStage = []"
  "pending_nodes AndStage = []" "pending_nodes UnaryStage = []" "pending_nodes PrimaryStage = []"
  by (simp_all add: pending_nodes_def)

definition stage_ok :: "stage \<Rightarrow> bool" where
  "stage_ok s \<longleftrightarrow> (is_loop s \<longrightarrow> pending_nodes s \<noteq> []) \<and> list_all node_ok (pending_nodes s)"

lemma stage_ok_simps [simp]: "stage_ok OrStage" "stage_ok AndStage" "stage_ok UnaryStage" "stage_ok PrimaryStage"
  "stage_ok (OrMore cs) \<longleftrightarrow> cs \<noteq> [] \<and> list_all node_ok cs" "stage_ok (AndMore cs) \<longleftrightarrow> cs \<noteq> [] \<and> list_all node_ok cs"
  by (simp_all add: stage_ok_def)












section \<open>The SQL of a query selects the rows the query matches\<close>

lemma lower_glob [simp]: "lower_char c = glob_any \<longleftrightarrow> c = glob_any" "lower_char c = glob_one \<longleftrightarrow> c = glob_one"
  by (auto simp: char_eq_code_iff code_lower_char glob_any_def glob_one_def has_lower_def is_upper_def)

lemma like_pattern_glob: "like_match (like_pattern p) (to_lower s) = glob_match p s"
proof (induction p s rule: glob_match.induct)
  case (1 s)
  then show ?case by (simp add: to_lower_def)
next
  case (2 g gs s)
  show ?case
  proof (cases "g = glob_any")
    case True
    then show ?thesis using 2 by (cases s) (auto simp: to_lower_def)
  next
    case False
    have sp: "lower_char g \<in> set ''!%_'' \<or> lower_char g \<notin> set ''!%_''" by blast
    have ne: "glob_any \<notin> set ''!%_''" "glob_one \<notin> set ''!%_''" by (simp_all add: glob_any_def glob_one_def)
    show ?thesis
    proof (cases s)
      case Nil
      with False show ?thesis by (auto simp: to_lower_def Let_def)
    next
      case (Cons c cs)
      have ih: "like_match (like_pattern gs) (to_lower cs) = glob_match gs cs" using 2(3) False Cons by simp
      show ?thesis using False Cons ih by (auto simp: to_lower_def Let_def)
    qed
  qed
qed

text \<open>A text without accented capitals, for which \<open>LOWER\<close> and \<open>toLowerCase\<close> agree.\<close>

definition ascii_cased :: "string \<Rightarrow> bool" where
  "ascii_cased t \<longleftrightarrow> list_all (\<lambda>c. has_lower c \<longrightarrow> is_upper c) t"

lemma ascii_lower_char_iff: "ascii_lower_char c = lower_char c \<longleftrightarrow> (has_lower c \<longrightarrow> is_upper c)"
  unfolding char_eq_code_iff ascii_lower_char_def by (auto simp: code_lower_char has_lower_def)

lemma sqlite_lower_iff: "sqlite_lower t = to_lower t \<longleftrightarrow> ascii_cased t"
  by (auto simp: sqlite_lower_def to_lower_def ascii_cased_def list_all_iff ascii_lower_char_iff)

text \<open>
  A row is readable through a node when the SQL column of each of its fields holds the value the
  schema reads in memory, numeric fields hold numbers or nothing, and text fields no accented capital.
\<close>

fun readable :: "(rat \<Rightarrow> string) \<Rightarrow> 'row row_access \<Rightarrow> (string \<Rightarrow> field_value) \<Rightarrow> 'row \<Rightarrow> search_node \<Rightarrow> bool" where
  "readable sn ra col row (NAnd ns) \<longleftrightarrow> ns \<noteq> [] \<and> list_all (readable sn ra col row) ns"
| "readable sn ra col row (NOr ns) \<longleftrightarrow> ns \<noteq> [] \<and> list_all (readable sn ra col row) ns"
| "readable sn ra col row (NNot n) = readable sn ra col row n"
| "readable sn ra col row (NText t) = False"
| "readable sn ra col row (NField f path m) \<longleftrightarrow> path = None
     \<and> (case sf_sql f of None \<Rightarrow> True | Some c \<Rightarrow> col c = ra_get ra f row)
     \<and> (if is_numeric_field f then (case ra_get ra f row of VText _ \<Rightarrow> False | _ \<Rightarrow> True)
        else ascii_cased (string_value sn (ra_get ra f row)))"

lemma and3_Some [simp]: "and3 (Some a) (Some b) = Some (a \<and> b)"
  by (cases a; cases b) simp_all

lemma or3_Some [simp]: "or3 (Some a) (Some b) = Some (a \<or> b)"
  by (cases a; cases b) simp_all

lemma list_all_map_id: "list_all P ns = list_all id (map P ns)" "list_ex P ns = list_ex id (map P ns)"
  by (simp_all add: list_all_iff list_ex_iff)

lemma field_predicate_correct:
  assumes "field_predicate c (is_numeric_field f) m = Inr q"
    and "is_numeric_field f \<Longrightarrow> case col c of VText _ \<Rightarrow> False | _ \<Rightarrow> True"
    and "\<not> is_numeric_field f \<Longrightarrow> ascii_cased (string_value sn (col c))"
  shows "sql_value sn col q = Some (matches_value sn f (col c) m)"
proof (cases "is_numeric_field f")
  case True
  show ?thesis
  proof (cases "col c")
    case VNull
    with True assms show ?thesis
      by (auto simp: field_predicate_def matches_value_def finite_number_def with_number_def
          split: value_match.splits option.splits)
  next
    case (VNumber x)
    with True assms show ?thesis
      by (auto simp: field_predicate_def matches_value_def finite_number_def with_number_def on_number_def
          compare_numbers_def split: value_match.splits option.splits)
  qed (use assms True in simp)
next
  case False
  then have "sqlite_lower (string_value sn (col c)) = to_lower (string_value sn (col c))" using assms(3) by (simp add: sqlite_lower_iff)
  with False assms(1) show ?thesis
    by (auto simp: field_predicate_def matches_value_def Let_def like_pattern_glob split: value_match.splits)
qed

lemma sql_foldl_and:
  "sql_value sn col q = Some b \<Longrightarrow> list_all2 (\<lambda>p v. sql_value sn col p = Some v) ps vs \<Longrightarrow>
     sql_value sn col (foldl SqlAnd q ps) = Some (b \<and> list_all id vs)"
  by (induction ps arbitrary: q b vs) (auto simp: list_all2_Cons1)

lemma sql_foldl_or:
  "sql_value sn col q = Some b \<Longrightarrow> list_all2 (\<lambda>p v. sql_value sn col p = Some v) ps vs \<Longrightarrow>
     sql_value sn col (foldl SqlOr q ps) = Some (b \<or> list_ex id vs)"
  by (induction ps arbitrary: q b vs) (auto simp: list_all2_Cons1)

lemma compile_sql_correct:
  shows "compile_sql ss n = Inr q \<Longrightarrow> readable sn ra col row n \<Longrightarrow> sql_value sn col q = Some (evaluate_search sn ra row n)"
    and "compile_all ss ns = Inr qs \<Longrightarrow> list_all (readable sn ra col row) ns \<Longrightarrow>
      list_all2 (\<lambda>p v. sql_value sn col p = Some v) qs (map (evaluate_search sn ra row) ns)"
proof (induction ss n and ss ns arbitrary: q and qs rule: compile_sql_compile_all.induct)
  case (1 ss ns)
  then obtain qs where qs: "compile_all ss ns = Inr qs" "q = joined SqlAnd qs" by (auto simp: map_sum_Inr)
  with 1 have "list_all2 (\<lambda>p v. sql_value sn col p = Some v) qs (map (evaluate_search sn ra row) ns)" "ns \<noteq> []" by auto
  then obtain p ps v vs where "qs = p # ps" "map (evaluate_search sn ra row) ns = v # vs"
      "sql_value sn col p = Some v" "list_all2 (\<lambda>p v. sql_value sn col p = Some v) ps vs"
    by (cases ns) (auto simp: list_all2_Cons2)
  moreover from this(2) have "list_all (evaluate_search sn ra row) ns \<longleftrightarrow> v \<and> list_all id vs"
    unfolding list_all_map_id(1) [of "evaluate_search sn ra row"] by simp
  ultimately show ?case using qs by (simp add: joined_def sql_foldl_and)
next
  case (2 ss ns)
  then obtain qs where qs: "compile_all ss ns = Inr qs" "q = joined SqlOr qs" by (auto simp: map_sum_Inr)
  with 2 have "list_all2 (\<lambda>p v. sql_value sn col p = Some v) qs (map (evaluate_search sn ra row) ns)" "ns \<noteq> []" by auto
  then obtain p ps v vs where "qs = p # ps" "map (evaluate_search sn ra row) ns = v # vs"
      "sql_value sn col p = Some v" "list_all2 (\<lambda>p v. sql_value sn col p = Some v) ps vs"
    by (cases ns) (auto simp: list_all2_Cons2)
  moreover from this(2) have "list_ex (evaluate_search sn ra row) ns \<longleftrightarrow> v \<or> list_ex id vs"
    unfolding list_all_map_id(2) [of "evaluate_search sn ra row"] by simp
  ultimately show ?case using qs by (simp add: joined_def sql_foldl_or)
next
  case (5 ss f path m)
  then obtain c where c: "sf_sql f = Some c" "field_predicate c (is_numeric_field f) m = Inr q"
    by (auto split: option.splits)
  with 5 field_predicate_correct [OF c(2), of col sn] show ?case by (simp split: if_splits)
qed (auto simp: map_sum_Inr split: sum.splits)

text \<open>
  C17: the compiled SQL and the evaluation in memory agree where \<open>LOWER\<close> does what \<open>toLowerCase\<close> does. For every
  query on fields that compiles, and every row whose columns hold what the schema reads in memory and whose
  text columns hold no accented capital, the SQL condition is never null and is true exactly when the query
  matches the row: wildcards and LIKE patterns with their escapes, case, missing values under negation,
  comparisons and ranges included. The query itself may hold any letters.
\<close>

theorem search_sql_agrees:
  assumes "compile_sql ss n = Inr q" and "readable sn ra col row n"
  shows "sql_value sn col q = Some (evaluate_search sn ra row n)"
  using assms by (rule compile_sql_correct(1))

definition path_field :: search_field where
  "path_field = \<lparr>sf_name = ''path'', sf_aliases = [], sf_type = TextField, sf_sql = Some ''path''\<rparr>"

definition latency_field :: search_field where
  "latency_field = \<lparr>sf_name = ''latency'', sf_aliases = [], sf_type = NumberField, sf_sql = Some ''latency_ms''\<rparr>"

definition pair_access :: "(string \<times> rat option) row_access" where
  "pair_access = \<lparr>ra_get = (\<lambda>f (p, l). if sf_name f = ''path'' then VText p else case_option VNull VNumber l),
     ra_dynamic = (\<lambda>_ _. VNull), ra_text = fst\<rparr>"

definition pair_column :: "string \<times> rat option \<Rightarrow> string \<Rightarrow> field_value" where
  "pair_column r c = (if c = ''path'' then VText (fst r) else case_option VNull VNumber (snd r))"

definition sample_query :: search_node where
  "sample_query = NAnd [NField path_field None (MatchEquals (''/API/'' @ [glob_any]) True),
     NNot (NField latency_field None (MatchCompare Gt ''100''))]"

theorem search_sql_agrees_witness:
  "\<exists>q. compile_sql \<lparr>ss_text_sql = [], ss_exact_sql = []\<rparr> sample_query = Inr q
     \<and> sql_value (\<lambda>_. []) (pair_column (''/api/x%'', None)) q = Some True"
proof -
  have "\<not> isl (compile_sql \<lparr>ss_text_sql = [], ss_exact_sql = []\<rparr> sample_query)" by code_simp
  then obtain q where q: "compile_sql \<lparr>ss_text_sql = [], ss_exact_sql = []\<rparr> sample_query = Inr q"
    by (cases "compile_sql \<lparr>ss_text_sql = [], ss_exact_sql = []\<rparr> sample_query") auto
  have r: "readable (\<lambda>_. []) pair_access (pair_column (''/api/x%'', None)) (''/api/x%'', None) sample_query" by code_simp
  have "evaluate_search (\<lambda>_. []) pair_access (''/api/x%'', None) sample_query" by code_simp
  with search_sql_agrees [OF q r] q show ?thesis by simp
qed

text \<open>
  A text with an accented capital is found in memory but not in the database: the query for exactly that
  text matches the row, while the SQL condition is false, because the value is folded by \<open>toLowerCase\<close> and the
  column by \<open>LOWER\<close>.
\<close>

theorem accented_capital_not_found:
  assumes "\<not> is_numeric_field f" and "sf_sql f = Some c" and "col c = ra_get ra f row"
    and "\<not> ascii_cased (string_value sn (col c))"
  shows "\<exists>q. compile_sql ss (NField f None (MatchEquals (string_value sn (col c)) False)) = Inr q
    \<and> evaluate_search sn ra row (NField f None (MatchEquals (string_value sn (col c)) False)) \<and> sql_value sn col q = Some False"
  using assms by (simp add: field_predicate_def matches_value_def sqlite_lower_iff)

theorem accented_capital_not_found_witness:
  "\<exists>q. compile_sql \<lparr>ss_text_sql = [], ss_exact_sql = []\<rparr> (NField path_field None (MatchEquals [CHR ''/'', CHR 0xC9] False)) = Inr q
    \<and> sql_value (\<lambda>_. []) (pair_column ([CHR ''/'', CHR 0xC9], None)) q = Some False"
proof -
  let ?r = "([CHR ''/'', CHR 0xC9], None) :: string \<times> rat option"
  have f: "\<not> is_numeric_field path_field \<and> sf_sql path_field = Some ''path''" by code_simp
  have r: "pair_column ?r ''path'' = ra_get pair_access path_field ?r" "string_value (\<lambda>_. []) (pair_column ?r ''path'') = [CHR ''/'', CHR 0xC9]"
    by (simp_all add: pair_column_def pair_access_def path_field_def string_value_def)
  have a: "\<not> ascii_cased [CHR ''/'', CHR 0xC9]" by code_simp
  show ?thesis
    using accented_capital_not_found [of path_field "''path''" "pair_column ?r" pair_access ?r "\<lambda>_. []"] f r a by auto
qed

text \<open>A value the parser accepts as a number is one: the compiler never meets another.\<close>

lemma join_split_on: "join [d] (split_on d s) = s"
proof (induction s)
  case (Cons c cs)
  then show ?case by (cases "split_on d cs" rule: remdups_adj.cases) auto
qed simp

definition decimal_char :: "char \<Rightarrow> bool" where
  "decimal_char c \<longleftrightarrow> is_digit c \<or> c = CHR ''.''"

lemma decimal_char_props:
  assumes "decimal_char c"
  shows "\<not> is_space c" "\<not> is_exp_mark c" "c \<noteq> CHR ''-''" "c \<noteq> CHR ''+''" "lower_char c \<notin> set ''xobI''"
  using assms by (auto simp: decimal_char_def char_class_defs is_exp_mark_def char_eq_code_iff code_lower_char)

lemma unsigned_decimal_text:
  assumes "list_all is_digit a" and "a \<noteq> []" and "s = a \<or> (\<exists>b. s = a @ CHR ''.'' # b \<and> list_all is_digit b)"
  shows "unsigned_decimal s \<noteq> None" and "list_all decimal_char s"
proof -
  show dc: "list_all decimal_char s" using assms by (auto simp: list_all_iff decimal_char_def)
  have e: "takeWhile (Not \<circ> is_exp_mark) s = s" "dropWhile (Not \<circ> is_exp_mark) s = []"
    using dc decimal_char_props(2) by (auto simp: list_all_iff takeWhile_eq_all_conv dropWhile_eq_Nil_conv)
  have nd: "\<not> is_digit CHR ''.''" by (simp add: is_digit_def)
  have "decimal_mantissa s \<noteq> None"
  proof (cases "s = a")
    case True
    have t: "takeWhile is_digit a = a" and d: "dropWhile is_digit a = []"
      using assms(1) by (auto simp: list_all_iff takeWhile_eq_all_conv dropWhile_eq_Nil_conv)
    show ?thesis unfolding True decimal_mantissa_def Let_def t d using assms(2) by simp
  next
    case False
    with assms(3) obtain b where b: "s = a @ CHR ''.'' # b" "list_all is_digit b" by auto
    have "takeWhile is_digit s = a" "dropWhile is_digit s = CHR ''.'' # b"
      using assms(1) nd by (auto simp: b list_all_iff takeWhile_append dropWhile_append)
    with b assms(2) show ?thesis by (simp add: decimal_mantissa_def)
  qed
  with e show "unsigned_decimal s \<noteq> None" by (auto simp only: unsigned_decimal_def Let_def split: option.splits prod.splits list.splits)
qed

lemma numeric_text_number:
  assumes "numeric_text s"
  shows "number_of s \<noteq> None"
proof -
  define u where "u = (if starts_with ''-'' s then tl s else s)"
  have "split_on CHR ''.'' u \<noteq> []" by simp
  with assms obtain a where a: "list_all is_digit a" "a \<noteq> []" "u = a \<or> (\<exists>b. u = a @ CHR ''.'' # b \<and> list_all is_digit b)"
    using join_split_on [of "CHR ''.''" u] unfolding numeric_text_def u_def [symmetric]
    by (auto split: list.splits)
  note ud = unsigned_decimal_text [OF a]
  have une: "u \<noteq> []" using a by auto
  have s: "s = u \<or> s = CHR ''-'' # u" by (cases s) (auto simp: u_def starts_with_def)
  have sp: "\<forall>c \<in> set s. \<not> is_space c" using s ud(2) decimal_char_props(1) by (auto simp: list_all_iff is_space_def)
  have "lower_char CHR ''-'' \<notin> set ''xobI''" by code_simp
  then have "\<forall>c \<in> set s. lower_char c \<notin> set ''xobI''"
    using s ud(2) decimal_char_props(5) by (metis list_all_iff set_ConsD)
  then have "radix_prefix s = None"
    by (cases s rule: remdups_adj.cases) (auto simp: radix_prefix_def to_lower_def Let_def)
  moreover have "strip_sign s = (s \<noteq> u, u)"
    using s une ud(2) decimal_char_props(3,4) by (cases u) (auto simp: strip_sign_def)
  moreover have "u \<noteq> ''Infinity''" using ud(2) by (auto simp: decimal_char_def is_digit_def)
  ultimately show ?thesis using ud(1) une s trim_clean [OF sp] by (auto simp: number_of_def js_number_def)
qed

end
