(* ===== verification/Form_Inspection.thy ===== *)
theory Form_Inspection
  imports Static_Cache
begin

text \<open>
  The inspection of form bodies and query strings (\<open>services/request-input-inspector.ts\<close>): the
  scanners for URL-encoded and multipart bodies, which are fed chunk by chunk, and the inspector that
  enforces the limits of a route. Each scanner is compared with a definition over the whole body, so the
  verdict does not depend on where the network cuts the body. Bytes are characters; the
  message of a violation is not kept, its status and code are.
\<close>

section \<open>Limits and violations\<close>

record ('n) limits_of =
  rl_max_body_bytes :: 'n
  rl_max_request_target_bytes :: 'n
  rl_max_header_bytes :: 'n
  rl_max_header_count :: 'n
  rl_max_input_fields :: 'n
  rl_max_multipart_parts :: 'n
  rl_max_input_nesting_depth :: 'n

type_synonym request_limits = "int limits_of"

record limit_violation =
  lv_status :: nat
  lv_code :: string

datatype body_kind = UrlEncoded | Multipart

definition form_body_kind :: "string option \<Rightarrow> body_kind option" where
  "form_body_kind ct =
     (case ct of
        None \<Rightarrow> None
      | Some [] \<Rightarrow> None
      | Some t \<Rightarrow>
          (let media_type = to_lower (takeWhile (\<lambda>c. c \<noteq> CHR '';'' \<and> c \<noteq> CHR '','' \<and> c \<noteq> CHR '' '') t) in
           if media_type = ''application/x-www-form-urlencoded'' then Some UrlEncoded
           else if media_type = ''multipart/form-data'' then Some Multipart
           else None))"

text \<open>\<open>text.indexOf(needle, from)\<close>, as an index from the start of the text.\<close>

definition index_of :: "string \<Rightarrow> string \<Rightarrow> nat \<Rightarrow> nat option" where
  "index_of needle text from = find (\<lambda>i. take (length needle) (drop i text) = needle) [from..<Suc (length text)]"

definition multipart_boundary :: "string \<Rightarrow> string option" where
  "multipart_boundary ct =
     (let start = (case index_of ''boundary'' ct 0 of
                     Some i \<Rightarrow> Some i | None \<Rightarrow> index_of ''boundary'' (to_lower ct) 0) in
      case start of
        None \<Rightarrow> None
      | Some s \<Rightarrow>
          (case index_of ''='' ct s of
             None \<Rightarrow> None
           | Some e \<Rightarrow>
               (let boundary = drop (Suc e) ct in
                if starts_with [CHR 0x22] boundary
                then (case index_of [CHR 0x22] boundary 1 of
                        None \<Rightarrow> None
                      | Some q \<Rightarrow> Some (take (q - 1) (drop 1 boundary)))
                else Some (takeWhile (\<lambda>c. c \<noteq> CHR '','' \<and> c \<noteq> CHR '';'') boundary))))"

section \<open>The scanner of URL-encoded bodies\<close>

record url_scanner =
  us_fields :: nat
  us_max_depth :: nat
  us_at_field_start :: bool
  us_in_key :: bool
  us_depth :: nat
  us_percent :: nat

definition new_url_scanner :: url_scanner where
  "new_url_scanner = \<lparr>us_fields = 0, us_max_depth = 0, us_at_field_start = True, us_in_key = False, us_depth = 0, us_percent = 0\<rparr>"

definition is_separator :: "char \<Rightarrow> bool" where
  "is_separator c \<longleftrightarrow> c = CHR ''&'' \<or> c = CHR '';''"

definition is_b :: "char \<Rightarrow> bool" where
  "is_b c \<longleftrightarrow> c = CHR ''b'' \<or> c = CHR ''B''"

definition begin_field :: "url_scanner \<Rightarrow> url_scanner" where
  "begin_field s =
     (if us_at_field_start s
      then s\<lparr>us_at_field_start := False, us_fields := Suc (us_fields s), us_in_key := True, us_depth := 0, us_percent := 0\<rparr>
      else s)"

definition scan_key :: "char \<Rightarrow> url_scanner \<Rightarrow> url_scanner" where
  "scan_key c s =
     (if \<not> us_in_key s then s
      else if c = CHR ''='' then s\<lparr>us_in_key := False\<rparr>
      else if c = CHR ''['' \<or> (us_percent s = 2 \<and> is_b c)
      then s\<lparr>us_depth := Suc (us_depth s), us_max_depth := max (us_max_depth s) (Suc (us_depth s)),
             us_percent := if c = CHR ''%'' then 1 else 0\<rparr>
      else if us_percent s = 1 \<and> c = CHR ''5'' then s\<lparr>us_percent := 2\<rparr>
      else s\<lparr>us_percent := if c = CHR ''%'' then 1 else 0\<rparr>)"

definition url_step :: "char \<Rightarrow> url_scanner \<Rightarrow> url_scanner" where
  "url_step c s = (if is_separator c then s\<lparr>us_at_field_start := True\<rparr> else scan_key c (begin_field s))"

text \<open>\<open>%5b\<close> or an opening bracket at the head of the text.\<close>

fun opens_bracket :: "string \<Rightarrow> bool" where
  "opens_bracket (c # cs) \<longleftrightarrow>
     c = CHR ''['' \<or> (c = CHR ''%'' \<and> (case cs of d # e # _ \<Rightarrow> d = CHR ''5'' \<and> is_b e | _ \<Rightarrow> False))"
| "opens_bracket [] \<longleftrightarrow> False"

text \<open>Whether the regular expression that \<open>feed\<close> picks for the state matches at the head of the text.\<close>

fun stops_at :: "url_scanner \<Rightarrow> string \<Rightarrow> bool" where
  "stops_at s (c # cs) \<longleftrightarrow>
     (if us_at_field_start s then \<not> is_separator c
      else if us_in_key s then is_separator c \<or> c = CHR ''='' \<or> opens_bracket (c # cs)
      else is_separator c)"
| "stops_at s [] \<longleftrightarrow> False"

fun seek_stop :: "url_scanner \<Rightarrow> string \<Rightarrow> string" where
  "seek_stop s [] = []"
| "seek_stop s (c # cs) = (if stops_at s (c # cs) then c # cs else seek_stop s cs)"

lemma length_seek_stop: "length (seek_stop s cs) \<le> length cs"
  by (induction cs) auto

definition pending_percent :: "string \<Rightarrow> url_scanner \<Rightarrow> url_scanner" where
  "pending_percent rest s =
     (if us_in_key s \<and> \<not> us_at_field_start s
      then if 2 \<le> length rest \<and> ends_with ''%5'' rest then s\<lparr>us_percent := 2\<rparr>
           else if ends_with ''%'' rest then s\<lparr>us_percent := 1\<rparr> else s
      else s)"

function url_feed :: "string \<Rightarrow> url_scanner \<Rightarrow> url_scanner" where
  "url_feed rest s =
     (if rest = [] then s
      else if us_percent s = 0
      then (case seek_stop s rest of
              [] \<Rightarrow> pending_percent rest s
            | c # rest' \<Rightarrow> url_feed rest' (url_step c s))
      else url_feed (tl rest) (url_step (hd rest) s))"
  by auto
termination
proof (relation "measure (\<lambda>(rest, s). length rest)", goal_cases)
  case (2 rest s c rest')
  have "length (seek_stop s rest) \<le> length rest" by (rule length_seek_stop)
  with 2 show ?case by simp
qed auto

declare url_feed.simps [simp del]

section \<open>What the scanner counts\<close>

text \<open>The pieces of a text between separators, and the brackets in the name of a field.\<close>

fun pieces :: "string \<Rightarrow> string list" where
  "pieces [] = [[]]"
| "pieces (c # cs) = (if is_separator c then [] # pieces cs else (c # hd (pieces cs)) # tl (pieces cs))"

fun brackets :: "string \<Rightarrow> nat" where
  "brackets [] = 0"
| "brackets (c # cs) = (if opens_bracket (c # cs) then 1 else 0) + brackets cs"

definition field_count :: "string \<Rightarrow> nat" where
  "field_count text = length (filter (\<lambda>w. w \<noteq> []) (pieces text))"

definition field_depth :: "string \<Rightarrow> nat" where
  "field_depth field = brackets (takeWhile (\<lambda>c. c \<noteq> CHR ''='') field)"

definition nesting_depth :: "string \<Rightarrow> nat" where
  "nesting_depth text = fold max (map field_depth (pieces text)) 0"

text \<open>The percent state after the characters of a name.\<close>

definition next_percent :: "char \<Rightarrow> nat \<Rightarrow> nat" where
  "next_percent c q = (if q = 1 \<and> c = CHR ''5'' then 2 else if c = CHR ''%'' then 1 else 0)"

abbreviation percent_after :: "string \<Rightarrow> nat" where
  "percent_after p \<equiv> fold next_percent p 0"

lemma pieces_not_Nil [simp]: "pieces s \<noteq> []"
  by (induction s) auto

lemma pieces_snoc:
  "pieces (t @ [c]) = (if is_separator c then pieces t @ [[]] else butlast (pieces t) @ [last (pieces t) @ [c]])"
proof (induction t)
  case (Cons a t)
  obtain w ws where "pieces t = w # ws" using pieces_not_Nil [of t] by (cases "pieces t") auto
  then show ?case using Cons by (cases ws) auto
qed auto

lemma fold_max_snoc: "fold max (xs @ [x]) (a::nat) = max x (fold max xs a)"
  by simp

lemma percent_after_snoc: "percent_after (p @ [c]) = next_percent c (percent_after p)"
  by simp

lemma percent_after_cases:
  "percent_after p = (if ends_with ''%5'' p then 2 else if ends_with ''%'' p then 1 else 0)"
proof (induction p rule: rev_induct)
  case (snoc c p)
  show ?case
    by (cases p rule: rev_cases) (auto simp: snoc next_percent_def ends_with_def)
qed (simp add: ends_with_def)

lemma brackets_snoc:
  "brackets (p @ [c]) = brackets p + (if c = CHR ''['' \<or> (percent_after p = 2 \<and> is_b c) then 1 else 0)"
proof -
  have "brackets (p @ [c]) = brackets p + (if c = CHR ''['' \<or> (ends_with ''%5'' p \<and> is_b c) then 1 else 0)"
  proof (induction p)
    case (Cons a p)
    show ?case
    proof (cases p)
      case Nil
      then show ?thesis by (auto simp: ends_with_def)
    next
      case (Cons b q)
      show ?thesis using Cons.IH unfolding Cons
        by (cases q) (auto simp: ends_with_def is_b_def Suc_diff_le)
    qed
  qed (simp add: ends_with_def)
  then show ?thesis by (simp only: percent_after_cases) auto
qed


text \<open>The state of a scanner that has seen a text, in terms of the pieces of the text.\<close>

definition url_seen :: "string \<Rightarrow> url_scanner \<Rightarrow> bool" where
  "url_seen t s \<longleftrightarrow> us_fields s = field_count t \<and> us_max_depth s = nesting_depth t \<and>
     us_at_field_start s = (last (pieces t) = []) \<and>
     (\<not> us_at_field_start s \<longrightarrow> us_in_key s = (CHR ''='' \<notin> set (last (pieces t)))) \<and>
     (\<not> us_at_field_start s \<and> us_in_key s \<longrightarrow>
        us_depth s = brackets (last (pieces t)) \<and> us_percent s = percent_after (last (pieces t)))"

lemma url_seen_new: "url_seen [] new_url_scanner"
  by (simp add: url_seen_def new_url_scanner_def field_count_def nesting_depth_def field_depth_def)

lemma field_depth_key: "CHR ''='' \<notin> set p \<Longrightarrow> field_depth p = brackets p"
proof -
  assume "CHR ''='' \<notin> set p"
  then have "takeWhile (\<lambda>c. c \<noteq> CHR ''='') p = p" by (subst takeWhile_eq_all_conv) auto
  then show ?thesis by (simp only: field_depth_def)
qed

lemma field_depth_snoc:
  "field_depth (p @ [c]) =
     (if CHR ''='' \<in> set p then field_depth p
      else if c = CHR ''='' then brackets p else brackets (p @ [c]))"
proof (cases "CHR ''='' \<in> set p")
  case True
  then have "takeWhile (\<lambda>c. c \<noteq> CHR ''='') (p @ [c]) = takeWhile (\<lambda>c. c \<noteq> CHR ''='') p"
    by (rule takeWhile_append1) simp
  then show ?thesis using True by (simp add: field_depth_def)
next
  case False
  then have "takeWhile (\<lambda>c. c \<noteq> CHR ''='') (p @ [c]) = p @ takeWhile (\<lambda>c. c \<noteq> CHR ''='') [c]"
    by (intro takeWhile_append2) auto
  then show ?thesis using False by (simp add: field_depth_def)
qed

lemma nesting_depth_split: "nesting_depth t = max (field_depth (last (pieces t))) (fold max (map field_depth (butlast (pieces t))) 0)"
proof -
  have "map field_depth (pieces t) = map field_depth (butlast (pieces t)) @ [field_depth (last (pieces t))]"
    by (metis append_butlast_last_id list.simps(8,9) map_append pieces_not_Nil)
  then show ?thesis by (simp add: nesting_depth_def)
qed

lemma field_count_split:
  "field_count t = length (filter (\<lambda>w. w \<noteq> []) (butlast (pieces t))) + (if last (pieces t) = [] then 0 else 1)"
proof -
  have "pieces t = butlast (pieces t) @ [last (pieces t)]" by simp
  then have "filter (\<lambda>w. w \<noteq> []) (pieces t) = filter (\<lambda>w. w \<noteq> []) (butlast (pieces t)) @ filter (\<lambda>w. w \<noteq> []) [last (pieces t)]"
    by (metis filter_append)
  then show ?thesis by (simp add: field_count_def)
qed

lemma url_seen_separator:
  assumes "url_seen t s" and "is_separator c"
  shows "url_seen (t @ [c]) (url_step c s)"
proof -
  have "field_count (t @ [c]) = field_count t" using assms(2) by (simp add: field_count_def pieces_snoc)
  moreover have "nesting_depth (t @ [c]) = nesting_depth t"
    using assms(2) by (simp add: nesting_depth_def pieces_snoc field_depth_def)
  ultimately show ?thesis using assms by (simp add: url_seen_def url_step_def pieces_snoc)
qed

lemma url_seen_other:
  assumes s: "url_seen t s" and c: "\<not> is_separator c"
  shows "url_seen (t @ [c]) (url_step c s)"
proof -
  define p where "p = last (pieces t)"
  have p': "last (pieces (t @ [c])) = p @ [c]" and b: "butlast (pieces (t @ [c])) = butlast (pieces t)"
    using c by (simp_all add: pieces_snoc p_def)
  have fc: "field_count (t @ [c]) = field_count t + (if p = [] then 1 else 0)"
    unfolding field_count_split [of "t @ [c]"] field_count_split [of t] p' b by (simp add: p_def)
  have nd: "nesting_depth (t @ [c]) = max (nesting_depth t) (field_depth (p @ [c]))"
    unfolding nesting_depth_split [of "t @ [c]"] nesting_depth_split [of t] p' b
    by (auto simp: p_def [symmetric] field_depth_snoc field_depth_key brackets_snoc max_def)
  show ?thesis
  proof (cases "us_at_field_start s")
    case True
    then have "p = []" using s by (simp add: url_seen_def p_def)
    then show ?thesis using s c True
      by (auto simp: url_seen_def url_step_def p' fc nd begin_field_def scan_key_def next_percent_def field_depth_def is_b_def)
  next
    case False
    then have pn: "p \<noteq> []" using s by (simp add: url_seen_def p_def)
    have bf: "begin_field s = s" using False by (simp add: begin_field_def)
    show ?thesis
    proof (cases "CHR ''='' \<in> set p")
      case True
      have "field_depth p \<le> nesting_depth t" by (simp add: nesting_depth_split p_def)
      then show ?thesis using s c True False pn
        by (auto simp: url_seen_def url_step_def p' fc nd bf scan_key_def p_def [symmetric] field_depth_snoc max_def)
    next
      case nokey: False
      have "brackets p \<le> nesting_depth t" using nokey by (simp add: nesting_depth_split p_def field_depth_key)
      then show ?thesis using s c nokey False pn
        by (auto simp: url_seen_def url_step_def p' fc nd bf scan_key_def p_def [symmetric] field_depth_snoc
            brackets_snoc max_def next_percent_def is_b_def)
    qed
  qed
qed

lemma url_seen_step: "url_seen t s \<Longrightarrow> url_seen (t @ [c]) (url_step c s)"
  using url_seen_separator url_seen_other by blast

lemma url_seen_fold: "url_seen t s \<Longrightarrow> url_seen (t @ p) (fold url_step p s)"
proof (induction p arbitrary: t s)
  case (Cons c p)
  have "url_seen ((t @ [c]) @ p) (fold url_step p (url_step c s))" by (rule Cons.IH [OF url_seen_step [OF Cons.prems]])
  then show ?case by simp
qed simp

text \<open>
  Between two stops of \<open>feed\<close> inside a name, stepping would only move the percent state; \<open>tame q cs\<close> says
  that no escaped bracket is completed at the head of the rest.
\<close>

definition tame :: "nat \<Rightarrow> string \<Rightarrow> bool" where
  "tame q cs \<longleftrightarrow> (q = 1 \<longrightarrow> \<not> opens_bracket (CHR ''%'' # cs)) \<and> (q = 2 \<longrightarrow> cs = [] \<or> \<not> is_b (hd cs))"

lemma skip_key:
  assumes "\<not> us_at_field_start s" and "us_in_key s" and "tame q cs"
  shows "\<exists>p. cs = p @ seek_stop s cs \<and> fold url_step p (s\<lparr>us_percent := q\<rparr>) = s\<lparr>us_percent := fold next_percent p q\<rparr>"
  using assms(3)
proof (induction cs arbitrary: q)
  case (Cons c cs)
  show ?case
  proof (cases "stops_at s (c # cs)")
    case True
    then show ?thesis by (intro exI [of _ "[]"]) (simp del: stops_at.simps)
  next
    case False
    then have c: "\<not> is_separator c" "c \<noteq> CHR ''=''" "\<not> opens_bracket (c # cs)" using assms by simp_all
    have step: "url_step c (s\<lparr>us_percent := q\<rparr>) = s\<lparr>us_percent := next_percent c q\<rparr>"
      using c assms(1,2) Cons.prems
      by (auto simp: url_step_def begin_field_def scan_key_def next_percent_def tame_def)
    have "tame (next_percent c q) cs"
      using c Cons.prems by (auto simp: tame_def next_percent_def split: list.splits if_splits)
    from Cons.IH [OF this] obtain p where "cs = p @ seek_stop s cs"
      "fold url_step p (s\<lparr>us_percent := next_percent c q\<rparr>) = s\<lparr>us_percent := fold next_percent p (next_percent c q)\<rparr>"
      by blast
    then show ?thesis using False step by (intro exI [of _ "c # p"]) (simp del: stops_at.simps)
  qed
qed simp

lemma skip_other:
  assumes "us_at_field_start s \<or> \<not> us_in_key s"
  shows "\<exists>p. cs = p @ seek_stop s cs \<and> fold url_step p s = s"
proof (induction cs)
  case (Cons c cs)
  show ?case
  proof (cases "stops_at s (c # cs)")
    case True
    then show ?thesis by (intro exI [of _ "[]"]) (simp del: stops_at.simps)
  next
    case False
    then have step: "url_step c s = s" using assms
      by (auto simp: url_step_def begin_field_def scan_key_def split: if_splits)
    from Cons.IH obtain p where "cs = p @ seek_stop s cs" "fold url_step p s = s" by blast
    then show ?thesis using False step by (intro exI [of _ "c # p"]) (simp del: stops_at.simps)
  qed
qed simp

lemma seek_stop_stops: "seek_stop s cs = c # r \<Longrightarrow> stops_at s (c # r)"
  by (induction cs) (auto split: if_splits simp del: stops_at.simps)

lemma step_at_stop:
  assumes "url_seen t (s\<lparr>us_percent := q\<rparr>)" and "us_percent s = 0" and "\<not> us_at_field_start s" and "us_in_key s"
    and "stops_at s (c # r)"
  shows "url_seen (t @ [c]) (url_step c s)"
  using url_seen_step [OF assms(1), of c] assms(2-5)
  by (auto simp: url_step_def begin_field_def scan_key_def url_seen_def is_separator_def is_b_def split: if_splits)

lemma url_seen_feed: "url_seen t s \<Longrightarrow> url_seen (t @ rest) (url_feed rest s)"
proof (induction rest s arbitrary: t rule: url_feed.induct)
  case (1 rest s)
  consider "rest = []" | "rest \<noteq> []" "us_percent s \<noteq> 0" | "rest \<noteq> []" "us_percent s = 0" by blast
  then show ?case
  proof cases
    case 2
    have "url_seen ((t @ [hd rest]) @ tl rest) (url_feed (tl rest) (url_step (hd rest) s))"
      by (rule "1.IH"(2) [OF 2 url_seen_step [OF "1.prems"]])
    then show ?thesis using 2 by (subst url_feed.simps) simp
  next
    case 3
    show ?thesis
    proof (cases "\<not> us_at_field_start s \<and> us_in_key s")
      case True
      have "\<exists>p. rest = p @ seek_stop s rest \<and> fold url_step p (s\<lparr>us_percent := 0\<rparr>) = s\<lparr>us_percent := fold next_percent p 0\<rparr>"
        using True by (intro skip_key) (auto simp: tame_def)
      then obtain p where p: "rest = p @ seek_stop s rest" and "fold url_step p (s\<lparr>us_percent := 0\<rparr>) = s\<lparr>us_percent := percent_after p\<rparr>"
        by blast
      moreover have "s\<lparr>us_percent := 0\<rparr> = s" using 3 by simp
      ultimately have seen: "url_seen (t @ p) (s\<lparr>us_percent := percent_after p\<rparr>)"
        using url_seen_fold [OF "1.prems", of p] by simp
      show ?thesis
      proof (cases "seek_stop s rest")
        case Nil
        have "pending_percent rest s = s\<lparr>us_percent := percent_after p\<rparr>"
          using True 3 p Nil by (auto simp: pending_percent_def percent_after_cases ends_with_def)
        then show ?thesis using seen p Nil 3 by (subst url_feed.simps) simp
      next
        case (Cons c r)
        have "url_seen ((t @ p) @ [c]) (url_step c s)"
          using step_at_stop [OF seen 3(2) _ _ seek_stop_stops [OF Cons]] True by blast
        from "1.IH"(1) [OF 3 Cons this] show ?thesis using 3 p Cons by (subst url_feed.simps) simp
      qed
    next
      case False
      then obtain p where p: "rest = p @ seek_stop s rest" and "fold url_step p s = s" using skip_other by blast
      then have seen: "url_seen (t @ p) s" using url_seen_fold [OF "1.prems", of p] by simp
      show ?thesis
      proof (cases "seek_stop s rest")
        case Nil
        then show ?thesis using False 3 seen p by (subst url_feed.simps) (auto simp: pending_percent_def)
      next
        case (Cons c r)
        from "1.IH"(1) [OF 3 Cons url_seen_step [OF seen]] show ?thesis using 3 p Cons by (subst url_feed.simps) simp
      qed
    qed
  qed (simp add: url_feed.simps "1.prems")
qed

section \<open>The scanner of multipart bodies\<close>

datatype part_mode = DelimiterLine | PartHeaders | PartContent

record multipart_scanner =
  ms_delimiter :: string
  ms_parts :: nat
  ms_max_depth :: nat
  ms_carry :: string
  ms_mode :: part_mode
  ms_line_length :: nat
  ms_depth :: nat

definition new_multipart_scanner :: "string \<Rightarrow> multipart_scanner" where
  "new_multipart_scanner boundary = \<lparr>ms_delimiter = ''--'' @ boundary, ms_parts = 0, ms_max_depth = 0, ms_carry = [],
     ms_mode = PartContent, ms_line_length = 0, ms_depth = 0\<rparr>"

definition walk_byte :: "char \<Rightarrow> multipart_scanner \<Rightarrow> multipart_scanner" where
  "walk_byte c s =
     (case ms_mode s of
        PartContent \<Rightarrow> s
      | DelimiterLine \<Rightarrow>
          if c = CHR 0x0a then s\<lparr>ms_mode := PartHeaders, ms_line_length := 0, ms_depth := 0\<rparr> else s
      | PartHeaders \<Rightarrow>
          if c = CHR 0x0a
          then s\<lparr>ms_mode := if ms_line_length s = 0 then PartContent else PartHeaders, ms_line_length := 0\<rparr>
          else if c = CHR 0x0d then s
          else if c = CHR ''[''
          then s\<lparr>ms_line_length := Suc (ms_line_length s), ms_depth := Suc (ms_depth s),
                 ms_max_depth := max (ms_max_depth s) (Suc (ms_depth s))\<rparr>
          else s\<lparr>ms_line_length := Suc (ms_line_length s)\<rparr>)"

fun walk :: "string \<Rightarrow> multipart_scanner \<Rightarrow> multipart_scanner" where
  "walk [] s = s"
| "walk (c # cs) s = (if ms_mode s = PartContent then s else walk cs (walk_byte c s))"

definition part_found :: "multipart_scanner \<Rightarrow> multipart_scanner" where
  "part_found s = s\<lparr>ms_parts := Suc (ms_parts s), ms_mode := DelimiterLine\<rparr>"

lemma index_of_SomeD:
  "index_of d data n = Some m \<Longrightarrow>
     n \<le> m \<and> m + length d \<le> length data \<and> take (length d) (drop m data) = d \<and>
     (\<forall>i. n \<le> i \<and> i < m \<longrightarrow> take (length d) (drop i data) \<noteq> d)"
proof -
  assume "index_of d data n = Some m"
  then obtain j where j: "j < length [n..<Suc (length data)]" "[n..<Suc (length data)] ! j = m"
    "take (length d) (drop m data) = d" and less: "\<forall>i<j. take (length d) (drop ([n..<Suc (length data)] ! i) data) \<noteq> d"
    by (auto simp: index_of_def find_Some_iff simp del: upt_Suc)
  have m: "m = n + j" "m \<le> length data" using j by (auto simp del: upt_Suc)
  have "length (take (length d) (drop m data)) = length d" using j(3) by (rule arg_cong)
  moreover have "take (length d) (drop i data) \<noteq> d" if "n \<le> i" "i < m" for i
    using less [rule_format, of "i - n"] that m j(1) by (simp del: upt_Suc)
  ultimately show ?thesis using m j(3) by auto
qed

text \<open>The loop of \<open>feed\<close> over the carried bytes and the chunk.\<close>

function scan_data :: "string \<Rightarrow> string \<Rightarrow> nat \<Rightarrow> nat \<Rightarrow> multipart_scanner \<Rightarrow> multipart_scanner" where
  "scan_data d data cursor search_from s =
     (case index_of d data search_from of
        None \<Rightarrow> walk (drop cursor data) s
      | Some m \<Rightarrow>
          scan_data d data (m + length d) (Suc m) (part_found (walk (take (m + length d - cursor) (drop cursor data)) s)))"
  by auto

termination
  by (relation "measure (\<lambda>(d, data, cursor, search_from, s). Suc (length data) - search_from)") (auto dest: index_of_SomeD)

declare scan_data.simps [simp del]

lemma index_of_NoneD: "index_of d data n = None \<Longrightarrow> n \<le> i \<Longrightarrow> i \<le> length data \<Longrightarrow> take (length d) (drop i data) \<noteq> d"
  by (auto simp: index_of_def find_None_iff)

definition multipart_feed :: "string \<Rightarrow> multipart_scanner \<Rightarrow> multipart_scanner" where
  "multipart_feed chunk s =
     (let d = ms_delimiter s; data = ms_carry s @ chunk in
      (scan_data d data (length (ms_carry s)) 0 s)\<lparr>ms_carry := drop (length data - (length d - 1)) data\<rparr>)"

section \<open>Multipart bodies byte by byte\<close>

text \<open>
  The reference reads the body once: a byte is first read in the current mode, and when it completes an
  occurrence of the delimiter a part begins.
\<close>

definition ends_delimiter :: "string \<Rightarrow> string \<Rightarrow> nat \<Rightarrow> bool" where
  "ends_delimiter d body k \<longleftrightarrow> length d \<le> Suc k \<and> take (length d) (drop (Suc k - length d) body) = d"

definition read_byte :: "string \<Rightarrow> string \<Rightarrow> nat \<Rightarrow> multipart_scanner \<Rightarrow> multipart_scanner" where
  "read_byte d body k s = (let s' = walk_byte (body ! k) s in if ends_delimiter d body k then part_found s' else s')"

definition read_multipart :: "string \<Rightarrow> string \<Rightarrow> multipart_scanner" where
  "read_multipart boundary body =
     fold (read_byte (''--'' @ boundary) body) [0..<length body] (new_multipart_scanner boundary)"

definition delimiter_count :: "string \<Rightarrow> string \<Rightarrow> nat" where
  "delimiter_count d body = length (filter (ends_delimiter d body) [0..<length body])"

lemma walk_byte_content [simp]: "ms_mode s = PartContent \<Longrightarrow> walk_byte c s = s"
  by (simp add: walk_byte_def)

lemma fold_walk_content: "ms_mode s = PartContent \<Longrightarrow> fold walk_byte cs s = s"
  by (induction cs) simp_all

lemma walk_fold: "walk cs s = fold walk_byte cs s"
  by (induction cs arbitrary: s) (simp_all add: fold_walk_content)

lemma fold_read_walk:
  assumes "i \<le> j" and "j \<le> length data" and "\<And>k. i \<le> k \<Longrightarrow> k < j \<Longrightarrow> \<not> ends_delimiter d data k"
  shows "fold (read_byte d data) [i..<j] s = walk (take (j - i) (drop i data)) s"
proof -
  have "fold (read_byte d data) [i..<j] s = fold (\<lambda>k. walk_byte (data ! k)) [i..<j] s"
    using assms(3) by (intro fold_cong) (auto simp: read_byte_def)
  also have "\<dots> = fold walk_byte (map (\<lambda>k. data ! k) [i..<j]) s" by (simp add: fold_map comp_def)
  also have "map (\<lambda>k. data ! k) [i..<j] = take (j - i) (drop i data)"
    using assms(1,2) by (auto simp: list_eq_iff_nth_eq min_def)
  finally show ?thesis by (simp add: walk_fold)
qed

lemma scan_data_reads:
  assumes "d \<noteq> []" and "cursor \<le> length data"
    and "Suc cursor = search_from + length d \<or> search_from = 0 \<and> cursor < length d"
  shows "scan_data d data cursor search_from s = fold (read_byte d data) [cursor..<length data] s"
  using assms
proof (induction d data cursor search_from s rule: scan_data.induct)
  case (1 d data cursor search_from s)
  show ?case
  proof (cases "index_of d data search_from")
    case None
    have "\<not> ends_delimiter d data k" if "cursor \<le> k" "k < length data" for k
    proof
      assume e: "ends_delimiter d data k"
      have "search_from \<le> Suc k - length d" and "Suc k - length d \<le> length data"
        using that "1.prems" by auto
      from index_of_NoneD [OF None this] show False using e by (simp add: ends_delimiter_def)
    qed
    then show ?thesis using None "1.prems" by (subst scan_data.simps) (simp add: fold_read_walk)
  next
    case (Some m)
    let ?e = "m + length d"
    note m = index_of_SomeD [OF Some]
    have ce: "cursor < ?e" using m "1.prems" by auto
    have no: "\<not> ends_delimiter d data k" if "cursor \<le> k" "k < ?e - 1" for k
    proof
      assume e: "ends_delimiter d data k"
      then have "search_from \<le> Suc k - length d" using that "1.prems" by (auto simp: ends_delimiter_def)
      then show False using e m that by (auto simp: ends_delimiter_def)
    qed
    obtain e where e: "?e = Suc e" using "1.prems"(1) by (cases d) auto
    have "Suc e - length d = m" using e by simp
    then have "ends_delimiter d data e" using m e by (simp add: ends_delimiter_def)
    moreover have "[cursor..<?e] = [cursor..<e] @ [e]" using ce e by simp
    moreover have "fold (read_byte d data) [cursor..<e] s = walk (take (e - cursor) (drop cursor data)) s"
      using ce m e no by (intro fold_read_walk) auto
    ultimately have "fold (read_byte d data) [cursor..<?e] s
        = part_found (walk_byte (data ! e) (walk (take (e - cursor) (drop cursor data)) s))"
      by (simp add: read_byte_def)
    moreover have "take (?e - cursor) (drop cursor data) = take (e - cursor) (drop cursor data) @ [data ! e]"
    proof -
      have "e - cursor < length (drop cursor data)" using ce m e by auto
      from take_Suc_conv_app_nth [OF this] show ?thesis using ce m e by (simp add: Suc_diff_le)
    qed
    ultimately have "fold (read_byte d data) [cursor..<?e] s = part_found (walk (take (?e - cursor) (drop cursor data)) s)"
      by (simp add: walk_fold)
    moreover have "[cursor..<length data] = [cursor..<?e] @ [?e..<length data]"
      using ce m upt_add_eq_append [of cursor ?e "length data - ?e"] by simp
    ultimately show ?thesis using "1.IH" [OF Some] m "1.prems"(1) Some by (subst scan_data.simps) simp
  qed
qed


lemma read_byte_carry: "read_byte d body k (s\<lparr>ms_carry := x\<rparr>) = (read_byte d body k s)\<lparr>ms_carry := x\<rparr>"
  by (auto simp: read_byte_def walk_byte_def part_found_def Let_def split: part_mode.splits)

lemma fold_read_carry:
  "fold (read_byte d body) ks (s\<lparr>ms_carry := x\<rparr>) = (fold (read_byte d body) ks s)\<lparr>ms_carry := x\<rparr>"
  by (induction ks arbitrary: s) (simp_all add: read_byte_carry)

lemma ends_delimiter_prefix: "k < length h \<Longrightarrow> ends_delimiter d (h @ x) k = ends_delimiter d h k"
  by (auto simp: ends_delimiter_def)

lemma ends_delimiter_suffix:
  assumes "ofs = 0 \<or> length d \<le> Suc k"
  shows "ends_delimiter d (drop ofs body) k \<longleftrightarrow> ends_delimiter d body (k + ofs)"
proof (cases "ofs = 0")
  case False
  with assms have "Suc k - length d + ofs = Suc (k + ofs) - length d" by simp
  then show ?thesis using assms False by (auto simp: ends_delimiter_def add.commute)
qed simp

definition multipart_seen :: "string \<Rightarrow> string \<Rightarrow> multipart_scanner \<Rightarrow> bool" where
  "multipart_seen boundary h s \<longleftrightarrow> ms_delimiter s = ''--'' @ boundary \<and>
     s\<lparr>ms_carry := []\<rparr> = read_multipart boundary h \<and> ms_carry s = drop (length h - (length (ms_delimiter s) - 1)) h"

lemma multipart_seen_new: "multipart_seen boundary [] (new_multipart_scanner boundary)"
  by (simp add: multipart_seen_def new_multipart_scanner_def read_multipart_def)

lemma read_multipart_append:
  "read_multipart b (h @ x) =
     fold (read_byte (''--'' @ b) (h @ x)) [length h..<length h + length x] (read_multipart b h)"
proof -
  have "fold (read_byte (''--'' @ b) (h @ x)) [0..<length h] s = fold (read_byte (''--'' @ b) h) [0..<length h] s" for s
    by (intro fold_cong) (auto simp: read_byte_def ends_delimiter_prefix nth_append)
  then show ?thesis unfolding read_multipart_def length_append upt_add_eq_append [OF le0] fold_append comp_apply
    by (simp only:)
qed

lemma read_delimiter: "ms_delimiter (read_multipart b h) = ''--'' @ b"
proof -
  have "ms_delimiter (fold (read_byte d body) ks s) = ms_delimiter s" for d body ks s
    by (induction ks arbitrary: s)
      (auto simp: read_byte_def walk_byte_def part_found_def Let_def split: part_mode.splits)
  then show ?thesis by (simp add: read_multipart_def new_multipart_scanner_def)
qed

lemma read_parts: "ms_parts (read_multipart b body) = delimiter_count (''--'' @ b) body"
proof -
  have "ms_parts (fold (read_byte d body) ks s) = ms_parts s + length (filter (ends_delimiter d body) ks)" for d ks s
  proof (induction ks arbitrary: s)
    case (Cons k ks)
    have "ms_parts (read_byte d body k s) = ms_parts s + (if ends_delimiter d body k then 1 else 0)"
      by (auto simp: read_byte_def walk_byte_def part_found_def Let_def split: part_mode.splits)
    then show ?case using Cons by simp
  qed simp
  then show ?thesis by (simp add: read_multipart_def delimiter_count_def new_multipart_scanner_def)
qed

lemma multipart_seen_feed:
  assumes "multipart_seen b h s"
  shows "multipart_seen b (h @ chunk) (multipart_feed chunk s)"
proof -
  let ?d = "''--'' @ b"
  define body where "body = h @ chunk"
  define ofs where "ofs = length h - (length ?d - 1)"
  have d: "ms_delimiter s = ?d" and carry: "ms_carry s = drop ofs h" and read: "s\<lparr>ms_carry := []\<rparr> = read_multipart b h"
    using assms by (simp_all add: multipart_seen_def ofs_def)
  have ofs: "ofs \<le> length h" by (simp add: ofs_def)
  then have data: "ms_carry s @ chunk = drop ofs body" by (simp add: carry body_def)
  have len: "length (ms_carry s) = length h - ofs" by (simp add: carry)
  have shift: "fold (read_byte ?d (drop ofs body)) [length h - ofs..<length body - ofs] s
      = fold (read_byte ?d body) [length h..<length body] s"
  proof -
    have "read_byte ?d (drop ofs body) k = read_byte ?d body (k + ofs)"
      if "k \<in> set [length h - ofs..<length body - ofs]" for k
    proof -
      have "ofs = 0 \<or> length ?d \<le> Suc k" using that ofs by (auto simp: ofs_def body_def)
      then have "ends_delimiter ?d (drop ofs body) k = ends_delimiter ?d body (k + ofs)" by (rule ends_delimiter_suffix)
      moreover have "ofs \<le> length body" using ofs by (simp add: body_def)
      then have "drop ofs body ! k = body ! (k + ofs)" by (simp add: add.commute)
      ultimately show ?thesis by (simp only: read_byte_def fun_eq_iff) simp
    qed
    then have "fold (read_byte ?d (drop ofs body)) [length h - ofs..<length body - ofs] s
        = fold (\<lambda>k. read_byte ?d body (k + ofs)) [length h - ofs..<length body - ofs] s"
      by (intro fold_cong) auto
    also have "\<dots> = fold (read_byte ?d body) (map (\<lambda>k. k + ofs) [length h - ofs..<length body - ofs]) s"
      by (simp add: fold_map comp_def)
    also have "map (\<lambda>k. k + ofs) [length h - ofs..<length body - ofs] = [length h..<length body]"
      using ofs by (intro nth_equalityI) (auto simp: body_def)
    finally show ?thesis .
  qed
  have "length h - ofs \<le> length (drop ofs body)" and "length h - ofs < length ?d" using ofs by (auto simp: ofs_def body_def)
  then have "scan_data ?d (drop ofs body) (length h - ofs) 0 s =
      fold (read_byte ?d (drop ofs body)) [length h - ofs..<length (drop ofs body)] s"
    by (intro scan_data_reads) auto
  then have "scan_data ?d (drop ofs body) (length h - ofs) 0 s = fold (read_byte ?d body) [length h..<length body] s"
    by (simp only: length_drop shift)
  moreover have "(fold (read_byte ?d body) [length h..<length body] s)\<lparr>ms_carry := []\<rparr> = read_multipart b body"
    by (simp only: body_def read_multipart_append length_append flip: read fold_read_carry)
  moreover have "ms_delimiter (fold (read_byte ?d body) [length h..<length body] s) = ?d"
    using read_delimiter [of b body] calculation(2) by (metis multipart_scanner.select_convs(1) multipart_scanner.surjective multipart_scanner.update_convs(4))
  moreover have "drop (length (drop ofs body) - (length ?d - 1)) (drop ofs body) = drop (length body - (length ?d - 1)) body"
  proof -
    have "length body - ofs - (length ?d - 1) + ofs = length body - (length ?d - 1)" by (auto simp: ofs_def body_def)
    then show ?thesis by simp
  qed
  ultimately show ?thesis
    by (simp only: multipart_seen_def multipart_feed_def Let_def d data len flip: body_def) simp
qed

lemma multipart_seen_counts:
  assumes "multipart_seen b h s"
  shows "ms_parts s = delimiter_count (''--'' @ b) h" and "ms_max_depth s = ms_max_depth (read_multipart b h)"
proof -
  have read: "s\<lparr>ms_carry := []\<rparr> = read_multipart b h" using assms by (simp add: multipart_seen_def)
  from arg_cong [OF read, of ms_parts] show "ms_parts s = delimiter_count (''--'' @ b) h" by (simp add: read_parts)
  from arg_cong [OF read, of ms_max_depth] show "ms_max_depth s = ms_max_depth (read_multipart b h)" by simp
qed


section \<open>Blocked field names\<close>

text \<open>The regular expression is the alternation of the escaped names, without regard to case.\<close>

record blocked_scanner =
  bs_names :: "string list"
  bs_carry_length :: nat
  bs_carry :: string

definition new_blocked_scanner :: "string list \<Rightarrow> blocked_scanner" where
  "new_blocked_scanner names = \<lparr>bs_names = names, bs_carry_length = Max (set (map length names)) - 1, bs_carry = []\<rparr>"

definition names_occur :: "string list \<Rightarrow> string \<Rightarrow> bool" where
  "names_occur names body \<longleftrightarrow> (\<exists>n \<in> set names. contains (to_upper n) (to_upper body))"

definition blocked_feed :: "string \<Rightarrow> blocked_scanner \<Rightarrow> bool \<times> blocked_scanner" where
  "blocked_feed chunk s =
     (let body = bs_carry s @ chunk in
      (names_occur (bs_names s) body, s\<lparr>bs_carry := drop (length body - bs_carry_length s) body\<rparr>))"

lemma contains_append: "contains p s \<longleftrightarrow> (\<exists>a b. s = a @ p @ b)"
proof (induction s)
  case (Cons c cs)
  have "starts_with p (c # cs) \<longleftrightarrow> (\<exists>b. c # cs = p @ b)"
    by (metis append_eq_conv_conj append_take_drop_id starts_with_def)
  then show ?case using Cons by (auto simp: Cons_eq_append_conv append_eq_Cons_conv)
qed auto

lemma contains_suffix_cut:
  assumes "length p \<le> Suc n"
  shows "contains p (h @ x) \<longleftrightarrow> contains p h \<or> contains p (drop (length h - n) h @ x)"
proof
  assume "contains p (h @ x)"
  then obtain a b where ab: "h @ x = a @ p @ b" by (auto simp: contains_append)
  show "contains p h \<or> contains p (drop (length h - n) h @ x)"
  proof (cases "length a + length p \<le> length h")
    case True
    then have "take (length h) (h @ x) = a @ p @ take (length h - length a - length p) b" by (simp add: ab)
    then show ?thesis by (auto simp: contains_append)
  next
    case False
    then have "length h - n \<le> length a" using assms by simp
    moreover have "drop (length h - n) (h @ x) = drop (length h - n) h @ x" by simp
    ultimately have "drop (length h - n) h @ x = drop (length h - n) a @ p @ b" using ab by simp
    then show ?thesis by (auto simp: contains_append)
  qed
next
  assume "contains p h \<or> contains p (drop (length h - n) h @ x)"
  then show "contains p (h @ x)"
  proof
    assume "contains p (drop (length h - n) h @ x)"
    then obtain a b where "drop (length h - n) h @ x = a @ p @ b" by (auto simp: contains_append)
    then have "h @ x = (take (length h - n) h @ a) @ p @ b" by (metis append.assoc append_take_drop_id)
    then show ?thesis unfolding contains_append by blast
  qed (force simp: contains_append)
qed

lemma to_upper_append: "to_upper (a @ b) = to_upper a @ to_upper b"
  by (simp add: to_upper_def)

lemma to_upper_drop: "to_upper (drop n a) = drop n (to_upper a)"
  by (simp add: to_upper_def drop_map)

definition blocked_seen :: "string list \<Rightarrow> string \<Rightarrow> blocked_scanner \<Rightarrow> bool" where
  "blocked_seen names h s \<longleftrightarrow> bs_names s = names \<and> bs_carry s = drop (length h - bs_carry_length s) h \<and>
     (\<forall>n \<in> set names. length n \<le> Suc (bs_carry_length s))"

lemma blocked_seen_new: "blocked_seen names [] (new_blocked_scanner names)"
proof -
  have "length n \<le> Suc (Max (length ` set names) - 1)" if "n \<in> set names" for n
  proof -
    have "length n \<le> Max (length ` set names)" using that by (intro Max_ge) auto
    then show ?thesis by linarith
  qed
  then show ?thesis by (simp add: blocked_seen_def new_blocked_scanner_def)
qed

lemma blocked_feed_found:
  assumes "blocked_seen names h s"
  shows "names_occur names (h @ chunk) \<longleftrightarrow> names_occur names h \<or> fst (blocked_feed chunk s)"
proof -
  have "contains (to_upper n) (to_upper (h @ chunk)) \<longleftrightarrow>
      contains (to_upper n) (to_upper h) \<or> contains (to_upper n) (to_upper (bs_carry s @ chunk))" if "n \<in> set names" for n
    using contains_suffix_cut [of "to_upper n" "bs_carry_length s" "to_upper h" "to_upper chunk"] assms that
    by (simp add: blocked_seen_def to_upper_append to_upper_drop)
  then show ?thesis using assms by (auto simp: names_occur_def blocked_feed_def blocked_seen_def Let_def)
qed

lemma blocked_seen_feed: "blocked_seen names h s \<Longrightarrow> blocked_seen names (h @ chunk) (snd (blocked_feed chunk s))"
  by (cases "length h \<le> bs_carry_length s") (auto simp: blocked_seen_def blocked_feed_def Let_def add.commute)


section \<open>The inspector\<close>

definition form_inspection_active :: "body_kind \<Rightarrow> request_limits \<Rightarrow> string list \<Rightarrow> bool" where
  "form_inspection_active kind limits blocked \<longleftrightarrow>
     0 < rl_max_input_nesting_depth limits \<or>
     (case kind of
        UrlEncoded \<Rightarrow> 0 < rl_max_input_fields limits
      | Multipart \<Rightarrow> 0 < rl_max_multipart_parts limits \<or> blocked \<noteq> [])"

definition nesting_violation :: limit_violation where
  "nesting_violation = \<lparr>lv_status = 400, lv_code = ''request_input_nesting_too_deep''\<rparr>"

definition request_input_violation :: "request \<Rightarrow> request_limits \<Rightarrow> string list \<Rightarrow> limit_violation option" where
  "request_input_violation r limits blocked =
     (if 0 < rl_max_header_count limits \<and> rl_max_header_count limits < int (length (rq_headers r))
      then Some \<lparr>lv_status = 431, lv_code = ''request_headers_too_many''\<rparr>
      else
        let query = url_feed (drop 1 (rq_search r)) new_url_scanner;
            inspect_query = (0 < rl_max_input_fields limits \<or> 0 < rl_max_input_nesting_depth limits) \<and> 1 < length (rq_search r) in
        if inspect_query \<and> 0 < rl_max_input_fields limits \<and> rl_max_input_fields limits < int (us_fields query)
        then Some \<lparr>lv_status = 414, lv_code = ''request_input_fields_too_many''\<rparr>
        else if inspect_query \<and> 0 < rl_max_input_nesting_depth limits \<and> rl_max_input_nesting_depth limits < int (us_max_depth query)
        then Some nesting_violation
        else if rq_method r = ''GET'' \<or> rq_method r = ''HEAD'' then None
        else
          let ct = header ''content-type'' (rq_headers r) in
          case form_body_kind ct of
            None \<Rightarrow> None
          | Some kind \<Rightarrow>
              if \<not> form_inspection_active kind limits blocked then None
              else
                let encoding = to_lower (trim (text_or_empty (header ''content-encoding'' (rq_headers r)))) in
                if encoding \<noteq> [] \<and> encoding \<noteq> ''identity''
                then Some \<lparr>lv_status = 415, lv_code = ''request_form_encoding_unsupported''\<rparr>
                else if kind = Multipart \<and>
                  (case multipart_boundary (text_or_empty ct) of None \<Rightarrow> True | Some b \<Rightarrow> b = [] \<or> 200 < length b)
                then Some \<lparr>lv_status = 400, lv_code = ''request_multipart_boundary_invalid''\<rparr>
                else None)"

record form_inspector =
  fi_url_encoded :: "url_scanner option"
  fi_multipart :: "multipart_scanner option"
  fi_blocked :: "blocked_scanner option"
  fi_limits :: request_limits
  fi_violation :: "limit_violation option"

definition new_form_inspector :: "string option \<Rightarrow> request_limits \<Rightarrow> string list \<Rightarrow> form_inspector" where
  "new_form_inspector boundary limits blocked = \<lparr>
     fi_url_encoded = (if boundary = None then Some new_url_scanner else None),
     fi_multipart = map_option new_multipart_scanner boundary,
     fi_blocked = (if boundary = None \<or> blocked = [] then None else Some (new_blocked_scanner blocked)),
     fi_limits = limits, fi_violation = None\<rparr>"

definition for_request :: "request \<Rightarrow> request_limits \<Rightarrow> string list \<Rightarrow> form_inspector option" where
  "for_request r limits blocked =
     (let ct = header ''content-type'' (rq_headers r) in
      case form_body_kind ct of
        None \<Rightarrow> None
      | Some kind \<Rightarrow>
          if \<not> form_inspection_active kind limits blocked then None
          else case kind of
            UrlEncoded \<Rightarrow> Some (new_form_inspector None limits [])
          | Multipart \<Rightarrow>
              (case multipart_boundary (text_or_empty ct) of
                 None \<Rightarrow> None
               | Some b \<Rightarrow> if b = [] \<or> 200 < length b then None else Some (new_form_inspector (Some b) limits blocked)))"

definition reject :: "limit_violation \<Rightarrow> form_inspector \<Rightarrow> limit_violation option \<times> form_inspector" where
  "reject v i = (Some v, i\<lparr>fi_violation := Some v\<rparr>)"

definition push_url_encoded :: "string \<Rightarrow> url_scanner \<Rightarrow> form_inspector \<Rightarrow> limit_violation option \<times> form_inspector" where
  "push_url_encoded chunk u i =
     (let u' = url_feed chunk u; i' = i\<lparr>fi_url_encoded := Some u'\<rparr>; limits = fi_limits i in
      if 0 < rl_max_input_fields limits \<and> rl_max_input_fields limits < int (us_fields u')
      then reject \<lparr>lv_status = 413, lv_code = ''request_input_fields_too_many''\<rparr> i'
      else if 0 < rl_max_input_nesting_depth limits \<and> rl_max_input_nesting_depth limits < int (us_max_depth u')
      then reject nesting_violation i'
      else (None, i'))"

definition push_multipart :: "string \<Rightarrow> multipart_scanner \<Rightarrow> form_inspector \<Rightarrow> limit_violation option \<times> form_inspector" where
  "push_multipart chunk m i =
     (let m' = multipart_feed chunk m; i' = i\<lparr>fi_multipart := Some m'\<rparr>; limits = fi_limits i in
      if 0 < rl_max_multipart_parts limits \<and> rl_max_multipart_parts limits < int (ms_parts m')
      then reject \<lparr>lv_status = 413, lv_code = ''request_multipart_parts_too_many''\<rparr> i'
      else if 0 < rl_max_input_nesting_depth limits \<and> rl_max_input_nesting_depth limits < int (ms_max_depth m')
      then reject nesting_violation i'
      else (None, i'))"

definition push :: "string \<Rightarrow> form_inspector \<Rightarrow> limit_violation option \<times> form_inspector" where
  "push chunk i =
     (case fi_violation i of
        Some v \<Rightarrow> (Some v, i)
      | None \<Rightarrow>
          (case fi_url_encoded i of
             Some u \<Rightarrow> push_url_encoded chunk u i
           | None \<Rightarrow>
               let (found, i') = (case fi_blocked i of
                     None \<Rightarrow> (False, i)
                   | Some b \<Rightarrow> (let (hit, b') = blocked_feed chunk b in (hit, i\<lparr>fi_blocked := Some b'\<rparr>))) in
               if found then reject \<lparr>lv_status = 403, lv_code = ''request_form_field_blocked''\<rparr> i'
               else case fi_multipart i' of
                 None \<Rightarrow> (None, i')
               | Some m \<Rightarrow> push_multipart chunk m i'))"

text \<open>
  The body of a request as the proxy reads it: chunk by chunk until one is rejected. The result is the
  violation of the first rejected chunk.
\<close>

fun inspect_body :: "string list \<Rightarrow> form_inspector \<Rightarrow> limit_violation option" where
  "inspect_body [] i = None"
| "inspect_body (c # cs) i = (case push c i of (Some v, i') \<Rightarrow> Some v | (None, i') \<Rightarrow> inspect_body cs i')"

section \<open>Verdict on the whole body\<close>

definition within_limit :: "int \<Rightarrow> nat \<Rightarrow> bool" where
  "within_limit limit n \<longleftrightarrow> limit \<le> 0 \<or> int n \<le> limit"

definition url_body_ok :: "request_limits \<Rightarrow> string \<Rightarrow> bool" where
  "url_body_ok limits body \<longleftrightarrow> within_limit (rl_max_input_fields limits) (field_count body) \<and>
     within_limit (rl_max_input_nesting_depth limits) (nesting_depth body)"

definition multipart_body_ok :: "request_limits \<Rightarrow> string list \<Rightarrow> string \<Rightarrow> string \<Rightarrow> bool" where
  "multipart_body_ok limits blocked boundary body \<longleftrightarrow>
     within_limit (rl_max_multipart_parts limits) (delimiter_count (''--'' @ boundary) body) \<and>
     within_limit (rl_max_input_nesting_depth limits) (ms_max_depth (read_multipart boundary body)) \<and>
     \<not> names_occur blocked body"


lemma url_step_mono: "us_fields s \<le> us_fields (url_step c s) \<and> us_max_depth s \<le> us_max_depth (url_step c s)"
  by (auto simp: url_step_def begin_field_def scan_key_def)

lemma url_fold_mono: "us_fields s \<le> us_fields (fold url_step p s) \<and> us_max_depth s \<le> us_max_depth (fold url_step p s)"
  by (induction p arbitrary: s) (auto intro: le_trans [OF conjunct1 [OF url_step_mono]] le_trans [OF conjunct2 [OF url_step_mono]])

lemma url_counts_mono: "field_count t \<le> field_count (t @ p) \<and> nesting_depth t \<le> nesting_depth (t @ p)"
proof -
  have "url_seen t (fold url_step t new_url_scanner)" using url_seen_fold [OF url_seen_new, of t] by simp
  moreover from url_seen_fold [OF this, of p] have "url_seen (t @ p) (fold url_step p (fold url_step t new_url_scanner))" .
  ultimately show ?thesis using url_fold_mono [of "fold url_step t new_url_scanner" p] by (simp add: url_seen_def)
qed

lemma read_byte_mono: "ms_parts s \<le> ms_parts (read_byte d body k s) \<and> ms_max_depth s \<le> ms_max_depth (read_byte d body k s)"
  by (auto simp: read_byte_def walk_byte_def part_found_def Let_def split: part_mode.splits)

lemma read_fold_mono:
  "ms_parts s \<le> ms_parts (fold (read_byte d body) ks s) \<and> ms_max_depth s \<le> ms_max_depth (fold (read_byte d body) ks s)"
  by (induction ks arbitrary: s) (auto intro: le_trans [OF conjunct1 [OF read_byte_mono]] le_trans [OF conjunct2 [OF read_byte_mono]])

lemma read_multipart_mono:
  "ms_parts (read_multipart b t) \<le> ms_parts (read_multipart b (t @ p)) \<and>
   ms_max_depth (read_multipart b t) \<le> ms_max_depth (read_multipart b (t @ p))"
  unfolding read_multipart_append by (rule read_fold_mono)

lemma names_occur_mono: "names_occur names t \<Longrightarrow> names_occur names (t @ p)"
  by (fastforce simp: names_occur_def contains_append to_upper_append)

lemma within_limit_mono: "within_limit limit m \<Longrightarrow> n \<le> m \<Longrightarrow> within_limit limit n"
  by (auto simp: within_limit_def)

lemma url_body_ok_prefix: "url_body_ok limits (t @ p) \<Longrightarrow> url_body_ok limits t"
  using url_counts_mono [of t p] by (auto simp: url_body_ok_def intro: within_limit_mono)

lemma multipart_body_ok_prefix: "multipart_body_ok limits blocked b (t @ p) \<Longrightarrow> multipart_body_ok limits blocked b t"
  using read_multipart_mono [of b t p] names_occur_mono [of blocked t p]
  by (auto simp: multipart_body_ok_def read_parts intro: within_limit_mono)

lemma inspect_url_body:
  assumes "fi_violation i = None" and "fi_url_encoded i = Some u" and "url_seen h u" and "fi_limits i = limits"
    and "url_body_ok limits h"
  shows "inspect_body cs i = None \<longleftrightarrow> url_body_ok limits (h @ concat cs)"
  using assms
proof (induction cs arbitrary: i u h)
  case (Cons c cs)
  let ?u = "url_feed c u" and ?i = "i\<lparr>fi_url_encoded := Some (url_feed c u)\<rparr>"
  have seen: "url_seen (h @ c) ?u" using Cons.prems(3) by (rule url_seen_feed)
  then have counts: "us_fields ?u = field_count (h @ c)" "us_max_depth ?u = nesting_depth (h @ c)" by (simp_all add: url_seen_def)
  show ?case
  proof (cases "url_body_ok limits (h @ c)")
    case True
    then have "push c i = (None, ?i)" using Cons.prems(1,2,4) counts
      by (auto simp: push_def push_url_encoded_def Let_def url_body_ok_def within_limit_def)
    moreover have "inspect_body cs ?i = None \<longleftrightarrow> url_body_ok limits ((h @ c) @ concat cs)"
      using Cons.prems True seen by (intro Cons.IH [where u = ?u]) auto
    ultimately show ?thesis by simp
  next
    case False
    then have "fst (push c i) \<noteq> None" using Cons.prems(1,2,4) counts
      by (auto simp: push_def push_url_encoded_def Let_def url_body_ok_def within_limit_def reject_def)
    then obtain v j where "push c i = (Some v, j)" by (cases "push c i") auto
    then show ?thesis using False url_body_ok_prefix [of limits "h @ c" "concat cs"] by auto
  qed
qed simp

text \<open>The scanner of blocked names exists only when names are configured.\<close>

definition blocked_state :: "string list \<Rightarrow> string \<Rightarrow> blocked_scanner option \<Rightarrow> bool" where
  "blocked_state names h b \<longleftrightarrow> (case b of None \<Rightarrow> names = [] | Some s \<Rightarrow> blocked_seen names h s)"

lemma inspect_multipart_body:
  assumes "fi_violation i = None" and "fi_url_encoded i = None" and "fi_multipart i = Some m" and "multipart_seen b h m"
    and "blocked_state names h (fi_blocked i)" and "fi_limits i = limits" and "multipart_body_ok limits names b h"
  shows "inspect_body cs i = None \<longleftrightarrow> multipart_body_ok limits names b (h @ concat cs)"
  using assms
proof (induction cs arbitrary: i m h)
  case (Cons c cs)
  define hit where "hit = (case fi_blocked i of None \<Rightarrow> False | Some s \<Rightarrow> fst (blocked_feed c s))"
  define bl where "bl = map_option (\<lambda>s. snd (blocked_feed c s)) (fi_blocked i)"
  let ?m = "multipart_feed c m"
  let ?i = "i\<lparr>fi_blocked := bl, fi_multipart := Some ?m\<rparr>"
  have seen: "multipart_seen b (h @ c) ?m" using Cons.prems(4) by (rule multipart_seen_feed)
  note counts = multipart_seen_counts [OF seen]
  have hit: "names_occur names (h @ c) \<longleftrightarrow> hit"
    using Cons.prems(5,7) blocked_feed_found [of names h]
    by (auto simp: hit_def blocked_state_def multipart_body_ok_def names_occur_def split: option.splits)
  have bl: "blocked_state names (h @ c) bl"
    using Cons.prems(5) by (auto simp: bl_def blocked_state_def blocked_seen_feed split: option.splits)
  have push: "push c i = (if hit then reject \<lparr>lv_status = 403, lv_code = ''request_form_field_blocked''\<rparr> (i\<lparr>fi_blocked := bl\<rparr>)
      else push_multipart c m (i\<lparr>fi_blocked := bl\<rparr>))"
  proof (cases "fi_blocked i")
    case None
    then have upd: "i\<lparr>fi_blocked := None\<rparr> = i" by simp
    show ?thesis using None Cons.prems(1-3) by (simp add: push_def hit_def bl_def) (simp only: upd)
  qed (use Cons.prems(1-3) in \<open>simp add: push_def hit_def bl_def split_beta\<close>)
  show ?case
  proof (cases "multipart_body_ok limits names b (h @ c)")
    case True
    then have "push c i = (None, ?i)" using push hit counts Cons.prems(6)
      by (auto simp: push_multipart_def Let_def multipart_body_ok_def within_limit_def)
    moreover have "inspect_body cs ?i = None \<longleftrightarrow> multipart_body_ok limits names b ((h @ c) @ concat cs)"
      using Cons.prems True seen bl by (intro Cons.IH [where m = ?m]) auto
    ultimately show ?thesis by simp
  next
    case False
    then have "fst (push c i) \<noteq> None" using push hit counts Cons.prems(6)
      by (auto simp: push_multipart_def Let_def multipart_body_ok_def within_limit_def reject_def)
    then obtain v j where "push c i = (Some v, j)" by (cases "push c i") auto
    then show ?thesis using False multipart_body_ok_prefix [of limits names b "h @ c" "concat cs"] by auto
  qed
qed simp

text \<open>
  What a body must satisfy on a route, by its content type: a URL-encoded form has at most the configured number
  of non-empty fields and no name with more brackets than the nesting limit; a multipart form has at
  most the configured number of delimiters, no part nested too deeply, and no blocked name anywhere.
\<close>

definition form_body_ok :: "request \<Rightarrow> request_limits \<Rightarrow> string list \<Rightarrow> string \<Rightarrow> bool" where
  "form_body_ok r limits blocked body \<longleftrightarrow>
     (let ct = header ''content-type'' (rq_headers r) in
      if form_body_kind ct = Some UrlEncoded then url_body_ok limits body
      else multipart_body_ok limits blocked (text_or_empty (multipart_boundary (text_or_empty ct))) body)"

text \<open>
  C27: the verdict on a form body does not depend on how the network cuts it into chunks, and it is the
  verdict of the limits on the whole body. When an inspector is installed, some chunk is rejected
  if and only if the body has too many fields or parts, too many levels of brackets in one name, or a blocked
  field name, also when the bytes that decide lie on both sides of a cut.
\<close>

theorem inspection_decides_whole_body:
  assumes "for_request r limits blocked = Some i" and "[] \<notin> set blocked"
  shows "inspect_body chunks i = None \<longleftrightarrow> form_body_ok r limits blocked (concat chunks)"
proof -
  let ?ct = "header ''content-type'' (rq_headers r)"
  have empty: "within_limit l 0" for l by (simp add: within_limit_def linear)
  consider "form_body_kind ?ct = Some UrlEncoded" "i = new_form_inspector None limits []"
    | b where "form_body_kind ?ct = Some Multipart" "multipart_boundary (text_or_empty ?ct) = Some b"
      "i = new_form_inspector (Some b) limits blocked"
    using assms(1) by (auto simp: for_request_def Let_def split: option.splits body_kind.splits if_splits)
  then show ?thesis
  proof cases
    case 1
    have "inspect_body chunks i = None \<longleftrightarrow> url_body_ok limits ([] @ concat chunks)"
      using url_seen_new 1 empty
      by (intro inspect_url_body) (auto simp: new_form_inspector_def url_body_ok_def url_seen_def new_url_scanner_def
          field_count_def nesting_depth_def field_depth_def)
    then show ?thesis using 1 by (simp add: form_body_ok_def)
  next
    case (2 b)
    have "multipart_body_ok limits blocked b []"
      using assms(2) empty by (auto simp: multipart_body_ok_def delimiter_count_def read_multipart_def new_multipart_scanner_def
          names_occur_def to_upper_def)
    then have "inspect_body chunks i = None \<longleftrightarrow> multipart_body_ok limits blocked b ([] @ concat chunks)"
      using multipart_seen_new blocked_seen_new 2
      by (intro inspect_multipart_body [where m = "new_multipart_scanner b"])
        (auto simp: new_form_inspector_def blocked_state_def)
    then show ?thesis using 2 by (simp add: form_body_ok_def text_or_empty_def)
  qed
qed

theorem inspection_decides_whole_body_witness:
  "let r = \<lparr>rq_method = ''POST'', rq_pathname = ''/f'', rq_search = [],
         rq_headers = [(''content-type'', ''multipart/form-data; boundary=x'')]\<rparr>;
       limits = \<lparr>rl_max_body_bytes = 0, rl_max_request_target_bytes = 0, rl_max_header_bytes = 0, rl_max_header_count = 0,
         rl_max_input_fields = 0, rl_max_multipart_parts = 1, rl_max_input_nesting_depth = 0\<rparr> in
   \<exists>i. for_request r limits [''role''] = Some i \<and>
     (inspect_body [''--x-'', ''-x'', ''y''] i = None \<longleftrightarrow> form_body_ok r limits [''role''] ''--x--xy'') \<and>
     inspect_body [''--x-'', ''-x'', ''y''] i = Some \<lparr>lv_status = 413, lv_code = ''request_multipart_parts_too_many''\<rparr> \<and>
     inspect_body [''--x'', ''RO'', ''Le''] i = Some \<lparr>lv_status = 403, lv_code = ''request_form_field_blocked''\<rparr>"
proof -
  let ?r = "\<lparr>rq_method = ''POST'', rq_pathname = ''/f'', rq_search = [],
         rq_headers = [(''content-type'', ''multipart/form-data; boundary=x'')]\<rparr>"
  let ?limits = "\<lparr>rl_max_body_bytes = 0, rl_max_request_target_bytes = 0, rl_max_header_bytes = 0, rl_max_header_count = 0,
         rl_max_input_fields = 0, rl_max_multipart_parts = 1, rl_max_input_nesting_depth = 0\<rparr>"
  let ?i = "new_form_inspector (Some ''x'') ?limits [''role'']"
  have i: "for_request ?r ?limits [''role''] = Some ?i" by code_simp
  have "inspect_body [''--x-'', ''-x'', ''y''] ?i = None \<longleftrightarrow> form_body_ok ?r ?limits [''role''] (concat [''--x-'', ''-x'', ''y''])"
    by (rule inspection_decides_whole_body [OF i]) simp
  moreover have "inspect_body [''--x-'', ''-x'', ''y''] ?i = Some \<lparr>lv_status = 413, lv_code = ''request_multipart_parts_too_many''\<rparr>"
    by code_simp
  moreover have "inspect_body [''--x'', ''RO'', ''Le''] ?i = Some \<lparr>lv_status = 403, lv_code = ''request_form_field_blocked''\<rparr>"
    by code_simp
  ultimately show ?thesis using i by (simp add: Let_def)
qed

end
