(* ===== verification/Http_Policy.thy ===== *)
theory Http_Policy
  imports Json Form_Inspection
begin

text \<open>
  HTTP policies of sites and routes (\<open>services/http-policy-service.ts\<close>): validation of what an
  administrator submits, the stored form, and the policy that a request gets when site and route are
  merged. The stored text is modelled by the JSON value it denotes. Limits that come from the environment
  are the fields of a record; the text of a number is the argument \<open>nt\<close>. A thrown error is \<^term>\<open>Inl\<close> with the
  label that starts its message.
\<close>

section \<open>Policies\<close>

record http_config =
  hc_cache_max_object_bytes :: int
  hc_cache_max_bytes :: int
  hc_body_capture_ceiling :: int

definition static_cache_object_ceiling :: "http_config \<Rightarrow> int" where
  "static_cache_object_ceiling cf = min (hc_cache_max_object_bytes cf) (hc_cache_max_bytes cf)"

datatype toggle_mode = ModeInherit | ModeDisabled | ModeEnabled

datatype protection_level = ProtInherit | ProtDisabled | ProtMonitor | ProtBlock

record header_policy =
  hp_set :: "(string \<times> string) list"
  hp_remove :: "string list"

record ('n, 'l) cache_of =
  cc_mode :: toggle_mode
  cc_ttl_seconds :: 'n
  cc_max_object_bytes :: 'n
  cc_extensions :: 'l

record site_protection =
  sp_mode :: protection_level
  sp_ruleset_id :: string
  sp_excluded_rule_ids :: "string list"

record route_protection =
  rt_mode :: protection_level
  rt_excluded_rule_ids :: "string list"

record ('n) ban_durations_of =
  bd_low :: 'n
  bd_medium :: 'n
  bd_high :: 'n
  bd_critical :: 'n

record ('b, 'n) bandwidth_of =
  bw_enabled :: 'b
  bw_max_bytes :: 'n
  bw_window_seconds :: 'n
  bw_ban_seconds :: 'n

record ('n, 'l) body_capture_of =
  bc_mode :: toggle_mode
  bc_max_request_bytes :: 'n
  bc_max_response_bytes :: 'n
  bc_expires_at :: "int option"
  bc_content_types :: 'l

record ('b, 'l) header_capture_of =
  hcap_mode :: toggle_mode
  hcap_redact_auth_headers :: 'b
  hcap_redacted_headers :: 'l
  hcap_expires_at :: "int option"

record ('b, 'n, 'l) cors_of =
  co_mode :: toggle_mode
  co_allowed_origins :: 'l
  co_allowed_methods :: 'l
  co_allowed_headers :: 'l
  co_exposed_headers :: 'l
  co_allow_credentials :: 'b
  co_max_age_seconds :: 'n

record hsts_policy =
  hs_mode :: toggle_mode
  hs_max_age_seconds :: int
  hs_include_sub_domains :: bool
  hs_preload :: bool

type_synonym site_cors = "(bool, int, string list) cors_of"
type_synonym route_cors = "(bool option, int option, string list option) cors_of"

record site_http_policy =
  sh_request_headers :: header_policy
  sh_response_headers :: header_policy
  sh_limits :: "int limits_of"
  sh_blocked_multipart_fields :: "string list"
  sh_cache :: "(int, string list) cache_of"
  sh_protection :: site_protection
  sh_ban_durations :: "int ban_durations_of"
  sh_bandwidth_limit :: "(bool, int) bandwidth_of"
  sh_body_capture :: "(int, string list) body_capture_of"
  sh_header_capture :: "(bool, string list) header_capture_of"
  sh_cors :: site_cors
  sh_hsts :: hsts_policy

record route_http_policy =
  rh_request_headers :: header_policy
  rh_response_headers :: header_policy
  rh_limits :: "int option limits_of"
  rh_blocked_multipart_fields :: "string list option"
  rh_cache :: "(int option, string list option) cache_of"
  rh_protection :: route_protection
  rh_ban_durations :: "int option ban_durations_of"
  rh_bandwidth_limit :: "(bool option, int option) bandwidth_of"
  rh_body_capture :: "(int option, string list option) body_capture_of"
  rh_header_capture :: "(bool option, string list option) header_capture_of"
  rh_cors :: route_cors

record resolved_http_policy =
  ph_request_headers :: header_policy
  ph_response_headers :: header_policy
  ph_limits :: "int limits_of"
  ph_blocked_multipart_fields :: "string list"
  ph_cache :: "(int, string list) cache_of"
  ph_protection :: site_protection
  ph_ban_durations :: "int ban_durations_of"
  ph_bandwidth_limit :: "(bool, int) bandwidth_of"
  ph_bandwidth_scope_id :: string
  ph_body_capture :: "(int, string list) body_capture_of"
  ph_header_capture :: "(bool, string list) header_capture_of"
  ph_cors :: site_cors
  ph_hsts :: hsts_policy

section \<open>Defaults\<close>

definition default_static_cache_extensions :: "string list" where
  "default_static_cache_extensions = [''.css'', ''.js'', ''.mjs'', ''.png'', ''.jpg'', ''.jpeg'', ''.gif'', ''.webp'',
     ''.avif'', ''.svg'', ''.ico'', ''.woff'', ''.woff2'', ''.ttf'', ''.otf'', ''.eot'', ''.wasm'', ''.txt'', ''.xml'']"

definition default_body_capture_content_types :: "string list" where
  "default_body_capture_content_types = [''text/plain'', ''text/html'', ''text/css'', ''text/javascript'',
     ''application/javascript'', ''application/json'', ''application/xml'', ''application/x-www-form-urlencoded'']"

definition empty_header_policy :: header_policy where
  "empty_header_policy = \<lparr>hp_set = [], hp_remove = []\<rparr>"

definition default_site_policy :: "http_config \<Rightarrow> site_http_policy" where
  "default_site_policy cf = \<lparr>
     sh_request_headers = empty_header_policy,
     sh_response_headers = empty_header_policy,
     sh_limits = \<lparr>rl_max_body_bytes = 0, rl_max_request_target_bytes = 0, rl_max_header_bytes = 0, rl_max_header_count = 0, rl_max_input_fields = 0,
       rl_max_multipart_parts = 0, rl_max_input_nesting_depth = 0\<rparr>,
     sh_blocked_multipart_fields = [],
     sh_cache = \<lparr>cc_mode = ModeDisabled, cc_ttl_seconds = 3600,
       cc_max_object_bytes = min (5 * 1024 * 1024) (static_cache_object_ceiling cf),
       cc_extensions = default_static_cache_extensions\<rparr>,
     sh_protection = \<lparr>sp_mode = ProtMonitor, sp_ruleset_id = ''default'', sp_excluded_rule_ids = []\<rparr>,
     sh_ban_durations = \<lparr>bd_low = 0, bd_medium = 600, bd_high = 3600, bd_critical = 86400\<rparr>,
     sh_bandwidth_limit = \<lparr>bw_enabled = False, bw_max_bytes = 50 * 1024 * 1024, bw_window_seconds = 60, bw_ban_seconds = 3600\<rparr>,
     sh_body_capture = \<lparr>bc_mode = ModeDisabled, bc_max_request_bytes = 4096, bc_max_response_bytes = 4096,
       bc_expires_at = None, bc_content_types = default_body_capture_content_types\<rparr>,
     sh_header_capture = \<lparr>hcap_mode = ModeDisabled, hcap_redact_auth_headers = True, hcap_redacted_headers = [], hcap_expires_at = None\<rparr>,
     sh_cors = \<lparr>co_mode = ModeDisabled, co_allowed_origins = [], co_allowed_methods = [''GET'', ''HEAD'', ''POST''],
       co_allowed_headers = [''content-type'', ''authorization''], co_exposed_headers = [], co_allow_credentials = False,
       co_max_age_seconds = 86400\<rparr>,
     sh_hsts = \<lparr>hs_mode = ModeDisabled, hs_max_age_seconds = 15552000, hs_include_sub_domains = False, hs_preload = False\<rparr>\<rparr>"

definition default_route_policy :: route_http_policy where
  "default_route_policy = \<lparr>
     rh_request_headers = empty_header_policy,
     rh_response_headers = empty_header_policy,
     rh_limits = \<lparr>rl_max_body_bytes = None, rl_max_request_target_bytes = None, rl_max_header_bytes = None, rl_max_header_count = None,
       rl_max_input_fields = None, rl_max_multipart_parts = None, rl_max_input_nesting_depth = None\<rparr>,
     rh_blocked_multipart_fields = None,
     rh_cache = \<lparr>cc_mode = ModeInherit, cc_ttl_seconds = None, cc_max_object_bytes = None, cc_extensions = None\<rparr>,
     rh_protection = \<lparr>rt_mode = ProtInherit, rt_excluded_rule_ids = []\<rparr>,
     rh_ban_durations = \<lparr>bd_low = None, bd_medium = None, bd_high = None, bd_critical = None\<rparr>,
     rh_bandwidth_limit = \<lparr>bw_enabled = None, bw_max_bytes = None, bw_window_seconds = None, bw_ban_seconds = None\<rparr>,
     rh_body_capture = \<lparr>bc_mode = ModeInherit, bc_max_request_bytes = None, bc_max_response_bytes = None,
       bc_expires_at = None, bc_content_types = None\<rparr>,
     rh_header_capture = \<lparr>hcap_mode = ModeInherit, hcap_redact_auth_headers = None, hcap_redacted_headers = None, hcap_expires_at = None\<rparr>,
     rh_cors = \<lparr>co_mode = ModeInherit, co_allowed_origins = None, co_allowed_methods = None, co_allowed_headers = None,
       co_exposed_headers = None, co_allow_credentials = None, co_max_age_seconds = None\<rparr>\<rparr>"

section \<open>Scalar values\<close>

definition toggle_value :: "(rat \<Rightarrow> string) \<Rightarrow> string \<Rightarrow> js_value \<Rightarrow> bool \<Rightarrow> toggle_mode \<Rightarrow> toggle_mode checked" where
  "toggle_value nt label v route fallback =
     (case v of
        None \<Rightarrow> Inr fallback
      | Some x \<Rightarrow>
          (let mode = to_lower (trim (js_string nt x)) in
           if mode = ''enabled'' then Inr ModeEnabled
           else if mode = ''disabled'' then Inr ModeDisabled
           else if route \<and> mode = ''inherit'' then Inr ModeInherit
           else Inl label))"

definition cache_mode :: "(rat \<Rightarrow> string) \<Rightarrow> js_value \<Rightarrow> bool \<Rightarrow> toggle_mode \<Rightarrow> toggle_mode checked" where
  "cache_mode nt = toggle_value nt ''Static cache mode''"

definition body_capture_mode :: "(rat \<Rightarrow> string) \<Rightarrow> js_value \<Rightarrow> bool \<Rightarrow> toggle_mode \<Rightarrow> toggle_mode checked" where
  "body_capture_mode nt = toggle_value nt ''Body capture mode''"

definition header_capture_mode :: "(rat \<Rightarrow> string) \<Rightarrow> js_value \<Rightarrow> bool \<Rightarrow> toggle_mode \<Rightarrow> toggle_mode checked" where
  "header_capture_mode nt = toggle_value nt ''Header capture mode''"

definition cors_mode :: "(rat \<Rightarrow> string) \<Rightarrow> js_value \<Rightarrow> bool \<Rightarrow> toggle_mode \<Rightarrow> toggle_mode checked" where
  "cors_mode nt = toggle_value nt ''CORS mode''"

definition protection_mode :: "(rat \<Rightarrow> string) \<Rightarrow> js_value \<Rightarrow> bool \<Rightarrow> protection_level \<Rightarrow> protection_level checked" where
  "protection_mode nt v route fallback =
     (case v of
        None \<Rightarrow> Inr fallback
      | Some x \<Rightarrow>
          (let mode = to_lower (trim (js_string nt x)) in
           if mode = ''disabled'' then Inr ProtDisabled
           else if mode = ''monitor'' then Inr ProtMonitor
           else if mode = ''block'' then Inr ProtBlock
           else if route \<and> mode = ''inherit'' then Inr ProtInherit
           else Inl ''Managed protection mode''))"

definition boolean_input :: "string \<Rightarrow> js_value \<Rightarrow> bool \<Rightarrow> bool checked" where
  "boolean_input label v fallback =
     (case v of
        None \<Rightarrow> Inr fallback
      | Some (JBool b) \<Rightarrow> Inr b
      | Some x \<Rightarrow>
          if x = JString ''true'' \<or> x = JString ''1'' \<or> x = JNumber 1 then Inr True
          else if x = JString ''false'' \<or> x = JString ''0'' \<or> x = JNumber 0 \<or> x = JString [] then Inr False
          else Inl label)"

definition route_boolean :: "string \<Rightarrow> js_value \<Rightarrow> bool option checked" where
  "route_boolean label v = (if is_absent v then Inr None else and_then (boolean_input label v False) (\<lambda>b. Inr (Some b)))"

definition bandwidth_limit_boolean :: "js_value \<Rightarrow> bool \<Rightarrow> bool checked" where
  "bandwidth_limit_boolean = boolean_input ''Bandwidth limit enabled''"

definition route_bandwidth_limit_boolean :: "js_value \<Rightarrow> bool option checked" where
  "route_bandwidth_limit_boolean = route_boolean ''Bandwidth limit enabled''"

definition header_capture_boolean :: "js_value \<Rightarrow> bool \<Rightarrow> bool checked" where
  "header_capture_boolean = boolean_input ''Header capture redact auth headers''"

definition route_header_capture_boolean :: "js_value \<Rightarrow> bool option checked" where
  "route_header_capture_boolean = route_boolean ''Header capture redact auth headers''"

definition cors_credentials_boolean :: "js_value \<Rightarrow> bool \<Rightarrow> bool checked" where
  "cors_credentials_boolean = boolean_input ''CORS allow credentials''"

definition route_cors_credentials_boolean :: "js_value \<Rightarrow> bool option checked" where
  "route_cors_credentials_boolean = route_boolean ''CORS allow credentials''"

definition hsts_boolean :: "js_value \<Rightarrow> bool \<Rightarrow> string \<Rightarrow> bool checked" where
  "hsts_boolean v fallback label = boolean_input label v fallback"

definition cache_integer :: "(rat \<Rightarrow> string) \<Rightarrow> js_value \<Rightarrow> string \<Rightarrow> int option \<Rightarrow> int \<Rightarrow> int \<Rightarrow> bool \<Rightarrow> int option checked" where
  "cache_integer nt v label fallback minimum maximum nullable =
     (if nullable \<and> is_absent v then Inr None
      else case (if v = None then fallback else js_safe_integer (js_to_number nt v)) of
        None \<Rightarrow> Inl label
      | Some i \<Rightarrow> if i < minimum \<or> maximum < i then Inl label else Inr (Some i))"

definition body_capture_bytes :: "(rat \<Rightarrow> string) \<Rightarrow> http_config \<Rightarrow> js_value \<Rightarrow> string \<Rightarrow> int option \<Rightarrow> bool \<Rightarrow> int option checked" where
  "body_capture_bytes nt cf v label fallback nullable =
     (if nullable \<and> is_absent v then Inr None
      else case (if v = None then fallback else js_safe_integer (js_to_number nt v)) of
        None \<Rightarrow> Inl label
      | Some i \<Rightarrow> if i < 0 \<or> hc_body_capture_ceiling cf < i then Inl label else Inr (Some i))"

definition body_capture_expires_at :: "(rat \<Rightarrow> string) \<Rightarrow> js_value \<Rightarrow> int option \<Rightarrow> int option checked" where
  "body_capture_expires_at nt v fallback =
     (if v = None then Inr fallback
      else if is_absent v then Inr None
      else case js_safe_integer (js_to_number nt v) of
        None \<Rightarrow> Inl ''Body capture expiration''
      | Some i \<Rightarrow> if i < 0 then Inl ''Body capture expiration'' else Inr (Some i))"

text \<open>A value the code marks as present with \<open>!\<close>.\<close>

definition present :: "'a option checked \<Rightarrow> 'a checked" where
  "present r = and_then r (\<lambda>v. case v of None \<Rightarrow> Inl ''missing'' | Some x \<Rightarrow> Inr x)"

section \<open>Lists of names\<close>

definition rule_id_ok :: "string \<Rightarrow> bool" where
  "rule_id_ok s \<longleftrightarrow> s \<noteq> [] \<and> (is_upper (hd s) \<or> is_digit (hd s)) \<and> length s \<le> 128 \<and>
     (\<forall>c \<in> set (tl s). is_upper c \<or> is_digit c \<or> c \<in> set ''._:-'')"

definition protection_rule_ids :: "(rat \<Rightarrow> string) \<Rightarrow> js_value \<Rightarrow> string list \<Rightarrow> string list checked" where
  "protection_rule_ids nt v fallback =
     (if is_absent v then Inr fallback
      else
        let ids = unique (filter (\<lambda>s. s \<noteq> []) (map (\<lambda>t. to_upper (trim t)) (raw_items nt v))) in
        if 256 < length ids then Inl ''Managed protection supports at most 256 excluded rule IDs''
        else if list_all rule_id_ok ids then Inr ids
        else Inl ''Invalid managed protection rule ID'')"

definition ruleset_id_ok :: "string \<Rightarrow> bool" where
  "ruleset_id_ok s \<longleftrightarrow> s \<noteq> [] \<and> (is_lower (hd s) \<or> is_digit (hd s)) \<and> length s \<le> 128 \<and>
     (\<forall>c \<in> set (tl s). is_lower c \<or> is_digit c \<or> c \<in> set ''._-'')"

definition protection_ruleset_id :: "(rat \<Rightarrow> string) \<Rightarrow> js_value \<Rightarrow> string \<Rightarrow> string checked" where
  "protection_ruleset_id nt v fallback =
     (let s = to_lower (trim (case v of None \<Rightarrow> fallback | Some JNull \<Rightarrow> fallback | Some x \<Rightarrow> js_string nt x)) in
      if ruleset_id_ok s then Inr s else Inl ''Managed protection ruleset ID is invalid'')"

definition extension_ok :: "string \<Rightarrow> bool" where
  "extension_ok s \<longleftrightarrow> length s \<le> 32 \<and> (case s of
     d # c # cs \<Rightarrow> d = CHR ''.'' \<and> (is_lower c \<or> is_digit c) \<and> (\<forall>x \<in> set cs. is_lower x \<or> is_digit x \<or> x \<in> set ''._-'')
   | _ \<Rightarrow> False)"

definition cache_extensions :: "(rat \<Rightarrow> string) \<Rightarrow> js_value \<Rightarrow> bool \<Rightarrow> string list option \<Rightarrow> string list option checked" where
  "cache_extensions nt v nullable fallback =
     (if nullable \<and> is_absent v then Inr None
      else if v = None then Inr fallback
      else
        let extensions = unique (filter (\<lambda>s. s \<noteq> []) (map (\<lambda>t. to_lower (trim t)) (raw_items nt v))) in
        if extensions = [] \<or> 64 < length extensions then Inl ''Static cache extensions''
        else if list_all extension_ok extensions then Inr (Some extensions)
        else Inl ''Invalid static cache extension'')"

definition is_text_content_type :: "string \<Rightarrow> bool" where
  "is_text_content_type t \<longleftrightarrow>
     (let base = to_lower (trim (hd (split_on CHR '';'' t))) in
      base \<noteq> [] \<and>
      (starts_with ''text/'' base \<or>
       base \<in> set [''application/json'', ''application/xml'', ''application/javascript'', ''application/x-javascript'',
         ''application/x-www-form-urlencoded'', ''application/x-ndjson'', ''application/ld+json''] \<or>
       (CHR 0x0a \<notin> set base \<and> CHR 0x0d \<notin> set base \<and> (ends_with ''+json'' base \<or> ends_with ''+xml'' base))))"

definition media_name_ok :: "string \<Rightarrow> bool" where
  "media_name_ok s \<longleftrightarrow> s \<noteq> [] \<and> (is_lower (hd s) \<or> is_digit (hd s)) \<and>
     (\<forall>c \<in> set (tl s). is_lower c \<or> is_digit c \<or> c \<in> set ''.+-'')"

definition body_capture_content_type_ok :: "string \<Rightarrow> bool" where
  "body_capture_content_type_ok t \<longleftrightarrow> t = ''*'' \<or>
     (length t \<le> 128 \<and> is_text_content_type t \<and>
      (case split_on CHR ''/'' t of [a, b] \<Rightarrow> media_name_ok a \<and> media_name_ok b | _ \<Rightarrow> False))"

definition body_capture_content_types :: "(rat \<Rightarrow> string) \<Rightarrow> js_value \<Rightarrow> bool \<Rightarrow> string list option \<Rightarrow> string list option checked" where
  "body_capture_content_types nt v nullable fallback =
     (if nullable \<and> is_absent v then Inr None
      else if v = None then Inr fallback
      else
        let types = unique (filter (\<lambda>s. s \<noteq> []) (map (\<lambda>t. to_lower (trim (hd (split_on CHR '';'' t)))) (raw_items nt v))) in
        if 32 < length types then Inl ''Body capture content types''
        else if list_all body_capture_content_type_ok types then Inr (Some types)
        else Inl ''Body capture only supports text-based content types'')"

definition header_capture_redacted_headers :: "(rat \<Rightarrow> string) \<Rightarrow> js_value \<Rightarrow> bool \<Rightarrow> string list option \<Rightarrow> string list option checked" where
  "header_capture_redacted_headers nt v nullable fallback =
     (if nullable \<and> is_absent v then Inr None
      else if v = None then Inr fallback
      else and_then (check_all (\<lambda>t. normalized_header_name t ''Header capture redacted header'')
             (filter (\<lambda>s. s \<noteq> []) (map trim (raw_items nt v))))
           (\<lambda>names. if 32 < length (unique names) then Inl ''Header capture redacted headers'' else Inr (Some (unique names))))"

section \<open>Cross-origin requests\<close>

definition cors_origin_pattern :: "string \<Rightarrow> bool" where
  "cors_origin_pattern origin \<longleftrightarrow>
     (let s = to_lower origin;
          rest = (if starts_with ''https://'' s then Some (drop 8 s) else if starts_with ''http://'' s then Some (drop 7 s) else None) in
      case rest of
        None \<Rightarrow> False
      | Some r \<Rightarrow>
          (let host = takeWhile (\<lambda>c. c \<noteq> CHR '':'') r; port = dropWhile (\<lambda>c. c \<noteq> CHR '':'') r in
           host \<noteq> [] \<and> is_alnum (hd host) \<and> is_alnum (last host) \<and>
           (\<forall>c \<in> set host. is_alnum c \<or> c = CHR ''.'' \<or> c = CHR ''-'') \<and>
           (port = [] \<or> (2 \<le> length port \<and> length port \<le> 6 \<and> list_all is_digit (tl port)))))"

definition cors_origin_ok :: "string \<Rightarrow> bool" where
  "cors_origin_ok origin \<longleftrightarrow> origin = ''*'' \<or> (length origin \<le> 256 \<and> cors_origin_pattern origin)"

definition cors_origins :: "(rat \<Rightarrow> string) \<Rightarrow> js_value \<Rightarrow> bool \<Rightarrow> string list option \<Rightarrow> string list option checked" where
  "cors_origins nt v nullable fallback =
     (if nullable \<and> is_absent v then Inr None
      else if v = None then Inr fallback
      else
        let origins = unique (filter (\<lambda>s. s \<noteq> []) (map trim (raw_items nt v))) in
        if 64 < length origins then Inl ''CORS allowed origins''
        else if \<not> list_all cors_origin_ok origins then Inl ''Invalid CORS origin''
        else if ''*'' \<in> set origins \<and> 1 < length origins then Inl ''CORS allowed origins cannot mix * with specific origins''
        else Inr (Some origins))"

definition cors_methods :: "(rat \<Rightarrow> string) \<Rightarrow> js_value \<Rightarrow> bool \<Rightarrow> string list option \<Rightarrow> string list option checked" where
  "cors_methods nt v nullable fallback =
     (if nullable \<and> is_absent v then Inr None
      else if v = None then Inr fallback
      else
        let methods = unique (filter (\<lambda>s. s \<noteq> []) (map (\<lambda>t. to_upper (trim t)) (raw_items nt v))) in
        if 32 < length methods then Inl ''CORS allowed methods''
        else if list_all http_token methods then Inr (Some methods)
        else Inl ''Invalid CORS method'')"

definition protected_request_headers :: "string list" where
  "protected_request_headers = [''connection'', ''content-length'', ''forwarded'', ''host'', ''keep-alive'', ''proxy-authenticate'',
     ''proxy-authorization'', ''proxy-connection'', ''te'', ''trailer'', ''transfer-encoding'', ''upgrade'', ''x-forwarded-for'',
     ''x-forwarded-host'', ''x-forwarded-port'', ''x-forwarded-proto'', ''x-forwarded-protocol'', ''x-real-ip'']"

definition protected_response_set_headers :: "string list" where
  "protected_response_set_headers = [''connection'', ''content-encoding'', ''content-length'', ''keep-alive'', ''proxy-authenticate'',
     ''proxy-authorization'', ''proxy-connection'', ''set-cookie'', ''te'', ''trailer'', ''transfer-encoding'', ''upgrade'']"

definition response_header_owned :: "string \<Rightarrow> bool" where
  "response_header_owned name \<longleftrightarrow> name \<in> set protected_response_set_headers \<or> starts_with ''x-burrowgate-'' name"

definition request_header_owned :: "string \<Rightarrow> bool" where
  "request_header_owned name \<longleftrightarrow> name \<in> set protected_request_headers \<or> starts_with ''x-burrowgate-'' name"

definition cors_header_names ::
  "(rat \<Rightarrow> string) \<Rightarrow> js_value \<Rightarrow> bool \<Rightarrow> string list option \<Rightarrow> string \<Rightarrow> bool \<Rightarrow> string list option checked" where
  "cors_header_names nt v nullable fallback label guard_exposed =
     (if nullable \<and> is_absent v then Inr None
      else if v = None then Inr fallback
      else and_then (check_all (\<lambda>t. normalized_header_name t label) (filter (\<lambda>s. s \<noteq> []) (map trim (raw_items nt v))))
        (\<lambda>raw. let names = unique raw in
           if 64 < length names then Inl label
           else if guard_exposed \<and> list_ex response_header_owned names then Inl label
           else Inr (Some names)))"

section \<open>Parts of a policy\<close>

definition parse_site_protection :: "(rat \<Rightarrow> string) \<Rightarrow> js_value \<Rightarrow> site_protection checked" where
  "parse_site_protection nt v =
     (let i = input_object v in
      and_then (protection_mode nt (j_get i ''mode'') False ProtMonitor) (\<lambda>m.
      and_then (protection_ruleset_id nt (j_get i ''rulesetId'') ''default'') (\<lambda>r.
      and_then (protection_rule_ids nt (j_get i ''excludedRuleIds'') []) (\<lambda>x.
      Inr \<lparr>sp_mode = m, sp_ruleset_id = r, sp_excluded_rule_ids = x\<rparr>))))"

definition parse_route_protection :: "(rat \<Rightarrow> string) \<Rightarrow> js_value \<Rightarrow> route_protection checked" where
  "parse_route_protection nt v =
     (let i = input_object v in
      and_then (protection_mode nt (j_get i ''mode'') True ProtInherit) (\<lambda>m.
      and_then (protection_rule_ids nt (j_get i ''excludedRuleIds'') []) (\<lambda>x.
      Inr \<lparr>rt_mode = m, rt_excluded_rule_ids = x\<rparr>)))"

definition max_ban_duration_seconds :: int where
  "max_ban_duration_seconds = 2592000"

definition parse_site_ban_durations :: "(rat \<Rightarrow> string) \<Rightarrow> js_value \<Rightarrow> int ban_durations_of checked" where
  "parse_site_ban_durations nt v =
     (let i = input_object v;
          duration = (\<lambda>key label d. present (cache_integer nt (j_get i key) label (Some d) 0 max_ban_duration_seconds False)) in
      and_then (duration ''low'' ''Low severity ban duration'' 0) (\<lambda>l.
      and_then (duration ''medium'' ''Medium severity ban duration'' 600) (\<lambda>m.
      and_then (duration ''high'' ''High severity ban duration'' 3600) (\<lambda>h.
      and_then (duration ''critical'' ''Critical severity ban duration'' 86400) (\<lambda>c.
      Inr \<lparr>bd_low = l, bd_medium = m, bd_high = h, bd_critical = c\<rparr>)))))"

definition parse_route_ban_durations :: "(rat \<Rightarrow> string) \<Rightarrow> js_value \<Rightarrow> int option ban_durations_of checked" where
  "parse_route_ban_durations nt v =
     (let i = input_object v;
          duration = (\<lambda>key label. cache_integer nt (j_get i key) label None 0 max_ban_duration_seconds True) in
      and_then (duration ''low'' ''Low severity ban duration'') (\<lambda>l.
      and_then (duration ''medium'' ''Medium severity ban duration'') (\<lambda>m.
      and_then (duration ''high'' ''High severity ban duration'') (\<lambda>h.
      and_then (duration ''critical'' ''Critical severity ban duration'') (\<lambda>c.
      Inr \<lparr>bd_low = l, bd_medium = m, bd_high = h, bd_critical = c\<rparr>)))))"

definition max_bandwidth_limit_bytes :: int where
  "max_bandwidth_limit_bytes = 1099511627776"

definition max_bandwidth_limit_window_seconds :: int where
  "max_bandwidth_limit_window_seconds = 3600"

definition parse_site_bandwidth_limit :: "(rat \<Rightarrow> string) \<Rightarrow> js_value \<Rightarrow> (bool, int) bandwidth_of checked" where
  "parse_site_bandwidth_limit nt v =
     (let i = input_object v in
      and_then (bandwidth_limit_boolean (j_get i ''enabled'') False) (\<lambda>e.
      and_then (present (cache_integer nt (j_get i ''maxBytes'') ''Bandwidth limit threshold'' (Some (50 * 1024 * 1024))
                  1 max_bandwidth_limit_bytes False)) (\<lambda>b.
      and_then (present (cache_integer nt (j_get i ''windowSeconds'') ''Bandwidth limit window'' (Some 60)
                  1 max_bandwidth_limit_window_seconds False)) (\<lambda>w.
      and_then (present (cache_integer nt (j_get i ''banSeconds'') ''Bandwidth limit ban duration'' (Some 3600)
                  0 max_ban_duration_seconds False)) (\<lambda>s.
      Inr \<lparr>bw_enabled = e, bw_max_bytes = b, bw_window_seconds = w, bw_ban_seconds = s\<rparr>)))))"

definition parse_route_bandwidth_limit :: "(rat \<Rightarrow> string) \<Rightarrow> js_value \<Rightarrow> (bool option, int option) bandwidth_of checked" where
  "parse_route_bandwidth_limit nt v =
     (let i = input_object v in
      and_then (route_bandwidth_limit_boolean (j_get i ''enabled'')) (\<lambda>e.
      and_then (cache_integer nt (j_get i ''maxBytes'') ''Route bandwidth limit threshold'' None 1 max_bandwidth_limit_bytes True) (\<lambda>b.
      and_then (cache_integer nt (j_get i ''windowSeconds'') ''Route bandwidth limit window'' None
                  1 max_bandwidth_limit_window_seconds True) (\<lambda>w.
      and_then (cache_integer nt (j_get i ''banSeconds'') ''Route bandwidth limit ban duration'' None 0 max_ban_duration_seconds True) (\<lambda>s.
      Inr \<lparr>bw_enabled = e, bw_max_bytes = b, bw_window_seconds = w, bw_ban_seconds = s\<rparr>)))))"

definition parse_site_cache :: "(rat \<Rightarrow> string) \<Rightarrow> http_config \<Rightarrow> js_value \<Rightarrow> (int, string list) cache_of checked" where
  "parse_site_cache nt cf v =
     (let i = input_object v; d = sh_cache (default_site_policy cf) in
      and_then (cache_mode nt (j_get i ''mode'') False (cc_mode d)) (\<lambda>m.
      and_then (present (cache_integer nt (j_get i ''ttlSeconds'') ''Static cache TTL'' (Some (cc_ttl_seconds d)) 1 604800 False)) (\<lambda>t.
      and_then (present (cache_integer nt (j_get i ''maxObjectBytes'') ''Static cache maximum object size''
                  (Some (cc_max_object_bytes d)) 1024 (static_cache_object_ceiling cf) False)) (\<lambda>b.
      and_then (present (cache_extensions nt (j_get i ''extensions'') False (Some (cc_extensions d)))) (\<lambda>x.
      Inr \<lparr>cc_mode = m, cc_ttl_seconds = t, cc_max_object_bytes = b, cc_extensions = x\<rparr>)))))"

definition parse_route_cache :: "(rat \<Rightarrow> string) \<Rightarrow> http_config \<Rightarrow> js_value \<Rightarrow> (int option, string list option) cache_of checked" where
  "parse_route_cache nt cf v =
     (let i = input_object v in
      and_then (cache_mode nt (j_get i ''mode'') True ModeInherit) (\<lambda>m.
      and_then (cache_integer nt (j_get i ''ttlSeconds'') ''Route static cache TTL'' None 1 604800 True) (\<lambda>t.
      and_then (cache_integer nt (j_get i ''maxObjectBytes'') ''Route static cache maximum object size'' None
                  1024 (static_cache_object_ceiling cf) True) (\<lambda>b.
      and_then (cache_extensions nt (j_get i ''extensions'') True None) (\<lambda>x.
      Inr \<lparr>cc_mode = m, cc_ttl_seconds = t, cc_max_object_bytes = b, cc_extensions = x\<rparr>)))))"

definition parse_site_body_capture :: "(rat \<Rightarrow> string) \<Rightarrow> http_config \<Rightarrow> js_value \<Rightarrow> (int, string list) body_capture_of checked" where
  "parse_site_body_capture nt cf v =
     (let i = input_object v; d = sh_body_capture (default_site_policy cf) in
      and_then (body_capture_mode nt (j_get i ''mode'') False (bc_mode d)) (\<lambda>m.
      and_then (present (body_capture_bytes nt cf (j_get i ''maxRequestBytes'') ''Site maximum request body''
                  (Some (bc_max_request_bytes d)) False)) (\<lambda>q.
      and_then (present (body_capture_bytes nt cf (j_get i ''maxResponseBytes'') ''Site maximum response body''
                  (Some (bc_max_response_bytes d)) False)) (\<lambda>s.
      and_then (body_capture_expires_at nt (j_get i ''expiresAt'') (bc_expires_at d)) (\<lambda>e.
      and_then (present (body_capture_content_types nt (j_get i ''contentTypes'') False (Some (bc_content_types d)))) (\<lambda>c.
      Inr \<lparr>bc_mode = m, bc_max_request_bytes = q, bc_max_response_bytes = s, bc_expires_at = e, bc_content_types = c\<rparr>))))))"

definition parse_route_body_capture ::
  "(rat \<Rightarrow> string) \<Rightarrow> http_config \<Rightarrow> js_value \<Rightarrow> (int option, string list option) body_capture_of checked" where
  "parse_route_body_capture nt cf v =
     (let i = input_object v in
      and_then (body_capture_mode nt (j_get i ''mode'') True ModeInherit) (\<lambda>m.
      and_then (body_capture_bytes nt cf (j_get i ''maxRequestBytes'') ''Route maximum request body'' None True) (\<lambda>q.
      and_then (body_capture_bytes nt cf (j_get i ''maxResponseBytes'') ''Route maximum response body'' None True) (\<lambda>s.
      and_then (body_capture_expires_at nt (j_get i ''expiresAt'') None) (\<lambda>e.
      and_then (body_capture_content_types nt (j_get i ''contentTypes'') True None) (\<lambda>c.
      Inr \<lparr>bc_mode = m, bc_max_request_bytes = q, bc_max_response_bytes = s, bc_expires_at = e, bc_content_types = c\<rparr>))))))"

definition parse_site_header_capture :: "(rat \<Rightarrow> string) \<Rightarrow> js_value \<Rightarrow> (bool, string list) header_capture_of checked" where
  "parse_site_header_capture nt v =
     (let i = input_object v in
      and_then (header_capture_mode nt (j_get i ''mode'') False ModeDisabled) (\<lambda>m.
      and_then (header_capture_boolean (j_get i ''redactAuthHeaders'') True) (\<lambda>a.
      and_then (present (header_capture_redacted_headers nt (j_get i ''redactedHeaders'') False (Some []))) (\<lambda>h.
      and_then (body_capture_expires_at nt (j_get i ''expiresAt'') None) (\<lambda>e.
      Inr \<lparr>hcap_mode = m, hcap_redact_auth_headers = a, hcap_redacted_headers = h, hcap_expires_at = e\<rparr>)))))"

definition parse_route_header_capture ::
  "(rat \<Rightarrow> string) \<Rightarrow> js_value \<Rightarrow> (bool option, string list option) header_capture_of checked" where
  "parse_route_header_capture nt v =
     (let i = input_object v in
      and_then (header_capture_mode nt (j_get i ''mode'') True ModeInherit) (\<lambda>m.
      and_then (route_header_capture_boolean (j_get i ''redactAuthHeaders'')) (\<lambda>a.
      and_then (header_capture_redacted_headers nt (j_get i ''redactedHeaders'') True None) (\<lambda>h.
      and_then (body_capture_expires_at nt (j_get i ''expiresAt'') None) (\<lambda>e.
      Inr \<lparr>hcap_mode = m, hcap_redact_auth_headers = a, hcap_redacted_headers = h, hcap_expires_at = e\<rparr>)))))"

definition max_cors_max_age_seconds :: int where
  "max_cors_max_age_seconds = 86400"

definition parse_site_cors :: "(rat \<Rightarrow> string) \<Rightarrow> js_value \<Rightarrow> site_cors checked" where
  "parse_site_cors nt v =
     (let i = input_object v in
      and_then (cors_credentials_boolean (j_get i ''allowCredentials'') False) (\<lambda>cred.
      and_then (present (cors_origins nt (j_get i ''allowedOrigins'') False (Some []))) (\<lambda>origins.
      if cred \<and> ''*'' \<in> set origins then Inl ''CORS allowed origins cannot be * when allow credentials is enabled''
      else
      and_then (cors_mode nt (j_get i ''mode'') False ModeDisabled) (\<lambda>m.
      and_then (present (cors_methods nt (j_get i ''allowedMethods'') False (Some [''GET'', ''HEAD'', ''POST'']))) (\<lambda>ms.
      and_then (present (cors_header_names nt (j_get i ''allowedHeaders'') False (Some [''content-type'', ''authorization''])
                  ''CORS allowed headers'' False)) (\<lambda>ah.
      and_then (present (cors_header_names nt (j_get i ''exposedHeaders'') False (Some []) ''CORS exposed headers'' True)) (\<lambda>eh.
      and_then (present (cache_integer nt (j_get i ''maxAgeSeconds'') ''CORS max age'' (Some 86400) 0 max_cors_max_age_seconds False)) (\<lambda>a.
      Inr \<lparr>co_mode = m, co_allowed_origins = origins, co_allowed_methods = ms, co_allowed_headers = ah,
           co_exposed_headers = eh, co_allow_credentials = cred, co_max_age_seconds = a\<rparr>))))))))"

definition parse_route_cors :: "(rat \<Rightarrow> string) \<Rightarrow> js_value \<Rightarrow> route_cors checked" where
  "parse_route_cors nt v =
     (let i = input_object v in
      and_then (route_cors_credentials_boolean (j_get i ''allowCredentials'')) (\<lambda>cred.
      and_then (cors_origins nt (j_get i ''allowedOrigins'') True None) (\<lambda>origins.
      if cred = Some True \<and> (case origins of None \<Rightarrow> False | Some xs \<Rightarrow> ''*'' \<in> set xs)
      then Inl ''CORS allowed origins cannot be * when allow credentials is enabled''
      else
      and_then (cors_mode nt (j_get i ''mode'') True ModeInherit) (\<lambda>m.
      and_then (cors_methods nt (j_get i ''allowedMethods'') True None) (\<lambda>ms.
      and_then (cors_header_names nt (j_get i ''allowedHeaders'') True None ''Route CORS allowed headers'' False) (\<lambda>ah.
      and_then (cors_header_names nt (j_get i ''exposedHeaders'') True None ''Route CORS exposed headers'' True) (\<lambda>eh.
      and_then (cache_integer nt (j_get i ''maxAgeSeconds'') ''Route CORS max age'' None 0 max_cors_max_age_seconds True) (\<lambda>a.
      Inr \<lparr>co_mode = m, co_allowed_origins = origins, co_allowed_methods = ms, co_allowed_headers = ah,
           co_exposed_headers = eh, co_allow_credentials = cred, co_max_age_seconds = a\<rparr>))))))))"

definition max_hsts_max_age_seconds :: int where
  "max_hsts_max_age_seconds = 63072000"

definition hsts_preload_min_max_age_seconds :: int where
  "hsts_preload_min_max_age_seconds = 31536000"

definition parse_site_hsts :: "(rat \<Rightarrow> string) \<Rightarrow> js_value \<Rightarrow> hsts_policy checked" where
  "parse_site_hsts nt v =
     (let i = input_object v in
      and_then (toggle_value nt ''HSTS mode'' (j_get i ''mode'') False ModeDisabled) (\<lambda>m.
      and_then (present (cache_integer nt (j_get i ''maxAgeSeconds'') ''HSTS max age'' (Some 15552000) 0 max_hsts_max_age_seconds False)) (\<lambda>a.
      and_then (hsts_boolean (j_get i ''includeSubDomains'') False ''HSTS include subdomains'') (\<lambda>s.
      and_then (hsts_boolean (j_get i ''preload'') False ''HSTS preload'') (\<lambda>p.
      if p \<and> (\<not> s \<or> a < hsts_preload_min_max_age_seconds) then Inl ''HSTS preload''
      else Inr \<lparr>hs_mode = m, hs_max_age_seconds = a, hs_include_sub_domains = s, hs_preload = p\<rparr>)))))"

section \<open>Header rules, limits and blocked fields\<close>

datatype header_direction = RequestHeader | ResponseHeader

definition assert_mutable_header :: "string \<Rightarrow> header_direction \<Rightarrow> bool \<Rightarrow> unit checked" where
  "assert_mutable_header name direction is_set =
     (if direction = RequestHeader \<and> request_header_owned name then Inl name
      else if direction = ResponseHeader \<and> is_set \<and> response_header_owned name then Inl name
      else Inr ())"

fun parse_header_sets ::
  "(rat \<Rightarrow> string) \<Rightarrow> string \<Rightarrow> header_direction \<Rightarrow> json list \<Rightarrow> (string, string) omap \<Rightarrow> (string, string) omap checked" where
  "parse_header_sets nt label direction [] acc = Inr acc"
| "parse_header_sets nt label direction (x # xs) acc =
     and_then (object_value (Some x) label) (\<lambda>a.
     and_then (normalized_header_name (js_text nt (j_get a ''name'')) label) (\<lambda>name.
     and_then (assert_mutable_header name direction True) (\<lambda>_.
     let t = js_text nt (j_get a ''value'') in
     if 8192 < length t \<or> CHR 0x0d \<in> set t \<or> CHR 0x0a \<in> set t \<or> CHR 0x00 \<in> set t then Inl label
     else parse_header_sets nt label direction xs (om_set name t acc))))"

fun parse_header_removals ::
  "(rat \<Rightarrow> string) \<Rightarrow> string \<Rightarrow> header_direction \<Rightarrow> string list \<Rightarrow> json list \<Rightarrow> string list \<Rightarrow> string list checked" where
  "parse_header_removals nt label direction taken [] acc = Inr acc"
| "parse_header_removals nt label direction taken (x # xs) acc =
     and_then (normalized_header_name (js_text nt (Some x)) label) (\<lambda>name.
     and_then (assert_mutable_header name direction False) (\<lambda>_.
     if name \<in> set taken then Inl label
     else parse_header_removals nt label direction taken xs (if name \<in> set acc then acc else acc @ [name])))"

text \<open>\<open>record.set ?? []\<close>, which must be an array.\<close>

definition array_or_empty :: "js_value \<Rightarrow> string \<Rightarrow> json list checked" where
  "array_or_empty v label =
     (case v of None \<Rightarrow> Inr [] | Some JNull \<Rightarrow> Inr [] | Some (JArray xs) \<Rightarrow> Inr xs | Some _ \<Rightarrow> Inl label)"

definition parse_header_policy :: "(rat \<Rightarrow> string) \<Rightarrow> js_value \<Rightarrow> string \<Rightarrow> header_direction \<Rightarrow> header_policy checked" where
  "parse_header_policy nt v label direction =
     (if v = None \<or> v = Some JNull then Inr empty_header_policy
      else
      and_then (object_value v label) (\<lambda>r.
      and_then (array_or_empty (j_get r ''set'') label) (\<lambda>sets.
      and_then (array_or_empty (j_get r ''remove'') label) (\<lambda>removals.
      if 64 < length sets \<or> 64 < length removals then Inl label
      else
      and_then (parse_header_sets nt label direction sets []) (\<lambda>assignments.
      and_then (parse_header_removals nt label direction (om_keys assignments) removals []) (\<lambda>names.
      Inr \<lparr>hp_set = assignments, hp_remove = names\<rparr>))))))"

definition limit_value :: "(rat \<Rightarrow> string) \<Rightarrow> string \<Rightarrow> int \<Rightarrow> js_value \<Rightarrow> bool \<Rightarrow> int option checked" where
  "limit_value nt label maximum v nullable =
     (if nullable \<and> is_absent v then Inr None
      else case js_safe_integer (js_to_number nt (if v = None \<or> v = Some JNull then Some (JNumber 0) else v)) of
        None \<Rightarrow> Inl label
      | Some i \<Rightarrow> if i < 0 \<or> maximum < i then Inl label else Inr (Some i))"

definition parse_limits :: "(rat \<Rightarrow> string) \<Rightarrow> js_value \<Rightarrow> bool \<Rightarrow> int option limits_of checked" where
  "parse_limits nt v nullable =
     (let i = input_object v; limit = (\<lambda>key label maximum. limit_value nt label maximum (j_get i key) nullable) in
      and_then (limit ''maxBodyBytes'' ''Maximum request body'' 1099511627776) (\<lambda>b.
      and_then (limit ''maxRequestTargetBytes'' ''Maximum request target'' 1048576) (\<lambda>t.
      and_then (limit ''maxHeaderBytes'' ''Maximum request headers'' 1048576) (\<lambda>h.
      and_then (limit ''maxHeaderCount'' ''Maximum request header count'' 10000) (\<lambda>c.
      and_then (limit ''maxInputFields'' ''Maximum input fields'' 1000000) (\<lambda>f.
      and_then (limit ''maxMultipartParts'' ''Maximum multipart parts'' 1000000) (\<lambda>p.
      and_then (limit ''maxInputNestingDepth'' ''Maximum input nesting depth'' 1024) (\<lambda>d.
      Inr \<lparr>rl_max_body_bytes = b, rl_max_request_target_bytes = t, rl_max_header_bytes = h, rl_max_header_count = c,
           rl_max_input_fields = f, rl_max_multipart_parts = p, rl_max_input_nesting_depth = d\<rparr>))))))))"

definition limits_present :: "int option limits_of \<Rightarrow> request_limits checked" where
  "limits_present l =
     and_then (present (Inr (rl_max_body_bytes l))) (\<lambda>b.
     and_then (present (Inr (rl_max_request_target_bytes l))) (\<lambda>t.
     and_then (present (Inr (rl_max_header_bytes l))) (\<lambda>h.
     and_then (present (Inr (rl_max_header_count l))) (\<lambda>c.
     and_then (present (Inr (rl_max_input_fields l))) (\<lambda>f.
     and_then (present (Inr (rl_max_multipart_parts l))) (\<lambda>p.
     and_then (present (Inr (rl_max_input_nesting_depth l))) (\<lambda>d.
     Inr \<lparr>rl_max_body_bytes = b, rl_max_request_target_bytes = t, rl_max_header_bytes = h, rl_max_header_count = c,
          rl_max_input_fields = f, rl_max_multipart_parts = p, rl_max_input_nesting_depth = d\<rparr>)))))))"

definition blocked_name_ok :: "string \<Rightarrow> bool" where
  "blocked_name_ok s \<longleftrightarrow> s \<noteq> [] \<and> length s \<le> 128 \<and> (\<forall>c \<in> set s. 33 \<le> char_code c \<and> char_code c \<le> 126)"

definition blocked_field_name :: "json \<Rightarrow> string checked" where
  "blocked_field_name x =
     (case x of
        JString s \<Rightarrow> if blocked_name_ok s then Inr s else Inl ''Blocked multipart field names''
      | _ \<Rightarrow> Inl ''Blocked multipart field names'')"

definition parse_blocked_multipart_fields :: "js_value \<Rightarrow> bool \<Rightarrow> string list option checked" where
  "parse_blocked_multipart_fields v nullable =
     (case v of
        None \<Rightarrow> Inr (if nullable then None else Some [])
      | Some JNull \<Rightarrow> Inr (if nullable then None else Some [])
      | Some (JArray xs) \<Rightarrow>
          if 32 < length xs then Inl ''At most 32 blocked multipart fields are allowed''
          else and_then (check_all blocked_field_name xs) (\<lambda>names. Inr (Some (unique names)))
      | Some _ \<Rightarrow> Inl ''Blocked multipart fields'')"

section \<open>Whole policies\<close>

definition parse_site_policy :: "(rat \<Rightarrow> string) \<Rightarrow> http_config \<Rightarrow> js_value \<Rightarrow> site_http_policy checked" where
  "parse_site_policy nt cf v =
     (let i = input_object v in
      and_then (parse_header_policy nt (j_get i ''requestHeaders'') ''Request header policy'' RequestHeader) (\<lambda>rq.
      and_then (parse_header_policy nt (j_get i ''responseHeaders'') ''Response header policy'' ResponseHeader) (\<lambda>rs.
      and_then (and_then (parse_limits nt (j_get i ''limits'') False) limits_present) (\<lambda>l.
      and_then (present (parse_blocked_multipart_fields (j_get i ''blockedMultipartFields'') False)) (\<lambda>bf.
      and_then (parse_site_cache nt cf (j_get i ''cache'')) (\<lambda>ca.
      and_then (parse_site_protection nt (j_get i ''protection'')) (\<lambda>pr.
      and_then (parse_site_ban_durations nt (j_get i ''banDurations'')) (\<lambda>bd.
      and_then (parse_site_bandwidth_limit nt (j_get i ''bandwidthLimit'')) (\<lambda>bw.
      and_then (parse_site_body_capture nt cf (j_get i ''bodyCapture'')) (\<lambda>bc.
      and_then (parse_site_header_capture nt (j_get i ''headerCapture'')) (\<lambda>hc.
      and_then (parse_site_cors nt (j_get i ''cors'')) (\<lambda>co.
      and_then (parse_site_hsts nt (j_get i ''hsts'')) (\<lambda>hs.
      Inr \<lparr>sh_request_headers = rq, sh_response_headers = rs, sh_limits = l, sh_blocked_multipart_fields = bf, sh_cache = ca,
           sh_protection = pr, sh_ban_durations = bd, sh_bandwidth_limit = bw, sh_body_capture = bc,
           sh_header_capture = hc, sh_cors = co, sh_hsts = hs\<rparr>)))))))))))))"

definition parse_route_policy :: "(rat \<Rightarrow> string) \<Rightarrow> http_config \<Rightarrow> js_value \<Rightarrow> route_http_policy checked" where
  "parse_route_policy nt cf v =
     (let i = input_object v in
      and_then (parse_header_policy nt (j_get i ''requestHeaders'') ''Route request header policy'' RequestHeader) (\<lambda>rq.
      and_then (parse_header_policy nt (j_get i ''responseHeaders'') ''Route response header policy'' ResponseHeader) (\<lambda>rs.
      and_then (parse_limits nt (j_get i ''limits'') True) (\<lambda>l.
      and_then (parse_blocked_multipart_fields (j_get i ''blockedMultipartFields'') True) (\<lambda>bf.
      and_then (parse_route_cache nt cf (j_get i ''cache'')) (\<lambda>ca.
      and_then (parse_route_protection nt (j_get i ''protection'')) (\<lambda>pr.
      and_then (parse_route_ban_durations nt (j_get i ''banDurations'')) (\<lambda>bd.
      and_then (parse_route_bandwidth_limit nt (j_get i ''bandwidthLimit'')) (\<lambda>bw.
      and_then (parse_route_body_capture nt cf (j_get i ''bodyCapture'')) (\<lambda>bc.
      and_then (parse_route_header_capture nt (j_get i ''headerCapture'')) (\<lambda>hc.
      and_then (parse_route_cors nt (j_get i ''cors'')) (\<lambda>co.
      Inr \<lparr>rh_request_headers = rq, rh_response_headers = rs, rh_limits = l, rh_blocked_multipart_fields = bf, rh_cache = ca,
           rh_protection = pr, rh_ban_durations = bd, rh_bandwidth_limit = bw, rh_body_capture = bc,
           rh_header_capture = hc, rh_cors = co\<rparr>))))))))))))"

text \<open>The stored text, as the value \<open>JSON.parse\<close> gives; \<^term>\<open>None\<close> when there is none or it does not parse.\<close>

definition stored_site_policy :: "(rat \<Rightarrow> string) \<Rightarrow> http_config \<Rightarrow> json option \<Rightarrow> site_http_policy" where
  "stored_site_policy nt cf stored =
     (case parse_site_policy nt cf (Some (input_object stored)) of Inl _ \<Rightarrow> default_site_policy cf | Inr p \<Rightarrow> p)"

definition stored_route_policy :: "(rat \<Rightarrow> string) \<Rightarrow> http_config \<Rightarrow> json option \<Rightarrow> route_http_policy" where
  "stored_route_policy nt cf stored =
     (case parse_route_policy nt cf (Some (input_object stored)) of Inl _ \<Rightarrow> default_route_policy | Inr p \<Rightarrow> p)"

section \<open>Writing a policy\<close>

fun toggle_json :: "toggle_mode \<Rightarrow> json" where
  "toggle_json ModeInherit = JString ''inherit''"
| "toggle_json ModeDisabled = JString ''disabled''"
| "toggle_json ModeEnabled = JString ''enabled''"

fun protection_mode_json :: "protection_level \<Rightarrow> json" where
  "protection_mode_json ProtInherit = JString ''inherit''"
| "protection_mode_json ProtDisabled = JString ''disabled''"
| "protection_mode_json ProtMonitor = JString ''monitor''"
| "protection_mode_json ProtBlock = JString ''block''"

definition header_policy_json :: "header_policy \<Rightarrow> json" where
  "header_policy_json p = JObject
     [(''set'', JArray (map (\<lambda>(n, v). JObject [(''name'', JString n), (''value'', JString v)]) (hp_set p))),
      (''remove'', json_strings (hp_remove p))]"

definition limits_json :: "('n \<Rightarrow> json) \<Rightarrow> 'n limits_of \<Rightarrow> json" where
  "limits_json n l = JObject
     [(''maxBodyBytes'', n (rl_max_body_bytes l)), (''maxRequestTargetBytes'', n (rl_max_request_target_bytes l)),
      (''maxHeaderBytes'', n (rl_max_header_bytes l)), (''maxHeaderCount'', n (rl_max_header_count l)),
      (''maxInputFields'', n (rl_max_input_fields l)), (''maxMultipartParts'', n (rl_max_multipart_parts l)),
      (''maxInputNestingDepth'', n (rl_max_input_nesting_depth l))]"

definition cache_json :: "('n \<Rightarrow> json) \<Rightarrow> ('l \<Rightarrow> json) \<Rightarrow> ('n, 'l) cache_of \<Rightarrow> json" where
  "cache_json n l c = JObject
     [(''mode'', toggle_json (cc_mode c)), (''ttlSeconds'', n (cc_ttl_seconds c)),
      (''maxObjectBytes'', n (cc_max_object_bytes c)), (''extensions'', l (cc_extensions c))]"

definition site_protection_json :: "site_protection \<Rightarrow> json" where
  "site_protection_json p = JObject
     [(''mode'', protection_mode_json (sp_mode p)), (''rulesetId'', JString (sp_ruleset_id p)),
      (''excludedRuleIds'', json_strings (sp_excluded_rule_ids p))]"

definition route_protection_json :: "route_protection \<Rightarrow> json" where
  "route_protection_json p = JObject
     [(''mode'', protection_mode_json (rt_mode p)), (''excludedRuleIds'', json_strings (rt_excluded_rule_ids p))]"

definition ban_durations_json :: "('n \<Rightarrow> json) \<Rightarrow> 'n ban_durations_of \<Rightarrow> json" where
  "ban_durations_json n d = JObject
     [(''low'', n (bd_low d)), (''medium'', n (bd_medium d)), (''high'', n (bd_high d)), (''critical'', n (bd_critical d))]"

definition bandwidth_json :: "('b \<Rightarrow> json) \<Rightarrow> ('n \<Rightarrow> json) \<Rightarrow> ('b, 'n) bandwidth_of \<Rightarrow> json" where
  "bandwidth_json b n w = JObject
     [(''enabled'', b (bw_enabled w)), (''maxBytes'', n (bw_max_bytes w)), (''windowSeconds'', n (bw_window_seconds w)),
      (''banSeconds'', n (bw_ban_seconds w))]"

definition body_capture_json :: "('n \<Rightarrow> json) \<Rightarrow> ('l \<Rightarrow> json) \<Rightarrow> ('n, 'l) body_capture_of \<Rightarrow> json" where
  "body_capture_json n l c = JObject
     [(''mode'', toggle_json (bc_mode c)), (''maxRequestBytes'', n (bc_max_request_bytes c)),
      (''maxResponseBytes'', n (bc_max_response_bytes c)), (''expiresAt'', json_opt json_int (bc_expires_at c)),
      (''contentTypes'', l (bc_content_types c))]"

definition header_capture_json :: "('b \<Rightarrow> json) \<Rightarrow> ('l \<Rightarrow> json) \<Rightarrow> ('b, 'l) header_capture_of \<Rightarrow> json" where
  "header_capture_json b l c = JObject
     [(''mode'', toggle_json (hcap_mode c)), (''redactAuthHeaders'', b (hcap_redact_auth_headers c)),
      (''redactedHeaders'', l (hcap_redacted_headers c)), (''expiresAt'', json_opt json_int (hcap_expires_at c))]"

definition cors_json :: "('b \<Rightarrow> json) \<Rightarrow> ('n \<Rightarrow> json) \<Rightarrow> ('l \<Rightarrow> json) \<Rightarrow> ('b, 'n, 'l) cors_of \<Rightarrow> json" where
  "cors_json b n l c = JObject
     [(''mode'', toggle_json (co_mode c)), (''allowedOrigins'', l (co_allowed_origins c)),
      (''allowedMethods'', l (co_allowed_methods c)), (''allowedHeaders'', l (co_allowed_headers c)),
      (''exposedHeaders'', l (co_exposed_headers c)), (''allowCredentials'', b (co_allow_credentials c)),
      (''maxAgeSeconds'', n (co_max_age_seconds c))]"

definition hsts_json :: "hsts_policy \<Rightarrow> json" where
  "hsts_json h = JObject
     [(''mode'', toggle_json (hs_mode h)), (''maxAgeSeconds'', json_int (hs_max_age_seconds h)),
      (''includeSubDomains'', JBool (hs_include_sub_domains h)), (''preload'', JBool (hs_preload h))]"

definition site_policy_json :: "site_http_policy \<Rightarrow> json" where
  "site_policy_json p = JObject
     [(''requestHeaders'', header_policy_json (sh_request_headers p)),
      (''responseHeaders'', header_policy_json (sh_response_headers p)),
      (''limits'', limits_json json_int (sh_limits p)),
      (''blockedMultipartFields'', json_strings (sh_blocked_multipart_fields p)),
      (''cache'', cache_json json_int json_strings (sh_cache p)),
      (''protection'', site_protection_json (sh_protection p)),
      (''banDurations'', ban_durations_json json_int (sh_ban_durations p)),
      (''bandwidthLimit'', bandwidth_json JBool json_int (sh_bandwidth_limit p)),
      (''bodyCapture'', body_capture_json json_int json_strings (sh_body_capture p)),
      (''headerCapture'', header_capture_json JBool json_strings (sh_header_capture p)),
      (''cors'', cors_json JBool json_int json_strings (sh_cors p)),
      (''hsts'', hsts_json (sh_hsts p))]"

definition route_policy_json :: "route_http_policy \<Rightarrow> json" where
  "route_policy_json p = (let n = json_opt json_int; l = json_opt json_strings; b = json_opt JBool in JObject
     [(''requestHeaders'', header_policy_json (rh_request_headers p)),
      (''responseHeaders'', header_policy_json (rh_response_headers p)),
      (''limits'', limits_json n (rh_limits p)),
      (''blockedMultipartFields'', l (rh_blocked_multipart_fields p)),
      (''cache'', cache_json n l (rh_cache p)),
      (''protection'', route_protection_json (rh_protection p)),
      (''banDurations'', ban_durations_json n (rh_ban_durations p)),
      (''bandwidthLimit'', bandwidth_json b n (rh_bandwidth_limit p)),
      (''bodyCapture'', body_capture_json n l (rh_body_capture p)),
      (''headerCapture'', header_capture_json b l (rh_header_capture p)),
      (''cors'', cors_json b n l (rh_cors p))])"

text \<open>\<open>{ ...current, ...supplied }\<close>, and the part a client may supply.\<close>

definition spread :: "json \<Rightarrow> json \<Rightarrow> json" where
  "spread current supplied =
     (case (current, supplied) of
        (JObject a, JObject b) \<Rightarrow> JObject (b @ filter (\<lambda>(k, _). k \<notin> fst ` set b) a)
      | _ \<Rightarrow> current)"

definition supplied_part :: "json \<Rightarrow> string \<Rightarrow> string \<Rightarrow> json checked" where
  "supplied_part v key label =
     (case j_get v key of None \<Rightarrow> Inr (JObject []) | Some x \<Rightarrow> object_value (Some x) label)"

definition in_or :: "json \<Rightarrow> string \<Rightarrow> json \<Rightarrow> json" where
  "in_or v key current = (case j_get v key of None \<Rightarrow> current | Some x \<Rightarrow> x)"

definition serialize_site_http_policy :: "(rat \<Rightarrow> string) \<Rightarrow> http_config \<Rightarrow> js_value \<Rightarrow> json option \<Rightarrow> json checked" where
  "serialize_site_http_policy nt cf input existing =
     (if input = None then Inr (site_policy_json (stored_site_policy nt cf existing))
      else if input = Some JNull then Inr (site_policy_json (default_site_policy cf))
      else
      and_then (object_value input ''Site HTTP policy'') (\<lambda>v.
      let cur = site_policy_json (stored_site_policy nt cf existing);
          part = (\<lambda>key. the (j_get cur key)) in
      and_then (supplied_part v ''limits'' ''Site request limits'') (\<lambda>li.
      and_then (supplied_part v ''cache'' ''Site static cache policy'') (\<lambda>ca.
      and_then (supplied_part v ''protection'' ''Site managed protection policy'') (\<lambda>pr.
      and_then (supplied_part v ''banDurations'' ''Site ban duration policy'') (\<lambda>bd.
      and_then (supplied_part v ''bandwidthLimit'' ''Site bandwidth limit policy'') (\<lambda>bw.
      and_then (supplied_part v ''bodyCapture'' ''Site body capture policy'') (\<lambda>bc.
      and_then (supplied_part v ''headerCapture'' ''Site header capture policy'') (\<lambda>hc.
      and_then (supplied_part v ''cors'' ''Site CORS policy'') (\<lambda>co.
      and_then (supplied_part v ''hsts'' ''Site HSTS policy'') (\<lambda>hs.
      and_then (parse_site_policy nt cf (Some (JObject
        [(''requestHeaders'', in_or v ''requestHeaders'' (part ''requestHeaders'')),
         (''responseHeaders'', in_or v ''responseHeaders'' (part ''responseHeaders'')),
         (''limits'', spread (part ''limits'') li),
         (''blockedMultipartFields'', in_or v ''blockedMultipartFields'' (part ''blockedMultipartFields'')),
         (''cache'', spread (part ''cache'') ca),
         (''protection'', spread (part ''protection'') pr),
         (''banDurations'', spread (part ''banDurations'') bd),
         (''bandwidthLimit'', spread (part ''bandwidthLimit'') bw),
         (''bodyCapture'', spread (part ''bodyCapture'') bc),
         (''headerCapture'', spread (part ''headerCapture'') hc),
         (''cors'', spread (part ''cors'') co),
         (''hsts'', spread (part ''hsts'') hs)]))) (\<lambda>p.
      Inr (site_policy_json p)))))))))))))"

definition serialize_route_http_policy :: "(rat \<Rightarrow> string) \<Rightarrow> http_config \<Rightarrow> js_value \<Rightarrow> json option \<Rightarrow> json checked" where
  "serialize_route_http_policy nt cf input existing =
     (if input = None then Inr (route_policy_json (stored_route_policy nt cf existing))
      else if input = Some JNull then Inr (route_policy_json default_route_policy)
      else
      and_then (object_value input ''Route HTTP policy'') (\<lambda>v.
      let cur = route_policy_json (stored_route_policy nt cf existing);
          part = (\<lambda>key. the (j_get cur key)) in
      and_then (supplied_part v ''limits'' ''Route request limits'') (\<lambda>li.
      and_then (supplied_part v ''cache'' ''Route static cache policy'') (\<lambda>ca.
      and_then (supplied_part v ''protection'' ''Route managed protection policy'') (\<lambda>pr.
      and_then (supplied_part v ''banDurations'' ''Route ban duration policy'') (\<lambda>bd.
      and_then (supplied_part v ''bandwidthLimit'' ''Route bandwidth limit policy'') (\<lambda>bw.
      and_then (supplied_part v ''bodyCapture'' ''Route body capture policy'') (\<lambda>bc.
      and_then (supplied_part v ''headerCapture'' ''Route header capture policy'') (\<lambda>hc.
      and_then (supplied_part v ''cors'' ''Route CORS policy'') (\<lambda>co.
      and_then (parse_route_policy nt cf (Some (JObject
        [(''requestHeaders'', in_or v ''requestHeaders'' (part ''requestHeaders'')),
         (''responseHeaders'', in_or v ''responseHeaders'' (part ''responseHeaders'')),
         (''limits'', spread (part ''limits'') li),
         (''blockedMultipartFields'', in_or v ''blockedMultipartFields'' (part ''blockedMultipartFields'')),
         (''cache'', spread (part ''cache'') ca),
         (''protection'', spread (part ''protection'') pr),
         (''banDurations'', spread (part ''banDurations'') bd),
         (''bandwidthLimit'', spread (part ''bandwidthLimit'') bw),
         (''bodyCapture'', spread (part ''bodyCapture'') bc),
         (''headerCapture'', spread (part ''headerCapture'') hc),
         (''cors'', spread (part ''cors'') co)]))) (\<lambda>p.
      Inr (route_policy_json p))))))))))))"

section \<open>The policy of a request\<close>

definition or_else :: "'a option \<Rightarrow> 'a \<Rightarrow> 'a" where
  "or_else v d = (case v of None \<Rightarrow> d | Some x \<Rightarrow> x)"

text \<open>A rule of the merged map: \<^term>\<open>Some v\<close> sets the header, \<^term>\<open>None\<close> removes it.\<close>

fun set_rules :: "(string \<times> string option) list \<Rightarrow> (string \<times> string) list" where
  "set_rules [] = []"
| "set_rules ((n, Some v) # ops) = (n, v) # set_rules ops"
| "set_rules ((n, None) # ops) = set_rules ops"

fun remove_rules :: "(string \<times> string option) list \<Rightarrow> string list" where
  "remove_rules [] = []"
| "remove_rules ((n, Some v) # ops) = remove_rules ops"
| "remove_rules ((n, None) # ops) = n # remove_rules ops"

definition merge_header_policies :: "header_policy \<Rightarrow> header_policy \<Rightarrow> header_policy" where
  "merge_header_policies site route =
     (let m1 = fold (\<lambda>(n, v). om_set n (Some v)) (hp_set site) [];
          m2 = fold (\<lambda>n. om_set n None) (hp_remove site) m1;
          m3 = fold (\<lambda>(n, v). om_set n (Some v)) (hp_set route) m2;
          ops = fold (\<lambda>n. om_set n None) (hp_remove route) m3 in
      \<lparr>hp_set = set_rules ops, hp_remove = remove_rules ops\<rparr>)"

definition resolve_limits :: "request_limits \<Rightarrow> int option limits_of \<Rightarrow> request_limits" where
  "resolve_limits site route = \<lparr>
     rl_max_body_bytes = or_else (rl_max_body_bytes route) (rl_max_body_bytes site),
     rl_max_request_target_bytes = or_else (rl_max_request_target_bytes route) (rl_max_request_target_bytes site),
     rl_max_header_bytes = or_else (rl_max_header_bytes route) (rl_max_header_bytes site),
     rl_max_header_count = or_else (rl_max_header_count route) (rl_max_header_count site),
     rl_max_input_fields = or_else (rl_max_input_fields route) (rl_max_input_fields site),
     rl_max_multipart_parts = or_else (rl_max_multipart_parts route) (rl_max_multipart_parts site),
     rl_max_input_nesting_depth = or_else (rl_max_input_nesting_depth route) (rl_max_input_nesting_depth site)\<rparr>"

definition inherit_mode :: "toggle_mode \<Rightarrow> toggle_mode \<Rightarrow> toggle_mode" where
  "inherit_mode route site = (if route = ModeInherit then site else route)"

text \<open>\<open>policy\<close> is the id and the stored HTTP policy of the route that matched, if any.\<close>

definition resolve_http_policy ::
  "(rat \<Rightarrow> string) \<Rightarrow> http_config \<Rightarrow> string \<Rightarrow> json option \<Rightarrow> (string \<times> json option) option \<Rightarrow> resolved_http_policy" where
  "resolve_http_policy nt cf site_id stored policy =
     (let s = stored_site_policy nt cf stored;
          r = (case policy of None \<Rightarrow> default_route_policy | Some (_, j) \<Rightarrow> stored_route_policy nt cf j);
          sc = sh_cache s; rc = rh_cache r; sw = sh_bandwidth_limit s; rw = rh_bandwidth_limit r;
          sb = sh_body_capture s; rb = rh_body_capture r; sg = sh_header_capture s; rg = rh_header_capture r;
          so = sh_cors s; ro = rh_cors r; sd = sh_ban_durations s; rd = rh_ban_durations r in
      \<lparr>ph_request_headers = merge_header_policies (sh_request_headers s) (rh_request_headers r),
       ph_response_headers = merge_header_policies (sh_response_headers s) (rh_response_headers r),
       ph_limits = resolve_limits (sh_limits s) (rh_limits r),
       ph_blocked_multipart_fields = or_else (rh_blocked_multipart_fields r) (sh_blocked_multipart_fields s),
       ph_cache = \<lparr>cc_mode = inherit_mode (cc_mode rc) (cc_mode sc),
         cc_ttl_seconds = or_else (cc_ttl_seconds rc) (cc_ttl_seconds sc),
         cc_max_object_bytes = min (or_else (cc_max_object_bytes rc) (cc_max_object_bytes sc))
           (min (hc_cache_max_object_bytes cf) (hc_cache_max_bytes cf)),
         cc_extensions = or_else (cc_extensions rc) (cc_extensions sc)\<rparr>,
       ph_protection = \<lparr>sp_mode = (if rt_mode (rh_protection r) = ProtInherit then sp_mode (sh_protection s) else rt_mode (rh_protection r)),
         sp_ruleset_id = sp_ruleset_id (sh_protection s),
         sp_excluded_rule_ids = unique (sp_excluded_rule_ids (sh_protection s) @ rt_excluded_rule_ids (rh_protection r))\<rparr>,
       ph_ban_durations = \<lparr>bd_low = or_else (bd_low rd) (bd_low sd), bd_medium = or_else (bd_medium rd) (bd_medium sd),
         bd_high = or_else (bd_high rd) (bd_high sd), bd_critical = or_else (bd_critical rd) (bd_critical sd)\<rparr>,
       ph_bandwidth_limit = \<lparr>bw_enabled = or_else (bw_enabled rw) (bw_enabled sw), bw_max_bytes = or_else (bw_max_bytes rw) (bw_max_bytes sw),
         bw_window_seconds = or_else (bw_window_seconds rw) (bw_window_seconds sw),
         bw_ban_seconds = or_else (bw_ban_seconds rw) (bw_ban_seconds sw)\<rparr>,
       ph_bandwidth_scope_id = (case policy of None \<Rightarrow> site_id | Some (i, _) \<Rightarrow> i),
       ph_body_capture = \<lparr>bc_mode = inherit_mode (bc_mode rb) (bc_mode sb),
         bc_max_request_bytes = min (or_else (bc_max_request_bytes rb) (bc_max_request_bytes sb)) (hc_body_capture_ceiling cf),
         bc_max_response_bytes = min (or_else (bc_max_response_bytes rb) (bc_max_response_bytes sb)) (hc_body_capture_ceiling cf),
         bc_expires_at = (case bc_expires_at rb of None \<Rightarrow> bc_expires_at sb | Some e \<Rightarrow> Some e),
         bc_content_types = or_else (bc_content_types rb) (bc_content_types sb)\<rparr>,
       ph_header_capture = \<lparr>hcap_mode = inherit_mode (hcap_mode rg) (hcap_mode sg),
         hcap_redact_auth_headers = or_else (hcap_redact_auth_headers rg) (hcap_redact_auth_headers sg),
         hcap_redacted_headers = or_else (hcap_redacted_headers rg) (hcap_redacted_headers sg),
         hcap_expires_at = (case hcap_expires_at rg of None \<Rightarrow> hcap_expires_at sg | Some e \<Rightarrow> Some e)\<rparr>,
       ph_cors = \<lparr>co_mode = inherit_mode (co_mode ro) (co_mode so),
         co_allowed_origins = or_else (co_allowed_origins ro) (co_allowed_origins so),
         co_allowed_methods = or_else (co_allowed_methods ro) (co_allowed_methods so),
         co_allowed_headers = or_else (co_allowed_headers ro) (co_allowed_headers so),
         co_exposed_headers = or_else (co_exposed_headers ro) (co_exposed_headers so),
         co_allow_credentials = or_else (co_allow_credentials ro) (co_allow_credentials so),
         co_max_age_seconds = or_else (co_max_age_seconds ro) (co_max_age_seconds so)\<rparr>,
       ph_hsts = sh_hsts s\<rparr>)"

definition is_body_capture_active :: "time \<Rightarrow> (int, string list) body_capture_of \<Rightarrow> bool" where
  "is_body_capture_active now p \<longleftrightarrow> bc_mode p = ModeEnabled \<and> (case bc_expires_at p of None \<Rightarrow> True | Some e \<Rightarrow> now < e)"

definition is_header_capture_active :: "time \<Rightarrow> (bool, string list) header_capture_of \<Rightarrow> bool" where
  "is_header_capture_active now p \<longleftrightarrow> hcap_mode p = ModeEnabled \<and> (case hcap_expires_at p of None \<Rightarrow> True | Some e \<Rightarrow> now < e)"

text \<open>\<open>Headers.set\<close> and \<open>Headers.delete\<close> on lower-case names.\<close>

definition set_header :: "string \<Rightarrow> string \<Rightarrow> headers \<Rightarrow> headers" where
  "set_header n v hs = om_set n v hs"

definition delete_header :: "string \<Rightarrow> headers \<Rightarrow> headers" where
  "delete_header n hs = om_delete n hs"

definition apply_header_policy :: "header_policy \<Rightarrow> headers \<Rightarrow> headers" where
  "apply_header_policy p hs = fold (\<lambda>(n, v). set_header n v) (hp_set p) (fold delete_header (hp_remove p) hs)"

definition hsts_header_value :: "hsts_policy \<Rightarrow> string" where
  "hsts_header_value p = ''max-age='' @ int_text (hs_max_age_seconds p) @
     (if hs_include_sub_domains p then ''; includeSubDomains'' else []) @ (if hs_preload p then ''; preload'' else [])"

definition cors_origin_allowed :: "string \<Rightarrow> site_cors \<Rightarrow> bool" where
  "cors_origin_allowed origin p \<longleftrightarrow> ''*'' \<in> set (co_allowed_origins p) \<or> origin \<in> set (co_allowed_origins p)"

definition vary_origin :: "headers \<Rightarrow> headers" where
  "vary_origin hs =
     (let vary = text_or_empty (header ''vary'' hs) in
      if vary = [] then set_header ''vary'' ''Origin'' hs
      else if ''Origin'' \<in> set (map trim (split_on CHR '','' vary)) then hs
      else set_header ''vary'' (vary @ '', Origin'') hs)"

definition apply_cors_response_headers :: "request \<Rightarrow> site_cors \<Rightarrow> headers \<Rightarrow> headers" where
  "apply_cors_response_headers r p hs =
     (let origin = text_or_empty (header ''origin'' (rq_headers r)) in
      if co_mode p \<noteq> ModeEnabled \<or> origin = [] \<or> \<not> cors_origin_allowed origin p then hs
      else
        let h1 = (if ''*'' \<in> set (co_allowed_origins p) \<and> \<not> co_allow_credentials p
                  then set_header ''access-control-allow-origin'' ''*'' hs
                  else vary_origin (set_header ''access-control-allow-origin'' origin hs));
            h2 = (if co_allow_credentials p then set_header ''access-control-allow-credentials'' ''true'' h1 else h1) in
        if co_exposed_headers p = [] then h2
        else set_header ''access-control-expose-headers'' (join '', '' (co_exposed_headers p)) h2)"

definition byte_length :: "string \<Rightarrow> int" where
  "byte_length s = int (length s) + int (length (filter (\<lambda>c. 128 \<le> char_code c) s))"

definition request_limit_violation :: "request \<Rightarrow> request_limits \<Rightarrow> string list \<Rightarrow> limit_violation option" where
  "request_limit_violation r limits blocked =
     (let header_bytes = 2 + sum_list (map (\<lambda>(n, v). byte_length n + 2 + byte_length v + 2) (rq_headers r));
          content_length = text_or_empty (header ''content-length'' (rq_headers r)) in
      if 0 < rl_max_request_target_bytes limits \<and>
         rl_max_request_target_bytes limits < byte_length (rq_pathname r @ rq_search r)
      then Some \<lparr>lv_status = 414, lv_code = ''request_target_too_large''\<rparr>
      else if 0 < rl_max_header_bytes limits \<and> rl_max_header_bytes limits < header_bytes
      then Some \<lparr>lv_status = 431, lv_code = ''request_headers_too_large''\<rparr>
      else if 0 < rl_max_body_bytes limits \<and> content_length \<noteq> [] \<and> list_all is_digit content_length \<and>
        rl_max_body_bytes limits < int (digits_value 10 content_length)
      then Some \<lparr>lv_status = 413, lv_code = ''request_body_too_large''\<rparr>
      else request_input_violation r limits blocked)"

end
