(* ===== verification/Stored_Policy.thy ===== *)
theory Stored_Policy
  imports Http_Policy
begin

text \<open>
  What validation guarantees of HTTP policies, that a stored policy reads back as it was saved, and what the
  merged policy does to requests: its types and bounds, its header rules, its answers to cross-origin
  requests.
\<close>

section \<open>Well-formed policies\<close>

text \<open>
  What holds of every policy that passed validation. The predicates take the way a bound applies to a
  field: \<open>always\<close> for sites, where every field has a value, and \<open>pred_option\<close> for routes, where a missing
  field inherits the one of the site.
\<close>

abbreviation (input) always :: "('a \<Rightarrow> bool) \<Rightarrow> 'a \<Rightarrow> bool" where
  "always P \<equiv> P"

definition name_list_ok :: "nat \<Rightarrow> (string \<Rightarrow> bool) \<Rightarrow> string list \<Rightarrow> bool" where
  "name_list_ok n P xs \<longleftrightarrow> distinct xs \<and> length xs \<le> n \<and> (\<forall>x \<in> set xs. P x)"

definition header_name_ok :: "string \<Rightarrow> bool" where
  "header_name_ok n \<longleftrightarrow> http_token n \<and> to_lower n = n \<and> length n \<le> 128"

definition method_ok :: "string \<Rightarrow> bool" where
  "method_ok m \<longleftrightarrow> http_token m \<and> to_upper m = m"

definition origins_ok :: "string list \<Rightarrow> bool" where
  "origins_ok xs \<longleftrightarrow> name_list_ok 64 cors_origin_ok xs \<and> (''*'' \<in> set xs \<longrightarrow> xs = [''*''])"

definition header_owned :: "header_direction \<Rightarrow> string \<Rightarrow> bool" where
  "header_owned d n \<longleftrightarrow> (case d of RequestHeader \<Rightarrow> request_header_owned n | ResponseHeader \<Rightarrow> response_header_owned n)"

definition header_value_ok :: "string \<Rightarrow> bool" where
  "header_value_ok t \<longleftrightarrow> length t \<le> 8192 \<and> CHR 0x0d \<notin> set t \<and> CHR 0x0a \<notin> set t \<and> CHR 0x00 \<notin> set t"

definition header_policy_ok :: "header_direction \<Rightarrow> header_policy \<Rightarrow> bool" where
  "header_policy_ok d p \<longleftrightarrow>
     distinct (map fst (hp_set p)) \<and> length (hp_set p) \<le> 64 \<and>
     (\<forall>(n, v) \<in> set (hp_set p). header_name_ok n \<and> \<not> header_owned d n \<and> header_value_ok v) \<and>
     name_list_ok 64 header_name_ok (hp_remove p) \<and> set (hp_remove p) \<inter> fst ` set (hp_set p) = {} \<and>
     (d = RequestHeader \<longrightarrow> (\<forall>n \<in> set (hp_remove p). \<not> header_owned d n))"

definition limits_ok :: "((int \<Rightarrow> bool) \<Rightarrow> 'n \<Rightarrow> bool) \<Rightarrow> 'n limits_of \<Rightarrow> bool" where
  "limits_ok pn l \<longleftrightarrow>
     pn (\<lambda>i. 0 \<le> i \<and> i \<le> 1099511627776) (rl_max_body_bytes l) \<and>
     pn (\<lambda>i. 0 \<le> i \<and> i \<le> 1048576) (rl_max_request_target_bytes l) \<and>
     pn (\<lambda>i. 0 \<le> i \<and> i \<le> 1048576) (rl_max_header_bytes l) \<and>
     pn (\<lambda>i. 0 \<le> i \<and> i \<le> 10000) (rl_max_header_count l) \<and>
     pn (\<lambda>i. 0 \<le> i \<and> i \<le> 1000000) (rl_max_input_fields l) \<and>
     pn (\<lambda>i. 0 \<le> i \<and> i \<le> 1000000) (rl_max_multipart_parts l) \<and>
     pn (\<lambda>i. 0 \<le> i \<and> i \<le> 1024) (rl_max_input_nesting_depth l)"

definition cache_rule_ok ::
  "http_config \<Rightarrow> ((int \<Rightarrow> bool) \<Rightarrow> 'n \<Rightarrow> bool) \<Rightarrow> ((string list \<Rightarrow> bool) \<Rightarrow> 'l \<Rightarrow> bool) \<Rightarrow> ('n, 'l) cache_of \<Rightarrow> bool" where
  "cache_rule_ok cf pn pl c \<longleftrightarrow>
     pn (\<lambda>i. 1 \<le> i \<and> i \<le> 604800) (cc_ttl_seconds c) \<and>
     pn (\<lambda>i. 1024 \<le> i \<and> i \<le> static_cache_object_ceiling cf) (cc_max_object_bytes c) \<and>
     pl (\<lambda>xs. xs \<noteq> [] \<and> name_list_ok 64 extension_ok xs) (cc_extensions c)"

definition ban_durations_ok :: "((int \<Rightarrow> bool) \<Rightarrow> 'n \<Rightarrow> bool) \<Rightarrow> 'n ban_durations_of \<Rightarrow> bool" where
  "ban_durations_ok pn d \<longleftrightarrow>
     (let ok = pn (\<lambda>i. 0 \<le> i \<and> i \<le> max_ban_duration_seconds) in
      ok (bd_low d) \<and> ok (bd_medium d) \<and> ok (bd_high d) \<and> ok (bd_critical d))"

definition bandwidth_ok :: "((int \<Rightarrow> bool) \<Rightarrow> 'n \<Rightarrow> bool) \<Rightarrow> ('b, 'n) bandwidth_of \<Rightarrow> bool" where
  "bandwidth_ok pn w \<longleftrightarrow>
     pn (\<lambda>i. 1 \<le> i \<and> i \<le> max_bandwidth_limit_bytes) (bw_max_bytes w) \<and>
     pn (\<lambda>i. 1 \<le> i \<and> i \<le> max_bandwidth_limit_window_seconds) (bw_window_seconds w) \<and>
     pn (\<lambda>i. 0 \<le> i \<and> i \<le> max_ban_duration_seconds) (bw_ban_seconds w)"

definition expires_ok :: "int option \<Rightarrow> bool" where
  "expires_ok = pred_option (\<lambda>i. 0 \<le> i \<and> i < 2 ^ 53)"

definition body_capture_ok ::
  "http_config \<Rightarrow> ((int \<Rightarrow> bool) \<Rightarrow> 'n \<Rightarrow> bool) \<Rightarrow> ((string list \<Rightarrow> bool) \<Rightarrow> 'l \<Rightarrow> bool) \<Rightarrow> ('n, 'l) body_capture_of \<Rightarrow> bool" where
  "body_capture_ok cf pn pl c \<longleftrightarrow>
     pn (\<lambda>i. 0 \<le> i \<and> i \<le> hc_body_capture_ceiling cf) (bc_max_request_bytes c) \<and>
     pn (\<lambda>i. 0 \<le> i \<and> i \<le> hc_body_capture_ceiling cf) (bc_max_response_bytes c) \<and>
     expires_ok (bc_expires_at c) \<and>
     pl (name_list_ok 32 body_capture_content_type_ok) (bc_content_types c)"

definition header_capture_ok :: "((string list \<Rightarrow> bool) \<Rightarrow> 'l \<Rightarrow> bool) \<Rightarrow> ('b, 'l) header_capture_of \<Rightarrow> bool" where
  "header_capture_ok pl c \<longleftrightarrow> pl (name_list_ok 32 header_name_ok) (hcap_redacted_headers c) \<and> expires_ok (hcap_expires_at c)"

definition cors_ok :: "((int \<Rightarrow> bool) \<Rightarrow> 'n \<Rightarrow> bool) \<Rightarrow> ((string list \<Rightarrow> bool) \<Rightarrow> 'l \<Rightarrow> bool) \<Rightarrow> ('b, 'n, 'l) cors_of \<Rightarrow> bool" where
  "cors_ok pn pl c \<longleftrightarrow>
     pl origins_ok (co_allowed_origins c) \<and>
     pl (name_list_ok 32 method_ok) (co_allowed_methods c) \<and>
     pl (name_list_ok 64 header_name_ok) (co_allowed_headers c) \<and>
     pl (name_list_ok 64 (\<lambda>n. header_name_ok n \<and> \<not> response_header_owned n)) (co_exposed_headers c) \<and>
     pn (\<lambda>i. 0 \<le> i \<and> i \<le> max_cors_max_age_seconds) (co_max_age_seconds c)"

definition hsts_ok :: "hsts_policy \<Rightarrow> bool" where
  "hsts_ok h \<longleftrightarrow> hs_mode h \<noteq> ModeInherit \<and> 0 \<le> hs_max_age_seconds h \<and> hs_max_age_seconds h \<le> max_hsts_max_age_seconds \<and>
     (hs_preload h \<longrightarrow> hs_include_sub_domains h \<and> hsts_preload_min_max_age_seconds \<le> hs_max_age_seconds h)"

definition site_policy_ok :: "http_config \<Rightarrow> site_http_policy \<Rightarrow> bool" where
  "site_policy_ok cf p \<longleftrightarrow>
     header_policy_ok RequestHeader (sh_request_headers p) \<and> header_policy_ok ResponseHeader (sh_response_headers p) \<and>
     limits_ok always (sh_limits p) \<and> name_list_ok 32 blocked_name_ok (sh_blocked_multipart_fields p) \<and>
     cc_mode (sh_cache p) \<noteq> ModeInherit \<and> cache_rule_ok cf always always (sh_cache p) \<and>
     sp_mode (sh_protection p) \<noteq> ProtInherit \<and> ruleset_id_ok (sp_ruleset_id (sh_protection p)) \<and>
     name_list_ok 256 rule_id_ok (sp_excluded_rule_ids (sh_protection p)) \<and>
     ban_durations_ok always (sh_ban_durations p) \<and> bandwidth_ok always (sh_bandwidth_limit p) \<and>
     bc_mode (sh_body_capture p) \<noteq> ModeInherit \<and> body_capture_ok cf always always (sh_body_capture p) \<and>
     hcap_mode (sh_header_capture p) \<noteq> ModeInherit \<and> header_capture_ok always (sh_header_capture p) \<and>
     co_mode (sh_cors p) \<noteq> ModeInherit \<and> cors_ok always always (sh_cors p) \<and>
     (co_allow_credentials (sh_cors p) \<longrightarrow> ''*'' \<notin> set (co_allowed_origins (sh_cors p))) \<and> hsts_ok (sh_hsts p)"

definition route_policy_ok :: "http_config \<Rightarrow> route_http_policy \<Rightarrow> bool" where
  "route_policy_ok cf p \<longleftrightarrow>
     header_policy_ok RequestHeader (rh_request_headers p) \<and> header_policy_ok ResponseHeader (rh_response_headers p) \<and>
     limits_ok pred_option (rh_limits p) \<and> pred_option (name_list_ok 32 blocked_name_ok) (rh_blocked_multipart_fields p) \<and>
     cache_rule_ok cf pred_option pred_option (rh_cache p) \<and>
     name_list_ok 256 rule_id_ok (rt_excluded_rule_ids (rh_protection p)) \<and>
     ban_durations_ok pred_option (rh_ban_durations p) \<and> bandwidth_ok pred_option (rh_bandwidth_limit p) \<and>
     body_capture_ok cf pred_option pred_option (rh_body_capture p) \<and>
     header_capture_ok pred_option (rh_header_capture p) \<and>
     cors_ok pred_option pred_option (rh_cors p) \<and>
     (co_allow_credentials (rh_cors p) = Some True \<longrightarrow> pred_option (\<lambda>xs. ''*'' \<notin> set xs) (co_allowed_origins (rh_cors p)))"

text \<open>The environment bounds both ceilings from below by 1024 and from above by far less than \<open>2 ^ 53\<close>.\<close>

definition config_ok :: "http_config \<Rightarrow> bool" where
  "config_ok cf \<longleftrightarrow> 1024 \<le> static_cache_object_ceiling cf \<and> static_cache_object_ceiling cf < 2 ^ 53 \<and>
     1024 \<le> hc_body_capture_ceiling cf \<and> hc_body_capture_ceiling cf < 2 ^ 53"

section \<open>Validated values are well-formed\<close>

lemma present_eq_Inr [checked_simps]: "present r = Inr x \<longleftrightarrow> r = Inr (Some x)"
  by (cases r) (auto simp: present_def and_then_def split: option.splits)

lemma bounded_Inr [checked_simps]:
  "(case c of None \<Rightarrow> Inl e | Some i \<Rightarrow> if i < lo \<or> hi < i then Inl e else Inr (Some i)) = Inr r \<longleftrightarrow>
     (\<exists>i::int. c = Some i \<and> r = Some i \<and> lo \<le> i \<and> i \<le> hi)"
  by (cases c) auto

lemma normalized_header_name_ok: "normalized_header_name t label = Inr n \<Longrightarrow> header_name_ok n"
  by (auto simp: normalized_header_name_def header_name_ok_def Let_def split: if_splits)

lemma trim_token: "http_token n \<Longrightarrow> trim n = n"
  using token_not_space by (intro trim_clean) (auto simp: http_token_def)

lemma normalized_header_name_id: "header_name_ok n \<Longrightarrow> normalized_header_name n label = Inr n"
  by (auto simp: normalized_header_name_def header_name_ok_def trim_token http_token_def Let_def)

lemma cache_integer_ok:
  "cache_integer nt v label fallback lo hi nullable = Inr r \<Longrightarrow>
     pred_option (\<lambda>i. lo \<le> i \<and> i \<le> hi) r \<and> (\<not> nullable \<longrightarrow> r \<noteq> None)"
  by (auto simp: cache_integer_def checked_simps split: if_splits)

lemma body_capture_bytes_ok:
  "body_capture_bytes nt cf v label fallback nullable = Inr r \<Longrightarrow>
     pred_option (\<lambda>i. 0 \<le> i \<and> i \<le> hc_body_capture_ceiling cf) r"
  by (auto simp: body_capture_bytes_def checked_simps split: if_splits)

lemma limit_value_ok:
  "limit_value nt label hi v nullable = Inr r \<Longrightarrow> pred_option (\<lambda>i. 0 \<le> i \<and> i \<le> hi) r"
  by (auto simp: limit_value_def checked_simps split: if_splits)

lemma body_capture_expires_at_ok: "body_capture_expires_at nt v fallback = Inr r \<Longrightarrow> expires_ok fallback \<Longrightarrow> expires_ok r"
  by (auto simp: body_capture_expires_at_def expires_ok_def js_safe_integer_def split: if_splits option.splits)

lemma toggle_value_ok: "toggle_value nt label v route d = Inr m \<Longrightarrow> m = ModeInherit \<Longrightarrow> route \<or> d = ModeInherit"
  by (auto simp: toggle_value_def Let_def split: if_splits option.splits)

lemma protection_mode_ok: "protection_mode nt v route d = Inr m \<Longrightarrow> m = ProtInherit \<Longrightarrow> route \<or> d = ProtInherit"
  by (auto simp: protection_mode_def Let_def split: if_splits option.splits)

lemma cache_extensions_ok:
  "cache_extensions nt v nullable fallback = Inr r \<Longrightarrow> pred_option (\<lambda>xs. xs \<noteq> [] \<and> name_list_ok 64 extension_ok xs) fallback \<Longrightarrow>
     pred_option (\<lambda>xs. xs \<noteq> [] \<and> name_list_ok 64 extension_ok xs) r"
  by (auto simp: cache_extensions_def name_list_ok_def Let_def list_all_iff split: if_splits)

lemma content_types_ok:
  "body_capture_content_types nt v nullable fallback = Inr r \<Longrightarrow>
     pred_option (name_list_ok 32 body_capture_content_type_ok) fallback \<Longrightarrow> pred_option (name_list_ok 32 body_capture_content_type_ok) r"
  by (auto simp: body_capture_content_types_def name_list_ok_def Let_def list_all_iff split: if_splits)

lemma rule_ids_ok:
  "protection_rule_ids nt v fallback = Inr r \<Longrightarrow> name_list_ok 256 rule_id_ok fallback \<Longrightarrow> name_list_ok 256 rule_id_ok r"
  by (auto simp: protection_rule_ids_def name_list_ok_def Let_def list_all_iff split: if_splits)

lemma parsed_ruleset_id_ok: "protection_ruleset_id nt v fallback = Inr r \<Longrightarrow> ruleset_id_ok r"
  by (auto simp: protection_ruleset_id_def Let_def split: if_splits)

lemma redacted_headers_ok:
  "header_capture_redacted_headers nt v nullable fallback = Inr r \<Longrightarrow>
     pred_option (name_list_ok 32 header_name_ok) fallback \<Longrightarrow> pred_option (name_list_ok 32 header_name_ok) r"
  by (auto simp: header_capture_redacted_headers_def name_list_ok_def Let_def checked_simps
      dest!: check_all_Inr normalized_header_name_ok split: if_splits)

lemma origins_list_ok:
  "cors_origins nt v nullable fallback = Inr r \<Longrightarrow> pred_option origins_ok fallback \<Longrightarrow> pred_option origins_ok r"
proof (cases "nullable \<and> is_absent v \<or> v = None")
  case False
  then have no: "\<not> (nullable \<and> is_absent v)" "v \<noteq> None" by auto
  define xs where "xs = unique (filter (\<lambda>s. s \<noteq> []) (map trim (raw_items nt v)))"
  have "cors_origins nt v nullable fallback =
    (if 64 < length xs then Inl ''CORS allowed origins''
     else if \<not> list_all cors_origin_ok xs then Inl ''Invalid CORS origin''
     else if ''*'' \<in> set xs \<and> 1 < length xs then Inl ''CORS allowed origins cannot mix * with specific origins''
     else Inr (Some xs))"
    by (simp only: cors_origins_def Let_def xs_def no if_False)
  moreover assume "cors_origins nt v nullable fallback = Inr r"
  ultimately have "r = Some xs" and "length xs \<le> 64" and "list_all cors_origin_ok xs" and "''*'' \<in> set xs \<Longrightarrow> \<not> 1 < length xs"
    by (auto split: if_splits)
  moreover have "xs = [x]" if "x \<in> set xs" "\<not> 1 < length xs" for x using that by (cases xs) auto
  moreover have "distinct xs" by (simp add: xs_def)
  ultimately show ?thesis by (auto simp: origins_ok_def name_list_ok_def list_all_iff)
qed (auto simp: cors_origins_def split: if_splits)

lemma methods_ok:
  "cors_methods nt v nullable fallback = Inr r \<Longrightarrow> pred_option (name_list_ok 32 method_ok) fallback \<Longrightarrow>
     pred_option (name_list_ok 32 method_ok) r"
  by (auto simp: cors_methods_def method_ok_def name_list_ok_def Let_def list_all_iff split: if_splits)

lemma cors_names_ok:
  "cors_header_names nt v nullable fallback label guard = Inr r \<Longrightarrow>
     pred_option (name_list_ok 64 (\<lambda>n. header_name_ok n \<and> (guard \<longrightarrow> \<not> response_header_owned n))) fallback \<Longrightarrow>
     pred_option (name_list_ok 64 (\<lambda>n. header_name_ok n \<and> (guard \<longrightarrow> \<not> response_header_owned n))) r"
  by (auto simp: cors_header_names_def name_list_ok_def Let_def checked_simps list_ex_iff
      dest!: check_all_Inr normalized_header_name_ok split: if_splits)


lemma default_names_ok:
  "name_list_ok 64 header_name_ok [''content-type'', ''authorization'']"
  "name_list_ok 32 method_ok [''GET'', ''HEAD'', ''POST'']"
  "name_list_ok 32 body_capture_content_type_ok default_body_capture_content_types"
  "default_static_cache_extensions \<noteq> [] \<and> name_list_ok 64 extension_ok default_static_cache_extensions"
  by code_simp+

lemma name_list_ok_Nil [simp]: "name_list_ok n P []"
  by (simp add: name_list_ok_def)

lemma origins_ok_Nil [simp]: "origins_ok []"
  by (simp add: origins_ok_def)

lemma expires_ok_None [simp]: "expires_ok None"
  by (simp add: expires_ok_def)

lemma assert_mutable_Inr [checked_simps]:
  "assert_mutable_header n d is_set = Inr u \<longleftrightarrow> \<not> (header_owned d n \<and> (d = RequestHeader \<or> is_set))"
  by (cases d) (auto simp: assert_mutable_header_def header_owned_def)

lemma parse_header_sets_ok:
  "parse_header_sets nt label d xs acc = Inr r \<Longrightarrow> distinct (map fst acc) \<Longrightarrow>
     (\<forall>(n, v) \<in> set acc. header_name_ok n \<and> \<not> header_owned d n \<and> header_value_ok v) \<Longrightarrow>
     distinct (map fst r) \<and> length r \<le> length acc + length xs \<and>
     (\<forall>(n, v) \<in> set r. header_name_ok n \<and> \<not> header_owned d n \<and> header_value_ok v)"
proof (induction xs arbitrary: acc)
  case (Cons x xs)
  from Cons.prems(1) obtain n v where n: "header_name_ok n" "\<not> header_owned d n" "header_value_ok v"
    and r: "parse_header_sets nt label d xs (om_set n v acc) = Inr r"
    by (auto simp: checked_simps Let_def header_value_ok_def not_less dest!: normalized_header_name_ok split: if_splits)
  have "length (om_set n v acc) \<le> Suc (length acc)" by (induction acc) auto
  moreover have "set (om_set n v acc) \<subseteq> insert (n, v) (set acc)" by (induction acc) (auto split: if_splits)
  moreover have "distinct (map fst (om_set n v acc))"
    using Cons.prems(2) om_inv_set [of acc n v] by (simp add: om_inv_def om_keys_def)
  ultimately show ?case using Cons.IH [OF r] n Cons.prems(3) by fastforce
qed simp

lemma parse_header_removals_ok:
  "parse_header_removals nt label d taken xs acc = Inr r \<Longrightarrow> distinct acc \<Longrightarrow>
     (\<forall>n \<in> set acc. header_name_ok n \<and> n \<notin> set taken \<and> (d = RequestHeader \<longrightarrow> \<not> header_owned d n)) \<Longrightarrow>
     distinct r \<and> length r \<le> length acc + length xs \<and>
     (\<forall>n \<in> set r. header_name_ok n \<and> n \<notin> set taken \<and> (d = RequestHeader \<longrightarrow> \<not> header_owned d n))"
proof (induction xs arbitrary: acc)
  case (Cons x xs)
  obtain n where n': "normalized_header_name (js_text nt (Some x)) label = Inr n"
    using Cons.prems(1) by (cases "normalized_header_name (js_text nt (Some x)) label") (auto simp: and_then_def)
  obtain u where u: "assert_mutable_header n d False = Inr u"
    using Cons.prems(1) n' by (cases "assert_mutable_header n d False") (auto simp: and_then_def)
  have if_r: "(if n \<in> set taken then Inl label
      else parse_header_removals nt label d taken xs (if n \<in> set acc then acc else acc @ [n])) = Inr r"
    using Cons.prems(1) n' u by (simp only: parse_header_removals.simps and_then_Inr)
  have owned: "d = RequestHeader \<longrightarrow> \<not> header_owned d n" using u by (simp add: checked_simps) blast
  have n: "header_name_ok n" using n' by (rule normalized_header_name_ok)
  have nt: "n \<notin> set taken" and r: "parse_header_removals nt label d taken xs (if n \<in> set acc then acc else acc @ [n]) = Inr r"
    using if_r by (simp_all split: if_split_asm)
  show ?case
  proof (cases "n \<in> set acc")
    case True
    then have "parse_header_removals nt label d taken xs acc = Inr r" using r by simp
    from Cons.IH [OF this Cons.prems(2,3)] show ?thesis by simp
  next
    case False
    then have r': "parse_header_removals nt label d taken xs (acc @ [n]) = Inr r" using r by simp
    have dist: "distinct (acc @ [n])" using False Cons.prems(2) by simp
    have names: "\<forall>m \<in> set (acc @ [n]). header_name_ok m \<and> m \<notin> set taken \<and> (d = RequestHeader \<longrightarrow> \<not> header_owned d m)"
    proof
      fix m assume "m \<in> set (acc @ [n])"
      then consider "m \<in> set acc" | "m = n" by auto
      then show "header_name_ok m \<and> m \<notin> set taken \<and> (d = RequestHeader \<longrightarrow> \<not> header_owned d m)"
      proof cases
        case 1
        with Cons.prems(3) show ?thesis by (rule bspec)
      next
        case 2
        with n nt owned show ?thesis by simp
      qed
    qed
    from Cons.IH [OF r' dist names] show ?thesis by simp
  qed
qed simp

lemma parse_header_policy_ok: "parse_header_policy nt v label d = Inr p \<Longrightarrow> header_policy_ok d p"
proof -
  assume p: "parse_header_policy nt v label d = Inr p"
  show ?thesis
  proof (cases "v = None \<or> v = Some JNull")
    case True
    then show ?thesis using p by (auto simp: parse_header_policy_def empty_header_policy_def header_policy_ok_def)
  next
    case False
    with p obtain sets removals a names where "length sets \<le> 64" "length removals \<le> 64"
      and a: "parse_header_sets nt label d sets [] = Inr a"
      and names: "parse_header_removals nt label d (om_keys a) removals [] = Inr names"
      and "p = \<lparr>hp_set = a, hp_remove = names\<rparr>"
      by (auto simp: parse_header_policy_def checked_simps not_less split: if_splits)
    moreover have "distinct (map fst a) \<and> length a \<le> length sets \<and>
        (\<forall>(n, v) \<in> set a. header_name_ok n \<and> \<not> header_owned d n \<and> header_value_ok v)"
      using parse_header_sets_ok [OF a] by simp
    moreover have "distinct names \<and> length names \<le> length removals \<and>
        (\<forall>n \<in> set names. header_name_ok n \<and> n \<notin> fst ` set a \<and> (d = RequestHeader \<longrightarrow> \<not> header_owned d n))"
      using parse_header_removals_ok [OF names] by (simp add: om_keys_def)
    ultimately show ?thesis unfolding header_policy_ok_def name_list_ok_def
      by (intro conjI) (simp_all, blast+)
  qed
qed

lemma blocked_field_name_Inr: "blocked_field_name x = Inr y \<longleftrightarrow> x = JString y \<and> blocked_name_ok y"
  by (auto simp: blocked_field_name_def split: json.splits)

lemma check_all_blocked:
  "check_all blocked_field_name xs = Inr ys \<Longrightarrow> length xs \<le> 32 \<Longrightarrow> name_list_ok 32 blocked_name_ok (unique ys)"
proof -
  assume ys: "check_all blocked_field_name xs = Inr ys" and "length xs \<le> 32"
  moreover have "length ys = length xs" using ys by (induction xs arbitrary: ys) (auto simp: checked_simps)
  moreover have "length (unique ys) \<le> length ys" using length_remdups_leq [of "rev ys"] by (simp add: unique_def)
  ultimately show ?thesis using check_all_Inr [OF ys] by (auto simp: name_list_ok_def blocked_field_name_Inr)
qed

lemma blocked_fields_ok:
  "parse_blocked_multipart_fields v nullable = Inr r \<Longrightarrow> pred_option (name_list_ok 32 blocked_name_ok) r"
  by (auto simp: parse_blocked_multipart_fields_def checked_simps not_less check_all_blocked
      split: option.splits json.splits if_splits)

lemmas mode_defs = cache_mode_def body_capture_mode_def header_capture_mode_def cors_mode_def

lemma cache_integer_Some: "cache_integer nt v label fallback lo hi nullable = Inr (Some i) \<Longrightarrow> lo \<le> i \<and> i \<le> hi"
  using cache_integer_ok [of nt v label fallback lo hi nullable "Some i"] by simp

lemma toggle_value_site: "toggle_value nt label v False d = Inr m \<Longrightarrow> d \<noteq> ModeInherit \<Longrightarrow> m \<noteq> ModeInherit"
  by (auto dest: toggle_value_ok)

lemma site_cache_valid:
  "parse_site_cache nt cf v = Inr c \<Longrightarrow> cc_mode c \<noteq> ModeInherit \<and> cache_rule_ok cf always always c"
  using default_names_ok(4)
  by (auto simp: parse_site_cache_def checked_simps Let_def mode_defs cache_rule_ok_def default_site_policy_def
      dest!: cache_integer_Some toggle_value_site cache_extensions_ok)

lemma route_cache_valid: "parse_route_cache nt cf v = Inr c \<Longrightarrow> cache_rule_ok cf pred_option pred_option c"
  by (auto simp: parse_route_cache_def checked_simps Let_def cache_rule_ok_def dest!: cache_integer_ok cache_extensions_ok)

lemma site_protection_valid:
  "parse_site_protection nt v = Inr p \<Longrightarrow>
     sp_mode p \<noteq> ProtInherit \<and> ruleset_id_ok (sp_ruleset_id p) \<and> name_list_ok 256 rule_id_ok (sp_excluded_rule_ids p)"
  by (auto simp: parse_site_protection_def checked_simps Let_def dest: protection_mode_ok parsed_ruleset_id_ok rule_ids_ok)

lemma route_protection_valid: "parse_route_protection nt v = Inr p \<Longrightarrow> name_list_ok 256 rule_id_ok (rt_excluded_rule_ids p)"
  by (auto simp: parse_route_protection_def checked_simps Let_def dest: rule_ids_ok)

lemma site_ban_durations_valid: "parse_site_ban_durations nt v = Inr d \<Longrightarrow> ban_durations_ok always d"
  by (auto simp: parse_site_ban_durations_def checked_simps Let_def ban_durations_ok_def dest!: cache_integer_Some)

lemma route_ban_durations_valid: "parse_route_ban_durations nt v = Inr d \<Longrightarrow> ban_durations_ok pred_option d"
  by (auto simp: parse_route_ban_durations_def checked_simps Let_def ban_durations_ok_def dest!: cache_integer_ok)

lemma site_bandwidth_valid: "parse_site_bandwidth_limit nt v = Inr d \<Longrightarrow> bandwidth_ok always d"
  by (auto simp: parse_site_bandwidth_limit_def checked_simps Let_def bandwidth_ok_def dest!: cache_integer_Some)

lemma route_bandwidth_valid: "parse_route_bandwidth_limit nt v = Inr d \<Longrightarrow> bandwidth_ok pred_option d"
  by (auto simp: parse_route_bandwidth_limit_def checked_simps Let_def bandwidth_ok_def dest!: cache_integer_ok)

lemma body_capture_bytes_Some:
  "body_capture_bytes nt cf v label fallback nullable = Inr (Some i) \<Longrightarrow> 0 \<le> i \<and> i \<le> hc_body_capture_ceiling cf"
  using body_capture_bytes_ok [of nt cf v label fallback nullable "Some i"] by simp

lemma site_body_capture_valid:
  "parse_site_body_capture nt cf v = Inr c \<Longrightarrow> bc_mode c \<noteq> ModeInherit \<and> body_capture_ok cf always always c"
  using default_names_ok(3)
  by (auto simp: parse_site_body_capture_def checked_simps Let_def mode_defs body_capture_ok_def default_site_policy_def
      dest!: body_capture_bytes_Some toggle_value_site content_types_ok body_capture_expires_at_ok)

lemma route_body_capture_valid: "parse_route_body_capture nt cf v = Inr c \<Longrightarrow> body_capture_ok cf pred_option pred_option c"
  by (auto simp: parse_route_body_capture_def checked_simps Let_def body_capture_ok_def
      dest!: body_capture_bytes_ok content_types_ok body_capture_expires_at_ok)

lemma site_header_capture_valid:
  "parse_site_header_capture nt v = Inr c \<Longrightarrow> hcap_mode c \<noteq> ModeInherit \<and> header_capture_ok always c"
  by (auto simp: parse_site_header_capture_def checked_simps Let_def mode_defs header_capture_ok_def
      dest!: toggle_value_site redacted_headers_ok body_capture_expires_at_ok)

lemma route_header_capture_valid: "parse_route_header_capture nt v = Inr c \<Longrightarrow> header_capture_ok pred_option c"
  by (auto simp: parse_route_header_capture_def checked_simps Let_def header_capture_ok_def
      dest!: redacted_headers_ok body_capture_expires_at_ok)

lemma cors_names_plain:
  "cors_header_names nt v nullable fallback label False = Inr r \<Longrightarrow> pred_option (name_list_ok 64 header_name_ok) fallback \<Longrightarrow>
     pred_option (name_list_ok 64 header_name_ok) r"
  using cors_names_ok [of nt v nullable fallback label False r] by simp

lemma cors_names_guarded:
  "cors_header_names nt v nullable fallback label True = Inr r \<Longrightarrow>
     pred_option (name_list_ok 64 (\<lambda>n. header_name_ok n \<and> \<not> response_header_owned n)) fallback \<Longrightarrow>
     pred_option (name_list_ok 64 (\<lambda>n. header_name_ok n \<and> \<not> response_header_owned n)) r"
  using cors_names_ok [of nt v nullable fallback label True r] by simp

lemma site_cors_valid:
  "parse_site_cors nt v = Inr c \<Longrightarrow> co_mode c \<noteq> ModeInherit \<and> cors_ok always always c \<and>
     (co_allow_credentials c \<longrightarrow> ''*'' \<notin> set (co_allowed_origins c))"
  using default_names_ok(1,2)
  by (auto simp: parse_site_cors_def checked_simps Let_def mode_defs cors_ok_def
      dest!: toggle_value_site origins_list_ok methods_ok cors_names_plain cors_names_guarded cache_integer_Some split: if_splits)

lemma route_cors_valid:
  "parse_route_cors nt v = Inr c \<Longrightarrow> cors_ok pred_option pred_option c \<and>
     (co_allow_credentials c = Some True \<longrightarrow> pred_option (\<lambda>xs. ''*'' \<notin> set xs) (co_allowed_origins c))"
proof -
  assume "parse_route_cors nt v = Inr c"
  then obtain i l1 l2 l3 where o: "cors_origins nt (j_get i ''allowedOrigins'') True None = Inr (co_allowed_origins c)"
    and m: "cors_methods nt (j_get i ''allowedMethods'') True None = Inr (co_allowed_methods c)"
    and a: "cors_header_names nt (j_get i ''allowedHeaders'') True None l1 False = Inr (co_allowed_headers c)"
    and e: "cors_header_names nt (j_get i ''exposedHeaders'') True None l2 True = Inr (co_exposed_headers c)"
    and g: "cache_integer nt (j_get i ''maxAgeSeconds'') l3 None 0 max_cors_max_age_seconds True = Inr (co_max_age_seconds c)"
    and w: "\<not> (co_allow_credentials c = Some True \<and> (case co_allowed_origins c of None \<Rightarrow> False | Some xs \<Rightarrow> ''*'' \<in> set xs))"
    by (auto simp: parse_route_cors_def checked_simps Let_def split: if_split_asm)
  show ?thesis
    using origins_list_ok [OF o] methods_ok [OF m] cors_names_plain [OF a] cors_names_guarded [OF e] cache_integer_ok [OF g] w
    by (cases "co_allowed_origins c") (auto simp: cors_ok_def)
qed

lemma site_hsts_valid: "parse_site_hsts nt v = Inr h \<Longrightarrow> hsts_ok h"
  by (auto simp: parse_site_hsts_def checked_simps Let_def hsts_ok_def dest!: toggle_value_site cache_integer_Some split: if_splits)

lemma route_limits_valid: "parse_limits nt v nullable = Inr l \<Longrightarrow> limits_ok pred_option l"
  by (auto simp: parse_limits_def checked_simps Let_def limits_ok_def dest!: limit_value_ok)

lemma site_limits_valid: "limits_present l = Inr r \<Longrightarrow> limits_ok pred_option l \<Longrightarrow> limits_ok always r"
  by (auto simp: limits_present_def checked_simps limits_ok_def)

lemma blocked_fields_Some:
  "parse_blocked_multipart_fields v nullable = Inr (Some xs) \<Longrightarrow> name_list_ok 32 blocked_name_ok xs"
  using blocked_fields_ok [of v nullable "Some xs"] by simp

lemmas site_parts_valid = blocked_fields_Some parse_header_policy_ok site_cache_valid site_protection_valid site_ban_durations_valid
  site_bandwidth_valid site_body_capture_valid site_header_capture_valid site_cors_valid site_hsts_valid

lemma parse_site_policy_valid: "parse_site_policy nt cf v = Inr p \<Longrightarrow> site_policy_ok cf p"
proof -
  assume "parse_site_policy nt cf v = Inr p"
  then obtain i l where "parse_header_policy nt (j_get i ''requestHeaders'') ''Request header policy'' RequestHeader = Inr (sh_request_headers p)"
    "parse_header_policy nt (j_get i ''responseHeaders'') ''Response header policy'' ResponseHeader = Inr (sh_response_headers p)"
    "parse_limits nt (j_get i ''limits'') False = Inr l" "limits_present l = Inr (sh_limits p)"
    "parse_blocked_multipart_fields (j_get i ''blockedMultipartFields'') False = Inr (Some (sh_blocked_multipart_fields p))"
    "parse_site_cache nt cf (j_get i ''cache'') = Inr (sh_cache p)"
    "parse_site_protection nt (j_get i ''protection'') = Inr (sh_protection p)"
    "parse_site_ban_durations nt (j_get i ''banDurations'') = Inr (sh_ban_durations p)"
    "parse_site_bandwidth_limit nt (j_get i ''bandwidthLimit'') = Inr (sh_bandwidth_limit p)"
    "parse_site_body_capture nt cf (j_get i ''bodyCapture'') = Inr (sh_body_capture p)"
    "parse_site_header_capture nt (j_get i ''headerCapture'') = Inr (sh_header_capture p)"
    "parse_site_cors nt (j_get i ''cors'') = Inr (sh_cors p)" "parse_site_hsts nt (j_get i ''hsts'') = Inr (sh_hsts p)"
    by (auto simp: parse_site_policy_def checked_simps Let_def)
  moreover from this(3,4) have "limits_ok always (sh_limits p)" by (blast intro: site_limits_valid route_limits_valid)
  ultimately show ?thesis unfolding site_policy_ok_def by (blast dest: site_parts_valid)
qed

lemmas route_parts_valid = parse_header_policy_ok route_limits_valid blocked_fields_ok route_cache_valid route_protection_valid
  route_ban_durations_valid route_bandwidth_valid route_body_capture_valid route_header_capture_valid route_cors_valid

lemma parse_route_policy_valid: "parse_route_policy nt cf v = Inr p \<Longrightarrow> route_policy_ok cf p"
  by (auto simp: parse_route_policy_def checked_simps Let_def route_policy_ok_def dest!: route_parts_valid)

section \<open>Stored policies read back\<close>

named_theorems reads_back \<open>a validation function applied to what was written\<close>

lemma safe_integer_json: "\<bar>i\<bar> < 2 ^ 53 \<Longrightarrow> js_safe_integer (js_to_number nt (Some (json_int i))) = Some i"
  by (simp add: js_safe_integer_def json_int_def)

lemma cache_integer_json [reads_back]:
  "lo \<le> i \<Longrightarrow> i \<le> hi \<Longrightarrow> 0 \<le> lo \<Longrightarrow> hi < 2 ^ 53 \<Longrightarrow> cache_integer nt (Some (json_int i)) label fallback lo hi nullable = Inr (Some i)"
  by (simp add: cache_integer_def safe_integer_json)

lemma cache_integer_opt_json [reads_back]:
  "pred_option (\<lambda>i. lo \<le> i \<and> i \<le> hi) r \<Longrightarrow> 0 \<le> lo \<Longrightarrow> hi < 2 ^ 53 \<Longrightarrow>
     cache_integer nt (Some (json_opt json_int r)) label fallback lo hi True = Inr r"
  by (cases r) (auto simp: cache_integer_json, simp add: cache_integer_def)

lemma body_capture_bytes_json [reads_back]:
  "0 \<le> i \<Longrightarrow> i \<le> hc_body_capture_ceiling cf \<Longrightarrow> hc_body_capture_ceiling cf < 2 ^ 53 \<Longrightarrow>
     body_capture_bytes nt cf (Some (json_int i)) label fallback nullable = Inr (Some i)"
  by (simp add: body_capture_bytes_def safe_integer_json)

lemma body_capture_bytes_opt_json [reads_back]:
  "pred_option (\<lambda>i. 0 \<le> i \<and> i \<le> hc_body_capture_ceiling cf) r \<Longrightarrow> hc_body_capture_ceiling cf < 2 ^ 53 \<Longrightarrow>
     body_capture_bytes nt cf (Some (json_opt json_int r)) label fallback True = Inr r"
  by (cases r) (auto simp: body_capture_bytes_json, simp add: body_capture_bytes_def)

lemma limit_value_json [reads_back]:
  "0 \<le> i \<Longrightarrow> i \<le> hi \<Longrightarrow> hi < 2 ^ 53 \<Longrightarrow> limit_value nt label hi (Some (json_int i)) nullable = Inr (Some i)"
  using safe_integer_json [of i nt] by (simp add: limit_value_def) (simp add: json_int_def)

lemma limit_value_opt_json [reads_back]:
  "pred_option (\<lambda>i. 0 \<le> i \<and> i \<le> hi) r \<Longrightarrow> hi < 2 ^ 53 \<Longrightarrow> limit_value nt label hi (Some (json_opt json_int r)) True = Inr r"
  by (cases r) (auto simp: limit_value_json, simp add: limit_value_def)

lemma expires_at_json [reads_back]: "expires_ok r \<Longrightarrow> body_capture_expires_at nt (Some (json_opt json_int r)) fallback = Inr r"
  using safe_integer_json [of "the r" nt]
  by (cases r) (auto simp: expires_ok_def body_capture_expires_at_def)

lemma boolean_json [reads_back]: "boolean_input label (Some (JBool b)) d = Inr b"
  by (simp add: boolean_input_def)

lemma route_boolean_json [reads_back]: "route_boolean label (Some (json_opt JBool r)) = Inr r"
  by (cases r) (simp_all add: route_boolean_def boolean_json checked_simps)

lemma mode_texts:
  "to_lower (trim ''enabled'') = ''enabled''" "to_lower (trim ''disabled'') = ''disabled''" "to_lower (trim ''inherit'') = ''inherit''"
  "to_lower (trim ''monitor'') = ''monitor''" "to_lower (trim ''block'') = ''block''"
  by code_simp+

lemma toggle_reads_back [reads_back]:
  "route \<or> m \<noteq> ModeInherit \<Longrightarrow> toggle_value nt label (Some (toggle_json m)) route d = Inr m"
  by (cases m) (simp_all add: toggle_value_def mode_texts)

lemma protection_mode_reads_back [reads_back]:
  "route \<or> m \<noteq> ProtInherit \<Longrightarrow> protection_mode nt (Some (protection_mode_json m)) route d = Inr m"
  by (cases m) (simp_all add: protection_mode_def mode_texts)

lemma extension_clean: "extension_ok s \<Longrightarrow> to_lower (trim s) = s \<and> s \<noteq> []"
proof -
  assume "extension_ok s"
  then have "\<forall>c \<in> set s. is_lower c \<or> is_digit c \<or> c \<in> set ''.-_:+/''" and "s \<noteq> []"
    by (auto simp: extension_ok_def split: list.splits)
  then show ?thesis using char_kinds by (blast intro: clean_lower)
qed

lemma rule_id_clean: "rule_id_ok s \<Longrightarrow> to_upper (trim s) = s \<and> s \<noteq> []"
proof -
  assume "rule_id_ok s"
  then have "\<forall>c \<in> set s. is_upper c \<or> is_digit c \<or> c \<in> set ''.-_:+/''" and "s \<noteq> []"
    by (cases s; auto simp: rule_id_ok_def)+
  then show ?thesis using char_kinds by (blast intro: clean_upper)
qed

lemma ruleset_id_clean: "ruleset_id_ok s \<Longrightarrow> to_lower (trim s) = s"
proof -
  assume "ruleset_id_ok s"
  then have "\<forall>c \<in> set s. is_lower c \<or> is_digit c \<or> c \<in> set ''.-_:+/''"
    by (cases s) (auto simp: ruleset_id_ok_def)
  then show ?thesis using char_kinds by (blast intro: clean_lower)
qed

lemma media_name_chars: "media_name_ok s \<Longrightarrow> \<forall>c \<in> set s. is_lower c \<or> is_digit c \<or> c \<in> set ''.-_:+/''"
  by (cases s) (auto simp: media_name_ok_def)

lemma content_type_clean: "body_capture_content_type_ok t \<Longrightarrow> to_lower (trim (hd (split_on CHR '';'' t))) = t \<and> t \<noteq> []"
proof -
  assume t: "body_capture_content_type_ok t"
  have chars: "\<forall>c \<in> set t. is_lower c \<or> is_digit c \<or> c \<in> set ''.-_:+/'' \<or> c = CHR ''*''"
  proof (cases "t = ''*''")
    case False
    then obtain a b where ab: "split_on CHR ''/'' t = [a, b]" and "media_name_ok a" "media_name_ok b"
      using t by (auto simp: body_capture_content_type_ok_def split: list.splits)
    then show ?thesis using split_on_chars [of _ t "CHR ''/''"] media_name_chars by fastforce
  qed simp
  have "CHR '';'' \<notin> set t" using chars by (auto simp: char_class_defs)
  moreover have "\<forall>c \<in> set t. \<not> is_space c \<and> \<not> has_lower c" using chars by (auto dest: char_kinds simp: char_class_defs)
  moreover have "t \<noteq> []" using t by (auto simp: body_capture_content_type_ok_def is_text_content_type_def)
  ultimately show ?thesis by (simp add: split_on_clean clean_lower)
qed

lemma authority_chars:
  assumes "\<forall>c \<in> set (takeWhile (\<lambda>c. c \<noteq> CHR '':'') r). is_alnum c \<or> c = CHR ''.'' \<or> c = CHR ''-''"
    and "dropWhile (\<lambda>c. c \<noteq> CHR '':'') r = [] \<or> list_all is_digit (tl (dropWhile (\<lambda>c. c \<noteq> CHR '':'') r))"
  shows "\<forall>c \<in> set r. is_alnum c \<or> c \<in> set ''.-:''"
proof -
  let ?h = "takeWhile (\<lambda>c. c \<noteq> CHR '':'') r" and ?p = "dropWhile (\<lambda>c. c \<noteq> CHR '':'') r"
  have "\<forall>c \<in> set ?p. c = CHR '':'' \<or> is_digit c"
  proof (cases ?p)
    case (Cons d ds)
    then have "d = CHR '':''" using hd_dropWhile [of "\<lambda>c. c \<noteq> CHR '':''" r] by simp
    then show ?thesis using assms(2) Cons by (auto simp: list_all_iff)
  next
    case Nil
    then show ?thesis by (simp only: list.set) simp
  qed
  moreover have "set r = set ?h \<union> set ?p" by (metis set_append takeWhile_dropWhile_id)
  ultimately show ?thesis using assms(1) by (auto simp: is_alnum_def)
qed

lemma origin_chars: "cors_origin_pattern s \<Longrightarrow> \<forall>c \<in> set (to_lower s). c \<in> set ''htps:/'' \<or> is_alnum c \<or> c \<in> set ''.-:''"
proof -
  assume s: "cors_origin_pattern s"
  define t where "t = to_lower s"
  define r where "r = drop (if starts_with ''https://'' t then 8 else 7) t"
  define p where "p = take (if starts_with ''https://'' t then 8 else 7) t"
  have t: "to_lower s = p @ r" unfolding p_def r_def t_def by simp
  have p: "set p \<subseteq> set ''htps:/''"
    using s by (auto simp: cors_origin_pattern_def Let_def p_def t_def [symmetric] starts_with_def numeral_eq_Suc split: if_splits)
  have "\<forall>c \<in> set (takeWhile (\<lambda>c. c \<noteq> CHR '':'') r). is_alnum c \<or> c = CHR ''.'' \<or> c = CHR ''-''"
    and "dropWhile (\<lambda>c. c \<noteq> CHR '':'') r = [] \<or> list_all is_digit (tl (dropWhile (\<lambda>c. c \<noteq> CHR '':'') r))"
    using s by (auto simp: cors_origin_pattern_def Let_def r_def t_def [symmetric] split: if_splits)
  then have "\<forall>c \<in> set r. is_alnum c \<or> c \<in> set ''.-:''" by (rule authority_chars)
  then show ?thesis using p unfolding t set_append by blast
qed

lemma origin_clean: "cors_origin_ok s \<Longrightarrow> trim s = s \<and> s \<noteq> []"
proof -
  assume s: "cors_origin_ok s"
  have "\<not> is_space c" if c: "c \<in> set s" for c
  proof
    assume sp: "is_space c"
    then have "lower_char c = c" by (auto simp: lower_char_def char_class_defs)
    then have "c \<in> set (to_lower s)" using c by (force simp: to_lower_def)
    moreover have "s \<noteq> ''*''" using c sp by (auto simp: char_class_defs)
    ultimately have "c \<in> set ''htps:/'' \<or> is_alnum c \<or> c \<in> set ''.-:''"
      using s origin_chars by (auto simp only: cors_origin_ok_def)
    then show False using sp by (auto simp: char_class_defs is_alnum_def)
  qed
  then have "trim s = s" by (intro trim_clean) blast
  moreover have "s \<noteq> []" using s by (auto simp: cors_origin_ok_def cors_origin_pattern_def to_lower_def starts_with_def)
  ultimately show ?thesis by simp
qed

lemma extensions_json [reads_back]:
  "xs \<noteq> [] \<Longrightarrow> name_list_ok 64 extension_ok xs \<Longrightarrow> cache_extensions nt (Some (json_strings xs)) nullable d = Inr (Some xs)"
  using map_filter_clean [of xs "\<lambda>t. to_lower (trim t)"] extension_clean
  by (auto simp: cache_extensions_def name_list_ok_def list_all_iff)

lemma content_types_json [reads_back]:
  "name_list_ok 32 body_capture_content_type_ok xs \<Longrightarrow> body_capture_content_types nt (Some (json_strings xs)) nullable d = Inr (Some xs)"
  using map_filter_clean [of xs "\<lambda>t. to_lower (trim (hd (split_on CHR '';'' t)))"] content_type_clean
  by (auto simp: body_capture_content_types_def name_list_ok_def list_all_iff)

lemma rule_ids_json [reads_back]:
  "name_list_ok 256 rule_id_ok xs \<Longrightarrow> protection_rule_ids nt (Some (json_strings xs)) d = Inr xs"
  using map_filter_clean [of xs "\<lambda>t. to_upper (trim t)"] rule_id_clean
  by (auto simp: protection_rule_ids_def name_list_ok_def list_all_iff)

lemma ruleset_id_json [reads_back]: "ruleset_id_ok s \<Longrightarrow> protection_ruleset_id nt (Some (JString s)) d = Inr s"
  by (simp add: protection_ruleset_id_def ruleset_id_clean)

lemma origins_json [reads_back]: "origins_ok xs \<Longrightarrow> cors_origins nt (Some (json_strings xs)) nullable d = Inr (Some xs)"
  using map_filter_clean [of xs trim] origin_clean
  by (auto simp: cors_origins_def origins_ok_def name_list_ok_def list_all_iff)

lemma methods_json [reads_back]:
  "name_list_ok 32 method_ok xs \<Longrightarrow> cors_methods nt (Some (json_strings xs)) nullable d = Inr (Some xs)"
  using map_filter_clean [of xs "\<lambda>t. to_upper (trim t)"] trim_token
  by (auto simp: cors_methods_def name_list_ok_def method_ok_def http_token_def list_all_iff)

lemma header_name_clean: "header_name_ok n \<Longrightarrow> trim n = n \<and> n \<noteq> []"
  using trim_token by (auto simp: header_name_ok_def http_token_def)

lemma redacted_headers_json [reads_back]:
  "name_list_ok 32 header_name_ok xs \<Longrightarrow> header_capture_redacted_headers nt (Some (json_strings xs)) nullable d = Inr (Some xs)"
  using map_filter_clean [of xs trim] header_name_clean check_all_id [of xs "\<lambda>t. normalized_header_name t ''Header capture redacted header''"]
    normalized_header_name_id
  by (auto simp: header_capture_redacted_headers_def name_list_ok_def checked_simps)

lemma cors_names_json [reads_back]:
  "name_list_ok 64 (\<lambda>n. header_name_ok n \<and> (guard \<longrightarrow> \<not> response_header_owned n)) xs \<Longrightarrow>
     cors_header_names nt (Some (json_strings xs)) nullable d label guard = Inr (Some xs)"
  using map_filter_clean [of xs trim] header_name_clean check_all_id [of xs "\<lambda>t. normalized_header_name t label"] normalized_header_name_id
  by (auto simp: cors_header_names_def name_list_ok_def checked_simps list_ex_iff)

lemma blocked_fields_json [reads_back]:
  "name_list_ok 32 blocked_name_ok xs \<Longrightarrow> parse_blocked_multipart_fields (Some (json_strings xs)) nullable = Inr (Some xs)"
proof -
  assume xs: "name_list_ok 32 blocked_name_ok xs"
  then have "\<forall>x \<in> set xs. blocked_name_ok x" by (simp add: name_list_ok_def)
  then have "check_all blocked_field_name (map JString xs) = Inr xs"
    by (induction xs) (auto simp: checked_simps blocked_field_name_def)
  then show ?thesis using xs by (simp add: parse_blocked_multipart_fields_def json_strings_def checked_simps name_list_ok_def)
qed

lemma header_sets_json:
  "distinct (map fst (acc @ xs)) \<Longrightarrow> (\<forall>(n, v) \<in> set xs. header_name_ok n \<and> \<not> header_owned d n \<and> header_value_ok v) \<Longrightarrow>
     parse_header_sets nt label d (map (\<lambda>(n, v). JObject [(''name'', JString n), (''value'', JString v)]) xs) acc = Inr (acc @ xs)"
proof (induction xs arbitrary: acc)
  case (Cons x xs)
  obtain n v where x: "x = (n, v)" by fastforce
  have "om_set n v acc = acc @ [(n, v)]" using Cons.prems(1) x by (intro om_set_fresh) (auto simp: om_keys_def)
  moreover have "assert_mutable_header n d True = Inr ()" using Cons.prems(2) x by (simp add: checked_simps)
  moreover have "normalized_header_name n label = Inr n" using Cons.prems(2) x by (simp add: normalized_header_name_id)
  ultimately show ?case using Cons.prems Cons.IH [of "acc @ [x]"]
    by (simp add: x checked_simps object_value_def js_text_def header_value_ok_def)
qed simp

lemma header_removals_json:
  "distinct (acc @ ns) \<Longrightarrow>
     (\<forall>n \<in> set ns. header_name_ok n \<and> n \<notin> set taken \<and> (d = RequestHeader \<longrightarrow> \<not> header_owned d n)) \<Longrightarrow>
     parse_header_removals nt label d taken (map JString ns) acc = Inr (acc @ ns)"
proof (induction ns arbitrary: acc)
  case (Cons n ns)
  have "assert_mutable_header n d False = Inr ()" using Cons.prems(2) by (cases d) (simp_all add: checked_simps)
  moreover have "normalized_header_name n label = Inr n" using Cons.prems(2) by (simp add: normalized_header_name_id)
  ultimately show ?case using Cons.prems Cons.IH [of "acc @ [n]"] by (simp add: checked_simps js_text_def)
qed simp

lemma header_policy_reads_back [reads_back]:
  "header_policy_ok d p \<Longrightarrow> parse_header_policy nt (Some (header_policy_json p)) label d = Inr p"
  using header_sets_json [of "[]" "hp_set p" d nt label] header_removals_json [of "[]" "hp_remove p" "om_keys (hp_set p)" d nt label]
  by (auto simp: header_policy_ok_def name_list_ok_def parse_header_policy_def header_policy_json_def object_value_def array_or_empty_def
      json_strings_def checked_simps om_keys_def disjoint_iff)


lemmas bound_defs = max_ban_duration_seconds_def max_bandwidth_limit_bytes_def max_bandwidth_limit_window_seconds_def
  max_cors_max_age_seconds_def max_hsts_max_age_seconds_def hsts_preload_min_max_age_seconds_def

lemmas boolean_defs = bandwidth_limit_boolean_def header_capture_boolean_def cors_credentials_boolean_def hsts_boolean_def
  route_bandwidth_limit_boolean_def route_header_capture_boolean_def route_cors_credentials_boolean_def

lemma present_Inr [simp]: "present (Inr (Some x)) = Inr x"
  by (simp add: present_def and_then_def)

lemma site_cache_json [reads_back]:
  "config_ok cf \<Longrightarrow> cc_mode c \<noteq> ModeInherit \<Longrightarrow> cache_rule_ok cf always always c \<Longrightarrow>
     parse_site_cache nt cf (Some (cache_json json_int json_strings c)) = Inr c"
  by (simp add: parse_site_cache_def cache_json_def cache_rule_ok_def config_ok_def mode_defs and_then_Inr Let_def
      toggle_reads_back cache_integer_json extensions_json)

lemma site_protection_json_reads [reads_back]:
  "sp_mode p \<noteq> ProtInherit \<Longrightarrow> ruleset_id_ok (sp_ruleset_id p) \<Longrightarrow> name_list_ok 256 rule_id_ok (sp_excluded_rule_ids p) \<Longrightarrow>
     parse_site_protection nt (Some (site_protection_json p)) = Inr p"
  by (simp add: parse_site_protection_def site_protection_json_def and_then_Inr Let_def protection_mode_reads_back ruleset_id_json rule_ids_json)

lemma site_ban_durations_json [reads_back]:
  "ban_durations_ok always d \<Longrightarrow> parse_site_ban_durations nt (Some (ban_durations_json json_int d)) = Inr d"
  by (simp add: parse_site_ban_durations_def ban_durations_json_def ban_durations_ok_def Let_def and_then_Inr cache_integer_json bound_defs)

lemma site_bandwidth_json [reads_back]:
  "bandwidth_ok always d \<Longrightarrow> parse_site_bandwidth_limit nt (Some (bandwidth_json JBool json_int d)) = Inr d"
  by (simp add: parse_site_bandwidth_limit_def bandwidth_json_def bandwidth_ok_def and_then_Inr Let_def cache_integer_json bound_defs
      boolean_defs boolean_json)

lemma site_body_capture_json [reads_back]:
  "config_ok cf \<Longrightarrow> bc_mode c \<noteq> ModeInherit \<Longrightarrow> body_capture_ok cf always always c \<Longrightarrow>
     parse_site_body_capture nt cf (Some (body_capture_json json_int json_strings c)) = Inr c"
  by (simp add: parse_site_body_capture_def body_capture_json_def body_capture_ok_def config_ok_def and_then_Inr Let_def mode_defs
      toggle_reads_back body_capture_bytes_json expires_at_json content_types_json)

lemma site_header_capture_json [reads_back]:
  "hcap_mode c \<noteq> ModeInherit \<Longrightarrow> header_capture_ok always c \<Longrightarrow>
     parse_site_header_capture nt (Some (header_capture_json JBool json_strings c)) = Inr c"
  by (simp add: parse_site_header_capture_def header_capture_json_def header_capture_ok_def and_then_Inr Let_def mode_defs
      toggle_reads_back expires_at_json redacted_headers_json boolean_defs boolean_json)

lemma site_cors_json [reads_back]:
  "co_mode c \<noteq> ModeInherit \<Longrightarrow> cors_ok always always c \<Longrightarrow> (co_allow_credentials c \<longrightarrow> ''*'' \<notin> set (co_allowed_origins c)) \<Longrightarrow>
     parse_site_cors nt (Some (cors_json JBool json_int json_strings c)) = Inr c"
  by (simp add: parse_site_cors_def cors_json_def cors_ok_def and_then_Inr Let_def mode_defs bound_defs boolean_defs boolean_json
      toggle_reads_back origins_json methods_json cors_names_json cache_integer_json)

lemma site_hsts_json [reads_back]: "hsts_ok h \<Longrightarrow> parse_site_hsts nt (Some (hsts_json h)) = Inr h"
  by (auto simp: parse_site_hsts_def hsts_json_def hsts_ok_def and_then_Inr Let_def bound_defs boolean_defs boolean_json
      toggle_reads_back cache_integer_json)

lemma site_limits_json [reads_back]:
  "limits_ok always l \<Longrightarrow> and_then (parse_limits nt (Some (limits_json json_int l)) False) limits_present = Inr l"
  by (simp add: parse_limits_def limits_json_def limits_ok_def Let_def and_then_Inr limit_value_json limits_present_def)

lemma site_policy_reads_back:
  assumes "config_ok cf" and "site_policy_ok cf p"
  shows "parse_site_policy nt cf (Some (site_policy_json p)) = Inr p"
  using assms unfolding site_policy_ok_def
  by (simp add: parse_site_policy_def site_policy_json_def and_then_Inr Let_def header_policy_reads_back site_limits_json blocked_fields_json
      site_cache_json site_protection_json_reads site_ban_durations_json site_bandwidth_json site_body_capture_json
      site_header_capture_json site_cors_json site_hsts_json)

lemma extensions_opt_json [reads_back]:
  "pred_option (\<lambda>xs. xs \<noteq> [] \<and> name_list_ok 64 extension_ok xs) r \<Longrightarrow> cache_extensions nt (Some (json_opt json_strings r)) True d = Inr r"
  by (cases r) (auto simp: extensions_json, simp add: cache_extensions_def)

lemma content_types_opt_json [reads_back]:
  "pred_option (name_list_ok 32 body_capture_content_type_ok) r \<Longrightarrow>
     body_capture_content_types nt (Some (json_opt json_strings r)) True d = Inr r"
  by (cases r) (auto simp: content_types_json, simp add: body_capture_content_types_def)

lemma origins_opt_json [reads_back]: "pred_option origins_ok r \<Longrightarrow> cors_origins nt (Some (json_opt json_strings r)) True d = Inr r"
  by (cases r) (auto simp: origins_json, simp add: cors_origins_def)

lemma methods_opt_json [reads_back]:
  "pred_option (name_list_ok 32 method_ok) r \<Longrightarrow> cors_methods nt (Some (json_opt json_strings r)) True d = Inr r"
  by (cases r) (auto simp: methods_json, simp add: cors_methods_def)

lemma redacted_headers_opt_json [reads_back]:
  "pred_option (name_list_ok 32 header_name_ok) r \<Longrightarrow> header_capture_redacted_headers nt (Some (json_opt json_strings r)) True d = Inr r"
  by (cases r) (auto simp: redacted_headers_json, simp add: header_capture_redacted_headers_def)

lemma cors_names_opt_json [reads_back]:
  "pred_option (name_list_ok 64 (\<lambda>n. header_name_ok n \<and> (guard \<longrightarrow> \<not> response_header_owned n))) r \<Longrightarrow>
     cors_header_names nt (Some (json_opt json_strings r)) True d label guard = Inr r"
  by (cases r) (auto simp: cors_names_json, simp add: cors_header_names_def)

lemma blocked_fields_opt_json [reads_back]:
  "pred_option (name_list_ok 32 blocked_name_ok) r \<Longrightarrow> parse_blocked_multipart_fields (Some (json_opt json_strings r)) True = Inr r"
  by (cases r) (auto simp: blocked_fields_json, simp add: parse_blocked_multipart_fields_def)

lemma route_cache_json [reads_back]:
  "config_ok cf \<Longrightarrow> cache_rule_ok cf pred_option pred_option c \<Longrightarrow>
     parse_route_cache nt cf (Some (cache_json (json_opt json_int) (json_opt json_strings) c)) = Inr c"
  by (simp add: parse_route_cache_def cache_json_def cache_rule_ok_def config_ok_def mode_defs and_then_Inr Let_def
      toggle_reads_back cache_integer_opt_json extensions_opt_json)

lemma route_protection_json_reads [reads_back]:
  "name_list_ok 256 rule_id_ok (rt_excluded_rule_ids p) \<Longrightarrow> parse_route_protection nt (Some (route_protection_json p)) = Inr p"
  by (simp add: parse_route_protection_def route_protection_json_def and_then_Inr Let_def protection_mode_reads_back rule_ids_json)

lemma route_ban_durations_json [reads_back]:
  "ban_durations_ok pred_option d \<Longrightarrow> parse_route_ban_durations nt (Some (ban_durations_json (json_opt json_int) d)) = Inr d"
  by (simp add: parse_route_ban_durations_def ban_durations_json_def ban_durations_ok_def Let_def and_then_Inr cache_integer_opt_json bound_defs)

lemma route_bandwidth_json [reads_back]:
  "bandwidth_ok pred_option d \<Longrightarrow>
     parse_route_bandwidth_limit nt (Some (bandwidth_json (json_opt JBool) (json_opt json_int) d)) = Inr d"
  by (simp add: parse_route_bandwidth_limit_def bandwidth_json_def bandwidth_ok_def Let_def and_then_Inr cache_integer_opt_json bound_defs
      boolean_defs route_boolean_json)

lemma route_body_capture_json [reads_back]:
  "config_ok cf \<Longrightarrow> body_capture_ok cf pred_option pred_option c \<Longrightarrow>
     parse_route_body_capture nt cf (Some (body_capture_json (json_opt json_int) (json_opt json_strings) c)) = Inr c"
  by (simp add: parse_route_body_capture_def body_capture_json_def body_capture_ok_def config_ok_def and_then_Inr Let_def mode_defs
      toggle_reads_back body_capture_bytes_opt_json expires_at_json content_types_opt_json)

lemma route_header_capture_json [reads_back]:
  "header_capture_ok pred_option c \<Longrightarrow>
     parse_route_header_capture nt (Some (header_capture_json (json_opt JBool) (json_opt json_strings) c)) = Inr c"
  by (simp add: parse_route_header_capture_def header_capture_json_def header_capture_ok_def and_then_Inr Let_def mode_defs
      toggle_reads_back expires_at_json redacted_headers_opt_json boolean_defs route_boolean_json)

lemma route_cors_json [reads_back]:
  "cors_ok pred_option pred_option c \<Longrightarrow>
     (co_allow_credentials c = Some True \<longrightarrow> pred_option (\<lambda>xs. ''*'' \<notin> set xs) (co_allowed_origins c)) \<Longrightarrow>
     parse_route_cors nt (Some (cors_json (json_opt JBool) (json_opt json_int) (json_opt json_strings) c)) = Inr c"
  by (auto simp: parse_route_cors_def cors_json_def cors_ok_def and_then_Inr Let_def mode_defs bound_defs boolean_defs route_boolean_json
      toggle_reads_back origins_opt_json methods_opt_json cors_names_opt_json cache_integer_opt_json split: option.splits)

lemma route_limits_json [reads_back]:
  "limits_ok pred_option l \<Longrightarrow> parse_limits nt (Some (limits_json (json_opt json_int) l)) True = Inr l"
  by (simp add: parse_limits_def limits_json_def limits_ok_def Let_def and_then_Inr limit_value_opt_json)

lemma route_policy_reads_back:
  assumes "config_ok cf" and "route_policy_ok cf p"
  shows "parse_route_policy nt cf (Some (route_policy_json p)) = Inr p"
  using assms unfolding route_policy_ok_def
  by (simp add: parse_route_policy_def route_policy_json_def Let_def and_then_Inr header_policy_reads_back route_limits_json
      blocked_fields_opt_json route_cache_json route_protection_json_reads route_ban_durations_json route_bandwidth_json
      route_body_capture_json route_header_capture_json route_cors_json)

lemma input_object_site [simp]: "input_object (Some (site_policy_json p)) = site_policy_json p"
  by (simp add: site_policy_json_def)

lemma input_object_route [simp]: "input_object (Some (route_policy_json p)) = route_policy_json p"
  by (simp add: route_policy_json_def Let_def)

lemma serialize_site_parsed:
  "serialize_site_http_policy nt cf (Some (JObject fs)) existing = Inr j \<Longrightarrow>
     \<exists>v p. parse_site_policy nt cf v = Inr p \<and> j = site_policy_json p"
  by (auto simp: serialize_site_http_policy_def Let_def and_then_def split: sum.splits if_splits)

lemma serialize_route_parsed:
  "serialize_route_http_policy nt cf (Some (JObject fs)) existing = Inr j \<Longrightarrow>
     \<exists>v p. parse_route_policy nt cf v = Inr p \<and> j = route_policy_json p"
  by (auto simp: serialize_route_http_policy_def Let_def and_then_def split: sum.splits if_splits)

section \<open>Saving and reading back\<close>

lemma default_site_policy_ok:
  "config_ok cf \<Longrightarrow> 4096 \<le> hc_body_capture_ceiling cf \<Longrightarrow> site_policy_ok cf (default_site_policy cf)"
  using default_names_ok
  by (auto simp: site_policy_ok_def default_site_policy_def config_ok_def empty_header_policy_def header_policy_ok_def limits_ok_def
      cache_rule_ok_def ruleset_id_ok_def ban_durations_ok_def bandwidth_ok_def body_capture_ok_def header_capture_ok_def cors_ok_def
      hsts_ok_def bound_defs Let_def char_class_defs)

lemma stored_site_policy_ok:
  "config_ok cf \<Longrightarrow> 4096 \<le> hc_body_capture_ceiling cf \<Longrightarrow> site_policy_ok cf (stored_site_policy nt cf stored)"
  using parse_site_policy_valid default_site_policy_ok by (auto simp: stored_site_policy_def split: sum.splits)

text \<open>Turning the managed protection of a site to blocking, everything else unchanged.\<close>

definition block_input :: json where
  "block_input = JObject [(''protection'', JObject [(''mode'', JString '' Block '')])]"

lemma block_mode: "to_lower (trim '' Block '') = ''block''"
  by code_simp

lemma spread_nothing:
  "spread (limits_json n l) (JObject []) = limits_json n l" "spread (cache_json n xs c) (JObject []) = cache_json n xs c"
  "spread (ban_durations_json n d) (JObject []) = ban_durations_json n d"
  "spread (bandwidth_json b n w) (JObject []) = bandwidth_json b n w"
  "spread (body_capture_json n xs bc) (JObject []) = body_capture_json n xs bc"
  "spread (header_capture_json b xs hc) (JObject []) = header_capture_json b xs hc"
  "spread (cors_json b n xs co) (JObject []) = cors_json b n xs co" "spread (hsts_json h) (JObject []) = hsts_json h"
  by (simp_all add: spread_def limits_json_def cache_json_def ban_durations_json_def bandwidth_json_def body_capture_json_def
      header_capture_json_def cors_json_def hsts_json_def)

lemma serialize_block:
  assumes "config_ok cf" and "4096 \<le> hc_body_capture_ceiling cf" and p: "p = stored_site_policy nt cf existing"
  shows "serialize_site_http_policy nt cf (Some block_input) existing =
    Inr (site_policy_json (p\<lparr>sh_protection := (sh_protection p)\<lparr>sp_mode := ProtBlock\<rparr>\<rparr>))"
proof -
  have ok: "site_policy_ok cf p" using stored_site_policy_ok [OF assms(1,2)] p by simp
  let ?prot = "spread (site_protection_json (sh_protection p)) (JObject [(''mode'', JString '' Block '')])"
  have prot: "parse_site_protection nt (Some ?prot) = Inr ((sh_protection p)\<lparr>sp_mode := ProtBlock\<rparr>)"
    using ok by (simp add: parse_site_protection_def spread_def site_protection_json_def site_policy_ok_def Let_def and_then_Inr
        protection_mode_def block_mode ruleset_id_json rule_ids_json)
  show ?thesis
    using ok assms(1) prot unfolding site_policy_ok_def
    by (simp add: serialize_site_http_policy_def block_input_def p [symmetric] object_value_def supplied_part_def in_or_def Let_def and_then_Inr
        site_policy_json_def parse_site_policy_def header_policy_reads_back site_limits_json blocked_fields_json
        site_cache_json site_ban_durations_json site_bandwidth_json site_body_capture_json
        site_header_capture_json site_cors_json site_hsts_json
        spread_nothing)
qed

text \<open>
  C25: what an administrator saves is what requests get. When the submitted settings of a site or of a route
  are accepted, the text that is stored is the one of a well-formed policy, and reading the stored text
  back gives exactly that policy: validation accepts its own output and changes nothing in it.
\<close>

theorem saved_policy_reads_back:
  assumes "config_ok cf"
  shows "(\<forall>fs existing j. serialize_site_http_policy nt cf (Some (JObject fs)) existing = Inr j \<longrightarrow>
       site_policy_ok cf (stored_site_policy nt cf (Some j)) \<and> j = site_policy_json (stored_site_policy nt cf (Some j))) \<and>
     (\<forall>fs existing j. serialize_route_http_policy nt cf (Some (JObject fs)) existing = Inr j \<longrightarrow>
       route_policy_ok cf (stored_route_policy nt cf (Some j)) \<and> j = route_policy_json (stored_route_policy nt cf (Some j)))"
proof (intro conjI allI impI)
  fix fs existing j
  assume "serialize_site_http_policy nt cf (Some (JObject fs)) existing = Inr j"
  then obtain v p where "parse_site_policy nt cf v = Inr p" and j: "j = site_policy_json p" using serialize_site_parsed by blast
  then have "site_policy_ok cf p" and "stored_site_policy nt cf (Some j) = p"
    using site_policy_reads_back [OF assms] parse_site_policy_valid by (auto simp: stored_site_policy_def)
  then show "site_policy_ok cf (stored_site_policy nt cf (Some j))" and "j = site_policy_json (stored_site_policy nt cf (Some j))"
    using j by simp_all
next
  fix fs existing j
  assume "serialize_route_http_policy nt cf (Some (JObject fs)) existing = Inr j"
  then obtain v p where "parse_route_policy nt cf v = Inr p" and j: "j = route_policy_json p" using serialize_route_parsed by blast
  then have "route_policy_ok cf p" and "stored_route_policy nt cf (Some j) = p"
    using route_policy_reads_back [OF assms] parse_route_policy_valid by (auto simp: stored_route_policy_def)
  then show "route_policy_ok cf (stored_route_policy nt cf (Some j))" and "j = route_policy_json (stored_route_policy nt cf (Some j))"
    using j by simp_all
qed

definition usual_config :: http_config where
  "usual_config = \<lparr>hc_cache_max_object_bytes = 33554432, hc_cache_max_bytes = 268435456, hc_body_capture_ceiling = 1048576\<rparr>"

lemma usual_config_ok: "config_ok usual_config" "4096 \<le> hc_body_capture_ceiling usual_config"
  by (simp_all add: config_ok_def usual_config_def static_cache_object_ceiling_def)

theorem saved_policy_reads_back_witness:
  "\<exists>j. serialize_site_http_policy (\<lambda>_. []) usual_config (Some block_input) None = Inr j \<and>
     site_policy_ok usual_config (stored_site_policy (\<lambda>_. []) usual_config (Some j)) \<and>
     j = site_policy_json (stored_site_policy (\<lambda>_. []) usual_config (Some j))"
  using serialize_block [OF usual_config_ok refl, of "\<lambda>_. []" None]
    conjunct1 [OF saved_policy_reads_back [OF usual_config_ok(1), of "\<lambda>_. []"]] unfolding block_input_def by blast

text \<open>
  A stored policy does not survive a lower ceiling. When the instance is restarted with a ceiling for
  cached objects or captured bodies below a size the saved policy contains, reading the policy fails
  and the site silently gets the defaults: managed protection only monitors, the request limits are off and every
  other setting of the administrator is ignored, although only the one size was out of range.
\<close>

theorem lowered_ceiling_discards_policy:
  assumes "config_ok cf" and "site_policy_ok cf p"
    and "static_cache_object_ceiling cf' < cc_max_object_bytes (sh_cache p) \<or>
         hc_body_capture_ceiling cf' < bc_max_request_bytes (sh_body_capture p)"
  shows "stored_site_policy nt cf (Some (site_policy_json p)) = p \<and>
    stored_site_policy nt cf' (Some (site_policy_json p)) = default_site_policy cf'"
proof
  show "stored_site_policy nt cf (Some (site_policy_json p)) = p"
    using site_policy_reads_back [OF assms(1,2)] by (simp add: stored_site_policy_def)
  have "parse_site_policy nt cf' (Some (site_policy_json p)) \<noteq> Inr q" for q
  proof
    assume q: "parse_site_policy nt cf' (Some (site_policy_json p)) = Inr q"
    then have cache: "parse_site_cache nt cf' (Some (cache_json json_int json_strings (sh_cache p))) = Inr (sh_cache q)"
      and capture: "parse_site_body_capture nt cf' (Some (body_capture_json json_int json_strings (sh_body_capture p))) = Inr (sh_body_capture q)"
      by (auto simp: parse_site_policy_def checked_simps site_policy_json_def)
    have "\<bar>cc_max_object_bytes (sh_cache p)\<bar> < 2 ^ 53" and "\<bar>bc_max_request_bytes (sh_body_capture p)\<bar> < 2 ^ 53"
      using assms(1,2) by (auto simp: site_policy_ok_def cache_rule_ok_def body_capture_ok_def config_ok_def)
    moreover obtain d i where "cache_integer nt (Some (json_int (cc_max_object_bytes (sh_cache p)))) ''Static cache maximum object size''
        d 1024 (static_cache_object_ceiling cf') False = Inr (Some i)"
      using cache by (auto simp: parse_site_cache_def cache_json_def checked_simps Let_def)
    moreover obtain d i where "body_capture_bytes nt cf' (Some (json_int (bc_max_request_bytes (sh_body_capture p))))
        ''Site maximum request body'' d False = Inr (Some i)"
      using capture by (auto simp: parse_site_body_capture_def body_capture_json_def checked_simps Let_def)
    ultimately have "cc_max_object_bytes (sh_cache p) \<le> static_cache_object_ceiling cf' \<and>
        bc_max_request_bytes (sh_body_capture p) \<le> hc_body_capture_ceiling cf'"
      by (simp add: cache_integer_def body_capture_bytes_def safe_integer_json split: if_splits)
    then show False using assms(3) by simp
  qed
  then show "stored_site_policy nt cf' (Some (site_policy_json p)) = default_site_policy cf'"
    by (auto simp: stored_site_policy_def split: sum.splits)
qed

definition small_config :: http_config where
  "small_config = usual_config\<lparr>hc_cache_max_object_bytes := 1048576\<rparr>"

definition blocking_policy :: site_http_policy where
  "blocking_policy = (default_site_policy usual_config)\<lparr>sh_protection := \<lparr>sp_mode = ProtBlock, sp_ruleset_id = ''default'',
     sp_excluded_rule_ids = []\<rparr>\<rparr>"

lemma blocking_policy_ok: "site_policy_ok usual_config blocking_policy"
  using default_site_policy_ok [OF usual_config_ok]
  by (auto simp: blocking_policy_def site_policy_ok_def default_site_policy_def)

theorem lowered_ceiling_discards_policy_witness:
  "sp_mode (sh_protection (stored_site_policy (\<lambda>_. []) usual_config (Some (site_policy_json blocking_policy)))) = ProtBlock \<and>
   sp_mode (sh_protection (stored_site_policy (\<lambda>_. []) small_config (Some (site_policy_json blocking_policy)))) = ProtMonitor"
proof -
  have "static_cache_object_ceiling small_config < cc_max_object_bytes (sh_cache blocking_policy)"
    by (simp add: small_config_def usual_config_def static_cache_object_ceiling_def blocking_policy_def default_site_policy_def)
  from lowered_ceiling_discards_policy [OF usual_config_ok(1) blocking_policy_ok disjI1 [OF this], of "\<lambda>_. []"] show ?thesis
    by (simp add: blocking_policy_def default_site_policy_def)
qed

section \<open>Rules for headers\<close>

text \<open>What a policy says of a header: nothing, remove it, or set it to a value.\<close>

definition rule_for :: "header_policy \<Rightarrow> string \<Rightarrow> string option option" where
  "rule_for p n = (if n \<in> set (hp_remove p) then Some None else map_option Some (map_of (hp_set p) n))"

definition consistent_rules :: "header_policy \<Rightarrow> bool" where
  "consistent_rules p \<longleftrightarrow> distinct (map fst (hp_set p)) \<and> set (hp_remove p) \<inter> fst ` set (hp_set p) = {}"

lemma consistent_rules_ok: "header_policy_ok d p \<Longrightarrow> consistent_rules p"
  by (simp add: header_policy_ok_def consistent_rules_def)

lemma header_om: "header n hs = om_get hs n"
  by (simp add: header_def om_get_def)

lemma om_get_Nil: "om_get [] n = None"
  by (simp add: om_get_def)

lemma get_fold_set:
  "distinct (map fst xs) \<Longrightarrow> om_get (fold (\<lambda>(n, v). om_set n (f v)) xs m) k =
     (case map_of xs k of None \<Rightarrow> om_get m k | Some v \<Rightarrow> Some (f v))"
proof (induction xs arbitrary: m)
  case (Cons x xs)
  obtain a v where x: "x = (a, v)" by fastforce
  have "map_of xs a = None" using Cons.prems x by (simp add: map_of_eq_None_iff)
  then show ?case using Cons x by (auto simp: om_get_set split: option.split)
qed simp

lemma get_fold_const: "om_get (fold (\<lambda>n. om_set n c) ns m) k = (if k \<in> set ns then Some c else om_get m k)"
  by (induction ns arbitrary: m) (auto simp: om_get_set)

lemma get_fold_delete: "om_get (fold delete_header ns m) k = (if k \<in> set ns then None else om_get m k)"
  by (induction ns arbitrary: m) (auto simp: delete_header_def om_get_delete)

lemma set_header_om: "set_header = om_set"
  by (intro ext) (simp add: set_header_def)

lemma apply_rules:
  assumes "consistent_rules p"
  shows "header n (apply_header_policy p hs) = (case rule_for p n of None \<Rightarrow> header n hs | Some r \<Rightarrow> r)"
proof -
  have "header n (apply_header_policy p hs) =
      (case map_of (hp_set p) n of None \<Rightarrow> if n \<in> set (hp_remove p) then None else header n hs | Some v \<Rightarrow> Some v)"
    using assms get_fold_set [of "hp_set p" "\<lambda>v. v" "fold delete_header (hp_remove p) hs" n]
    by (simp add: apply_header_policy_def set_header_om header_om consistent_rules_def get_fold_delete split: option.split)
  moreover have "map_of (hp_set p) n = None" if "n \<in> set (hp_remove p)"
    using that assms by (auto simp: consistent_rules_def map_of_eq_None_iff)
  ultimately show ?thesis by (auto simp: rule_for_def split: option.splits)
qed

definition merged_rules :: "header_policy \<Rightarrow> header_policy \<Rightarrow> (string, string option) omap" where
  "merged_rules site route =
     fold (\<lambda>n. om_set n None) (hp_remove route) (fold (\<lambda>(n, v). om_set n (Some v)) (hp_set route)
       (fold (\<lambda>n. om_set n None) (hp_remove site) (fold (\<lambda>(n, v). om_set n (Some v)) (hp_set site) [])))"

lemma om_inv_fold_set: "om_inv m \<Longrightarrow> om_inv (fold (\<lambda>(n, v). om_set n (f v)) xs m)"
  by (induction xs arbitrary: m) (auto simp: om_inv_set)

lemma om_inv_fold_const: "om_inv m \<Longrightarrow> om_inv (fold (\<lambda>n. om_set n c) ns m)"
  by (induction ns arbitrary: m) (auto simp: om_inv_set)

lemma om_inv_merged: "om_inv (merged_rules site route)"
  unfolding merged_rules_def by (intro om_inv_fold_set om_inv_fold_const) (simp add: om_inv_def om_keys_def)

lemma get_merged:
  assumes "consistent_rules site" and "consistent_rules route"
  shows "om_get (merged_rules site route) n = (case rule_for route n of None \<Rightarrow> rule_for site n | Some r \<Rightarrow> Some r)"
proof -
  have "om_get (merged_rules site route) n =
      (if n \<in> set (hp_remove route) then Some None
       else case map_of (hp_set route) n of
         Some v \<Rightarrow> Some (Some v)
       | None \<Rightarrow> if n \<in> set (hp_remove site) then Some None else map_option Some (map_of (hp_set site) n))"
    using assms by (simp add: merged_rules_def get_fold_set get_fold_const consistent_rules_def om_get_Nil split: option.split)
  then show ?thesis by (simp add: rule_for_def split: option.split)
qed

lemma in_set_rules: "(n, v) \<in> set (set_rules ops) \<longleftrightarrow> (n, Some v) \<in> set ops"
  by (induction ops rule: set_rules.induct) auto

lemma in_remove_rules: "n \<in> set (remove_rules ops) \<longleftrightarrow> (n, None) \<in> set ops"
  by (induction ops rule: remove_rules.induct) auto

lemma split_rules:
  "om_inv ops \<Longrightarrow> consistent_rules \<lparr>hp_set = set_rules ops, hp_remove = remove_rules ops\<rparr> \<and>
     rule_for \<lparr>hp_set = set_rules ops, hp_remove = remove_rules ops\<rparr> n = om_get ops n"
proof (induction ops rule: set_rules.induct)
  case (2 m v ops)
  then have "m \<notin> fst ` set ops" and inv: "om_inv ops" by (auto simp: om_inv_def om_keys_def)
  then have "m \<notin> fst ` set (set_rules ops)" and "m \<notin> set (remove_rules ops)"
    by (force simp: in_set_rules in_remove_rules)+
  then show ?case using "2.IH" [OF inv] by (auto simp: consistent_rules_def rule_for_def om_get_def)
next
  case (3 m ops)
  then have "m \<notin> fst ` set ops" and inv: "om_inv ops" by (auto simp: om_inv_def om_keys_def)
  then have "m \<notin> fst ` set (set_rules ops)" by (force simp: in_set_rules)
  then show ?case using "3.IH" [OF inv] by (auto simp: consistent_rules_def rule_for_def om_get_def)
qed (simp add: consistent_rules_def rule_for_def om_get_def)

lemma merge_rules:
  assumes "consistent_rules site" and "consistent_rules route"
  shows "consistent_rules (merge_header_policies site route)" and
    "rule_for (merge_header_policies site route) n = (case rule_for route n of None \<Rightarrow> rule_for site n | Some r \<Rightarrow> Some r)"
  using split_rules [OF om_inv_merged [of site route], of n] get_merged [OF assms, of n]
  by (simp_all add: merge_header_policies_def Let_def flip: merged_rules_def)


lemma rule_for_owned:
  assumes "header_policy_ok RequestHeader p" and "request_header_owned n"
  shows "rule_for p n = None"
proof -
  have "n \<notin> set (hp_remove p)" and "n \<notin> fst ` set (hp_set p)"
    using assms by (auto simp: header_policy_ok_def header_owned_def)
  then show ?thesis by (simp add: rule_for_def map_of_eq_None_iff)
qed

lemma rule_for_set_owned:
  assumes "header_policy_ok ResponseHeader p" and "response_header_owned n"
  shows "rule_for p n = None \<or> rule_for p n = Some None"
proof -
  have "n \<notin> fst ` set (hp_set p)" using assms by (auto simp: header_policy_ok_def header_owned_def)
  then show ?thesis by (simp add: rule_for_def map_of_eq_None_iff)
qed

text \<open>The parts of a stored policy that do not depend on the ceilings.\<close>

lemma default_header_policy_ok: "header_policy_ok d empty_header_policy"
  by (simp add: header_policy_ok_def empty_header_policy_def name_list_ok_def)

lemma stored_site_headers_ok:
  "header_policy_ok RequestHeader (sh_request_headers (stored_site_policy nt cf stored)) \<and>
   header_policy_ok ResponseHeader (sh_response_headers (stored_site_policy nt cf stored))"
proof (cases "parse_site_policy nt cf (Some (input_object stored))")
  case (Inl e)
  then show ?thesis by (simp add: stored_site_policy_def default_site_policy_def default_header_policy_ok)
next
  case (Inr p)
  then show ?thesis using parse_site_policy_valid [OF Inr] by (simp add: stored_site_policy_def site_policy_ok_def)
qed

lemma stored_route_headers_ok:
  "header_policy_ok RequestHeader (rh_request_headers (stored_route_policy nt cf stored)) \<and>
   header_policy_ok ResponseHeader (rh_response_headers (stored_route_policy nt cf stored))"
proof (cases "parse_route_policy nt cf (Some (input_object stored))")
  case (Inl e)
  then show ?thesis by (simp add: stored_route_policy_def default_route_policy_def default_header_policy_ok)
next
  case (Inr p)
  then show ?thesis using parse_route_policy_valid [OF Inr] by (simp add: stored_route_policy_def route_policy_ok_def)
qed

text \<open>
  What the header rules of a site and a route do to a request and to a response. A rule of the route
  decides before a rule of the site, and a header without a rule keeps its value. Whatever is stored, no rule
  ever touches a request header that the proxy owns (host, framing and forwarding headers, identity headers),
  and none gives a value to a response header that the proxy owns.
\<close>

theorem header_rules_applied:
  fixes nt cf stored route_stored site_id rid n hs
  defines "site \<equiv> stored_site_policy nt cf stored"
    and "route \<equiv> stored_route_policy nt cf route_stored"
    and "p \<equiv> resolve_http_policy nt cf site_id stored (Some (rid, route_stored))"
  shows "header n (apply_header_policy (ph_request_headers p) hs) =
      (case rule_for (rh_request_headers route) n of
         Some r \<Rightarrow> r
       | None \<Rightarrow> (case rule_for (sh_request_headers site) n of Some r \<Rightarrow> r | None \<Rightarrow> header n hs)) \<and>
    (request_header_owned n \<longrightarrow> header n (apply_header_policy (ph_request_headers p) hs) = header n hs) \<and>
    (response_header_owned n \<longrightarrow> header n (apply_header_policy (ph_response_headers p) hs) \<in> {None, header n hs})"
proof -
  note site = stored_site_headers_ok [of nt cf stored, folded site_def]
  note route = stored_route_headers_ok [of nt cf route_stored, folded route_def]
  have rq: "ph_request_headers p = merge_header_policies (sh_request_headers site) (rh_request_headers route)"
    and rs: "ph_response_headers p = merge_header_policies (sh_response_headers site) (rh_response_headers route)"
    by (simp_all add: p_def resolve_http_policy_def Let_def site_def route_def)
  note c = consistent_rules_ok [OF conjunct1 [OF site]] consistent_rules_ok [OF conjunct1 [OF route]]
  note c' = consistent_rules_ok [OF conjunct2 [OF site]] consistent_rules_ok [OF conjunct2 [OF route]]
  have a: "header n (apply_header_policy (ph_request_headers p) hs) =
      (case rule_for (rh_request_headers route) n of
         Some r \<Rightarrow> r
       | None \<Rightarrow> (case rule_for (sh_request_headers site) n of Some r \<Rightarrow> r | None \<Rightarrow> header n hs))"
    unfolding rq apply_rules [OF merge_rules(1) [OF c]] merge_rules(2) [OF c] by (simp split: option.split)
  moreover have "header n (apply_header_policy (ph_request_headers p) hs) = header n hs" if "request_header_owned n"
    using a that rule_for_owned site route by simp
  moreover have "header n (apply_header_policy (ph_response_headers p) hs) \<in> {None, header n hs}" if "response_header_owned n"
    unfolding rs apply_rules [OF merge_rules(1) [OF c']] merge_rules(2) [OF c']
    using rule_for_set_owned [OF conjunct2 [OF site] that] rule_for_set_owned [OF conjunct2 [OF route] that]
    by (auto split: option.split)
  ultimately show ?thesis by blast
qed

text \<open>A site that forwards a debug header and a route that drops it again.\<close>

definition debug_site :: site_http_policy where
  "debug_site = (default_site_policy usual_config)\<lparr>sh_request_headers := \<lparr>hp_set = [(''x-debug'', ''1'')], hp_remove = []\<rparr>\<rparr>"

definition quiet_route :: route_http_policy where
  "quiet_route = default_route_policy\<lparr>rh_request_headers := \<lparr>hp_set = [], hp_remove = [''x-debug'']\<rparr>\<rparr>"

lemma default_route_policy_ok: "route_policy_ok cf default_route_policy"
  by (simp add: route_policy_ok_def default_route_policy_def default_header_policy_ok limits_ok_def cache_rule_ok_def
      ban_durations_ok_def bandwidth_ok_def body_capture_ok_def header_capture_ok_def cors_ok_def Let_def)

lemma debug_names: "header_name_ok ''x-debug''" "\<not> request_header_owned ''x-debug''" "header_value_ok ''1''"
  by code_simp+

lemma debug_site_ok: "site_policy_ok usual_config debug_site"
  using default_site_policy_ok [OF usual_config_ok] debug_names
  by (auto simp: debug_site_def site_policy_ok_def header_policy_ok_def header_owned_def)

lemma quiet_route_ok: "route_policy_ok usual_config quiet_route"
  using default_route_policy_ok [of usual_config] debug_names
  by (auto simp: quiet_route_def route_policy_ok_def header_policy_ok_def header_owned_def name_list_ok_def)

theorem header_rules_applied_witness:
  "header ''x-debug'' (apply_header_policy (ph_request_headers (resolve_http_policy (\<lambda>_. []) usual_config ''s''
     (Some (site_policy_json debug_site)) (Some (''r'', Some (route_policy_json quiet_route))))) [(''x-debug'', ''0'')]) = None \<and>
   header ''host'' (apply_header_policy (ph_request_headers (resolve_http_policy (\<lambda>_. []) usual_config ''s''
     (Some (site_policy_json debug_site)) (Some (''r'', Some (route_policy_json quiet_route))))) [(''host'', ''h'')]) = Some ''h''"
proof -
  have s: "stored_site_policy (\<lambda>_. []) usual_config (Some (site_policy_json debug_site)) = debug_site"
    using site_policy_reads_back [OF usual_config_ok(1) debug_site_ok] by (simp add: stored_site_policy_def)
  have r: "stored_route_policy (\<lambda>_. []) usual_config (Some (route_policy_json quiet_route)) = quiet_route"
    using route_policy_reads_back [OF usual_config_ok(1) quiet_route_ok] by (simp add: stored_route_policy_def)
  have "rule_for (rh_request_headers quiet_route) ''x-debug'' = Some None" by code_simp
  moreover have "request_header_owned ''host''" by code_simp
  ultimately show ?thesis
    using conjunct1 [OF header_rules_applied [where nt = "\<lambda>_. []" and cf = usual_config and site_id = "''s''" and rid = "''r''" and
          stored = "Some (site_policy_json debug_site)" and route_stored = "Some (route_policy_json quiet_route)" and
          n = "''x-debug''" and hs = "[(''x-debug'', ''0'')]"]]
      conjunct1 [OF conjunct2 [OF header_rules_applied [where nt = "\<lambda>_. []" and cf = usual_config and site_id = "''s''" and rid = "''r''" and
          stored = "Some (site_policy_json debug_site)" and route_stored = "Some (route_policy_json quiet_route)" and
          n = "''host''" and hs = "[(''host'', ''h'')]"]]]
    unfolding s r by (simp only: option.case) (simp add: header_def)
qed

section \<open>Cross-origin answers\<close>

lemma header_set_header: "header n (set_header m v hs) = (if n = m then Some v else header n hs)"
  by (simp add: header_om set_header_om om_get_set)

lemma header_vary_origin: "n \<noteq> ''vary'' \<Longrightarrow> header n (vary_origin hs) = header n hs"
  by (simp add: vary_origin_def header_set_header Let_def)

lemma cors_header_values:
  assumes "co_mode p = ModeEnabled" and "header ''origin'' (rq_headers r) = Some (c # cs)"
    and "cors_origin_allowed (c # cs) p"
  shows "header ''access-control-allow-origin'' (apply_cors_response_headers r p hs) =
      Some (if ''*'' \<in> set (co_allowed_origins p) \<and> \<not> co_allow_credentials p then ''*'' else c # cs) \<and>
    header ''access-control-allow-credentials'' (apply_cors_response_headers r p hs) =
      (if co_allow_credentials p then Some ''true'' else header ''access-control-allow-credentials'' hs)"
  using assms by (simp add: apply_cors_response_headers_def Let_def text_or_empty_def header_set_header header_vary_origin)

text \<open>
  A cross-origin answer grants no more than the policy. For a response that carries no such headers yet,
  the header that admits an origin appears only when the policy is enabled and lists the origin of the
  request or the wildcard; its value is the wildcard only without credentials, and otherwise the
  origin of the request itself; and credentials are admitted only where the policy allows them.
\<close>

theorem cors_grants_only_policy:
  assumes "header ''access-control-allow-origin'' hs = None" and "header ''access-control-allow-credentials'' hs = None"
    and "header ''access-control-allow-origin'' (apply_cors_response_headers r p hs) = Some v"
  shows "co_mode p = ModeEnabled \<and>
    (\<exists>o'. header ''origin'' (rq_headers r) = Some o' \<and> o' \<noteq> [] \<and> (''*'' \<in> set (co_allowed_origins p) \<or> o' \<in> set (co_allowed_origins p)) \<and>
       (v = o' \<or> v = ''*'' \<and> ''*'' \<in> set (co_allowed_origins p) \<and> \<not> co_allow_credentials p)) \<and>
    (header ''access-control-allow-credentials'' (apply_cors_response_headers r p hs) \<noteq> None \<longleftrightarrow> co_allow_credentials p)"
proof -
  obtain c cs where o: "header ''origin'' (rq_headers r) = Some (c # cs)" and e: "co_mode p = ModeEnabled"
    and a: "cors_origin_allowed (c # cs) p"
    using assms(1,3) by (auto simp: apply_cors_response_headers_def Let_def text_or_empty_def neq_Nil_conv split: if_splits option.splits)
  show ?thesis using cors_header_values [OF e o a, of hs] assms o e a by (auto simp: cors_origin_allowed_def split: if_splits)
qed

definition app_request :: request where
  "app_request = \<lparr>rq_method = ''GET'', rq_pathname = ''/'', rq_search = [], rq_headers = [(''origin'', ''https://evil.example'')]\<rparr>"

definition wildcard_site :: site_http_policy where
  "wildcard_site = (default_site_policy usual_config)\<lparr>sh_cors := (sh_cors (default_site_policy usual_config))
     \<lparr>co_mode := ModeEnabled, co_allowed_origins := [''*'']\<rparr>\<rparr>"

definition credentials_route :: route_http_policy where
  "credentials_route = default_route_policy\<lparr>rh_cors := (rh_cors default_route_policy)\<lparr>co_allow_credentials := Some True\<rparr>\<rparr>"

theorem cors_grants_only_policy_witness:
  "header ''access-control-allow-origin'' (apply_cors_response_headers app_request (sh_cors wildcard_site) []) = Some ''*'' \<and>
   header ''access-control-allow-credentials'' (apply_cors_response_headers app_request (sh_cors wildcard_site) []) = None"
proof -
  have a: "header ''access-control-allow-origin'' (apply_cors_response_headers app_request (sh_cors wildcard_site) []) = Some ''*''"
    by (simp add: apply_cors_response_headers_def app_request_def wildcard_site_def header_def text_or_empty_def cors_origin_allowed_def
        default_site_policy_def set_header_def)
  have "\<not> co_allow_credentials (sh_cors wildcard_site)" by (simp add: wildcard_site_def default_site_policy_def)
  then show ?thesis using a cors_grants_only_policy [OF _ _ a] by (simp add: header_def)
qed

text \<open>
  C26: the rule that forbids credentials together with the wildcard is checked for the site and for the route alone,
  and the merge can break it. A site that admits every origin without credentials, and a route that only turns
  credentials on, are both accepted; on that route every origin is then answered by its own name and with
  credentials, so a page of any origin can read responses made with the cookies of the visitor.
\<close>

theorem merged_cors_admits_any_origin_with_credentials:
  fixes nt cf site_id rid
  assumes "site_stored = Some (site_policy_json s)" and "route_stored = Some (route_policy_json t)"
    and "config_ok cf" and "site_policy_ok cf s" and "route_policy_ok cf t"
    and "co_mode (sh_cors s) = ModeEnabled" and "co_allowed_origins (sh_cors s) = [''*'']"
    and "co_mode (rh_cors t) = ModeInherit" and "co_allowed_origins (rh_cors t) = None" and "co_allow_credentials (rh_cors t) = Some True"
    and "header ''origin'' (rq_headers r) = Some (c # cs)"
  defines "p \<equiv> ph_cors (resolve_http_policy nt cf site_id site_stored (Some (rid, route_stored)))"
  shows "header ''access-control-allow-origin'' (apply_cors_response_headers r p hs) = Some (c # cs) \<and>
    header ''access-control-allow-credentials'' (apply_cors_response_headers r p hs) = Some ''true''"
proof -
  have s: "stored_site_policy nt cf site_stored = s" and t: "stored_route_policy nt cf route_stored = t"
    using site_policy_reads_back route_policy_reads_back assms(1-5) by (simp_all add: stored_site_policy_def stored_route_policy_def)
  have "co_mode p = ModeEnabled" "co_allowed_origins p = [''*'']" "co_allow_credentials p"
    using assms(6-10) by (simp_all add: p_def resolve_http_policy_def Let_def s t inherit_mode_def or_else_def)
  then show ?thesis using cors_header_values [of p r c cs hs] assms(11) by (simp add: cors_origin_allowed_def)
qed

lemma wildcard_site_ok: "site_policy_ok usual_config wildcard_site"
  using default_site_policy_ok [OF usual_config_ok]
  by (auto simp: wildcard_site_def site_policy_ok_def default_site_policy_def cors_ok_def origins_ok_def name_list_ok_def cors_origin_ok_def)

lemma credentials_route_ok: "route_policy_ok usual_config credentials_route"
  using default_route_policy_ok [of usual_config]
  by (simp add: credentials_route_def route_policy_ok_def default_route_policy_def cors_ok_def)

theorem merged_cors_admits_any_origin_with_credentials_witness:
  "let p = ph_cors (resolve_http_policy (\<lambda>_. []) usual_config ''s'' (Some (site_policy_json wildcard_site))
       (Some (''r'', Some (route_policy_json credentials_route)))) in
   header ''access-control-allow-origin'' (apply_cors_response_headers app_request p []) = Some ''https://evil.example'' \<and>
   header ''access-control-allow-credentials'' (apply_cors_response_headers app_request p []) = Some ''true''"
  unfolding Let_def
  by (rule merged_cors_admits_any_origin_with_credentials [OF refl refl usual_config_ok(1) wildcard_site_ok credentials_route_ok])
    (simp_all add: wildcard_site_def default_site_policy_def credentials_route_def default_route_policy_def app_request_def header_def)

section \<open>The policy of a request is well-typed\<close>

text \<open>A site without inherited modes, with every number inside its bounds.\<close>

text \<open>
  The rules for headers of a site and a route are merged into one map, and the two lists of excluded rules into one
  set: each of them is at most as long as both together.
\<close>

definition merged_headers_ok :: "header_direction \<Rightarrow> header_policy \<Rightarrow> bool" where
  "merged_headers_ok d p \<longleftrightarrow>
     distinct (map fst (hp_set p)) \<and> distinct (hp_remove p) \<and> set (hp_remove p) \<inter> fst ` set (hp_set p) = {} \<and>
     length (hp_set p) + length (hp_remove p) \<le> 256 \<and>
     (\<forall>(n, v) \<in> set (hp_set p). header_name_ok n \<and> \<not> header_owned d n \<and> header_value_ok v) \<and>
     (\<forall>n \<in> set (hp_remove p). header_name_ok n \<and> (d = RequestHeader \<longrightarrow> \<not> header_owned d n))"

definition resolved_policy_ok :: "http_config \<Rightarrow> resolved_http_policy \<Rightarrow> bool" where
  "resolved_policy_ok cf p \<longleftrightarrow>
     merged_headers_ok RequestHeader (ph_request_headers p) \<and> merged_headers_ok ResponseHeader (ph_response_headers p) \<and>
     limits_ok always (ph_limits p) \<and> name_list_ok 32 blocked_name_ok (ph_blocked_multipart_fields p) \<and>
     cc_mode (ph_cache p) \<noteq> ModeInherit \<and> cache_rule_ok cf always always (ph_cache p) \<and>
     sp_mode (ph_protection p) \<noteq> ProtInherit \<and> ruleset_id_ok (sp_ruleset_id (ph_protection p)) \<and>
     name_list_ok 512 rule_id_ok (sp_excluded_rule_ids (ph_protection p)) \<and>
     ban_durations_ok always (ph_ban_durations p) \<and> bandwidth_ok always (ph_bandwidth_limit p) \<and>
     bc_mode (ph_body_capture p) \<noteq> ModeInherit \<and> body_capture_ok cf always always (ph_body_capture p) \<and>
     hcap_mode (ph_header_capture p) \<noteq> ModeInherit \<and> header_capture_ok always (ph_header_capture p) \<and>
     co_mode (ph_cors p) \<noteq> ModeInherit \<and> cors_ok always always (ph_cors p) \<and> hsts_ok (ph_hsts p)"

definition rule_entry_ok :: "header_direction \<Rightarrow> string \<times> string option \<Rightarrow> bool" where
  "rule_entry_ok d e \<longleftrightarrow> (case e of
     (n, Some v) \<Rightarrow> header_name_ok n \<and> \<not> header_owned d n \<and> header_value_ok v
   | (n, None) \<Rightarrow> header_name_ok n \<and> (d = RequestHeader \<longrightarrow> \<not> header_owned d n))"

lemma om_set_entry: "list_all P m \<Longrightarrow> P (k, v) \<Longrightarrow> list_all P (om_set k v m) \<and> length (om_set k v m) \<le> Suc (length m)"
  by (induction k v m rule: om_set.induct) auto

lemma fold_set_entries:
  "list_all P m \<Longrightarrow> \<forall>(n, v) \<in> set xs. P (n, Some v) \<Longrightarrow>
     list_all P (fold (\<lambda>(n, v). om_set n (Some v)) xs m) \<and> length (fold (\<lambda>(n, v). om_set n (Some v)) xs m) \<le> length m + length xs"
proof (induction xs arbitrary: m)
  case (Cons x xs)
  obtain n v where x: "x = (n, v)" by fastforce
  have m: "list_all P (om_set n (Some v) m)" "length (om_set n (Some v) m) \<le> Suc (length m)"
    using om_set_entry [of P m n "Some v"] Cons.prems x by auto
  have "\<forall>(n, v) \<in> set xs. P (n, Some v)" using Cons.prems(2) by simp
  from Cons.IH [OF m(1) this] m(2) show ?case by (simp add: x)
qed simp

lemma fold_remove_entries:
  "list_all P m \<Longrightarrow> \<forall>n \<in> set ns. P (n, None) \<Longrightarrow>
     list_all P (fold (\<lambda>n. om_set n None) ns m) \<and> length (fold (\<lambda>n. om_set n None) ns m) \<le> length m + length ns"
proof (induction ns arbitrary: m)
  case (Cons n ns)
  have m: "list_all P (om_set n None m)" "length (om_set n None m) \<le> Suc (length m)"
    using om_set_entry [of P m n None] Cons.prems by auto
  have "\<forall>n \<in> set ns. P (n, None)" using Cons.prems(2) by simp
  from Cons.IH [OF m(1) this] m(2) show ?case by simp
qed simp

lemma merged_entries:
  assumes "header_policy_ok d site" and "header_policy_ok d route"
  shows "list_all (rule_entry_ok d) (merged_rules site route) \<and> length (merged_rules site route) \<le> 256"
proof -
  have bound: "length (hp_set p) \<le> 64" "length (hp_remove p) \<le> 64" "\<forall>(n, v) \<in> set (hp_set p). rule_entry_ok d (n, Some v)"
    "\<forall>n \<in> set (hp_remove p). rule_entry_ok d (n, None)" if "header_policy_ok d p" for p
    using that by (auto simp: header_policy_ok_def name_list_ok_def rule_entry_ok_def)
  define m1 where "m1 = fold (\<lambda>(n, v). om_set n (Some v)) (hp_set site) []"
  define m2 where "m2 = fold (\<lambda>n. om_set n None) (hp_remove site) m1"
  define m3 where "m3 = fold (\<lambda>(n, v). om_set n (Some v)) (hp_set route) m2"
  note b = bound [OF assms(1)] bound [OF assms(2)]
  have 1: "list_all (rule_entry_ok d) m1" "length m1 \<le> 64"
    using fold_set_entries [of "rule_entry_ok d" "[]" "hp_set site"] b unfolding m1_def by auto
  have 2: "list_all (rule_entry_ok d) m2" "length m2 \<le> 128"
    using fold_remove_entries [OF 1(1), of "hp_remove site"] 1(2) b unfolding m2_def by auto
  have 3: "list_all (rule_entry_ok d) m3" "length m3 \<le> 192"
    using fold_set_entries [OF 2(1), of "hp_set route"] 2(2) b unfolding m3_def by auto
  show ?thesis
    using fold_remove_entries [OF 3(1), of "hp_remove route"] 3(2) b unfolding merged_rules_def m3_def m2_def m1_def by auto
qed

lemma split_length: "length (set_rules ops) + length (remove_rules ops) = length ops"
  by (induction ops rule: set_rules.induct) auto

lemma distinct_remove_rules: "om_inv ops \<Longrightarrow> distinct (remove_rules ops)"
  by (induction ops rule: remove_rules.induct) (auto simp: om_inv_def om_keys_def in_remove_rules image_iff)

lemma merged_headers:
  assumes "header_policy_ok d site" and "header_policy_ok d route"
  shows "merged_headers_ok d (merge_header_policies site route)"
proof -
  let ?m = "merged_rules site route"
  have eq: "merge_header_policies site route = \<lparr>hp_set = set_rules ?m, hp_remove = remove_rules ?m\<rparr>"
    by (simp add: merge_header_policies_def Let_def flip: merged_rules_def)
  have inv: "om_inv ?m" by (rule om_inv_merged)
  note e = merged_entries [OF assms]
  have "rule_entry_ok d (n, Some v)" if "(n, v) \<in> set (set_rules ?m)" for n v using that e by (auto simp: in_set_rules list_all_iff)
  moreover have "rule_entry_ok d (n, None)" if "n \<in> set (remove_rules ?m)" for n using that e by (auto simp: in_remove_rules list_all_iff)
  ultimately show ?thesis using split_rules [OF inv] distinct_remove_rules [OF inv] split_length [of ?m] e
    unfolding eq merged_headers_ok_def by (auto simp: consistent_rules_def rule_entry_ok_def)
qed

lemma unique_length: "length (unique xs) \<le> length xs"
  by (induction xs rule: rev_induct) (auto simp: unique_def)

lemma or_else_ok: "pred_option P v \<Longrightarrow> P d \<Longrightarrow> P (or_else v d)"
  by (cases v) (simp_all add: or_else_def)

lemma or_else_between:
  "pred_option (\<lambda>i. lo \<le> i \<and> i \<le> hi) v \<Longrightarrow> lo \<le> d \<Longrightarrow> lo \<le> or_else v (d::int)"
  "pred_option (\<lambda>i. lo \<le> i \<and> i \<le> hi) v \<Longrightarrow> d \<le> hi \<Longrightarrow> or_else v (d::int) \<le> hi"
  by (cases v; simp add: or_else_def)+

lemma inherit_mode_ok: "site \<noteq> ModeInherit \<Longrightarrow> inherit_mode route site \<noteq> ModeInherit"
  by (simp add: inherit_mode_def)

lemma expires_merge_ok: "expires_ok a \<Longrightarrow> expires_ok b \<Longrightarrow> expires_ok (case a of None \<Rightarrow> b | Some e \<Rightarrow> Some e)"
  by (cases a) (simp_all add: expires_ok_def)

text \<open>The default sizes for captured bodies may exceed a small ceiling; \<open>raised\<close> is the configuration they fit.\<close>

definition raised :: "http_config \<Rightarrow> http_config" where
  "raised cf = cf\<lparr>hc_body_capture_ceiling := max 4096 (hc_body_capture_ceiling cf)\<rparr>"

lemma raised_ok: "config_ok cf \<Longrightarrow> config_ok (raised cf) \<and> 4096 \<le> hc_body_capture_ceiling (raised cf)"
  by (auto simp: config_ok_def raised_def static_cache_object_ceiling_def)

lemma default_raised: "default_site_policy (raised cf) = default_site_policy cf"
  by (simp add: default_site_policy_def raised_def static_cache_object_ceiling_def)

lemma site_policy_ok_raised: "site_policy_ok cf p \<Longrightarrow> site_policy_ok (raised cf) p"
  by (auto simp: site_policy_ok_def cache_rule_ok_def body_capture_ok_def raised_def static_cache_object_ceiling_def)

lemma stored_site_ok: "config_ok cf \<Longrightarrow> site_policy_ok (raised cf) (stored_site_policy nt cf stored)"
  using parse_site_policy_valid site_policy_ok_raised default_site_policy_ok raised_ok default_raised
  by (metis stored_site_policy_def sum.case_eq_if sum.collapse(2))

lemma stored_route_ok: "route_policy_ok cf (stored_route_policy nt cf stored)"
  using parse_route_policy_valid default_route_policy_ok by (auto simp: stored_route_policy_def split: sum.splits)


lemma resolve_limits_ok: "limits_ok always s \<Longrightarrow> limits_ok pred_option r \<Longrightarrow> limits_ok always (resolve_limits s r)"
  unfolding limits_ok_def resolve_limits_def by (simp, elim conjE, intro conjI) (blast intro: or_else_between)+

text \<open>The merge of each part keeps its bounds.\<close>

lemma cache_merge_ok:
  assumes "cache_rule_ok cf always always s" and "cache_rule_ok cf pred_option pred_option r" and "1024 \<le> static_cache_object_ceiling cf"
  shows "cache_rule_ok cf always always \<lparr>cc_mode = m, cc_ttl_seconds = or_else (cc_ttl_seconds r) (cc_ttl_seconds s),
    cc_max_object_bytes = min (or_else (cc_max_object_bytes r) (cc_max_object_bytes s)) (static_cache_object_ceiling cf),
    cc_extensions = or_else (cc_extensions r) (cc_extensions s)\<rparr>"
proof -
  note b = assms [unfolded cache_rule_ok_def]
  show ?thesis unfolding cache_rule_ok_def
    using b or_else_between [of 1 604800 "cc_ttl_seconds r"] or_else_between [of 1024 "static_cache_object_ceiling cf" "cc_max_object_bytes r"]
      or_else_ok [of "\<lambda>xs. xs \<noteq> [] \<and> name_list_ok 64 extension_ok xs" "cc_extensions r" "cc_extensions s"]
    by simp
qed

lemma ban_durations_merge_ok:
  assumes "ban_durations_ok always s" and "ban_durations_ok pred_option r"
  shows "ban_durations_ok always \<lparr>bd_low = or_else (bd_low r) (bd_low s), bd_medium = or_else (bd_medium r) (bd_medium s),
    bd_high = or_else (bd_high r) (bd_high s), bd_critical = or_else (bd_critical r) (bd_critical s)\<rparr>"
  using assms or_else_between [of 0 max_ban_duration_seconds] by (simp add: ban_durations_ok_def Let_def)

lemma bandwidth_merge_ok:
  assumes "bandwidth_ok always s" and "bandwidth_ok pred_option r"
  shows "bandwidth_ok always \<lparr>bw_enabled = e, bw_max_bytes = or_else (bw_max_bytes r) (bw_max_bytes s),
    bw_window_seconds = or_else (bw_window_seconds r) (bw_window_seconds s),
    bw_ban_seconds = or_else (bw_ban_seconds r) (bw_ban_seconds s)\<rparr>"
  using assms or_else_between [of 0 max_ban_duration_seconds] or_else_between [of 1 max_bandwidth_limit_bytes]
    or_else_between [of 1 max_bandwidth_limit_window_seconds]
  by (simp add: bandwidth_ok_def)

lemma body_capture_merge_ok:
  assumes "body_capture_ok cf' always always s" and "body_capture_ok cf pred_option pred_option r" and "0 \<le> hc_body_capture_ceiling cf"
  shows "body_capture_ok cf always always \<lparr>bc_mode = m,
    bc_max_request_bytes = min (or_else (bc_max_request_bytes r) (bc_max_request_bytes s)) (hc_body_capture_ceiling cf),
    bc_max_response_bytes = min (or_else (bc_max_response_bytes r) (bc_max_response_bytes s)) (hc_body_capture_ceiling cf),
    bc_expires_at = (case bc_expires_at r of None \<Rightarrow> bc_expires_at s | Some e \<Rightarrow> Some e),
    bc_content_types = or_else (bc_content_types r) (bc_content_types s)\<rparr>"
proof -
  note b = assms [unfolded body_capture_ok_def]
  show ?thesis unfolding body_capture_ok_def
    using b or_else_between(1) [of 0 "hc_body_capture_ceiling cf"] expires_merge_ok [of "bc_expires_at r" "bc_expires_at s"]
      or_else_ok [of "name_list_ok 32 body_capture_content_type_ok" "bc_content_types r" "bc_content_types s"]
    by simp
qed

lemma cors_merge_ok:
  assumes "cors_ok always always s" and "cors_ok pred_option pred_option r"
  shows "cors_ok always always \<lparr>co_mode = m, co_allowed_origins = or_else (co_allowed_origins r) (co_allowed_origins s),
    co_allowed_methods = or_else (co_allowed_methods r) (co_allowed_methods s),
    co_allowed_headers = or_else (co_allowed_headers r) (co_allowed_headers s),
    co_exposed_headers = or_else (co_exposed_headers r) (co_exposed_headers s), co_allow_credentials = e,
    co_max_age_seconds = or_else (co_max_age_seconds r) (co_max_age_seconds s)\<rparr>"
  using assms or_else_between [of 0 max_cors_max_age_seconds "co_max_age_seconds r"] by (simp add: cors_ok_def or_else_ok)

lemmas merge_ok = cache_merge_ok ban_durations_merge_ok bandwidth_merge_ok body_capture_merge_ok cors_merge_ok resolve_limits_ok

text \<open>
  C24: whatever the columns of the database hold, a request gets a policy in its declared type. The policy that
  results from the stored texts of a site and of the matching route, even when these were written under other
  limits or are not policies at all, inherits nothing any more and keeps every number, list and name within the
  bounds of the instance. A list of the site or of the route keeps its own bound; the lists that are merged of both are
  bounded by the two together, 256 rules for the request headers, 256 for the response headers and 512 excluded rules,
  without repetition and with allowed names and values only.
\<close>

theorem resolved_policy_well_typed:
  assumes "config_ok cf"
  shows "resolved_policy_ok cf (resolve_http_policy nt cf site_id stored route)"
proof -
  define s where "s = stored_site_policy nt cf stored"
  define t where "t = (case route of None \<Rightarrow> default_route_policy | Some (_, j) \<Rightarrow> stored_route_policy nt cf j)"
  have s: "site_policy_ok (raised cf) s" using stored_site_ok [OF assms] s_def by simp
  have t: "route_policy_ok cf t" using stored_route_ok default_route_policy_ok by (auto simp: t_def split: option.split)
  let ?p = "resolve_http_policy nt cf site_id stored route"
  have ceil: "static_cache_object_ceiling (raised cf) = static_cache_object_ceiling cf" "1024 \<le> static_cache_object_ceiling cf"
    "1024 \<le> hc_body_capture_ceiling cf"
    using assms by (simp_all add: raised_def static_cache_object_ceiling_def config_ok_def)
  note ok = s [unfolded site_policy_ok_def] t [unfolded route_policy_ok_def]
  note parts = resolve_http_policy_def Let_def s_def [symmetric] t_def [symmetric]
  have "limits_ok always (ph_limits ?p) \<and> ban_durations_ok always (ph_ban_durations ?p) \<and> bandwidth_ok always (ph_bandwidth_limit ?p)"
    using ok by (simp add: parts merge_ok)
  moreover have "name_list_ok 32 blocked_name_ok (ph_blocked_multipart_fields ?p)" using ok by (simp add: parts or_else_ok)
  moreover have "cache_rule_ok cf always always (sh_cache s)" using ok ceil by (simp add: cache_rule_ok_def)
  then have "cc_mode (ph_cache ?p) \<noteq> ModeInherit \<and> cache_rule_ok cf always always (ph_cache ?p)"
    using ok ceil by (simp add: parts inherit_mode_ok merge_ok flip: static_cache_object_ceiling_def)
  moreover have "sp_mode (ph_protection ?p) \<noteq> ProtInherit \<and> ruleset_id_ok (sp_ruleset_id (ph_protection ?p)) \<and>
      name_list_ok 512 rule_id_ok (sp_excluded_rule_ids (ph_protection ?p))"
    using ok unique_length [of "sp_excluded_rule_ids (sh_protection s) @ rt_excluded_rule_ids (rh_protection t)"]
    by (auto simp: parts name_list_ok_def)
  moreover have "merged_headers_ok RequestHeader (ph_request_headers ?p) \<and> merged_headers_ok ResponseHeader (ph_response_headers ?p)"
    using ok by (simp add: parts merged_headers)
  moreover have "body_capture_ok (raised cf) always always (sh_body_capture s)" and "body_capture_ok cf pred_option pred_option (rh_body_capture t)"
    using ok by simp_all
  then have "bc_mode (ph_body_capture ?p) \<noteq> ModeInherit \<and> body_capture_ok cf always always (ph_body_capture ?p)"
    using ok ceil body_capture_merge_ok [of "raised cf" "sh_body_capture s" cf "rh_body_capture t"] by (simp add: parts inherit_mode_ok)
  moreover have "hcap_mode (ph_header_capture ?p) \<noteq> ModeInherit \<and> header_capture_ok always (ph_header_capture ?p)"
    using ok by (simp add: parts inherit_mode_ok header_capture_ok_def or_else_ok expires_merge_ok)
  moreover have "co_mode (ph_cors ?p) \<noteq> ModeInherit \<and> cors_ok always always (ph_cors ?p)"
    using ok by (simp add: parts inherit_mode_ok merge_ok)
  moreover have "hsts_ok (ph_hsts ?p)" using ok by (simp add: parts)
  ultimately show ?thesis by (simp add: resolved_policy_ok_def)
qed

theorem resolved_policy_well_typed_witness:
  "resolved_policy_ok usual_config (resolve_http_policy (\<lambda>_. []) usual_config ''s''
     (Some (JObject [(''limits'', JObject [(''maxBodyBytes'', JString ''many'')])])) (Some (''r'', Some JNull)))"
  by (rule resolved_policy_well_typed [OF usual_config_ok(1)])

end
