(* ===== verification/Threat_Policy.thy ===== *)
theory Threat_Policy
  imports Json Network_Rules Crowdsec_Store Static_Cache
begin

text \<open>
  What a site or a route does with threat intelligence: CrowdSec decisions
  (\<open>services/crowdsec-policy-service.ts\<close>), crawlers (\<open>services/bot-service.ts\<close>) and anonymising networks
  (\<open>services/network-privacy-service.ts\<close>). A policy column is the JSON value of its text, \<^term>\<open>None\<close> for a
  null column; text that is not JSON behaves like a value that is not an object, such as \<^term>\<open>JNull\<close>. A
  thrown error is \<^term>\<open>Inl\<close> with its message. Downloaded lists are arguments.
\<close>

section \<open>CrowdSec policies\<close>

datatype threat_mode = ThreatDisabled | ThreatMonitor | ThreatBlock

datatype captcha_mode = CaptchaDisabled | CaptchaMonitor | CaptchaChallenge

record crowdsec_policy =
  csp_ban :: threat_mode
  csp_captcha :: captcha_mode
  csp_appsec :: threat_mode

datatype enforcement = EnforceNone | EnforceMonitor | EnforceBlock | EnforceChallenge

record crowdsec_evaluation =
  ce_decision :: "decision option"
  ce_enforcement :: enforcement
  ce_bypassed :: bool

definition default_crowdsec_policy :: crowdsec_policy where
  "default_crowdsec_policy = \<lparr>csp_ban = ThreatMonitor, csp_captcha = CaptchaMonitor, csp_appsec = ThreatDisabled\<rparr>"

definition threat_mode_of :: "string \<Rightarrow> threat_mode option" where
  "threat_mode_of s =
     (if s = ''disabled'' then Some ThreatDisabled
      else if s = ''monitor'' then Some ThreatMonitor
      else if s = ''block'' then Some ThreatBlock else None)"

definition ban_mode :: "(rat \<Rightarrow> string) \<Rightarrow> js_value \<Rightarrow> threat_mode \<Rightarrow> threat_mode checked" where
  "ban_mode nt v fallback =
     (case v of
        None \<Rightarrow> Inr fallback
      | Some x \<Rightarrow> (case threat_mode_of (to_lower (trim (js_string nt x))) of
            Some m \<Rightarrow> Inr m
          | None \<Rightarrow> Inl ''The CrowdSec ban mode must be disabled, monitor, or block''))"

definition captcha_mode_value :: "(rat \<Rightarrow> string) \<Rightarrow> js_value \<Rightarrow> captcha_mode \<Rightarrow> captcha_mode checked" where
  "captcha_mode_value nt v fallback =
     (case v of
        None \<Rightarrow> Inr fallback
      | Some x \<Rightarrow>
          (let normalized = to_lower (trim (js_string nt x)) in
           if normalized = ''disabled'' then Inr CaptchaDisabled
           else if normalized = ''monitor'' then Inr CaptchaMonitor
           else if normalized = ''challenge'' then Inr CaptchaChallenge
           else Inl ''The CrowdSec captcha mode must be disabled, monitor, or challenge''))"

definition parse_crowdsec_policy :: "(rat \<Rightarrow> string) \<Rightarrow> js_value \<Rightarrow> crowdsec_policy \<Rightarrow> crowdsec_policy checked" where
  "parse_crowdsec_policy nt v fallback =
     (case v of
        None \<Rightarrow> Inr fallback
      | Some (JObject fs) \<Rightarrow>
          and_then (ban_mode nt (map_of fs ''ban'') (csp_ban fallback)) (\<lambda>ban.
          and_then (captcha_mode_value nt (map_of fs ''captcha'') (csp_captcha fallback)) (\<lambda>captcha.
          and_then (ban_mode nt (map_of fs ''appsec'') (csp_appsec fallback)) (\<lambda>appsec.
          Inr \<lparr>csp_ban = ban, csp_captcha = captcha, csp_appsec = appsec\<rparr>)))
      | Some _ \<Rightarrow> Inl ''The CrowdSec policy must be an object'')"

definition stored_crowdsec_policy :: "(rat \<Rightarrow> string) \<Rightarrow> json option \<Rightarrow> crowdsec_policy \<Rightarrow> crowdsec_policy" where
  "stored_crowdsec_policy nt stored fallback =
     (case parse_crowdsec_policy nt stored fallback of Inl _ \<Rightarrow> fallback | Inr p \<Rightarrow> p)"

fun threat_mode_json :: "threat_mode \<Rightarrow> json" where
  "threat_mode_json ThreatDisabled = JString ''disabled''"
| "threat_mode_json ThreatMonitor = JString ''monitor''"
| "threat_mode_json ThreatBlock = JString ''block''"

fun captcha_mode_json :: "captcha_mode \<Rightarrow> json" where
  "captcha_mode_json CaptchaDisabled = JString ''disabled''"
| "captcha_mode_json CaptchaMonitor = JString ''monitor''"
| "captcha_mode_json CaptchaChallenge = JString ''challenge''"

definition crowdsec_policy_json :: "crowdsec_policy \<Rightarrow> json" where
  "crowdsec_policy_json p = JObject [(''ban'', threat_mode_json (csp_ban p)), (''captcha'', captcha_mode_json (csp_captcha p)),
     (''appsec'', threat_mode_json (csp_appsec p))]"

definition serialize_crowdsec_policy :: "(rat \<Rightarrow> string) \<Rightarrow> js_value \<Rightarrow> json option \<Rightarrow> json checked" where
  "serialize_crowdsec_policy nt v existing =
     and_then (parse_crowdsec_policy nt v (stored_crowdsec_policy nt existing default_crowdsec_policy)) (\<lambda>p.
     Inr (crowdsec_policy_json p))"

text \<open>A route column: kept when the field is missing, cleared by \<open>null\<close> or the empty string, else parsed afresh.\<close>

definition serialize_route_column :: "(js_value \<Rightarrow> json checked) \<Rightarrow> js_value \<Rightarrow> json option \<Rightarrow> json option checked" where
  "serialize_route_column write v existing =
     (if v = None then Inr existing
      else if is_absent v then Inr None
      else and_then (write v) (\<lambda>j. Inr (Some j)))"

definition serialize_route_crowdsec_policy :: "(rat \<Rightarrow> string) \<Rightarrow> js_value \<Rightarrow> json option \<Rightarrow> json option checked" where
  "serialize_route_crowdsec_policy nt =
     serialize_route_column (\<lambda>v. and_then (parse_crowdsec_policy nt v default_crowdsec_policy) (\<lambda>p. Inr (crowdsec_policy_json p)))"

definition resolved_crowdsec_policy :: "(rat \<Rightarrow> string) \<Rightarrow> json option \<Rightarrow> json option \<Rightarrow> crowdsec_policy" where
  "resolved_crowdsec_policy nt site route =
     stored_crowdsec_policy nt (if route = None then site else route) default_crowdsec_policy"

section \<open>Evaluating a client\<close>

text \<open>
  \<open>crowdSecBlockIsBypassed\<close> and \<open>networkPrivacyBlockIsBypassed\<close> have the same body; a stream rule that
  lets a client through is \<open>allow\<close> as well.
\<close>

definition block_is_bypassed :: "decision_source \<Rightarrow> ip_rule_action option \<Rightarrow> bool" where
  "block_is_bypassed source action \<longleftrightarrow>
     (source = IpRuleSource \<or> source = AsnRuleSource) \<and> (action = Some Allow \<or> action = Some Pass)"

definition stream_block_is_bypassed :: "decision_source \<Rightarrow> stream_rule_action option \<Rightarrow> bool" where
  "stream_block_is_bypassed source action \<longleftrightarrow> (source = IpRuleSource \<or> source = AsnRuleSource) \<and> action = Some SAllow"

definition enforcement_for :: "decision \<Rightarrow> crowdsec_policy \<Rightarrow> enforcement" where
  "enforcement_for d p =
     (if d_remediation d = Ban
      then (if csp_ban p = ThreatBlock then EnforceBlock
            else if csp_ban p = ThreatMonitor then EnforceMonitor else EnforceNone)
      else (if csp_captcha p = CaptchaChallenge then EnforceChallenge
            else if csp_captcha p = CaptchaMonitor then EnforceMonitor else EnforceNone))"

definition no_evaluation :: crowdsec_evaluation where
  "no_evaluation = \<lparr>ce_decision = None, ce_enforcement = EnforceNone, ce_bypassed = False\<rparr>"

text \<open>The lookup drops decisions that have run out, so the store is threaded through.\<close>

definition evaluate_crowdsec ::
  "string \<Rightarrow> string option \<Rightarrow> nat option \<Rightarrow> crowdsec_policy \<Rightarrow> decision_source \<Rightarrow> ip_rule_action option \<Rightarrow> time \<Rightarrow> store \<Rightarrow>
   crowdsec_evaluation \<times> store" where
  "evaluate_crowdsec ip country asn p source action now s =
     (if csp_ban p = ThreatDisabled \<and> csp_captcha p = CaptchaDisabled then (no_evaluation, s)
      else if store_empty s then (no_evaluation, s)
      else case lookup ip country asn now s of
        (None, s') \<Rightarrow> (no_evaluation, s')
      | (Some d, s') \<Rightarrow>
          (let e = enforcement_for d p in
           if (e = EnforceBlock \<or> e = EnforceChallenge) \<and> block_is_bypassed source action
           then (\<lparr>ce_decision = Some d, ce_enforcement = EnforceMonitor, ce_bypassed = True\<rparr>, s')
           else (\<lparr>ce_decision = Some d, ce_enforcement = e, ce_bypassed = False\<rparr>, s')))"

definition crowdsec_source_text :: "string \<Rightarrow> string" where
  "crowdsec_source_text origin =
     (if origin = ''CAPI'' then ''the CrowdSec community blocklist'' else ''CrowdSec ('' @ origin @ '')'')"

definition crowdsec_reason :: "decision \<Rightarrow> string" where
  "crowdsec_reason d = ''This request was blocked by '' @ crowdsec_source_text (d_origin d)
     @ (if d_scenario d = [] then [] else '' for '' @ d_scenario d) @ ''.''"

record stream_crowdsec_policy =
  ssp_ban :: threat_mode
  ssp_captcha :: threat_mode

definition default_stream_crowdsec_policy :: stream_crowdsec_policy where
  "default_stream_crowdsec_policy = \<lparr>ssp_ban = ThreatMonitor, ssp_captcha = ThreatMonitor\<rparr>"

definition parse_stream_crowdsec_policy ::
  "(rat \<Rightarrow> string) \<Rightarrow> js_value \<Rightarrow> stream_crowdsec_policy \<Rightarrow> stream_crowdsec_policy checked" where
  "parse_stream_crowdsec_policy nt v fallback =
     (case v of
        None \<Rightarrow> Inr fallback
      | Some (JObject fs) \<Rightarrow>
          and_then (ban_mode nt (map_of fs ''ban'') (ssp_ban fallback)) (\<lambda>ban.
          and_then (ban_mode nt (map_of fs ''captcha'') (ssp_captcha fallback)) (\<lambda>captcha.
          Inr \<lparr>ssp_ban = ban, ssp_captcha = captcha\<rparr>))
      | Some _ \<Rightarrow> Inl ''The CrowdSec policy must be an object'')"

definition stored_stream_crowdsec_policy ::
  "(rat \<Rightarrow> string) \<Rightarrow> json option \<Rightarrow> stream_crowdsec_policy \<Rightarrow> stream_crowdsec_policy" where
  "stored_stream_crowdsec_policy nt stored fallback =
     (case parse_stream_crowdsec_policy nt stored fallback of Inl _ \<Rightarrow> fallback | Inr p \<Rightarrow> p)"

definition stream_crowdsec_policy_json :: "stream_crowdsec_policy \<Rightarrow> json" where
  "stream_crowdsec_policy_json p = JObject [(''ban'', threat_mode_json (ssp_ban p)), (''captcha'', threat_mode_json (ssp_captcha p))]"

definition serialize_stream_crowdsec_policy :: "(rat \<Rightarrow> string) \<Rightarrow> js_value \<Rightarrow> json option \<Rightarrow> json checked" where
  "serialize_stream_crowdsec_policy nt v existing =
     and_then (parse_stream_crowdsec_policy nt v (stored_stream_crowdsec_policy nt existing default_stream_crowdsec_policy)) (\<lambda>p.
     Inr (stream_crowdsec_policy_json p))"

definition stream_enforcement_for :: "decision \<Rightarrow> stream_crowdsec_policy \<Rightarrow> enforcement" where
  "stream_enforcement_for d p =
     (let m = (if d_remediation d = Ban then ssp_ban p else ssp_captcha p) in
      if m = ThreatBlock then EnforceBlock else if m = ThreatMonitor then EnforceMonitor else EnforceNone)"

definition evaluate_stream_crowdsec ::
  "string \<Rightarrow> string option \<Rightarrow> nat option \<Rightarrow> stream_crowdsec_policy \<Rightarrow> decision_source \<Rightarrow> stream_rule_action option \<Rightarrow> time \<Rightarrow> store \<Rightarrow>
   crowdsec_evaluation \<times> store" where
  "evaluate_stream_crowdsec ip country asn p source action now s =
     (if ssp_ban p = ThreatDisabled \<and> ssp_captcha p = ThreatDisabled then (no_evaluation, s)
      else if store_empty s then (no_evaluation, s)
      else case lookup ip country asn now s of
        (None, s') \<Rightarrow> (no_evaluation, s')
      | (Some d, s') \<Rightarrow>
          (let e = stream_enforcement_for d p in
           if e = EnforceBlock \<and> stream_block_is_bypassed source action
           then (\<lparr>ce_decision = Some d, ce_enforcement = EnforceMonitor, ce_bypassed = True\<rparr>, s')
           else (\<lparr>ce_decision = Some d, ce_enforcement = e, ce_bypassed = False\<rparr>, s')))"

definition crowdsec_stream_blocked_reason :: "crowdsec_evaluation \<Rightarrow> string option" where
  "crowdsec_stream_blocked_reason e =
     (case ce_decision e of
        Some d \<Rightarrow>
          if ce_enforcement e \<noteq> EnforceBlock then None
          else Some (''Blocked by '' @ crowdsec_source_text (d_origin d) @ (if d_scenario d = [] then [] else '' for '' @ d_scenario d))
      | None \<Rightarrow> None)"

section \<open>Crawlers\<close>

datatype bot_category = AiCrawler | AiSearch | AiAssistant | SearchEngine | Archiver | PagePreview | Advertising | SeoTool | OtherBot

text \<open>
  A user-agent pattern is a text anywhere in the header, or a text that no letter touches, both without
  regard to case. An alternative in a pattern becomes a pattern of its own, and an optional end of a
  pattern, which changes nothing, is left out.
\<close>

datatype agent_pattern = Text string | WholeWord string

record bot_definition =
  bt_id :: string
  bt_name :: string
  bt_category :: bot_category
  bt_provider :: "string option"
  bt_agents :: "agent_pattern list"

definition category_order :: "bot_category list" where
  "category_order = [AiCrawler, AiSearch, AiAssistant, SearchEngine, Archiver, PagePreview, Advertising, SeoTool, OtherBot]"

definition feed_names :: "string list" where
  "feed_names = [''google'', ''bing'', ''duckduckbot'', ''applebot'', ''gptbot'', ''oai-searchbot'', ''chatgpt-user'',
     ''perplexitybot'', ''perplexity-user'', ''ccbot'', ''shapbot'', ''duckassistbot'']"

definition bot :: "string \<Rightarrow> string \<Rightarrow> bot_category \<Rightarrow> string option \<Rightarrow> agent_pattern list \<Rightarrow> bot_definition" where
  "bot i n c p as = \<lparr>bt_id = i, bt_name = n, bt_category = c, bt_provider = p, bt_agents = as\<rparr>"

definition bot_definitions :: "bot_definition list" where
  "bot_definitions = [
     bot ''googlebot'' ''Google crawler'' SearchEngine (Some ''google'')
       [Text ''googlebot'', Text ''google-inspectiontool'', Text ''googleother'', Text ''storebot-google''],
     bot ''bingbot'' ''Bingbot'' SearchEngine (Some ''bing'') [Text ''bingbot'', Text ''adidxbot'', Text ''microsoftpreview''],
     bot ''duckduckbot'' ''DuckDuckBot'' SearchEngine (Some ''duckduckbot'') [Text ''duckduckbot''],
     bot ''applebot'' ''Applebot'' SearchEngine (Some ''applebot'') [Text ''applebot''],
     bot ''yandexbot'' ''YandexBot'' SearchEngine None [Text ''yandexbot'', Text ''yandeximages'', Text ''yandexaccessibilitybot''],
     bot ''baiduspider'' ''Baidu'' SearchEngine None [Text ''baiduspider''],
     bot ''petalbot'' ''PetalBot'' SearchEngine None [Text ''petalbot''],
     bot ''archive-org-bot'' ''archive.org_bot'' Archiver None [Text ''archive.org_bot''],
     bot ''arquivo-web-crawler'' ''Arquivo Web Crawler'' Archiver None [Text ''arquivo-web-crawler''],
     bot ''terracotta'' ''Terracotta Bot'' SearchEngine None [Text ''terracotta''],
     bot ''timpibot'' ''Timpibot'' SearchEngine None [Text ''timpibot''],
     bot ''gptbot'' ''GPTBot'' AiCrawler (Some ''gptbot'') [Text ''gptbot''],
     bot ''oai-searchbot'' ''OAI-SearchBot'' AiSearch (Some ''oai-searchbot'') [Text ''oai-searchbot''],
     bot ''chatgpt-user'' ''ChatGPT-User'' AiAssistant (Some ''chatgpt-user'') [Text ''chatgpt-user''],
     bot ''claudebot'' ''ClaudeBot'' AiCrawler None [Text ''claudebot'', Text ''anthropic-ai''],
     bot ''claude-searchbot'' ''Claude-SearchBot'' AiSearch None [Text ''claude-searchbot''],
     bot ''claude-user'' ''Claude-User'' AiAssistant None [Text ''claude-user''],
     bot ''perplexitybot'' ''PerplexityBot'' AiSearch (Some ''perplexitybot'') [Text ''perplexitybot''],
     bot ''perplexity-user'' ''Perplexity-User'' AiAssistant (Some ''perplexity-user'') [Text ''perplexity-user''],
     bot ''ccbot'' ''CCBot'' AiCrawler (Some ''ccbot'') [WholeWord ''ccbot''],
     bot ''shapbot'' ''ShapBot'' AiCrawler (Some ''shapbot'') [Text ''shapbot''],
     bot ''bytespider'' ''Bytespider'' AiCrawler None [Text ''bytespider''],
     bot ''tiktokspider'' ''TikTok Spider'' AiCrawler None [Text ''tiktokspider''],
     bot ''cohere-ai'' ''cohere-ai'' AiCrawler None [Text ''cohere-ai''],
     bot ''anchor-browser'' ''Anchor Browser'' AiCrawler None [Text ''anchor browser''],
     bot ''cloudflare-crawler'' ''Cloudflare Crawler'' AiCrawler None [Text ''cloudflarebrowserrenderingcrawler''],
     bot ''duckassistbot'' ''DuckAssistBot'' AiAssistant (Some ''duckassistbot'') [Text ''duckassistbot''],
     bot ''google-cloudvertexbot'' ''Google-CloudVertexBot'' AiCrawler None [Text ''google-cloudvertexbot''],
     bot ''manus-bot'' ''Manus Bot'' AiAssistant None [WholeWord ''manus'', WholeWord ''manusbot''],
     bot ''mistralai-user'' ''MistralAI-User'' AiAssistant None [Text ''mistralai-user''],
     bot ''novellum'' ''Novellum AI Crawl'' AiCrawler None [WholeWord ''novellum''],
     bot ''proratainc'' ''ProRataInc'' AiCrawler None [Text ''proratainc''],
     bot ''meta-webindexer'' ''Meta-WebIndexer'' AiSearch None [Text ''meta-webindexer''],
     bot ''meta-externalads'' ''Meta-ExternalAds'' Advertising None [Text ''meta-externalads''],
     bot ''meta-externalagent'' ''Meta-ExternalAgent'' AiCrawler None [Text ''meta-externalagent''],
     bot ''meta-externalfetcher'' ''Meta-ExternalFetcher'' AiAssistant None [Text ''meta-externalfetcher''],
     bot ''amazonbot'' ''Amazonbot'' AiCrawler None [Text ''amazonbot''],
     bot ''facebookexternalhit'' ''FacebookExternalHit'' PagePreview None [Text ''facebookexternalhit'', Text ''facebot''],
     bot ''linkedinbot'' ''LinkedInBot'' PagePreview None [Text ''linkedinbot''],
     bot ''google-extended'' ''Google-Extended'' AiCrawler None [Text ''google-extended''],
     bot ''applebot-extended'' ''Applebot-Extended'' AiCrawler None [Text ''applebot-extended''],
     bot ''sogou'' ''Sogou Spider'' SearchEngine None [Text ''sogou''],
     bot ''naver'' ''Naver (Yeti)'' SearchEngine None [Text ''yeti'', Text ''naverbot''],
     bot ''seznambot'' ''SeznamBot'' SearchEngine None [Text ''seznambot''],
     bot ''ahrefsbot'' ''AhrefsBot'' SeoTool None [Text ''ahrefsbot''],
     bot ''semrushbot'' ''SemrushBot'' SeoTool None [Text ''semrushbot''],
     bot ''mj12bot'' ''MJ12bot'' SeoTool None [Text ''mj12bot''],
     bot ''rogerbot'' ''Rogerbot'' SeoTool None [Text ''rogerbot''],
     bot ''dotbot'' ''DotBot'' SeoTool None [Text ''dotbot''],
     bot ''facebookbot'' ''FacebookBot'' PagePreview None [Text ''facebookbot''],
     bot ''twitterbot'' ''Twitterbot'' PagePreview None [Text ''twitterbot''],
     bot ''pinterestbot'' ''Pinterestbot'' PagePreview None [Text ''pinterestbot''],
     bot ''slackbot'' ''Slackbot'' PagePreview None [Text ''slackbot''],
     bot ''discordbot'' ''Discordbot'' PagePreview None [Text ''discordbot''],
     bot ''whatsapp'' ''WhatsApp'' PagePreview None [Text ''whatsapp'']]"

fun category_index :: "bot_category \<Rightarrow> bot_category list \<Rightarrow> nat" where
  "category_index c [] = 0"
| "category_index c (d # ds) = (if c = d then 0 else Suc (category_index c ds))"

text \<open>Sorted by category and, within one, by name in the order \<open>rank\<close> of the collation; both sorts are stable.\<close>

definition sorted_definitions :: "(string \<Rightarrow> nat) \<Rightarrow> bot_definition list" where
  "sorted_definitions rank =
     sort_key (\<lambda>d. category_index (bt_category d) category_order) (sort_key (\<lambda>d. rank (bt_name d)) bot_definitions)"

definition is_letter :: "char \<Rightarrow> bool" where
  "is_letter c \<longleftrightarrow> is_lower c \<or> is_upper c"

definition occurs_at :: "string \<Rightarrow> string \<Rightarrow> nat \<Rightarrow> bool" where
  "occurs_at w s i \<longleftrightarrow> to_lower (take (length w) (drop i s)) = w"

fun agent_matches :: "string \<Rightarrow> agent_pattern \<Rightarrow> bool" where
  "agent_matches agent (Text w) = list_ex (occurs_at w agent) [0..<Suc (length agent)]"
| "agent_matches agent (WholeWord w) =
     list_ex (\<lambda>i. occurs_at w agent i \<and> (i = 0 \<or> \<not> is_letter (agent ! (i - 1)))
                \<and> (i + length w = length agent \<or> \<not> is_letter (agent ! (i + length w)))) [0..<Suc (length agent)]"

record bot_identity =
  bi_id :: string
  bi_name :: string
  bi_category :: bot_category
  bi_verified :: bool

type_synonym bot_ranges = "(string, parsed_cidr list) omap"

definition identify_bot :: "(string \<Rightarrow> nat) \<Rightarrow> bot_ranges \<Rightarrow> request \<Rightarrow> string \<Rightarrow> bot_identity option" where
  "identify_bot rank ranges rq ip =
     (let agent = text_or_empty (header ''user-agent'' (rq_headers rq)) in
      case find (\<lambda>d. list_ex (agent_matches agent) (bt_agents d)) (sorted_definitions rank) of
        None \<Rightarrow> None
      | Some d \<Rightarrow>
          Some \<lparr>bi_id = bt_id d, bi_name = bt_name d, bi_category = bt_category d,
            bi_verified = (case bt_provider d of None \<Rightarrow> False
              | Some p \<Rightarrow> (case om_get ranges p of None \<Rightarrow> False | Some cs \<Rightarrow> list_ex (\<lambda>c. cidr_contains c ip) cs))\<rparr>)"

text \<open>One feed: its body is \<^term>\<open>None\<close> when the download fails or is not JSON.\<close>

definition prefix_text :: "json \<Rightarrow> string option" where
  "prefix_text item =
     (case j_get item ''ipv4Prefix'' of
        Some (JString s) \<Rightarrow> Some s
      | _ \<Rightarrow> (case j_get item ''ipv6Prefix'' of Some (JString s) \<Rightarrow> Some s | _ \<Rightarrow> None))"

definition parse_feed :: "json \<Rightarrow> parsed_cidr list checked" where
  "parse_feed body =
     (case j_get body ''prefixes'' of
        Some (JArray items) \<Rightarrow>
          (let parsed = List.map_filter (\<lambda>it. case prefix_text it of None \<Rightarrow> None | Some t \<Rightarrow> if t = [] then None else parse_cidr t) items in
           if parsed = [] then Inl ''IP feed contained no valid prefixes'' else Inr parsed)
      | _ \<Rightarrow> Inl ''IP feed has no prefixes array'')"

definition refresh_provider :: "json option \<Rightarrow> string \<Rightarrow> bot_ranges \<Rightarrow> bot_ranges" where
  "refresh_provider body provider ranges =
     (case body of
        None \<Rightarrow> ranges
      | Some b \<Rightarrow> (case parse_feed b of Inl _ \<Rightarrow> ranges | Inr cs \<Rightarrow> om_set provider cs ranges))"

definition refresh_bot_ip_ranges :: "(string \<Rightarrow> json option) \<Rightarrow> bot_ranges \<Rightarrow> bot_ranges" where
  "refresh_bot_ip_ranges fetch ranges = fold (\<lambda>p. refresh_provider (fetch p) p) feed_names ranges"

definition known_bot :: "string \<Rightarrow> bool" where
  "known_bot i \<longleftrightarrow> list_ex (\<lambda>d. bt_id d = i) bot_definitions"

definition blocked_bots :: "(rat \<Rightarrow> string) \<Rightarrow> js_value \<Rightarrow> string list \<Rightarrow> string list checked" where
  "blocked_bots nt v fallback =
     (case v of
        None \<Rightarrow> Inr fallback
      | Some (JArray xs) \<Rightarrow>
          (let ids = unique (filter (\<lambda>s. s \<noteq> []) (map (\<lambda>x. to_lower (trim (js_string nt x))) xs)) in
           if list_all known_bot ids then Inr ids else Inl ''Unknown bot'')
      | Some _ \<Rightarrow> Inl ''Blocked bots must be an array'')"

text \<open>A bot policy is its list of blocked identifiers.\<close>

definition parse_bot_policy :: "(rat \<Rightarrow> string) \<Rightarrow> js_value \<Rightarrow> string list \<Rightarrow> string list checked" where
  "parse_bot_policy nt v fallback =
     (case v of
        None \<Rightarrow> Inr fallback
      | Some (JObject fs) \<Rightarrow> blocked_bots nt (map_of fs ''blockedBots'') fallback
      | Some _ \<Rightarrow> Inl ''Bot policy must be an object'')"

definition stored_bot_policy :: "(rat \<Rightarrow> string) \<Rightarrow> json option \<Rightarrow> string list \<Rightarrow> string list" where
  "stored_bot_policy nt stored fallback = (case parse_bot_policy nt stored fallback of Inl _ \<Rightarrow> fallback | Inr p \<Rightarrow> p)"

definition bot_policy_json :: "string list \<Rightarrow> json" where
  "bot_policy_json p = JObject [(''blockedBots'', json_strings p)]"

definition serialize_bot_policy :: "(rat \<Rightarrow> string) \<Rightarrow> js_value \<Rightarrow> json option \<Rightarrow> json checked" where
  "serialize_bot_policy nt v existing =
     and_then (parse_bot_policy nt v (stored_bot_policy nt existing [])) (\<lambda>p. Inr (bot_policy_json p))"

definition serialize_route_bot_policy :: "(rat \<Rightarrow> string) \<Rightarrow> js_value \<Rightarrow> json option \<Rightarrow> json option checked" where
  "serialize_route_bot_policy nt =
     serialize_route_column (\<lambda>v. and_then (parse_bot_policy nt v []) (\<lambda>p. Inr (bot_policy_json p)))"

definition resolved_bot_policy :: "(rat \<Rightarrow> string) \<Rightarrow> json option \<Rightarrow> json option \<Rightarrow> string list" where
  "resolved_bot_policy nt site route = stored_bot_policy nt (if route = None then site else route) []"

definition bot_is_blocked :: "(rat \<Rightarrow> string) \<Rightarrow> bot_identity option \<Rightarrow> json option \<Rightarrow> json option \<Rightarrow> bool" where
  "bot_is_blocked nt identity site route =
     (case identity of None \<Rightarrow> False | Some b \<Rightarrow> bi_id b \<in> set (resolved_bot_policy nt site route))"

section \<open>Anonymising networks\<close>

text \<open>A policy maps categories to modes; \<open>Set<number>\<close> is a list without repetitions.\<close>

type_synonym privacy_policy = "(string, threat_mode) omap"

record privacy_category =
  pc_id :: string
  pc_label :: string
  pc_description :: string
  pc_file :: string

record privacy_manifest =
  pm_generated_at :: "string option"
  pm_categories :: "privacy_category list"

definition kebab_case :: "string \<Rightarrow> bool" where
  "kebab_case s \<longleftrightarrow> list_all (\<lambda>w. w \<noteq> [] \<and> list_all (\<lambda>c. is_lower c \<or> is_digit c) w) (split_on CHR ''-'' s)"

definition category_file_ok :: "string \<Rightarrow> bool" where
  "category_file_ok s \<longleftrightarrow> ends_with ''.txt'' s \<and> kebab_case (take (length s - 4) s)"

definition ip_key :: "string \<Rightarrow> string option" where
  "ip_key ip = (case parse_ip ip of None \<Rightarrow> None
     | Some p \<Rightarrow> Some ((if ip_version p = V4 then ''4'' else ''6'') @ '':'' @ to_base 16 (ip_value p)))"

text \<open>Lines end in \<open>\n\<close>, perhaps with \<open>\r\<close> before it, which the trimming of each line removes.\<close>

definition trimmed_lines :: "string \<Rightarrow> string list" where
  "trimmed_lines body = map trim (split_on CHR 0x0a body)"

definition parse_tor_exit_list :: "string \<Rightarrow> string list" where
  "parse_tor_exit_list body = unique (List.map_filter ip_key (trimmed_lines body))"

definition asn_of_line :: "string \<Rightarrow> nat option" where
  "asn_of_line line =
     (let ds = takeWhile is_digit line; rest = dropWhile is_digit line; after_space = dropWhile is_space rest; n = digits_value 10 ds in
      if ds \<noteq> [] \<and> rest \<noteq> [] \<and> is_space (hd rest) \<and> after_space \<noteq> [] \<and> CHR 0x0d \<notin> set after_space \<and> 0 < n \<and> n < 2 ^ 53
      then Some n else None)"

definition parse_asn_list :: "string \<Rightarrow> nat list" where
  "parse_asn_list body = unique (List.map_filter asn_of_line (trimmed_lines body))"

definition merge_asn_list_categories :: "privacy_category list \<Rightarrow> privacy_category list \<Rightarrow> privacy_category list" where
  "merge_asn_list_categories remote cached = remote @ filter (\<lambda>c. pc_id c \<notin> pc_id ` set remote) cached"

definition manifest_entry :: "json \<Rightarrow> privacy_category option" where
  "manifest_entry e =
     (case (j_get e ''id'', j_get e ''file'') of
        (Some (JString i), Some (JString f)) \<Rightarrow>
          if kebab_case i \<and> category_file_ok f
          then Some \<lparr>pc_id = i,
                 pc_label = (case j_get e ''label'' of Some (JString l) \<Rightarrow> if l = [] then i else l | _ \<Rightarrow> i),
                 pc_description = (case j_get e ''description'' of Some (JString d) \<Rightarrow> d | _ \<Rightarrow> []),
                 pc_file = f\<rparr>
          else None
      | _ \<Rightarrow> None)"

definition parse_asn_list_manifest :: "json \<Rightarrow> privacy_manifest checked" where
  "parse_asn_list_manifest body =
     (case j_get body ''categories'' of
        Some (JArray items) \<Rightarrow>
          (let cs = List.map_filter manifest_entry items in
           if cs = [] then Inl ''manifest.json contained no usable categories''
           else Inr \<lparr>pm_generated_at = (case j_get body ''generatedAt'' of Some (JString g) \<Rightarrow> Some g | _ \<Rightarrow> None), pm_categories = cs\<rparr>)
      | _ \<Rightarrow> Inl ''manifest.json is missing a categories array'')"

definition privacy_mode :: "(rat \<Rightarrow> string) \<Rightarrow> js_value \<Rightarrow> threat_mode \<Rightarrow> threat_mode checked" where
  "privacy_mode nt v fallback =
     (case v of
        None \<Rightarrow> Inr fallback
      | Some x \<Rightarrow> (case threat_mode_of (to_lower (trim (js_string nt x))) of
            Some m \<Rightarrow> Inr m
          | None \<Rightarrow> Inl ''Network privacy mode must be disabled, monitor, or block''))"

definition mode_or_disabled :: "privacy_policy \<Rightarrow> string \<Rightarrow> threat_mode" where
  "mode_or_disabled p k = (case om_get p k of None \<Rightarrow> ThreatDisabled | Some m \<Rightarrow> m)"

definition privacy_key_ok :: "string \<Rightarrow> bool" where
  "privacy_key_ok k \<longleftrightarrow> k = ''tor'' \<or> kebab_case k"

definition parse_network_privacy_policy :: "(rat \<Rightarrow> string) \<Rightarrow> js_value \<Rightarrow> privacy_policy \<Rightarrow> privacy_policy checked" where
  "parse_network_privacy_policy nt v fallback =
     (case v of
        None \<Rightarrow> Inr fallback
      | Some (JObject fs) \<Rightarrow>
          check_all (\<lambda>k. and_then (privacy_mode nt (map_of fs k) (mode_or_disabled fallback k)) (\<lambda>m. Inr (k, m)))
            (filter privacy_key_ok (unique (om_keys fallback @ map fst fs)))
      | Some _ \<Rightarrow> Inl ''Network privacy policy must be an object'')"

definition stored_network_privacy_policy :: "(rat \<Rightarrow> string) \<Rightarrow> json option \<Rightarrow> privacy_policy \<Rightarrow> privacy_policy" where
  "stored_network_privacy_policy nt stored fallback =
     (case parse_network_privacy_policy nt stored fallback of Inl _ \<Rightarrow> fallback | Inr p \<Rightarrow> p)"

definition privacy_policy_json :: "privacy_policy \<Rightarrow> json" where
  "privacy_policy_json p = JObject (map (\<lambda>(k, m). (k, threat_mode_json m)) p)"

definition serialize_network_privacy_policy :: "(rat \<Rightarrow> string) \<Rightarrow> js_value \<Rightarrow> json option \<Rightarrow> json checked" where
  "serialize_network_privacy_policy nt v existing =
     and_then (parse_network_privacy_policy nt v (stored_network_privacy_policy nt existing [])) (\<lambda>p. Inr (privacy_policy_json p))"

definition serialize_route_network_privacy_policy :: "(rat \<Rightarrow> string) \<Rightarrow> js_value \<Rightarrow> json option \<Rightarrow> json option checked" where
  "serialize_route_network_privacy_policy nt =
     serialize_route_column (\<lambda>v. and_then (parse_network_privacy_policy nt v []) (\<lambda>p. Inr (privacy_policy_json p)))"

definition resolved_network_privacy_policy :: "(rat \<Rightarrow> string) \<Rightarrow> json option \<Rightarrow> json option \<Rightarrow> privacy_policy" where
  "resolved_network_privacy_policy nt site route = stored_network_privacy_policy nt (if route = None then site else route) []"

record privacy_data =
  pd_tor :: "string list"
  pd_asn :: "(string, nat list) omap"

definition identify_network_privacy :: "string \<Rightarrow> nat option \<Rightarrow> privacy_policy \<Rightarrow> privacy_data \<Rightarrow> string list option" where
  "identify_network_privacy ip asn p data =
     (let tor = (if mode_or_disabled p ''tor'' = ThreatDisabled then []
                 else case ip_key ip of None \<Rightarrow> [] | Some k \<Rightarrow> if k \<in> set (pd_tor data) then [''tor''] else []);
          asns = (case asn of None \<Rightarrow> []
            | Some a \<Rightarrow> map fst (filter (\<lambda>(i, ns). mode_or_disabled p i \<noteq> ThreatDisabled \<and> a \<in> set ns) (pd_asn data))) in
      if tor @ asns = [] then None else Some (tor @ asns))"

definition blocked_network_privacy_category :: "string list option \<Rightarrow> privacy_policy \<Rightarrow> string option" where
  "blocked_network_privacy_category identity p =
     (case identity of None \<Rightarrow> None | Some cs \<Rightarrow> find (\<lambda>c. om_get p c = Some ThreatBlock) cs)"

definition evaluate_network_privacy ::
  "string \<Rightarrow> nat option \<Rightarrow> privacy_policy \<Rightarrow> decision_source \<Rightarrow> ip_rule_action option \<Rightarrow> privacy_data \<Rightarrow> string list option \<times> string option" where
  "evaluate_network_privacy ip asn p source action data =
     (let identity = identify_network_privacy ip asn p data in
      (identity, if block_is_bypassed source action then None else blocked_network_privacy_category identity p))"

definition category_label :: "privacy_category list \<Rightarrow> string \<Rightarrow> string" where
  "category_label cs c =
     (if c = ''tor'' then ''Tor exit node''
      else case find (\<lambda>e. pc_id e = c) cs of Some e \<Rightarrow> pc_label e | None \<Rightarrow> c)"

section \<open>Refreshing the lists of networks\<close>

text \<open>
  The lists in memory and the files of the cache directory, each with the time it was written. A download
  is \<^term>\<open>None\<close> when it fails. The body of a manifest is its JSON value, and a file that is not there or
  cannot be parsed is \<^term>\<open>None\<close>.
\<close>

record privacy_store =
  ps_data :: privacy_data
  ps_categories :: "privacy_category list"
  ps_tor_file :: "(string \<times> time) option"
  ps_manifest_file :: "(json \<times> time) option"
  ps_asn_files :: "(string, string) omap"

definition refresh_interval_ms :: time where
  "refresh_interval_ms = 24 * 60 * 60 * 1000"

definition fresh_file :: "('a \<times> time) option \<Rightarrow> time \<Rightarrow> bool" where
  "fresh_file f now = (case f of None \<Rightarrow> False | Some (_, written) \<Rightarrow> now - written < refresh_interval_ms)"

definition load_cached_lists :: "privacy_store \<Rightarrow> privacy_store" where
  "load_cached_lists s =
     (let tor = (case ps_tor_file s of None \<Rightarrow> [] | Some (b, _) \<Rightarrow> parse_tor_exit_list b);
          s1 = (if tor = [] then s else s\<lparr>ps_data := (ps_data s)\<lparr>pd_tor := tor\<rparr>\<rparr>) in
      case ps_manifest_file s of
        None \<Rightarrow> s1
      | Some (j, _) \<Rightarrow>
          (case parse_asn_list_manifest j of
             Inl _ \<Rightarrow> s1
           | Inr m \<Rightarrow>
               (let loaded = fold (\<lambda>c acc. case om_get (ps_asn_files s) (pc_id c) of
                        None \<Rightarrow> acc
                      | Some b \<Rightarrow> if parse_asn_list b = [] then acc else om_set (pc_id c) (parse_asn_list b) acc) (pm_categories m) [];
                    s2 = s1\<lparr>ps_categories := pm_categories m\<rparr> in
                if loaded = [] then s2 else s2\<lparr>ps_data := (ps_data s2)\<lparr>pd_asn := loaded\<rparr>\<rparr>)))"

definition refresh_tor_exit_nodes :: "string option \<Rightarrow> time \<Rightarrow> privacy_store \<Rightarrow> privacy_store" where
  "refresh_tor_exit_nodes download now s =
     (if fresh_file (ps_tor_file s) now \<and> pd_tor (ps_data s) \<noteq> [] then s
      else case download of
        None \<Rightarrow> s
      | Some body \<Rightarrow>
          if parse_tor_exit_list body = [] then s
          else s\<lparr>ps_data := (ps_data s)\<lparr>pd_tor := parse_tor_exit_list body\<rparr>, ps_tor_file := Some (body, now)\<rparr>)"

definition category_json :: "privacy_category \<Rightarrow> json" where
  "category_json c = JObject [(''id'', JString (pc_id c)), (''label'', JString (pc_label c)),
     (''description'', JString (pc_description c)), (''file'', JString (pc_file c))]"

definition manifest_json :: "privacy_manifest \<Rightarrow> json" where
  "manifest_json m = JObject [(''generatedAt'', case pm_generated_at m of None \<Rightarrow> JNull | Some g \<Rightarrow> JString g),
     (''categories'', JArray (map category_json (pm_categories m)))]"

definition current_list :: "privacy_store \<Rightarrow> string \<Rightarrow> nat list" where
  "current_list s i = (case om_get (pd_asn (ps_data s)) i of None \<Rightarrow> [] | Some ns \<Rightarrow> ns)"

definition list_from_disk :: "privacy_store \<Rightarrow> string \<Rightarrow> nat list option" where
  "list_from_disk s i =
     (case om_get (ps_asn_files s) i of None \<Rightarrow> None
      | Some b \<Rightarrow> if parse_asn_list b = [] then None else Some (parse_asn_list b))"

text \<open>The list a category of the remote manifest gets: what was downloaded, else the one in memory.\<close>

definition remote_list :: "bool \<Rightarrow> (string \<Rightarrow> string option) \<Rightarrow> privacy_store \<Rightarrow> privacy_category \<Rightarrow> nat list" where
  "remote_list unchanged fetch s c =
     (if unchanged then current_list s (pc_id c)
      else case fetch (pc_file c) of None \<Rightarrow> current_list s (pc_id c) | Some b \<Rightarrow> parse_asn_list b)"

definition local_list :: "privacy_store \<Rightarrow> privacy_category \<Rightarrow> nat list" where
  "local_list s c = (case list_from_disk s (pc_id c) of Some ns \<Rightarrow> ns | None \<Rightarrow> current_list s (pc_id c))"

definition cached_manifest :: "privacy_store \<Rightarrow> privacy_manifest option" where
  "cached_manifest s =
     (case ps_manifest_file s of None \<Rightarrow> None
      | Some (j, _) \<Rightarrow> (case parse_asn_list_manifest j of Inl _ \<Rightarrow> None | Inr m \<Rightarrow> Some m))"

definition refresh_asn_lists :: "json option \<Rightarrow> (string \<Rightarrow> string option) \<Rightarrow> time \<Rightarrow> privacy_store \<Rightarrow> privacy_store" where
  "refresh_asn_lists download fetch now s =
     (if fresh_file (ps_manifest_file s) now \<and> pd_asn (ps_data s) \<noteq> [] then s
      else case download of
        None \<Rightarrow> s
      | Some body \<Rightarrow>
          (case parse_asn_list_manifest body of
             Inl _ \<Rightarrow> s
           | Inr remote \<Rightarrow>
               (let cached = cached_manifest s;
                    merged = merge_asn_list_categories (pm_categories remote)
                      (case cached of None \<Rightarrow> [] | Some m \<Rightarrow> pm_categories m);
                    local_only = filter (\<lambda>c. pc_id c \<notin> pc_id ` set (pm_categories remote)) merged;
                    unchanged = (pm_generated_at remote \<noteq> None \<and>
                      (case cached of None \<Rightarrow> False | Some m \<Rightarrow> pm_generated_at remote = pm_generated_at m));
                    files = (if unchanged then ps_asn_files s
                      else fold (\<lambda>c fs. case fetch (pc_file c) of None \<Rightarrow> fs | Some b \<Rightarrow> om_set (pc_id c) b fs)
                             (pm_categories remote) (ps_asn_files s));
                    lists = fold (\<lambda>(i, ns) m. om_set i ns m)
                      (map (\<lambda>c. (pc_id c, remote_list unchanged fetch s c)) (pm_categories remote)
                       @ map (\<lambda>c. (pc_id c, local_list s c)) local_only) [] in
                s\<lparr>ps_data := (ps_data s)\<lparr>pd_asn := lists\<rparr>,
                  ps_categories := merged,
                  ps_manifest_file := Some (manifest_json \<lparr>pm_generated_at = pm_generated_at remote, pm_categories = merged\<rparr>, now),
                  ps_asn_files := filter (\<lambda>(i, _). i \<in> pc_id ` set merged) files\<rparr>)))"

section \<open>Columns read back as they were written\<close>

lemma threat_mode_texts: "threat_mode_json m = JString s \<Longrightarrow> threat_mode_of (to_lower (trim s)) = Some m"
  by (cases m) (auto simp: threat_mode_of_def to_lower_def lower_char_def trim_def trim_start_def char_class_defs)

lemma threat_mode_json_text: "\<exists>s. threat_mode_json m = JString s"
  by (cases m) simp_all

lemma ban_mode_json [simp]: "ban_mode nt (Some (threat_mode_json m)) d = Inr m"
  using threat_mode_json_text [of m] threat_mode_texts [of m] by (auto simp: ban_mode_def)

lemma privacy_mode_json [simp]: "privacy_mode nt (Some (threat_mode_json m)) d = Inr m"
  using threat_mode_json_text [of m] threat_mode_texts [of m] by (auto simp: privacy_mode_def)

lemma captcha_mode_reads_back [simp]: "captcha_mode_value nt (Some (captcha_mode_json m)) d = Inr m"
  by (cases m) (auto simp: captcha_mode_value_def to_lower_def lower_char_def trim_def trim_start_def char_class_defs)

lemma stored_crowdsec_json [simp]: "stored_crowdsec_policy nt (Some (crowdsec_policy_json p)) d = p"
  by (simp add: stored_crowdsec_policy_def parse_crowdsec_policy_def crowdsec_policy_json_def and_then_Inr)

lemma stored_stream_crowdsec_json [simp]: "stored_stream_crowdsec_policy nt (Some (stream_crowdsec_policy_json p)) d = p"
  by (simp add: stored_stream_crowdsec_policy_def parse_stream_crowdsec_policy_def stream_crowdsec_policy_json_def and_then_Inr)

definition bot_policy_ok :: "string list \<Rightarrow> bool" where
  "bot_policy_ok p \<longleftrightarrow> distinct p \<and> (\<forall>i \<in> set p. known_bot i)"

lemma bot_ids_clean:
  "list_all (\<lambda>d. bt_id d \<noteq> [] \<and> list_all (\<lambda>c. \<not> is_space c \<and> \<not> has_lower c) (bt_id d)) bot_definitions"
  by code_simp

lemma known_bot_clean: "known_bot i \<Longrightarrow> to_lower (trim i) = i \<and> i \<noteq> []"
  using bot_ids_clean by (auto simp: known_bot_def list_ex_iff list_all_iff intro!: clean_lower)

lemma parse_bot_policy_ok: "parse_bot_policy nt v d = Inr p \<Longrightarrow> bot_policy_ok d \<Longrightarrow> bot_policy_ok p"
  by (auto simp: parse_bot_policy_def blocked_bots_def bot_policy_ok_def list_all_iff Let_def split: option.splits json.splits if_splits)

lemma stored_bot_policy_ok: "bot_policy_ok (stored_bot_policy nt stored [])"
  using parse_bot_policy_ok [of nt stored "[]"] by (auto simp: stored_bot_policy_def bot_policy_ok_def split: sum.splits)

lemma stored_bot_json: "bot_policy_ok p \<Longrightarrow> stored_bot_policy nt (Some (bot_policy_json p)) d = p"
proof -
  assume p: "bot_policy_ok p"
  then have "filter (\<lambda>s. s \<noteq> []) (map (\<lambda>x. to_lower (trim (js_string nt x))) (map JString p)) = p"
    using map_filter_clean [of p "\<lambda>t. to_lower (trim t)"] known_bot_clean by (auto simp: bot_policy_ok_def comp_def)
  with p show ?thesis
    by (simp add: stored_bot_policy_def parse_bot_policy_def bot_policy_json_def json_strings_def blocked_bots_def
        bot_policy_ok_def list_all_iff del: map_map)
qed

definition privacy_policy_ok :: "privacy_policy \<Rightarrow> bool" where
  "privacy_policy_ok p \<longleftrightarrow> distinct (om_keys p) \<and> (\<forall>k \<in> set (om_keys p). privacy_key_ok k)"

lemma check_all_keyed: "check_all (\<lambda>k. and_then (f k) (\<lambda>m. Inr (k, m))) ks = Inr p \<Longrightarrow> om_keys p = ks"
  by (induction ks arbitrary: p) (auto simp: and_then_eq_Inr om_keys_def)

lemma parse_privacy_policy_ok: "parse_network_privacy_policy nt v d = Inr p \<Longrightarrow> privacy_policy_ok d \<Longrightarrow> privacy_policy_ok p"
  by (auto simp: parse_network_privacy_policy_def privacy_policy_ok_def split: option.splits json.splits dest!: check_all_keyed)

lemma privacy_policy_ok_Nil [simp]: "privacy_policy_ok []"
  by (simp add: privacy_policy_ok_def om_keys_def)

lemma stored_privacy_policy_ok: "privacy_policy_ok (stored_network_privacy_policy nt stored [])"
  using parse_privacy_policy_ok [of nt stored "[]"] by (auto simp: stored_network_privacy_policy_def split: sum.splits)

lemma check_all_read: "(\<And>k m. (k, m) \<in> set p \<Longrightarrow> f k = Inr (k, m)) \<Longrightarrow> check_all f (map fst p) = Inr p"
proof (induction p)
  case (Cons x p)
  then have "f (fst x) = Inr x" by (cases x) simp
  with Cons show ?case by (simp add: and_then_Inr)
qed simp

lemma stored_privacy_json: "privacy_policy_ok p \<Longrightarrow> stored_network_privacy_policy nt (Some (privacy_policy_json p)) [] = p"
proof -
  assume p: "privacy_policy_ok p"
  let ?fs = "map (\<lambda>(k, m). (k, threat_mode_json m)) p"
  have keys: "map (fst \<circ> (\<lambda>(k, m). (k, threat_mode_json m))) p = map fst p" by (simp add: comp_def case_prod_unfold)
  have d: "distinct (map fst p)" using p by (simp add: privacy_policy_ok_def om_keys_def)
  have "map_of ?fs k = Some (threat_mode_json m)" if "(k, m) \<in> set p" for k m
    using that d by (intro map_of_is_SomeI) (force simp: comp_def case_prod_unfold)+
  then have "check_all (\<lambda>k. and_then (privacy_mode nt (map_of ?fs k) (mode_or_disabled [] k)) (\<lambda>m. Inr (k, m))) (map fst p) = Inr p"
    by (intro check_all_read) (auto simp: and_then_Inr)
  moreover have "filter privacy_key_ok (unique (om_keys ([] :: privacy_policy) @ map fst ?fs)) = map fst p"
    using p d by (simp add: keys om_keys_def privacy_policy_ok_def filter_id_conv)
  ultimately show ?thesis
    by (simp add: stored_network_privacy_policy_def parse_network_privacy_policy_def privacy_policy_json_def)
qed

lemma and_then_read_back:
  "(\<And>p. r = Inr p \<Longrightarrow> read (write p) = p) \<Longrightarrow> and_then (and_then r (\<lambda>p. Inr (write p))) (\<lambda>j. Inr (read j)) = r"
  by (cases r) (simp_all add: and_then_def)

text \<open>
  Whatever a client submits for the policies on CrowdSec decisions, crawlers and anonymising networks
  and whatever the column held, reading the column that was written gives exactly the policy that was
  parsed, or the same error: nothing of an accepted policy is lost or reset to the default.
\<close>

theorem threat_columns_read_back:
  "and_then (serialize_crowdsec_policy nt v old) (\<lambda>j. Inr (resolved_crowdsec_policy nt (Some j) None))
     = parse_crowdsec_policy nt v (stored_crowdsec_policy nt old default_crowdsec_policy) \<and>
   and_then (serialize_stream_crowdsec_policy nt v old) (\<lambda>j. Inr (stored_stream_crowdsec_policy nt (Some j) default_stream_crowdsec_policy))
     = parse_stream_crowdsec_policy nt v (stored_stream_crowdsec_policy nt old default_stream_crowdsec_policy) \<and>
   and_then (serialize_bot_policy nt v old) (\<lambda>j. Inr (resolved_bot_policy nt (Some j) None))
     = parse_bot_policy nt v (stored_bot_policy nt old []) \<and>
   and_then (serialize_network_privacy_policy nt v old) (\<lambda>j. Inr (resolved_network_privacy_policy nt (Some j) None))
     = parse_network_privacy_policy nt v (stored_network_privacy_policy nt old [])"
  unfolding serialize_crowdsec_policy_def serialize_stream_crowdsec_policy_def serialize_bot_policy_def
    serialize_network_privacy_policy_def resolved_crowdsec_policy_def resolved_bot_policy_def resolved_network_privacy_policy_def
  by (intro conjI and_then_read_back)
    (simp_all add: stored_bot_json stored_privacy_json parse_bot_policy_ok [OF _ stored_bot_policy_ok]
      parse_privacy_policy_ok [OF _ stored_privacy_policy_ok])

section \<open>Which decisions are enforced\<close>

lemma evaluate_crowdsec_lookup:
  "csp_ban p \<noteq> ThreatDisabled \<or> csp_captcha p \<noteq> CaptchaDisabled \<Longrightarrow>
     fst (evaluate_crowdsec ip country asn p source action now s) =
       (case fst (lookup ip country asn now s) of
          None \<Rightarrow> no_evaluation
        | Some d \<Rightarrow>
            if enforcement_for d p \<in> {EnforceBlock, EnforceChallenge} \<and> block_is_bypassed source action
            then \<lparr>ce_decision = Some d, ce_enforcement = EnforceMonitor, ce_bypassed = True\<rparr>
            else \<lparr>ce_decision = Some d, ce_enforcement = enforcement_for d p, ce_bypassed = False\<rparr>)"
  by (auto simp: evaluate_crowdsec_def lookup_def no_evaluation_def Let_def split: prod.splits option.splits)

lemma evaluate_crowdsec_disabled:
  "csp_ban p = ThreatDisabled \<Longrightarrow> csp_captcha p = CaptchaDisabled \<Longrightarrow>
     fst (evaluate_crowdsec ip country asn p source action now s) = no_evaluation"
  by (simp add: evaluate_crowdsec_def)

definition decided_by :: "string \<Rightarrow> string option \<Rightarrow> nat option \<Rightarrow> time \<Rightarrow> store \<Rightarrow> decision \<Rightarrow> bool" where
  "decided_by ip country asn now s d \<longleftrightarrow> in_force d now \<and> (\<exists>l. covers ip country asn l \<and> place_answer s now l = Some d \<and>
     (\<forall>l'. covers ip country asn l' \<and> place_answer s now l' \<noteq> None \<longrightarrow> specificity l' \<le> specificity l))"

text \<open>
  C28: whatever feeds came before and whichever decisions have run out since, a request is blocked or
  challenged for CrowdSec only because a decision in force covers the client, no covering place answers with a
  more specific one, the policy asks for that reaction to that remediation, and no rule of the operator on the
  client's address or AS lets it pass. A client for whom some covering place answers and all that do answer with
  a ban, none of them overruled by the operator, is blocked whenever the policy blocks bans. A place answers with
  its visible decision, or when that has run out with the strongest one parked behind it, if that is in force.
\<close>

theorem crowdsec_enforced_as_decided:
  fixes ip country asn p source action now s
  defines "e \<equiv> fst (evaluate_crowdsec ip country asn p source action now s)"
  assumes "(store_step dp)\<^sup>*\<^sup>* empty_store s"
  shows "(ce_enforcement e = EnforceBlock \<longrightarrow> csp_ban p = ThreatBlock \<and> \<not> block_is_bypassed source action \<and>
      (\<exists>d. ce_decision e = Some d \<and> d_remediation d = Ban \<and> decided_by ip country asn now s d)) \<and>
    (ce_enforcement e = EnforceChallenge \<longrightarrow> csp_captcha p = CaptchaChallenge \<and> \<not> block_is_bypassed source action \<and>
      (\<exists>d. ce_decision e = Some d \<and> d_remediation d = Captcha \<and> decided_by ip country asn now s d)) \<and>
    (csp_ban p = ThreatBlock \<and> \<not> block_is_bypassed source action \<and>
      (\<exists>l. covers ip country asn l \<and> place_answer s now l \<noteq> None) \<and>
      (\<forall>l d. covers ip country asn l \<and> place_answer s now l = Some d \<longrightarrow> d_remediation d = Ban) \<longrightarrow> ce_enforcement e = EnforceBlock)"
proof (cases "csp_ban p = ThreatDisabled \<and> csp_captcha p = CaptchaDisabled")
  case True
  then show ?thesis by (simp add: e_def evaluate_crowdsec_disabled no_evaluation_def)
next
  case False
  then have e: "e = (case fst (lookup ip country asn now s) of
      None \<Rightarrow> no_evaluation
    | Some d \<Rightarrow>
        if enforcement_for d p \<in> {EnforceBlock, EnforceChallenge} \<and> block_is_bypassed source action
        then \<lparr>ce_decision = Some d, ce_enforcement = EnforceMonitor, ce_bypassed = True\<rparr>
        else \<lparr>ce_decision = Some d, ce_enforcement = enforcement_for d p, ce_bypassed = False\<rparr>)"
    unfolding e_def by (intro evaluate_crowdsec_lookup) auto
  have spec: "case fst (lookup ip country asn now s) of
      None \<Rightarrow> \<forall>l. covers ip country asn l \<longrightarrow> place_answer s now l = None
    | Some d \<Rightarrow> decided_by ip country asn now s d"
    using lookup_spec [OF store_reachable_inv [OF assms(2)], of ip country asn now] place_answer_in_force
    unfolding decided_by_def by (auto split: option.splits)
  show ?thesis
  proof (cases "fst (lookup ip country asn now s)")
    case None
    with spec e show ?thesis by (auto simp: no_evaluation_def)
  next
    case (Some d)
    then have dec: "decided_by ip country asn now s d" using spec by simp
    then obtain l where "covers ip country asn l" and "place_answer s now l = Some d" by (auto simp: decided_by_def)
    with Some e dec show ?thesis by (cases "d_remediation d") (auto simp: enforcement_for_def)
  qed
qed

definition strict_crowdsec :: crowdsec_policy where
  "strict_crowdsec = \<lparr>csp_ban = ThreatBlock, csp_captcha = CaptchaChallenge, csp_appsec = ThreatDisabled\<rparr>"

theorem crowdsec_enforced_as_decided_witness:
  "ce_enforcement (fst (evaluate_crowdsec ''10.1.2.3'' (Some ''FR'') None strict_crowdsec IpDefaultSource None 5 sample_store)) = EnforceChallenge \<and>
   (\<exists>d. d_remediation d = Captcha \<and> decided_by ''10.1.2.3'' (Some ''FR'') None 5 sample_store d) \<and>
   ce_enforcement (fst (evaluate_crowdsec ''10.1.2.3'' (Some ''FR'') None strict_crowdsec IpRuleSource (Some Allow) 5 sample_store)) \<noteq> EnforceChallenge"
proof -
  have "ce_enforcement (fst (evaluate_crowdsec ''10.1.2.3'' (Some ''FR'') None strict_crowdsec IpDefaultSource None 5 sample_store)) = EnforceChallenge"
    by code_simp
  moreover from this obtain d where "d_remediation d = Captcha" and "decided_by ''10.1.2.3'' (Some ''FR'') None 5 sample_store d"
    using crowdsec_enforced_as_decided [OF sample_reachable, of "''10.1.2.3''" "Some ''FR''" None strict_crowdsec IpDefaultSource None]
    by blast
  moreover have "ce_enforcement (fst (evaluate_crowdsec ''10.1.2.3'' (Some ''FR'') None strict_crowdsec IpRuleSource (Some Allow) 5 sample_store)) \<noteq> EnforceChallenge"
    using crowdsec_enforced_as_decided [OF sample_reachable, of "''10.1.2.3''" "Some ''FR''" None strict_crowdsec IpRuleSource "Some Allow"]
    unfolding block_is_bypassed_def by blast
  ultimately show ?thesis by blast
qed

section \<open>A list that failed to download\<close>

lemma kebab_clean: "kebab_case i \<Longrightarrow> i \<noteq> []"
  by (auto simp: kebab_case_def)

definition category_ok :: "privacy_category \<Rightarrow> bool" where
  "category_ok c \<longleftrightarrow> kebab_case (pc_id c) \<and> category_file_ok (pc_file c) \<and> pc_label c \<noteq> []"

lemma manifest_entry_ok: "manifest_entry e = Some c \<Longrightarrow> category_ok c"
  by (auto simp: manifest_entry_def category_ok_def dest: kebab_clean split: option.splits json.splits if_splits)

lemma manifest_entry_json: "category_ok c \<Longrightarrow> manifest_entry (category_json c) = Some c"
  by (simp add: manifest_entry_def category_json_def category_ok_def)

lemma map_filter_read: "(\<And>x. x \<in> set xs \<Longrightarrow> f (g x) = Some x) \<Longrightarrow> List.map_filter f (map g xs) = xs"
  by (induction xs) (simp_all add: map_filter_simps)

lemma map_filter_mem: "y \<in> set (List.map_filter f xs) \<Longrightarrow> \<exists>x \<in> set xs. f x = Some y"
  by (induction xs) (auto simp: map_filter_simps split: option.splits)

lemma parsed_manifest_ok: "parse_asn_list_manifest j = Inr m \<Longrightarrow> pm_categories m \<noteq> [] \<and> (\<forall>c \<in> set (pm_categories m). category_ok c)"
  by (auto simp: parse_asn_list_manifest_def Let_def dest!: map_filter_mem manifest_entry_ok split: option.splits json.splits if_splits)

lemma parse_manifest_json:
  "pm_categories m \<noteq> [] \<Longrightarrow> \<forall>c \<in> set (pm_categories m). category_ok c \<Longrightarrow> parse_asn_list_manifest (manifest_json m) = Inr m"
  using map_filter_read [of "pm_categories m" manifest_entry category_json] manifest_entry_json
  by (cases m) (simp add: parse_asn_list_manifest_def manifest_json_def split: option.splits)

lemma cached_manifest_ok: "cached_manifest s = Some m \<Longrightarrow> \<forall>c \<in> set (pm_categories m). category_ok c"
  using parsed_manifest_ok by (auto simp: cached_manifest_def split: option.splits sum.splits)

lemma get_fold_lists:
  "om_get (fold (\<lambda>(i, ns) m. om_set i ns m) kvs m0) k = (case map_of (rev kvs) k of None \<Rightarrow> om_get m0 k | Some ns \<Rightarrow> Some ns)"
  by (induction kvs arbitrary: m0) (auto simp: om_get_set map_of_append split: option.splits)

text \<open>The categories after a refresh whose manifest could be read: the remote ones, then those only kept here.\<close>

definition merged_categories :: "privacy_manifest \<Rightarrow> privacy_store \<Rightarrow> privacy_category list" where
  "merged_categories remote s = merge_asn_list_categories (pm_categories remote)
     (case cached_manifest s of None \<Rightarrow> [] | Some m \<Rightarrow> pm_categories m)"

lemma merged_ok:
  "parse_asn_list_manifest body = Inr remote \<Longrightarrow> merged_categories remote s \<noteq> [] \<and> (\<forall>c \<in> set (merged_categories remote s). category_ok c)"
  using parsed_manifest_ok [of body remote] cached_manifest_ok [of s]
  by (cases "cached_manifest s") (auto simp: merged_categories_def merge_asn_list_categories_def)

lemma refreshed_manifest:
  assumes "parse_asn_list_manifest body = Inr remote" and "\<not> (fresh_file (ps_manifest_file s) now \<and> pd_asn (ps_data s) \<noteq> [])"
  shows "cached_manifest (refresh_asn_lists (Some body) fetch now s)
    = Some \<lparr>pm_generated_at = pm_generated_at remote, pm_categories = merged_categories remote s\<rparr>"
  using assms merged_ok [OF assms(1), of s]
  by (auto simp: refresh_asn_lists_def cached_manifest_def [of "_ \<lparr>ps_asn_files := _\<rparr>"] merged_categories_def Let_def parse_manifest_json)

lemma refreshed_remote_list:
  fixes s :: privacy_store
  assumes m: "parse_asn_list_manifest body = Inr remote" and stale: "\<not> (fresh_file (ps_manifest_file s) now \<and> pd_asn (ps_data s) \<noteq> [])"
    and c: "c \<in> set (pm_categories remote)" and d: "distinct (map pc_id (pm_categories remote))"
  shows "current_list (refresh_asn_lists (Some body) fetch now s) (pc_id c) =
    remote_list (pm_generated_at remote \<noteq> None \<and>
      (case cached_manifest s of None \<Rightarrow> False | Some m \<Rightarrow> pm_generated_at remote = pm_generated_at m)) fetch s c"
proof -
  let ?u = "pm_generated_at remote \<noteq> None \<and>
      (case cached_manifest s of None \<Rightarrow> False | Some m \<Rightarrow> pm_generated_at remote = pm_generated_at m)"
  let ?rem = "map (\<lambda>c. (pc_id c, remote_list ?u fetch s c)) (pm_categories remote)"
  let ?loc = "map (\<lambda>c. (pc_id c, local_list s c)) (filter (\<lambda>c. pc_id c \<notin> pc_id ` set (pm_categories remote)) (merged_categories remote s))"
  have "pc_id c \<notin> fst ` set (rev ?loc)" using c by (force simp: image_iff)
  then have "map_of (rev ?loc) (pc_id c) = None" by (simp only: map_of_eq_None_iff not_False_eq_True)
  moreover have "distinct (map fst (rev ?rem))" using d by (simp add: comp_def rev_map [symmetric])
  then have "map_of (rev ?rem) (pc_id c) = Some (remote_list ?u fetch s c)" using c by (intro map_of_is_SomeI) auto
  ultimately have "map_of (rev (?rem @ ?loc)) (pc_id c) = Some (remote_list ?u fetch s c)"
    by (simp add: map_of_append map_add_def)
  then have "om_get (fold (\<lambda>(i, ns) m. om_set i ns m) (?rem @ ?loc) []) (pc_id c) = Some (remote_list ?u fetch s c)"
    by (simp only: get_fold_lists option.case)
  moreover have "pd_asn (ps_data (refresh_asn_lists (Some body) fetch now s)) = fold (\<lambda>(i, ns) m. om_set i ns m) (?rem @ ?loc) []"
    using m stale by (auto simp: refresh_asn_lists_def merged_categories_def Let_def)
  ultimately show ?thesis by (simp add: current_list_def)
qed

lemma remote_list_empty: "current_list s (pc_id c) = [] \<Longrightarrow> u \<or> fetch (pc_file c) = None \<Longrightarrow> remote_list u fetch s c = []"
  by (auto simp: remote_list_def)

text \<open>One more refresh with the manifest that is in the cache already.\<close>

lemma unchanged_stays_empty:
  assumes m: "parse_asn_list_manifest body = Inr remote" and g: "pm_generated_at remote = Some g"
    and c: "c \<in> set (pm_categories remote)" and d: "distinct (map pc_id (pm_categories remote))"
    and cached: "\<exists>m. cached_manifest s = Some m \<and> pm_generated_at m = Some g" and empty: "current_list s (pc_id c) = []"
  shows "current_list (refresh_asn_lists (Some body) fetch now s) (pc_id c) = [] \<and>
    (\<exists>m. cached_manifest (refresh_asn_lists (Some body) fetch now s) = Some m \<and> pm_generated_at m = Some g)"
proof (cases "fresh_file (ps_manifest_file s) now \<and> pd_asn (ps_data s) \<noteq> []")
  case True
  then show ?thesis using cached empty by (simp add: refresh_asn_lists_def)
next
  case False
  then show ?thesis
    using refreshed_remote_list [OF m False c d, of fetch] refreshed_manifest [OF m False, of fetch] g cached
      remote_list_empty [OF empty, of True fetch] by auto
qed

text \<open>
  When the download of one list of AS numbers fails while the manifest is stored, the category stays
  empty: no later refresh asks for the list again, whatever the servers would answer and however often the
  refresh runs, for as long as the manifest keeps its \<open>generatedAt\<close>. Clients of that category then pass a
  policy that blocks it.
\<close>

theorem failed_download_never_retried:
  assumes "parse_asn_list_manifest body = Inr remote" and "pm_generated_at remote = Some g"
    and "distinct (map pc_id (pm_categories remote))" and "c \<in> set (pm_categories remote)"
    and "\<not> fresh_file (ps_manifest_file s) now" and "current_list s (pc_id c) = []" and "fetch (pc_file c) = None"
  shows "current_list (fold (\<lambda>(fetch, now). refresh_asn_lists (Some body) fetch now) later
    (refresh_asn_lists (Some body) fetch now s)) (pc_id c) = []"
proof -
  let ?P = "\<lambda>s. current_list s (pc_id c) = [] \<and> (\<exists>m. cached_manifest s = Some m \<and> pm_generated_at m = Some g)"
  have step: "?P (refresh_asn_lists (Some body) f t u)" if "?P u" for u f t
    using unchanged_stays_empty [OF assms(1,2,4,3)] that by blast
  have "?P (fold (\<lambda>(f, t). refresh_asn_lists (Some body) f t) later u)" if "?P u" for u
    using that by (induction later arbitrary: u) (auto simp: step)
  moreover have "?P (refresh_asn_lists (Some body) fetch now s)"
    using refreshed_remote_list [OF assms(1) _ assms(4,3), of s now fetch] refreshed_manifest [OF assms(1), of s now fetch]
      remote_list_empty [of s c _ fetch] assms(2,5,6,7) by auto
  ultimately show ?thesis by blast
qed

definition vpn_manifest :: json where
  "vpn_manifest = JObject [(''generatedAt'', JString ''2026-01-01''),
     (''categories'', JArray [JObject [(''id'', JString ''vpn''), (''file'', JString ''vpn.txt'')]])]"

definition fresh_install :: privacy_store where
  "fresh_install = \<lparr>ps_data = \<lparr>pd_tor = [], pd_asn = []\<rparr>, ps_categories = [], ps_tor_file = None, ps_manifest_file = None, ps_asn_files = []\<rparr>"

theorem failed_download_never_retried_witness:
  "current_list (refresh_asn_lists (Some vpn_manifest) (\<lambda>_. Some ''64500 Example'') (10 ^ 9)
     (refresh_asn_lists (Some vpn_manifest) (\<lambda>_. None) 0 fresh_install)) ''vpn'' = [] \<and>
   current_list (refresh_asn_lists (Some vpn_manifest) (\<lambda>_. Some ''64500 Example'') 0 fresh_install) ''vpn'' = [64500]"
proof -
  let ?c = "\<lparr>pc_id = ''vpn'', pc_label = ''vpn'', pc_description = [], pc_file = ''vpn.txt''\<rparr>"
  have "parse_asn_list_manifest vpn_manifest = Inr \<lparr>pm_generated_at = Some ''2026-01-01'', pm_categories = [?c]\<rparr>" by code_simp
  from failed_download_never_retried [OF this, of "''2026-01-01''" ?c fresh_install 0 "\<lambda>_. None" "[(\<lambda>_. Some ''64500 Example'', 10 ^ 9)]"]
  have "current_list (refresh_asn_lists (Some vpn_manifest) (\<lambda>_. Some ''64500 Example'') (10 ^ 9)
     (refresh_asn_lists (Some vpn_manifest) (\<lambda>_. None) 0 fresh_install)) ''vpn'' = []"
    by (simp add: fresh_install_def fresh_file_def current_list_def om_get_def)
  moreover have "current_list (refresh_asn_lists (Some vpn_manifest) (\<lambda>_. Some ''64500 Example'') 0 fresh_install) ''vpn'' = [64500]"
    by code_simp
  ultimately show ?thesis by simp
qed

end
