(* ===== verification/Route_Policy.thy ===== *)
theory Route_Policy
  imports Threat_Policy Http_Policy Challenge_Flow
begin

text \<open>
  Policies of routes (\<open>services/route-policy-service.ts\<close>) with their web socket part
  (\<open>services/websocket-policy-service.ts\<close>): what an administrator may submit, which requests a policy
  matches, which of the matching ones applies, and the cache of a site's policies. The challenge steps
  follow \<open>parseChallengePolicy\<close> of \<open>services/site-service.ts\<close>; the providers, \<open>JSON.parse\<close>, the clock and
  the random identifier are arguments. JSON columns are the values they denote.
\<close>

section \<open>Web socket policies\<close>

datatype ws_limit = ConnectTimeoutMs | IdleTimeoutSeconds | MaxPayloadBytes | PreOpenQueueBytes | UpstreamBufferBytes

definition ws_limits :: "ws_limit list" where
  "ws_limits = [ConnectTimeoutMs, IdleTimeoutSeconds, MaxPayloadBytes, PreOpenQueueBytes, UpstreamBufferBytes]"

datatype ws_mode = WsInherit | WsAllow | WsDeny

record ws_config =
  wc_enabled :: bool
  wc_maximum :: "ws_limit \<Rightarrow> int"

record ws_policy =
  wp_mode :: ws_mode
  wp_limits :: "ws_limit \<rightharpoonup> int"

record ws_resolved =
  wr_mode :: ws_mode
  wr_limits :: "ws_limit \<Rightarrow> int"

fun ws_key :: "ws_limit \<Rightarrow> string" where
  "ws_key ConnectTimeoutMs = ''connectTimeoutMs''"
| "ws_key IdleTimeoutSeconds = ''idleTimeoutSeconds''"
| "ws_key MaxPayloadBytes = ''maxPayloadBytes''"
| "ws_key PreOpenQueueBytes = ''preOpenQueueBytes''"
| "ws_key UpstreamBufferBytes = ''upstreamBufferBytes''"

fun ws_label :: "ws_limit \<Rightarrow> string" where
  "ws_label ConnectTimeoutMs = ''WebSocket connect timeout''"
| "ws_label IdleTimeoutSeconds = ''WebSocket idle timeout''"
| "ws_label MaxPayloadBytes = ''WebSocket maximum payload''"
| "ws_label PreOpenQueueBytes = ''WebSocket pre-open queue''"
| "ws_label UpstreamBufferBytes = ''WebSocket upstream buffer''"

fun ws_minimum :: "ws_limit \<Rightarrow> int" where
  "ws_minimum ConnectTimeoutMs = 1000"
| "ws_minimum IdleTimeoutSeconds = 10"
| "ws_minimum _ = 1024"

definition site_ws_mode :: "(rat \<Rightarrow> string) \<Rightarrow> js_value \<Rightarrow> ws_mode \<Rightarrow> ws_mode checked" where
  "site_ws_mode nt v fallback =
     (case v of
        None \<Rightarrow> Inr fallback
      | Some x \<Rightarrow>
          (let mode = to_lower (trim (js_string nt x)) in
           if mode = ''allow'' then Inr WsAllow else if mode = ''deny'' then Inr WsDeny
           else Inl ''Site WebSocket mode must be allow or deny''))"

definition route_ws_mode :: "(rat \<Rightarrow> string) \<Rightarrow> js_value \<Rightarrow> ws_mode \<Rightarrow> ws_mode checked" where
  "route_ws_mode nt v fallback =
     (case v of
        None \<Rightarrow> Inr fallback
      | Some x \<Rightarrow>
          (let mode = to_lower (trim (js_string nt x)) in
           if mode = ''inherit'' then Inr WsInherit
           else if mode = ''allow'' then Inr WsAllow else if mode = ''deny'' then Inr WsDeny
           else Inl ''Route WebSocket mode must be inherit, allow, or deny''))"

definition ws_limit_value :: "(rat \<Rightarrow> string) \<Rightarrow> ws_config \<Rightarrow> ws_limit \<Rightarrow> js_value \<Rightarrow> int option checked" where
  "ws_limit_value nt cf k v =
     (if is_absent v then Inr None
      else case js_integer_in nt (ws_minimum k) (wc_maximum cf k) v of
        None \<Rightarrow> Inl (ws_label k)
      | Some i \<Rightarrow> Inr (Some i))"

text \<open>An invalid stored limit is skipped.\<close>

definition stored_ws_limits :: "(rat \<Rightarrow> string) \<Rightarrow> ws_config \<Rightarrow> json \<Rightarrow> ws_limit \<rightharpoonup> int" where
  "stored_ws_limits nt cf parsed k = (case ws_limit_value nt cf k (j_get parsed (ws_key k)) of Inr (Some i) \<Rightarrow> Some i | _ \<Rightarrow> None)"

definition stored_site_ws_policy :: "(rat \<Rightarrow> string) \<Rightarrow> ws_config \<Rightarrow> json option \<Rightarrow> ws_policy" where
  "stored_site_ws_policy nt cf stored =
     (let parsed = input_object stored in
      \<lparr>wp_mode = (if j_get parsed ''mode'' = Some (JString ''deny'') then WsDeny else WsAllow),
       wp_limits = stored_ws_limits nt cf parsed\<rparr>)"

definition stored_route_ws_policy :: "(rat \<Rightarrow> string) \<Rightarrow> ws_config \<Rightarrow> json option \<Rightarrow> ws_policy" where
  "stored_route_ws_policy nt cf stored =
     (let parsed = input_object stored; mode = j_get parsed ''mode'' in
      \<lparr>wp_mode = (if mode = Some (JString ''allow'') then WsAllow else if mode = Some (JString ''deny'') then WsDeny else WsInherit),
       wp_limits = stored_ws_limits nt cf parsed\<rparr>)"

fun merge_ws_limits :: "(rat \<Rightarrow> string) \<Rightarrow> ws_config \<Rightarrow> json \<Rightarrow> ws_limit list \<Rightarrow> (ws_limit \<rightharpoonup> int) \<Rightarrow> (ws_limit \<rightharpoonup> int) checked" where
  "merge_ws_limits nt cf input [] m = Inr m"
| "merge_ws_limits nt cf input (k # ks) m =
     (if j_get input (ws_key k) = None then merge_ws_limits nt cf input ks m
      else and_then (ws_limit_value nt cf k (j_get input (ws_key k))) (\<lambda>limit. merge_ws_limits nt cf input ks (m(k := limit))))"

fun ws_mode_json :: "ws_mode \<Rightarrow> json" where
  "ws_mode_json WsInherit = JString ''inherit''"
| "ws_mode_json WsAllow = JString ''allow''"
| "ws_mode_json WsDeny = JString ''deny''"

definition ws_policy_json :: "ws_policy \<Rightarrow> json" where
  "ws_policy_json p = JObject ((''mode'', ws_mode_json (wp_mode p))
     # List.map_filter (\<lambda>k. map_option (\<lambda>i. (ws_key k, json_int i)) (wp_limits p k)) ws_limits)"

definition ws_object_value :: "js_value \<Rightarrow> string \<Rightarrow> json checked" where
  "ws_object_value v label = (if v = Some JNull then Inr (JObject []) else object_value v label)"

definition serialize_site_ws_policy :: "(rat \<Rightarrow> string) \<Rightarrow> ws_config \<Rightarrow> js_value \<Rightarrow> json option \<Rightarrow> json checked" where
  "serialize_site_ws_policy nt cf input existing =
     (if input = None then Inr (ws_policy_json (stored_site_ws_policy nt cf existing))
      else and_then (ws_object_value input ''Site WebSocket settings'') (\<lambda>v.
        let cur = (if input = Some JNull then \<lparr>wp_mode = WsAllow, wp_limits = Map.empty\<rparr> else stored_site_ws_policy nt cf existing) in
        and_then (merge_ws_limits nt cf v ws_limits (wp_limits cur)) (\<lambda>merged.
        and_then (site_ws_mode nt (j_get v ''mode'') (wp_mode cur)) (\<lambda>mode.
        Inr (ws_policy_json \<lparr>wp_mode = mode, wp_limits = merged\<rparr>)))))"

definition serialize_route_ws_policy :: "(rat \<Rightarrow> string) \<Rightarrow> ws_config \<Rightarrow> js_value \<Rightarrow> json option \<Rightarrow> json checked" where
  "serialize_route_ws_policy nt cf input existing =
     (if input = None then Inr (ws_policy_json (stored_route_ws_policy nt cf existing))
      else and_then (ws_object_value input ''Route WebSocket settings'') (\<lambda>v.
        let cur = (if input = Some JNull then \<lparr>wp_mode = WsInherit, wp_limits = Map.empty\<rparr> else stored_route_ws_policy nt cf existing) in
        and_then (merge_ws_limits nt cf v ws_limits (wp_limits cur)) (\<lambda>merged.
        and_then (route_ws_mode nt (j_get v ''mode'') (wp_mode cur)) (\<lambda>mode.
        Inr (ws_policy_json \<lparr>wp_mode = mode, wp_limits = merged\<rparr>)))))"

definition site_ws_policy_view :: "(rat \<Rightarrow> string) \<Rightarrow> ws_config \<Rightarrow> json option \<Rightarrow> ws_resolved" where
  "site_ws_policy_view nt cf stored =
     (let p = stored_site_ws_policy nt cf stored in
      \<lparr>wr_mode = wp_mode p, wr_limits = (\<lambda>k. case wp_limits p k of None \<Rightarrow> wc_maximum cf k | Some i \<Rightarrow> i)\<rparr>)"

text \<open>The route is given by its column, \<^term>\<open>None\<close> when no policy applies.\<close>

definition resolve_ws_policy :: "(rat \<Rightarrow> string) \<Rightarrow> ws_config \<Rightarrow> json option \<Rightarrow> json option option \<Rightarrow> ws_resolved" where
  "resolve_ws_policy nt cf site route =
     (let sp = site_ws_policy_view nt cf site;
          rp = map_option (stored_route_ws_policy nt cf) route;
          configured = (case rp of None \<Rightarrow> wr_mode sp | Some r \<Rightarrow> if wp_mode r = WsInherit then wr_mode sp else wp_mode r) in
      \<lparr>wr_mode = (if wc_enabled cf then configured else WsDeny),
       wr_limits = (\<lambda>k. case rp of None \<Rightarrow> wr_limits sp k
         | Some r \<Rightarrow> (case wp_limits r k of None \<Rightarrow> wr_limits sp k | Some i \<Rightarrow> i))\<rparr>)"

section \<open>Path patterns\<close>

text \<open>
  The pieces of a compiled pattern: a character, \<open>[^/]*\<close> and \<open>.*\<close>, which stops at a line end. The code
  puts the characters U+0000 and U+0001 in place of the stars before it expands them, so that those
  characters of a pattern act as stars. A validated pattern has no \<open>?\<close>, which alone would keep a meaning of
  its own in the expression.
\<close>

datatype glob = Exactly char | Segment | Anything

fun glob_tokens :: "string \<Rightarrow> glob list" where
  "glob_tokens [] = []"
| "glob_tokens (c # cs) =
     (if c = CHR ''*'' then
        (case cs of
           d # ds \<Rightarrow> if d = CHR ''*'' then Anything # glob_tokens ds else Segment # glob_tokens cs
         | [] \<Rightarrow> [Segment])
      else if c = CHR 0x01 then Segment # glob_tokens cs
      else if c = CHR 0x00 then Anything # glob_tokens cs
      else Exactly c # glob_tokens cs)"

definition base_token :: "char \<Rightarrow> glob" where
  "base_token c = (if c = CHR ''*'' \<or> c = CHR 0x01 then Segment else Exactly c)"

definition line_end :: "char \<Rightarrow> bool" where
  "line_end c \<longleftrightarrow> c = CHR 0x0a \<or> c = CHR 0x0d"

fun glob_matches :: "glob list \<Rightarrow> string \<Rightarrow> bool" where
  "glob_matches [] s = (s = [])"
| "glob_matches (Exactly c # ts) s = (case s of [] \<Rightarrow> False | d # ds \<Rightarrow> c = d \<and> glob_matches ts ds)"
| "glob_matches (Segment # ts) s =
     (glob_matches ts s \<or> (case s of [] \<Rightarrow> False | d # ds \<Rightarrow> d \<noteq> CHR ''/'' \<and> glob_matches (Segment # ts) ds))"
| "glob_matches (Anything # ts) s =
     (glob_matches ts s \<or> (case s of [] \<Rightarrow> False | d # ds \<Rightarrow> \<not> line_end d \<and> glob_matches (Anything # ts) ds))"

definition path_pattern_matches :: "string \<Rightarrow> string \<Rightarrow> bool" where
  "path_pattern_matches pattern path =
     (if ends_with ''/**'' pattern
      then (let ts = map base_token (take (length pattern - 3) pattern) in
            glob_matches ts path \<or> glob_matches (ts @ [Exactly CHR ''/'', Anything]) path)
      else glob_matches (glob_tokens pattern) path)"

section \<open>Records\<close>

datatype access_mode = AccessInherit | AccessChallenge | AccessBypass | AccessBlock

datatype rate_algorithm = FixedWindow | SlidingWindow | TokenBucket

datatype rate_key_mode = KeyIp | KeySessionOrIp | KeyHeaderOrIp

datatype rate_scope = PerPolicy | PerPath | PerMethodPath

record route_record =
  rp_id :: string
  rp_site_id :: string
  rp_name :: string
  rp_path_pattern :: string
  rp_methods :: json
  rp_access_mode :: access_mode
  rp_challenge_policy :: "json option"
  rp_rate_limit_enabled :: bool
  rp_rate_limit_algorithm :: rate_algorithm
  rp_rate_limit_window_ms :: int
  rp_rate_limit_max :: int
  rp_rate_limit_refill_rate :: int
  rp_rate_limit_refill_interval_ms :: int
  rp_rate_limit_precision_ms :: int
  rp_rate_limit_key_mode :: rate_key_mode
  rp_rate_limit_key_header :: "string option"
  rp_rate_limit_scope :: rate_scope
  rp_websocket_policy :: "json option"
  rp_http_policy :: "json option"
  rp_default_ip_action :: "ip_rule_action default_action"
  rp_default_country_action :: "ip_rule_action default_action"
  rp_bot_policy :: "json option"
  rp_network_privacy_policy :: "json option"
  rp_crowdsec_policy :: "json option"
  rp_priority :: int
  rp_enabled :: bool
  rp_created_at :: time
  rp_updated_at :: time

text \<open>What validation takes from elsewhere; \<open>rn_registry\<close> says whether a provider accepts a configuration.\<close>

record route_env =
  rn_nt :: "rat \<Rightarrow> string"
  rn_json_parse :: "string \<Rightarrow> json option"
  rn_registry :: "string \<Rightarrow> (json \<Rightarrow> bool) option"
  rn_normalize :: "string \<Rightarrow> json \<Rightarrow> json"
  rn_ws :: ws_config
  rn_http :: http_config

section \<open>Validation\<close>

definition required_string :: "(rat \<Rightarrow> string) \<Rightarrow> js_value \<Rightarrow> string \<Rightarrow> nat \<Rightarrow> string checked" where
  "required_string nt v label maximum =
     (let result = trim (js_text nt v) in
      if result = [] then Inl (label @ '' is required'')
      else if maximum < length result then Inl (label @ '' must be at most '' @ nat_text maximum @ '' characters'')
      else Inr result)"

definition boolean_value :: "js_value \<Rightarrow> bool \<Rightarrow> bool checked" where
  "boolean_value v fallback =
     (case v of
        None \<Rightarrow> Inr fallback
      | Some (JBool b) \<Rightarrow> Inr b
      | Some x \<Rightarrow>
          if x = JNumber 1 \<or> x = JString ''1'' \<or> x = JString ''true'' then Inr True
          else if x = JNumber 0 \<or> x = JString ''0'' \<or> x = JString ''false'' then Inr False
          else Inl ''Boolean value expected'')"

definition integer_value :: "(rat \<Rightarrow> string) \<Rightarrow> js_value \<Rightarrow> string \<Rightarrow> int \<Rightarrow> int \<Rightarrow> int \<Rightarrow> int checked" where
  "integer_value nt v label fallback minimum maximum =
     (case (if v = None \<or> v = Some (JString []) then (if minimum \<le> fallback \<and> fallback \<le> maximum then Some fallback else None)
            else js_integer_in nt minimum maximum v) of
        None \<Rightarrow> Inl label
      | Some i \<Rightarrow> Inr i)"

text \<open>\<open>value === undefined ? fallback : String(value).trim().toLowerCase()\<close> looked up among the allowed words.\<close>

definition choice_value :: "(rat \<Rightarrow> string) \<Rightarrow> (string \<times> 'a) list \<Rightarrow> string \<Rightarrow> js_value \<Rightarrow> 'a \<Rightarrow> 'a checked" where
  "choice_value nt words error v fallback =
     (case v of
        None \<Rightarrow> Inr fallback
      | Some x \<Rightarrow> (case map_of words (to_lower (trim (js_string nt x))) of None \<Rightarrow> Inl error | Some c \<Rightarrow> Inr c))"

definition access_mode_value :: "(rat \<Rightarrow> string) \<Rightarrow> js_value \<Rightarrow> access_mode \<Rightarrow> access_mode checked" where
  "access_mode_value nt = choice_value nt
     [(''inherit'', AccessInherit), (''challenge'', AccessChallenge), (''bypass'', AccessBypass), (''block'', AccessBlock)]
     ''Access mode must be inherit, challenge, bypass, or block''"

definition algorithm_value :: "(rat \<Rightarrow> string) \<Rightarrow> js_value \<Rightarrow> rate_algorithm \<Rightarrow> rate_algorithm checked" where
  "algorithm_value nt = choice_value nt
     [(''fixed-window'', FixedWindow), (''sliding-window'', SlidingWindow), (''token-bucket'', TokenBucket)]
     ''Rate-limit algorithm must be fixed-window, sliding-window, or token-bucket''"

definition key_mode_value :: "(rat \<Rightarrow> string) \<Rightarrow> js_value \<Rightarrow> rate_key_mode \<Rightarrow> rate_key_mode checked" where
  "key_mode_value nt = choice_value nt
     [(''ip'', KeyIp), (''session-or-ip'', KeySessionOrIp), (''header-or-ip'', KeyHeaderOrIp)]
     ''Rate-limit key mode must be ip, session-or-ip, or header-or-ip''"

definition rate_scope_value :: "(rat \<Rightarrow> string) \<Rightarrow> js_value \<Rightarrow> rate_scope \<Rightarrow> rate_scope checked" where
  "rate_scope_value nt = choice_value nt
     [(''policy'', PerPolicy), (''path'', PerPath), (''method-path'', PerMethodPath)]
     ''Rate-limit scope must be policy, path, or method-path''"

definition parse_default_network_action ::
  "(rat \<Rightarrow> string) \<Rightarrow> js_value \<Rightarrow> ip_rule_action default_action \<Rightarrow> ip_rule_action default_action checked" where
  "parse_default_network_action nt = choice_value nt
     [(''inherit'', Inherit), (''allow'', Configured Allow), (''block'', Configured Block), (''challenge'', Configured Challenge)]
     ''Default network action must be inherit, allow, block, or challenge''"

definition normalize_path_pattern :: "(rat \<Rightarrow> string) \<Rightarrow> js_value \<Rightarrow> string checked" where
  "normalize_path_pattern nt v =
     and_then (required_string nt v ''Path pattern'' 2048) (\<lambda>pattern.
       if \<not> starts_with ''/'' pattern then Inl ''Path pattern must start with /''
       else if CHR ''?'' \<in> set pattern \<or> CHR ''#'' \<in> set pattern
       then Inl ''Path pattern must not contain a query string or fragment''
       else if list_ex is_space pattern then Inl ''Path pattern must not contain whitespace''
       else Inr pattern)"

definition allowed_methods :: "string list" where
  "allowed_methods = [''GET'', ''HEAD'', ''POST'', ''PUT'', ''PATCH'', ''DELETE'', ''OPTIONS'']"

definition parse_route_methods :: "(rat \<Rightarrow> string) \<Rightarrow> js_value \<Rightarrow> string list checked" where
  "parse_route_methods nt v =
     (if is_absent v then Inr []
      else
        (let raw = (case v of Some (JArray xs) \<Rightarrow> map (js_string nt) xs
                      | Some x \<Rightarrow> split_on CHR '','' (js_string nt x) | None \<Rightarrow> []);
             methods = unique (filter (\<lambda>s. s \<noteq> []) (map (\<lambda>s. to_upper (trim s)) raw)) in
         if ''*'' \<in> set methods then Inr []
         else if list_all (\<lambda>m. m \<in> set allowed_methods) methods then Inr methods
         else Inl ''Unsupported HTTP method''))"

definition parse_stored_methods :: "(rat \<Rightarrow> string) \<Rightarrow> route_record \<Rightarrow> string list" where
  "parse_stored_methods nt r = (case parse_route_methods nt (Some (rp_methods r)) of Inl _ \<Rightarrow> [] | Inr ms \<Rightarrow> ms)"

definition challenge_step_of :: "route_env \<Rightarrow> bool \<Rightarrow> json \<Rightarrow> policy_step checked" where
  "challenge_step_of env strict item =
     (case item of
        JObject fs \<Rightarrow>
          and_then (required_string (rn_nt env) (map_of fs ''provider'') ''Challenge step provider'' 128) (\<lambda>name.
            if strict \<and> rn_registry env name = None then Inl ''Unknown challenge provider''
            else case (case map_of fs ''config'' of None \<Rightarrow> JObject [] | Some c \<Rightarrow> c) of
                JObject cs \<Rightarrow>
                  (case rn_registry env name of
                     Some accepts \<Rightarrow> if strict \<and> \<not> accepts (JObject cs) then Inl ''Challenge step config is invalid''
                       else Inr \<lparr>ps_provider = name, ps_config = JObject cs\<rparr>
                   | None \<Rightarrow> Inr \<lparr>ps_provider = name, ps_config = JObject cs\<rparr>)
              | _ \<Rightarrow> Inl ''Challenge step config must be an object'')
      | _ \<Rightarrow> Inl ''Challenge step must be an object'')"

text \<open>A value that is parsed already, as in a stored column, and a submitted one, whose text is parsed first.\<close>

definition challenge_steps :: "route_env \<Rightarrow> bool \<Rightarrow> js_value \<Rightarrow> policy_step list checked" where
  "challenge_steps env strict v =
     (case v of
        Some (JArray items) \<Rightarrow>
          if length items < 1 \<or> 16 < length items then Inl ''Challenge policy must contain between 1 and 16 challenge steps''
          else check_all (challenge_step_of env strict) items
      | _ \<Rightarrow> Inl ''Challenge policy must contain between 1 and 16 challenge steps'')"

definition parse_challenge_policy :: "route_env \<Rightarrow> bool \<Rightarrow> js_value \<Rightarrow> policy_step list option \<Rightarrow> policy_step list checked" where
  "parse_challenge_policy env strict v fallback =
     (case v of
        Some (JString s) \<Rightarrow>
          (case rn_json_parse env s of
             None \<Rightarrow> Inl ''Challenge policy must be valid JSON''
           | Some j \<Rightarrow> challenge_steps env strict (Some j))
      | None \<Rightarrow> (case fallback of Some p \<Rightarrow> Inr p | None \<Rightarrow> challenge_steps env strict None)
      | Some j \<Rightarrow> challenge_steps env strict (Some j))"

definition normalize_challenge_policy_for_storage :: "route_env \<Rightarrow> policy_step list \<Rightarrow> policy_step list" where
  "normalize_challenge_policy_for_storage env = map (\<lambda>s. s\<lparr>ps_config := rn_normalize env (ps_provider s) (ps_config s)\<rparr>)"

definition challenge_policy_json :: "policy_step list \<Rightarrow> json" where
  "challenge_policy_json steps = JArray (map (\<lambda>s. JObject [(''provider'', JString (ps_provider s)), (''config'', ps_config s)]) steps)"

definition optional_challenge_policy :: "route_env \<Rightarrow> js_value \<Rightarrow> policy_step list option \<Rightarrow> policy_step list option checked" where
  "optional_challenge_policy env v fallback =
     (if v = None then Inr fallback
      else if is_absent v then Inr None
      else and_then (parse_challenge_policy env True v None) (\<lambda>p. Inr (Some p)))"

definition parse_stored_challenge :: "route_env \<Rightarrow> json option \<Rightarrow> policy_step list option checked" where
  "parse_stored_challenge env stored =
     (case stored of None \<Rightarrow> Inr None | Some j \<Rightarrow> and_then (challenge_steps env True (Some j)) (\<lambda>p. Inr (Some p)))"

definition rate_header_name :: "(rat \<Rightarrow> string) \<Rightarrow> js_value \<Rightarrow> rate_key_mode \<Rightarrow> string option \<Rightarrow> string option checked" where
  "rate_header_name nt v mode fallback =
     (let raw = (if v = None then fallback else Some (to_lower (trim (js_text nt v)))) in
      if mode \<noteq> KeyHeaderOrIp then Inr None
      else case raw of
        None \<Rightarrow> Inl ''Header name is required when rate limiting by header''
      | Some n \<Rightarrow>
          if n = [] then Inl ''Header name is required when rate limiting by header''
          else if 128 < length n \<or> \<not> http_token n then Inl ''Rate-limit header name is invalid''
          else Inr (Some n))"

definition nullish_or :: "js_value \<Rightarrow> js_value \<Rightarrow> js_value" where
  "nullish_or v w = (if v = None \<or> v = Some JNull then w else v)"

text \<open>\<open>existing?.field ?? default\<close>\<close>

definition old_value :: "route_record option \<Rightarrow> (route_record \<Rightarrow> 'a) \<Rightarrow> 'a \<Rightarrow> 'a" where
  "old_value existing g d = (case existing of None \<Rightarrow> d | Some e \<Rightarrow> g e)"

text \<open>\<open>buildRecord\<close>: an invalid field of \<open>existing\<close> that the input leaves out is refused as well.\<close>

definition build_record ::
  "route_env \<Rightarrow> string \<Rightarrow> string \<Rightarrow> time \<Rightarrow> json \<Rightarrow> route_record option \<Rightarrow> route_record checked" where
  "build_record env random_id sid now input existing =
     (let nt = rn_nt env; f = j_get input in
      and_then (key_mode_value nt (f ''rateLimitKeyMode'') (old_value existing rp_rate_limit_key_mode KeyIp)) (\<lambda>kmode.
      and_then (access_mode_value nt (f ''accessMode'') (old_value existing rp_access_mode AccessInherit)) (\<lambda>amode.
      and_then (case existing of None \<Rightarrow> Inr None | Some e \<Rightarrow> parse_stored_challenge env (rp_challenge_policy e)) (\<lambda>old_policy.
      and_then (optional_challenge_policy env (f ''challengePolicy'') old_policy) (\<lambda>policy.
      and_then (required_string nt (nullish_or (f ''name'') (map_option (\<lambda>e. JString (rp_name e)) existing)) ''Policy name'' 255) (\<lambda>name.
      and_then (normalize_path_pattern nt (nullish_or (f ''pathPattern'') (map_option (\<lambda>e. JString (rp_path_pattern e)) existing))) (\<lambda>pattern.
      and_then (parse_route_methods nt (nullish_or (f ''methods'')
        (Some (json_strings (case existing of None \<Rightarrow> [] | Some e \<Rightarrow> parse_stored_methods nt e))))) (\<lambda>methods.
      and_then (boolean_value (f ''rateLimitEnabled'') (old_value existing rp_rate_limit_enabled False)) (\<lambda>rate_enabled.
      and_then (algorithm_value nt (f ''rateLimitAlgorithm'') (old_value existing rp_rate_limit_algorithm SlidingWindow)) (\<lambda>algorithm.
      and_then (integer_value nt (f ''rateLimitWindowMs'') ''Rate-limit window'' (old_value existing rp_rate_limit_window_ms 60000) 100 86400000) (\<lambda>window.
      and_then (integer_value nt (f ''rateLimitMax'') ''Rate-limit maximum'' (old_value existing rp_rate_limit_max 120) 1 1000000) (\<lambda>maximum.
      and_then (integer_value nt (f ''rateLimitRefillRate'') ''Token refill rate'' (old_value existing rp_rate_limit_refill_rate 10) 1 1000000) (\<lambda>refill.
      and_then (integer_value nt (f ''rateLimitRefillIntervalMs'') ''Token refill interval'' (old_value existing rp_rate_limit_refill_interval_ms 1000) 10 86400000) (\<lambda>interval.
      and_then (integer_value nt (f ''rateLimitPrecisionMs'') ''Sliding-window precision'' (old_value existing rp_rate_limit_precision_ms 100) 10 60000) (\<lambda>precision.
      and_then (rate_header_name nt (f ''rateLimitKeyHeader'') kmode (old_value existing rp_rate_limit_key_header None)) (\<lambda>key_header.
      and_then (rate_scope_value nt (f ''rateLimitScope'') (old_value existing rp_rate_limit_scope PerPolicy)) (\<lambda>rscope.
      and_then (serialize_route_ws_policy nt (rn_ws env) (f ''websocket'') (old_value existing rp_websocket_policy None)) (\<lambda>websocket.
      and_then (serialize_route_http_policy nt (rn_http env) (f ''http'') (old_value existing rp_http_policy None)) (\<lambda>http.
      and_then (parse_default_network_action nt (f ''defaultIpAction'') (old_value existing rp_default_ip_action Inherit)) (\<lambda>ip_action.
      and_then (parse_default_network_action nt (f ''defaultCountryAction'') (old_value existing rp_default_country_action Inherit)) (\<lambda>country_action.
      and_then (serialize_route_bot_policy nt (f ''botPolicy'') (old_value existing rp_bot_policy None)) (\<lambda>bot_policy.
      and_then (serialize_route_network_privacy_policy nt (f ''networkPrivacyPolicy'') (old_value existing rp_network_privacy_policy None)) (\<lambda>privacy_policy.
      and_then (serialize_route_crowdsec_policy nt (f ''crowdSecPolicy'') (old_value existing rp_crowdsec_policy None)) (\<lambda>crowdsec.
      and_then (integer_value nt (f ''priority'') ''Priority'' (old_value existing rp_priority 0) (-100000) 100000) (\<lambda>priority.
      and_then (boolean_value (f ''enabled'') (old_value existing rp_enabled False)) (\<lambda>enabled.
      Inr \<lparr>rp_id = old_value existing rp_id random_id, rp_site_id = sid, rp_name = name, rp_path_pattern = pattern,
        rp_methods = json_strings methods, rp_access_mode = amode,
        rp_challenge_policy = map_option (\<lambda>p. challenge_policy_json (normalize_challenge_policy_for_storage env p)) policy,
        rp_rate_limit_enabled = rate_enabled, rp_rate_limit_algorithm = algorithm, rp_rate_limit_window_ms = window,
        rp_rate_limit_max = maximum, rp_rate_limit_refill_rate = refill, rp_rate_limit_refill_interval_ms = interval,
        rp_rate_limit_precision_ms = precision, rp_rate_limit_key_mode = kmode, rp_rate_limit_key_header = key_header,
        rp_rate_limit_scope = rscope, rp_websocket_policy = Some websocket, rp_http_policy = Some http,
        rp_default_ip_action = ip_action, rp_default_country_action = country_action, rp_bot_policy = bot_policy,
        rp_network_privacy_policy = privacy_policy, rp_crowdsec_policy = crowdsec, rp_priority = priority,
        rp_enabled = enabled, rp_created_at = old_value existing rp_created_at now, rp_updated_at = now\<rparr>))))))))))))))))))))))))))"

section \<open>The policies of a site\<close>

text \<open>The table, whether a site exists, and the service's state: the cached list with the time it expires.\<close>

record route_state =
  rv_sites :: "string list"
  rv_policies :: "route_record list"
  rv_cache :: "string \<rightharpoonup> time \<times> route_record list"
  rv_static :: cache
  rv_rules :: "ip_rule_action rule_service"

definition route_policy_cache_ttl_ms :: time where
  "route_policy_cache_ttl_ms = 5000"

text \<open>\<open>ORDER BY priority DESC, created_at ASC\<close>\<close>

definition repository_policies :: "route_state \<Rightarrow> string \<Rightarrow> route_record list" where
  "repository_policies st sid =
     sort_key (\<lambda>r. - rp_priority r) (sort_key rp_created_at (filter (\<lambda>r. rp_site_id r = sid) (rv_policies st)))"

definition route_policy_by_id :: "route_state \<Rightarrow> string \<Rightarrow> string \<Rightarrow> route_record option" where
  "route_policy_by_id st i sid = find (\<lambda>r. rp_id r = i \<and> rp_site_id r = sid) (rv_policies st)"

definition invalidate_route_policy_cache :: "string \<Rightarrow> route_state \<Rightarrow> route_state" where
  "invalidate_route_policy_cache sid st = st\<lparr>rv_cache := (rv_cache st)(sid := None)\<rparr>"

definition invalidate_all_route_policy_cache :: "route_state \<Rightarrow> route_state" where
  "invalidate_all_route_policy_cache st = st\<lparr>rv_cache := Map.empty\<rparr>"

definition route_scope :: "string \<Rightarrow> string \<Rightarrow> cache_scope" where
  "route_scope sid i = \<lparr>sc_site_id = Some sid, sc_route_policy_id = Some i, sc_path_prefix = None\<rparr>"

definition create_route_policy ::
  "route_env \<Rightarrow> string \<Rightarrow> string \<Rightarrow> time \<Rightarrow> json \<Rightarrow> route_state \<Rightarrow> route_record checked \<times> route_state" where
  "create_route_policy env random_id sid now input st =
     (if sid \<notin> set (rv_sites st) then (Inl ''Site not found'', st)
      else case build_record env random_id sid now input None of
        Inl e \<Rightarrow> (Inl e, st)
      | Inr r \<Rightarrow> (Inr r, invalidate_route_policy_cache sid (st\<lparr>rv_policies := rv_policies st @ [r]\<rparr>)))"

definition update_route_policy ::
  "route_env \<Rightarrow> string \<Rightarrow> string \<Rightarrow> time \<Rightarrow> json \<Rightarrow> route_state \<Rightarrow> route_record checked \<times> route_state" where
  "update_route_policy env sid i now input st =
     (case route_policy_by_id st i sid of
        None \<Rightarrow> (Inl ''Route policy not found'', st)
      | Some old \<Rightarrow>
          (case build_record env i sid now input (Some old) of
             Inl e \<Rightarrow> (Inl e, st)
           | Inr r \<Rightarrow> (Inr r, invalidate_route_policy_cache sid
               (st\<lparr>rv_policies := map (\<lambda>x. if rp_id x = i \<and> rp_site_id x = sid then r else x) (rv_policies st),
                   rv_static := snd (purge (route_scope sid i) (rv_static st))\<rparr>))))"

definition delete_route_policy :: "string \<Rightarrow> string \<Rightarrow> route_state \<Rightarrow> unit checked \<times> route_state" where
  "delete_route_policy sid i st =
     (case route_policy_by_id st i sid of
        None \<Rightarrow> (Inl ''Route policy not found'', st)
      | Some _ \<Rightarrow>
          (let rules = tables (rv_rules st);
               kept = rules\<lparr>ip_rules := filter (\<lambda>r. ir_owner r \<noteq> i) (ip_rules rules),
                            country_rules := filter (\<lambda>r. cr_owner r \<noteq> i) (country_rules rules),
                            asn_rules := filter (\<lambda>r. ar_owner r \<noteq> i) (asn_rules rules)\<rparr> in
           (Inr (), (invalidate_route_policy_cache sid
             (st\<lparr>rv_policies := filter (\<lambda>r. \<not> (rp_id r = i \<and> rp_site_id r = sid)) (rv_policies st),
                 rv_static := snd (purge (route_scope sid i) (rv_static st))\<rparr>))
             \<lparr>rv_rules := invalidate_network_policy i ((rv_rules st)\<lparr>tables := kept\<rparr>)\<rparr>)))"

definition policies_for_site :: "string \<Rightarrow> time \<Rightarrow> route_state \<Rightarrow> route_record list \<times> route_state" where
  "policies_for_site sid now st =
     (case rv_cache st sid of
        Some (expires, ps) \<Rightarrow>
          if now < expires then (ps, st)
          else (let ps' = repository_policies st sid in
                (ps', st\<lparr>rv_cache := (rv_cache st)(sid \<mapsto> (now + route_policy_cache_ttl_ms, ps'))\<rparr>))
      | None \<Rightarrow>
          (let ps' = repository_policies st sid in
           (ps', st\<lparr>rv_cache := (rv_cache st)(sid \<mapsto> (now + route_policy_cache_ttl_ms, ps'))\<rparr>)))"

section \<open>The policy of a request\<close>

text \<open>\<open>replaceAll("**", "")\<close> leaves a single star where a run of stars has odd length.\<close>

fun drop_double_stars :: "string \<Rightarrow> string" where
  "drop_double_stars [] = []"
| "drop_double_stars (c # cs) =
     (case cs of
        d # ds \<Rightarrow> if c = CHR ''*'' \<and> d = CHR ''*'' then drop_double_stars ds else c # drop_double_stars cs
      | [] \<Rightarrow> [c])"

fun has_double_star :: "string \<Rightarrow> bool" where
  "has_double_star (c # d # ds) = (c = CHR ''*'' \<and> d = CHR ''*'' \<or> has_double_star (d # ds))"
| "has_double_star _ = False"

definition route_specificity :: "(rat \<Rightarrow> string) \<Rightarrow> route_record \<Rightarrow> int" where
  "route_specificity nt r =
     (let literal = length (filter (\<lambda>c. c \<noteq> CHR ''*'') (drop_double_stars (rp_path_pattern r))) in
      int literal * 100 + (if parse_stored_methods nt r = [] then 0 else 10) - (if has_double_star (rp_path_pattern r) then 2 else 0))"

definition route_policy_matches :: "(rat \<Rightarrow> string) \<Rightarrow> route_record \<Rightarrow> string \<Rightarrow> string \<Rightarrow> bool" where
  "route_policy_matches nt r verb path \<longleftrightarrow>
     rp_enabled r \<and> (parse_stored_methods nt r = [] \<or> to_upper verb \<in> set (parse_stored_methods nt r)) \<and>
     path_pattern_matches (rp_path_pattern r) path"

text \<open>The comparison of \<open>matches.sort\<close> as three stable sorts, the last key first.\<close>

definition by_precedence :: "(rat \<Rightarrow> string) \<Rightarrow> route_record list \<Rightarrow> route_record list" where
  "by_precedence nt rs = sort_key (\<lambda>r. - rp_priority r) (sort_key (\<lambda>r. - route_specificity nt r) (sort_key rp_created_at rs))"

definition matching_route_policy ::
  "(rat \<Rightarrow> string) \<Rightarrow> string \<Rightarrow> time \<Rightarrow> string \<Rightarrow> string \<Rightarrow> route_state \<Rightarrow> route_record option \<times> route_state" where
  "matching_route_policy nt sid now verb path st =
     (let (ps, st') = policies_for_site sid now st;
          matches = by_precedence nt (filter (\<lambda>r. route_policy_matches nt r verb path) ps) in
      (if matches = [] then None else Some (hd matches), st'))"

text \<open>The columns of a site that the decision on a request reads.\<close>

record site_row =
  sr_network :: site
  sr_default_access_mode :: access_mode
  sr_challenge_policy :: json
  sr_websocket_policy :: "json option"
  sr_http_policy :: "json option"
  sr_bot_policy :: "json option"
  sr_network_privacy_policy :: "json option"
  sr_crowdsec_policy :: "json option"
  sr_load_balancing_affinity :: bool

record resolved_route =
  rr_policy :: "route_record option"
  rr_access_mode :: access_mode
  rr_challenge_policy :: "policy_step list"
  rr_websocket :: ws_resolved
  rr_http :: resolved_http_policy

definition resolve_route_policy ::
  "route_env \<Rightarrow> site_row \<Rightarrow> time \<Rightarrow> string \<Rightarrow> string \<Rightarrow> route_state \<Rightarrow> resolved_route checked \<times> route_state" where
  "resolve_route_policy env s now verb path st =
     (let nt = rn_nt env; sid = site_id (sr_network s);
          (policy, st') = matching_route_policy nt sid now verb path st;
          configured = (case policy of None \<Rightarrow> AccessInherit | Some r \<Rightarrow> rp_access_mode r) in
      (and_then (challenge_steps env True (Some (case policy of None \<Rightarrow> sr_challenge_policy s
           | Some r \<Rightarrow> (case rp_challenge_policy r of None \<Rightarrow> sr_challenge_policy s | Some j \<Rightarrow> j)))) (\<lambda>steps.
       Inr \<lparr>rr_policy = policy,
         rr_access_mode = (if configured = AccessInherit then sr_default_access_mode s else configured),
         rr_challenge_policy = steps,
         rr_websocket = resolve_ws_policy nt (rn_ws env) (sr_websocket_policy s) (map_option rp_websocket_policy policy),
         rr_http = resolve_http_policy nt (rn_http env) sid (sr_http_policy s) (map_option (\<lambda>r. (rp_id r, rp_http_policy r)) policy)\<rparr>),
       st'))"

section \<open>Web socket limits stay within the instance\<close>

definition ws_config_ok :: "ws_config \<Rightarrow> bool" where
  "ws_config_ok cf \<longleftrightarrow> (\<forall>k. ws_minimum k \<le> wc_maximum cf k)"

lemma ws_limit_value_bounds: "ws_limit_value nt cf k v = Inr (Some i) \<Longrightarrow> ws_minimum k \<le> i \<and> i \<le> wc_maximum cf k"
  by (auto simp: ws_limit_value_def dest: js_integer_in_bounds split: if_splits option.splits)

lemma stored_ws_limits_bounds: "stored_ws_limits nt cf j k = Some i \<Longrightarrow> ws_minimum k \<le> i \<and> i \<le> wc_maximum cf k"
  using ws_limit_value_bounds [of nt cf k "j_get j (ws_key k)"] by (auto simp: stored_ws_limits_def split: sum.splits option.splits)

lemma stored_site_ws_policy_simps:
  "wp_limits (stored_site_ws_policy nt cf s) = stored_ws_limits nt cf (input_object s)"
  "wp_mode (stored_site_ws_policy nt cf s) \<noteq> WsInherit"
  "wp_limits (stored_route_ws_policy nt cf s) = stored_ws_limits nt cf (input_object s)"
  by (simp_all add: stored_site_ws_policy_def stored_route_ws_policy_def Let_def)

lemma site_view_bounds:
  "ws_config_ok cf \<Longrightarrow> ws_minimum k \<le> wr_limits (site_ws_policy_view nt cf s) k \<and> wr_limits (site_ws_policy_view nt cf s) k \<le> wc_maximum cf k"
  using stored_ws_limits_bounds [of nt cf "input_object s" k]
  by (auto simp: site_ws_policy_view_def Let_def stored_site_ws_policy_simps ws_config_ok_def split: option.splits)

text \<open>
  C29: whatever text the columns of the site and of the route hold, written under other limits or by hand,
  the policy of a web socket keeps every limit between the minimum of the code and the maximum of the
  instance, resolves to allow or deny, and denies when the instance has web sockets switched off.
\<close>

theorem web_socket_limits_bounded:
  assumes "ws_config_ok cf"
  shows "(\<forall>k. ws_minimum k \<le> wr_limits (resolve_ws_policy nt cf s r) k \<and> wr_limits (resolve_ws_policy nt cf s r) k \<le> wc_maximum cf k) \<and>
    wr_mode (resolve_ws_policy nt cf s r) \<in> {WsAllow, WsDeny} \<and>
    (\<not> wc_enabled cf \<longrightarrow> wr_mode (resolve_ws_policy nt cf s r) = WsDeny)"
proof -
  have "wr_mode (site_ws_policy_view nt cf s) \<in> {WsAllow, WsDeny}"
    using stored_site_ws_policy_simps(2) [of nt cf s] by (cases "wp_mode (stored_site_ws_policy nt cf s)") (auto simp: site_ws_policy_view_def)
  then have mode: "wr_mode (resolve_ws_policy nt cf s r) \<in> {WsAllow, WsDeny}"
    using ws_mode.exhaust by (auto simp: resolve_ws_policy_def Let_def split: option.splits)
  have "ws_minimum k \<le> wr_limits (resolve_ws_policy nt cf s r) k \<and> wr_limits (resolve_ws_policy nt cf s r) k \<le> wc_maximum cf k" for k
    using site_view_bounds [OF assms, of k nt s]
    by (auto simp: resolve_ws_policy_def Let_def stored_site_ws_policy_simps split: option.splits dest: stored_ws_limits_bounds)
  with mode show ?thesis by (simp add: resolve_ws_policy_def Let_def)
qed

definition usual_ws_config :: ws_config where
  "usual_ws_config = \<lparr>wc_enabled = True, wc_maximum = (\<lambda>k. case k of ConnectTimeoutMs \<Rightarrow> 15000 | IdleTimeoutSeconds \<Rightarrow> 120
     | MaxPayloadBytes \<Rightarrow> 16777216 | PreOpenQueueBytes \<Rightarrow> 1048576 | UpstreamBufferBytes \<Rightarrow> 16777216)\<rparr>"

definition long_idle :: json where
  "long_idle = JObject [(''mode'', JString ''deny''), (''idleTimeoutSeconds'', JNumber 600), (''connectTimeoutMs'', JNumber 2000)]"

theorem web_socket_limits_bounded_witness:
  "wr_limits (resolve_ws_policy (\<lambda>_. []) usual_ws_config (Some long_idle) None) IdleTimeoutSeconds \<le> 120 \<and>
   wr_limits (resolve_ws_policy (\<lambda>_. []) usual_ws_config (Some long_idle) None) ConnectTimeoutMs = 2000"
proof -
  have ok: "ws_config_ok usual_ws_config" by (simp add: ws_config_ok_def usual_ws_config_def split: ws_limit.splits)
  have "wr_limits (resolve_ws_policy (\<lambda>_. []) usual_ws_config (Some long_idle) None) ConnectTimeoutMs = 2000" by code_simp
  with web_socket_limits_bounded [OF ok, of "\<lambda>_. []" "Some long_idle" None] show ?thesis
    by (auto simp: usual_ws_config_def dest!: spec [of _ IdleTimeoutSeconds])
qed

section \<open>What the patterns match\<close>

lemma glob_matches_star:
  "glob_matches (Segment # ts) [] = glob_matches ts []"
  "glob_matches (Segment # ts) (d # ds) \<longleftrightarrow> glob_matches ts (d # ds) \<or> d \<noteq> CHR ''/'' \<and> glob_matches (Segment # ts) ds"
  "glob_matches (Anything # ts) [] = glob_matches ts []"
  "glob_matches (Anything # ts) (d # ds) \<longleftrightarrow> glob_matches ts (d # ds) \<or> \<not> line_end d \<and> glob_matches (Anything # ts) ds"
  by simp_all

declare glob_matches.simps(3,4) [simp del]
declare glob_matches_star [simp]

lemma split_Cons:
  "(\<exists>a b. e # es = a @ c # b \<and> P a \<and> Q b) \<longleftrightarrow> (e = c \<and> P [] \<and> Q es) \<or> (\<exists>a b. es = a @ c # b \<and> P (e # a) \<and> Q b)"
  by (auto simp: Cons_eq_append_conv)

lemma glob_matches_append:
  "glob_matches (xs @ Exactly c # ys) s \<longleftrightarrow> (\<exists>a b. s = a @ c # b \<and> glob_matches xs a \<and> glob_matches ys b)"
proof (induction xs s rule: glob_matches.induct)
  case (1 s)
  show ?case by (cases s) auto
next
  case (2 d ts s)
  then show ?case
    by (cases s) (simp_all only: append_Cons split_Cons glob_matches.simps list.case simp_thms Nil_is_append_conv list.distinct, blast+)
next
  case (3 ts s)
  show ?case
  proof (cases s)
    case Nil
    with 3(1) show ?thesis by simp
  next
    case (Cons e es)
    have 1: "glob_matches (ts @ Exactly c # ys) (e # es) \<longleftrightarrow> (e = c \<and> glob_matches ts [] \<and> glob_matches ys es) \<or>
        (\<exists>a b. es = a @ c # b \<and> glob_matches ts (e # a) \<and> glob_matches ys b)"
      using 3(1) split_Cons [of e es c "glob_matches ts"] by (simp add: Cons)
    have 2: "e \<noteq> CHR ''/'' \<Longrightarrow> glob_matches (Segment # ts @ Exactly c # ys) es \<longleftrightarrow>
        (\<exists>a b. es = a @ c # b \<and> glob_matches (Segment # ts) a \<and> glob_matches ys b)"
      using 3(2) [OF Cons] by simp
    show ?thesis unfolding Cons split_Cons using 1 2 by (simp only: append_Cons glob_matches_star) blast
  qed
next
  case (4 ts s)
  show ?case
  proof (cases s)
    case Nil
    with 4(1) show ?thesis by simp
  next
    case (Cons e es)
    have 1: "glob_matches (ts @ Exactly c # ys) (e # es) \<longleftrightarrow> (e = c \<and> glob_matches ts [] \<and> glob_matches ys es) \<or>
        (\<exists>a b. es = a @ c # b \<and> glob_matches ts (e # a) \<and> glob_matches ys b)"
      using 4(1) split_Cons [of e es c "glob_matches ts"] by (simp add: Cons)
    have 2: "\<not> line_end e \<Longrightarrow> glob_matches (Anything # ts @ Exactly c # ys) es \<longleftrightarrow>
        (\<exists>a b. es = a @ c # b \<and> glob_matches (Anything # ts) a \<and> glob_matches ys b)"
      using 4(2) [OF Cons] by simp
    show ?thesis unfolding Cons split_Cons using 1 2 by (simp only: append_Cons glob_matches_star) blast
  qed
qed

lemma glob_tokens_step: "\<not> has_double_star (c # cs) \<Longrightarrow> c \<noteq> CHR 0x00 \<Longrightarrow> glob_tokens (c # cs) = base_token c # glob_tokens cs"
  by (cases cs) (auto simp: base_token_def)

lemma no_double_star_tail: "\<not> has_double_star (c # cs) \<Longrightarrow> \<not> has_double_star cs"
  by (cases cs) auto

lemma glob_tokens_plain: "\<not> has_double_star p \<Longrightarrow> CHR 0x00 \<notin> set p \<Longrightarrow> glob_tokens p = map base_token p"
proof (induction p)
  case (Cons c p)
  then show ?case using glob_tokens_step [of c p] no_double_star_tail [of c p] by auto
qed simp

lemma split_on_subset: "w \<in> set (split_on d p) \<Longrightarrow> set w \<subseteq> set p"
  using split_on_chars [of _ p d]
proof (induction "length p" arbitrary: p rule: less_induct)
  case less
  show ?case
  proof (cases "d \<in> set p")
    case False
    then show ?thesis using less.prems by (simp add: split_on_clean)
  next
    case True
    then obtain a b where p: "p = a @ d # b" and a: "d \<notin> set a" using split_list_first by metis
    then have "w = a \<or> w \<in> set (split_on d b)" using less.prems(1) by (simp add: split_on_append)
    then show ?thesis using less.hyps [of b] split_on_chars [of _ b d] by (auto simp: p)
  qed
qed

lemma segment_no_slash: "CHR ''/'' \<notin> set w \<Longrightarrow> glob_matches (map base_token w) s \<Longrightarrow> CHR ''/'' \<notin> set s"
proof (induction w arbitrary: s)
  case (Cons c w)
  have star: "glob_matches (Segment # map base_token w) s \<Longrightarrow> CHR ''/'' \<notin> set s"
    using Cons.IH Cons.prems(1) by (induction s) (force dest: Cons.IH)+
  show ?case
  proof (cases "base_token c = Segment")
    case True
    then show ?thesis using star Cons.prems(2) by simp
  next
    case False
    then have "base_token c = Exactly c" by (auto simp: base_token_def split: if_splits)
    with Cons show ?thesis by (cases s) auto
  qed
qed simp

lemma first_slash: "CHR ''/'' \<in> set s \<Longrightarrow> \<exists>a b. s = a @ CHR ''/'' # b \<and> CHR ''/'' \<notin> set a"
  by (drule split_list_first) auto

lemma first_slash_unique:
  "CHR ''/'' \<notin> set a \<Longrightarrow> CHR ''/'' \<notin> set a' \<Longrightarrow> a @ CHR ''/'' # b = a' @ CHR ''/'' # b' \<longleftrightarrow> a = a' \<and> b = b'"
proof (induction a arbitrary: a')
  case Nil
  then show ?case by (cases a') auto
next
  case (Cons x a)
  then show ?case by (cases a') auto
qed

lemma base_token_slash [simp]: "base_token CHR ''/'' = Exactly CHR ''/''"
  by (simp add: base_token_def)

lemma segments_match:
  "glob_matches (map base_token p) s \<longleftrightarrow>
     list_all2 (\<lambda>w t. glob_matches (map base_token w) t) (split_on CHR ''/'' p) (split_on CHR ''/'' s)"
proof (induction "length p" arbitrary: p s rule: less_induct)
  case less
  show ?case
  proof (cases "CHR ''/'' \<in> set p")
    case False
    then have p: "split_on CHR ''/'' p = [p]" by (rule split_on_clean)
    show ?thesis
    proof (cases "CHR ''/'' \<in> set s")
      case True
      then obtain a b where "s = a @ CHR ''/'' # b" "CHR ''/'' \<notin> set a" using first_slash by blast
      then have "split_on CHR ''/'' s = a # split_on CHR ''/'' b" by (simp add: split_on_append)
      then show ?thesis using segment_no_slash [OF False] True by (auto simp: p list_all2_Cons1)
    qed (simp add: p split_on_clean)
  next
    case True
    then obtain w q where p: "p = w @ CHR ''/'' # q" and w: "CHR ''/'' \<notin> set w" using first_slash by blast
    have m: "glob_matches (map base_token p) s \<longleftrightarrow>
        (\<exists>a b. s = a @ CHR ''/'' # b \<and> glob_matches (map base_token w) a \<and> glob_matches (map base_token q) b)"
      by (simp add: p glob_matches_append)
    have sp: "split_on CHR ''/'' p = w # split_on CHR ''/'' q" by (simp add: p split_on_append w)
    show ?thesis
    proof (cases "CHR ''/'' \<in> set s")
      case False
      then show ?thesis unfolding m sp by (auto simp: split_on_clean list_all2_Cons1)
    next
      case True
      then obtain a b where s: "s = a @ CHR ''/'' # b" and a: "CHR ''/'' \<notin> set a" using first_slash by blast
      have "glob_matches (map base_token p) s \<longleftrightarrow> glob_matches (map base_token w) a \<and> glob_matches (map base_token q) b"
      proof -
        have "a @ CHR ''/'' # b = a' @ CHR ''/'' # b' \<and> glob_matches (map base_token w) a' \<and> glob_matches (map base_token q) b' \<longleftrightarrow>
            a = a' \<and> b = b' \<and> glob_matches (map base_token w) a' \<and> glob_matches (map base_token q) b'" for a' b'
          using first_slash_unique [OF a segment_no_slash [OF w]] by blast
        then show ?thesis unfolding m by (simp add: s)
      qed
      moreover have "glob_matches (map base_token q) b \<longleftrightarrow>
          list_all2 (\<lambda>w t. glob_matches (map base_token w) t) (split_on CHR ''/'' q) (split_on CHR ''/'' b)"
        by (rule less) (simp add: p)
      ultimately show ?thesis by (simp add: sp s split_on_append a)
    qed
  qed
qed

lemma has_double_star_piece: "w \<in> set (split_on d p) \<Longrightarrow> has_double_star w \<Longrightarrow> has_double_star p"
proof (induction "length p" arbitrary: p rule: less_induct)
  case less
  show ?case
  proof (cases "d \<in> set p")
    case False
    then show ?thesis using less.prems by (simp add: split_on_clean)
  next
    case True
    then obtain a b where p: "p = a @ d # b" and a: "d \<notin> set a" using split_list_first by metis
    have tail: "has_double_star b \<Longrightarrow> has_double_star (xs @ b)" for xs :: string
    proof (induction xs)
      case (Cons x xs)
      then show ?case by (cases "xs @ b") auto
    qed simp
    have front: "has_double_star a \<Longrightarrow> has_double_star (a @ ys)" for ys
      by (induction a rule: has_double_star.induct) auto
    have "w = a \<or> w \<in> set (split_on d b)" using less.prems(1) by (simp add: p split_on_append a)
    then show ?thesis using less.hyps [of b] less.prems(2) front [of "d # b"] tail [of "a @ [d]"] by (auto simp: p)
  qed
qed

lemma ends_double_star: "ends_with ''/**'' p \<Longrightarrow> has_double_star p"
proof -
  assume "ends_with ''/**'' p"
  then obtain xs where "p = xs @ ''/**''" by (auto simp: ends_with_def) (metis append_take_drop_id)
  moreover have "has_double_star (xs @ ''/**'')" for xs
  proof (induction xs)
    case (Cons x xs)
    then show ?case by (cases "xs @ ''/**''") auto
  qed simp
  ultimately show ?thesis by simp
qed

text \<open>
  A pattern without \<open>**\<close> matches a path exactly when they have the same number of segments and each
  segment of the pattern matches the segment in its place: a star never reaches over a slash, and neither
  a path with more segments nor one with fewer is taken.
\<close>

theorem single_stars_match_per_segment:
  assumes "\<not> has_double_star p" and "CHR 0x00 \<notin> set p"
  shows "path_pattern_matches p path \<longleftrightarrow> list_all2 path_pattern_matches (split_on CHR ''/'' p) (split_on CHR ''/'' path)"
proof -
  have plain: "path_pattern_matches q s \<longleftrightarrow> glob_matches (map base_token q) s" if "\<not> has_double_star q" "CHR 0x00 \<notin> set q" for q s
    using that glob_tokens_plain ends_double_star by (auto simp: path_pattern_matches_def)
  have "\<not> has_double_star w \<and> CHR 0x00 \<notin> set w" if "w \<in> set (split_on CHR ''/'' p)" for w
    using that assms has_double_star_piece split_on_subset by blast
  then have "list_all2 path_pattern_matches (split_on CHR ''/'' p) (split_on CHR ''/'' path) \<longleftrightarrow>
      list_all2 (\<lambda>w t. glob_matches (map base_token w) t) (split_on CHR ''/'' p) (split_on CHR ''/'' path)"
    by (intro list.rel_cong refl) (simp add: plain)
  then show ?thesis using segments_match [of p path] plain [OF assms] by simp
qed

theorem single_stars_match_per_segment_witness:
  "path_pattern_matches ''/assets/*'' ''/assets/app.js'' \<and> \<not> path_pattern_matches ''/assets/*'' ''/assets/js/app.js''"
  unfolding single_stars_match_per_segment [of "''/assets/*''", simplified]
  by (simp add: path_pattern_matches_def ends_with_def line_end_def)

lemma exact_pattern: "list_all (\<lambda>c. c \<noteq> CHR ''*'' \<and> c \<noteq> CHR 0x01) p \<Longrightarrow> glob_matches (map base_token p) s \<longleftrightarrow> s = p"
  by (induction p arbitrary: s) (auto simp: base_token_def split: list.splits)

lemma anything_rest: "glob_matches [Anything] s \<longleftrightarrow> (\<forall>c \<in> set s. \<not> line_end c)"
  by (induction s) auto

text \<open>
  For a base without stars, the pattern made of the base and \<open>/**\<close> matches the base itself and
  exactly the paths below it: never a path that only starts with the same letters.
\<close>

theorem subtree_pattern_matches:
  assumes "list_all (\<lambda>c. c \<noteq> CHR ''*'' \<and> c \<noteq> CHR 0x01) base"
  shows "path_pattern_matches (base @ ''/**'') path \<longleftrightarrow>
    path = base \<or> (\<exists>rest. path = base @ CHR ''/'' # rest \<and> (\<forall>c \<in> set rest. \<not> line_end c))"
proof -
  have "ends_with ''/**'' (base @ ''/**'')" by (simp add: ends_with_def)
  then show ?thesis
    using exact_pattern [OF assms] anything_rest
    by (simp add: path_pattern_matches_def glob_matches_append [of _ _ "[Anything]"])
qed

theorem subtree_pattern_matches_witness:
  "path_pattern_matches ''/api/**'' ''/api'' \<and> path_pattern_matches ''/api/**'' ''/api/v1/users'' \<and> \<not> path_pattern_matches ''/api/**'' ''/apis''"
  using subtree_pattern_matches [of "''/api''"] by (auto simp: line_end_def)

text \<open>
  \<open>**\<close> reaches over slashes only where it ends the pattern or where the pattern does not end in
  \<open>/**\<close>. With \<open>/**\<close> at its end, the code expands every other pair of stars like a single one: a policy for
  \<open>/files/**/private/**\<close> leaves \<open>/files/a/b/private/x\<close> to another policy, although \<open>/files/**/private\<close>
  matches \<open>/files/a/b/private\<close>.
\<close>

theorem inner_double_star_stops_at_slash:
  "\<not> path_pattern_matches ''/files/**/private/**'' ''/files/a/b/private/x'' \<and>
   path_pattern_matches ''/files/**/private'' ''/files/a/b/private'' \<and>
   path_pattern_matches ''/files/**/private/**'' ''/files/a/private/x''"
  by code_simp

section \<open>Stored records\<close>

definition route_record_ok :: "route_record \<Rightarrow> bool" where
  "route_record_ok r \<longleftrightarrow>
     rp_name r \<noteq> [] \<and> length (rp_name r) \<le> 255 \<and>
     starts_with ''/'' (rp_path_pattern r) \<and> length (rp_path_pattern r) \<le> 2048 \<and>
     CHR ''?'' \<notin> set (rp_path_pattern r) \<and> CHR ''#'' \<notin> set (rp_path_pattern r) \<and> \<not> list_ex is_space (rp_path_pattern r) \<and>
     100 \<le> rp_rate_limit_window_ms r \<and> rp_rate_limit_window_ms r \<le> 86400000 \<and>
     1 \<le> rp_rate_limit_max r \<and> rp_rate_limit_max r \<le> 1000000 \<and>
     1 \<le> rp_rate_limit_refill_rate r \<and> rp_rate_limit_refill_rate r \<le> 1000000 \<and>
     10 \<le> rp_rate_limit_refill_interval_ms r \<and> rp_rate_limit_refill_interval_ms r \<le> 86400000 \<and>
     10 \<le> rp_rate_limit_precision_ms r \<and> rp_rate_limit_precision_ms r \<le> 60000 \<and>
     \<bar>rp_priority r\<bar> \<le> 100000 \<and>
     (case rp_rate_limit_key_header r of
        None \<Rightarrow> rp_rate_limit_key_mode r \<noteq> KeyHeaderOrIp
      | Some h \<Rightarrow> rp_rate_limit_key_mode r = KeyHeaderOrIp \<and> http_token h \<and> length h \<le> 128)"

lemma integer_value_bounds: "integer_value nt v label fallback lo hi = Inr i \<Longrightarrow> lo \<le> i \<and> i \<le> hi"
  by (auto simp: integer_value_def dest: js_integer_in_bounds split: if_splits option.splits)

lemma required_string_ok: "required_string nt v label n = Inr s \<Longrightarrow> s \<noteq> [] \<and> length s \<le> n"
  by (auto simp: required_string_def Let_def split: if_splits)

lemma normalize_path_pattern_ok:
  "normalize_path_pattern nt v = Inr p \<Longrightarrow> starts_with ''/'' p \<and> length p \<le> 2048 \<and> CHR ''?'' \<notin> set p \<and> CHR ''#'' \<notin> set p \<and> \<not> list_ex is_space p"
  by (auto simp: normalize_path_pattern_def and_then_eq_Inr dest: required_string_ok split: if_splits)

lemma rate_header_name_ok:
  "rate_header_name nt v m d = Inr h \<Longrightarrow> (case h of None \<Rightarrow> m \<noteq> KeyHeaderOrIp | Some n \<Rightarrow> m = KeyHeaderOrIp \<and> http_token n \<and> length n \<le> 128)"
  by (auto simp: rate_header_name_def Let_def split: if_splits option.splits)

lemma parse_route_methods_ok:
  "parse_route_methods nt v = Inr ms \<Longrightarrow> distinct ms \<and> set ms \<subseteq> set allowed_methods"
  by (auto simp: parse_route_methods_def Let_def list_all_iff split: if_splits)

lemma allowed_methods_clean: "m \<in> set allowed_methods \<Longrightarrow> to_upper (trim m) = m \<and> m \<noteq> [] \<and> m \<noteq> ''*''"
  by (auto simp: allowed_methods_def to_upper_def upper_char_def trim_def trim_start_def char_class_defs)

lemma stored_methods_read_back:
  assumes "distinct ms" and "set ms \<subseteq> set allowed_methods"
  shows "parse_route_methods nt (Some (json_strings ms)) = Inr ms"
proof -
  have "filter (\<lambda>s. s \<noteq> []) (map (\<lambda>s. to_upper (trim s)) (map (js_string nt) (map JString ms))) = ms"
    using map_filter_clean [of ms "\<lambda>s. to_upper (trim s)"] allowed_methods_clean assms(2) by (simp add: comp_def subset_iff)
  moreover have "''*'' \<notin> set ms" and "list_all (\<lambda>m. m \<in> set allowed_methods) ms"
    using assms(2) allowed_methods_clean by (auto simp: list_all_iff)
  moreover have "\<not> is_absent (Some (JArray (map JString ms)))" by (simp add: is_absent_def)
  ultimately show ?thesis using unique_distinct [OF assms(1)]
    by (simp only: parse_route_methods_def json_strings_def Let_def option.case json.case if_False if_True)
qed

lemma build_record_numbers:
  assumes "build_record env i sid now input existing = Inr r"
  shows "100 \<le> rp_rate_limit_window_ms r \<and> rp_rate_limit_window_ms r \<le> 86400000"
    and "1 \<le> rp_rate_limit_max r \<and> rp_rate_limit_max r \<le> 1000000"
    and "1 \<le> rp_rate_limit_refill_rate r \<and> rp_rate_limit_refill_rate r \<le> 1000000"
    and "10 \<le> rp_rate_limit_refill_interval_ms r \<and> rp_rate_limit_refill_interval_ms r \<le> 86400000"
    and "10 \<le> rp_rate_limit_precision_ms r \<and> rp_rate_limit_precision_ms r \<le> 60000"
    and "\<bar>rp_priority r\<bar> \<le> 100000"
  using assms unfolding build_record_def Let_def and_then_eq_Inr by (auto dest!: integer_value_bounds)

lemma build_record_texts:
  assumes "build_record env i sid now input existing = Inr r"
  shows "rp_name r \<noteq> [] \<and> length (rp_name r) \<le> 255"
    and "\<exists>v. normalize_path_pattern (rn_nt env) v = Inr (rp_path_pattern r)"
    and "\<exists>v d. rate_header_name (rn_nt env) v (rp_rate_limit_key_mode r) d = Inr (rp_rate_limit_key_header r)"
    and "\<exists>v ms. parse_route_methods (rn_nt env) v = Inr ms \<and> rp_methods r = json_strings ms"
  using assms unfolding build_record_def Let_def and_then_eq_Inr by (auto dest!: required_string_ok) blast+

text \<open>
  Whatever is submitted for a new or an existing route policy, and whatever the old row held, the row
  that is written has every number within its range, a name, a pattern of at most 2048 characters that
  starts with a slash and has no query, fragment or white space, a header name exactly in the mode that
  limits by header, and methods that read back as written.
\<close>

theorem route_record_well_formed:
  assumes "build_record env i sid now input existing = Inr r"
  shows "route_record_ok r \<and> rp_methods r = json_strings (parse_stored_methods (rn_nt env) r)"
proof -
  obtain v ms where ms: "parse_route_methods (rn_nt env) v = Inr ms" "rp_methods r = json_strings ms"
    using build_record_texts(4) [OF assms] by blast
  obtain v' where "normalize_path_pattern (rn_nt env) v' = Inr (rp_path_pattern r)"
    using build_record_texts(2) [OF assms] by blast
  note pattern = normalize_path_pattern_ok [OF this]
  obtain v'' d where "rate_header_name (rn_nt env) v'' (rp_rate_limit_key_mode r) d = Inr (rp_rate_limit_key_header r)"
    using build_record_texts(3) [OF assms] by blast
  note key_header = rate_header_name_ok [OF this]
  have "route_record_ok r"
    unfolding route_record_ok_def using build_record_numbers [OF assms] build_record_texts(1) [OF assms] pattern key_header by blast
  moreover have "parse_stored_methods (rn_nt env) r = ms"
    using stored_methods_read_back parse_route_methods_ok [OF ms(1)] by (simp add: parse_stored_methods_def ms(2))
  ultimately show ?thesis using ms(2) by simp
qed

definition sample_route_env :: route_env where
  "sample_route_env = \<lparr>rn_nt = (\<lambda>_. ''0''), rn_json_parse = (\<lambda>_. None), rn_registry = (\<lambda>n. if n = ''pow-sha256'' then Some (\<lambda>_. True) else None),
     rn_normalize = (\<lambda>_ c. c), rn_ws = usual_ws_config,
     rn_http = \<lparr>hc_cache_max_object_bytes = 33554432, hc_cache_max_bytes = 268435456, hc_body_capture_ceiling = 65536\<rparr>\<rparr>"

definition api_policy_input :: json where
  "api_policy_input = JObject [(''name'', JString ''API''), (''pathPattern'', JString ''/api/**''), (''methods'', JString ''get, post''),
     (''accessMode'', JString ''block''), (''rateLimitKeyMode'', JString ''header-or-ip''), (''rateLimitKeyHeader'', JString ''X-Key''),
     (''priority'', JNumber 5), (''enabled'', JBool True)]"

definition api_route :: route_record where
  "api_route = (case build_record sample_route_env ''r1'' ''s1'' 7 api_policy_input None of Inr r \<Rightarrow> r | Inl _ \<Rightarrow> undefined)"

lemma api_route_built: "build_record sample_route_env ''r1'' ''s1'' 7 api_policy_input None = Inr api_route"
proof -
  have "(case build_record sample_route_env ''r1'' ''s1'' 7 api_policy_input None of Inr r \<Rightarrow> True | Inl _ \<Rightarrow> False)" by code_simp
  then show ?thesis by (simp add: api_route_def split: sum.splits)
qed

theorem route_record_well_formed_witness:
  "route_record_ok api_route \<and> rp_methods api_route = json_strings (parse_stored_methods (rn_nt sample_route_env) api_route)"
  using route_record_well_formed [OF api_route_built] .

section \<open>The policy that applies is the best of the table\<close>

text \<open>
  Whatever may happen between two requests: changes through the service, a replicated change, which empties
  the cache, and reads at any time. Each is one step, so a read that waits for the database while another
  operation runs is not covered.
\<close>

inductive route_step :: "route_state \<Rightarrow> route_state \<Rightarrow> bool" where
  created: "route_step st (snd (create_route_policy env i sid now input st))"
| updated: "route_step st (snd (update_route_policy env sid i now input st))"
| deleted: "route_step st (snd (delete_route_policy sid i st))"
| requested: "route_step st (snd (matching_route_policy nt sid now verb path st))"
| replicated: "route_step st (invalidate_all_route_policy_cache (st\<lparr>rv_policies := ps\<rparr>))"

definition routes_coherent :: "route_state \<Rightarrow> bool" where
  "routes_coherent st \<longleftrightarrow> (\<forall>sid e ps. rv_cache st sid = Some (e, ps) \<longrightarrow> ps = repository_policies st sid)"

lemma build_record_site: "build_record env i sid now input existing = Inr r \<Longrightarrow> rp_site_id r = sid"
  unfolding build_record_def Let_def and_then_eq_Inr by auto

lemma routes_coherent_invalidate:
  assumes "routes_coherent st" and "rv_cache st' = (rv_cache st)(sid := None)"
    and "\<And>k. k \<noteq> sid \<Longrightarrow> repository_policies st' k = repository_policies st k"
  shows "routes_coherent st'"
  using assms by (auto simp: routes_coherent_def split: if_splits)

lemma repository_other:
  "filter (\<lambda>r. rp_site_id r = k) (rv_policies st') = filter (\<lambda>r. rp_site_id r = k) (rv_policies st) \<Longrightarrow>
     repository_policies st' k = repository_policies st k"
  by (simp add: repository_policies_def)

lemma filter_updated_site:
  "k \<noteq> sid \<Longrightarrow> rp_site_id r = sid \<Longrightarrow>
     filter (\<lambda>r. rp_site_id r = k) (map (\<lambda>x. if rp_id x = i \<and> rp_site_id x = sid then r else x) xs) = filter (\<lambda>r. rp_site_id r = k) xs"
  by (induction xs) auto

lemma filter_other_site:
  "k \<noteq> sid \<Longrightarrow> filter (\<lambda>x. (rp_id x = i \<longrightarrow> rp_site_id x \<noteq> sid) \<and> rp_site_id x = k) xs = filter (\<lambda>r. rp_site_id r = k) xs"
  by (induction xs) auto

lemma policies_for_site_spec:
  assumes "routes_coherent st"
  shows "fst (policies_for_site sid now st) = repository_policies st sid" and "routes_coherent (snd (policies_for_site sid now st))"
    and "rv_policies (snd (policies_for_site sid now st)) = rv_policies st"
  using assms
  by (auto simp: policies_for_site_def routes_coherent_def repository_policies_def Let_def split: option.splits if_splits)

lemma route_step_coherent: "route_step st st' \<Longrightarrow> routes_coherent st \<Longrightarrow> routes_coherent st'"
proof (induction rule: route_step.induct)
  case (created st env i sid now input)
  have "routes_coherent (invalidate_route_policy_cache sid (st\<lparr>rv_policies := rv_policies st @ [r]\<rparr>))" if "rp_site_id r = sid" for r
    by (rule routes_coherent_invalidate [OF created, where sid = sid])
      (simp add: invalidate_route_policy_cache_def, rule repository_other, simp add: invalidate_route_policy_cache_def that)
  with created show ?case by (auto simp: create_route_policy_def dest!: build_record_site split: sum.splits)
next
  case (updated st env sid i now input)
  have "routes_coherent (invalidate_route_policy_cache sid
      (st\<lparr>rv_policies := map (\<lambda>x. if rp_id x = i \<and> rp_site_id x = sid then r else x) (rv_policies st), rv_static := c\<rparr>))"
    if "rp_site_id r = sid" for r c
    by (rule routes_coherent_invalidate [OF updated, where sid = sid])
      (simp add: invalidate_route_policy_cache_def, rule repository_other,
        simp add: invalidate_route_policy_cache_def filter_updated_site that)
  with updated show ?case by (auto simp: update_route_policy_def dest!: build_record_site split: option.splits sum.splits)
next
  case (deleted st sid i)
  have "routes_coherent ((invalidate_route_policy_cache sid
      (st\<lparr>rv_policies := filter (\<lambda>r. \<not> (rp_id r = i \<and> rp_site_id r = sid)) (rv_policies st), rv_static := c\<rparr>))\<lparr>rv_rules := rs\<rparr>)" for c rs
    by (rule routes_coherent_invalidate [OF deleted, where sid = sid])
      (simp add: invalidate_route_policy_cache_def, rule repository_other,
        simp add: invalidate_route_policy_cache_def filter_other_site)
  with deleted show ?case by (simp add: delete_route_policy_def Let_def split: option.splits)
next
  case (requested st nt sid now verb path)
  then show ?case using policies_for_site_spec(2) by (simp add: matching_route_policy_def split_beta Let_def)
qed (simp add: invalidate_all_route_policy_cache_def routes_coherent_def)

lemma routes_reachable_coherent: "route_step\<^sup>*\<^sup>* st0 st \<Longrightarrow> rv_cache st0 = Map.empty \<Longrightarrow> routes_coherent st"
  by (induction rule: rtranclp_induct) (auto simp: routes_coherent_def intro: route_step_coherent [unfolded routes_coherent_def, rule_format])

definition route_outranks :: "(rat \<Rightarrow> string) \<Rightarrow> route_record \<Rightarrow> route_record \<Rightarrow> bool" where
  "route_outranks nt a b \<longleftrightarrow> rp_priority b < rp_priority a
     \<or> rp_priority a = rp_priority b \<and> (route_specificity nt b < route_specificity nt a
         \<or> route_specificity nt a = route_specificity nt b \<and> rp_created_at a < rp_created_at b)"

lemma hd_filter_hd: "P (hd xs) \<Longrightarrow> xs \<noteq> [] \<Longrightarrow> hd (filter P xs) = hd xs"
  by (cases xs) auto

lemma hd_nested_sort:
  fixes f :: "'a \<Rightarrow> 'b::linorder" and g :: "'a \<Rightarrow> 'c::linorder"
  assumes "xs \<noteq> []" and "m = f (hd (sort_key f (sort_key g xs)))"
  shows "hd (sort_key f (sort_key g xs)) = hd (sort_key g (filter (\<lambda>x. f x = m) xs))"
proof -
  have ne: "sort_key f (sort_key g xs) \<noteq> []" using assms(1) by (metis length_0_conv length_sort)
  have "hd (sort_key f (sort_key g xs)) = hd (filter (\<lambda>x. f x = m) (sort_key f (sort_key g xs)))"
    using hd_filter_hd [OF _ ne, of "\<lambda>x. f x = m"] assms(2) by simp
  also have "\<dots> = hd (filter (\<lambda>x. f x = m) (sort_key g xs))" by (simp add: sort_key_stable)
  finally show ?thesis by (simp add: filter_sort)
qed

lemma best_first:
  assumes "xs \<noteq> []"
  shows "hd (by_precedence nt xs) \<in> set xs" and "y \<in> set xs \<Longrightarrow> \<not> route_outranks nt y (hd (by_precedence nt xs))"
proof -
  define f where "f r = - rp_priority r" for r :: route_record
  define g where "g r = - route_specificity nt r" for r
  define x where "x = hd (by_precedence nt xs)"
  have by_p: "by_precedence nt xs = sort_key f (sort_key g (sort_key rp_created_at xs))"
    by (simp add: by_precedence_def f_def [abs_def] g_def [abs_def])
  let ?ys = "filter (\<lambda>r. f r = f x) xs"
  let ?zs = "filter (\<lambda>r. g r = g x) ?ys"
  have inner: "sort_key rp_created_at xs \<noteq> []" using assms by (metis length_0_conv length_sort)
  have 1: "x = hd (sort_key g (sort_key rp_created_at ?ys))"
    unfolding x_def by_p using hd_nested_sort [OF inner refl, of f g] by (simp add: filter_sort by_p)
  have xin: "x \<in> set xs" and fmin: "y \<in> set xs \<Longrightarrow> f x \<le> f y" for y
    using hd_sort_key(1) [of "sort_key g (sort_key rp_created_at xs)" f] hd_sort_key(2) [of "sort_key g (sort_key rp_created_at xs)" _ f]
      inner by_p unfolding x_def
    by (metis length_0_conv length_sort set_sort)+
  then have ys: "?ys \<noteq> []" by (auto simp: filter_empty_conv)
  have yin: "sort_key rp_created_at ?ys \<noteq> []" using ys by (metis length_0_conv length_sort)
  have gmin: "y \<in> set ?ys \<Longrightarrow> g x \<le> g y" for y
    using hd_sort_key(2) [OF yin, where f = g] 1 by simp
  have 2: "x = hd (sort_key rp_created_at ?zs)"
    using hd_nested_sort [OF ys refl, of g rp_created_at] 1 by simp
  have zs: "?zs \<noteq> []" using xin by (auto simp: filter_empty_conv)
  have cmin: "y \<in> set ?zs \<Longrightarrow> rp_created_at x \<le> rp_created_at y" for y
    using hd_sort_key(2) [OF zs, where f = rp_created_at] 2 by simp
  show "hd (by_precedence nt xs) \<in> set xs" using xin by (simp add: x_def)
  show "\<not> route_outranks nt y (hd (by_precedence nt xs))" if "y \<in> set xs"
    using fmin [OF that] gmin [of y] cmin [of y] that unfolding x_def [symmetric]
    by (auto simp: route_outranks_def f_def g_def)
qed

text \<open>
  C30: after whatever changes of the policies, on this node or replicated to it, and whatever was read
  before, a request gets a policy of its site that is in the table now, is enabled and matches its method
  and path, and no policy of the site that matches has a higher priority, or the same and a more specific
  pattern, or both the same and an earlier creation; it gets none only when none matches.
\<close>

theorem best_policy_applies:
  assumes "route_step\<^sup>*\<^sup>* st0 st" and "rv_cache st0 = Map.empty"
  shows "case fst (matching_route_policy nt sid now verb path st) of
      None \<Rightarrow> \<forall>r \<in> set (rv_policies st). rp_site_id r = sid \<longrightarrow> \<not> route_policy_matches nt r verb path
    | Some r \<Rightarrow> r \<in> set (rv_policies st) \<and> rp_site_id r = sid \<and> route_policy_matches nt r verb path \<and>
        (\<forall>r' \<in> set (rv_policies st). rp_site_id r' = sid \<and> route_policy_matches nt r' verb path \<longrightarrow> \<not> route_outranks nt r' r)"
proof -
  have co: "routes_coherent st" by (rule routes_reachable_coherent [OF assms])
  let ?ms = "filter (\<lambda>r. route_policy_matches nt r verb path) (repository_policies st sid)"
  have set: "set ?ms = {r \<in> set (rv_policies st). rp_site_id r = sid \<and> route_policy_matches nt r verb path}"
    by (auto simp: repository_policies_def)
  have res: "fst (matching_route_policy nt sid now verb path st) = (if ?ms = [] then None else Some (hd (by_precedence nt ?ms)))"
    using policies_for_site_spec(1) [OF co, of sid now]
    by (auto simp: matching_route_policy_def split_beta Let_def by_precedence_def) (metis length_0_conv length_sort)+
  show ?thesis
  proof (cases "?ms = []")
    case True
    then show ?thesis using set by (simp add: res)
  next
    case False
    then show ?thesis using best_first(1) [OF False, of nt] best_first(2) [OF False, of _ nt] set unfolding res by auto
  qed
qed

definition sample_routes :: route_state where
  "sample_routes = \<lparr>rv_sites = [''s1''], rv_policies = [], rv_cache = Map.empty, rv_static = \<lparr>entries = [], cache_counters = [], total_bytes = 0, last_expiry_sweep_at = 0, max_entries = 10, max_bytes = 1000\<rparr>,
     rv_rules = \<lparr>tables = \<lparr>ip_rules = [], country_rules = [], asn_rules = []\<rparr>, rule_cache = Map.empty\<rparr>\<rparr>"

theorem best_policy_applies_witness:
  "\<exists>st r. route_step\<^sup>*\<^sup>* sample_routes st \<and> fst (matching_route_policy (\<lambda>_. ''0'') ''s1'' 8 ''GET'' ''/api/x'' st) = Some r
     \<and> r \<in> set (rv_policies st)"
proof -
  let ?st = "snd (create_route_policy sample_route_env ''r1'' ''s1'' 7 api_policy_input sample_routes)"
  have reach: "route_step\<^sup>*\<^sup>* sample_routes ?st" by (rule r_into_rtranclp) (rule route_step.created)
  have "fst (matching_route_policy (\<lambda>_. ''0'') ''s1'' 8 ''GET'' ''/api/x'' ?st) \<noteq> None" by code_simp
  then obtain r where r: "fst (matching_route_policy (\<lambda>_. ''0'') ''s1'' 8 ''GET'' ''/api/x'' ?st) = Some r" by blast
  with best_policy_applies [OF reach, where nt = "\<lambda>_. ''0''" and sid = "''s1''" and now = 8 and verb = "''GET''" and path = "''/api/x''"] have "r \<in> set (rv_policies ?st)"
    by (simp add: sample_routes_def)
  with r reach show ?thesis by blast
qed

end
