(* ===== verification/Access_List.thy ===== *)
theory Access_List
  imports Json Visitor_Session
begin

text \<open>
  Access lists of sites (\<open>services/access-list-service.ts\<close>): accounts, their assignment to sites, the
  settings of a site, the limit on failed logins, API tokens and the second factor, and the accounts that
  single sign-on finds or makes (\<open>services/access-sso-service.ts\<close>). Password hashes, SHA-256, GeoIP, the
  clock and random values are arguments. A change or a removal of an account and a login wait for the
  database at every query, and for the hash of a password; they are tasks that run step by step, and a system of
  such tasks over one state takes their steps in any order. The other operations are one step each.
\<close>

section \<open>Failed logins\<close>

record failure_entry =
  fe_count :: nat
  fe_reset_at :: time

record failure_tracker =
  ft_entries :: "(string, failure_entry) omap"
  ft_last_sweep_at :: time
  ft_max_keys :: nat
  ft_window_ms :: time
  ft_max_failures :: nat

definition new_tracker :: "nat \<Rightarrow> failure_tracker" where
  "new_tracker keys = \<lparr>ft_entries = [], ft_last_sweep_at = 0, ft_max_keys = keys, ft_window_ms = 60000, ft_max_failures = 8\<rparr>"

text \<open>\<open>Math.ceil(ms / 1_000)\<close>\<close>

definition ceil_seconds :: "time \<Rightarrow> int" where
  "ceil_seconds ms = - ((- ms) div 1000)"

fun tracker_status :: "string list \<Rightarrow> time \<Rightarrow> failure_tracker \<Rightarrow> int \<times> failure_tracker" where
  "tracker_status [] now t = (0, t)"
| "tracker_status (k # ks) now t =
     (case om_get (ft_entries t) k of
        None \<Rightarrow> tracker_status ks now t
      | Some e \<Rightarrow>
          if fe_reset_at e \<le> now then tracker_status ks now (t\<lparr>ft_entries := om_delete k (ft_entries t)\<rparr>)
          else (let (retry, t') = tracker_status ks now t in
                (if ft_max_failures t \<le> fe_count e then max retry (ceil_seconds (fe_reset_at e - now)) else retry, t')))"

definition tracker_sweep :: "time \<Rightarrow> failure_tracker \<Rightarrow> failure_tracker" where
  "tracker_sweep now t =
     (if now - ft_last_sweep_at t < 10000 then t
      else t\<lparr>ft_last_sweep_at := now, ft_entries := filter (\<lambda>(_, e). now < fe_reset_at e) (ft_entries t)\<rparr>)"

text \<open>\<open>while (entries.size >= maxKeys)\<close>: the oldest entries go.\<close>

definition make_room :: "nat \<Rightarrow> ('k \<times> 'v) list \<Rightarrow> ('k \<times> 'v) list" where
  "make_room keys es = drop (Suc (length es) - keys) es"

fun tracker_count :: "string list \<Rightarrow> time \<Rightarrow> failure_tracker \<Rightarrow> failure_tracker" where
  "tracker_count [] now t = t"
| "tracker_count (k # ks) now t =
     (let fresh = t\<lparr>ft_entries := om_set k \<lparr>fe_count = 1, fe_reset_at = now + ft_window_ms t\<rparr> (make_room (ft_max_keys t) (ft_entries t))\<rparr> in
      tracker_count ks now
        (case om_get (ft_entries t) k of
           None \<Rightarrow> fresh
         | Some e \<Rightarrow> if now < fe_reset_at e then t\<lparr>ft_entries := om_set k (e\<lparr>fe_count := Suc (fe_count e)\<rparr>) (ft_entries t)\<rparr> else fresh))"

definition tracker_record :: "string list \<Rightarrow> time \<Rightarrow> failure_tracker \<Rightarrow> failure_tracker" where
  "tracker_record ks now t = tracker_count ks now (tracker_sweep now t)"

definition tracker_clear :: "string list option \<Rightarrow> failure_tracker \<Rightarrow> failure_tracker" where
  "tracker_clear ks t = t\<lparr>ft_entries := (case ks of None \<Rightarrow> [] | Some ks \<Rightarrow> fold om_delete ks (ft_entries t))\<rparr>"

definition tracker_clear_prefix :: "string \<Rightarrow> failure_tracker \<Rightarrow> failure_tracker" where
  "tracker_clear_prefix p t = t\<lparr>ft_entries := filter (\<lambda>(k, _). \<not> starts_with p k) (ft_entries t)\<rparr>"

section \<open>Rows\<close>

record access_user =
  au_id :: string
  au_username :: string
  au_password_hash :: string
  au_enabled :: bool
  au_created_at :: time
  au_updated_at :: time
  au_totp_required :: bool
  au_totp_secret :: "string option"
  au_totp_enrolled_at :: "time option"
  au_api_token_hash :: "string option"
  au_api_token_created_at :: "time option"
  au_sso_subject :: "string option"
  au_from_sso :: bool

record access_settings =
  at_enabled :: bool
  at_send_username :: bool
  at_verification_token_hash :: "string option"
  at_verification_token_created_at :: "time option"
  at_updated_at :: time

record access_state =
  ax_users :: "access_user list"
  ax_memberships :: "(string \<times> string) list"
  ax_settings :: "string \<rightharpoonup> access_settings"
  ax_sessions :: "session_row list"
  ax_credentials :: "(string \<times> string) list"
  ax_settings_cache :: "string \<rightharpoonup> access_settings \<times> time"
  ax_failures :: failure_tracker

text \<open>Memberships are pairs of a site and a user, credentials pairs of a user and a site.\<close>

definition default_access_settings :: "time \<Rightarrow> access_settings" where
  "default_access_settings now = \<lparr>at_enabled = False, at_send_username = False, at_verification_token_hash = None,
     at_verification_token_created_at = None, at_updated_at = now\<rparr>"

definition ensure_access_settings :: "string \<Rightarrow> time \<Rightarrow> access_state \<Rightarrow> access_settings \<times> access_state" where
  "ensure_access_settings sid now st =
     (case ax_settings st sid of
        Some s \<Rightarrow> (s, st)
      | None \<Rightarrow> (default_access_settings now, st\<lparr>ax_settings := (ax_settings st)(sid \<mapsto> default_access_settings now)\<rparr>))"

definition access_user_by_id :: "string \<Rightarrow> access_state \<Rightarrow> access_user option" where
  "access_user_by_id i st = find (\<lambda>u. au_id u = i) (ax_users st)"

definition access_user_by_username :: "string \<Rightarrow> access_state \<Rightarrow> access_user option" where
  "access_user_by_username n st = find (\<lambda>u. au_username u = n) (ax_users st)"

definition access_user_for_site :: "string \<Rightarrow> string \<Rightarrow> access_state \<Rightarrow> access_user option" where
  "access_user_for_site sid i st = find (\<lambda>u. au_id u = i \<and> (sid, au_id u) \<in> set (ax_memberships st)) (ax_users st)"

definition access_user_for_site_by_username :: "string \<Rightarrow> string \<Rightarrow> access_state \<Rightarrow> access_user option" where
  "access_user_for_site_by_username sid n st =
     find (\<lambda>u. au_username u = n \<and> (sid, au_id u) \<in> set (ax_memberships st)) (ax_users st)"

definition access_users_for_site :: "string \<Rightarrow> access_state \<Rightarrow> access_user list" where
  "access_users_for_site sid st = filter (\<lambda>u. (sid, au_id u) \<in> set (ax_memberships st)) (ax_users st)"

definition update_user_row :: "access_user \<Rightarrow> access_state \<Rightarrow> access_state" where
  "update_user_row u st = st\<lparr>ax_users := map (\<lambda>x. if au_id x = au_id u then u else x) (ax_users st)\<rparr>"

definition assign_access_user :: "string \<Rightarrow> string \<Rightarrow> access_state \<Rightarrow> access_state" where
  "assign_access_user sid i st = st\<lparr>ax_memberships := ax_memberships st @ [(sid, i)]\<rparr>"

definition access_site_ids_for_user :: "string \<Rightarrow> access_state \<Rightarrow> string list" where
  "access_site_ids_for_user i st = map fst (filter (\<lambda>(_, u). u = i) (ax_memberships st))"

definition revoke_sessions_for_access_user :: "string \<Rightarrow> time \<Rightarrow> string option \<Rightarrow> access_state \<Rightarrow> access_state" where
  "revoke_sessions_for_access_user i now sid st =
     st\<lparr>ax_sessions := map (\<lambda>s. if as_access_user_id s = Some i \<and> (case sid of None \<Rightarrow> True | Some k \<Rightarrow> as_site_id s = k)
                                  \<and> as_revoked_at s = None
                               then s\<lparr>as_revoked_at := Some now\<rparr> else s) (ax_sessions st)\<rparr>"

section \<open>Input\<close>

definition flag_value :: "js_value \<Rightarrow> bool \<Rightarrow> bool checked" where
  "flag_value v fallback =
     (case v of
        None \<Rightarrow> Inr fallback
      | Some (JBool b) \<Rightarrow> Inr b
      | Some x \<Rightarrow>
          if x = JNumber 1 \<or> x = JString ''1'' \<or> x = JString ''true'' then Inr True
          else if x = JNumber 0 \<or> x = JString ''0'' \<or> x = JString ''false'' then Inr False
          else Inl ''Boolean value expected'')"

definition username_ok :: "string \<Rightarrow> bool" where
  "username_ok s \<longleftrightarrow> (case s of [] \<Rightarrow> False
     | c # cs \<Rightarrow> (is_lower c \<or> is_digit c) \<and> list_all (\<lambda>d. is_lower d \<or> is_digit d \<or> d \<in> set ''._@+-'') cs)"

definition normalize_access_username :: "(rat \<Rightarrow> string) \<Rightarrow> js_value \<Rightarrow> string checked" where
  "normalize_access_username nt v =
     (let username = to_lower (trim (js_text nt v)) in
      if username = [] then Inl ''Username is required''
      else if 255 < length username then Inl ''Username must be at most 255 characters''
      else if username_ok username then Inr username
      else Inl ''Username may contain lowercase letters, numbers, dots, underscores, @, +, and hyphens'')"

definition password_value :: "(rat \<Rightarrow> string) \<Rightarrow> js_value \<Rightarrow> bool \<Rightarrow> string option checked" where
  "password_value nt v required =
     (if is_absent v then (if required then Inl ''Password is required'' else Inr None)
      else let password = js_text nt v in
        if length password < 8 then Inl ''Password must be at least 8 characters''
        else if 1024 < length password then Inl ''Password must be at most 1024 characters''
        else Inr (Some password))"

section \<open>Settings and accounts\<close>

definition settings_cache_ttl_ms :: time where
  "settings_cache_ttl_ms = 5000"

definition active_user_count :: "string \<Rightarrow> string option \<Rightarrow> access_state \<Rightarrow> nat" where
  "active_user_count sid excluded st =
     length (filter (\<lambda>u. au_enabled u \<and> excluded \<noteq> Some (au_id u)) (access_users_for_site sid st))"

definition access_settings_for_site :: "string \<Rightarrow> time \<Rightarrow> access_state \<Rightarrow> access_settings \<times> access_state" where
  "access_settings_for_site sid now st =
     (case ax_settings_cache st sid of
        Some (s, expires) \<Rightarrow>
          if now < expires then (s, st)
          else (let (s', st') = ensure_access_settings sid now st in
                (s', st'\<lparr>ax_settings_cache := (ax_settings_cache st')(sid \<mapsto> (s', now + settings_cache_ttl_ms))\<rparr>))
      | None \<Rightarrow>
          (let (s', st') = ensure_access_settings sid now st in
           (s', st'\<lparr>ax_settings_cache := (ax_settings_cache st')(sid \<mapsto> (s', now + settings_cache_ttl_ms))\<rparr>)))"

definition save_access_settings :: "string \<Rightarrow> access_settings \<Rightarrow> time \<Rightarrow> access_state \<Rightarrow> access_state" where
  "save_access_settings sid s now st =
     st\<lparr>ax_settings := (ax_settings st)(sid \<mapsto> s), ax_settings_cache := (ax_settings_cache st)(sid \<mapsto> (s, now + settings_cache_ttl_ms))\<rparr>"

definition update_access_settings :: "string \<Rightarrow> json \<Rightarrow> time \<Rightarrow> access_state \<Rightarrow> access_settings checked \<times> access_state" where
  "update_access_settings sid input now st =
     (let (old, st') = ensure_access_settings sid now st in
      case flag_value (j_get input ''enabled'') (at_enabled old) of
        Inl e \<Rightarrow> (Inl e, st')
      | Inr enabled \<Rightarrow>
          if enabled \<and> active_user_count sid None st' = 0
          then (Inl ''Assign at least one active user before enabling access authentication'', st')
          else (case flag_value (j_get input ''sendUsernameToUpstream'') (at_send_username old) of
              Inl e \<Rightarrow> (Inl e, st')
            | Inr send \<Rightarrow>
                (let s = old\<lparr>at_enabled := enabled, at_send_username := send, at_updated_at := now\<rparr> in
                 (Inr s, save_access_settings sid s now st'))))"

definition create_access_user ::
  "(rat \<Rightarrow> string) \<Rightarrow> (string \<Rightarrow> string) \<Rightarrow> string \<Rightarrow> string \<Rightarrow> json \<Rightarrow> time \<Rightarrow> access_state \<Rightarrow> access_user checked \<times> access_state" where
  "create_access_user nt hash random_id sid input now st =
     (case normalize_access_username nt (j_get input ''username'') of
        Inl e \<Rightarrow> (Inl e, st)
      | Inr username \<Rightarrow>
          if access_user_by_username username st \<noteq> None
          then (Inl ''This username already exists; add the existing user instead'', st)
          else (case password_value nt (j_get input ''password'') True of
              Inl e \<Rightarrow> (Inl e, st)
            | Inr password \<Rightarrow>
                (case flag_value (j_get input ''enabled'') True of
                   Inl e \<Rightarrow> (Inl e, st)
                 | Inr enabled \<Rightarrow>
                     (let u = \<lparr>au_id = random_id, au_username = username, au_password_hash = hash (the password), au_enabled = enabled,
                            au_created_at = now, au_updated_at = now, au_totp_required = False, au_totp_secret = None,
                            au_totp_enrolled_at = None, au_api_token_hash = None, au_api_token_created_at = None,
                            au_sso_subject = None, au_from_sso = False\<rparr> in
                      (Inr u, assign_access_user sid random_id (st\<lparr>ax_users := ax_users st @ [u]\<rparr>))))))"

fun import_each :: "string \<Rightarrow> string list \<Rightarrow> nat \<Rightarrow> access_state \<Rightarrow> nat checked \<times> access_state" where
  "import_each sid [] n st = (Inr n, st)"
| "import_each sid (i # is) n st =
     (case access_user_by_id i st of
        None \<Rightarrow> (Inl ''One of the selected users no longer exists'', st)
      | Some u \<Rightarrow>
          if access_user_for_site sid (au_id u) st \<noteq> None then import_each sid is n st
          else import_each sid is (Suc n) (assign_access_user sid (au_id u) st))"

definition import_access_users :: "(rat \<Rightarrow> string) \<Rightarrow> string \<Rightarrow> js_value \<Rightarrow> access_state \<Rightarrow> nat checked \<times> access_state" where
  "import_access_users nt sid ids st =
     (case ids of
        Some (JArray xs) \<Rightarrow>
          if xs = [] then (Inl ''Select at least one user to add'', st)
          else import_each sid (unique (map (js_string nt) xs)) 0 st
      | _ \<Rightarrow> (Inl ''Select at least one user to add'', st))"

section \<open>Signing in\<close>

definition failure_keys :: "string \<Rightarrow> string \<Rightarrow> string \<Rightarrow> string list" where
  "failure_keys sid ip username = [''site:'' @ sid @ '':ip:'' @ ip, ''site:'' @ sid @ '':user:'' @ username]"

text \<open>What a login remembers while it waits: the keys, the time it read and whom it asks for.\<close>

record login_attempt =
  la_site :: string
  la_keys :: "string list"
  la_now :: time
  la_username :: string
  la_password :: string

definition begin_login ::
  "(rat \<Rightarrow> string) \<Rightarrow> string \<Rightarrow> string \<Rightarrow> js_value \<Rightarrow> js_value \<Rightarrow> time \<Rightarrow> failure_tracker \<Rightarrow> (int + login_attempt) \<times> failure_tracker" where
  "begin_login nt sid ip username_input password_input now t =
     (let username = (case normalize_access_username nt username_input of Inl _ \<Rightarrow> ''invalid'' | Inr u \<Rightarrow> u);
          supplied = js_text nt password_input;
          keys = failure_keys sid ip username;
          (retry, t') = tracker_status keys now t in
      (if 0 < retry then Inl retry
       else Inr \<lparr>la_site = sid, la_keys = keys, la_now = now, la_username = username,
         la_password = (if length supplied \<le> 1024 then supplied else [])\<rparr>, t'))"

definition read_login :: "login_attempt \<Rightarrow> access_state \<Rightarrow> access_user option" where
  "read_login a st = access_user_for_site_by_username (la_site a) (la_username a) st"

text \<open>The rest of a login, after the password hash: it looks at the row that was read before.\<close>

definition finish_login ::
  "(string \<Rightarrow> string \<Rightarrow> bool) \<Rightarrow> string \<Rightarrow> login_attempt \<Rightarrow> access_user option \<Rightarrow> access_state \<Rightarrow> access_user option \<times> access_state" where
  "finish_login verify dummy_hash a user st =
     (let valid = verify (la_password a) (case user of None \<Rightarrow> dummy_hash | Some u \<Rightarrow> au_password_hash u) in
      case user of
        Some u \<Rightarrow>
          if valid \<and> au_enabled u then (Some u, st\<lparr>ax_failures := tracker_clear (Some (la_keys a)) (ax_failures st)\<rparr>)
          else (None, st\<lparr>ax_failures := tracker_record (la_keys a) (la_now a) (ax_failures st)\<rparr>)
      | None \<Rightarrow> (None, st\<lparr>ax_failures := tracker_record (la_keys a) (la_now a) (ax_failures st)\<rparr>))"


definition invalidate_access_site :: "string \<Rightarrow> access_state \<Rightarrow> access_state" where
  "invalidate_access_site sid st = st\<lparr>ax_settings_cache := (ax_settings_cache st)(sid := None),
     ax_failures := tracker_clear_prefix (''site:'' @ sid @ '':'') (ax_failures st)\<rparr>"

section \<open>API tokens and the second factor\<close>

definition with_site_user ::
  "string \<Rightarrow> string \<Rightarrow> access_state \<Rightarrow> (access_user \<Rightarrow> access_state) \<Rightarrow> unit checked \<times> access_state" where
  "with_site_user sid i st f =
     (case access_user_for_site sid i st of None \<Rightarrow> (Inl ''Access user not found'', st) | Some u \<Rightarrow> (Inr (), f u))"

definition set_access_user_totp_required :: "string \<Rightarrow> string \<Rightarrow> bool \<Rightarrow> time \<Rightarrow> access_state \<Rightarrow> unit checked \<times> access_state" where
  "set_access_user_totp_required sid i required now st = with_site_user sid i st (\<lambda>u.
     revoke_sessions_for_access_user i now None (update_user_row (u\<lparr>au_totp_required := required, au_updated_at := now\<rparr>) st))"

definition reset_access_user_two_factor :: "string \<Rightarrow> string \<Rightarrow> time \<Rightarrow> access_state \<Rightarrow> unit checked \<times> access_state" where
  "reset_access_user_two_factor sid i now st = with_site_user sid i st (\<lambda>u.
     revoke_sessions_for_access_user i now None
       ((update_user_row (u\<lparr>au_totp_secret := None, au_totp_enrolled_at := None, au_updated_at := now\<rparr>) st)
         \<lparr>ax_credentials := filter (\<lambda>c. c \<noteq> (i, sid)) (ax_credentials st)\<rparr>))"

definition generate_access_user_api_token ::
  "(string \<Rightarrow> string) \<Rightarrow> string \<Rightarrow> string \<Rightarrow> string \<Rightarrow> time \<Rightarrow> access_state \<Rightarrow> unit checked \<times> access_state" where
  "generate_access_user_api_token sha token sid i now st = with_site_user sid i st (\<lambda>u.
     update_user_row (u\<lparr>au_api_token_hash := Some (sha token), au_api_token_created_at := Some now, au_updated_at := now\<rparr>) st)"

definition revoke_access_user_api_token :: "string \<Rightarrow> string \<Rightarrow> time \<Rightarrow> access_state \<Rightarrow> unit checked \<times> access_state" where
  "revoke_access_user_api_token sid i now st = with_site_user sid i st (\<lambda>u.
     update_user_row (u\<lparr>au_api_token_hash := None, au_api_token_created_at := None, au_updated_at := now\<rparr>) st)"

definition access_user_by_api_token :: "(string \<Rightarrow> string) \<Rightarrow> string \<Rightarrow> access_state \<Rightarrow> access_user option" where
  "access_user_by_api_token sha token st =
     (let trimmed = trim token in
      if trimmed = [] then None
      else case find (\<lambda>u. au_api_token_hash u = Some (sha trimmed)) (ax_users st) of
        Some u \<Rightarrow> if au_enabled u then Some u else None
      | None \<Rightarrow> None)"

text \<open>\<open>ORDER BY last_seen_at DESC LIMIT 1\<close>\<close>

definition active_access_session_for_user :: "string \<Rightarrow> string \<Rightarrow> time \<Rightarrow> session_row list \<Rightarrow> session_row option" where
  "active_access_session_for_user sid i now rows =
     (case sort_key (\<lambda>s. - as_last_seen_at s)
        (filter (\<lambda>s. as_site_id s = sid \<and> as_access_user_id s = Some i \<and> as_revoked_at s = None \<and> now < as_expires_at s) rows) of
        [] \<Rightarrow> None | s # _ \<Rightarrow> Some s)"

definition resolve_api_token_access ::
  "session_env \<Rightarrow> request \<Rightarrow> session_site \<Rightarrow> string \<Rightarrow> string \<Rightarrow> string \<Rightarrow> string \<Rightarrow> time \<Rightarrow> access_state
   \<Rightarrow> (session_row \<times> access_user) option \<times> access_state" where
  "resolve_api_token_access env rq site ip ua_hash random_id token_hash now st =
     (case header ''authorization'' (rq_headers rq) of
        None \<Rightarrow> (None, st)
      | Some h \<Rightarrow>
          if \<not> starts_with ''Bearer '' h then (None, st)
          else (case access_user_by_api_token (se_sha256_hex env) (drop 7 h) st of
              None \<Rightarrow> (None, st)
            | Some u \<Rightarrow>
                if access_user_for_site (ss_id site) (au_id u) st = None then (None, st)
                else (case active_access_session_for_user (ss_id site) (au_id u) now (ax_sessions st) of
                    Some s \<Rightarrow> (Some (s, u), st\<lparr>ax_sessions := touch_session (as_id s) ip now (ax_sessions st)\<rparr>)
                  | None \<Rightarrow>
                      (let asn = asn_for_storage (se_geo env) ip;
                           r = \<lparr>as_id = random_id, as_site_id = ss_id site, as_token_hash = token_hash, as_initial_ip = ip,
                             as_last_ip = ip, as_user_agent_hash = ua_hash, as_created_at = now, as_last_seen_at = now,
                             as_expires_at = now + int (ss_session_ttl_seconds site) * 1000, as_revoked_at = None,
                             as_summary = [''api-token''], as_request_count = 0, as_country_code = country_code_for_storage (se_geo env) ip,
                             as_asn = fst asn, as_asn_org = snd asn, as_access_user_id = Some (au_id u),
                             as_authenticated_at = Some now, as_sso_sid = None\<rparr> in
                       (Some (r, u), st\<lparr>ax_sessions := ax_sessions st @ [r]\<rparr>)))))"

section \<open>Single sign-on\<close>

record sso_identity =
  si_subject :: string
  si_email :: "string option"
  si_email_verified :: bool

definition resolve_or_provision_access_user ::
  "(string \<Rightarrow> string) \<Rightarrow> string \<Rightarrow> string \<Rightarrow> sso_identity \<Rightarrow> time \<Rightarrow> access_state \<Rightarrow> access_user checked \<times> access_state" where
  "resolve_or_provision_access_user sha random_hash sid identity now st =
     (let assign = (\<lambda>u st. if access_user_for_site sid (au_id u) st = None then assign_access_user sid (au_id u) st else st) in
      case find (\<lambda>u. au_sso_subject u = Some (si_subject identity)) (ax_users st) of
        Some u \<Rightarrow> (Inr u, assign u st)
      | None \<Rightarrow>
          (case si_email identity of
             None \<Rightarrow> (Inl ''The identity provider did not return an email address'', st)
           | Some email \<Rightarrow>
               if email = [] then (Inl ''The identity provider did not return an email address'', st)
               else (case normalize_access_username (\<lambda>_. []) (Some (JString email)) of
                   Inl e \<Rightarrow> (Inl e, st)
                 | Inr username \<Rightarrow>
                     (case access_user_by_username username st of
                        Some old \<Rightarrow>
                          if au_sso_subject old \<noteq> None \<and> au_sso_subject old \<noteq> Some [] \<and> au_sso_subject old \<noteq> Some (si_subject identity)
                          then (Inl ''This account is already linked to a different single sign-on identity'', st)
                          else (let u = old\<lparr>au_sso_subject := Some (si_subject identity), au_from_sso := True, au_updated_at := now\<rparr> in
                                (Inr u, assign u (update_user_row u st)))
                      | None \<Rightarrow>
                          (let u = \<lparr>au_id = ''user_sso_'' @ take 32 (sha (si_subject identity)), au_username = username,
                                 au_password_hash = random_hash, au_enabled = True, au_created_at = now, au_updated_at = now,
                                 au_totp_required = False, au_totp_secret = None, au_totp_enrolled_at = None, au_api_token_hash = None,
                                 au_api_token_created_at = None, au_sso_subject = Some (si_subject identity), au_from_sso = True\<rparr> in
                           (Inr u, assign u (st\<lparr>ax_users := ax_users st @ [u]\<rparr>)))))))"

section \<open>Changing and removing an account, one wait at a time\<close>

text \<open>
  \<open>updateAccessUser\<close>, \<open>removeAccessUser\<close> and the rest of \<open>authenticateAccessUser\<close> wait for the database at
  every query and for the hash of a password; other requests run during a wait. A task is what a request
  remembers while it waits, and a step of it is one query with the code up to the next one. The hash of a new
  password is computed before the row is written, so that its wait is part of the one before \<open>UpdateWrite\<close>.
\<close>

datatype ('t, 'r) progress = Goes 't | Refused string | Returned 'r

record user_change =
  uc_old :: access_user
  uc_username :: string
  uc_password :: "string option"
  uc_enabled :: bool

datatype update_task =
    UpdateUser string string json
  | UpdateNamed access_user json string
  | UpdateSites user_change
  | UpdateSettings user_change string "string list"
  | UpdateCount user_change string "string list"
  | UpdateWrite user_change
  | UpdateRevoke access_user

definition update_read :: "(rat \<Rightarrow> string) \<Rightarrow> string \<Rightarrow> string \<Rightarrow> json \<Rightarrow> access_state \<Rightarrow> (update_task, access_user) progress" where
  "update_read nt sid i input st =
     (case access_user_for_site sid i st of
        None \<Rightarrow> Refused ''Access user not found''
      | Some old \<Rightarrow>
          (case (if j_get input ''username'' = None then Inr (au_username old) else normalize_access_username nt (j_get input ''username'')) of
             Inl e \<Rightarrow> Refused e
           | Inr username \<Rightarrow> Goes (UpdateNamed old input username)))"

definition update_named :: "(rat \<Rightarrow> string) \<Rightarrow> access_user \<Rightarrow> json \<Rightarrow> string \<Rightarrow> access_state \<Rightarrow> (update_task, access_user) progress" where
  "update_named nt old input username st =
     (if (case access_user_by_username username st of None \<Rightarrow> False | Some c \<Rightarrow> au_id c \<noteq> au_id old)
      then Refused ''This username already exists''
      else (case password_value nt (j_get input ''password'') False of
          Inl e \<Rightarrow> Refused e
        | Inr password \<Rightarrow>
            (case flag_value (j_get input ''enabled'') (au_enabled old) of
               Inl e \<Rightarrow> Refused e
             | Inr enabled \<Rightarrow>
                 (let c = \<lparr>uc_old = old, uc_username = username, uc_password = password, uc_enabled = enabled\<rparr> in
                  Goes (if \<not> enabled \<and> au_enabled old then UpdateSites c else UpdateWrite c)))))"

definition next_site :: "user_change \<Rightarrow> string list \<Rightarrow> update_task" where
  "next_site c sites = (case sites of [] \<Rightarrow> UpdateWrite c | k # ks \<Rightarrow> UpdateSettings c k ks)"

definition changed_row :: "(string \<Rightarrow> string) \<Rightarrow> time \<Rightarrow> user_change \<Rightarrow> access_user" where
  "changed_row hash now c = (uc_old c)\<lparr>au_username := uc_username c,
     au_password_hash := (case uc_password c of None \<Rightarrow> au_password_hash (uc_old c) | Some p \<Rightarrow> hash p),
     au_enabled := uc_enabled c, au_updated_at := now\<rparr>"

fun update_step ::
  "(rat \<Rightarrow> string) \<Rightarrow> (string \<Rightarrow> string) \<Rightarrow> time \<Rightarrow> update_task \<Rightarrow> access_state \<Rightarrow> (update_task, access_user) progress \<times> access_state" where
  "update_step nt hash now (UpdateUser sid i input) st = (update_read nt sid i input st, st)"
| "update_step nt hash now (UpdateNamed old input username) st = (update_named nt old input username st, st)"
| "update_step nt hash now (UpdateSites c) st = (Goes (next_site c (access_site_ids_for_user (au_id (uc_old c)) st)), st)"
| "update_step nt hash now (UpdateSettings c k ks) st =
     (let (s, st') = ensure_access_settings k now st in
      (Goes (if at_enabled s then UpdateCount c k ks else next_site c ks), st'))"
| "update_step nt hash now (UpdateCount c k ks) st =
     (if active_user_count k (Some (au_id (uc_old c))) st = 0
      then (Refused ''This user is the last active user on an enabled access list'', st)
      else (Goes (next_site c ks), st))"
| "update_step nt hash now (UpdateWrite c) st =
     (let u = changed_row hash now c in
      (if uc_password c \<noteq> None \<or> \<not> uc_enabled c then Goes (UpdateRevoke u) else Returned u, update_user_row u st))"
| "update_step nt hash now (UpdateRevoke u) st = (Returned u, revoke_sessions_for_access_user (au_id u) now None st)"

datatype remove_task =
    RemoveUser string string
  | RemoveSettings string access_user
  | RemoveCount string string
  | RemoveMembership string string
  | RemoveRevoke string string
  | RemoveSites string
  | RemoveCredentials string
  | RemoveRow string

fun remove_step :: "time \<Rightarrow> remove_task \<Rightarrow> access_state \<Rightarrow> (remove_task, unit) progress \<times> access_state" where
  "remove_step now (RemoveUser sid i) st =
     ((case access_user_for_site sid i st of None \<Rightarrow> Refused ''Access user not found'' | Some old \<Rightarrow> Goes (RemoveSettings sid old)), st)"
| "remove_step now (RemoveSettings sid old) st =
     (let (s, st') = ensure_access_settings sid now st in
      (Goes (if at_enabled s \<and> au_enabled old then RemoveCount sid (au_id old) else RemoveMembership sid (au_id old)), st'))"
| "remove_step now (RemoveCount sid i) st =
     (if active_user_count sid (Some i) st = 0
      then (Refused ''This user is the last active user on the enabled access list'', st)
      else (Goes (RemoveMembership sid i), st))"
| "remove_step now (RemoveMembership sid i) st =
     (Goes (RemoveRevoke sid i), st\<lparr>ax_memberships := filter (\<lambda>m. m \<noteq> (sid, i)) (ax_memberships st)\<rparr>)"
| "remove_step now (RemoveRevoke sid i) st = (Goes (RemoveSites i), revoke_sessions_for_access_user i now (Some sid) st)"
| "remove_step now (RemoveSites i) st =
     (if access_site_ids_for_user i st = [] then Goes (RemoveCredentials i) else Returned (), st)"
| "remove_step now (RemoveCredentials i) st =
     (Goes (RemoveRow i), st\<lparr>ax_credentials := filter (\<lambda>(u, _). u \<noteq> i) (ax_credentials st)\<rparr>)"
| "remove_step now (RemoveRow i) st = (Returned (), st\<lparr>ax_users := filter (\<lambda>u. au_id u \<noteq> i) (ax_users st)\<rparr>)"

datatype login_task = LoginRead login_attempt | LoginVerify login_attempt "access_user option"

fun login_step :: "(string \<Rightarrow> string \<Rightarrow> bool) \<Rightarrow> string \<Rightarrow> login_task \<Rightarrow> access_state \<Rightarrow> (login_task, access_user option) progress \<times> access_state" where
  "login_step verify dummy_hash (LoginRead a) st = (Goes (LoginVerify a (read_login a st)), st)"
| "login_step verify dummy_hash (LoginVerify a user) st = apfst Returned (finish_login verify dummy_hash a user st)"

text \<open>The requests in progress over one database. \<open>going\<close> is what is left of a request after a step.\<close>

record access_system =
  sy_state :: access_state
  sy_updates :: "update_task list"
  sy_removals :: "remove_task list"
  sy_logins :: "login_task list"

fun going :: "('t, 'r) progress \<Rightarrow> 't list" where
  "going (Goes t) = [t]"
| "going (Refused e) = []"
| "going (Returned r) = []"

definition replace_task :: "nat \<Rightarrow> 't list \<Rightarrow> 't list \<Rightarrow> 't list" where
  "replace_task k ts new = take k ts @ new @ drop (Suc k) ts"

definition advance_update :: "(rat \<Rightarrow> string) \<Rightarrow> (string \<Rightarrow> string) \<Rightarrow> time \<Rightarrow> nat \<Rightarrow> access_system \<Rightarrow> access_system" where
  "advance_update nt hash now k s =
     (let (p, st) = update_step nt hash now (sy_updates s ! k) (sy_state s) in
      s\<lparr>sy_state := st, sy_updates := replace_task k (sy_updates s) (going p)\<rparr>)"

definition advance_removal :: "time \<Rightarrow> nat \<Rightarrow> access_system \<Rightarrow> access_system" where
  "advance_removal now k s =
     (let (p, st) = remove_step now (sy_removals s ! k) (sy_state s) in
      s\<lparr>sy_state := st, sy_removals := replace_task k (sy_removals s) (going p)\<rparr>)"

definition advance_login :: "(string \<Rightarrow> string \<Rightarrow> bool) \<Rightarrow> string \<Rightarrow> nat \<Rightarrow> access_system \<Rightarrow> access_system" where
  "advance_login verify dummy_hash k s =
     (let (p, st) = login_step verify dummy_hash (sy_logins s ! k) (sy_state s) in
      s\<lparr>sy_state := st, sy_logins := replace_task k (sy_logins s) (going p)\<rparr>)"

section \<open>An access list that is switched on has an active user\<close>

definition site_member :: "access_state \<Rightarrow> string \<Rightarrow> access_user \<Rightarrow> bool" where
  "site_member st sid u \<longleftrightarrow> u \<in> set (ax_users st) \<and> (sid, au_id u) \<in> set (ax_memberships st)"

definition list_guarded :: "access_state \<Rightarrow> bool" where
  "list_guarded st \<longleftrightarrow> (\<forall>sid s. ax_settings st sid = Some s \<and> at_enabled s \<longrightarrow> (\<exists>u. site_member st sid u \<and> au_enabled u))"

definition access_inv :: "access_state \<Rightarrow> bool" where
  "access_inv st \<longleftrightarrow> distinct (map au_id (ax_users st)) \<and> list_guarded st"

lemma active_user_count_pos:
  "active_user_count sid ex st \<noteq> 0 \<longleftrightarrow> (\<exists>u. site_member st sid u \<and> au_enabled u \<and> ex \<noteq> Some (au_id u))"
  by (auto simp: active_user_count_def access_users_for_site_def site_member_def filter_empty_conv)

lemma ensure_spec:
  assumes "ensure_access_settings sid now st = (s, st')"
  shows "ax_users st' = ax_users st" and "ax_memberships st' = ax_memberships st" and "ax_sessions st' = ax_sessions st"
    and "ax_settings st' sid = Some s" and "\<And>k s'. ax_settings st' k = Some s' \<Longrightarrow> at_enabled s' \<Longrightarrow> ax_settings st k = Some s'"
    and "\<And>k s'. ax_settings st k = Some s' \<Longrightarrow> ax_settings st' k = Some s'"
  using assms by (auto simp: ensure_access_settings_def default_access_settings_def split: option.splits if_splits)

lemma site_member_cong:
  "ax_users st' = ax_users st \<Longrightarrow> ax_memberships st' = ax_memberships st \<Longrightarrow> site_member st' = site_member st"
  by (simp add: site_member_def fun_eq_iff)

lemma inv_more_disabled:
  assumes "access_inv st" and "ax_users st' = ax_users st" and "ax_memberships st' = ax_memberships st"
    and "\<And>k s. ax_settings st' k = Some s \<Longrightarrow> at_enabled s \<Longrightarrow> ax_settings st k = Some s"
  shows "access_inv st'"
  using assms site_member_cong [OF assms(2,3)] unfolding access_inv_def list_guarded_def by metis

lemma ensure_inv: "ensure_access_settings sid now st = (s, st') \<Longrightarrow> access_inv st \<Longrightarrow> access_inv st'"
proof -
  assume e: "ensure_access_settings sid now st = (s, st')" and inv: "access_inv st"
  show "access_inv st'" by (rule inv_more_disabled [OF inv ensure_spec(1,2,5) [OF e]])
qed

lemma access_user_for_site_SomeD: "access_user_for_site sid i st = Some u \<Longrightarrow> site_member st sid u \<and> au_id u = i"
  by (auto simp: access_user_for_site_def site_member_def find_Some_iff)

lemma update_row_member:
  assumes "au_id u = au_id old" and "site_member st sid v"
  shows "site_member (update_user_row u st) sid (if au_id v = au_id u then u else v)"
  using assms by (auto simp: site_member_def update_user_row_def)

lemma update_row_inv:
  assumes inv: "access_inv st" and ok: "\<And>sid s. ax_settings st sid = Some s \<Longrightarrow> at_enabled s \<Longrightarrow>
      au_enabled u \<or> (\<exists>v. site_member st sid v \<and> au_enabled v \<and> au_id v \<noteq> au_id u)"
  shows "access_inv (update_user_row u st)"
proof -
  have ids: "map au_id (ax_users (update_user_row u st)) = map au_id (ax_users st)"
    by (auto simp: update_user_row_def)
  have "\<exists>v. site_member (update_user_row u st) sid v \<and> au_enabled v"
    if s: "ax_settings (update_user_row u st) sid = Some s" "at_enabled s" for sid s
  proof -
    from s have s': "ax_settings st sid = Some s" by (simp add: update_user_row_def)
    consider "au_enabled u" | v where "site_member st sid v" "au_enabled v" "au_id v \<noteq> au_id u" using ok [OF s' s(2)] by blast
    then show ?thesis
    proof cases
      case 1
      obtain v where "site_member st sid v" "au_enabled v" using inv s' s(2) unfolding access_inv_def list_guarded_def by blast
      then have "site_member (update_user_row u st) sid (if au_id v = au_id u then u else v)" by (intro update_row_member [OF refl])
      with 1 \<open>au_enabled v\<close> show ?thesis by (metis (full_types))
    next
      case (2 v)
      then have "site_member (update_user_row u st) sid v" using update_row_member [OF refl, of st sid v u] by simp
      with 2 show ?thesis by blast
    qed
  qed
  then show ?thesis using inv unfolding access_inv_def list_guarded_def ids by blast
qed

lemma update_row_inv_same:
  "access_inv st \<Longrightarrow> old \<in> set (ax_users st) \<Longrightarrow> au_id u = au_id old \<Longrightarrow> au_enabled u = au_enabled old \<Longrightarrow> access_inv (update_user_row u st)"
proof (rule update_row_inv)
  fix sid s
  assume inv: "access_inv st" and old: "old \<in> set (ax_users st)" "au_id u = au_id old" "au_enabled u = au_enabled old"
    and s: "ax_settings st sid = Some s" "at_enabled s"
  then obtain v where v: "site_member st sid v" "au_enabled v" unfolding access_inv_def list_guarded_def by blast
  have "au_id v = au_id old \<Longrightarrow> v = old"
    using inv old(1) v(1) by (auto simp: access_inv_def site_member_def distinct_map dest: inj_onD)
  with v old show "au_enabled u \<or> (\<exists>v. site_member st sid v \<and> au_enabled v \<and> au_id v \<noteq> au_id u)" by metis
qed

lemma revoke_inv: "access_inv st \<Longrightarrow> access_inv (revoke_sessions_for_access_user i now sid st)"
  by (rule inv_more_disabled) (auto simp: revoke_sessions_for_access_user_def)

lemma assign_inv: "access_inv st \<Longrightarrow> access_inv (assign_access_user sid i st)"
proof -
  assume "access_inv st"
  moreover have "site_member st k u \<Longrightarrow> site_member (assign_access_user sid i st) k u" for k u
    by (auto simp: site_member_def assign_access_user_def)
  ultimately show ?thesis unfolding access_inv_def list_guarded_def by (simp add: assign_access_user_def) blast
qed

lemma new_user_inv: "access_inv st \<Longrightarrow> au_id u \<notin> au_id ` set (ax_users st) \<Longrightarrow> access_inv (st\<lparr>ax_users := ax_users st @ [u]\<rparr>)"
  unfolding access_inv_def list_guarded_def site_member_def by (simp add: image_iff) blast

lemma import_inv: "access_inv st \<Longrightarrow> access_inv (snd (import_each sid is n st))"
  by (induction "is" arbitrary: n st) (auto simp: assign_inv split: option.splits)

lemma import_users: "ax_users (snd (import_each sid is n st)) = ax_users st"
  by (induction "is" arbitrary: n st) (auto simp: assign_access_user_def split: option.splits)

lemma update_row_users [simp]: "ax_users (update_user_row u st) = map (\<lambda>x. if au_id x = au_id u then u else x) (ax_users st)"
  "ax_memberships (update_user_row u st) = ax_memberships st" "ax_settings (update_user_row u st) = ax_settings st"
  "ax_sessions (update_user_row u st) = ax_sessions st"
  by (simp_all add: update_user_row_def)

lemma revoke_rows [simp]: "ax_users (revoke_sessions_for_access_user i now k st) = ax_users st"
  "ax_memberships (revoke_sessions_for_access_user i now k st) = ax_memberships st"
  "ax_settings (revoke_sessions_for_access_user i now k st) = ax_settings st"
  by (simp_all add: revoke_sessions_for_access_user_def)

lemma assign_rows [simp]: "ax_users (assign_access_user sid i st) = ax_users st" "ax_settings (assign_access_user sid i st) = ax_settings st"
  "ax_sessions (assign_access_user sid i st) = ax_sessions st"
  by (simp_all add: assign_access_user_def)

text \<open>User names are unique as well.\<close>

definition names_unique :: "access_state \<Rightarrow> bool" where
  "names_unique st \<longleftrightarrow> distinct (map au_username (ax_users st))"

lemma names_cong: "ax_users st' = ax_users st \<Longrightarrow> names_unique st \<Longrightarrow> names_unique st'"
  by (simp add: names_unique_def)

lemma distinct_map_update:
  assumes "distinct (map f xs)" and "distinct (map g xs)" and "\<And>x. x \<in> set xs \<Longrightarrow> g x = g u \<Longrightarrow> f x = f u"
  shows "distinct (map g (map (\<lambda>x. if f x = f u then u else x) xs))"
  using assms
proof (induction xs)
  case (Cons a xs)
  have rest: "distinct (map g (map (\<lambda>x. if f x = f u then u else x) xs))" using Cons by simp
  have "g (if f a = f u then u else a) \<noteq> g (if f x = f u then u else x)" if "x \<in> set xs" for x
    using Cons.prems that by (auto simp: image_iff)
  then have "g (if f a = f u then u else a) \<notin> set (map g (map (\<lambda>x. if f x = f u then u else x) xs))" by fastforce
  with rest show ?case unfolding list.map(2) distinct.simps(2) by blast
qed simp

lemma update_row_names:
  "access_inv st \<Longrightarrow> names_unique st \<Longrightarrow> (\<And>v. v \<in> set (ax_users st) \<Longrightarrow> au_username v = au_username u \<Longrightarrow> au_id v = au_id u)
    \<Longrightarrow> names_unique (update_user_row u st)"
  unfolding access_inv_def names_unique_def update_row_users by (rule distinct_map_update) auto

lemma by_username_None: "access_user_by_username n st = None \<longleftrightarrow> n \<notin> au_username ` set (ax_users st)"
  by (auto simp: access_user_by_username_def find_None_iff)

lemma by_username_Some:
  "access_user_by_username n st = Some c \<Longrightarrow> c \<in> set (ax_users st) \<and> au_username c = n"
  by (auto simp: access_user_by_username_def find_Some_iff)

lemma same_name_same_id:
  "names_unique st \<Longrightarrow> u \<in> set (ax_users st) \<Longrightarrow> v \<in> set (ax_users st) \<Longrightarrow> au_username v = au_username u \<Longrightarrow> au_id v = au_id u"
  by (auto simp: names_unique_def distinct_map dest: inj_onD)

definition access_ok :: "access_state \<Rightarrow> bool" where
  "access_ok st \<longleftrightarrow> access_inv st \<and> names_unique st"

lemma access_ok_same:
  "access_ok st \<Longrightarrow> ax_users st' = ax_users st \<Longrightarrow> ax_memberships st' = ax_memberships st \<Longrightarrow> ax_settings st' = ax_settings st \<Longrightarrow> access_ok st'"
  unfolding access_ok_def by (metis inv_more_disabled names_cong)

lemma access_ok_new:
  "access_ok st \<Longrightarrow> au_id u \<notin> au_id ` set (ax_users st) \<Longrightarrow> au_username u \<notin> au_username ` set (ax_users st)
    \<Longrightarrow> access_ok (st\<lparr>ax_users := ax_users st @ [u]\<rparr>)"
  unfolding access_ok_def using new_user_inv by (auto simp: names_unique_def)

lemma access_ok_assign: "access_ok st \<Longrightarrow> access_ok (assign_access_user sid i st)"
  unfolding access_ok_def using assign_inv names_cong assign_rows(1) by metis

lemma access_ok_revoke: "access_ok st \<Longrightarrow> access_ok (revoke_sessions_for_access_user i now k st)"
  by (rule access_ok_same) simp_all

lemma access_ok_ensure: "ensure_access_settings sid now st = (s, st') \<Longrightarrow> access_ok st \<Longrightarrow> access_ok st'"
  unfolding access_ok_def using ensure_inv ensure_spec(1) names_cong by metis

lemma access_ok_row:
  "access_ok st \<Longrightarrow> old \<in> set (ax_users st) \<Longrightarrow> au_id u = au_id old \<Longrightarrow> au_enabled u = au_enabled old \<Longrightarrow> au_username u = au_username old
    \<Longrightarrow> access_ok (update_user_row u st)"
  unfolding access_ok_def using update_row_inv_same update_row_names same_name_same_id by metis

lemma access_ok_with_user:
  "access_ok st \<Longrightarrow> (\<And>u. u \<in> set (ax_users st) \<Longrightarrow> au_id u = i \<Longrightarrow> access_ok (f u)) \<Longrightarrow> access_ok (snd (with_site_user sid i st f))"
  using access_user_for_site_SomeD [of sid i st] by (auto simp: with_site_user_def site_member_def split: option.splits)

lemma update_settings_ok: "access_ok st \<Longrightarrow> access_ok (snd (update_access_settings sid input now st))"
proof -
  assume ok: "access_ok st"
  obtain s st1 where e: "ensure_access_settings sid now st = (s, st1)" by fastforce
  have ok1: "access_ok st1" by (rule access_ok_ensure [OF e ok])
  have "access_ok (save_access_settings sid v now st1)" if "\<not> (at_enabled v \<and> active_user_count sid None st1 = 0)" for v
  proof -
    let ?st = "save_access_settings sid v now st1"
    have same: "ax_users ?st = ax_users st1" "ax_memberships ?st = ax_memberships st1" by (simp_all add: save_access_settings_def)
    have "list_guarded ?st"
      using ok1 that active_user_count_pos [of sid None st1] site_member_cong [OF same]
      unfolding access_ok_def access_inv_def list_guarded_def by (auto simp: save_access_settings_def split: if_splits)
    then show ?thesis using ok1 same unfolding access_ok_def access_inv_def names_unique_def by simp
  qed
  then show ?thesis using ok1 e by (auto simp: update_access_settings_def Let_def split: sum.splits)
qed

lemma create_ok:
  "access_ok st \<Longrightarrow> random_id \<notin> au_id ` set (ax_users st) \<Longrightarrow> access_ok (snd (create_access_user nt hash random_id sid input now st))"
  using access_ok_new access_ok_assign by_username_None
  by (auto simp: create_access_user_def Let_def split: sum.splits)

lemma settings_read_ok: "access_ok st \<Longrightarrow> access_ok (snd (access_settings_for_site sid now st))"
proof -
  assume ok: "access_ok st"
  obtain s st1 where e: "ensure_access_settings sid now st = (s, st1)" by fastforce
  have "access_ok (st1\<lparr>ax_settings_cache := c\<rparr>)" for c
    by (rule access_ok_same [OF access_ok_ensure [OF e ok]]) simp_all
  with e ok show ?thesis by (auto simp: access_settings_for_site_def split: option.splits)
qed

lemma access_sites_member: "(k, i) \<in> set (ax_memberships st) \<Longrightarrow> k \<in> set (access_site_ids_for_user i st)"
  by (force simp: access_site_ids_for_user_def)

lemma access_ok_fields [simp]:
  "access_ok (st\<lparr>ax_sessions := x\<rparr>) = access_ok st" "access_ok (st\<lparr>ax_failures := y\<rparr>) = access_ok st"
  "access_ok (st\<lparr>ax_credentials := z\<rparr>) = access_ok st"
  by (simp_all add: access_ok_def access_inv_def list_guarded_def names_unique_def site_member_def)

lemma sso_ok:
  assumes ok: "access_ok st"
    and new: "''user_sso_'' @ take 32 (sha (si_subject ident)) \<notin> au_id ` {u \<in> set (ax_users st). au_sso_subject u \<noteq> Some (si_subject ident)}"
  shows "access_ok (snd (resolve_or_provision_access_user sha rh sid ident now st))"
proof -
  have linked: "access_ok (update_user_row (old\<lparr>au_sso_subject := x, au_from_sso := y, au_updated_at := z\<rparr>) st)"
    if "access_user_by_username n st = Some old" for old n x y z
    using by_username_Some [OF that] ok by (auto intro: access_ok_row)
  have added: "access_ok (st\<lparr>ax_users := ax_users st @ [u]\<rparr>)"
    if "access_user_by_username n st = None" "au_username u = n" "au_id u = ''user_sso_'' @ take 32 (sha (si_subject ident))"
      "find (\<lambda>u. au_sso_subject u = Some (si_subject ident)) (ax_users st) = None" for u n
    using that new by (intro access_ok_new ok) (auto simp: by_username_None find_None_iff)
  show ?thesis
    using ok unfolding resolve_or_provision_access_user_def Let_def
    by (simp split: option.split sum.split) (auto intro!: access_ok_assign intro: linked added)
qed

text \<open>What the checks of a change or a removal have established, and what stays so while the accounts do not change.\<close>

definition spare_user :: "access_state \<Rightarrow> string \<Rightarrow> string \<Rightarrow> bool" where
  "spare_user st i k \<longleftrightarrow> (\<forall>s. ax_settings st k = Some s \<and> at_enabled s \<longrightarrow> (\<exists>v. site_member st k v \<and> au_enabled v \<and> au_id v \<noteq> i))"

definition change_ok :: "access_state \<Rightarrow> user_change \<Rightarrow> bool" where
  "change_ok st c \<longleftrightarrow> uc_old c \<in> set (ax_users st) \<and> (\<forall>v \<in> set (ax_users st). au_username v = uc_username c \<longrightarrow> au_id v = au_id (uc_old c))"

definition covered :: "access_state \<Rightarrow> user_change \<Rightarrow> string list \<Rightarrow> bool" where
  "covered st c ks \<longleftrightarrow> (\<not> uc_enabled c \<and> au_enabled (uc_old c) \<longrightarrow>
     (\<forall>k. k \<notin> set ks \<and> (k, au_id (uc_old c)) \<in> set (ax_memberships st) \<longrightarrow> spare_user st (au_id (uc_old c)) k))"

fun update_ok :: "access_state \<Rightarrow> update_task \<Rightarrow> bool" where
  "update_ok st (UpdateUser sid i input) \<longleftrightarrow> True"
| "update_ok st (UpdateNamed old input username) \<longleftrightarrow> old \<in> set (ax_users st)"
| "update_ok st (UpdateSites c) \<longleftrightarrow> change_ok st c"
| "update_ok st (UpdateSettings c k ks) \<longleftrightarrow> change_ok st c \<and> covered st c (k # ks)"
| "update_ok st (UpdateCount c k ks) \<longleftrightarrow> change_ok st c \<and> covered st c (k # ks)"
| "update_ok st (UpdateWrite c) \<longleftrightarrow> change_ok st c \<and> covered st c []"
| "update_ok st (UpdateRevoke u) \<longleftrightarrow> u \<in> set (ax_users st)"

fun remove_ok :: "access_state \<Rightarrow> remove_task \<Rightarrow> bool" where
  "remove_ok st (RemoveUser sid i) \<longleftrightarrow> True"
| "remove_ok st (RemoveSettings sid old) \<longleftrightarrow> old \<in> set (ax_users st)"
| "remove_ok st (RemoveCount sid i) \<longleftrightarrow> True"
| "remove_ok st (RemoveMembership sid i) \<longleftrightarrow> spare_user st i sid"
| "remove_ok st (RemoveRevoke sid i) \<longleftrightarrow> True"
| "remove_ok st (RemoveSites i) \<longleftrightarrow> True"
| "remove_ok st (RemoveCredentials i) \<longleftrightarrow> (\<forall>k. (k, i) \<notin> set (ax_memberships st))"
| "remove_ok st (RemoveRow i) \<longleftrightarrow> (\<forall>k. (k, i) \<notin> set (ax_memberships st))"

definition same_accounts :: "access_state \<Rightarrow> access_state \<Rightarrow> bool" where
  "same_accounts st st' \<longleftrightarrow> ax_users st' = ax_users st \<and> ax_memberships st' = ax_memberships st
     \<and> (\<forall>k s. ax_settings st' k = Some s \<and> at_enabled s \<longrightarrow> ax_settings st k = Some s)"

lemma same_accounts_fields [simp]:
  "same_accounts st st" "same_accounts st (st\<lparr>ax_sessions := x\<rparr>)" "same_accounts st (st\<lparr>ax_failures := y\<rparr>)"
  by (simp_all add: same_accounts_def)

lemma same_spare: "same_accounts st st' \<Longrightarrow> spare_user st i k \<Longrightarrow> spare_user st' i k"
  unfolding same_accounts_def spare_user_def site_member_def by metis

lemma same_covered: "same_accounts st st' \<Longrightarrow> covered st c ks \<Longrightarrow> covered st' c ks"
  using same_spare unfolding covered_def same_accounts_def by metis

lemma same_change: "same_accounts st st' \<Longrightarrow> change_ok st' c = change_ok st c"
  by (simp add: same_accounts_def change_ok_def)

lemma same_update_ok: "same_accounts st st' \<Longrightarrow> update_ok st t \<Longrightarrow> update_ok st' t"
  by (cases t) (auto simp: same_change dest: same_covered, auto simp: same_accounts_def)

lemma same_remove_ok: "same_accounts st st' \<Longrightarrow> remove_ok st t \<Longrightarrow> remove_ok st' t"
  by (cases t) (auto dest: same_spare, auto simp: same_accounts_def)

lemma more_disabled_ok: "access_ok st \<Longrightarrow> same_accounts st st' \<Longrightarrow> access_ok st'"
  unfolding access_ok_def same_accounts_def by (metis inv_more_disabled names_cong)

lemma ensure_same: "ensure_access_settings sid now st = (s, st') \<Longrightarrow> same_accounts st st'"
  using ensure_spec unfolding same_accounts_def by metis

lemma member_by_id: "access_ok st \<Longrightarrow> site_member st k v \<Longrightarrow> old \<in> set (ax_users st) \<Longrightarrow> au_id v = au_id old \<Longrightarrow> v = old"
  by (auto simp: access_ok_def access_inv_def site_member_def distinct_map dest: inj_onD)

lemma guarded: "access_ok st \<Longrightarrow> ax_settings st k = Some s \<Longrightarrow> at_enabled s \<Longrightarrow> \<exists>v. site_member st k v \<and> au_enabled v"
  unfolding access_ok_def access_inv_def list_guarded_def by blast

section \<open>Steps of a change\<close>

lemma next_site_ok: "change_ok st c \<Longrightarrow> covered st c ks \<Longrightarrow> update_ok st (next_site c ks)"
  by (cases ks) (simp_all add: next_site_def)

lemma read_update_ok: "update_read nt sid i input st = Goes t \<Longrightarrow> update_ok st t"
  using access_user_for_site_SomeD [of sid i st]
  by (auto simp: update_read_def site_member_def split: option.splits sum.splits)

lemma named_update_ok:
  assumes ok: "access_ok st" and old: "old \<in> set (ax_users st)" and t: "update_named nt old input username st = Goes t"
  shows "update_ok st t"
proof -
  obtain password enabled where v: "password_value nt (j_get input ''password'') False = Inr password"
      "flag_value (j_get input ''enabled'') (au_enabled old) = Inr enabled"
    and free: "\<not> (case access_user_by_username username st of None \<Rightarrow> False | Some c \<Rightarrow> au_id c \<noteq> au_id old)"
    using t by (auto simp: update_named_def split: if_split_asm sum.split_asm)
  define c where "c = \<lparr>uc_old = old, uc_username = username, uc_password = password, uc_enabled = enabled\<rparr>"
  have c: "t = (if \<not> uc_enabled c \<and> au_enabled (uc_old c) then UpdateSites c else UpdateWrite c)" "uc_old c = old" "uc_username c = username"
    using t v free by (auto simp: update_named_def c_def)
  have "au_id v = au_id old" if "v \<in> set (ax_users st)" "au_username v = username" for v
  proof (cases "access_user_by_username username st")
    case None
    then show ?thesis using that by (auto simp: by_username_None)
  next
    case (Some w)
    then show ?thesis using free that by_username_Some [OF Some] same_name_same_id [of st w v] ok by (auto simp: access_ok_def)
  qed
  then have "change_ok st c" using old by (simp add: change_ok_def c(2,3))
  then show ?thesis by (simp add: c(1) covered_def)
qed

lemma settings_update_ok:
  assumes ok: "change_ok st c" "covered st c (k # ks)" and e: "ensure_access_settings k now st = (s, st')"
  shows "update_ok st' (if at_enabled s then UpdateCount c k ks else next_site c ks)"
proof -
  have c: "change_ok st' c" "covered st' c (k # ks)" using ok same_change same_covered ensure_same [OF e] by blast+
  then show ?thesis
  proof (cases "at_enabled s")
    case False
    then have "spare_user st' i k" for i using ensure_spec(4) [OF e] by (simp add: spare_user_def)
    then have "covered st' c ks" using c(2) unfolding covered_def by (metis set_ConsD)
    then show ?thesis using False c(1) next_site_ok by simp
  qed simp
qed

lemma count_update_ok:
  assumes ok: "change_ok st c" "covered st c (k # ks)" and n: "active_user_count k (Some (au_id (uc_old c))) st \<noteq> 0"
  shows "update_ok st (next_site c ks)"
proof (rule next_site_ok [OF ok(1)])
  have "spare_user st (au_id (uc_old c)) k" using n unfolding active_user_count_pos spare_user_def by auto
  then show "covered st c ks" using ok(2) by (auto simp: covered_def)
qed

lemma write_update_ok:
  assumes ok: "access_ok st" and c: "change_ok st c" "covered st c []"
  shows "access_ok (update_user_row (changed_row hash now c) st) \<and> changed_row hash now c \<in> set (ax_users (update_user_row (changed_row hash now c) st))"
proof -
  let ?u = "changed_row hash now c"
  have u: "au_id ?u = au_id (uc_old c)" "au_username ?u = uc_username c" "au_enabled ?u = uc_enabled c" by (simp_all add: changed_row_def)
  have old: "uc_old c \<in> set (ax_users st)" using c(1) by (simp add: change_ok_def)
  have "access_inv (update_user_row ?u st)"
  proof (rule update_row_inv)
    show "access_inv st" using ok by (simp add: access_ok_def)
    fix k s assume s: "ax_settings st k = Some s" "at_enabled s"
    obtain v where v: "site_member st k v" "au_enabled v" using guarded [OF ok s] by blast
    show "au_enabled ?u \<or> (\<exists>v. site_member st k v \<and> au_enabled v \<and> au_id v \<noteq> au_id ?u)"
    proof (cases "uc_enabled c \<or> au_id v \<noteq> au_id (uc_old c)")
      case True
      then show ?thesis using v u by auto
    next
      case False
      then have "v = uc_old c" using member_by_id [OF ok v(1) old] by simp
      then have "spare_user st (au_id (uc_old c)) k" using c(2) False v by (auto simp: covered_def site_member_def)
      then show ?thesis using s unfolding spare_user_def u by blast
    qed
  qed
  moreover have "names_unique (update_user_row ?u st)"
    by (rule update_row_names) (use ok c(1) u in \<open>auto simp: access_ok_def change_ok_def\<close>)
  moreover have "?u \<in> set (ax_users (update_user_row ?u st))" using old u(1) by (force simp: image_iff)
  ultimately show ?thesis by (simp add: access_ok_def)
qed

lemma update_step_ok:
  assumes ok: "access_ok st" "update_ok st t" and step: "update_step nt hash now t st = (p, st')"
  shows "access_ok st' \<and> (\<forall>t' \<in> set (going p). update_ok st' t')"
proof (cases t)
  case (UpdateUser sid i input)
  then show ?thesis using step ok read_update_ok by (cases p) auto
next
  case (UpdateNamed old input username)
  then show ?thesis using step ok named_update_ok by (cases p) auto
next
  case (UpdateSites c)
  have "covered st c (access_site_ids_for_user (au_id (uc_old c)) st)" using access_sites_member by (auto simp: covered_def)
  then show ?thesis using step ok UpdateSites next_site_ok by auto
next
  case (UpdateSettings c k ks)
  obtain s st1 where e: "ensure_access_settings k now st = (s, st1)" by fastforce
  then show ?thesis using step ok UpdateSettings settings_update_ok [OF _ _ e] access_ok_ensure [OF e] by auto
next
  case (UpdateCount c k ks)
  then show ?thesis using step ok count_update_ok by (auto split: if_splits)
next
  case (UpdateWrite c)
  then show ?thesis using step ok write_update_ok [OF ok(1), of c hash now] by (auto simp: Let_def simp del: update_row_users split: if_splits)
next
  case (UpdateRevoke u)
  then show ?thesis using step ok access_ok_revoke by auto
qed

section \<open>Steps of a removal\<close>

lemma membership_removed_ok:
  assumes ok: "access_ok st" and spare: "spare_user st i sid"
  shows "access_ok (st\<lparr>ax_memberships := filter (\<lambda>m. m \<noteq> (sid, i)) (ax_memberships st)\<rparr>)"
proof -
  let ?st = "st\<lparr>ax_memberships := filter (\<lambda>m. m \<noteq> (sid, i)) (ax_memberships st)\<rparr>"
  have "\<exists>v. site_member ?st k v \<and> au_enabled v" if s: "ax_settings st k = Some s" "at_enabled s" for k s
  proof -
    obtain v where v: "site_member st k v" "au_enabled v" using guarded [OF ok s] by blast
    show ?thesis
    proof (cases "(k, au_id v) = (sid, i)")
      case True
      then obtain w where "site_member st k w" "au_enabled w" "au_id w \<noteq> i" using spare s unfolding spare_user_def by blast
      then show ?thesis by (auto simp: site_member_def)
    next
      case False
      then show ?thesis using v by (auto simp: site_member_def)
    qed
  qed
  then have "list_guarded ?st" by (auto simp: list_guarded_def)
  then show ?thesis using ok by (simp add: access_ok_def access_inv_def names_unique_def)
qed

lemma row_removed_ok:
  assumes ok: "access_ok st" and "\<forall>k. (k, i) \<notin> set (ax_memberships st)"
  shows "access_ok (st\<lparr>ax_users := filter (\<lambda>u. au_id u \<noteq> i) (ax_users st)\<rparr>)"
proof -
  let ?st = "st\<lparr>ax_users := filter (\<lambda>u. au_id u \<noteq> i) (ax_users st)\<rparr>"
  have "site_member ?st k v" if "site_member st k v" for k v using that assms(2) by (auto simp: site_member_def)
  then have "list_guarded ?st" using guarded [OF ok] unfolding list_guarded_def by simp blast
  then show ?thesis using ok by (auto simp: access_ok_def access_inv_def names_unique_def distinct_map_filter)
qed

lemma remove_step_ok:
  assumes ok: "access_ok st" "remove_ok st t" and step: "remove_step now t st = (p, st')"
  shows "access_ok st' \<and> (\<forall>t' \<in> set (going p). remove_ok st' t')"
proof (cases t)
  case (RemoveUser sid i)
  then show ?thesis using step ok access_user_for_site_SomeD [of sid i st] by (auto simp: site_member_def split: option.splits)
next
  case (RemoveSettings sid old)
  obtain s st1 where e: "ensure_access_settings sid now st = (s, st1)" by fastforce
  have ok1: "access_ok st1" by (rule access_ok_ensure [OF e ok(1)])
  have "spare_user st1 (au_id old) sid" if "\<not> (at_enabled s \<and> au_enabled old)"
    unfolding spare_user_def
  proof (intro allI impI)
    fix s' assume s': "ax_settings st1 sid = Some s' \<and> at_enabled s'"
    obtain v where v: "site_member st1 sid v" "au_enabled v" using guarded [OF ok1] s' by blast
    have "old \<in> set (ax_users st1)" using ok(2) RemoveSettings ensure_spec(1) [OF e] by simp
    then have "au_id v \<noteq> au_id old" using member_by_id [OF ok1 v(1)] v(2) that s' ensure_spec(4) [OF e] by auto
    then show "\<exists>v. site_member st1 sid v \<and> au_enabled v \<and> au_id v \<noteq> au_id old" using v by blast
  qed
  then show ?thesis using step RemoveSettings e ok1 by auto
next
  case (RemoveCount sid i)
  then show ?thesis using step ok active_user_count_pos [of sid "Some i" st] by (auto simp: spare_user_def split: if_splits)
next
  case (RemoveMembership sid i)
  then show ?thesis using step ok membership_removed_ok by auto
next
  case (RemoveRevoke sid i)
  then show ?thesis using step ok access_ok_revoke by auto
next
  case (RemoveSites i)
  then show ?thesis using step ok access_sites_member [of _ i st] by (auto split: if_splits)
next
  case (RemoveCredentials i)
  then show ?thesis using step ok by auto
next
  case (RemoveRow i)
  then show ?thesis using step ok row_removed_ok by auto
qed

section \<open>Requests that run at the same time\<close>

text \<open>
  Reading settings, signing in, using an API token and the reload of a site leave the accounts as they are. The
  changes besides the two above are taken as one step each. With \<open>alone\<close> a change of the accounts, by an
  administrator or by single sign-on, begins only when no other is in progress; everything else may happen between any
  two of its steps. Without it nothing is assumed.
\<close>

inductive reading_step :: "access_state \<Rightarrow> access_state \<Rightarrow> bool" where
  settings_read: "reading_step st (snd (access_settings_for_site sid now st))"
| login_refused: "begin_login nt sid ip un pw now (ax_failures st) = (Inl retry, t) \<Longrightarrow> reading_step st (st\<lparr>ax_failures := t\<rparr>)"
| token_used: "reading_step st (snd (resolve_api_token_access env rq site ip ua random_id th now st))"
| site_invalidated: "reading_step st (invalidate_access_site sid st)"

inductive change_step :: "access_state \<Rightarrow> access_state \<Rightarrow> bool" where
  settings_saved: "change_step st (snd (update_access_settings sid input now st))"
| user_created: "random_id \<notin> au_id ` set (ax_users st) \<Longrightarrow> change_step st (snd (create_access_user nt hash random_id sid input now st))"
| users_imported: "change_step st (snd (import_access_users nt sid ids st))"
| totp_required: "change_step st (snd (set_access_user_totp_required sid i required now st))"
| two_factor_reset: "change_step st (snd (reset_access_user_two_factor sid i now st))"
| token_made: "change_step st (snd (generate_access_user_api_token sha token sid i now st))"
| token_revoked: "change_step st (snd (revoke_access_user_api_token sid i now st))"
| sso_login: "''user_sso_'' @ take 32 (sha (si_subject ident)) \<notin> au_id ` {u \<in> set (ax_users st). au_sso_subject u \<noteq> Some (si_subject ident)}
    \<Longrightarrow> change_step st (snd (resolve_or_provision_access_user sha rh sid ident now st))"

definition no_change_running :: "access_system \<Rightarrow> bool" where
  "no_change_running s \<longleftrightarrow> sy_updates s = [] \<and> sy_removals s = []"

inductive access_step :: "bool \<Rightarrow> access_system \<Rightarrow> access_system \<Rightarrow> bool" for alone where
  reading: "reading_step (sy_state s) st \<Longrightarrow> access_step alone s (s\<lparr>sy_state := st\<rparr>)"
| changing: "alone \<longrightarrow> no_change_running s \<Longrightarrow> change_step (sy_state s) st \<Longrightarrow> access_step alone s (s\<lparr>sy_state := st\<rparr>)"
| update_begun: "alone \<longrightarrow> no_change_running s \<Longrightarrow> access_step alone s (s\<lparr>sy_updates := sy_updates s @ [UpdateUser sid i input]\<rparr>)"
| removal_begun: "alone \<longrightarrow> no_change_running s \<Longrightarrow> access_step alone s (s\<lparr>sy_removals := sy_removals s @ [RemoveUser sid i]\<rparr>)"
| login_begun: "begin_login nt sid ip un pw now (ax_failures (sy_state s)) = (Inr a, t) \<Longrightarrow>
    access_step alone s (s\<lparr>sy_state := (sy_state s)\<lparr>ax_failures := t\<rparr>, sy_logins := sy_logins s @ [LoginRead a]\<rparr>)"
| update_runs: "k < length (sy_updates s) \<Longrightarrow> access_step alone s (advance_update nt hash now k s)"
| removal_runs: "k < length (sy_removals s) \<Longrightarrow> access_step alone s (advance_removal now k s)"
| login_runs: "k < length (sy_logins s) \<Longrightarrow> access_step alone s (advance_login verify dummy k s)"

inductive_cases reading_stepE: "reading_step st st'"
inductive_cases change_stepE: "change_step st st'"
inductive_cases access_stepE: "access_step alone s s'"

definition empty_access_state :: access_state where
  "empty_access_state = \<lparr>ax_users = [], ax_memberships = [], ax_settings = Map.empty, ax_sessions = [], ax_credentials = [],
     ax_settings_cache = Map.empty, ax_failures = new_tracker 20000\<rparr>"

definition empty_system :: access_system where
  "empty_system = \<lparr>sy_state = empty_access_state, sy_updates = [], sy_removals = [], sy_logins = []\<rparr>"

lemma settings_read_same: "same_accounts st (snd (access_settings_for_site sid now st))"
proof -
  obtain s st1 where e: "ensure_access_settings sid now st = (s, st1)" by fastforce
  then have "same_accounts st (st1\<lparr>ax_settings_cache := c\<rparr>)" for c using ensure_same [OF e] by (simp add: same_accounts_def)
  then show ?thesis using e by (auto simp: access_settings_for_site_def split: option.splits)
qed

lemma reading_same: "reading_step st st' \<Longrightarrow> same_accounts st st'"
proof (induction rule: reading_step.induct)
  case (token_used st env rq site ip ua random_id th now)
  show ?case by (simp add: resolve_api_token_access_def Let_def split: option.split)
next
  case (site_invalidated st sid)
  show ?case by (simp add: invalidate_access_site_def same_accounts_def)
qed (simp_all add: settings_read_same)

lemma login_step_same: "login_step verify dummy t st = (p, st') \<Longrightarrow> same_accounts st st'"
  by (cases t) (auto simp: finish_login_def Let_def split: option.splits if_splits)

lemma change_step_ok: "change_step st st' \<Longrightarrow> access_ok st \<Longrightarrow> access_ok st'"
proof (induction rule: change_step.induct)
  case (users_imported st nt sid ids)
  have "access_ok (snd (import_each sid is n st))" for "is" n
    using users_imported import_inv import_users names_cong unfolding access_ok_def by metis
  then show ?case using users_imported by (simp add: import_access_users_def split: option.splits json.splits)
next
  case (totp_required st sid i required now)
  then show ?case unfolding set_access_user_totp_required_def
    by (intro access_ok_with_user access_ok_revoke) (auto intro: access_ok_row)
next
  case (two_factor_reset st sid i now)
  show ?case unfolding reset_access_user_two_factor_def
  proof (intro access_ok_with_user access_ok_revoke two_factor_reset)
    fix u assume "u \<in> set (ax_users st)" "au_id u = i"
    then have "access_ok (update_user_row (u\<lparr>au_totp_secret := None, au_totp_enrolled_at := None, au_updated_at := now\<rparr>) st)"
      using two_factor_reset by (auto intro: access_ok_row)
    then show "access_ok ((update_user_row (u\<lparr>au_totp_secret := None, au_totp_enrolled_at := None, au_updated_at := now\<rparr>) st)
         \<lparr>ax_credentials := filter (\<lambda>c. c \<noteq> (i, sid)) (ax_credentials st)\<rparr>)"
      by (rule access_ok_same) simp_all
  qed
next
  case (token_made st sha token sid i now)
  then show ?case unfolding generate_access_user_api_token_def by (intro access_ok_with_user) (auto intro: access_ok_row)
next
  case (token_revoked st sid i now)
  then show ?case unfolding revoke_access_user_api_token_def by (intro access_ok_with_user) (auto intro: access_ok_row)
qed (simp_all add: update_settings_ok create_ok sso_ok)

text \<open>The invariant of the system: at most one change is in progress, and what it has checked still holds.\<close>

definition requests_ok :: "access_system \<Rightarrow> bool" where
  "requests_ok s \<longleftrightarrow> access_ok (sy_state s) \<and> length (sy_updates s) + length (sy_removals s) \<le> 1
     \<and> list_all (update_ok (sy_state s)) (sy_updates s) \<and> list_all (remove_ok (sy_state s)) (sy_removals s)"

lemma requests_ok_same:
  assumes "requests_ok s" and same: "same_accounts (sy_state s) st"
  shows "requests_ok (s\<lparr>sy_state := st, sy_logins := ls\<rparr>)"
  using assms(1) more_disabled_ok [OF _ same] same_update_ok [OF same] same_remove_ok [OF same]
  by (auto simp: requests_ok_def list_all_iff)

lemma at_most_one: "k < length xs \<Longrightarrow> length xs + n \<le> 1 \<Longrightarrow> k = 0 \<and> n = 0 \<and> (\<exists>x. xs = [x])"
  by (cases xs; cases "tl xs") auto

lemma going_length: "length (going p) \<le> 1"
  by (cases p) simp_all

lemma advance_update_ok: "k < length (sy_updates s) \<Longrightarrow> requests_ok s \<Longrightarrow> requests_ok (advance_update nt hash now k s)"
proof -
  assume k: "k < length (sy_updates s)" and ok: "requests_ok s"
  then obtain t where t: "sy_updates s = [t]" "sy_removals s = []" "k = 0" using at_most_one [OF k, of "length (sy_removals s)"] by (auto simp: requests_ok_def)
  obtain p st where step: "update_step nt hash now t (sy_state s) = (p, st)" by fastforce
  show ?thesis using update_step_ok [OF _ _ step] ok t step going_length [of p]
    by (auto simp: requests_ok_def advance_update_def replace_task_def list_all_iff)
qed

lemma advance_removal_ok: "k < length (sy_removals s) \<Longrightarrow> requests_ok s \<Longrightarrow> requests_ok (advance_removal now k s)"
proof -
  assume k: "k < length (sy_removals s)" and ok: "requests_ok s"
  then obtain t where t: "sy_removals s = [t]" "sy_updates s = []" "k = 0" using at_most_one [OF k, of "length (sy_updates s)"] by (auto simp: requests_ok_def add.commute)
  obtain p st where step: "remove_step now t (sy_state s) = (p, st)" by fastforce
  show ?thesis using remove_step_ok [OF _ _ step] ok t step going_length [of p]
    by (auto simp: requests_ok_def advance_removal_def replace_task_def list_all_iff)
qed

lemma access_step_ok: "access_step True s s' \<Longrightarrow> requests_ok s \<Longrightarrow> requests_ok s'"
proof (induction rule: access_step.induct)
  case (reading s st)
  then show ?case using requests_ok_same [OF reading(2) reading_same, of st "sy_logins s"] by simp
next
  case (changing s st)
  then show ?case using change_step_ok by (auto simp: requests_ok_def no_change_running_def)
next
  case (login_begun nt sid ip un pw now s a t)
  then show ?case by (intro requests_ok_same) simp_all
next
  case (login_runs k s verify dummy)
  obtain p st where step: "login_step verify dummy (sy_logins s ! k) (sy_state s) = (p, st)" by fastforce
  then show ?case using requests_ok_same [OF login_runs(2) login_step_same [OF step]] by (simp add: advance_login_def)
qed (auto simp: advance_update_ok advance_removal_ok, auto simp: requests_ok_def no_change_running_def)

lemma access_reachable_ok: "(access_step True)\<^sup>*\<^sup>* empty_system s \<Longrightarrow> requests_ok s"
proof (induction rule: rtranclp_induct)
  case base
  show ?case by (simp add: empty_system_def empty_access_state_def requests_ok_def access_ok_def access_inv_def list_guarded_def names_unique_def)
qed (rule access_step_ok)

text \<open>
  C31: as long as changes of the accounts do not overlap, a list that is switched on always has an active account
  that can sign in, and account ids and user names stay unique: for every order of the steps of changes, removals,
  logins, uses of API tokens and reads of settings, and in the states between the steps of a change as well. (Ids
  drawn at random or hashed from a subject are taken to be new.)
\<close>

theorem enabled_list_has_active_user:
  assumes "(access_step True)\<^sup>*\<^sup>* empty_system s"
  shows "(\<forall>k r. ax_settings (sy_state s) k = Some r \<and> at_enabled r \<longrightarrow> 0 < active_user_count k None (sy_state s))
    \<and> distinct (map au_id (ax_users (sy_state s))) \<and> distinct (map au_username (ax_users (sy_state s)))"
proof -
  have ok: "access_ok (sy_state s)" using access_reachable_ok [OF assms] by (simp add: requests_ok_def)
  then have "0 < active_user_count k None (sy_state s)" if "ax_settings (sy_state s) k = Some r" "at_enabled r" for k r
    using that active_user_count_pos [of k None "sy_state s"] unfolding access_ok_def access_inv_def list_guarded_def by auto
  with ok show ?thesis unfolding access_ok_def access_inv_def names_unique_def by blast
qed

text \<open>Two accounts, a list that is switched on, and a request that has just disabled the first account.\<close>

definition no_text :: "rat \<Rightarrow> string" where
  "no_text r = []"

definition demo_input :: "string \<Rightarrow> json" where
  "demo_input username = JObject [(''username'', JString username), (''password'', JString ''12345678'')]"

definition disable_input :: json where
  "disable_input = JObject [(''enabled'', JBool False)]"

definition demo_user_state :: access_state where
  "demo_user_state = snd (create_access_user no_text id ''u1'' ''s1'' (demo_input ''Ann'') 0 empty_access_state)"

definition demo_access_state :: access_state where
  "demo_access_state = snd (update_access_settings ''s1'' (JObject [(''enabled'', JBool True)]) 2
     (snd (create_access_user no_text id ''u2'' ''s1'' (demo_input ''Bob'') 1 demo_user_state)))"

definition demo_disabling :: "nat \<Rightarrow> access_system" where
  "demo_disabling n = (advance_update no_text id 5 0 ^^ n)
     (empty_system\<lparr>sy_state := demo_access_state, sy_updates := [UpdateUser ''s1'' ''u1'' disable_input]\<rparr>)"

lemma update_runs_reached:
  assumes "r\<^sup>*\<^sup>* s0 s" and "\<And>s s'. access_step True s s' \<Longrightarrow> r s s'"
    and "list_all (\<lambda>m. 0 < length (sy_updates ((advance_update nt hash now 0 ^^ m) s))) [0..<n]"
  shows "r\<^sup>*\<^sup>* s0 ((advance_update nt hash now 0 ^^ n) s)"
  using assms(3)
proof (induction n)
  case (Suc n)
  then have "access_step True ((advance_update nt hash now 0 ^^ n) s) ((advance_update nt hash now 0 ^^ Suc n) s)"
    using access_step.update_runs by simp
  moreover have "r\<^sup>*\<^sup>* s0 ((advance_update nt hash now 0 ^^ n) s)" using Suc by simp
  ultimately show ?case using assms(2) by (blast intro: rtranclp.rtrancl_into_rtrancl)
qed (simp add: assms(1))

lemma changing_reached: "(access_step True)\<^sup>*\<^sup>* empty_system (empty_system\<lparr>sy_state := st\<rparr>) \<Longrightarrow> change_step st st' \<Longrightarrow>
   (access_step True)\<^sup>*\<^sup>* empty_system (empty_system\<lparr>sy_state := st'\<rparr>)"
  using access_step.changing [of True "empty_system\<lparr>sy_state := st\<rparr>" st']
  by (simp add: no_change_running_def empty_system_def rtranclp.rtrancl_into_rtrancl)

lemma demo_accounts_reached: "(access_step True)\<^sup>*\<^sup>* empty_system (empty_system\<lparr>sy_state := demo_access_state\<rparr>)"
proof -
  have "(access_step True)\<^sup>*\<^sup>* empty_system (empty_system\<lparr>sy_state := empty_access_state\<rparr>)" by (simp add: empty_system_def)
  moreover have "change_step empty_access_state demo_user_state"
    unfolding demo_user_state_def by (rule change_step.user_created) (simp add: empty_access_state_def)
  ultimately have 1: "(access_step True)\<^sup>*\<^sup>* empty_system (empty_system\<lparr>sy_state := demo_user_state\<rparr>)" by (rule changing_reached)
  have "map au_id (ax_users demo_user_state) = [''u1'']" by code_simp
  then have "''u2'' \<notin> set (map au_id (ax_users demo_user_state))" by simp
  then have "change_step demo_user_state (snd (create_access_user no_text id ''u2'' ''s1'' (demo_input ''Bob'') 1 demo_user_state))"
    by (intro change_step.user_created) simp
  from changing_reached [OF changing_reached [OF 1 this] change_step.settings_saved]
  show ?thesis unfolding demo_access_state_def .
qed

lemma demo_disabling_begun:
  "(access_step True)\<^sup>*\<^sup>* empty_system (empty_system\<lparr>sy_state := demo_access_state, sy_updates := [UpdateUser ''s1'' ''u1'' disable_input]\<rparr>)"
proof -
  have "access_step True (empty_system\<lparr>sy_state := demo_access_state\<rparr>)
      (empty_system\<lparr>sy_state := demo_access_state, sy_updates := [UpdateUser ''s1'' ''u1'' disable_input]\<rparr>)"
    using access_step.update_begun [of True "empty_system\<lparr>sy_state := demo_access_state\<rparr>"] by (simp add: no_change_running_def empty_system_def)
  then show ?thesis using demo_accounts_reached by (rule rtranclp.rtrancl_into_rtrancl [rotated])
qed

lemma demo_disabling_reached: "n \<le> 6 \<Longrightarrow> (access_step True)\<^sup>*\<^sup>* empty_system (demo_disabling n)"
proof -
  assume "n \<le> 6"
  have "list_all (\<lambda>m. 0 < length (sy_updates (demo_disabling m))) [0..<6]" by code_simp
  then have "list_all (\<lambda>m. 0 < length (sy_updates (demo_disabling m))) [0..<n]" using \<open>n \<le> 6\<close> by (auto simp: list_all_iff)
  then show ?thesis unfolding demo_disabling_def by (intro update_runs_reached [OF demo_disabling_begun])
qed

theorem enabled_list_has_active_user_witness:
  "map_option at_enabled (ax_settings (sy_state (demo_disabling 6)) ''s1'') = Some True \<and> 0 < active_user_count ''s1'' None (sy_state (demo_disabling 6))
    \<and> map au_enabled (ax_users (sy_state (demo_disabling 6))) = [False, True]"
proof -
  have on: "map_option at_enabled (ax_settings (sy_state (demo_disabling 6)) ''s1'') = Some True"
    "map au_enabled (ax_users (sy_state (demo_disabling 6))) = [False, True]" by code_simp+
  then show ?thesis using enabled_list_has_active_user [OF demo_disabling_reached [of 6]] by auto
qed

section \<open>Taking an account out of use\<close>




definition disabled_account :: "string \<Rightarrow> access_state \<Rightarrow> bool" where
  "disabled_account i st \<longleftrightarrow> i \<in> au_id ` set (ax_users st) \<and> (\<forall>v \<in> set (ax_users st). au_id v = i \<longrightarrow> \<not> au_enabled v)"




lemma disabled_assign [simp]: "disabled_account i (assign_access_user sid j st) = disabled_account i st"
  "disabled_account i (revoke_sessions_for_access_user j now k st) = disabled_account i st"
  "disabled_account i (st\<lparr>ax_credentials := z\<rparr>) = disabled_account i st"
  by (simp_all add: disabled_account_def)












lemma revoked_everywhere:
  "s \<in> set (ax_sessions (revoke_sessions_for_access_user i now k st)) \<Longrightarrow> as_access_user_id s = Some i \<Longrightarrow>
     k = None \<or> k = Some (as_site_id s) \<Longrightarrow> as_revoked_at s \<noteq> None"
  by (auto simp: revoke_sessions_for_access_user_def split: if_splits)


definition demo_attempt :: login_attempt where
  "demo_attempt = \<lparr>la_site = ''s1'', la_keys = failure_keys ''s1'' ''1.2.3.4'' ''ann'', la_now = 4, la_username = ''ann'', la_password = ''12345678''\<rparr>"


section \<open>Changes and logins that overlap\<close>

definition disabling :: "access_user \<Rightarrow> user_change" where
  "disabling u = \<lparr>uc_old = u, uc_username = au_username u, uc_password = None, uc_enabled = False\<rparr>"

abbreviation requests :: "access_state \<Rightarrow> update_task list \<Rightarrow> login_task list \<Rightarrow> access_system" where
  "requests st us ls \<equiv> \<lparr>sy_state = st, sy_updates = us, sy_removals = [], sy_logins = ls\<rparr>"

lemma one_update_step:
  "update_step nt hash now t st = (p, st') \<Longrightarrow> access_step alone (requests st (xs @ t # ys) ls) (requests st' (xs @ going p @ ys) ls)"
  using access_step.update_runs [of "length xs" "requests st (xs @ t # ys) ls" alone nt hash now]
  by (simp add: advance_update_def replace_task_def)

lemma one_update_goes:
  "update_step nt hash now t st = (Goes t', st') \<Longrightarrow> (access_step alone)\<^sup>*\<^sup>* (requests st' (xs @ t' # ys) ls) s \<Longrightarrow>
   (access_step alone)\<^sup>*\<^sup>* (requests st (xs @ t # ys) ls) s"
  using one_update_step [of nt hash now t st "Goes t'" st' alone xs ys ls] by (auto intro: converse_rtranclp_into_rtranclp)

lemma row_by_id: "access_ok st \<Longrightarrow> u \<in> set (ax_users st) \<Longrightarrow> v \<in> set (ax_users st) \<Longrightarrow> au_id v = au_id u \<Longrightarrow> v = u"
  by (auto simp: access_ok_def access_inv_def distinct_map dest: inj_onD)

lemma found_for_site:
  assumes ok: "access_ok st" and u: "site_member st k u"
  shows "access_user_for_site k (au_id u) st = Some u" "access_user_by_username (au_username u) st = Some u"
proof -
  have in': "u \<in> set (ax_users st)" "(k, au_id u) \<in> set (ax_memberships st)" using u by (auto simp: site_member_def)
  have "access_user_for_site k (au_id u) st \<noteq> None" using in' by (auto simp: access_user_for_site_def find_None_iff)
  then obtain v where v: "access_user_for_site k (au_id u) st = Some v" by blast
  then show "access_user_for_site k (au_id u) st = Some u"
    using access_user_for_site_SomeD [OF v] row_by_id [OF ok in'(1)] by (simp add: site_member_def)
  have "access_user_by_username (au_username u) st \<noteq> None" using in' by (auto simp: by_username_None)
  then obtain w where w: "access_user_by_username (au_username u) st = Some w" by blast
  have "au_id w = au_id u" using by_username_Some [OF w] same_name_same_id [of st u w] ok in'(1) by (auto simp: access_ok_def)
  then show "access_user_by_username (au_username u) st = Some u" using w by_username_Some [OF w] row_by_id [OF ok in'(1)] by simp
qed

text \<open>The checks of a change that disables an account which has no other site, when they all pass.\<close>

lemma disabling_checked:
  assumes ok: "access_ok st" and u: "site_member st k u" "au_enabled u" "access_site_ids_for_user (au_id u) st = [k]"
    and list: "ax_settings st k = Some r" "at_enabled r \<longrightarrow> active_user_count k (Some (au_id u)) st \<noteq> 0"
    and rest: "(access_step alone)\<^sup>*\<^sup>* (requests st (xs @ UpdateWrite (disabling u) # ys) ls) s"
  shows "(access_step alone)\<^sup>*\<^sup>* (requests st (xs @ UpdateUser k (au_id u) disable_input # ys) ls) s"
proof -
  let ?step = "update_step no_text id 0"
  have input: "j_get disable_input ''username'' = None" "j_get disable_input ''password'' = None" "j_get disable_input ''enabled'' = Some (JBool False)"
    by (simp_all add: disable_input_def)
  have 1: "?step (UpdateUser k (au_id u) disable_input) st = (Goes (UpdateNamed u disable_input (au_username u)), st)"
    using found_for_site(1) [OF ok u(1)] input by (simp add: update_read_def)
  have 2: "?step (UpdateNamed u disable_input (au_username u)) st = (Goes (UpdateSites (disabling u)), st)"
    using found_for_site(2) [OF ok u(1)] input u(2) by (simp add: update_named_def password_value_def flag_value_def is_absent_def disabling_def)
  have 3: "?step (UpdateSites (disabling u)) st = (Goes (UpdateSettings (disabling u) k []), st)"
    using u(3) by (simp add: disabling_def next_site_def)
  have 4: "?step (UpdateSettings (disabling u) k []) st
      = (Goes (if at_enabled r then UpdateCount (disabling u) k [] else UpdateWrite (disabling u)), st)"
    using list(1) by (simp add: ensure_access_settings_def next_site_def)
  have 5: "?step (UpdateCount (disabling u) k []) st = (Goes (UpdateWrite (disabling u)), st)" if "at_enabled r"
    using list(2) that by (simp add: disabling_def next_site_def)
  have "(access_step alone)\<^sup>*\<^sup>* (requests st (xs @ (if at_enabled r then UpdateCount (disabling u) k [] else UpdateWrite (disabling u)) # ys) ls) s"
    using rest one_update_goes [OF 5 rest] by simp
  then show ?thesis by (intro one_update_goes [OF 1] one_update_goes [OF 2] one_update_goes [OF 3] one_update_goes [OF 4])
qed

definition disabled_row_of :: "access_user \<Rightarrow> access_user" where
  "disabled_row_of u = u\<lparr>au_enabled := False, au_updated_at := 0\<rparr>"

lemma disabling_written:
  "update_step no_text id 0 (UpdateWrite (disabling u)) st = (Goes (UpdateRevoke (disabled_row_of u)), update_user_row (disabled_row_of u) st)"
  by (simp add: disabling_def changed_row_def disabled_row_of_def Let_def)

lemma disabling_revoked:
  "update_step no_text id 0 (UpdateRevoke (disabled_row_of u)) st
     = (Returned (disabled_row_of u), revoke_sessions_for_access_user (au_id u) 0 None st)"
  by (simp add: disabled_row_of_def)

text \<open>
  Two changes that overlap can leave a list that asks for a login with nobody who can sign in. When exactly two
  active accounts are assigned to a site whose list is switched on, and one request each disables one of them, the
  steps of the two requests can interleave so that each finds the other account active; both are accepted.
\<close>

theorem overlapping_disables_lock_list:
  assumes "access_ok st" and "filter au_enabled (access_users_for_site k st) = [u, v]"
    and "access_site_ids_for_user (au_id u) st = [k]" and "access_site_ids_for_user (au_id v) st = [k]"
    and "ax_settings st k = Some r" and "at_enabled r"
  shows "\<exists>s. (access_step False)\<^sup>*\<^sup>* (requests st [] []) s \<and> no_change_running s
    \<and> ax_settings (sy_state s) k = Some r \<and> active_user_count k None (sy_state s) = 0"
proof -
  note ok = assms(1)
  have only: "site_member st k w \<and> au_enabled w \<longleftrightarrow> w = u \<or> w = v" for w
    using arg_cong [OF assms(2), of set] by (auto simp: access_users_for_site_def site_member_def)
  then have u: "site_member st k u" "au_enabled u" and v: "site_member st k v" "au_enabled v" by blast+
  have "distinct (map au_id (ax_users st))" using ok by (simp add: access_ok_def access_inv_def)
  then have "distinct (filter au_enabled (access_users_for_site k st))" by (simp add: access_users_for_site_def distinct_map)
  then have "u \<noteq> v" using assms(2) by simp
  then have ids: "au_id u \<noteq> au_id v" using row_by_id [OF ok, of u v] u(1) v(1) by (auto simp: site_member_def)
  have count: "active_user_count k (Some (au_id u)) st \<noteq> 0" "active_user_count k (Some (au_id v)) st \<noteq> 0"
    unfolding active_user_count_pos using u v ids by auto
  define st1 where "st1 = update_user_row (disabled_row_of v) (update_user_row (disabled_row_of u) st)"
  define st2 where "st2 = revoke_sessions_for_access_user (au_id v) 0 None (revoke_sessions_for_access_user (au_id u) 0 None st1)"
  have begun: "(access_step False)\<^sup>*\<^sup>* (requests st [] []) (requests st [UpdateUser k (au_id u) disable_input, UpdateUser k (au_id v) disable_input] [])"
  proof -
    have "access_step False (requests st [] []) (requests st [UpdateUser k (au_id u) disable_input] [])"
      "access_step False (requests st [UpdateUser k (au_id u) disable_input] [])
        (requests st [UpdateUser k (au_id u) disable_input, UpdateUser k (au_id v) disable_input] [])"
      using access_step.update_begun [of False "requests st [] []"]
        access_step.update_begun [of False "requests st [UpdateUser k (au_id u) disable_input] []"] by simp_all
    then show ?thesis by (rule converse_rtranclp_into_rtranclp [OF _ r_into_rtranclp])
  qed
  have "(access_step False)\<^sup>*\<^sup>* (requests st2 [] []) (requests st2 [] [])" by simp
  then have revoked: "(access_step False)\<^sup>*\<^sup>* (requests st1 [UpdateRevoke (disabled_row_of u), UpdateRevoke (disabled_row_of v)] []) (requests st2 [] [])"
    using one_update_step [OF disabling_revoked [of u st1], of False "[]" "[UpdateRevoke (disabled_row_of v)]" "[]"]
      one_update_step [OF disabling_revoked [of v "revoke_sessions_for_access_user (au_id u) 0 None st1"], of False "[]" "[]" "[]"]
    unfolding st2_def by (simp add: converse_rtranclp_into_rtranclp)
  have written: "(access_step False)\<^sup>*\<^sup>* (requests st [UpdateWrite (disabling u), UpdateWrite (disabling v)] []) (requests st2 [] [])"
    using one_update_goes [OF disabling_written [of u st], of False "[]" "[UpdateWrite (disabling v)]" "[]"]
      one_update_goes [OF disabling_written [of v "update_user_row (disabled_row_of u) st"], of False "[UpdateRevoke (disabled_row_of u)]" "[]" "[]"] revoked
    unfolding st1_def by simp
  have "(access_step False)\<^sup>*\<^sup>* (requests st [UpdateWrite (disabling u), UpdateUser k (au_id v) disable_input] []) (requests st2 [] [])"
    using disabling_checked [OF ok v assms(4,5), of False "[UpdateWrite (disabling u)]" "[]" "[]"] written count by simp
  then have "(access_step False)\<^sup>*\<^sup>* (requests st [UpdateUser k (au_id u) disable_input, UpdateUser k (au_id v) disable_input] []) (requests st2 [] [])"
    using disabling_checked [OF ok u assms(3,5), of False "[]" "[UpdateUser k (au_id v) disable_input]" "[]"] count by simp
  then have "(access_step False)\<^sup>*\<^sup>* (requests st [] []) (requests st2 [] [])" using begun by (rule rtranclp_trans [rotated])
  moreover have "active_user_count k None st2 = 0"
  proof (rule ccontr)
    assume "active_user_count k None st2 \<noteq> 0"
    then obtain w where w: "site_member st2 k w" "au_enabled w" unfolding active_user_count_pos by blast
    then have "w \<in> set (ax_users st)" "au_id w \<noteq> au_id u" "au_id w \<noteq> au_id v"
      by (auto simp: site_member_def st2_def st1_def disabled_row_of_def split: if_splits)
    moreover have "(k, au_id w) \<in> set (ax_memberships st)" using w(1) by (simp add: site_member_def st2_def st1_def)
    ultimately show False using only [of w] w(2) by (auto simp: site_member_def)
  qed
  moreover have "ax_settings st2 k = Some r" using assms(5) by (simp add: st2_def st1_def)
  ultimately show ?thesis by (intro exI [of _ "requests st2 [] []"]) (simp add: no_change_running_def)
qed

theorem overlapping_disables_lock_list_witness:
  "\<exists>s r. (access_step False)\<^sup>*\<^sup>* (requests demo_access_state [] []) s \<and> ax_settings (sy_state s) ''s1'' = Some r \<and> at_enabled r
    \<and> active_user_count ''s1'' None (sy_state s) = 0"
proof -
  have ok: "access_ok demo_access_state" using access_reachable_ok [OF demo_accounts_reached] by (simp add: requests_ok_def)
  have two: "map au_id (filter au_enabled (access_users_for_site ''s1'' demo_access_state)) = [''u1'', ''u2'']" by code_simp
  have sites: "access_site_ids_for_user ''u1'' demo_access_state = [''s1'']" "access_site_ids_for_user ''u2'' demo_access_state = [''s1'']" by code_simp+
  have "map_option at_enabled (ax_settings demo_access_state ''s1'') = Some True" by code_simp
  then obtain r where r: "ax_settings demo_access_state ''s1'' = Some r" "at_enabled r" by auto
  obtain u v where uv: "filter au_enabled (access_users_for_site ''s1'' demo_access_state) = [u, v]" "au_id u = ''u1''" "au_id v = ''u2''"
    using two by (auto simp: map_eq_Cons_conv)
  show ?thesis using overlapping_disables_lock_list [OF ok uv(1) _ _ r] sites uv(2,3) r(2) by auto
qed

text \<open>
  A login that has read its account before the account is disabled is accepted after it. When the change that
  disables an account has ended and all sessions of the account are revoked, a login that waited for the password
  check meanwhile still returns the account: it looks at the row it had read, so that a new session can follow.
\<close>

theorem waiting_login_outlives_disabling:
  assumes "access_ok st" and "read_login a st = Some u" and "au_enabled u" and "verify (la_password a) (au_password_hash u)"
    and "access_site_ids_for_user (au_id u) st = [la_site a]" and "ax_settings st (la_site a) = Some r"
    and "at_enabled r \<longrightarrow> active_user_count (la_site a) (Some (au_id u)) st \<noteq> 0"
  shows "\<exists>s t. (access_step True)\<^sup>*\<^sup>* (requests st [] [LoginRead a]) s \<and> no_change_running s \<and> sy_logins s = [t]
    \<and> disabled_account (au_id u) (sy_state s) \<and> (\<forall>x \<in> set (ax_sessions (sy_state s)). as_access_user_id x = Some (au_id u) \<longrightarrow> as_revoked_at x \<noteq> None)
    \<and> fst (login_step verify dummy t (sy_state s)) = Returned (Some u)"
proof -
  note ok = assms(1)
  let ?k = "la_site a"
  have u: "site_member st ?k u"
    using assms(2) by (auto simp: read_login_def access_user_for_site_by_username_def site_member_def find_Some_iff)
  define st1 where "st1 = update_user_row (disabled_row_of u) st"
  define st2 where "st2 = revoke_sessions_for_access_user (au_id u) 0 None st1"
  let ?t = "LoginVerify a (Some u)"
  have read': "access_step True (requests st [] [LoginRead a]) (requests st [] [?t])"
    using access_step.login_runs [of 0 "requests st [] [LoginRead a]" True verify dummy] assms(2)
    by (simp add: advance_login_def replace_task_def)
  have begun: "access_step True (requests st [] [?t]) (requests st [UpdateUser ?k (au_id u) disable_input] [?t])"
    using access_step.update_begun [of True "requests st [] [?t]"] by (simp add: no_change_running_def)
  have "access_step True (requests st1 [UpdateRevoke (disabled_row_of u)] [?t]) (requests st2 [] [?t])"
    using one_update_step [OF disabling_revoked [of u st1], of True "[]" "[]" "[?t]"] by (simp add: st2_def)
  then have "(access_step True)\<^sup>*\<^sup>* (requests st1 [UpdateRevoke (disabled_row_of u)] [?t]) (requests st2 [] [?t])" by blast
  then have "(access_step True)\<^sup>*\<^sup>* (requests st [UpdateWrite (disabling u)] [?t]) (requests st2 [] [?t])"
    using one_update_goes [OF disabling_written [of u st], of True "[]" "[]" "[?t]"] by (simp add: st1_def)
  then have "(access_step True)\<^sup>*\<^sup>* (requests st [UpdateUser ?k (au_id u) disable_input] [?t]) (requests st2 [] [?t])"
    using disabling_checked [OF ok u assms(3,5,6,7), of True "[]" "[]" "[?t]"] by simp
  then have run: "(access_step True)\<^sup>*\<^sup>* (requests st [] [LoginRead a]) (requests st2 [] [?t])"
    using read' begun by (meson converse_rtranclp_into_rtranclp)
  have "map au_id (ax_users st2) = map au_id (ax_users st)" by (auto simp: st2_def st1_def disabled_row_of_def)
  then have "au_id u \<in> au_id ` set (ax_users st2)" using u by (metis list.set_map imageI site_member_def)
  then have "disabled_account (au_id u) st2"
    by (auto simp: st2_def st1_def disabled_account_def disabled_row_of_def)
  moreover have "fst (login_step verify dummy ?t st2) = Returned (Some u)" using assms(3,4) by (simp add: finish_login_def)
  moreover have "\<forall>x \<in> set (ax_sessions st2). as_access_user_id x = Some (au_id u) \<longrightarrow> as_revoked_at x \<noteq> None"
    using revoked_everywhere [of _ "au_id u" 0 None st1] by (auto simp: st2_def)
  ultimately show ?thesis using run by (intro exI [of _ "requests st2 [] [?t]"] exI [of _ ?t]) (simp add: no_change_running_def)
qed

theorem waiting_login_outlives_disabling_witness:
  "\<exists>s t u. (access_step True)\<^sup>*\<^sup>* (requests demo_access_state [] [LoginRead demo_attempt]) s \<and> au_id u = ''u1''
    \<and> disabled_account ''u1'' (sy_state s) \<and> fst (login_step (=) [] t (sy_state s)) = Returned (Some u)"
proof -
  have ok: "access_ok demo_access_state" using access_reachable_ok [OF demo_accounts_reached] by (simp add: requests_ok_def)
  have row: "map_option (\<lambda>u. (au_id u, au_enabled u, au_password_hash u)) (read_login demo_attempt demo_access_state) = Some (''u1'', True, ''12345678'')" by code_simp
  then obtain u where u: "read_login demo_attempt demo_access_state = Some u" "au_id u = ''u1''" "au_enabled u" "au_password_hash u = ''12345678''" by auto
  have sites: "access_site_ids_for_user ''u1'' demo_access_state = [''s1'']" "active_user_count ''s1'' (Some ''u1'') demo_access_state = 1" by code_simp+
  have "map_option at_enabled (ax_settings demo_access_state ''s1'') = Some True" by code_simp
  then obtain r where r: "ax_settings demo_access_state ''s1'' = Some r" by auto
  have a: "la_site demo_attempt = ''s1''" "la_password demo_attempt = ''12345678''" by (simp_all add: demo_attempt_def)
  show ?thesis
    using waiting_login_outlives_disabling [where verify = "(=)" and dummy = "[]", OF ok u(1,3), unfolded a u(2,4)] sites r u(2) by fastforce
qed

section \<open>The limit on failed logins\<close>

text \<open>A login during which nothing else happens.\<close>

definition authenticate_access_user ::
  "(rat \<Rightarrow> string) \<Rightarrow> (string \<Rightarrow> string \<Rightarrow> bool) \<Rightarrow> string \<Rightarrow> string \<Rightarrow> string \<Rightarrow> js_value \<Rightarrow> js_value \<Rightarrow> time \<Rightarrow> access_state
   \<Rightarrow> (int + access_user option) \<times> access_state" where
  "authenticate_access_user nt verify dummy sid ip un pw now st =
     (case begin_login nt sid ip un pw now (ax_failures st) of
        (Inl retry, t) \<Rightarrow> (Inl retry, st\<lparr>ax_failures := t\<rparr>)
      | (Inr a, t) \<Rightarrow> map_prod Inr id (finish_login verify dummy a (read_login a st) (st\<lparr>ax_failures := t\<rparr>)))"

definition tracker_ok :: "failure_tracker \<Rightarrow> bool" where
  "tracker_ok t \<longleftrightarrow> 0 < ft_max_keys t \<and> ft_max_failures t = 8 \<and> length (ft_entries t) \<le> ft_max_keys t \<and> om_inv (ft_entries t)
     \<and> (\<forall>(k, e) \<in> set (ft_entries t). 1 \<le> fe_count e \<and> fe_count e \<le> 8)"

definition may_count :: "time \<Rightarrow> string list \<Rightarrow> failure_tracker \<Rightarrow> bool" where
  "may_count now ks t \<longleftrightarrow> (\<forall>k e. k \<in> set ks \<and> (k, e) \<in> set (ft_entries t) \<and> now < fe_reset_at e \<longrightarrow> fe_count e < 8)"

lemma om_get_iff: "om_inv m \<Longrightarrow> om_get m k = Some e \<longleftrightarrow> (k, e) \<in> set m"
  by (simp add: om_inv_def om_keys_def om_get_def)

lemma om_set_entries: "om_inv m \<Longrightarrow> set (om_set k v m) = insert (k, v) {p \<in> set m. fst p \<noteq> k}"
proof (rule set_eqI)
  fix p assume inv: "om_inv m"
  have "(fst p, snd p) \<in> set (om_set k v m) \<longleftrightarrow> om_get (om_set k v m) (fst p) = Some (snd p)"
    using om_get_iff [OF om_inv_set [OF inv]] by blast
  then show "p \<in> set (om_set k v m) \<longleftrightarrow> p \<in> insert (k, v) {p \<in> set m. fst p \<noteq> k}"
    using om_get_iff [OF inv, of "fst p" "snd p"] by (cases p) (auto simp: om_get_set)
qed

lemma om_set_length: "length (om_set k v m) = (if k \<in> set (om_keys m) then length m else Suc (length m))"
  by (induction k v m rule: om_set.induct) (auto simp: om_keys_def)

lemma make_room_om: "om_inv m \<Longrightarrow> om_inv (make_room n m)"
  by (simp add: make_room_def om_inv_def om_keys_def drop_map [symmetric])

lemma make_room_set: "set (make_room n m) \<subseteq> set m"
  by (simp add: make_room_def set_drop_subset)

lemma make_room_length: "0 < n \<Longrightarrow> length (make_room n m) < n"
  by (simp add: make_room_def)

lemma filter_tracker:
  "tracker_ok t \<Longrightarrow> tracker_ok (t\<lparr>ft_last_sweep_at := n, ft_entries := filter P (ft_entries t)\<rparr>)"
  "tracker_ok t \<Longrightarrow> tracker_ok (t\<lparr>ft_entries := filter P (ft_entries t)\<rparr>)"
  using length_filter_le [of P "ft_entries t"]
  by (auto simp: tracker_ok_def om_inv_def om_keys_def distinct_map_filter simp del: length_filter_le)

lemma status_spec:
  "tracker_status ks now t = (r, t') \<Longrightarrow> tracker_ok t \<Longrightarrow>
     tracker_ok t' \<and> set (ft_entries t') \<subseteq> set (ft_entries t) \<and> 0 \<le> r \<and> (\<not> 0 < r \<longrightarrow> may_count now ks t')
     \<and> (0 < r \<longleftrightarrow> (\<exists>k \<in> set ks. \<exists>e. (k, e) \<in> set (ft_entries t) \<and> now < fe_reset_at e \<and> fe_count e = 8))"
proof (induction ks arbitrary: t r)
  case Nil
  then show ?case by (auto simp: may_count_def)
next
  case (Cons k ks)
  have inv: "om_inv (ft_entries t)" and eight: "ft_max_failures t = 8" using Cons.prems(2) by (auto simp: tracker_ok_def)
  have uniq: "(k, e) \<in> set (ft_entries t) \<longleftrightarrow> om_get (ft_entries t) k = Some e" for e using om_get_iff [OF inv] by simp
  show ?case
  proof (cases "om_get (ft_entries t) k")
    case None
    then have "tracker_status ks now t = (r, t')" using Cons.prems(1) by simp
    from Cons.IH [OF this Cons.prems(2)] show ?thesis using None uniq by (auto simp: may_count_def)
  next
    case (Some e)
    show ?thesis
    proof (cases "fe_reset_at e \<le> now")
      case True
      let ?t = "t\<lparr>ft_entries := om_delete k (ft_entries t)\<rparr>"
      have rec: "tracker_status ks now ?t = (r, t')" using Cons.prems(1) Some True by simp
      have okd: "tracker_ok ?t" using filter_tracker(2) [OF Cons.prems(2)] by (simp add: om_delete_def)
      have ent: "set (ft_entries ?t) = {p \<in> set (ft_entries t). fst p \<noteq> k}" by (auto simp: om_delete_def)
      have gone: "\<not> now < fe_reset_at e'" if "(k, e') \<in> set (ft_entries t)" for e' using that uniq Some True by auto
      have same: "(\<exists>k' \<in> set ks. \<exists>e. (k', e) \<in> set (ft_entries ?t) \<and> now < fe_reset_at e \<and> fe_count e = 8)
        \<longleftrightarrow> (\<exists>k' \<in> set (k # ks). \<exists>e. (k', e) \<in> set (ft_entries t) \<and> now < fe_reset_at e \<and> fe_count e = 8)"
        using gone unfolding ent by fastforce
      have "tracker_ok t' \<and> set (ft_entries t') \<subseteq> set (ft_entries ?t) \<and> 0 \<le> r \<and> (\<not> 0 < r \<longrightarrow> may_count now ks t')"
        "0 < r \<longleftrightarrow> (\<exists>k' \<in> set (k # ks). \<exists>e. (k', e) \<in> set (ft_entries t) \<and> now < fe_reset_at e \<and> fe_count e = 8)"
        using Cons.IH [OF rec okd] same by auto
      then show ?thesis using gone unfolding ent by (auto simp: may_count_def)
    next
      case False
      obtain r1 where rec: "tracker_status ks now t = (r1, t')" and r: "r = (if 8 \<le> fe_count e then max r1 (ceil_seconds (fe_reset_at e - now)) else r1)"
        using Cons.prems(1) Some False eight by (cases "tracker_status ks now t") (auto split: if_splits)
      have pos: "0 < ceil_seconds (fe_reset_at e - now)" using False by (simp add: ceil_seconds_def)
      have le: "fe_count e \<le> 8" using Cons.prems(2) uniq [of e] Some by (auto simp: tracker_ok_def)
      note IH = Cons.IH [OF rec Cons.prems(2)]
      have "0 < r \<longleftrightarrow> 0 < r1 \<or> fe_count e = 8" using r pos le IH by (auto simp: max_def)
      then show ?thesis using IH Some uniq False r pos le by (auto simp: may_count_def)
    qed
  qed
qed

lemma sweep_spec: "tracker_ok t \<Longrightarrow> tracker_ok (tracker_sweep now t) \<and> (may_count n ks t \<longrightarrow> may_count n ks (tracker_sweep now t))"
  using filter_tracker(1) [of t] by (auto simp: tracker_sweep_def may_count_def)

lemma count_spec: "tracker_ok t \<Longrightarrow> may_count now ks t \<Longrightarrow> distinct ks \<Longrightarrow> tracker_ok (tracker_count ks now t)"
proof (induction ks arbitrary: t)
  case (Cons k ks)
  have inv: "om_inv (ft_entries t)" and keys: "0 < ft_max_keys t" and len: "length (ft_entries t) \<le> ft_max_keys t"
    using Cons.prems(1) by (auto simp: tracker_ok_def)
  have fresh: "tracker_ok (t\<lparr>ft_entries := om_set k v (make_room (ft_max_keys t) (ft_entries t))\<rparr>)
      \<and> may_count now ks (t\<lparr>ft_entries := om_set k v (make_room (ft_max_keys t) (ft_entries t))\<rparr>)" if "fe_count v = 1" for v
    using Cons.prems that make_room_length [OF keys, of "ft_entries t"] make_room_set [of "ft_max_keys t" "ft_entries t"]
      om_set_length [of k v "make_room (ft_max_keys t) (ft_entries t)"] om_inv_set [OF make_room_om [OF inv]]
    by (auto simp: tracker_ok_def may_count_def om_set_entries [OF make_room_om [OF inv]])
  show ?case
  proof (cases "om_get (ft_entries t) k")
    case None
    with fresh Cons show ?thesis by (simp add: Let_def)
  next
    case (Some e)
    have e: "(k, e) \<in> set (ft_entries t)" using om_get_iff [OF inv] Some by simp
    show ?thesis
    proof (cases "now < fe_reset_at e")
      case True
      let ?t = "t\<lparr>ft_entries := om_set k (e\<lparr>fe_count := Suc (fe_count e)\<rparr>) (ft_entries t)\<rparr>"
      have "fe_count e < 8" using Cons.prems(2) True e by (auto simp: may_count_def)
      moreover have "length (ft_entries ?t) = length (ft_entries t)"
        using e by (simp add: om_set_length om_keys_def) force
      ultimately have "tracker_ok ?t" "may_count now ks ?t"
        using Cons.prems om_inv_set [OF inv] len by (auto simp: tracker_ok_def may_count_def om_set_entries [OF inv])
      then show ?thesis using Cons True Some by (simp add: Let_def)
    next
      case False
      with fresh Cons Some show ?thesis by (simp add: Let_def)
    qed
  qed
qed simp

lemma clear_ok: "tracker_ok t \<Longrightarrow> tracker_ok (tracker_clear (Some ks) t)"
proof (induction ks arbitrary: t)
  case (Cons k ks)
  have "tracker_ok (t\<lparr>ft_entries := om_delete k (ft_entries t)\<rparr>)" unfolding om_delete_def by (rule filter_tracker(2) [OF Cons.prems])
  from Cons.IH [OF this] show ?case by (simp add: tracker_clear_def)
qed (simp add: tracker_clear_def)

lemma failure_keys_distinct: "distinct (failure_keys sid ip n)"
  by (simp add: failure_keys_def)

lemma authenticate_tracker_ok:
  assumes "tracker_ok (ax_failures st)"
  shows "tracker_ok (ax_failures (snd (authenticate_access_user nt verify dummy sid ip un pw now st)))"
proof -
  obtain b t where b: "begin_login nt sid ip un pw now (ax_failures st) = (b, t)" by fastforce
  define n where "n = (case normalize_access_username nt un of Inl _ \<Rightarrow> ''invalid'' | Inr u \<Rightarrow> u)"
  obtain r where r: "tracker_status (failure_keys sid ip n) now (ax_failures st) = (r, t)"
    using b by (cases "tracker_status (failure_keys sid ip n) now (ax_failures st)") (auto simp: begin_login_def n_def Let_def)
  note S = status_spec [OF r assms]
  show ?thesis
  proof (cases b)
    case (Inl x)
    then show ?thesis using b S by (simp add: authenticate_access_user_def)
  next
    case (Inr a)
    then have a: "la_keys a = failure_keys sid ip n" "la_now a = now" and nr: "\<not> 0 < r"
      using b r by (auto simp: begin_login_def n_def Let_def split: if_splits)
    have "tracker_ok (tracker_record (la_keys a) (la_now a) t)"
      using count_spec [OF _ _ failure_keys_distinct] sweep_spec S nr unfolding a tracker_record_def by blast
    moreover have "tracker_ok (tracker_clear (Some ks) t)" for ks
      using S clear_ok by blast
    ultimately show ?thesis using Inr b by (simp add: authenticate_access_user_def finish_login_def Let_def split: option.splits)
  qed
qed

lemma tracker_status_keys: "tracker_status ks now t = (r, t') \<Longrightarrow> ft_max_keys t' = ft_max_keys t"
  by (induction ks arbitrary: t r) (fastforce split: option.splits if_splits prod.splits simp: Let_def)+

lemma tracker_count_keys: "ft_max_keys (tracker_count ks now t) = ft_max_keys t"
  by (induction ks arbitrary: t) (auto simp: Let_def split: option.splits)

lemma authenticate_max_keys:
  "ft_max_keys (ax_failures (snd (authenticate_access_user nt verify dummy sid ip un pw now st))) = ft_max_keys (ax_failures st)"
proof -
  obtain b t where b: "begin_login nt sid ip un pw now (ax_failures st) = (b, t)" by fastforce
  then have t: "ft_max_keys t = ft_max_keys (ax_failures st)"
    using tracker_status_keys by (fastforce simp: begin_login_def Let_def split: prod.splits)
  show ?thesis
  proof (cases b)
    case (Inr a)
    then show ?thesis using b t
      by (simp add: authenticate_access_user_def finish_login_def Let_def tracker_clear_def tracker_record_def tracker_sweep_def tracker_count_keys
          split: option.split)
  qed (use b t in \<open>simp add: authenticate_access_user_def\<close>)
qed

type_synonym login_request = "string \<times> string \<times> js_value \<times> js_value \<times> time"

fun run_logins ::
  "(rat \<Rightarrow> string) \<Rightarrow> (string \<Rightarrow> string \<Rightarrow> bool) \<Rightarrow> string \<Rightarrow> login_request list \<Rightarrow> access_state \<Rightarrow> access_state" where
  "run_logins nt verify dummy [] st = st"
| "run_logins nt verify dummy ((sid, ip, un, pw, now) # ls) st =
     run_logins nt verify dummy ls (snd (authenticate_access_user nt verify dummy sid ip un pw now st))"

text \<open>
  After any sequence of logins, one after the other, the tracker holds at most its number of keys and
  counts at most eight failures for each; while a count of eight stands for the address or the name, a
  login is refused with a time to wait, before the password is looked at and with the accounts untouched.
\<close>

theorem login_failures_bounded:
  assumes "ax_failures st0 = new_tracker keys" and "0 < keys"
    and "st = run_logins nt verify dummy logins st0"
  shows "length (ft_entries (ax_failures st)) \<le> keys
    \<and> (\<forall>(k, e) \<in> set (ft_entries (ax_failures st)). 1 \<le> fe_count e \<and> fe_count e \<le> 8)
    \<and> (\<forall>k e. om_get (ft_entries (ax_failures st)) k = Some e \<and> fe_count e = 8 \<and> now < fe_reset_at e
          \<and> k \<in> set (failure_keys sid ip (case normalize_access_username nt un of Inl _ \<Rightarrow> ''invalid'' | Inr u \<Rightarrow> u)) \<longrightarrow>
        (\<exists>retry t. 0 < retry \<and> authenticate_access_user nt verify' dummy' sid ip un pw now st = (Inl retry, st\<lparr>ax_failures := t\<rparr>)))"
proof -
  have step: "ft_max_keys (ax_failures (snd (authenticate_access_user nt verify dummy sid ip un pw now st))) = ft_max_keys (ax_failures st)"
    for sid ip un pw now st by (rule authenticate_max_keys)
  have run: "tracker_ok (ax_failures (run_logins nt verify dummy ls s)) \<and> ft_max_keys (ax_failures (run_logins nt verify dummy ls s)) = ft_max_keys (ax_failures s)"
    if "tracker_ok (ax_failures s)" for ls s
    using that
  proof (induction ls arbitrary: s)
    case (Cons l ls)
    then show ?case using authenticate_tracker_ok step by (cases l) simp
  qed simp
  have ok: "tracker_ok (ax_failures st)" "ft_max_keys (ax_failures st) = keys"
    using run [of st0 logins] assms by (auto simp: tracker_ok_def new_tracker_def om_inv_def om_keys_def)
  define n where "n = (case normalize_access_username nt un of Inl _ \<Rightarrow> ''invalid'' | Inr u \<Rightarrow> u)"
  have "\<exists>retry t. 0 < retry \<and> authenticate_access_user nt verify' dummy' sid ip un pw now st = (Inl retry, st\<lparr>ax_failures := t\<rparr>)"
    if e: "om_get (ft_entries (ax_failures st)) k = Some e" "fe_count e = 8" "now < fe_reset_at e" "k \<in> set (failure_keys sid ip n)" for k e
  proof -
    obtain r t where r: "tracker_status (failure_keys sid ip n) now (ax_failures st) = (r, t)" by fastforce
    have "0 < r" using status_spec [OF r ok(1)] e ok(1) om_get_iff [of "ft_entries (ax_failures st)" k e] by (auto simp: tracker_ok_def)
    then show ?thesis using r by (simp add: authenticate_access_user_def begin_login_def n_def [symmetric] Let_def) blast
  qed
  with ok show ?thesis unfolding n_def [symmetric] by (auto simp: tracker_ok_def)
qed

theorem login_failures_bounded_witness:
  "\<exists>retry. 0 < retry \<and> fst (authenticate_access_user (\<lambda>_. []) (\<lambda>_ _. True) [] ''s1'' ''1.2.3.4'' (Some (JString ''Ann'')) None 7
     (run_logins (\<lambda>_. []) (\<lambda>_ _. False) [] (replicate 9 (''s1'', ''1.2.3.4'', Some (JString ''ann''), None, 0)) empty_access_state)) = Inl retry"
proof -
  let ?st = "run_logins (\<lambda>_. []) (\<lambda>_ _. False) [] (replicate 9 (''s1'', ''1.2.3.4'', Some (JString ''ann''), None, 0)) empty_access_state"
  have e: "om_get (ft_entries (ax_failures ?st)) ''site:s1:user:ann'' = Some \<lparr>fe_count = 8, fe_reset_at = 60000\<rparr>" by code_simp
  have n: "normalize_access_username (\<lambda>_. []) (Some (JString ''Ann'')) = Inr ''ann''" by code_simp
  show ?thesis
    using login_failures_bounded [where keys = 20000 and ?st0.0 = empty_access_state and st = ?st and now = 7 and sid = "''s1''" and ip = "''1.2.3.4''"
        and nt = "\<lambda>_. []" and un = "Some (JString ''Ann'')" and pw = None and verify' = "\<lambda>_ _. True" and dummy' = "[]", OF _ _ refl] e n
    by (fastforce simp: empty_access_state_def failure_keys_def)
qed

text \<open>The failures after some logins that were begun before any of them ended.\<close>

definition parallel_failures :: "nat \<Rightarrow> login_attempt \<Rightarrow> failure_tracker \<Rightarrow> bool" where
  "parallel_failures n a t \<longleftrightarrow> ft_window_ms t = 60000 \<and> 2 \<le> ft_max_keys t \<and>
     (if n = 0 then ft_entries t = []
      else ft_entries t = map (\<lambda>k. (k, \<lparr>fe_count = n, fe_reset_at = la_now a + 60000\<rparr>)) (la_keys a))"

lemma parallel_failures_step:
  "parallel_failures n a t \<Longrightarrow> la_keys a = failure_keys sid ip name \<Longrightarrow> parallel_failures (Suc n) a (tracker_record (la_keys a) (la_now a) t)"
  by (cases "n = 0") (auto simp: parallel_failures_def tracker_record_def tracker_sweep_def failure_keys_def om_get_def make_room_def Let_def)

text \<open>
  The limit counts only logins that have ended: however many logins are begun before the first one
  ends, all of them reach the password check, and the count then goes past the limit of eight.
\<close>

theorem parallel_logins_not_limited:
  "\<exists>a. begin_login nt sid ip un pw now (new_tracker (Suc (Suc keys))) = (Inr a, new_tracker (Suc (Suc keys)))
     \<and> map_option fe_count (om_get (ft_entries (ax_failures (((\<lambda>s. snd (finish_login (\<lambda>_ _. False) dummy a user s)) ^^ Suc n)
            (st\<lparr>ax_failures := new_tracker (Suc (Suc keys))\<rparr>)))) (''site:'' @ sid @ '':ip:'' @ ip)) = Some (Suc n)"
proof -
  define name where "name = (case normalize_access_username nt un of Inl _ \<Rightarrow> ''invalid'' | Inr u \<Rightarrow> u)"
  define a where "a = \<lparr>la_site = sid, la_keys = failure_keys sid ip name, la_now = now, la_username = name,
    la_password = (if length (js_text nt pw) \<le> 1024 then js_text nt pw else [])\<rparr>"
  have b: "begin_login nt sid ip un pw now (new_tracker (Suc (Suc keys))) = (Inr a, new_tracker (Suc (Suc keys)))"
    by (simp add: begin_login_def new_tracker_def failure_keys_def om_get_def name_def a_def Let_def)
  have k: "la_keys a = failure_keys sid ip name" by (simp add: a_def)
  have fin: "ax_failures (snd (finish_login (\<lambda>_ _. False) dummy a user s)) = tracker_record (la_keys a) (la_now a) (ax_failures s)" for s
    by (simp add: finish_login_def split: option.split)
  have "parallel_failures m a (ax_failures (((\<lambda>s. snd (finish_login (\<lambda>_ _. False) dummy a user s)) ^^ m) (st\<lparr>ax_failures := new_tracker (Suc (Suc keys))\<rparr>)))" for m
  proof (induction m)
    case 0
    show ?case by (simp add: parallel_failures_def new_tracker_def)
  next
    case (Suc m)
    then show ?case using parallel_failures_step [OF _ k] by (simp add: fin)
  qed
  from this [of "Suc n"] k have "map_option fe_count (om_get (ft_entries (ax_failures (((\<lambda>s. snd (finish_login (\<lambda>_ _. False) dummy a user s)) ^^ Suc n)
      (st\<lparr>ax_failures := new_tracker (Suc (Suc keys))\<rparr>)))) (''site:'' @ sid @ '':ip:'' @ ip)) = Some (Suc n)"
    unfolding parallel_failures_def failure_keys_def by (simp add: om_get_def)
  with b show ?thesis by blast
qed

text \<open>
  C33: an identity provider that returns an email address it has not verified signs its user in as the
  existing password account of that name, links the account to its subject and adds it to the site.
\<close>

theorem unverified_email_takes_account:
  assumes "\<And>u. u \<in> set (ax_users st) \<Longrightarrow> au_sso_subject u \<noteq> Some subject"
    and "email \<noteq> []" and "normalize_access_username (\<lambda>_. []) (Some (JString email)) = Inr username"
    and "access_user_by_username username st = Some victim" and "au_sso_subject victim = None"
  shows "\<exists>u st'. resolve_or_provision_access_user sha rh sid \<lparr>si_subject = subject, si_email = Some email, si_email_verified = False\<rparr> now st = (Inr u, st')
     \<and> au_id u = au_id victim \<and> au_password_hash u = au_password_hash victim \<and> au_sso_subject u = Some subject
     \<and> (sid, au_id victim) \<in> set (ax_memberships st')"
proof -
  have none: "find (\<lambda>u. au_sso_subject u = Some subject) (ax_users st) = None" using assms(1) by (auto simp: find_None_iff)
  have member: "(k, i) \<in> set (ax_memberships st)" if "access_user_for_site k i (update_user_row u st) = Some y" for k i u y
    using access_user_for_site_SomeD [OF that] by (auto simp: site_member_def)
  show ?thesis using assms(2-5) none member
    by (auto simp: resolve_or_provision_access_user_def Let_def assign_access_user_def dest: member)
qed

theorem unverified_email_takes_account_witness:
  "map_sum id au_id (fst (resolve_or_provision_access_user id [] ''s2'' \<lparr>si_subject = ''mallory'', si_email = Some ''Ann'', si_email_verified = False\<rparr> 9
     demo_user_state)) = Inr ''u1''"
proof -
  have u: "map au_sso_subject (ax_users demo_user_state) = [None]" by code_simp
  have v: "map_option au_id (access_user_by_username ''ann'' demo_user_state) = Some ''u1''"
    "map_option au_sso_subject (access_user_by_username ''ann'' demo_user_state) = Some None" by code_simp+
  then obtain w where w: "access_user_by_username ''ann'' demo_user_state = Some w" "au_id w = ''u1''" "au_sso_subject w = None" by auto
  have n: "normalize_access_username (\<lambda>_. []) (Some (JString ''Ann'')) = Inr ''ann''" by code_simp
  have "au_sso_subject x \<noteq> Some ''mallory''" if "x \<in> set (ax_users demo_user_state)" for x
  proof -
    have "au_sso_subject x \<in> set (map au_sso_subject (ax_users demo_user_state))" using that by simp
    then show ?thesis unfolding u by simp
  qed
  from unverified_email_takes_account [OF this _ n w(1,3), of id "[]" "''s2''" 9] w(2) show ?thesis by fastforce
qed

end
