(* ===== verification/Managed_Protection.thy ===== *)
theory Managed_Protection
  imports Stored_Policy Visitor_Session
begin

text \<open>
  Managed request protection: the compiler of rulesets (\<open>services/managed-ruleset-compiler.ts\<close> with the
  limits of \<open>managed-ruleset-format.ts\<close>), the registry and the inspection of a request
  (\<open>services/managed-protection-service.ts\<close>) and the loader (\<open>services/managed-ruleset-loader.ts\<close>). The
  regular-expression engine is an argument that compiles a pattern with flags to a predicate on text. A
  validation error is \<^term>\<open>Inl\<close> with its message, without the path into the document.
\<close>

section \<open>Conditions\<close>

text \<open>Shared by the rules for requests and those for streams, which differ in their leaves.\<close>

datatype 'l condition = CondLeaf 'l | CondAll "'l condition list" | CondAny "'l condition list" | CondNot "'l condition"

definition require_string :: "js_value \<Rightarrow> nat \<Rightarrow> bool \<Rightarrow> string checked" where
  "require_string v maximum allow_empty =
     (case v of
        Some (JString s) \<Rightarrow>
          if \<not> allow_empty \<and> trim s = [] then Inl ''must not be empty''
          else if maximum < length s then Inl ''must be shorter''
          else Inr s
      | _ \<Rightarrow> Inl ''expected a string'')"

type_synonym regex_engine = "string \<Rightarrow> string \<Rightarrow> (string \<Rightarrow> bool) option"

definition compile_pattern :: "regex_engine \<Rightarrow> string \<Rightarrow> string \<Rightarrow> (string \<Rightarrow> bool) checked" where
  "compile_pattern engine pattern flags =
     (if 1000 < length pattern then Inl ''pattern exceeds 1000 characters''
      else if \<not> list_all (\<lambda>f. f \<in> set ''imsu'') flags then Inl ''regex flag is not allowed''
      else case engine pattern flags of None \<Rightarrow> Inl ''invalid regex'' | Some r \<Rightarrow> Inr r)"

text \<open>
  \<open>compileCondition\<close>: the second argument is the number of levels still allowed, the last the nodes
  counted so far.
\<close>

fun compile_condition :: "(json \<Rightarrow> 'l checked) \<Rightarrow> nat \<Rightarrow> json \<Rightarrow> nat \<Rightarrow> ('l condition \<times> nat) checked"
  and compile_children :: "(json \<Rightarrow> 'l checked) \<Rightarrow> nat \<Rightarrow> json list \<Rightarrow> nat \<Rightarrow> ('l condition list \<times> nat) checked" where
  "compile_condition cl 0 input nodes = Inl ''condition nesting exceeds 8''"
| "compile_condition cl (Suc levels) input nodes =
     (case input of
        JObject fs \<Rightarrow>
          if 64 < Suc nodes then Inl ''rule has more than 64 condition nodes''
          else
            let composite = filter (\<lambda>k. map_of fs k \<noteq> None) [''all'', ''any'', ''not''] in
            if 1 < length composite then Inl ''condition may use only one of all/any/not''
            else if composite = [''all''] \<or> composite = [''any''] then
              (case map_of fs (hd composite) of
                 Some (JArray (c # cs)) \<Rightarrow>
                   and_then (compile_children cl levels (c # cs) (Suc nodes)) (\<lambda>(ts, n).
                     Inr (if hd composite = ''all'' then CondAll ts else CondAny ts, n))
               | _ \<Rightarrow> Inl ''must be a non-empty array'')
            else if composite = [''not''] then
              (case map_of fs ''not'' of
                 Some j \<Rightarrow> and_then (compile_condition cl levels j (Suc nodes)) (\<lambda>(t, n). Inr (CondNot t, n))
               | None \<Rightarrow> Inl ''condition must be an object'')
            else and_then (cl input) (\<lambda>l. Inr (CondLeaf l, Suc nodes))
      | _ \<Rightarrow> Inl ''condition must be an object'')"
| "compile_children cl levels [] nodes = Inr ([], nodes)"
| "compile_children cl levels (c # cs) nodes =
     and_then (compile_condition cl levels c nodes) (\<lambda>(t, n).
     and_then (compile_children cl levels cs n) (\<lambda>(ts, m). Inr (t # ts, m)))"

section \<open>Rules for requests\<close>

datatype field_source = FieldMethod | FieldPath | FieldQuery | FieldTarget | FieldHeader

datatype rule_transform = UrlDecode | Lowercase | Uppercase | TrimText | CollapseWhitespace

datatype rule_operator = OpRegex | OpContains | OpEquals | OpStartsWith | OpEndsWith | OpExists | OpNotEmpty

datatype rule_location = OnTarget | OnQuery | OnHeader

record rule_leaf =
  lf_source :: field_source
  lf_header :: "string option"
  lf_transforms :: "rule_transform list"
  lf_operator :: rule_operator
  lf_regex :: "(string \<Rightarrow> bool) option"
  lf_value :: "string option"
  lf_case_insensitive :: bool
  lf_negate :: bool

record rule_match =
  rm_rule_id :: string
  rm_title :: string
  rm_category :: string
  rm_severity :: severity
  rm_location :: rule_location

record compiled_rule =
  cr_match :: rule_match
  cr_condition :: "rule_leaf condition"

record managed_ruleset =
  mr_id :: string
  mr_title :: string
  mr_version :: string
  mr_description :: string
  mr_rules :: "compiled_rule list"

definition field_source_text :: "field_source \<Rightarrow> string" where
  "field_source_text s = (case s of FieldMethod \<Rightarrow> ''method'' | FieldPath \<Rightarrow> ''path'' | FieldQuery \<Rightarrow> ''query''
     | FieldTarget \<Rightarrow> ''request-target'' | FieldHeader \<Rightarrow> ''header'')"

definition transform_text :: "rule_transform \<Rightarrow> string" where
  "transform_text t = (case t of UrlDecode \<Rightarrow> ''url-decode'' | Lowercase \<Rightarrow> ''lowercase'' | Uppercase \<Rightarrow> ''uppercase''
     | TrimText \<Rightarrow> ''trim'' | CollapseWhitespace \<Rightarrow> ''collapse-whitespace'')"

definition operator_text :: "rule_operator \<Rightarrow> string" where
  "operator_text p = (case p of OpRegex \<Rightarrow> ''regex'' | OpContains \<Rightarrow> ''contains'' | OpEquals \<Rightarrow> ''equals''
     | OpStartsWith \<Rightarrow> ''starts-with'' | OpEndsWith \<Rightarrow> ''ends-with'' | OpExists \<Rightarrow> ''exists'' | OpNotEmpty \<Rightarrow> ''not-empty'')"

text \<open>A word of a closed vocabulary (\<open>SET.has(value)\<close>).\<close>

definition word_of :: "('a \<Rightarrow> string) \<Rightarrow> 'a list \<Rightarrow> string \<Rightarrow> js_value \<Rightarrow> 'a checked" where
  "word_of text words label v =
     (case v of
        Some (JString s) \<Rightarrow> (case find (\<lambda>w. text w = s) words of None \<Rightarrow> Inl label | Some w \<Rightarrow> Inr w)
      | _ \<Rightarrow> Inl label)"

definition compile_transforms :: "js_value \<Rightarrow> rule_transform list checked" where
  "compile_transforms v =
     (case v of
        None \<Rightarrow> Inr []
      | Some (JArray xs) \<Rightarrow>
          if 8 < length xs then Inl ''at most 8 transforms allowed''
          else check_all (\<lambda>x. word_of transform_text [UrlDecode, Lowercase, Uppercase, TrimText, CollapseWhitespace]
            ''unknown transform'' (Some x)) xs
      | _ \<Rightarrow> Inl ''transforms must be an array'')"

definition compile_header :: "field_source \<Rightarrow> json \<Rightarrow> string option checked" where
  "compile_header source input =
     (if source = FieldHeader then and_then (require_string (j_get input ''header'') 256 False) (\<lambda>h. Inr (Some (to_lower h)))
      else if j_get input ''header'' \<noteq> None then Inl ''header is only valid when field is header''
      else Inr None)"

definition compile_regex :: "regex_engine \<Rightarrow> json \<Rightarrow> (string \<Rightarrow> bool) checked" where
  "compile_regex engine input =
     and_then (if j_get input ''flags'' = None then Inr [] else require_string (j_get input ''flags'') 16 True) (\<lambda>flags.
     and_then (require_string (j_get input ''pattern'') 4096 False) (\<lambda>pattern. compile_pattern engine pattern flags))"

definition compile_leaf :: "regex_engine \<Rightarrow> json \<Rightarrow> rule_leaf checked" where
  "compile_leaf engine input =
     and_then (word_of field_source_text [FieldMethod, FieldPath, FieldQuery, FieldTarget, FieldHeader] ''unknown field''
       (j_get input ''field'')) (\<lambda>source.
     and_then (word_of operator_text [OpRegex, OpContains, OpEquals, OpStartsWith, OpEndsWith, OpExists, OpNotEmpty]
       ''unknown operator'' (j_get input ''operator'')) (\<lambda>operation.
     and_then (compile_header source input) (\<lambda>name.
     and_then (compile_transforms (j_get input ''transforms'')) (\<lambda>transforms.
     and_then (if operation = OpRegex then and_then (compile_regex engine input) (\<lambda>r. Inr (Some r)) else Inr None) (\<lambda>regex.
     and_then (if operation \<in> {OpContains, OpEquals, OpStartsWith, OpEndsWith}
       then and_then (require_string (j_get input ''value'') 2000 True) (\<lambda>v. Inr (Some v)) else Inr None) (\<lambda>operand.
     Inr \<lparr>lf_source = source, lf_header = name, lf_transforms = transforms, lf_operator = operation, lf_regex = regex,
       lf_value = operand, lf_case_insensitive = (j_get input ''caseInsensitive'' = Some (JBool True)),
       lf_negate = (j_get input ''negate'' = Some (JBool True))\<rparr>))))))"

definition location_text :: "rule_location \<Rightarrow> string" where
  "location_text l = (case l of OnTarget \<Rightarrow> ''request-target'' | OnQuery \<Rightarrow> ''query'' | OnHeader \<Rightarrow> ''header'')"

definition any_rule_id_ok :: "string \<Rightarrow> bool" where
  "any_rule_id_ok s \<longleftrightarrow> s \<noteq> [] \<and> is_alnum (hd s) \<and> length s \<le> 128 \<and> (\<forall>c \<in> set (tl s). is_alnum c \<or> c \<in> set ''._:-'')"

text \<open>The identifier of a rule must be new among those seen so far.\<close>

definition compile_rule_id :: "json \<Rightarrow> string list \<Rightarrow> string checked" where
  "compile_rule_id input seen =
     and_then (require_string (j_get input ''id'') 128 False) (\<lambda>i.
     if \<not> any_rule_id_ok i then Inl ''rule id has invalid characters''
     else if i \<in> set seen then Inl ''duplicate rule id''
     else Inr i)"

definition enabled_ok :: "json \<Rightarrow> bool" where
  "enabled_ok input \<longleftrightarrow> j_get input ''enabled'' \<in> {None, Some (JBool True), Some (JBool False)}"

definition compile_rule :: "regex_engine \<Rightarrow> json \<Rightarrow> string list \<Rightarrow> compiled_rule checked" where
  "compile_rule engine input seen =
     (case input of
        JObject fs \<Rightarrow>
          and_then (compile_rule_id input seen) (\<lambda>i.
          and_then (word_of severity_text [Low, Medium, High, Critical] ''severity must be low, medium, high or critical''
            (j_get input ''severity'')) (\<lambda>severity.
          and_then (word_of location_text [OnTarget, OnQuery, OnHeader] ''location must be request-target, query or header''
            (j_get input ''location'')) (\<lambda>location.
          if \<not> enabled_ok input then Inl ''enabled must be a boolean''
          else
          and_then (require_string (j_get input ''title'') 256 False) (\<lambda>title.
          and_then (require_string (j_get input ''category'') 128 False) (\<lambda>category.
          and_then (compile_condition (compile_leaf engine) 9 (case j_get input ''match'' of None \<Rightarrow> JNull | Some m \<Rightarrow> m) 0) (\<lambda>(c, n).
          Inr \<lparr>cr_match = \<lparr>rm_rule_id = i, rm_title = title, rm_category = category, rm_severity = severity, rm_location = location\<rparr>,
            cr_condition = c\<rparr>))))))
      | _ \<Rightarrow> Inl ''rule must be an object'')"

text \<open>A disabled rule is compiled and dropped.\<close>

fun compile_rules :: "regex_engine \<Rightarrow> json list \<Rightarrow> string list \<Rightarrow> compiled_rule list checked" where
  "compile_rules engine [] seen = Inr []"
| "compile_rules engine (r # rs) seen =
     and_then (compile_rule engine r seen) (\<lambda>c.
     and_then (compile_rules engine rs (rm_rule_id (cr_match c) # seen)) (\<lambda>cs.
     Inr (if j_get r ''enabled'' = Some (JBool False) then cs else c # cs)))"

definition compile_managed_ruleset :: "regex_engine \<Rightarrow> json \<Rightarrow> managed_ruleset checked" where
  "compile_managed_ruleset engine doc =
     (case doc of
        JObject fs \<Rightarrow>
          and_then (require_string (j_get doc ''schemaVersion'') 4096 False) (\<lambda>schema.
          if schema \<noteq> ''1'' then Inl ''unsupported schemaVersion''
          else
          and_then (require_string (j_get doc ''id'') 128 False) (\<lambda>i.
          if \<not> ruleset_id_ok i then Inl ''ruleset id has invalid characters''
          else
          and_then (require_string (j_get doc ''title'') 256 False) (\<lambda>title.
          and_then (require_string (j_get doc ''version'') 64 False) (\<lambda>version.
          and_then (if j_get doc ''description'' = None then Inr [] else require_string (j_get doc ''description'') 4096 True) (\<lambda>description.
          (case j_get doc ''rules'' of
             Some (JArray rs) \<Rightarrow>
               if rs = [] then Inl ''ruleset must contain at least one rule''
               else if 500 < length rs then Inl ''ruleset has more than 500 rules''
               else and_then (compile_rules engine rs []) (\<lambda>cs.
                 Inr \<lparr>mr_id = i, mr_title = title, mr_version = version, mr_description = description, mr_rules = cs\<rparr>)
           | _ \<Rightarrow> Inl ''rules must be an array''))))))
      | _ \<Rightarrow> Inl ''document must be an object'')"

section \<open>Evaluating the rules\<close>

definition url_decode :: "string \<Rightarrow> string" where
  "url_decode s =
     (case decode_uri_component s of
        None \<Rightarrow> s
      | Some t \<Rightarrow> if t = s then s else (case decode_uri_component t of None \<Rightarrow> t | Some u \<Rightarrow> u))"

definition apply_transform :: "string \<Rightarrow> rule_transform \<Rightarrow> string" where
  "apply_transform s t = (case t of UrlDecode \<Rightarrow> url_decode s | Lowercase \<Rightarrow> to_lower s | Uppercase \<Rightarrow> to_upper s
     | TrimText \<Rightarrow> trim s | CollapseWhitespace \<Rightarrow> collapse_spaces s)"

text \<open>\<open>headers.get\<close> and \<open>headers.has\<close> throw on a name that is not an HTTP token.\<close>

definition raw_field :: "request \<Rightarrow> rule_leaf \<Rightarrow> string option checked" where
  "raw_field rq l =
     (case lf_source l of
        FieldMethod \<Rightarrow> Inr (Some (rq_method rq))
      | FieldPath \<Rightarrow> Inr (Some (rq_pathname rq))
      | FieldQuery \<Rightarrow> Inr (Some (rq_search rq))
      | FieldTarget \<Rightarrow> Inr (Some (rq_pathname rq @ rq_search rq))
      | FieldHeader \<Rightarrow>
          (let name = text_or_empty (lf_header l) in
           if http_token name then Inr (header name (rq_headers rq)) else Inl ''Invalid header name''))"

definition leaf_key :: "rule_leaf \<Rightarrow> string" where
  "leaf_key l = field_source_text (lf_source l) @ CHR 0x00 # text_or_empty (lf_header l) @ CHR 0x00 # join '','' (map transform_text (lf_transforms l))"

type_synonym value_cache = "(string, string) omap"

definition resolve_value :: "request \<Rightarrow> rule_leaf \<Rightarrow> value_cache \<Rightarrow> (string \<times> value_cache) checked" where
  "resolve_value rq l cache =
     (case om_get cache (leaf_key l) of
        Some v \<Rightarrow> Inr (v, cache)
      | None \<Rightarrow>
          and_then (raw_field rq l) (\<lambda>f.
            let v = foldl apply_transform (take (if lf_source l = FieldHeader then 512 else 16384) (text_or_empty f)) (lf_transforms l) in
            Inr (v, om_set (leaf_key l) v cache)))"

text \<open>The comparison of an operator with the value of its field.\<close>

definition compare_text :: "(string \<Rightarrow> string \<Rightarrow> bool) \<Rightarrow> bool \<Rightarrow> string option \<Rightarrow> string \<Rightarrow> bool" where
  "compare_text f insensitive operand v =
     (if insensitive then f (to_lower (text_or_empty operand)) (to_lower v) else f (text_or_empty operand) v)"

definition operator_holds :: "rule_leaf \<Rightarrow> string \<Rightarrow> bool" where
  "operator_holds l v =
     (let cmp = (\<lambda>f. compare_text f (lf_case_insensitive l) (lf_value l) v) in
      case lf_operator l of
        OpRegex \<Rightarrow> (case lf_regex l of None \<Rightarrow> False | Some r \<Rightarrow> r v)
      | OpNotEmpty \<Rightarrow> v \<noteq> []
      | OpContains \<Rightarrow> cmp contains
      | OpEquals \<Rightarrow> cmp (=)
      | OpStartsWith \<Rightarrow> cmp starts_with
      | OpEndsWith \<Rightarrow> cmp ends_with
      | OpExists \<Rightarrow> False)"

definition evaluate_leaf :: "request \<Rightarrow> rule_leaf \<Rightarrow> value_cache \<Rightarrow> (bool \<times> value_cache) checked" where
  "evaluate_leaf rq l cache =
     (if lf_operator l = OpExists then and_then (raw_field rq l) (\<lambda>f. Inr ((f \<noteq> None) \<noteq> lf_negate l, cache))
      else and_then (resolve_value rq l cache) (\<lambda>(v, c). Inr (operator_holds l v \<noteq> lf_negate l, c)))"

text \<open>\<open>every\<close> and \<open>some\<close> stop at the first child that decides.\<close>

fun evaluate_condition :: "request \<Rightarrow> rule_leaf condition \<Rightarrow> value_cache \<Rightarrow> (bool \<times> value_cache) checked"
  and evaluate_all :: "request \<Rightarrow> rule_leaf condition list \<Rightarrow> value_cache \<Rightarrow> (bool \<times> value_cache) checked"
  and evaluate_any :: "request \<Rightarrow> rule_leaf condition list \<Rightarrow> value_cache \<Rightarrow> (bool \<times> value_cache) checked" where
  "evaluate_condition rq (CondLeaf l) cache = evaluate_leaf rq l cache"
| "evaluate_condition rq (CondAll cs) cache = evaluate_all rq cs cache"
| "evaluate_condition rq (CondAny cs) cache = evaluate_any rq cs cache"
| "evaluate_condition rq (CondNot t) cache = and_then (evaluate_condition rq t cache) (\<lambda>(b, c). Inr (\<not> b, c))"
| "evaluate_all rq [] cache = Inr (True, cache)"
| "evaluate_all rq (t # ts) cache = and_then (evaluate_condition rq t cache) (\<lambda>(b, c). if b then evaluate_all rq ts c else Inr (False, c))"
| "evaluate_any rq [] cache = Inr (False, cache)"
| "evaluate_any rq (t # ts) cache = and_then (evaluate_condition rq t cache) (\<lambda>(b, c). if b then Inr (True, c) else evaluate_any rq ts c)"

fun inspect_rules :: "request \<Rightarrow> compiled_rule list \<Rightarrow> value_cache \<Rightarrow> rule_match list checked" where
  "inspect_rules rq [] cache = Inr []"
| "inspect_rules rq (r # rs) cache =
     and_then (evaluate_condition rq (cr_condition r) cache) (\<lambda>(b, c).
     and_then (inspect_rules rq rs c) (\<lambda>ms. Inr (if b then cr_match r # ms else ms)))"

definition inspect_ruleset :: "managed_ruleset \<Rightarrow> request \<Rightarrow> rule_match list checked" where
  "inspect_ruleset rs rq = inspect_rules rq (mr_rules rs) []"

section \<open>The registry and the inspection of a request\<close>

record ruleset_registry =
  rg_rulesets :: "(string, managed_ruleset) omap"
  rg_default_id :: string

definition register_managed_ruleset :: "managed_ruleset \<Rightarrow> bool \<Rightarrow> ruleset_registry \<Rightarrow> ruleset_registry checked" where
  "register_managed_ruleset rs make_default reg =
     (if \<not> ruleset_id_ok (mr_id rs) then Inl ''Managed ruleset ID is invalid''
      else if trim (mr_title rs) = [] \<or> trim (mr_version rs) = [] then Inl ''Managed ruleset title and version are required''
      else Inr \<lparr>rg_rulesets = om_set (mr_id rs) rs (rg_rulesets reg),
        rg_default_id = (if make_default then mr_id rs else rg_default_id reg)\<rparr>)"

datatype protection_status = ProtectionDisabled | ProtectionClean | ProtectionMonitored | ProtectionBlocked

record protection_result =
  pn_status :: protection_status
  pn_ruleset :: "(string \<times> string) option"
  pn_matches :: "rule_match list"

abbreviation primary_match :: "protection_result \<Rightarrow> rule_match option" where
  "primary_match p \<equiv> (case pn_matches p of [] \<Rightarrow> None | m # _ \<Rightarrow> Some m)"

fun severity_rank :: "severity \<Rightarrow> nat" where
  "severity_rank Low = 1"
| "severity_rank Medium = 2"
| "severity_rank High = 3"
| "severity_rank Critical = 4"

text \<open>The order of \<open>localeCompare\<close> is an argument.\<close>

definition by_severity :: "(string \<Rightarrow> nat) \<Rightarrow> ('m \<Rightarrow> severity) \<Rightarrow> ('m \<Rightarrow> string) \<Rightarrow> 'm list \<Rightarrow> 'm list" where
  "by_severity rank severity_of id_of ms = sort_key (\<lambda>m. 4 - severity_rank (severity_of m)) (sort_key (\<lambda>m. rank (id_of m)) ms)"

definition selected_ruleset :: "ruleset_registry \<Rightarrow> site_protection \<Rightarrow> managed_ruleset option" where
  "selected_ruleset reg p =
     (case om_get (rg_rulesets reg) (if sp_ruleset_id p = ''default'' then rg_default_id reg else sp_ruleset_id p) of
        Some rs \<Rightarrow> Some rs
      | None \<Rightarrow> om_get (rg_rulesets reg) (rg_default_id reg))"

definition inspect_managed_request ::
  "(string \<Rightarrow> nat) \<Rightarrow> ruleset_registry \<Rightarrow> request \<Rightarrow> site_protection \<Rightarrow> protection_result checked" where
  "inspect_managed_request rank reg rq p =
     (let off = \<lparr>pn_status = ProtectionDisabled, pn_ruleset = None, pn_matches = []\<rparr> in
      if sp_mode p = ProtDisabled then Inr off
      else case selected_ruleset reg p of
        None \<Rightarrow> Inr off
      | Some rs \<Rightarrow>
          and_then (inspect_ruleset rs rq) (\<lambda>found.
            let ms = by_severity rank rm_severity rm_rule_id (filter (\<lambda>m. rm_rule_id m \<notin> set (sp_excluded_rule_ids p)) found) in
            Inr \<lparr>pn_status = (if ms = [] then ProtectionClean else if sp_mode p = ProtBlock then ProtectionBlocked else ProtectionMonitored),
              pn_ruleset = Some (mr_id rs, mr_version rs), pn_matches = ms\<rparr>))"

section \<open>Loading the rulesets\<close>

text \<open>
  The files of the directory in the order of their names, \<^term>\<open>None\<close> when a file cannot be read or is not
  JSON, and the documents that ship with the program, used when no file can be loaded. The result
  has the names of the files that failed.
\<close>

record load_result =
  lr_loaded :: "(string \<times> string) list"
  lr_failed :: "string list"
  lr_registry :: ruleset_registry

definition load_file :: "regex_engine \<Rightarrow> string \<Rightarrow> string \<times> json option \<Rightarrow> load_result \<Rightarrow> load_result" where
  "load_file engine wanted file res =
     (let failed = res\<lparr>lr_failed := lr_failed res @ [fst file]\<rparr> in
      case snd file of
        None \<Rightarrow> failed
      | Some doc \<Rightarrow> (case compile_managed_ruleset engine doc of
          Inl _ \<Rightarrow> failed
        | Inr rs \<Rightarrow>
            if mr_id rs \<in> snd ` set (lr_loaded res) then failed
            else (case register_managed_ruleset rs (mr_id rs = wanted) (lr_registry res) of
                Inl _ \<Rightarrow> failed
              | Inr reg \<Rightarrow> res\<lparr>lr_loaded := lr_loaded res @ [(fst file, mr_id rs)], lr_registry := reg\<rparr>)))"

text \<open>The fallback throws when a shipped document does not compile.\<close>

fun register_bundled :: "regex_engine \<Rightarrow> string \<Rightarrow> (string \<times> json) list \<Rightarrow> load_result \<Rightarrow> load_result checked" where
  "register_bundled engine wanted [] res = Inr res"
| "register_bundled engine wanted ((name, doc) # bs) res =
     and_then (compile_managed_ruleset engine doc) (\<lambda>rs.
     and_then (register_managed_ruleset rs (mr_id rs = wanted) (lr_registry res)) (\<lambda>reg.
     register_bundled engine wanted bs (res\<lparr>lr_loaded := lr_loaded res @ [(name @ '' (bundled fallback)'', mr_id rs)], lr_registry := reg\<rparr>)))"

definition load_managed_rulesets ::
  "regex_engine \<Rightarrow> string \<Rightarrow> (string \<times> json) list \<Rightarrow> (string \<times> json option) list \<Rightarrow> ruleset_registry \<Rightarrow> load_result checked" where
  "load_managed_rulesets engine wanted bundled files reg =
     (let res = fold (load_file engine wanted) files \<lparr>lr_loaded = [], lr_failed = [], lr_registry = reg\<rparr> in
      if lr_loaded res = [] then register_bundled engine wanted bundled res else Inr res)"

section \<open>The cache of field values has no effect\<close>

definition plain_value :: "request \<Rightarrow> rule_leaf \<Rightarrow> string checked" where
  "plain_value rq l =
     and_then (raw_field rq l) (\<lambda>f.
       Inr (foldl apply_transform (take (if lf_source l = FieldHeader then 512 else 16384) (text_or_empty f)) (lf_transforms l)))"

definition plain_leaf :: "request \<Rightarrow> rule_leaf \<Rightarrow> bool checked" where
  "plain_leaf rq l =
     (if lf_operator l = OpExists then and_then (raw_field rq l) (\<lambda>f. Inr ((f \<noteq> None) \<noteq> lf_negate l))
      else and_then (plain_value rq l) (\<lambda>v. Inr (operator_holds l v \<noteq> lf_negate l)))"

fun plain_condition :: "('l \<Rightarrow> bool checked) \<Rightarrow> 'l condition \<Rightarrow> bool checked"
  and plain_all :: "('l \<Rightarrow> bool checked) \<Rightarrow> 'l condition list \<Rightarrow> bool checked"
  and plain_any :: "('l \<Rightarrow> bool checked) \<Rightarrow> 'l condition list \<Rightarrow> bool checked" where
  "plain_condition f (CondLeaf l) = f l"
| "plain_condition f (CondAll cs) = plain_all f cs"
| "plain_condition f (CondAny cs) = plain_any f cs"
| "plain_condition f (CondNot t) = and_then (plain_condition f t) (\<lambda>b. Inr (\<not> b))"
| "plain_all f [] = Inr True"
| "plain_all f (t # ts) = and_then (plain_condition f t) (\<lambda>b. if b then plain_all f ts else Inr False)"
| "plain_any f [] = Inr False"
| "plain_any f (t # ts) = and_then (plain_condition f t) (\<lambda>b. if b then Inr True else plain_any f ts)"

definition leaf_ok :: "rule_leaf \<Rightarrow> bool" where
  "leaf_ok l \<longleftrightarrow> (lf_header l \<noteq> None \<longleftrightarrow> lf_source l = FieldHeader)"

lemma vocabulary [simp]:
  "CHR 0x00 \<notin> set (field_source_text s)" "CHR 0x00 \<notin> set (transform_text t)" "CHR '','' \<notin> set (transform_text t)" "transform_text t \<noteq> []"
  by (cases s, simp_all add: field_source_text_def) (cases t, simp_all add: transform_text_def)+

lemma field_source_text_inj: "field_source_text s = field_source_text s' \<longleftrightarrow> s = s'"
  by (cases s; cases s') (simp_all add: field_source_text_def)

lemma transform_text_inj: "transform_text t = transform_text t' \<longleftrightarrow> t = t'"
  by (cases t; cases t') (simp_all add: transform_text_def)

lemma join_char_cases: "c \<in> set (join d ws) \<Longrightarrow> c \<in> set d \<or> (\<exists>w \<in> set ws. c \<in> set w)"
  by (induction d ws rule: join.induct) auto

lemma append_sep_eq: "CHR 0x00 \<notin> set a \<Longrightarrow> CHR 0x00 \<notin> set b \<Longrightarrow> a @ CHR 0x00 # x = b @ CHR 0x00 # y \<longleftrightarrow> a = b \<and> x = y"
proof (induction a arbitrary: b)
  case Nil
  then show ?case by (cases b) auto
next
  case (Cons c a)
  then show ?case by (cases b) auto
qed

lemma append_last_sep_eq: "CHR 0x00 \<notin> set x \<Longrightarrow> CHR 0x00 \<notin> set y \<Longrightarrow> a @ CHR 0x00 # x = b @ CHR 0x00 # y \<longleftrightarrow> a = b \<and> x = y"
proof -
  assume nul: "CHR 0x00 \<notin> set x" "CHR 0x00 \<notin> set y"
  have "a @ CHR 0x00 # x = b @ CHR 0x00 # y \<longleftrightarrow> rev x @ CHR 0x00 # rev a = rev y @ CHR 0x00 # rev b"
    by (metis append.assoc append_Cons append_Nil rev.simps(2) rev_append rev_rev_ident)
  also have "\<dots> \<longleftrightarrow> rev x = rev y \<and> rev a = rev b" using nul by (intro append_sep_eq) simp_all
  finally show ?thesis by auto
qed

lemma join_transforms_inj: "join '','' (map transform_text ts) = join '','' (map transform_text us) \<Longrightarrow> ts = us"
proof -
  assume eq: "join '','' (map transform_text ts) = join '','' (map transform_text us)"
  have full: "join '','' (map transform_text vs) = [] \<longleftrightarrow> vs = []" for vs
    by (cases vs; cases "tl vs") auto
  have "map transform_text ts = map transform_text us"
  proof (cases "ts = []")
    case True
    then show ?thesis using full [of us] eq by simp
  next
    case False
    then have "us \<noteq> []" using full [of ts] full [of us] eq by simp
    have "split_on CHR '','' (join '','' (map transform_text vs)) = map transform_text vs" if "vs \<noteq> []" for vs
      using that by (intro split_on_join) auto
    from this [OF False] this [OF \<open>us \<noteq> []\<close>] show ?thesis unfolding eq by (rule trans [OF sym])
  qed
  then show ?thesis using transform_text_inj by (metis (mono_tags, lifting) injI inj_map_eq_map)
qed

lemma leaf_key_inj:
  assumes "leaf_ok l" and "leaf_ok m" and "leaf_key l = leaf_key m"
  shows "lf_source l = lf_source m \<and> lf_header l = lf_header m \<and> lf_transforms l = lf_transforms m"
proof -
  have nul: "CHR 0x00 \<notin> set (join '','' (map transform_text ts))" for ts using join_char_cases [of "CHR 0x00" "'',''"] by fastforce
  from assms(3) have src: "field_source_text (lf_source l) = field_source_text (lf_source m)"
    and rest: "text_or_empty (lf_header l) @ CHR 0x00 # join '','' (map transform_text (lf_transforms l))
      = text_or_empty (lf_header m) @ CHR 0x00 # join '','' (map transform_text (lf_transforms m))"
    unfolding leaf_key_def by (simp_all add: append_sep_eq)
  have "lf_source l = lf_source m" using src by (simp add: field_source_text_inj)
  moreover from rest have "text_or_empty (lf_header l) = text_or_empty (lf_header m)" "lf_transforms l = lf_transforms m"
    using append_last_sep_eq [OF nul nul] join_transforms_inj by blast+
  ultimately show ?thesis using assms(1,2) by (auto simp: leaf_ok_def text_or_empty_def split: option.splits)
qed

lemma plain_value_cong:
  "leaf_ok l \<Longrightarrow> leaf_ok m \<Longrightarrow> leaf_key l = leaf_key m \<Longrightarrow> plain_value rq l = plain_value rq m"
  using leaf_key_inj [of l m] by (simp add: plain_value_def raw_field_def cong: field_source.case_cong)

definition value_cache_ok :: "request \<Rightarrow> value_cache \<Rightarrow> bool" where
  "value_cache_ok rq cache \<longleftrightarrow> (\<forall>l v. leaf_ok l \<and> om_get cache (leaf_key l) = Some v \<longrightarrow> plain_value rq l = Inr v)"

definition agrees :: "request \<Rightarrow> ('b \<times> value_cache) checked \<Rightarrow> 'b checked \<Rightarrow> bool" where
  "agrees rq r p \<longleftrightarrow> (case r of Inl e \<Rightarrow> p = Inl e | Inr (b, c) \<Rightarrow> p = Inr b \<and> value_cache_ok rq c)"

lemma agrees_simps [simp]:
  "agrees rq (Inl e) p \<longleftrightarrow> p = Inl e" "agrees rq (Inr (b, c)) p \<longleftrightarrow> p = Inr b \<and> value_cache_ok rq c"
  by (simp_all add: agrees_def)

lemma agrees_then:
  assumes "agrees rq r p" and "\<And>b c. value_cache_ok rq c \<Longrightarrow> p = Inr b \<Longrightarrow> agrees rq (f b c) (g b)"
  shows "agrees rq (and_then r (\<lambda>(b, c). f b c)) (and_then p g)"
proof (cases r)
  case (Inl e)
  then show ?thesis using assms(1) by (simp add: and_then_def)
next
  case (Inr x)
  then show ?thesis using assms by (cases x) (simp add: and_then_def)
qed

lemma resolve_value_agrees:
  assumes "leaf_ok l" and "value_cache_ok rq cache"
  shows "agrees rq (resolve_value rq l cache) (plain_value rq l)"
proof (cases "om_get cache (leaf_key l)")
  case None
  have keep: "value_cache_ok rq (om_set (leaf_key l) v cache)" if "plain_value rq l = Inr v" for v
    unfolding value_cache_ok_def
  proof (intro allI impI, elim conjE)
    fix m w assume m: "leaf_ok m" "om_get (om_set (leaf_key l) v cache) (leaf_key m) = Some w"
    show "plain_value rq m = Inr w"
    proof (cases "leaf_key m = leaf_key l")
      case True
      then have "w = v" using m(2) by (simp add: om_get_set)
      then show ?thesis using plain_value_cong [OF m(1) assms(1) True] that by simp
    next
      case False
      then have "om_get cache (leaf_key m) = Some w" using m(2) by (simp add: om_get_set)
      then show ?thesis using assms(2) m(1) unfolding value_cache_ok_def by blast
    qed
  qed
  show ?thesis
  proof (cases "raw_field rq l")
    case (Inl e)
    with None show ?thesis by (simp add: resolve_value_def plain_value_def and_then_def)
  next
    case (Inr f)
    with None keep show ?thesis by (simp add: resolve_value_def plain_value_def and_then_def Let_def)
  qed
next
  case (Some v)
  with assms show ?thesis by (simp add: resolve_value_def value_cache_ok_def)
qed

lemma evaluate_leaf_agrees: "leaf_ok l \<Longrightarrow> value_cache_ok rq cache \<Longrightarrow> agrees rq (evaluate_leaf rq l cache) (plain_leaf rq l)"
proof -
  assume ok: "leaf_ok l" "value_cache_ok rq cache"
  show ?thesis
  proof (cases "lf_operator l = OpExists")
    case True
    then show ?thesis using ok(2) by (cases "raw_field rq l") (simp_all add: evaluate_leaf_def plain_leaf_def and_then_def)
  next
    case False
    then show ?thesis unfolding evaluate_leaf_def plain_leaf_def if_not_P [OF False]
      by (intro agrees_then [OF resolve_value_agrees [OF ok]]) simp
  qed
qed

lemma evaluate_agrees:
  "\<forall>l \<in> set_condition c. leaf_ok l \<Longrightarrow> value_cache_ok rq cache \<Longrightarrow> agrees rq (evaluate_condition rq c cache) (plain_condition (plain_leaf rq) c)"
  "\<forall>t \<in> set cs. \<forall>l \<in> set_condition t. leaf_ok l \<Longrightarrow> value_cache_ok rq cache \<Longrightarrow> agrees rq (evaluate_all rq cs cache) (plain_all (plain_leaf rq) cs)"
  "\<forall>t \<in> set cs. \<forall>l \<in> set_condition t. leaf_ok l \<Longrightarrow> value_cache_ok rq cache \<Longrightarrow> agrees rq (evaluate_any rq cs cache) (plain_any (plain_leaf rq) cs)"
proof (induction rq c cache and rq cs cache and rq cs cache rule: evaluate_condition_evaluate_all_evaluate_any.induct)
  case (1 rq l cache)
  then show ?case by (simp add: evaluate_leaf_agrees)
next
  case (4 rq t cache)
  then have "agrees rq (evaluate_condition rq t cache) (plain_condition (plain_leaf rq) t)" by simp
  then show ?case using agrees_then [of rq _ _ "\<lambda>b c. Inr (\<not> b, c)"] by simp
next
  case (6 rq t ts cache)
  then have "agrees rq (evaluate_condition rq t cache) (plain_condition (plain_leaf rq) t)" by simp
  then show ?case
    unfolding evaluate_all.simps plain_all.simps
  proof (rule agrees_then)
    fix b c assume "value_cache_ok rq c" "plain_condition (plain_leaf rq) t = Inr b"
    then show "agrees rq (if b then evaluate_all rq ts c else Inr (False, c)) (if b then plain_all (plain_leaf rq) ts else Inr False)"
      using 6 by simp
  qed
next
  case (8 rq t ts cache)
  then have "agrees rq (evaluate_condition rq t cache) (plain_condition (plain_leaf rq) t)" by simp
  then show ?case
    unfolding evaluate_any.simps plain_any.simps
  proof (rule agrees_then)
    fix b c assume "value_cache_ok rq c" "plain_condition (plain_leaf rq) t = Inr b"
    then show "agrees rq (if b then Inr (True, c) else evaluate_any rq ts c) (if b then Inr True else plain_any (plain_leaf rq) ts)"
      using 8 by simp
  qed
qed simp_all

section \<open>What the compiler accepts\<close>

fun condition_nodes :: "'l condition \<Rightarrow> nat" where
  "condition_nodes (CondLeaf l) = 1"
| "condition_nodes (CondAll cs) = Suc (sum_list (map condition_nodes cs))"
| "condition_nodes (CondAny cs) = Suc (sum_list (map condition_nodes cs))"
| "condition_nodes (CondNot t) = Suc (condition_nodes t)"

fun condition_depth :: "'l condition \<Rightarrow> nat" where
  "condition_depth (CondLeaf l) = 1"
| "condition_depth (CondAll cs) = Suc (Max (insert 0 (set (map condition_depth cs))))"
| "condition_depth (CondAny cs) = Suc (Max (insert 0 (set (map condition_depth cs))))"
| "condition_depth (CondNot t) = Suc (condition_depth t)"

definition compiled_to :: "(json \<Rightarrow> 'l checked) \<Rightarrow> nat \<Rightarrow> 'l condition \<Rightarrow> bool" where
  "compiled_to cl levels t \<longleftrightarrow> condition_depth t \<le> levels \<and> (\<forall>l \<in> set_condition t. \<exists>j. cl j = Inr l)"

lemma compiled_to_list:
  assumes "\<forall>t \<in> set ts. compiled_to cl levels t"
  shows "compiled_to cl (Suc levels) (CondAll ts) \<and> compiled_to cl (Suc levels) (CondAny ts)"
  using assms by (auto simp: compiled_to_def)


lemma compile_condition_spec:
  "compile_condition cl levels input nodes = Inr (t, m) \<Longrightarrow>
     m = nodes + condition_nodes t \<and> m \<le> 64 \<and> compiled_to cl levels t"
  "compile_children cl levels cs nodes = Inr (ts, m) \<Longrightarrow>
     m = nodes + sum_list (map condition_nodes ts) \<and> (nodes \<le> 64 \<longrightarrow> m \<le> 64) \<and> (\<forall>t \<in> set ts. compiled_to cl levels t)"
proof (induction cl levels input nodes and cl levels cs nodes arbitrary: t m and ts m rule: compile_condition_compile_children.induct)
  case (1 cl input nodes)
  then show ?case by simp
next
  case (2 cl levels input nodes)
  then obtain fs where fs: "input = JObject fs" by (cases input) auto
  define composite where "composite = filter (\<lambda>k. map_of fs k \<noteq> None) [''all'', ''any'', ''not'']"
  note P = 2(3) [unfolded fs compile_condition.simps json.case Let_def, folded composite_def]
  have few: "\<not> 64 < Suc nodes" using P by (auto split: if_splits)
  note P = P [unfolded if_not_P [OF few]]
  have one: "\<not> 1 < length composite" using P by (auto split: if_splits)
  note P = P [unfolded if_not_P [OF one]]
  show ?case
  proof (cases "composite = [''all''] \<or> composite = [''any'']")
    case True
    note P = P [unfolded if_P [OF True]]
    obtain c cs where cs: "map_of fs (hd composite) = Some (JArray (c # cs))"
      using P by (auto split: option.splits json.splits list.splits)
    obtain ts n where ts: "compile_children cl levels (c # cs) (Suc nodes) = Inr (ts, n)"
      and t: "t = (if hd composite = ''all'' then CondAll ts else CondAny ts)" "m = n"
      using P cs by (auto simp: checked_simps)
    have IH: "n = Suc nodes + sum_list (map condition_nodes ts) \<and> (Suc nodes \<le> 64 \<longrightarrow> n \<le> 64) \<and> (\<forall>t \<in> set ts. compiled_to cl levels t)"
      using 2(1) [OF fs few composite_def one True cs refl refl ts] .
    show ?thesis using IH t compiled_to_list [of ts cl levels] few by (auto split: if_splits)
  next
    case False
    note P = P [unfolded if_not_P [OF False]]
    show ?thesis
    proof (cases "composite = [''not'']")
      case True
      note P = P [unfolded if_P [OF True]]
      obtain j where j: "map_of fs ''not'' = Some j" using P by (auto split: option.splits)
      obtain u n where u: "compile_condition cl levels j (Suc nodes) = Inr (u, n)" "t = CondNot u" "m = n"
        using P j by (auto simp: checked_simps)
      have "n = Suc nodes + condition_nodes u \<and> n \<le> 64 \<and> compiled_to cl levels u"
        using 2(2) [OF fs few composite_def one False True j u(1)] .
      then show ?thesis using u(2,3) by (simp add: compiled_to_def)
    next
      case no: False
      note P = P [unfolded if_not_P [OF no]]
      then obtain l where "cl input = Inr l" "t = CondLeaf l" "m = Suc nodes" using fs by (auto simp: checked_simps)
      then show ?thesis using few by (auto simp: compiled_to_def)
    qed
  qed
next
  case (3 cl levels nodes)
  then show ?case by simp
next
  case (4 cl levels c cs nodes)
  then obtain t n us where t: "compile_condition cl levels c nodes = Inr (t, n)"
    and us: "compile_children cl levels cs n = Inr (us, m)" "ts = t # us"
    by (auto simp: checked_simps)
  from 4(1) [OF t] 4(2) [OF us(1)] us(2) show ?case by auto
qed

lemma compile_leaf_ok: "compile_leaf engine j = Inr l \<Longrightarrow> leaf_ok l \<and> length (lf_transforms l) \<le> 8 \<and> length (text_or_empty (lf_value l)) \<le> 2000"
proof -
  assume c: "compile_leaf engine j = Inr l"
  have head: "compile_header s i = Inr h \<Longrightarrow> (h \<noteq> None \<longleftrightarrow> s = FieldHeader)" for s i h
    by (auto simp: compile_header_def checked_simps split: if_splits)
  have all_length: "check_all f xs = Inr ys \<Longrightarrow> length ys = length xs" for f :: "json \<Rightarrow> rule_transform checked" and xs ys
    by (induction xs arbitrary: ys) (auto simp: checked_simps)
  have tr: "compile_transforms v = Inr ts \<Longrightarrow> length ts \<le> 8" for v ts
    using all_length by (fastforce simp: compile_transforms_def split: option.splits json.splits if_splits)
  have len: "require_string v n b = Inr x \<Longrightarrow> length x \<le> n" for v n b x
    by (auto simp: require_string_def split: option.splits json.splits if_splits)
  from c obtain s p h ts r w where parts: "compile_header s j = Inr h" "compile_transforms (j_get j ''transforms'') = Inr ts"
    "(if p \<in> {OpContains, OpEquals, OpStartsWith, OpEndsWith}
       then and_then (require_string (j_get j ''value'') 2000 True) (\<lambda>v. Inr (Some v)) else Inr None) = Inr w"
    and l: "l = \<lparr>lf_source = s, lf_header = h, lf_transforms = ts, lf_operator = p, lf_regex = r,
       lf_value = w, lf_case_insensitive = (j_get j ''caseInsensitive'' = Some (JBool True)),
       lf_negate = (j_get j ''negate'' = Some (JBool True))\<rparr>"
    unfolding compile_leaf_def and_then_eq_Inr sum.inject by blast
  have "length (text_or_empty w) \<le> 2000"
    using parts(3) len by (auto simp: checked_simps text_or_empty_def split: if_splits)
  then show ?thesis using head [OF parts(1)] tr [OF parts(2)] by (simp add: l leaf_ok_def)
qed

definition rule_bounded :: "compiled_rule \<Rightarrow> bool" where
  "rule_bounded r \<longleftrightarrow> condition_nodes (cr_condition r) \<le> 64 \<and> condition_depth (cr_condition r) \<le> 9 \<and> any_rule_id_ok (rm_rule_id (cr_match r))
     \<and> (\<forall>l \<in> set_condition (cr_condition r). leaf_ok l \<and> length (lf_transforms l) \<le> 8 \<and> length (text_or_empty (lf_value l)) \<le> 2000)"

lemma compile_rule_spec:
  assumes "compile_rule engine j seen = Inr c"
  shows "rule_bounded c \<and> rm_rule_id (cr_match c) \<notin> set seen"
proof -
  from assms obtain fs where fs: "j = JObject fs" by (cases j) (simp_all add: compile_rule_def)
  from assms obtain i s loc title cat t n where i: "compile_rule_id j seen = Inr i"
    and t: "compile_condition (compile_leaf engine) 9 (case j_get j ''match'' of None \<Rightarrow> JNull | Some m \<Rightarrow> m) 0 = Inr (t, n)"
    and c: "c = \<lparr>cr_match = \<lparr>rm_rule_id = i, rm_title = title, rm_category = cat, rm_severity = s, rm_location = loc\<rparr>, cr_condition = t\<rparr>"
    unfolding compile_rule_def fs json.case by (auto simp: checked_simps split: if_splits)
  have "any_rule_id_ok i \<and> i \<notin> set seen" using i by (auto simp: compile_rule_id_def checked_simps split: if_splits)
  moreover note compile_condition_spec(1) [OF t]
  ultimately show ?thesis using compile_leaf_ok by (fastforce simp: c rule_bounded_def compiled_to_def)
qed

lemma compile_rules_spec:
  "compile_rules engine rs seen = Inr cs \<Longrightarrow>
     length cs \<le> length rs \<and> (\<forall>c \<in> set cs. rule_bounded c \<and> rm_rule_id (cr_match c) \<notin> set seen) \<and> distinct (map (rm_rule_id \<circ> cr_match) cs)"
proof (induction rs arbitrary: seen cs)
  case (Cons r rs)
  from Cons.prems obtain c ds where c: "compile_rule engine r seen = Inr c"
    and ds: "compile_rules engine rs (rm_rule_id (cr_match c) # seen) = Inr ds"
    and cs: "cs = (if j_get r ''enabled'' = Some (JBool False) then ds else c # ds)"
    by (auto simp: checked_simps)
  show ?case using compile_rule_spec [OF c] Cons.IH [OF ds] by (auto simp: cs)
qed simp

lemma refuse_Inr: "(if b then Inl e else r) = Inr y \<longleftrightarrow> \<not> b \<and> r = Inr y"
  by simp

lemma array_Inr: "(case v of Some (JArray xs) \<Rightarrow> f xs | _ \<Rightarrow> Inl e) = Inr y \<longleftrightarrow> (\<exists>xs. v = Some (JArray xs) \<and> f xs = Inr y)"
  by (auto split: option.splits json.splits)

lemma compile_ruleset_spec:
  "compile_managed_ruleset engine doc = Inr rs \<Longrightarrow>
     length (mr_rules rs) \<le> 500 \<and> (\<forall>r \<in> set (mr_rules rs). rule_bounded r) \<and> distinct (map (rm_rule_id \<circ> cr_match) (mr_rules rs))
     \<and> ruleset_id_ok (mr_id rs)"
proof -
  assume c: "compile_managed_ruleset engine doc = Inr rs"
  then obtain fs where fs: "doc = JObject fs" by (cases doc) (simp_all add: compile_managed_ruleset_def)
  from c obtain i t v d js cs where "ruleset_id_ok i" "\<not> 500 < length js" "compile_rules engine js [] = Inr cs"
    "rs = \<lparr>mr_id = i, mr_title = t, mr_version = v, mr_description = d, mr_rules = cs\<rparr>"
    unfolding compile_managed_ruleset_def fs json.case and_then_eq_Inr refuse_Inr array_Inr sum.inject not_not by blast
  then show ?thesis using compile_rules_spec [of engine js "[]" cs] by auto
qed

definition plain_inspect :: "request \<Rightarrow> compiled_rule list \<Rightarrow> rule_match list checked" where
  "plain_inspect rq rules =
     and_then (check_all (\<lambda>r. and_then (plain_condition (plain_leaf rq) (cr_condition r)) (\<lambda>b. Inr (b, cr_match r))) rules)
       (\<lambda>ps. Inr (map snd (filter fst ps)))"

lemma inspect_rules_plain:
  "\<forall>r \<in> set rules. \<forall>l \<in> set_condition (cr_condition r). leaf_ok l \<Longrightarrow> value_cache_ok rq cache \<Longrightarrow> inspect_rules rq rules cache = plain_inspect rq rules"
proof (induction rules arbitrary: cache)
  case Nil
  then show ?case by (simp add: plain_inspect_def checked_simps)
next
  case (Cons r rs)
  have a: "agrees rq (evaluate_condition rq (cr_condition r) cache) (plain_condition (plain_leaf rq) (cr_condition r))"
    using Cons.prems by (intro evaluate_agrees(1)) auto
  show ?case
  proof (cases "evaluate_condition rq (cr_condition r) cache")
    case (Inl e)
    then show ?thesis using a by (simp add: plain_inspect_def and_then_def)
  next
    case (Inr x)
    obtain b c where x: "x = (b, c)" by fastforce
    have p: "plain_condition (plain_leaf rq) (cr_condition r) = Inr b" "value_cache_ok rq c" using a Inr x by auto
    have "inspect_rules rq rs c = plain_inspect rq rs" using Cons.IH [OF _ p(2)] Cons.prems(1) by simp
    then show ?thesis using Inr x p(1)
      by (cases "check_all (\<lambda>r. and_then (plain_condition (plain_leaf rq) (cr_condition r)) (\<lambda>b. Inr (b, cr_match r))) rs")
        (simp_all add: plain_inspect_def checked_simps and_then_def)
  qed
qed

text \<open>
  C34: the cache of field values that the rules of a request share has no effect: inspecting a request
  with a compiled ruleset gives, error or matches, what evaluating every rule on its own gives.
\<close>

theorem value_cache_transparent:
  assumes "compile_managed_ruleset engine doc = Inr rs"
  shows "inspect_ruleset rs rq = plain_inspect rq (mr_rules rs)"
  unfolding inspect_ruleset_def
proof (rule inspect_rules_plain)
  show "\<forall>r \<in> set (mr_rules rs). \<forall>l \<in> set_condition (cr_condition r). leaf_ok l"
    using compile_ruleset_spec [OF assms] by (auto simp: rule_bounded_def)
qed (simp add: value_cache_ok_def om_get_def)

definition demo_condition :: json where
  "demo_condition = JObject [(''any'', JArray [
     JObject [(''field'', JString ''query''), (''operator'', JString ''contains''), (''value'', JString ''<script''),
       (''transforms'', JArray [JString ''url-decode'', JString ''lowercase''])],
     JObject [(''not'', JObject [(''field'', JString ''header''), (''header'', JString ''User-Agent''), (''operator'', JString ''not-empty'')])]])]"

definition demo_ruleset_doc :: "string \<Rightarrow> json \<Rightarrow> json" where
  "demo_ruleset_doc i c = JObject [(''schemaVersion'', JString ''1''), (''id'', JString ''demo''), (''title'', JString ''Demo''), (''version'', JString ''1''),
     (''rules'', JArray [JObject [(''id'', JString i), (''title'', JString ''Rule''), (''category'', JString ''xss''),
       (''severity'', JString ''high''), (''location'', JString ''query''), (''match'', c)]])]"

definition demo_request :: "string \<Rightarrow> headers \<Rightarrow> request" where
  "demo_request q hs = \<lparr>rq_method = ''GET'', rq_pathname = ''/'', rq_search = q, rq_headers = hs\<rparr>"

definition demo_ruleset :: "string \<Rightarrow> json \<Rightarrow> managed_ruleset" where
  "demo_ruleset i c = projr (compile_managed_ruleset (\<lambda>_ _. None) (demo_ruleset_doc i c))"

lemma demo_ruleset_compiles: "compile_managed_ruleset (\<lambda>_ _. None) (demo_ruleset_doc ''XSS-1'' demo_condition) = Inr (demo_ruleset ''XSS-1'' demo_condition)"
proof -
  have "isl (compile_managed_ruleset (\<lambda>_ _. None) (demo_ruleset_doc ''XSS-1'' demo_condition)) = False" by code_simp
  then show ?thesis unfolding demo_ruleset_def by simp
qed

theorem value_cache_transparent_witness:
  "inspect_ruleset (demo_ruleset ''XSS-1'' demo_condition) (demo_request ''?q=%3CScript%3E'' [(''user-agent'', ''x'')])
     = plain_inspect (demo_request ''?q=%3CScript%3E'' [(''user-agent'', ''x'')]) (mr_rules (demo_ruleset ''XSS-1'' demo_condition))
   \<and> map_sum id (map rm_rule_id) (inspect_ruleset (demo_ruleset ''XSS-1'' demo_condition) (demo_request ''?q=%3CScript%3E'' [(''user-agent'', ''x'')]))
     = Inr [''XSS-1'']"
proof
  show "map_sum id (map rm_rule_id) (inspect_ruleset (demo_ruleset ''XSS-1'' demo_condition) (demo_request ''?q=%3CScript%3E'' [(''user-agent'', ''x'')]))
     = Inr [''XSS-1'']" by code_simp
qed (rule value_cache_transparent [OF demo_ruleset_compiles])

text \<open>
  A ruleset that the compiler accepts has at most 500 rules with distinct valid identifiers, and each
  of its conditions has at most 64 nodes in at most nine levels, with at most eight transforms per field
  and at most 2000 characters to compare with.
\<close>

theorem compiled_ruleset_bounded:
  assumes "compile_managed_ruleset engine doc = Inr rs"
  shows "length (mr_rules rs) \<le> 500 \<and> distinct (map (rm_rule_id \<circ> cr_match) (mr_rules rs))
    \<and> (\<forall>r \<in> set (mr_rules rs). any_rule_id_ok (rm_rule_id (cr_match r)) \<and> condition_nodes (cr_condition r) \<le> 64 \<and> condition_depth (cr_condition r) \<le> 9
        \<and> (\<forall>l \<in> set_condition (cr_condition r). length (lf_transforms l) \<le> 8 \<and> length (text_or_empty (lf_value l)) \<le> 2000))"
  using compile_ruleset_spec [OF assms] by (auto simp: rule_bounded_def)

theorem compiled_ruleset_bounded_witness:
  "length (mr_rules (demo_ruleset ''XSS-1'' demo_condition)) \<le> 500 \<and> length (mr_rules (demo_ruleset ''XSS-1'' demo_condition)) = 1"
proof
  show "length (mr_rules (demo_ruleset ''XSS-1'' demo_condition)) \<le> 500"
    using compiled_ruleset_bounded [OF demo_ruleset_compiles] by blast
  show "length (mr_rules (demo_ruleset ''XSS-1'' demo_condition)) = 1" by code_simp
qed

section \<open>What is blocked\<close>

lemma by_severity_set: "set (by_severity rank f g ms) = set ms"
  by (simp add: by_severity_def)

lemma by_severity_hd: "by_severity rank f g ms = m # rest \<Longrightarrow> m' \<in> set ms \<Longrightarrow> severity_rank (f m') \<le> severity_rank (f m)"
proof -
  assume eq: "by_severity rank f g ms = m # rest" and m: "m' \<in> set ms"
  have "sorted (map (\<lambda>m. 4 - severity_rank (f m)) (m # rest))" unfolding eq [symmetric] by_severity_def by (rule sorted_sort_key)
  moreover have "m' \<in> set (m # rest)" unfolding eq [symmetric] by_severity_set by (rule m)
  ultimately have "4 - severity_rank (f m) \<le> 4 - severity_rank (f m')" by auto
  moreover have "severity_rank (f x) \<le> 4" for x by (cases "f x") simp_all
  ultimately show ?thesis by (metis diff_le_mono2 diff_diff_cancel)
qed

text \<open>
  C35: a request is blocked exactly when the policy blocks and a rule of the selected ruleset that is not
  excluded matches it; the rule that is reported is not excluded and none of the matches is more severe.
\<close>

theorem managed_block_exact:
  assumes "inspect_managed_request rank reg rq p = Inr r"
  shows "(pn_status r = ProtectionBlocked \<longleftrightarrow> sp_mode p = ProtBlock \<and> (\<exists>rs found m. selected_ruleset reg p = Some rs \<and>
        inspect_ruleset rs rq = Inr found \<and> m \<in> set found \<and> rm_rule_id m \<notin> set (sp_excluded_rule_ids p)))
    \<and> (\<forall>m. primary_match r = Some m \<longrightarrow> rm_rule_id m \<notin> set (sp_excluded_rule_ids p) \<and>
        (\<forall>m' \<in> set (pn_matches r). severity_rank (rm_severity m') \<le> severity_rank (rm_severity m)))"
proof (cases "sp_mode p = ProtDisabled \<or> selected_ruleset reg p = None")
  case True
  then have "r = \<lparr>pn_status = ProtectionDisabled, pn_ruleset = None, pn_matches = []\<rparr>"
    using assms by (auto simp: inspect_managed_request_def Let_def split: if_splits)
  with True show ?thesis by auto
next
  case False
  then obtain rs where rs: "selected_ruleset reg p = Some rs" by auto
  define keep where "keep found = filter (\<lambda>m. rm_rule_id m \<notin> set (sp_excluded_rule_ids p)) found" for found :: "rule_match list"
  obtain found where f: "inspect_ruleset rs rq = Inr found"
    and r: "r = \<lparr>pn_status = (if by_severity rank rm_severity rm_rule_id (keep found) = [] then ProtectionClean
        else if sp_mode p = ProtBlock then ProtectionBlocked else ProtectionMonitored),
      pn_ruleset = Some (mr_id rs, mr_version rs), pn_matches = by_severity rank rm_severity rm_rule_id (keep found)\<rparr>"
    using assms False rs by (auto simp: inspect_managed_request_def Let_def checked_simps keep_def)
  have nil: "by_severity rank rm_severity rm_rule_id ms = [] \<longleftrightarrow> ms = []" for ms
    using by_severity_set [of rank rm_severity rm_rule_id ms] by (metis set_empty)
  have status: "pn_status r = ProtectionBlocked \<longleftrightarrow> sp_mode p = ProtBlock \<and> keep found \<noteq> []" unfolding r by (simp add: nil)
  have kept: "keep found \<noteq> [] \<longleftrightarrow> (\<exists>m \<in> set found. rm_rule_id m \<notin> set (sp_excluded_rule_ids p))"
    by (auto simp: keep_def filter_empty_conv)
  have first: "rm_rule_id m \<notin> set (sp_excluded_rule_ids p) \<and> (\<forall>m' \<in> set (pn_matches r). severity_rank (rm_severity m') \<le> severity_rank (rm_severity m))"
    if "primary_match r = Some m" for m
  proof -
    from that obtain rest where eq: "by_severity rank rm_severity rm_rule_id (keep found) = m # rest" by (auto simp: r split: list.splits)
    then have "m \<in> set (keep found)" using by_severity_set by (metis list.set_intros(1))
    moreover have "\<forall>m' \<in> set (keep found). severity_rank (rm_severity m') \<le> severity_rank (rm_severity m)"
      using by_severity_hd [where g = rm_rule_id, OF eq] by blast
    ultimately show ?thesis unfolding r by (simp add: by_severity_set keep_def)
  qed
  show ?thesis using status kept rs f first by auto
qed

definition demo_registry :: ruleset_registry where
  "demo_registry = \<lparr>rg_rulesets = [(''demo'', demo_ruleset ''XSS-1'' demo_condition)], rg_default_id = ''demo''\<rparr>"

definition demo_protection :: "string list \<Rightarrow> site_protection" where
  "demo_protection excluded = \<lparr>sp_mode = ProtBlock, sp_ruleset_id = ''default'', sp_excluded_rule_ids = excluded\<rparr>"

theorem managed_block_exact_witness:
  "map_sum id pn_status (inspect_managed_request length demo_registry (demo_request ''?q=1'' []) (demo_protection [])) = Inr ProtectionBlocked
    \<and> (\<exists>rs found m. selected_ruleset demo_registry (demo_protection []) = Some rs \<and> inspect_ruleset rs (demo_request ''?q=1'' []) = Inr found
         \<and> m \<in> set found)"
proof
  show s: "map_sum id pn_status (inspect_managed_request length demo_registry (demo_request ''?q=1'' []) (demo_protection [])) = Inr ProtectionBlocked"
    by code_simp
  then obtain r where r: "inspect_managed_request length demo_registry (demo_request ''?q=1'' []) (demo_protection []) = Inr r"
    "pn_status r = ProtectionBlocked"
    by (cases "inspect_managed_request length demo_registry (demo_request ''?q=1'' []) (demo_protection [])") auto
  show "\<exists>rs found m. selected_ruleset demo_registry (demo_protection []) = Some rs \<and> inspect_ruleset rs (demo_request ''?q=1'' []) = Inr found
         \<and> m \<in> set found"
    using managed_block_exact [OF r(1)] r(2) by blast
qed

section \<open>Two traps of rulesets\<close>

lemma resolved_exclusions:
  assumes "config_ok cf" and "i \<in> set (sp_excluded_rule_ids (ph_protection (resolve_http_policy nt cf sid stored route)))"
  shows "rule_id_ok i"
proof -
  have "site_policy_ok (raised cf) (stored_site_policy nt cf stored)" "\<And>j. route_policy_ok cf (stored_route_policy nt cf j)" "route_policy_ok cf default_route_policy"
    using stored_site_ok [OF assms(1)] stored_route_ok default_route_policy_ok by auto
  then have ok: "\<forall>i \<in> set (sp_excluded_rule_ids (sh_protection (stored_site_policy nt cf stored))). rule_id_ok i"
    "\<And>j. \<forall>i \<in> set (rt_excluded_rule_ids (rh_protection (stored_route_policy nt cf j))). rule_id_ok i"
    "\<forall>i \<in> set (rt_excluded_rule_ids (rh_protection default_route_policy)). rule_id_ok i"
    unfolding site_policy_ok_def route_policy_ok_def name_list_ok_def by blast+
  have "sp_excluded_rule_ids (ph_protection (resolve_http_policy nt cf sid stored route))
      = unique (sp_excluded_rule_ids (sh_protection (stored_site_policy nt cf stored))
          @ rt_excluded_rule_ids (rh_protection (case route of None \<Rightarrow> default_route_policy | Some (_, j) \<Rightarrow> stored_route_policy nt cf j)))"
    by (simp add: resolve_http_policy_def Let_def)
  then show ?thesis using assms(2) ok by (auto split: option.splits)
qed

text \<open>
  A rule whose identifier has a lower-case letter cannot be excluded: whatever exclusions a site and a
  route store, a match of that rule stays, and it blocks the request where the policy blocks.
\<close>

theorem lower_case_rule_never_excluded:
  assumes "config_ok cf" and "p = ph_protection (resolve_http_policy nt cf sid stored route)" and "sp_mode p = ProtBlock"
    and "selected_ruleset reg p = Some rs" and "inspect_ruleset rs rq = Inr found"
    and "m \<in> set found" and "\<exists>c \<in> set (rm_rule_id m). is_lower c"
  shows "map_sum id pn_status (inspect_managed_request rank reg rq p) = Inr ProtectionBlocked"
proof -
  have "\<not> is_lower c" if "rule_id_ok i" "c \<in> set i" for i c
  proof -
    have "is_upper c \<or> is_digit c \<or> c \<in> set ''._:-''" using that by (cases i) (auto simp: rule_id_ok_def)
    then show ?thesis by (auto simp: char_class_defs)
  qed
  then have "rm_rule_id m \<notin> set (sp_excluded_rule_ids p)" using resolved_exclusions [OF assms(1)] assms(2,7) by blast
  then have "filter (\<lambda>m. rm_rule_id m \<notin> set (sp_excluded_rule_ids p)) found \<noteq> []" using assms(6) by (auto simp: filter_empty_conv)
  then have "by_severity rank rm_severity rm_rule_id (filter (\<lambda>m. rm_rule_id m \<notin> set (sp_excluded_rule_ids p)) found) \<noteq> []"
    using by_severity_set by (metis set_empty)
  then show ?thesis using assms(3-5) by (simp add: inspect_managed_request_def Let_def checked_simps)
qed

definition demo_stored :: json where
  "demo_stored = JObject [(''protection'', JObject [(''mode'', JString ''block''), (''excludedRuleIds'', JArray [JString ''xss-1''])])]"

definition demo_lower_registry :: ruleset_registry where
  "demo_lower_registry = \<lparr>rg_rulesets = [(''demo'', demo_ruleset ''xss-1'' demo_condition)], rg_default_id = ''demo''\<rparr>"

theorem lower_case_rule_never_excluded_witness:
  "sp_excluded_rule_ids (ph_protection (resolve_http_policy (\<lambda>_. []) usual_config ''s'' (Some demo_stored) None)) = [''XSS-1'']
    \<and> map_sum id pn_status (inspect_managed_request length demo_lower_registry (demo_request [] [])
       (ph_protection (resolve_http_policy (\<lambda>_. []) usual_config ''s'' (Some demo_stored) None))) = Inr ProtectionBlocked"
proof
  let ?p = "ph_protection (resolve_http_policy (\<lambda>_. []) usual_config ''s'' (Some demo_stored) None)"
  show "sp_excluded_rule_ids ?p = [''XSS-1'']" by code_simp
  have mode: "sp_mode ?p = ProtBlock" by code_simp
  have sel: "selected_ruleset demo_lower_registry ?p = Some (demo_ruleset ''xss-1'' demo_condition)"
  proof -
    have "sp_ruleset_id ?p = ''default''" by code_simp
    then show ?thesis by (simp add: selected_ruleset_def demo_lower_registry_def om_get_def)
  qed
  have "map_sum id (map rm_rule_id) (inspect_ruleset (demo_ruleset ''xss-1'' demo_condition) (demo_request [] [])) = Inr [''xss-1'']" by code_simp
  then obtain m where m: "inspect_ruleset (demo_ruleset ''xss-1'' demo_condition) (demo_request [] []) = Inr [m]" "rm_rule_id m = ''xss-1''"
    by (cases "inspect_ruleset (demo_ruleset ''xss-1'' demo_condition) (demo_request [] [])") auto
  have low: "list_ex is_lower ''xss-1''" by code_simp
  show "map_sum id pn_status (inspect_managed_request length demo_lower_registry (demo_request [] []) ?p) = Inr ProtectionBlocked"
    using lower_case_rule_never_excluded [OF usual_config_ok(1) refl mode sel m(1)] low m(2) by (simp add: list_ex_iff)
qed

text \<open>
  The compiler accepts a rule on a header whose name is not an HTTP token, and inspecting any request
  with that ruleset throws.
\<close>

theorem header_name_not_checked:
  "\<exists>rs. compile_managed_ruleset engine (demo_ruleset_doc ''UA-1'' (JObject [(''field'', JString ''header''), (''header'', JString ''User Agent''),
       (''operator'', JString ''exists'')])) = Inr rs \<and> (\<forall>rq. inspect_ruleset rs rq = Inl ''Invalid header name'')"
proof -
  let ?c = "JObject [(''field'', JString ''header''), (''header'', JString ''User Agent''), (''operator'', JString ''exists'')]"
  define l where "l = \<lparr>lf_source = FieldHeader, lf_header = Some ''user agent'', lf_transforms = [], lf_operator = OpExists, lf_regex = None,
    lf_value = None, lf_case_insensitive = False, lf_negate = False\<rparr>"
  have name: "to_lower ''User Agent'' = ''user agent''" "trim ''User Agent'' \<noteq> []" by code_simp+
  have leaf: "compile_leaf engine ?c = Inr l"
    using name by (simp add: compile_leaf_def word_of_def field_source_text_def operator_text_def compile_header_def compile_transforms_def
        require_string_def checked_simps l_def)
  have cond: "compile_condition (compile_leaf engine) 9 ?c 0 = Inr (CondLeaf l, 1)"
    using leaf by (simp add: eval_nat_numeral checked_simps)
  have words: "any_rule_id_ok ''UA-1''" "ruleset_id_ok ''demo''" "trim ''UA-1'' \<noteq> []" "trim ''demo'' \<noteq> []" "trim ''Demo'' \<noteq> []"
    "trim ''Rule'' \<noteq> []" "trim ''xss'' \<noteq> []" "trim ''1'' \<noteq> []" by code_simp+
  define r where "r = \<lparr>cr_match = \<lparr>rm_rule_id = ''UA-1'', rm_title = ''Rule'', rm_category = ''xss'', rm_severity = High, rm_location = OnQuery\<rparr>,
    cr_condition = CondLeaf l\<rparr>"
  let ?r = "JObject [(''id'', JString ''UA-1''), (''title'', JString ''Rule''), (''category'', JString ''xss''),
       (''severity'', JString ''high''), (''location'', JString ''query''), (''match'', ?c)]"
  have rule: "compile_rule engine ?r [] = Inr r"
    using words cond by (simp add: compile_rule_def compile_rule_id_def require_string_def word_of_def severity_text_def location_text_def
        enabled_ok_def checked_simps r_def)
  have rules: "compile_rules engine [?r] [] = Inr [r]" using rule by (simp add: checked_simps)
  have doc: "compile_managed_ruleset engine (demo_ruleset_doc ''UA-1'' ?c)
      = Inr \<lparr>mr_id = ''demo'', mr_title = ''Demo'', mr_version = ''1'', mr_description = [], mr_rules = [r]\<rparr>"
    using words rules by (simp add: compile_managed_ruleset_def demo_ruleset_doc_def require_string_def checked_simps del: compile_rules.simps)
  have "\<not> http_token ''user agent''" by code_simp
  then have "inspect_rules rq [r] [] = Inl ''Invalid header name''" for rq
    by (simp add: r_def l_def evaluate_leaf_def raw_field_def text_or_empty_def and_then_def)
  with doc show ?thesis by (auto simp: inspect_ruleset_def)
qed

end
