(* ===== verification/Stream_Protection.thy ===== *)
theory Stream_Protection
  imports Managed_Protection
begin

text \<open>
  Protection of TCP and UDP streams: the compiler of stream rulesets
  (\<open>services/stream-ruleset-compiler.ts\<close>, \<open>stream-ruleset-format.ts\<close>), the inspection of a connection
  (\<open>services/stream-protection-service.ts\<close>), the stored policies (\<open>stream-protection-policy-service.ts\<close>,
  \<open>stream-bandwidth-policy-service.ts\<close>) and the decoder of the first packets of a Minecraft connection
  (\<open>stream-protocol-decoders/minecraft-java.ts\<close>). The shape of conditions is the one of the rules for
  requests. The text of a number, the regular-expression engine, the order of \<open>localeCompare\<close> and the
  UTF-8 decoder are arguments.
\<close>

section \<open>Rules\<close>

datatype field_content = FieldNumber rat | FieldFlag bool | FieldText string

type_synonym stream_fields = "string \<rightharpoonup> field_content"

datatype stream_operator = SoRegex | SoContains | SoEquals | SoStartsWith | SoEndsWith | SoExists | SoNotEmpty | SoGt | SoGte | SoLt | SoLte

datatype stream_location = OnConnection | OnHandshake | OnLogin

record stream_leaf =
  sl_field :: string
  sl_transforms :: "rule_transform list"
  sl_operator :: stream_operator
  sl_regex :: "(string \<Rightarrow> bool) option"
  sl_value :: "string option"
  sl_case_insensitive :: bool
  sl_negate :: bool

record stream_match =
  sm_rule_id :: string
  sm_ruleset_id :: string
  sm_title :: string
  sm_category :: string
  sm_severity :: severity
  sm_location :: stream_location

record stream_rule =
  su_match :: stream_match
  su_condition :: "stream_leaf condition"

record stream_ruleset =
  sset_id :: string
  sset_title :: string
  sset_version :: string
  sset_description :: string
  sset_protocol :: string
  sset_timeout_ms :: int
  sset_max_bytes :: int
  sset_rules :: "stream_rule list"

definition generic_stream_fields :: "string list" where
  "generic_stream_fields = [''connection.protocol'', ''connection.attempts_60s'', ''connection.disconnects_60s'',
     ''connection.avg_session_ms_60s'', ''connection.upstream_failures_60s'', ''connection.bytes_per_second'',
     ''connection.packets_per_second'', ''connection.zero_byte_disconnect'']"

definition stream_protocol_fields :: "string \<Rightarrow> string list option" where
  "stream_protocol_fields protocol =
     (if protocol = ''generic'' then Some generic_stream_fields
      else if protocol = ''minecraft-java'' then Some (generic_stream_fields @ [''handshake_valid'', ''protocol_version'',
        ''server_address'', ''server_address_length'', ''next_state'', ''username'', ''username_length''])
      else None)"

definition stream_operator_text :: "stream_operator \<Rightarrow> string" where
  "stream_operator_text p = (case p of SoRegex \<Rightarrow> ''regex'' | SoContains \<Rightarrow> ''contains'' | SoEquals \<Rightarrow> ''equals''
     | SoStartsWith \<Rightarrow> ''starts-with'' | SoEndsWith \<Rightarrow> ''ends-with'' | SoExists \<Rightarrow> ''exists'' | SoNotEmpty \<Rightarrow> ''not-empty''
     | SoGt \<Rightarrow> ''gt'' | SoGte \<Rightarrow> ''gte'' | SoLt \<Rightarrow> ''lt'' | SoLte \<Rightarrow> ''lte'')"

definition stream_operators :: "stream_operator list" where
  "stream_operators = [SoRegex, SoContains, SoEquals, SoStartsWith, SoEndsWith, SoExists, SoNotEmpty, SoGt, SoGte, SoLt, SoLte]"

definition compile_stream_transforms :: "js_value \<Rightarrow> rule_transform list checked" where
  "compile_stream_transforms v =
     (case v of
        None \<Rightarrow> Inr []
      | Some (JArray xs) \<Rightarrow>
          if 8 < length xs then Inl ''at most 8 transforms allowed''
          else check_all (\<lambda>x. word_of transform_text [Lowercase, Uppercase, TrimText, CollapseWhitespace] ''unknown transform'' (Some x)) xs
      | _ \<Rightarrow> Inl ''transforms must be an array'')"

definition compile_stream_leaf :: "regex_engine \<Rightarrow> string list \<Rightarrow> json \<Rightarrow> stream_leaf checked" where
  "compile_stream_leaf engine known input =
     and_then (word_of id known ''unknown field'' (j_get input ''field'')) (\<lambda>field.
     and_then (word_of stream_operator_text stream_operators ''unknown operator'' (j_get input ''operator'')) (\<lambda>operation.
     and_then (compile_stream_transforms (j_get input ''transforms'')) (\<lambda>transforms.
     and_then (if operation = SoRegex then and_then (compile_regex engine input) (\<lambda>r. Inr (Some r)) else Inr None) (\<lambda>regex.
     and_then (if operation \<in> {SoRegex, SoExists, SoNotEmpty} then Inr None
       else and_then (require_string (j_get input ''value'') 2000 True) (\<lambda>v. Inr (Some v))) (\<lambda>operand.
     Inr \<lparr>sl_field = field, sl_transforms = transforms, sl_operator = operation, sl_regex = regex, sl_value = operand,
       sl_case_insensitive = (j_get input ''caseInsensitive'' = Some (JBool True)),
       sl_negate = (j_get input ''negate'' = Some (JBool True))\<rparr>)))))"

definition stream_location_text :: "stream_location \<Rightarrow> string" where
  "stream_location_text l = (case l of OnConnection \<Rightarrow> ''connection'' | OnHandshake \<Rightarrow> ''handshake'' | OnLogin \<Rightarrow> ''login'')"

definition compile_stream_condition :: "regex_engine \<Rightarrow> string list \<Rightarrow> json \<Rightarrow> (stream_leaf condition \<times> nat) checked" where
  "compile_stream_condition engine known input = compile_condition (compile_stream_leaf engine known) 9 input 0"

definition compile_stream_rule :: "regex_engine \<Rightarrow> string list \<Rightarrow> string \<Rightarrow> json \<Rightarrow> string list \<Rightarrow> stream_rule checked" where
  "compile_stream_rule engine known ruleset input seen =
     (case input of
        JObject fs \<Rightarrow>
          and_then (compile_rule_id input seen) (\<lambda>i.
          and_then (word_of severity_text [Low, Medium, High, Critical] ''severity must be low, medium, high or critical''
            (j_get input ''severity'')) (\<lambda>severity.
          and_then (word_of stream_location_text [OnConnection, OnHandshake, OnLogin] ''location must be connection, handshake or login''
            (j_get input ''location'')) (\<lambda>location.
          if \<not> enabled_ok input then Inl ''enabled must be a boolean''
          else
          and_then (require_string (j_get input ''title'') 256 False) (\<lambda>title.
          and_then (require_string (j_get input ''category'') 128 False) (\<lambda>category.
          and_then (compile_stream_condition engine known (case j_get input ''match'' of None \<Rightarrow> JNull | Some m \<Rightarrow> m)) (\<lambda>(c, n).
          Inr \<lparr>su_match = \<lparr>sm_rule_id = i, sm_ruleset_id = ruleset, sm_title = title, sm_category = category,
            sm_severity = severity, sm_location = location\<rparr>, su_condition = c\<rparr>))))))
      | _ \<Rightarrow> Inl ''rule must be an object'')"

fun compile_stream_rules :: "regex_engine \<Rightarrow> string list \<Rightarrow> string \<Rightarrow> json list \<Rightarrow> string list \<Rightarrow> stream_rule list checked" where
  "compile_stream_rules engine known ruleset [] seen = Inr []"
| "compile_stream_rules engine known ruleset (r # rs) seen =
     and_then (compile_stream_rule engine known ruleset r seen) (\<lambda>c.
     and_then (compile_stream_rules engine known ruleset rs (sm_rule_id (su_match c) # seen)) (\<lambda>cs.
     Inr (if j_get r ''enabled'' = Some (JBool False) then cs else c # cs)))"

definition decode_limit :: "(rat \<Rightarrow> string) \<Rightarrow> js_value \<Rightarrow> int \<Rightarrow> int \<Rightarrow> int \<Rightarrow> int checked" where
  "decode_limit nt v fallback lo hi =
     (if v = None then Inr fallback
      else case js_integer_in nt lo hi v of None \<Rightarrow> Inl ''must be an integer within its bounds'' | Some i \<Rightarrow> Inr i)"

definition compile_decode :: "(rat \<Rightarrow> string) \<Rightarrow> js_value \<Rightarrow> (int \<times> int) checked" where
  "compile_decode nt v =
     (case v of
        None \<Rightarrow> Inr (3000, 2048)
      | Some (JObject fs) \<Rightarrow>
          and_then (decode_limit nt (map_of fs ''timeoutMs'') 3000 100 30000) (\<lambda>t.
          and_then (decode_limit nt (map_of fs ''maxBytes'') 2048 64 65536) (\<lambda>m. Inr (t, m)))
      | _ \<Rightarrow> Inl ''decode must be an object'')"

definition compile_stream_ruleset :: "(rat \<Rightarrow> string) \<Rightarrow> regex_engine \<Rightarrow> json \<Rightarrow> stream_ruleset checked" where
  "compile_stream_ruleset nt engine doc =
     (case doc of
        JObject fs \<Rightarrow>
          and_then (require_string (j_get doc ''schemaVersion'') 4096 False) (\<lambda>schema.
          if schema \<noteq> ''1'' then Inl ''unsupported schemaVersion''
          else
          and_then (require_string (j_get doc ''id'') 128 False) (\<lambda>i.
          if \<not> ruleset_id_ok i then Inl ''ruleset id has invalid characters''
          else
          and_then (require_string (j_get doc ''title'') 256 False) (\<lambda>title.
          and_then (require_string (j_get doc ''version'') 64 False) (\<lambda>version.
          and_then (if j_get doc ''description'' = None then Inr [] else require_string (j_get doc ''description'') 4096 True) (\<lambda>description.
          and_then (require_string (j_get doc ''protocol'') 64 False) (\<lambda>protocol.
          (case stream_protocol_fields protocol of
             None \<Rightarrow> Inl ''unknown protocol''
           | Some known \<Rightarrow>
               and_then (compile_decode nt (j_get doc ''decode'')) (\<lambda>(timeout, bytes).
               (case j_get doc ''rules'' of
                  Some (JArray rs) \<Rightarrow>
                    if rs = [] then Inl ''ruleset must contain at least one rule''
                    else if 500 < length rs then Inl ''ruleset has more than 500 rules''
                    else and_then (compile_stream_rules engine known i rs []) (\<lambda>cs.
                      Inr \<lparr>sset_id = i, sset_title = title, sset_version = version, sset_description = description,
                        sset_protocol = protocol, sset_timeout_ms = timeout, sset_max_bytes = bytes, sset_rules = cs\<rparr>)
                | _ \<Rightarrow> Inl ''rules must be an array'')))))))))
      | _ \<Rightarrow> Inl ''document must be an object'')"

section \<open>Evaluating the rules\<close>

definition field_text :: "(rat \<Rightarrow> string) \<Rightarrow> field_content option \<Rightarrow> string" where
  "field_text nt v = (case v of None \<Rightarrow> [] | Some (FieldFlag b) \<Rightarrow> if b then ''true'' else ''false''
     | Some (FieldNumber r) \<Rightarrow> nt r | Some (FieldText s) \<Rightarrow> s)"

definition stream_value :: "(rat \<Rightarrow> string) \<Rightarrow> stream_leaf \<Rightarrow> stream_fields \<Rightarrow> string" where
  "stream_value nt l vals = foldl apply_transform (take 4096 (field_text nt (vals (sl_field l)))) (sl_transforms l)"

fun js_less :: "jsnum \<Rightarrow> jsnum \<Rightarrow> bool" where
  "js_less (Fin a) (Fin b) \<longleftrightarrow> a < b"
| "js_less (Infinite negative) (Fin b) \<longleftrightarrow> negative"
| "js_less (Fin a) (Infinite negative) \<longleftrightarrow> \<not> negative"
| "js_less (Infinite n) (Infinite m) \<longleftrightarrow> n \<and> \<not> m"
| "js_less _ _ \<longleftrightarrow> False"

definition compare_with :: "(jsnum \<Rightarrow> jsnum \<Rightarrow> bool) \<Rightarrow> string \<Rightarrow> string option \<Rightarrow> bool" where
  "compare_with f v operand =
     (let a = js_number v; b = (case operand of None \<Rightarrow> Fin 0 | Some t \<Rightarrow> js_number t) in
      a \<noteq> NaN \<and> b \<noteq> NaN \<and> f a b)"

definition stream_operator_holds :: "stream_leaf \<Rightarrow> string \<Rightarrow> bool" where
  "stream_operator_holds l v =
     (let cmp = (\<lambda>f. compare_text f (sl_case_insensitive l) (sl_value l) v) in
      case sl_operator l of
        SoRegex \<Rightarrow> (case sl_regex l of None \<Rightarrow> False | Some r \<Rightarrow> r v)
      | SoNotEmpty \<Rightarrow> v \<noteq> []
      | SoContains \<Rightarrow> cmp contains
      | SoEquals \<Rightarrow> cmp (=)
      | SoStartsWith \<Rightarrow> cmp starts_with
      | SoEndsWith \<Rightarrow> cmp ends_with
      | SoGt \<Rightarrow> compare_with (\<lambda>a b. js_less b a) v (sl_value l)
      | SoGte \<Rightarrow> compare_with (\<lambda>a b. \<not> js_less a b) v (sl_value l)
      | SoLt \<Rightarrow> compare_with js_less v (sl_value l)
      | SoLte \<Rightarrow> compare_with (\<lambda>a b. \<not> js_less b a) v (sl_value l)
      | SoExists \<Rightarrow> False)"

text \<open>A field that has not been decoded matches no operator but \<open>exists\<close>, negated or not.\<close>

definition evaluate_stream_leaf :: "(rat \<Rightarrow> string) \<Rightarrow> stream_fields \<Rightarrow> stream_leaf \<Rightarrow> bool" where
  "evaluate_stream_leaf nt vals l =
     (let here = (vals (sl_field l) \<noteq> None) in
      if sl_operator l = SoExists then here \<noteq> sl_negate l
      else if \<not> here then False
      else stream_operator_holds l (stream_value nt l vals) \<noteq> sl_negate l)"

fun evaluate_stream_condition :: "(rat \<Rightarrow> string) \<Rightarrow> stream_fields \<Rightarrow> stream_leaf condition \<Rightarrow> bool" where
  "evaluate_stream_condition nt vals (CondLeaf l) = evaluate_stream_leaf nt vals l"
| "evaluate_stream_condition nt vals (CondAll cs) = list_all (evaluate_stream_condition nt vals) cs"
| "evaluate_stream_condition nt vals (CondAny cs) = list_ex (evaluate_stream_condition nt vals) cs"
| "evaluate_stream_condition nt vals (CondNot t) = (\<not> evaluate_stream_condition nt vals t)"

definition inspect_stream_ruleset :: "(rat \<Rightarrow> string) \<Rightarrow> stream_fields \<Rightarrow> stream_ruleset \<Rightarrow> stream_match list" where
  "inspect_stream_ruleset nt vals rs =
     map su_match (filter (\<lambda>r. evaluate_stream_condition nt vals (su_condition r)) (sset_rules rs))"

section \<open>The registry and the inspection of a connection\<close>

type_synonym stream_registry = "(string, stream_ruleset) omap"

definition register_stream_ruleset :: "stream_ruleset \<Rightarrow> stream_registry \<Rightarrow> stream_registry checked" where
  "register_stream_ruleset rs reg =
     (if \<not> ruleset_id_ok (sset_id rs) then Inl ''Stream ruleset ID is invalid''
      else if trim (sset_title rs) = [] \<or> trim (sset_version rs) = [] then Inl ''Stream ruleset title and version are required''
      else Inr (om_set (sset_id rs) rs reg))"

definition stream_decode_protocols :: "stream_registry \<Rightarrow> string list \<Rightarrow> string list" where
  "stream_decode_protocols reg ids =
     unique (filter (\<lambda>p. p \<noteq> ''generic'') (map sset_protocol (List.map_filter (om_get reg) ids)))"

definition stream_decode_config_for :: "stream_registry \<Rightarrow> string list \<Rightarrow> string \<Rightarrow> (int \<times> int) option" where
  "stream_decode_config_for reg ids protocol =
     (let rss = filter (\<lambda>r. sset_protocol r = protocol) (List.map_filter (om_get reg) ids) in
      if rss = [] then None
      else Some (foldl max 0 (map sset_timeout_ms rss), foldl max 0 (map sset_max_bytes rss)))"

datatype stream_mode = StreamOff | StreamMonitor | StreamBlock

record stream_protection =
  tp_mode :: stream_mode
  tp_ruleset_ids :: "string list"
  tp_excluded_rule_ids :: "string list"
  tp_ban_durations :: "int ban_durations_of"

record stream_result =
  tr_status :: protection_status
  tr_matches :: "stream_match list"

abbreviation stream_primary_match :: "stream_result \<Rightarrow> stream_match option" where
  "stream_primary_match r \<equiv> (case tr_matches r of [] \<Rightarrow> None | m # _ \<Rightarrow> Some m)"

text \<open>The matches of the rulesets the policy names, without the excluded rules; unknown rulesets are skipped.\<close>

definition stream_matches :: "(rat \<Rightarrow> string) \<Rightarrow> stream_registry \<Rightarrow> stream_fields \<Rightarrow> stream_protection \<Rightarrow> stream_match list" where
  "stream_matches nt reg vals p =
     concat (map (\<lambda>i. case om_get reg i of None \<Rightarrow> []
       | Some rs \<Rightarrow> filter (\<lambda>m. sm_rule_id m \<notin> set (tp_excluded_rule_ids p)) (inspect_stream_ruleset nt vals rs)) (tp_ruleset_ids p))"

definition inspect_stream_connection ::
  "(rat \<Rightarrow> string) \<Rightarrow> (string \<Rightarrow> nat) \<Rightarrow> stream_registry \<Rightarrow> stream_fields \<Rightarrow> stream_protection \<Rightarrow> stream_result" where
  "inspect_stream_connection nt rank reg vals p =
     (if tp_mode p = StreamOff \<or> tp_ruleset_ids p = [] then \<lparr>tr_status = ProtectionDisabled, tr_matches = []\<rparr>
      else
        let ms = by_severity rank sm_severity sm_rule_id (stream_matches nt reg vals p) in
        \<lparr>tr_status = (if ms = [] then ProtectionClean else if tp_mode p = StreamBlock then ProtectionBlocked else ProtectionMonitored),
         tr_matches = ms\<rparr>)"

section \<open>Loading the rulesets\<close>

text \<open>
  As for requests, but a stream ruleset is never the default one and nothing is registered when no file can
  be loaded. The result has the identifiers of the loaded rulesets and the names of the files that failed.
\<close>

record stream_load =
  tl_loaded :: "(string \<times> string) list"
  tl_failed :: "string list"
  tl_registry :: stream_registry

definition load_stream_file ::
  "(rat \<Rightarrow> string) \<Rightarrow> regex_engine \<Rightarrow> string \<times> json option \<Rightarrow> stream_load \<Rightarrow> stream_load" where
  "load_stream_file nt engine file res =
     (let failed = res\<lparr>tl_failed := tl_failed res @ [fst file]\<rparr> in
      case snd file of
        None \<Rightarrow> failed
      | Some doc \<Rightarrow> (case compile_stream_ruleset nt engine doc of
          Inl _ \<Rightarrow> failed
        | Inr rs \<Rightarrow>
            if sset_id rs \<in> snd ` set (tl_loaded res) then failed
            else (case register_stream_ruleset rs (tl_registry res) of
                Inl _ \<Rightarrow> failed
              | Inr reg \<Rightarrow> res\<lparr>tl_loaded := tl_loaded res @ [(fst file, sset_id rs)], tl_registry := reg\<rparr>)))"

definition load_stream_rulesets ::
  "(rat \<Rightarrow> string) \<Rightarrow> regex_engine \<Rightarrow> (string \<times> json option) list \<Rightarrow> stream_registry \<Rightarrow> stream_load" where
  "load_stream_rulesets nt engine files reg =
     fold (load_stream_file nt engine) files \<lparr>tl_loaded = [], tl_failed = [], tl_registry = reg\<rparr>"

section \<open>Stored policies\<close>

definition default_stream_protection :: stream_protection where
  "default_stream_protection = \<lparr>tp_mode = StreamOff, tp_ruleset_ids = [], tp_excluded_rule_ids = [],
     tp_ban_durations = \<lparr>bd_low = 0, bd_medium = 600, bd_high = 3600, bd_critical = 86400\<rparr>\<rparr>"

definition stream_mode_text :: "stream_mode \<Rightarrow> string" where
  "stream_mode_text m = (case m of StreamOff \<Rightarrow> ''disabled'' | StreamMonitor \<Rightarrow> ''monitor'' | StreamBlock \<Rightarrow> ''block'')"

definition stream_protection_mode :: "(rat \<Rightarrow> string) \<Rightarrow> js_value \<Rightarrow> stream_mode \<Rightarrow> stream_mode checked" where
  "stream_protection_mode nt v fallback =
     (case v of
        None \<Rightarrow> Inr fallback
      | Some x \<Rightarrow> word_of stream_mode_text [StreamOff, StreamMonitor, StreamBlock]
          ''Stream protection mode must be disabled, monitor, or block'' (Some (JString (to_lower (trim (js_string nt x))))))"

definition stream_ruleset_ids :: "(rat \<Rightarrow> string) \<Rightarrow> js_value \<Rightarrow> string list \<Rightarrow> string list checked" where
  "stream_ruleset_ids nt v fallback =
     (case v of
        None \<Rightarrow> Inr fallback
      | Some (JArray xs) \<Rightarrow>
          (let ids = unique (filter (\<lambda>s. s \<noteq> []) (map (\<lambda>x. to_lower (trim (js_string nt x))) xs)) in
           if 32 < length ids then Inl ''Stream protection supports at most 32 enabled rulesets''
           else if list_all ruleset_id_ok ids then Inr ids
           else Inl ''Invalid stream ruleset ID'')
      | _ \<Rightarrow> Inl ''Stream protection ruleset selection must be an array'')"

definition stream_excluded_ids :: "(rat \<Rightarrow> string) \<Rightarrow> js_value \<Rightarrow> string list \<Rightarrow> string list checked" where
  "stream_excluded_ids nt v fallback =
     (if v = None then Inr fallback
      else if is_absent v then Inr []
      else
        let ids = unique (filter (\<lambda>s. s \<noteq> []) (map (\<lambda>t. to_upper (trim t)) (raw_items nt v))) in
        if 256 < length ids then Inl ''Stream protection supports at most 256 excluded rule IDs''
        else if list_all rule_id_ok ids then Inr ids
        else Inl ''Invalid stream protection rule ID'')"

definition ban_duration_value :: "(rat \<Rightarrow> string) \<Rightarrow> js_value \<Rightarrow> int \<Rightarrow> int checked" where
  "ban_duration_value nt v fallback =
     (case (if v = None then Some fallback else js_integer (js_to_number nt v)) of
        None \<Rightarrow> Inl ''must be an integer from 0 to 2592000''
      | Some i \<Rightarrow> if i < 0 \<or> max_ban_duration_seconds < i then Inl ''must be an integer from 0 to 2592000'' else Inr i)"

definition stream_ban_durations :: "(rat \<Rightarrow> string) \<Rightarrow> js_value \<Rightarrow> int ban_durations_of \<Rightarrow> int ban_durations_of checked" where
  "stream_ban_durations nt v fallback =
     (let i = input_object v in
      and_then (ban_duration_value nt (j_get i ''low'') (bd_low fallback)) (\<lambda>l.
      and_then (ban_duration_value nt (j_get i ''medium'') (bd_medium fallback)) (\<lambda>m.
      and_then (ban_duration_value nt (j_get i ''high'') (bd_high fallback)) (\<lambda>h.
      and_then (ban_duration_value nt (j_get i ''critical'') (bd_critical fallback)) (\<lambda>c.
      Inr \<lparr>bd_low = l, bd_medium = m, bd_high = h, bd_critical = c\<rparr>)))))"

definition parse_stream_protection :: "(rat \<Rightarrow> string) \<Rightarrow> js_value \<Rightarrow> stream_protection \<Rightarrow> stream_protection checked" where
  "parse_stream_protection nt v fallback =
     (let i = input_object v in
      and_then (stream_protection_mode nt (j_get i ''mode'') (tp_mode fallback)) (\<lambda>m.
      and_then (stream_ruleset_ids nt (j_get i ''rulesetIds'') (tp_ruleset_ids fallback)) (\<lambda>r.
      and_then (stream_excluded_ids nt (j_get i ''excludedRuleIds'') (tp_excluded_rule_ids fallback)) (\<lambda>x.
      and_then (stream_ban_durations nt (j_get i ''banDurations'') (tp_ban_durations fallback)) (\<lambda>b.
      Inr \<lparr>tp_mode = m, tp_ruleset_ids = r, tp_excluded_rule_ids = x, tp_ban_durations = b\<rparr>)))))"

text \<open>The column as \<open>JSON.parse\<close> gives it; text that is not JSON counts as no column.\<close>

definition stored_stream_protection :: "(rat \<Rightarrow> string) \<Rightarrow> json option \<Rightarrow> stream_protection" where
  "stored_stream_protection nt column =
     (case parse_stream_protection nt column default_stream_protection of
        Inl _ \<Rightarrow> default_stream_protection | Inr p \<Rightarrow> p)"

definition stream_protection_json :: "stream_protection \<Rightarrow> json" where
  "stream_protection_json p = JObject
     [(''mode'', JString (stream_mode_text (tp_mode p))), (''rulesetIds'', json_strings (tp_ruleset_ids p)),
      (''excludedRuleIds'', json_strings (tp_excluded_rule_ids p)), (''banDurations'', ban_durations_json json_int (tp_ban_durations p))]"

definition serialize_stream_protection :: "(rat \<Rightarrow> string) \<Rightarrow> js_value \<Rightarrow> json option \<Rightarrow> json checked" where
  "serialize_stream_protection nt input column =
     (case input of
        None \<Rightarrow> Inr (stream_protection_json (stored_stream_protection nt column))
      | Some JNull \<Rightarrow> Inr (stream_protection_json default_stream_protection)
      | _ \<Rightarrow> and_then (object_value input ''Stream protection policy must be an object'') (\<lambda>i.
               and_then (parse_stream_protection nt (Some i) (stored_stream_protection nt column)) (\<lambda>p.
               Inr (stream_protection_json p))))"

section \<open>Bandwidth policies\<close>

record stream_bandwidth =
  tb_tcp :: "(bool, int) bandwidth_of"
  tb_udp :: "(bool, int) bandwidth_of"

definition default_stream_limit :: "(bool, int) bandwidth_of" where
  "default_stream_limit = \<lparr>bw_enabled = False, bw_max_bytes = 50 * 1024 * 1024, bw_window_seconds = 60, bw_ban_seconds = 3600\<rparr>"

definition default_stream_bandwidth :: stream_bandwidth where
  "default_stream_bandwidth = \<lparr>tb_tcp = default_stream_limit, tb_udp = default_stream_limit\<rparr>"

definition stream_limit_integer :: "(rat \<Rightarrow> string) \<Rightarrow> js_value \<Rightarrow> string \<Rightarrow> int \<Rightarrow> int \<Rightarrow> int \<Rightarrow> int checked" where
  "stream_limit_integer nt v label fallback minimum maximum =
     (case (if v = None then Some fallback else js_safe_integer (js_to_number nt v)) of
        None \<Rightarrow> Inl label
      | Some i \<Rightarrow> if i < minimum \<or> maximum < i then Inl label else Inr i)"

definition parse_stream_limit :: "(rat \<Rightarrow> string) \<Rightarrow> js_value \<Rightarrow> (bool, int) bandwidth_of \<Rightarrow> (bool, int) bandwidth_of checked" where
  "parse_stream_limit nt v fallback =
     (let i = input_object v in
      and_then (bandwidth_limit_boolean (j_get i ''enabled'') (bw_enabled fallback)) (\<lambda>e.
      and_then (stream_limit_integer nt (j_get i ''maxBytes'') ''Bandwidth limit threshold'' (bw_max_bytes fallback) 1 max_bandwidth_limit_bytes) (\<lambda>b.
      and_then (stream_limit_integer nt (j_get i ''windowSeconds'') ''Bandwidth limit window'' (bw_window_seconds fallback)
        1 max_bandwidth_limit_window_seconds) (\<lambda>w.
      and_then (stream_limit_integer nt (j_get i ''banSeconds'') ''Bandwidth limit ban duration'' (bw_ban_seconds fallback)
        0 max_ban_duration_seconds) (\<lambda>s.
      Inr \<lparr>bw_enabled = e, bw_max_bytes = b, bw_window_seconds = w, bw_ban_seconds = s\<rparr>)))))"

definition parse_stream_bandwidth :: "(rat \<Rightarrow> string) \<Rightarrow> js_value \<Rightarrow> stream_bandwidth \<Rightarrow> stream_bandwidth checked" where
  "parse_stream_bandwidth nt v fallback =
     (let i = input_object v in
      and_then (parse_stream_limit nt (j_get i ''tcp'') (tb_tcp fallback)) (\<lambda>t.
      and_then (parse_stream_limit nt (j_get i ''udp'') (tb_udp fallback)) (\<lambda>u.
      Inr \<lparr>tb_tcp = t, tb_udp = u\<rparr>)))"

definition stored_stream_bandwidth :: "(rat \<Rightarrow> string) \<Rightarrow> json option \<Rightarrow> stream_bandwidth" where
  "stored_stream_bandwidth nt column =
     (case parse_stream_bandwidth nt column default_stream_bandwidth of
        Inl _ \<Rightarrow> default_stream_bandwidth | Inr p \<Rightarrow> p)"

definition stream_bandwidth_json :: "stream_bandwidth \<Rightarrow> json" where
  "stream_bandwidth_json p = JObject
     [(''tcp'', bandwidth_json JBool json_int (tb_tcp p)), (''udp'', bandwidth_json JBool json_int (tb_udp p))]"

definition serialize_stream_bandwidth :: "(rat \<Rightarrow> string) \<Rightarrow> js_value \<Rightarrow> json option \<Rightarrow> json checked" where
  "serialize_stream_bandwidth nt input column =
     (case input of
        None \<Rightarrow> Inr (stream_bandwidth_json (stored_stream_bandwidth nt column))
      | Some JNull \<Rightarrow> Inr (stream_bandwidth_json default_stream_bandwidth)
      | _ \<Rightarrow> and_then (object_value input ''Stream bandwidth limit policy must be an object'') (\<lambda>i.
               and_then (parse_stream_bandwidth nt (Some i) (stored_stream_bandwidth nt column)) (\<lambda>p.
               Inr (stream_bandwidth_json p))))"

text \<open>The policies resolved so far by stream, with the column they were read from.\<close>

type_synonym bandwidth_memo = "(string, json option \<times> stream_bandwidth) omap"

definition resolve_stream_bandwidth ::
  "(rat \<Rightarrow> string) \<Rightarrow> string \<Rightarrow> json option \<Rightarrow> bandwidth_memo \<Rightarrow> stream_bandwidth \<times> bandwidth_memo" where
  "resolve_stream_bandwidth nt stream column memo =
     (case om_get memo stream of
        Some (raw, p) \<Rightarrow>
          if raw = column then (p, memo)
          else (stored_stream_bandwidth nt column, om_set stream (column, stored_stream_bandwidth nt column) memo)
      | None \<Rightarrow> (stored_stream_bandwidth nt column, om_set stream (column, stored_stream_bandwidth nt column) memo))"

section \<open>Policies are read back as they were written\<close>

definition stream_protection_ok :: "stream_protection \<Rightarrow> bool" where
  "stream_protection_ok p \<longleftrightarrow> name_list_ok 32 ruleset_id_ok (tp_ruleset_ids p)
     \<and> name_list_ok 256 rule_id_ok (tp_excluded_rule_ids p) \<and> ban_durations_ok always (tp_ban_durations p)"

definition stream_bandwidth_ok :: "stream_bandwidth \<Rightarrow> bool" where
  "stream_bandwidth_ok p \<longleftrightarrow> bandwidth_ok always (tb_tcp p) \<and> bandwidth_ok always (tb_udp p)"

lemma default_stream_policies_ok: "stream_protection_ok default_stream_protection" "stream_bandwidth_ok default_stream_bandwidth"
  by (simp_all add: stream_protection_ok_def default_stream_protection_def ban_durations_ok_def bound_defs
      stream_bandwidth_ok_def default_stream_bandwidth_def default_stream_limit_def bandwidth_ok_def)

lemma stream_ruleset_ids_ok:
  "stream_ruleset_ids nt v fallback = Inr ids \<Longrightarrow> name_list_ok 32 ruleset_id_ok fallback \<Longrightarrow> name_list_ok 32 ruleset_id_ok ids"
  by (auto simp: stream_ruleset_ids_def name_list_ok_def Let_def list_all_iff split: option.splits json.splits if_splits)

lemma stream_excluded_ids_ok:
  "stream_excluded_ids nt v fallback = Inr ids \<Longrightarrow> name_list_ok 256 rule_id_ok fallback \<Longrightarrow> name_list_ok 256 rule_id_ok ids"
  by (auto simp: stream_excluded_ids_def name_list_ok_def Let_def list_all_iff split: if_splits)

lemma ban_duration_value_ok: "ban_duration_value nt v fallback = Inr i \<Longrightarrow> 0 \<le> i \<and> i \<le> max_ban_duration_seconds"
  by (auto simp: ban_duration_value_def split: option.splits if_splits)

lemma stream_limit_integer_ok: "stream_limit_integer nt v label fallback lo hi = Inr i \<Longrightarrow> lo \<le> i \<and> i \<le> hi"
  by (auto simp: stream_limit_integer_def split: option.splits if_splits)

lemma stream_ban_durations_ok: "stream_ban_durations nt v fallback = Inr d \<Longrightarrow> ban_durations_ok always d"
  by (auto simp: stream_ban_durations_def checked_simps Let_def ban_durations_ok_def dest!: ban_duration_value_ok)

lemma parse_stream_protection_ok:
  "parse_stream_protection nt v fallback = Inr p \<Longrightarrow> stream_protection_ok fallback \<Longrightarrow> stream_protection_ok p"
  by (auto simp: parse_stream_protection_def checked_simps Let_def stream_protection_ok_def
      dest: stream_ruleset_ids_ok stream_excluded_ids_ok stream_ban_durations_ok)

lemma parse_stream_limit_ok: "parse_stream_limit nt v fallback = Inr w \<Longrightarrow> bandwidth_ok always w"
  by (auto simp: parse_stream_limit_def checked_simps Let_def bandwidth_ok_def dest!: stream_limit_integer_ok)

lemma parse_stream_bandwidth_ok: "parse_stream_bandwidth nt v fallback = Inr p \<Longrightarrow> stream_bandwidth_ok p"
  by (auto simp: parse_stream_bandwidth_def checked_simps Let_def stream_bandwidth_ok_def dest: parse_stream_limit_ok)

lemma stored_stream_policies_ok: "stream_protection_ok (stored_stream_protection nt j)" "stream_bandwidth_ok (stored_stream_bandwidth nt j)"
  using default_stream_policies_ok
  by (auto simp: stored_stream_protection_def stored_stream_bandwidth_def split: sum.splits
      dest: parse_stream_protection_ok parse_stream_bandwidth_ok)

lemma stream_mode_json: "stream_protection_mode nt (Some (JString (stream_mode_text m))) d = Inr m"
proof -
  have "to_lower (trim (stream_mode_text m)) = stream_mode_text m" by (cases m) (simp_all add: stream_mode_text_def, code_simp+)
  then show ?thesis by (cases m) (simp_all add: stream_protection_mode_def word_of_def stream_mode_text_def)
qed

lemma stream_ruleset_ids_json: "name_list_ok 32 ruleset_id_ok ids \<Longrightarrow> stream_ruleset_ids nt (Some (json_strings ids)) d = Inr ids"
proof -
  assume ok: "name_list_ok 32 ruleset_id_ok ids"
  have "ruleset_id_ok s \<Longrightarrow> s \<noteq> []" for s by (simp add: ruleset_id_ok_def)
  then have "filter (\<lambda>s. s \<noteq> []) (map (\<lambda>s. to_lower (trim s)) ids) = ids"
    using ok ruleset_id_clean by (intro map_filter_clean) (auto simp: name_list_ok_def)
  then show ?thesis using ok by (simp add: stream_ruleset_ids_def json_strings_def comp_def name_list_ok_def list_all_iff)
qed

lemma stream_excluded_ids_json: "name_list_ok 256 rule_id_ok ids \<Longrightarrow> stream_excluded_ids nt (Some (json_strings ids)) d = Inr ids"
proof -
  assume ok: "name_list_ok 256 rule_id_ok ids"
  then have "filter (\<lambda>s. s \<noteq> []) (map (\<lambda>s. to_upper (trim s)) ids) = ids"
    using rule_id_clean by (intro map_filter_clean) (auto simp: name_list_ok_def)
  then show ?thesis using ok by (simp add: stream_excluded_ids_def name_list_ok_def list_all_iff Let_def)
qed

lemma ban_duration_json: "0 \<le> i \<Longrightarrow> i \<le> max_ban_duration_seconds \<Longrightarrow> ban_duration_value nt (Some (json_int i)) d = Inr i"
  by (simp add: ban_duration_value_def json_int_def)

lemma stream_limit_json:
  "lo \<le> i \<Longrightarrow> i \<le> hi \<Longrightarrow> \<bar>i\<bar> \<le> 2 ^ 53 - 1 \<Longrightarrow> stream_limit_integer nt (Some (json_int i)) label d lo hi = Inr i"
  by (simp add: stream_limit_integer_def json_int_def js_safe_integer_def)

lemma stream_protection_json_reads: "stream_protection_ok p \<Longrightarrow> parse_stream_protection nt (Some (stream_protection_json p)) d = Inr p"
  by (simp add: parse_stream_protection_def stream_protection_json_def stream_protection_ok_def Let_def and_then_Inr stream_mode_json
      stream_ruleset_ids_json stream_excluded_ids_json stream_ban_durations_def ban_durations_json_def ban_duration_json ban_durations_ok_def)

lemma stream_limit_reads: "bandwidth_ok always w \<Longrightarrow> parse_stream_limit nt (Some (bandwidth_json JBool json_int w)) d = Inr w"
  by (simp add: parse_stream_limit_def bandwidth_json_def bandwidth_ok_def Let_def and_then_Inr stream_limit_json bound_defs boolean_defs
      boolean_input_def)

lemma stream_bandwidth_json_reads: "stream_bandwidth_ok p \<Longrightarrow> parse_stream_bandwidth nt (Some (stream_bandwidth_json p)) d = Inr p"
  by (simp add: parse_stream_bandwidth_def stream_bandwidth_json_def stream_bandwidth_ok_def Let_def and_then_Inr stream_limit_reads)

lemma serialize_stream_protection_spec:
  "serialize_stream_protection nt input column = Inr j \<Longrightarrow> \<exists>p. stream_protection_ok p \<and> j = stream_protection_json p"
  using default_stream_policies_ok(1) stored_stream_policies_ok(1)
  by (auto simp: serialize_stream_protection_def checked_simps split: option.splits json.splits dest: parse_stream_protection_ok)

lemma serialize_stream_bandwidth_spec:
  "serialize_stream_bandwidth nt input column = Inr j \<Longrightarrow> \<exists>p. stream_bandwidth_ok p \<and> j = stream_bandwidth_json p"
  using default_stream_policies_ok(2) stored_stream_policies_ok(2)
  by (auto simp: serialize_stream_bandwidth_def checked_simps split: option.splits json.splits dest: parse_stream_bandwidth_ok)

text \<open>
  Whatever column was stored and whatever an administrator sends, a protection policy and a bandwidth
  policy that are accepted are within their limits, and reading the written column gives the same policy.
\<close>

theorem stream_policies_read_back:
  assumes "serialize_stream_protection nt input column = Inr j" and "serialize_stream_bandwidth nt input' column' = Inr j'"
  shows "stream_protection_ok (stored_stream_protection nt (Some j)) \<and> stream_protection_json (stored_stream_protection nt (Some j)) = j
    \<and> stream_bandwidth_ok (stored_stream_bandwidth nt (Some j')) \<and> stream_bandwidth_json (stored_stream_bandwidth nt (Some j')) = j'"
proof -
  obtain p where p: "stream_protection_ok p" "j = stream_protection_json p" using serialize_stream_protection_spec [OF assms(1)] by blast
  obtain b where b: "stream_bandwidth_ok b" "j' = stream_bandwidth_json b" using serialize_stream_bandwidth_spec [OF assms(2)] by blast
  have "stored_stream_protection nt (Some j) = p" "stored_stream_bandwidth nt (Some j') = b"
    by (simp_all add: stored_stream_protection_def stored_stream_bandwidth_def p b stream_protection_json_reads stream_bandwidth_json_reads)
  then show ?thesis using p b by simp
qed

theorem stream_policies_read_back_witness:
  "tp_mode (stored_stream_protection (\<lambda>_. []) (Some (stream_protection_json (default_stream_protection\<lparr>tp_mode := StreamBlock\<rparr>)))) = StreamBlock
    \<and> stream_bandwidth_json (stored_stream_bandwidth (\<lambda>_. []) (Some (stream_bandwidth_json default_stream_bandwidth)))
      = stream_bandwidth_json default_stream_bandwidth"
proof
  have s: "serialize_stream_protection (\<lambda>_. []) (Some (JObject [(''mode'', JString '' Block '')])) None
      = Inr (stream_protection_json (default_stream_protection\<lparr>tp_mode := StreamBlock\<rparr>))" by code_simp
  have b: "serialize_stream_bandwidth (\<lambda>_. []) None None = Inr (stream_bandwidth_json default_stream_bandwidth)" by code_simp
  show "tp_mode (stored_stream_protection (\<lambda>_. []) (Some (stream_protection_json (default_stream_protection\<lparr>tp_mode := StreamBlock\<rparr>)))) = StreamBlock"
    by code_simp
  show "stream_bandwidth_json (stored_stream_bandwidth (\<lambda>_. []) (Some (stream_bandwidth_json default_stream_bandwidth)))
      = stream_bandwidth_json default_stream_bandwidth"
    using stream_policies_read_back [OF s b] by blast
qed

section \<open>Rules and fields that have not been decoded\<close>

text \<open>A condition without \<open>not\<close> and without a negated \<open>exists\<close>.\<close>

fun positive_condition :: "stream_leaf condition \<Rightarrow> bool" where
  "positive_condition (CondLeaf l) \<longleftrightarrow> \<not> (sl_operator l = SoExists \<and> sl_negate l)"
| "positive_condition (CondAll cs) \<longleftrightarrow> list_all positive_condition cs"
| "positive_condition (CondAny cs) \<longleftrightarrow> list_all positive_condition cs"
| "positive_condition (CondNot c) \<longleftrightarrow> False"

definition positive_ruleset :: "stream_ruleset \<Rightarrow> bool" where
  "positive_ruleset rs \<longleftrightarrow> list_all (\<lambda>r. positive_condition (su_condition r)) (sset_rules rs)"

lemma stream_leaf_mono:
  assumes "vals \<subseteq>\<^sub>m later" and "\<not> (sl_operator l = SoExists \<and> sl_negate l)" and "evaluate_stream_leaf nt vals l"
  shows "evaluate_stream_leaf nt later l"
proof -
  obtain v where v: "vals (sl_field l) = Some v" using assms(2,3) by (auto simp: evaluate_stream_leaf_def Let_def split: if_splits)
  then have "later (sl_field l) = Some v" using assms(1) by (metis domI map_le_def)
  then show ?thesis using assms(3) v by (auto simp: evaluate_stream_leaf_def stream_value_def split: if_splits)
qed

lemma stream_condition_mono:
  "vals \<subseteq>\<^sub>m later \<Longrightarrow> positive_condition c \<Longrightarrow> evaluate_stream_condition nt vals c \<Longrightarrow> evaluate_stream_condition nt later c"
  by (induction c) (auto simp: stream_leaf_mono list_all_iff list_ex_iff)

lemma stream_matches_mono:
  assumes "vals \<subseteq>\<^sub>m later" and "\<forall>rs \<in> set (om_values reg). positive_ruleset rs"
  shows "set (stream_matches nt reg vals p) \<subseteq> set (stream_matches nt reg later p)"
proof
  fix m assume "m \<in> set (stream_matches nt reg vals p)"
  then obtain i rs where i: "i \<in> set (tp_ruleset_ids p)" "om_get reg i = Some rs"
    and m: "m \<in> set (inspect_stream_ruleset nt vals rs)" "sm_rule_id m \<notin> set (tp_excluded_rule_ids p)"
    by (auto simp: stream_matches_def split: option.splits dest: sym [of "Some _"])
  then obtain r where "r \<in> set (sset_rules rs)" "su_match r = m" "evaluate_stream_condition nt vals (su_condition r)"
    by (auto simp: inspect_stream_ruleset_def)
  note r = i(1,2) this m(2)
  have "rs \<in> set (om_values reg)" using r(2) by (force simp: om_get_def om_values_def dest: map_of_SomeD)
  then have "positive_condition (su_condition r)" using assms(2) r(3) by (auto simp: positive_ruleset_def list_all_iff)
  then have "evaluate_stream_condition nt later (su_condition r)" using stream_condition_mono assms(1) r(5) by blast
  then show "m \<in> set (stream_matches nt reg later p)" using r
    by (auto simp: stream_matches_def inspect_stream_ruleset_def intro!: bexI [of _ i])
qed

lemma by_severity_Nil: "by_severity rank f g ms = [] \<longleftrightarrow> ms = []"
  using by_severity_set [of rank f g ms] by (metis set_empty)

lemma stream_blocked_iff:
  "tr_status (inspect_stream_connection nt rank reg vals p) = ProtectionBlocked \<longleftrightarrow>
     tp_mode p = StreamBlock \<and> stream_matches nt reg vals p \<noteq> []"
proof -
  have "tp_ruleset_ids p = [] \<Longrightarrow> stream_matches nt reg vals p = []" by (simp add: stream_matches_def)
  then show ?thesis by (auto simp: inspect_stream_connection_def Let_def by_severity_Nil)
qed

text \<open>
  Fields decoded later never take back a block: with rules that use neither \<open>not\<close> nor a negated
  \<open>exists\<close>, a connection that is blocked for the fields known so far is blocked for any more fields.
\<close>

lemma decoded_fields_keep_block:
  assumes "vals \<subseteq>\<^sub>m later" and "\<forall>rs \<in> set (om_values reg). positive_ruleset rs"
    and "tr_status (inspect_stream_connection nt rank reg vals p) = ProtectionBlocked"
  shows "tr_status (inspect_stream_connection nt rank reg later p) = ProtectionBlocked"
proof -
  have "stream_matches nt reg vals p \<noteq> []" "tp_mode p = StreamBlock" using assms(3) by (simp_all add: stream_blocked_iff)
  then obtain m where "m \<in> set (stream_matches nt reg vals p)" by (cases "stream_matches nt reg vals p") auto
  then have "m \<in> set (stream_matches nt reg later p)" using stream_matches_mono [OF assms(1,2)] by blast
  then show ?thesis using \<open>tp_mode p = StreamBlock\<close> by (auto simp: stream_blocked_iff)
qed

definition demo_stream_leaf :: "string \<Rightarrow> stream_operator \<Rightarrow> string \<Rightarrow> stream_leaf" where
  "demo_stream_leaf field operation operand = \<lparr>sl_field = field, sl_transforms = [], sl_operator = operation, sl_regex = None,
     sl_value = Some operand, sl_case_insensitive = False, sl_negate = False\<rparr>"

definition demo_stream_ruleset :: "stream_leaf condition \<Rightarrow> stream_ruleset" where
  "demo_stream_ruleset c = \<lparr>sset_id = ''mc'', sset_title = ''MC'', sset_version = ''1'', sset_description = [], sset_protocol = ''minecraft-java'',
     sset_timeout_ms = 3000, sset_max_bytes = 2048,
     sset_rules = [\<lparr>su_match = \<lparr>sm_rule_id = ''MC-1'', sm_ruleset_id = ''mc'', sm_title = ''Rule'', sm_category = ''recon'', sm_severity = Medium,
       sm_location = OnLogin\<rparr>, su_condition = c\<rparr>]\<rparr>"

definition demo_stream_policy :: stream_protection where
  "demo_stream_policy = default_stream_protection\<lparr>tp_mode := StreamBlock, tp_ruleset_ids := [''mc'']\<rparr>"

definition demo_stream_doc :: "json \<Rightarrow> json" where
  "demo_stream_doc c = JObject [(''schemaVersion'', JString ''1''), (''id'', JString ''mc''), (''title'', JString ''MC''), (''version'', JString ''1''),
     (''protocol'', JString ''minecraft-java''),
     (''rules'', JArray [JObject [(''id'', JString ''MC-1''), (''title'', JString ''Rule''), (''category'', JString ''recon''),
       (''severity'', JString ''medium''), (''location'', JString ''login''), (''match'', c)]])]"

text \<open>
  A condition under \<open>not\<close> turns the rule for fields that have not been decoded around: the compiler
  accepts a ruleset that lets in one user name only, and with it a connection is blocked whose user name has
  not been decoded at all.
\<close>

theorem negated_condition_matches_undecoded:
  "\<exists>rs. compile_stream_ruleset nt engine (demo_stream_doc (JObject [(''not'', JObject [(''field'', JString ''username''),
       (''operator'', JString ''equals''), (''value'', JString ''alice'')])])) = Inr rs
    \<and> (\<forall>rank vals. vals ''username'' = None \<longrightarrow>
         tr_status (inspect_stream_connection nt rank [(''mc'', rs)] vals demo_stream_policy) = ProtectionBlocked)"
proof -
  let ?leaf = "JObject [(''field'', JString ''username''), (''operator'', JString ''equals''), (''value'', JString ''alice'')]"
  define known where "known = generic_stream_fields @ [''handshake_valid'', ''protocol_version'', ''server_address'', ''server_address_length'',
    ''next_state'', ''username'', ''username_length'']"
  have known: "find (\<lambda>w. id w = ''username'') known = Some ''username''" unfolding known_def generic_stream_fields_def by code_simp
  have protocol: "stream_protocol_fields ''minecraft-java'' = Some known" by (simp add: stream_protocol_fields_def known_def)
  have words: "any_rule_id_ok ''MC-1''" "ruleset_id_ok ''mc''" "trim ''MC-1'' \<noteq> []" "trim ''mc'' \<noteq> []" "trim ''MC'' \<noteq> []"
    "trim ''Rule'' \<noteq> []" "trim ''recon'' \<noteq> []" "trim ''1'' \<noteq> []" "trim ''minecraft-java'' \<noteq> []" by code_simp+
  have leaf: "compile_stream_leaf engine known ?leaf = Inr (demo_stream_leaf ''username'' SoEquals ''alice'')"
    using known by (simp add: compile_stream_leaf_def word_of_def stream_operator_text_def stream_operators_def compile_stream_transforms_def
        require_string_def checked_simps demo_stream_leaf_def)
  have cond: "compile_stream_condition engine known (JObject [(''not'', ?leaf)]) = Inr (CondNot (CondLeaf (demo_stream_leaf ''username'' SoEquals ''alice'')), 2)"
    using leaf by (simp add: compile_stream_condition_def eval_nat_numeral checked_simps)
  let ?c = "CondNot (CondLeaf (demo_stream_leaf ''username'' SoEquals ''alice''))"
  let ?r = "JObject [(''id'', JString ''MC-1''), (''title'', JString ''Rule''), (''category'', JString ''recon''),
       (''severity'', JString ''medium''), (''location'', JString ''login''), (''match'', JObject [(''not'', ?leaf)])]"
  have rule: "compile_stream_rule engine known ''mc'' ?r [] = Inr (hd (sset_rules (demo_stream_ruleset ?c)))"
    using words cond by (simp add: compile_stream_rule_def compile_rule_id_def require_string_def word_of_def severity_text_def
        stream_location_text_def enabled_ok_def checked_simps demo_stream_ruleset_def)
  have rules: "compile_stream_rules engine known ''mc'' [?r] [] = Inr (sset_rules (demo_stream_ruleset ?c))"
    using rule by (simp add: checked_simps demo_stream_ruleset_def)
  have doc: "compile_stream_ruleset nt engine (demo_stream_doc (JObject [(''not'', ?leaf)])) = Inr (demo_stream_ruleset ?c)"
    using words rules protocol by (simp add: compile_stream_ruleset_def demo_stream_doc_def require_string_def compile_decode_def checked_simps
        demo_stream_ruleset_def del: compile_stream_rules.simps)
  have "tr_status (inspect_stream_connection nt rank [(''mc'', demo_stream_ruleset ?c)] vals demo_stream_policy) = ProtectionBlocked"
    if "vals ''username'' = None" for rank vals
    using that by (simp add: stream_blocked_iff stream_matches_def inspect_stream_ruleset_def demo_stream_policy_def demo_stream_ruleset_def
        default_stream_protection_def om_get_def demo_stream_leaf_def evaluate_stream_leaf_def)
  with doc show ?thesis by blast
qed

end
