(* ===== verification/Stream_Decoder.thy ===== *)
theory Stream_Decoder
  imports Stream_Protection "HOL-Library.Word"
begin

unbundle bit_operations_syntax

text \<open>
  The decoder of the first packets of a Minecraft connection
  (\<open>services/stream-protocol-decoders/minecraft-java.ts\<close>). A buffer is a list of bytes, an offset a
  natural number; the value of a variable-length integer is built in a 32-bit word, as the operators
  \<open>|=\<close> and \<open><<\<close> do, and read as a signed number. \<open>null\<close> (more bytes are needed) and \<open>"invalid"\<close> are
  constructors. The strict UTF-8 decoder is an argument, because a text of this model has the characters of
  Latin-1 only.
\<close>

section \<open>Reading\<close>

type_synonym octets = "8 word list"

datatype 'a decoded = NeedMore | Malformed | Read 'a

fun var_int_loop :: "nat \<Rightarrow> 32 word \<Rightarrow> nat \<Rightarrow> octets \<Rightarrow> nat \<Rightarrow> nat \<Rightarrow> (int \<times> nat) decoded" where
  "var_int_loop 0 v position buffer offset cursor = Malformed"
| "var_int_loop (Suc k) v position buffer offset cursor =
     (if length buffer \<le> cursor then NeedMore
      else
        let byte = buffer ! cursor; v' = v OR push_bit position (ucast (byte AND 0x7f)) in
        if byte AND 0x80 = 0 then Read (sint v', Suc cursor - offset)
        else var_int_loop k v' (position + 7) buffer offset (Suc cursor))"

definition read_var_int :: "octets \<Rightarrow> nat \<Rightarrow> (int \<times> nat) decoded" where
  "read_var_int buffer offset = var_int_loop 5 0 0 buffer offset offset"

definition slice :: "octets \<Rightarrow> nat \<Rightarrow> nat \<Rightarrow> octets" where
  "slice buffer from till = take (till - from) (drop from buffer)"

definition read_string :: "(octets \<Rightarrow> string option) \<Rightarrow> octets \<Rightarrow> nat \<Rightarrow> int \<Rightarrow> (string \<times> nat) decoded" where
  "read_string utf8 buffer offset maximum =
     (case read_var_int buffer offset of
        NeedMore \<Rightarrow> NeedMore
      | Malformed \<Rightarrow> Malformed
      | Read (n, used) \<Rightarrow>
          if n < 0 \<or> maximum < n then Malformed
          else
            let start = offset + used; finish = start + nat n in
            if length buffer < finish then NeedMore
            else (case utf8 (slice buffer start finish) of None \<Rightarrow> Malformed | Some s \<Rightarrow> Read (s, used + nat n)))"

definition max_packet_length :: int where
  "max_packet_length = 65535"

definition read_packet_frame :: "octets \<Rightarrow> nat \<Rightarrow> (nat \<times> nat) decoded" where
  "read_packet_frame buffer offset =
     (case read_var_int buffer offset of
        NeedMore \<Rightarrow> NeedMore
      | Malformed \<Rightarrow> Malformed
      | Read (n, used) \<Rightarrow>
          if n < 0 \<or> max_packet_length < n then Malformed
          else
            let start = offset + used; finish = start + nat n in
            if length buffer < finish then NeedMore else Read (start, finish))"

record handshake =
  hs_protocol_version :: int
  hs_server_address :: string
  hs_next_state :: int

text \<open>Inside one packet a read past its end is malformed.\<close>

definition decode_handshake :: "(octets \<Rightarrow> string option) \<Rightarrow> octets \<Rightarrow> handshake option" where
  "decode_handshake utf8 view =
     (case read_var_int view 0 of
        Read (i, used) \<Rightarrow>
          if i \<noteq> 0 then None
          else (case read_var_int view used of
            Read (version, n) \<Rightarrow>
              (case read_string utf8 view (used + n) 300 of
                 Read (address, m) \<Rightarrow>
                   if length view < used + n + m + 2 then None
                   else (case read_var_int view (used + n + m + 2) of
                     Read (next_state, k) \<Rightarrow> Some \<lparr>hs_protocol_version = version, hs_server_address = address, hs_next_state = next_state\<rparr>
                   | _ \<Rightarrow> None)
               | _ \<Rightarrow> None)
          | _ \<Rightarrow> None)
      | _ \<Rightarrow> None)"

definition decode_login_start :: "(octets \<Rightarrow> string option) \<Rightarrow> octets \<Rightarrow> string option" where
  "decode_login_start utf8 view =
     (case read_var_int view 0 of
        Read (i, used) \<Rightarrow>
          if i \<noteq> 0 then None
          else (case read_string utf8 view used 64 of Read (username, n) \<Rightarrow> Some username | _ \<Rightarrow> None)
      | _ \<Rightarrow> None)"

record decode_attempt =
  da_done :: bool
  da_fields :: stream_fields

definition handshake_fields :: "handshake \<Rightarrow> stream_fields" where
  "handshake_fields h = [''handshake_valid'' \<mapsto> FieldFlag True, ''protocol_version'' \<mapsto> FieldNumber (of_int (hs_protocol_version h)),
     ''server_address'' \<mapsto> FieldText (hs_server_address h),
     ''server_address_length'' \<mapsto> FieldNumber (of_nat (length (hs_server_address h))),
     ''next_state'' \<mapsto> FieldNumber (of_int (hs_next_state h))]"

definition login_fields :: "string \<Rightarrow> stream_fields" where
  "login_fields username = [''username'' \<mapsto> FieldText username, ''username_length'' \<mapsto> FieldNumber (of_nat (length username))]"

definition decode_minecraft :: "(octets \<Rightarrow> string option) \<Rightarrow> octets \<Rightarrow> decode_attempt" where
  "decode_minecraft utf8 buffer =
     (case read_packet_frame buffer 0 of
        NeedMore \<Rightarrow> \<lparr>da_done = False, da_fields = Map.empty\<rparr>
      | Malformed \<Rightarrow> \<lparr>da_done = True, da_fields = [''handshake_valid'' \<mapsto> FieldFlag False]\<rparr>
      | Read (start, finish) \<Rightarrow>
          (case decode_handshake utf8 (slice buffer start finish) of
             None \<Rightarrow> \<lparr>da_done = True, da_fields = [''handshake_valid'' \<mapsto> FieldFlag False]\<rparr>
           | Some h \<Rightarrow>
               if hs_next_state h \<noteq> 2 then \<lparr>da_done = True, da_fields = handshake_fields h\<rparr>
               else (case read_packet_frame buffer finish of
                 NeedMore \<Rightarrow> \<lparr>da_done = False, da_fields = handshake_fields h\<rparr>
               | Malformed \<Rightarrow> \<lparr>da_done = True, da_fields = handshake_fields h\<rparr>
               | Read (start', finish') \<Rightarrow>
                   (case decode_login_start utf8 (slice buffer start' finish') of
                      None \<Rightarrow> \<lparr>da_done = True, da_fields = handshake_fields h\<rparr>
                    | Some username \<Rightarrow> \<lparr>da_done = True, da_fields = handshake_fields h ++ login_fields username\<rparr>))))"

section \<open>More bytes\<close>

lemma var_int_loop_append:
  "var_int_loop k v p b offset c \<noteq> NeedMore \<Longrightarrow> var_int_loop k v p (b @ r) offset c = var_int_loop k v p b offset c"
  by (induction k arbitrary: v p c) (auto simp: Let_def nth_append split: if_splits)

lemma var_int_loop_bounds:
  "var_int_loop k v p b offset c = Read (n, used) \<Longrightarrow> offset \<le> c \<Longrightarrow>
     c < offset + used \<and> offset + used \<le> length b \<and> offset + used \<le> c + k"
proof (induction k arbitrary: v p c)
  case (Suc k)
  show ?case
  proof (cases "b ! c AND 0x80 = 0")
    case True
    then show ?thesis using Suc.prems by (auto simp: Let_def split: if_splits)
  next
    case False
    then show ?thesis using Suc.prems Suc.IH [of _ _ "Suc c"] by (fastforce simp: Let_def split: if_splits)
  qed
qed simp

lemma read_var_int_append: "read_var_int b offset \<noteq> NeedMore \<Longrightarrow> read_var_int (b @ r) offset = read_var_int b offset"
  by (simp add: read_var_int_def var_int_loop_append)

lemma read_var_int_bounds: "read_var_int b offset = Read (n, used) \<Longrightarrow> 0 < used \<and> used \<le> 5 \<and> offset + used \<le> length b"
  using var_int_loop_bounds [of 5 0 0 b offset offset n used] by (simp add: read_var_int_def)

lemma slice_append: "till \<le> length b \<Longrightarrow> slice (b @ r) from till = slice b from till"
  by (cases "from \<le> till") (auto simp: slice_def)

lemma read_packet_frame_append: "read_packet_frame b offset \<noteq> NeedMore \<Longrightarrow> read_packet_frame (b @ r) offset = read_packet_frame b offset"
proof (cases "read_var_int b offset")
  case NeedMore
  then show "read_packet_frame b offset \<noteq> NeedMore \<Longrightarrow> ?thesis" by (simp add: read_packet_frame_def)
next
  case Malformed
  then show ?thesis using read_var_int_append [of b offset r] by (simp add: read_packet_frame_def)
next
  case (Read x)
  then show "read_packet_frame b offset \<noteq> NeedMore \<Longrightarrow> ?thesis"
    using read_var_int_append [of b offset r] by (cases x) (auto simp: read_packet_frame_def Let_def split: if_splits)
qed

lemma read_packet_frame_end: "read_packet_frame b offset = Read (start, finish) \<Longrightarrow> offset < start \<and> start \<le> finish \<and> finish \<le> length b"
  using read_var_int_bounds [of b offset]
  by (fastforce simp: read_packet_frame_def Let_def split: decoded.splits if_splits prod.splits)

lemma minecraft_done_append: "da_done (decode_minecraft utf8 b) \<Longrightarrow> decode_minecraft utf8 (b @ r) = decode_minecraft utf8 b"
proof (cases "read_packet_frame b 0")
  case NeedMore
  then show "da_done (decode_minecraft utf8 b) \<Longrightarrow> ?thesis" by (simp add: decode_minecraft_def)
next
  case Malformed
  then show ?thesis using read_packet_frame_append [of b 0 r] by (simp add: decode_minecraft_def)
next
  case (Read x)
  then obtain start finish where frame: "read_packet_frame b 0 = Read (start, finish)" by (cases x) auto
  have frame': "read_packet_frame (b @ r) 0 = Read (start, finish)" using frame read_packet_frame_append [of b 0 r] by simp
  have slice: "slice (b @ r) start finish = slice b start finish" using read_packet_frame_end [OF frame] slice_append by blast
  have login: "slice (b @ r) s f = slice b s f" if "read_packet_frame b finish = Read (s, f)" for s f
    using read_packet_frame_end [OF that] slice_append by blast
  assume "da_done (decode_minecraft utf8 b)"
  then show ?thesis using frame frame' slice login read_packet_frame_append [of b finish r]
    by (auto simp: decode_minecraft_def split: option.splits decoded.splits)
qed

lemma minecraft_fields_grow:
  "\<not> da_done (decode_minecraft utf8 b) \<Longrightarrow> da_fields (decode_minecraft utf8 b) \<subseteq>\<^sub>m da_fields (decode_minecraft utf8 (b @ r))"
proof (cases "read_packet_frame b 0")
  case NeedMore
  then show ?thesis by (simp add: decode_minecraft_def)
next
  case Malformed
  then show "\<not> da_done (decode_minecraft utf8 b) \<Longrightarrow> ?thesis" by (simp add: decode_minecraft_def)
next
  case (Read x)
  then obtain start finish where frame: "read_packet_frame b 0 = Read (start, finish)" by (cases x) auto
  have frame': "read_packet_frame (b @ r) 0 = Read (start, finish)" using frame read_packet_frame_append [of b 0 r] by simp
  have slice: "slice (b @ r) start finish = slice b start finish" using read_packet_frame_end [OF frame] slice_append by blast
  have grow: "handshake_fields h \<subseteq>\<^sub>m handshake_fields h ++ login_fields u" for h u
    by (auto simp: handshake_fields_def login_fields_def map_le_def)
  assume "\<not> da_done (decode_minecraft utf8 b)"
  then show ?thesis using frame frame' slice grow
    by (auto simp: decode_minecraft_def split: option.splits decoded.splits)
qed

lemma minecraft_fields_fresh: "dom (da_fields (decode_minecraft utf8 b)) \<inter> set generic_stream_fields = {}"
proof -
  have "dom (handshake_fields h) \<inter> set generic_stream_fields = {}" "dom (login_fields u) \<inter> set generic_stream_fields = {}"
    "dom [''handshake_valid'' \<mapsto> v] \<inter> set generic_stream_fields = {}" for h u and v :: field_content
    by (auto simp: handshake_fields_def login_fields_def generic_stream_fields_def)
  then have "dom (handshake_fields h ++ login_fields u) \<inter> set generic_stream_fields = {}" "dom (handshake_fields h) \<inter> set generic_stream_fields = {}"
    "dom [''handshake_valid'' \<mapsto> v] \<inter> set generic_stream_fields = {}" for h u and v :: field_content
    by (simp_all only: dom_map_add Int_Un_distrib2 Un_empty_left)
  then show ?thesis by (simp add: decode_minecraft_def del: dom_fun_upd dom_map_add split: decoded.split option.split prod.split)
qed

lemma map_add_le_mono: "m \<subseteq>\<^sub>m m' \<Longrightarrow> dom k \<inter> dom m' = {} \<Longrightarrow> k ++ m \<subseteq>\<^sub>m k ++ m'"
proof (unfold map_le_def, intro ballI)
  fix a assume le: "\<forall>a \<in> dom m. m a = m' a" and k: "dom k \<inter> dom m' = {}" and a: "a \<in> dom (k ++ m)"
  show "(k ++ m) a = (k ++ m') a"
  proof (cases "a \<in> dom m")
    case True
    then show ?thesis using le by (auto simp: map_add_def split: option.split)
  next
    case False
    then have "m' a = None" using a k by (auto simp: disjoint_iff)
    then show ?thesis using False by (auto simp: map_add_def split: option.split)
  qed
qed

section \<open>Variable-length integers\<close>

text \<open>The writing of the protocol: seven bits per byte, the low ones first.\<close>

function write_var_int :: "32 word \<Rightarrow> octets" where
  "write_var_int w = (if w < 128 then [ucast w] else (ucast w OR 0x80) # write_var_int (drop_bit 7 w))"
  by pat_completeness auto
termination
proof (relation "measure unat")
  fix w :: "32 word" assume "\<not> w < 128"
  then have "0 < unat w" by (simp add: word_less_nat_alt)
  then show "(drop_bit 7 w, w) \<in> measure unat" by (simp add: drop_bit_eq_div unat_div)
qed simp

declare write_var_int.simps [simp del]

lemma byte_bits: "bit (127 :: int) n \<longleftrightarrow> n < 7" "bit (128 :: int) n \<longleftrightarrow> n = 7"
proof -
  have eq: "(127 :: int) = mask 7" "(128 :: int) = 2 ^ 7" by (simp_all add: mask_eq_exp_minus_1)
  show "bit (127 :: int) n \<longleftrightarrow> n < 7" unfolding eq(1) by (simp only: bit_mask_iff possible_bit_int simp_thms)
  show "bit (128 :: int) n \<longleftrightarrow> n = 7" unfolding eq(2) by (simp only: bit_exp_iff possible_bit_int) blast
qed

lemma low_bits: "ucast ((ucast w :: 8 word) AND 0x7f) = take_bit 7 (w :: 32 word)"
  by (auto intro!: bit_word_eqI simp: bit_simps byte_bits)

lemma high_bit: "((ucast (w :: 32 word) OR 0x80) :: 8 word) AND 0x7f = ucast w AND 0x7f" "((ucast w OR 0x80) :: 8 word) AND 0x80 \<noteq> 0"
proof -
  show "((ucast (w :: 32 word) OR 0x80) :: 8 word) AND 0x7f = ucast w AND 0x7f"
    by (auto intro!: bit_word_eqI simp: bit_simps byte_bits)
  have "bit (((ucast w OR 0x80) :: 8 word) AND 0x80) 7" by (simp add: bit_simps byte_bits)
  then show "((ucast w OR 0x80) :: 8 word) AND 0x80 \<noteq> 0" by (metis bit_0_eq bot_apply bot_bool_def)
qed

lemma last_byte: "w < 128 \<Longrightarrow> (ucast (w :: 32 word) :: 8 word) AND 0x80 = 0 \<and> take_bit 7 w = w"
proof
  assume "w < 128"
  then have u: "unat w < 2 ^ 7" by (simp add: word_less_nat_alt)
  then show t: "take_bit 7 w = w" by (simp add: word_unat_eq_iff unsigned_take_bit_eq take_bit_nat_eq_self)
  then have "\<not> bit w 7" by (metis bit_take_bit_iff less_irrefl)
  then show "(ucast w :: 8 word) AND 0x80 = 0" by (auto intro!: bit_word_eqI simp: bit_simps byte_bits)
qed

lemma join_bits: "take_bit p w OR push_bit p (take_bit 7 (drop_bit p w)) = take_bit (p + 7) (w :: 32 word)"
  by (auto intro!: bit_word_eqI simp: bit_simps)

lemma var_int_written:
  "p + 7 * k = 35 \<Longrightarrow> k \<noteq> 0 \<Longrightarrow> offset \<le> length pre \<Longrightarrow>
   var_int_loop k (take_bit p w) p (pre @ write_var_int (drop_bit p w) @ rest) offset (length pre)
     = Read (sint w, length pre + length (write_var_int (drop_bit p w)) - offset)"
proof (induction k arbitrary: p pre)
  case (Suc k)
  let ?w = "drop_bit p w"
  show ?case
  proof (cases "?w < 128")
    case True
    have "take_bit p w OR push_bit p ?w = w" by (auto intro!: bit_word_eqI simp: bit_simps)
    then show ?thesis using True last_byte [OF True] Suc.prems(3)
      by (simp add: write_var_int.simps [of ?w] Let_def low_bits)
  next
    case False
    have "k \<noteq> 0"
    proof
      assume "k = 0"
      then have "p = 28" using Suc.prems(1) by simp
      then have "unat ?w < 128" using unsigned_less [of w, where ?'a = nat] by (simp add: drop_bit_eq_div unat_div less_mult_imp_div_less)
      then show False using False by (simp add: word_less_nat_alt)
    qed
    let ?b = "(ucast ?w OR 0x80) :: 8 word"
    have "var_int_loop k (take_bit (p + 7) w) (p + 7) ((pre @ [?b]) @ write_var_int (drop_bit (p + 7) w) @ rest) offset (length (pre @ [?b]))
        = Read (sint w, length (pre @ [?b]) + length (write_var_int (drop_bit (p + 7) w)) - offset)"
    proof (rule Suc.IH)
      show "p + 7 + 7 * k = 35" using Suc.prems(1) by simp
      show "offset \<le> length (pre @ [?b])" using Suc.prems(3) by simp
    qed (rule \<open>k \<noteq> 0\<close>)
    moreover have "drop_bit 7 ?w = drop_bit (p + 7) w" by (simp add: drop_bit_drop_bit add.commute)
    ultimately show ?thesis using False high_bit
      by (simp add: write_var_int.simps [of ?w] Let_def low_bits join_bits)
  qed
qed simp

lemma read_written: "read_var_int (pre @ write_var_int w @ rest) (length pre) = Read (sint w, length (write_var_int w))"
proof -
  have "var_int_loop 5 (take_bit 0 w) 0 (pre @ write_var_int (drop_bit 0 w) @ rest) (length pre) (length pre)
     = Read (sint w, length pre + length (write_var_int (drop_bit 0 w)) - length pre)"
    by (rule var_int_written) simp_all
  then show ?thesis by (simp add: read_var_int_def)
qed

lemma written_short: "length (write_var_int w) \<le> 5"
  using read_var_int_bounds [OF read_written [of "[]" w "[]"]] by simp

text \<open>
  Every 32-bit value, written as the protocol writes it, is read back with its sign, wherever it stands
  in the buffer, and takes at most five bytes.
\<close>

theorem var_int_read_back:
  "read_var_int (pre @ write_var_int w @ rest) (length pre) = Read (sint w, length (write_var_int w)) \<and> length (write_var_int w) \<le> 5"
  by (intro conjI read_written written_short)

section \<open>A login as a client writes it\<close>

definition write_string :: "octets \<Rightarrow> octets" where
  "write_string bs = write_var_int (of_nat (length bs)) @ bs"

definition handshake_packet :: "32 word \<Rightarrow> octets \<Rightarrow> octets \<Rightarrow> 32 word \<Rightarrow> octets" where
  "handshake_packet version address port next_state =
     write_string (write_var_int 0 @ write_var_int version @ write_string address @ port @ write_var_int next_state)"

definition login_packet :: "octets \<Rightarrow> octets \<Rightarrow> octets" where
  "login_packet username extra = write_string (write_var_int 0 @ write_string username @ extra)"

lemma sint_length: "n < 2 ^ 31 \<Longrightarrow> sint (of_nat n :: 32 word) = int n"
  by (simp add: signed_of_nat signed_take_bit_int_eq_self)

lemma string_written:
  assumes "int (length bs) \<le> maximum" and "maximum \<le> 65535" and "utf8 bs = Some s"
  shows "read_string utf8 (pre @ write_string bs @ rest) (length pre) maximum = Read (s, length (write_string bs))"
proof -
  let ?n = "of_nat (length bs) :: 32 word"
  have "read_var_int (pre @ write_var_int ?n @ (bs @ rest)) (length pre) = Read (int (length bs), length (write_var_int ?n))"
    using assms(1,2) by (simp only: read_written) (simp add: sint_length)
  moreover have "slice (pre @ write_var_int ?n @ bs @ rest) (length pre + length (write_var_int ?n)) (length pre + length (write_var_int ?n) + length bs) = bs"
    by (simp add: slice_def)
  ultimately show ?thesis using assms by (simp add: read_string_def write_string_def Let_def)
qed

lemma frame_written:
  assumes "length payload \<le> 65535"
  shows "\<exists>start. read_packet_frame (pre @ write_string payload @ rest) (length pre) = Read (start, length (pre @ write_string payload))
    \<and> slice (pre @ write_string payload @ rest) start (length (pre @ write_string payload)) = payload"
proof -
  let ?n = "of_nat (length payload) :: 32 word"
  have "read_var_int (pre @ write_var_int ?n @ (payload @ rest)) (length pre) = Read (int (length payload), length (write_var_int ?n))"
    using assms by (simp only: read_written) (simp add: sint_length)
  then show ?thesis using assms by (simp add: read_packet_frame_def write_string_def Let_def slice_def max_packet_length_def)
qed

lemma handshake_decoded:
  assumes "length address \<le> 300" and "utf8 address = Some a" and "length port = 2"
  shows "decode_handshake utf8 (write_var_int 0 @ write_var_int version @ write_string address @ port @ write_var_int next_state)
    = Some \<lparr>hs_protocol_version = sint version, hs_server_address = a, hs_next_state = sint next_state\<rparr>"
proof -
  let ?v = "write_var_int 0 @ write_var_int version @ write_string address @ port @ write_var_int next_state"
  have "read_var_int ?v 0 = Read (0, length (write_var_int 0))" using read_written [of "[]" 0] by simp
  moreover have "read_var_int ?v (length (write_var_int 0)) = Read (sint version, length (write_var_int version))"
    using read_written [of "write_var_int 0" version] by simp
  moreover have "read_string utf8 ?v (length (write_var_int 0) + length (write_var_int version)) 300 = Read (a, length (write_string address))"
    using string_written [of address 300 utf8 a "write_var_int 0 @ write_var_int version"] assms(1,2) by simp
  moreover have "read_var_int ?v (length (write_var_int 0) + length (write_var_int version) + length (write_string address) + 2)
      = Read (sint next_state, length (write_var_int next_state))"
    using read_written [of "write_var_int 0 @ write_var_int version @ write_string address @ port" next_state "[]"] assms(3)
    by (simp add: ac_simps)
  ultimately show ?thesis using assms(3) by (simp add: decode_handshake_def)
qed

lemma login_decoded:
  assumes "length username \<le> 64" and "utf8 username = Some u"
  shows "decode_login_start utf8 (write_var_int 0 @ write_string username @ extra) = Some u"
  using read_written [of "[]" 0 "write_string username @ extra"] string_written [of username 64 utf8 u "write_var_int 0" extra] assms
  by (simp add: decode_login_start_def)

text \<open>
  A client that writes a handshake for a login and a login packet is decoded exactly: its protocol
  version, the address it asks for and its user name are the fields the rules see, whatever follows.
\<close>

theorem login_decoded_exactly:
  assumes "length address \<le> 300" and "utf8 address = Some a" and "length port = 2"
    and "length username \<le> 64" and "utf8 username = Some u" and "length extra \<le> 65000"
  shows "decode_minecraft utf8 (handshake_packet version address port 2 @ login_packet username extra @ rest)
    = \<lparr>da_done = True, da_fields = handshake_fields \<lparr>hs_protocol_version = sint version, hs_server_address = a, hs_next_state = 2\<rparr> ++ login_fields u\<rparr>"
proof -
  let ?h = "write_var_int 0 @ write_var_int version @ write_string address @ port @ write_var_int 2"
  let ?l = "write_var_int 0 @ write_string username @ extra"
  let ?b = "write_string ?h @ write_string ?l @ rest"
  have "length (write_string bs) \<le> 5 + length bs" for bs using written_short by (simp add: write_string_def)
  from this [of address] this [of username] written_short [of 0] written_short [of version] written_short [of 2]
  have len: "length ?h \<le> 65535" "length ?l \<le> 65535" using assms by simp_all
  obtain s where s: "read_packet_frame ?b 0 = Read (s, length (write_string ?h))" "slice ?b s (length (write_string ?h)) = ?h"
    using frame_written [OF len(1), of "[]"] by auto
  obtain t where t: "read_packet_frame ?b (length (write_string ?h)) = Read (t, length (write_string ?h @ write_string ?l))"
    "slice ?b t (length (write_string ?h @ write_string ?l)) = ?l"
    using frame_written [OF len(2), of "write_string ?h" rest] by auto
  have hs: "decode_handshake utf8 ?h = Some \<lparr>hs_protocol_version = sint version, hs_server_address = a, hs_next_state = 2\<rparr>"
    using handshake_decoded [of address utf8 a port version 2] assms(1-3) by simp
  show ?thesis unfolding handshake_packet_def login_packet_def decode_minecraft_def
    using s t hs login_decoded [of username utf8 u extra] assms(4,5) by (simp del: append_assoc length_append)
qed

theorem login_decoded_exactly_witness:
  "da_fields (decode_minecraft (\<lambda>bs. Some (map (\<lambda>b. char_of (unat b)) bs))
      (handshake_packet 765 [109, 99] [0x63, 0xdd] 2 @ login_packet [98, 111, 116, 49] [7] @ [1, 2, 3])) ''username'' = Some (FieldText ''bot1'')"
proof -
  have "map (\<lambda>b. char_of (unat b)) [98, 111, 116, 49 :: 8 word] = ''bot1''" by code_simp
  moreover have "decode_minecraft (\<lambda>bs. Some (map (\<lambda>b. char_of (unat b)) bs))
      (handshake_packet 765 [109, 99] [0x63, 0xdd] 2 @ login_packet [98, 111, 116, 49] [7] @ [1, 2, 3])
    = \<lparr>da_done = True, da_fields = handshake_fields \<lparr>hs_protocol_version = sint (765 :: 32 word),
        hs_server_address = map (\<lambda>b. char_of (unat b)) [109, 99 :: 8 word], hs_next_state = 2\<rparr>
        ++ login_fields (map (\<lambda>b. char_of (unat b)) [98, 111, 116, 49 :: 8 word])\<rparr>"
    by (rule login_decoded_exactly) simp_all
  ultimately show ?thesis by (simp add: login_fields_def)
qed

section \<open>Limits of the decoded fields\<close>

lemma read_string_length:
  assumes "read_string utf8 b offset maximum = Read (s, used)" and "\<And>bs t. utf8 bs = Some t \<Longrightarrow> length t \<le> length bs"
  shows "int (length s) \<le> maximum"
proof -
  obtain n k where n: "read_var_int b offset = Read (n, k)" "0 \<le> n" "n \<le> maximum"
    "utf8 (slice b (offset + k) (offset + k + nat n)) = Some s"
    using assms(1) by (auto simp: read_string_def Let_def split: decoded.splits if_splits option.splits)
  have "length (slice b (offset + k) (offset + k + nat n)) \<le> nat n" by (simp add: slice_def)
  then show ?thesis using assms(2) [OF n(4)] n(2,3) by linarith
qed

lemma js_number_nat_text: "js_number (nat_text n) = Fin (of_nat n)"
proof -
  have ds: "\<forall>c \<in> set (nat_text n). is_digit c" using nat_text_digit by blast
  have ne: "nat_text n \<noteq> []" by simp
  have clean: "trim (nat_text n) = nat_text n" using ds by (intro trim_clean) (auto simp: char_class_defs)
  have whole: "takeWhile (Not \<circ> is_exp_mark) (nat_text n) = nat_text n" "dropWhile (Not \<circ> is_exp_mark) (nat_text n) = []"
    "takeWhile is_digit (nat_text n) = nat_text n" "dropWhile is_digit (nat_text n) = []"
    using ds by (auto simp: takeWhile_eq_all_conv dropWhile_eq_Nil_conv is_exp_mark_def is_digit_def)
  have low: "to_lower (take 2 (nat_text n)) = take 2 (nat_text n)"
    using ds by (intro to_lower_no_upper) (auto dest!: in_set_takeD simp: char_class_defs)
  have "radix_prefix (nat_text n) = None"
  proof -
    have "CHR ''x'' \<notin> set (take 2 (nat_text n))" "CHR ''o'' \<notin> set (take 2 (nat_text n))" "CHR ''b'' \<notin> set (take 2 (nat_text n))"
      using ds by (auto dest!: in_set_takeD simp: is_digit_def)
    then have "take 2 (nat_text n) \<noteq> ''0x''" "take 2 (nat_text n) \<noteq> ''0o''" "take 2 (nat_text n) \<noteq> ''0b''" by auto
    then show ?thesis by (simp add: radix_prefix_def low)
  qed
  moreover obtain c cs where c: "nat_text n = c # cs" "is_digit c" using ds ne by (cases "nat_text n") auto
  then have "strip_sign (nat_text n) = (False, nat_text n)" by (auto simp: strip_sign_def is_digit_def)
  moreover have "nat_text n \<noteq> ''Infinity''" using c by (auto simp: is_digit_def)
  moreover have "unsigned_decimal (nat_text n) = Some (of_nat n)"
    using ne by (simp add: unsigned_decimal_def decimal_mantissa_def whole pow10_def)
  ultimately show ?thesis using ne clean by (simp add: js_number_def)
qed

lemma decoded_address_length:
  assumes "\<And>bs t. utf8 bs = Some t \<Longrightarrow> length t \<le> length bs"
    and "da_fields (decode_minecraft utf8 b) ''server_address_length'' = Some v"
  shows "\<exists>n. v = FieldNumber (of_nat n) \<and> n \<le> 300"
proof -
  obtain view h where h: "decode_handshake utf8 view = Some h" "v = FieldNumber (of_nat (length (hs_server_address h)))"
    using assms(2) by (auto simp: decode_minecraft_def handshake_fields_def login_fields_def
        split: decoded.splits option.splits prod.splits if_splits)
  obtain offset used where "read_string utf8 view offset 300 = Read (hs_server_address h, used)"
    using h(1) by (auto simp: decode_handshake_def split: decoded.splits prod.splits if_splits)
  then show ?thesis using h(2) read_string_length [OF _ assms(1)] by fastforce
qed

text \<open>
  The rule MC-005 of the shipped ruleset, which looks for an address longer than 300 characters, matches
  no connection: the decoder refuses such an address, so the field never exceeds 300. The hypotheses on the
  arguments say that UTF-8 text is not longer than its bytes and that \<open>String\<close> writes small integers in
  decimal.
\<close>

theorem oversized_address_rule_dead:
  assumes "\<And>bs t. utf8 bs = Some t \<Longrightarrow> length t \<le> length bs" and "\<And>n. n \<le> 300 \<Longrightarrow> nt (of_nat n) = nat_text n"
    and "dom known \<subseteq> set generic_stream_fields"
  shows "\<not> evaluate_stream_leaf nt (known ++ da_fields (decode_minecraft utf8 b)) (demo_stream_leaf ''server_address_length'' SoGt ''300'')"
proof -
  have known: "known ''server_address_length'' = None" using assms(3) by (auto simp: generic_stream_fields_def)
  show ?thesis
  proof (cases "da_fields (decode_minecraft utf8 b) ''server_address_length''")
    case None
    with known show ?thesis by (simp add: evaluate_stream_leaf_def demo_stream_leaf_def map_add_def)
  next
    case (Some v)
    then obtain n where n: "v = FieldNumber (of_nat n)" "n \<le> 300" using decoded_address_length [OF assms(1)] by blast
    have "js_number ''300'' = Fin 300" by code_simp
    moreover have "js_number (take 4096 (nat_text n)) = Fin (of_nat n)"
      using length_to_base [of 10 3 n] n(2) by (simp add: js_number_nat_text)
    ultimately show ?thesis using Some n assms(2) [OF n(2)]
      by (simp add: evaluate_stream_leaf_def demo_stream_leaf_def stream_value_def field_text_def stream_operator_holds_def compare_with_def)
  qed
qed

theorem oversized_address_rule_dead_witness:
  "\<not> evaluate_stream_leaf (\<lambda>r. nat_text (nat \<lfloor>r\<rfloor>)) (Map.empty ++ da_fields (decode_minecraft (\<lambda>bs. Some (map (\<lambda>b. char_of (unat b)) bs)) [1, 0]))
     (demo_stream_leaf ''server_address_length'' SoGt ''300'')"
  by (rule oversized_address_rule_dead) (auto simp: floor_of_nat)

end
