(* ===== verification/Traffic_Limits.thy ===== *)
theory Traffic_Limits
  imports Stream_Decoder Route_Policy
begin

text \<open>
  Limits on traffic: the byte counters that ban an address (\<open>services/bandwidth-limit-service.ts\<close> and the
  second half of \<open>stream-connection-tracker.ts\<close>), the counters of connection behaviour behind the
  \<open>connection.*\<close> fields of stream rules (the first half of that file) and the keys of the request rate
  limiter (\<open>services/rate-limit-service.ts\<close>). The limiter itself is a library and an argument. Byte counts
  are integers; \<open>Date.now()\<close> is an argument of every operation.
\<close>

section \<open>Byte counters\<close>

record window_entry =
  we_start :: time
  we_bytes :: int
  we_banned :: bool

type_synonym window_counters = "(string, window_entry) omap"

definition window_start :: "int \<Rightarrow> time \<Rightarrow> time" where
  "window_start seconds now = now div (seconds * 1000) * (seconds * 1000)"

text \<open>Whether this call takes the window over its maximum, and the new counters.\<close>

definition count_window :: "string \<Rightarrow> int \<Rightarrow> int \<Rightarrow> int \<Rightarrow> time \<Rightarrow> window_counters \<Rightarrow> bool \<times> window_counters" where
  "count_window key seconds maximum bytes now counters =
     (let fresh = \<lparr>we_start = window_start seconds now, we_bytes = 0, we_banned = False\<rparr>;
          entry = (case om_get counters key of None \<Rightarrow> fresh | Some e \<Rightarrow> if we_start e \<noteq> window_start seconds now then fresh else e);
          counted = entry\<lparr>we_bytes := we_bytes entry + bytes\<rparr> in
      if \<not> we_banned counted \<and> maximum < we_bytes counted then (True, om_set key (counted\<lparr>we_banned := True\<rparr>) counters)
      else (False, om_set key counted counters))"

definition stale_window_ms :: time where
  "stale_window_ms = 2 * 60 * 60 * 1000"

definition prune_windows :: "time \<Rightarrow> window_counters \<Rightarrow> window_counters" where
  "prune_windows now counters = filter (\<lambda>(k, e). \<not> stale_window_ms < now - we_start e) counters"

text \<open>\<open>recordBandwidthLimitBytes\<close>: the ban of the address is the first component.\<close>

definition bandwidth_key :: "string \<Rightarrow> string \<Rightarrow> string" where
  "bandwidth_key scope ip = scope @ ''-'' @ ip"

definition record_bandwidth_bytes ::
  "(bool, int) bandwidth_of \<Rightarrow> string \<Rightarrow> string \<Rightarrow> int \<Rightarrow> time \<Rightarrow> window_counters \<Rightarrow> bool \<times> window_counters" where
  "record_bandwidth_bytes policy scope ip bytes now counters =
     (if \<not> bw_enabled policy \<or> bytes \<le> 0 \<or> ip = ''unknown'' then (False, counters)
      else count_window (bandwidth_key scope ip) (bw_window_seconds policy) (bw_max_bytes policy) bytes now counters)"

datatype stream_transport = OverTcp | OverUdp

definition transport_text :: "stream_transport \<Rightarrow> string" where
  "transport_text t = (case t of OverTcp \<Rightarrow> ''tcp'' | OverUdp \<Rightarrow> ''udp'')"

definition stream_bandwidth_key :: "string \<Rightarrow> stream_transport \<Rightarrow> string \<Rightarrow> string" where
  "stream_bandwidth_key stream transport ip = stream @ '' '' @ transport_text transport @ '' '' @ ip"

definition record_stream_bandwidth_bytes ::
  "string \<Rightarrow> stream_transport \<Rightarrow> string \<Rightarrow> int \<Rightarrow> (bool, int) bandwidth_of \<Rightarrow> time \<Rightarrow> window_counters \<Rightarrow> bool \<times> window_counters" where
  "record_stream_bandwidth_bytes stream transport ip bytes policy now counters =
     (if \<not> bw_enabled policy \<or> ip = ''unknown'' \<or> bytes \<le> 0 then (False, counters)
      else count_window (stream_bandwidth_key stream transport ip) (bw_window_seconds policy) (bw_max_bytes policy) bytes now counters)"

section \<open>Behaviour of connections\<close>

record tracker_entry =
  tk_attempts :: "time list"
  tk_disconnects :: "time list"
  tk_durations :: "int list"
  tk_upstream_failures :: "time list"
  tk_zero_byte :: bool
  tk_bytes :: int
  tk_packets :: int
  tk_bytes_per_second :: rat
  tk_packets_per_second :: rat
  tk_last_activity :: time

type_synonym tracker = "(string, tracker_entry) omap"

definition tracker_key :: "string \<Rightarrow> string \<Rightarrow> string" where
  "tracker_key stream ip = stream @ '' '' @ ip"

definition tracker_window_ms :: time where
  "tracker_window_ms = 60000"

definition entry_for :: "string \<Rightarrow> time \<Rightarrow> tracker \<Rightarrow> tracker_entry" where
  "entry_for key now st =
     (case om_get st key of
        Some e \<Rightarrow> e
      | None \<Rightarrow> \<lparr>tk_attempts = [], tk_disconnects = [], tk_durations = [], tk_upstream_failures = [], tk_zero_byte = False, tk_bytes = 0,
          tk_packets = 0, tk_bytes_per_second = 0, tk_packets_per_second = 0, tk_last_activity = now\<rparr>)"

text \<open>\<open>prune\<close> shifts the old events off the front; the durations keep the length of the disconnects.\<close>

definition prune_events :: "time \<Rightarrow> time list \<Rightarrow> time list" where
  "prune_events now ts = dropWhile (\<lambda>t. t < now - tracker_window_ms) ts"

definition keep_last :: "nat \<Rightarrow> 'a list \<Rightarrow> 'a list" where
  "keep_last n xs = drop (length xs - n) xs"

definition record_connection_attempt :: "string \<Rightarrow> string \<Rightarrow> time \<Rightarrow> tracker \<Rightarrow> tracker" where
  "record_connection_attempt stream ip now st =
     (if ip = ''unknown'' then st
      else
        let e = entry_for (tracker_key stream ip) now st in
        om_set (tracker_key stream ip) (e\<lparr>tk_attempts := prune_events now (tk_attempts e @ [now]), tk_last_activity := now\<rparr>) st)"

definition record_disconnect :: "string \<Rightarrow> string \<Rightarrow> int \<Rightarrow> bool \<Rightarrow> time \<Rightarrow> tracker \<Rightarrow> tracker" where
  "record_disconnect stream ip duration zero_byte now st =
     (if ip = ''unknown'' then st
      else
        let e = entry_for (tracker_key stream ip) now st; ds = prune_events now (tk_disconnects e @ [now]) in
        om_set (tracker_key stream ip)
          (e\<lparr>tk_disconnects := ds, tk_durations := keep_last (length ds) (tk_durations e @ [max 0 duration]), tk_zero_byte := zero_byte,
             tk_last_activity := now\<rparr>) st)"

definition record_upstream_failure :: "string \<Rightarrow> string \<Rightarrow> time \<Rightarrow> tracker \<Rightarrow> tracker" where
  "record_upstream_failure stream ip now st =
     (if ip = ''unknown'' then st
      else
        let e = entry_for (tracker_key stream ip) now st in
        om_set (tracker_key stream ip)
          (e\<lparr>tk_upstream_failures := prune_events now (tk_upstream_failures e @ [now]), tk_last_activity := now\<rparr>) st)"

definition record_bytes :: "string \<Rightarrow> string \<Rightarrow> int \<Rightarrow> time \<Rightarrow> tracker \<Rightarrow> tracker" where
  "record_bytes stream ip n now st =
     (if ip = ''unknown'' \<or> n \<le> 0 then st
      else
        let e = entry_for (tracker_key stream ip) now st in
        om_set (tracker_key stream ip)
          (e\<lparr>tk_bytes := tk_bytes e + n, tk_packets := tk_packets e + 1, tk_last_activity := now\<rparr>) st)"

definition compute_live_rates :: "int \<Rightarrow> tracker \<Rightarrow> tracker" where
  "compute_live_rates seconds st =
     map (\<lambda>(k, e). (k, e\<lparr>tk_bytes_per_second := of_int (tk_bytes e) / of_int seconds,
       tk_packets_per_second := of_int (tk_packets e) / of_int seconds, tk_bytes := 0, tk_packets := 0\<rparr>)) st"

definition prune_stale_entries :: "time \<Rightarrow> time \<Rightarrow> tracker \<Rightarrow> tracker" where
  "prune_stale_entries max_age now st = filter (\<lambda>(k, e). \<not> max_age < now - tk_last_activity e) st"

text \<open>\<open>Math.round\<close>\<close>

definition round_half_up :: "rat \<Rightarrow> int" where
  "round_half_up r = \<lfloor>r + 1 / 2\<rfloor>"

definition count_field :: "nat \<Rightarrow> field_content" where
  "count_field n = FieldNumber (of_nat n)"

definition connection_fields :: "stream_transport \<Rightarrow> tracker_entry \<Rightarrow> stream_fields" where
  "connection_fields transport e =
     [''connection.protocol'' \<mapsto> FieldText (transport_text transport),
      ''connection.attempts_60s'' \<mapsto> count_field (length (tk_attempts e)),
      ''connection.disconnects_60s'' \<mapsto> count_field (length (tk_disconnects e)),
      ''connection.avg_session_ms_60s'' \<mapsto> FieldNumber (of_int (round_half_up
        (if tk_durations e = [] then 0 else of_int (sum_list (tk_durations e)) / of_nat (length (tk_durations e))))),
      ''connection.upstream_failures_60s'' \<mapsto> count_field (length (tk_upstream_failures e)),
      ''connection.bytes_per_second'' \<mapsto> FieldNumber (of_int (round_half_up (tk_bytes_per_second e))),
      ''connection.packets_per_second'' \<mapsto> FieldNumber (of_int (round_half_up (tk_packets_per_second e))),
      ''connection.zero_byte_disconnect'' \<mapsto> FieldFlag (tk_zero_byte e)]"

text \<open>The fields of an address, and the entry pruned as a side effect; an unknown address has zeroes.\<close>

definition connection_metrics :: "string \<Rightarrow> string \<Rightarrow> stream_transport \<Rightarrow> time \<Rightarrow> tracker \<Rightarrow> stream_fields \<times> tracker" where
  "connection_metrics stream ip transport now st =
     (case om_get st (tracker_key stream ip) of
        None \<Rightarrow> (connection_fields transport (entry_for (tracker_key stream ip) now st), st)
      | Some e \<Rightarrow>
          (let ds = prune_events now (tk_disconnects e);
               e' = e\<lparr>tk_attempts := prune_events now (tk_attempts e), tk_disconnects := ds,
                 tk_upstream_failures := prune_events now (tk_upstream_failures e), tk_durations := keep_last (length ds) (tk_durations e)\<rparr> in
           (connection_fields transport e', om_set (tracker_key stream ip) e' st)))"

section \<open>Keys of the request rate limiter\<close>

text \<open>\<open>identifierFor\<close>; the digest of a header value is an argument.\<close>

definition rate_identifier :: "(string \<Rightarrow> string) \<Rightarrow> route_record \<Rightarrow> request \<Rightarrow> string \<Rightarrow> string option \<Rightarrow> string" where
  "rate_identifier digest r rq ip session =
     (let by_ip = ''ip:'' @ ip in
      case rp_rate_limit_key_mode r of
        KeySessionOrIp \<Rightarrow> (case session of Some s \<Rightarrow> ''session:'' @ s | None \<Rightarrow> by_ip)
      | KeyHeaderOrIp \<Rightarrow>
          (case rp_rate_limit_key_header r of
             Some h \<Rightarrow>
               (if h = [] then by_ip
                else case header h (rq_headers rq) of
                  Some v \<Rightarrow> if trim v = [] then by_ip else ''header:'' @ h @ '':'' @ digest (trim v)
                | None \<Rightarrow> by_ip)
           | None \<Rightarrow> by_ip)
      | KeyIp \<Rightarrow> by_ip)"

definition rate_endpoint :: "route_record \<Rightarrow> request \<Rightarrow> string" where
  "rate_endpoint r rq =
     (case rp_rate_limit_scope r of
        PerPath \<Rightarrow> rp_id r @ '':'' @ rq_pathname rq
      | PerMethodPath \<Rightarrow> rp_id r @ '':'' @ to_upper (rq_method rq) @ '':'' @ rq_pathname rq
      | PerPolicy \<Rightarrow> rp_id r)"

text \<open>
  The limiters created so far by policy, each with the settings it was created for (\<open>limiterFor\<close>); a change
  of the settings starts a new limiter. \<open>create\<close> and \<open>check\<close> are the library's.
\<close>

type_synonym limiter_settings = "rate_algorithm \<times> int \<times> int \<times> int \<times> int \<times> int"

definition limiter_signature :: "route_record \<Rightarrow> limiter_settings" where
  "limiter_signature r = (rp_rate_limit_algorithm r, rp_rate_limit_window_ms r, rp_rate_limit_max r, rp_rate_limit_refill_rate r,
     rp_rate_limit_refill_interval_ms r, rp_rate_limit_precision_ms r)"

type_synonym 'l limiters = "(string, limiter_settings \<times> 'l) omap"

definition limiter_for :: "(limiter_settings \<Rightarrow> 'l) \<Rightarrow> route_record \<Rightarrow> 'l limiters \<Rightarrow> 'l" where
  "limiter_for create r cache =
     (case om_get cache (rp_id r) of
        Some (settings, l) \<Rightarrow> if settings = limiter_signature r then l else create (limiter_signature r)
      | None \<Rightarrow> create (limiter_signature r))"

definition invalidate_route_rate_limiter :: "string \<Rightarrow> 'l limiters \<Rightarrow> 'l limiters" where
  "invalidate_route_rate_limiter i cache = om_delete i cache"

record limiter_result =
  lm_limited :: bool
  lm_limit :: int
  lm_remaining :: int
  lm_reset :: time

record rate_result =
  rr_limited :: bool
  rr_headers :: headers
  rr_retry_after :: "int option"

text \<open>\<open>Math.ceil(x / 1000)\<close>\<close>

definition limiter_seconds :: "int \<Rightarrow> int" where
  "limiter_seconds ms = - ((- ms) div 1000)"

definition algorithm_text :: "rate_algorithm \<Rightarrow> string" where
  "algorithm_text a = (case a of FixedWindow \<Rightarrow> ''fixed-window'' | SlidingWindow \<Rightarrow> ''sliding-window'' | TokenBucket \<Rightarrow> ''token-bucket'')"

definition rate_headers :: "limiter_result \<Rightarrow> rate_algorithm \<Rightarrow> time \<Rightarrow> headers" where
  "rate_headers res a now =
     [(''ratelimit-limit'', int_text (lm_limit res)), (''ratelimit-remaining'', int_text (max 0 (lm_remaining res))),
      (''ratelimit-reset'', int_text (limiter_seconds (lm_reset res))), (''ratelimit-algorithm'', algorithm_text a)]
     @ (if lm_limited res then [(''retry-after'', int_text (max 1 (limiter_seconds (lm_reset res - now))))] else [])"

definition apply_route_rate_limit ::
  "(limiter_settings \<Rightarrow> 'l) \<Rightarrow> ('l \<Rightarrow> string \<Rightarrow> string \<Rightarrow> time \<Rightarrow> limiter_result \<times> 'l) \<Rightarrow> (string \<Rightarrow> string) \<Rightarrow>
   route_record option \<Rightarrow> request \<Rightarrow> string \<Rightarrow> string option \<Rightarrow> time \<Rightarrow> 'l limiters \<Rightarrow> rate_result \<times> 'l limiters" where
  "apply_route_rate_limit create check digest policy rq ip session now cache =
     (case policy of
        None \<Rightarrow> (\<lparr>rr_limited = False, rr_headers = [], rr_retry_after = None\<rparr>, cache)
      | Some r \<Rightarrow>
          if \<not> rp_rate_limit_enabled r then (\<lparr>rr_limited = False, rr_headers = [], rr_retry_after = None\<rparr>, cache)
          else
            let (res, l) = check (limiter_for create r cache) (rate_endpoint r rq) (rate_identifier digest r rq ip session) now in
            (\<lparr>rr_limited = lm_limited res, rr_headers = rate_headers res (rp_rate_limit_algorithm r) now,
               rr_retry_after = (if lm_limited res then Some (max 1 (limiter_seconds (lm_reset res - now))) else None)\<rparr>,
             om_set (rp_id r) (limiter_signature r, l) cache))"

section \<open>One ban per window\<close>

datatype traffic_event = Bytes string string int time | Sweep time

fun event_time :: "traffic_event \<Rightarrow> time" where
  "event_time (Bytes scope ip n t) = t"
| "event_time (Sweep t) = t"

text \<open>The bans of an address within the window that begins at \<open>w\<close>, and the bytes counted in it.\<close>

fun window_bans :: "(string \<Rightarrow> (bool, int) bandwidth_of) \<Rightarrow> string \<Rightarrow> string \<Rightarrow> time \<Rightarrow> traffic_event list \<Rightarrow> window_counters \<Rightarrow> nat" where
  "window_bans policy scope ip w [] c = 0"
| "window_bans policy scope ip w (Bytes s i n t # es) c =
     (let (hit, c') = record_bandwidth_bytes (policy s) s i n t c in
      (if hit \<and> s = scope \<and> i = ip \<and> window_start (bw_window_seconds (policy scope)) t = w then 1 else 0)
      + window_bans policy scope ip w es c')"
| "window_bans policy scope ip w (Sweep t # es) c = window_bans policy scope ip w es (prune_windows t c)"

fun window_bytes :: "(string \<Rightarrow> (bool, int) bandwidth_of) \<Rightarrow> string \<Rightarrow> string \<Rightarrow> time \<Rightarrow> traffic_event list \<Rightarrow> int" where
  "window_bytes policy scope ip w [] = 0"
| "window_bytes policy scope ip w (Bytes s i n t # es) =
     (if s = scope \<and> i = ip \<and> window_start (bw_window_seconds (policy scope)) t = w then max 0 n else 0)
     + window_bytes policy scope ip w es"
| "window_bytes policy scope ip w (Sweep t # es) = window_bytes policy scope ip w es"

lemma window_start_bounds: "0 < seconds \<Longrightarrow> window_start seconds t \<le> t \<and> t < window_start seconds t + seconds * 1000"
proof -
  assume "0 < seconds"
  then have "0 < seconds * 1000" by simp
  from pos_mod_bound [OF this, of t] pos_mod_sign [OF this, of t] show ?thesis
    unfolding window_start_def by (simp only: minus_mod_eq_div_mult [symmetric]) linarith
qed

lemma window_start_in: "0 < seconds \<Longrightarrow> window_start seconds s \<le> t \<Longrightarrow> t < window_start seconds s + seconds * 1000 \<Longrightarrow> window_start seconds t = window_start seconds s"
proof -
  assume a: "0 < seconds" "window_start seconds s \<le> t" "t < window_start seconds s + seconds * 1000"
  let ?W = "seconds * 1000"
  have "t div ?W = s div ?W"
    using a by (intro int_div_pos_eq [of t ?W "s div ?W" "t - window_start seconds s"])
      (simp_all add: window_start_def mult.commute)
  then show ?thesis by (simp add: window_start_def)
qed

lemma first_separator: "c \<notin> set x \<Longrightarrow> c \<notin> set y \<Longrightarrow> x @ c # a = y @ c # b \<longleftrightarrow> x = y \<and> a = b"
proof (induction x arbitrary: y)
  case Nil
  then show ?case by (cases y) auto
next
  case (Cons d x)
  then show ?case by (cases y) auto
qed

lemma last_separator: "c \<notin> set x \<Longrightarrow> c \<notin> set y \<Longrightarrow> a @ c # x = b @ c # y \<longleftrightarrow> a = b \<and> x = y"
proof -
  assume "c \<notin> set x" "c \<notin> set y"
  then have "rev x @ c # rev a = rev y @ c # rev b \<longleftrightarrow> rev x = rev y \<and> rev a = rev b" by (intro first_separator) simp_all
  moreover have "a @ c # x = b @ c # y \<longleftrightarrow> rev (a @ c # x) = rev (b @ c # y)" by (simp only: rev_is_rev_conv)
  ultimately show ?thesis by auto
qed

lemma bandwidth_key_inj:
  "CHR ''-'' \<notin> set i \<Longrightarrow> CHR ''-'' \<notin> set j \<Longrightarrow> bandwidth_key s i = bandwidth_key r j \<longleftrightarrow> s = r \<and> i = j"
  by (simp add: bandwidth_key_def last_separator)

lemma om_get_filter: "om_inv m \<Longrightarrow> om_get (filter (\<lambda>(k, v). P k v) m) k = (case om_get m k of None \<Rightarrow> None | Some v \<Rightarrow> if P k v then Some v else None)"
proof (induction m)
  case (Cons x m)
  have "map_of m k = None" if "fst x = k" using Cons.prems that by (auto simp: om_inv_def om_keys_def map_of_eq_None_iff)
  then show ?case using Cons by (auto simp: om_get_def om_inv_def om_keys_def split: option.splits)
qed (simp add: om_get_def)

lemma om_inv_filter: "om_inv m \<Longrightarrow> om_inv (filter P m)"
  by (auto simp: om_inv_def om_keys_def intro: distinct_map_filter)

lemma window_bytes_nonneg: "0 \<le> window_bytes policy scope ip w es"
  by (induction policy scope ip w es rule: window_bytes.induct) auto

lemma window_over:
  assumes "\<forall>e \<in> set es. w + bw_window_seconds (policy scope) * 1000 \<le> event_time e" and "0 < bw_window_seconds (policy scope)"
  shows "window_bans policy scope ip w es c = 0 \<and> window_bytes policy scope ip w es = 0"
  using assms(1)
proof (induction es arbitrary: c)
  case (Cons e es)
  then show ?case using window_start_bounds [OF assms(2), of "event_time e"] by (cases e) (auto split: prod.split)
qed simp

text \<open>The bytes and the ban that the counters hold for the window.\<close>

definition window_state :: "string \<Rightarrow> time \<Rightarrow> window_counters \<Rightarrow> int \<times> bool" where
  "window_state k w c = (case om_get c k of None \<Rightarrow> (0, False) | Some e \<Rightarrow> if we_start e = w then (we_bytes e, we_banned e) else (0, False))"

lemma count_window_other: "key \<noteq> k \<Longrightarrow> om_get (snd (count_window key s m n t c)) k = om_get c k"
  by (simp add: count_window_def Let_def om_get_set)

lemma count_window_same:
  "count_window k s m n t c = (\<not> snd (window_state k (window_start s t) c) \<and> m < fst (window_state k (window_start s t) c) + n,
     om_set k \<lparr>we_start = window_start s t, we_bytes = fst (window_state k (window_start s t) c) + n,
       we_banned = (snd (window_state k (window_start s t) c) \<or> m < fst (window_state k (window_start s t) c) + n)\<rparr> c)"
proof (cases "om_get c k")
  case (Some e)
  then show ?thesis by (cases e) (auto simp: count_window_def Let_def window_state_def)
qed (auto simp: count_window_def Let_def window_state_def)

lemma om_inv_count: "om_inv c \<Longrightarrow> om_inv (snd (count_window k s m n t c))"
  by (simp add: count_window_def Let_def om_inv_set)

lemma record_bandwidth_other:
  "om_get (snd (record_bandwidth_bytes p s i n t c)) k = om_get c k" if "bandwidth_key s i \<noteq> k"
  using that by (simp add: record_bandwidth_bytes_def count_window_other)

lemma om_inv_record: "om_inv c \<Longrightarrow> om_inv (snd (record_bandwidth_bytes p s i n t c))"
  by (simp add: record_bandwidth_bytes_def om_inv_count)

lemma window_state_set: "window_state k w (om_set k e c) = (if we_start e = w then (we_bytes e, we_banned e) else (0, False))"
  by (simp add: window_state_def om_get_set)

lemma window_state_cong: "om_get c k = om_get d k \<Longrightarrow> window_state k w c = window_state k w d"
  by (simp add: window_state_def)

lemma window_bans_exact:
  assumes "bw_enabled (policy scope)" and "0 < bw_window_seconds (policy scope)" and "bw_window_seconds (policy scope) \<le> 3600"
    and "ip \<noteq> ''unknown''" and "CHR ''-'' \<notin> set ip" and w: "w = window_start (bw_window_seconds (policy scope)) t0"
  shows "sorted (map event_time es) \<Longrightarrow> \<forall>s i n t. Bytes s i n t \<in> set es \<longrightarrow> CHR ''-'' \<notin> set i \<Longrightarrow> om_inv c \<Longrightarrow>
    window_state (bandwidth_key scope ip) w c = (b, banned) \<Longrightarrow> banned = (bw_max_bytes (policy scope) < b) \<Longrightarrow> 0 \<le> bw_max_bytes (policy scope) \<Longrightarrow>
    (b \<noteq> 0 \<longrightarrow> (\<forall>e \<in> set es. w \<le> event_time e)) \<Longrightarrow>
    window_bans policy scope ip w es c
      = (if \<not> banned \<and> bw_max_bytes (policy scope) < b + window_bytes policy scope ip w es then 1 else 0)"
proof (induction es arbitrary: c b banned)
  case (Cons e es)
  let ?p = "policy scope" and ?k = "bandwidth_key scope ip"
  have sorted: "sorted (map event_time es)" and later: "\<forall>e' \<in> set es. event_time e \<le> event_time e'" using Cons.prems(1) by auto
  have clean: "\<forall>s i n t. Bytes s i n t \<in> set es \<longrightarrow> CHR ''-'' \<notin> set i" using Cons.prems(2) by simp
  have reset: "window_bans policy scope ip w es d = 0 \<and> window_bytes policy scope ip w es = 0"
    if "w + bw_window_seconds ?p * 1000 \<le> event_time e" for d
    proof (rule window_over [of es w policy scope ip d, OF _ assms(2)])
    show "\<forall>e' \<in> set es. w + bw_window_seconds ?p * 1000 \<le> event_time e'" using later that order_trans by blast
  qed
  show ?case
  proof (cases e)
    case (Sweep t)
    show ?thesis
    proof (cases "window_state ?k w (prune_windows t c) = window_state ?k w c")
      case True
      then show ?thesis using Cons.IH [OF sorted clean om_inv_filter [OF Cons.prems(3)], of _ b banned] Cons.prems(4-7) Sweep
        by (simp add: prune_windows_def)
    next
      case False
      then have "stale_window_ms < t - w" using Cons.prems(3)
        by (auto simp: window_state_def prune_windows_def om_get_filter split: option.splits if_splits)
      then have "w + bw_window_seconds ?p * 1000 \<le> event_time e" using assms(3) Sweep by (simp add: stale_window_ms_def)
      then show ?thesis using reset Sweep Cons.prems(5) by simp
    qed
  next
    case (Bytes s i n t)
    have next_inv: "om_inv (snd (record_bandwidth_bytes (policy s) s i n t c))" using Cons.prems(3) by (rule om_inv_record)
    consider (same) "s = scope" "i = ip" "0 < n" | (other) "\<not> (s = scope \<and> i = ip \<and> 0 < n)" by blast
    then show ?thesis
    proof cases
      case same
      have e: "e = Bytes scope ip n t" using same Bytes by simp
      have counted: "record_bandwidth_bytes ?p scope ip n t c = count_window ?k (bw_window_seconds ?p) (bw_max_bytes ?p) n t c"
        using same assms(1,4) by (simp add: record_bandwidth_bytes_def)
      show ?thesis
      proof (cases "window_start (bw_window_seconds ?p) t = w")
        case True
        then have "w \<le> t" using window_start_bounds [OF assms(2), of t] by simp
        then have from_w: "\<forall>e' \<in> set es. w \<le> event_time e'" using later Bytes by fastforce
        let ?m = "bw_max_bytes ?p"
        define d where "d = om_set ?k \<lparr>we_start = w, we_bytes = b + n, we_banned = (?m < b + n)\<rparr> c"
        have joined: "(banned \<or> ?m < b + n) = (?m < b + n)" using Cons.prems(5) same(3) by auto
        have step: "record_bandwidth_bytes ?p scope ip n t c = (\<not> banned \<and> ?m < b + n, d)"
          using Cons.prems(4) joined unfolding counted count_window_same True d_def by simp
        have "window_bans policy scope ip w es d = (if \<not> ?m < b + n \<and> ?m < b + n + window_bytes policy scope ip w es then 1 else 0)"
          using next_inv step same(1,2) from_w Cons.prems(6)
          by (intro Cons.IH [OF sorted clean]) (simp_all add: d_def window_state_set)
        then show ?thesis using Cons.prems(5) window_bytes_nonneg [of policy scope ip w es] same(3) True
          by (auto simp: e step)
      next
        case False
        show ?thesis
        proof (cases "b = 0")
          case True
          then show ?thesis
            using Cons.IH [OF sorted clean next_inv, of 0 False] False same Cons.prems(4-6) Bytes
            by (simp add: e counted count_window_same window_state_set)
        next
          case b: False
          then have "w \<le> t" using Cons.prems(7) Bytes by simp
          then have "w + bw_window_seconds ?p * 1000 \<le> event_time e"
            using False window_start_in [OF assms(2), of t0 t] Bytes unfolding w by fastforce
          then show ?thesis using reset [of "snd (count_window ?k (bw_window_seconds ?p) (bw_max_bytes ?p) n t c)"] Cons.prems(5) Bytes False same
            by (simp add: e counted split_beta)
        qed
      qed
    next
      case other
      have "window_state ?k w (snd (record_bandwidth_bytes (policy s) s i n t c)) = window_state ?k w c"
      proof (cases "s = scope \<and> i = ip")
        case True
        then show ?thesis using other by (simp add: record_bandwidth_bytes_def)
      next
        case False
        then have "bandwidth_key s i \<noteq> ?k" using bandwidth_key_inj Cons.prems(2) assms(5) Bytes by (metis list.set_intros(1))
        then show ?thesis by (intro window_state_cong record_bandwidth_other)
      qed
      moreover have "\<not> (fst (record_bandwidth_bytes (policy s) s i n t c) \<and> s = scope \<and> i = ip)"
        using other by (auto simp: record_bandwidth_bytes_def)
      ultimately show ?thesis
        using Cons.IH [OF sorted clean next_inv, of b banned] Cons.prems(4-7) Bytes other by (auto simp: split_beta)
    qed
  qed
qed simp

text \<open>
  C37: an address that has a bandwidth limit is banned exactly once in each window in which its bytes exceed
  the limit, and not at all in any other: whatever other addresses do, wherever the sweeps of stale counters
  fall, as long as the clock does not run backwards.
\<close>

theorem one_ban_per_window:
  assumes "bw_enabled (policy scope)" and "bandwidth_ok always (policy scope)" and "ip \<noteq> ''unknown''"
    and "CHR ''-'' \<notin> set ip" and "\<forall>s i n t. Bytes s i n t \<in> set es \<longrightarrow> CHR ''-'' \<notin> set i" and "sorted (map event_time es)"
    and "w = window_start (bw_window_seconds (policy scope)) t0"
  shows "window_bans policy scope ip w es [] = (if bw_max_bytes (policy scope) < window_bytes policy scope ip w es then 1 else 0)"
  using window_bans_exact [of policy scope ip w t0 es "[]" 0 False] assms
  by (simp add: bandwidth_ok_def max_bandwidth_limit_window_seconds_def om_inv_def om_keys_def window_state_def om_get_def)

definition demo_limit :: "(bool, int) bandwidth_of" where
  "demo_limit = \<lparr>bw_enabled = True, bw_max_bytes = 1000, bw_window_seconds = 60, bw_ban_seconds = 3600\<rparr>"

theorem one_ban_per_window_witness:
  "window_bans (\<lambda>_. demo_limit) ''s'' ''10.0.0.1'' 60000
     [Bytes ''s'' ''10.0.0.1'' 900 59000, Bytes ''s'' ''10.0.0.1'' 600 60000, Sweep 61000, Bytes ''s'' ''10.0.0.2'' 900 62000,
      Bytes ''s'' ''10.0.0.1'' 600 63000, Bytes ''s'' ''10.0.0.1'' 600 64000] [] = 1"
proof -
  let ?es = "[Bytes ''s'' ''10.0.0.1'' 900 59000, Bytes ''s'' ''10.0.0.1'' 600 60000, Sweep 61000, Bytes ''s'' ''10.0.0.2'' 900 62000,
      Bytes ''s'' ''10.0.0.1'' 600 63000, Bytes ''s'' ''10.0.0.1'' 600 64000]"
  have "window_bans (\<lambda>_. demo_limit) ''s'' ''10.0.0.1'' 60000 ?es []
      = (if bw_max_bytes demo_limit < window_bytes (\<lambda>_. demo_limit) ''s'' ''10.0.0.1'' 60000 ?es then 1 else 0)"
    by (rule one_ban_per_window [where ?t0.0 = 60000])
      (auto simp: demo_limit_def bandwidth_ok_def bound_defs window_start_def)
  also have "window_bytes (\<lambda>_. demo_limit) ''s'' ''10.0.0.1'' 60000 ?es = 1800" by code_simp
  finally show ?thesis by (simp add: demo_limit_def)
qed

end
