(* ===== verification/Stream_Relay.thy ===== *)
theory Stream_Relay
  imports Traffic_Limits
begin

text \<open>
  One TCP connection of \<open>services/stream-proxy-service.ts\<close>: admission, the inspection of the first bytes,
  the two queues with back-pressure, and the PROXY header in front. The state is the record of the fields of
  \<open>TcpConnection\<close> with what its two sockets have accepted and whether they are paused. An event of the run
  loop is a step; \<open>admitTcp\<close> and the ban after a verdict wait for the database, so their ends are events of
  their own and other events fall between. The result of a socket's \<open>write\<close> is an argument: negative when the
  socket is closed, and at most the length of the data. A socket that is paused delivers no data. The header
  bytes, the policies and the limits are those of the stream; addresses, metrics and log events are left out.
\<close>

section \<open>The connection\<close>

record tcp_connection =
  tc_closed :: bool
  tc_upstream :: bool
  tc_to_upstream :: "octets list"
  tc_to_client :: "octets list"
  tc_queued :: nat
  tc_header :: "octets option"
  tc_header_offset :: nat
  tc_client_ended :: bool
  tc_decode_protocol :: "string option"
  tc_decode_chunks :: "octets list"
  tc_decode_bytes :: nat
  tc_decode_max :: int
  tc_decode_timer :: bool
  tc_awaiting :: bool
  tc_username :: "string option"
  tc_admitted :: bool
  tc_connecting :: bool
  tc_ban_pending :: bool
  tc_client_paused :: bool
  tc_upstream_paused :: bool
  tc_sent_upstream :: octets
  tc_sent_client :: octets

record relay_env =
  re_max_buffered :: nat
  re_header :: "octets option"
  re_decoder :: "string \<Rightarrow> (octets \<Rightarrow> decode_attempt) option"
  re_nt :: "rat \<Rightarrow> string"
  re_rank :: "string \<Rightarrow> nat"
  re_registry :: stream_registry
  re_policy :: stream_protection

definition new_connection :: tcp_connection where
  "new_connection = \<lparr>tc_closed = False, tc_upstream = False, tc_to_upstream = [], tc_to_client = [], tc_queued = 0, tc_header = None,
     tc_header_offset = 0, tc_client_ended = False, tc_decode_protocol = None, tc_decode_chunks = [], tc_decode_bytes = 0, tc_decode_max = 0,
     tc_decode_timer = False, tc_awaiting = False, tc_username = None, tc_admitted = False, tc_connecting = False, tc_ban_pending = False,
     tc_client_paused = False, tc_upstream_paused = False, tc_sent_upstream = [], tc_sent_client = []\<rparr>"

definition finish_tcp :: "tcp_connection \<Rightarrow> tcp_connection" where
  "finish_tcp c = (if tc_closed c then c else c\<lparr>tc_closed := True, tc_decode_timer := False\<rparr>)"

section \<open>Queues\<close>

datatype relay_direction = ToUpstream | ToClient

definition queue_of :: "relay_direction \<Rightarrow> tcp_connection \<Rightarrow> octets list" where
  "queue_of d c = (case d of ToUpstream \<Rightarrow> tc_to_upstream c | ToClient \<Rightarrow> tc_to_client c)"

definition set_queue :: "relay_direction \<Rightarrow> octets list \<Rightarrow> tcp_connection \<Rightarrow> tcp_connection" where
  "set_queue d q c = (case d of ToUpstream \<Rightarrow> c\<lparr>tc_to_upstream := q\<rparr> | ToClient \<Rightarrow> c\<lparr>tc_to_client := q\<rparr>)"

definition sent_to :: "relay_direction \<Rightarrow> tcp_connection \<Rightarrow> octets" where
  "sent_to d c = (case d of ToUpstream \<Rightarrow> tc_sent_upstream c | ToClient \<Rightarrow> tc_sent_client c)"

definition add_sent :: "relay_direction \<Rightarrow> octets \<Rightarrow> tcp_connection \<Rightarrow> tcp_connection" where
  "add_sent d bs c = (case d of ToUpstream \<Rightarrow> c\<lparr>tc_sent_upstream := tc_sent_upstream c @ bs\<rparr>
     | ToClient \<Rightarrow> c\<lparr>tc_sent_client := tc_sent_client c @ bs\<rparr>)"

text \<open>Pausing and resuming the socket the data of a direction comes from.\<close>

definition set_paused :: "relay_direction \<Rightarrow> bool \<Rightarrow> tcp_connection \<Rightarrow> tcp_connection" where
  "set_paused d b c = (case d of ToUpstream \<Rightarrow> c\<lparr>tc_client_paused := b\<rparr> | ToClient \<Rightarrow> c\<lparr>tc_upstream_paused := b\<rparr>)"

definition has_destination :: "relay_direction \<Rightarrow> tcp_connection \<Rightarrow> bool" where
  "has_destination d c = (case d of ToUpstream \<Rightarrow> tc_upstream c | ToClient \<Rightarrow> True)"

definition queue_tcp :: "relay_env \<Rightarrow> relay_direction \<Rightarrow> octets \<Rightarrow> tcp_connection \<Rightarrow> tcp_connection" where
  "queue_tcp env d chunk c =
     (let c' = c\<lparr>tc_queued := tc_queued c + length chunk\<rparr> in
      if re_max_buffered env < tc_queued c' then finish_tcp c'
      else set_paused d True (set_queue d (queue_of d c' @ [chunk]) c'))"

text \<open>The results of \<open>write\<close> still to come; a socket with no more entries accepts everything.\<close>

fun socket_write :: "int list \<Rightarrow> octets \<Rightarrow> int \<times> int list" where
  "socket_write [] chunk = (int (length chunk), [])"
| "socket_write (w # ws) chunk = (min w (int (length chunk)), ws)"

definition write_tcp :: "relay_env \<Rightarrow> relay_direction \<Rightarrow> octets \<Rightarrow> int list \<Rightarrow> tcp_connection \<Rightarrow> tcp_connection" where
  "write_tcp env d chunk ws c =
     (if tc_closed c then c
      else if \<not> has_destination d c \<or> (d = ToUpstream \<and> tc_header c \<noteq> None) then queue_tcp env d chunk c
      else
        let (written, _) = socket_write ws chunk in
        if written < 0 then finish_tcp c
        else
          let c' = add_sent d (take (nat written) chunk) c in
          if nat written < length chunk then queue_tcp env d (drop (nat written) chunk) c' else c')"

text \<open>The loop over the queue of a direction; it stops at the first write that is not complete.\<close>

fun flush_queue :: "relay_direction \<Rightarrow> int list \<Rightarrow> octets list \<Rightarrow> tcp_connection \<Rightarrow> tcp_connection" where
  "flush_queue d ws [] c = set_paused d False (set_queue d [] c)"
| "flush_queue d ws (chunk # q) c =
     (let (written, ws') = socket_write ws chunk in
      if written < 0 then finish_tcp c
      else
        let c' = add_sent d (take (nat written) chunk) (c\<lparr>tc_queued := tc_queued c - nat written\<rparr>) in
        if nat written < length chunk then set_queue d (drop (nat written) chunk # q) c'
        else flush_queue d ws' q (set_queue d q c'))"

definition flush_tcp :: "relay_direction \<Rightarrow> int list \<Rightarrow> tcp_connection \<Rightarrow> tcp_connection" where
  "flush_tcp d ws c =
     (if tc_closed c \<or> \<not> has_destination d c then c
      else case (if d = ToUpstream then tc_header c else None) of
        None \<Rightarrow> flush_queue d ws (queue_of d c) c
      | Some h \<Rightarrow>
          (let pending = drop (tc_header_offset c) h; (written, ws') = socket_write ws pending in
           if written < 0 then finish_tcp c
           else
             let c' = (add_sent d (take (nat written) pending) c)\<lparr>tc_header_offset := tc_header_offset c + nat written\<rparr> in
             if tc_header_offset c' < length h then c'
             else flush_queue d ws' (queue_of d c') (c'\<lparr>tc_header := None, tc_header_offset := 0\<rparr>)))"

section \<open>Admission and inspection\<close>

definition open_tcp_upstream :: "relay_env \<Rightarrow> tcp_connection \<Rightarrow> tcp_connection" where
  "open_tcp_upstream env c =
     (case re_header env of
        None \<Rightarrow> c\<lparr>tc_connecting := True\<rparr>
      | Some h \<Rightarrow> c\<lparr>tc_connecting := True, tc_header := Some h, tc_header_offset := 0\<rparr>)"

definition note_username :: "stream_fields \<Rightarrow> tcp_connection \<Rightarrow> tcp_connection" where
  "note_username decoded c =
     (case decoded ''username'' of
        Some (FieldText u) \<Rightarrow> if u \<noteq> [] then c\<lparr>tc_username := Some u\<rparr> else c
      | _ \<Rightarrow> c)"

text \<open>\<open>evaluateProtectionAndProceed\<close>, up to the ban of a blocked address, which is awaited.\<close>

definition evaluate_and_proceed :: "relay_env \<Rightarrow> stream_fields \<Rightarrow> stream_fields \<Rightarrow> tcp_connection \<Rightarrow> tcp_connection" where
  "evaluate_and_proceed env known decoded c =
     (if tc_closed c then c
      else
        let result = inspect_stream_connection (re_nt env) (re_rank env) (re_registry env) (known ++ decoded) (re_policy env);
            c1 = note_username decoded c in
        if tr_status result = ProtectionBlocked then c1\<lparr>tc_ban_pending := True\<rparr>
        else if tc_decode_protocol c1 \<noteq> None \<or> tc_decode_chunks c1 \<noteq> [] then
          let buffered = concat (tc_decode_chunks c1);
              c2 = c1\<lparr>tc_decode_protocol := None, tc_awaiting := False, tc_decode_chunks := [], tc_decode_bytes := 0\<rparr> in
          open_tcp_upstream env (if buffered \<noteq> [] then write_tcp env ToUpstream buffered [] c2 else c2)
        else open_tcp_upstream env c1)"

definition finish_decode :: "relay_env \<Rightarrow> stream_fields \<Rightarrow> stream_fields \<Rightarrow> tcp_connection \<Rightarrow> tcp_connection" where
  "finish_decode env known decoded c =
     (if tc_closed c \<or> tc_awaiting c then c
      else evaluate_and_proceed env known decoded (c\<lparr>tc_awaiting := True, tc_decode_timer := False\<rparr>))"

definition decode_buffer :: "relay_env \<Rightarrow> tcp_connection \<Rightarrow> decode_attempt" where
  "decode_buffer env c =
     (case Option.bind (tc_decode_protocol c) (re_decoder env) of
        None \<Rightarrow> \<lparr>da_done = True, da_fields = Map.empty\<rparr>
      | Some decoder \<Rightarrow> decoder (concat (tc_decode_chunks c)))"

definition try_complete_decode :: "relay_env \<Rightarrow> stream_fields \<Rightarrow> tcp_connection \<Rightarrow> tcp_connection" where
  "try_complete_decode env known c =
     (if tc_closed c \<or> tc_decode_protocol c = None \<or> tc_awaiting c then c
      else if da_done (decode_buffer env c) \<or> tc_decode_max c \<le> int (tc_decode_bytes c)
      then finish_decode env known (da_fields (decode_buffer env c)) c
      else c)"

definition force_finish_decode :: "relay_env \<Rightarrow> stream_fields \<Rightarrow> tcp_connection \<Rightarrow> tcp_connection" where
  "force_finish_decode env known c =
     (if tc_closed c \<or> tc_decode_protocol c = None \<or> tc_awaiting c then c
      else finish_decode env known (da_fields (decode_buffer env c)) c)"

definition handle_decode_chunk :: "relay_env \<Rightarrow> stream_fields \<Rightarrow> octets \<Rightarrow> tcp_connection \<Rightarrow> tcp_connection" where
  "handle_decode_chunk env known chunk c =
     (if tc_closed c then c
      else
        let c' = c\<lparr>tc_decode_chunks := tc_decode_chunks c @ [chunk], tc_decode_bytes := tc_decode_bytes c + length chunk\<rparr> in
        if tc_awaiting c' then c' else try_complete_decode env known c')"

definition begin_decode :: "string \<Rightarrow> int \<Rightarrow> tcp_connection \<Rightarrow> tcp_connection" where
  "begin_decode protocol most c =
     (if tc_closed c then c
      else c\<lparr>tc_decode_protocol := Some protocol, tc_decode_chunks := [], tc_decode_bytes := 0, tc_decode_max := most,
        tc_awaiting := False, tc_decode_timer := True\<rparr>)"

text \<open>
  The end of \<open>admitTcp\<close>: \<open>blocked\<close> says that a rule, a list or a limit refuses the address. The fallback of
  the decoding limit is its default of 2048 bytes.
\<close>

definition admit_tcp :: "relay_env \<Rightarrow> bool \<Rightarrow> stream_fields \<Rightarrow> tcp_connection \<Rightarrow> tcp_connection" where
  "admit_tcp env blocked known c =
     (let c = c\<lparr>tc_admitted := True\<rparr> in
      if tc_closed c then c
      else if blocked then finish_tcp c
      else if tp_mode (re_policy env) = StreamOff \<or> tp_ruleset_ids (re_policy env) = [] then open_tcp_upstream env c
      else case stream_decode_protocols (re_registry env) (tp_ruleset_ids (re_policy env)) of
        protocol # _ \<Rightarrow>
          begin_decode protocol
            (case stream_decode_config_for (re_registry env) (tp_ruleset_ids (re_policy env)) protocol of Some (_, m) \<Rightarrow> m | None \<Rightarrow> 2048) c
      | [] \<Rightarrow> evaluate_and_proceed env known Map.empty c)"

section \<open>Events\<close>

datatype relay_event =
    Admitted bool stream_fields
  | ClientData octets "int list" stream_fields
  | DecodeTimeout stream_fields
  | BanFinished
  | UpstreamOpen "int list"
  | UpstreamDrain "int list"
  | ClientDrain "int list"
  | UpstreamData octets "int list"
  | ClientEnd
  | Closing

text \<open>When an event can happen.\<close>

fun relay_allowed :: "tcp_connection \<Rightarrow> relay_event \<Rightarrow> bool" where
  "relay_allowed c (Admitted blocked known) \<longleftrightarrow> \<not> tc_admitted c"
| "relay_allowed c (ClientData chunk ws known) \<longleftrightarrow> \<not> tc_client_paused c \<and> chunk \<noteq> []"
| "relay_allowed c (DecodeTimeout known) \<longleftrightarrow> tc_decode_timer c"
| "relay_allowed c BanFinished \<longleftrightarrow> tc_ban_pending c"
| "relay_allowed c (UpstreamOpen ws) \<longleftrightarrow> tc_connecting c \<and> \<not> tc_upstream c"
| "relay_allowed c (UpstreamDrain ws) \<longleftrightarrow> tc_upstream c"
| "relay_allowed c (ClientDrain ws) \<longleftrightarrow> True"
| "relay_allowed c (UpstreamData chunk ws) \<longleftrightarrow> tc_upstream c \<and> \<not> tc_upstream_paused c \<and> chunk \<noteq> []"
| "relay_allowed c ClientEnd \<longleftrightarrow> True"
| "relay_allowed c Closing \<longleftrightarrow> True"

fun relay_handle :: "relay_env \<Rightarrow> relay_event \<Rightarrow> tcp_connection \<Rightarrow> tcp_connection" where
  "relay_handle env (Admitted blocked known) c = admit_tcp env blocked known c"
| "relay_handle env (ClientData chunk ws known) c =
     (if tc_decode_protocol c \<noteq> None then handle_decode_chunk env known chunk c else write_tcp env ToUpstream chunk ws c)"
| "relay_handle env (DecodeTimeout known) c = force_finish_decode env known (c\<lparr>tc_decode_timer := False\<rparr>)"
| "relay_handle env BanFinished c = finish_tcp (c\<lparr>tc_ban_pending := False\<rparr>)"
| "relay_handle env (UpstreamOpen ws) c = (if tc_closed c then c else flush_tcp ToUpstream ws (c\<lparr>tc_upstream := True\<rparr>))"
| "relay_handle env (UpstreamDrain ws) c = flush_tcp ToUpstream ws c"
| "relay_handle env (ClientDrain ws) c = flush_tcp ToClient ws c"
| "relay_handle env (UpstreamData chunk ws) c = write_tcp env ToClient chunk ws c"
| "relay_handle env ClientEnd c = c\<lparr>tc_client_ended := True\<rparr>"
| "relay_handle env Closing c = finish_tcp c"

fun relay :: "relay_env \<Rightarrow> relay_event list \<Rightarrow> tcp_connection \<Rightarrow> tcp_connection option" where
  "relay env [] c = Some c"
| "relay env (e # es) c = (if relay_allowed c e then relay env es (relay_handle env e c) else None)"

section \<open>No byte is lost, repeated or reordered\<close>

fun data_from_client :: "relay_event list \<Rightarrow> octets" where
  "data_from_client [] = []"
| "data_from_client (ClientData chunk ws known # es) = chunk @ data_from_client es"
| "data_from_client (_ # es) = data_from_client es"

fun data_from_upstream :: "relay_event list \<Rightarrow> octets" where
  "data_from_upstream [] = []"
| "data_from_upstream (UpstreamData chunk ws # es) = chunk @ data_from_upstream es"
| "data_from_upstream (_ # es) = data_from_upstream es"

text \<open>What is still to be written to the upstream: the rest of the header, the queue and the bytes under inspection.\<close>

fun header_rest :: "octets option \<Rightarrow> nat \<Rightarrow> octets" where
  "header_rest None offset = []"
| "header_rest (Some h) offset = drop offset h"

definition pending_upstream :: "tcp_connection \<Rightarrow> octets" where
  "pending_upstream c = header_rest (tc_header c) (tc_header_offset c)
     @ concat (tc_to_upstream c) @ concat (tc_decode_chunks c)"

definition header_bytes :: "relay_env \<Rightarrow> tcp_connection \<Rightarrow> octets" where
  "header_bytes env c = (if tc_connecting c then header_rest (re_header env) 0 else [])"

definition relay_ok :: "relay_env \<Rightarrow> octets \<Rightarrow> octets \<Rightarrow> tcp_connection \<Rightarrow> bool" where
  "relay_ok env r s c \<longleftrightarrow>
     tc_sent_upstream c @ pending_upstream c = header_bytes env c @ r
     \<and> tc_sent_client c @ concat (tc_to_client c) = s
     \<and> tc_queued c = length (concat (tc_to_upstream c)) + length (concat (tc_to_client c)) \<and> tc_queued c \<le> re_max_buffered env
     \<and> (tc_to_upstream c \<noteq> [] \<longrightarrow> tc_client_paused c) \<and> (tc_to_client c \<noteq> [] \<longrightarrow> tc_upstream_paused c)
     \<and> (\<not> tc_connecting c \<longrightarrow> tc_sent_upstream c = [] \<and> tc_header c = None \<and> \<not> tc_upstream c)
     \<and> (tc_decode_protocol c = None \<longrightarrow> tc_decode_chunks c = []) \<and> (tc_decode_protocol c \<noteq> None \<longrightarrow> \<not> tc_connecting c \<and> tc_admitted c)
     \<and> (\<not> tc_admitted c \<longrightarrow> \<not> tc_connecting c \<and> \<not> tc_ban_pending c)"

lemmas direction_defs = queue_of_def set_queue_def sent_to_def add_sent_def set_paused_def has_destination_def

lemma closed_stays:
  "tc_closed c \<Longrightarrow> tc_closed (relay_handle env e c)"
  by (cases e) (auto simp: admit_tcp_def handle_decode_chunk_def write_tcp_def force_finish_decode_def finish_tcp_def flush_tcp_def Let_def)

lemma relay_closed: "tc_closed c \<Longrightarrow> relay env es c = Some c' \<Longrightarrow> tc_closed c'"
  by (induction es arbitrary: c) (auto split: if_splits dest: closed_stays)

lemma finish_closed [simp]: "tc_closed (finish_tcp c)"
  by (simp add: finish_tcp_def)

lemma queue_open:
  assumes "\<not> tc_closed (queue_tcp env d chunk c)"
  shows "queue_tcp env d chunk c = set_paused d True (set_queue d (queue_of d c @ [chunk]) (c\<lparr>tc_queued := tc_queued c + length chunk\<rparr>))
    \<and> tc_queued c + length chunk \<le> re_max_buffered env"
  using assms by (cases d) (auto simp: queue_tcp_def Let_def direction_defs split: if_splits)

lemma socket_write_le: "socket_write ws chunk = (w, ws') \<Longrightarrow> w \<le> int (length chunk)"
  by (cases ws) auto

lemma flush_queue_open:
  assumes "\<not> tc_closed (flush_queue d ws q c)"
  shows "\<exists>bs q'. bs @ concat q' = concat q \<and> (q = [] \<longrightarrow> q' = []) \<and> flush_queue d ws q c
    = (if q' = [] then set_paused d False else id) (set_queue d q' (add_sent d bs (c\<lparr>tc_queued := tc_queued c - length bs\<rparr>)))"
  using assms
proof (induction d ws q c rule: flush_queue.induct)
  case (1 d ws c)
  show ?case by (rule exI [of _ "[]"], rule exI [of _ "[]"]) (cases d; simp add: direction_defs)
next
  case (2 d ws chunk q c)
  obtain w ws' where w: "socket_write ws chunk = (w, ws')" by fastforce
  then have "0 \<le> w" "w \<le> int (length chunk)" using "2.prems" socket_write_le by (auto split: if_splits)
  define c' where "c' = add_sent d (take (nat w) chunk) (c\<lparr>tc_queued := tc_queued c - nat w\<rparr>)"
  show ?case
  proof (cases "nat w < length chunk")
    case True
    have "flush_queue d ws (chunk # q) c = set_queue d (drop (nat w) chunk # q) c'" using w True \<open>0 \<le> w\<close> by (simp add: c'_def)
    then show ?thesis using True
      by (intro exI [of _ "take (nat w) chunk"] exI [of _ "drop (nat w) chunk # q"]) (simp add: c'_def)
  next
    case False
    then have whole: "nat w = length chunk" using \<open>w \<le> int (length chunk)\<close> by simp
    have step: "flush_queue d ws (chunk # q) c = flush_queue d ws' q (set_queue d q c')" using w False \<open>0 \<le> w\<close> by (simp add: c'_def)
    obtain bs q' where q: "bs @ concat q' = concat q" "flush_queue d ws' q (set_queue d q c')
        = (if q' = [] then set_paused d False else id) (set_queue d q' (add_sent d bs ((set_queue d q c')\<lparr>tc_queued := tc_queued (set_queue d q c') - length bs\<rparr>)))"
      using "2.IH" [OF refl w [symmetric] _ c'_def] "2.prems" False \<open>0 \<le> w\<close> step by auto
    show ?thesis unfolding step using q whole
      by (intro exI [of _ "chunk @ bs"] exI [of _ q']) (cases d; simp add: c'_def direction_defs)
  qed
qed
lemma queue_upstream_ok:
  assumes "relay_ok env r s c" and "tc_decode_protocol c = None" and "\<not> tc_closed (queue_tcp env ToUpstream chunk c)"
  shows "relay_ok env (r @ chunk) s (queue_tcp env ToUpstream chunk c)"
  using assms(1,2) queue_open [OF assms(3)]
  by (auto simp: relay_ok_def direction_defs pending_upstream_def header_bytes_def append_assoc [symmetric] simp del: append_assoc)

lemma queue_client_ok:
  assumes "relay_ok env r s c" and "\<not> tc_closed (queue_tcp env ToClient chunk c)"
  shows "relay_ok env r (s @ chunk) (queue_tcp env ToClient chunk c)"
  using assms(1) queue_open [OF assms(2)]
  by (auto simp: relay_ok_def direction_defs pending_upstream_def header_bytes_def)

lemma sent_upstream_ok:
  assumes "relay_ok env r s c" and "tc_decode_protocol c = None" and "tc_upstream c" and "tc_header c = None" and "tc_to_upstream c = []"
  shows "relay_ok env (r @ bs) s (add_sent ToUpstream bs c)"
  using assms by (auto simp: relay_ok_def direction_defs pending_upstream_def header_bytes_def)

lemma sent_client_ok:
  assumes "relay_ok env r s c" and "tc_to_client c = []"
  shows "relay_ok env r (s @ bs) (add_sent ToClient bs c)"
  using assms by (cases "tc_header c") (auto simp: relay_ok_def direction_defs pending_upstream_def header_bytes_def)

lemma write_upstream_ok:
  assumes ok: "relay_ok env r s c" and none: "tc_decode_protocol c = None"
    and empty: "tc_upstream c \<and> tc_header c = None \<longrightarrow> tc_to_upstream c = []"
    and "\<not> tc_closed c" and result: "\<not> tc_closed (write_tcp env ToUpstream chunk ws c)"
  shows "relay_ok env (r @ chunk) s (write_tcp env ToUpstream chunk ws c)"
proof (cases "tc_upstream c \<and> tc_header c = None")
  case False
  then show ?thesis using ok none result \<open>\<not> tc_closed c\<close> queue_upstream_ok by (auto simp: write_tcp_def has_destination_def)
next
  case True
  obtain w ws' where w: "socket_write ws chunk = (w, ws')" by fastforce
  let ?c = "add_sent ToUpstream (take (nat w) chunk) c"
  have ok': "relay_ok env (r @ take (nat w) chunk) s ?c" "tc_decode_protocol ?c = None"
    using sent_upstream_ok [OF ok none] True empty none by (auto simp: direction_defs)
  have written: "write_tcp env ToUpstream chunk ws c
      = (if w < 0 then finish_tcp c else if nat w < length chunk then queue_tcp env ToUpstream (drop (nat w) chunk) ?c else ?c)"
    using True w \<open>\<not> tc_closed c\<close> by (simp add: write_tcp_def has_destination_def)
  show ?thesis
  proof (cases "nat w < length chunk")
    case True
    then show ?thesis using queue_upstream_ok [OF ok', of "drop (nat w) chunk"] result written by (auto split: if_splits)
  next
    case False
    then show ?thesis using ok'(1) result written by (auto split: if_splits)
  qed
qed

lemma write_client_ok:
  assumes ok: "relay_ok env r s c" and empty: "tc_to_client c = []" and "\<not> tc_closed c" and result: "\<not> tc_closed (write_tcp env ToClient chunk ws c)"
  shows "relay_ok env r (s @ chunk) (write_tcp env ToClient chunk ws c)"
proof -
  obtain w ws' where w: "socket_write ws chunk = (w, ws')" by fastforce
  let ?c = "add_sent ToClient (take (nat w) chunk) c"
  have ok': "relay_ok env r (s @ take (nat w) chunk) ?c" using sent_client_ok [OF ok empty] .
  have written: "write_tcp env ToClient chunk ws c
      = (if w < 0 then finish_tcp c else if nat w < length chunk then queue_tcp env ToClient (drop (nat w) chunk) ?c else ?c)"
    using w \<open>\<not> tc_closed c\<close> by (simp add: write_tcp_def has_destination_def)
  show ?thesis
  proof (cases "nat w < length chunk")
    case True
    then show ?thesis using queue_client_ok [OF ok', of "drop (nat w) chunk"] result written by (auto split: if_splits)
  next
    case False
    then show ?thesis using ok' result written by (auto split: if_splits)
  qed
qed

lemma open_upstream_ok:
  assumes "relay_ok env r s c" and "\<not> tc_connecting c" and "tc_decode_protocol c = None" and "tc_admitted c"
  shows "relay_ok env r s (open_tcp_upstream env c)"
  using assms by (auto simp: relay_ok_def open_tcp_upstream_def pending_upstream_def header_bytes_def split: option.splits)

lemma relay_ok_simps [simp]:
  "relay_ok env r s (c\<lparr>tc_username := u\<rparr>) = relay_ok env r s c" "relay_ok env r s (c\<lparr>tc_awaiting := b\<rparr>) = relay_ok env r s c"
  "relay_ok env r s (c\<lparr>tc_decode_timer := b\<rparr>) = relay_ok env r s c" "relay_ok env r s (c\<lparr>tc_client_ended := b\<rparr>) = relay_ok env r s c"
  "relay_ok env r s (c\<lparr>tc_decode_bytes := n\<rparr>) = relay_ok env r s c"
  by (simp_all add: relay_ok_def pending_upstream_def header_bytes_def)

lemma note_username_frame [simp]:
  "tc_upstream (note_username v c) = tc_upstream c" "tc_connecting (note_username v c) = tc_connecting c" "tc_closed (note_username v c) = tc_closed c"
  "tc_sent_upstream (note_username v c) = tc_sent_upstream c" "tc_admitted (note_username v c) = tc_admitted c"
  "tc_decode_protocol (note_username v c) = tc_decode_protocol c" "tc_decode_chunks (note_username v c) = tc_decode_chunks c"
  "relay_ok env r s (note_username v c) = relay_ok env r s c"
  by (auto simp: note_username_def split: option.split field_content.split)

lemma write_upstream_frame:
  "tc_connecting (write_tcp env d chunk ws c) = tc_connecting c" "tc_admitted (write_tcp env d chunk ws c) = tc_admitted c"
  "tc_decode_protocol (write_tcp env d chunk ws c) = tc_decode_protocol c"
  by (cases d; auto simp: write_tcp_def queue_tcp_def finish_tcp_def Let_def direction_defs split: prod.split)+

lemma open_upstream_closed [simp]: "tc_closed (open_tcp_upstream env c) = tc_closed c"
  by (simp add: open_tcp_upstream_def split: option.split)

lemma evaluate_ok:
  assumes "relay_ok env r s c" and "\<not> tc_connecting c" and "tc_admitted c" and "\<not> tc_closed c"
    and result: "\<not> tc_closed (evaluate_and_proceed env known decoded c)"
  shows "relay_ok env r s (evaluate_and_proceed env known decoded c)"
proof -
  define c1 where "c1 = note_username decoded c"
  have c1: "relay_ok env r s c1" "\<not> tc_connecting c1" "tc_admitted c1" "\<not> tc_closed c1"
    using assms by (simp_all add: c1_def)
  define c2 where "c2 = c1\<lparr>tc_decode_protocol := None, tc_awaiting := False, tc_decode_chunks := [], tc_decode_bytes := 0\<rparr>"
  let ?b = "concat (tc_decode_chunks c1)"
  have r: "r = concat (tc_to_upstream c1) @ ?b" using c1 by (auto simp: relay_ok_def pending_upstream_def header_bytes_def)
  have c2: "relay_ok env (concat (tc_to_upstream c1)) s c2" "\<not> tc_connecting c2" "tc_admitted c2" "\<not> tc_closed c2" "tc_decode_protocol c2 = None" "\<not> tc_upstream c2"
    using c1 by (auto simp: c2_def relay_ok_def pending_upstream_def header_bytes_def)
  have proceed: "evaluate_and_proceed env known decoded c =
      (if tr_status (inspect_stream_connection (re_nt env) (re_rank env) (re_registry env) (known ++ decoded) (re_policy env)) = ProtectionBlocked
       then c1\<lparr>tc_ban_pending := True\<rparr>
       else if tc_decode_protocol c1 \<noteq> None \<or> tc_decode_chunks c1 \<noteq> []
       then open_tcp_upstream env (if ?b \<noteq> [] then write_tcp env ToUpstream ?b [] c2 else c2)
       else open_tcp_upstream env c1)"
    using assms(4) unfolding evaluate_and_proceed_def c2_def c1_def Let_def by simp
  have banned: "relay_ok env r s (c1\<lparr>tc_ban_pending := True\<rparr>)" using c1 by (auto simp: relay_ok_def pending_upstream_def header_bytes_def)
  have passed: "relay_ok env r s (open_tcp_upstream env (if ?b \<noteq> [] then write_tcp env ToUpstream ?b [] c2 else c2))"
    if open': "\<not> tc_closed (if ?b \<noteq> [] then write_tcp env ToUpstream ?b [] c2 else c2)"
  proof (rule open_upstream_ok)
    show "relay_ok env r s (if ?b \<noteq> [] then write_tcp env ToUpstream ?b [] c2 else c2)"
      using write_upstream_ok [OF c2(1,5) _ c2(4), of ?b "[]"] c2 open' r by (cases "?b = []") (simp_all del: concat_eq_Nil_conv)
  qed (use c2 in \<open>auto simp: write_upstream_frame\<close>)
  have direct: "relay_ok env r s (open_tcp_upstream env c1)" if "tc_decode_protocol c1 = None" using open_upstream_ok c1 that by blast
  show ?thesis using banned passed direct result unfolding proceed by (auto split: if_splits)
qed
lemma flush_upstream_queue_ok:
  assumes "relay_ok env r s c" and "tc_decode_protocol c = None" and "tc_header c = None" and "tc_connecting c"
    and "\<not> tc_closed (flush_queue ToUpstream ws (tc_to_upstream c) c)"
  shows "relay_ok env r s (flush_queue ToUpstream ws (tc_to_upstream c) c)"
proof -
  obtain bs q' where q: "bs @ concat q' = concat (tc_to_upstream c)" "tc_to_upstream c = [] \<longrightarrow> q' = []"
    "flush_queue ToUpstream ws (tc_to_upstream c) c
      = (if q' = [] then set_paused ToUpstream False else id) (set_queue ToUpstream q' (add_sent ToUpstream bs (c\<lparr>tc_queued := tc_queued c - length bs\<rparr>)))"
    using flush_queue_open [OF assms(5)] by blast
  have len: "length (concat (tc_to_upstream c)) = length bs + length (concat q')" using arg_cong [OF q(1), of length] by simp
  show ?thesis unfolding q(3) using assms(1-4) q(1,2) len
    by (cases "q' = []") (auto simp: relay_ok_def direction_defs pending_upstream_def header_bytes_def)
qed

lemma flush_client_queue_ok:
  assumes "relay_ok env r s c" and "\<not> tc_closed (flush_queue ToClient ws (tc_to_client c) c)"
  shows "relay_ok env r s (flush_queue ToClient ws (tc_to_client c) c)"
proof -
  obtain bs q' where q: "bs @ concat q' = concat (tc_to_client c)" "tc_to_client c = [] \<longrightarrow> q' = []"
    "flush_queue ToClient ws (tc_to_client c) c
      = (if q' = [] then set_paused ToClient False else id) (set_queue ToClient q' (add_sent ToClient bs (c\<lparr>tc_queued := tc_queued c - length bs\<rparr>)))"
    using flush_queue_open [OF assms(2)] by blast
  have len: "length (concat (tc_to_client c)) = length bs + length (concat q')" using arg_cong [OF q(1), of length] by simp
  show ?thesis unfolding q(3) using assms(1) q(1,2) len
    by (cases "q' = []") (auto simp: relay_ok_def direction_defs pending_upstream_def header_bytes_def)
qed

lemma flush_upstream_ok:
  assumes ok: "relay_ok env r s c" and "\<not> tc_closed c" and up: "tc_upstream c" and result: "\<not> tc_closed (flush_tcp ToUpstream ws c)"
  shows "relay_ok env r s (flush_tcp ToUpstream ws c)"
proof -
  have conn: "tc_connecting c" and none: "tc_decode_protocol c = None" "tc_decode_chunks c = []" using ok up by (auto simp: relay_ok_def)
  show ?thesis
  proof (cases "tc_header c")
    case None
    then have "flush_tcp ToUpstream ws c = flush_queue ToUpstream ws (tc_to_upstream c) c"
      using up \<open>\<not> tc_closed c\<close> by (simp add: flush_tcp_def has_destination_def queue_of_def)
    then show ?thesis using flush_upstream_queue_ok [OF ok none(1) None conn] result by simp
  next
    case (Some h)
    let ?p = "drop (tc_header_offset c) h"
    obtain w ws' where w: "socket_write ws ?p = (w, ws')" by fastforce
    let ?c = "(add_sent ToUpstream (take (nat w) ?p) c)\<lparr>tc_header_offset := tc_header_offset c + nat w\<rparr>"
    let ?d = "?c\<lparr>tc_header := None, tc_header_offset := 0\<rparr>"
    have flush: "flush_tcp ToUpstream ws c = (if w < 0 then finish_tcp c else if tc_header_offset c + nat w < length h then ?c
        else flush_queue ToUpstream ws' (tc_to_upstream c) ?d)"
      using Some up w \<open>\<not> tc_closed c\<close> by (simp add: flush_tcp_def has_destination_def queue_of_def add_sent_def)
    have split: "take (nat w) ?p @ drop (tc_header_offset c + nat w) h @ bs = ?p @ bs" for bs
      by (metis append_take_drop_id drop_drop add.commute append_assoc)
    have okc: "relay_ok env r s ?c" using ok none Some conn
      by (auto simp: split relay_ok_def direction_defs pending_upstream_def header_bytes_def)
    show ?thesis
    proof (cases "tc_header_offset c + nat w < length h")
      case True
      then show ?thesis using flush okc result by (auto split: if_splits)
    next
      case False
      then have "relay_ok env r s ?d" using okc Some
        by (auto simp: relay_ok_def direction_defs pending_upstream_def header_bytes_def)
      moreover have "tc_to_upstream ?d = tc_to_upstream c" "tc_header ?d = None" "tc_connecting ?d" "tc_decode_protocol ?d = None"
        using conn none by (simp_all add: add_sent_def)
      ultimately show ?thesis using flush_upstream_queue_ok [of env r s ?d ws'] flush result False by (auto split: if_splits)
    qed
  qed
qed

lemma flush_client_ok:
  assumes "relay_ok env r s c" and "\<not> tc_closed c" and "\<not> tc_closed (flush_tcp ToClient ws c)"
  shows "relay_ok env r s (flush_tcp ToClient ws c)"
proof -
  have "flush_tcp ToClient ws c = flush_queue ToClient ws (tc_to_client c) c"
    using assms(2) by (simp add: flush_tcp_def has_destination_def queue_of_def)
  then show ?thesis using flush_client_queue_ok [OF assms(1)] assms(3) by simp
qed

lemma finish_decode_ok:
  assumes "relay_ok env r s c" and "\<not> tc_connecting c" and "tc_admitted c" and "\<not> tc_closed (finish_decode env known decoded c)"
  shows "relay_ok env r s (finish_decode env known decoded c)"
  using assms evaluate_ok [of env r s "c\<lparr>tc_awaiting := True, tc_decode_timer := False\<rparr>" known decoded] by (auto simp: finish_decode_def)

lemma decode_chunk_ok:
  assumes "relay_ok env r s c" and "tc_decode_protocol c \<noteq> None" and "\<not> tc_closed c" and "\<not> tc_closed (handle_decode_chunk env known chunk c)"
  shows "relay_ok env (r @ chunk) s (handle_decode_chunk env known chunk c)"
proof -
  let ?c = "c\<lparr>tc_decode_chunks := tc_decode_chunks c @ [chunk], tc_decode_bytes := tc_decode_bytes c + length chunk\<rparr>"
  have c: "relay_ok env (r @ chunk) s ?c" "\<not> tc_connecting ?c" "tc_admitted ?c"
    using assms(1,2) by (auto simp: relay_ok_def pending_upstream_def header_bytes_def)
  then show ?thesis using assms(3,4) finish_decode_ok [OF c] by (auto simp: handle_decode_chunk_def try_complete_decode_def Let_def)
qed

lemma admit_ok:
  assumes ok: "relay_ok env r s c" and "\<not> tc_admitted c" and "\<not> tc_closed c" and result: "\<not> tc_closed (admit_tcp env blocked known c)"
  shows "relay_ok env r s (admit_tcp env blocked known c)"
proof -
  let ?c = "c\<lparr>tc_admitted := True\<rparr>"
  have none: "tc_decode_protocol c = None" "tc_decode_chunks c = []" "\<not> tc_connecting c" using ok assms(2) by (auto simp: relay_ok_def)
  have c: "relay_ok env r s ?c" using ok none by (auto simp: relay_ok_def pending_upstream_def header_bytes_def)
  have "relay_ok env r s (begin_decode protocol most ?c)" for protocol most
    using c none assms(3) by (auto simp: begin_decode_def relay_ok_def pending_upstream_def header_bytes_def)
  moreover have "relay_ok env r s (open_tcp_upstream env ?c)" using open_upstream_ok [OF c] none by simp
  moreover have "\<not> tc_closed (evaluate_and_proceed env known Map.empty ?c) \<Longrightarrow> relay_ok env r s (evaluate_and_proceed env known Map.empty ?c)"
    using evaluate_ok [OF c] none assms(3) by simp
  ultimately show ?thesis using result assms(3) by (auto simp: admit_tcp_def Let_def split: list.splits if_splits)
qed

lemma relay_step_ok:
  assumes ok: "relay_ok env r s c" and allowed: "relay_allowed c e" and "\<not> tc_closed c" and result: "\<not> tc_closed (relay_handle env e c)"
  shows "relay_ok env (r @ data_from_client [e]) (s @ data_from_upstream [e]) (relay_handle env e c)"
proof (cases e)
  case (Admitted blocked known)
  then show ?thesis using admit_ok [OF ok _ \<open>\<not> tc_closed c\<close>] allowed result by simp
next
  case (ClientData chunk ws known)
  have "tc_to_upstream c = []" using ok allowed ClientData by (auto simp: relay_ok_def)
  then show ?thesis using decode_chunk_ok [OF ok _ \<open>\<not> tc_closed c\<close>] write_upstream_ok [OF ok _ _ \<open>\<not> tc_closed c\<close>] result ClientData
    by (cases "tc_decode_protocol c") simp_all
next
  case (DecodeTimeout known)
  let ?c = "c\<lparr>tc_decode_timer := False\<rparr>"
  have c: "relay_ok env r s ?c" using ok by simp
  show ?thesis
  proof (cases "tc_decode_protocol c = None")
    case True
    then show ?thesis using c DecodeTimeout by (simp add: force_finish_decode_def)
  next
    case False
    then have "\<not> tc_connecting ?c" "tc_admitted ?c" using ok by (auto simp: relay_ok_def)
    then show ?thesis using finish_decode_ok [OF c] c result DecodeTimeout by (auto simp: force_finish_decode_def split: if_splits)
  qed
next
  case (UpstreamOpen ws)
  have "relay_ok env r s (c\<lparr>tc_upstream := True\<rparr>)"
    using ok allowed UpstreamOpen by (auto simp: relay_ok_def pending_upstream_def header_bytes_def)
  then show ?thesis using flush_upstream_ok [of env r s "c\<lparr>tc_upstream := True\<rparr>" ws] UpstreamOpen result \<open>\<not> tc_closed c\<close> by simp
next
  case (UpstreamDrain ws)
  then show ?thesis using flush_upstream_ok [OF ok \<open>\<not> tc_closed c\<close>] allowed result by simp
next
  case (ClientDrain ws)
  then show ?thesis using flush_client_ok [OF ok \<open>\<not> tc_closed c\<close>] result by simp
next
  case (UpstreamData chunk ws)
  have "tc_to_client c = []" using ok allowed UpstreamData by (auto simp: relay_ok_def)
  then show ?thesis using write_client_ok [OF ok _ \<open>\<not> tc_closed c\<close>] result UpstreamData by simp
qed (use ok result in simp_all)

lemma relay_run_ok:
  "relay env es c = Some c' \<Longrightarrow> relay_ok env r s c \<Longrightarrow> \<not> tc_closed c' \<Longrightarrow>
   relay_ok env (r @ data_from_client es) (s @ data_from_upstream es) c'"
proof (induction es arbitrary: c r s)
  case (Cons e es)
  have allowed: "relay_allowed c e" and run: "relay env es (relay_handle env e c) = Some c'" using Cons.prems(1) by (auto split: if_splits)
  have still: "\<not> tc_closed (relay_handle env e c)" using relay_closed [OF _ run] Cons.prems(3) by blast
  then have "\<not> tc_closed c" using closed_stays by blast
  then have "relay_ok env (r @ data_from_client [e]) (s @ data_from_upstream [e]) (relay_handle env e c)"
    using relay_step_ok [OF Cons.prems(2) allowed] still by blast
  from Cons.IH [OF run this Cons.prems(3)] show ?case by (cases e) simp_all
qed simp

lemma new_connection_ok: "relay_ok env [] [] new_connection"
  by (simp add: new_connection_def relay_ok_def pending_upstream_def header_bytes_def)

text \<open>
  C38: while a connection is open, what its upstream has accepted, followed by what is still queued or under
  inspection, is the PROXY header and every byte of the client, in order and once; the same holds the other
  way. The queues never hold more than the limit. This is for every order of events, every partial write and
  every moment of admission, verdict and connection.
\<close>

theorem relay_preserves_stream:
  assumes "relay env es new_connection = Some c" and "\<not> tc_closed c"
  shows "tc_sent_upstream c @ pending_upstream c = header_bytes env c @ data_from_client es
    \<and> tc_sent_client c @ concat (tc_to_client c) = data_from_upstream es
    \<and> length (concat (tc_to_upstream c)) + length (concat (tc_to_client c)) \<le> re_max_buffered env"
  using relay_run_ok [OF assms(1) new_connection_ok assms(2)] by (auto simp: relay_ok_def)

definition demo_env :: relay_env where
  "demo_env = \<lparr>re_max_buffered = 64, re_header = Some [80, 13, 10],
     re_decoder = (\<lambda>p. if p = ''minecraft-java'' then Some (decode_minecraft (\<lambda>_. None)) else None), re_nt = (\<lambda>_. []), re_rank = length,
     re_registry = [(''mc'', demo_stream_ruleset (CondLeaf (demo_stream_leaf ''handshake_valid'' SoEquals ''false'')))],
     re_policy = demo_stream_policy\<rparr>"

definition demo_open_env :: relay_env where
  "demo_open_env = demo_env\<lparr>re_policy := default_stream_protection\<rparr>"

definition demo_events :: "relay_event list" where
  "demo_events = [ClientData [1, 0] [] Map.empty, Admitted False Map.empty, UpstreamOpen [2], UpstreamDrain [1, 1], UpstreamData [9, 8, 7] [1]]"

lemma demo_run:
  "map_option (\<lambda>c. (tc_closed c, tc_sent_upstream c, tc_sent_client c, tc_connecting c)) (relay demo_open_env demo_events new_connection)
     = Some (False, [80, 13, 10, 1], [9], True)"
  by code_simp

theorem relay_preserves_stream_witness:
  "\<exists>c. relay demo_open_env demo_events new_connection = Some c \<and> tc_sent_upstream c = [80, 13, 10, 1] \<and> pending_upstream c = [0]
    \<and> concat (tc_to_client c) = [8, 7]"
proof -
  obtain c where c: "relay demo_open_env demo_events new_connection = Some c" "\<not> tc_closed c" "tc_sent_upstream c = [80, 13, 10, 1]"
    "tc_sent_client c = [9]" "tc_connecting c"
    using demo_run by (cases "relay demo_open_env demo_events new_connection") auto
  moreover have "data_from_client demo_events = [1, 0]" "data_from_upstream demo_events = [9, 8, 7]" "re_header demo_open_env = Some [80, 13, 10]"
    by (simp_all add: demo_events_def demo_open_env_def demo_env_def)
  ultimately show ?thesis using relay_preserves_stream [OF c(1,2)] by (simp add: header_bytes_def)
qed

section \<open>Nothing is sent before the verdict\<close>

definition verdict_passes :: "relay_env \<Rightarrow> stream_fields \<Rightarrow> bool" where
  "verdict_passes env vals \<longleftrightarrow>
     tr_status (inspect_stream_connection (re_nt env) (re_rank env) (re_registry env) vals (re_policy env)) \<noteq> ProtectionBlocked"

lemma cell_frame [simp]:
  "tc_upstream (set_queue d q c) = tc_upstream c" "tc_connecting (set_queue d q c) = tc_connecting c"
  "tc_upstream (set_paused d b c) = tc_upstream c" "tc_connecting (set_paused d b c) = tc_connecting c"
  "tc_upstream (add_sent d x c) = tc_upstream c" "tc_connecting (add_sent d x c) = tc_connecting c"
  "tc_sent_upstream (set_queue d q c) = tc_sent_upstream c" "tc_sent_upstream (set_paused d b c) = tc_sent_upstream c"
  "tc_sent_upstream (add_sent ToClient x c) = tc_sent_upstream c"
  by (simp_all add: direction_defs split: relay_direction.split)

lemma finish_frame [simp]:
  "tc_upstream (finish_tcp c) = tc_upstream c" "tc_connecting (finish_tcp c) = tc_connecting c" "tc_sent_upstream (finish_tcp c) = tc_sent_upstream c"
  by (simp_all add: finish_tcp_def)

lemma queue_frame [simp]:
  "tc_upstream (queue_tcp env d chunk c) = tc_upstream c" "tc_connecting (queue_tcp env d chunk c) = tc_connecting c"
  "tc_sent_upstream (queue_tcp env d chunk c) = tc_sent_upstream c"
  by (simp_all add: queue_tcp_def Let_def)

lemma write_frame [simp]:
  "tc_upstream (write_tcp env d chunk ws c) = tc_upstream c" "tc_connecting (write_tcp env d chunk ws c) = tc_connecting c"
  "\<not> tc_upstream c \<Longrightarrow> tc_sent_upstream (write_tcp env d chunk ws c) = tc_sent_upstream c"
  by (simp_all add: write_tcp_def Let_def split: prod.split) (cases d; simp add: has_destination_def)

lemma flush_queue_frame [simp]:
  "tc_upstream (flush_queue d ws q c) = tc_upstream c" "tc_connecting (flush_queue d ws q c) = tc_connecting c"
  by (induction d ws q c rule: flush_queue.induct) (simp_all add: Let_def split: prod.split)

lemma flush_queue_client [simp]: "tc_sent_upstream (flush_queue ToClient ws q c) = tc_sent_upstream c"
  by (induction ToClient ws q c rule: flush_queue.induct) (simp_all add: Let_def split: prod.split)

lemma flush_frame [simp]:
  "tc_upstream (flush_tcp d ws c) = tc_upstream c" "tc_connecting (flush_tcp d ws c) = tc_connecting c"
  "\<not> tc_upstream c \<Longrightarrow> tc_sent_upstream (flush_tcp d ws c) = tc_sent_upstream c"
  by (simp_all add: flush_tcp_def Let_def split: prod.split option.split) (cases d; simp add: has_destination_def)

lemma open_frame [simp]:
  "tc_upstream (open_tcp_upstream env c) = tc_upstream c" "tc_connecting (open_tcp_upstream env c)"
  "tc_sent_upstream (open_tcp_upstream env c) = tc_sent_upstream c"
  by (simp_all add: open_tcp_upstream_def split: option.split)

lemma evaluate_frame [simp]:
  "tc_upstream (evaluate_and_proceed env known decoded c) = tc_upstream c"
  "tc_connecting (evaluate_and_proceed env known decoded c) \<longleftrightarrow> tc_connecting c \<or> \<not> tc_closed c \<and> verdict_passes env (known ++ decoded)"
  "\<not> tc_upstream c \<Longrightarrow> tc_sent_upstream (evaluate_and_proceed env known decoded c) = tc_sent_upstream c"
  by (simp_all add: evaluate_and_proceed_def verdict_passes_def Let_def del: concat_eq_Nil_conv)

lemma finish_decode_frame [simp]:
  "tc_upstream (finish_decode env known decoded c) = tc_upstream c"
  "tc_connecting (finish_decode env known decoded c) \<longleftrightarrow>
     tc_connecting c \<or> \<not> tc_closed c \<and> \<not> tc_awaiting c \<and> verdict_passes env (known ++ decoded)"
  "\<not> tc_upstream c \<Longrightarrow> tc_sent_upstream (finish_decode env known decoded c) = tc_sent_upstream c"
  by (auto simp: finish_decode_def)

text \<open>
  What let a connection through, in terms of the events alone: after an admission that refused nothing, either no
  inspection is configured; or no rule set names a protocol to decode, and the verdict on the metrics did not
  block; or the payload was decoded as the first protocol of the rule sets, and the verdict on the fields of the
  bytes received since the admission did not block.
\<close>

definition decode_with :: "relay_env \<Rightarrow> string \<Rightarrow> octets \<Rightarrow> decode_attempt" where
  "decode_with env protocol bytes =
     (case re_decoder env protocol of None \<Rightarrow> \<lparr>da_done = True, da_fields = Map.empty\<rparr> | Some decoder \<Rightarrow> decoder bytes)"

definition inspection_off :: "relay_env \<Rightarrow> bool" where
  "inspection_off env \<longleftrightarrow> tp_mode (re_policy env) = StreamOff \<or> tp_ruleset_ids (re_policy env) = []"

definition decoded_protocols :: "relay_env \<Rightarrow> string list" where
  "decoded_protocols env = stream_decode_protocols (re_registry env) (tp_ruleset_ids (re_policy env))"

fun verdict_event :: "relay_event \<Rightarrow> stream_fields \<Rightarrow> bool" where
  "verdict_event (ClientData chunk ws known) k \<longleftrightarrow> k = known"
| "verdict_event (DecodeTimeout known) k \<longleftrightarrow> k = known"
| "verdict_event _ k \<longleftrightarrow> False"

definition decided_to_pass :: "relay_env \<Rightarrow> stream_fields \<Rightarrow> relay_event list \<Rightarrow> bool" where
  "decided_to_pass env known later \<longleftrightarrow>
     inspection_off env
     \<or> decoded_protocols env = [] \<and> verdict_passes env known
     \<or> (\<exists>protocol others before e after k. decoded_protocols env = protocol # others \<and> later = before @ e # after \<and> verdict_event e k
          \<and> verdict_passes env (k ++ da_fields (decode_with env protocol (data_from_client (before @ [e])))))"

definition let_through :: "relay_env \<Rightarrow> relay_event list \<Rightarrow> bool" where
  "let_through env es \<longleftrightarrow> (\<exists>before known later. es = before @ Admitted False known # later \<and> decided_to_pass env known later)"

text \<open>While a payload is being decoded, the buffer holds the bytes since the admission.\<close>

definition decoding_since :: "relay_env \<Rightarrow> string \<Rightarrow> relay_event list \<Rightarrow> tcp_connection \<Rightarrow> bool" where
  "decoding_since env protocol es c \<longleftrightarrow> (\<exists>before known later others. es = before @ Admitted False known # later
     \<and> decoded_protocols env = protocol # others \<and> (\<not> tc_closed c \<longrightarrow> concat (tc_decode_chunks c) = data_from_client later))"

definition verdict_ok :: "relay_env \<Rightarrow> relay_event list \<Rightarrow> tcp_connection \<Rightarrow> bool" where
  "verdict_ok env es c \<longleftrightarrow>
     (\<not> tc_connecting c \<longrightarrow> tc_sent_upstream c = [] \<and> \<not> tc_upstream c)
     \<and> (tc_connecting c \<longrightarrow> let_through env es)
     \<and> (\<forall>protocol. tc_decode_protocol c = Some protocol \<longrightarrow> decoding_since env protocol es c)"

lemma data_from_client_append: "data_from_client (es @ es') = data_from_client es @ data_from_client es'"
  by (induction es rule: data_from_client.induct) simp_all

lemma decided_append: "decided_to_pass env known later \<Longrightarrow> decided_to_pass env known (later @ es)"
  unfolding decided_to_pass_def by (metis append.assoc append_Cons)

lemma let_through_append: "let_through env es \<Longrightarrow> let_through env (es @ es')"
  unfolding let_through_def by (metis append.assoc append_Cons decided_append)

lemma decode_buffer_with: "tc_decode_protocol c = Some protocol \<Longrightarrow> decode_buffer env c = decode_with env protocol (concat (tc_decode_chunks c))"
  by (simp add: decode_buffer_def decode_with_def)

lemma relay_snoc: "relay env (es @ [e]) c = Some c' \<longleftrightarrow> (\<exists>d. relay env es c = Some d \<and> relay_allowed d e \<and> c' = relay_handle env e d)"
  by (induction es arbitrary: c) auto

lemma flush_client_sent [simp]: "tc_sent_upstream (flush_tcp ToClient ws c) = tc_sent_upstream c"
  by (simp add: flush_tcp_def)

lemma decode_buffer_more [simp]:
  "decode_buffer env (c\<lparr>tc_decode_timer := b\<rparr>) = decode_buffer env c"
  by (simp add: decode_buffer_def cong: option.case_cong)

text \<open>The cells of the decoder under the steps that are not the decoder's.\<close>

lemma decode_cells [simp]:
  "tc_decode_protocol (set_queue d q c) = tc_decode_protocol c" "tc_decode_chunks (set_queue d q c) = tc_decode_chunks c"
  "tc_decode_protocol (set_paused d b c) = tc_decode_protocol c" "tc_decode_chunks (set_paused d b c) = tc_decode_chunks c"
  "tc_decode_protocol (add_sent d x c) = tc_decode_protocol c" "tc_decode_chunks (add_sent d x c) = tc_decode_chunks c"
  by (simp_all add: direction_defs split: relay_direction.split)

lemma decode_finish [simp]: "tc_decode_protocol (finish_tcp c) = tc_decode_protocol c" "tc_decode_chunks (finish_tcp c) = tc_decode_chunks c"
  by (simp_all add: finish_tcp_def)

lemma decode_write [simp]:
  "tc_decode_protocol (queue_tcp env d chunk c) = tc_decode_protocol c" "tc_decode_chunks (queue_tcp env d chunk c) = tc_decode_chunks c"
  "tc_decode_protocol (write_tcp env d chunk ws c) = tc_decode_protocol c" "tc_decode_chunks (write_tcp env d chunk ws c) = tc_decode_chunks c"
  by (simp_all add: write_tcp_def queue_tcp_def Let_def split: prod.split)

lemma decode_flush_queue [simp]:
  "tc_decode_protocol (flush_queue d ws q c) = tc_decode_protocol c" "tc_decode_chunks (flush_queue d ws q c) = tc_decode_chunks c"
  by (induction d ws q c rule: flush_queue.induct) (simp_all add: Let_def split: prod.split)

lemma decode_flush [simp]:
  "tc_decode_protocol (flush_tcp d ws c) = tc_decode_protocol c" "tc_decode_chunks (flush_tcp d ws c) = tc_decode_chunks c"
  by (simp_all add: flush_tcp_def Let_def split: prod.split option.split)

lemma decode_open [simp]:
  "tc_decode_protocol (open_tcp_upstream env c) = tc_decode_protocol c" "tc_decode_chunks (open_tcp_upstream env c) = tc_decode_chunks c"
  by (simp_all add: open_tcp_upstream_def split: option.split)

text \<open>A verdict ends the decoding or leaves its cells as they are.\<close>

lemma evaluate_cells:
  "tc_decode_protocol (evaluate_and_proceed env known decoded c) = Some protocol \<Longrightarrow>
     tc_decode_protocol c = Some protocol \<and> tc_decode_chunks (evaluate_and_proceed env known decoded c) = tc_decode_chunks c
     \<and> tc_closed (evaluate_and_proceed env known decoded c) = tc_closed c"
  by (auto simp: evaluate_and_proceed_def Let_def simp del: concat_eq_Nil_conv split: if_splits)

lemma finish_decode_cells:
  "tc_decode_protocol (finish_decode env known decoded c) = Some protocol \<Longrightarrow>
     tc_decode_protocol c = Some protocol \<and> tc_decode_chunks (finish_decode env known decoded c) = tc_decode_chunks c
     \<and> tc_closed (finish_decode env known decoded c) = tc_closed c"
  by (auto simp: finish_decode_def dest: evaluate_cells split: if_splits)

text \<open>A verdict on the bytes buffered since the admission.\<close>

lemma verdict_step:
  assumes c: "tc_decode_protocol c = Some protocol" "concat (tc_decode_chunks c) = data_from_client (later @ [e])"
    and es: "es = before @ Admitted False known # later" "decoded_protocols env = protocol # others" "verdict_event e k"
    and old: "tc_connecting c \<Longrightarrow> let_through env es" "\<not> tc_connecting c \<Longrightarrow> tc_sent_upstream c = [] \<and> \<not> tc_upstream c"
  shows "verdict_ok env (es @ [e]) (finish_decode env k (da_fields (decode_buffer env c)) c)"
proof -
  let ?c = "finish_decode env k (da_fields (decode_buffer env c)) c"
  have "let_through env (es @ [e])" if "verdict_passes env (k ++ da_fields (decode_buffer env c))"
  proof -
    have "verdict_passes env (k ++ da_fields (decode_with env protocol (data_from_client (later @ [e]))))"
      using that decode_buffer_with [OF c(1)] c(2) by simp
    then have "decided_to_pass env known (later @ [e])" using es(2,3) unfolding decided_to_pass_def by blast
    then show ?thesis using es(1) unfolding let_through_def by auto
  qed
  moreover have "decoding_since env p (es @ [e]) ?c" if "tc_decode_protocol ?c = Some p" for p
    using finish_decode_cells [OF that] c es(1,2) unfolding decoding_since_def by auto
  ultimately show ?thesis using old let_through_append unfolding verdict_ok_def by auto
qed

lemma decoding_more:
  assumes "decoding_since env protocol es c"
    and "\<not> tc_closed c' \<Longrightarrow> \<not> tc_closed c \<and> concat (tc_decode_chunks c') = concat (tc_decode_chunks c) @ data_from_client [e]"
  shows "decoding_since env protocol (es @ [e]) c'"
proof -
  obtain before known later others where "es = before @ Admitted False known # later" "decoded_protocols env = protocol # others"
    "\<not> tc_closed c \<longrightarrow> concat (tc_decode_chunks c) = data_from_client later"
    using assms(1) unfolding decoding_since_def by blast
  then have "es @ [e] = before @ Admitted False known # later @ [e]" "decoded_protocols env = protocol # others"
    "\<not> tc_closed c' \<longrightarrow> concat (tc_decode_chunks c') = data_from_client (later @ [e])"
    using assms(2) by (auto simp: data_from_client_append)
  then show ?thesis unfolding decoding_since_def by blast
qed

lemma decoding_kept:
  "decoding_since env protocol es c \<Longrightarrow> tc_decode_chunks c' = tc_decode_chunks c \<Longrightarrow> (tc_closed c \<Longrightarrow> tc_closed c') \<Longrightarrow>
   data_from_client [e] = [] \<Longrightarrow> decoding_since env protocol (es @ [e]) c'"
  by (rule decoding_more) auto

lemma verdict_kept:
  assumes "verdict_ok env es c" and "data_from_client [e] = []" and "tc_closed c \<Longrightarrow> tc_closed c'"
    and "tc_decode_protocol c' = tc_decode_protocol c" "tc_decode_chunks c' = tc_decode_chunks c"
    and "tc_connecting c' = tc_connecting c" "\<not> tc_connecting c \<Longrightarrow> tc_sent_upstream c' = tc_sent_upstream c \<and> tc_upstream c' = tc_upstream c"
  shows "verdict_ok env (es @ [e]) c'"
  using assms decoding_kept [of env _ es c c' e] let_through_append unfolding verdict_ok_def by auto

lemma admitted_verdict:
  assumes ok: "verdict_ok env es c" and "\<not> tc_admitted c" and protocol: "tc_decode_protocol c = None" "tc_decode_chunks c = []"
  shows "verdict_ok env (es @ [Admitted blocked known]) (admit_tcp env blocked known c)"
proof (cases "tc_closed c \<or> blocked")
  case True
  then show ?thesis using ok protocol let_through_append by (auto simp: admit_tcp_def verdict_ok_def Let_def)
next
  case False
  have pass: "let_through env (es @ [Admitted blocked known])" if "inspection_off env \<or> decoded_protocols env = [] \<and> verdict_passes env known"
    using that False unfolding let_through_def decided_to_pass_def by auto
  have begun: "decoding_since env p (es @ [Admitted blocked known]) (begin_decode p most (c\<lparr>tc_admitted := True\<rparr>))"
    if "decoded_protocols env = p # others" for p others most
  proof -
    have "es @ [Admitted blocked known] = es @ Admitted False known # []" using False by simp
    moreover have "concat (tc_decode_chunks (begin_decode p most (c\<lparr>tc_admitted := True\<rparr>))) = data_from_client []"
      using False by (simp add: begin_decode_def)
    ultimately show ?thesis using that unfolding decoding_since_def by blast
  qed
  have none: "tc_decode_protocol (evaluate_and_proceed env known Map.empty (c\<lparr>tc_admitted := True\<rparr>)) \<noteq> Some p" for p
    using evaluate_cells [of env known Map.empty "c\<lparr>tc_admitted := True\<rparr>" p] protocol(1) by auto
  show ?thesis
  proof (cases "inspection_off env")
    case True
    then show ?thesis using False ok protocol pass
      by (auto simp: admit_tcp_def inspection_off_def verdict_ok_def Let_def)
  next
    case on: False
    show ?thesis
    proof (cases "decoded_protocols env")
      case Nil
      then have "admit_tcp env blocked known c = evaluate_and_proceed env known Map.empty (c\<lparr>tc_admitted := True\<rparr>)"
        using False on by (simp add: admit_tcp_def inspection_off_def decoded_protocols_def Let_def)
      then show ?thesis using none ok pass Nil let_through_append unfolding verdict_ok_def by auto
    next
      case (Cons p others)
      then obtain most where "admit_tcp env blocked known c = begin_decode p most (c\<lparr>tc_admitted := True\<rparr>)"
        using False on by (auto simp: admit_tcp_def inspection_off_def decoded_protocols_def Let_def)
      moreover have "verdict_ok env (es @ [Admitted blocked known]) (begin_decode p most (c\<lparr>tc_admitted := True\<rparr>))"
        using begun [OF Cons, of most] ok let_through_append False unfolding verdict_ok_def by (auto simp: begin_decode_def)
      ultimately show ?thesis by simp
    qed
  qed
qed

lemma chunk_verdict:
  assumes ok: "verdict_ok env es c" and protocol: "tc_decode_protocol c = Some protocol"
  shows "verdict_ok env (es @ [ClientData chunk ws k]) (handle_decode_chunk env k chunk c)"
proof (cases "tc_closed c")
  case True
  then have "decoding_since env p (es @ [ClientData chunk ws k]) c" if "tc_decode_protocol c = Some p" for p
    using that ok by (intro decoding_more [of env p es c]) (simp_all add: verdict_ok_def)
  then show ?thesis using ok True let_through_append unfolding verdict_ok_def by (auto simp: handle_decode_chunk_def)
next
  case False
  let ?e = "ClientData chunk ws k"
  define d where "d = c\<lparr>tc_decode_chunks := tc_decode_chunks c @ [chunk], tc_decode_bytes := tc_decode_bytes c + length chunk\<rparr>"
  obtain before known later others where es: "es = before @ Admitted False known # later" "decoded_protocols env = protocol # others"
    "concat (tc_decode_chunks c) = data_from_client later"
    using ok protocol False unfolding verdict_ok_def decoding_since_def by auto
  have d: "tc_decode_protocol d = Some protocol" "concat (tc_decode_chunks d) = data_from_client (later @ [?e])"
    using protocol es(3) by (simp_all add: d_def data_from_client_append)
  have old: "tc_connecting d \<Longrightarrow> let_through env es" "\<not> tc_connecting d \<Longrightarrow> tc_sent_upstream d = [] \<and> \<not> tc_upstream d"
    using ok by (simp_all add: verdict_ok_def d_def)
  have "verdict_ok env (es @ [?e]) (finish_decode env k (da_fields (decode_buffer env d)) d)"
    by (rule verdict_step [OF d es(1,2) _ old]) simp
  moreover have "verdict_ok env (es @ [?e]) d"
  proof -
    have "es @ [?e] = before @ Admitted False known # (later @ [?e])" using es(1) by simp
    then have "decoding_since env protocol (es @ [?e]) d" using d(2) es(2) unfolding decoding_since_def by blast
    then show ?thesis using old d(1) let_through_append [of env es "[?e]"] by (auto simp: verdict_ok_def)
  qed
  ultimately show ?thesis using False by (simp add: handle_decode_chunk_def try_complete_decode_def Let_def d_def [symmetric] del: finish_decode_frame)
qed

lemma timeout_verdict:
  assumes ok: "verdict_ok env es c"
  shows "verdict_ok env (es @ [DecodeTimeout k]) (force_finish_decode env k (c\<lparr>tc_decode_timer := False\<rparr>))"
proof -
  let ?c = "c\<lparr>tc_decode_timer := False\<rparr>" and ?e = "DecodeTimeout k"
  have same: "verdict_ok env (es @ [?e]) ?c" by (rule verdict_kept [OF ok]) simp_all
  show ?thesis
  proof (cases "tc_closed c \<or> tc_decode_protocol c = None")
    case True
    then show ?thesis using same by (auto simp: force_finish_decode_def)
  next
    case False
    then obtain protocol where protocol: "tc_decode_protocol c = Some protocol" by auto
    obtain before known later others where es: "es = before @ Admitted False known # later" "decoded_protocols env = protocol # others"
      "concat (tc_decode_chunks c) = data_from_client later"
      using ok protocol False unfolding verdict_ok_def decoding_since_def by auto
    have "verdict_ok env (es @ [?e]) (finish_decode env k (da_fields (decode_buffer env ?c)) ?c)"
      by (rule verdict_step [OF _ _ es(1,2)]) (use protocol es(3) ok in \<open>simp_all add: data_from_client_append verdict_ok_def\<close>)
    then show ?thesis using same by (simp add: force_finish_decode_def del: finish_decode_frame)
  qed
qed

lemma undecoded_before_admission:
  "relay env es new_connection = Some c \<Longrightarrow> \<not> tc_closed c \<Longrightarrow> \<not> tc_admitted c \<Longrightarrow> tc_decode_protocol c = None \<and> tc_decode_chunks c = []"
  using relay_run_ok [of env es new_connection c "[]" "[]"] new_connection_ok [of env] by (auto simp: relay_ok_def)

lemma verdict_run: "relay env es new_connection = Some c \<Longrightarrow> verdict_ok env es c"
proof (induction es arbitrary: c rule: rev_induct)
  case Nil
  then have "c = new_connection" by simp
  then show ?case by (simp add: verdict_ok_def new_connection_def)
next
  case (snoc e es)
  then obtain d where d: "relay env es new_connection = Some d" "relay_allowed d e" "c = relay_handle env e d" by (auto simp: relay_snoc)
  note ok = snoc.IH [OF d(1)]
  show ?case
  proof (cases e)
    case (Admitted blocked known)
    show ?thesis
    proof (cases "tc_closed d")
      case True
      then show ?thesis using verdict_kept [OF ok, of e "d\<lparr>tc_admitted := True\<rparr>"] d(3) Admitted by (simp add: admit_tcp_def Let_def)
    next
      case False
      then show ?thesis using admitted_verdict [OF ok] undecoded_before_admission [OF d(1)] d(2,3) Admitted by simp
    qed
  next
    case (ClientData chunk ws known)
    show ?thesis
    proof (cases "tc_decode_protocol d")
      case None
      then have "verdict_ok env (es @ [e]) (write_tcp env ToUpstream chunk ws d)" using ok let_through_append by (auto simp: verdict_ok_def)
      then show ?thesis using None d(3) ClientData by simp
    next
      case (Some protocol)
      then show ?thesis using chunk_verdict [OF ok Some] d(3) ClientData by simp
    qed
  next
    case (DecodeTimeout known)
    then show ?thesis using timeout_verdict [OF ok] d(3) by simp
  next
    case (UpstreamOpen ws)
    then have "tc_connecting d" using d(2) by simp
    then show ?thesis using UpstreamOpen d(3) closed_stays [of d env e] by (intro verdict_kept [OF ok]) auto
  next
    case (UpstreamDrain ws)
    then have "tc_connecting d" using d(2) ok by (auto simp: verdict_ok_def)
    then show ?thesis using UpstreamDrain d(3) closed_stays [of d env e] by (intro verdict_kept [OF ok]) auto
  next
    case (UpstreamData chunk ws)
    then have "tc_connecting d" using d(2) ok by (auto simp: verdict_ok_def)
    then show ?thesis using UpstreamData d(3) closed_stays [of d env e] by (intro verdict_kept [OF ok]) auto
  next
    case (ClientDrain ws)
    then show ?thesis using d(3) closed_stays [of d env e] by (intro verdict_kept [OF ok]) auto
  next
    case ClientEnd
    then show ?thesis using d(3) by (intro verdict_kept [OF ok]) auto
  next
    case Closing
    then show ?thesis using d(3) by (intro verdict_kept [OF ok]) auto
  next
    case BanFinished
    then show ?thesis using d(3) by (intro verdict_kept [OF ok]) auto
  qed
qed

text \<open>
  C39: no byte reaches the upstream before a decision let the connection through. In every run at whose end the
  upstream has bytes, and so in the run up to the first of them, an admission has refused nothing, and after it:
  no inspection is configured; or the rule sets name no protocol to decode and the verdict on the metrics did not
  block; or a verdict on the fields decoded from all bytes received since the admission, by the first protocol of the
  rule sets, did not block.
\<close>

theorem nothing_sent_before_verdict:
  assumes "relay env es new_connection = Some c" and "tc_sent_upstream c \<noteq> []"
  shows "\<exists>before known later. es = before @ Admitted False known # later \<and>
    (inspection_off env
     \<or> decoded_protocols env = [] \<and> verdict_passes env known
     \<or> (\<exists>protocol others inspected e after k. decoded_protocols env = protocol # others \<and> later = inspected @ e # after \<and> verdict_event e k
          \<and> verdict_passes env (k ++ da_fields (decode_with env protocol (data_from_client (inspected @ [e]))))))"
  using verdict_run [OF assms(1)] assms(2) unfolding verdict_ok_def let_through_def decided_to_pass_def by blast

definition demo_inspect_env :: relay_env where
  "demo_inspect_env = demo_env\<lparr>re_decoder := (\<lambda>p. if p = ''minecraft-java''
     then Some (decode_minecraft (\<lambda>bytes. Some (replicate (length bytes) CHR ''a''))) else None)\<rparr>"

text \<open>A valid handshake in two segments.\<close>

definition demo_inspected_events :: "relay_event list" where
  "demo_inspected_events = [ClientData [7, 0, 0] [] Map.empty, ClientData [1, 97, 99, 221, 1] [] Map.empty, UpstreamOpen []]"

lemma demo_inspected_run:
  "map_option tc_sent_upstream (relay demo_inspect_env (Admitted False Map.empty # demo_inspected_events) new_connection)
     = Some [80, 13, 10, 7, 0, 0, 1, 97, 99, 221, 1]"
  by code_simp

lemma demo_inspection: "\<not> inspection_off demo_inspect_env \<and> decoded_protocols demo_inspect_env = [''minecraft-java'']
    \<and> stream_decode_config_for (re_registry demo_inspect_env) (tp_ruleset_ids (re_policy demo_inspect_env)) ''minecraft-java'' = Some (3000, 2048)"
  by code_simp

theorem nothing_sent_before_verdict_witness:
  "\<exists>inspected e after k. demo_inspected_events = inspected @ e # after \<and> verdict_event e k
    \<and> verdict_passes demo_inspect_env (k ++ da_fields (decode_with demo_inspect_env ''minecraft-java'' (data_from_client (inspected @ [e]))))"
proof -
  obtain c where c: "relay demo_inspect_env (Admitted False Map.empty # demo_inspected_events) new_connection = Some c" "tc_sent_upstream c \<noteq> []"
    using demo_inspected_run by (cases "relay demo_inspect_env (Admitted False Map.empty # demo_inspected_events) new_connection") auto
  obtain before known later where split: "Admitted False Map.empty # demo_inspected_events = before @ Admitted False known # later"
    and decided: "inspection_off demo_inspect_env \<or> decoded_protocols demo_inspect_env = [] \<and> verdict_passes demo_inspect_env known
     \<or> (\<exists>protocol others inspected e after k. decoded_protocols demo_inspect_env = protocol # others \<and> later = inspected @ e # after
          \<and> verdict_event e k \<and> verdict_passes demo_inspect_env
            (k ++ da_fields (decode_with demo_inspect_env protocol (data_from_client (inspected @ [e])))))"
    using nothing_sent_before_verdict [OF c] by blast
  have "later = demo_inspected_events"
    using split by (cases before) (auto simp: demo_inspected_events_def Cons_eq_append_conv append_eq_Cons_conv)
  then show ?thesis using decided demo_inspection by auto
qed

section \<open>How the bytes are cut\<close>





lemma awaiting_flush [simp]: "tc_awaiting (flush_tcp ToClient ws c) = tc_awaiting c"
proof -
  have "tc_awaiting (flush_queue ToClient ws q c) = tc_awaiting c" for q
    by (induction ToClient ws q c rule: flush_queue.induct) (simp_all add: Let_def finish_tcp_def direction_defs split: prod.split)
  then show ?thesis by (simp add: flush_tcp_def)
qed








section \<open>Data that arrives before the admission ends\<close>

lemma note_username_cells [simp]:
  "tc_to_upstream (note_username v c) = tc_to_upstream c" "tc_header (note_username v c) = tc_header c"
  by (simp_all add: note_username_def split: option.split field_content.split)

lemma early_data_queued:
  assumes "length d \<le> re_max_buffered env"
  shows "relay_handle env (ClientData d ws k) new_connection = new_connection\<lparr>tc_to_upstream := [d], tc_queued := length d, tc_client_paused := True\<rparr>"
  using assms by (simp add: new_connection_def write_tcp_def queue_tcp_def has_destination_def queue_of_def set_queue_def set_paused_def Let_def)

text \<open>
  C40: data the client sends while the admission still waits for the database goes to the upstream queue and
  not to the decoder, and pauses the client, so that the decoder sees no byte until its time limit; then the
  verdict is that of an empty buffer, and if that passes, the data goes to the upstream uninspected, whatever it is.
\<close>

theorem early_data_escapes_inspection:
  assumes "tp_mode (re_policy env) \<noteq> StreamOff" and "tp_ruleset_ids (re_policy env) \<noteq> []"
    and "stream_decode_protocols (re_registry env) (tp_ruleset_ids (re_policy env)) = protocol # others"
    and "d \<noteq> []" and "length d \<le> re_max_buffered env"
    and "verdict_passes env (known ++ da_fields (decode_buffer env (new_connection\<lparr>tc_decode_protocol := Some protocol\<rparr>)))"
  shows "\<exists>c. relay env [ClientData d [] k0, Admitted False k1, DecodeTimeout known, UpstreamOpen []] new_connection = Some c
    \<and> tc_sent_upstream c = header_rest (re_header env) 0 @ d \<and> \<not> tc_closed c"
proof -
  define c1 where "c1 = new_connection\<lparr>tc_to_upstream := [d], tc_queued := length d, tc_client_paused := True\<rparr>"
  define most where "most = (case stream_decode_config_for (re_registry env) (tp_ruleset_ids (re_policy env)) protocol of Some (_, m) \<Rightarrow> m | None \<Rightarrow> 2048)"
  define c2 where "c2 = c1\<lparr>tc_admitted := True, tc_decode_protocol := Some protocol, tc_decode_max := most, tc_decode_timer := True\<rparr>"
  have c2: "relay_handle env (Admitted False k1) c1 = c2"
    using assms(1-3) by (simp add: admit_tcp_def begin_decode_def c2_def c1_def most_def new_connection_def Let_def)
  have buffer: "decode_buffer env (c2\<lparr>tc_decode_timer := False\<rparr>) = decode_buffer env (new_connection\<lparr>tc_decode_protocol := Some protocol\<rparr>)"
    by (simp add: decode_buffer_def c2_def c1_def new_connection_def cong: option.case_cong)
  have cells: "tc_decode_protocol c2 = Some protocol" "\<not> tc_awaiting c2" "\<not> tc_closed c2" "tc_decode_chunks c2 = []" "tc_to_upstream c2 = [d]"
    "tc_header c2 = None" "tc_sent_upstream c2 = []" "\<not> tc_upstream c2"
    by (simp_all add: c2_def c1_def new_connection_def)
  obtain c where c: "relay_handle env (DecodeTimeout known) c2 = open_tcp_upstream env c" "\<not> tc_closed c" "tc_to_upstream c = [d]"
    "tc_header c = None" "tc_sent_upstream c = []" "\<not> tc_upstream c"
  proof -
    define c3 where "c3 = note_username (da_fields (decode_buffer env c2)) (c2\<lparr>tc_awaiting := True, tc_decode_timer := False\<rparr>)"
    have "relay_handle env (DecodeTimeout known) c2 =
        open_tcp_upstream env (c3\<lparr>tc_decode_protocol := None, tc_awaiting := False, tc_decode_chunks := [], tc_decode_bytes := 0\<rparr>)"
      using assms(6) unfolding buffer [symmetric] c3_def
      by (simp add: force_finish_decode_def finish_decode_def evaluate_and_proceed_def verdict_passes_def Let_def cells)
    then show ?thesis by (rule that) (simp_all add: c3_def cells)
  qed
  define c4 where "c4 = relay_handle env (UpstreamOpen []) (open_tcp_upstream env c)"
  have c4: "\<not> tc_closed c4" "tc_sent_upstream c4 = header_rest (re_header env) 0 @ d"
    using c(2-6) by (cases "re_header env";
      simp add: c4_def open_tcp_upstream_def flush_tcp_def has_destination_def queue_of_def set_queue_def add_sent_def set_paused_def Let_def)+
  have "relay_allowed new_connection (ClientData d [] k0)" "relay_allowed c1 (Admitted False k1)" "relay_allowed c2 (DecodeTimeout known)"
    "relay_allowed (open_tcp_upstream env c) (UpstreamOpen [])"
    using assms(4) c(6) by (simp_all add: c2_def c1_def new_connection_def)
  then have "relay env [ClientData d [] k0, Admitted False k1, DecodeTimeout known, UpstreamOpen []] new_connection = Some c4"
    using early_data_queued [OF assms(5), of "[]" k0] c2 c(1) by (simp add: c1_def [symmetric] c4_def del: relay_handle.simps relay_allowed.simps)
  then show ?thesis using c4 by blast
qed

text \<open>The same five bytes, which are no packet of the protocol, are refused after the admission and relayed before it.\<close>

lemma late_data_refused:
  "map_option (\<lambda>c. (tc_ban_pending c, tc_sent_upstream c)) (relay demo_env [Admitted False Map.empty, ClientData [255, 255, 255, 255, 255] [] Map.empty] new_connection)
     = Some (True, [])"
  by code_simp

lemma demo_verdict_on_nothing: "verdict_passes demo_env (Map.empty ++ da_fields (decode_buffer demo_env (new_connection\<lparr>tc_decode_protocol := Some ''minecraft-java''\<rparr>)))"
  by code_simp

lemma demo_decode_protocols:
  "tp_mode (re_policy demo_env) \<noteq> StreamOff \<and> tp_ruleset_ids (re_policy demo_env) = [''mc''] \<and> re_max_buffered demo_env = 64
    \<and> re_header demo_env = Some [80, 13, 10]
    \<and> stream_decode_protocols (re_registry demo_env) [''mc''] = [''minecraft-java'']"
  by code_simp

theorem early_data_escapes_inspection_witness:
  "\<exists>c. relay demo_env [ClientData [255, 255, 255, 255, 255] [] Map.empty, Admitted False Map.empty, DecodeTimeout Map.empty, UpstreamOpen []] new_connection = Some c
    \<and> tc_sent_upstream c = [80, 13, 10, 255, 255, 255, 255, 255] \<and> \<not> tc_closed c"
proof -
  have "\<exists>c. relay demo_env [ClientData [255, 255, 255, 255, 255] [] Map.empty, Admitted False Map.empty, DecodeTimeout Map.empty, UpstreamOpen []] new_connection = Some c
    \<and> tc_sent_upstream c = header_rest (re_header demo_env) 0 @ [255, 255, 255, 255, 255] \<and> \<not> tc_closed c"
    by (rule early_data_escapes_inspection [OF _ _ _ _ _ demo_verdict_on_nothing]) (simp_all add: demo_decode_protocols)
  then show ?thesis by (simp only: demo_decode_protocols header_rest.simps drop_0 append_Cons append_Nil)
qed

end
