(* ===== verification/Spec2Isabelle.thy ===== *)
theory Spec2Isabelle
  imports Network_Rules Ha_Write_Barrier Crowdsec_Store Static_Cache Challenge_Flow Load_Balancer Proxy_Protocol Search_Query Stored_Policy
    Threat_Policy Route_Policy Access_List Managed_Protection Stream_Protection Stream_Decoder Traffic_Limits Stream_Relay
begin

text \<open>
  BurrowGate is a self-hosted reverse proxy and access gateway: it terminates HTTP, web socket, TCP and
  UDP traffic, decides by network rules, threat feeds and challenges who may pass, picks an origin and
  forwards. Several nodes form a cluster with one primary that owns the configuration. This library models
  the decision logic of the program and proves it correct; paths below are under \<open>src/src/\<close>.

  \<^bold>\<open>Parts and how they meet.\<close> A connection may start with a PROXY header that names the real client. The
  client's address is parsed and matched against the rules of the site, the route and the stream, against
  the CrowdSec decisions and against the lists of anonymisers and bots. For a request the route policies of
  the site are ranked and the best one that matches is merged with the site's settings; the HTTP policy that
  results limits and inspects the request and runs the managed rules over it. A visitor may have to solve
  the steps of a challenge, log in to an access list, or show a token; a session records that. A request
  that passes may be answered from the static cache, and otherwise goes to the origin that the load balancer
  picks among those the health manager reports as usable. A stream connection is judged by its first bytes,
  its behaviour over the last minute and its traffic. The administrator changes settings through writes that
  run under the write barrier of the primary; elections decide which node is primary. The dashboard searches
  its tables with a small query language.

  \<^bold>\<open>Theories.\<close>

  \<^item> \<open>Prelude\<close>: the parts of JavaScript the sources use (strings, numerals, stable sorting,
    insertion-ordered maps) and three interfaces as locales: \<open>keyed_store\<close> (what a read returns after a
    write or a removal; interpreted by the insertion-ordered map and by the CrowdSec index),
    \<open>read_through_cache\<close> (a cache in front of a table; interpreted by the rule services) and
    \<open>quorum_system\<close> (two quorums meet; interpreted by the majorities of the election).
  \<^item> \<open>Ip_Address\<close>: \<open>utils/ip.ts\<close>. Parsing addresses and blocks, membership as an interval, private ranges.
  \<^item> \<open>Network_Rules\<close>: \<open>services/ip-rule-service.ts\<close>, \<open>route-ip-rule-service.ts\<close>,
    \<open>stream-ip-rule-service.ts\<close>, the lookups of \<open>geoip-service.ts\<close>. Tables, rule cache, the decision
    cascade, automatic bans. The most specific active rule decides, the cache is never stale, a ban holds
    until it expires.
  \<^item> \<open>Crowdsec_Store\<close>: \<open>services/crowdsec-decision-store.ts\<close>. The index of decisions: what a lookup answers,
    what a sweep keeps, what a removal promotes, and durations as the feed prints them. Decisions run out at any
    time; what the index answers then is part of the theorems.
  \<^item> \<open>Static_Cache\<close>: \<open>services/static-cache-service.ts\<close>, \<open>utils/cookies.ts\<close>. Bounds and exact accounting of
    the cache, freshness and exactness of a hit, least-recently-used eviction, only public responses stored.
  \<^item> \<open>Origin_Health\<close>: \<open>services/origin-health-service.ts\<close>. The state machine of an origin against a
    reference over the list of results, the bound on checks in flight, incidents across configuration changes.
  \<^item> \<open>Load_Balancer\<close>: \<open>services/load-balancer-service.ts\<close>. What a selected origin satisfies, that one is
    selected when one could be, exact weights and fairness, stability of affinity by address.
  \<^item> \<open>Proxy_Protocol\<close>: \<open>services/stream-proxy-protocol.ts\<close>, \<open>incoming-proxy-protocol.ts\<close>,
    \<open>proxy-protocol-ingress.ts\<close>. Round trip of the header through writer and reader in any segmentation,
    and no spoofing by clients that are not trusted proxies.
  \<^item> \<open>Search_Query\<close>: \<open>services/search-query.ts\<close>, \<open>db/search-sql.ts\<close>. Tokenizer, parser, evaluation, SQL;
    the SQL selects the rows the query matches as long as \<open>LOWER\<close> of the database and \<open>toLowerCase\<close> agree on the
    columns, which they do not on accented letters, and the parser always answers.
  \<^item> \<open>Ha_Election\<close>: \<open>services/ha-election-service.ts\<close> with the parts of \<open>ha-mesh-service.ts\<close> and of
    \<open>db/repository.ts\<close> it uses. One winner per term under any interleaving, loss of messages and restart.
  \<^item> \<open>Ha_Write_Barrier\<close>: \<open>services/ha-write-barrier.ts\<close>. No write while a promotion holds its fence, and
    the drain that a promotion waits for ends.
  \<^item> \<open>Json\<close>: the values of \<open>JSON.parse\<close>, the conversions \<open>String\<close> and \<open>Number\<close>, results of validation.
  \<^item> \<open>Challenge_Providers\<close>: \<open>challenges/\<close>. The snake, quiz, password and proof-of-work answers; a
    snake answer is accepted only for a game won by the rules, with the apples of the server's seed.
  \<^item> \<open>Visitor_Session\<close>: \<open>services/session-service.ts\<close>, \<open>utils/cookies.ts\<close>, and the rows of
    \<open>db/repository.ts\<close> they use. An issued session is found by its cookie until it ends.
  \<^item> \<open>Challenge_Flow\<close>: \<open>services/challenge-service.ts\<close>. Requests that interleave at every database statement;
    a session needs an accepted answer to every step, while the limit on attempts can be passed in parallel.
  \<^item> \<open>Form_Inspection\<close>: \<open>services/request-input-inspector.ts\<close>. The inspection of query and form bodies in
    pieces decides what the whole body contains.
  \<^item> \<open>Http_Policy\<close>, \<open>Stored_Policy\<close>: \<open>services/http-policy-service.ts\<close>. Parsing, storing, merging and applying
    the HTTP policies of sites and routes; the first holds the definitions, the second what they satisfy.
  \<^item> \<open>Threat_Policy\<close>: \<open>crowdsec-policy-service.ts\<close>, \<open>bot-service.ts\<close>, \<open>network-privacy-service.ts\<close>. Policies
    for known bad, automated and anonymised clients: what is stored, decided and refreshed.
  \<^item> \<open>Route_Policy\<close>: \<open>route-policy-service.ts\<close>, \<open>websocket-policy-service.ts\<close>. Path patterns, validation of
    records, the ranked choice of the policy of a request and its web socket limits.
  \<^item> \<open>Access_List\<close>: \<open>access-list-service.ts\<close>, \<open>access-sso-service.ts\<close>. Accounts of sites, logins and their
    failures, API tokens, accounts of single sign-on. Changes, removals and logins run one query at a time, in any
    order: what holds while changes do not overlap, and what overlapping ones and waiting logins break.
  \<^item> \<open>Managed_Protection\<close>: \<open>managed-ruleset-compiler.ts\<close>, \<open>managed-protection-service.ts\<close>,
    \<open>managed-ruleset-loader.ts\<close>. Compiling, loading and running rules over requests.
  \<^item> \<open>Stream_Protection\<close>, \<open>Stream_Decoder\<close>: \<open>stream-ruleset-compiler.ts\<close>, \<open>stream-protection-service.ts\<close>, the
    stored stream policies, and \<open>stream-protocol-decoders/minecraft-java.ts\<close>. Rules over decoded fields, and
    that the decoding is exact and that more bytes never take back what was decoded.
  \<^item> \<open>Traffic_Limits\<close>: \<open>bandwidth-limit-service.ts\<close>, \<open>stream-connection-tracker.ts\<close>, \<open>rate-limit-service.ts\<close>.
    One ban per window and address, and the counters behind the rules of streams.
  \<^item> \<open>Stream_Relay\<close>: \<open>stream-proxy-service.ts\<close>. One TCP connection from admission over inspection to relaying:
    no byte is lost, repeated or sent before the verdict, the verdict does not depend on how the bytes are cut while
    they stay below the limit of the decoder, and what arrives before the admission ends escapes the inspection.
  \<^item> This theory: the timing check of \<open>config.ts\<close> and what it gives for a primary and a replica together.

  \<^bold>\<open>How code became definitions.\<close> An exported function or method is one definition of the same name in
  snake case; a class is a record of its fields, and its methods map a state to a result and a state. A throw
  is a value of a sum type. The handlers of the event loop are atomic up to an \<open>await\<close>; where other handlers
  can run at an \<open>await\<close> and the code depends on it, the handler is split there (campaigns, health checks, challenges, changes of accounts, logins, stream connections). The
  clock, random numbers, fresh identifiers, \<open>Date.parse\<close>, the URL parser, \<open>localeCompare\<close>, the GeoIP readers and
  answers of peers are arguments of the definitions. Strings are lists of Latin-1 characters, with the case mapping of JavaScript on them, times are
  integers in milliseconds, \<open>bigint\<close> values are natural numbers, and 32-bit operators work on words.

  \<^bold>\<open>Bounds and fuel.\<close> The search parser recurses with fuel \<open>6 * length + 6\<close> over its tokens; the
  result of running out is shown never to occur, so the fuel is enough for every input. All other recursions
  are structural or have a termination proof.

  \<^bold>\<open>Not modelled.\<close> Sockets, UDP peers, timers, TLS, ACME, hashing and encryption, captcha and push services, mail,
  log files, counters, HTML and OpenAPI documents, and the SQL engine: input, output and third-party code.
  The regular-expression engine and the rate limiter are arguments. The slider and trace challenges work on
  floating-point pixels; session assertions, one-time codes and security keys are cryptography around rows
  that the access lists model. The admin API validates with the parsers modelled here and passes on; the
  replication of the cluster copies rows between processes. The dashboard scripts in \<open>public/\<close> are user
  interface.
\<close>

section \<open>Failover across two nodes\<close>

text \<open>
  The check of the timing constants at start-up (\<open>src/src/config.ts\<close>), with the liveness timeout of
  15 seconds and the scheduling margin of 4 seconds of \<open>src/src/ha-timing.ts\<close>.
\<close>

definition unsafe_failover_timing :: "ha_config \<Rightarrow> bool" where
  "unsafe_failover_timing c \<longleftrightarrow> h_auto_failover_enabled c \<and>
     15000 + int (h_quorum_loss_fence_seconds c) * 1000 + 4000 \<ge> int (h_election_timeout_base_seconds c) * 1000"

lemma adopt_keeps_timeout:
  "h_election_timeout_base_seconds (cfg (snd (adopt_discovered_primary parse u a e n))) = h_election_timeout_base_seconds (cfg n)"
  by (auto simp: adopt_discovered_primary_def Let_def split: prod.splits option.splits)

lemma discover_keeps_timeout:
  "h_election_timeout_base_seconds (cfg (snd (try_discover_primary parse ws n))) = h_election_timeout_base_seconds (cfg n)"
proof (induction parse ws n rule: try_discover_primary.induct)
  case (3 parse w rs n)
  show ?case
  proof (cases "wp_epoch w")
    case None
    then show ?thesis using "3.IH"(1) by simp
  next
    case (Some e)
    obtain adopted n' where a: "adopt_discovered_primary parse (the (wp_url w)) (the (wp_admin_url w)) (nat e)
        (abandon_campaign n) = (adopted, n')" by fastforce
    then have n': "h_election_timeout_base_seconds (cfg n') = h_election_timeout_base_seconds (cfg n)"
      using adopt_keeps_timeout [of parse "the (wp_url w)" "the (wp_admin_url w)" "nat e" "abandon_campaign n"]
      by (simp add: abandon_campaign_def)
    show ?thesis
      using "3.IH"(2) [OF Some _ a [symmetric] refl] "3.IH"(3) [OF Some] a n' by (auto simp: Some Let_def)
  qed
qed simp_all

lemma election_timeout_base:
  "0 \<le> random \<Longrightarrow> of_nat (h_election_timeout_base_seconds (cfg n) * 1000) \<le> election_timeout_ms random n"
  by (simp add: election_timeout_ms_def Let_def)

lemma campaign_after_base:
  assumes "tick_replica_election parse replies random now n = (Some camp, n')" and "0 \<le> random"
  shows "int (h_election_timeout_base_seconds (cfg n)) * 1000 \<le> now - m_disconnected_since (net n)"
proof -
  obtain d where d: "disconnected_duration_ms now n = Some d" and
    t: "election_timeout_ms random (snd (try_discover_primary parse replies n)) \<le> of_int d"
    using assms(1) by (auto simp: tick_replica_election_def Let_def split_beta not_less split: if_splits option.splits)
  have "d = now - m_disconnected_since (net n)" using d by (auto simp: disconnected_duration_ms_def split: if_splits)
  moreover have "(of_int (int (h_election_timeout_base_seconds (cfg n) * 1000)) :: rat) \<le> of_int d"
    using election_timeout_base [OF assms(2), of "snd (try_discover_primary parse replies n)"] t
    by (simp only: discover_keeps_timeout of_int_of_nat_eq)
  then have "int (h_election_timeout_base_seconds (cfg n) * 1000) \<le> d" by (simp only: of_int_le_iff)
  ultimately show ?thesis by simp
qed

text \<open>
  C19: an old primary refuses writes before a replica can campaign against it. Take a
  primary that tracks its quorum, with automatic failover on and timing constants that pass the check at start-up,
  and a replica with the same timeout that starts a campaign at some time. If the primary's last confirmed majority is
  not later than the liveness timeout after the replica lost its connection, then from
  four seconds before the campaign on the primary refuses every new configuration write.
\<close>

theorem old_primary_fenced_before_campaign:
  assumes "\<not> unsafe_failover_timing c" and "h_auto_failover_enabled c" and "h_quorum_tracking_active c"
    and "tick_replica_election parse replies random now n = (Some camp, n')" and "0 \<le> random"
    and "h_election_timeout_base_seconds (cfg n) = h_election_timeout_base_seconds c"
    and "h_last_majority_confirmed_at c \<le> m_disconnected_since (net n) + 15000"
    and "b_cfg b = c" and "now - 4000 \<le> t"
  shows "start_write None t b = (Inl AuthorityFence, b) \<or> start_write None t b = (Inl QuorumLossFence, b)"
proof -
  have "int (h_election_timeout_base_seconds c) * 1000 \<le> now - m_disconnected_since (net n)"
    using campaign_after_base [OF assms(4,5)] assms(6) by simp
  with assms have "is_quorum_proof_stale t c"
    by (simp add: unsafe_failover_timing_def is_quorum_proof_stale_def)
  then show ?thesis using assms(8) by (simp add: start_write_def write_fence_def)
qed

theorem old_primary_fenced_before_campaign_witness:
  "\<exists>camp n'. tick_replica_election sample_parse [] 0 60000 (sample_node ''a'') = (Some camp, n') \<and>
     start_write None 60000 sample_barrier = (Inl QuorumLossFence, sample_barrier)"
proof -
  have "fst (tick_replica_election sample_parse [] 0 60000 (sample_node ''a'')) = Some sample_campaign"
    using sample_results(1) by (simp add: sample_tick_def)
  then obtain n' where t: "tick_replica_election sample_parse [] 0 60000 (sample_node ''a'') = (Some sample_campaign, n')"
    by (metis prod.collapse)
  have "start_write None 60000 sample_barrier = (Inl AuthorityFence, sample_barrier)
      \<or> start_write None 60000 sample_barrier = (Inl QuorumLossFence, sample_barrier)"
    by (rule old_primary_fenced_before_campaign [OF _ _ _ t, of "cfg sample_primary"])
       (simp_all add: unsafe_failover_timing_def sample_primary_def sample_node_def sample_barrier_def)
  moreover have "start_write None 60000 sample_barrier \<noteq> (Inl AuthorityFence, sample_barrier)"
    by (simp add: start_write_def write_fence_def is_quorum_proof_stale_def sample_barrier_def sample_primary_def sample_node_def)
  ultimately show ?thesis using t by blast
qed

end
